(* ===== verification/Prelude.thy ===== *)
theory Prelude
  imports Main "HOL-Library.Word" "HOL-Library.Monad_Syntax" "HOL-Library.Multiset"
begin

text \<open>
  Shared vocabulary of the Spread daemon model: narrowing of C integers, the loop shapes
  of the C code as list recursions in the option monad, and the collections the component
  proofs use.  A C function of the daemon is a HOL function on an explicit state; where the
  C code can reach \<open>Alarm( EXIT, ... )\<close> (or \<open>Alarmp( SPLOG_FATAL, ... )\<close>), which ends the
  process, the function returns an option and \<open>None\<close> is that exit.
\<close>

unbundle bit_operations_syntax

named_theorems narrow_simps \<open>narrowing of C integers that are in range\<close>
named_theorems field_simps_state \<open>effects of operations on the fields of the state\<close>

section \<open>Machine integers\<close>

text \<open>
  C's \<open>int\<close> and \<open>int32\<close> counters are HOL integers; a store into an \<open>int16\<close> field narrows
  the value to sixteen bits, two's complement.
\<close>

type_synonym byte = "8 word"
type_synonym int32u = "32 word"

definition to_int16 :: "int \<Rightarrow> int" where
  "to_int16 x = signed_take_bit 15 x"

definition to_int32 :: "int \<Rightarrow> int" where
  "to_int32 x = signed_take_bit 31 x"

lemma to_int16_id [narrow_simps]: "- 32768 \<le> x \<Longrightarrow> x < 32768 \<Longrightarrow> to_int16 x = x"
  by (simp add: to_int16_def signed_take_bit_int_eq_self)

lemma to_int32_id [narrow_simps]: "- 2147483648 \<le> x \<Longrightarrow> x < 2147483648 \<Longrightarrow> to_int32 x = x"
  by (simp add: to_int32_def signed_take_bit_int_eq_self)

lemma to_int16_range: "- 32768 \<le> to_int16 x" "to_int16 x < 32768"
  using signed_take_bit_int_greater_eq_minus_exp [of 15 x] signed_take_bit_int_less_exp [of 15 x]
  by (simp_all add: to_int16_def)

text \<open>The slot of a sequence number: the low bits, as \<open>seq & PACKET_MASK\<close> computes it.\<close>

lemma int_and_mask: "(x :: int) AND (2 ^ n - 1) = x mod 2 ^ n"
  by (metis mask_eq_exp_minus_1 take_bit_eq_mask take_bit_eq_mod)

section \<open>Loops\<close>

text \<open>
  \<open>forM is f s\<close> is the loop \<open>for( i = ...; ...; i++ ) f\<close> over the indices \<open>is\<close>; \<open>forB\<close> is the
  same loop with a \<open>break\<close> (the body says whether it breaks).  Both stop at an exit.
\<close>

primrec forM :: "'i list \<Rightarrow> ('i \<Rightarrow> 's \<Rightarrow> 's option) \<Rightarrow> 's \<Rightarrow> 's option" where
  "forM [] f s = Some s"
| "forM (i # is) f s = do { s' \<leftarrow> f i s; forM is f s' }"

primrec forB :: "'i list \<Rightarrow> ('i \<Rightarrow> 's \<Rightarrow> ('s \<times> bool) option) \<Rightarrow> 's \<Rightarrow> 's option" where
  "forB [] f s = Some s"
| "forB (i # is) f s =
     do { (s', brk) \<leftarrow> f i s; if brk then Some s' else forB is f s' }"

definition exit_if :: "bool \<Rightarrow> unit option" where
  "exit_if c = (if c then None else Some ())"

lemma exit_if_simps [simp]:
  "exit_if True = None" "exit_if False = Some ()"
  "(exit_if c = None) = c" "(exit_if c = Some u) = (\<not> c)"
  by (simp_all add: exit_if_def)

lemma bind_exit_if: "Option.bind (exit_if c) f = (if c then None else f ())"
  by simp

lemma bind_Some_iff: "(Option.bind m f = Some y) = (\<exists>x. m = Some x \<and> f x = Some y)"
  by (cases m) auto

lemma forM_append: "forM (is @ js) f s = Option.bind (forM is f s) (forM js f)"
  by (induction "is" arbitrary: s) auto

text \<open>
  The two rules every counted loop is proved with: an invariant indexed by the loop
  variable that each iteration carries on, and its total version, in which the body is
  also shown not to exit.
\<close>

lemma forM_invariant:
  assumes "forM [a..b] f s = Some t" and "P a s" and "a \<le> b + 1"
    and "\<And>i s s'. a \<le> i \<Longrightarrow> i \<le> b \<Longrightarrow> P i s \<Longrightarrow> f i s = Some s' \<Longrightarrow> P (i + 1) s'"
  shows "P (b + 1) t"
  using assms
proof (induction "nat (b + 1 - a)" arbitrary: a s)
  case 0
  then have "a = b + 1" by simp
  with 0 show ?case by simp
next
  case (Suc n)
  then have ab: "a \<le> b" by simp
  with Suc.prems(1) obtain s' where s': "f a s = Some s'" and rest: "forM [a + 1..b] f s' = Some t"
    by (auto simp: upto_rec1 bind_Some_iff)
  have step: "P (a + 1) s'" using Suc.prems(4) [of a s s'] Suc.prems(2) ab s' by simp
  show ?case
  proof (rule Suc.hyps(1) [of "a + 1" s'])
    show "n = nat (b + 1 - (a + 1))" using Suc.hyps(2) by simp
  qed (use rest step Suc.prems(4) ab in auto)
qed

lemma forM_total:
  assumes "P a s" and "a \<le> b + 1"
    and "\<And>i s. a \<le> i \<Longrightarrow> i \<le> b \<Longrightarrow> P i s \<Longrightarrow> \<exists>s'. f i s = Some s' \<and> P (i + 1) s'"
  shows "\<exists>t. forM [a..b] f s = Some t \<and> P (b + 1) t"
  using assms
proof (induction "nat (b + 1 - a)" arbitrary: a s)
  case 0
  then have "a = b + 1" by simp
  with 0 show ?case by auto
next
  case (Suc n)
  then have ab: "a \<le> b" by simp
  from Suc.prems(3) [OF _ ab Suc.prems(1)] obtain s' where
    s': "f a s = Some s'" "P (a + 1) s'" by auto
  have "\<exists>t. forM [a + 1..b] f s' = Some t \<and> P (b + 1) t"
    by (rule Suc.hyps(1)) (use s' Suc ab in auto)
  with s' ab show ?case by (auto simp: upto_rec1)
qed

lemma forM_preserves:
  assumes "forM is f s = Some t" and "Q s"
    and "\<And>i s s'. i \<in> set is \<Longrightarrow> Q s \<Longrightarrow> f i s = Some s' \<Longrightarrow> Q s'"
  shows "Q t"
  using assms
proof (induction "is" arbitrary: s)
  case Nil
  then show ?case by simp
next
  case (Cons i "is")
  from Cons.prems(1) obtain s' where s': "f i s = Some s'" "forM is f s' = Some t"
    by (auto simp: bind_Some_iff)
  have "Q s'" using Cons.prems(3) [of i s s'] Cons.prems(2) s'(1) by simp
  then show ?case
    by (rule Cons.IH [OF s'(2)]) (rule Cons.prems(3); simp)
qed

lemma forB_preserves:
  assumes "forB is f s = Some t" and "Q s"
    and "\<And>i s s' b. i \<in> set is \<Longrightarrow> Q s \<Longrightarrow> f i s = Some (s', b) \<Longrightarrow> Q s'"
  shows "Q t"
  using assms
proof (induction "is" arbitrary: s)
  case Nil
  then show ?case by simp
next
  case (Cons i "is")
  from Cons.prems(1) obtain s' b where s': "f i s = Some (s', b)"
      "(if b then Some s' else forB is f s') = Some t"
    by (auto simp: bind_Some_iff)
  have q: "Q s'" using Cons.prems(3) [of i s s' b] Cons.prems(2) s'(1) by simp
  show ?case
  proof (cases b)
    case True
    with s'(2) q show ?thesis by simp
  next
    case False
    with s'(2) have "forB is f s' = Some t" by simp
    then show ?thesis using q by (rule Cons.IH) (rule Cons.prems(3); simp)
  qed
qed

end
