(* ===== verification/Arch.thy ===== *)
theory Arch
  imports Prelude
begin

text \<open>
  \<open>daemon/arch.h\<close> and \<open>daemon/net_types.h\<close>: the type word of a packet or token and its bit
  fields, the endian flips, the headers that travel on the wire, and the byte layout of the
  headers and retransmission requests that the code reads in place out of a receive buffer.
  The build of the repository is little endian (\<open>config.h\<close> leaves \<open>WORDS_BIGENDIAN\<close> undefined).
\<close>

section \<open>Bit fields of the type word\<close>

definition UNRELIABLE_TYPE :: int32u where "UNRELIABLE_TYPE = 0x00000001"
definition RELIABLE_TYPE :: int32u where "RELIABLE_TYPE = 0x00000002"
definition FIFO_TYPE :: int32u where "FIFO_TYPE = 0x00000004"
definition AGREED_TYPE :: int32u where "AGREED_TYPE = 0x00000008"
definition SAFE_TYPE :: int32u where "SAFE_TYPE = 0x00000010"
definition REGULAR_TYPE :: int32u where "REGULAR_TYPE = 0x0000001f"
definition ROUTED_TYPE :: int32u where "ROUTED_TYPE = 0x00000020"
definition HURRY_TYPE :: int32u where "HURRY_TYPE = 0x00000040"
definition ALIVE_TYPE :: int32u where "ALIVE_TYPE = 0x00000100"
definition JOIN_TYPE :: int32u where "JOIN_TYPE = 0x00000200"
definition REFER_TYPE :: int32u where "REFER_TYPE = 0x00000400"
definition MEMBERSHIP_TYPE :: int32u where "MEMBERSHIP_TYPE = 0x00000700"
definition FORM1_TYPE :: int32u where "FORM1_TYPE = 0x00001000"
definition FORM2_TYPE :: int32u where "FORM2_TYPE = 0x00002000"
definition FORM_TYPE :: int32u where "FORM_TYPE = 0x00003000"
definition ARQ_TYPE :: int32u where "ARQ_TYPE = 0x000f0000"
definition RETRANS_TYPE :: int32u where "RETRANS_TYPE = 0x00f00000"
definition STATUS_TYPE :: int32u where "STATUS_TYPE = 0x01000000"
definition PARTITION_TYPE :: int32u where "PARTITION_TYPE = 0x02000000"
definition FC_TYPE :: int32u where "FC_TYPE = 0x04000000"
definition RELOAD_TYPE :: int32u where "RELOAD_TYPE = 0x08000000"
definition ENDIAN_TYPE :: int32u where "ENDIAN_TYPE = 0x80000080"
definition ARCH_ENDIAN :: int32u where "ARCH_ENDIAN = 0x80000080"
definition MONITOR_HASH :: int32u where "MONITOR_HASH = 1100"

lemmas type_defs =
  UNRELIABLE_TYPE_def RELIABLE_TYPE_def FIFO_TYPE_def AGREED_TYPE_def SAFE_TYPE_def
  REGULAR_TYPE_def ROUTED_TYPE_def HURRY_TYPE_def ALIVE_TYPE_def JOIN_TYPE_def REFER_TYPE_def
  MEMBERSHIP_TYPE_def FORM1_TYPE_def FORM2_TYPE_def FORM_TYPE_def ARQ_TYPE_def RETRANS_TYPE_def
  STATUS_TYPE_def PARTITION_TYPE_def FC_TYPE_def RELOAD_TYPE_def ENDIAN_TYPE_def ARCH_ENDIAN_def

definition Is_reliable :: "int32u \<Rightarrow> bool" where "Is_reliable t = (t AND RELIABLE_TYPE \<noteq> 0)"
definition Is_safe :: "int32u \<Rightarrow> bool" where "Is_safe t = (t AND SAFE_TYPE \<noteq> 0)"
definition Is_regular :: "int32u \<Rightarrow> bool" where "Is_regular t = (t AND REGULAR_TYPE \<noteq> 0)"
definition Is_routed :: "int32u \<Rightarrow> bool" where "Is_routed t = (t AND ROUTED_TYPE \<noteq> 0)"
definition Set_routed :: "int32u \<Rightarrow> int32u" where "Set_routed t = t OR ROUTED_TYPE"
definition Clear_routed :: "int32u \<Rightarrow> int32u" where "Clear_routed t = t AND NOT ROUTED_TYPE"
definition Is_hurry :: "int32u \<Rightarrow> bool" where "Is_hurry t = (t AND HURRY_TYPE \<noteq> 0)"
definition Is_alive :: "int32u \<Rightarrow> bool" where "Is_alive t = (t AND ALIVE_TYPE \<noteq> 0)"
definition Is_join :: "int32u \<Rightarrow> bool" where "Is_join t = (t AND JOIN_TYPE \<noteq> 0)"
definition Is_refer :: "int32u \<Rightarrow> bool" where "Is_refer t = (t AND REFER_TYPE \<noteq> 0)"
definition Is_membership :: "int32u \<Rightarrow> bool" where
  "Is_membership t = (t AND MEMBERSHIP_TYPE \<noteq> 0)"
definition Is_form :: "int32u \<Rightarrow> bool" where "Is_form t = (t AND FORM_TYPE \<noteq> 0)"
definition Is_form1 :: "int32u \<Rightarrow> bool" where "Is_form1 t = (t AND FORM1_TYPE \<noteq> 0)"
definition Is_form2 :: "int32u \<Rightarrow> bool" where "Is_form2 t = (t AND FORM2_TYPE \<noteq> 0)"
definition Get_arq :: "int32u \<Rightarrow> int32u" where "Get_arq t = drop_bit 16 (t AND ARQ_TYPE)"
definition Set_arq :: "int32u \<Rightarrow> int32u \<Rightarrow> int32u" where
  "Set_arq t v = (t AND NOT ARQ_TYPE) OR (push_bit 16 v AND ARQ_TYPE)"
definition Get_retrans :: "int32u \<Rightarrow> int32u" where
  "Get_retrans t = drop_bit 20 (t AND RETRANS_TYPE)"
definition Set_retrans :: "int32u \<Rightarrow> int32u \<Rightarrow> int32u" where
  "Set_retrans t v = (t AND NOT RETRANS_TYPE) OR (push_bit 20 v AND RETRANS_TYPE)"
definition Is_status :: "int32u \<Rightarrow> bool" where "Is_status t = (t AND STATUS_TYPE \<noteq> 0)"
definition Is_partition :: "int32u \<Rightarrow> bool" where "Is_partition t = (t AND PARTITION_TYPE \<noteq> 0)"
definition Is_fc :: "int32u \<Rightarrow> bool" where "Is_fc t = (t AND FC_TYPE \<noteq> 0)"
definition Is_conf_reload :: "int32u \<Rightarrow> bool" where
  "Is_conf_reload t = (t AND RELOAD_TYPE \<noteq> 0)"
definition Set_endian :: "int32u \<Rightarrow> int32u" where
  "Set_endian t = (t AND NOT ENDIAN_TYPE) OR ARCH_ENDIAN"
definition Same_endian :: "int32u \<Rightarrow> bool" where
  "Same_endian t = (t AND ENDIAN_TYPE = ARCH_ENDIAN)"

section \<open>Endian flips\<close>

definition Flip_int16 :: "16 word \<Rightarrow> 16 word" where
  "Flip_int16 t = (drop_bit 8 t AND 0x00ff) OR (push_bit 8 t AND 0xff00)"

definition Flip_int32 :: "int32u \<Rightarrow> int32u" where
  "Flip_int32 t = (drop_bit 24 t AND 0x000000ff) OR (drop_bit 8 t AND 0x0000ff00)
     OR (push_bit 8 t AND 0x00ff0000) OR (push_bit 24 t AND 0xff000000)"

text \<open>The flips of signed fields, which the model keeps as integers.\<close>

definition flip_i16 :: "int \<Rightarrow> int" where
  "flip_i16 x = sint (Flip_int16 (word_of_int x))"

definition flip_i32 :: "int \<Rightarrow> int" where
  "flip_i32 x = sint (Flip_int32 (word_of_int x))"

section \<open>Headers\<close>

record membership_id =
  mid_proc_id :: int32u
  mid_time :: int

record packet_header =
  ph_type :: int32u
  ph_transmiter_id :: int32u
  ph_proc_id :: int32u
  ph_memb_id :: membership_id
  ph_seq :: int
  ph_fifo_seq :: int
  ph_packet_index :: int
  ph_data_len :: int
  ph_conf_hash :: int32u

record token_header =
  th_type :: int32u
  th_transmiter_id :: int32u
  th_seq :: int
  th_proc_id :: int32u
  th_aru :: int
  th_aru_last_id :: int32u
  th_flow_control :: int
  th_rtr_len :: int
  th_conf_hash :: int32u

record ring_rtr =
  rr_memb_id :: membership_id
  rr_proc_id :: int32u
  rr_seg_index :: int
  rr_num_seq :: int

definition sizeof_int32 :: int where "sizeof_int32 = 4"
definition sizeof_packet_header :: int where "sizeof_packet_header = 36"
definition sizeof_token_header :: int where "sizeof_token_header = 32"
definition sizeof_ring_rtr :: int where "sizeof_ring_rtr = 16"
definition MAX_PACKET_SIZE :: int where "MAX_PACKET_SIZE = 1472"
definition sizeof_token_body :: int where
  "sizeof_token_body = MAX_PACKET_SIZE - sizeof_token_header"

lemmas size_defs = sizeof_int32_def sizeof_packet_header_def sizeof_token_header_def
  sizeof_ring_rtr_def MAX_PACKET_SIZE_def sizeof_token_body_def

text \<open>\<open>network.c\<close> flips a received header in place, field by field.\<close>

definition Flip_memb_id :: "membership_id \<Rightarrow> membership_id" where
  "Flip_memb_id m = \<lparr>mid_proc_id = Flip_int32 (mid_proc_id m), mid_time = flip_i32 (mid_time m)\<rparr>"

definition Flip_pack :: "packet_header \<Rightarrow> packet_header" where
  "Flip_pack p = \<lparr>
     ph_type = Flip_int32 (ph_type p),
     ph_transmiter_id = Flip_int32 (ph_transmiter_id p),
     ph_proc_id = Flip_int32 (ph_proc_id p),
     ph_memb_id = Flip_memb_id (ph_memb_id p),
     ph_seq = flip_i32 (ph_seq p),
     ph_fifo_seq = flip_i32 (ph_fifo_seq p),
     ph_packet_index = flip_i16 (ph_packet_index p),
     ph_data_len = flip_i16 (ph_data_len p),
     ph_conf_hash = Flip_int32 (ph_conf_hash p)\<rparr>"

definition Flip_token :: "token_header \<Rightarrow> token_header" where
  "Flip_token t = \<lparr>
     th_type = Flip_int32 (th_type t),
     th_transmiter_id = Flip_int32 (th_transmiter_id t),
     th_seq = flip_i32 (th_seq t),
     th_proc_id = Flip_int32 (th_proc_id t),
     th_aru = flip_i32 (th_aru t),
     th_aru_last_id = Flip_int32 (th_aru_last_id t),
     th_flow_control = flip_i16 (th_flow_control t),
     th_rtr_len = flip_i16 (th_rtr_len t),
     th_conf_hash = Flip_int32 (th_conf_hash t)\<rparr>"

section \<open>Facts about the bit fields\<close>

text \<open>
  The masks as runs of bits, so that facts about the fields are proved bit by bit.
\<close>

lemma type_masks:
  "ARQ_TYPE = push_bit 16 (mask 4)" "RETRANS_TYPE = push_bit 20 (mask 4)"
  "ROUTED_TYPE = push_bit 5 (mask 1)" "RELIABLE_TYPE = push_bit 1 (mask 1)"
  "SAFE_TYPE = push_bit 4 (mask 1)"
  "ENDIAN_TYPE = push_bit 31 (mask 1) OR push_bit 7 (mask 1)"
  "ARCH_ENDIAN = push_bit 31 (mask 1) OR push_bit 7 (mask 1)"
  by (simp_all add: type_defs mask_eq_exp_minus_1)

lemma flip_masks:
  "(0x00ff :: 16 word) = mask 8" "(0xff00 :: 16 word) = push_bit 8 (mask 8)"
  "(0x000000ff :: int32u) = mask 8" "(0x0000ff00 :: int32u) = push_bit 8 (mask 8)"
  "(0x00ff0000 :: int32u) = push_bit 16 (mask 8)" "(0xff000000 :: int32u) = push_bit 24 (mask 8)"
  by (simp_all add: mask_eq_exp_minus_1)

lemma Get_arq_Set_arq [simp]: "Get_arq (Set_arq t v) = v AND mask 4"
  unfolding Get_arq_def Set_arq_def type_masks
  by (intro bit_word_eqI) (auto simp: bit_simps)

lemma Get_retrans_Set_retrans [simp]: "Get_retrans (Set_retrans t v) = v AND mask 4"
  unfolding Get_retrans_def Set_retrans_def type_masks
  by (intro bit_word_eqI) (auto simp: bit_simps)

lemma Get_retrans_Set_arq [simp]: "Get_retrans (Set_arq t v) = Get_retrans t"
  unfolding Get_retrans_def Set_arq_def type_masks
  by (intro bit_word_eqI) (auto simp: bit_simps)

lemma Get_arq_Set_retrans [simp]: "Get_arq (Set_retrans t v) = Get_arq t"
  unfolding Get_arq_def Set_retrans_def type_masks
  by (intro bit_word_eqI) (auto simp: bit_simps)

lemma Get_arq_masked [simp]: "Get_arq t AND mask 4 = Get_arq t"
  unfolding Get_arq_def type_masks by (intro bit_word_eqI) (auto simp: bit_simps)

lemma Get_retrans_masked [simp]: "Get_retrans t AND mask 4 = Get_retrans t"
  unfolding Get_retrans_def type_masks by (intro bit_word_eqI) (auto simp: bit_simps)

lemma bit_ENDIAN_TYPE: "bit ENDIAN_TYPE n \<longleftrightarrow> n = 7 \<or> n = 31" "bit ARCH_ENDIAN n \<longleftrightarrow> n = 7 \<or> n = 31"
  unfolding type_masks by (simp_all only: bit_or_iff bit_push_bit_iff bit_mask_iff possible_bit_word) auto

lemma bit_single:
  "bit ROUTED_TYPE n \<longleftrightarrow> n = 5" "bit RELIABLE_TYPE n \<longleftrightarrow> n = 1" "bit SAFE_TYPE n \<longleftrightarrow> n = 4"
  unfolding type_masks by (simp_all only: bit_push_bit_iff bit_mask_iff possible_bit_word) auto

lemma and_nonzero_bits: "(t AND m \<noteq> 0) = (\<exists>n. bit t n \<and> bit (m :: int32u) n)"
proof -
  have "n < 32" if "bit t n" for n using bit_imp_le_length [OF that] by simp
  then show ?thesis by (subst bit_eq_iff) (auto simp: bit_and_iff)
qed

lemma Same_endian_bits: "Same_endian t \<longleftrightarrow> bit t 31 \<and> bit t 7"
proof
  assume "Same_endian t"
  then have "bit (t AND ENDIAN_TYPE) n = bit ARCH_ENDIAN n" for n
    by (simp add: Same_endian_def)
  then have "bit t n \<and> (n = 7 \<or> n = 31) \<longleftrightarrow> n = 7 \<or> n = 31" for n
    by (simp add: bit_and_iff bit_ENDIAN_TYPE)
  then show "bit t 31 \<and> bit t 7" by blast
next
  assume "bit t 31 \<and> bit t 7"
  then show "Same_endian t" unfolding Same_endian_def
    by (intro bit_word_eqI) (auto simp: bit_and_iff bit_ENDIAN_TYPE)
qed

lemma Same_endian_Set_endian [simp]: "Same_endian (Set_endian t)"
  unfolding Same_endian_bits Set_endian_def by (simp add: bit_or_iff bit_ENDIAN_TYPE)

lemma bit_Flip_int16:
  "bit (Flip_int16 t) n = (if n < 8 then bit t (n + 8) else n < 16 \<and> bit t (n - 8))"
  unfolding Flip_int16_def flip_masks by (auto simp: bit_simps ac_simps)

lemma bit_Flip_int32:
  "bit (Flip_int32 t) n =
     (if n < 8 then bit t (n + 24) else if n < 16 then bit t (n + 8)
      else if n < 24 then bit t (n - 8) else n < 32 \<and> bit t (n - 24))"
  unfolding Flip_int32_def flip_masks by (auto simp: bit_simps ac_simps)

lemma Flip_int16_involution [simp]: "Flip_int16 (Flip_int16 t) = t"
proof (rule bit_word_eqI)
  fix n assume "n < LENGTH(16)"
  then have "n < 8 \<or> 8 \<le> n \<and> n < 16" by auto
  then show "bit (Flip_int16 (Flip_int16 t)) n = bit t n"
    by (auto simp: bit_Flip_int16)
qed

lemma Flip_int32_involution [simp]: "Flip_int32 (Flip_int32 t) = t"
proof (rule bit_word_eqI)
  fix n assume "n < LENGTH(32)"
  then have "n < 8 \<or> 8 \<le> n \<and> n < 16 \<or> 16 \<le> n \<and> n < 24 \<or> 24 \<le> n \<and> n < 32" by auto
  then show "bit (Flip_int32 (Flip_int32 t)) n = bit t n"
    by (auto simp: bit_Flip_int32)
qed

lemma Same_endian_Flip_int32 [simp]: "Same_endian (Flip_int32 t) = Same_endian t"
  by (auto simp: Same_endian_bits bit_Flip_int32)

lemma flip_i16_involution: "- 32768 \<le> x \<Longrightarrow> x < 32768 \<Longrightarrow> flip_i16 (flip_i16 x) = x"
  by (simp add: flip_i16_def signed_of_int signed_take_bit_int_eq_self)

lemma flip_i32_involution: "- 2147483648 \<le> x \<Longrightarrow> x < 2147483648 \<Longrightarrow> flip_i32 (flip_i32 x) = x"
  by (simp add: flip_i32_def signed_of_int signed_take_bit_int_eq_self)

lemma Is_reliable_bit: "Is_reliable t = bit t 1"
  by (auto simp: Is_reliable_def and_nonzero_bits bit_single)

lemma Is_safe_bit: "Is_safe t = bit t 4"
  by (auto simp: Is_safe_def and_nonzero_bits bit_single)

lemma service_bits_kept [simp]:
  "Is_reliable (Set_routed t) = Is_reliable t" "Is_reliable (Clear_routed t) = Is_reliable t"
  "Is_reliable (Set_endian t) = Is_reliable t"
  "Is_safe (Set_routed t) = Is_safe t" "Is_safe (Clear_routed t) = Is_safe t"
  "Is_safe (Set_endian t) = Is_safe t"
  unfolding Is_reliable_bit Is_safe_bit Set_routed_def Clear_routed_def Set_endian_def
  by (simp_all add: bit_and_iff bit_or_iff bit_not_iff bit_single bit_ENDIAN_TYPE)

end
