(* ===== verification/Wire.thy ===== *)
theory Wire
  imports Arch
begin

text \<open>
  Structures that the daemon reads and writes in place inside a character buffer
  (\<open>(ring_rtr *)&rtr[ptr]\<close>, \<open>(packet_header *)&buf[ptr]\<close>): the little endian layout of the
  integers and of the two structures, with every access bounds checked.  An access outside
  the buffer, which in C is undefined, yields \<open>None\<close>.
\<close>

section \<open>Integers in a buffer\<close>

definition bytes16 :: "16 word \<Rightarrow> byte list" where
  "bytes16 w = [ucast w, ucast (drop_bit 8 w)]"

definition bytes32 :: "int32u \<Rightarrow> byte list" where
  "bytes32 w = [ucast w, ucast (drop_bit 8 w), ucast (drop_bit 16 w), ucast (drop_bit 24 w)]"

definition word16 :: "byte list \<Rightarrow> 16 word" where
  "word16 bs = ucast (bs ! 0) OR push_bit 8 (ucast (bs ! 1))"

definition word32 :: "byte list \<Rightarrow> int32u" where
  "word32 bs = ucast (bs ! 0) OR push_bit 8 (ucast (bs ! 1)) OR
     push_bit 16 (ucast (bs ! 2)) OR push_bit 24 (ucast (bs ! 3))"

lemma length_bytes [simp]: "length (bytes16 w) = 2" "length (bytes32 v) = 4"
  by (simp_all add: bytes16_def bytes32_def)

lemma word16_bytes16 [simp]: "word16 (bytes16 w @ bs) = w" "word16 (bytes16 w) = w"
proof -
  have "word16 (bytes16 w @ bs) = w" for bs
    unfolding word16_def bytes16_def
    by (intro bit_word_eqI) (auto simp: bit_simps not_le)
  from this [of bs] this [of "[]"]
  show "word16 (bytes16 w @ bs) = w" "word16 (bytes16 w) = w" by simp_all
qed

lemma word32_bytes32 [simp]: "word32 (bytes32 w @ bs) = w" "word32 (bytes32 w) = w"
proof -
  have "word32 (bytes32 w @ bs) = w" for bs
  proof (rule bit_word_eqI)
    fix n assume "n < LENGTH(32)"
    then have "n < 8 \<or> 8 \<le> n \<and> n < 16 \<or> 16 \<le> n \<and> n < 24 \<or> 24 \<le> n \<and> n < 32" by auto
    then show "bit (word32 (bytes32 w @ bs)) n = bit w n"
      unfolding word32_def bytes32_def by (auto simp: bit_simps)
  qed
  from this [of bs] this [of "[]"]
  show "word32 (bytes32 w @ bs) = w" "word32 (bytes32 w) = w" by simp_all
qed

section \<open>Bounds-checked access\<close>

definition get_bytes :: "byte list \<Rightarrow> int \<Rightarrow> int \<Rightarrow> byte list option" where
  "get_bytes buf off n =
     (if 0 \<le> off \<and> 0 \<le> n \<and> off + n \<le> int (length buf)
      then Some (take (nat n) (drop (nat off) buf)) else None)"

definition put_bytes :: "byte list \<Rightarrow> int \<Rightarrow> byte list \<Rightarrow> byte list option" where
  "put_bytes buf off bs =
     (if 0 \<le> off \<and> off + int (length bs) \<le> int (length buf)
      then Some (take (nat off) buf @ bs @ drop (nat off + length bs) buf) else None)"

definition get_int32 :: "byte list \<Rightarrow> int \<Rightarrow> int option" where
  "get_int32 buf off = map_option (\<lambda>bs. sint (word32 bs)) (get_bytes buf off 4)"

definition put_int32 :: "byte list \<Rightarrow> int \<Rightarrow> int \<Rightarrow> byte list option" where
  "put_int32 buf off v = put_bytes buf off (bytes32 (word_of_int v))"

text \<open>
  \<open>memmove( &buf[dst], &buf[src], n )\<close> inside one buffer: the source is read before the
  destination is written.  A count that C converts to a huge unsigned size is out of bounds.
\<close>

definition memmove_in :: "byte list \<Rightarrow> int \<Rightarrow> int \<Rightarrow> int \<Rightarrow> byte list option" where
  "memmove_in buf dst src n = do { bs \<leftarrow> get_bytes buf src n; put_bytes buf dst bs }"

lemma get_bytes_length: "get_bytes buf off n = Some bs \<Longrightarrow> int (length bs) = n"
  by (auto simp: get_bytes_def split: if_splits)

lemma put_bytes_length: "put_bytes buf off bs = Some buf' \<Longrightarrow> length buf' = length buf"
  by (auto simp: put_bytes_def split: if_splits)

lemma get_bytes_at:
  "0 \<le> off \<Longrightarrow> nat off = length pre \<Longrightarrow> n = int (length bs) \<Longrightarrow>
   get_bytes (pre @ bs @ post) off n = Some bs"
  by (auto simp: get_bytes_def)

lemma put_bytes_at:
  "0 \<le> off \<Longrightarrow> nat off = length pre \<Longrightarrow> length bs = length old \<Longrightarrow>
   put_bytes (pre @ old @ post) off bs = Some (pre @ bs @ post)"
  by (auto simp: put_bytes_def)

lemma get_put_bytes:
  assumes "put_bytes buf off bs = Some buf'"
  shows "get_bytes buf' off (int (length bs)) = Some bs"
  using assms by (auto simp: put_bytes_def get_bytes_def split: if_splits)

section \<open>The structures\<close>

text \<open>
  \<open>ring_rtr\<close> is two int32 of the membership id, the process id, and two int16;
  \<open>packet_header\<close> is nine words, the eighth of which holds two int16.
\<close>

definition enc_ring_rtr :: "ring_rtr \<Rightarrow> byte list" where
  "enc_ring_rtr r =
     bytes32 (mid_proc_id (rr_memb_id r)) @ bytes32 (word_of_int (mid_time (rr_memb_id r))) @
     bytes32 (rr_proc_id r) @ bytes16 (word_of_int (rr_seg_index r)) @
     bytes16 (word_of_int (rr_num_seq r))"

definition dec_ring_rtr :: "byte list \<Rightarrow> ring_rtr" where
  "dec_ring_rtr bs = \<lparr>
     rr_memb_id = \<lparr>mid_proc_id = word32 bs, mid_time = sint (word32 (drop 4 bs))\<rparr>,
     rr_proc_id = word32 (drop 8 bs),
     rr_seg_index = sint (word16 (drop 12 bs)),
     rr_num_seq = sint (word16 (drop 14 bs))\<rparr>"

definition enc_packet_header :: "packet_header \<Rightarrow> byte list" where
  "enc_packet_header p =
     bytes32 (ph_type p) @ bytes32 (ph_transmiter_id p) @ bytes32 (ph_proc_id p) @
     bytes32 (mid_proc_id (ph_memb_id p)) @ bytes32 (word_of_int (mid_time (ph_memb_id p))) @
     bytes32 (word_of_int (ph_seq p)) @ bytes32 (word_of_int (ph_fifo_seq p)) @
     bytes16 (word_of_int (ph_packet_index p)) @ bytes16 (word_of_int (ph_data_len p)) @
     bytes32 (ph_conf_hash p)"

definition dec_packet_header :: "byte list \<Rightarrow> packet_header" where
  "dec_packet_header bs = \<lparr>
     ph_type = word32 bs,
     ph_transmiter_id = word32 (drop 4 bs),
     ph_proc_id = word32 (drop 8 bs),
     ph_memb_id = \<lparr>mid_proc_id = word32 (drop 12 bs), mid_time = sint (word32 (drop 16 bs))\<rparr>,
     ph_seq = sint (word32 (drop 20 bs)),
     ph_fifo_seq = sint (word32 (drop 24 bs)),
     ph_packet_index = sint (word16 (drop 28 bs)),
     ph_data_len = sint (word16 (drop 30 bs)),
     ph_conf_hash = word32 (drop 32 bs)\<rparr>"

definition get_ring_rtr :: "byte list \<Rightarrow> int \<Rightarrow> ring_rtr option" where
  "get_ring_rtr buf off = map_option dec_ring_rtr (get_bytes buf off sizeof_ring_rtr)"

definition put_ring_rtr :: "byte list \<Rightarrow> int \<Rightarrow> ring_rtr \<Rightarrow> byte list option" where
  "put_ring_rtr buf off r = put_bytes buf off (enc_ring_rtr r)"

definition get_packet_header :: "byte list \<Rightarrow> int \<Rightarrow> packet_header option" where
  "get_packet_header buf off = map_option dec_packet_header (get_bytes buf off sizeof_packet_header)"

definition put_packet_header :: "byte list \<Rightarrow> int \<Rightarrow> packet_header \<Rightarrow> byte list option" where
  "put_packet_header buf off p = put_bytes buf off (enc_packet_header p)"

definition int16_range :: "int \<Rightarrow> bool" where "int16_range x \<longleftrightarrow> - 32768 \<le> x \<and> x < 32768"
definition int32_range :: "int \<Rightarrow> bool" where
  "int32_range x \<longleftrightarrow> - 2147483648 \<le> x \<and> x < 2147483648"

definition wf_memb_id :: "membership_id \<Rightarrow> bool" where
  "wf_memb_id m \<longleftrightarrow> int32_range (mid_time m)"

definition wf_ring_rtr :: "ring_rtr \<Rightarrow> bool" where
  "wf_ring_rtr r \<longleftrightarrow> wf_memb_id (rr_memb_id r) \<and> int16_range (rr_seg_index r) \<and>
     int16_range (rr_num_seq r)"

definition wf_packet_header :: "packet_header \<Rightarrow> bool" where
  "wf_packet_header p \<longleftrightarrow> wf_memb_id (ph_memb_id p) \<and> int32_range (ph_seq p) \<and>
     int32_range (ph_fifo_seq p) \<and> int16_range (ph_packet_index p) \<and> int16_range (ph_data_len p)"

lemmas wf_wire_defs = wf_memb_id_def wf_ring_rtr_def wf_packet_header_def
  int16_range_def int32_range_def

lemma length_enc [simp]:
  "length (enc_ring_rtr r) = 16" "length (enc_packet_header p) = 36"
  by (simp_all add: enc_ring_rtr_def enc_packet_header_def)

lemma sint16_of_int [simp]: "int16_range x \<Longrightarrow> sint (word_of_int x :: 16 word) = x"
  by (simp add: int16_range_def signed_of_int signed_take_bit_int_eq_self)

lemma sint32_of_int [simp]: "int32_range x \<Longrightarrow> sint (word_of_int x :: int32u) = x"
  by (simp add: int32_range_def signed_of_int signed_take_bit_int_eq_self)

lemma dec_enc_ring_rtr:
  "wf_ring_rtr r \<Longrightarrow> dec_ring_rtr (enc_ring_rtr r @ rest) = r"
  by (simp add: dec_ring_rtr_def enc_ring_rtr_def wf_ring_rtr_def wf_memb_id_def)

lemma dec_enc_packet_header:
  "wf_packet_header p \<Longrightarrow> dec_packet_header (enc_packet_header p @ rest) = p"
  by (simp add: dec_packet_header_def enc_packet_header_def wf_packet_header_def wf_memb_id_def)

lemma get_put_packet_header:
  assumes "wf_packet_header p" and "put_packet_header buf off p = Some buf'"
  shows "get_packet_header buf' off = Some p"
  using get_put_bytes [of buf off "enc_packet_header p" buf'] assms
    dec_enc_packet_header [OF assms(1), of "[]"]
  by (simp add: get_packet_header_def put_packet_header_def sizeof_packet_header_def)

lemma get_put_ring_rtr:
  assumes "wf_ring_rtr r" and "put_ring_rtr buf off r = Some buf'"
  shows "get_ring_rtr buf' off = Some r"
  using get_put_bytes [of buf off "enc_ring_rtr r" buf'] assms
    dec_enc_ring_rtr [OF assms(1), of "[]"]
  by (simp add: get_ring_rtr_def put_ring_rtr_def sizeof_ring_rtr_def)

end
