(* ===== verification/Configuration.thy ===== *)
theory Configuration
  imports Arch
begin

text \<open>
  \<open>daemon/configuration.c\<close> and \<open>configuration.h\<close>: the static configuration of the daemons, the
  lookups every other component uses, the leader and last process of a configuration (which
  decide who steers the token ring), reloading, and the run-time parameters.

  A \<open>proc *\<close> in a segment points into the array \<open>Config_procs\<close>; the model keeps the index of
  that slot, so a pointer is read through the current array, as in C.  The arrays
  \<open>procs[]\<close> with \<open>num_procs\<close> and \<open>ifc[]\<close> with \<open>num_if\<close> are lists.  What the lex/yacc parser and
  the resolver deliver to \<open>Conf_load_conf_file\<close> is an argument.
\<close>

section \<open>Data\<close>

record spread_if_info =
  if_ip :: int32u
  if_port :: int
  if_type :: int32u

record proc =
  p_name :: string
  p_port :: int
  p_seg_index :: nat
  p_index_in_seg :: nat
  p_id :: int32u
  p_ifc :: "spread_if_info list"

record segment =
  bcast_address :: int32u
  seg_port :: int
  seg_procs :: "nat list"

record configuration =
  hash_code :: int32u
  num_segments :: nat
  num_total_procs :: nat
  segments :: "nat \<Rightarrow> segment"

datatype port_reuse = port_reuse_auto | port_reuse_on | port_reuse_off

definition IFTYPE_DAEMON :: int32u where "IFTYPE_DAEMON = 4"
definition IFTYPE_ANY :: int32u where "IFTYPE_ANY = 8"
definition Is_IfType_Daemon :: "int32u \<Rightarrow> bool" where
  "Is_IfType_Daemon t = (t AND IFTYPE_DAEMON \<noteq> 0)"
definition Is_IfType_Any :: "int32u \<Rightarrow> bool" where
  "Is_IfType_Any t = (t AND IFTYPE_ANY \<noteq> 0)"

definition MAX_PROCS_RING :: nat where "MAX_PROCS_RING = 128"
definition MAX_PROC_NAME :: nat where "MAX_PROC_NAME = 20"
definition MAX_PROTOCOLS :: int where "MAX_PROTOCOLS = 3"

text \<open>The static variables of \<open>configuration.c\<close>.\<close>

record conf_state =
  Config :: configuration
  Config_procs :: "nat \<Rightarrow> proc"
  Conf_My :: proc
  EnableDangerousMonitor :: bool
  Conf_Reload_State :: bool
  SocketPortReuse :: port_reuse
  RuntimeDir :: "string option"
  User :: "string option"
  Group :: "string option"
  Link_Protocol :: int

section \<open>Lookups\<close>

definition proc_has_ip :: "proc \<Rightarrow> int32u \<Rightarrow> bool" where
  "proc_has_ip p pid \<longleftrightarrow> list_ex (\<lambda>f. if_ip f = pid) (p_ifc p)"

definition lookup_slot :: "nat \<Rightarrow> (nat \<Rightarrow> proc) \<Rightarrow> int32u \<Rightarrow> nat option" where
  "lookup_slot n ps pid = find (\<lambda>i. proc_has_ip (ps i) pid) [0..<n]"

text \<open>The result \<open>-1\<close> is \<open>None\<close>; otherwise the index and the copy written through \<open>p\<close>.\<close>

definition Conf_proc_by_id :: "'a conf_state_scheme \<Rightarrow> int32u \<Rightarrow> (nat \<times> proc) option" where
  "Conf_proc_by_id c pid =
     map_option (\<lambda>i. (i, Config_procs c i))
       (lookup_slot (num_total_procs (Config c)) (Config_procs c) pid)"

definition Conf_proc_by_name :: "'a conf_state_scheme \<Rightarrow> string \<Rightarrow> (nat \<times> proc) option" where
  "Conf_proc_by_name c nm =
     map_option (\<lambda>i. (i, Config_procs c i))
       (find (\<lambda>i. p_name (Config_procs c i) = nm) [0..<num_total_procs (Config c)])"

definition Conf_id_in_seg :: "'a conf_state_scheme \<Rightarrow> segment \<Rightarrow> int32u \<Rightarrow> nat option" where
  "Conf_id_in_seg c sg pid =
     find (\<lambda>j. proc_has_ip (Config_procs c (seg_procs sg ! j)) pid) [0..<length (seg_procs sg)]"

definition Conf_config_lookup_id :: "configuration \<Rightarrow> (nat \<Rightarrow> proc) \<Rightarrow> int32u \<Rightarrow> nat option" where
  "Conf_config_lookup_id cf ps pid = lookup_slot (num_total_procs cf) ps pid"

definition Conf_proc_ref_by_id :: "'a conf_state_scheme \<Rightarrow> int32u \<Rightarrow> nat option" where
  "Conf_proc_ref_by_id c pid = lookup_slot (num_total_procs (Config c)) (Config_procs c) pid"

definition Conf_append_id_to_seg ::
  "'a conf_state_scheme \<Rightarrow> segment \<Rightarrow> int32u \<Rightarrow> segment option" where
  "Conf_append_id_to_seg c sg pid =
     map_option (\<lambda>p. sg\<lparr>seg_procs := seg_procs sg @ [p]\<rparr>) (Conf_proc_ref_by_id c pid)"

definition Conf_id_in_conf :: "'a conf_state_scheme \<Rightarrow> configuration \<Rightarrow> int32u \<Rightarrow> nat option" where
  "Conf_id_in_conf c cf pid =
     find (\<lambda>i. Conf_id_in_seg c (segments cf i) pid \<noteq> None) [0..<num_segments cf]"

definition Conf_num_procs :: "configuration \<Rightarrow> nat" where
  "Conf_num_procs cf = sum_list (map (\<lambda>i. length (seg_procs (segments cf i))) [0..<num_segments cf])"

definition Conf_num_segments :: "configuration \<Rightarrow> nat" where
  "Conf_num_segments cf = num_segments cf"

definition Conf_num_procs_in_seg :: "configuration \<Rightarrow> nat \<Rightarrow> nat" where
  "Conf_num_procs_in_seg cf i = length (seg_procs (segments cf i))"

text \<open>The four functions that exit on an empty configuration or segment.\<close>

definition proc_id_at :: "'a conf_state_scheme \<Rightarrow> nat \<Rightarrow> int32u" where
  "proc_id_at c k = p_id (Config_procs c k)"

definition Conf_leader :: "'a conf_state_scheme \<Rightarrow> configuration \<Rightarrow> int32u option" where
  "Conf_leader c cf =
     map_option (\<lambda>i. proc_id_at c (hd (seg_procs (segments cf i))))
       (find (\<lambda>i. seg_procs (segments cf i) \<noteq> []) [0..<num_segments cf])"

definition Conf_last :: "'a conf_state_scheme \<Rightarrow> configuration \<Rightarrow> int32u option" where
  "Conf_last c cf =
     map_option (\<lambda>i. proc_id_at c (last (seg_procs (segments cf i))))
       (find (\<lambda>i. seg_procs (segments cf i) \<noteq> []) (rev [0..<num_segments cf]))"

definition Conf_seg_leader ::
  "'a conf_state_scheme \<Rightarrow> configuration \<Rightarrow> nat \<Rightarrow> int32u option" where
  "Conf_seg_leader c cf i =
     (case seg_procs (segments cf i) of [] \<Rightarrow> None | k # _ \<Rightarrow> Some (proc_id_at c k))"

definition Conf_seg_last ::
  "'a conf_state_scheme \<Rightarrow> configuration \<Rightarrow> nat \<Rightarrow> int32u option" where
  "Conf_seg_last c cf i =
     (case seg_procs (segments cf i) of [] \<Rightarrow> None
      | k # ks \<Rightarrow> Some (proc_id_at c (last (k # ks))))"

section \<open>The configuration hash\<close>

text \<open>
  Daemons only talk to daemons with the same hash.  \<open>char\<close> is signed in this build, so each
  character is sign extended before it is added.
\<close>

definition conf_hash_step :: "int32u \<Rightarrow> byte \<Rightarrow> int32u" where
  "conf_hash_step h b =
     (let r1 = h + scast b; r2 = r1 + push_bit 10 r1 in r2 XOR drop_bit 6 r2)"

definition conf_hash_string :: "byte list \<Rightarrow> int32u" where
  "conf_hash_string key =
     (let n = word_of_nat (length key) :: int32u;
          h0 = n XOR push_bit 8 n XOR push_bit 16 n XOR push_bit 24 n;
          h1 = foldl conf_hash_step h0 key;
          h2 = h1 + push_bit 3 h1;
          h3 = h2 XOR drop_bit 11 h2
      in h3 + push_bit 15 h3)"

section \<open>Loading and reloading\<close>

text \<open>\<open>strncmp( a, b, n )\<close> is zero.\<close>

definition same_name :: "string \<Rightarrow> string \<Rightarrow> bool" where
  "same_name a b \<longleftrightarrow> take MAX_PROC_NAME a = take MAX_PROC_NAME b"

definition Conf_in_reload_state :: "'a conf_state_scheme \<Rightarrow> bool" where
  "Conf_in_reload_state c = Conf_Reload_State c"

definition Conf_reload_state_begin :: "'a conf_state_scheme \<Rightarrow> 'a conf_state_scheme" where
  "Conf_reload_state_begin c = c\<lparr>Conf_Reload_State := True\<rparr>"

definition Conf_reload_state_end :: "'a conf_state_scheme \<Rightarrow> 'a conf_state_scheme" where
  "Conf_reload_state_end c = c\<lparr>Conf_Reload_State := False\<rparr>"

definition mixes_localhost :: "configuration \<Rightarrow> bool" where
  "mixes_localhost cf \<longleftrightarrow> num_segments cf > 1 \<and>
     list_ex (\<lambda>i. drop_bit 24 (bcast_address (segments cf i) AND 0xff000000) = 127)
       [0..<num_segments cf] \<and>
     list_ex (\<lambda>i. drop_bit 24 (bcast_address (segments cf i) AND 0xff000000) \<noteq> 127)
       [0..<num_segments cf]"

text \<open>
  How \<open>Conf_load_conf_file\<close> finds this daemon's own entry: by the name given, or by the first
  of the host's addresses that is configured.  The monitor program's branch is not the daemon's.
\<close>

datatype my_name_arg = No_name "int32u list" | Named string

definition find_myself :: "'a conf_state_scheme \<Rightarrow> my_name_arg \<Rightarrow> proc option" where
  "find_myself c arg =
     (case arg of
        No_name addrs \<Rightarrow>
          Option.bind (find (\<lambda>a. Conf_proc_by_id c a \<noteq> None) addrs)
            (\<lambda>a. map_option snd (Conf_proc_by_id c a))
      | Named nm \<Rightarrow> map_option snd (Conf_proc_by_name c (take MAX_PROC_NAME nm)))"

definition version_string :: "byte list" where
  "version_string = map (\<lambda>ch. of_nat (of_char ch)) (''Version: 4.0'' @ [CHR 0x0A])"

record parsed_file =
  pf_config :: configuration
  pf_procs :: "nat \<Rightarrow> proc"
  pf_string :: "byte list"

definition Conf_load_conf_file ::
  "parsed_file \<Rightarrow> my_name_arg \<Rightarrow> 'a conf_state_scheme \<Rightarrow> 'a conf_state_scheme option" where
  "Conf_load_conf_file pf arg c = do {
     exit_if (mixes_localhost (pf_config pf));
     let cf = (pf_config pf)\<lparr>hash_code := conf_hash_string (pf_string pf @ version_string)\<rparr>;
     let c1 = c\<lparr>Config := cf, Config_procs := pf_procs pf\<rparr>;
     me \<leftarrow> find_myself c1 arg;
     Some (c1\<lparr>Conf_My := me\<rparr>) }"

text \<open>The copy re-aims every segment pointer at the destination array; both asserts abort.\<close>

definition Conf_config_copy ::
  "configuration \<Rightarrow> (nat \<Rightarrow> proc) \<Rightarrow> (nat \<Rightarrow> proc) \<Rightarrow> (configuration \<times> (nat \<Rightarrow> proc)) option" where
  "Conf_config_copy src sps dps0 = (let
     dps = (\<lambda>i. if i < num_total_procs src then sps i else dps0 i);
     aim = (\<lambda>k. Conf_config_lookup_id src dps (p_id (sps k)));
     ok = list_all (\<lambda>i. list_all (\<lambda>k. aim k \<noteq> None) (seg_procs (segments src i)))
            [0..<num_segments src];
     dst = src\<lparr>segments := (\<lambda>i. if i < num_segments src
                then (segments src i)\<lparr>seg_procs := map (the \<circ> aim) (seg_procs (segments src i))\<rparr>
                else segments src i)\<rparr>;
     same = list_all (\<lambda>i. list_all2 (\<lambda>k k'. p_id (sps k) = p_id (dps k'))
                (seg_procs (segments src i)) (seg_procs (segments dst i)))
            [0..<num_segments src]
     in if ok \<and> same then Some (dst, dps) else None)"

definition Conf_prev_proc_by_id ::
  "configuration \<Rightarrow> (nat \<Rightarrow> proc) \<Rightarrow> int32u \<Rightarrow> proc option" where
  "Conf_prev_proc_by_id pcf pps pid = map_option pps (lookup_slot (num_total_procs pcf) pps pid)"

definition identity_changed :: "configuration \<Rightarrow> configuration \<Rightarrow> proc \<Rightarrow> proc \<Rightarrow> bool" where
  "identity_changed cf pcf np op \<longleftrightarrow>
     \<not> same_name (p_name np) (p_name op) \<or> length (p_ifc np) \<noteq> length (p_ifc op) \<or>
     bcast_address (segments cf (p_seg_index np)) \<noteq> bcast_address (segments pcf (p_seg_index op))"

definition interfaces_changed :: "proc \<Rightarrow> proc \<Rightarrow> bool" where
  "interfaces_changed np op \<longleftrightarrow>
     list_ex (\<lambda>i. p_ifc np ! i \<noteq> p_ifc op ! i) [0..<length (p_ifc np)]"

definition needs_partition ::
  "configuration \<Rightarrow> (nat \<Rightarrow> proc) \<Rightarrow> configuration \<Rightarrow> (nat \<Rightarrow> proc) \<Rightarrow> bool" where
  "needs_partition cf ps pcf pps \<longleftrightarrow>
     list_ex (\<lambda>pi. case Conf_prev_proc_by_id pcf pps (p_id (ps pi)) of None \<Rightarrow> False
        | Some op \<Rightarrow> identity_changed cf pcf (ps pi) op \<or> interfaces_changed (ps pi) op)
       [0..<num_total_procs cf]"

definition Conf_reload_initiate ::
  "parsed_file \<Rightarrow> my_name_arg \<Rightarrow> 'a conf_state_scheme \<Rightarrow> (bool \<times> 'a conf_state_scheme) option" where
  "Conf_reload_initiate pf arg c = do {
     (pcf, pps) \<leftarrow> Conf_config_copy (Config c) (Config_procs c) (Config_procs c);
     c1 \<leftarrow> Conf_load_conf_file pf arg c;
     (_, np) \<leftarrow> Conf_proc_by_id c1 (p_id (Conf_My c1));
     op \<leftarrow> Conf_prev_proc_by_id pcf pps (p_id (Conf_My c1));
     exit_if (identity_changed (Config c1) pcf np op);
     exit_if (interfaces_changed np op);
     Some (needs_partition (Config c1) (Config_procs c1) pcf pps, c1) }"

section \<open>Run-time parameters\<close>

definition Conf_get_dangerous_monitor_state :: "'a conf_state_scheme \<Rightarrow> bool" where
  "Conf_get_dangerous_monitor_state c = EnableDangerousMonitor c"

definition Conf_set_dangerous_monitor_state ::
  "int \<Rightarrow> 'a conf_state_scheme \<Rightarrow> 'a conf_state_scheme" where
  "Conf_set_dangerous_monitor_state v c =
     (if v = 0 then c\<lparr>EnableDangerousMonitor := False\<rparr>
      else if v = 1 then c\<lparr>EnableDangerousMonitor := True\<rparr> else c)"

definition Conf_set_link_protocol :: "int \<Rightarrow> 'a conf_state_scheme \<Rightarrow> 'a conf_state_scheme" where
  "Conf_set_link_protocol p c =
     (if p < 0 \<or> p \<ge> MAX_PROTOCOLS then c else c\<lparr>Link_Protocol := p\<rparr>)"

definition Conf_set_port_reuse_type ::
  "port_reuse \<Rightarrow> 'a conf_state_scheme \<Rightarrow> 'a conf_state_scheme" where
  "Conf_set_port_reuse_type st c = c\<lparr>SocketPortReuse := st\<rparr>"

definition set_param_if_valid ::
  "string option \<Rightarrow> string option \<Rightarrow> nat \<Rightarrow> string option option" where
  "set_param_if_valid param val max_len =
     (case val of None \<Rightarrow> Some param
      | Some v \<Rightarrow> if v = [] then Some param
                  else if length v > max_len then None else Some (Some v))"

definition Conf_set_user :: "string option \<Rightarrow> 'a conf_state_scheme \<Rightarrow> 'a conf_state_scheme option" where
  "Conf_set_user v c = map_option (\<lambda>u. c\<lparr>User := u\<rparr>) (set_param_if_valid (User c) v 32)"

definition Conf_set_group :: "string option \<Rightarrow> 'a conf_state_scheme \<Rightarrow> 'a conf_state_scheme option" where
  "Conf_set_group v c = map_option (\<lambda>u. c\<lparr>Group := u\<rparr>) (set_param_if_valid (Group c) v 32)"

definition Conf_get_user :: "'a conf_state_scheme \<Rightarrow> string" where
  "Conf_get_user c = (case User c of Some u \<Rightarrow> u | None \<Rightarrow> ''spread'')"

definition Conf_get_group :: "'a conf_state_scheme \<Rightarrow> string" where
  "Conf_get_group c = (case Group c of Some u \<Rightarrow> u | None \<Rightarrow> ''spread'')"

definition Conf_get_runtime_dir :: "'a conf_state_scheme \<Rightarrow> string" where
  "Conf_get_runtime_dir c = (case RuntimeDir c of Some u \<Rightarrow> u | None \<Rightarrow> ''/var/run/spread'')"

end
