(* ===== verification/Events.thy ===== *)
theory Events
  imports Configuration
begin

text \<open>
  The time queue of \<open>daemon/events.c\<close>: a linked list of pending calls ordered by time in which a
  call (function, code, data) is pending at most once, since queueing it again drops the
  earlier entry.  Every protocol timer of the daemon lives here.  The wall clock
  (\<open>gettimeofday\<close>) is a stream of readings held in the state and consumed one by one.
\<close>

section \<open>Data\<close>

record sp_time =
  sec :: int
  usec :: int

text \<open>The functions the daemon queues; \<open>Other_func\<close> stands for those of the session layer.\<close>

datatype timer_func =
    Prot_token_hurry_f | Memb_token_loss_f | Memb_lookup_new_members_f | Scast_alive_f
  | Gather_or_represented_f | Send_join_f | Form_or_fail_f | Shift_to_seg_f
  | Clear_partition_cb_f | Other_func nat

record time_event =
  te_t :: sp_time
  te_func :: timer_func
  te_code :: int
  te_data :: nat

record event_state = conf_state +
  Now :: sp_time
  Time_queue :: "time_event list"
  clock :: "nat \<Rightarrow> sp_time"
  clock_reads :: nat

section \<open>Time arithmetic\<close>

definition E_sub_time :: "sp_time \<Rightarrow> sp_time \<Rightarrow> sp_time" where
  "E_sub_time t d =
     (let s = sec t - sec d; u = usec t - usec d
      in if u < 0 then \<lparr>sec = s - 1, usec = u + 1000000\<rparr> else \<lparr>sec = s, usec = u\<rparr>)"

definition E_add_time :: "sp_time \<Rightarrow> sp_time \<Rightarrow> sp_time" where
  "E_add_time t d =
     (let s = sec t + sec d; u = usec t + usec d
      in if u > 1000000 then \<lparr>sec = s + 1, usec = u - 1000000\<rparr> else \<lparr>sec = s, usec = u\<rparr>)"

definition E_compare_time :: "sp_time \<Rightarrow> sp_time \<Rightarrow> int" where
  "E_compare_time t1 t2 =
     (if sec t1 > sec t2 then 1 else if sec t1 < sec t2 then - 1
      else if usec t1 > usec t2 then 1 else if usec t1 < usec t2 then - 1 else 0)"

section \<open>Queueing\<close>

definition same_call :: "time_event \<Rightarrow> time_event \<Rightarrow> bool" where
  "same_call a b \<longleftrightarrow> te_func a = te_func b \<and> te_data a = te_data b \<and> te_code a = te_code b"

text \<open>
  The loop of \<open>E_queue\<close> over the entries behind \<open>t_pre\<close>, with its two flags; the entry is put
  at the end if the loop did not place it.
\<close>

fun E_queue_loop :: "time_event \<Rightarrow> bool \<Rightarrow> bool \<Rightarrow> time_event list \<Rightarrow> time_event list" where
  "E_queue_loop e inserted deleted [] = (if inserted then [] else [e])"
| "E_queue_loop e inserted deleted (p # ps) =
     (if inserted \<and> deleted then p # ps
      else if same_call p e then E_queue_loop e inserted True ps
      else if \<not> inserted \<and> E_compare_time (te_t e) (te_t p) < 0
        then e # p # E_queue_loop e True deleted ps
      else p # E_queue_loop e inserted deleted ps)"

definition E_queue_list :: "time_event \<Rightarrow> time_event list \<Rightarrow> time_event list" where
  "E_queue_list e q =
     (let (q1, deleted) = (case q of [] \<Rightarrow> (q, False)
             | h # r \<Rightarrow> if same_call h e then (r, True) else (q, False))
      in case q1 of [] \<Rightarrow> [e]
         | h # r \<Rightarrow> if E_compare_time (te_t e) (te_t h) < 0
                    then e # E_queue_loop e True deleted (h # r)
                    else h # E_queue_loop e False deleted r)"

definition E_get_time :: "'a event_state_scheme \<Rightarrow> sp_time \<times> 'a event_state_scheme" where
  "E_get_time s = (let t = clock s (clock_reads s)
     in (t, s\<lparr>Now := t, clock_reads := Suc (clock_reads s)\<rparr>))"

definition E_queue ::
  "timer_func \<Rightarrow> int \<Rightarrow> nat \<Rightarrow> sp_time \<Rightarrow> 'a event_state_scheme \<Rightarrow> 'a event_state_scheme" where
  "E_queue f code data delta s =
     (let (now, s1) = E_get_time s;
          e = \<lparr>te_t = E_add_time now delta, te_func = f, te_code = code, te_data = data\<rparr>
      in s1\<lparr>Time_queue := E_queue_list e (Time_queue s1)\<rparr>)"

fun E_dequeue_list :: "timer_func \<Rightarrow> int \<Rightarrow> nat \<Rightarrow> time_event list \<Rightarrow> time_event list" where
  "E_dequeue_list f code data [] = []"
| "E_dequeue_list f code data (p # ps) =
     (if te_func p = f \<and> te_data p = data \<and> te_code p = code then ps
      else p # E_dequeue_list f code data ps)"

definition E_dequeue ::
  "timer_func \<Rightarrow> int \<Rightarrow> nat \<Rightarrow> 'a event_state_scheme \<Rightarrow> 'a event_state_scheme" where
  "E_dequeue f code data s = s\<lparr>Time_queue := E_dequeue_list f code data (Time_queue s)\<rparr>"

section \<open>The queue refines a finite map from calls to times\<close>

definition call_of :: "time_event \<Rightarrow> timer_func \<times> int \<times> nat" where
  "call_of e = (te_func e, te_code e, te_data e)"

definition time_le :: "sp_time \<Rightarrow> sp_time \<Rightarrow> bool" where
  "time_le a b \<longleftrightarrow> E_compare_time a b \<le> 0"

definition queue_ok :: "time_event list \<Rightarrow> bool" where
  "queue_ok q \<longleftrightarrow> distinct (map call_of q) \<and> sorted_wrt (\<lambda>a b. time_le (te_t a) (te_t b)) q"

definition due :: "time_event list \<Rightarrow> timer_func \<times> int \<times> nat \<Rightarrow> sp_time option" where
  "due q k = map_option te_t (find (\<lambda>e. call_of e = k) q)"

lemma same_call_iff: "same_call a b \<longleftrightarrow> call_of a = call_of b"
  by (auto simp: same_call_def call_of_def)

lemma compare_neg_iff: "E_compare_time a b < 0 \<longleftrightarrow> \<not> time_le b a"
  by (auto simp: time_le_def E_compare_time_def)

lemma time_le_refl [simp]: "time_le a a"
  and time_le_total: "time_le a b \<or> time_le b a"
  by (auto simp: time_le_def E_compare_time_def)

lemma time_le_trans: "time_le a b \<Longrightarrow> time_le b c \<Longrightarrow> time_le a c"
  by (auto simp: time_le_def E_compare_time_def split: if_splits)

text \<open>Insertion as a specification: after every entry that is not later.\<close>

definition insert_due :: "time_event \<Rightarrow> time_event list \<Rightarrow> time_event list" where
  "insert_due e q = takeWhile (\<lambda>p. time_le (te_t p) (te_t e)) q @ e #
                    dropWhile (\<lambda>p. time_le (te_t p) (te_t e)) q"

lemma filter_other_calls:
  "call_of e \<notin> call_of ` set q \<Longrightarrow> filter (\<lambda>p. call_of p \<noteq> call_of e) q = q"
  by (rule filter_True) (metis imageI)

lemma E_queue_loop_inserted:
  "distinct (map call_of q) \<Longrightarrow> (deleted \<longrightarrow> call_of e \<notin> call_of ` set q) \<Longrightarrow>
   E_queue_loop e True deleted q = filter (\<lambda>p. call_of p \<noteq> call_of e) q"
proof (induction q arbitrary: deleted)
  case Nil
  then show ?case by simp
next
  case (Cons p ps)
  have "filter (\<lambda>p. call_of p \<noteq> call_of e) ps = ps" if "call_of e \<notin> call_of ` set ps"
    using that by (rule filter_other_calls)
  with Cons show ?case by (auto simp: same_call_iff)
qed

lemma E_queue_loop_spec:
  "distinct (map call_of q) \<Longrightarrow> (deleted \<longrightarrow> call_of e \<notin> call_of ` set q) \<Longrightarrow>
   E_queue_loop e False deleted q = insert_due e (filter (\<lambda>p. call_of p \<noteq> call_of e) q)"
proof (induction q arbitrary: deleted)
  case Nil
  then show ?case by (simp add: insert_due_def)
next
  case (Cons p ps)
  show ?case
  proof (cases "call_of p = call_of e")
    case True
    with Cons show ?thesis by (auto simp: same_call_iff)
  next
    case False
    show ?thesis
    proof (cases "time_le (te_t p) (te_t e)")
      case True
      with Cons False show ?thesis
        by (auto simp: same_call_iff compare_neg_iff insert_due_def)
    next
      case later: False
      with Cons False show ?thesis
        by (auto simp: same_call_iff compare_neg_iff insert_due_def E_queue_loop_inserted)
    qed
  qed
qed

theorem E_queue_list_spec:
  assumes "distinct (map call_of q)"
  shows "E_queue_list e q = insert_due e (filter (\<lambda>p. call_of p \<noteq> call_of e) q)"
proof (cases q)
  case Nil
  then show ?thesis by (simp add: E_queue_list_def insert_due_def)
next
  case (Cons h r)
  show ?thesis
  proof (cases "call_of h = call_of e")
    case True
    with Cons assms have n: "call_of e \<notin> call_of ` set r" by auto
    have d: "distinct (map call_of r)" using Cons assms by simp
    show ?thesis
    proof (cases r)
      case Nil
      with True Cons show ?thesis
        by (simp add: E_queue_list_def same_call_iff insert_due_def)
    next
      case (Cons h' r')
      have "E_queue_list e q = (if time_le (te_t h') (te_t e)
          then h' # E_queue_loop e False True r' else e # E_queue_loop e True True r)"
        using True Cons \<open>q = h # r\<close>
        by (simp add: E_queue_list_def same_call_iff compare_neg_iff)
      then show ?thesis
        using E_queue_loop_spec [of r' True e] E_queue_loop_inserted [of r True e]
          d n Cons True \<open>q = h # r\<close> filter_other_calls [OF n]
        by (auto simp: insert_due_def)
    qed
  next
    case False
    have "E_queue_list e q = (if time_le (te_t h) (te_t e)
        then h # E_queue_loop e False False r else e # E_queue_loop e True False q)"
      using False Cons by (simp add: E_queue_list_def same_call_iff compare_neg_iff)
    then show ?thesis
      using E_queue_loop_spec [of r False e] E_queue_loop_inserted [of q False e] assms Cons False
      by (auto simp: insert_due_def)
  qed
qed


lemma insert_due_calls:
  "mset (map call_of (insert_due e q)) = add_mset (call_of e) (mset (map call_of q))"
proof -
  have "mset (insert_due e q) = add_mset e (mset q)"
    unfolding insert_due_def
    by (metis add_mset_add_single mset_append mset.simps(2) takeWhile_dropWhile_id
        union_mset_add_mset_right)
  then show ?thesis by (metis image_mset_add_mset mset_map)
qed

lemma insert_due_sorted:
  assumes "sorted_wrt (\<lambda>a b. time_le (te_t a) (te_t b)) q"
  shows "sorted_wrt (\<lambda>a b. time_le (te_t a) (te_t b)) (insert_due e q)"
  using assms
proof (induction q)
  case Nil
  then show ?case by (simp add: insert_due_def)
next
  case (Cons p ps)
  show ?case
  proof (cases "time_le (te_t p) (te_t e)")
    case True
    have "set (insert_due e ps) = insert e (set ps)"
      unfolding insert_due_def by (metis Un_insert_right list.simps(15) set_append takeWhile_dropWhile_id)
    with True Cons show ?thesis by (auto simp: insert_due_def)
  next
    case False
    with Cons.prems time_le_total time_le_trans show ?thesis
      by (fastforce simp: insert_due_def)
  qed
qed

lemma due_None_iff: "due q k = None \<longleftrightarrow> k \<notin> call_of ` set q"
  by (auto simp: due_def find_None_iff)

lemma due_Some_iff:
  assumes "distinct (map call_of q)"
  shows "due q k = Some t \<longleftrightarrow> (\<exists>e \<in> set q. call_of e = k \<and> te_t e = t)"
  using assms by (induction q) (auto simp: due_def image_iff)

lemma set_insert_due: "set (insert_due e q) = insert e (set q)"
  unfolding insert_due_def by (metis Un_insert_right list.simps(15) set_append takeWhile_dropWhile_id)

lemma distinct_insert_due:
  "distinct (map call_of (insert_due e (filter (\<lambda>p. call_of p \<noteq> call_of e) q))) \<longleftrightarrow>
   distinct (map call_of (filter (\<lambda>p. call_of p \<noteq> call_of e) q))"
proof -
  have "mset (map call_of (insert_due e (filter (\<lambda>p. call_of p \<noteq> call_of e) q))) =
        mset (call_of e # map call_of (filter (\<lambda>p. call_of p \<noteq> call_of e) q))"
    unfolding insert_due_calls by simp
  then have "distinct (map call_of (insert_due e (filter (\<lambda>p. call_of p \<noteq> call_of e) q))) \<longleftrightarrow>
        distinct (call_of e # map call_of (filter (\<lambda>p. call_of p \<noteq> call_of e) q))"
    by (rule mset_eq_imp_distinct_iff)
  then show ?thesis by auto
qed

lemma queue_ok_E_queue_list:
  assumes "queue_ok q" shows "queue_ok (E_queue_list e q)"
proof -
  have d: "distinct (map call_of q)"
    and s: "sorted_wrt (\<lambda>a b. time_le (te_t a) (te_t b)) q"
    using assms by (auto simp: queue_ok_def)
  have "distinct (map call_of (filter (\<lambda>p. call_of p \<noteq> call_of e) q))"
    using d by (rule distinct_map_filter)
  then show ?thesis
    using insert_due_sorted [OF sorted_wrt_filter [OF s]]
    by (simp add: queue_ok_def E_queue_list_spec [OF d] distinct_insert_due)
qed

lemma due_E_queue_list:
  assumes "queue_ok q"
  shows "due (E_queue_list e q) k = (if k = call_of e then Some (te_t e) else due q k)"
proof -
  have d: "distinct (map call_of q)" using assms by (simp add: queue_ok_def)
  have d': "distinct (map call_of (E_queue_list e q))"
    using queue_ok_E_queue_list [OF assms] by (simp add: queue_ok_def)
  have set': "set (E_queue_list e q) = insert e {p \<in> set q. call_of p \<noteq> call_of e}"
    by (simp add: E_queue_list_spec [OF d] set_insert_due)
  have "due (E_queue_list e q) k = Some t \<longleftrightarrow>
      (if k = call_of e then Some (te_t e) else due q k) = Some t" for t
    by (auto simp: due_Some_iff [OF d'] due_Some_iff [OF d] set')
  then show ?thesis by (metis option.exhaust)
qed

lemma E_dequeue_list_filter:
  "distinct (map call_of q) \<Longrightarrow>
   E_dequeue_list f code data q = filter (\<lambda>p. call_of p \<noteq> (f, code, data)) q"
proof (induction q)
  case Nil
  then show ?case by simp
next
  case (Cons p ps)
  have "filter (\<lambda>q. call_of q \<noteq> call_of p) ps = ps"
    using Cons.prems by (intro filter_other_calls) auto
  with Cons show ?case by (auto simp: call_of_def)
qed

lemma queue_ok_E_dequeue_list: "queue_ok q \<Longrightarrow> queue_ok (E_dequeue_list f code data q)"
  by (auto simp: queue_ok_def E_dequeue_list_filter distinct_map_filter sorted_wrt_filter)

lemma due_E_dequeue_list:
  assumes "queue_ok q"
  shows "due (E_dequeue_list f code data q) k = (if k = (f, code, data) then None else due q k)"
proof -
  have d: "distinct (map call_of q)" using assms by (simp add: queue_ok_def)
  have d': "distinct (map call_of (E_dequeue_list f code data q))"
    using queue_ok_E_dequeue_list [OF assms] by (simp add: queue_ok_def)
  have set': "set (E_dequeue_list f code data q) = {p \<in> set q. call_of p \<noteq> (f, code, data)}"
    by (simp add: E_dequeue_list_filter [OF d])
  have "due (E_dequeue_list f code data q) k = Some t \<longleftrightarrow>
      (if k = (f, code, data) then None else due q k) = Some t" for t
    by (auto simp: due_Some_iff [OF d'] due_Some_iff [OF d] set')
  then show ?thesis by (metis option.exhaust)
qed

section \<open>The interface its clients rely on\<close>

text \<open>
  The protocol and membership code arm, re-arm and cancel timers and rely on nothing else:
  what is pending under a call is what was queued last, and a cancelled call is not pending.
\<close>

locale timer_service =
  fixes arm :: "'k \<Rightarrow> 't \<Rightarrow> 'q \<Rightarrow> 'q"
    and cancel :: "'k \<Rightarrow> 'q \<Rightarrow> 'q"
    and pending :: "'q \<Rightarrow> 'k \<Rightarrow> 't option"
    and valid :: "'q \<Rightarrow> bool"
  assumes arm_valid: "valid q \<Longrightarrow> valid (arm k t q)"
    and cancel_valid: "valid q \<Longrightarrow> valid (cancel k q)"
    and pending_arm: "valid q \<Longrightarrow> pending (arm k t q) k' = (if k' = k then Some t else pending q k')"
    and pending_cancel: "valid q \<Longrightarrow> pending (cancel k q) k' = (if k' = k then None else pending q k')"
begin

lemma rearm_replaces:
  "valid q \<Longrightarrow> pending (arm k t2 (arm k t1 q)) = pending (arm k t2 q)"
  by (rule ext) (simp add: pending_arm arm_valid)

lemma cancel_after_arm:
  "valid q \<Longrightarrow> pending (cancel k (arm k t q)) = pending (cancel k q)"
  by (rule ext) (simp add: pending_arm pending_cancel arm_valid)

lemma cancel_all_pending:
  "valid q \<Longrightarrow> valid (foldr cancel ks q) \<and>
     pending (foldr cancel ks q) k = (if k \<in> set ks then None else pending q k)"
  by (induction ks) (auto simp: cancel_valid pending_cancel)

end

definition arm_call :: "timer_func \<times> int \<times> nat \<Rightarrow> sp_time \<Rightarrow> time_event list \<Rightarrow> time_event list" where
  "arm_call k t q = E_queue_list
     \<lparr>te_t = t, te_func = fst k, te_code = fst (snd k), te_data = snd (snd k)\<rparr> q"

definition cancel_call :: "timer_func \<times> int \<times> nat \<Rightarrow> time_event list \<Rightarrow> time_event list" where
  "cancel_call k q = E_dequeue_list (fst k) (fst (snd k)) (snd (snd k)) q"

interpretation tq: timer_service arm_call cancel_call due queue_ok
  by unfold_locales
    (auto simp: arm_call_def cancel_call_def queue_ok_E_queue_list queue_ok_E_dequeue_list
      due_E_queue_list due_E_dequeue_list call_of_def)

end
