(* ===== verification/Scatter.thy ===== *)
theory Scatter
  imports Wire Events
begin

text \<open>
  What the daemon hands to the data link: the structures of \<open>membership.c\<close> that travel in form
  tokens and membership packets, the scatter elements as typed memory contents, and the send
  primitive \<open>DL_send\<close> of \<open>data_link.c\<close>.  The outcome of each \<open>sendmsg\<close> is the kernel's, a stream
  of return values held in the state; every send is recorded in the trace \<open>sent\<close>.
\<close>

section \<open>Membership structures\<close>

record members_info =
  num_members :: int
  num_pending :: int
  members :: "int \<Rightarrow> int32u"

record rep_info =
  rep_proc_id :: int32u
  rep_type :: int
  rep_seg_index :: int

record reps_info =
  num_reps :: int
  rep_index :: int
  reps :: "int \<Rightarrow> rep_info"

text \<open>
  \<open>ring_info\<close> is followed in the buffer by \<open>num_holes\<close> sequence numbers and \<open>num_commit\<close>
  process ids, of which the first \<open>num_trans\<close> are the transitional members.
\<close>

record ring_info =
  rg_memb_id :: membership_id
  rg_trans_time :: int
  rg_aru :: int
  rg_highest_seq :: int
  rg_num_trans :: int
  rg_holes :: "int list"
  rg_commits :: "int32u list"

definition rg_num_holes :: "ring_info \<Rightarrow> int" where "rg_num_holes r = int (length (rg_holes r))"
definition rg_num_commit :: "ring_info \<Rightarrow> int" where "rg_num_commit r = int (length (rg_commits r))"

definition sizeof_members_info :: int where "sizeof_members_info = 2 * 2 + 128 * 4"
definition sizeof_rep_info :: int where "sizeof_rep_info = 8"
definition sizeof_reps_info :: int where "sizeof_reps_info = 2 * 2 + 25 * sizeof_rep_info"
definition sizeof_membership_id :: int where "sizeof_membership_id = 8"
definition sizeof_ring_info :: int where "sizeof_ring_info = 28"

section \<open>Scatter elements\<close>

datatype chunk =
    C_pack packet_header
  | C_token token_header
  | C_bytes "byte list"
  | C_members members_info int \<comment> \<open>with the length sent\<close>
  | C_reps reps_info int
  | C_memb_id membership_id
  | C_rings "ring_info list"

definition ring_len :: "ring_info \<Rightarrow> int" where
  "ring_len r = sizeof_ring_info + (rg_num_holes r + rg_num_commit r) * sizeof_int32"

fun chunk_len :: "chunk \<Rightarrow> int" where
  "chunk_len (C_pack h) = sizeof_packet_header"
| "chunk_len (C_token h) = sizeof_token_header"
| "chunk_len (C_bytes bs) = int (length bs)"
| "chunk_len (C_members m n) = n"
| "chunk_len (C_reps r n) = n"
| "chunk_len (C_memb_id m) = sizeof_membership_id"
| "chunk_len (C_rings rs) = sizeof_int32 + sum_list (map ring_len rs)"

definition scat_len :: "chunk list \<Rightarrow> int" where
  "scat_len cs = sum_list (map chunk_len cs)"

section \<open>The data link\<close>

record datagram =
  dg_address :: int32u
  dg_port :: int
  dg_data :: "chunk list"

record link_state = event_state +
  sent :: "datagram list"
  sendmsg_ret :: "nat \<Rightarrow> int"
  sendmsg_calls :: nat

text \<open>The retry loop: at most ten calls of \<open>sendmsg\<close>, until one does not fail.\<close>

fun DL_send_try :: "nat \<Rightarrow> int \<Rightarrow> 'a link_state_scheme \<Rightarrow> int \<times> 'a link_state_scheme" where
  "DL_send_try 0 ret s = (ret, s)"
| "DL_send_try (Suc n) ret s =
     (if ret < 0
      then DL_send_try n (sendmsg_ret s (sendmsg_calls s)) (s\<lparr>sendmsg_calls := Suc (sendmsg_calls s)\<rparr>)
      else (ret, s))"

definition DL_send ::
  "int32u \<Rightarrow> int \<Rightarrow> chunk list \<Rightarrow> 'a link_state_scheme \<Rightarrow> int \<times> 'a link_state_scheme" where
  "DL_send addr port scat s =
     (let (ret, s1) = DL_send_try 10 (- 10) s
      in (ret, if ret < 0 then s1
               else s1\<lparr>sent := sent s1 @ [\<lparr>dg_address = addr, dg_port = port, dg_data = scat\<rparr>]\<rparr>))"

lemma DL_send_try_frame:
  "\<exists>k. k \<le> sendmsg_calls s + n \<and> DL_send_try n ret s = (fst (DL_send_try n ret s), s\<lparr>sendmsg_calls := k\<rparr>)"
proof (induction n arbitrary: ret s)
  case 0
  show ?case by (intro exI [of _ "sendmsg_calls s"]) simp
next
  case (Suc n)
  show ?case
  proof (cases "ret < 0")
    case True
    obtain k where "k \<le> Suc (sendmsg_calls s) + n"
      "DL_send_try n (sendmsg_ret s (sendmsg_calls s)) (s\<lparr>sendmsg_calls := Suc (sendmsg_calls s)\<rparr>) =
       (fst (DL_send_try (Suc n) ret s), s\<lparr>sendmsg_calls := k\<rparr>)"
      using Suc.IH [of "s\<lparr>sendmsg_calls := Suc (sendmsg_calls s)\<rparr>" "sendmsg_ret s (sendmsg_calls s)"] True
      by auto
    with True show ?thesis by auto
  next
    case False
    then show ?thesis by (intro exI [of _ "sendmsg_calls s"]) simp
  qed
qed

text \<open>A send changes nothing but the trace and the count of calls to the kernel.\<close>

lemma DL_send_frame:
  assumes "DL_send addr port scat s = (ret, s')"
  obtains a k where "s' = s\<lparr>sent := a, sendmsg_calls := k\<rparr>"
proof -
  obtain r k where t: "DL_send_try 10 (- 10) s = (r, s\<lparr>sendmsg_calls := k\<rparr>)"
    using DL_send_try_frame [of s 10 "- 10"] by blast
  show ?thesis
  proof (cases "ret < 0")
    case True
    with assms t have "s' = s\<lparr>sent := sent s, sendmsg_calls := k\<rparr>"
      by (auto simp: DL_send_def split: if_splits)
    then show ?thesis by (rule that)
  next
    case False
    with assms t have "s' = s\<lparr>sent := sent s', sendmsg_calls := k\<rparr>"
      by (auto simp: DL_send_def split: if_splits)
    then show ?thesis by (rule that)
  qed
qed

end
