(* ===== verification/Memb_sets.thy ===== *)
theory Memb_sets
  imports Scatter
begin

text \<open>
  The bounded sets of \<open>membership.c\<close>: \<open>members_info\<close> (process ids) and \<open>reps_info\<close>
  (representatives of segments and rings), their insertion rules, the selection of the
  smallest element in configuration order, sorting, and the endian flips of their wire form.
\<close>

section \<open>Operations on members\<close>

definition POTENTIAL_REP :: int where "POTENTIAL_REP = 0"
definition SEG_REP :: int where "SEG_REP = 1"
definition RING_REP :: int where "RING_REP = 2"
definition MAX_REPS :: int where "MAX_REPS = 25"
definition MAX_FORM_REPS :: int where "MAX_FORM_REPS = 20"
definition MAX_MEMBERS :: int where "MAX_MEMBERS = 128"

lemmas rep_type_defs = POTENTIAL_REP_def SEG_REP_def RING_REP_def

definition Insert_member :: "members_info \<Rightarrow> int32u \<Rightarrow> int \<times> members_info" where
  "Insert_member m pid =
     (if list_ex (\<lambda>i. members m i = pid) [0..num_members m - 1] then (0, m)
      else if num_members m = MAX_MEMBERS then (0, m)
      else (1, m\<lparr>members := (members m)(num_members m := pid), num_members := num_members m + 1\<rparr>))"

text \<open>The order of the configuration: by segment, then by position in the segment.\<close>

definition proc_before :: "proc \<Rightarrow> proc \<Rightarrow> bool" where
  "proc_before p q \<longleftrightarrow> p_seg_index p < p_seg_index q \<or>
     (p_seg_index p = p_seg_index q \<and> p_index_in_seg p < p_index_in_seg q)"

definition conf_proc :: "'a conf_state_scheme \<Rightarrow> int32u \<Rightarrow> proc option" where
  "conf_proc c pid = map_option snd (Conf_proc_by_id c pid)"

definition Smallest_member :: "'a conf_state_scheme \<Rightarrow> members_info \<Rightarrow> (int32u \<times> int) option" where
  "Smallest_member c m = do {
     p0 \<leftarrow> conf_proc c (members m 0);
     (cur, _) \<leftarrow> forM [1..num_members m - 1]
       (\<lambda>i (cur, curr_proc). do {
          i_proc \<leftarrow> conf_proc c (members m i);
          Some (if proc_before i_proc curr_proc then (i, i_proc) else (cur, curr_proc)) })
       (0, p0);
     Some (members m cur, cur) }"

definition Sort_members :: "'a conf_state_scheme \<Rightarrow> members_info \<Rightarrow> members_info option" where
  "Sort_members c m = do {
     (m', _) \<leftarrow> forM [0..num_members m - 1]
       (\<lambda>i (m, temp). do {
          (_, index) \<leftarrow> Smallest_member c temp;
          let m1 = m\<lparr>members := (members m)(i := members temp index)\<rparr>;
          let n = num_members temp - 1;
          Some (m1, temp\<lparr>num_members := n, members := (members temp)(index := members temp n)\<rparr>) })
       (m, m);
     Some m' }"

section \<open>Operations on representatives\<close>

definition set_rep :: "int \<Rightarrow> rep_info \<Rightarrow> reps_info \<Rightarrow> reps_info" where
  "set_rep i x r = r\<lparr>reps := (reps r)(i := x)\<rparr>"

text \<open>
  The scans of \<open>Insert_rep\<close> over the entries already there: \<open>Some\<close> is a return from inside
  the loop.
\<close>

fun scan_seg_rep :: "int list \<Rightarrow> proc \<Rightarrow> reps_info \<Rightarrow> (int \<times> reps_info) option" where
  "scan_seg_rep [] p r = None"
| "scan_seg_rep (i # is) p r =
     (if rep_seg_index (reps r i) = int (p_seg_index p) then
        if rep_type (reps r i) = POTENTIAL_REP
        then Some (1, set_rep i ((reps r i)\<lparr>rep_type := SEG_REP, rep_proc_id := p_id p\<rparr>) r)
        else if rep_type (reps r i) = SEG_REP then
          if rep_proc_id (reps r i) = p_id p then Some (0, r) else scan_seg_rep is p r
        else if rep_type (reps r i) = RING_REP \<and> rep_proc_id (reps r i) = p_id p
        then Some (1, set_rep i ((reps r i)\<lparr>rep_type := SEG_REP\<rparr>) r)
        else scan_seg_rep is p r
      else scan_seg_rep is p r)"

fun scan_ring_rep :: "int list \<Rightarrow> proc \<Rightarrow> reps_info \<Rightarrow> (int \<times> reps_info) option" where
  "scan_ring_rep [] p r = None"
| "scan_ring_rep (i # is) p r =
     (if rep_seg_index (reps r i) = int (p_seg_index p) then
        if rep_type (reps r i) = POTENTIAL_REP
        then Some (1, set_rep i ((reps r i)\<lparr>rep_type := RING_REP, rep_proc_id := p_id p\<rparr>) r)
        else if rep_type (reps r i) = SEG_REP then
          if rep_proc_id (reps r i) = p_id p
          then Some (1, set_rep i ((reps r i)\<lparr>rep_type := RING_REP\<rparr>) r) else scan_ring_rep is p r
        else if rep_type (reps r i) = RING_REP \<and> rep_proc_id (reps r i) = p_id p
        then Some (0, r)
        else scan_ring_rep is p r
      else scan_ring_rep is p r)"

definition Insert_rep ::
  "'a conf_state_scheme \<Rightarrow> reps_info \<Rightarrow> rep_info \<Rightarrow> (int \<times> reps_info) option" where
  "Insert_rep c r rep = do {
     p \<leftarrow> conf_proc c (rep_proc_id rep);
     let idx = [0..num_reps r - 1];
     hit \<leftarrow>
       (if rep_type rep = POTENTIAL_REP then
          Some (if list_ex (\<lambda>i. rep_seg_index (reps r i) = int (p_seg_index p)) idx
                then Some (0, r) else None)
        else if rep_type rep = SEG_REP then Some (scan_seg_rep idx p r)
        else if rep_type rep = RING_REP then Some (scan_ring_rep idx p r)
        else None);
     Some (case hit of
       Some res \<Rightarrow> res
     | None \<Rightarrow>
         if num_reps r = MAX_REPS then (0, r)
         else (1, (set_rep (num_reps r) rep r)\<lparr>num_reps := num_reps r + 1\<rparr>)) }"

definition Smallest_rep :: "'a conf_state_scheme \<Rightarrow> reps_info \<Rightarrow> (int32u \<times> int) option" where
  "Smallest_rep c r = do {
     cur \<leftarrow> forM [1..num_reps r - 1]
       (\<lambda>i cur. let x = reps r cur; y = reps r i in
          if rep_type x = SEG_REP then
            Some (if rep_type y = SEG_REP \<and> rep_seg_index y < rep_seg_index x then i else cur)
          else if rep_type x = RING_REP then
            if rep_type y = RING_REP then
              if rep_seg_index y < rep_seg_index x then Some i
              else if rep_seg_index y = rep_seg_index x then do {
                curr_p \<leftarrow> conf_proc c (rep_proc_id x);
                i_p \<leftarrow> conf_proc c (rep_proc_id y);
                Some (if p_index_in_seg i_p < p_index_in_seg curr_p then i else cur) }
              else Some cur
            else Some (if rep_type y = SEG_REP then i else cur)
          else None)
       0;
     Some (rep_proc_id (reps r cur), cur) }"

definition Sort_reps :: "'a conf_state_scheme \<Rightarrow> reps_info \<Rightarrow> reps_info option" where
  "Sort_reps c r = do {
     (r', _) \<leftarrow> forM [0..num_reps r - 1]
       (\<lambda>i (r, temp). do {
          (_, index) \<leftarrow> Smallest_rep c temp;
          let n = num_reps temp - 1;
          Some (set_rep i (reps temp index) r,
                (set_rep index (reps temp n) temp)\<lparr>num_reps := n\<rparr>) })
       (r, r);
     Some r' }"

section \<open>Endian flips\<close>

definition Flip_members :: "members_info \<Rightarrow> members_info" where
  "Flip_members m = (let
     n = flip_i16 (num_members m); p = flip_i16 (num_pending m)
     in m\<lparr>num_members := n, num_pending := p,
          members := (\<lambda>i. if 0 \<le> i \<and> i < n + p then Flip_int32 (members m i) else members m i)\<rparr>)"

definition Flip_rep :: "rep_info \<Rightarrow> rep_info" where
  "Flip_rep x = \<lparr>rep_proc_id = Flip_int32 (rep_proc_id x), rep_type = flip_i16 (rep_type x),
                rep_seg_index = flip_i16 (rep_seg_index x)\<rparr>"

definition Flip_reps :: "reps_info \<Rightarrow> reps_info" where
  "Flip_reps r = (let n = flip_i16 (num_reps r)
     in r\<lparr>num_reps := n, rep_index := flip_i16 (rep_index r),
          reps := (\<lambda>i. if 0 \<le> i \<and> i < n then Flip_rep (reps r i) else reps r i)\<rparr>)"

definition Flip_ring :: "ring_info \<Rightarrow> ring_info" where
  "Flip_ring g = \<lparr>
     rg_memb_id = Flip_memb_id (rg_memb_id g),
     rg_trans_time = flip_i32 (rg_trans_time g),
     rg_aru = flip_i32 (rg_aru g),
     rg_highest_seq = flip_i32 (rg_highest_seq g),
     rg_num_trans = flip_i16 (rg_num_trans g),
     rg_holes = map flip_i32 (rg_holes g),
     rg_commits = map Flip_int32 (rg_commits g)\<rparr>"

definition Flip_rings :: "ring_info list \<Rightarrow> ring_info list" where
  "Flip_rings gs = map Flip_ring gs"

section \<open>Reading the sets out of a join packet\<close>

text \<open>
  A join packet holds \<open>members_info\<close> cut after its last member and then \<open>reps_info\<close>.  The
  arrays are read where they lie; what lies outside the buffer is taken as zero.
\<close>

definition rd16 :: "byte list \<Rightarrow> int \<Rightarrow> int" where
  "rd16 buf off = (case get_bytes buf off 2 of Some bs \<Rightarrow> sint (word16 bs) | None \<Rightarrow> 0)"

definition rd32 :: "byte list \<Rightarrow> int \<Rightarrow> int32u" where
  "rd32 buf off = (case get_bytes buf off 4 of Some bs \<Rightarrow> word32 bs | None \<Rightarrow> 0)"

definition dec_members :: "byte list \<Rightarrow> int \<Rightarrow> members_info" where
  "dec_members buf off = \<lparr>num_members = rd16 buf off, num_pending = rd16 buf (off + 2),
     members = (\<lambda>i. rd32 buf (off + 4 + 4 * i))\<rparr>"

definition dec_reps :: "byte list \<Rightarrow> int \<Rightarrow> reps_info" where
  "dec_reps buf off = \<lparr>num_reps = rd16 buf off, rep_index = rd16 buf (off + 2),
     reps = (\<lambda>i. let o8 = off + 4 + sizeof_rep_info * i in
       \<lparr>rep_proc_id = rd32 buf o8, rep_type = rd16 buf (o8 + 4), rep_seg_index = rd16 buf (o8 + 6)\<rparr>)\<rparr>"

definition read_join :: "bool \<Rightarrow> byte list \<Rightarrow> members_info \<times> reps_info" where
  "read_join same_endian buf = (let
     m0 = dec_members buf 0;
     m = (if same_endian then m0 else Flip_members m0);
     r0 = dec_reps buf (2 * 2 + num_members m * sizeof_int32)
     in (m, if same_endian then r0 else Flip_reps r0))"

section \<open>Members as a set\<close>

text \<open>The ids an operation sees: the first \<open>num_members\<close> entries of the array.\<close>

definition active :: "members_info \<Rightarrow> int32u list" where
  "active m = map (members m) [0..num_members m - 1]"

definition members_ok :: "members_info \<Rightarrow> bool" where
  "members_ok m \<longleftrightarrow> 0 \<le> num_members m \<and> num_members m \<le> MAX_MEMBERS \<and> distinct (active m)"

lemma length_active: "0 \<le> num_members m \<Longrightarrow> int (length (active m)) = num_members m"
  by (simp add: active_def)

lemma set_active: "set (active m) = members m ` {0..num_members m - 1}"
  by (simp add: active_def)

lemma active_snoc:
  assumes "0 \<le> n"
  shows "map (f(n := x)) [0..n] = map f [0..n - 1] @ [x]"
proof -
  have "[0..n] = [0..n - 1] @ [n]" using assms by (simp add: upto_rec2)
  moreover have "map (f(n := x)) [0..n - 1] = map f [0..n - 1]" by auto
  ultimately show ?thesis by simp
qed

lemma Insert_member_active:
  assumes "0 \<le> num_members m"
  shows "active (snd (Insert_member m pid)) =
    (if pid \<in> set (active m) \<or> num_members m = MAX_MEMBERS then active m else active m @ [pid])"
proof -
  have "list_ex (\<lambda>i. members m i = pid) [0..num_members m - 1] \<longleftrightarrow> pid \<in> set (active m)"
    by (auto simp: list_ex_iff active_def)
  then show ?thesis
    using active_snoc [OF assms, of "members m" pid]
    by (auto simp: Insert_member_def active_def)
qed

lemma Insert_member_num:
  "0 \<le> num_members m \<Longrightarrow> 0 \<le> num_members (snd (Insert_member m pid))"
  "num_members m \<le> MAX_MEMBERS \<Longrightarrow> num_members (snd (Insert_member m pid)) \<le> MAX_MEMBERS"
  by (auto simp: Insert_member_def)

lemma Insert_member_ok: "members_ok m \<Longrightarrow> members_ok (snd (Insert_member m pid))"
  by (auto simp: members_ok_def Insert_member_active Insert_member_num)

lemma Insert_member_ret:
  "0 \<le> num_members m \<Longrightarrow>
   fst (Insert_member m pid) = (if num_members (snd (Insert_member m pid)) = num_members m then 0 else 1)"
  by (auto simp: Insert_member_def)

section \<open>Selection and sorting follow the configuration order\<close>

definition conf_le :: "'a conf_state_scheme \<Rightarrow> int32u \<Rightarrow> int32u \<Rightarrow> bool" where
  "conf_le c a b \<longleftrightarrow> \<not> proc_before (the (conf_proc c b)) (the (conf_proc c a))"

definition known :: "'a conf_state_scheme \<Rightarrow> int32u \<Rightarrow> bool" where
  "known c pid \<longleftrightarrow> conf_proc c pid \<noteq> None"

lemma conf_le_refl [simp]: "conf_le c a a"
  and conf_le_trans: "conf_le c a b \<Longrightarrow> conf_le c b d \<Longrightarrow> conf_le c a d"
  by (auto simp: conf_le_def proc_before_def)

lemma Smallest_member_spec:
  assumes "Smallest_member c m = Some (pid, k)" and "1 \<le> num_members m"
  shows "0 \<le> k \<and> k < num_members m \<and> pid = members m k \<and>
    (\<forall>j \<in> {0..num_members m - 1}. known c (members m j) \<and> conf_le c pid (members m j))"
proof -
  define body where "body = (\<lambda>i (cur, curr_proc). do {
      i_proc \<leftarrow> conf_proc c (members m i);
      Some (if proc_before i_proc curr_proc then (i, i_proc) else (cur, curr_proc)) })"
  from assms(1) obtain p0 cp where p0: "conf_proc c (members m 0) = Some p0"
    and loop: "forM [1..num_members m - 1] body (0, p0) = Some (k, cp)" and pid: "pid = members m k"
    unfolding Smallest_member_def body_def by (auto simp: bind_Some_iff)
  define P where "P = (\<lambda>i st. 0 \<le> fst st \<and> fst st < (i :: int) \<and>
      conf_proc c (members m (fst st)) = Some (snd st) \<and>
      (\<forall>j \<in> {0..i - 1}. known c (members m j) \<and> conf_le c (members m (fst st)) (members m j)))"
  have "P (num_members m - 1 + 1) (k, cp)"
  proof (rule forM_invariant [OF loop])
    show "P 1 (0, p0)" using p0 by (auto simp: P_def known_def)
    show "1 \<le> num_members m - 1 + 1" using assms(2) by simp
    fix i st st' assume i: "1 \<le> i" and Pi: "P i st" and step: "body i st = Some st'"
    then obtain q where q: "conf_proc c (members m i) = Some q"
      and st': "st' = (if proc_before q (snd st) then (i, q) else st)"
      by (cases st) (auto simp: body_def bind_Some_iff)
    have "{0..i + 1 - 1} = insert i {0..i - 1}" using i by auto
    then show "P (i + 1) st'"
      using Pi q st' i by (fastforce simp: P_def known_def conf_le_def proc_before_def)
  qed
  then show ?thesis using pid by (auto simp: P_def)
qed

lemma Smallest_member_total:
  assumes "\<forall>j \<in> {0..max 0 (num_members m - 1)}. known c (members m j)"
  shows "\<exists>pid k. Smallest_member c m = Some (pid, k)"
proof -
  obtain p0 where p0: "conf_proc c (members m 0) = Some p0"
    using bspec [OF assms, of 0] by (auto simp: known_def)
  have "\<exists>t. forM [1..num_members m - 1] (\<lambda>i (cur, curr_proc). do {
      i_proc \<leftarrow> conf_proc c (members m i);
      Some (if proc_before i_proc curr_proc then (i, i_proc) else (cur, curr_proc)) }) (0, p0) = Some t"
  proof (cases "1 \<le> num_members m")
    case True
    have "\<exists>t. forM [1..num_members m - 1] (\<lambda>i (cur, curr_proc). do {
      i_proc \<leftarrow> conf_proc c (members m i);
      Some (if proc_before i_proc curr_proc then (i, i_proc) else (cur, curr_proc)) }) (0, p0) = Some t
      \<and> (\<lambda>_ _. True) (num_members m - 1 + 1) t"
    proof (rule forM_total)
      show "1 \<le> num_members m - 1 + 1" using True by simp
      fix i and st :: "int \<times> proc"
      assume i: "1 \<le> i" "i \<le> num_members m - 1"
      then have "known c (members m i)" using assms by auto
      then show "\<exists>s'. (case st of (cur, curr_proc) \<Rightarrow> do {
          i_proc \<leftarrow> conf_proc c (members m i);
          Some (if proc_before i_proc curr_proc then (i, i_proc) else (cur, curr_proc)) }) = Some s' \<and> True"
        by (cases st) (auto simp: known_def)
    qed simp
    then show ?thesis by simp
  qed simp
  then show ?thesis using p0 by (auto simp: Smallest_member_def)
qed

lemma mset_map_upd:
  "distinct xs \<Longrightarrow> k \<in> set xs \<Longrightarrow>
   add_mset (f k) (mset (map (f(k := v)) xs)) = add_mset v (mset (map f xs))"
proof (induction xs)
  case (Cons x xs)
  show ?case
  proof (cases "x = k")
    case True
    then have e: "map (f(k := v)) (x # xs) = v # map f xs" using Cons.prems(1) by auto
    show ?thesis unfolding e using True by (simp add: add_mset_commute)
  next
    case False
    with Cons show ?thesis by (simp add: add_mset_commute)
  qed
qed simp

lemma mset_swap_out:
  assumes "0 \<le> k" and "k < n"
  shows "add_mset (f k) (mset (map (f(k := f (n - 1))) [0..n - 2])) = mset (map f [0..n - 1])"
proof -
  have split: "[0..n - 1] = [0..n - 2] @ [n - 1]"
    using assms upto_rec2 [of 0 "n - 1"] by simp
  show ?thesis
  proof (cases "k = n - 1")
    case True
    then show ?thesis by (simp add: split)
  next
    case False
    then have "k \<in> set [0..n - 2]" using assms by auto
    from mset_map_upd [OF _ this, of f "f (n - 1)"] show ?thesis by (simp add: split)
  qed
qed

definition sort_inv ::
  "'a conf_state_scheme \<Rightarrow> members_info \<Rightarrow> int \<Rightarrow> members_info \<times> members_info \<Rightarrow> bool" where
  "sort_inv c m i st \<longleftrightarrow> (case st of (r, temp) \<Rightarrow>
     num_members r = num_members m \<and> num_members temp = num_members m - i \<and>
     num_pending r = num_pending m \<and>
     mset (map (members r) [0..i - 1]) + mset (active temp) = mset (active m) \<and>
     sorted_wrt (conf_le c) (map (members r) [0..i - 1]) \<and>
     (\<forall>a \<in> set (map (members r) [0..i - 1]). \<forall>b \<in> set (active temp). conf_le c a b))"

lemma sort_step:
  assumes inv: "sort_inv c m i (r, temp)" and i: "0 \<le> i" "i < num_members m"
    and small: "Smallest_member c temp = Some (pid, k)"
  shows "sort_inv c m (i + 1)
    (r\<lparr>members := (members r)(i := members temp k)\<rparr>,
     temp\<lparr>num_members := num_members temp - 1,
          members := (members temp)(k := members temp (num_members temp - 1))\<rparr>)"
proof -
  let ?n = "num_members temp"
  let ?t = "temp\<lparr>num_members := ?n - 1, members := (members temp)(k := members temp (?n - 1))\<rparr>"
  have n: "1 \<le> ?n" using inv i by (simp add: sort_inv_def)
  from Smallest_member_spec [OF small n] have k: "0 \<le> k" "k < ?n"
    and least: "\<forall>b \<in> set (active temp). conf_le c (members temp k) b"
    by (auto simp: active_def)
  have swap: "add_mset (members temp k) (mset (active ?t)) = mset (active temp)"
    using mset_swap_out [OF k, of "members temp"] by (simp add: active_def algebra_simps)
  have total: "add_mset (members temp k) (mset (map (members r) [0..i - 1]) + mset (active ?t)) =
      mset (map (members r) [0..i - 1]) + mset (active temp)"
    unfolding swap [symmetric] by simp
  from swap have sub: "set (active ?t) \<subseteq> set (active temp)"
    by (metis set_mset_mset set_mset_add_mset_insert subset_insertI)
  have mem: "members temp k \<in> set (active temp)" using k by (auto simp: active_def)
  have pre: "map ((members r)(i := members temp k)) [0..i] =
      map (members r) [0..i - 1] @ [members temp k]"
    by (rule active_snoc [OF i(1)])
  show ?thesis
    using inv total sub mem least unfolding sort_inv_def
    by (auto simp: pre sorted_wrt_append simp del: mset_map set_map)
qed

theorem Sort_members_sorted:
  assumes "Sort_members c m = Some m'" and "0 \<le> num_members m"
  shows "num_members m' = num_members m \<and> mset (active m') = mset (active m) \<and>
    sorted_wrt (conf_le c) (active m')"
proof -
  obtain t where loop: "forM [0..num_members m - 1] (\<lambda>i (m, temp). do {
          (_, index) \<leftarrow> Smallest_member c temp;
          let m1 = m\<lparr>members := (members m)(i := members temp index)\<rparr>;
          let n = num_members temp - 1;
          Some (m1, temp\<lparr>num_members := n, members := (members temp)(index := members temp n)\<rparr>) })
       (m, m) = Some (m', t)"
    using assms(1) by (auto simp: Sort_members_def bind_Some_iff)
  have "sort_inv c m (num_members m - 1 + 1) (m', t)"
    by (rule forM_invariant [OF loop])
      (use assms(2) in \<open>auto simp: sort_inv_def [where i = 0] bind_Some_iff Let_def intro!: sort_step\<close>)
  then have "num_members m' = num_members m \<and> num_members t = 0 \<and>
      mset (active m') + mset (active t) = mset (active m) \<and> sorted_wrt (conf_le c) (active m')"
    by (auto simp: sort_inv_def active_def)
  moreover from this have "active t = []" by (simp add: active_def)
  ultimately show ?thesis by simp
qed

end
