(* ===== verification/Network.thy ===== *)
theory Network
  imports Scatter
begin

text \<open>
  \<open>daemon/network.c\<close>: where packets and the token are sent in the current membership, the
  queue that packs several packets into one datagram, the reception of packets and tokens
  with endian correction, configuration check and monitor partitions.

  A packet header that waits in the packing queue is shared with the \<open>Packets\<close> array of the
  protocol (both hold the same pointer, and a flush clears the routed bit through it), so
  headers live in a store, \<open>heads\<close>, and are referred to by address.
\<close>

section \<open>State\<close>

datatype qelem = Q_head nat | Q_body "byte list" | Q_pad nat

record net_state = link_state +
  Bcast_channel :: "int list"
  Token_channel :: "int list"
  Send_channel :: int
  fd_of :: "nat \<Rightarrow> int" \<comment> \<open>the descriptors the kernel gives out\<close>
  opened :: "(int \<times> int32u \<times> int32u) list" \<comment> \<open>port, multicast and interface address\<close>
  Bcast_needed :: bool
  Bcast_address :: int32u
  Bcast_port :: int
  Send_dests :: "(int32u \<times> int) list" \<comment> \<open>\<open>Send_address\<close>, \<open>Send_ports\<close>, \<open>Num_send_needed\<close>\<close>
  Queue_scat :: "qelem list"
  Queued_bytes :: int
  Token_address :: int32u
  Token_port :: int
  Net_membership :: configuration
  Segment_leader :: bool
  Net_My :: proc
  Partition :: "nat \<Rightarrow> int"
  Partition_my_index :: nat
  heads :: "nat \<Rightarrow> packet_header"
  next_head :: nat

definition ARCH_SCATTER_SIZE :: nat where "ARCH_SCATTER_SIZE = 1024"
definition Partition_timeout :: sp_time where "Partition_timeout = \<lparr>sec = 60, usec = 0\<rparr>"

definition monitor_id :: int32u where "monitor_id = 15051963"

text \<open>The address of a process id in the current membership, for a pointer of a segment.\<close>

section \<open>Partitions set by the monitor\<close>

definition Net_set_partition :: "(nat \<Rightarrow> int) \<Rightarrow> 'a net_state_scheme \<Rightarrow> 'a net_state_scheme" where
  "Net_set_partition new_partition s =
     (if Conf_in_reload_state s then s
      else s\<lparr>Partition := (\<lambda>i. if i < Conf_num_procs (Config s) then new_partition i else Partition s i)\<rparr>)"

definition Net_clear_partition :: "'a net_state_scheme \<Rightarrow> 'a net_state_scheme" where
  "Net_clear_partition s =
     s\<lparr>Partition := (\<lambda>i. if i < Conf_num_procs (Config s) then 0 else Partition s i)\<rparr>"

definition In_my_component :: "'a net_state_scheme \<Rightarrow> int32u \<Rightarrow> bool" where
  "In_my_component s pid =
     (case Conf_proc_by_id s pid of None \<Rightarrow> False
      | Some (i, _) \<Rightarrow> Partition s (Partition_my_index s) = Partition s i)"

section \<open>Initialisation and membership\<close>

definition DL_init_channel ::
  "int \<Rightarrow> int32u \<Rightarrow> int32u \<Rightarrow> 'a net_state_scheme \<Rightarrow> int \<times> 'a net_state_scheme" where
  "DL_init_channel port mcast iface s =
     (fd_of s (length (opened s)), s\<lparr>opened := opened s @ [(port, mcast, iface)]\<rparr>)"

text \<open>One interface of mine; the flag says that the broadcast address is already bound.\<close>

definition init_interface ::
  "spread_if_info \<Rightarrow> bool \<times> 'a net_state_scheme \<Rightarrow> bool \<times> 'a net_state_scheme" where
  "init_interface f st = (let (bound, s) = st in
     if \<not> (Is_IfType_Daemon (if_type f) \<or> Is_IfType_Any (if_type f)) then st
     else let
       iface = (if Is_IfType_Any (if_type f) then 0 else if_ip f);
       double = (\<not> Is_IfType_Any (if_type f) \<and> Bcast_needed s \<and> \<not> bound);
       port = p_port (Net_My s);
       s1 = (if double then
               let (ch, s') = DL_init_channel port (Bcast_address s) (Bcast_address s) s
               in s'\<lparr>Bcast_channel := Bcast_channel s' @ [ch]\<rparr>
             else s);
       (ch1, s2) = DL_init_channel port (Bcast_address s1) iface s1;
       s3 = s2\<lparr>Bcast_channel := Bcast_channel s2 @ [ch1]\<rparr>;
       (ch2, s4) = DL_init_channel (to_int16 (port + 1)) 0 iface s3;
       s5 = s4\<lparr>Token_channel := Token_channel s4 @ [ch2]\<rparr>
     in (bound \<or> double, s5))"

definition Net_init :: "'a net_state_scheme \<Rightarrow> 'a net_state_scheme option" where
  "Net_init s0 = do {
     let s1 = s0\<lparr>Net_My := Conf_My s0\<rparr>;
     (i, _) \<leftarrow> Conf_proc_by_id s1 (p_id (Net_My s1));
     let s2 = Net_clear_partition (s1\<lparr>Partition_my_index := i\<rparr>);
     let sg = segments (Config s2) (p_seg_index (Net_My s2));
     let s3 = (if length (seg_procs sg) > 1
               then s2\<lparr>Bcast_needed := True, Bcast_address := bcast_address sg,
                      Bcast_port := p_port (Net_My s2)\<rparr>
               else s2\<lparr>Bcast_needed := False, Bcast_address := 0\<rparr>);
     let s4 = snd (foldl (\<lambda>st f. init_interface f st) (False, s3) (p_ifc (Net_My s3)));
     let (ch, s5) = DL_init_channel (to_int16 (p_port (Net_My s4) + 2)) 0 (p_id (Net_My s4)) s4;
     Some (s5\<lparr>Send_channel := ch, Send_dests := []\<rparr>) }"

definition Net_signal_conf_reload :: "'a net_state_scheme \<Rightarrow> 'a net_state_scheme option" where
  "Net_signal_conf_reload s = do {
     (i, _) \<leftarrow> Conf_proc_by_id s (p_id (Net_My s));
     Some (s\<lparr>Partition_my_index := i, Net_My := Conf_My s\<rparr>) }"

text \<open>
  The segments that need a unicast, in order, and how many of them precede mine
  (\<open>my_next_index\<close>, \<open>None\<close> for \<open>-1\<close>).
\<close>

definition send_needed ::
  "'a conf_state_scheme \<Rightarrow> configuration \<Rightarrow> nat \<Rightarrow> nat \<Rightarrow> (int32u \<times> int) list \<times> nat option" where
  "send_needed c memb mine n =
     foldl (\<lambda>(dests, nxt) i.
        if i = mine then (dests, Some (length dests))
        else case seg_procs (segments memb i) of
               [] \<Rightarrow> (dests, nxt)
             | k # _ \<Rightarrow> (dests @ [(proc_id_at c k, seg_port (segments memb i))], nxt))
       ([], None) [0..<n]"

definition token_destination ::
  "'a conf_state_scheme \<Rightarrow> segment \<Rightarrow> nat \<Rightarrow> (int32u \<times> int) list \<Rightarrow> nat \<Rightarrow> int32u \<times> int" where
  "token_destination c my_seg my_index dests nxt =
     (if Suc my_index < length (seg_procs my_seg)
      then (proc_id_at c (seg_procs my_seg ! Suc my_index), to_int16 (seg_port my_seg + 1))
      else if dests = []
      then (proc_id_at c (hd (seg_procs my_seg)), to_int16 (seg_port my_seg + 1))
      else if length dests = nxt
      then (fst (hd dests), to_int16 (snd (hd dests) + 1))
      else (fst (dests ! nxt), to_int16 (snd (dests ! nxt) + 1)))"

definition Net_set_membership ::
  "configuration \<Rightarrow> 'a net_state_scheme \<Rightarrow> 'a net_state_scheme option" where
  "Net_set_membership memb s = do {
     let my_seg = segments memb (p_seg_index (Net_My s));
     my_index \<leftarrow> Conf_id_in_seg s my_seg (p_id (Net_My s));
     let (dests, nxt_opt) = send_needed s memb (p_seg_index (Net_My s)) (num_segments (Config s));
     nxt \<leftarrow> nxt_opt;
     let (addr, port) = token_destination s my_seg my_index dests nxt;
     Some (s\<lparr>Net_membership := memb, Segment_leader := (my_index = 0), Send_dests := dests,
            Token_address := addr, Token_port := port\<rparr>) }"

section \<open>Sending packets\<close>

text \<open>The stamp every packet gets: endian bits, configuration hash and transmitter.\<close>

definition stamp :: "'a net_state_scheme \<Rightarrow> packet_header \<Rightarrow> packet_header" where
  "stamp s h = h\<lparr>ph_type := Set_endian (ph_type h), ph_conf_hash := hash_code (Config s),
               ph_transmiter_id := p_id (Net_My s)\<rparr>"

definition route :: "packet_header \<Rightarrow> packet_header" where
  "route h = h\<lparr>ph_type := Set_routed (ph_type h)\<rparr>"

definition unroute :: "packet_header \<Rightarrow> packet_header" where
  "unroute h = h\<lparr>ph_type := Clear_routed (ph_type h)\<rparr>"

fun send_each ::
  "(int32u \<times> int) list \<Rightarrow> chunk list \<Rightarrow> int \<Rightarrow> 'a net_state_scheme \<Rightarrow> int \<times> 'a net_state_scheme" where
  "send_each [] scat ret s = (ret, s)"
| "send_each ((a, p) # ds) scat ret s =
     (let (ret', s') = DL_send a p scat s in send_each ds scat ret' s')"

text \<open>
  A send returns the header as it was left in memory: the caller owns it.  \<open>payload\<close> is the
  rest of the scatter.
\<close>

definition Net_bcast ::
  "packet_header \<Rightarrow> chunk list \<Rightarrow> 'a net_state_scheme \<Rightarrow> int \<times> packet_header \<times> 'a net_state_scheme" where
  "Net_bcast h0 payload s0 = (let
     h1 = stamp s0 (route h0);
     (r1, s1) = send_each (Send_dests s0) (C_pack h1 # payload) 0 s0;
     h2 = unroute h1;
     (r2, s2) = (if Bcast_needed s1 then DL_send (Bcast_address s1) (Bcast_port s1) (C_pack h2 # payload) s1
                 else (r1, s1));
     r3 = (if \<not> Bcast_needed s2 \<and> Send_dests s2 = [] then 1 else r2)
     in (r3, h2, s2))"

definition align_pad :: "int \<Rightarrow> int" where
  "align_pad n = (- n) mod 4"

fun queue_chunk :: "'a net_state_scheme \<Rightarrow> qelem \<Rightarrow> chunk" where
  "queue_chunk s (Q_head r) = C_pack (heads s r)"
| "queue_chunk s (Q_body b) = C_bytes b"
| "queue_chunk s (Q_pad n) = C_bytes (take n [0x70, 0x61, 0x64, 0x64])"

definition queue_scatter :: "'a net_state_scheme \<Rightarrow> chunk list" where
  "queue_scatter s = map (queue_chunk s) (Queue_scat s)"

definition update_first_head ::
  "(packet_header \<Rightarrow> packet_header) \<Rightarrow> 'a net_state_scheme \<Rightarrow> 'a net_state_scheme" where
  "update_first_head f s =
     (case Queue_scat s of Q_head r # _ \<Rightarrow> s\<lparr>heads := (heads s)(r := f (heads s r))\<rparr> | _ \<Rightarrow> s)"

definition Net_flush_bcast :: "'a net_state_scheme \<Rightarrow> int \<times> 'a net_state_scheme" where
  "Net_flush_bcast s =
     (if Queued_bytes s = 0 then (0, s)
      else let
        (r1, s1) = send_each (Send_dests s) (queue_scatter s) 0 s;
        s2 = update_first_head unroute s1;
        (r2, s3) = (if Bcast_needed s2
                    then DL_send (Bcast_address s2) (Bcast_port s2) (queue_scatter s2) s2
                    else (r1, s2));
        r3 = (if \<not> Bcast_needed s3 \<and> Send_dests s3 = [] then 1 else r2)
      in (r3, s3\<lparr>Queue_scat := [], Queued_bytes := 0\<rparr>))"

text \<open>\<open>Send_pack\<close> always has the two elements header and body here.\<close>

definition Net_queue_bcast ::
  "nat \<Rightarrow> byte list \<Rightarrow> 'a net_state_scheme \<Rightarrow> int \<times> 'a net_state_scheme" where
  "Net_queue_bcast r body s0 = (let
     s1 = (if Queued_bytes s0 = 0 then s0\<lparr>Queue_scat := []\<rparr> else s0);
     new_bytes = sizeof_packet_header + int (length body);
     pad = align_pad (Queued_bytes s1);
     extra = (if pad > 0 then 1 else 0);
     full = (Queued_bytes s1 + new_bytes + pad > MAX_PACKET_SIZE \<or>
             length (Queue_scat s1) + 2 + extra > ARCH_SCATTER_SIZE);
     (ret, s2) = (if full then Net_flush_bcast s1 else (0, s1));
     pad' = (if full then 0 else pad);
     s3 = (if Queued_bytes s2 = 0
           then s2\<lparr>heads := (heads s2)(r := stamp s2 (route (heads s2 r)))\<rparr> else s2);
     s4 = (if pad' > 0
           then s3\<lparr>Queued_bytes := Queued_bytes s3 + pad', Queue_scat := Queue_scat s3 @ [Q_pad (nat pad')]\<rparr>
           else s3)
     in (ret, s4\<lparr>Queue_scat := Queue_scat s4 @ [Q_head r, Q_body body],
                Queued_bytes := Queued_bytes s4 + new_bytes\<rparr>))"

definition Net_scast ::
  "int \<Rightarrow> packet_header \<Rightarrow> chunk list \<Rightarrow> 'a net_state_scheme \<Rightarrow> int \<times> packet_header \<times> 'a net_state_scheme" where
  "Net_scast seg_index h0 payload s = (let
     h1 = stamp s h0
     in if seg_index = int (p_seg_index (Net_My s))
        then if Bcast_needed s
             then let (ret, s1) = DL_send (Bcast_address s) (Bcast_port s) (C_pack h1 # payload) s
                  in (ret, h1, s1)
             else (1, h1, s)
        else let sg = segments (Net_membership s) (nat seg_index)
             in case seg_procs sg of [] \<Rightarrow> (1, h1, s)
                | k # _ \<Rightarrow> let h2 = route h1;
                               (ret, s1) = DL_send (proc_id_at s k) (seg_port sg) (C_pack h2 # payload) s
                           in (ret, unroute h2, s1))"

definition Net_ucast ::
  "int32u \<Rightarrow> packet_header \<Rightarrow> chunk list \<Rightarrow> 'a net_state_scheme \<Rightarrow> int \<times> packet_header \<times> 'a net_state_scheme" where
  "Net_ucast pid h0 payload s = (let
     h1 = stamp s h0
     in case Conf_proc_by_id s pid of
          None \<Rightarrow> (- 1, h1, s)
        | Some (_, p) \<Rightarrow> let (ret, s1) = DL_send pid (p_port p) (C_pack h1 # payload) s
                         in (ret, h1, s1))"

section \<open>Sending the token\<close>

definition stamp_token :: "'a net_state_scheme \<Rightarrow> token_header \<Rightarrow> token_header" where
  "stamp_token s t = t\<lparr>th_type := Set_endian (th_type t), th_conf_hash := hash_code (Config s),
                     th_transmiter_id := p_id (Net_My s)\<rparr>"

text \<open>
  The comparison with the unsigned size \<open>MAX_PACKET_SIZE - sizeof(token_header)\<close> also
  catches a negative length.
\<close>

definition token_too_long :: "token_header \<Rightarrow> bool" where
  "token_too_long t \<longleftrightarrow> th_rtr_len t < 0 \<or> th_rtr_len t > sizeof_token_body"

definition Net_send_token ::
  "token_header \<Rightarrow> chunk list \<Rightarrow> 'a net_state_scheme \<Rightarrow> (token_header \<times> 'a net_state_scheme) option" where
  "Net_send_token t0 payload s = do {
     let t = stamp_token s t0;
     exit_if (token_too_long t);
     Some (t, snd (DL_send (Token_address s) (Token_port s) (C_token t # payload) s)) }"

definition Net_ucast_token ::
  "int32u \<Rightarrow> token_header \<Rightarrow> chunk list \<Rightarrow> 'a net_state_scheme \<Rightarrow> (token_header \<times> 'a net_state_scheme) option" where
  "Net_ucast_token pid t0 payload s = (let t = stamp_token s t0 in
     case Conf_proc_by_id s pid of
       None \<Rightarrow> Some (t, s)
     | Some (_, p) \<Rightarrow>
         if token_too_long t then None
         else Some (t, snd (DL_send pid (to_int16 (p_port p + 1)) (C_token t # payload) s)))"

section \<open>Receiving\<close>

text \<open>
  The walk over the packed packets: headers behind the first are flipped in place, and the
  lengths must add up to the bytes received.  A corrupt length can move the walk outside the
  buffer (\<open>None\<close>) or make it stand still (also \<open>None\<close>: the loop does not return).
\<close>

definition round4 :: "int \<Rightarrow> int \<Rightarrow> int" where
  "round4 processed received =
     (if processed < received then processed + align_pad processed else processed)"

partial_function (option) walk_packed ::
  "bool \<Rightarrow> int \<Rightarrow> int \<Rightarrow> byte list \<Rightarrow> (int \<times> byte list) option" where
  "walk_packed same_endian received processed buf =
     (if processed < received
      then do {
        let off = processed - sizeof_packet_header;
        h \<leftarrow> get_packet_header buf off;
        let h' = (if same_endian then h else Flip_pack h);
        buf' \<leftarrow> put_packet_header buf off h';
        walk_packed same_endian received
          (round4 (processed + sizeof_packet_header + ph_data_len h') received) buf' }
      else Some (processed, buf))"

declare walk_packed.simps [code]

definition forward_routed ::
  "int \<Rightarrow> packet_header \<Rightarrow> byte list \<Rightarrow> 'a net_state_scheme \<Rightarrow> packet_header \<times> 'a net_state_scheme" where
  "forward_routed received h buf s = (let
     h1 = h\<lparr>ph_type := Clear_routed (ph_type h), ph_transmiter_id := p_id (Net_My s)\<rparr>;
     h2 = (if Same_endian (ph_type h1) then h1 else Flip_pack h1);
     body = take (nat (received - sizeof_packet_header)) buf;
     scat = C_pack h2 # (if body = [] then [] else [C_bytes body]);
     s1 = snd (DL_send (Bcast_address s) (Bcast_port s) scat s);
     h3 = (if Same_endian (ph_type h2) then h2 else Flip_pack h2)
     in (h3, s1))"

text \<open>
  \<open>Net_recv\<close> gets what \<open>DL_recv\<close> put into the scatter (the bytes received, the header, the body
  buffer) and returns its result with the header and the buffer as it leaves them.
\<close>

definition get_partition :: "bool \<Rightarrow> byte list \<Rightarrow> nat \<Rightarrow> int" where
  "get_partition same_endian buf i =
     (let w = word16 (drop (2 * i) buf) in sint (if same_endian then w else Flip_int16 w))"

definition Net_recv ::
  "int \<Rightarrow> int \<Rightarrow> packet_header \<Rightarrow> byte list \<Rightarrow> 'a net_state_scheme \<Rightarrow>
   (int \<times> packet_header \<times> byte list \<times> 'a net_state_scheme) option" where
  "Net_recv fd received h0 buf s =
     (if fd \<notin> set (Bcast_channel s) then None
      else if received \<le> 0 then Some (received, h0, buf, s)
      else if received < sizeof_packet_header then Some (- 1, h0, buf, s)
      else let h = (if Same_endian (ph_type h0) then h0 else Flip_pack h0) in
      if ph_conf_hash h \<noteq> hash_code (Config s) \<and> ph_conf_hash h \<noteq> MONITOR_HASH
      then Some (0, h, buf, s)
      else if Is_partition (ph_type h) then
        if \<not> Conf_get_dangerous_monitor_state s then Some (0, h, buf, s)
        else if \<not> (mid_proc_id (ph_memb_id h) = monitor_id \<and>
                   Conf_id_in_conf s (Config s) (ph_proc_id h) \<noteq> None)
        then Some (0, h, buf, s)
        else let
          s1 = Net_set_partition (get_partition (Same_endian (ph_type h)) buf) s;
          s2 = E_queue Clear_partition_cb_f 0 0 Partition_timeout s1
        in if Partition s2 (Partition_my_index s2) = - 1 then None else Some (0, h, buf, s2)
      else if \<not> (mid_proc_id (ph_memb_id h) = monitor_id \<or> In_my_component s (ph_transmiter_id h))
      then Some (0, h, buf, s)
      else if ph_transmiter_id h = p_id (Net_My s) then Some (0, h, buf, s)
      else let
        (h1, s1) = (if Bcast_needed s \<and> Is_routed (ph_type h) then forward_routed received h buf s
                    else (h, s));
        h2 = unroute h1
      in do {
        (processed, buf') \<leftarrow> walk_packed (Same_endian (ph_type h2)) received
           (round4 (sizeof_packet_header + ph_data_len h2) received) buf;
        Some (if processed \<noteq> received then - 1 else received, h2, buf', s1) })"

definition Net_recv_token ::
  "int \<Rightarrow> int \<Rightarrow> token_header \<Rightarrow> 'a net_state_scheme \<Rightarrow> (int \<times> token_header) option" where
  "Net_recv_token fd ret t0 s =
     (if fd \<notin> set (Token_channel s) then None
      else if ret \<le> 0 then Some (ret, t0)
      else let t = (if Same_endian (th_type t0) then t0 else Flip_token t0) in
      if th_conf_hash t \<noteq> hash_code (Config s) then Some (0, t)
      else if \<not> In_my_component s (th_transmiter_id t) then Some (0, t)
      else Some (ret, t))"

section \<open>What sending leaves alone\<close>

text \<open>
  Two headers of the same packet: the stamps and the endian and routed bits may differ.
\<close>

definition service :: "int32u \<Rightarrow> int32u" where
  "service t = t AND NOT (ENDIAN_TYPE OR ROUTED_TYPE)"

definition same_packet :: "packet_header \<Rightarrow> packet_header \<Rightarrow> bool" where
  "same_packet h h' \<longleftrightarrow> service (ph_type h) = service (ph_type h') \<and>
     ph_proc_id h = ph_proc_id h' \<and> ph_memb_id h = ph_memb_id h' \<and> ph_seq h = ph_seq h' \<and>
     ph_fifo_seq h = ph_fifo_seq h' \<and> ph_packet_index h = ph_packet_index h' \<and>
     ph_data_len h = ph_data_len h'"

lemma same_packet_refl [simp]: "same_packet h h" by (simp add: same_packet_def)

lemma same_packet_trans [trans]: "same_packet a b \<Longrightarrow> same_packet b c \<Longrightarrow> same_packet a c"
  by (simp add: same_packet_def)

lemma ARCH_ENDIAN_eq: "ARCH_ENDIAN = ENDIAN_TYPE"
  by (simp add: type_defs)

lemma service_bits:
  "service (Set_endian t) = service t" "service (Set_routed t) = service t"
  "service (Clear_routed t) = service t"
  unfolding service_def Set_endian_def Set_routed_def Clear_routed_def ARCH_ENDIAN_eq
  by (rule bit_word_eqI, auto simp: bit_and_iff bit_or_iff bit_not_iff)+

lemma same_packet_stamp [simp]:
  "same_packet h (stamp s h)" "same_packet h (route h)" "same_packet h (unroute h)"
  "same_packet h (stamp s (route h))" "same_packet h (unroute (route (stamp s h)))"
  by (simp_all add: same_packet_def stamp_def route_def unroute_def service_bits)

lemma service_Is_safe: "Is_safe (service t) = Is_safe t"
  and service_Is_reliable: "Is_reliable (service t) = Is_reliable t"
  unfolding service_def Is_safe_bit Is_reliable_bit type_masks
  by (auto simp: bit_simps)

lemma same_packet_service:
  assumes "same_packet h h'"
  shows "Is_safe (ph_type h') = Is_safe (ph_type h)" "Is_reliable (ph_type h') = Is_reliable (ph_type h)"
  using assms service_Is_safe service_Is_reliable by (metis same_packet_def)+

text \<open>
  A send changes the trace, the calls to the kernel, the packing queue, and stamps of headers
  that already exist.
\<close>

definition net_frame :: "'a net_state_scheme \<Rightarrow> 'a net_state_scheme \<Rightarrow> bool" where
  "net_frame s s' \<longleftrightarrow>
     s' = s\<lparr>sent := sent s', sendmsg_calls := sendmsg_calls s', heads := heads s',
            Queue_scat := Queue_scat s', Queued_bytes := Queued_bytes s'\<rparr> \<and>
     (\<forall>r. same_packet (heads s r) (heads s' r))"

lemma net_frame_refl [simp]: "net_frame s s"
  by (simp add: net_frame_def)

lemma net_frame_trans [trans]:
  assumes "net_frame s s'" and "net_frame s' s''"
  shows "net_frame s s''"
  unfolding net_frame_def
proof (intro conjI allI)
  show "s'' = s\<lparr>sent := sent s'', sendmsg_calls := sendmsg_calls s'', heads := heads s'',
      Queue_scat := Queue_scat s'', Queued_bytes := Queued_bytes s''\<rparr>" (is "_ = ?u s")
  proof -
    from assms(2) have "s'' = ?u s'" by (simp add: net_frame_def)
    also from assms(1) have "s' = s\<lparr>sent := sent s', sendmsg_calls := sendmsg_calls s', heads := heads s',
        Queue_scat := Queue_scat s', Queued_bytes := Queued_bytes s'\<rparr>" by (simp add: net_frame_def)
    then have "?u s' = ?u s" by (rule ssubst) simp
    finally show ?thesis .
  qed
  show "same_packet (heads s r) (heads s'' r)" for r
    using assms by (auto simp: net_frame_def intro: same_packet_trans)
qed

lemma net_frame_updates [simp, intro]:
  "net_frame s (s\<lparr>Queue_scat := q\<rparr>)" "net_frame s (s\<lparr>Queued_bytes := b\<rparr>)"
  "net_frame s (s\<lparr>sent := a, sendmsg_calls := k\<rparr>)"
  "net_frame s (s\<lparr>Queue_scat := q, Queued_bytes := b\<rparr>)"
  by (simp_all add: net_frame_def)

lemma net_frame_heads:
  "(\<And>r. same_packet (heads s r) (h r)) \<Longrightarrow> net_frame s (s\<lparr>heads := h\<rparr>)"
  by (simp add: net_frame_def)

lemma net_frame_DL_send: "DL_send a p scat s = (r, s') \<Longrightarrow> net_frame s s'"
  by (erule DL_send_frame) auto

lemma net_frame_send_each: "send_each ds scat r0 s = (r, s') \<Longrightarrow> net_frame s s'"
  by (induction ds scat r0 s arbitrary: r s' rule: send_each.induct)
    (auto split: prod.splits dest: net_frame_DL_send intro: net_frame_trans)

lemma net_frame_Net_flush_bcast:
  assumes "Net_flush_bcast s = (r, s')"
  shows "net_frame s s'"
proof (cases "Queued_bytes s = 0")
  case True
  with assms show ?thesis by (simp add: Net_flush_bcast_def)
next
  case False
  obtain r1 s1 where e: "send_each (Send_dests s) (queue_scatter s) 0 s = (r1, s1)" by (metis surj_pair)
  let ?s2 = "update_first_head unroute s1"
  obtain r2 s3 where d: "DL_send (Bcast_address ?s2) (Bcast_port ?s2) (queue_scatter ?s2) ?s2 = (r2, s3)"
    by (metis surj_pair)
  have "net_frame s s1" using e by (rule net_frame_send_each)
  also have "net_frame s1 ?s2"
    by (auto simp: update_first_head_def split: list.splits qelem.splits intro!: net_frame_heads)
  finally have 1: "net_frame s ?s2" .
  have 2: "net_frame ?s2 s3" using d by (rule net_frame_DL_send)
  have "s' = (if Bcast_needed ?s2 then s3 else ?s2)\<lparr>Queue_scat := [], Queued_bytes := 0\<rparr>"
    using assms False e d by (simp add: Net_flush_bcast_def Let_def split: if_splits)
  with 1 2 show ?thesis by (auto intro: net_frame_trans)
qed

lemma net_frame_Net_queue_bcast:
  assumes "Net_queue_bcast ref body s = (r, s')"
  shows "net_frame s s'"
proof -
  define s1 where "s1 = (if Queued_bytes s = 0 then s\<lparr>Queue_scat := []\<rparr> else s)"
  obtain fr fs where f: "Net_flush_bcast s1 = (fr, fs)" by (metis surj_pair)
  define full where "full = (Queued_bytes s1 + (sizeof_packet_header + int (length body)) + align_pad (Queued_bytes s1) > MAX_PACKET_SIZE \<or>
             length (Queue_scat s1) + 2 + (if align_pad (Queued_bytes s1) > 0 then 1 else 0) > ARCH_SCATTER_SIZE)"
  define s2 where "s2 = (if full then fs else s1)"
  define pad where "pad = (if full then 0 else align_pad (Queued_bytes s1))"
  define s3 where "s3 = (if Queued_bytes s2 = 0
           then s2\<lparr>heads := (heads s2)(ref := stamp s2 (route (heads s2 ref)))\<rparr> else s2)"
  define s4 where "s4 = (if pad > 0
           then s3\<lparr>Queued_bytes := Queued_bytes s3 + pad, Queue_scat := Queue_scat s3 @ [Q_pad (nat pad)]\<rparr>
           else s3)"
  have s': "s' = s4\<lparr>Queue_scat := Queue_scat s4 @ [Q_head ref, Q_body body],
                Queued_bytes := Queued_bytes s4 + (sizeof_packet_header + int (length body))\<rparr>"
    using assms f
    by (simp add: Net_queue_bcast_def Let_def flip: s1_def full_def)
      (auto simp: s4_def s3_def s2_def pad_def full_def split: if_splits prod.splits)
  have "net_frame s s1" by (simp add: s1_def)
  also have "net_frame s1 s2" using net_frame_Net_flush_bcast [OF f] by (simp add: s2_def)
  also have "net_frame s2 s3"
    by (auto simp: s3_def intro!: net_frame_heads intro: same_packet_trans same_packet_stamp)
  also have "net_frame s3 s4" by (auto simp: s4_def intro: net_frame_trans)
  also have "net_frame s4 s'" unfolding s' by (rule net_frame_updates)
  finally show ?thesis .
qed

lemma net_frame_Net_ucast: "Net_ucast pid h p s = (r, h', s') \<Longrightarrow> net_frame s s' \<and> same_packet h h'"
  by (auto simp: Net_ucast_def Let_def split: option.splits prod.splits intro: net_frame_DL_send)

lemma net_frame_Net_scast: "Net_scast i h p s = (r, h', s') \<Longrightarrow> net_frame s s' \<and> same_packet h h'"
  by (auto simp: Net_scast_def Let_def split: if_splits list.splits prod.splits
      intro: net_frame_DL_send same_packet_trans same_packet_stamp)

lemma net_frame_Net_send_token: "Net_send_token t p s = Some (t', s') \<Longrightarrow> net_frame s s'"
  by (auto simp: Net_send_token_def bind_Some_iff Let_def)
    (metis net_frame_DL_send surjective_pairing)

lemma net_frame_Net_ucast_token: "Net_ucast_token pid t p s = Some (t', s') \<Longrightarrow> net_frame s s'"
  by (auto simp: Net_ucast_token_def Let_def split: option.splits if_splits)
    (metis net_frame_DL_send surjective_pairing)

end
