(* ===== verification/Daemon.thy ===== *)
theory Daemon
  imports Network
begin

text \<open>
  The global state of the daemon: the shared variables of \<open>prot_body.h\<close>, the statics of
  \<open>protocol.c\<close>, \<open>flow_control.c\<close> and \<open>membership.c\<close>, the counters of \<open>status.h\<close>, and the calls
  into the session layer, which are recorded in order.
\<close>

section \<open>Protocol\<close>

definition MAX_PACKETS_IN_STRUCT :: int where "MAX_PACKETS_IN_STRUCT = 8192"
definition PACKET_MASK :: int where "PACKET_MASK = 0x1fff"
definition MAX_SEQ_GAP :: int where "MAX_SEQ_GAP = 1600"
definition MAX_EVS_ROUNDS :: int where "MAX_EVS_ROUNDS = 500"
definition WATER_MARK :: nat where "WATER_MARK = 500"
definition MAX_SCATTER_ELEMENTS :: nat where "MAX_SCATTER_ELEMENTS = 100"

text \<open>
  A slot of the packet window.  \<open>exist\<close> is 0 for an empty slot, 1 for a packet not yet
  delivered, 2 for one delivered before it became stable, 3 for a hole known to be
  unrecoverable.
\<close>

record packet_info =
  pk_head :: nat
  pk_body :: "byte list"
  pk_exist :: int
  pk_proc_index :: int

record down_link =
  dl_type :: int32u
  dl_mess :: "byte list list"

record down_queue =
  dq_mess :: "down_link list" \<comment> \<open>\<open>first\<close> to \<open>last\<close>; \<open>num_mess\<close> is the length\<close>
  dq_cur_element :: nat

datatype queue_type = NORMAL_DOWNQUEUE | GROUPS_DOWNQUEUE

datatype memb_state = OP | SEG | REPRESENTED | GATHER | FORM | EVS

text \<open>The calls the protocol makes into \<open>session.c\<close>.\<close>

datatype upcall =
    Sess_deliver_message "byte list list"
  | Sess_deliver_reg_memb configuration membership_id
  | Sess_deliver_trans_memb configuration membership_id
  | Sess_block_users_level
  | Sess_unblock_users_level
  | Sess_signal_conf_reload

record status =
  st_sec :: int
  st_state :: memb_state
  st_gstate :: int
  st_packet_sent :: int
  st_packet_recv :: int
  st_packet_delivered :: int
  st_retrans :: int
  st_u_retrans :: int
  st_s_retrans :: int
  st_b_retrans :: int
  st_aru :: int
  st_my_aru :: int
  st_highest_seq :: int
  st_token_hurry :: int
  st_token_rounds :: int
  st_my_id :: int32u
  st_leader_id :: int32u
  st_message_delivered :: int
  st_membership_changes :: int
  st_num_procs :: int
  st_num_segments :: int
  st_window :: int
  st_personal_window :: int
  st_num_sessions :: int
  st_num_groups :: int
  st_major_version :: int
  st_minor_version :: int
  st_patch_version :: int

record prot_state = net_state +
  Prot_My :: proc
  Prot_My_index :: int
  Set_aru :: int
  Token_counter :: int
  Protocol_down_queue :: "queue_type \<Rightarrow> down_queue"
  Down_queue_ptr :: queue_type
  Up_queue :: "int \<Rightarrow> byte list list option"
  Packets :: "int \<Rightarrow> packet_info"
  Aru :: int
  My_aru :: int
  Highest_seq :: int
  Highest_fifo_seq :: int
  Last_discarded :: int
  Last_delivered :: int
  Last_seq :: int
  Token_rounds :: int
  Last_token :: token_header
  Last_num_retrans :: int
  Last_num_sent :: int

record daemon = prot_state +
  Token_timeout :: sp_time
  Hurry_timeout :: sp_time
  Alive_timeout :: sp_time
  Join_timeout :: sp_time
  Rep_timeout :: sp_time
  Seg_timeout :: sp_time
  Gather_timeout :: sp_time
  Form_timeout :: sp_time
  Lookup_timeout :: sp_time
  Wide_network :: bool
  Transitional :: bool
  Trans_membership :: configuration
  Commit_membership :: configuration
  Reg_membership :: configuration
  Membership :: configuration
  Membership_id :: membership_id
  Future_membership :: configuration
  Future_membership_id :: membership_id
  Trans_memb_id :: membership_id
  F_trans_memb_time :: int
  Last_time_used :: int
  State :: memb_state
  Token_alive :: bool
  Memb_My :: proc
  My_seg_rep :: int32u
  Foreign_found :: bool
  F_members :: members_info
  F_reps :: reps_info
  Potential_reps :: reps_info
  Commit_set :: members_info
  Future_commit_set :: members_info
  Memb_head :: packet_header \<comment> \<open>the header of \<open>membership.c\<close>'s own \<open>Send_pack\<close>\<close>
  Window :: int
  Personal_window :: int
  GlobalStatus :: status
  Start_time :: sp_time
  Report_channel :: int
  Report_head :: packet_header
  upcalls :: "upcall list"

definition call_session :: "upcall \<Rightarrow> daemon \<Rightarrow> daemon" where
  "call_session u s = s\<lparr>upcalls := upcalls s @ [u]\<rparr>"

definition upd_status :: "(status \<Rightarrow> status) \<Rightarrow> daemon \<Rightarrow> daemon" where
  "upd_status f s = s\<lparr>GlobalStatus := f (GlobalStatus s)\<rparr>"

text \<open>\<open>Down_queue_ptr->...\<close>\<close>

definition down :: "'a prot_state_scheme \<Rightarrow> down_queue" where
  "down s = Protocol_down_queue s (Down_queue_ptr s)"

definition set_down :: "down_queue \<Rightarrow> 'a prot_state_scheme \<Rightarrow> 'a prot_state_scheme" where
  "set_down q s = s\<lparr>Protocol_down_queue := (Protocol_down_queue s)(Down_queue_ptr s := q)\<rparr>"

text \<open>The slot of a sequence number and the header of the packet in it.\<close>

definition slot :: "int \<Rightarrow> int" where "slot q = q AND PACKET_MASK"

definition pkt :: "'a prot_state_scheme \<Rightarrow> int \<Rightarrow> packet_info" where
  "pkt s q = Packets s (slot q)"

definition pkt_head :: "'a prot_state_scheme \<Rightarrow> int \<Rightarrow> packet_header" where
  "pkt_head s q = heads s (pk_head (pkt s q))"

definition set_pkt :: "int \<Rightarrow> packet_info \<Rightarrow> 'a prot_state_scheme \<Rightarrow> 'a prot_state_scheme" where
  "set_pkt e p s = s\<lparr>Packets := (Packets s)(e := p)\<rparr>"

definition set_exist :: "int \<Rightarrow> int \<Rightarrow> 'a prot_state_scheme \<Rightarrow> 'a prot_state_scheme" where
  "set_exist q x s = s\<lparr>Packets := (Packets s)(slot q := (Packets s (slot q))\<lparr>pk_exist := x\<rparr>)\<rparr>"

lemma slot_mod: "slot q = q mod 8192"
  using int_and_mask [of q 13] by (simp add: slot_def PACKET_MASK_def)

lemma slot_range: "0 \<le> slot q" "slot q < 8192"
  by (simp_all add: slot_mod)

text \<open>Sequence numbers less than a window apart have different slots.\<close>

lemma slot_inj:
  assumes "slot a = slot b" and "\<bar>a - b\<bar> < 8192"
  shows "a = b"
proof -
  have "(a - b) mod 8192 = 0" using assms(1) by (simp add: slot_mod mod_eq_dvd_iff)
  then have "8192 dvd a - b" by auto
  with assms(2) show ?thesis using zdvd_imp_le [of 8192 "\<bar>a - b\<bar>"] by fastforce
qed

lemma slot_eq_iff: "\<bar>a - b\<bar> < 8192 \<Longrightarrow> slot a = slot b \<longleftrightarrow> a = b"
  using slot_inj by blast

end
