(* ===== verification/Memb_core.thy ===== *)
theory Memb_core
  imports Memb_sets Daemon
begin

text \<open>
  \<open>daemon/membership.c\<close> without the form tokens: the accessors, the state changes of a
  membership attempt (\<open>Shift_to_seg\<close>, \<open>Shift_to_gather\<close>, \<open>Shift_to_represented\<close>), the loss of
  the token, the packets it sends (alive, join, refer), and the installation of the
  transitional and the regular membership.
\<close>

section \<open>Accessors\<close>

definition Zero_timeout :: sp_time where "Zero_timeout = \<lparr>sec = 0, usec = 0\<rparr>"

definition Memb_active_ptr :: "daemon \<Rightarrow> configuration" where
  "Memb_active_ptr s = (if State s = EVS then Future_membership s else Membership s)"

definition Memb_is_equal :: "membership_id \<Rightarrow> membership_id \<Rightarrow> bool" where
  "Memb_is_equal m1 m2 \<longleftrightarrow> mid_proc_id m1 = mid_proc_id m2 \<and> mid_time m1 = mid_time m2"

lemma Memb_is_equal_eq [simp]: "Memb_is_equal m1 m2 \<longleftrightarrow> m1 = m2"
  by (auto simp: Memb_is_equal_def)

definition set_state :: "memb_state \<Rightarrow> daemon \<Rightarrow> daemon" where
  "set_state st s = s\<lparr>State := st, GlobalStatus := (GlobalStatus s)\<lparr>st_state := st\<rparr>\<rparr>"

definition clear_procs :: "nat \<Rightarrow> configuration \<Rightarrow> configuration" where
  "clear_procs n cf = cf\<lparr>segments :=
     (\<lambda>i. if i < n then (segments cf i)\<lparr>seg_procs := []\<rparr> else segments cf i)\<rparr>"

text \<open>\<open>Conf_append_id_to_seg( &conf.segments[i], pid )\<close> with its result ignored.\<close>

definition append_ignoring ::
  "'a conf_state_scheme \<Rightarrow> nat \<Rightarrow> int32u \<Rightarrow> configuration \<Rightarrow> configuration" where
  "append_ignoring c i pid cf =
     (case Conf_append_id_to_seg c (segments cf i) pid of None \<Rightarrow> cf
      | Some sg \<Rightarrow> cf\<lparr>segments := (segments cf)(i := sg)\<rparr>)"

section \<open>State changes\<close>

definition own_members :: "daemon \<Rightarrow> members_info" where
  "own_members s = (F_members s)\<lparr>num_members := 1, num_pending := 0,
     members := (members (F_members s))(0 := p_id (Memb_My s))\<rparr>"

definition Shift_to_seg :: "daemon \<Rightarrow> daemon" where
  "Shift_to_seg s0 = (let
     s1 = set_state SEG s0;
     s2 = s1\<lparr>F_members := own_members s1\<rparr>;
     s3 = E_queue Scast_alive_f 0 0 Zero_timeout s2
     in E_queue Gather_or_represented_f 0 0 (Seg_timeout s3) s3)"

definition own_rep :: "daemon \<Rightarrow> rep_info" where
  "own_rep s = \<lparr>rep_proc_id = p_id (Memb_My s),
     rep_type = (if Token_alive s then RING_REP else SEG_REP),
     rep_seg_index = int (p_seg_index (Memb_My s))\<rparr>"

definition Shift_to_gather :: "daemon \<Rightarrow> daemon" where
  "Shift_to_gather s0 = (let
     s1 = set_state GATHER s0;
     s2 = s1\<lparr>F_reps := (set_rep 0 (own_rep s1) (F_reps s1))\<lparr>num_reps := 1\<rparr>\<rparr>;
     s3 = E_dequeue Scast_alive_f 0 0 s2;
     s4 = E_dequeue Memb_lookup_new_members_f 0 0 s3;
     s5 = E_queue Send_join_f 0 0 Zero_timeout s4
     in E_queue Form_or_fail_f 0 0 (Gather_timeout s5) s5)"

definition Shift_to_represented :: "daemon \<Rightarrow> daemon" where
  "Shift_to_represented s0 = (let
     s1 = set_state REPRESENTED s0;
     s2 = E_dequeue Scast_alive_f 0 0 s1;
     s3 = E_dequeue Gather_or_represented_f 0 0 s2
     in E_queue Shift_to_seg_f 0 0 (Rep_timeout s3) s3)"

definition Gather_or_represented :: "daemon \<Rightarrow> daemon option" where
  "Gather_or_represented s0 = do {
     let s = s0\<lparr>My_seg_rep := - 1\<rparr>;
     (smallest, _) \<leftarrow> Smallest_member s (F_members s);
     Some (if smallest = p_id (Memb_My s) then Shift_to_gather s else Shift_to_represented s) }"

section \<open>Losing the token\<close>

text \<open>
  \<open>Backoff_membership\<close> clears the recorded holes and recomputes \<open>My_aru\<close>.  The second loop of
  the C code does not recompute \<open>pack_entry\<close>, which keeps the slot of \<open>Highest_seq\<close> from the
  first loop (or \<open>-1\<close> if that did not run); the model reads the same slot.
\<close>

primrec count_while :: "(int \<Rightarrow> bool) \<Rightarrow> int list \<Rightarrow> int" where
  "count_while p [] = 0"
| "count_while p (i # is) = (if p i then 1 + count_while p is else 0)"

definition clear_holes :: "int \<Rightarrow> int \<Rightarrow> (int \<Rightarrow> packet_info) \<Rightarrow> (int \<Rightarrow> packet_info)" where
  "clear_holes a b ps = foldl (\<lambda>ps i.
     if pk_exist (ps (slot i)) = 3 then ps(slot i := (ps (slot i))\<lparr>pk_exist := 0\<rparr>) else ps) ps [a..b]"

definition Backoff_membership :: "'a prot_state_scheme \<Rightarrow> 'a prot_state_scheme" where
  "Backoff_membership s0 = (let
     a = Last_discarded s0 + 1; b = Highest_seq s0;
     pack_entry = (if a \<le> b then slot b else - 1);
     s1 = s0\<lparr>Packets := clear_holes a b (Packets s0), Aru := Last_discarded s0\<rparr>
     in s1\<lparr>My_aru := Last_discarded s1 +
            count_while (\<lambda>i. pk_exist (Packets s1 pack_entry) \<noteq> 0) [a..b]\<rparr>)"

definition insert_rep_ignoring :: "'a conf_state_scheme \<Rightarrow> rep_info \<Rightarrow> reps_info \<Rightarrow> reps_info option" where
  "insert_rep_ignoring c rep r = map_option snd (Insert_rep c r rep)"

text \<open>
  A representative for every other segment: its first member in \<open>memb\<close>, or the configured
  leader of the segment.  \<open>ttype\<close> is the type left in \<open>temp_rep\<close>.
\<close>

definition other_segment_reps ::
  "'a conf_state_scheme \<Rightarrow> configuration \<Rightarrow> nat \<Rightarrow> int \<Rightarrow> reps_info \<Rightarrow> reps_info option" where
  "other_segment_reps c memb mine ttype r0 =
     forM [0..<Conf_num_segments (Config c)]
       (\<lambda>i r. if i = mine then Some r
              else do {
                pid \<leftarrow> (case seg_procs (segments memb i) of
                          k # _ \<Rightarrow> Some (proc_id_at c k)
                        | [] \<Rightarrow> Conf_seg_leader c (Config c) i);
                insert_rep_ignoring c
                  \<lparr>rep_proc_id = pid, rep_type = ttype, rep_seg_index = int i\<rparr> r })
       r0"

definition gathered_reps :: "daemon \<Rightarrow> reps_info \<Rightarrow> reps_info option" where
  "gathered_reps s r0 =
     forM [1..num_reps (F_reps s) - 1] (\<lambda>i r. insert_rep_ignoring s (reps (F_reps s) i) r) r0"

definition no_reps :: "reps_info \<Rightarrow> reps_info" where
  "no_reps r = r\<lparr>num_reps := 0\<rparr>"

definition commit_self :: "daemon \<Rightarrow> daemon" where
  "commit_self s = s\<lparr>Commit_set := (Commit_set s)\<lparr>num_members := 1,
     members := (members (Commit_set s))(0 := p_id (Memb_My s))\<rparr>\<rparr>"

definition token_loss_reps :: "daemon \<Rightarrow> daemon option" where
  "token_loss_reps s = (case State s of
     OP \<Rightarrow> do {
       let s1 = commit_self s;
       r \<leftarrow> other_segment_reps s1 (Membership s1) (p_seg_index (Memb_My s1)) POTENTIAL_REP
             (no_reps (Potential_reps s1));
       Some (s1\<lparr>Potential_reps := r\<rparr>) }
   | SEG \<Rightarrow> None
   | REPRESENTED \<Rightarrow> None
   | GATHER \<Rightarrow> do {
       exit_if (\<not> Token_alive s);
       let s1 = commit_self s;
       r1 \<leftarrow> gathered_reps s1 (no_reps (Potential_reps s1));
       let ttype = (if num_reps (F_reps s1) > 1 then rep_type (reps (F_reps s1) (num_reps (F_reps s1) - 1))
                    else POTENTIAL_REP);
       r2 \<leftarrow> other_segment_reps s1 (Membership s1) (p_seg_index (Memb_My s1)) ttype r1;
       Some (s1\<lparr>Potential_reps := r2\<rparr>) }
   | FORM \<Rightarrow> Some s
   | EVS \<Rightarrow> do {
       let s1 = Backoff_membership s;
       r \<leftarrow> other_segment_reps s1 (Future_membership s1) (p_seg_index (Memb_My s1)) POTENTIAL_REP
             (no_reps (Potential_reps s1));
       Some (s1\<lparr>Potential_reps := r\<rparr>) })"

definition reset_last_token :: "'a prot_state_scheme \<Rightarrow> 'a prot_state_scheme" where
  "reset_last_token s = s\<lparr>Last_token := (Last_token s)\<lparr>th_type := 0, th_seq := 0, th_aru := 0\<rparr>\<rparr>"

definition Memb_token_loss :: "daemon \<Rightarrow> daemon option" where
  "Memb_token_loss s0 = do {
     s1 \<leftarrow> token_loss_reps s0;
     let s2 = (Shift_to_seg s1)\<lparr>Token_alive := False\<rparr>;
     let s3 = E_dequeue Memb_token_loss_f 0 0 s2;
     let s4 = E_dequeue Send_join_f 0 0 s3;
     let s5 = E_dequeue Form_or_fail_f 0 0 s4;
     let s6 = E_dequeue Prot_token_hurry_f 0 0 s5;
     let s7 = E_dequeue Memb_lookup_new_members_f 0 0 s6;
     let s8 = reset_last_token s7;
     Some (s8\<lparr>Membership := append_ignoring s8 (p_seg_index (Memb_My s8)) (p_id (Memb_My s8))
            (clear_procs (Conf_num_segments (Config s8)) (Membership s8))\<rparr>) }"

section \<open>Sending\<close>

definition members_bytes :: "members_info \<Rightarrow> int" where
  "members_bytes m = 2 * 2 + num_members m * sizeof_int32"

definition reps_bytes :: "reps_info \<Rightarrow> int" where
  "reps_bytes r = 2 * 2 + num_reps r * sizeof_rep_info"

definition Scast_alive :: "int \<Rightarrow> daemon \<Rightarrow> daemon" where
  "Scast_alive code s0 = (let
     len = members_bytes (F_members s0);
     h = (Memb_head s0)\<lparr>ph_type := ALIVE_TYPE, ph_data_len := to_int16 len\<rparr>;
     (ret, h', s1) = Net_scast (int (p_seg_index (Memb_My s0))) h
                       [C_members (F_members s0) (to_int16 len)] s0;
     s2 = s1\<lparr>Memb_head := h'\<rparr>
     in if code = 0 then E_queue Scast_alive_f 0 0 (Alive_timeout s2) s2 else s2)"

text \<open>The join packet that \<open>Send_join\<close> and \<open>Memb_lookup_new_members\<close> build.\<close>

definition join_pack :: "daemon \<Rightarrow> packet_header \<times> chunk list" where
  "join_pack s = (let
     len1 = members_bytes (F_members s); len2 = reps_bytes (F_reps s)
     in ((Memb_head s)\<lparr>ph_type := JOIN_TYPE, ph_data_len := to_int16 (len1 + len2)\<rparr>,
         [C_members (F_members s) len1, C_reps (F_reps s) len2]))"

definition send_memb_ucast :: "chunk list \<Rightarrow> daemon \<Rightarrow> int32u \<Rightarrow> daemon" where
  "send_memb_ucast payload s pid =
     (let (ret, h, s1) = Net_ucast pid (Memb_head s) payload s in s1\<lparr>Memb_head := h\<rparr>)"

definition send_memb_scast :: "chunk list \<Rightarrow> daemon \<Rightarrow> daemon" where
  "send_memb_scast payload s =
     (let (ret, h, s1) = Net_scast (int (p_seg_index (Memb_My s))) (Memb_head s) payload s
      in s1\<lparr>Memb_head := h\<rparr>)"

definition Send_join :: "daemon \<Rightarrow> daemon" where
  "Send_join s0 = (let
     (h, payload) = join_pack s0;
     s1 = s0\<lparr>Memb_head := h\<rparr>;
     s2 = (if \<not> Token_alive s1 then send_memb_scast payload s1 else s1);
     s3 = foldl (\<lambda>s i. send_memb_ucast payload s (rep_proc_id (reps (Potential_reps s) i)))
            s2 [0..num_reps (Potential_reps s2) - 1]
     in E_queue Send_join_f 0 0 (Join_timeout s3) s3)"

definition configured_procs :: "'a conf_state_scheme \<Rightarrow> nat list" where
  "configured_procs c =
     concat (map (\<lambda>i. seg_procs (segments (Config c) i)) [0..<Conf_num_segments (Config c)])"

definition Memb_lookup_new_members :: "daemon \<Rightarrow> daemon" where
  "Memb_lookup_new_members s0 =
     (if State s0 \<noteq> OP then s0
      else let
        s1 = s0\<lparr>Potential_reps := no_reps (Potential_reps s0),
               F_reps := (set_rep 0 \<lparr>rep_proc_id = p_id (Memb_My s0), rep_type = RING_REP,
                          rep_seg_index = int (p_seg_index (Memb_My s0))\<rparr> (F_reps s0))\<lparr>num_reps := 1\<rparr>,
               F_members := (F_members s0)\<lparr>num_members := 0, num_pending := 0\<rparr>\<rparr>;
        (h, payload) = join_pack s1;
        s2 = s1\<lparr>Memb_head := h\<rparr>;
        (s3, num_missing) =
          (if Conf_num_segments (Config s2) = 1 then (send_memb_scast payload s2, 1 :: nat)
           else foldl (\<lambda>(s, n) k. let pid = proc_id_at s k in
                  if Conf_id_in_conf s (Reg_membership s) pid = None
                  then (send_memb_ucast payload s pid, n + 1) else (s, n))
                (s2, 0) (configured_procs s2))
        in if num_missing \<noteq> 0 then Shift_to_gather s3 else s3)"

section \<open>Installing memberships\<close>

definition Memb_commit :: "daemon \<Rightarrow> daemon" where
  "Memb_commit s = s\<lparr>Commit_set := Future_commit_set s\<rparr>"

text \<open>The configured members of a segment that are among the first \<open>n\<close> of the commit set.\<close>

definition segment_of_commit ::
  "'a conf_state_scheme \<Rightarrow> members_info \<Rightarrow> int \<Rightarrow> nat \<Rightarrow> segment \<Rightarrow> segment option" where
  "segment_of_commit c m n i sg =
     forM (seg_procs (segments (Config c) i))
       (\<lambda>k sg. let pid = proc_id_at c k in
          if list_ex (\<lambda>j. members m j = pid) [0..n - 1] then Conf_append_id_to_seg c sg pid
          else Some sg)
       (sg\<lparr>seg_procs := []\<rparr>)"

definition memb_of_commit ::
  "'a conf_state_scheme \<Rightarrow> members_info \<Rightarrow> int \<Rightarrow> configuration \<Rightarrow> configuration option" where
  "memb_of_commit c m n cf0 =
     forM [0..<Conf_num_segments (Config c)]
       (\<lambda>i cf. do { sg \<leftarrow> segment_of_commit c m n i (segments cf i);
                    Some (cf\<lparr>segments := (segments cf)(i := sg)\<rparr>) })
       (cf0\<lparr>num_segments := Conf_num_segments (Config c)\<rparr>)"

definition Memb_transitional :: "daemon \<Rightarrow> daemon option" where
  "Memb_transitional s0 = do {
     let s1 = s0\<lparr>Transitional := True\<rparr>;
     tm \<leftarrow> memb_of_commit s1 (Commit_set s1) (num_pending (Commit_set s1)) (Trans_membership s1);
     let s2 = s1\<lparr>Trans_membership := tm\<rparr>;
     leader \<leftarrow> Conf_leader s2 (Trans_membership s2);
     let s3 = s2\<lparr>Trans_memb_id := \<lparr>mid_proc_id = leader, mid_time = F_trans_memb_time s2\<rparr>\<rparr>;
     cm \<leftarrow> memb_of_commit s3 (Commit_set s3) (num_members (Commit_set s3)) (Commit_membership s3);
     Some (s3\<lparr>Commit_membership := cm\<rparr>) }"

definition count_segments :: "configuration \<Rightarrow> nat" where
  "count_segments cf = length (filter (\<lambda>i. seg_procs (segments cf i) \<noteq> []) [0..<num_segments cf])"

definition Memb_regular :: "daemon \<Rightarrow> daemon option" where
  "Memb_regular s0 = do {
     let s1 = set_state OP (s0\<lparr>Transitional := False\<rparr>);
     let s2 = s1\<lparr>Membership := Future_membership s1, Membership_id := Future_membership_id s1,
                Reg_membership := Future_membership s1\<rparr>;
     let s3 = upd_status (\<lambda>g. g\<lparr>
         st_membership_changes := to_int16 (st_membership_changes g + 1),
         st_num_procs := to_int16 (int (Conf_num_procs (Membership s2))),
         st_num_segments := to_int16 (int (count_segments (Membership s2))),
         st_leader_id := mid_proc_id (Membership_id s2)\<rparr>) s2;
     let s4 = s3\<lparr>Foreign_found := False\<rparr>;
     leader \<leftarrow> Conf_leader s4 (Membership s4);
     Some (if leader = p_id (Memb_My s4)
           then E_queue Memb_lookup_new_members_f 0 0 (Lookup_timeout s4) s4 else s4) }"

section \<open>Membership packets\<close>

definition blank_header :: packet_header where
  "blank_header = \<lparr>ph_type = 0, ph_transmiter_id = 0, ph_proc_id = 0,
     ph_memb_id = \<lparr>mid_proc_id = 0, mid_time = 0\<rparr>, ph_seq = 0, ph_fifo_seq = 0,
     ph_packet_index = 0, ph_data_len = 0, ph_conf_hash = 0\<rparr>"

text \<open>A refer packet; the fields the C code leaves uninitialised are zero here.\<close>

definition send_refer :: "int32u \<Rightarrow> int32u \<Rightarrow> int \<Rightarrow> daemon \<Rightarrow> daemon" where
  "send_refer dest rep ttype s = (let
     h = blank_header\<lparr>ph_type := REFER_TYPE, ph_proc_id := p_id (Memb_My s),
           ph_memb_id := \<lparr>mid_proc_id = rep, mid_time = ttype\<rparr>, ph_data_len := 0\<rparr>;
     (ret, h', s1) = Net_ucast dest h [] s
     in s1)"

definition note_member :: "int32u \<Rightarrow> daemon \<Rightarrow> daemon" where
  "note_member pid s = s\<lparr>F_members := snd (Insert_member (F_members s) pid)\<rparr>"

definition Memb_handle_alive :: "packet_header \<Rightarrow> daemon \<Rightarrow> daemon option" where
  "Memb_handle_alive h s = (let pid = ph_proc_id h in case State s of
     OP \<Rightarrow> if Conf_id_in_conf s (Membership s) pid \<noteq> None
           then map_option (note_member pid) (Memb_token_loss s) else Some s
   | SEG \<Rightarrow> Some (note_member pid s)
   | REPRESENTED \<Rightarrow> Some (E_queue Shift_to_seg_f 0 0 (Rep_timeout s) s)
   | GATHER \<Rightarrow> if \<not> Token_alive s then Some (note_member pid s)
               else if Conf_id_in_conf s (Membership s) pid \<noteq> None
               then map_option (note_member pid) (Memb_token_loss s) else Some s
   | FORM \<Rightarrow> Some s
   | EVS \<Rightarrow> if Conf_id_in_conf s (Future_membership s) pid \<noteq> None
            then map_option (note_member pid) (Memb_token_loss s) else Some s)"

definition gather_join :: "reps_info \<Rightarrow> daemon \<Rightarrow> daemon option" where
  "gather_join r s = do {
     f \<leftarrow> insert_rep_ignoring s (reps r 0) (F_reps s);
     let s1 = s\<lparr>F_reps := f\<rparr>;
     p \<leftarrow> forM [0..num_reps r - 1] (\<lambda>i q. insert_rep_ignoring s1 (reps r i) q) (Potential_reps s1);
     let s2 = s1\<lparr>Potential_reps := p\<rparr>;
     (smallest, _) \<leftarrow> Smallest_rep s2 (F_reps s2);
     Some (if smallest = rep_proc_id (reps r 0)
           then E_queue Form_or_fail_f 0 0 (Gather_timeout s2) s2 else s2) }"

definition op_join :: "packet_header \<Rightarrow> reps_info \<Rightarrow> daemon \<Rightarrow> daemon option" where
  "op_join h r s =
     (if Conf_id_in_conf s (Membership s) (ph_proc_id h) = None then do {
        leader \<leftarrow> Conf_leader s (Membership s);
        if leader = p_id (Memb_My s)
        then Some (Shift_to_gather (s\<lparr>
               Potential_reps := (set_rep 0 (reps r 0) (Potential_reps s))\<lparr>num_reps := 1\<rparr>,
               F_members := (F_members s)\<lparr>num_members := 0, num_pending := 0\<rparr>\<rparr>))
        else do {
          answer \<leftarrow> (if rep_seg_index (reps r 0) \<noteq> int (p_seg_index (Memb_My s)) then Some True
                     else map_option (\<lambda>l. l = p_id (Memb_My s))
                            (Conf_seg_leader s (Membership s) (p_seg_index (Memb_My s))));
          Some (if answer then send_refer (ph_proc_id h) leader RING_REP s else s) } }
      else if Conf_num_segments (Config s) > 1 then Memb_token_loss s else Some s)"

definition Memb_handle_join :: "packet_header \<Rightarrow> byte list \<Rightarrow> daemon \<Rightarrow> daemon option" where
  "Memb_handle_join h buf s = (let
     (m, r) = read_join (Same_endian (ph_type h)) buf;
     pid = ph_proc_id h
     in case State s of
     OP \<Rightarrow> op_join h r s
   | SEG \<Rightarrow> do {
       p \<leftarrow> conf_proc s pid;
       Some (if p_seg_index (Memb_My s) = p_seg_index p \<and> rep_type (reps r 0) = SEG_REP
             then Scast_alive 1 (Shift_to_represented (s\<lparr>My_seg_rep := pid\<rparr>)) else s) }
   | REPRESENTED \<Rightarrow> do {
       p \<leftarrow> conf_proc s pid;
       Some (if p_seg_index (Memb_My s) = p_seg_index p \<and> rep_type (reps r 0) = SEG_REP
             then let s1 = s\<lparr>My_seg_rep := pid\<rparr>
                  in Scast_alive 1 (E_queue Shift_to_seg_f 0 0 (Rep_timeout s1) s1)
             else if My_seg_rep s \<noteq> - 1 then send_refer pid (My_seg_rep s) SEG_REP s
             else s) }
   | GATHER \<Rightarrow> gather_join r s
   | FORM \<Rightarrow> Some s
   | EVS \<Rightarrow> if Conf_id_in_conf s (Future_membership s) pid \<noteq> None
            then map_option (note_member pid) (Memb_token_loss s) else Some s)"

definition Memb_handle_refer :: "packet_header \<Rightarrow> daemon \<Rightarrow> daemon option" where
  "Memb_handle_refer h s =
     (if State s = GATHER then
        case conf_proc s (mid_proc_id (ph_memb_id h)) of
          None \<Rightarrow> Some s
        | Some p \<Rightarrow> map_option (\<lambda>r. s\<lparr>Potential_reps := r\<rparr>)
            (insert_rep_ignoring s
               \<lparr>rep_proc_id = p_id p, rep_type = to_int16 (mid_time (ph_memb_id h)),
                rep_seg_index = int (p_seg_index p)\<rparr> (Potential_reps s))
      else Some s)"

definition Memb_handle_foreign :: "packet_header \<Rightarrow> byte list \<Rightarrow> daemon \<Rightarrow> daemon option" where
  "Memb_handle_foreign h buf s =
     (if State s \<noteq> OP then Some s
      else case conf_proc s (ph_proc_id h) of
        None \<Rightarrow> Some s
      | Some _ \<Rightarrow> do {
          leader \<leftarrow> Conf_leader s (Membership s);
          if leader = p_id (Memb_My s) then Some (Memb_lookup_new_members s)
          else do {
            seg_leader \<leftarrow> Conf_seg_leader s (Membership s) (p_seg_index (Memb_My s));
            Some (if seg_leader = p_id (Memb_My s) \<and> \<not> Foreign_found s
                  then let
                    body = [C_bytes (take (nat (ph_data_len h)) buf)];
                    s1 = s\<lparr>Foreign_found := True\<rparr>;
                    (r1, h1, s2) = Net_ucast leader h body s1;
                    (r2, h2, s3) = Net_ucast leader h1 body s2
                    in s3
                  else s) } })"

definition Memb_handle_message :: "packet_header \<Rightarrow> byte list \<Rightarrow> daemon \<Rightarrow> daemon option" where
  "Memb_handle_message h buf s =
     (if Is_alive (ph_type h) then Memb_handle_alive h s
      else if Is_join (ph_type h) then Memb_handle_join h buf s
      else if Is_refer (ph_type h) then Memb_handle_refer h s
      else if Is_regular (ph_type h) then Memb_handle_foreign h buf s
      else None)"

end
