(* ===== verification/Flow_control.thy ===== *)
theory Flow_control
  imports Memb_core
begin

text \<open>
  \<open>daemon/flow_control.c\<close>: the window of the ring and the personal window, how many packets
  the holder of the token may send, and the change of the windows by the monitor.
\<close>

definition show_windows :: "daemon \<Rightarrow> daemon" where
  "show_windows s = upd_status (\<lambda>g. g\<lparr>st_window := Window s, st_personal_window := Personal_window s\<rparr>) s"

definition FC_init :: "daemon \<Rightarrow> daemon" where
  "FC_init s = show_windows (s\<lparr>Window := 60, Personal_window := 15\<rparr>)"

definition FC_new_configuration :: "'a prot_state_scheme \<Rightarrow> 'a prot_state_scheme" where
  "FC_new_configuration s = s\<lparr>Last_num_retrans := 0, Last_num_sent := 0\<rparr>"

definition FC_allowed :: "daemon \<Rightarrow> int \<Rightarrow> int \<Rightarrow> int" where
  "FC_allowed s flow_control num_retrans =
     (if State s = EVS then 0
      else if Highest_seq s > Aru s + MAX_SEQ_GAP then 0
      else let
        allowed = Window s + Personal_window s - flow_control;
        allowed = (if allowed < 0 then 0 else allowed);
        allowed = (if allowed > Window s then Window s else allowed)
      in if allowed > Personal_window s then Personal_window s else allowed)"

text \<open>
  The monitor's packet holds one 16-bit entry for every configured process and one for the
  window; \<open>-1\<close> keeps the current value.
\<close>

definition fc_entry :: "bool \<Rightarrow> byte list \<Rightarrow> nat \<Rightarrow> int" where
  "fc_entry same_endian buf i =
     (let v = rd16 buf (2 * int i) in if same_endian then v else flip_i16 v)"

definition FC_handle_message :: "packet_header \<Rightarrow> byte list \<Rightarrow> daemon \<Rightarrow> daemon option" where
  "FC_handle_message h buf s =
     (if \<not> Conf_get_dangerous_monitor_state s then Some s
      else if \<not> (mid_proc_id (ph_memb_id h) = monitor_id \<and>
                 Conf_id_in_conf s (Config s) (ph_proc_id h) \<noteq> None)
      then Some s
      else do {
        (my_index, _) \<leftarrow> Conf_proc_by_id s (p_id (Conf_My s));
        let same = Same_endian (ph_type h);
        let temp_window = fc_entry same buf (Conf_num_procs (Config s));
        let temp_personal = fc_entry same buf my_index;
        let s1 = (if temp_window \<noteq> - 1 then s\<lparr>Window := temp_window\<rparr> else s);
        let s2 = (if temp_personal \<noteq> - 1 then s1\<lparr>Personal_window := temp_personal\<rparr> else s1);
        Some (show_windows s2) })"

section \<open>How many packets may be sent\<close>

text \<open>The closed form of the clamping, for the windows the daemon starts with or is given.\<close>

lemma FC_allowed_clamp:
  assumes "0 \<le> Window s" and "0 \<le> Personal_window s"
  shows "FC_allowed s fc n =
    (if State s = EVS \<or> Highest_seq s > Aru s + MAX_SEQ_GAP then 0
     else max 0 (min (Window s + Personal_window s - fc) (min (Window s) (Personal_window s))))"
  using assms by (auto simp: FC_allowed_def Let_def)

lemma FC_allowed_windows [field_simps_state]:
  "Window (FC_init s) = 60" "Personal_window (FC_init s) = 15"
  by (simp_all add: FC_init_def show_windows_def upd_status_def)

lemma FC_handle_message_windows:
  assumes "FC_handle_message h buf s = Some s'"
  shows "State s' = State s" "Packets s' = Packets s" "heads s' = heads s" "Aru s' = Aru s"
    "My_aru s' = My_aru s" "Highest_seq s' = Highest_seq s" "Last_discarded s' = Last_discarded s"
    "Last_delivered s' = Last_delivered s" "Up_queue s' = Up_queue s"
  using assms
  by (auto simp: FC_handle_message_def bind_Some_iff Let_def show_windows_def upd_status_def
      split: if_splits)

end
