(* ===== verification/Prot_deliver.thy ===== *)
theory Prot_deliver
  imports Flow_control
begin

text \<open>
  Delivery in \<open>daemon/protocol.c\<close>: a packet is chained to the message of its sender and the
  complete message goes up to the sessions; reliable single packets are delivered at once,
  agreed packets in order without gaps, safe packets when \<open>Discard_packets\<close> finds them stable,
  and what is left at a membership change around the transitional membership.
\<close>

section \<open>One packet\<close>

definition entry_head :: "'a prot_state_scheme \<Rightarrow> int \<Rightarrow> packet_header" where
  "entry_head s e = heads s (pk_head (Packets s e))"

text \<open>A reliable message of a single packet goes up regardless of the sender's queue.\<close>

definition up_index :: "'a prot_state_scheme \<Rightarrow> int \<Rightarrow> int" where
  "up_index s e =
     (if Is_reliable (ph_type (entry_head s e)) \<and> ph_packet_index (entry_head s e) = - 1
      then int MAX_PROCS_RING else pk_proc_index (Packets s e))"

definition up_mess :: "'a prot_state_scheme \<Rightarrow> int \<Rightarrow> byte list list" where
  "up_mess s q = (case Up_queue s q of None \<Rightarrow> [] | Some m \<Rightarrow> m)"

text \<open>
  The C code does not check the number of elements against the size of a scatter; the element
  after the last one is out of bounds here.
\<close>

definition Deliver_packet :: "int \<Rightarrow> bool \<Rightarrow> daemon \<Rightarrow> daemon option" where
  "Deliver_packet e to_copy s = do {
     let h = entry_head s e;
     let q = up_index s e;
     let mess = up_mess s q;
     exit_if (int (length mess) + 1 \<noteq> \<bar>ph_packet_index h\<bar>);
     exit_if (length mess \<ge> MAX_SCATTER_ELEMENTS);
     exit_if (to_copy \<and> ph_data_len h < 0);
     let elem = take (nat (ph_data_len h)) (pk_body (Packets s e));
     let p = Packets s e;
     let p' = (if to_copy then p\<lparr>pk_body := elem, pk_exist := 2\<rparr> else p\<lparr>pk_exist := 2\<rparr>);
     let s1 = upd_status (\<lambda>g. g\<lparr>st_packet_delivered := st_packet_delivered g + 1\<rparr>)
                (s\<lparr>Packets := (Packets s)(e := p')\<rparr>);
     Some (if ph_packet_index h < 0
           then call_session (Sess_deliver_message (mess @ [elem]))
                  (s1\<lparr>Up_queue := (Up_queue s1)(q := None)\<rparr>)
           else s1\<lparr>Up_queue := (Up_queue s1)(q := Some (mess @ [elem]))\<rparr>) }"

definition reliable_single :: "packet_header \<Rightarrow> bool" where
  "reliable_single h \<longleftrightarrow> Is_reliable (ph_type h) \<and> ph_packet_index h = - 1"

section \<open>Reliable and agreed packets\<close>

definition reliable_step :: "int \<Rightarrow> daemon \<Rightarrow> daemon option" where
  "reliable_step i s =
     (if pk_exist (Packets s (slot i)) = 1 \<and> reliable_single (entry_head s (slot i))
      then Deliver_packet (slot i) True s else Some s)"

definition Deliver_reliable_packets :: "int \<Rightarrow> int \<Rightarrow> daemon \<Rightarrow> daemon option" where
  "Deliver_reliable_packets start_seq num_packets s =
     (if State s = EVS then Some s
      else let
        end_seq = start_seq + num_packets - 1;
        start = (if start_seq \<le> Last_delivered s then Last_delivered s + 1 else start_seq)
      in forM [start..end_seq] reliable_step s)"

definition agreed_step :: "int \<Rightarrow> daemon \<Rightarrow> (daemon \<times> bool) option" where
  "agreed_step i s =
     (if pk_exist (Packets s (slot i)) = 1
      then if \<not> Is_safe (ph_type (entry_head s (slot i)))
           then do { s1 \<leftarrow> Deliver_packet (slot i) True s;
                     Some (s1\<lparr>Last_delivered := Last_delivered s1 + 1\<rparr>, False) }
           else Some (s, True)
      else if pk_exist (Packets s (slot i)) = 2
      then Some (s\<lparr>Last_delivered := Last_delivered s + 1\<rparr>, False)
      else None)"

definition Deliver_agreed_packets :: "daemon \<Rightarrow> daemon option" where
  "Deliver_agreed_packets s =
     (if My_aru s \<le> Last_delivered s then Some s
      else if State s = EVS then Some s
      else forB [Last_delivered s + 1..My_aru s] agreed_step s)"

section \<open>Stable packets\<close>

text \<open>Outside EVS: everything up to \<open>Aru\<close> is delivered, if it was not before, and dropped.\<close>

definition discard_step :: "int \<Rightarrow> daemon \<Rightarrow> daemon option" where
  "discard_step i s =
     (if pk_exist (Packets s (slot i)) = 0 then None
      else do {
        s1 \<leftarrow> (if pk_exist (Packets s (slot i)) = 1 then Deliver_packet (slot i) False s else Some s);
        Some (set_exist i 0 s1) })"

definition Discard_stable :: "daemon \<Rightarrow> daemon option" where
  "Discard_stable s = do {
     s1 \<leftarrow> forM [Last_discarded s + 1..Aru s] discard_step s;
     let s2 = s1\<lparr>Last_discarded := Aru s1\<rparr>;
     Some (if Last_delivered s2 < Last_discarded s2
           then s2\<lparr>Last_delivered := Last_discarded s2\<rparr> else s2) }"

section \<open>A membership change\<close>

text \<open>Before the transitional membership: up to the first hole or the first safe packet.\<close>

definition evs_before_step :: "int \<Rightarrow> daemon \<Rightarrow> (daemon \<times> bool) option" where
  "evs_before_step i s =
     (if pk_exist (Packets s (slot i)) = 0 then None
      else if pk_exist (Packets s (slot i)) = 3 then Some (s, True)
      else if Is_safe (ph_type (entry_head s (slot i))) then Some (s, True)
      else do {
        s1 \<leftarrow> (if pk_exist (Packets s (slot i)) = 1 then Deliver_packet (slot i) False s else Some s);
        Some ((set_exist i 0 s1)\<lparr>Last_discarded := i\<rparr>, False) })"

definition Evs_before_transitional :: "daemon \<Rightarrow> daemon option" where
  "Evs_before_transitional s = forB [Last_discarded s + 1..Highest_seq s] evs_before_step s"

definition Evs_transitional :: "daemon \<Rightarrow> daemon option" where
  "Evs_transitional s = do {
     s1 \<leftarrow> Memb_transitional s;
     Some (call_session (Sess_deliver_trans_memb (Trans_membership s1) (Trans_memb_id s1)) s1) }"

text \<open>
  After it: behind a hole only the packets of the members of the commit set are delivered.
\<close>

definition evs_after_step :: "int \<Rightarrow> bool \<times> daemon \<Rightarrow> (bool \<times> daemon) option" where
  "evs_after_step i st = (let (found_hole, s) = st; p = Packets s (slot i) in
     if pk_exist p = 0 then None
     else if pk_exist p = 3 then Some (True, set_exist i 0 s)
     else if \<not> found_hole \<or>
             Conf_id_in_conf s (Commit_membership s) (ph_proc_id (entry_head s (slot i))) \<noteq> None
     then do {
       s1 \<leftarrow> (if pk_exist p = 1 then Deliver_packet (slot i) False s else Some s);
       Some (found_hole, set_exist i 0 s1) }
     else Some (found_hole, set_exist i 0 s))"

definition Evs_after_transitional :: "daemon \<Rightarrow> daemon option" where
  "Evs_after_transitional s =
     map_option snd (forM [Last_discarded s + 1..Highest_seq s] evs_after_step (False, s))"

text \<open>
  The message that was partly sent starts over, and the partial messages of the others are
  dropped.
\<close>

definition Evs_clean_queues :: "daemon \<Rightarrow> daemon" where
  "Evs_clean_queues s0 = (let
     s = (if dq_mess (down s0) \<noteq> [] then set_down ((down s0)\<lparr>dq_cur_element := 0\<rparr>) s0 else s0)
     in s\<lparr>Up_queue := (\<lambda>q. if 0 \<le> q \<and> q < int MAX_PROCS_RING then None else Up_queue s q)\<rparr>)"

definition Evs_regular :: "daemon \<Rightarrow> daemon option" where
  "Evs_regular s0 = do {
     s1 \<leftarrow> Memb_regular s0;
     let s2 = call_session (Sess_deliver_reg_memb (Reg_membership s1) (Membership_id s1)) s1;
     if Conf_in_reload_state s2
     then do {
       exit_if (st_gstate (GlobalStatus s2) \<noteq> 1 \<or> Conf_num_procs (Reg_membership s2) \<noteq> 1);
       Some (Conf_reload_state_end
               (E_queue Memb_lookup_new_members_f 0 0 Zero_timeout (Net_clear_partition s2))) }
     else Some s2 }"

definition Evs_reset :: "daemon \<Rightarrow> daemon" where
  "Evs_reset s = upd_status (\<lambda>g. g\<lparr>st_my_aru := 0\<rparr>) (s\<lparr>
     Last_token := (Last_token s)\<lparr>th_aru := 0\<rparr>,
     Highest_seq := 0, Highest_fifo_seq := 0, My_aru := 0, Aru := 0, Set_aru := - 1,
     Last_discarded := 0, Last_delivered := 0, Token_counter := 0\<rparr>)"

definition Discard_evs :: "daemon \<Rightarrow> daemon option" where
  "Discard_evs s0 = do {
     s1 \<leftarrow> Evs_before_transitional s0;
     s2 \<leftarrow> Evs_transitional s1;
     s3 \<leftarrow> Evs_after_transitional s2;
     s4 \<leftarrow> Evs_regular (Evs_clean_queues s3);
     Some (Evs_reset s4) }"

definition Discard_packets :: "daemon \<Rightarrow> daemon option" where
  "Discard_packets s =
     (if Aru s \<le> Last_discarded s then Some s
      else if State s = EVS then (if Aru s \<noteq> Last_seq s then Some s else Discard_evs s)
      else Discard_stable s)"

end
