(* ===== verification/Prot_token.thy ===== *)
theory Prot_token
  imports Prot_deliver
begin

text \<open>
  The token in \<open>daemon/protocol.c\<close>: sending the last token again, the packets a holder of the
  token sends from its down queue, the retransmissions it answers, the requests it adds, and
  the computation of \<open>aru\<close>.
\<close>

section \<open>Holding and hurrying the token\<close>

definition token_rests :: "daemon \<Rightarrow> bool" where
  "token_rests s \<longleftrightarrow>
     (State s = OP \<or> State s = GATHER \<and> Token_alive s) \<and>
     Get_retrans (th_type (Last_token s)) \<le> 1 \<and> Aru s = Highest_seq s \<and> Token_counter s > 1"

definition Is_token_hold :: "daemon \<Rightarrow> bool" where "Is_token_hold s = token_rests s"
definition To_hold_token :: "daemon \<Rightarrow> bool" where "To_hold_token s = token_rests s"

definition send_last_token :: "daemon \<Rightarrow> daemon option" where
  "send_last_token s = do {
     (t, s1) \<leftarrow> Net_send_token (Last_token s) [] s;
     Some (s1\<lparr>Last_token := t\<rparr>) }"

definition am_leader :: "daemon \<Rightarrow> bool option" where
  "am_leader s = map_option (\<lambda>l. l = p_id (Prot_My s)) (Conf_leader s (Memb_active_ptr s))"

definition Prot_token_hurry :: "daemon \<Rightarrow> daemon option" where
  "Prot_token_hurry s0 = do {
     let s1 = s0\<lparr>Last_token := (Last_token s0)\<lparr>th_rtr_len := 0\<rparr>\<rparr>;
     leader \<leftarrow> am_leader s1;
     let s2 = (if leader
       then let t = Last_token s1;
                s' = s1\<lparr>Last_token := t\<lparr>th_type := Set_retrans (th_type t) (Get_retrans (th_type t) + 1)\<rparr>\<rparr>;
                s'' = E_queue Prot_token_hurry_f 0 0 (Hurry_timeout s') s'
            in upd_status (\<lambda>g. g\<lparr>st_token_hurry := st_token_hurry g + 1\<rparr>) s''
       else s1);
     s3 \<leftarrow> send_last_token s2;
     again \<leftarrow> (if Wide_network s3
               then map_option (\<lambda>l. l = p_id (Prot_My s3))
                      (Conf_seg_last s3 (Memb_active_ptr s3) (p_seg_index (Prot_My s3)))
               else Some False);
     s4 \<leftarrow> (if again then send_last_token s3 else Some s3);
     if Get_retrans (th_type (Last_token s4)) > 1
     then do { s5 \<leftarrow> send_last_token s4; send_last_token s5 }
     else Some s4 }"

definition Handle_hurry :: "int32u \<Rightarrow> daemon \<Rightarrow> daemon option" where
  "Handle_hurry proc_id s = do {
     leader \<leftarrow> am_leader s;
     if leader \<and> Is_token_hold s \<and> Conf_id_in_conf s (Memb_active_ptr s) proc_id \<noteq> None
     then Prot_token_hurry s else Some s }"

section \<open>The down queue\<close>

definition Prot_init_down_queues :: "'a prot_state_scheme \<Rightarrow> 'a prot_state_scheme" where
  "Prot_init_down_queues s = s\<lparr>Protocol_down_queue := (\<lambda>_. \<lparr>dq_mess = [], dq_cur_element = 0\<rparr>)\<rparr>"

definition Prot_set_down_queue :: "queue_type \<Rightarrow> 'a prot_state_scheme \<Rightarrow> 'a prot_state_scheme" where
  "Prot_set_down_queue qt s = s\<lparr>Down_queue_ptr := qt\<rparr>"

definition hurry_header :: "daemon \<Rightarrow> packet_header" where
  "hurry_header s = blank_header\<lparr>ph_type := HURRY_TYPE, ph_proc_id := p_id (Prot_My s)\<rparr>"

definition Prot_new_message :: "down_link \<Rightarrow> daemon \<Rightarrow> daemon option" where
  "Prot_new_message link s0 = do {
     let s1 = set_down ((down s0)\<lparr>dq_mess := dq_mess (down s0) @ [link]\<rparr>) s0;
     let n = length (dq_mess (down s1));
     let s2 = (if n \<ge> WATER_MARK then call_session Sess_block_users_level s1 else s1);
     if n = 1 \<and> Is_token_hold s2
     then do {
       leader \<leftarrow> Conf_leader s2 (Memb_active_ptr s2);
       if leader = p_id (Prot_My s2) then Handle_hurry (p_id (Prot_My s2)) s2
       else let (ret, h, s3) = Net_ucast leader (hurry_header s2) [] s2 in Some s3 }
     else Some s2 }"

text \<open>
  The next packet of the queue: its bytes, its type, its packet index, the queue without it,
  and whether it ends its message.
\<close>

definition take_element :: "down_queue \<Rightarrow> (byte list \<times> int32u \<times> int \<times> down_queue \<times> bool) option" where
  "take_element q = (case dq_mess q of [] \<Rightarrow> None | l # ls \<Rightarrow>
     let n = length (dl_mess l); c = dq_cur_element q in
     if Suc c < n then Some (dl_mess l ! c, dl_type l, int (Suc c), q\<lparr>dq_cur_element := Suc c\<rparr>, False)
     else if Suc c = n then Some (dl_mess l ! c, dl_type l, - int n, \<lparr>dq_mess = ls, dq_cur_element = 0\<rparr>, True)
     else None)"

definition new_header :: "int32u \<Rightarrow> int \<Rightarrow> nat \<Rightarrow> daemon \<Rightarrow> packet_header" where
  "new_header ty idx len s = blank_header\<lparr>ph_type := ty, ph_proc_id := p_id (Prot_My s),
     ph_memb_id := Membership_id s, ph_seq := Highest_seq s + 1,
     ph_fifo_seq := Highest_fifo_seq s + 1, ph_packet_index := to_int16 idx,
     ph_data_len := to_int16 (int len)\<rparr>"

definition store_head :: "packet_header \<Rightarrow> 'a net_state_scheme \<Rightarrow> nat \<times> 'a net_state_scheme" where
  "store_head h s = (next_head s, s\<lparr>heads := (heads s)(next_head s := h), next_head := Suc (next_head s)\<rparr>)"

definition take_from_down :: "daemon \<Rightarrow> (byte list \<times> int32u \<times> int \<times> daemon) option" where
  "take_from_down s = do {
     (elem, ty, idx, q', last) \<leftarrow> take_element (down s);
     let s1 = set_down q' s;
     Some (elem, ty, idx,
       if last \<and> length (dq_mess q') < WATER_MARK then call_session Sess_unblock_users_level s1 else s1) }"

definition insert_own :: "int \<Rightarrow> nat \<Rightarrow> byte list \<Rightarrow> daemon \<Rightarrow> daemon option" where
  "insert_own q r body s = do {
     exit_if (pk_exist (pkt s q) \<noteq> 0);
     Some (set_pkt (slot q) \<lparr>pk_head = r, pk_body = body, pk_exist = 1, pk_proc_index = Prot_My_index s\<rparr> s) }"

text \<open>One packet of \<open>Send_new_packets\<close>; the flag says that \<open>Net_queue_bcast\<close> sent a datagram.\<close>

definition Send_new_step :: "daemon \<Rightarrow> (bool \<times> daemon) option" where
  "Send_new_step s0 = do {
     (elem, ty, idx, s1) \<leftarrow> take_from_down s0;
     let h = new_header ty idx (length elem) s1;
     let (r, s2) = store_head h (s1\<lparr>Highest_seq := Highest_seq s1 + 1,
                                   Highest_fifo_seq := Highest_fifo_seq s1 + 1\<rparr>);
     let (ret, s3) = Net_queue_bcast r (take (nat (ph_data_len h)) elem) s2;
     s4 \<leftarrow> insert_own (ph_seq h) r elem s3;
     Some (ret > 0, s4) }"

definition queued_elements :: "down_queue \<Rightarrow> nat" where
  "queued_elements q = (\<Sum>l\<leftarrow>dq_mess q. length (dl_mess l)) - dq_cur_element q"

lemma take_element_decreases:
  assumes "take_element q = Some (elem, ty, idx, q', fin)"
  shows "queued_elements q' < queued_elements q"
  using assms
  by (auto simp: take_element_def queued_elements_def Let_def split: list.splits if_splits)

lemma take_from_down_eq:
  assumes "take_from_down s = Some (elem, ty, idx, s')"
  obtains q' fin where "take_element (down s) = Some (elem, ty, idx, q', fin)"
    "s' = (if fin \<and> length (dq_mess q') < WATER_MARK then call_session Sess_unblock_users_level (set_down q' s)
           else set_down q' s)"
  using assms unfolding take_from_down_def bind_Some_iff Let_def
  by (elim exE conjE) (auto split: prod.splits simp only: prod.case option.inject prod.inject)

lemma down_set_down [simp]: "down (set_down q s) = q" "down (call_session u s) = down s"
  by (simp_all add: down_def set_down_def call_session_def)

text \<open>The fields of the protocol that a send leaves alone.\<close>

lemma net_frame_prot:
  assumes "net_frame s s'"
  shows "Protocol_down_queue s' = Protocol_down_queue s" "Down_queue_ptr s' = Down_queue_ptr s"
    "Packets s' = Packets s" "Up_queue s' = Up_queue s" "Aru s' = Aru s" "My_aru s' = My_aru s"
    "Highest_seq s' = Highest_seq s" "Last_discarded s' = Last_discarded s"
    "Last_delivered s' = Last_delivered s" "Last_token s' = Last_token s"
    "Prot_My s' = Prot_My s" "Set_aru s' = Set_aru s" "down s' = down s"
    "next_head s' = next_head s"
proof -
  have eq: "s' = s\<lparr>sent := sent s', sendmsg_calls := sendmsg_calls s', heads := heads s',
    Queue_scat := Queue_scat s', Queued_bytes := Queued_bytes s'\<rparr>" 
    using assms by (simp add: net_frame_def)
  show "Protocol_down_queue s' = Protocol_down_queue s" by (subst eq) simp
  show "Down_queue_ptr s' = Down_queue_ptr s" by (subst eq) simp
  then show "down s' = down s" unfolding down_def by (subst eq) simp
  show "Packets s' = Packets s" by (subst eq) simp
  show "Up_queue s' = Up_queue s" by (subst eq) simp
  show "Aru s' = Aru s" by (subst eq) simp
  show "My_aru s' = My_aru s" by (subst eq) simp
  show "Highest_seq s' = Highest_seq s" by (subst eq) simp
  show "Last_discarded s' = Last_discarded s" by (subst eq) simp
  show "Last_delivered s' = Last_delivered s" by (subst eq) simp
  show "Last_token s' = Last_token s" by (subst eq) simp
  show "Prot_My s' = Prot_My s" by (subst eq) simp
  show "Set_aru s' = Set_aru s" by (subst eq) simp
  show "next_head s' = next_head s" by (subst eq) simp
qed

lemma Send_new_step_decreases:
  assumes "Send_new_step s = Some (b, s')"
  shows "queued_elements (down s') < queued_elements (down s)"
proof -
  from assms obtain elem ty idx s1 where t: "take_from_down s = Some (elem, ty, idx, s1)"
    by (auto simp: Send_new_step_def bind_Some_iff)
  let ?h = "new_header ty idx (length elem) s1"
  let ?s = "snd (store_head ?h (s1\<lparr>Highest_seq := Highest_seq s1 + 1,
              Highest_fifo_seq := Highest_fifo_seq s1 + 1\<rparr>))"
  obtain ret s3 where q: "Net_queue_bcast (next_head s1) (take (nat (ph_data_len ?h)) elem) ?s = (ret, s3)"
    by (metis surj_pair)
  from assms t q have "insert_own (ph_seq ?h) (next_head s1) elem s3 = Some s'"
    by (auto simp: Send_new_step_def bind_Some_iff store_head_def Let_def)
  then have "down s' = down s3" by (auto simp: insert_own_def set_pkt_def down_def bind_Some_iff)
  also have "\<dots> = down ?s" by (rule net_frame_prot [OF net_frame_Net_queue_bcast [OF q]])
  also have "\<dots> = down s1" by (simp add: store_head_def down_def)
  finally have eq: "down s' = down s1" .
  from t obtain q' fin where "take_element (down s) = Some (elem, ty, idx, q', fin)" "down s1 = q'"
    by (elim take_from_down_eq) (auto split: if_splits)
  with eq show ?thesis using take_element_decreases by simp
qed

text \<open>
  The loop ends because every turn takes an element off the down queue, also when nothing goes
  out: \<open>num_sent\<close> counts the datagrams \<open>Net_queue_bcast\<close> sent.
\<close>

function Send_new_loop :: "int \<Rightarrow> int \<Rightarrow> daemon \<Rightarrow> (int \<times> daemon) option" where
  "Send_new_loop num_allowed num_sent s =
     (if num_sent < num_allowed \<and> dq_mess (down s) \<noteq> []
      then (case Send_new_step s of None \<Rightarrow> None
            | Some (went, s') \<Rightarrow> Send_new_loop num_allowed (if went then num_sent + 1 else num_sent) s')
      else Some (num_sent, s))"
  by pat_completeness auto

termination
  by (relation "measure (\<lambda>(_, _, s). queued_elements (down s))")
    (auto dest: Send_new_step_decreases)

declare Send_new_loop.simps [simp del]

definition Send_new_packets :: "int \<Rightarrow> daemon \<Rightarrow> (int \<times> daemon) option" where
  "Send_new_packets num_allowed s = do {
     (num_sent, s1) \<leftarrow> Send_new_loop num_allowed 0 s;
     let (ret, s2) = Net_flush_bcast s1;
     Some (if ret > 0 then num_sent + 1 else num_sent, s2) }"

section \<open>Retransmissions\<close>

text \<open>
  What \<open>Answer_retrans\<close> leaves in its result parameters: the process and segment for the
  request entry of this daemon, and the number of packets sent again.
\<close>

record retrans =
  rt_num :: int
  rt_proc_id :: int32u
  rt_seg_index :: int

definition resend_body :: "daemon \<Rightarrow> int \<Rightarrow> byte list" where
  "resend_body s q = take (nat (ph_data_len (pkt_head s q))) (pk_body (pkt s q))"

definition put_head :: "nat \<Rightarrow> packet_header \<Rightarrow> 'a net_state_scheme \<Rightarrow> 'a net_state_scheme" where
  "put_head r h s = s\<lparr>heads := (heads s)(r := h)\<rparr>"

text \<open>A segment index from the wire that is outside the membership is out of bounds.\<close>

definition resend_packet :: "ring_rtr \<Rightarrow> int \<Rightarrow> daemon \<Rightarrow> (int \<times> daemon) option" where
  "resend_packet rr q s = (let ref = pk_head (pkt s q); payload = [C_bytes (resend_body s q)] in
     if rr_proc_id rr \<noteq> - 1
     then let (ret, h, s1) = Net_ucast (rr_proc_id rr) (pkt_head s q) payload s in
          Some (ret, upd_status (\<lambda>g. g\<lparr>st_u_retrans := st_u_retrans g + 1\<rparr>) (put_head ref h s1))
     else if rr_seg_index rr \<noteq> - 1
     then if rr_seg_index rr < 0 \<or> rr_seg_index rr \<ge> int (num_segments (Net_membership s)) then None
          else let (ret, h, s1) = Net_scast (rr_seg_index rr) (pkt_head s q) payload s in
          Some (ret, upd_status (\<lambda>g. g\<lparr>st_s_retrans := st_s_retrans g + 1\<rparr>) (put_head ref h s1))
     else let (ret, s1) = Net_queue_bcast ref (resend_body s q) s in
          Some (ret, if ret > 0 then upd_status (\<lambda>g. g\<lparr>st_b_retrans := st_b_retrans g + 1\<rparr>) s1 else s1))"

definition answer_request ::
  "ring_rtr \<Rightarrow> int \<Rightarrow> retrans \<times> daemon \<Rightarrow> (retrans \<times> daemon) option" where
  "answer_request rr q st = (let (r, s) = st in
     if q < Aru s then None
     else if pk_exist (pkt s q) \<noteq> 0
     then do {
       (ret, s1) \<leftarrow> resend_packet rr q s;
       Some (if ret > 0 then r\<lparr>rt_num := rt_num r + 1\<rparr> else r, s1) }
     else Some (if rr_seg_index rr \<noteq> int (p_seg_index (Prot_My s))
                then r\<lparr>rt_proc_id := - 1, rt_seg_index := - 1\<rparr> else r\<lparr>rt_proc_id := - 1\<rparr>, s))"

text \<open>The requests of one entry of my ring, read from the buffer behind the entry.\<close>

definition answer_entry ::
  "ring_rtr \<Rightarrow> int \<Rightarrow> byte list \<Rightarrow> retrans \<times> daemon \<Rightarrow> (retrans \<times> daemon) option" where
  "answer_entry rr off buf st =
     forM [0..rr_num_seq rr - 1]
       (\<lambda>i st. do { q \<leftarrow> get_int32 buf (off + sizeof_int32 * i); answer_request rr q st }) st"

text \<open>
  The walk over the entries.  Entries of other rings are moved together at the front of the
  buffer.  A negative count in such an entry can make the walk stand still, as in C.
\<close>

partial_function (option) answer_loop ::
  "int \<Rightarrow> int \<Rightarrow> int \<Rightarrow> byte list \<Rightarrow> retrans \<times> daemon \<Rightarrow> (int \<times> byte list \<times> retrans \<times> daemon) option" where
  "answer_loop rtr_len old_ptr new_ptr buf st =
     (if old_ptr < rtr_len
      then do {
        rr \<leftarrow> get_ring_rtr buf old_ptr;
        if Memb_is_equal (rr_memb_id rr) (Membership_id (snd st))
        then do {
          st' \<leftarrow> answer_entry rr (old_ptr + sizeof_ring_rtr) buf st;
          answer_loop rtr_len (old_ptr + sizeof_ring_rtr + sizeof_int32 * max 0 (rr_num_seq rr))
            new_ptr buf st' }
        else do {
          let n = sizeof_ring_rtr + rr_num_seq rr * sizeof_int32;
          buf' \<leftarrow> (if new_ptr \<noteq> old_ptr then memmove_in buf new_ptr old_ptr n else Some buf);
          answer_loop rtr_len (old_ptr + n) (new_ptr + n) buf' st } }
      else Some (new_ptr, buf, st))"

declare answer_loop.simps [code]

definition Answer_retrans ::
  "int \<Rightarrow> byte list \<Rightarrow> daemon \<Rightarrow> (int \<times> byte list \<times> retrans \<times> daemon) option" where
  "Answer_retrans rtr_len buf s = do {
     (new_ptr, buf', r, s1) \<leftarrow>
       answer_loop rtr_len 0 0 buf
         (\<lparr>rt_num = 0, rt_proc_id = p_id (Prot_My s), rt_seg_index = int (p_seg_index (Prot_My s))\<rparr>, s);
     let (ret, s2) = Net_flush_bcast s1;
     Some (if ret > 0
           then (new_ptr, buf', r\<lparr>rt_num := rt_num r + 1\<rparr>,
                 upd_status (\<lambda>g. g\<lparr>st_b_retrans := st_b_retrans g + 1\<rparr>) s2)
           else (new_ptr, buf', r, s2)) }"

text \<open>The requests of a token of the other endianness, flipped in place.\<close>

definition Flip_ring_rtr :: "ring_rtr \<Rightarrow> ring_rtr" where
  "Flip_ring_rtr r = \<lparr>rr_memb_id = Flip_memb_id (rr_memb_id r),
     rr_proc_id = Flip_int32 (rr_proc_id r), rr_seg_index = flip_i16 (rr_seg_index r),
     rr_num_seq = flip_i16 (rr_num_seq r)\<rparr>"

definition flip_request :: "int \<Rightarrow> int \<Rightarrow> byte list \<Rightarrow> byte list option" where
  "flip_request off i buf = do {
     v \<leftarrow> get_int32 buf (off + sizeof_int32 * i);
     put_int32 buf (off + sizeof_int32 * i) (flip_i32 v) }"

partial_function (option) flip_token_loop :: "int \<Rightarrow> int \<Rightarrow> byte list \<Rightarrow> byte list option" where
  "flip_token_loop rtr_len ptr buf =
     (if ptr < rtr_len
      then do {
        r0 \<leftarrow> get_ring_rtr buf ptr;
        let r = Flip_ring_rtr r0;
        buf1 \<leftarrow> put_ring_rtr buf ptr r;
        buf2 \<leftarrow> forM [0..rr_num_seq r - 1] (flip_request (ptr + sizeof_ring_rtr)) buf1;
        flip_token_loop rtr_len (ptr + sizeof_ring_rtr + sizeof_int32 * max 0 (rr_num_seq r)) buf2 }
      else Some buf)"

declare flip_token_loop.simps [code]

definition Flip_token_body :: "byte list \<Rightarrow> token_header \<Rightarrow> byte list option" where
  "Flip_token_body buf t = (if th_rtr_len t \<le> 0 then Some buf else flip_token_loop (th_rtr_len t) 0 buf)"

section \<open>The regular token\<close>

text \<open>
  Which tokens are taken: the leader takes a token with its own last round bits, the others
  the successor of theirs; a repeated token with a higher retransmission count makes the daemon
  send its last token again.
\<close>

datatype verdict = Swallow | Resend | Fresh

definition token_verdict :: "token_header \<Rightarrow> daemon \<Rightarrow> verdict option" where
  "token_verdict t s = do {
     leader \<leftarrow> am_leader s;
     let last = th_type (Last_token s);
     Some (if leader
           then (if Get_arq (th_type t) \<noteq> Get_arq last then Swallow else Fresh)
           else if Get_arq (th_type t) = Get_arq last
           then (if Get_retrans (th_type t) > Get_retrans last then Resend else Swallow)
           else if Get_arq (th_type t) \<noteq> (Get_arq last + 1) mod 0x10 then Swallow
           else Fresh) }"

definition resend_last :: "token_header \<Rightarrow> daemon \<Rightarrow> daemon option" where
  "resend_last t s = Prot_token_hurry (s\<lparr>Last_token := (Last_token s)\<lparr>
     th_type := Set_retrans (th_type (Last_token s)) (Get_retrans (th_type t))\<rparr>\<rparr>)"

definition count_hurried :: "token_header \<Rightarrow> daemon \<Rightarrow> daemon option" where
  "count_hurried t s = do {
     leader \<leftarrow> am_leader s;
     Some (if \<not> leader \<and> Get_retrans (th_type t) > 0
           then upd_status (\<lambda>g. g\<lparr>st_token_hurry := st_token_hurry g + 1\<rparr>) s else s) }"

definition raise_highest :: "int \<Rightarrow> 'a prot_state_scheme \<Rightarrow> 'a prot_state_scheme" where
  "raise_highest q s = (if Highest_seq s < q then s\<lparr>Highest_seq := q\<rparr> else s)"

text \<open>Retransmissions and new packets, with the flow control field of the token.\<close>

definition token_traffic ::
  "token_header \<Rightarrow> byte list \<Rightarrow> daemon \<Rightarrow>
   (token_header \<times> int \<times> byte list \<times> retrans \<times> int \<times> daemon) option" where
  "token_traffic t buf s0 = do {
     (new_ptr, buf1, r, s1) \<leftarrow> Answer_retrans (th_rtr_len t) buf s0;
     let s2 = upd_status (\<lambda>g. g\<lparr>st_retrans := st_retrans g + rt_num r\<rparr>) s1;
     let num_allowed = FC_allowed s2 (th_flow_control t) (rt_num r);
     (num_sent, s3) \<leftarrow> Send_new_packets num_allowed s2;
     let s4 = upd_status (\<lambda>g. g\<lparr>st_packet_sent := st_packet_sent g + num_sent\<rparr>) s3;
     let t1 = t\<lparr>th_flow_control := to_int16 (th_flow_control t - Last_num_retrans s4
                 - Last_num_sent s4 + rt_num r + num_sent)\<rparr>;
     Some (t1, new_ptr, buf1, r, num_sent,
           s4\<lparr>Last_num_retrans := rt_num r, Last_num_sent := num_sent\<rparr>) }"

definition advance_aru :: "daemon \<Rightarrow> daemon" where
  "advance_aru s0 = (let
     s = s0\<lparr>My_aru := My_aru s0 +
          count_while (\<lambda>i. pk_exist (pkt s0 i) \<noteq> 0) [My_aru s0 + 1..Highest_seq s0]\<rparr>
     in upd_status (\<lambda>g. g\<lparr>st_my_aru := My_aru s\<rparr>) s)"

text \<open>
  The packets this daemon asks for: the missing ones among the first \<open>retrans_allowed\<close> numbers
  above \<open>My_aru\<close>.
\<close>

definition requests_allowed :: "int \<Rightarrow> int" where
  "requests_allowed new_ptr = (sizeof_token_body - new_ptr - sizeof_ring_rtr) div sizeof_int32"

definition my_requests :: "int \<Rightarrow> daemon \<Rightarrow> int list" where
  "my_requests allowed s =
     filter (\<lambda>i. pk_exist (pkt s i) = 0) (take (nat allowed) [My_aru s + 1..Highest_seq s])"

definition put_request :: "int \<Rightarrow> int \<times> byte list \<Rightarrow> (int \<times> byte list) option" where
  "put_request q st = (case st of (ptr, buf) \<Rightarrow>
     map_option (\<lambda>b. (ptr + sizeof_int32, b)) (put_int32 buf ptr q))"

definition request_retrans ::
  "retrans \<Rightarrow> int \<Rightarrow> byte list \<Rightarrow> daemon \<Rightarrow> (int \<times> byte list) option" where
  "request_retrans r new_ptr buf s =
     (if My_aru s < Highest_seq s \<and> requests_allowed new_ptr > 1
      then do {
        let qs = my_requests (requests_allowed new_ptr) s;
        buf1 \<leftarrow> put_ring_rtr buf new_ptr
          \<lparr>rr_memb_id = Membership_id s, rr_proc_id = rt_proc_id r, rr_seg_index = rt_seg_index r,
           rr_num_seq = to_int16 (int (length qs))\<rparr>;
        forM qs put_request (new_ptr + sizeof_ring_rtr, buf1) }
      else Some (new_ptr, buf))"

definition evs_complete :: "daemon \<Rightarrow> daemon" where
  "evs_complete s =
     (if State s = EVS \<and> My_aru s = Highest_seq s then Memb_commit (s\<lparr>My_aru := Last_seq s\<rparr>) else s)"

text \<open>The \<open>aru\<close> of the token, and what this daemon remembers of having set it.\<close>

definition decide_aru ::
  "token_header \<Rightarrow> int32u \<Rightarrow> int \<Rightarrow> int \<Rightarrow> int \<Rightarrow> token_header \<times> int" where
  "decide_aru t me my_aru highest set_aru =
     (if th_aru t = set_aru \<or> th_aru_last_id t = me \<or> th_aru t = th_seq t
      then (t\<lparr>th_aru := my_aru, th_aru_last_id := me\<rparr>, if my_aru < highest then my_aru else - 1)
      else if th_aru t > my_aru
      then (t\<lparr>th_aru := my_aru, th_aru_last_id := me\<rparr>, my_aru)
      else (t, - 1))"

definition compute_aru :: "token_header \<Rightarrow> daemon \<Rightarrow> token_header \<times> daemon" where
  "compute_aru t s =
     (let (t', set_aru) = decide_aru t (p_id (Prot_My s)) (My_aru s) (Highest_seq s) (Set_aru s)
      in (t', s\<lparr>Set_aru := set_aru\<rparr>))"

definition update_token :: "token_header \<Rightarrow> daemon \<Rightarrow> token_header option" where
  "update_token t s = do {
     leader \<leftarrow> am_leader s;
     let t1 = t\<lparr>th_proc_id := p_id (Prot_My s)\<rparr>;
     let t2 = (if State s \<noteq> EVS then t1\<lparr>th_seq := Highest_seq s\<rparr> else t1);
     Some (if leader
           then t2\<lparr>th_type := Set_retrans (Set_arq (th_type t2) ((Get_arq (th_type t2) + 1) mod 0x10)) 0\<rparr>
           else t2) }"

text \<open>
  The leader may keep the token; otherwise it is sent once, or three times when it was
  retransmitted before.
\<close>

definition pass_token :: "token_header \<Rightarrow> byte list \<Rightarrow> daemon \<Rightarrow> (token_header \<times> daemon) option" where
  "pass_token t buf s = do {
     leader \<leftarrow> am_leader s;
     let payload = [C_bytes (take (nat (th_rtr_len t)) buf)];
     if leader \<and> To_hold_token s then Some (t, s)
     else do {
       (t1, s1) \<leftarrow> Net_send_token t payload s;
       if Get_retrans (th_type t1) > 1
       then do { (t2, s2) \<leftarrow> Net_send_token t1 payload s1; Net_send_token t2 payload s2 }
       else Some (t1, s1) } }"

definition restart_timers :: "daemon \<Rightarrow> daemon option" where
  "restart_timers s = do {
     leader \<leftarrow> am_leader s;
     let s1 = (if leader then E_queue Prot_token_hurry_f 0 0 (Hurry_timeout s) s else s);
     Some (E_queue Memb_token_loss_f 0 0 (Token_timeout s1) s1) }"

text \<open>\<open>Aru\<close>: what two consecutive visits of the token agree on.\<close>

definition stable_aru :: "token_header \<Rightarrow> token_header \<Rightarrow> int" where
  "stable_aru t prev = (if th_aru t > th_aru prev then th_aru prev else th_aru t)"

definition compute_Aru :: "token_header \<Rightarrow> daemon \<Rightarrow> daemon" where
  "compute_Aru t s0 = (let
     s1 = s0\<lparr>Aru := stable_aru t (Last_token s0)\<rparr>;
     s2 = s1\<lparr>Token_counter := if Highest_seq s1 = Aru s1 then Token_counter s1 + 1 else 0\<rparr>
     in s2\<lparr>Last_token := t\<rparr>)"

definition deliver_after_token :: "int \<Rightarrow> daemon \<Rightarrow> daemon option" where
  "deliver_after_token num_sent s0 = do {
     s1 \<leftarrow> Discard_packets s0;
     s2 \<leftarrow> Deliver_agreed_packets s1;
     Deliver_reliable_packets (Highest_seq s2 - num_sent + 1) num_sent s2 }"

definition evs_rounds_guard :: "daemon \<Rightarrow> daemon option" where
  "evs_rounds_guard s =
     (if State s = EVS \<and> Token_rounds s > MAX_EVS_ROUNDS then Memb_token_loss s else Some s)"

definition show_sequence :: "daemon \<Rightarrow> daemon" where
  "show_sequence s = upd_status (\<lambda>g. g\<lparr>st_highest_seq := Highest_seq s, st_aru := Aru s,
     st_token_rounds := Token_rounds s\<rparr>) s"

definition process_token :: "token_header \<Rightarrow> byte list \<Rightarrow> daemon \<Rightarrow> daemon option" where
  "process_token t0 buf0 s0 = do {
     let s1 = raise_highest (th_seq t0) s0;
     (t1, new_ptr, buf1, r, num_sent, s2) \<leftarrow> token_traffic t0 buf0 s1;
     let s3 = advance_aru s2;
     (new_ptr2, buf2) \<leftarrow> request_retrans r new_ptr buf1 s3;
     let s4 = evs_complete s3;
     let t2 = t1\<lparr>th_rtr_len := to_int16 new_ptr2\<rparr>;
     let (t3, s5) = compute_aru t2 s4;
     t4 \<leftarrow> update_token t3 s5;
     (t5, s6) \<leftarrow> pass_token t4 buf2 s5;
     s7 \<leftarrow> restart_timers (s6\<lparr>Token_rounds := Token_rounds s6 + 1\<rparr>);
     s8 \<leftarrow> deliver_after_token num_sent (compute_Aru t5 s7);
     s9 \<leftarrow> evs_rounds_guard s8;
     Some (show_sequence s9) }"

text \<open>
  A regular token: \<open>ret\<close> is what was received, \<open>buf\<close> the token buffer.  While this daemon has
  given up its ring it swallows the tokens of that ring.
\<close>

definition handle_regular_token ::
  "int \<Rightarrow> token_header \<Rightarrow> byte list \<Rightarrow> daemon \<Rightarrow> daemon option" where
  "handle_regular_token ret t buf s =
     (if \<not> Token_alive s then Some s
      else if ret \<noteq> sizeof_token_header + th_rtr_len t then Some s
      else do {
        buf1 \<leftarrow> (if Same_endian (th_type t) then Some buf else Flip_token_body buf t);
        v \<leftarrow> token_verdict t s;
        (case v of
           Swallow \<Rightarrow> Some s
         | Resend \<Rightarrow> resend_last t s
         | Fresh \<Rightarrow> do { s1 \<leftarrow> count_hurried t s; process_token t buf1 s1 }) })"

end
