(* ===== verification/Memb_form.thy ===== *)
theory Memb_form
  imports Prot_deliver
begin

text \<open>
  The form tokens of \<open>daemon/membership.c\<close>.  The first form token goes around the future
  members and collects, for every old ring, its \<open>aru\<close>, its highest sequence number, the packets
  every member misses (holes) and the members committed to it; the second one carries the
  identifier of the new membership and makes every member recover its old ring.

  The body of a form token is a buffer of consecutive structures; here it is the list of these
  structures, and what does not fit into a token body is out of bounds.
\<close>

section \<open>The body of a form token\<close>

record form1_body =
  f1_members :: members_info
  f1_reps :: reps_info
  f1_rings :: "ring_info list"

record form2_body =
  f2_members :: members_info
  f2_memb_id :: membership_id
  f2_rings :: "ring_info list"

definition rings_bytes :: "ring_info list \<Rightarrow> int" where
  "rings_bytes gs = chunk_len (C_rings gs)"

definition form1_payload :: "form1_body \<Rightarrow> chunk list" where
  "form1_payload b = [C_members (f1_members b) sizeof_members_info, C_reps (f1_reps b) sizeof_reps_info,
     C_rings (f1_rings b)]"

definition form2_payload :: "form2_body \<Rightarrow> chunk list" where
  "form2_payload b = [C_members (f2_members b) sizeof_members_info, C_memb_id (f2_memb_id b),
     C_rings (f2_rings b)]"

definition blank_token :: token_header where
  "blank_token = \<lparr>th_type = 0, th_transmiter_id = 0, th_seq = 0, th_proc_id = 0, th_aru = 0,
     th_aru_last_id = 0, th_flow_control = 0, th_rtr_len = 0, th_conf_hash = 0\<rparr>"

definition with_len :: "chunk list \<Rightarrow> token_header \<Rightarrow> token_header" where
  "with_len payload t = t\<lparr>th_rtr_len := to_int16 (scat_len payload)\<rparr>"

definition send_form_token ::
  "int32u \<Rightarrow> token_header \<Rightarrow> chunk list \<Rightarrow> 'a net_state_scheme \<Rightarrow> (token_header \<times> 'a net_state_scheme) option" where
  "send_form_token pid t payload s = Net_ucast_token pid (with_len payload t) payload s"

definition send_twice ::
  "int32u \<Rightarrow> token_header \<Rightarrow> chunk list \<Rightarrow> 'a net_state_scheme \<Rightarrow> (token_header \<times> 'a net_state_scheme) option" where
  "send_twice pid t payload s = do {
     (t1, s1) \<leftarrow> send_form_token pid t payload s;
     send_form_token pid t1 payload s1 }"

text \<open>
  When a form1 token becomes a form2 token, only eight bytes of the representatives are sent;
  the first receiver overwrites them with the identifier.
\<close>

definition memb_id_of_reps :: "reps_info \<Rightarrow> membership_id" where
  "memb_id_of_reps r = \<lparr>mid_proc_id = word_of_int (num_reps r mod 65536 + 65536 * rep_index r),
     mid_time = sint (rep_proc_id (reps r 0))\<rparr>"

section \<open>Filling the members\<close>

definition ring_members :: "'a conf_state_scheme \<Rightarrow> configuration \<Rightarrow> int32u list" where
  "ring_members c memb =
     concat (map (\<lambda>i. map (proc_id_at c) (seg_procs (segments memb i))) [0..<num_segments memb])"

definition write_members :: "int \<Rightarrow> int32u list \<Rightarrow> members_info \<Rightarrow> members_info option" where
  "write_members k xs m = do {
     exit_if (k < 0 \<or> k + int (length xs) > MAX_MEMBERS);
     Some (m\<lparr>members := (\<lambda>i. if k \<le> i \<and> i < k + int (length xs) then xs ! nat (i - k) else members m i)\<rparr>) }"

definition set_active :: "int32u list \<Rightarrow> members_info \<Rightarrow> members_info option" where
  "set_active xs m = map_option (\<lambda>m'. m'\<lparr>num_members := int (length xs)\<rparr>) (write_members 0 xs m)"

definition rep_ids :: "reps_info \<Rightarrow> int32u list" where
  "rep_ids r = map (\<lambda>i. rep_proc_id (reps r i)) [0..num_reps r - 1]"

text \<open>Members that are representatives themselves are not mine to bring.\<close>

definition not_my_reps :: "daemon \<Rightarrow> reps_info \<Rightarrow> int32u \<Rightarrow> bool" where
  "not_my_reps s r x \<longleftrightarrow> \<not> (x \<in> set (rep_ids r) \<and> x \<noteq> p_id (Memb_My s))"

definition member_at :: "members_info \<Rightarrow> int \<Rightarrow> int32u option" where
  "member_at m i = (if 0 \<le> i \<and> i < MAX_MEMBERS then Some (members m i) else None)"

definition rep_at :: "reps_info \<Rightarrow> int \<Rightarrow> rep_info option" where
  "rep_at r i = (if 0 \<le> i \<and> i < MAX_REPS then Some (reps r i) else None)"

definition count_myself :: "members_info \<Rightarrow> members_info" where
  "count_myself m = m\<lparr>num_members := num_members m + 1, num_pending := num_pending m - 1\<rparr>"

text \<open>A member that was named by another: it moves itself from pending to present.\<close>

definition fill_as_member :: "form1_body \<Rightarrow> daemon \<Rightarrow> (form1_body option \<times> daemon) option" where
  "fill_as_member b s = (let m = f1_members b in do {
     me \<leftarrow> member_at m (num_members m);
     Some (if me \<noteq> p_id (Memb_My s) \<or> num_pending m \<le> 0 then (None, s)
           else (Some (b\<lparr>f1_members := count_myself m\<rparr>), s)) })"

text \<open>A representative: it adds its members, or the members of its ring, as pending.\<close>

definition gathered_members :: "form1_body \<Rightarrow> daemon \<Rightarrow> int32u list" where
  "gathered_members b s =
     filter (\<lambda>x. x \<notin> set (active (f1_members b)) \<and> not_my_reps s (f1_reps b) x \<and> not_my_reps s (F_reps s) x)
       (active (F_members s))"

definition fill_as_rep :: "form1_body \<Rightarrow> daemon \<Rightarrow> (form1_body option \<times> daemon) option" where
  "fill_as_rep b s0 = (let m = f1_members b; r = f1_reps b in do {
     rep \<leftarrow> rep_at r (rep_index r);
     if rep_proc_id rep \<noteq> p_id (Memb_My s0) \<or> num_pending m \<noteq> 0 then Some (None, s0)
     else do {
       fm \<leftarrow> set_active (gathered_members b s0) (F_members s0);
       let s = s0\<lparr>F_members := fm\<rparr>;
       new \<leftarrow> (if rep_type rep = SEG_REP then Some (active (F_members s))
               else if rep_type rep = RING_REP then Some (ring_members s (Membership s))
               else None);
       m' \<leftarrow> write_members (num_members m) new m;
       Some (Some (b\<lparr>f1_members := m'\<lparr>num_pending := int (length new) - 1, num_members := num_members m + 1\<rparr>,
                    f1_reps := r\<lparr>rep_index := rep_index r + 1\<rparr>\<rparr>), s) } })"

definition fill_members :: "form1_body \<Rightarrow> daemon \<Rightarrow> (form1_body option \<times> daemon) option" where
  "fill_members b s =
     (if State s = OP \<or> State s = REPRESENTED then fill_as_member b s
      else if State s = GATHER then fill_as_rep b s
      else None)"

text \<open>The representatives of the other segments, as potential ones should this attempt fail.\<close>

definition potential_reps :: "reps_info \<Rightarrow> daemon \<Rightarrow> daemon option" where
  "potential_reps r s = do {
     p \<leftarrow> forM [0..num_reps r - 1]
       (\<lambda>i q. if rep_seg_index (reps r i) \<noteq> int (p_seg_index (Memb_My s))
              then insert_rep_ignoring s ((reps r i)\<lparr>rep_type := POTENTIAL_REP\<rparr>) q else Some q)
       (no_reps (Potential_reps s));
     Some (s\<lparr>Potential_reps := p\<rparr>) }"

section \<open>The rings\<close>

definition split_rings :: "membership_id \<Rightarrow> ring_info list \<Rightarrow> ring_info option \<times> ring_info list" where
  "split_rings mid gs =
     (let mine = filter (\<lambda>g. Memb_is_equal (rg_memb_id g) mid) gs
      in (if mine = [] then None else Some (last mine),
          filter (\<lambda>g. \<not> Memb_is_equal (rg_memb_id g) mid) gs))"

definition missing :: "'a prot_state_scheme \<Rightarrow> int list \<Rightarrow> int list" where
  "missing s is = filter (\<lambda>i. pk_exist (pkt s i) = 0) is"

definition committed_others :: "daemon \<Rightarrow> int32u list" where
  "committed_others s = filter (\<lambda>x. x \<noteq> p_id (Memb_My s)) (active (Commit_set s))"

text \<open>The entry of my ring when no earlier member wrote one; the holes start behind \<open>from\<close>.\<close>

definition first_ring :: "int \<Rightarrow> daemon \<Rightarrow> ring_info" where
  "first_ring from s = \<lparr>rg_memb_id = Membership_id s, rg_trans_time = 0, rg_aru = Aru s,
     rg_highest_seq = Highest_seq s, rg_num_trans = 1,
     rg_holes = missing s [from + 1..Highest_seq s],
     rg_commits = p_id (Memb_My s) # committed_others s\<rparr>"

text \<open>Merging my packets and my commit set into the entry an earlier member of my ring wrote.\<close>

definition insert_members :: "int32u list \<Rightarrow> members_info \<Rightarrow> members_info" where
  "insert_members xs m = foldl (\<lambda>m x. snd (Insert_member m x)) m xs"

definition empty_members :: members_info where
  "empty_members = \<lparr>num_members = 0, num_pending = 0, members = (\<lambda>_. 0)\<rparr>"

definition merged_commits :: "ring_info \<Rightarrow> daemon \<Rightarrow> int32u list option" where
  "merged_commits g s = do {
     exit_if (rg_num_trans g < 0 \<or> rg_num_trans g > rg_num_commit g);
     let trans = take (nat (rg_num_trans g)) (rg_commits g);
     let m1 = insert_members (trans @ [p_id (Memb_My s)]) empty_members;
     exit_if (num_members m1 \<noteq> rg_num_trans g + 1);
     let m2 = insert_members (drop (nat (rg_num_trans g)) (rg_commits g)) m1;
     Some (active (insert_members (active (Commit_set s)) m2)) }"

definition merged_holes :: "ring_info \<Rightarrow> daemon \<Rightarrow> int list" where
  "merged_holes g s = missing s (rg_holes g) @
     (if rg_highest_seq g < Highest_seq s then missing s [rg_highest_seq g + 1..Highest_seq s] else [])"

definition merge_ring :: "ring_info \<Rightarrow> daemon \<Rightarrow> ring_info option" where
  "merge_ring g s = do {
     commits \<leftarrow> merged_commits g s;
     Some \<lparr>rg_memb_id = Membership_id s, rg_trans_time = 0,
       rg_aru = (if rg_aru g > Aru s then rg_aru g else Aru s),
       rg_highest_seq = (if rg_highest_seq g > Highest_seq s then rg_highest_seq g else Highest_seq s),
       rg_num_trans = rg_num_trans g + 1,
       rg_holes = merged_holes g s, rg_commits = commits\<rparr> }"

text \<open>No room for another ring: this daemon takes itself out of the members.\<close>

definition remove_myself :: "members_info \<Rightarrow> daemon \<Rightarrow> members_info" where
  "remove_myself m s = (
     case find (\<lambda>i. members m i = p_id (Memb_My s)) [0..num_members m - 1] of
       None \<Rightarrow> m\<lparr>num_members := num_members m - 1\<rparr>
     | Some i \<Rightarrow> m\<lparr>num_members := num_members m - 1,
         members := (\<lambda>j. if i \<le> j \<and> j < num_members m + num_pending m - 1
                         then members m (j + 1) else members m j)\<rparr>)"

definition fill_rings :: "form1_body \<Rightarrow> daemon \<Rightarrow> form1_body option" where
  "fill_rings b s = (let (mine, others) = split_rings (Membership_id s) (f1_rings b) in
     case mine of
       None \<Rightarrow> if int (length others) + 1 > MAX_FORM_REPS
               then Some (b\<lparr>f1_members := remove_myself (f1_members b) s, f1_rings := others\<rparr>)
               else Some (b\<lparr>f1_rings := others @ [first_ring (Last_discarded s) s]\<rparr>)
     | Some g \<Rightarrow> do { g' \<leftarrow> merge_ring g s; Some (b\<lparr>f1_rings := others @ [g']\<rparr>) })"

section \<open>Passing a form1 token on\<close>

definition to_form2 :: "form1_body \<Rightarrow> members_info \<Rightarrow> form2_body" where
  "to_form2 b m = \<lparr>f2_members = m\<lparr>num_pending := num_members m, num_members := 0\<rparr>,
     f2_memb_id = memb_id_of_reps (f1_reps b), f2_rings = f1_rings b\<rparr>"

definition pass_form1 ::
  "token_header \<Rightarrow> form1_body \<Rightarrow> 'a net_state_scheme \<Rightarrow> (token_header \<times> 'a net_state_scheme) option" where
  "pass_form1 t b s = (let m = f1_members b; r = f1_reps b in
     if num_pending m > 0
     then do { pid \<leftarrow> member_at m (num_members m); send_twice pid t (form1_payload b) s }
     else if rep_index r < num_reps r
     then do { rep \<leftarrow> rep_at r (rep_index r); send_twice (rep_proc_id rep) t (form1_payload b) s }
     else do {
       m' \<leftarrow> Sort_members s m;
       let b2 = to_form2 b m';
       send_twice (members m' 0) (t\<lparr>th_type := FORM2_TYPE\<rparr>) (form2_payload b2) s })"

definition enter_form :: "daemon \<Rightarrow> daemon" where
  "enter_form s0 = (let
     s1 = E_queue Memb_token_loss_f 0 0 (Form_timeout s0) s0;
     s2 = E_dequeue Prot_token_hurry_f 0 0 s1
     in set_state FORM (s2\<lparr>Token_alive := False\<rparr>))"

definition flip_form1 :: "token_header \<Rightarrow> form1_body \<Rightarrow> form1_body" where
  "flip_form1 t b = (if Same_endian (th_type t) then b
     else \<lparr>f1_members = Flip_members (f1_members b), f1_reps = Flip_reps (f1_reps b),
           f1_rings = Flip_rings (f1_rings b)\<rparr>)"

definition FORM_SEQ_GAP :: int where "FORM_SEQ_GAP = 3333"

definition form1_header :: "token_header \<Rightarrow> daemon \<Rightarrow> token_header" where
  "form1_header t s = t\<lparr>th_proc_id := p_id (Memb_My s),
     th_seq := if th_seq t < Highest_seq s + FORM_SEQ_GAP then Highest_seq s + FORM_SEQ_GAP else th_seq t\<rparr>"

definition Fill_form1 :: "token_header \<Rightarrow> form1_body \<Rightarrow> daemon \<Rightarrow> daemon option" where
  "Fill_form1 t0 b00 s0 = do {
     let b0 = flip_form1 t0 b00;
     let t = form1_header t0 s0;
     (filled, s1) \<leftarrow> fill_members b0 s0;
     (case filled of None \<Rightarrow> Some s1
      | Some b1 \<Rightarrow> do {
          s2 \<leftarrow> potential_reps (f1_reps b1) s1;
          b2 \<leftarrow> fill_rings b1 s2;
          exit_if (rings_bytes (f1_rings b2) > sizeof_token_body);
          (t', s3) \<leftarrow> pass_form1 t b2 s2;
          let s4 = E_dequeue Send_join_f 0 0 s3;
          let s5 = E_dequeue Form_or_fail_f 0 0 s4;
          let s6 = E_dequeue Shift_to_seg_f 0 0 s5;
          Some (enter_form s6) }) }"

section \<open>Creating a form1 token\<close>

definition own_form_members :: "daemon \<Rightarrow> members_info option" where
  "own_form_members s = do {
     m \<leftarrow> (if rep_type (reps (F_reps s) 0) = RING_REP
           then set_active (ring_members s (Membership s)) (F_members s) else Some (F_members s));
     m' \<leftarrow> set_active (filter (not_my_reps s (F_reps s)) (active m)) m;
     Some (m'\<lparr>num_pending := num_members m' - 1, num_members := 1\<rparr>) }"

definition create_token :: "daemon \<Rightarrow> token_header" where
  "create_token s = blank_token\<lparr>th_seq := Highest_seq s + FORM_SEQ_GAP, th_proc_id := p_id (Memb_My s),
     th_type := FORM1_TYPE\<rparr>"

definition create_body :: "daemon \<Rightarrow> form1_body" where
  "create_body s = \<lparr>f1_members = F_members s, f1_reps = F_reps s, f1_rings = [first_ring (My_aru s) s]\<rparr>"

text \<open>
  The token goes to the next member, or the next representative; alone, this daemon sends
  itself the second token at once.
\<close>

definition send_created :: "token_header \<Rightarrow> form1_body \<Rightarrow> daemon \<Rightarrow> daemon option" where
  "send_created t b s = (let m = f1_members b; r = f1_reps b in
     if num_pending m > 0
     then do { pid \<leftarrow> member_at m (num_members m); map_option snd (send_twice pid t (form1_payload b) s) }
     else if rep_index r < num_reps r
     then do { rep \<leftarrow> rep_at r (rep_index r);
               map_option snd (send_twice (rep_proc_id rep) t (form1_payload b) s) }
     else do {
       let s1 = s\<lparr>F_members := (F_members s)\<lparr>num_pending := 1, num_members := 0\<rparr>\<rparr>;
       let b2 = \<lparr>f2_members = F_members s1, f2_memb_id = memb_id_of_reps (f1_reps b), f2_rings = f1_rings b\<rparr>;
       map_option snd (send_form_token (p_id (Memb_My s1)) (t\<lparr>th_type := FORM2_TYPE\<rparr>)
                         (form2_payload b2) s1) })"

definition Create_form1 :: "daemon \<Rightarrow> daemon option" where
  "Create_form1 s0 = do {
     let t = create_token s0;
     m \<leftarrow> own_form_members s0;
     r \<leftarrow> Sort_reps s0 (F_reps s0);
     let s1 = s0\<lparr>F_members := m, F_reps := r\<lparr>rep_index := 1\<rparr>\<rparr>;
     s2 \<leftarrow> potential_reps (F_reps s1) s1;
     let b = create_body s2;
     exit_if (rings_bytes (f1_rings b) > sizeof_token_body);
     s3 \<leftarrow> send_created t b s2;
     Some (enter_form (E_dequeue Send_join_f 0 0 s3)) }"

definition back_to_op :: "daemon \<Rightarrow> daemon" where
  "back_to_op s0 = (let
     s1 = E_dequeue Send_join_f 0 0 s0;
     s2 = E_queue Memb_lookup_new_members_f 0 0 (Lookup_timeout s1) s1
     in set_state OP s2)"

definition Form_or_fail :: "daemon \<Rightarrow> daemon option" where
  "Form_or_fail s = do {
     (smallest, _) \<leftarrow> Smallest_rep s (F_reps s);
     if smallest = p_id (Memb_My s)
     then if Token_alive s \<and> num_reps (F_reps s) = 1 then Some (back_to_op s) else Create_form1 s
     else if Token_alive s then Some (back_to_op s)
     else do {
       let s1 = s\<lparr>F_members := own_members s\<rparr>;
       p \<leftarrow> gathered_reps s1 (no_reps (Potential_reps s1));
       Some (Shift_to_gather (s1\<lparr>Potential_reps := p\<rparr>)) } }"

section \<open>The second form token\<close>

definition flip_form2 :: "token_header \<Rightarrow> form2_body \<Rightarrow> form2_body" where
  "flip_form2 t b = (if Same_endian (th_type t) then b
     else \<lparr>f2_members = Flip_members (f2_members b), f2_memb_id = Flip_memb_id (f2_memb_id b),
           f2_rings = Flip_rings (f2_rings b)\<rparr>)"

text \<open>A time for an identifier, later than every one used before; zero stands for none yet.\<close>

definition fresh_time :: "daemon \<Rightarrow> int \<times> daemon" where
  "fresh_time s0 = (let
     (now, s1) = E_get_time s0;
     t = (if sec now \<le> Last_time_used s1 then Last_time_used s1 + 1 else sec now)
     in (t, s1\<lparr>Last_time_used := t\<rparr>))"

text \<open>The first receiver is the future leader and makes the identifier.\<close>

definition fill_memb_id :: "form2_body \<Rightarrow> daemon \<Rightarrow> int \<times> form2_body \<times> daemon" where
  "fill_memb_id b s = (if num_members (f2_members b) = 1
     then let (t, s1) = fresh_time s;
              s2 = s1\<lparr>Last_time_used := Last_time_used s1 + 1\<rparr>
          in (t, b\<lparr>f2_memb_id := \<lparr>mid_proc_id = p_id (Memb_My s2), mid_time = Last_time_used s2\<rparr>\<rparr>, s2)
     else (0, b, s))"

definition empty_conf :: "configuration \<Rightarrow> configuration" where
  "empty_conf cf = clear_procs (num_segments cf) cf"

definition add_to_conf :: "'a conf_state_scheme \<Rightarrow> int32u \<Rightarrow> configuration \<Rightarrow> configuration option" where
  "add_to_conf c pid cf = do {
     p \<leftarrow> conf_proc c pid;
     sg \<leftarrow> Conf_append_id_to_seg c (segments cf (p_seg_index p)) (p_id p);
     Some (cf\<lparr>segments := (segments cf)(p_seg_index p := sg)\<rparr>) }"

definition all_members :: "members_info \<Rightarrow> int32u list option" where
  "all_members m = do {
     exit_if (num_members m + num_pending m > MAX_MEMBERS);
     Some (map (members m) [0..num_members m + num_pending m - 1]) }"

definition install_future :: "form2_body \<Rightarrow> daemon \<Rightarrow> daemon option" where
  "install_future b s0 = do {
     ids \<leftarrow> all_members (f2_members b);
     fm \<leftarrow> forM ids (add_to_conf s0) (empty_conf (Config s0));
     s1 \<leftarrow> Net_set_membership fm (s0\<lparr>Future_membership_id := f2_memb_id b, Future_membership := fm\<rparr>);
     Some (FC_new_configuration s1) }"

text \<open>Holes of my old ring become slots that count as received, without a packet.\<close>

definition mark_hole :: "int \<Rightarrow> 'a prot_state_scheme \<Rightarrow> 'a prot_state_scheme option" where
  "mark_hole q s = do { exit_if (pk_exist (pkt s q) \<noteq> 0); Some (set_exist q 3 s) }"

definition recover_ring :: "ring_info \<Rightarrow> daemon \<Rightarrow> daemon option" where
  "recover_ring g s0 = do {
     s1 \<leftarrow> Discard_packets (s0\<lparr>Highest_seq := rg_highest_seq g, Aru := rg_aru g\<rparr>);
     s2 \<leftarrow> forM (rg_holes g) mark_hole s1;
     fc \<leftarrow> write_members 0 (rg_commits g) (Future_commit_set s2);
     Some (s2\<lparr>Future_commit_set := fc\<lparr>num_members := rg_num_commit g, num_pending := rg_num_trans g\<rparr>\<rparr>) }"

text \<open>The time of the transitional membership, set by the first member of the ring.\<close>

definition trans_time :: "int \<Rightarrow> ring_info \<Rightarrow> daemon \<Rightarrow> ring_info \<times> daemon" where
  "trans_time memb_time g s0 = (let
     (g', s1) = (if rg_trans_time g = 0
                 then (if memb_time = 0 then let (t, s) = fresh_time s0 in (g\<lparr>rg_trans_time := t\<rparr>, s)
                       else (g\<lparr>rg_trans_time := memb_time\<rparr>, s0))
                 else (g, s0))
     in (g', s1\<lparr>F_trans_memb_time := rg_trans_time g'\<rparr>))"

definition replace_last_ring :: "membership_id \<Rightarrow> ring_info \<Rightarrow> ring_info list \<Rightarrow> ring_info list" where
  "replace_last_ring mid g gs = (
     case find (\<lambda>i. Memb_is_equal (rg_memb_id (gs ! i)) mid) (rev [0..<length gs]) of
       None \<Rightarrow> gs | Some i \<Rightarrow> gs[i := g])"

text \<open>The last member turns the token into the first regular token of the new ring.\<close>

definition pass_form2 :: "token_header \<Rightarrow> form2_body \<Rightarrow> daemon \<Rightarrow> daemon option" where
  "pass_form2 t b s = do {
     last_id \<leftarrow> Conf_last s (Future_membership s);
     if last_id \<noteq> p_id (Memb_My s)
     then do {
       (t1, s1) \<leftarrow> Net_send_token t (form2_payload b) s;
       (t2, s2) \<leftarrow> Net_send_token t1 (form2_payload b) s1;
       Some (s2\<lparr>Token_rounds := 0\<rparr>) }
     else do {
       (t1, s1) \<leftarrow> Net_send_token (t\<lparr>th_type := 0, th_seq := 0, th_aru := Last_seq s,
                        th_flow_control := 0, th_rtr_len := 0\<rparr>) [] s;
       Some (s1\<lparr>Token_rounds := 1\<rparr>) } }"

definition enter_evs :: "daemon \<Rightarrow> daemon" where
  "enter_evs s0 = (let s1 = s0\<lparr>Token_alive := True\<rparr>
     in set_state EVS (reset_last_token (E_queue Memb_token_loss_f 0 0 (Token_timeout s1) s1)))"

definition Read_form2 :: "token_header \<Rightarrow> form2_body \<Rightarrow> daemon \<Rightarrow> daemon option" where
  "Read_form2 t0 b00 s0 = do {
     let b0 = flip_form2 t0 b00;
     let t = t0\<lparr>th_proc_id := p_id (Memb_My s0)\<rparr>;
     me \<leftarrow> member_at (f2_members b0) (num_members (f2_members b0));
     if me \<noteq> p_id (Memb_My s0) \<or> num_pending (f2_members b0) \<le> 0 then Some s0
     else do {
       let b1 = b0\<lparr>f2_members := count_myself (f2_members b0)\<rparr>;
       let (memb_time, b2, s1) = fill_memb_id b1 (s0\<lparr>Last_seq := th_seq t\<rparr>);
       s2 \<leftarrow> install_future b2 s1;
       g \<leftarrow> fst (split_rings (Membership_id s2) (f2_rings b2));
       s3 \<leftarrow> recover_ring g s2;
       let (g', s4) = trans_time memb_time g s3;
       s5 \<leftarrow> pass_form2 t (b2\<lparr>f2_rings := replace_last_ring (Membership_id s4) g' (f2_rings b2)\<rparr>) s4;
       Some (enter_evs s5) } }"

section \<open>Dispatch\<close>

definition Memb_handle_form1 :: "token_header \<Rightarrow> form1_body \<Rightarrow> daemon \<Rightarrow> daemon option" where
  "Memb_handle_form1 t b s = (case State s of
     OP \<Rightarrow> do {
       leader \<leftarrow> Conf_leader s (Membership s);
       if leader = p_id (Memb_My s) then Some s else Fill_form1 t b s }
   | SEG \<Rightarrow> Some s
   | REPRESENTED \<Rightarrow> Fill_form1 t b s
   | GATHER \<Rightarrow> Fill_form1 t b s
   | FORM \<Rightarrow> Some s
   | EVS \<Rightarrow> Some s)"

definition Memb_handle_form2 :: "token_header \<Rightarrow> form2_body \<Rightarrow> daemon \<Rightarrow> daemon option" where
  "Memb_handle_form2 t b s = (case State s of FORM \<Rightarrow> Read_form2 t b s | _ \<Rightarrow> Some s)"

text \<open>
  A received token body: requests of a regular token, or the structures of a form token of the
  type in the header.
\<close>

datatype token_content = Requests "byte list" | Form1 form1_body | Form2 form2_body

definition Memb_handle_token :: "token_header \<Rightarrow> token_content \<Rightarrow> daemon \<Rightarrow> daemon option" where
  "Memb_handle_token t b s =
     (if Is_form1 (th_type t) then (case b of Form1 b1 \<Rightarrow> Memb_handle_form1 t b1 s | _ \<Rightarrow> None)
      else if Is_form2 (th_type t) then (case b of Form2 b2 \<Rightarrow> Memb_handle_form2 t b2 s | _ \<Rightarrow> None)
      else None)"

section \<open>Start\<close>

definition wide_network :: "configuration \<Rightarrow> (nat \<Rightarrow> int32u) \<Rightarrow> bool" where
  "wide_network cf ids = (let subnet = (\<lambda>i. ids (hd (seg_procs (segments cf i))) AND 0xffff0000)
     in list_ex (\<lambda>i. subnet i \<noteq> subnet 0) [1..<num_segments cf])"

definition seconds :: "int \<Rightarrow> sp_time" where "seconds n = \<lparr>sec = n, usec = 0\<rparr>"

definition set_timeouts :: "nat \<Rightarrow> daemon \<Rightarrow> daemon" where
  "set_timeouts num_seg s0 = (let
     s1 = (if Wide_network s0
       then s0\<lparr>Token_timeout := seconds 20, Hurry_timeout := seconds 6, Alive_timeout := seconds 1,
          Join_timeout := seconds 1, Rep_timeout := seconds 5, Seg_timeout := seconds 2,
          Gather_timeout := seconds 10, Form_timeout := seconds 10, Lookup_timeout := seconds 90\<rparr>
       else s0\<lparr>Token_timeout := seconds 5, Hurry_timeout := seconds 2, Alive_timeout := seconds 1,
          Join_timeout := seconds 1, Rep_timeout := \<lparr>sec = 2, usec = 500000\<rparr>, Seg_timeout := seconds 2,
          Gather_timeout := seconds 5, Form_timeout := seconds 5, Lookup_timeout := seconds 60\<rparr>)
     in if num_seg = 1 then s1\<lparr>Lookup_timeout := (Lookup_timeout s1)\<lparr>sec := 300\<rparr>\<rparr> else s1)"

definition Memb_init :: "daemon \<Rightarrow> daemon option" where
  "Memb_init s0 = do {
     let s1 = upd_status (\<lambda>g. g\<lparr>st_membership_changes := 0\<rparr>) (set_state OP s0);
     let s2 = s1\<lparr>Memb_My := Conf_My s1\<rparr>;
     let n = Conf_num_segments (Config s2);
     let s3 = set_timeouts n (s2\<lparr>Wide_network := wide_network (Config s2) (proc_id_at s2)\<rparr>);
     let s4 = s3\<lparr>Membership := append_ignoring s3 (p_seg_index (Memb_My s3)) (p_id (Memb_My s3))
                   (clear_procs n (Config s3)),
                 Membership_id := \<lparr>mid_proc_id = p_id (Memb_My s3), mid_time = - 1\<rparr>,
                 Last_time_used := - 1, Transitional := False\<rparr>;
     let s5 = s4\<lparr>Reg_membership := Membership s4,
                 Memb_head := (Memb_head s4)\<lparr>ph_proc_id := p_id (Memb_My s4)\<rparr>\<rparr>;
     Memb_token_loss s5 }"

definition Memb_signal_conf_reload :: "daemon \<Rightarrow> daemon" where
  "Memb_signal_conf_reload s = s\<lparr>Memb_My := Conf_My s\<rparr>"

end
