(* ===== verification/Ring.thy ===== *)
theory Ring
  imports Prot_token Memb_form
begin

text \<open>
  The ring between two membership changes: the members in the order in which the token visits
  them, each with the sequence numbers that \<open>Prot_handle_token\<close> uses, and the token.  A visit
  computes \<open>aru\<close> and \<open>Aru\<close> with the functions of the protocol.
\<close>

section \<open>The ring\<close>

record station =
  sn_id :: int32u
  sn_My_aru :: int
  sn_Highest_seq :: int
  sn_Set_aru :: int
  sn_Aru :: int
  sn_Last_token :: token_header

text \<open>
  A visit: the member has sent \<open>k\<close> new packets and now holds everything up to \<open>m\<close>.
\<close>

definition visit_station :: "int \<Rightarrow> int \<Rightarrow> token_header \<Rightarrow> station \<Rightarrow> token_header \<times> station" where
  "visit_station k m t x = (let
     h = max (sn_Highest_seq x) (th_seq t) + k;
     (t1, set_aru) = decide_aru t (sn_id x) m h (sn_Set_aru x);
     t2 = t1\<lparr>th_seq := h\<rparr>
     in (t2, x\<lparr>sn_My_aru := m, sn_Highest_seq := h, sn_Set_aru := set_aru,
               sn_Aru := stable_aru t2 (sn_Last_token x), sn_Last_token := t2\<rparr>))"

definition visit_ok :: "int \<Rightarrow> int \<Rightarrow> token_header \<Rightarrow> station \<Rightarrow> bool" where
  "visit_ok k m t x \<longleftrightarrow> 0 \<le> k \<and> sn_My_aru x \<le> m \<and> m \<le> max (sn_Highest_seq x) (th_seq t) + k"

text \<open>Between its visits a member receives packets: it never gets one that was not sent.\<close>

inductive ring_step :: "station list \<times> token_header \<Rightarrow> station list \<times> token_header \<Rightarrow> bool" where
  visit: "visit_ok k m t x \<Longrightarrow> visit_station k m t x = (t', x') \<Longrightarrow>
            ring_step (x # xs, t) (xs @ [x'], t')"
| receive: "i < length xs \<Longrightarrow> sn_My_aru (xs ! i) \<le> m \<Longrightarrow> m \<le> h \<Longrightarrow> sn_Highest_seq (xs ! i) \<le> h \<Longrightarrow>
            h \<le> th_seq t \<Longrightarrow>
            ring_step (xs, t) (xs[i := (xs ! i)\<lparr>sn_My_aru := m, sn_Highest_seq := h\<rparr>], t)"

text \<open>A new ring: every member has just reset its numbers.\<close>

definition new_station :: "station \<Rightarrow> bool" where
  "new_station x \<longleftrightarrow> sn_My_aru x = 0 \<and> sn_Highest_seq x = 0 \<and> sn_Set_aru x = - 1 \<and> sn_Aru x = 0 \<and>
     th_aru (sn_Last_token x) = 0"

definition new_ring :: "station list \<times> token_header \<Rightarrow> bool" where
  "new_ring r \<longleftrightarrow> fst r \<noteq> [] \<and> distinct (map sn_id (fst r)) \<and> list_all new_station (fst r) \<and>
     th_seq (snd r) = 0"

inductive ring_run :: "station list \<times> token_header \<Rightarrow> station list \<times> token_header \<Rightarrow> bool" for r0 where
  initial: "ring_run r0 r0"
| step: "ring_run r0 r \<Longrightarrow> ring_step r r' \<Longrightarrow> ring_run r0 r'"

section \<open>The invariant\<close>

definition prev_aru :: "station \<Rightarrow> int" where "prev_aru x = th_aru (sn_Last_token x)"

definition numbers_ok :: "token_header \<Rightarrow> station \<Rightarrow> bool" where
  "numbers_ok t x \<longleftrightarrow> 0 \<le> prev_aru x \<and> prev_aru x \<le> sn_My_aru x \<and>
     sn_My_aru x \<le> sn_Highest_seq x \<and> sn_Highest_seq x \<le> th_seq t"

text \<open>
  A member that holds \<open>aru\<close> down remembers the value it left; since then nobody raised it and
  the last one to change it came no earlier.
\<close>

definition holds_down :: "station list \<times> token_header \<Rightarrow> nat \<Rightarrow> bool" where
  "holds_down r i \<longleftrightarrow> (case r of (xs, t) \<Rightarrow>
     sn_Set_aru (xs ! i) = prev_aru (xs ! i) \<and> sn_Set_aru (xs ! i) < th_seq t \<and>
     (\<forall>j k. i \<le> j \<and> j \<le> k \<and> k < length xs \<longrightarrow> prev_aru (xs ! k) \<le> prev_aru (xs ! j)) \<and>
     (\<exists>j. i \<le> j \<and> j < length xs \<and> th_aru_last_id t = sn_id (xs ! j)))"

definition ring_inv :: "station list \<times> token_header \<Rightarrow> bool" where
  "ring_inv r \<longleftrightarrow> (case r of (xs, t) \<Rightarrow>
     xs \<noteq> [] \<and> distinct (map sn_id xs) \<and> (\<forall>i<length xs. numbers_ok t (xs ! i)) \<and>
     th_aru t = prev_aru (last xs) \<and>
     (\<forall>i<length xs. sn_Set_aru (xs ! i) \<noteq> - 1 \<longrightarrow> holds_down r i) \<and>
     (\<forall>i j. i < j \<and> j < length xs \<and> sn_Set_aru (xs ! i) \<noteq> - 1 \<and> sn_Set_aru (xs ! j) \<noteq> - 1 \<longrightarrow>
        sn_Set_aru (xs ! j) < sn_Set_aru (xs ! i)) \<and>
     (\<forall>i<length xs. th_aru_last_id t = sn_id (xs ! i) \<longrightarrow>
        (\<forall>j. i \<le> j \<and> j < length xs \<longrightarrow> prev_aru (xs ! j) = th_aru t)) \<and>
     (\<forall>j<length xs. th_aru t \<le> sn_My_aru (xs ! j) \<or> (\<forall>i\<le>j. prev_aru (xs ! i) \<le> sn_My_aru (xs ! j))))"

definition ring_safe :: "station list \<times> token_header \<Rightarrow> bool" where
  "ring_safe r \<longleftrightarrow> (\<forall>x \<in> set (fst r). \<forall>y \<in> set (fst r). sn_Aru x \<le> sn_My_aru y)"

lemma ring_inv_unfold:
  assumes "ring_inv (xs, t)"
  shows "xs \<noteq> []" "distinct (map sn_id xs)" "\<And>i. i < length xs \<Longrightarrow> numbers_ok t (xs ! i)"
    "th_aru t = prev_aru (last xs)"
    "\<And>i. i < length xs \<Longrightarrow> sn_Set_aru (xs ! i) \<noteq> - 1 \<Longrightarrow> holds_down (xs, t) i"
    "\<And>i j. i < j \<Longrightarrow> j < length xs \<Longrightarrow> sn_Set_aru (xs ! i) \<noteq> - 1 \<Longrightarrow> sn_Set_aru (xs ! j) \<noteq> - 1 \<Longrightarrow>
      sn_Set_aru (xs ! j) < sn_Set_aru (xs ! i)"
    "\<And>i j. i < length xs \<Longrightarrow> th_aru_last_id t = sn_id (xs ! i) \<Longrightarrow> i \<le> j \<Longrightarrow> j < length xs \<Longrightarrow>
      prev_aru (xs ! j) = th_aru t"
    "\<And>j. j < length xs \<Longrightarrow> th_aru t \<le> sn_My_aru (xs ! j) \<or> (\<forall>i\<le>j. prev_aru (xs ! i) \<le> sn_My_aru (xs ! j))"
  using assms unfolding ring_inv_def prod.case by blast+

lemma holds_downD:
  assumes "holds_down (xs, t) i"
  shows "sn_Set_aru (xs ! i) = prev_aru (xs ! i)" "sn_Set_aru (xs ! i) < th_seq t"
    "\<And>j k. i \<le> j \<Longrightarrow> j \<le> k \<Longrightarrow> k < length xs \<Longrightarrow> prev_aru (xs ! k) \<le> prev_aru (xs ! j)"
    "\<exists>j. i \<le> j \<and> j < length xs \<and> th_aru_last_id t = sn_id (xs ! j)"
  using assms unfolding holds_down_def prod.case by blast+

definition may_raise :: "token_header \<Rightarrow> station \<Rightarrow> bool" where
  "may_raise t x \<longleftrightarrow> th_aru t = sn_Set_aru x \<or> th_aru_last_id t = sn_id x \<or> th_aru t = th_seq t"

lemma last_nth: "xs \<noteq> [] \<Longrightarrow> last xs = xs ! (length xs - 1)"
  by (simp add: last_conv_nth)

lemma ring_aru_bounds:
  assumes "ring_inv (xs, t)"
  shows "0 \<le> th_aru t" "th_aru t \<le> th_seq t"
proof -
  note I = ring_inv_unfold [OF assms]
  have "numbers_ok t (last xs)" using I(3) [of "length xs - 1"] I(1) by (simp add: last_nth)
  with I(4) show "0 \<le> th_aru t" "th_aru t \<le> th_seq t" by (auto simp: numbers_ok_def)
qed

text \<open>Who may raise \<open>aru\<close> sees a value that nobody undercut in the last round.\<close>

lemma may_raise_top:
  assumes inv: "ring_inv (x # xs, t)" and own: "may_raise t x" and i: "i < length (x # xs)"
  shows "prev_aru ((x # xs) ! i) \<le> th_aru t"
proof -
  note I = ring_inv_unfold [OF inv]
  from own consider "th_aru t = sn_Set_aru x" | "th_aru_last_id t = sn_id x" | "th_aru t = th_seq t"
    by (auto simp: may_raise_def)
  then show ?thesis
  proof cases
    case 1
    then have "sn_Set_aru x \<noteq> - 1" using ring_aru_bounds(1) [OF inv] by auto
    then have h: "holds_down (x # xs, t) 0" using I(5) [of 0] by simp
    then have "sn_Set_aru x = prev_aru x" by (simp add: holds_down_def)
    moreover have "prev_aru ((x # xs) ! i) \<le> prev_aru ((x # xs) ! 0)"
      using holds_downD(3) [OF h, of 0 i] i by simp
    ultimately show ?thesis using 1 by simp
  next
    case 2
    then show ?thesis using I(7) [of 0 i] i by simp
  next
    case 3
    then show ?thesis using I(3) [OF i] by (auto simp: numbers_ok_def)
  qed
qed

lemma holder_blocks_raise:
  assumes inv: "ring_inv (x # xs, t)" and i: "0 < i" "i < length (x # xs)"
    and set: "sn_Set_aru ((x # xs) ! i) \<noteq> - 1"
  shows "\<not> may_raise t x" "th_aru t \<le> sn_Set_aru ((x # xs) ! i)"
proof -
  note I = ring_inv_unfold [OF inv]
  let ?n = "length (x # xs)"
  have h: "holds_down (x # xs, t) i" using I(5) [OF i(2) set] .
  have "prev_aru ((x # xs) ! (?n - 1)) \<le> prev_aru ((x # xs) ! i)"
    by (rule holds_downD(3) [OF h]) (use i in auto)
  then have top: "th_aru t \<le> sn_Set_aru ((x # xs) ! i)"
    using I(4) h last_nth [OF I(1)] by (simp add: holds_down_def)
  show "th_aru t \<le> sn_Set_aru ((x # xs) ! i)" by (rule top)
  show "\<not> may_raise t x"
  proof
    assume "may_raise t x"
    then consider "th_aru t = sn_Set_aru x" | "th_aru_last_id t = sn_id x" | "th_aru t = th_seq t"
      by (auto simp: may_raise_def)
    then show False
    proof cases
      case 1
      then have "sn_Set_aru x \<noteq> - 1" using ring_aru_bounds(1) [OF inv] by auto
      with I(6) [of 0 i] i set 1 top show False by simp
    next
      case 2
      from h obtain j where "i \<le> j" "j < ?n" "th_aru_last_id t = sn_id ((x # xs) ! j)"
        by (auto simp: holds_down_def)
      with 2 I(2) i show False
        using nth_eq_iff_index_eq [of "map sn_id (x # xs)" 0 j] by auto
    next
      case 3
      with top h show False by (simp add: holds_down_def)
    qed
  qed
qed

lemma visit_cases:
  assumes v: "visit_station k m t x = (t', x')"
  obtains (own) "may_raise t x" "th_aru t' = m" "th_aru_last_id t' = sn_id x"
      "sn_Set_aru x' = (if m < sn_Highest_seq x' then m else - 1)"
    | (lower) "\<not> may_raise t x" "m < th_aru t" "th_aru t' = m" "th_aru_last_id t' = sn_id x" "sn_Set_aru x' = m"
    | (keep) "\<not> may_raise t x" "th_aru t \<le> m" "th_aru t' = th_aru t"
      "th_aru_last_id t' = th_aru_last_id t" "sn_Set_aru x' = - 1"
  using v by (auto simp: visit_station_def decide_aru_def may_raise_def Let_def split: if_splits)

lemma visit_fields:
  assumes "visit_station k m t x = (t', x')"
  shows "sn_id x' = sn_id x" "sn_My_aru x' = m" "sn_Highest_seq x' = max (sn_Highest_seq x) (th_seq t) + k"
    "th_seq t' = sn_Highest_seq x'" "prev_aru x' = th_aru t'"
    "sn_Aru x' = (if th_aru t' > prev_aru x then prev_aru x else th_aru t')"
  using assms
  by (auto simp: visit_station_def decide_aru_def Let_def stable_aru_def prev_aru_def split: if_splits)

text \<open>Indices after a visit: the others move up, the visited member comes last.\<close>

lemma rotate_nth:
  "i < length xs \<Longrightarrow> (xs @ [x']) ! i = (x # xs) ! Suc i" "(xs @ [x']) ! length xs = x'"
  by (simp_all add: nth_append)

lemma rotate_split: "i < length (xs @ [x']) \<Longrightarrow> i < length xs \<or> i = length xs"
  by auto


lemma visit_seq:
  assumes inv: "ring_inv (x # xs, t)" and ok: "visit_ok k m t x"
    and v: "visit_station k m t x = (t', x')"
  shows "th_seq t \<le> th_seq t'" "m \<le> th_seq t'"
  using ok visit_fields(3,4) [OF v] by (auto simp: visit_ok_def)

lemma visit_aru:
  assumes inv: "ring_inv (x # xs, t)" and ok: "visit_ok k m t x"
    and v: "visit_station k m t x = (t', x')"
  shows "th_aru t' \<le> m"
  using v by (cases rule: visit_cases) auto

lemma visit_aru_le:
  assumes inv: "ring_inv (x # xs, t)" and ok: "visit_ok k m t x"
    and v: "visit_station k m t x = (t', x')"
  shows "\<not> may_raise t x \<Longrightarrow> th_aru t' \<le> th_aru t"
  using v by (cases rule: visit_cases) auto

lemma visit_m:
  assumes inv: "ring_inv (x # xs, t)" and ok: "visit_ok k m t x"
    and v: "visit_station k m t x = (t', x')"
  shows "0 \<le> m" "sn_My_aru x \<le> m"
  using ok ring_inv_unfold(3) [OF inv, of 0] by (auto simp: visit_ok_def numbers_ok_def)

lemma visit_aru_nonneg:
  assumes inv: "ring_inv (x # xs, t)" and ok: "visit_ok k m t x"
    and v: "visit_station k m t x = (t', x')"
  shows "0 \<le> th_aru t'"
  using v visit_m [OF inv ok v] ring_aru_bounds(1) [OF inv] by (cases rule: visit_cases) auto

lemma visit_numbers:
  assumes inv: "ring_inv (x # xs, t)" and ok: "visit_ok k m t x"
    and v: "visit_station k m t x = (t', x')"
    and idx: "i < length (xs @ [x'])"
  shows "numbers_ok t' ((xs @ [x']) ! i)"
  using rotate_split [OF idx]
proof
  assume "i < length xs"
  then show ?thesis
    using ring_inv_unfold(3) [OF inv, of "Suc i"] visit_seq(1) [OF inv ok v] by (auto simp: nth_append numbers_ok_def)
next
  assume "i = length xs"
  then show ?thesis
    using visit_fields [OF v] visit_aru [OF inv ok v] visit_aru_nonneg [OF inv ok v] visit_seq [OF inv ok v] by (auto simp: nth_append numbers_ok_def)
qed

text \<open>If somebody else holds \<open>aru\<close> down, the visit can only lower it.\<close>

lemma visit_below_holder:
  assumes inv: "ring_inv (x # xs, t)" and ok: "visit_ok k m t x"
    and v: "visit_station k m t x = (t', x')"
    and idx: "i < length xs" "sn_Set_aru (xs ! i) \<noteq> - 1"
  shows "\<not> may_raise t x" "th_aru t \<le> sn_Set_aru (xs ! i)"
  using holder_blocks_raise [OF inv, of "Suc i"] idx by simp_all

lemma visit_holds_down_others:
  assumes inv: "ring_inv (x # xs, t)" and ok: "visit_ok k m t x"
    and v: "visit_station k m t x = (t', x')"
    and i: "i < length xs" and set: "sn_Set_aru (xs ! i) \<noteq> - 1"
  shows "holds_down (xs @ [x'], t') i"
proof -
  have h: "holds_down (x # xs, t) (Suc i)" using ring_inv_unfold(5) [OF inv, of "Suc i"] i set by simp
  note D = holds_downD [OF h]
  note nr = visit_below_holder(1) [OF inv ok v i set]
  have down: "th_aru t' \<le> th_aru t" by (rule visit_aru_le [OF inv ok v nr])
  have top: "th_aru t = prev_aru ((x # xs) ! length xs)"
    using ring_inv_unfold(4) [OF inv] last_nth [of "x # xs"] by simp
  have mono: "prev_aru ((xs @ [x']) ! b) \<le> prev_aru ((xs @ [x']) ! a)"
    if "i \<le> a" "a \<le> b" "b < length (xs @ [x'])" for a b
    using rotate_split [OF that(3)]
  proof
    assume "b < length xs"
    then show ?thesis using D(3) [of "Suc a" "Suc b"] that by (simp add: nth_append)
  next
    assume b: "b = length xs"
    show ?thesis
    proof (cases "a = length xs")
      case True
      with b show ?thesis by simp
    next
      case False
      then have a: "a < length xs" using that b by simp
      have "prev_aru ((x # xs) ! length xs) \<le> prev_aru ((x # xs) ! Suc a)"
        using D(3) [of "Suc a" "length xs"] a that by simp
      then show ?thesis using a b top down visit_fields(5) [OF v] by (simp add: nth_append)
    qed
  qed
  have last: "\<exists>j. i \<le> j \<and> j < length (xs @ [x']) \<and> th_aru_last_id t' = sn_id ((xs @ [x']) ! j)"
    using v nr
  proof (cases rule: visit_cases)
    case lower
    then show ?thesis using i visit_fields(1) [OF v] by (intro exI [of _ "length xs"]) (simp add: nth_append)
  next
    case keep
    from D(4) obtain j where j: "Suc i \<le> j" "j < length (x # xs)" "th_aru_last_id t = sn_id ((x # xs) ! j)"
      by blast
    then obtain j' where "j = Suc j'" by (cases j) auto
    with j keep show ?thesis by (intro exI [of _ j']) (simp add: nth_append)
  qed simp
  have eq: "sn_Set_aru ((xs @ [x']) ! i) = prev_aru ((xs @ [x']) ! i)"
    "sn_Set_aru ((xs @ [x']) ! i) < th_seq t'"
    using D(1,2) i visit_seq(1) [OF inv ok v] by (simp_all add: nth_append)
  show ?thesis unfolding holds_down_def prod.case using eq mono last by blast
qed

lemma visit_holds_down_self:
  assumes inv: "ring_inv (x # xs, t)" and ok: "visit_ok k m t x"
    and v: "visit_station k m t x = (t', x')"
    and set: "sn_Set_aru x' \<noteq> - 1"
  shows "holds_down (xs @ [x'], t') (length xs)" "sn_Set_aru x' = th_aru t'"
proof -
  have *: "sn_Set_aru x' = th_aru t' \<and> sn_Set_aru x' < th_seq t' \<and> th_aru_last_id t' = sn_id x'"
    using v set
  proof (cases rule: visit_cases)
    case own
    then show ?thesis using set visit_fields(1,4) [OF v] by (cases "m < sn_Highest_seq x'") simp_all
  next
    case lower
    have "m < th_seq t" using lower ring_aru_bounds(2) [OF inv] by simp
    then show ?thesis using lower visit_seq(1) [OF inv ok v] visit_fields(1) [OF v] by simp
  qed simp
  then show "sn_Set_aru x' = th_aru t'" by simp
  have "th_aru_last_id t' = sn_id ((xs @ [x']) ! length xs)" using * visit_fields(1) [OF v] by simp
  then have "\<exists>j. length xs \<le> j \<and> j < length (xs @ [x']) \<and> th_aru_last_id t' = sn_id ((xs @ [x']) ! j)"
    by (intro exI [of _ "length xs"]) simp
  moreover have "prev_aru ((xs @ [x']) ! b) \<le> prev_aru ((xs @ [x']) ! a)"
    if "length xs \<le> a" "a \<le> b" "b < length (xs @ [x'])" for a b
  proof -
    have "a = length xs" "b = length xs" using that by auto
    then show ?thesis by simp
  qed
  moreover have "sn_Set_aru ((xs @ [x']) ! length xs) = prev_aru ((xs @ [x']) ! length xs)"
    "sn_Set_aru ((xs @ [x']) ! length xs) < th_seq t'"
    using * visit_fields(5) [OF v] by simp_all
  ultimately show "holds_down (xs @ [x'], t') (length xs)"
    unfolding holds_down_def prod.case by blast
qed

lemma visit_strict:
  assumes inv: "ring_inv (x # xs, t)" and ok: "visit_ok k m t x"
    and v: "visit_station k m t x = (t', x')"
    and ij: "i < j" "j < length (xs @ [x'])"
    and set: "sn_Set_aru ((xs @ [x']) ! i) \<noteq> - 1" "sn_Set_aru ((xs @ [x']) ! j) \<noteq> - 1"
  shows "sn_Set_aru ((xs @ [x']) ! j) < sn_Set_aru ((xs @ [x']) ! i)"
  using rotate_split [OF ij(2)]
proof
  assume "j < length xs"
  then show ?thesis
    using ring_inv_unfold(6) [OF inv, of "Suc i" "Suc j"] ij set by (simp add: nth_append)
next
  assume j: "j = length xs"
  then have i: "i < length xs" "sn_Set_aru (xs ! i) \<noteq> - 1" using ij set by (simp_all add: nth_append)
  note b = visit_below_holder [OF inv ok v i]
  from v have "sn_Set_aru x' < th_aru t"
    by (cases rule: visit_cases) (use b set j in \<open>auto simp: nth_append\<close>)
  with b(2) i j show ?thesis by (simp add: nth_append)
qed

lemma visit_last_changer:
  assumes inv: "ring_inv (x # xs, t)" and ok: "visit_ok k m t x"
    and v: "visit_station k m t x = (t', x')"
    and i: "i < length (xs @ [x'])" and lst: "th_aru_last_id t' = sn_id ((xs @ [x']) ! i)"
    and j: "i \<le> j" "j < length (xs @ [x'])"
  shows "prev_aru ((xs @ [x']) ! j) = th_aru t'"
proof (cases "j = length xs")
  case True
  then show ?thesis using visit_fields(5) [OF v] by simp
next
  case False
  with j have j': "j < length xs" and i': "i < length xs" by auto
  have d: "sn_id x \<noteq> sn_id (xs ! i)"
    using ring_inv_unfold(2) [OF inv] imageI [OF nth_mem [OF i'], of sn_id] by auto
  from v show ?thesis
  proof (cases rule: visit_cases)
    case keep
    then show ?thesis
      using ring_inv_unfold(7) [OF inv, of "Suc i" "Suc j"] lst i' j' j by (simp add: nth_append)
  qed (use d lst i' in \<open>simp_all add: nth_append\<close>)
qed

text \<open>
  What stability rests on: \<open>aru\<close> is below every member's \<open>My_aru\<close>, or what the members before
  it left in the last round is.
\<close>

lemma visit_rounds:
  assumes inv: "ring_inv (x # xs, t)" and ok: "visit_ok k m t x"
    and v: "visit_station k m t x = (t', x')"
    and j: "j < length (xs @ [x'])"
  shows "th_aru t' \<le> sn_My_aru ((xs @ [x']) ! j) \<or>
    (\<forall>i\<le>j. prev_aru ((xs @ [x']) ! i) \<le> sn_My_aru ((xs @ [x']) ! j))"
  using rotate_split [OF j]
proof
  assume "j = length xs"
  then show ?thesis using visit_aru [OF inv ok v] visit_fields(2) [OF v] by simp
next
  assume j': "j < length xs"
  have "th_aru t \<le> sn_My_aru (xs ! j) \<or> (\<forall>i\<le>Suc j. prev_aru ((x # xs) ! i) \<le> sn_My_aru (xs ! j))"
    using ring_inv_unfold(8) [OF inv, of "Suc j"] j' by simp
  then have "th_aru t' \<le> sn_My_aru (xs ! j) \<or> (\<forall>i\<le>Suc j. prev_aru ((x # xs) ! i) \<le> sn_My_aru (xs ! j))"
  proof
    assume below: "th_aru t \<le> sn_My_aru (xs ! j)"
    show ?thesis
    proof (cases "may_raise t x")
      case True
      then have "\<forall>i\<le>Suc j. prev_aru ((x # xs) ! i) \<le> th_aru t"
        using may_raise_top [OF inv] j' by auto
      with below show ?thesis by fastforce
    next
      case False
      then show ?thesis using visit_aru_le [OF inv ok v] below by simp
    qed
  qed blast
  then show ?thesis
  proof
    assume "th_aru t' \<le> sn_My_aru (xs ! j)"
    then show ?thesis using j' by (simp add: nth_append)
  next
    assume all: "\<forall>i\<le>Suc j. prev_aru ((x # xs) ! i) \<le> sn_My_aru (xs ! j)"
    have "prev_aru (xs ! i) \<le> sn_My_aru (xs ! j)" if "i \<le> j" for i
      using all [rule_format, of "Suc i"] that by simp
    then show ?thesis using j' by (simp add: nth_append)
  qed
qed

lemma visit_ring_inv:
  assumes inv: "ring_inv (x # xs, t)" and ok: "visit_ok k m t x"
    and v: "visit_station k m t x = (t', x')"
  shows "ring_inv (xs @ [x'], t')"
proof -
  have "distinct (map sn_id (xs @ [x']))"
    using ring_inv_unfold(2) [OF inv] visit_fields(1) [OF v] by auto
  moreover have "holds_down (xs @ [x'], t') i"
    if "i < length (xs @ [x'])" "sn_Set_aru ((xs @ [x']) ! i) \<noteq> - 1" for i
    using rotate_split [OF that(1)]
      visit_holds_down_others [OF inv ok v, of i] visit_holds_down_self(1) [OF inv ok v] that
    by (auto simp: nth_append)
  ultimately show ?thesis
    unfolding ring_inv_def prod.case
    using visit_numbers [OF inv ok v] visit_fields(5) [OF v] visit_strict [OF inv ok v]
      visit_last_changer [OF inv ok v] visit_rounds [OF inv ok v]
    by (intro conjI allI impI) (simp_all del: length_append)
qed

lemma visit_ring_safe:
  assumes inv: "ring_inv (x # xs, t)" and ok: "visit_ok k m t x"
    and v: "visit_station k m t x = (t', x')" and safe: "ring_safe (x # xs, t)"
  shows "ring_safe (xs @ [x'], t')"
proof -
  have Aru: "sn_Aru x' \<le> th_aru t'" "sn_Aru x' \<le> prev_aru x"
    using visit_fields(6) [OF v] by auto
  have others: "sn_Aru x' \<le> sn_My_aru y" if y: "y \<in> set xs" for y
  proof -
    from y obtain j where j: "j < length xs" "y = xs ! j" by (auto simp: in_set_conv_nth)
    from ring_inv_unfold(8) [OF inv, of "Suc j"] j
    have "th_aru t \<le> sn_My_aru y \<or> (\<forall>i\<le>Suc j. prev_aru ((x # xs) ! i) \<le> sn_My_aru y)" by simp
    then consider "th_aru t \<le> sn_My_aru y" | "prev_aru x \<le> sn_My_aru y" by fastforce
    then show ?thesis
    proof cases
      case 1
      show ?thesis
      proof (cases "may_raise t x")
        case True
        then have "prev_aru x \<le> th_aru t" using may_raise_top [OF inv, of 0] by simp
        with 1 Aru show ?thesis by simp
      next
        case False
        then show ?thesis using visit_aru_le [OF inv ok v] 1 Aru by simp
      qed
    next
      case 2
      with Aru show ?thesis by simp
    qed
  qed
  have self: "sn_Aru x' \<le> sn_My_aru x'" "sn_My_aru x \<le> sn_My_aru x'"
    using Aru visit_aru [OF inv ok v] visit_m [OF inv ok v] visit_fields(2) [OF v] by auto
  show ?thesis
    using safe others self unfolding ring_safe_def by (fastforce simp: ball_Un)
qed

text \<open>A packet received between two visits.\<close>

lemma receive_fields:
  fixes xs :: "station list" and i j :: nat and m h :: int
  defines "ys \<equiv> xs[i := (xs ! i)\<lparr>sn_My_aru := m, sn_Highest_seq := h\<rparr>]"
  assumes i: "i < length xs" and m: "sn_My_aru (xs ! i) \<le> m"
  shows "sn_Set_aru (ys ! j) = sn_Set_aru (xs ! j)" "prev_aru (ys ! j) = prev_aru (xs ! j)"
    "sn_id (ys ! j) = sn_id (xs ! j)" "sn_My_aru (xs ! j) \<le> sn_My_aru (ys ! j)"
    "sn_Aru (ys ! j) = sn_Aru (xs ! j)" "length ys = length xs"
  using i m by (cases "j = i"; simp add: ys_def prev_aru_def)+

lemma map_sn_id_update: "map sn_id (xs[i := (xs ! i)\<lparr>sn_My_aru := m, sn_Highest_seq := h\<rparr>]) = map sn_id xs"
  by (cases "i < length xs") (simp_all add: map_update list_update_same_conv list_update_beyond)

lemma receive_ring_inv:
  assumes inv: "ring_inv (xs, t)" and i: "i < length xs" and m: "sn_My_aru (xs ! i) \<le> m"
    and h: "m \<le> h" "sn_Highest_seq (xs ! i) \<le> h" "h \<le> th_seq t"
  shows "ring_inv (xs[i := (xs ! i)\<lparr>sn_My_aru := m, sn_Highest_seq := h\<rparr>], t)"
proof -
  let ?ys = "xs[i := (xs ! i)\<lparr>sn_My_aru := m, sn_Highest_seq := h\<rparr>]"
  note I = ring_inv_unfold [OF inv]
  note F = receive_fields [where h = h, OF i m]
  have num: "numbers_ok t (?ys ! j)" if "j < length xs" for j
    using I(3) [OF that] I(3) [OF i] m h i by (cases "j = i") (auto simp: numbers_ok_def prev_aru_def that)
  have "last ?ys = ?ys ! (length xs - 1)" using I(1) by (simp add: last_nth)
  then have lst: "th_aru t = prev_aru (last ?ys)"
    using I(4) last_nth [OF I(1)] F(2) [where j = "length xs - 1"] by simp
  have hd: "holds_down (?ys, t) j" if "j < length xs" "sn_Set_aru (xs ! j) \<noteq> - 1" for j
    using I(5) [OF that] unfolding holds_down_def prod.case F(1,2,3,6) by blast
  have T: "th_aru t \<le> sn_My_aru (?ys ! j) \<or> (\<forall>k\<le>j. prev_aru (?ys ! k) \<le> sn_My_aru (?ys ! j))"
    if "j < length xs" for j
    using I(8) [OF that] F(4) [where j = j] unfolding F(2) by (meson order_trans)
  show ?thesis
    unfolding ring_inv_def prod.case map_sn_id_update F(1,3,6)
    using I(1,2,6) num lst hd T I(7) unfolding F(2) by (intro conjI allI impI) auto
qed

lemma receive_ring_safe:
  assumes safe: "ring_safe (xs, t)" and i: "i < length xs" and m: "sn_My_aru (xs ! i) \<le> m"
  shows "ring_safe (xs[i := (xs ! i)\<lparr>sn_My_aru := m, sn_Highest_seq := h\<rparr>], t)"
proof -
  note F = receive_fields [where h = h, OF i m]
  have "sn_Aru (xs ! a) \<le> sn_My_aru (xs ! b)" if "a < length xs" "b < length xs" for a b
    using safe that by (auto simp: ring_safe_def)
  then show ?thesis
    unfolding ring_safe_def fst_conv all_set_conv_all_nth F(5,6)
    using F(4) by (meson order_trans)
qed

lemma new_ring_inv:
  assumes "new_ring (xs, t)" and "th_aru t = 0"
  shows "ring_inv (xs, t)" "ring_safe (xs, t)"
proof -
  have new: "new_station (xs ! i)" if "i < length xs" for i
    using assms that by (auto simp: new_ring_def list_all_length)
  have "prev_aru (last xs) = 0"
    using assms new [of "length xs - 1"] by (auto simp: new_ring_def new_station_def prev_aru_def last_nth)
  then show "ring_inv (xs, t)"
    using assms new unfolding ring_inv_def prod.case
    by (auto simp: new_ring_def new_station_def numbers_ok_def prev_aru_def)
  show "ring_safe (xs, t)"
    using assms by (auto simp: ring_safe_def new_ring_def new_station_def list_all_iff)
qed

lemma ring_run_inv:
  assumes "ring_run r0 r" and "new_ring r0" and "th_aru (snd r0) = 0"
  shows "ring_inv r \<and> ring_safe r"
  using assms
proof (induction rule: ring_run.induct)
  case initial
  then show ?case using new_ring_inv [of "fst r0" "snd r0"] by simp
next
  case (step r r')
  from step.hyps(2) step.IH [OF step.prems] show ?case
    by (cases rule: ring_step.cases)
      (auto intro: visit_ring_inv visit_ring_safe receive_ring_inv receive_ring_safe)
qed

section \<open>Runs that can be evaluated\<close>

datatype ring_action = Visit int int | Receive nat int int

fun ring_act :: "ring_action \<Rightarrow> station list \<times> token_header \<Rightarrow> (station list \<times> token_header) option" where
  "ring_act (Visit k m) ([], t) = None"
| "ring_act (Visit k m) (x # xs, t) =
     (if visit_ok k m t x
      then (case visit_station k m t x of (t', x') \<Rightarrow> Some (xs @ [x'], t')) else None)"
| "ring_act (Receive i m h) (xs, t) =
     (if i < length xs \<and> sn_My_aru (xs ! i) \<le> m \<and> m \<le> h \<and> sn_Highest_seq (xs ! i) \<le> h \<and> h \<le> th_seq t
      then Some (xs[i := (xs ! i)\<lparr>sn_My_aru := m, sn_Highest_seq := h\<rparr>], t) else None)"

lemma ring_act_step: "ring_act a r = Some r' \<Longrightarrow> ring_step r r'"
  by (induction a r rule: ring_act.induct) (auto intro: ring_step.intros split: if_splits prod.splits)

lemma ring_acts_run:
  assumes "foldl (\<lambda>r a. Option.bind r (ring_act a)) (Some r1) as = Some r" and "ring_run r0 r1"
  shows "ring_run r0 r"
  using assms
proof (induction "as" arbitrary: r1)
  case Nil
  then show ?case by simp
next
  case (Cons a as')
  have none: "foldl (\<lambda>r a. Option.bind r (ring_act a)) None bs = None" for bs
    by (induction bs) simp_all
  from Cons.prems(1) obtain r2 where r2: "ring_act a r1 = Some r2"
    using none by (cases "ring_act a r1") auto
  show ?case
    by (rule Cons.IH [of r2]) (use Cons.prems r2 in \<open>auto intro: ring_run.step ring_act_step\<close>)
qed

definition fresh_station :: "int32u \<Rightarrow> station" where
  "fresh_station i = \<lparr>sn_id = i, sn_My_aru = 0, sn_Highest_seq = 0, sn_Set_aru = - 1, sn_Aru = 0,
     sn_Last_token = blank_token\<rparr>"

text \<open>
  A ring of three.  The first member sends packet 1, the second packet 2, which the third one
  misses; the token goes around once more.
\<close>

definition lossy_script :: "ring_action list" where
  "lossy_script = [Visit 1 1, Receive 0 1 1, Receive 1 1 1, Visit 1 2, Receive 1 2 2, Visit 0 1, Visit 0 2,
     Visit 0 2]"

definition ring_of_three :: "int \<Rightarrow> station list \<times> token_header" where
  "ring_of_three a = ([fresh_station 1, fresh_station 2, fresh_station 3], blank_token\<lparr>th_aru := a\<rparr>)"

lemmas ring_eval = lossy_script_def ring_of_three_def fresh_station_def visit_ok_def visit_station_def
  decide_aru_def stable_aru_def blank_token_def Let_def

text \<open>
  C1: in a ring whose token starts with an \<open>aru\<close> no greater than its sequence number, what any
  member computes as \<open>Aru\<close> was received by every member: a packet it delivers as safe, or
  discards, is held by all.
\<close>

theorem Aru_is_stable:
  assumes "ring_run r0 r" and "new_ring r0" and "th_aru (snd r0) = 0"
  shows "\<forall>x \<in> set (fst r). \<forall>y \<in> set (fst r). sn_Aru x \<le> sn_My_aru y"
  using ring_run_inv [OF assms] by (simp add: ring_safe_def)

theorem Aru_is_stable_witness:
  "\<exists>r. ring_run (ring_of_three 0) r \<and> (\<exists>x \<in> set (fst r). sn_Aru x = 1) \<and>
     (\<forall>x \<in> set (fst r). \<forall>y \<in> set (fst r). sn_Aru x \<le> sn_My_aru y)"
proof -
  obtain r where r: "foldl (\<lambda>r a. Option.bind r (ring_act a)) (Some (ring_of_three 0)) lossy_script = Some r"
      "\<exists>x \<in> set (fst r). sn_Aru x = 1"
    by (simp add: ring_eval)
  have run: "ring_run (ring_of_three 0) r"
    by (rule ring_acts_run [OF r(1)]) (rule ring_run.initial)
  have "new_ring (ring_of_three 0)" "th_aru (snd (ring_of_three 0)) = 0"
    by (simp_all add: new_ring_def new_station_def ring_eval)
  from Aru_is_stable [OF run this] run r(2) show ?thesis by blast
qed

text \<open>
  C2: the token the daemon really starts a ring with carries the \<open>aru\<close> of the membership change
  (\<open>Last_seq\<close>), and then stability fails: the first member takes the branch that lowers
  \<open>aru\<close> although it misses nothing and remembers the value, so it raises \<open>aru\<close> again when the
  third member holds it down at the same value.
\<close>

theorem Aru_unstable_after_membership:
  "\<exists>r. new_ring (ring_of_three FORM_SEQ_GAP) \<and> ring_run (ring_of_three FORM_SEQ_GAP) r \<and>
     (\<exists>x \<in> set (fst r). \<exists>y \<in> set (fst r). sn_My_aru y < sn_Aru x)"
proof -
  obtain r where r: "foldl (\<lambda>r a. Option.bind r (ring_act a)) (Some (ring_of_three FORM_SEQ_GAP)) lossy_script = Some r"
      "\<exists>x \<in> set (fst r). \<exists>y \<in> set (fst r). sn_My_aru y < sn_Aru x"
    by (simp add: ring_eval FORM_SEQ_GAP_def)
  have run: "ring_run (ring_of_three FORM_SEQ_GAP) r"
    by (rule ring_acts_run [OF r(1)]) (rule ring_run.initial)
  have "new_ring (ring_of_three FORM_SEQ_GAP)"
    by (simp add: new_ring_def new_station_def ring_eval)
  with run r(2) show ?thesis by blast
qed

end
