(* ===== verification/Sample.thy ===== *)
theory Sample
  imports Daemon
begin

text \<open>
  A concrete daemon for the witnesses: a ring of three processes in one segment, seen by the
  first of them just after a regular membership was installed.
\<close>

definition sample_proc :: "nat \<Rightarrow> proc" where
  "sample_proc i = \<lparr>p_name = ''p'', p_port = 4803, p_seg_index = 0, p_index_in_seg = i,
     p_id = word_of_nat (i + 1),
     p_ifc = [\<lparr>if_ip = word_of_nat (i + 1), if_port = 4803, if_type = 4\<rparr>]\<rparr>"

definition sample_segment :: segment where
  "sample_segment = \<lparr>bcast_address = 255, seg_port = 4803, seg_procs = [0, 1, 2]\<rparr>"

definition sample_conf :: configuration where
  "sample_conf = \<lparr>hash_code = 77, num_segments = 1, num_total_procs = 3, segments = (\<lambda>_. sample_segment)\<rparr>"

definition sample_memb_id :: membership_id where "sample_memb_id = \<lparr>mid_proc_id = 1, mid_time = 10\<rparr>"

definition no_header :: packet_header where
  "no_header = \<lparr>ph_type = 0, ph_transmiter_id = 0, ph_proc_id = 0,
     ph_memb_id = \<lparr>mid_proc_id = 0, mid_time = 0\<rparr>, ph_seq = 0, ph_fifo_seq = 0,
     ph_packet_index = 0, ph_data_len = 0, ph_conf_hash = 0\<rparr>"

definition no_token :: token_header where
  "no_token = \<lparr>th_type = 0, th_transmiter_id = 0, th_seq = 0, th_proc_id = 0, th_aru = 0,
     th_aru_last_id = 0, th_flow_control = 0, th_rtr_len = 0, th_conf_hash = 0\<rparr>"

definition no_members :: members_info where
  "no_members = \<lparr>num_members = 0, num_pending = 0, members = (\<lambda>_. 0)\<rparr>"

definition no_reps_info :: reps_info where
  "no_reps_info = \<lparr>num_reps = 0, rep_index = 0,
     reps = (\<lambda>_. \<lparr>rep_proc_id = 0, rep_type = 0, rep_seg_index = 0\<rparr>)\<rparr>"

definition no_status :: status where
  "no_status = \<lparr>
     st_sec = 0, st_state = OP, st_gstate = 0, st_packet_sent = 0, st_packet_recv = 0,
     st_packet_delivered = 0, st_retrans = 0, st_u_retrans = 0, st_s_retrans = 0, st_b_retrans = 0,
     st_aru = 0, st_my_aru = 0, st_highest_seq = 0, st_token_hurry = 0, st_token_rounds = 0,
     st_my_id = 0, st_leader_id = 0, st_message_delivered = 0, st_membership_changes = 0,
     st_num_procs = 0, st_num_segments = 0, st_window = 0, st_personal_window = 0, st_num_sessions =
     0, st_num_groups = 0, st_major_version = 0, st_minor_version = 0, st_patch_version = 0\<rparr>"

definition sample :: daemon where
  "sample = \<lparr>
     Config = sample_conf, Config_procs = sample_proc, Conf_My = sample_proc 0,
     EnableDangerousMonitor = True, Conf_Reload_State = False, SocketPortReuse = port_reuse_auto,
     RuntimeDir = None, User = None, Group = None, Link_Protocol = 0, Now = \<lparr>sec = 0, usec =
     0\<rparr>, Time_queue = [], clock = (\<lambda>n. \<lparr>sec = int n, usec = 0\<rparr>),
     clock_reads = 0, sent = [], sendmsg_ret = (\<lambda>_. 1), sendmsg_calls = 0, Bcast_channel =
     [7], Token_channel = [8], Send_channel = 0, fd_of = int, opened = [], Bcast_needed = True,
     Bcast_address = 255, Bcast_port = 4803, Send_dests = [], Queue_scat = [], Queued_bytes = 0,
     Token_address = 2, Token_port = 4804, Net_membership = sample_conf, Segment_leader = False,
     Net_My = sample_proc 0, Partition = (\<lambda>_. 0), Partition_my_index = 0, heads =
     (\<lambda>_. no_header), next_head = 0, Prot_My = sample_proc 0, Prot_My_index = 0, Set_aru = -
     1, Token_counter = 0, Protocol_down_queue = (\<lambda>_. \<lparr>dq_mess = [], dq_cur_element =
     0\<rparr>), Down_queue_ptr = NORMAL_DOWNQUEUE, Up_queue = (\<lambda>_. None), Packets =
     (\<lambda>_. \<lparr>pk_head = 0, pk_body = [], pk_exist = 0, pk_proc_index = 0\<rparr>), Aru =
     0, My_aru = 0, Highest_seq = 0, Highest_fifo_seq = 0, Last_discarded = 0, Last_delivered = 0,
     Last_seq = 0, Token_rounds = 0, Last_token = no_token, Last_num_retrans = 0, Last_num_sent = 0,
     Token_timeout = \<lparr>sec = 5, usec = 0\<rparr>, Hurry_timeout = \<lparr>sec = 5, usec =
     0\<rparr>, Alive_timeout = \<lparr>sec = 5, usec = 0\<rparr>, Join_timeout = \<lparr>sec = 5,
     usec = 0\<rparr>, Rep_timeout = \<lparr>sec = 5, usec = 0\<rparr>, Seg_timeout = \<lparr>sec =
     5, usec = 0\<rparr>, Gather_timeout = \<lparr>sec = 5, usec = 0\<rparr>, Form_timeout =
     \<lparr>sec = 5, usec = 0\<rparr>, Lookup_timeout = \<lparr>sec = 5, usec = 0\<rparr>,
     Wide_network = False, Transitional = False, Trans_membership = sample_conf, Commit_membership =
     sample_conf, Reg_membership = sample_conf, Membership = sample_conf, Membership_id =
     sample_memb_id, Future_membership = sample_conf, Future_membership_id = sample_memb_id,
     Trans_memb_id = sample_memb_id, F_trans_memb_time = 0, Last_time_used = - 1, State = OP,
     Token_alive = True, Memb_My = sample_proc 0, My_seg_rep = - 1, Foreign_found = False, F_members
     = no_members, F_reps = no_reps_info, Potential_reps = no_reps_info, Commit_set = no_members,
     Future_commit_set = no_members, Memb_head = no_header, Window = 60, Personal_window = 15,
     GlobalStatus = no_status, Start_time = \<lparr>sec = 0, usec = 0\<rparr>, Report_channel = 0,
     Report_head = no_header, upcalls = []\<rparr>"

lemmas sample_data = sample_proc_def sample_segment_def sample_conf_def sample_memb_id_def no_header_def
  no_token_def no_members_def no_reps_info_def no_status_def

text \<open>The fields of the sample, so that its definition stays folded.\<close>

lemma sample_fields [simp]:
  "Config sample = sample_conf"
  "Config_procs sample = sample_proc"
  "Conf_My sample = sample_proc 0"
  "EnableDangerousMonitor sample = True"
  "Conf_Reload_State sample = False"
  "SocketPortReuse sample = port_reuse_auto"
  "RuntimeDir sample = None"
  "User sample = None"
  "Group sample = None"
  "Link_Protocol sample = 0"
  "Now sample = \<lparr>sec = 0, usec = 0\<rparr>"
  "Time_queue sample = []"
  "clock sample = (\<lambda>n. \<lparr>sec = int n, usec = 0\<rparr>)"
  "clock_reads sample = 0"
  "sent sample = []"
  "sendmsg_ret sample = (\<lambda>_. 1)"
  "sendmsg_calls sample = 0"
  "Bcast_channel sample = [7]"
  "Token_channel sample = [8]"
  "Send_channel sample = 0"
  "fd_of sample = int"
  "opened sample = []"
  "Bcast_needed sample = True"
  "Bcast_address sample = 255"
  "Bcast_port sample = 4803"
  "Send_dests sample = []"
  "Queue_scat sample = []"
  "Queued_bytes sample = 0"
  "Token_address sample = 2"
  "Token_port sample = 4804"
  "Net_membership sample = sample_conf"
  "Segment_leader sample = False"
  "Net_My sample = sample_proc 0"
  "Partition sample = (\<lambda>_. 0)"
  "Partition_my_index sample = 0"
  "heads sample = (\<lambda>_. no_header)"
  "next_head sample = 0"
  "Prot_My sample = sample_proc 0"
  "Prot_My_index sample = 0"
  "Set_aru sample = - 1"
  "Token_counter sample = 0"
  "Protocol_down_queue sample = (\<lambda>_. \<lparr>dq_mess = [], dq_cur_element = 0\<rparr>)"
  "Down_queue_ptr sample = NORMAL_DOWNQUEUE"
  "Up_queue sample = (\<lambda>_. None)"
  "Packets sample = (\<lambda>_. \<lparr>pk_head = 0, pk_body = [], pk_exist = 0, pk_proc_index = 0\<rparr>)"
  "Aru sample = 0"
  "My_aru sample = 0"
  "Highest_seq sample = 0"
  "Highest_fifo_seq sample = 0"
  "Last_discarded sample = 0"
  "Last_delivered sample = 0"
  "Last_seq sample = 0"
  "Token_rounds sample = 0"
  "Last_token sample = no_token"
  "Last_num_retrans sample = 0"
  "Last_num_sent sample = 0"
  "Token_timeout sample = \<lparr>sec = 5, usec = 0\<rparr>"
  "Hurry_timeout sample = \<lparr>sec = 5, usec = 0\<rparr>"
  "Alive_timeout sample = \<lparr>sec = 5, usec = 0\<rparr>"
  "Join_timeout sample = \<lparr>sec = 5, usec = 0\<rparr>"
  "Rep_timeout sample = \<lparr>sec = 5, usec = 0\<rparr>"
  "Seg_timeout sample = \<lparr>sec = 5, usec = 0\<rparr>"
  "Gather_timeout sample = \<lparr>sec = 5, usec = 0\<rparr>"
  "Form_timeout sample = \<lparr>sec = 5, usec = 0\<rparr>"
  "Lookup_timeout sample = \<lparr>sec = 5, usec = 0\<rparr>"
  "Wide_network sample = False"
  "Transitional sample = False"
  "Trans_membership sample = sample_conf"
  "Commit_membership sample = sample_conf"
  "Reg_membership sample = sample_conf"
  "Membership sample = sample_conf"
  "Membership_id sample = sample_memb_id"
  "Future_membership sample = sample_conf"
  "Future_membership_id sample = sample_memb_id"
  "Trans_memb_id sample = sample_memb_id"
  "F_trans_memb_time sample = 0"
  "Last_time_used sample = - 1"
  "State sample = OP"
  "Token_alive sample = True"
  "Memb_My sample = sample_proc 0"
  "My_seg_rep sample = - 1"
  "Foreign_found sample = False"
  "F_members sample = no_members"
  "F_reps sample = no_reps_info"
  "Potential_reps sample = no_reps_info"
  "Commit_set sample = no_members"
  "Future_commit_set sample = no_members"
  "Memb_head sample = no_header"
  "Window sample = 60"
  "Personal_window sample = 15"
  "GlobalStatus sample = no_status"
  "Start_time sample = \<lparr>sec = 0, usec = 0\<rparr>"
  "Report_channel sample = 0"
  "Report_head sample = no_header"
  "upcalls sample = []"
  by (simp_all add: sample_def)

text \<open>The same daemon with an agreed message of two fragments waiting to be sent.\<close>

definition busy_sample :: daemon where
  "busy_sample = sample\<lparr>Protocol_down_queue := (\<lambda>_.
     \<lparr>dq_mess = [\<lparr>dl_type = AGREED_TYPE, dl_mess = [[1, 2, 3], [4]]\<rparr>], dq_cur_element = 0\<rparr>)\<rparr>"

end
