(* ===== verification/Status.thy ===== *)
theory Status
  imports Memb_core
begin

text \<open>
  \<open>daemon/status.c\<close>: the report of the daemon's counters that the monitor asks for, as the bytes
  of the C structure.
\<close>

primrec state_code :: "memb_state \<Rightarrow> int" where
  "state_code OP = 1"
| "state_code SEG = 2"
| "state_code REPRESENTED = 3"
| "state_code GATHER = 4"
| "state_code FORM = 5"
| "state_code EVS = 6"

definition enc_int32s :: "int list \<Rightarrow> byte list" where
  "enc_int32s xs = concat (map (\<lambda>x. bytes32 (word_of_int x)) xs)"

definition enc_int16s :: "int list \<Rightarrow> byte list" where
  "enc_int16s xs = concat (map (\<lambda>x. bytes16 (word_of_int x)) xs)"

definition enc_status :: "status \<Rightarrow> byte list" where
  "enc_status g =
     enc_int32s [st_sec g, state_code (st_state g), st_gstate g, st_packet_sent g, st_packet_recv g,
       st_packet_delivered g, st_retrans g, st_u_retrans g, st_s_retrans g, st_b_retrans g, st_aru g,
       st_my_aru g, st_highest_seq g, st_token_hurry g, st_token_rounds g, uint (st_my_id g),
       uint (st_leader_id g), st_message_delivered g] @
     enc_int16s [st_membership_changes g, st_num_procs g, st_num_segments g, st_window g,
       st_personal_window g, st_num_sessions g, st_num_groups g, st_major_version g,
       st_minor_version g, st_patch_version g]"

definition sizeof_status :: int where "sizeof_status = 92"

lemma length_enc_status: "int (length (enc_status g)) = sizeof_status"
  by (simp add: enc_status_def enc_int32s_def enc_int16s_def sizeof_status_def bytes16_def bytes32_def)

definition Stat_init :: "daemon \<Rightarrow> daemon" where
  "Stat_init s0 = (let
     (now, s1) = E_get_time s0;
     (ch, s2) = DL_init_channel 0 0 (p_id (Conf_My s1)) (s1\<lparr>Start_time := now\<rparr>);
     s3 = s2\<lparr>Report_channel := ch, Report_head := (Report_head s2)\<lparr>
       ph_type := Set_endian STATUS_TYPE, ph_data_len := sizeof_status, ph_proc_id := p_id (Conf_My s2)\<rparr>\<rparr>
     in upd_status (\<lambda>g. g\<lparr>st_major_version := 4, st_minor_version := 0, st_patch_version := 0\<rparr>) s3)"

text \<open>A request of the monitor carries the port for the answer in \<open>seq\<close>.\<close>

definition Stat_handle_message :: "packet_header \<Rightarrow> daemon \<Rightarrow> daemon" where
  "Stat_handle_message h s0 =
     (if \<not> (mid_proc_id (ph_memb_id h) = monitor_id \<and>
            Conf_id_in_conf s0 (Config s0) (ph_proc_id h) \<noteq> None)
      then s0
      else let
        (now, s1) = E_get_time s0;
        s2 = upd_status (\<lambda>g. g\<lparr>st_sec := sec (E_sub_time now (Start_time s1))\<rparr>) s1
      in snd (DL_send (ph_proc_id h) (to_int16 (ph_seq h))
                [C_pack (Report_head s2), C_bytes (enc_status (GlobalStatus s2))] s2))"

end
