(* ===== verification/Protocol.thy ===== *)
theory Protocol
  imports Prot_token Memb_form Status
begin

text \<open>
  The handlers of \<open>daemon/protocol.c\<close> that the event loop calls: a datagram on a broadcast
  channel, a token, a timer; the reload of the configuration; and the daemon as a transition
  system over these events.
\<close>

section \<open>A datagram\<close>

text \<open>
  The packets in a datagram: the first with the header read by \<open>Net_recv\<close>, the others from the
  buffer, each behind the padding of the one before.  A body is copied out of the buffer.
\<close>

partial_function (option) unpack_rest ::
  "int \<Rightarrow> int \<Rightarrow> byte list \<Rightarrow> (packet_header \<times> byte list) list \<Rightarrow> (packet_header \<times> byte list) list option" where
  "unpack_rest received processed buf acc =
     (if received > processed
      then do {
        h \<leftarrow> get_packet_header buf processed;
        let off = processed + sizeof_packet_header;
        exit_if (int (length acc) \<ge> int ARCH_SCATTER_SIZE);
        body \<leftarrow> get_bytes buf off (ph_data_len h);
        let p = off + ph_data_len h;
        unpack_rest received (p + align_pad p) buf (acc @ [(h, body)]) }
      else Some acc)"

declare unpack_rest.simps [code]

definition unpack ::
  "int \<Rightarrow> packet_header \<Rightarrow> byte list \<Rightarrow> (packet_header \<times> byte list) list option" where
  "unpack received h buf =
     unpack_rest (received - sizeof_packet_header) (ph_data_len h + align_pad (ph_data_len h)) buf
       [(h, buf)]"

text \<open>The packets already held, or from a process outside the configuration, are dropped.\<close>

definition new_packet :: "packet_header \<Rightarrow> byte list \<Rightarrow> nat \<Rightarrow> daemon \<Rightarrow> daemon" where
  "new_packet h body i s = (let
     (ref, s1) = store_head h s;
     s2 = set_pkt (slot (ph_seq h)) \<lparr>pk_head = ref, pk_body = body, pk_exist = 1, pk_proc_index = int i\<rparr> s1
     in raise_highest (ph_seq h) s2)"

definition insert_packet :: "packet_header \<times> byte list \<Rightarrow> daemon \<Rightarrow> daemon option" where
  "insert_packet hb s = (case hb of (h, body) \<Rightarrow>
     if ph_seq h \<le> Aru s then Some s
     else if pk_exist (pkt s (ph_seq h)) \<noteq> 0 then Some s
     else case Conf_proc_by_id s (ph_proc_id h) of
       None \<Rightarrow> Some (set_pkt (slot (ph_seq h)) ((pkt s (ph_seq h))\<lparr>pk_proc_index := - 1\<rparr>) s)
     | Some (i, _) \<Rightarrow> (let s1 = new_packet h body i s in
         if ph_seq h = My_aru s1 + 1
         then Deliver_agreed_packets (s1\<lparr>My_aru := My_aru s1 +
                count_while (\<lambda>j. pk_exist (pkt s1 j) \<noteq> 0) [ph_seq h..Highest_seq s1]\<rparr>)
         else Deliver_reliable_packets (ph_seq h) 1 s1))"

definition keep_token_alive :: "daemon \<Rightarrow> daemon option" where
  "keep_token_alive s =
     (if Token_alive s
      then let s1 = E_queue Memb_token_loss_f 0 0 (Token_timeout s) s in
           map_option (\<lambda>leader. if leader then E_queue Prot_token_hurry_f 0 0 (Hurry_timeout s1) s1 else s1)
             (am_leader s1)
      else Some s)"

definition handle_regular_packets ::
  "int \<Rightarrow> packet_header \<Rightarrow> byte list \<Rightarrow> daemon \<Rightarrow> daemon option" where
  "handle_regular_packets received h buf s0 = do {
     s1 \<leftarrow> keep_token_alive s0;
     packets \<leftarrow> unpack received h buf;
     s2 \<leftarrow> forM packets insert_packet s1;
     Some (upd_status (\<lambda>g. g\<lparr>st_packet_recv := st_packet_recv g + 1, st_my_aru := My_aru s2,
             st_highest_seq := Highest_seq s2\<rparr>) s2) }"

section \<open>Reloading the configuration\<close>

text \<open>
  \<open>file\<close> is the parsed configuration file.  When more than the set of daemons changed, every
  daemon goes through a partition of singletons, which \<open>Evs_regular\<close> lifts again.
\<close>

definition set_prot_my :: "daemon \<Rightarrow> daemon" where
  "set_prot_my s = (case Conf_proc_by_id s (p_id (Conf_My s)) of
     None \<Rightarrow> s\<lparr>Prot_My := Conf_My s, Prot_My_index := - 1\<rparr>
   | Some (i, me) \<Rightarrow> s\<lparr>Prot_My := me, Prot_My_index := int i\<rparr>)"

definition Prot_handle_conf_reload :: "parsed_file \<Rightarrow> my_name_arg \<Rightarrow> daemon \<Rightarrow> daemon option" where
  "Prot_handle_conf_reload file my_name s0 = do {
     (need_partition, s1) \<leftarrow> Conf_reload_initiate file my_name s0;
     s2 \<leftarrow> Net_signal_conf_reload s1;
     let s3 = call_session Sess_signal_conf_reload (Memb_signal_conf_reload s2);
     let s4 = set_prot_my s3;
     let s5 = (if need_partition
               then Conf_reload_state_begin (Net_set_partition int s4) else s4);
     Some (E_queue Memb_token_loss_f 0 0 Zero_timeout s5) }"

section \<open>The handlers of the event loop\<close>

text \<open>
  \<open>received\<close>, the header and the buffer are what \<open>DL_recv\<close> delivers; the configuration file and
  the name are read when the packet asks for a reload.
\<close>

definition Prot_handle_bcast ::
  "int \<Rightarrow> int \<Rightarrow> packet_header \<Rightarrow> byte list \<Rightarrow> parsed_file \<Rightarrow> my_name_arg \<Rightarrow> daemon \<Rightarrow> daemon option" where
  "Prot_handle_bcast fd received h0 buf0 file my_name s0 = do {
     (ret, h, buf, s) \<leftarrow> Net_recv fd received h0 buf0 s0;
     if ret \<le> 0 then Some s
     else if Is_status (ph_type h) then Some (Stat_handle_message h s)
     else if Is_fc (ph_type h) then FC_handle_message h buf s
     else if Is_conf_reload (ph_type h) then Prot_handle_conf_reload file my_name s
     else if Is_membership (ph_type h) then Memb_handle_message h buf s
     else if Is_hurry (ph_type h) then Handle_hurry (ph_proc_id h) s
     else if \<not> Is_regular (ph_type h) then Some s
     else if \<not> Memb_is_equal (Membership_id s) (ph_memb_id h) then Memb_handle_message h buf s
     else handle_regular_packets ret h buf s }"

definition Prot_handle_token ::
  "int \<Rightarrow> int \<Rightarrow> token_header \<Rightarrow> token_content \<Rightarrow> daemon \<Rightarrow> daemon option" where
  "Prot_handle_token fd received t0 body s = do {
     (ret, t) \<leftarrow> Net_recv_token fd received t0 s;
     if ret = 0 then Some s
     else if Is_form (th_type t) then Memb_handle_token t body s
     else (case body of Requests buf \<Rightarrow> handle_regular_token ret t buf s | _ \<Rightarrow> None) }"

text \<open>The functions of the timer queue; those of the session layer do not touch this state.\<close>

primrec run_timer :: "timer_func \<Rightarrow> int \<Rightarrow> daemon \<Rightarrow> daemon option" where
  "run_timer Prot_token_hurry_f code s = Prot_token_hurry s"
| "run_timer Memb_token_loss_f code s = Memb_token_loss s"
| "run_timer Memb_lookup_new_members_f code s = Some (Memb_lookup_new_members s)"
| "run_timer Scast_alive_f code s = Some (Scast_alive code s)"
| "run_timer Gather_or_represented_f code s = Gather_or_represented s"
| "run_timer Send_join_f code s = Some (Send_join s)"
| "run_timer Form_or_fail_f code s = Form_or_fail s"
| "run_timer Shift_to_seg_f code s = Some (Shift_to_seg s)"
| "run_timer Clear_partition_cb_f code s = Some (Net_clear_partition s)"
| "run_timer (Other_func n) code s = Some s"

text \<open>One turn of the loop over the timer queue in \<open>E_handle_events\<close>.\<close>

definition handle_due_timer :: "daemon \<Rightarrow> daemon option" where
  "handle_due_timer s0 = (let (now, s) = E_get_time s0 in
     case Time_queue s of [] \<Rightarrow> Some s
     | e # q \<Rightarrow> if E_compare_time now (te_t e) \<ge> 0
               then map_option (\<lambda>s'. snd (E_get_time s'))
                      (run_timer (te_func e) (te_code e) (s\<lparr>Time_queue := q\<rparr>))
               else Some s)"

section \<open>The start of the daemon\<close>

definition Prot_init :: "daemon \<Rightarrow> daemon option" where
  "Prot_init s0 = do {
     let s1 = set_prot_my s0;
     let s2 = upd_status (\<lambda>g. g\<lparr>st_my_id := p_id (Prot_My s1), st_packet_delivered := 0\<rparr>) (s1\<lparr>
         Up_queue := (\<lambda>q. if 0 \<le> q \<and> q \<le> int MAX_PROCS_RING then None else Up_queue s1 q),
         Packets := (\<lambda>e. if 0 \<le> e \<and> e < MAX_PACKETS_IN_STRUCT
                         then (Packets s1 e)\<lparr>pk_exist := 0\<rparr> else Packets s1 e),
         Highest_seq := 0, Highest_fifo_seq := 0, My_aru := 0, Aru := 0, Set_aru := - 1,
         Last_discarded := 0, Last_delivered := 0,
         Last_token := (Last_token s1)\<lparr>th_type := 0, th_seq := 0, th_aru := 0, th_flow_control := 0,
                         th_conf_hash := 0\<rparr>\<rparr>);
     s3 \<leftarrow> Net_init s2;
     s4 \<leftarrow> Memb_init (FC_init s3);
     Net_set_membership (Reg_membership s4) s4 }"

section \<open>The daemon as a transition system\<close>

datatype daemon_event =
    Datagram int int packet_header "byte list" parsed_file my_name_arg
  | Token int int token_header token_content
  | Timer
  | New_message down_link

primrec handle_event :: "daemon_event \<Rightarrow> daemon \<Rightarrow> daemon option" where
  "handle_event (Datagram fd n h buf file nm) s = Prot_handle_bcast fd n h buf file nm s"
| "handle_event (Token fd n t body) s = Prot_handle_token fd n t body s"
| "handle_event Timer s = handle_due_timer s"
| "handle_event (New_message l) s = Prot_new_message l s"

inductive daemon_step :: "daemon \<Rightarrow> daemon \<Rightarrow> bool" where
  step: "handle_event ev s = Some s' \<Longrightarrow> daemon_step s s'"

inductive reachable :: "daemon \<Rightarrow> daemon \<Rightarrow> bool" for s0 where
  start: "Prot_init s0 = Some s \<Longrightarrow> reachable s0 s"
| later: "reachable s0 s \<Longrightarrow> daemon_step s s' \<Longrightarrow> reachable s0 s'"

inductive_cases daemon_stepE: "daemon_step s s'"

end
