(* ===== verification/Token_visit.thy ===== *)
theory Token_visit
  imports Ring Sample Protocol
begin

text \<open>
  \<open>process_token\<close> is a visit of the ring model: the operations between the reception of a token
  and its next reception leave the sequence numbers alone, apart from the ones a visit changes.
\<close>

definition station_of :: "daemon \<Rightarrow> station" where
  "station_of s = \<lparr>sn_id = p_id (Prot_My s), sn_My_aru = My_aru s, sn_Highest_seq = Highest_seq s,
     sn_Set_aru = Set_aru s, sn_Aru = Aru s, sn_Last_token = Last_token s\<rparr>"

definition core :: "daemon \<Rightarrow> memb_state \<times> station" where
  "core s = (State s, station_of s)"

lemma core_eq_iff:
  "core s' = core s \<longleftrightarrow> State s' = State s \<and> p_id (Prot_My s') = p_id (Prot_My s) \<and>
     My_aru s' = My_aru s \<and> Highest_seq s' = Highest_seq s \<and> Set_aru s' = Set_aru s \<and>
     Aru s' = Aru s \<and> Last_token s' = Last_token s"
  by (auto simp: core_def station_of_def)

lemma core_updates [simp]:
  "core (upd_status f s) = core s" "core (call_session u s) = core s"
  "core (set_down q s) = core s" "core (set_pkt e p s) = core s" "core (set_exist i n s) = core s"
  "core (put_head r h s) = core s" "core (E_queue fn c d delta s) = core s"
  "core (E_dequeue fn c d s) = core s"
  by (simp_all add: core_eq_iff upd_status_def call_session_def set_down_def set_pkt_def set_exist_def
      put_head_def E_queue_def E_dequeue_def E_get_time_def Let_def)

lemma core_net_frame:
  assumes "net_frame s s'"
  shows "core s' = core s"
proof -
  have eq: "s' = s\<lparr>sent := sent s', sendmsg_calls := sendmsg_calls s', heads := heads s',
    Queue_scat := Queue_scat s', Queued_bytes := Queued_bytes s'\<rparr>"
    using assms by (simp add: net_frame_def)
  show ?thesis unfolding core_eq_iff by (intro conjI; subst eq; simp)
qed

lemma core_Deliver_packet: "Deliver_packet e c s = Some s' \<Longrightarrow> core s' = core s"
  by (auto simp: Deliver_packet_def bind_Some_iff Let_def core_eq_iff upd_status_def call_session_def)

lemma core_reliable_step: "reliable_step i s = Some s' \<Longrightarrow> core s' = core s"
  by (auto simp: reliable_step_def dest: core_Deliver_packet split: if_splits)

lemma core_reliable: "Deliver_reliable_packets q n s = Some s' \<Longrightarrow> core s' = core s"
  unfolding Deliver_reliable_packets_def Let_def
  by (auto split: if_splits elim!: forM_preserves [where Q = "\<lambda>x. core x = core s"]
      dest!: core_reliable_step)

lemma core_agreed_step: "agreed_step i s = Some (s', b) \<Longrightarrow> core s' = core s"
  by (auto simp: agreed_step_def bind_Some_iff core_eq_iff dest!: core_Deliver_packet split: if_splits)

lemma core_agreed: "Deliver_agreed_packets s = Some s' \<Longrightarrow> core s' = core s"
  unfolding Deliver_agreed_packets_def
  by (auto split: if_splits elim!: forB_preserves [where Q = "\<lambda>x. core x = core s"] dest: core_agreed_step)

lemma core_discard_step: "discard_step i s = Some s' \<Longrightarrow> core s' = core s"
  by (auto simp: discard_step_def bind_Some_iff dest!: core_Deliver_packet split: if_splits)

lemma core_discard:
  assumes "Discard_packets s = Some s'" and "State s \<noteq> EVS"
  shows "core s' = core s"
proof (cases "Aru s \<le> Last_discarded s")
  case True
  with assms show ?thesis by (simp add: Discard_packets_def)
next
  case False
  with assms have "Discard_stable s = Some s'" by (simp add: Discard_packets_def)
  then obtain s1 where s1: "forM [Last_discarded s + 1..Aru s] discard_step s = Some s1"
    and s': "s' = (let s2 = s1\<lparr>Last_discarded := Aru s1\<rparr> in
        if Last_delivered s2 < Last_discarded s2 then s2\<lparr>Last_delivered := Last_discarded s2\<rparr> else s2)"
    unfolding Discard_stable_def bind_Some_iff Let_def by auto
  have "core s1 = core s"
    using s1 by (rule forM_preserves [where Q = "\<lambda>x. core x = core s"]) (auto dest: core_discard_step)
  moreover have "core s' = core s1" unfolding s' Let_def core_eq_iff by (simp split: if_split)
  ultimately show ?thesis by simp
qed

lemma core_resend_packet: "resend_packet rr q s = Some (ret, s') \<Longrightarrow> core s' = core s"
  unfolding resend_packet_def Let_def
  by (auto split: if_splits prod.splits dest!: net_frame_Net_ucast net_frame_Net_scast
      net_frame_Net_queue_bcast dest: core_net_frame)

lemma core_answer_request: "answer_request rr q (r, s) = Some (r', s') \<Longrightarrow> core s' = core s"
  by (auto simp: answer_request_def bind_Some_iff dest!: core_resend_packet split: if_splits)

lemma core_answer_entry:
  assumes "answer_entry rr off buf st = Some st'"
  shows "core (snd st') = core (snd st)"
  using assms unfolding answer_entry_def
  by (rule forM_preserves [where Q = "\<lambda>x. core (snd x) = core (snd st)"])
    (auto simp: bind_Some_iff dest: core_answer_request)

lemma core_answer_loop:
  assumes "answer_loop len old new buf st = Some res"
  shows "core (snd (snd (snd res))) = core (snd st)"
proof (rule answer_loop.raw_induct [where P = "\<lambda>_ _ _ _ st res. core (snd (snd (snd res))) = core (snd st)",
      OF _ assms], goal_cases)
  case (1 f len old new buf st res)
  show ?case
  proof (cases "old < len")
    case False
    with 1(2) show ?thesis by auto
  next
    case True
    with 1(2) obtain rr where rr: "get_ring_rtr buf old = Some rr"
      and rest: "(if Memb_is_equal (rr_memb_id rr) (Membership_id (snd st))
        then answer_entry rr (old + sizeof_ring_rtr) buf st \<bind>
          f len (old + sizeof_ring_rtr + sizeof_int32 * max 0 (rr_num_seq rr)) new buf
        else let n = sizeof_ring_rtr + rr_num_seq rr * sizeof_int32
          in (if new \<noteq> old then memmove_in buf new old n else Some buf) \<bind>
             (\<lambda>buf'. f len (old + n) (new + n) buf' st)) = Some res"
      by (auto simp only: bind_Some_iff if_True)
    show ?thesis
    proof (cases "Memb_is_equal (rr_memb_id rr) (Membership_id (snd st))")
      case True
      with rest obtain st' where "answer_entry rr (old + sizeof_ring_rtr) buf st = Some st'"
        "f len (old + sizeof_ring_rtr + sizeof_int32 * max 0 (rr_num_seq rr)) new buf st' = Some res"
        by (auto simp: bind_Some_iff)
      then have "core (snd (snd (snd res))) = core (snd st')" "core (snd st') = core (snd st)"
        using 1(1) core_answer_entry by blast+
      then show ?thesis by simp
    next
      case False
      with rest obtain n buf' where "f len (old + n) (new + n) buf' st = Some res"
        by (auto simp: bind_Some_iff Let_def)
      then show ?thesis by (rule 1(1))
    qed
  qed
qed

lemma core_Answer_retrans:
  assumes "Answer_retrans len buf s = Some (p, b, r, s')"
  shows "core s' = core s"
proof -
  let ?st = "(\<lparr>rt_num = 0, rt_proc_id = p_id (Prot_My s), rt_seg_index = int (p_seg_index (Prot_My s))\<rparr>, s)"
  from assms obtain p0 b0 r0 s1 where l: "answer_loop len 0 0 buf ?st = Some (p0, b0, r0, s1)"
    and rest: "(let (ret, s2) = Net_flush_bcast s1 in Some (if ret > 0
           then (p0, b0, r0\<lparr>rt_num := rt_num r0 + 1\<rparr>,
                 upd_status (\<lambda>g. g\<lparr>st_b_retrans := st_b_retrans g + 1\<rparr>) s2)
           else (p0, b0, r0, s2))) = Some (p, b, r, s')"
    by (auto simp only: Answer_retrans_def bind_Some_iff prod.case)
  obtain ret s2 where f: "Net_flush_bcast s1 = (ret, s2)" by (metis surj_pair)
  have s': "core s' = core s2" using rest f by (auto split: if_splits)
  have "core s2 = core s1" using net_frame_Net_flush_bcast [OF f] by (rule core_net_frame)
  moreover have "core s1 = core s" using core_answer_loop [OF l] by simp
  ultimately show ?thesis using s' by simp
qed

text \<open>Sending new packets raises \<open>Highest_seq\<close> by one for each, and nothing else.\<close>

definition raised :: "int \<Rightarrow> daemon \<Rightarrow> daemon \<Rightarrow> bool" where
  "raised k s s' \<longleftrightarrow> core s' = (State s, (station_of s)\<lparr>sn_Highest_seq := Highest_seq s + k\<rparr>)"

lemma raised_iff:
  "raised k s s' \<longleftrightarrow> State s' = State s \<and> p_id (Prot_My s') = p_id (Prot_My s) \<and>
     My_aru s' = My_aru s \<and> Highest_seq s' = Highest_seq s + k \<and> Set_aru s' = Set_aru s \<and>
     Aru s' = Aru s \<and> Last_token s' = Last_token s"
  by (auto simp: raised_def core_def station_of_def)

lemma raised_0: "raised 0 s s' \<longleftrightarrow> core s' = core s"
  by (simp add: raised_iff core_eq_iff)

lemma raised_trans: "raised j s s' \<Longrightarrow> raised k s' s'' \<Longrightarrow> raised (j + k) s s''"
  by (simp add: raised_iff)

lemma core_take_from_down: "take_from_down s = Some (e, ty, i, s') \<Longrightarrow> core s' = core s"
  by (erule take_from_down_eq) (simp split: if_splits)

lemma core_insert_own: "insert_own q r b s = Some s' \<Longrightarrow> core s' = core s"
  by (auto simp: insert_own_def bind_Some_iff)

lemma Send_new_step_raised:
  assumes "Send_new_step s = Some (b, s')"
  shows "raised 1 s s'"
proof -
  from assms obtain elem ty idx s1 where t: "take_from_down s = Some (elem, ty, idx, s1)"
    by (auto simp: Send_new_step_def bind_Some_iff)
  let ?h = "new_header ty idx (length elem) s1"
  let ?s = "snd (store_head ?h (s1\<lparr>Highest_seq := Highest_seq s1 + 1,
              Highest_fifo_seq := Highest_fifo_seq s1 + 1\<rparr>))"
  obtain ret s3 where q: "Net_queue_bcast (next_head s1) (take (nat (ph_data_len ?h)) elem) ?s = (ret, s3)"
    by (metis surj_pair)
  from assms t q have i: "insert_own (ph_seq ?h) (next_head s1) elem s3 = Some s'"
    by (auto simp: Send_new_step_def bind_Some_iff store_head_def Let_def)
  have "core s' = core ?s"
    using core_insert_own [OF i] core_net_frame [OF net_frame_Net_queue_bcast [OF q]] by simp
  moreover have "raised 1 s1 ?s" by (simp add: raised_iff store_head_def)
  ultimately show ?thesis using core_take_from_down [OF t] unfolding raised_iff core_eq_iff by simp
qed

lemma Send_new_loop_raised:
  assumes "Send_new_loop a n s = Some (r, s')"
  shows "\<exists>k\<ge>0. raised k s s'"
  using assms
proof (induction a n s arbitrary: r s' rule: Send_new_loop.induct)
  case (1 a n s)
  show ?case
  proof (cases "n < a \<and> dq_mess (down s) \<noteq> []")
    case False
    with 1(2) have "s' = s" by (subst (asm) Send_new_loop.simps) auto
    then show ?thesis by (intro exI [of _ 0]) (simp add: raised_0)
  next
    case True
    with 1(2) obtain went s1 where s1: "Send_new_step s = Some (went, s1)"
      and rest: "Send_new_loop a (if went then n + 1 else n) s1 = Some (r, s')"
      by (subst (asm) Send_new_loop.simps) (auto split: option.splits prod.splits)
    from 1(1) [OF True s1 refl rest] obtain k where "0 \<le> k" "raised k s1 s'" by blast
    with raised_trans [OF Send_new_step_raised [OF s1], of k s'] show ?thesis
      by (intro exI [of _ "1 + k"]) simp
  qed
qed

lemma Send_new_packets_raised:
  assumes "Send_new_packets a s = Some (n, s')"
  shows "\<exists>k\<ge>0. raised k s s'"
proof -
  from assms obtain n0 s1 where l: "Send_new_loop a 0 s = Some (n0, s1)"
    and "(let (ret, s2) = Net_flush_bcast s1 in Some (if ret > 0 then n0 + 1 else n0, s2)) = Some (n, s')"
    unfolding Send_new_packets_def by (auto simp only: bind_Some_iff prod.case)
  then have "core s' = core s1"
    using core_net_frame [OF net_frame_Net_flush_bcast] by (auto split: prod.splits)
  with Send_new_loop_raised [OF l] show ?thesis unfolding raised_iff core_eq_iff by simp
qed

lemma token_traffic_raised:
  assumes "token_traffic t buf s = Some (t', p, b, r, n, s')"
  shows "\<exists>k\<ge>0. raised k s s'" "th_aru t' = th_aru t" "th_seq t' = th_seq t"
    "th_aru_last_id t' = th_aru_last_id t"
proof -
  from assms obtain p0 b0 r0 s1 n0 s3 where a: "Answer_retrans (th_rtr_len t) buf s = Some (p0, b0, r0, s1)"
    and n: "Send_new_packets (FC_allowed (upd_status (\<lambda>g. g\<lparr>st_retrans := st_retrans g + rt_num r0\<rparr>) s1)
        (th_flow_control t) (rt_num r0)) (upd_status (\<lambda>g. g\<lparr>st_retrans := st_retrans g + rt_num r0\<rparr>) s1)
        = Some (n0, s3)"
    and res: "(let s4 = upd_status (\<lambda>g. g\<lparr>st_packet_sent := st_packet_sent g + n0\<rparr>) s3 in
      (t\<lparr>th_flow_control := to_int16 (th_flow_control t - Last_num_retrans s4
                 - Last_num_sent s4 + rt_num r0 + n0)\<rparr>, p0, b0, r0, n0,
           s4\<lparr>Last_num_retrans := rt_num r0, Last_num_sent := n0\<rparr>)) = (t', p, b, r, n, s')"
    unfolding token_traffic_def by (auto simp: bind_Some_iff Let_def)
  from res show "th_aru t' = th_aru t" "th_seq t' = th_seq t" "th_aru_last_id t' = th_aru_last_id t"
    by (auto simp: Let_def)
  have "core s' = core s3" using res by (auto simp: Let_def core_eq_iff upd_status_def)
  then show "\<exists>k\<ge>0. raised k s s'"
    using Send_new_packets_raised [OF n] core_Answer_retrans [OF a]
    unfolding raised_iff core_eq_iff by (auto simp: upd_status_def)
qed

section \<open>The rest of the token handler\<close>

lemma count_while_bounds: "0 \<le> count_while p is" "count_while p is \<le> int (length is)"
  by (induction "is") auto

lemma advance_aru_fields:
  "State (advance_aru s) = State s" "Prot_My (advance_aru s) = Prot_My s"
  "Highest_seq (advance_aru s) = Highest_seq s" "Set_aru (advance_aru s) = Set_aru s"
  "Aru (advance_aru s) = Aru s" "Last_token (advance_aru s) = Last_token s"
  "My_aru s \<le> My_aru (advance_aru s)" "My_aru (advance_aru s) \<le> max (My_aru s) (Highest_seq s)"
  using count_while_bounds [of "\<lambda>i. pk_exist (pkt s i) \<noteq> 0" "[My_aru s + 1..Highest_seq s]"]
  by (auto simp: advance_aru_def Let_def upd_status_def split: if_splits)

lemma am_leader_update_token:
  "update_token t s = Some t' \<Longrightarrow>
   th_aru t' = th_aru t \<and> th_aru_last_id t' = th_aru_last_id t \<and>
   th_seq t' = (if State s \<noteq> EVS then Highest_seq s else th_seq t)"
  by (auto simp: update_token_def bind_Some_iff Let_def)

lemma stamp_token_aru:
  assumes "Net_send_token t p s = Some (t', s')"
  shows "th_aru t' = th_aru t" "th_aru_last_id t' = th_aru_last_id t" "th_seq t' = th_seq t" "core s' = core s"
  using assms core_net_frame [OF net_frame_Net_send_token [OF assms]]
  by (auto simp: Net_send_token_def stamp_token_def bind_Some_iff Let_def)

lemma pass_token_core:
  assumes "pass_token t buf s = Some (t', s')"
  shows "th_aru t' = th_aru t" "th_aru_last_id t' = th_aru_last_id t" "th_seq t' = th_seq t" "core s' = core s"
proof -
  have "th_aru t' = th_aru t \<and> th_aru_last_id t' = th_aru_last_id t \<and> th_seq t' = th_seq t \<and> core s' = core s"
    using assms by (auto simp: pass_token_def bind_Some_iff Let_def stamp_token_aru split: if_splits)
  then show "th_aru t' = th_aru t" "th_aru_last_id t' = th_aru_last_id t" "th_seq t' = th_seq t"
    "core s' = core s" by simp_all
qed

lemma restart_timers_core: "restart_timers s = Some s' \<Longrightarrow> core s' = core s"
  by (auto simp: restart_timers_def bind_Some_iff Let_def)

lemma deliver_after_token_core:
  "deliver_after_token n s = Some s' \<Longrightarrow> State s \<noteq> EVS \<Longrightarrow> core s' = core s"
  by (auto simp: deliver_after_token_def bind_Some_iff dest!: core_discard core_agreed core_reliable)

lemma compute_Aru_fields:
  "State (compute_Aru t s) = State s" "Prot_My (compute_Aru t s) = Prot_My s"
  "My_aru (compute_Aru t s) = My_aru s" "Highest_seq (compute_Aru t s) = Highest_seq s"
  "Set_aru (compute_Aru t s) = Set_aru s" "Aru (compute_Aru t s) = stable_aru t (Last_token s)"
  "Last_token (compute_Aru t s) = t"
  by (simp_all add: compute_Aru_def Let_def)

lemma decide_aru_cong:
  assumes "th_aru t = th_aru u" "th_aru_last_id t = th_aru_last_id u" "th_seq t = th_seq u"
  shows "th_aru (fst (decide_aru t me m h sa)) = th_aru (fst (decide_aru u me m h sa))"
    "th_aru_last_id (fst (decide_aru t me m h sa)) = th_aru_last_id (fst (decide_aru u me m h sa))"
    "snd (decide_aru t me m h sa) = snd (decide_aru u me m h sa)"
  using assms by (auto simp: decide_aru_def)

text \<open>The numbers a station shows to the ring; of its last token only these fields matter.\<close>

definition same_station :: "station \<Rightarrow> station \<Rightarrow> bool" where
  "same_station x y \<longleftrightarrow> sn_id x = sn_id y \<and> sn_My_aru x = sn_My_aru y \<and>
     sn_Highest_seq x = sn_Highest_seq y \<and> sn_Set_aru x = sn_Set_aru y \<and> sn_Aru x = sn_Aru y \<and>
     prev_aru x = prev_aru y"

definition same_token :: "token_header \<Rightarrow> token_header \<Rightarrow> bool" where
  "same_token t u \<longleftrightarrow> th_aru t = th_aru u \<and> th_aru_last_id t = th_aru_last_id u \<and> th_seq t = th_seq u"

text \<open>
  C7: outside a membership change, the handler of an accepted token is a visit of the ring
  model: with \<open>k\<close> new packets and \<open>m\<close> the new \<open>My_aru\<close>, the daemon's numbers and the token it
  keeps as \<open>Last_token\<close> are those of \<open>visit_station\<close>.
\<close>

theorem process_token_is_visit:
  assumes run: "process_token t buf s = Some s'" and op: "State s \<noteq> EVS"
    and ok: "My_aru s \<le> Highest_seq s"
  shows "\<exists>k m. visit_ok k m t (station_of s) \<and>
    (case visit_station k m t (station_of s) of (t', x') \<Rightarrow>
       same_station (station_of s') x' \<and> same_token (Last_token s') t')"
proof -
  let ?s1 = "raise_highest (th_seq t) s"
  from run obtain t1 p b1 r n s2 where
    tr: "token_traffic t buf ?s1 = Some (t1, p, b1, r, n, s2)"
    and rest: "(do { (new_ptr2, buf2) \<leftarrow> request_retrans r p b1 (advance_aru s2);
     let s4 = evs_complete (advance_aru s2);
     let t2 = t1\<lparr>th_rtr_len := to_int16 new_ptr2\<rparr>;
     let (t3, s5) = compute_aru t2 s4;
     t4 \<leftarrow> update_token t3 s5;
     (t5, s6) \<leftarrow> pass_token t4 buf2 s5;
     s7 \<leftarrow> restart_timers (s6\<lparr>Token_rounds := Token_rounds s6 + 1\<rparr>);
     s8 \<leftarrow> deliver_after_token n (compute_Aru t5 s7);
     s9 \<leftarrow> evs_rounds_guard s8;
     Some (show_sequence s9) }) = Some s'"
    unfolding process_token_def by (auto simp: bind_Some_iff Let_def)
  from rest obtain p2 buf2 where q: "request_retrans r p b1 (advance_aru s2) = Some (p2, buf2)"
    by (auto simp: bind_Some_iff)
  let ?s3 = "advance_aru s2"
  let ?t2 = "t1\<lparr>th_rtr_len := to_int16 p2\<rparr>"
  let ?s5 = "?s3\<lparr>Set_aru := snd (decide_aru ?t2 (p_id (Prot_My ?s3)) (My_aru ?s3) (Highest_seq ?s3) (Set_aru ?s3))\<rparr>"
  let ?t3 = "fst (decide_aru ?t2 (p_id (Prot_My ?s3)) (My_aru ?s3) (Highest_seq ?s3) (Set_aru ?s3))"
  obtain k where k: "0 \<le> k" "raised k ?s1 s2" using token_traffic_raised(1) [OF tr] by blast
  have st3: "State ?s3 = State s"
    using k(2) by (simp add: raised_iff advance_aru_fields raise_highest_def)
  then have evs: "evs_complete ?s3 = ?s3" using op by (simp add: evs_complete_def)
  have ca: "compute_aru ?t2 ?s3 = (?t3, ?s5)" by (simp add: compute_aru_def split_beta)
  from rest q evs ca obtain t4 t5 s6 s7 s8 s9 where
    u: "update_token ?t3 ?s5 = Some t4" and pt: "pass_token t4 buf2 ?s5 = Some (t5, s6)"
    and rt: "restart_timers (s6\<lparr>Token_rounds := Token_rounds s6 + 1\<rparr>) = Some s7"
    and d: "deliver_after_token n (compute_Aru t5 s7) = Some s8"
    and g: "evs_rounds_guard s8 = Some s9" and s': "s' = show_sequence s9"
    by (auto simp: bind_Some_iff Let_def)
  have c7: "core s7 = core ?s5"
    using restart_timers_core [OF rt] pass_token_core(4) [OF pt] by (simp add: core_eq_iff)
  have c8: "core s8 = core (compute_Aru t5 s7)"
    by (rule deliver_after_token_core [OF d]) (use c7 st3 op in \<open>simp add: core_eq_iff compute_Aru_fields\<close>)
  have "State s8 \<noteq> EVS" using c8 c7 st3 op by (simp add: core_eq_iff compute_Aru_fields)
  with g have "s9 = s8" by (simp add: evs_rounds_guard_def)
  then have c': "core s' = core (compute_Aru t5 s7)" using c8 s' by (simp add: show_sequence_def)
  note T = token_traffic_raised(2-4) [OF tr]
  have h: "Highest_seq ?s3 = max (Highest_seq s) (th_seq t) + k"
    using k(2) by (auto simp: raised_iff advance_aru_fields raise_highest_def)
  have m: "My_aru s \<le> My_aru ?s3" "My_aru ?s3 \<le> Highest_seq ?s3"
    using k advance_aru_fields(7,8) [of s2] ok
    by (auto simp: raised_iff advance_aru_fields(3) raise_highest_def split: if_splits)
  have same: "p_id (Prot_My ?s3) = p_id (Prot_My s)" "Set_aru ?s3 = Set_aru s"
    "Last_token ?s3 = Last_token s" "Aru ?s3 = Aru s"
    using k(2) by (auto simp: raised_iff advance_aru_fields raise_highest_def)
  let ?D = "decide_aru t (p_id (Prot_My s)) (My_aru ?s3) (Highest_seq ?s3) (Set_aru s)"
  have D: "th_aru ?t3 = th_aru (fst ?D)" "th_aru_last_id ?t3 = th_aru_last_id (fst ?D)"
    "Set_aru ?s5 = snd ?D"
    using decide_aru_cong [of ?t2 t "p_id (Prot_My s)" "My_aru ?s3" "Highest_seq ?s3" "Set_aru s"] T same
    by simp_all
  have t5: "th_aru t5 = th_aru (fst ?D)" "th_aru_last_id t5 = th_aru_last_id (fst ?D)"
    "th_seq t5 = Highest_seq ?s3"
    using pass_token_core [OF pt] am_leader_update_token [OF u] D st3 op by simp_all
  show ?thesis
  proof (intro exI conjI)
    show "visit_ok k (My_aru ?s3) t (station_of s)"
      using k(1) m h by (simp add: visit_ok_def station_of_def)
    show "case visit_station k (My_aru ?s3) t (station_of s) of (t', x') \<Rightarrow>
       same_station (station_of s') x' \<and> same_token (Last_token s') t'"
      using c' c7 t5 D same h
      by (simp add: visit_station_def Let_def split_beta same_station_def same_token_def station_of_def
          prev_aru_def core_eq_iff compute_Aru_fields stable_aru_def)
  qed
qed

theorem process_token_is_visit_witness:
  "\<exists>s'. process_token no_token [] busy_sample = Some s' \<and> Highest_seq s' = 2 \<and>
     (\<exists>k m. visit_ok k m no_token (station_of busy_sample) \<and>
       (case visit_station k m no_token (station_of busy_sample) of (t', x') \<Rightarrow>
         same_station (station_of s') x' \<and> same_token (Last_token s') t'))"
proof -
  have "map_option Highest_seq (process_token no_token [] busy_sample) = Some 2" by code_simp
  then obtain s' where s': "process_token no_token [] busy_sample = Some s'" "Highest_seq s' = 2" by auto
  have "State busy_sample \<noteq> EVS" "My_aru busy_sample \<le> Highest_seq busy_sample"
    by (simp_all add: busy_sample_def)
  from process_token_is_visit [OF s'(1) this] s' show ?thesis
    by (intro exI [of _ s'] conjI)
qed

section \<open>A received packet\<close>

lemma core_new_packet:
  "State (new_packet h b i s) = State s" "Prot_My (new_packet h b i s) = Prot_My s"
  "My_aru (new_packet h b i s) = My_aru s" "Set_aru (new_packet h b i s) = Set_aru s"
  "Aru (new_packet h b i s) = Aru s" "Last_token (new_packet h b i s) = Last_token s"
  "Highest_seq (new_packet h b i s) = max (Highest_seq s) (ph_seq h)"
  by (simp_all add: new_packet_def store_head_def Let_def set_pkt_def raise_highest_def)


definition sample_packet :: packet_header where
  "sample_packet = no_header\<lparr>ph_type := AGREED_TYPE, ph_proc_id := 2, ph_memb_id := sample_memb_id,
     ph_seq := 1, ph_packet_index := - 1, ph_data_len := 2\<rparr>"


end
