(* ===== verification/Fragments.thy ===== *)
theory Fragments
  imports Prot_token
begin

text \<open>
  Fragments of messages: a message leaves the down queue as numbered packets (\<open>take_element\<close>),
  and \<open>Deliver_packet\<close> chains the packets of every sender back to messages.  The interface
  between the two is the locale \<open>fragment_channel\<close>; its lemmas hold for any order in which the
  packets of different senders are mixed.
\<close>

section \<open>The interface\<close>

text \<open>
  \<open>put\<close> adds a fragment to a partial message and returns the messages it completes; \<open>feed\<close> and
  \<open>feed_many\<close> run it over a stream from one sender, and over a mix of streams.
\<close>

primrec feed :: "('p \<Rightarrow> 'f \<Rightarrow> ('p \<times> 'm list) option) \<Rightarrow> 'p \<Rightarrow> 'f list \<Rightarrow> ('p \<times> 'm list) option" where
  "feed put p [] = Some (p, [])"
| "feed put p (f # fs) = do { (p1, out1) \<leftarrow> put p f; (p2, out2) \<leftarrow> feed put p1 fs; Some (p2, out1 @ out2) }"

primrec feed_many ::
  "('p \<Rightarrow> 'f \<Rightarrow> ('p \<times> 'm list) option) \<Rightarrow> ('q \<Rightarrow> 'p) \<Rightarrow> ('q \<times> 'f) list \<Rightarrow> (('q \<Rightarrow> 'p) \<times> ('q \<times> 'm) list) option" where
  "feed_many put Q [] = Some (Q, [])"
| "feed_many put Q (e # es) = do {
     (p1, out1) \<leftarrow> put (Q (fst e)) (snd e);
     (Q2, out2) \<leftarrow> feed_many put (Q(fst e := p1)) es;
     Some (Q2, map (Pair (fst e)) out1 @ out2) }"

definition stream_of :: "'q \<Rightarrow> ('q \<times> 'f) list \<Rightarrow> 'f list" where
  "stream_of q es = map snd (filter (\<lambda>e. fst e = q) es)"

lemma stream_of_simps [simp]:
  "stream_of q [] = []"
  "stream_of q ((q', f) # es) = (if q' = q then f # stream_of q es else stream_of q es)"
  "stream_of q (es @ es') = stream_of q es @ stream_of q es'"
  by (simp_all add: stream_of_def)

lemma stream_of_Pair [simp]: "stream_of q (map (Pair q') xs) = (if q' = q then xs else [])"
  by (induction xs) auto

lemma feed_append:
  "feed put p (fs @ gs) =
     do { (p1, out1) \<leftarrow> feed put p fs; (p2, out2) \<leftarrow> feed put p1 gs; Some (p2, out1 @ out2) }"
proof (induction fs arbitrary: p)
  case Nil
  show ?case by (cases "feed put p gs") auto
next
  case (Cons f fs)
  show ?case
    by (cases "put p f") (auto simp: Cons.IH split: prod.splits Option.bind_split)
qed

lemma feed_many_append:
  "feed_many put Q (es @ es') =
     do { (Q1, out1) \<leftarrow> feed_many put Q es; (Q2, out2) \<leftarrow> feed_many put Q1 es'; Some (Q2, out1 @ out2) }"
proof (induction es arbitrary: Q)
  case Nil
  show ?case by (cases "feed_many put Q es'") auto
next
  case (Cons e es)
  show ?case
    by (cases "put (Q (fst e)) (snd e)")
      (auto simp: Cons.IH simp del: fun_upd_apply split: prod.splits Option.bind_split)
qed

lemma feed_many_stream:
  assumes "feed_many put Q es = Some (Q', out)"
  shows "feed put (Q q) (stream_of q es) = Some (Q' q, stream_of q out)"
  using assms
proof (induction es arbitrary: Q out)
  case Nil
  then show ?case by simp
next
  case (Cons e es)
  obtain k f where e: "e = (k, f)" by (cases e)
  from Cons.prems obtain p1 o1 o2 where
    1: "put (Q k) f = Some (p1, o1)" "feed_many put (Q(k := p1)) es = Some (Q', o2)"
      "out = map (Pair k) o1 @ o2"
    by (auto simp: bind_Some_iff e)
  from Cons.IH [OF 1(2)] 1 show ?case by (auto simp: e)
qed

lemma feed_many_total:
  assumes "\<And>q. feed put (Q q) (stream_of q es) \<noteq> None"
  shows "\<exists>Q' out. feed_many put Q es = Some (Q', out)"
  using assms
proof (induction es arbitrary: Q)
  case Nil
  then show ?case by simp
next
  case (Cons e es)
  obtain k f where e: "e = (k, f)" by (cases e)
  from Cons.prems [of k] obtain p1 o1 where 1: "put (Q k) f = Some (p1, o1)"
    "feed put p1 (stream_of k es) \<noteq> None"
    by (auto simp: e bind_Some_iff)
  have "feed put ((Q(k := p1)) q) (stream_of q es) \<noteq> None" for q
    using Cons.prems [of q] 1 by (auto simp: e)
  then obtain Q' out where "feed_many put (Q(k := p1)) es = Some (Q', out)" using Cons.IH by blast
  with 1 show ?case by (simp add: e)
qed

lemma feed_many_single:
  assumes "feed put (Q q) fs = Some (p, out)"
  shows "feed_many put Q (map (Pair q) fs) = Some (Q(q := p), map (Pair q) out)"
  using assms
proof (induction fs arbitrary: Q out)
  case Nil
  then have "Q(q := p) = Q" "out = []" by auto
  then show ?case by simp
next
  case (Cons f fs)
  from Cons.prems obtain p1 o1 o2 where 1: "put (Q q) f = Some (p1, o1)"
      "feed put p1 fs = Some (p, o2)" "out = o1 @ o2"
    by (auto simp: bind_Some_iff)
  have "feed_many put (Q(q := p1)) (map (Pair q) fs) = Some (Q(q := p), map (Pair q) o2)"
    using Cons.IH [of "Q(q := p1)" o2] 1(2) by (simp add: fun_upd_same del: fun_upd_apply)
  with 1 show ?case by (simp del: fun_upd_apply)
qed

locale fragment_channel =
  fixes cut :: "'m \<Rightarrow> 'f list" and put :: "'p \<Rightarrow> 'f \<Rightarrow> ('p \<times> 'm list) option"
    and start :: 'p and valid :: "'m \<Rightarrow> bool"
  assumes whole_message: "valid m \<Longrightarrow> feed put start (cut m) = Some (start, [m])"
begin

lemma messages:
  assumes "\<forall>m \<in> set ms. valid m"
  shows "feed put start (concat (map cut ms)) = Some (start, ms)"
  using assms by (induction ms) (auto simp: feed_append whole_message)

text \<open>Every sender's messages come out whole and in order, whatever the interleaving.\<close>

lemma interleaved:
  assumes "\<And>q. stream_of q es = concat (map cut (ms q))" and "\<And>q m. m \<in> set (ms q) \<Longrightarrow> valid m"
  shows "\<exists>out. feed_many put (\<lambda>_. start) es = Some (\<lambda>_. start, out) \<and> (\<forall>q. stream_of q out = ms q)"
proof -
  have each: "feed put start (stream_of q es) = Some (start, ms q)" for q
    using assms messages [of "ms q"] by simp
  then obtain Q' out where run: "feed_many put (\<lambda>_. start) es = Some (Q', out)"
    using feed_many_total [of put "\<lambda>_. start" es] by auto
  have "Q' q = start \<and> stream_of q out = ms q" for q
    using feed_many_stream [OF run, of q] each [of q] by simp
  with run show ?thesis by (metis ext)
qed

end

section \<open>The code's fragments\<close>

text \<open>The partial messages of \<open>Up_queue\<close>.\<close>

definition up_put :: "byte list list \<Rightarrow> int \<times> byte list \<Rightarrow> (byte list list \<times> byte list list list) option" where
  "up_put mess f = (case f of (idx, elem) \<Rightarrow>
     if int (length mess) + 1 \<noteq> \<bar>idx\<bar> \<or> length mess \<ge> MAX_SCATTER_ELEMENTS then None
     else if idx < 0 then Some ([], [mess @ [elem]]) else Some (mess @ [elem], []))"

text \<open>The packets of a message: numbered from 1, the last one with the negated number.\<close>

definition packet_index :: "nat \<Rightarrow> nat \<Rightarrow> int" where
  "packet_index n i = (if Suc i < n then int (Suc i) else - int n)"

definition fragments :: "byte list list \<Rightarrow> (int \<times> byte list) list" where
  "fragments m = map (\<lambda>i. (packet_index (length m) i, m ! i)) [0..<length m]"

definition valid_message :: "byte list list \<Rightarrow> bool" where
  "valid_message m \<longleftrightarrow> m \<noteq> [] \<and> length m \<le> MAX_SCATTER_ELEMENTS"

lemma length_fragments [simp]: "length (fragments m) = length m"
  by (simp add: fragments_def)

lemma feed_fragments_prefix:
  assumes "k < length m" and "length m \<le> MAX_SCATTER_ELEMENTS"
  shows "feed up_put [] (take k (fragments m)) = Some (take k m, [])"
  using assms(1)
proof (induction k)
  case 0
  then show ?case by simp
next
  case (Suc k)
  then have "take (Suc k) (fragments m) = take k (fragments m) @ [(int (Suc k), m ! k)]"
    by (simp add: take_Suc_conv_app_nth fragments_def packet_index_def)
  with Suc assms(2) show ?case
    by (simp add: feed_append up_put_def take_Suc_conv_app_nth)
qed

interpretation fc: fragment_channel fragments up_put "[]" valid_message
proof unfold_locales
  fix m assume v: "valid_message m"
  define k where "k = length m - 1"
  have k: "k < length m" "Suc k = length m" using v by (auto simp: valid_message_def k_def)
  then have "fragments m = take k (fragments m) @ [(- int (length m), m ! k)]"
    using take_Suc_conv_app_nth [of k "fragments m"] by (simp add: fragments_def packet_index_def)
  also have "feed up_put [] \<dots> = Some ([], [take k m @ [m ! k]])"
    using feed_fragments_prefix [OF k(1)] v k by (simp add: feed_append up_put_def valid_message_def)
  also have "take k m @ [m ! k] = m" using k take_Suc_conv_app_nth [of k m] by simp
  finally show "feed up_put [] (fragments m) = Some ([], [m])" .
qed

section \<open>The down queue as fragments\<close>

text \<open>What the down queue still has to send: type, number and bytes of each packet, in order.\<close>

definition link_frags :: "down_link \<Rightarrow> (int32u \<times> int \<times> byte list) list" where
  "link_frags l = map (Pair (dl_type l)) (fragments (dl_mess l))"

definition queue_frags :: "down_queue \<Rightarrow> (int32u \<times> int \<times> byte list) list" where
  "queue_frags q = drop (dq_cur_element q) (concat (map link_frags (dq_mess q)))"

lemma length_link_frags [simp]: "length (link_frags l) = length (dl_mess l)"
  by (simp add: link_frags_def)

lemma take_element_frags:
  assumes "take_element q = Some (elem, ty, idx, q', fin)"
  shows "queue_frags q = (ty, idx, elem) # queue_frags q'"
proof -
  from assms obtain l ls where l: "dq_mess q = l # ls"
    by (auto simp: take_element_def split: list.splits)
  let ?c = "dq_cur_element q"
  have c: "?c < length (dl_mess l)" using assms l by (auto simp: take_element_def Let_def split: if_splits)
  have nth: "link_frags l ! ?c = (dl_type l, packet_index (length (dl_mess l)) ?c, dl_mess l ! ?c)"
    using c by (simp add: link_frags_def fragments_def)
  have "queue_frags q = link_frags l ! ?c # drop (Suc ?c) (link_frags l) @ concat (map link_frags ls)"
    using c by (simp add: queue_frags_def l Cons_nth_drop_Suc)
  also have "\<dots> = (ty, idx, elem) # queue_frags q'"
    using assms l c nth
    by (auto simp: take_element_def Let_def queue_frags_def packet_index_def split: if_splits)
  finally show ?thesis .
qed

end
