(* ===== verification/Delivery.thy ===== *)
theory Delivery
  imports Fragments Sample
begin

text \<open>
  What delivery in \<open>protocol.c\<close> does to the window of packets and to the sessions: a delivered
  packet is a fragment fed to the partial message of its sender, agreed delivery feeds the
  packets in the order of their sequence numbers up to the first safe packet, and the removal
  of stable packets feeds the rest.
\<close>

section \<open>One packet\<close>

text \<open>What the packet in a slot contributes, and to which queue.\<close>

definition frag_of :: "'a prot_state_scheme \<Rightarrow> int \<Rightarrow> int \<times> int \<times> byte list" where
  "frag_of s e = (up_index s e, ph_packet_index (entry_head s e),
     take (nat (ph_data_len (entry_head s e))) (pk_body (Packets s e)))"

definition deliver_frame :: "daemon \<Rightarrow> daemon \<Rightarrow> bool" where
  "deliver_frame s s' \<longleftrightarrow> s' = s\<lparr>Packets := Packets s', Up_queue := Up_queue s',
     upcalls := upcalls s', GlobalStatus := GlobalStatus s'\<rparr>"

lemma deliver_frame_refl [simp]: "deliver_frame s s"
  by (simp add: deliver_frame_def)

lemma deliver_frame_fields:
  assumes "deliver_frame s s'"
  shows "heads s' = heads s" "My_aru s' = My_aru s" "Aru s' = Aru s" "State s' = State s"
    "Last_delivered s' = Last_delivered s" "Last_discarded s' = Last_discarded s"
    "Highest_seq s' = Highest_seq s"
proof -
  have eq: "s' = s\<lparr>Packets := Packets s', Up_queue := Up_queue s',
     upcalls := upcalls s', GlobalStatus := GlobalStatus s'\<rparr>"
    using assms by (simp add: deliver_frame_def)
  show "heads s' = heads s" by (subst eq) simp
  show "My_aru s' = My_aru s" by (subst eq) simp
  show "Aru s' = Aru s" by (subst eq) simp
  show "State s' = State s" by (subst eq) simp
  show "Last_delivered s' = Last_delivered s" by (subst eq) simp
  show "Last_discarded s' = Last_discarded s" by (subst eq) simp
  show "Highest_seq s' = Highest_seq s" by (subst eq) simp
qed

text \<open>The messages that went up between two states, with the queue each was completed in.\<close>

definition handed_up :: "daemon \<Rightarrow> (int \<times> byte list list) list \<Rightarrow> daemon \<Rightarrow> bool" where
  "handed_up s out s' \<longleftrightarrow> upcalls s' = upcalls s @ map (\<lambda>m. Sess_deliver_message (snd m)) out"

lemma handed_up_trans: "handed_up s a s' \<Longrightarrow> handed_up s' b s'' \<Longrightarrow> handed_up s (a @ b) s''"
  by (simp add: handed_up_def)

definition delivered_slot :: "int \<Rightarrow> daemon \<Rightarrow> daemon \<Rightarrow> bool" where
  "delivered_slot e s s' \<longleftrightarrow> (\<exists>b. Packets s' = (Packets s)(e := (Packets s e)\<lparr>pk_body := b, pk_exist := 2\<rparr>))"

lemma up_mess_update:
  "up_mess (s\<lparr>Up_queue := (Up_queue s)(q := m)\<rparr>) = (up_mess s)(q := case m of None \<Rightarrow> [] | Some x \<Rightarrow> x)"
  by (auto simp: up_mess_def fun_eq_iff)

lemma up_mess_cong: "Up_queue s = Up_queue t \<Longrightarrow> up_mess s = up_mess t"
  by (auto simp: up_mess_def fun_eq_iff)

lemma Deliver_packet_feeds:
  assumes "Deliver_packet e c s = Some s'"
  shows "\<exists>out. feed_many up_put (up_mess s) [frag_of s e] = Some (up_mess s', out) \<and>
     handed_up s out s' \<and> delivered_slot e s s' \<and> deliver_frame s s'"
proof -
  let ?h = "entry_head s e" and ?q = "up_index s e"
  let ?el = "take (nat (ph_data_len ?h)) (pk_body (Packets s e))"
  let ?p = "if c then (Packets s e)\<lparr>pk_body := ?el, pk_exist := 2\<rparr> else (Packets s e)\<lparr>pk_exist := 2\<rparr>"
  let ?s1 = "upd_status (\<lambda>g. g\<lparr>st_packet_delivered := st_packet_delivered g + 1\<rparr>)
                (s\<lparr>Packets := (Packets s)(e := ?p)\<rparr>)"
  from assms have ok: "int (length (up_mess s ?q)) + 1 = \<bar>ph_packet_index ?h\<bar>"
      "length (up_mess s ?q) < MAX_SCATTER_ELEMENTS"
    and s': "s' = (if ph_packet_index ?h < 0
           then call_session (Sess_deliver_message (up_mess s ?q @ [?el]))
                  (?s1\<lparr>Up_queue := (Up_queue ?s1)(?q := None)\<rparr>)
           else ?s1\<lparr>Up_queue := (Up_queue ?s1)(?q := Some (up_mess s ?q @ [?el]))\<rparr>)"
    by (simp_all add: Deliver_packet_def Let_def bind_exit_if split: if_split_asm)
  have pk: "Packets s' = (Packets s)(e := ?p)"
    unfolding s' by (simp add: upd_status_def call_session_def)
  have slot: "delivered_slot e s s'"
    unfolding delivered_slot_def pk
    by (rule exI [of _ "if c then ?el else pk_body (Packets s e)"]) simp
  have frame: "deliver_frame s s'"
    unfolding deliver_frame_def s' by (simp add: upd_status_def call_session_def)
  show ?thesis
  proof (cases "ph_packet_index ?h < 0")
    case True
    have "up_mess s' = (up_mess s)(?q := [])"
      using True unfolding s' by (auto simp: upd_status_def call_session_def up_mess_def fun_eq_iff)
    moreover have "handed_up s [(?q, up_mess s ?q @ [?el])] s'"
      using True unfolding s' by (simp add: upd_status_def call_session_def handed_up_def)
    ultimately show ?thesis using True ok slot frame
      by (intro exI [of _ "[(?q, up_mess s ?q @ [?el])]"]) (simp add: frag_of_def up_put_def)
  next
    case False
    have "up_mess s' = (up_mess s)(?q := up_mess s ?q @ [?el])"
      using False unfolding s' by (auto simp: upd_status_def up_mess_def fun_eq_iff)
    moreover have "handed_up s [] s'"
      using False unfolding s' by (simp add: upd_status_def handed_up_def)
    ultimately show ?thesis using False ok slot frame
      by (intro exI [of _ "[]"]) (simp add: frag_of_def up_put_def)
  qed
qed

text \<open>It does not exit when the fragment is the next one of its message.\<close>

lemma Deliver_packet_total:
  assumes "up_put (up_mess s (up_index s e)) (snd (frag_of s e)) \<noteq> None"
    and "0 \<le> ph_data_len (entry_head s e)"
  shows "Deliver_packet e c s \<noteq> None"
  using assms by (auto simp: Deliver_packet_def frag_of_def up_put_def Let_def bind_exit_if split: if_splits)

section \<open>A run of deliveries\<close>

text \<open>
  \<open>delivers es s s'\<close>: the packets in the slots \<open>es\<close> were fed to the sessions in this order, and
  then marked; nothing else in the window changed.
\<close>

definition delivers :: "int list \<Rightarrow> daemon \<Rightarrow> daemon \<Rightarrow> bool" where
  "delivers es s s' \<longleftrightarrow> (\<exists>out. feed_many up_put (up_mess s) (map (frag_of s) es) = Some (up_mess s', out) \<and>
     handed_up s out s')"

definition same_entry :: "daemon \<Rightarrow> daemon \<Rightarrow> int \<Rightarrow> bool" where
  "same_entry s s' e \<longleftrightarrow> Packets s' e = Packets s e \<and> heads s' = heads s"

lemma frag_of_same_entry: "same_entry s s' e \<Longrightarrow> frag_of s' e = frag_of s e"
  by (simp add: same_entry_def frag_of_def up_index_def entry_head_def)

lemma delivers_Nil: "up_mess s' = up_mess s \<Longrightarrow> upcalls s' = upcalls s \<Longrightarrow> delivers [] s s'"
  by (simp add: delivers_def handed_up_def)

lemma delivers_append:
  assumes "delivers es s s1" and "delivers fs s1 s2" and "\<forall>f \<in> set fs. same_entry s s1 f"
  shows "delivers (es @ fs) s s2"
proof -
  from assms(3) have "map (frag_of s1) fs = map (frag_of s) fs"
    by (auto simp: frag_of_same_entry)
  with assms(1,2) show ?thesis
    by (auto simp: delivers_def feed_many_append dest: handed_up_trans)
qed

lemma delivers_cong:
  assumes "delivers es s s'" and "up_mess s'' = up_mess s'" and "upcalls s'' = upcalls s'"
  shows "delivers es s s''"
  using assms by (simp add: delivers_def handed_up_def)

lemma Deliver_packet_delivers:
  assumes "Deliver_packet e c s = Some s'"
  shows "delivers [e] s s'" "deliver_frame s s'" "pk_exist (Packets s' e) = 2"
    "pk_head (Packets s' e) = pk_head (Packets s e)"
    "\<And>e'. e' \<noteq> e \<Longrightarrow> same_entry s s' e'"
  using Deliver_packet_feeds [OF assms]
  by (auto simp: delivers_def delivered_slot_def same_entry_def dest: deliver_frame_fields(1))

section \<open>Agreed delivery\<close>

definition undelivered :: "daemon \<Rightarrow> int \<Rightarrow> bool" where
  "undelivered s i \<longleftrightarrow> pk_exist (Packets s (slot i)) = 1"

definition waits_stable :: "daemon \<Rightarrow> int \<Rightarrow> bool" where
  "waits_stable s i \<longleftrightarrow> undelivered s i \<and> Is_safe (ph_type (entry_head s (slot i)))"

text \<open>The numbers up to the first safe packet that is still undelivered.\<close>

definition agreed_span :: "daemon \<Rightarrow> int list \<Rightarrow> int list" where
  "agreed_span s js = takeWhile (\<lambda>i. \<not> waits_stable s i) js"

lemma same_entry_status:
  "same_entry s s' (slot i) \<Longrightarrow> undelivered s' i = undelivered s i \<and> waits_stable s' i = waits_stable s i"
  by (simp add: same_entry_def undelivered_def waits_stable_def entry_head_def)

lemma agreed_span_cong: "\<forall>i \<in> set js. same_entry s s' (slot i) \<Longrightarrow> agreed_span s' js = agreed_span s js"
  unfolding agreed_span_def by (rule takeWhile_cong) (auto dest: same_entry_status)

lemma filter_undelivered_cong:
  "\<forall>i \<in> set js. same_entry s s' (slot i) \<Longrightarrow> filter (undelivered s') js = filter (undelivered s) js"
  by (rule filter_cong) (auto dest: same_entry_status)

lemma set_agreed_span: "set (agreed_span s js) \<subseteq> set js"
  by (auto simp: agreed_span_def dest: set_takeWhileD)

text \<open>What \<open>Deliver_agreed_packets\<close> may change besides the packets.\<close>

definition agreed_frame :: "int \<Rightarrow> daemon \<Rightarrow> daemon \<Rightarrow> bool" where
  "agreed_frame n s s' \<longleftrightarrow> deliver_frame (s\<lparr>Last_delivered := Last_delivered s + n\<rparr>) s'"

lemma agreed_frame_trans:
  assumes "agreed_frame m s s'" and "agreed_frame n s' s''"
  shows "agreed_frame (m + n) s s''"
proof -
  let ?u = "\<lambda>x t. t\<lparr>Packets := Packets x, Up_queue := Up_queue x, upcalls := upcalls x, GlobalStatus := GlobalStatus x\<rparr>"
  from assms have 1: "s' = ?u s' (s\<lparr>Last_delivered := Last_delivered s + m\<rparr>)"
    and 2: "s'' = ?u s'' (s'\<lparr>Last_delivered := Last_delivered s' + n\<rparr>)"
    by (simp_all add: agreed_frame_def deliver_frame_def)
  from 1 have ld: "Last_delivered s' = Last_delivered s + m" by (rule ssubst) simp
  have "s'' = ?u s'' (s\<lparr>Last_delivered := Last_delivered s + (m + n)\<rparr>)"
    by (subst 2, subst (2) 1) (simp add: ld add.assoc)
  then show ?thesis by (simp add: agreed_frame_def deliver_frame_def)
qed

lemma agreed_frame_fields:
  assumes "agreed_frame n s s'"
  shows "heads s' = heads s" "My_aru s' = My_aru s" "Aru s' = Aru s" "State s' = State s"
    "Last_delivered s' = Last_delivered s + n" "Last_discarded s' = Last_discarded s"
    "Highest_seq s' = Highest_seq s"
  using deliver_frame_fields [OF assms [unfolded agreed_frame_def]] by simp_all

lemma agreed_step_cases:
  assumes "agreed_step i s = Some (s1, b)"
  obtains (wait) "waits_stable s i" "b" "s1 = s"
    | (deliver) "undelivered s i" "\<not> waits_stable s i" "\<not> b" "delivers [slot i] s s1"
        "agreed_frame 1 s s1" "pk_exist (Packets s1 (slot i)) = 2"
        "\<And>e. e \<noteq> slot i \<Longrightarrow> same_entry s s1 e"
    | (skip) "\<not> undelivered s i" "\<not> b" "s1 = s\<lparr>Last_delivered := Last_delivered s + 1\<rparr>"
        "pk_exist (Packets s (slot i)) = 2"
proof (cases "undelivered s i")
  case True
  show ?thesis
  proof (cases "waits_stable s i")
    case w: True
    with True assms show ?thesis
      by (intro wait) (auto simp: agreed_step_def undelivered_def waits_stable_def split: if_splits)
  next
    case w: False
    with True assms obtain t where t: "Deliver_packet (slot i) True s = Some t"
        "s1 = t\<lparr>Last_delivered := Last_delivered t + 1\<rparr>" "\<not> b"
      by (auto simp: agreed_step_def undelivered_def waits_stable_def bind_Some_iff)
    note d = Deliver_packet_delivers [OF t(1)]
    show ?thesis
    proof (rule deliver [OF True w t(3)])
      show "delivers [slot i] s s1"
        using d(1) by (rule delivers_cong) (simp_all add: t(2) up_mess_def fun_eq_iff)
      have eq: "t = s\<lparr>Packets := Packets t, Up_queue := Up_queue t, upcalls := upcalls t, GlobalStatus := GlobalStatus t\<rparr>"
        using d(2) by (simp add: deliver_frame_def)
      show "agreed_frame 1 s s1"
        using arg_cong [OF eq, of "\<lambda>x. x\<lparr>Last_delivered := Last_delivered s + 1\<rparr>"] deliver_frame_fields(5) [OF d(2)]
        by (simp add: agreed_frame_def deliver_frame_def t(2))
      show "pk_exist (Packets s1 (slot i)) = 2" using d(3) by (simp add: t(2))
      show "e \<noteq> slot i \<Longrightarrow> same_entry s s1 e" for e using d(5) by (simp add: t(2) same_entry_def)
    qed
  qed
next
  case False
  with assms show ?thesis
    by (intro skip) (auto simp: agreed_step_def undelivered_def split: if_splits)
qed

lemma agreed_run:
  assumes "forB js agreed_step s = Some s'" and "distinct (map slot js)"
  shows "delivers (map slot (filter (undelivered s) (agreed_span s js))) s s' \<and>
    agreed_frame (int (length (agreed_span s js))) s s' \<and>
    (\<forall>i \<in> set (agreed_span s js). pk_exist (Packets s' (slot i)) = 2) \<and>
    (\<forall>e. e \<notin> slot ` set (agreed_span s js) \<longrightarrow> same_entry s s' e)"
  using assms
proof (induction js arbitrary: s)
  case Nil
  then show ?case
    by (simp add: agreed_span_def delivers_Nil agreed_frame_def same_entry_def)
next
  case (Cons i js)
  from Cons.prems(1) obtain s1 b where st: "agreed_step i s = Some (s1, b)"
      "(if b then Some s1 else forB js agreed_step s1) = Some s'"
    by (auto simp: bind_Some_iff)
  from Cons.prems(2) have fresh: "slot i \<notin> slot ` set js" and dist: "distinct (map slot js)" by auto
  from st(1) show ?case
  proof (cases rule: agreed_step_cases)
    case wait
    with st(2) show ?thesis
      by (simp add: agreed_span_def delivers_Nil agreed_frame_def same_entry_def)
  next
    case deliver
    have others: "\<forall>j \<in> set js. same_entry s s1 (slot j)" using deliver(7) fresh by (auto simp: image_iff)
    have rest: "forB js agreed_step s1 = Some s'" using st(2) deliver(3) by simp
    note span = agreed_span_cong [OF others]
    have fl: "filter (undelivered s1) (agreed_span s js) = filter (undelivered s) (agreed_span s js)"
      by (rule filter_undelivered_cong) (use others set_agreed_span in blast)
    from Cons.IH [OF rest dist] have IH:
      "delivers (map slot (filter (undelivered s) (agreed_span s js))) s1 s'"
      "agreed_frame (int (length (agreed_span s js))) s1 s'"
      "\<forall>j \<in> set (agreed_span s js). pk_exist (Packets s' (slot j)) = 2"
      "\<forall>e. e \<notin> slot ` set (agreed_span s js) \<longrightarrow> same_entry s1 s' e"
      by (simp_all add: span fl)
    have cons: "agreed_span s (i # js) = i # agreed_span s js" using deliver(2) by (simp add: agreed_span_def)
    have ni: "slot i \<notin> slot ` set (agreed_span s js)" using fresh set_agreed_span by blast
    have "delivers ([slot i] @ map slot (filter (undelivered s) (agreed_span s js))) s s'"
      using deliver(4) IH(1) by (rule delivers_append) (use others set_agreed_span in fastforce)
    moreover have "agreed_frame (1 + int (length (agreed_span s js))) s s'"
      using deliver(5) IH(2) by (rule agreed_frame_trans)
    moreover have "pk_exist (Packets s' (slot i)) = 2"
      using IH(4) ni deliver(6) by (simp add: same_entry_def)
    moreover have "e \<notin> slot ` set (i # agreed_span s js) \<Longrightarrow> same_entry s s' e" for e
      using IH(4) deliver(7) by (auto simp: same_entry_def)
    ultimately show ?thesis using deliver(1) IH(3) by (simp add: cons)
  next
    case skip
    have others: "\<forall>j \<in> set js. same_entry s s1 (slot j)" by (simp add: skip(3) same_entry_def)
    have rest: "forB js agreed_step s1 = Some s'" using st(2) skip(2) by simp
    note span = agreed_span_cong [OF others]
    have fl: "filter (undelivered s1) (agreed_span s js) = filter (undelivered s) (agreed_span s js)"
      by (rule filter_undelivered_cong) (use others set_agreed_span in blast)
    from Cons.IH [OF rest dist] have IH:
      "delivers (map slot (filter (undelivered s) (agreed_span s js))) s1 s'"
      "agreed_frame (int (length (agreed_span s js))) s1 s'"
      "\<forall>j \<in> set (agreed_span s js). pk_exist (Packets s' (slot j)) = 2"
      "\<forall>e. e \<notin> slot ` set (agreed_span s js) \<longrightarrow> same_entry s1 s' e"
      by (simp_all add: span fl)
    have cons: "agreed_span s (i # js) = i # agreed_span s js"
      using skip(1) by (simp add: agreed_span_def waits_stable_def)
    have ni: "slot i \<notin> slot ` set (agreed_span s js)" using fresh set_agreed_span by blast
    have "delivers [] s s1" by (rule delivers_Nil) (simp_all add: skip(3) up_mess_def fun_eq_iff)
    then have "delivers ([] @ map slot (filter (undelivered s) (agreed_span s js))) s s'"
      using IH(1) by (rule delivers_append) (use others set_agreed_span in fastforce)
    moreover have "agreed_frame 1 s s1" by (simp add: agreed_frame_def skip(3))
    then have "agreed_frame (1 + int (length (agreed_span s js))) s s'"
      using IH(2) by (rule agreed_frame_trans)
    moreover have "pk_exist (Packets s' (slot i)) = 2"
      using IH(4) ni skip(4) by (simp add: same_entry_def skip(3))
    moreover have "e \<notin> slot ` set (i # agreed_span s js) \<Longrightarrow> same_entry s s' e" for e
      using IH(4) by (auto simp: same_entry_def skip(3))
    ultimately show ?thesis using skip(1) IH(3) by (simp add: cons)
  qed
qed

text \<open>Agreed delivery does not exit when every packet is the next fragment of its message.\<close>

lemma agreed_total:
  assumes "distinct (map slot js)"
    and "\<forall>i \<in> set js. undelivered s i \<and> \<not> waits_stable s i \<and> 0 \<le> ph_data_len (entry_head s (slot i))"
    and "feed_many up_put (up_mess s) (map (frag_of s) (map slot js)) \<noteq> None"
  shows "forB js agreed_step s \<noteq> None"
  using assms
proof (induction js arbitrary: s)
  case Nil
  then show ?case by simp
next
  case (Cons i js)
  let ?e = "slot i"
  have split: "feed_many up_put (up_mess s) ([frag_of s ?e] @ map (frag_of s) (map slot js)) \<noteq> None"
    using Cons.prems(3) by simp
  then have "up_put (up_mess s (up_index s ?e)) (snd (frag_of s ?e)) \<noteq> None"
    by (auto simp: feed_many_append bind_Some_iff frag_of_def)
  with Cons.prems(2) obtain t where t: "Deliver_packet ?e True s = Some t"
    using Deliver_packet_total [of s ?e True] by auto
  define s1 where "s1 = t\<lparr>Last_delivered := Last_delivered t + 1\<rparr>"
  have st: "agreed_step i s = Some (s1, False)"
    using t Cons.prems(2) by (simp add: agreed_step_def undelivered_def waits_stable_def s1_def)
  note d = Deliver_packet_delivers [OF t]
  have others: "\<forall>j \<in> set js. same_entry s s1 (slot j)"
  proof
    fix j assume "j \<in> set js"
    then have "slot j \<noteq> ?e" using Cons.prems(1) by (auto simp: image_iff)
    from d(5) [OF this] show "same_entry s s1 (slot j)" by (simp add: same_entry_def s1_def)
  qed
  have cong: "map (frag_of s1) (map slot js) = map (frag_of s) (map slot js)"
    using others by (auto simp: frag_of_same_entry)
  have more: "feed_many up_put (up_mess s1) (map (frag_of s) (map slot js)) \<noteq> None"
  proof -
    have "up_mess s1 = up_mess t" by (simp add: s1_def up_mess_def fun_eq_iff)
    moreover obtain out where "feed_many up_put (up_mess s) [frag_of s ?e] = Some (up_mess t, out)"
      using d(1) by (auto simp: delivers_def)
    ultimately show ?thesis
      using split unfolding feed_many_append by (cases "feed_many up_put (up_mess t) (map (frag_of s) (map slot js))") auto
  qed
  have "undelivered s1 j \<and> \<not> waits_stable s1 j \<and> 0 \<le> ph_data_len (entry_head s1 (slot j))"
    if "j \<in> set js" for j
    using that others Cons.prems(2) same_entry_status [of s s1 j] by (auto simp: same_entry_def entry_head_def)
  then have "forB js agreed_step s1 \<noteq> None"
    by (intro Cons.IH ballI) (use more Cons.prems(1) in \<open>simp_all only: cong distinct.simps list.map simp_thms\<close>)
  with st show ?case by simp
qed

lemma distinct_slots: "b - a < 8192 \<Longrightarrow> distinct (map slot [a..b])"
  by (auto simp: distinct_map inj_on_def intro!: slot_inj)

section \<open>Stable packets\<close>

lemma discard_step_cases:
  assumes "discard_step i s = Some s1"
  obtains (deliver) "undelivered s i" "delivers [slot i] s s1" "deliver_frame s s1"
      "pk_exist (Packets s1 (slot i)) = 0" "\<And>e. e \<noteq> slot i \<Longrightarrow> same_entry s s1 e"
    | (drop) "\<not> undelivered s i" "pk_exist (Packets s (slot i)) \<noteq> 0" "s1 = set_exist i 0 s"
proof (cases "undelivered s i")
  case True
  with assms obtain t where t: "Deliver_packet (slot i) False s = Some t" "s1 = set_exist i 0 t"
    by (auto simp: discard_step_def undelivered_def bind_Some_iff)
  note d = Deliver_packet_delivers [OF t(1)]
  show ?thesis
  proof (rule deliver [OF True])
    show "delivers [slot i] s s1"
      using d(1) by (rule delivers_cong) (simp_all add: t(2) set_exist_def up_mess_def fun_eq_iff)
    have eq: "t = s\<lparr>Packets := Packets t, Up_queue := Up_queue t, upcalls := upcalls t, GlobalStatus := GlobalStatus t\<rparr>"
      using d(2) by (simp add: deliver_frame_def)
    show "deliver_frame s s1"
      using arg_cong [OF eq, of "\<lambda>x. x\<lparr>Packets := (Packets t)(slot i := (Packets t (slot i))\<lparr>pk_exist := 0\<rparr>)\<rparr>"]
      by (simp add: deliver_frame_def t(2) set_exist_def)
  qed (use d(5) in \<open>auto simp: t(2) set_exist_def same_entry_def\<close>)
next
  case False
  with assms show ?thesis
    by (intro drop) (auto simp: discard_step_def undelivered_def split: if_splits)
qed

lemma deliver_frame_trans:
  assumes "deliver_frame s s'" and "deliver_frame s' s''"
  shows "deliver_frame s s''"
proof -
  let ?u = "\<lambda>x t. t\<lparr>Packets := Packets x, Up_queue := Up_queue x, upcalls := upcalls x, GlobalStatus := GlobalStatus x\<rparr>"
  from assms have 1: "s' = ?u s' s" and 2: "s'' = ?u s'' s'" by (simp_all add: deliver_frame_def)
  have "s'' = ?u s'' (?u s' s)" using 2 arg_cong [OF 1, of "?u s''"] by (rule trans)
  then show ?thesis by (simp add: deliver_frame_def)
qed

lemma discard_run:
  assumes "forM js discard_step s = Some s'" and "distinct (map slot js)"
  shows "delivers (map slot (filter (undelivered s) js)) s s' \<and> deliver_frame s s' \<and>
    (\<forall>i \<in> set js. pk_exist (Packets s' (slot i)) = 0 \<and> pk_exist (Packets s (slot i)) \<noteq> 0) \<and>
    (\<forall>e. e \<notin> slot ` set js \<longrightarrow> same_entry s s' e)"
  using assms
proof (induction js arbitrary: s)
  case Nil
  then show ?case by (simp add: delivers_Nil same_entry_def)
next
  case (Cons i js)
  from Cons.prems(1) obtain s1 where st: "discard_step i s = Some s1" and rest: "forM js discard_step s1 = Some s'"
    by (auto simp: bind_Some_iff)
  from Cons.prems(2) have fresh: "slot i \<notin> slot ` set js" and dist: "distinct (map slot js)" by auto
  define ds where "ds = (if undelivered s i then [slot i] else [])"
  have step: "delivers ds s s1 \<and> deliver_frame s s1 \<and> pk_exist (Packets s1 (slot i)) = 0 \<and>
      pk_exist (Packets s (slot i)) \<noteq> 0 \<and> (\<forall>e. e \<noteq> slot i \<longrightarrow> same_entry s s1 e)"
    using st
  proof (cases rule: discard_step_cases)
    case deliver
    then show ?thesis by (auto simp: ds_def undelivered_def)
  next
    case drop
    then show ?thesis
      by (auto simp: ds_def set_exist_def same_entry_def deliver_frame_def delivers_Nil up_mess_def fun_eq_iff)
  qed
  then have others: "\<forall>j \<in> set js. same_entry s s1 (slot j)" using fresh by (auto simp: image_iff)
  note fl = filter_undelivered_cong [OF others]
  from Cons.IH [OF rest dist] have IH:
    "delivers (map slot (filter (undelivered s) js)) s1 s'" "deliver_frame s1 s'"
    "\<forall>j \<in> set js. pk_exist (Packets s' (slot j)) = 0 \<and> pk_exist (Packets s1 (slot j)) \<noteq> 0"
    "\<forall>e. e \<notin> slot ` set js \<longrightarrow> same_entry s1 s' e"
    by (simp_all add: fl)
  have "delivers (ds @ map slot (filter (undelivered s) js)) s s'"
    using step IH(1) by (intro delivers_append) (use others in auto)
  moreover have "deliver_frame s s'" using step IH(2) by (blast intro: deliver_frame_trans)
  moreover have "pk_exist (Packets s' (slot i)) = 0"
    using IH(4) fresh step by (simp add: same_entry_def)
  moreover have "\<forall>j \<in> set js. pk_exist (Packets s (slot j)) \<noteq> 0"
    using IH(3) others by (simp add: same_entry_def)
  moreover have "e \<notin> slot ` set (i # js) \<Longrightarrow> same_entry s s' e" for e
    using IH(4) step by (auto simp: same_entry_def)
  ultimately show ?case using IH(3) step by (cases "undelivered s i") (simp_all add: ds_def)
qed

section \<open>What the sessions get\<close>

text \<open>The messages the sessions have got so far.\<close>

fun message_of :: "upcall \<Rightarrow> byte list list list" where
  "message_of (Sess_deliver_message m) = [m]"
| "message_of u = []"

definition messages_up :: "daemon \<Rightarrow> byte list list list" where
  "messages_up s = concat (map message_of (upcalls s))"

text \<open>A window with an agreed message of one packet and a safe one behind it.\<close>

definition window_sample :: daemon where
  "window_sample = sample\<lparr>My_aru := 2, Highest_seq := 2, Aru := 2,
     heads := (\<lambda>r. if r = 0 then no_header\<lparr>ph_type := AGREED_TYPE, ph_seq := 1, ph_packet_index := - 1, ph_data_len := 2\<rparr>
                    else no_header\<lparr>ph_type := SAFE_TYPE, ph_seq := 2, ph_packet_index := - 1, ph_data_len := 1\<rparr>),
     next_head := 2,
     Packets := (\<lambda>e. if e = 1 then \<lparr>pk_head = 0, pk_body = [5, 6], pk_exist = 1, pk_proc_index = 1\<rparr>
                      else if e = 2 then \<lparr>pk_head = 1, pk_body = [7], pk_exist = 1, pk_proc_index = 2\<rparr>
                      else \<lparr>pk_head = 0, pk_body = [], pk_exist = 0, pk_proc_index = 0\<rparr>)\<rparr>"

text \<open>
  C5: agreed delivery hands the packets above \<open>Last_delivered\<close> to the sessions in the order of
  their sequence numbers, without a gap, up to \<open>My_aru\<close> or the first undelivered safe packet:
  the fragments go to the partial messages of their senders and every completed message goes
  up.  The rest of the window is not touched.
\<close>

theorem Deliver_agreed_in_order:
  assumes "Deliver_agreed_packets s = Some s'" and "State s \<noteq> EVS"
    and "My_aru s - Last_delivered s \<le> 8192"
  shows "let span = agreed_span s [Last_delivered s + 1..My_aru s] in
    delivers (map slot (filter (undelivered s) span)) s s' \<and>
    Last_delivered s' = Last_delivered s + int (length span) \<and>
    (\<forall>i \<in> set span. pk_exist (pkt s' i) = 2) \<and>
    (\<forall>e. e \<notin> slot ` set span \<longrightarrow> same_entry s s' e)"
proof -
  let ?js = "[Last_delivered s + 1..My_aru s]"
  have "forB ?js agreed_step s = Some s'"
    using assms(1,2) by (auto simp: Deliver_agreed_packets_def split: if_splits)
  moreover have "distinct (map slot ?js)" using assms(3) by (intro distinct_slots) simp
  ultimately show ?thesis
    using agreed_run [of ?js s s'] agreed_frame_fields(5) by (auto simp: Let_def pkt_def)
qed

theorem Deliver_agreed_in_order_witness:
  "\<exists>s'. Deliver_agreed_packets window_sample = Some s' \<and> messages_up s' = [[[5, 6]]] \<and>
    (let span = agreed_span window_sample [Last_delivered window_sample + 1..My_aru window_sample] in
      delivers (map slot (filter (undelivered window_sample) span)) window_sample s' \<and>
      Last_delivered s' = Last_delivered window_sample + int (length span) \<and>
      (\<forall>i \<in> set span. pk_exist (pkt s' i) = 2) \<and>
      (\<forall>e. e \<notin> slot ` set span \<longrightarrow> same_entry window_sample s' e))"
proof -
  have "map_option messages_up (Deliver_agreed_packets window_sample) = Some [[[5, 6]]]"
    by code_simp
  then obtain s' where s': "Deliver_agreed_packets window_sample = Some s'"
      "messages_up s' = [[[5, 6]]]" by auto
  have "State window_sample \<noteq> EVS" "My_aru window_sample - Last_delivered window_sample \<le> 8192"
    by (simp_all add: window_sample_def)
  from Deliver_agreed_in_order [OF s'(1) this] s' show ?thesis by (intro exI [of _ s'] conjI)
qed

text \<open>
  C6: when packets become stable, the ones not yet delivered, the safe packets among them, are
  handed up in the order of their sequence numbers, and the whole range is freed; the range
  had no hole.
\<close>

theorem Discard_stable_delivers:
  assumes "Discard_stable s = Some s'" and "Aru s - Last_discarded s \<le> 8192"
  shows "let range = [Last_discarded s + 1..Aru s] in
    delivers (map slot (filter (undelivered s) range)) s s' \<and>
    (\<forall>i \<in> set range. pk_exist (pkt s i) \<noteq> 0 \<and> pk_exist (pkt s' i) = 0) \<and>
    (\<forall>e. e \<notin> slot ` set range \<longrightarrow> same_entry s s' e) \<and>
    Last_discarded s' = Aru s \<and> Last_delivered s' = max (Last_delivered s) (Aru s)"
proof -
  let ?js = "[Last_discarded s + 1..Aru s]"
  from assms(1) obtain t where t: "forM ?js discard_step s = Some t"
    and s': "s' = (let t2 = t\<lparr>Last_discarded := Aru t\<rparr> in
       if Last_delivered t2 < Last_discarded t2 then t2\<lparr>Last_delivered := Last_discarded t2\<rparr> else t2)"
    by (auto simp: Discard_stable_def bind_Some_iff Let_def)
  have "distinct (map slot ?js)" using assms(2) by (intro distinct_slots) simp
  note run = discard_run [OF t this]
  then have fields: "Aru t = Aru s" "Last_delivered t = Last_delivered s"
    by (simp_all add: deliver_frame_fields)
  have "delivers (map slot (filter (undelivered s) ?js)) s s'"
    using run by (auto intro!: delivers_cong [of _ s t] simp: s' Let_def up_mess_def fun_eq_iff)
  with run fields show ?thesis
    by (auto simp: s' Let_def pkt_def same_entry_def)
qed

theorem Discard_stable_delivers_witness:
  "\<exists>s'. Discard_stable window_sample = Some s' \<and>
    messages_up s' = [[[5, 6]], [[7]]] \<and>
    (let range = [Last_discarded window_sample + 1..Aru window_sample] in
      delivers (map slot (filter (undelivered window_sample) range)) window_sample s' \<and>
      (\<forall>i \<in> set range. pk_exist (pkt window_sample i) \<noteq> 0 \<and> pk_exist (pkt s' i) = 0) \<and>
      (\<forall>e. e \<notin> slot ` set range \<longrightarrow> same_entry window_sample s' e) \<and>
      Last_discarded s' = Aru window_sample \<and>
      Last_delivered s' = max (Last_delivered window_sample) (Aru window_sample))"
proof -
  have "map_option messages_up (Discard_stable window_sample) =
      Some [[[5, 6]], [[7]]]"
    by code_simp
  then obtain s' where s': "Discard_stable window_sample = Some s'"
      "messages_up s' = [[[5, 6]], [[7]]]" by auto
  have "Aru window_sample - Last_discarded window_sample \<le> 8192" by (simp add: window_sample_def)
  from Discard_stable_delivers [OF s'(1) this] s' show ?thesis by (intro exI [of _ s'] conjI)
qed

section \<open>Several senders\<close>

lemma deliver_all:
  assumes "distinct es" and "\<forall>e \<in> set es. 0 \<le> ph_data_len (entry_head s e)"
    and "feed_many up_put (up_mess s) (map (frag_of s) es) \<noteq> None"
  shows "\<exists>s'. forM es (\<lambda>e. Deliver_packet e c) s = Some s' \<and> delivers es s s'"
  using assms
proof (induction es arbitrary: s)
  case Nil
  then show ?case by (simp add: delivers_Nil)
next
  case (Cons e es)
  have split: "feed_many up_put (up_mess s) ([frag_of s e] @ map (frag_of s) es) \<noteq> None"
    using Cons.prems(3) by simp
  then have "up_put (up_mess s (up_index s e)) (snd (frag_of s e)) \<noteq> None"
    by (auto simp: feed_many_append bind_Some_iff frag_of_def)
  with Cons.prems(2) obtain t where t: "Deliver_packet e c s = Some t"
    using Deliver_packet_total [of s e c] by auto
  note d = Deliver_packet_delivers [OF t]
  have others: "\<forall>f \<in> set es. same_entry s t f" using d(5) Cons.prems(1) by fastforce
  then have cong: "map (frag_of t) es = map (frag_of s) es" by (auto simp: frag_of_same_entry)
  obtain out where "feed_many up_put (up_mess s) [frag_of s e] = Some (up_mess t, out)"
    using d(1) by (auto simp: delivers_def)
  then have "feed_many up_put (up_mess t) (map (frag_of t) es) \<noteq> None"
    using split unfolding feed_many_append cong
    by (cases "feed_many up_put (up_mess t) (map (frag_of s) es)") auto
  moreover have "\<forall>f \<in> set es. 0 \<le> ph_data_len (entry_head t f)"
    using others Cons.prems(2) by (simp add: same_entry_def entry_head_def)
  moreover have "distinct es" using Cons.prems(1) by simp
  ultimately obtain s' where s': "forM es (\<lambda>e. Deliver_packet e c) t = Some s'" "delivers es t s'"
    using Cons.IH [of t] by blast
  have "delivers ([e] @ es) s s'" using d(1) s'(2) others by (rule delivers_append)
  with t s'(1) show ?case by auto
qed

text \<open>
  C4: packets of several senders may arrive in any mixture: when, for every sender, the packets
  are the fragments of its messages in order, delivering them gives the sessions, for every
  sender, exactly these messages in order, and leaves no partial message behind.
\<close>

theorem Mixed_senders_delivered:
  assumes "distinct es" and "\<forall>e \<in> set es. 0 \<le> ph_data_len (entry_head s e)"
    and "\<forall>q. up_mess s q = []"
    and "\<forall>q. stream_of q (map (frag_of s) es) = concat (map fragments (ms q))"
    and "\<forall>q. \<forall>m \<in> set (ms q). valid_message m"
  shows "\<exists>s' out. forM es (\<lambda>e. Deliver_packet e c) s = Some s' \<and> handed_up s out s' \<and>
    (\<forall>q. stream_of q out = ms q \<and> up_mess s' q = [])"
proof -
  have start: "up_mess s = (\<lambda>_. [])" using assms(3) by auto
  obtain out where out: "feed_many up_put (\<lambda>_. []) (map (frag_of s) es) = Some (\<lambda>_. [], out)"
      "\<forall>q. stream_of q out = ms q"
    using fc.interleaved [of "map (frag_of s) es" ms] assms(4,5) by blast
  with deliver_all [OF assms(1,2), of c] start obtain s' where
    "forM es (\<lambda>e. Deliver_packet e c) s = Some s'" "delivers es s s'" by auto
  from this(2) out(1) have eq: "up_mess s' = (\<lambda>_. [])" "handed_up s out s'" by (auto simp: delivers_def start)
  from eq(1) have up: "handed_up s out s'" "\<forall>q. up_mess s' q = []" using eq(2) by simp_all
  show ?thesis
    by (rule exI [of _ s'], rule exI [of _ out])
      (use \<open>forM es (\<lambda>e. Deliver_packet e c) s = Some s'\<close> up out(2) in simp)
qed

text \<open>Two senders: a message of two packets around a message of one.\<close>

definition mixed_sample :: daemon where
  "mixed_sample = sample\<lparr>
     heads := (\<lambda>r. no_header\<lparr>ph_type := AGREED_TYPE, ph_data_len := 1,
        ph_packet_index := if r = 0 then 1 else if r = 1 then - 1 else - 2\<rparr>),
     Packets := (\<lambda>e. \<lparr>pk_head = nat (e - 1), pk_body = [word_of_int e], pk_exist = 1,
        pk_proc_index = if e = 2 then 1 else 0\<rparr>)\<rparr>"

theorem Mixed_senders_delivered_witness:
  "\<exists>s' out. forM [1, 2, 3] (\<lambda>e. Deliver_packet e False) mixed_sample = Some s' \<and> handed_up mixed_sample out s' \<and>
    (\<forall>q. stream_of q out = (if q = 0 then [[[1], [3]]] else if q = 1 then [[[2]]] else []) \<and> up_mess s' q = [])"
proof (rule Mixed_senders_delivered)
  let ?ms = "\<lambda>q :: int. if q = 0 then [[[1], [3]]] else if q = 1 then [[[2]]] else [] :: byte list list list"
  have h: "\<not> Is_reliable AGREED_TYPE" by (simp add: Is_reliable_def AGREED_TYPE_def RELIABLE_TYPE_def)
  show "\<forall>q. stream_of q (map (frag_of mixed_sample) [1, 2, 3]) = concat (map fragments (?ms q))"
    by (auto simp: mixed_sample_def frag_of_def up_index_def entry_head_def h fragments_def packet_index_def
        upt_rec)
  show "\<forall>q. \<forall>m \<in> set (?ms q). valid_message m" by (auto simp: valid_message_def MAX_SCATTER_ELEMENTS_def)
qed (simp_all add: mixed_sample_def entry_head_def up_mess_def)

end
