(* ===== verification/Sending.thy ===== *)
theory Sending
  imports Delivery
begin

text \<open>
  What the holder of the token sends: \<open>Send_new_packets\<close> numbers the fragments of its down queue
  in order, keeps each in the window of packets, and the delivery of these packets gives back
  the messages of the queue.
\<close>

section \<open>A sent packet in the window\<close>

text \<open>The window holds a fragment of this daemon under a sequence number.\<close>

definition holds :: "daemon \<Rightarrow> int \<Rightarrow> int32u \<times> int \<times> byte list \<Rightarrow> bool" where
  "holds s q f \<longleftrightarrow> (case f of (ty, i, elem) \<Rightarrow>
     pk_exist (pkt s q) = 1 \<and> pk_proc_index (pkt s q) = Prot_My_index s \<and> pk_body (pkt s q) = elem \<and>
     pk_head (pkt s q) < next_head s \<and>
     ph_seq (pkt_head s q) = q \<and> service (ph_type (pkt_head s q)) = service ty \<and>
     ph_proc_id (pkt_head s q) = p_id (Prot_My s) \<and> ph_memb_id (pkt_head s q) = Membership_id s \<and>
     ph_packet_index (pkt_head s q) = i \<and> ph_data_len (pkt_head s q) = int (length elem))"

text \<open>What sending leaves alone; of the calls to the sessions only unblocking is made.\<close>

definition sending :: "daemon \<Rightarrow> daemon \<Rightarrow> bool" where
  "sending s s' \<longleftrightarrow> Prot_My s' = Prot_My s \<and> Prot_My_index s' = Prot_My_index s \<and>
     Membership_id s' = Membership_id s \<and> Up_queue s' = Up_queue s \<and> Aru s' = Aru s \<and>
     My_aru s' = My_aru s \<and> Last_delivered s' = Last_delivered s \<and> Last_discarded s' = Last_discarded s \<and>
     State s' = State s \<and>
     next_head s \<le> next_head s' \<and> (\<forall>r < next_head s. same_packet (heads s r) (heads s' r)) \<and>
     (\<forall>e. pk_exist (Packets s e) \<noteq> 0 \<longrightarrow> Packets s' e = Packets s e) \<and>
     (\<exists>k. upcalls s' = upcalls s @ replicate k Sess_unblock_users_level)"

lemma sending_refl [simp]: "sending s s"
  unfolding sending_def by (intro conjI exI [of _ 0]) simp_all

lemma sending_trans:
  assumes "sending s s'" and "sending s' s''"
  shows "sending s s''"
proof -
  from assms obtain j k where "upcalls s' = upcalls s @ replicate j Sess_unblock_users_level"
    "upcalls s'' = upcalls s' @ replicate k Sess_unblock_users_level"
    unfolding sending_def by blast
  then have "upcalls s'' = upcalls s @ replicate (j + k) Sess_unblock_users_level"
    by (simp add: replicate_add)
  moreover have "same_packet (heads s r) (heads s'' r)" if "r < next_head s" for r
    using assms that unfolding sending_def by (meson order_less_le_trans same_packet_trans)
  ultimately show ?thesis using assms unfolding sending_def by fastforce
qed

lemma holds_sending:
  assumes "holds s q f" and "sending s s'"
  shows "holds s' q f"
proof -
  obtain ty i elem where f: "f = (ty, i, elem)" by (metis prod_cases3)
  from assms have "pkt s' q = pkt s q" by (simp add: holds_def f sending_def pkt_def)
  moreover from assms have "same_packet (pkt_head s q) (pkt_head s' q)"
    using \<open>pkt s' q = pkt s q\<close> by (simp add: holds_def f sending_def pkt_head_def)
  ultimately show ?thesis using assms
    by (auto simp: holds_def f sending_def same_packet_def)
qed

lemma net_frame_daemon:
  assumes "net_frame s (s' :: daemon)"
  shows "Prot_My_index s' = Prot_My_index s" "Membership_id s' = Membership_id s"
    "State s' = State s" "upcalls s' = upcalls s" "same_packet (heads s r) (heads s' r)"
proof -
  have eq: "s' = s\<lparr>sent := sent s', sendmsg_calls := sendmsg_calls s', heads := heads s',
    Queue_scat := Queue_scat s', Queued_bytes := Queued_bytes s'\<rparr>"
    using assms by (simp add: net_frame_def)
  show "Prot_My_index s' = Prot_My_index s" by (subst eq) simp
  show "Membership_id s' = Membership_id s" by (subst eq) simp
  show "State s' = State s" by (subst eq) simp
  show "upcalls s' = upcalls s" by (subst eq) simp
  show "same_packet (heads s r) (heads s' r)" using assms by (simp add: net_frame_def)
qed

lemma sending_net_frame: "net_frame s s' \<Longrightarrow> sending s s'"
  unfolding sending_def
  by (intro conjI exI [of _ 0]) (simp_all add: net_frame_daemon net_frame_prot)

section \<open>One packet\<close>

text \<open>The bounds of the C types: a scatter has at most 100 elements, each fits in a packet.\<close>

definition sendable :: "down_queue \<Rightarrow> bool" where
  "sendable q \<longleftrightarrow> (\<forall>l \<in> set (dq_mess q). length (dl_mess l) \<le> MAX_SCATTER_ELEMENTS \<and>
     (\<forall>elem \<in> set (dl_mess l). int (length elem) \<le> MAX_PACKET_SIZE - sizeof_packet_header))"

lemma sendable_frag:
  assumes "sendable q" and "(ty, i, elem) \<in> set (queue_frags q)"
  shows "to_int16 i = i" "to_int16 (int (length elem)) = int (length elem)"
proof -
  from assms(2) obtain l k where l: "l \<in> set (dq_mess q)" "k < length (dl_mess l)"
      "i = packet_index (length (dl_mess l)) k" "elem = dl_mess l ! k"
    by (auto simp: queue_frags_def link_frags_def fragments_def dest!: in_set_dropD)
  with assms(1) have "length (dl_mess l) \<le> 100" "int (length elem) \<le> 1436"
    by (auto simp: sendable_def MAX_SCATTER_ELEMENTS_def MAX_PACKET_SIZE_def sizeof_packet_header_def)
  with l show "to_int16 i = i" "to_int16 (int (length elem)) = int (length elem)"
    by (auto simp: packet_index_def intro!: to_int16_id)
qed

lemma sendable_step: "take_element q = Some (elem, ty, i, q', fin) \<Longrightarrow> sendable q \<Longrightarrow> sendable q'"
  by (auto simp: take_element_def sendable_def Let_def split: list.splits if_splits)

lemma sending_take:
  assumes "take_from_down s = Some (elem, ty, i, s1)"
  shows "queue_frags (down s) = (ty, i, elem) # queue_frags (down s1)"
    "sendable (down s) \<Longrightarrow> sendable (down s1)" "sending s s1" "Packets s1 = Packets s"
    "next_head s1 = next_head s" "heads s1 = heads s" "Highest_seq s1 = Highest_seq s"
proof -
  from assms obtain q' fin where t: "take_element (down s) = Some (elem, ty, i, q', fin)"
    and s1: "s1 = (if fin \<and> length (dq_mess q') < WATER_MARK
       then call_session Sess_unblock_users_level (set_down q' s) else set_down q' s)"
    by (rule take_from_down_eq)
  have d: "down s1 = q'" by (simp add: s1)
  show "queue_frags (down s) = (ty, i, elem) # queue_frags (down s1)"
    using take_element_frags [OF t] d by simp
  show "sendable (down s) \<Longrightarrow> sendable (down s1)" using sendable_step [OF t] d by simp
  show "sending s s1"
    unfolding sending_def s1
    by (intro conjI exI [of _ "if fin \<and> length (dq_mess q') < WATER_MARK then 1 else 0"])
      (simp_all add: call_session_def set_down_def)
  show "Packets s1 = Packets s" "next_head s1 = next_head s" "heads s1 = heads s" "Highest_seq s1 = Highest_seq s"
    by (simp_all add: s1 call_session_def set_down_def)
qed

lemma Send_new_step_spec:
  assumes "Send_new_step s = Some (b, s')" and "sendable (down s)"
  obtains f where "queue_frags (down s) = f # queue_frags (down s')" "sendable (down s')"
    "Highest_seq s' = Highest_seq s + 1" "holds s' (Highest_seq s') f" "sending s s'"
proof -
  from assms(1) obtain elem ty i s1 where t: "take_from_down s = Some (elem, ty, i, s1)"
    by (auto simp: Send_new_step_def bind_Some_iff)
  note tk = sending_take [OF t]
  let ?h = "new_header ty i (length elem) s1" and ?r = "next_head s1"
  define s2 where "s2 = snd (store_head ?h (s1\<lparr>Highest_seq := Highest_seq s1 + 1,
              Highest_fifo_seq := Highest_fifo_seq s1 + 1\<rparr>))"
  obtain ret s3 where q: "Net_queue_bcast ?r (take (nat (ph_data_len ?h)) elem) s2 = (ret, s3)"
    by (metis surj_pair)
  from assms(1) t q have ins: "insert_own (ph_seq ?h) ?r elem s3 = Some s'"
    by (auto simp: Send_new_step_def bind_Some_iff store_head_def s2_def Let_def)
  let ?p = "\<lparr>pk_head = ?r, pk_body = elem, pk_exist = 1, pk_proc_index = Prot_My_index s3\<rparr>"
  have s': "s' = set_pkt (slot (ph_seq ?h)) ?p s3" and free: "pk_exist (pkt s3 (ph_seq ?h)) = 0"
    using ins by (auto simp: insert_own_def bind_Some_iff)
  note nf = net_frame_Net_queue_bcast [OF q]
  have "(ty, i, elem) \<in> set (queue_frags (down s))" using tk(1) by simp
  note rng = sendable_frag [OF assms(2) this]
  have h: "ph_seq ?h = Highest_seq s + 1" "ph_type ?h = ty" "ph_packet_index ?h = i"
      "ph_data_len ?h = int (length elem)" "ph_proc_id ?h = p_id (Prot_My s1)" "ph_memb_id ?h = Membership_id s1"
    using rng tk(7) by (simp_all add: new_header_def)
  have s2f: "heads s2 = (heads s1)(?r := ?h)" "next_head s2 = Suc ?r" "Packets s2 = Packets s1"
      "Highest_seq s2 = Highest_seq s1 + 1" "down s2 = down s1"
    by (simp_all add: s2_def store_head_def down_def)
  have s12: "sending s1 s2"
    unfolding sending_def by (intro conjI exI [of _ 0]) (simp_all add: s2_def store_head_def)
  note s23 = sending_net_frame [OF nf]
  have s34: "sending s3 s'"
    unfolding sending_def s' using free
    by (intro conjI exI [of _ 0]) (auto simp: set_pkt_def pkt_def)
  from tk(3) s12 s23 s34 have all: "sending s s'" by (blast intro: sending_trans)
  have "same_packet ?h (heads s3 ?r)" using net_frame_daemon(5) [OF nf, of ?r] by (simp add: s2f)
  then have hd: "service (ph_type (heads s3 ?r)) = service ty" "ph_proc_id (heads s3 ?r) = p_id (Prot_My s1)"
      "ph_memb_id (heads s3 ?r) = Membership_id s1" "ph_seq (heads s3 ?r) = Highest_seq s + 1"
      "ph_packet_index (heads s3 ?r) = i" "ph_data_len (heads s3 ?r) = int (length elem)"
    by (simp_all only: same_packet_def h)
  have s3f: "Prot_My s3 = Prot_My s1" "Prot_My_index s3 = Prot_My_index s1" "Membership_id s3 = Membership_id s1"
      "next_head s3 = Suc ?r"
    using sending_trans [OF s12 s23] net_frame_prot(14) [OF nf] s2f(2) by (simp_all add: sending_def)
  have "holds s' (ph_seq ?h) (ty, i, elem)"
    by (simp add: holds_def s' set_pkt_def pkt_def pkt_head_def hd s3f h(1))
  moreover have "Highest_seq s' = Highest_seq s + 1"
    using nf tk(7) by (simp add: s' set_pkt_def net_frame_prot s2f)
  moreover have "down s' = down s1" using net_frame_prot(13) [OF nf] by (simp add: s' set_pkt_def down_def s2_def store_head_def)
  ultimately show ?thesis using that [of "(ty, i, elem)"] tk(1,2) assms(2) all h(1) by simp
qed

section \<open>The loop\<close>

lemma Send_new_loop_spec:
  assumes "Send_new_loop n k s = Some (k', s')" and "sendable (down s)"
  shows "\<exists>fs. queue_frags (down s) = fs @ queue_frags (down s') \<and>
    Highest_seq s' = Highest_seq s + int (length fs) \<and> sending s s' \<and>
    (\<forall>j < length fs. holds s' (Highest_seq s + 1 + int j) (fs ! j))"
  using assms
proof (induction n k s rule: Send_new_loop.induct)
  case (1 n k s)
  show ?case
  proof (cases "k < n \<and> dq_mess (down s) \<noteq> []")
    case False
    with 1(2) have "s' = s" by (auto simp: Send_new_loop.simps [of n k s])
    then show ?thesis by (intro exI [of _ "[]"]) simp
  next
    case True
    with 1(2) obtain b s1 where st: "Send_new_step s = Some (b, s1)"
      and rest: "Send_new_loop n (if b then k + 1 else k) s1 = Some (k', s')"
      by (auto simp: Send_new_loop.simps [of n k s] split: option.splits)
    from Send_new_step_spec [OF st 1(3)] obtain f where
      f: "queue_frags (down s) = f # queue_frags (down s1)" "sendable (down s1)"
        "Highest_seq s1 = Highest_seq s + 1" "holds s1 (Highest_seq s1) f" "sending s s1" .
    from 1(1) [OF True st _ rest f(2)] obtain fs where
      fs: "queue_frags (down s1) = fs @ queue_frags (down s')"
        "Highest_seq s' = Highest_seq s1 + int (length fs)" "sending s1 s'"
        "\<forall>j < length fs. holds s' (Highest_seq s1 + 1 + int j) (fs ! j)"
      by auto
    have "\<forall>j < length (f # fs). holds s' (Highest_seq s + 1 + int j) ((f # fs) ! j)"
    proof (intro allI impI)
      fix j assume j: "j < length (f # fs)"
      show "holds s' (Highest_seq s + 1 + int j) ((f # fs) ! j)"
      proof (cases j)
        case 0
        with holds_sending [OF f(4) fs(3)] f(3) show ?thesis by simp
      next
        case (Suc i)
        with fs(4) j f(3) show ?thesis by (simp add: add.assoc)
      qed
    qed
    moreover have "sending s s'" using f(5) fs(3) by (rule sending_trans)
    ultimately show ?thesis using f fs by (intro exI [of _ "f # fs"]) simp
  qed
qed

text \<open>
  The packets \<open>Send_new_packets\<close> takes off the down queue are the next fragments of the
  queue in order; they get the sequence numbers after \<open>Highest_seq\<close> without a gap, and each is
  in the window under its number, with its bytes, its position in its message and the header
  of this daemon.  Packets that were in the window before stay there, and the sessions are at
  most told to unblock their users.
\<close>

theorem Send_new_packets_numbers:
  assumes "Send_new_packets n s = Some (num_sent, s')" and "sendable (down s)"
  shows "\<exists>fs. queue_frags (down s) = fs @ queue_frags (down s') \<and>
    Highest_seq s' = Highest_seq s + int (length fs) \<and> sending s s' \<and>
    (\<forall>j < length fs. holds s' (Highest_seq s + 1 + int j) (fs ! j))"
proof -
  from assms(1) obtain k s1 where l1: "Send_new_loop n 0 s = Some (k, s1)"
    by (auto simp: Send_new_packets_def bind_Some_iff)
  obtain ret t where fl: "Net_flush_bcast s1 = (ret, t)" by (metis surj_pair)
  with assms(1) l1 have "t = s'" by (simp add: Send_new_packets_def)
  note l = l1 fl [unfolded this]
  from Send_new_loop_spec [OF l(1) assms(2)] obtain fs where
    fs: "queue_frags (down s) = fs @ queue_frags (down s1)" "Highest_seq s1 = Highest_seq s + int (length fs)"
      "sending s s1" "\<forall>j < length fs. holds s1 (Highest_seq s + 1 + int j) (fs ! j)"
    by auto
  note nf = net_frame_Net_flush_bcast [OF l(2)]
  note s1 = sending_net_frame [OF nf]
  show ?thesis
  proof (intro exI [of _ fs] conjI allI impI)
    show "sending s s'" using fs(3) s1 by (rule sending_trans)
    show "holds s' (Highest_seq s + 1 + int j) (fs ! j)" if "j < length fs" for j
      using fs(4) that s1 by (blast intro: holds_sending)
  qed (use fs net_frame_prot [OF nf] in simp_all)
qed

theorem Send_new_packets_numbers_witness:
  "\<exists>k s'. Send_new_packets 1 busy_sample = Some (k, s') \<and> Highest_seq s' = 2 \<and>
    (\<exists>fs. queue_frags (down busy_sample) = fs @ queue_frags (down s') \<and>
      Highest_seq s' = Highest_seq busy_sample + int (length fs) \<and> sending busy_sample s' \<and>
      (\<forall>j < length fs. holds s' (Highest_seq busy_sample + 1 + int j) (fs ! j)))"
proof -
  have "map_option (\<lambda>(k, s'). Highest_seq s') (Send_new_packets 1 busy_sample) = Some 2" by code_simp
  then obtain k s' where s': "Send_new_packets 1 busy_sample = Some (k, s')" "Highest_seq s' = 2" by auto
  have "sendable (down busy_sample)"
    by (simp add: busy_sample_def down_def sendable_def MAX_SCATTER_ELEMENTS_def MAX_PACKET_SIZE_def
        sizeof_packet_header_def)
  from Send_new_packets_numbers [OF s'(1) this] s' show ?thesis
    by (intro exI [of _ k] exI [of _ s'] conjI)
qed

section \<open>From the down queue to the sessions\<close>

lemma count_while_all: "\<forall>i \<in> set is. p i \<Longrightarrow> count_while p is = int (length is)"
  by (induction "is") simp_all

lemma concat_link_frags: "map snd (concat (map link_frags ls)) = concat (map fragments (map dl_mess ls))"
  by (induction ls) (simp_all add: link_frags_def comp_def)

lemma holds_agreed:
  assumes "holds s q (ty, i, elem)" and "\<not> Is_reliable ty" and "\<not> Is_safe ty"
  shows "undelivered s q" "\<not> waits_stable s q" "0 \<le> ph_data_len (entry_head s (slot q))"
    "frag_of s (slot q) = (Prot_My_index s, i, elem)"
proof -
  have h: "entry_head s (slot q) = pkt_head s q" by (simp add: entry_head_def pkt_head_def pkt_def)
  have "service (ph_type (pkt_head s q)) = service ty" using assms(1) by (simp add: holds_def)
  then have "\<not> Is_reliable (ph_type (pkt_head s q))" "\<not> Is_safe (ph_type (pkt_head s q))"
    using assms(2,3) service_Is_safe service_Is_reliable by metis+
  with assms(1) show "undelivered s q" "\<not> waits_stable s q" "0 \<le> ph_data_len (entry_head s (slot q))"
    "frag_of s (slot q) = (Prot_My_index s, i, elem)"
    by (simp_all add: holds_def undelivered_def waits_stable_def h frag_of_def up_index_def pkt_def)
qed

text \<open>
  C3: a daemon that has received and delivered everything, takes the token and sends its whole
  down queue of agreed, causal or FIFO messages, delivers to its own sessions exactly the
  messages of the queue, in order and cut as they were given, without exiting.
\<close>

theorem Sent_messages_delivered:
  assumes send: "Send_new_packets n s = Some (num_sent, s1)"
    and whole: "dq_cur_element (down s) = 0" "dq_mess (down s1) = []"
    and q: "sendable (down s)" "\<forall>l \<in> set (dq_mess (down s)). dl_mess l \<noteq> [] \<and>
          \<not> Is_safe (dl_type l) \<and> \<not> Is_reliable (dl_type l)"
    and small: "length (queue_frags (down s)) \<le> 8192"
    and idle: "My_aru s = Highest_seq s" "Last_delivered s = Highest_seq s" "State s \<noteq> EVS"
      "up_mess s (Prot_My_index s) = []"
  shows "\<exists>s2. Deliver_agreed_packets (advance_aru s1) = Some s2 \<and>
    upcalls s2 = upcalls s1 @ map (\<lambda>l. Sess_deliver_message (dl_mess l)) (dq_mess (down s)) \<and>
    Last_delivered s2 = Highest_seq s1"
proof -
  let ?ms = "dq_mess (down s)" and ?me = "Prot_My_index s"
  from Send_new_packets_numbers [OF send q(1)] obtain fs where
    fs0: "queue_frags (down s) = fs @ queue_frags (down s1)" and hi: "Highest_seq s1 = Highest_seq s + int (length fs)"
    and sd: "sending s s1" and held: "\<forall>j < length fs. holds s1 (Highest_seq s + 1 + int j) (fs ! j)" by blast
  have "queue_frags (down s1) = []" using whole(2) by (simp add: queue_frags_def)
  with fs0 have fs: "fs = concat (map link_frags ?ms)" using whole(1) by (simp add: queue_frags_def)
  have plain: "\<not> Is_reliable ty \<and> \<not> Is_safe ty" if "(ty, i, elem) \<in> set fs" for ty i elem
    using that q(2) by (auto simp: fs link_frags_def)
  let ?js = "[Highest_seq s + 1..Highest_seq s1]"
  have js: "?js = map (\<lambda>j. Highest_seq s + 1 + int j) [0..<length fs]"
    by (rule nth_equalityI) (simp_all add: hi)
  have each: "undelivered s1 (Highest_seq s + 1 + int j) \<and> \<not> waits_stable s1 (Highest_seq s + 1 + int j) \<and>
      0 \<le> ph_data_len (entry_head s1 (slot (Highest_seq s + 1 + int j))) \<and>
      frag_of s1 (slot (Highest_seq s + 1 + int j)) = (?me, snd (fs ! j))" if "j < length fs" for j
  proof -
    obtain ty i elem where f: "fs ! j = (ty, i, elem)" by (metis prod_cases3)
    with that have "(ty, i, elem) \<in> set fs" by (metis nth_mem)
    with plain have "\<not> Is_reliable ty" "\<not> Is_safe ty" by blast+
    moreover have "holds s1 (Highest_seq s + 1 + int j) (ty, i, elem)" using held that f by auto
    ultimately show ?thesis using holds_agreed sd f by (auto simp: sending_def)
  qed
  define t where "t = advance_aru s1"
  have sf: "My_aru s1 = Highest_seq s" "Last_delivered s1 = Highest_seq s" "State s1 = State s"
      "Up_queue s1 = Up_queue s"
    using sd idle by (simp_all add: sending_def)
  have "\<forall>i \<in> set ?js. pk_exist (pkt s1 i) \<noteq> 0" using each by (auto simp: js undelivered_def pkt_def)
  from count_while_all [OF this] have aru: "My_aru t = Highest_seq s1"
    by (simp add: t_def advance_aru_def upd_status_def sf hi Let_def)
  have tf: "Packets t = Packets s1" "heads t = heads s1" "State t = State s1" "upcalls t = upcalls s1"
      "Last_delivered t = Highest_seq s" "Up_queue t = Up_queue s"
    by (simp_all add: t_def advance_aru_def upd_status_def Let_def sf)
  have st: "undelivered t = undelivered s1" "waits_stable t = waits_stable s1" "entry_head t = entry_head s1"
      "frag_of t = frag_of s1" "up_mess t = up_mess s"
    by (simp_all add: undelivered_def waits_stable_def frag_of_def up_index_def entry_head_def tf fun_eq_iff up_mess_def)
  have frags: "map (frag_of t) (map slot ?js) = map (Pair ?me) (concat (map fragments (map dl_mess ?ms)))"
  proof -
    have "map (frag_of t) (map slot ?js) = map (\<lambda>j. (?me, snd (fs ! j))) [0..<length fs]"
      using each by (simp add: js st comp_def)
    also have "\<dots> = map (Pair ?me) (map snd fs)" by (rule nth_equalityI) simp_all
    finally show ?thesis by (simp add: fs concat_link_frags)
  qed
  have "\<forall>m \<in> set (map dl_mess ?ms). valid_message m"
    using q by (auto simp: valid_message_def sendable_def)
  from fc.messages [OF this] have feed: "feed_many up_put (up_mess t) (map (frag_of t) (map slot ?js)) =
      Some ((up_mess t)(?me := []), map (Pair ?me) (map dl_mess ?ms))"
    using idle(4) unfolding frags by (intro feed_many_single) (simp add: st)
  have dist: "distinct (map slot ?js)" using small fs0 whole by (intro distinct_slots) (simp add: hi)
  have all: "agreed_span t ?js = ?js" "filter (undelivered t) ?js = ?js"
    using each by (auto simp: agreed_span_def st js takeWhile_eq_all_conv filter_id_conv)
  have "forB ?js agreed_step t \<noteq> None"
    using dist feed each by (intro agreed_total) (auto simp: st js)
  then obtain s2 where run: "forB ?js agreed_step t = Some s2" by blast
  with agreed_run [OF run dist] have del: "delivers (map slot ?js) t s2" "agreed_frame (int (length fs)) t s2"
    by (simp_all only: all) (simp_all add: js)
  then have "upcalls s2 = upcalls s1 @ map (\<lambda>l. Sess_deliver_message (dl_mess l)) ?ms"
    using feed by (auto simp: delivers_def handed_up_def tf comp_def)
  moreover have "Last_delivered s2 = Highest_seq s1" using agreed_frame_fields(5) [OF del(2)] by (simp add: tf hi)
  moreover have "Deliver_agreed_packets t = Some s2"
    using run aru idle(3) by (auto simp: Deliver_agreed_packets_def tf sf)
  ultimately show ?thesis by (auto simp: t_def)
qed

theorem Sent_messages_delivered_witness:
  "\<exists>k s1 s2. Send_new_packets 15 busy_sample = Some (k, s1) \<and>
    Deliver_agreed_packets (advance_aru s1) = Some s2 \<and>
    upcalls s2 = upcalls s1 @ [Sess_deliver_message [[1, 2, 3], [4]]] \<and> Last_delivered s2 = Highest_seq s1"
proof -
  have "map_option (\<lambda>(k, s'). dq_mess (down s')) (Send_new_packets 15 busy_sample) = Some []" by code_simp
  then obtain k s1 where s1: "Send_new_packets 15 busy_sample = Some (k, s1)" "dq_mess (down s1) = []" by auto
  have d: "down busy_sample = \<lparr>dq_mess = [\<lparr>dl_type = AGREED_TYPE, dl_mess = [[1, 2, 3], [4]]\<rparr>], dq_cur_element = 0\<rparr>"
    by (simp add: busy_sample_def down_def)
  have "\<exists>s2. Deliver_agreed_packets (advance_aru s1) = Some s2 \<and>
    upcalls s2 = upcalls s1 @ map (\<lambda>l. Sess_deliver_message (dl_mess l)) (dq_mess (down busy_sample)) \<and>
    Last_delivered s2 = Highest_seq s1"
  proof (rule Sent_messages_delivered [OF s1(1) _ s1(2)])
    show "sendable (down busy_sample)"
      by (simp add: d sendable_def MAX_SCATTER_ELEMENTS_def MAX_PACKET_SIZE_def sizeof_packet_header_def)
    show "\<forall>l \<in> set (dq_mess (down busy_sample)). dl_mess l \<noteq> [] \<and> \<not> Is_safe (dl_type l) \<and> \<not> Is_reliable (dl_type l)"
      by (simp add: d Is_safe_def Is_reliable_def AGREED_TYPE_def SAFE_TYPE_def RELIABLE_TYPE_def)
    show "length (queue_frags (down busy_sample)) \<le> 8192" by (simp add: d queue_frags_def)
  qed (simp_all add: d, simp_all add: busy_sample_def up_mess_def)
  with s1(1) show ?thesis by (auto simp: d)
qed

end
