(* ===== verification/Topology.thy ===== *)
theory Topology
  imports Sample
begin

text \<open>
  The ring a membership makes: \<open>Net_set_membership\<close> gives every member the address of its
  successor, so that the token visits the members in the order of the configuration, and
  \<open>Conf_leader\<close> and \<open>Conf_last\<close> are the ends of this order.
\<close>

section \<open>The order of a membership\<close>

definition seg_list :: "configuration \<Rightarrow> nat \<Rightarrow> nat list" where
  "seg_list cf i = seg_procs (segments cf i)"

definition ring_of :: "configuration \<Rightarrow> nat list" where
  "ring_of cf = concat (map (seg_list cf) [0..<num_segments cf])"

text \<open>The process table names every process by an address of its own.\<close>

definition table_ok :: "'a conf_state_scheme \<Rightarrow> bool" where
  "table_ok c \<longleftrightarrow> (\<forall>k < num_total_procs (Config c). \<forall>l < num_total_procs (Config c).
     proc_has_ip (Config_procs c l) (proc_id_at c k) \<longleftrightarrow> l = k)"

definition ring_ok :: "'a conf_state_scheme \<Rightarrow> configuration \<Rightarrow> bool" where
  "ring_ok c cf \<longleftrightarrow> num_segments cf = num_segments (Config c) \<and> distinct (ring_of cf) \<and>
     (\<forall>k \<in> set (ring_of cf). k < num_total_procs (Config c)) \<and>
     (\<forall>i < num_segments cf. \<forall>k \<in> set (seg_list cf i). p_seg_index (Config_procs c k) = i)"

lemma find_unique:
  assumes "m < n" and "P m" and "\<And>j. j < n \<Longrightarrow> P j \<Longrightarrow> j = m"
  shows "find P [0..<n] = Some m"
proof -
  have "\<not> P j" if "j < m" for j using assms(1) assms(3) [of j] that by auto
  then show ?thesis unfolding find_Some_iff using assms(1,2) by (intro exI [of _ m]) simp
qed

lemma concat_nonempty: "concat (map f xs) = concat (map f (filter (\<lambda>x. f x \<noteq> []) xs))"
  by (induction xs) simp_all

lemma table_lookup:
  assumes "table_ok c" and "k < num_total_procs (Config c)"
  shows "Conf_proc_by_id c (proc_id_at c k) = Some (k, Config_procs c k)"
  using assms by (auto simp: Conf_proc_by_id_def lookup_slot_def table_ok_def intro!: find_unique)

lemma seg_lookup:
  assumes "table_ok c" and "distinct (seg_procs sg)" and "\<forall>k \<in> set (seg_procs sg). k < num_total_procs (Config c)"
    and "m < length (seg_procs sg)"
  shows "Conf_id_in_seg c sg (proc_id_at c (seg_procs sg ! m)) = Some m"
  unfolding Conf_id_in_seg_def
  by (rule find_unique) (use assms in \<open>auto simp: table_ok_def nth_eq_iff_index_eq\<close>)

section \<open>Leader and last member\<close>

lemma find_concat_hd:
  "find (\<lambda>i. f i \<noteq> []) xs = Some i \<Longrightarrow> concat (map f xs) \<noteq> [] \<and> hd (concat (map f xs)) = hd (f i)"
  by (induction xs) (auto split: if_splits)

lemma find_concat_None: "find (\<lambda>i. f i \<noteq> []) xs = None \<longleftrightarrow> concat (map f xs) = []"
  by (induction xs) auto

lemma find_concat_last:
  "find (\<lambda>i. f i \<noteq> []) (rev xs) = Some i \<Longrightarrow> concat (map f xs) \<noteq> [] \<and> last (concat (map f xs)) = last (f i)"
  by (induction xs rule: rev_induct) (auto split: if_splits)

lemma find_concat_rev_None: "find (\<lambda>i. f i \<noteq> []) (rev xs) = None \<longleftrightarrow> concat (map f xs) = []"
  by (induction xs rule: rev_induct) auto

text \<open>
  The leader of a configuration is the first process of its ring and the last member the
  last one; both functions exit exactly on an empty configuration.
\<close>

theorem Conf_leader_last_of_ring:
  "Conf_leader c cf = (if ring_of cf = [] then None else Some (proc_id_at c (hd (ring_of cf)))) \<and>
   Conf_last c cf = (if ring_of cf = [] then None else Some (proc_id_at c (last (ring_of cf))))"
  using find_concat_hd [of "seg_list cf" "[0..<num_segments cf]"] find_concat_None [of "seg_list cf" "[0..<num_segments cf]"]
    find_concat_last [of "seg_list cf" "[0..<num_segments cf]"] find_concat_rev_None [of "seg_list cf" "[0..<num_segments cf]"]
  unfolding Conf_leader_def Conf_last_def ring_of_def seg_list_def
  by (cases "find (\<lambda>i. seg_procs (segments cf i) \<noteq> []) [0..<num_segments cf]";
      cases "find (\<lambda>i. seg_procs (segments cf i) \<noteq> []) (rev [0..<num_segments cf])") auto

section \<open>The successor\<close>

definition seg_dest :: "'a conf_state_scheme \<Rightarrow> configuration \<Rightarrow> nat \<Rightarrow> int32u \<times> int" where
  "seg_dest c cf i = (proc_id_at c (hd (seg_list cf i)), seg_port (segments cf i))"

lemma send_needed_eq:
  "send_needed c cf mine n =
    (map (seg_dest c cf) (filter (\<lambda>i. i \<noteq> mine \<and> seg_list cf i \<noteq> []) [0..<n]),
     if mine < n then Some (length (filter (\<lambda>i. seg_list cf i \<noteq> []) [0..<mine])) else None)"
proof (induction n)
  case 0
  then show ?case by (simp add: send_needed_def)
next
  case (Suc n)
  have "filter (\<lambda>i. i \<noteq> mine \<and> seg_list cf i \<noteq> []) [0..<n] = filter (\<lambda>i. seg_list cf i \<noteq> []) [0..<n]" if "n = mine"
    using that by (intro filter_cong) auto
  with Suc show ?case
    by (auto simp: send_needed_def seg_dest_def seg_list_def split: list.splits)
qed

lemma nonempty_split:
  assumes "mi < n" and "f mi \<noteq> []"
  shows "filter (\<lambda>i. f i \<noteq> []) [0..<n] =
      filter (\<lambda>i. f i \<noteq> []) [0..<mi] @ mi # filter (\<lambda>i. f i \<noteq> []) [Suc mi..<n]"
    "filter (\<lambda>i. i \<noteq> mi \<and> f i \<noteq> []) [0..<n] =
      filter (\<lambda>i. f i \<noteq> []) [0..<mi] @ filter (\<lambda>i. f i \<noteq> []) [Suc mi..<n]"
proof -
  have u: "[0..<n] = [0..<mi] @ mi # [Suc mi..<n]"
    using assms(1) upt_add_eq_append [of 0 mi "n - mi"] by (simp add: upt_conv_Cons)
  show "filter (\<lambda>i. f i \<noteq> []) [0..<n] =
      filter (\<lambda>i. f i \<noteq> []) [0..<mi] @ mi # filter (\<lambda>i. f i \<noteq> []) [Suc mi..<n]"
    using assms(2) by (simp add: u)
  have "filter (\<lambda>i. i \<noteq> mi \<and> f i \<noteq> []) [0..<mi] = filter (\<lambda>i. f i \<noteq> []) [0..<mi]"
    "filter (\<lambda>i. i \<noteq> mi \<and> f i \<noteq> []) [Suc mi..<n] = filter (\<lambda>i. f i \<noteq> []) [Suc mi..<n]"
    by (auto intro!: filter_cong)
  then show "filter (\<lambda>i. i \<noteq> mi \<and> f i \<noteq> []) [0..<n] =
      filter (\<lambda>i. f i \<noteq> []) [0..<mi] @ filter (\<lambda>i. f i \<noteq> []) [Suc mi..<n]"
    by (simp add: u)
qed

text \<open>The successor in the ring, for the member at place \<open>m\<close> of its segment.\<close>

lemma token_destination_successor:
  fixes cf :: configuration and mi m :: nat
  defines "n \<equiv> num_segments cf"
  defines "before \<equiv> concat (map (seg_list cf) [0..<mi])"
  assumes mi: "mi < n" and m: "m < length (seg_list cf mi)"
  shows "\<exists>i < n. \<exists>k \<in> set (seg_list cf i).
    ring_of cf ! (Suc (length before + m) mod length (ring_of cf)) = k \<and>
    token_destination c (segments cf mi) m (fst (send_needed c cf mi n)) (the (snd (send_needed c cf mi n))) =
      (proc_id_at c k, to_int16 (seg_port (segments cf i) + 1))"
proof -
  let ?ne = "\<lambda>i. seg_list cf i \<noteq> []" and ?segs = "seg_list cf"
  define A where "A = filter ?ne [0..<mi]"
  define B where "B = filter ?ne [Suc mi..<n]"
  have ne: "?ne mi" using m by auto
  have sets: "\<And>i. i \<in> set A \<Longrightarrow> i < n \<and> ?ne i" "\<And>i. i \<in> set B \<Longrightarrow> i < n \<and> ?ne i"
    using mi by (auto simp: A_def B_def)
  have bef: "before = concat (map ?segs A)"
    unfolding before_def A_def by (rule concat_nonempty)
  have ring: "ring_of cf = before @ ?segs mi @ concat (map ?segs B)"
    unfolding ring_of_def n_def [symmetric]
    by (subst concat_nonempty) (simp add: nonempty_split(1) [OF mi, of ?segs, OF ne] bef A_def B_def)
  have sn: "fst (send_needed c cf mi n) = map (seg_dest c cf) (A @ B)" "the (snd (send_needed c cf mi n)) = length A"
    by (simp_all add: send_needed_eq nonempty_split(2) [OF mi, of ?segs, OF ne] mi A_def B_def)
  have hd_in: "hd (?segs i) \<in> set (?segs i)" if "?ne i" for i using that by simp
  show ?thesis
  proof (cases "Suc m < length (?segs mi)")
    case True
    then have "ring_of cf ! (Suc (length before + m) mod length (ring_of cf)) = ?segs mi ! Suc m"
      by (simp add: ring nth_append)
    with True mi show ?thesis
      by (intro exI [of _ mi] conjI bexI [of _ "?segs mi ! Suc m"]) (simp_all add: token_destination_def seg_list_def)
  next
    case False
    with m have last: "Suc m = length (?segs mi)" by simp
    then have pos: "Suc (length before + m) = length (before @ ?segs mi)" by simp
    show ?thesis
    proof (cases B)
      case (Cons b bs)
      have "?ne b" "b < n" using sets(2) Cons by auto
      have "ring_of cf ! (Suc (length before + m) mod length (ring_of cf)) = hd (?segs b)"
        using \<open>?ne b\<close> unfolding ring pos by (simp add: Cons nth_append hd_conv_nth)
      moreover have "token_destination c (segments cf mi) m (map (seg_dest c cf) (A @ B)) (length A) =
          (proc_id_at c (hd (?segs b)), to_int16 (seg_port (segments cf b) + 1))"
        using last by (simp add: token_destination_def Cons seg_dest_def seg_list_def nth_append)
      ultimately show ?thesis using \<open>b < n\<close> hd_in [OF \<open>?ne b\<close>] by (auto simp: sn)
    next
      case Nil
      have wrap: "Suc (length before + m) mod length (ring_of cf) = 0" unfolding pos ring Nil by simp
      show ?thesis
      proof (cases A)
        case (Cons a as)
        have "?ne a" "a < n" using sets(1) Cons by auto
        have "ring_of cf ! 0 = hd (?segs a)"
          using \<open>?ne a\<close> by (simp add: ring bef Cons nth_append hd_conv_nth)
        moreover have "token_destination c (segments cf mi) m (map (seg_dest c cf) (A @ B)) (length A) =
            (proc_id_at c (hd (?segs a)), to_int16 (seg_port (segments cf a) + 1))"
          using last by (simp add: token_destination_def Nil Cons seg_dest_def seg_list_def)
        ultimately show ?thesis using \<open>a < n\<close> hd_in [OF \<open>?ne a\<close>] by (auto simp: sn wrap)
      next
        case A: Nil
        have "ring_of cf ! 0 = hd (?segs mi)" using ne by (simp add: ring bef A nth_append hd_conv_nth)
        moreover have "token_destination c (segments cf mi) m (map (seg_dest c cf) (A @ B)) (length A) =
            (proc_id_at c (hd (?segs mi)), to_int16 (seg_port (segments cf mi) + 1))"
          using last by (simp add: token_destination_def Nil A seg_list_def)
        ultimately show ?thesis using mi hd_in [OF ne] by (auto simp: sn wrap)
      qed
    qed
  qed
qed

lemma ring_position:
  assumes "j < length (ring_of cf)"
  obtains mi m where "mi < num_segments cf" "m < length (seg_list cf mi)"
    "ring_of cf ! j = seg_list cf mi ! m" "j = length (concat (map (seg_list cf) [0..<mi])) + m"
proof -
  have "\<exists>mi < n. \<exists>m < length (f mi). concat (map f [0..<n]) ! j = f mi ! m \<and>
      j = length (concat (map f [0..<mi])) + m" if "j < length (concat (map f [0..<n]))"
    for f :: "nat \<Rightarrow> nat list" and n
    using that
  proof (induction n)
    case 0
    then show ?case by simp
  next
    case (Suc n)
    show ?case
    proof (cases "j < length (concat (map f [0..<n]))")
      case True
      with Suc.IH obtain mi m where "mi < n" "m < length (f mi)" "concat (map f [0..<n]) ! j = f mi ! m"
        "j = length (concat (map f [0..<mi])) + m" by auto
      with True show ?thesis by (intro exI [of _ mi] conjI exI [of _ m]) (simp_all add: nth_append)
    next
      case False
      let ?m = "j - length (concat (map f [0..<n]))"
      from False Suc.prems show ?thesis
        by (intro exI [of _ n] conjI exI [of _ ?m]) (simp_all add: nth_append)
    qed
  qed
  from this [of "seg_list cf" "num_segments cf"] assms that show ?thesis by (auto simp: ring_of_def)
qed

text \<open>
  C9: in a membership every member sends the token to the next member of the ring, the last one
  to the first: the token visits all members in turn.
\<close>

theorem Token_goes_to_successor:
  assumes "table_ok s" and "ring_ok s memb" and "j < length (ring_of memb)"
    and "Net_My s = Config_procs s (ring_of memb ! j)"
  shows "\<exists>s'. Net_set_membership memb s = Some s' \<and>
    (let next_proc = ring_of memb ! (Suc j mod length (ring_of memb)) in
      Token_address s' = proc_id_at s next_proc \<and>
      Token_port s' = to_int16 (seg_port (segments memb (p_seg_index (Config_procs s next_proc))) + 1))"
proof -
  obtain mi m where p: "mi < num_segments memb" "m < length (seg_list memb mi)"
    "ring_of memb ! j = seg_list memb mi ! m" "j = length (concat (map (seg_list memb) [0..<mi])) + m"
    using ring_position [OF assms(3)] .
  have n: "num_segments (Config s) = num_segments memb" using assms(2) by (simp add: ring_ok_def)
  have seg: "distinct (seg_list memb mi)" "\<forall>k \<in> set (seg_list memb mi). k < num_total_procs (Config s)"
    "\<forall>k \<in> set (seg_list memb mi). p_seg_index (Config_procs s k) = mi"
    using assms(2) p(1) by (auto simp: ring_ok_def ring_of_def distinct_concat_iff)
  have me: "p_seg_index (Net_My s) = mi" "p_id (Net_My s) = proc_id_at s (seg_list memb mi ! m)"
    using assms(4) p(2,3) seg(3) by (auto simp: proc_id_at_def)
  have idx: "Conf_id_in_seg s (segments memb mi) (p_id (Net_My s)) = Some m"
    unfolding me(2) seg_list_def by (rule seg_lookup [OF assms(1)]) (use seg p(2) in \<open>simp_all add: seg_list_def\<close>)
  obtain i k where d: "i < num_segments memb" "k \<in> set (seg_list memb i)"
    "ring_of memb ! (Suc j mod length (ring_of memb)) = k"
    "token_destination s (segments memb mi) m (fst (send_needed s memb mi (num_segments memb)))
      (the (snd (send_needed s memb mi (num_segments memb)))) = (proc_id_at s k, to_int16 (seg_port (segments memb i) + 1))"
    using token_destination_successor [OF p(1,2), of s] unfolding p(4) [symmetric] by blast
  have "p_seg_index (Config_procs s k) = i" using assms(2) d(1,2) by (simp add: ring_ok_def)
  moreover have "snd (send_needed s memb mi (num_segments memb)) \<noteq> None" using p(1) by (simp add: send_needed_eq)
  ultimately show ?thesis
    using d(3,4) by (auto simp: Net_set_membership_def me(1) idx n Let_def split: prod.splits)
qed

lemma sample_table_ok: "table_ok sample"
proof -
  have "proc_has_ip (sample_proc l) (p_id (sample_proc k)) = (l = k)" if "k < 3" "l < 3" for k l
    using that by (auto simp: proc_has_ip_def sample_proc_def numeral_3_eq_3 less_Suc_eq)
  then show ?thesis by (simp add: table_ok_def proc_id_at_def sample_conf_def)
qed

lemma sample_ring: "ring_of sample_conf = [0, 1, 2]"
  by (simp add: ring_of_def seg_list_def sample_conf_def sample_segment_def)

theorem Token_goes_to_successor_witness:
  "\<exists>s'. Net_set_membership sample_conf sample = Some s' \<and>
    (let next_proc = ring_of sample_conf ! (Suc 0 mod length (ring_of sample_conf)) in
      Token_address s' = proc_id_at sample next_proc \<and>
      Token_port s' = to_int16 (seg_port (segments sample_conf (p_seg_index (Config_procs sample next_proc))) + 1))"
proof (rule Token_goes_to_successor [OF sample_table_ok])
  show "ring_ok sample sample_conf"
    by (auto simp: ring_ok_def sample_ring) (simp_all add: seg_list_def sample_conf_def sample_segment_def sample_proc_def)
qed (simp_all add: sample_ring)

end
