(* ===== verification/Packing.thy ===== *)
theory Packing
  imports Protocol Sample
begin

text \<open>
  Several packets in one datagram: \<open>Net_queue_bcast\<close> packs them, padding every packet but the
  last to a multiple of four bytes; \<open>Net_recv\<close> walks over the packets and converts the headers
  behind the first; \<open>Prot_handle_bcast\<close> takes them apart again.
\<close>

section \<open>The layout of a datagram\<close>

type_synonym packet = "packet_header \<times> byte list"

definition wf_packet :: "packet \<Rightarrow> bool" where
  "wf_packet p \<longleftrightarrow> wf_packet_header (fst p) \<and> ph_data_len (fst p) = int (length (snd p))"

definition padding :: "int \<Rightarrow> byte list" where
  "padding n = take (nat (align_pad n)) [0x70, 0x61, 0x64, 0x64]"

text \<open>
  The packets behind the first, as a machine of the same or of the other endianness has them
  in memory; \<open>len\<close> is the length of the body before.
\<close>

definition stored :: "bool \<Rightarrow> packet_header \<Rightarrow> packet_header" where
  "stored same h = (if same then h else Flip_pack h)"

fun tail_bytes :: "bool \<Rightarrow> int \<Rightarrow> packet list \<Rightarrow> byte list" where
  "tail_bytes same len [] = []"
| "tail_bytes same len (p # ps) = padding len @ enc_packet_header (stored same (fst p)) @ snd p @
     tail_bytes same (int (length (snd p))) ps"

text \<open>The buffer behind the header of the first packet, and a whole datagram.\<close>

definition body_bytes :: "bool \<Rightarrow> byte list \<Rightarrow> packet list \<Rightarrow> byte list" where
  "body_bytes same b ps = b @ tail_bytes same (int (length b)) ps"

lemma align_pad_range: "0 \<le> align_pad n" "align_pad n < 4" "(n + align_pad n) mod 4 = 0"
  by (simp_all add: align_pad_def) presburger

lemma align_pad_cong: "m mod 4 = n mod 4 \<Longrightarrow> align_pad m = align_pad n"
  by (simp add: align_pad_def) (metis mod_minus_eq)

lemma length_padding [simp]: "int (length (padding n)) = align_pad n"
  using align_pad_range(1,2) [of n] by (simp add: padding_def)

section \<open>Flipping a header\<close>

lemma wf_flips [simp]: "int16_range (flip_i16 x)" "int32_range (flip_i32 x)"
  using sint_greater_eq [of "Flip_int16 (word_of_int x)"] sint_less [of "Flip_int16 (word_of_int x)"]
    sint_greater_eq [of "Flip_int32 (word_of_int x)"] sint_less [of "Flip_int32 (word_of_int x)"]
  by (simp_all add: int16_range_def int32_range_def flip_i16_def flip_i32_def)

lemma flip_flip [simp]:
  "int16_range x \<Longrightarrow> flip_i16 (flip_i16 x) = x" "int32_range x \<Longrightarrow> flip_i32 (flip_i32 x) = x"
  by (simp_all add: int16_range_def int32_range_def flip_i16_involution flip_i32_involution)

lemma wf_Flip_pack: "wf_packet_header h \<Longrightarrow> wf_packet_header (Flip_pack h)"
  by (simp add: wf_packet_header_def wf_memb_id_def Flip_pack_def Flip_memb_id_def)

lemma Flip_pack_involution: "wf_packet_header h \<Longrightarrow> Flip_pack (Flip_pack h) = h"
  by (simp add: wf_packet_header_def wf_memb_id_def Flip_pack_def Flip_memb_id_def)

lemma wf_stored: "wf_packet_header h \<Longrightarrow> wf_packet_header (stored same h)"
  by (simp add: stored_def wf_Flip_pack)

lemma read_stored: "wf_packet_header h \<Longrightarrow> (if same then stored same h else Flip_pack (stored same h)) = h"
  by (simp add: stored_def Flip_pack_involution)

lemma get_header_at:
  assumes "wf_packet_header h"
  shows "get_packet_header (pre @ enc_packet_header h @ post) (int (length pre)) = Some h"
proof -
  have "get_bytes (pre @ enc_packet_header h @ post) (int (length pre)) sizeof_packet_header =
      Some (enc_packet_header h)"
    by (rule get_bytes_at) (simp_all add: sizeof_packet_header_def)
  with dec_enc_packet_header [OF assms, of "[]"] show ?thesis by (simp add: get_packet_header_def)
qed

section \<open>Receiving\<close>

lemma walk_packed_tail:
  assumes "\<forall>p \<in> set ps. wf_packet p" and "len mod 4 = int (length pre) mod 4"
    and "received = sizeof_packet_header + int (length (pre @ tail_bytes same len ps))"
  shows "walk_packed same received (round4 (sizeof_packet_header + int (length pre)) received)
      (pre @ tail_bytes same len ps) = Some (received, pre @ tail_bytes True len ps)"
  using assms
proof (induction ps arbitrary: pre len)
  case Nil
  then have "round4 (sizeof_packet_header + int (length pre)) received = received"
    by (simp add: round4_def)
  then show ?case by (simp add: walk_packed.simps)
next
  case (Cons p ps)
  obtain h b where p: "p = (h, b)" by (cases p)
  have wf: "wf_packet_header h" "ph_data_len h = int (length b)" "\<forall>p \<in> set ps. wf_packet p"
    using Cons.prems(1) by (simp_all add: p wf_packet_def)
  let ?pad = "padding len"
  have pad: "align_pad (sizeof_packet_header + int (length pre)) = align_pad len"
    using Cons.prems(2) by (intro align_pad_cong) (simp add: sizeof_packet_header_def, presburger)
  let ?pos = "sizeof_packet_header + int (length pre) + align_pad len"
  have pos: "round4 (sizeof_packet_header + int (length pre)) received = ?pos"
    using Cons.prems(3) align_pad_range(1) [of len] by (simp add: round4_def pad p)
  let ?buf = "pre @ tail_bytes same len (p # ps)"
  let ?post = "b @ tail_bytes same (int (length b)) ps"
  have buf: "?buf = (pre @ ?pad) @ enc_packet_header (stored same h) @ ?post" by (simp add: p)
  have off: "?pos - sizeof_packet_header = int (length (pre @ ?pad))" by simp
  have get: "get_packet_header ?buf (?pos - sizeof_packet_header) = Some (stored same h)"
    unfolding off buf by (rule get_header_at [OF wf_stored [OF wf(1)]])
  have put: "put_packet_header ?buf (?pos - sizeof_packet_header) h = Some ((pre @ ?pad) @ enc_packet_header h @ ?post)"
    unfolding off buf put_packet_header_def by (rule put_bytes_at) (simp_all only: nat_int of_nat_0_le_iff length_enc)
  let ?pre = "pre @ ?pad @ enc_packet_header h @ b"
  have al: "(int (length pre) + align_pad len) mod 4 = 0"
    using align_pad_range(3) [of len] Cons.prems(2) by (metis mod_add_left_eq)
  have lt: "?pos < received" using Cons.prems(3) by (simp add: p)
  have adv: "?pos + sizeof_packet_header + ph_data_len h = sizeof_packet_header + int (length ?pre)"
    by (simp add: wf(2) sizeof_packet_header_def)
  have "walk_packed same received ?pos ?buf =
      walk_packed same received (round4 (sizeof_packet_header + int (length ?pre)) received)
        (?pre @ tail_bytes same (int (length b)) ps)"
    by (subst walk_packed.simps)
      (simp only: lt if_True get bind.bind_lunit Let_def read_stored [OF wf(1)] put adv append_assoc)
  also have "\<dots> = Some (received, ?pre @ tail_bytes True (int (length b)) ps)"
  proof (rule Cons.IH [OF wf(3)])
    have "int (length ?pre) = (int (length pre) + align_pad len) + 36 + int (length b)" by simp
    then show "int (length b) mod 4 = int (length ?pre) mod 4" using al by presburger
  qed (use Cons.prems(3) in \<open>simp add: p\<close>)
  finally show ?case by (simp add: pos p stored_def)
qed

lemma unpack_tail:
  assumes "\<forall>p \<in> set ps. wf_packet p" and "len mod 4 = int (length pre) mod 4"
    and "received = int (length (pre @ tail_bytes True len ps))"
    and "length acc + length ps \<le> ARCH_SCATTER_SIZE"
  shows "unpack_rest received (int (length pre) + align_pad (int (length pre))) (pre @ tail_bytes True len ps) acc =
    Some (acc @ ps)"
  using assms
proof (induction ps arbitrary: pre len acc)
  case Nil
  then show ?case using align_pad_range(1) [of "int (length pre)"] by (simp add: unpack_rest.simps)
next
  case (Cons p ps)
  obtain h b where p: "p = (h, b)" by (cases p)
  have wf: "wf_packet_header h" "ph_data_len h = int (length b)" "\<forall>p \<in> set ps. wf_packet p"
    using Cons.prems(1) by (simp_all add: p wf_packet_def)
  let ?pad = "padding len"
  have pad: "align_pad (int (length pre)) = align_pad len"
    using Cons.prems(2) by (intro align_pad_cong) simp
  let ?pos = "int (length (pre @ ?pad))"
  let ?post = "tail_bytes True (int (length b)) ps"
  let ?buf = "pre @ tail_bytes True len (p # ps)"
  have buf: "?buf = (pre @ ?pad) @ enc_packet_header h @ b @ ?post" by (simp add: p stored_def)
  have get: "get_packet_header ?buf ?pos = Some h"
    unfolding buf by (rule get_header_at [OF wf(1)])
  let ?pre = "pre @ ?pad @ enc_packet_header h @ b"
  have body: "get_bytes ?buf (?pos + sizeof_packet_header) (ph_data_len h) = Some b"
  proof -
    have off: "?pos + sizeof_packet_header = int (length (pre @ ?pad @ enc_packet_header h))"
      by (simp add: sizeof_packet_header_def)
    have eq: "?buf = (pre @ ?pad @ enc_packet_header h) @ b @ ?post" unfolding buf by simp
    show ?thesis unfolding off eq wf(2) by (rule get_bytes_at) (simp_all only: nat_int of_nat_0_le_iff)
  qed
  have lt: "received > ?pos" using Cons.prems(3) by (simp add: p)
  have room: "(int (length acc) \<ge> int ARCH_SCATTER_SIZE) = False" using Cons.prems(4) by simp
  have adv: "?pos + sizeof_packet_header + ph_data_len h = int (length ?pre)"
    by (simp add: wf(2) sizeof_packet_header_def)
  have al: "(int (length pre) + align_pad len) mod 4 = 0"
    using align_pad_range(3) [of len] Cons.prems(2) by (metis mod_add_left_eq)
  have "unpack_rest received ?pos ?buf acc =
      unpack_rest received (int (length ?pre) + align_pad (int (length ?pre))) (?pre @ ?post) (acc @ [(h, b)])"
    by (subst unpack_rest.simps)
      (simp only: lt if_True get bind.bind_lunit Let_def room exit_if_simps body adv, simp add: p stored_def)
  also have "\<dots> = Some ((acc @ [(h, b)]) @ ps)"
  proof (rule Cons.IH [OF wf(3)])
    have "int (length ?pre) = (int (length pre) + align_pad len) + 36 + int (length b)" by simp
    then show "int (length b) mod 4 = int (length ?pre) mod 4" using al by presburger
    show "received = int (length (?pre @ ?post))" using Cons.prems(3) by (simp add: p stored_def)
  qed (use Cons.prems(4) in simp)
  finally show ?case by (simp add: pad p)
qed


definition two_packets :: "packet list" where
  "two_packets = [(no_header\<lparr>ph_type := AGREED_TYPE, ph_seq := 5, ph_data_len := 3\<rparr>, [1, 2, 3]),
     (no_header\<lparr>ph_type := AGREED_TYPE, ph_seq := 6, ph_data_len := 1\<rparr>, [4])]"


end
