(* ===== verification/Requests.thy ===== *)
theory Requests
  imports Prot_token Sample
begin

text \<open>
  The retransmission requests a token carries: a list of entries, one for each daemon that asks,
  as \<open>request_retrans\<close> writes it, \<open>Answer_retrans\<close> reads and compacts it, and
  \<open>Flip_token_body\<close> converts it from the other endianness.
\<close>

section \<open>The list of entries\<close>

type_synonym entry = "ring_rtr \<times> int list"

definition wf_entry :: "entry \<Rightarrow> bool" where
  "wf_entry e \<longleftrightarrow> wf_ring_rtr (fst e) \<and> rr_num_seq (fst e) = int (length (snd e)) \<and>
     (\<forall>q \<in> set (snd e). int32_range q)"

definition enc_seqs :: "int list \<Rightarrow> byte list" where
  "enc_seqs qs = concat (map (\<lambda>q. bytes32 (word_of_int q)) qs)"

definition enc_entry :: "entry \<Rightarrow> byte list" where
  "enc_entry e = enc_ring_rtr (fst e) @ enc_seqs (snd e)"

definition enc_entries :: "entry list \<Rightarrow> byte list" where
  "enc_entries es = concat (map enc_entry es)"

lemma enc_seqs_simps [simp]:
  "enc_seqs [] = []" "enc_seqs (q # qs) = bytes32 (word_of_int q) @ enc_seqs qs"
  "enc_seqs (ps @ qs) = enc_seqs ps @ enc_seqs qs"
  by (simp_all add: enc_seqs_def)

lemma length_enc_seqs [simp]: "length (enc_seqs qs) = 4 * length qs"
  by (induction qs) simp_all

lemma length_enc_entry [simp]: "length (enc_entry e) = 16 + 4 * length (snd e)"
  by (simp add: enc_entry_def)

lemma enc_entries_simps [simp]:
  "enc_entries [] = []" "enc_entries (e # es) = enc_entry e @ enc_entries es"
  "enc_entries (es @ fs) = enc_entries es @ enc_entries fs"
  by (simp_all add: enc_entries_def)

lemma get_ring_rtr_at:
  assumes "wf_ring_rtr rr"
  shows "get_ring_rtr (pre @ enc_ring_rtr rr @ post) (int (length pre)) = Some rr"
proof -
  have "get_bytes (pre @ enc_ring_rtr rr @ post) (int (length pre)) sizeof_ring_rtr = Some (enc_ring_rtr rr)"
    by (rule get_bytes_at) (simp_all add: sizeof_ring_rtr_def)
  with dec_enc_ring_rtr [OF assms, of "[]"] show ?thesis by (simp add: get_ring_rtr_def)
qed

lemma get_int32_at:
  assumes "int32_range q"
  shows "get_int32 (pre @ bytes32 (word_of_int q) @ post) (int (length pre)) = Some q"
proof -
  have "get_bytes (pre @ bytes32 (word_of_int q) @ post) (int (length pre)) 4 = Some (bytes32 (word_of_int q))"
    by (rule get_bytes_at) simp_all
  with assms show ?thesis by (simp add: get_int32_def)
qed

lemma put_int32_at:
  assumes "length old = 4"
  shows "put_int32 (pre @ old @ post) (int (length pre)) q = Some (pre @ bytes32 (word_of_int q) @ post)"
  using assms by (simp add: put_int32_def put_bytes_at)

lemma get_seq_at:
  assumes "i < length qs" and "int32_range (qs ! i)"
  shows "get_int32 (pre @ enc_seqs qs @ post) (int (length pre) + sizeof_int32 * int i) = Some (qs ! i)"
proof -
  have "enc_seqs qs = enc_seqs (take i qs) @ bytes32 (word_of_int (qs ! i)) @ enc_seqs (drop (Suc i) qs)"
    by (metis assms(1) enc_seqs_simps(2,3) append_Cons append_take_drop_id Cons_nth_drop_Suc)
  then have "get_int32 (pre @ enc_seqs qs @ post) (int (length (pre @ enc_seqs (take i qs)))) = Some (qs ! i)"
    using get_int32_at [OF assms(2), of "pre @ enc_seqs (take i qs)" "enc_seqs (drop (Suc i) qs) @ post"] by simp
  with assms(1) show ?thesis by (simp add: sizeof_int32_def)
qed

section \<open>Loops over the numbers of an entry\<close>

lemma forM_map: "forM (map h is) g s = forM is (\<lambda>i. g (h i)) s"
  by (induction "is" arbitrary: s) simp_all

lemma forM_cong:
  assumes "\<And>i s. i \<in> set is \<Longrightarrow> f i s = g i s"
  shows "forM is f s = forM is g s"
  using assms by (induction "is" arbitrary: s) (auto intro!: Option.bind_cong)

lemma forM_numbers: "forM [0..int (length qs) - 1] (\<lambda>i. g (qs ! nat i)) s = forM qs g s"
proof -
  have "map (\<lambda>i. qs ! nat i) [0..int (length qs) - 1] = qs" by (rule nth_equalityI) simp_all
  then show ?thesis by (metis forM_map)
qed

section \<open>Asking\<close>

lemma put_requests:
  assumes "length old = 4 * length qs"
  shows "forM qs put_request (int (length pre), pre @ old @ post) =
    Some (int (length pre + 4 * length qs), pre @ enc_seqs qs @ post)"
  using assms
proof (induction qs arbitrary: pre old)
  case Nil
  then show ?case by simp
next
  case (Cons q qs)
  then obtain a b where ab: "old = a @ b" "length a = 4" "length b = 4 * length qs"
    by (intro that [of "take 4 old" "drop 4 old"]) simp_all
  then have put: "put_int32 (pre @ old @ post) (int (length pre)) q =
      Some ((pre @ bytes32 (word_of_int q)) @ b @ post)"
    using put_int32_at [of a pre "b @ post" q] by simp
  from Cons.IH [OF ab(3), of "pre @ bytes32 (word_of_int q)"] put show ?case
    by (simp add: put_request_def sizeof_int32_def add.assoc)
qed

definition my_entry :: "retrans \<Rightarrow> int \<Rightarrow> daemon \<Rightarrow> entry" where
  "my_entry r new_ptr s = (let qs = my_requests (requests_allowed new_ptr) s in
     (\<lparr>rr_memb_id = Membership_id s, rr_proc_id = rt_proc_id r, rr_seg_index = rt_seg_index r,
       rr_num_seq = int (length qs)\<rparr>, qs))"

lemma cut_in_four:
  "xs = take a xs @ take b (drop a xs) @ take c (drop (a + b) xs) @ drop (a + b + c) xs"
proof -
  have "take c (drop (a + b) xs) @ drop (a + b + c) xs = drop (a + b) xs"
    using append_take_drop_id [of c "drop (a + b) xs"] by (simp add: add.commute)
  moreover have "take b (drop a xs) @ drop (a + b) xs = drop a xs"
    using append_take_drop_id [of b "drop a xs"] by (simp add: add.commute)
  ultimately show ?thesis by simp
qed

lemma length_my_requests: "int (length (my_requests k s)) \<le> max 0 k"
proof -
  have "length (my_requests k s) \<le> length (take (nat k) [My_aru s + 1..Highest_seq s])"
    unfolding my_requests_def by (rule length_filter_le)
  then show ?thesis by auto
qed

text \<open>
  C11: a daemon that misses packets appends one entry to the requests in the token: the first
  missing numbers above its \<open>My_aru\<close>, as many as fit.  The requests before are kept, and the
  result never exceeds the body of a token.
\<close>

theorem request_retrans_appends:
  assumes "My_aru s < Highest_seq s" and "requests_allowed new_ptr > 1"
    and "0 \<le> new_ptr" and "int (length buf) = sizeof_token_body"
  shows "\<exists>p. request_retrans r new_ptr buf s = Some (p,
      take (nat new_ptr) buf @ enc_entry (my_entry r new_ptr s) @ drop (nat p) buf) \<and>
    p = new_ptr + int (length (enc_entry (my_entry r new_ptr s))) \<and> p \<le> sizeof_token_body"
proof -
  let ?k = "requests_allowed new_ptr" and ?rr = "fst (my_entry r new_ptr s)"
  define qs where "qs = my_requests ?k s"
  define pre where "pre = take (nat new_ptr) buf"
  have k: "4 * ?k \<le> 1440 - new_ptr - 16"
    by (simp add: requests_allowed_def size_defs)
  have n: "int (length qs) \<le> ?k" using length_my_requests [of ?k s] assms(2) by (simp add: qs_def)
  have len: "int (length buf) = 1440" using assms(4) by (simp add: size_defs)
  then have room: "nat new_ptr + 16 + 4 * length qs \<le> length buf" using k n assms(3) by linarith
  have pre: "length pre = nat new_ptr" "int (length pre) = new_ptr" using room assms(3) by (simp_all add: pre_def)
  have e: "snd (my_entry r new_ptr s) = qs" by (simp add: my_entry_def qs_def Let_def)
  have enc: "enc_entry (my_entry r new_ptr s) = enc_ring_rtr ?rr @ enc_seqs qs"
    by (simp add: enc_entry_def e)
  have narrow: "to_int16 (int (length qs)) = int (length qs)"
    using n k assms(3) by (intro to_int16_id) linarith+
  obtain mid old post where buf: "buf = pre @ mid @ old @ post"
    and l: "length mid = 16" "length old = 4 * length qs"
    and post: "post = drop (nat new_ptr + 16 + 4 * length qs) buf"
  proof
    show "buf = pre @ take 16 (drop (nat new_ptr) buf) @
        take (4 * length qs) (drop (nat new_ptr + 16) buf) @ drop (nat new_ptr + 16 + 4 * length qs) buf"
      unfolding pre_def by (rule cut_in_four)
  qed (use room in simp_all)
  have put: "put_ring_rtr buf new_ptr ?rr = Some (pre @ enc_ring_rtr ?rr @ old @ post)"
    unfolding put_ring_rtr_def buf by (rule put_bytes_at) (use pre l assms(3) in simp_all)
  have reqs: "forM qs put_request (new_ptr + sizeof_ring_rtr, (pre @ enc_ring_rtr ?rr) @ old @ post) =
      Some (new_ptr + 16 + 4 * int (length qs), (pre @ enc_ring_rtr ?rr) @ enc_seqs qs @ post)"
    using put_requests [of old qs "pre @ enc_ring_rtr ?rr" post] l pre by (simp add: sizeof_ring_rtr_def)
  have rr: "?rr = \<lparr>rr_memb_id = Membership_id s, rr_proc_id = rt_proc_id r, rr_seg_index = rt_seg_index r,
       rr_num_seq = to_int16 (int (length qs))\<rparr>"
    by (simp add: my_entry_def qs_def [symmetric] narrow Let_def)
  have "request_retrans r new_ptr buf s = Some (new_ptr + 16 + 4 * int (length qs),
      pre @ enc_ring_rtr ?rr @ enc_seqs qs @ post)"
    unfolding request_retrans_def Let_def qs_def [symmetric] rr [symmetric] put
    using assms(1,2) reqs by simp
  moreover have "nat (new_ptr + 16 + 4 * int (length qs)) = nat new_ptr + 16 + 4 * length qs"
    using assms(3) by simp
  ultimately have "request_retrans r new_ptr buf s = Some (new_ptr + 16 + 4 * int (length qs),
      take (nat new_ptr) buf @ enc_entry (my_entry r new_ptr s) @ drop (nat (new_ptr + 16 + 4 * int (length qs))) buf)"
    by (simp only: enc pre_def post append_assoc)
  moreover have "new_ptr + 16 + 4 * int (length qs) \<le> sizeof_token_body"
    using room assms(3) assms(4) by linarith
  ultimately show ?thesis by (intro exI conjI) (simp_all add: e)
qed

definition gap_sample :: daemon where
  "gap_sample = sample\<lparr>Highest_seq := 3, Packets := (Packets sample)(2 := \<lparr>pk_head = 0, pk_body = [], pk_exist = 1, pk_proc_index = 0\<rparr>)\<rparr>"

definition no_retrans :: retrans where
  "no_retrans = \<lparr>rt_num = 0, rt_proc_id = 0, rt_seg_index = 0\<rparr>"

theorem request_retrans_appends_witness:
  "snd (my_entry no_retrans 0 gap_sample) = [1, 3] \<and>
   (\<exists>p. request_retrans no_retrans 0 (replicate 1440 0) gap_sample = Some (p,
      take (nat 0) (replicate 1440 0) @ enc_entry (my_entry no_retrans 0 gap_sample) @ drop (nat p) (replicate 1440 0)) \<and>
    p = 0 + int (length (enc_entry (my_entry no_retrans 0 gap_sample))) \<and> p \<le> sizeof_token_body)"
proof
  show "snd (my_entry no_retrans 0 gap_sample) = [1, 3]" by code_simp
  show "\<exists>p. request_retrans no_retrans 0 (replicate 1440 0) gap_sample = Some (p,
      take (nat 0) (replicate 1440 0) @ enc_entry (my_entry no_retrans 0 gap_sample) @ drop (nat p) (replicate 1440 0)) \<and>
    p = 0 + int (length (enc_entry (my_entry no_retrans 0 gap_sample))) \<and> p \<le> sizeof_token_body"
    by (rule request_retrans_appends) (simp_all add: gap_sample_def requests_allowed_def size_defs)
qed

section \<open>Answering\<close>

definition mine :: "membership_id \<Rightarrow> entry \<Rightarrow> bool" where
  "mine m e \<longleftrightarrow> Memb_is_equal (rr_memb_id (fst e)) m"

definition answer_all :: "entry list \<Rightarrow> retrans \<times> daemon \<Rightarrow> (retrans \<times> daemon) option" where
  "answer_all es = forM es (\<lambda>e. forM (snd e) (answer_request (fst e)))"

lemma memb_id_updates [simp]:
  "Membership_id (upd_status f s) = Membership_id s" "Membership_id (put_head r h s) = Membership_id s"
  by (simp_all add: upd_status_def put_head_def)

lemma memb_id_net_frame:
  assumes "net_frame s (s' :: daemon)"
  shows "Membership_id s' = Membership_id s"
proof -
  have eq: "s' = s\<lparr>sent := sent s', sendmsg_calls := sendmsg_calls s', heads := heads s',
    Queue_scat := Queue_scat s', Queued_bytes := Queued_bytes s'\<rparr>"
    using assms by (simp add: net_frame_def)
  show ?thesis by (subst eq) simp
qed

lemma memb_id_resend_packet: "resend_packet rr q s = Some (ret, s') \<Longrightarrow> Membership_id s' = Membership_id s"
  unfolding resend_packet_def Let_def
  by (auto split: if_splits prod.splits dest!: net_frame_Net_ucast net_frame_Net_scast
      net_frame_Net_queue_bcast dest: memb_id_net_frame)

lemma answer_request_memb_id:
  "answer_request rr q (r, s) = Some (r', s') \<Longrightarrow> Membership_id s' = Membership_id s"
  by (auto simp: answer_request_def bind_Some_iff dest!: memb_id_resend_packet split: if_splits)

lemma answer_entry_eq:
  assumes "wf_entry e"
  shows "answer_entry (fst e) (int (length pre) + sizeof_ring_rtr) (pre @ enc_entry e @ post) st =
    forM (snd e) (answer_request (fst e)) st"
proof -
  have n: "rr_num_seq (fst e) = int (length (snd e))" using assms by (simp add: wf_entry_def)
  have "answer_entry (fst e) (int (length pre) + sizeof_ring_rtr) (pre @ enc_entry e @ post) st =
      forM [0..int (length (snd e)) - 1] (\<lambda>i. answer_request (fst e) (snd e ! nat i)) st"
    unfolding answer_entry_def n
  proof (rule forM_cong)
    fix i st assume "i \<in> set [0..int (length (snd e)) - 1]"
    then have i: "nat i < length (snd e)" "i = int (nat i)" by auto
    then have "int32_range (snd e ! nat i)" using assms by (simp add: wf_entry_def)
    from get_seq_at [OF i(1) this, of "pre @ enc_ring_rtr (fst e)" post]
    have "get_int32 (pre @ enc_entry e @ post) (int (length pre) + sizeof_ring_rtr + sizeof_int32 * i) =
        Some (snd e ! nat i)"
      using i(2) by (simp add: enc_entry_def sizeof_ring_rtr_def)
    then show "Option.bind (get_int32 (pre @ enc_entry e @ post) (int (length pre) + sizeof_ring_rtr + sizeof_int32 * i))
        (\<lambda>q. answer_request (fst e) q st) = answer_request (fst e) (snd e ! nat i) st" by simp
  qed
  then show ?thesis by (simp add: forM_numbers)
qed

lemma forM_answer_memb_id:
  assumes "forM qs (answer_request rr) st = Some st'"
  shows "Membership_id (snd st') = Membership_id (snd st)"
proof (rule forM_preserves [OF assms, of "\<lambda>t. Membership_id (snd t) = Membership_id (snd st)"])
  fix i t t' assume "Membership_id (snd t) = Membership_id (snd st)" "answer_request rr i t = Some t'"
  then show "Membership_id (snd t') = Membership_id (snd st)"
    by (cases t; cases t') (simp add: answer_request_memb_id)
qed simp

lemma answer_loop_entries:
  assumes "\<forall>e \<in> set es. wf_entry e"
    and "old = int (length (pre @ junk))" and "new = int (length pre)"
    and "len = old + int (length (enc_entries es))"
  shows "\<exists>post'. answer_loop len old new (pre @ junk @ enc_entries es @ post) st =
    map_option (\<lambda>st'. (int (length (pre @ enc_entries (filter (\<lambda>e. \<not> mine (Membership_id (snd st)) e) es))),
        pre @ enc_entries (filter (\<lambda>e. \<not> mine (Membership_id (snd st)) e) es) @ post', st'))
      (answer_all (filter (mine (Membership_id (snd st))) es) st)"
  using assms
proof (induction es arbitrary: pre junk old new st)
  case Nil
  then show ?case by (simp add: answer_loop.simps answer_all_def)
next
  case (Cons e es)
  let ?m = "Membership_id (snd st)" and ?n = "length (enc_entry e)"
  let ?buf = "pre @ junk @ enc_entries (e # es) @ post"
  have wf: "wf_entry e" "\<forall>e \<in> set es. wf_entry e" using Cons.prems(1) by simp_all
  have num: "rr_num_seq (fst e) = int (length (snd e))" "wf_ring_rtr (fst e)" using wf(1) by (simp_all add: wf_entry_def)
  have lt: "old < len" using Cons.prems(4) by simp
  have get: "get_ring_rtr ?buf old = Some (fst e)"
    using get_ring_rtr_at [OF num(2), of "pre @ junk" "enc_seqs (snd e) @ enc_entries es @ post"]
    by (simp add: Cons.prems(2) enc_entry_def)
  show ?case
  proof (cases "mine ?m e")
    case True
    have eq: "Memb_is_equal (rr_memb_id (fst e)) ?m" using True by (simp add: mine_def)
    have ans: "answer_entry (fst e) (old + sizeof_ring_rtr) ?buf st = forM (snd e) (answer_request (fst e)) st"
      using answer_entry_eq [OF wf(1), of "pre @ junk" "enc_entries es @ post" st] by (simp add: Cons.prems(2))
    have off: "old + sizeof_ring_rtr + sizeof_int32 * max 0 (rr_num_seq (fst e)) = old + int ?n"
      by (simp add: num sizeof_ring_rtr_def sizeof_int32_def)
    have step: "answer_loop len old new ?buf st = Option.bind (forM (snd e) (answer_request (fst e)) st)
        (answer_loop len (old + int ?n) new ?buf)"
      by (subst answer_loop.simps) (simp only: get lt eq ans off if_True bind.bind_lunit)
    show ?thesis
    proof (cases "forM (snd e) (answer_request (fst e)) st")
      case None
      then show ?thesis using True unfolding step by (simp add: answer_all_def del: enc_entries_simps)
    next
      case (Some st1)
      have same: "Membership_id (snd st1) = ?m" using Some by (rule forM_answer_memb_id)
      have "\<exists>post'. answer_loop len (old + int ?n) new (pre @ (junk @ enc_entry e) @ enc_entries es @ post) st1 =
        map_option (\<lambda>st'. (int (length (pre @ enc_entries (filter (\<lambda>e. \<not> mine (Membership_id (snd st1)) e) es))),
            pre @ enc_entries (filter (\<lambda>e. \<not> mine (Membership_id (snd st1)) e) es) @ post', st'))
          (answer_all (filter (mine (Membership_id (snd st1))) es) st1)"
        by (rule Cons.IH) (use wf(2) Cons.prems in simp_all)
      moreover have "pre @ (junk @ enc_entry e) @ enc_entries es @ post = ?buf" by simp
      ultimately have "\<exists>post'. answer_loop len (old + int ?n) new ?buf st1 =
        map_option (\<lambda>st'. (int (length (pre @ enc_entries (filter (\<lambda>e. \<not> mine ?m e) es))),
            pre @ enc_entries (filter (\<lambda>e. \<not> mine ?m e) es) @ post', st'))
          (answer_all (filter (mine ?m) es) st1)"
        unfolding same by simp
      then show ?thesis using True unfolding step Some by (simp add: answer_all_def Some del: enc_entries_simps)
    qed
  next
    case False
    have ne: "\<not> Memb_is_equal (rr_memb_id (fst e)) ?m" using False by (simp add: mine_def)
    define junk' where "junk' = drop ?n (junk @ enc_entry e)"
    have moved: "(if new \<noteq> old then memmove_in ?buf new old (int ?n) else Some ?buf) =
        Some ((pre @ enc_entry e) @ junk' @ enc_entries es @ post)"
    proof (cases "junk = []")
      case True
      then show ?thesis by (simp add: Cons.prems junk'_def)
    next
      case j: False
      have g: "get_bytes ?buf old (int ?n) = Some (enc_entry e)"
        using get_bytes_at [of old "pre @ junk" "int ?n" "enc_entry e" "enc_entries es @ post"]
        by (simp add: Cons.prems(2))
      have w: "put_bytes (pre @ take ?n (junk @ enc_entry e) @ (junk' @ enc_entries es @ post)) new (enc_entry e) =
          Some (pre @ enc_entry e @ junk' @ enc_entries es @ post)"
        by (rule put_bytes_at) (simp_all add: Cons.prems(3))
      have b: "pre @ take ?n (junk @ enc_entry e) @ (junk' @ enc_entries es @ post) = ?buf"
        by (metis junk'_def append_assoc append_take_drop_id enc_entries_simps(2))
      have "memmove_in ?buf new old (int ?n) = Some (pre @ enc_entry e @ junk' @ enc_entries es @ post)"
        unfolding memmove_in_def g bind.bind_lunit using w unfolding b .
      then show ?thesis using j Cons.prems(2,3) by simp
    qed
    have n: "sizeof_ring_rtr + rr_num_seq (fst e) * sizeof_int32 = int ?n"
      by (simp add: num sizeof_ring_rtr_def sizeof_int32_def)
    have step: "answer_loop len old new ?buf st =
        answer_loop len (old + int ?n) (new + int ?n) ((pre @ enc_entry e) @ junk' @ enc_entries es @ post) st"
      by (subst answer_loop.simps) (simp only: get lt ne n moved Let_def if_True if_False bind.bind_lunit)
    have "\<exists>post'. answer_loop len (old + int ?n) (new + int ?n) ((pre @ enc_entry e) @ junk' @ enc_entries es @ post) st =
        map_option (\<lambda>st'. (int (length ((pre @ enc_entry e) @ enc_entries (filter (\<lambda>e. \<not> mine ?m e) es))),
            (pre @ enc_entry e) @ enc_entries (filter (\<lambda>e. \<not> mine ?m e) es) @ post', st'))
          (answer_all (filter (mine ?m) es) st)"
      by (rule Cons.IH) (use wf(2) Cons.prems in \<open>simp_all add: junk'_def\<close>)
    then show ?thesis using False unfolding step by simp
  qed
qed


definition some_entries :: "entry list" where
  "some_entries = [(\<lparr>rr_memb_id = sample_memb_id, rr_proc_id = 1, rr_seg_index = 0, rr_num_seq = 2\<rparr>, [2, 3]),
     (\<lparr>rr_memb_id = \<lparr>mid_proc_id = 9, mid_time = 9\<rparr>, rr_proc_id = 1, rr_seg_index = 0, rr_num_seq = 1\<rparr>, [7])]"


section \<open>The other endianness\<close>

text \<open>The bytes of an entry in the memory of a daemon of the other endianness.\<close>

definition other_entry :: "entry \<Rightarrow> byte list" where
  "other_entry e = enc_ring_rtr (Flip_ring_rtr (fst e)) @ enc_seqs (map flip_i32 (snd e))"

definition other_entries :: "entry list \<Rightarrow> byte list" where
  "other_entries es = concat (map other_entry es)"

lemma other_entries_simps [simp]:
  "other_entries [] = []" "other_entries (e # es) = other_entry e @ other_entries es"
  by (simp_all add: other_entries_def)

lemma length_other_entry [simp]: "length (other_entry e) = 16 + 4 * length (snd e)"
  by (simp add: other_entry_def)

lemma flip_i32_range [simp]: "int32_range (flip_i32 q)"
  using sint_greater_eq [of "Flip_int32 (word_of_int q)"] sint_less [of "Flip_int32 (word_of_int q)"]
  by (simp add: int32_range_def flip_i32_def)

lemma flip_i16_range [simp]: "int16_range (flip_i16 q)"
  using sint_greater_eq [of "Flip_int16 (word_of_int q)"] sint_less [of "Flip_int16 (word_of_int q)"]
  by (simp add: int16_range_def flip_i16_def)

lemma flip_i32_flip_i32 [simp]: "int32_range q \<Longrightarrow> flip_i32 (flip_i32 q) = q"
  by (simp add: flip_i32_involution int32_range_def)

lemma flip_i16_flip_i16 [simp]: "int16_range q \<Longrightarrow> flip_i16 (flip_i16 q) = q"
  by (simp add: flip_i16_involution int16_range_def)

lemma wf_Flip_ring_rtr: "wf_ring_rtr rr \<Longrightarrow> wf_ring_rtr (Flip_ring_rtr rr)"
  by (simp add: wf_ring_rtr_def wf_memb_id_def Flip_ring_rtr_def Flip_memb_id_def)

lemma Flip_ring_rtr_involution: "wf_ring_rtr rr \<Longrightarrow> Flip_ring_rtr (Flip_ring_rtr rr) = rr"
  by (simp add: wf_ring_rtr_def wf_memb_id_def Flip_ring_rtr_def Flip_memb_id_def)

lemma flip_requests:
  assumes "\<forall>q \<in> set qs. int32_range q"
  shows "forM [0..int (length qs) - 1] (flip_request (int (length pre))) (pre @ enc_seqs (map flip_i32 qs) @ post) =
    Some (pre @ enc_seqs qs @ post)"
proof -
  let ?P = "\<lambda>i buf. buf = pre @ enc_seqs (take (nat i) qs) @ enc_seqs (map flip_i32 (drop (nat i) qs)) @ post"
  have "\<exists>t. forM [0..int (length qs) - 1] (flip_request (int (length pre)))
      (pre @ enc_seqs (map flip_i32 qs) @ post) = Some t \<and> ?P (int (length qs) - 1 + 1) t"
  proof (rule forM_total)
    fix i buf assume i: "0 \<le> i" "i \<le> int (length qs) - 1" and buf: "?P i buf"
    define k where "k = nat i"
    have k: "k < length qs" "i = int k" using i by (auto simp: k_def)
    have range: "int32_range (qs ! k)" using assms k(1) by simp
    let ?pre = "pre @ enc_seqs (take k qs)" and ?rest = "enc_seqs (map flip_i32 (drop (Suc k) qs)) @ post"
    have buf': "buf = ?pre @ bytes32 (word_of_int (flip_i32 (qs ! k))) @ ?rest"
      using buf k by (simp add: Cons_nth_drop_Suc [symmetric] flip: k_def)
    have off: "int (length pre) + sizeof_int32 * i = int (length ?pre)"
      using k by (simp add: sizeof_int32_def)
    have "flip_request (int (length pre)) i buf = Some (?pre @ bytes32 (word_of_int (qs ! k)) @ ?rest)"
      unfolding flip_request_def off unfolding buf'
      using get_int32_at [of "flip_i32 (qs ! k)" ?pre ?rest]
        put_int32_at [of "bytes32 (word_of_int (flip_i32 (qs ! k)))" ?pre ?rest "qs ! k"] range by simp
    moreover have "?P (i + 1) (?pre @ bytes32 (word_of_int (qs ! k)) @ ?rest)"
      using k by (simp add: nat_add_distrib take_Suc_conv_app_nth)
    ultimately show "\<exists>t. flip_request (int (length pre)) i buf = Some t \<and> ?P (i + 1) t" by blast
  qed simp_all
  then show ?thesis by simp
qed

lemma flip_token_loop_entries:
  assumes "\<forall>e \<in> set es. wf_entry e"
    and "ptr = int (length pre)" and "len = ptr + int (length (other_entries es))"
  shows "flip_token_loop len ptr (pre @ other_entries es @ post) = Some (pre @ enc_entries es @ post)"
  using assms
proof (induction es arbitrary: pre ptr)
  case Nil
  then show ?case by (simp add: flip_token_loop.simps)
next
  case (Cons e es)
  obtain rr qs where e: "e = (rr, qs)" by (cases e)
  have wf: "wf_ring_rtr rr" "rr_num_seq rr = int (length qs)" "\<forall>q \<in> set qs. int32_range q"
    using Cons.prems(1) by (simp_all add: wf_entry_def e)
  let ?rest = "other_entries es @ post"
  let ?buf = "pre @ enc_ring_rtr (Flip_ring_rtr rr) @ enc_seqs (map flip_i32 qs) @ ?rest"
  have buf: "pre @ other_entries (e # es) @ post = ?buf" by (simp add: other_entry_def e)
  have get: "get_ring_rtr ?buf ptr = Some (Flip_ring_rtr rr)"
    using get_ring_rtr_at [OF wf_Flip_ring_rtr [OF wf(1)], of pre] by (simp add: Cons.prems(2))
  have put: "put_ring_rtr ?buf ptr rr = Some ((pre @ enc_ring_rtr rr) @ enc_seqs (map flip_i32 qs) @ ?rest)"
    unfolding put_ring_rtr_def
    using put_bytes_at [of ptr pre "enc_ring_rtr rr" "enc_ring_rtr (Flip_ring_rtr rr)"] by (simp add: Cons.prems(2))
  have off: "ptr + sizeof_ring_rtr = int (length (pre @ enc_ring_rtr rr))"
    by (simp add: Cons.prems(2) sizeof_ring_rtr_def)
  have reqs: "forM [0..rr_num_seq rr - 1] (flip_request (ptr + sizeof_ring_rtr))
      ((pre @ enc_ring_rtr rr) @ enc_seqs (map flip_i32 qs) @ ?rest) =
      Some ((pre @ enc_ring_rtr rr) @ enc_seqs qs @ ?rest)"
    unfolding wf(2) off by (rule flip_requests [OF wf(3)])
  have adv: "ptr + sizeof_ring_rtr + sizeof_int32 * max 0 (rr_num_seq rr) = int (length (pre @ enc_entry e))"
    by (simp add: Cons.prems(2) sizeof_ring_rtr_def sizeof_int32_def wf(2) e)
  have lt: "ptr < len" using Cons.prems(3) by (simp add: e)
  have "flip_token_loop len ptr ?buf =
      flip_token_loop len (int (length (pre @ enc_entry e))) ((pre @ enc_entry e) @ ?rest)"
    by (subst flip_token_loop.simps)
      (simp only: lt get if_True bind.bind_lunit Let_def Flip_ring_rtr_involution [OF wf(1)] put reqs adv,
       simp add: enc_entry_def e)
  also have "\<dots> = Some ((pre @ enc_entry e) @ enc_entries es @ post)"
    by (rule Cons.IH) (use Cons.prems in simp_all)
  finally show ?case unfolding buf by simp
qed



end
