(* ===== verification/Forming.thy ===== *)
theory Forming
  imports Memb_form Topology
begin

text \<open>
  What the form1 token collects: the sets of process ids as an interface with the model's
  \<open>Insert_member\<close>, the holes of an old ring and its committed members after the token passed
  the members of the ring, the representatives, and the order of the new membership.
\<close>

section \<open>Bounded sets of ids\<close>

locale id_set =
  fixes ins :: "'e \<Rightarrow> 's \<Rightarrow> 's" and elems :: "'s \<Rightarrow> 'e list" and valid :: "'s \<Rightarrow> bool" and cap :: nat
  assumes ins_valid: "valid s \<Longrightarrow> valid (ins x s)"
    and ins_elems: "valid s \<Longrightarrow> elems (ins x s) =
      (if x \<in> set (elems s) \<or> length (elems s) = cap then elems s else elems s @ [x])"
    and elems_distinct: "valid s \<Longrightarrow> distinct (elems s)"
    and elems_cap: "valid s \<Longrightarrow> length (elems s) \<le> cap"
begin

lemma fold_valid: "valid s \<Longrightarrow> valid (fold ins xs s)"
  by (induction xs arbitrary: s) (simp_all add: ins_valid)

lemma fold_prefix: "valid s \<Longrightarrow> \<exists>ys. elems (fold ins xs s) = elems s @ ys \<and> set ys \<subseteq> set xs"
proof (induction xs arbitrary: s)
  case Nil
  then show ?case by simp
next
  case (Cons x xs)
  from Cons.IH [OF ins_valid [OF Cons.prems]] obtain ys where
    "elems (fold ins xs (ins x s)) = elems (ins x s) @ ys" "set ys \<subseteq> set xs" by blast
  then show ?case
    using ins_elems [OF Cons.prems, of x]
    by (cases "x \<in> set (elems s) \<or> length (elems s) = cap")
      (auto intro!: exI [of _ "if x \<in> set (elems s) \<or> length (elems s) = cap then ys else x # ys"])
qed

lemma fold_all_new:
  assumes "valid s" and "length (elems (fold ins xs s)) = length (elems s) + length xs"
  shows "elems (fold ins xs s) = elems s @ xs"
  using assms
proof (induction xs arbitrary: s)
  case Nil
  then show ?case by simp
next
  case (Cons x xs)
  have len: "length (elems (fold ins xs t)) \<le> length (elems t) + length xs" if "valid t" for t
    using that
  proof (induction xs arbitrary: t)
    case (Cons y ys)
    have "length (elems (fold ins ys (ins y t))) \<le> length (elems (ins y t)) + length ys"
      by (rule Cons.IH [OF ins_valid [OF Cons.prems]])
    also have "length (elems (ins y t)) \<le> Suc (length (elems t))"
      using ins_elems [OF Cons.prems, of y] by simp
    finally show ?case by simp
  qed simp
  from Cons.prems len [OF ins_valid [OF Cons.prems(1)], of x]
  have grow: "elems (ins x s) = elems s @ [x]"
    using ins_elems [OF Cons.prems(1), of x] by (auto split: if_splits)
  then show ?case using Cons.IH [OF ins_valid [OF Cons.prems(1)], of x] Cons.prems(2) by simp
qed

lemma fold_union:
  assumes "valid s" and "card (set (elems s) \<union> set xs) \<le> cap"
  shows "set (elems (fold ins xs s)) = set (elems s) \<union> set xs"
  using assms
proof (induction xs arbitrary: s)
  case Nil
  then show ?case by simp
next
  case (Cons x xs)
  have step: "set (elems (ins x s)) = insert x (set (elems s))"
  proof (cases "x \<in> set (elems s)")
    case False
    have "card (insert x (set (elems s))) \<le> card (set (elems s) \<union> set (x # xs))"
      by (rule card_mono) auto
    then have "length (elems s) \<noteq> cap"
      using Cons.prems(2) False distinct_card [OF elems_distinct [OF Cons.prems(1)]] by simp
    with False show ?thesis by (simp add: ins_elems [OF Cons.prems(1)])
  qed (simp add: ins_elems [OF Cons.prems(1)] insert_absorb)
  then have "card (set (elems (ins x s)) \<union> set xs) \<le> cap" using Cons.prems(2) by simp
  from Cons.IH [OF ins_valid [OF Cons.prems(1)] this] step show ?case by simp
qed

end

definition put_member :: "int32u \<Rightarrow> members_info \<Rightarrow> members_info" where
  "put_member x m = snd (Insert_member m x)"

interpretation ms: id_set put_member active members_ok 128
proof unfold_locales
  fix s x assume ok: "members_ok s"
  then have n: "0 \<le> num_members s" "num_members s = int (length (active s))" "num_members s \<le> 128"
    using length_active [of s] by (simp_all add: members_ok_def MAX_MEMBERS_def)
  show "members_ok (put_member x s)" using ok by (simp add: put_member_def Insert_member_ok)
  show "active (put_member x s) = (if x \<in> set (active s) \<or> length (active s) = 128 then active s else active s @ [x])"
    using n by (simp add: put_member_def Insert_member_active MAX_MEMBERS_def)
  show "distinct (active s)" using ok by (simp add: members_ok_def)
  show "length (active s) \<le> 128" using n by simp
qed

lemma insert_members_fold: "insert_members xs m = fold put_member xs m"
  by (induction xs arbitrary: m) (simp_all add: insert_members_def put_member_def)

lemma empty_members_ok: "members_ok empty_members" "active empty_members = []"
  by (simp_all add: members_ok_def active_def empty_members_def MAX_MEMBERS_def)

section \<open>Holes and commits of an old ring\<close>

text \<open>
  The entry of a ring after the token passed its members \<open>ss\<close> in this order; the first one
  writes the entry, looking for missing packets above \<open>from\<close>.
\<close>

fun collect_ring :: "int \<Rightarrow> daemon list \<Rightarrow> ring_info option" where
  "collect_ring from [] = None"
| "collect_ring from [s] = Some (first_ring from s)"
| "collect_ring from (s # t # ss) =
     foldl (\<lambda>g u. Option.bind g (\<lambda>g. merge_ring g u)) (Some (first_ring from s)) (t # ss)"

definition missed_by_all :: "daemon list \<Rightarrow> int \<Rightarrow> bool" where
  "missed_by_all ss q \<longleftrightarrow> (\<forall>s \<in> set ss. pk_exist (pkt s q) = 0)"

text \<open>Above its \<open>Highest_seq\<close> a daemon holds nothing, up to the numbers in question.\<close>

definition clear_above :: "int \<Rightarrow> daemon \<Rightarrow> bool" where
  "clear_above limit s \<longleftrightarrow> Highest_seq s \<le> limit \<and> (\<forall>q \<in> {Highest_seq s<..limit}. pk_exist (pkt s q) = 0)"

definition ring_entry_ok :: "int \<Rightarrow> daemon list \<Rightarrow> ring_info \<Rightarrow> bool" where
  "ring_entry_ok from ss g \<longleftrightarrow> rg_num_trans g = int (length ss) \<and>
     from \<le> rg_highest_seq g \<and>
     (\<forall>s \<in> set ss. Highest_seq s \<le> rg_highest_seq g \<and> Aru s \<le> rg_aru g) \<and>
     rg_highest_seq g \<in> Highest_seq ` set ss \<and> rg_aru g \<in> Aru ` set ss \<and>
     (\<forall>q. q \<in> set (rg_holes g) \<longleftrightarrow> from < q \<and> q \<le> rg_highest_seq g \<and> missed_by_all ss q)"

lemma first_ring_ok: "from \<le> Highest_seq s \<Longrightarrow> ring_entry_ok from [s] (first_ring from s)"
  by (auto simp: ring_entry_ok_def first_ring_def missing_def missed_by_all_def)

lemma merge_ring_ok:
  assumes "ring_entry_ok from ss g" and "merge_ring g s = Some g'"
    and "\<forall>t \<in> set (s # ss). clear_above limit t"
  shows "ring_entry_ok from (ss @ [s]) g'"
proof -
  let ?h = "rg_highest_seq g" and ?hs = "Highest_seq s"
  from assms(2) obtain commits where g': "g' = \<lparr>rg_memb_id = Membership_id s, rg_trans_time = 0,
       rg_aru = (if rg_aru g > Aru s then rg_aru g else Aru s),
       rg_highest_seq = (if ?h > ?hs then ?h else ?hs),
       rg_num_trans = rg_num_trans g + 1,
       rg_holes = merged_holes g s, rg_commits = commits\<rparr>"
    by (auto simp: merge_ring_def bind_Some_iff)
  have holes: "\<And>q. q \<in> set (rg_holes g) \<longleftrightarrow> from < q \<and> q \<le> ?h \<and> missed_by_all ss q"
    using assms(1) by (simp add: ring_entry_ok_def)
  have above: "missed_by_all ss q" if "?h < q" "q \<le> ?hs" for q
    using that assms(1,3) by (fastforce simp: missed_by_all_def clear_above_def ring_entry_ok_def)
  have own: "pk_exist (pkt s q) = 0" if "?hs < q" "q \<le> ?h" for q
  proof -
    have "?h \<le> limit" using assms(1,3) by (auto simp: ring_entry_ok_def clear_above_def)
    then show ?thesis using that assms(3) by (simp add: clear_above_def)
  qed
  have "q \<in> set (merged_holes g s) \<longleftrightarrow> from < q \<and> q \<le> (if ?h > ?hs then ?h else ?hs) \<and> missed_by_all (ss @ [s]) q" for q
  proof (cases "q \<le> ?h")
    case True
    then show ?thesis using own [of q] by (auto simp: merged_holes_def missing_def holes missed_by_all_def)
  next
    case False
    then show ?thesis using above [of q] assms(1)
      by (auto simp: merged_holes_def missing_def holes missed_by_all_def ring_entry_ok_def)
  qed
  with assms(1) show ?thesis by (auto simp: ring_entry_ok_def g')
qed

lemma merge_rings_ok:
  assumes "foldl (\<lambda>g u. Option.bind g (\<lambda>g. merge_ring g u)) (Some g) us = Some g'"
    and "ring_entry_ok from ss g" and "\<forall>t \<in> set (ss @ us). clear_above limit t"
  shows "ring_entry_ok from (ss @ us) g'"
  using assms
proof (induction us arbitrary: g ss)
  case Nil
  then show ?case by simp
next
  case (Cons u us)
  have none: "foldl (\<lambda>g u. Option.bind g (\<lambda>g. merge_ring g u)) None us = None" by (induction us) simp_all
  with Cons.prems(1) obtain g1 where g1: "merge_ring g u = Some g1"
      "foldl (\<lambda>g u. Option.bind g (\<lambda>g. merge_ring g u)) (Some g1) us = Some g'"
    by (cases "merge_ring g u") simp_all
  have "ring_entry_ok from (ss @ [u]) g1"
    using merge_ring_ok [OF Cons.prems(2) g1(1), of limit] Cons.prems(3) by simp
  from Cons.IH [OF g1(2) this] Cons.prems(3) show ?case by simp
qed

text \<open>
  C14: after the form1 token passed members of an old ring, its entry names as holes exactly the
  numbers above the start that none of them holds, up to the highest number any of them has
  seen; \<open>aru\<close> and \<open>highest_seq\<close> are the maxima, and the transitional members are counted.
\<close>

theorem Form1_holes_missed_by_all:
  assumes "collect_ring from ss = Some g" and "from \<le> Highest_seq (hd ss)"
    and "\<forall>s \<in> set ss. clear_above limit s"
  shows "rg_highest_seq g = Max (Highest_seq ` set ss) \<and> rg_aru g = Max (Aru ` set ss) \<and>
    rg_num_trans g = int (length ss) \<and>
    set (rg_holes g) = {q. from < q \<and> q \<le> rg_highest_seq g \<and> missed_by_all ss q}"
proof -
  have ok: "ring_entry_ok from ss g"
    using assms
  proof (cases rule: collect_ring.cases [of "(from, ss)"])
    case (2 f s)
    then show ?thesis using assms first_ring_ok by auto
  next
    case (3 f s t us)
    then have "ring_entry_ok from ([s] @ t # us) g"
      using assms by (intro merge_rings_ok [where limit = limit]) (auto intro: first_ring_ok)
    with 3 show ?thesis by simp
  qed simp
  have "finite (Highest_seq ` set ss)" "finite (Aru ` set ss)" by simp_all
  moreover have "rg_highest_seq g \<in> Highest_seq ` set ss" "rg_aru g \<in> Aru ` set ss"
    using ok by (simp_all add: ring_entry_ok_def)
  ultimately have "rg_highest_seq g = Max (Highest_seq ` set ss)" "rg_aru g = Max (Aru ` set ss)"
    using ok by (auto simp: ring_entry_ok_def intro!: Max_eqI [symmetric])
  with ok show ?thesis by (auto simp: ring_entry_ok_def)
qed

definition member_sample :: "nat \<Rightarrow> int list \<Rightarrow> int \<Rightarrow> daemon" where
  "member_sample i held highest = sample\<lparr>Memb_My := sample_proc i, Highest_seq := highest,
     Packets := (\<lambda>e. \<lparr>pk_head = 0, pk_body = [], pk_exist = (if e \<in> set held then 1 else 0), pk_proc_index = 0\<rparr>)\<rparr>"

theorem Form1_holes_missed_by_all_witness:
  "\<exists>g. collect_ring 0 [member_sample 0 [1, 4] 4, member_sample 1 [1, 2] 5] = Some g \<and> rg_holes g = [3, 5] \<and>
    rg_highest_seq g = Max (Highest_seq ` set [member_sample 0 [1, 4] 4, member_sample 1 [1, 2] 5]) \<and>
    rg_aru g = Max (Aru ` set [member_sample 0 [1, 4] 4, member_sample 1 [1, 2] 5]) \<and>
    rg_num_trans g = int (length [member_sample 0 [1, 4] 4, member_sample 1 [1, 2] 5]) \<and>
    set (rg_holes g) = {q. 0 < q \<and> q \<le> rg_highest_seq g \<and>
      missed_by_all [member_sample 0 [1, 4] 4, member_sample 1 [1, 2] 5] q}"
proof -
  have "map_option rg_holes (collect_ring 0 [member_sample 0 [1, 4] 4, member_sample 1 [1, 2] 5]) = Some [3, 5]"
    by code_simp
  then obtain g where g: "collect_ring 0 [member_sample 0 [1, 4] 4, member_sample 1 [1, 2] 5] = Some g"
    "rg_holes g = [3, 5]" by auto
  have i: "{4<..5} = {5 :: int}" by auto
  have "\<forall>s \<in> set [member_sample 0 [1, 4] 4, member_sample 1 [1, 2] 5]. clear_above 5 s"
    by (auto simp: clear_above_def member_sample_def pkt_def slot_mod)
  from Form1_holes_missed_by_all [OF g(1) _ this] g show ?thesis
    by (intro exI [of _ g] conjI) (simp_all add: member_sample_def)
qed



section \<open>The order of the members\<close>

lemma known_active_total:
  assumes "\<forall>x \<in> set (active m). known c x" and "1 \<le> num_members m"
  shows "\<exists>pid k. Smallest_member c m = Some (pid, k)"
  using assms by (intro Smallest_member_total) (auto simp: active_def)


definition unsorted_members :: members_info where
  "unsorted_members = no_members\<lparr>num_members := 3, members := (\<lambda>i. if i = 0 then 3 else if i = 1 then 1 else 2)\<rparr>"


section \<open>Identifiers\<close>

text \<open>
  The identifier the future leader writes into the second form token is newer than every
  time it has used: later than its clock and than \<open>Last_time_used\<close>, which it becomes, so a
  daemon never makes the same membership identifier twice; the time for the transitional
  membership lies between the two.
\<close>

theorem Memb_id_is_fresh:
  assumes "fill_memb_id b s = (t, b', s')" and "num_members (f2_members b) = 1"
  shows "Last_time_used s < t \<and> t < mid_time (f2_memb_id b') \<and>
    sec (clock s (clock_reads s)) \<le> t \<and>
    mid_time (f2_memb_id b') = Last_time_used s' \<and> mid_proc_id (f2_memb_id b') = p_id (Memb_My s)"
  using assms by (auto simp: fill_memb_id_def fresh_time_def E_get_time_def Let_def)

theorem Memb_id_is_fresh_witness:
  "\<exists>t b' s'. fill_memb_id \<lparr>f2_members = no_members\<lparr>num_members := 1\<rparr>, f2_memb_id = sample_memb_id, f2_rings = []\<rparr> sample = (t, b', s') \<and>
    Last_time_used sample < t \<and> t < mid_time (f2_memb_id b') \<and>
    sec (clock sample (clock_reads sample)) \<le> t \<and>
    mid_time (f2_memb_id b') = Last_time_used s' \<and> mid_proc_id (f2_memb_id b') = p_id (Memb_My sample)"
proof -
  let ?b = "\<lparr>f2_members = no_members\<lparr>num_members := 1\<rparr>, f2_memb_id = sample_memb_id, f2_rings = []\<rparr>"
  obtain t b' s' where run: "fill_memb_id ?b sample = (t, b', s')" by (metis prod_cases3)
  have "num_members (f2_members ?b) = 1" by simp
  from Memb_id_is_fresh [OF run this] run show ?thesis
    by (intro exI [of _ t] exI [of _ b'] exI [of _ s'] conjI) simp_all
qed

section \<open>The memberships that are installed\<close>

lemma append_known:
  assumes "table_ok c" and "k < num_total_procs (Config c)"
  shows "Conf_append_id_to_seg c sg (proc_id_at c k) = Some (sg\<lparr>seg_procs := seg_procs sg @ [k]\<rparr>)"
proof -
  have "Conf_proc_ref_by_id c (proc_id_at c k) = Some k"
    using table_lookup [OF assms] by (auto simp: Conf_proc_by_id_def Conf_proc_ref_by_id_def)
  then show ?thesis by (simp add: Conf_append_id_to_seg_def)
qed

definition chosen :: "'a conf_state_scheme \<Rightarrow> members_info \<Rightarrow> int \<Rightarrow> nat \<Rightarrow> bool" where
  "chosen c m n k \<longleftrightarrow> proc_id_at c k \<in> members m ` {0..n - 1}"

lemma segment_of_commit_eq:
  assumes "table_ok c" and "\<forall>k \<in> set (seg_list (Config c) i). k < num_total_procs (Config c)"
  shows "segment_of_commit c m n i sg = Some (sg\<lparr>seg_procs := filter (chosen c m n) (seg_list (Config c) i)\<rparr>)"
proof -
  let ?body = "\<lambda>k sg. let pid = proc_id_at c k in
     if list_ex (\<lambda>j. members m j = pid) [0..n - 1] then Conf_append_id_to_seg c sg pid else Some sg"
  have ch: "list_ex (\<lambda>j. members m j = proc_id_at c k) [0..n - 1] \<longleftrightarrow> chosen c m n k" for k
    unfolding list_ex_iff chosen_def image_iff by (simp add: eq_commute)
  have "forM ks ?body sg' = Some (sg'\<lparr>seg_procs := seg_procs sg' @ filter (chosen c m n) ks\<rparr>)"
    if "\<forall>k \<in> set ks. k < num_total_procs (Config c)" for ks sg'
    using that by (induction ks arbitrary: sg') (simp_all add: ch append_known [OF assms(1)] Let_def)
  from this [OF assms(2), of "sg\<lparr>seg_procs := []\<rparr>"] show ?thesis
    by (simp add: segment_of_commit_def seg_list_def)
qed

lemma memb_of_commit_segs:
  assumes "table_ok c" and "\<forall>k \<in> set (ring_of (Config c)). k < num_total_procs (Config c)"
  shows "\<exists>cf. memb_of_commit c m n cf0 = Some cf \<and> num_segments cf = num_segments (Config c) \<and>
    (\<forall>i < num_segments cf. seg_list cf i = filter (chosen c m n) (seg_list (Config c) i))"
proof -
  let ?body = "\<lambda>i cf. do { sg \<leftarrow> segment_of_commit c m n i (segments cf i);
                    Some (cf\<lparr>segments := (segments cf)(i := sg)\<rparr>) }"
  have known: "\<forall>k \<in> set (seg_list (Config c) i). k < num_total_procs (Config c)" if "i < num_segments (Config c)" for i
    using assms(2) that by (auto simp: ring_of_def)
  have "\<exists>cf. forM [0..<j] ?body cf1 = Some cf \<and> num_segments cf = num_segments cf1 \<and>
      (\<forall>i < j. seg_list cf i = filter (chosen c m n) (seg_list (Config c) i))"
    if "j \<le> num_segments (Config c)" for j cf1
    using that
  proof (induction j)
    case 0
    then show ?case by simp
  next
    case (Suc j)
    from Suc.prems have "j \<le> num_segments (Config c)" by simp
    from Suc.IH [OF this] obtain cf where cf: "forM [0..<j] ?body cf1 = Some cf" "num_segments cf = num_segments cf1"
      "\<forall>i < j. seg_list cf i = filter (chosen c m n) (seg_list (Config c) i)" by blast
    let ?sg = "(segments cf j)\<lparr>seg_procs := filter (chosen c m n) (seg_list (Config c) j)\<rparr>"
    have "forM [0..<Suc j] ?body cf1 = Some (cf\<lparr>segments := (segments cf)(j := ?sg)\<rparr>)"
      using Suc.prems cf(1) segment_of_commit_eq [OF assms(1) known, of j m n]
      by (simp add: forM_append del: fun_upd_apply)
    moreover have "num_segments (cf\<lparr>segments := (segments cf)(j := ?sg)\<rparr>) = num_segments cf1"
      "\<forall>i < Suc j. seg_list (cf\<lparr>segments := (segments cf)(j := ?sg)\<rparr>) i = filter (chosen c m n) (seg_list (Config c) i)"
      using cf by (auto simp: less_Suc_eq seg_list_def)
    ultimately show ?case by blast
  qed
  from this [OF le_refl, of "cf0\<lparr>num_segments := num_segments (Config c)\<rparr>"] obtain cf where
    "forM [0..<num_segments (Config c)] ?body (cf0\<lparr>num_segments := num_segments (Config c)\<rparr>) = Some cf"
    "num_segments cf = num_segments (Config c)"
    "\<forall>i < num_segments (Config c). seg_list cf i = filter (chosen c m n) (seg_list (Config c) i)"
    by auto
  then show ?thesis by (intro exI [of _ cf]) (simp add: memb_of_commit_def Conf_num_segments_def)
qed

lemma ring_of_filter:
  "num_segments cf = num_segments cf' \<Longrightarrow> (\<forall>i < num_segments cf. seg_list cf i = filter p (seg_list cf' i)) \<Longrightarrow>
   ring_of cf = filter p (ring_of cf')"
  by (auto simp: ring_of_def filter_concat comp_def intro!: arg_cong [of _ _ concat] map_cong)

lemma conf_cong:
  assumes "Config c = Config d" and "Config_procs c = Config_procs d"
  shows "memb_of_commit c = memb_of_commit d" "Conf_leader c = Conf_leader d" "chosen c = chosen d"
proof -
  have ids: "proc_id_at c = proc_id_at d" and app: "Conf_append_id_to_seg c = Conf_append_id_to_seg d"
    unfolding proc_id_at_def Conf_append_id_to_seg_def Conf_proc_ref_by_id_def using assms by simp_all
  show "memb_of_commit c = memb_of_commit d"
    unfolding memb_of_commit_def [abs_def] segment_of_commit_def using assms ids app by (simp cong: if_cong)
  show "Conf_leader c = Conf_leader d" "chosen c = chosen d"
    unfolding Conf_leader_def [abs_def] chosen_def [abs_def] using ids by simp_all
qed

text \<open>
  The transitional membership consists of the configured processes among the first
  \<open>num_pending\<close> ids of the commit set (those that come from my old ring), the commit membership
  of those among all its ids, both in the order of the configuration.
\<close>

theorem Memb_transitional_members:
  assumes "Memb_transitional s = Some s'" and "table_ok s"
    and "\<forall>k \<in> set (ring_of (Config s)). k < num_total_procs (Config s)"
  shows "ring_of (Trans_membership s') = filter (chosen s (Commit_set s) (num_pending (Commit_set s))) (ring_of (Config s)) \<and>
    ring_of (Commit_membership s') = filter (chosen s (Commit_set s) (num_members (Commit_set s))) (ring_of (Config s)) \<and>
    Some (mid_proc_id (Trans_memb_id s')) = Conf_leader s (Trans_membership s') \<and> Transitional s'"
proof -
  have cong: "memb_of_commit (s\<lparr>Transitional := a\<rparr>) = memb_of_commit s"
    "memb_of_commit (s\<lparr>Transitional := a, Trans_membership := b, Trans_memb_id := e\<rparr>) = memb_of_commit s"
    "Conf_leader (s\<lparr>Transitional := a, Trans_membership := b\<rparr>) = Conf_leader s" for a b e
    by (rule conf_cong; simp)+
  from assms(1) obtain tm cm l where run:
    "memb_of_commit s (Commit_set s) (num_pending (Commit_set s)) (Trans_membership s) = Some tm"
    "Conf_leader s tm = Some l"
    "memb_of_commit s (Commit_set s) (num_members (Commit_set s)) (Commit_membership s) = Some cm"
    "s' = s\<lparr>Transitional := True, Trans_membership := tm,
       Trans_memb_id := \<lparr>mid_proc_id = l, mid_time = F_trans_memb_time s\<rparr>, Commit_membership := cm\<rparr>"
    by (auto simp: Memb_transitional_def bind_Some_iff Let_def cong)
  have "ring_of tm = filter (chosen s (Commit_set s) (num_pending (Commit_set s))) (ring_of (Config s))"
    using memb_of_commit_segs [OF assms(2,3), of "Commit_set s" "num_pending (Commit_set s)" "Trans_membership s"] run(1)
    by (auto intro: ring_of_filter)
  moreover have "ring_of cm = filter (chosen s (Commit_set s) (num_members (Commit_set s))) (ring_of (Config s))"
    using memb_of_commit_segs [OF assms(2,3), of "Commit_set s" "num_members (Commit_set s)" "Commit_membership s"] run(3)
    by (auto intro: ring_of_filter)
  moreover have "Conf_leader s' = Conf_leader s" by (rule conf_cong) (simp_all add: run(4))
  ultimately show ?thesis using run(2) by (simp add: run(4))
qed

definition commit_sample :: daemon where
  "commit_sample = sample\<lparr>Commit_set := \<lparr>num_members = 2, num_pending = 1, members = (\<lambda>i. if i = 0 then 3 else 1)\<rparr>\<rparr>"

theorem Memb_transitional_members_witness:
  "\<exists>s'. Memb_transitional commit_sample = Some s' \<and> ring_of (Commit_membership s') = [0, 2] \<and>
    ring_of (Trans_membership s') = filter (chosen commit_sample (Commit_set commit_sample) (num_pending (Commit_set commit_sample))) (ring_of (Config commit_sample)) \<and>
    ring_of (Commit_membership s') = filter (chosen commit_sample (Commit_set commit_sample) (num_members (Commit_set commit_sample))) (ring_of (Config commit_sample)) \<and>
    Some (mid_proc_id (Trans_memb_id s')) = Conf_leader commit_sample (Trans_membership s') \<and> Transitional s'"
proof -
  have "map_option (\<lambda>s. ring_of (Commit_membership s)) (Memb_transitional commit_sample) = Some [0, 2]" by code_simp
  then obtain s' where s': "Memb_transitional commit_sample = Some s'" "ring_of (Commit_membership s') = [0, 2]" by auto
  have "table_ok commit_sample" using sample_table_ok by (simp add: table_ok_def commit_sample_def proc_id_at_def)
  moreover have "\<forall>k \<in> set (ring_of (Config commit_sample)). k < num_total_procs (Config commit_sample)"
    by (simp add: commit_sample_def sample_ring) (simp add: sample_conf_def)
  ultimately show ?thesis using Memb_transitional_members [OF s'(1)] s' by (intro exI [of _ s'] conjI) simp_all
qed

end
