(* ===== verification/Attempts.thy ===== *)
theory Attempts
  imports Protocol Forming
begin

text \<open>
  Membership attempts: what is armed in each state of an attempt, what the loss of the token
  resets, what a backoff from a failed recovery counts as received, and what the insertion of a
  representative keeps.
\<close>

section \<open>Timers in the state\<close>

abbreviation call :: "timer_func \<Rightarrow> timer_func \<times> int \<times> nat" where "call f \<equiv> (f, 0, 0)"

definition armed :: "'a event_state_scheme \<Rightarrow> timer_func \<Rightarrow> bool" where
  "armed s f \<longleftrightarrow> due (Time_queue s) (call f) \<noteq> None"

definition timers_ok :: "'a event_state_scheme \<Rightarrow> bool" where
  "timers_ok s \<longleftrightarrow> queue_ok (Time_queue s)"

lemma Time_queue_E_queue:
  "Time_queue (E_queue f c d delta s) = arm_call (f, c, d) (E_add_time (clock s (clock_reads s)) delta) (Time_queue s)"
  by (simp add: E_queue_def E_get_time_def Let_def arm_call_def)

lemma Time_queue_E_dequeue: "Time_queue (E_dequeue f c d s) = cancel_call (f, c, d) (Time_queue s)"
  by (simp add: E_dequeue_def cancel_call_def)

lemma timers_ok_queue [simp]: "timers_ok s \<Longrightarrow> timers_ok (E_queue f c d delta s)"
  "timers_ok s \<Longrightarrow> timers_ok (E_dequeue f c d s)"
  by (simp_all add: timers_ok_def Time_queue_E_queue Time_queue_E_dequeue tq.arm_valid tq.cancel_valid)

lemma armed_queue [simp]:
  "timers_ok s \<Longrightarrow> armed (E_queue f 0 0 delta s) g \<longleftrightarrow> g = f \<or> armed s g"
  "timers_ok s \<Longrightarrow> armed (E_dequeue f 0 0 s) g \<longleftrightarrow> g \<noteq> f \<and> armed s g"
  by (auto simp: armed_def timers_ok_def Time_queue_E_queue Time_queue_E_dequeue tq.pending_arm tq.pending_cancel)

lemma timers_cong:
  "Time_queue s = Time_queue t \<Longrightarrow> armed s = armed t" "Time_queue s = Time_queue t \<Longrightarrow> timers_ok s = timers_ok t"
  by (simp_all add: armed_def timers_ok_def fun_eq_iff)

text \<open>
  C17: arming a timer replaces an earlier one of the same call, leaves the others, and keeps the
  queue sorted with one entry for each call: the next event is the earliest.
\<close>

theorem E_queue_arms:
  assumes "queue_ok (Time_queue s)"
  shows "queue_ok (Time_queue (E_queue f c d delta s)) \<and>
    due (Time_queue (E_queue f c d delta s)) k =
      (if k = (f, c, d) then Some (E_add_time (clock s (clock_reads s)) delta) else due (Time_queue s) k) \<and>
    (\<forall>e \<in> set (Time_queue (E_queue f c d delta s)). time_le (te_t (hd (Time_queue (E_queue f c d delta s)))) (te_t e))"
proof (intro conjI)
  let ?q = "Time_queue (E_queue f c d delta s)"
  show ok: "queue_ok ?q" using assms by (simp add: Time_queue_E_queue tq.arm_valid)
  show "due ?q k = (if k = (f, c, d) then Some (E_add_time (clock s (clock_reads s)) delta) else due (Time_queue s) k)"
    using assms by (simp add: Time_queue_E_queue tq.pending_arm)
  show "\<forall>e \<in> set ?q. time_le (te_t (hd ?q)) (te_t e)"
    using ok by (cases ?q) (auto simp: queue_ok_def)
qed

theorem E_queue_arms_witness:
  "queue_ok (Time_queue (E_queue Send_join_f 0 0 Zero_timeout sample)) \<and>
    due (Time_queue (E_queue Send_join_f 0 0 Zero_timeout sample)) (Send_join_f, 0, 0) =
      Some (E_add_time (clock sample (clock_reads sample)) Zero_timeout)"
  using E_queue_arms [of sample Send_join_f 0 0 Zero_timeout "(Send_join_f, 0, 0)"] by (simp add: queue_ok_def)

section \<open>Losing the token\<close>

lemma token_loss_reps_frame:
  assumes "token_loss_reps s = Some s'"
  shows "Time_queue s' = Time_queue s \<and> Config s' = Config s \<and> Config_procs s' = Config_procs s \<and>
    Membership s' = Membership s \<and> Memb_My s' = Memb_My s"
  using assms
  by (auto simp: token_loss_reps_def bind_Some_iff Let_def commit_self_def Backoff_membership_def
      split: memb_state.splits)

definition alone :: "configuration \<Rightarrow> nat \<Rightarrow> nat \<Rightarrow> nat \<Rightarrow> bool" where
  "alone cf n i k \<longleftrightarrow> (\<forall>j < n. seg_list cf j = (if j = i then [k] else []))"

lemma alone_append:
  assumes "table_ok c" and "k < num_total_procs (Config c)" and "i < n"
  shows "alone (append_ignoring c i (proc_id_at c k) (clear_procs n cf)) n i k"
  using assms(3) append_known [OF assms(1,2)]
  by (auto simp: alone_def append_ignoring_def clear_procs_def seg_list_def)

text \<open>
  After the loss of the token the daemon is in state SEG, alone in its membership, without a
  token, and only looks for its segment: of the timers of the membership and of the token, just
  the alive packets and the decision to gather are armed.
\<close>

theorem Memb_token_loss_resets:
  assumes "Memb_token_loss s = Some s'" and "timers_ok s" and "table_ok s"
    and "Memb_My s = Config_procs s k" and "k < num_total_procs (Config s)"
    and "p_seg_index (Memb_My s) < num_segments (Config s)"
  shows "State s' = SEG \<and> \<not> Token_alive s' \<and> th_seq (Last_token s') = 0 \<and> th_aru (Last_token s') = 0 \<and>
    active (F_members s') = [p_id (Memb_My s)] \<and>
    alone (Membership s') (num_segments (Config s)) (p_seg_index (Memb_My s)) k \<and>
    timers_ok s' \<and> armed s' Scast_alive_f \<and> armed s' Gather_or_represented_f \<and>
    \<not> armed s' Memb_token_loss_f \<and> \<not> armed s' Send_join_f \<and> \<not> armed s' Form_or_fail_f \<and>
    \<not> armed s' Prot_token_hurry_f \<and> \<not> armed s' Memb_lookup_new_members_f"
proof -
  from assms(1) obtain s1 where s1: "token_loss_reps s = Some s1"
    by (auto simp: Memb_token_loss_def bind_Some_iff)
  note fr = token_loss_reps_frame [OF s1]
  define t where "t = E_dequeue Memb_lookup_new_members_f 0 0 (E_dequeue Prot_token_hurry_f 0 0
    (E_dequeue Form_or_fail_f 0 0 (E_dequeue Send_join_f 0 0 (E_dequeue Memb_token_loss_f 0 0
      ((Shift_to_seg s1)\<lparr>Token_alive := False\<rparr>)))))"
  define u where "u = reset_last_token t"
  have s': "s' = u\<lparr>Membership := append_ignoring u (p_seg_index (Memb_My u)) (p_id (Memb_My u))
            (clear_procs (Conf_num_segments (Config u)) (Membership u))\<rparr>"
    using assms(1) by (simp add: Memb_token_loss_def s1 Let_def u_def t_def)
  have shift: "State (Shift_to_seg s1) = SEG" "Config (Shift_to_seg s1) = Config s1"
    "Config_procs (Shift_to_seg s1) = Config_procs s1" "Membership (Shift_to_seg s1) = Membership s1"
    "Memb_My (Shift_to_seg s1) = Memb_My s1" "F_members (Shift_to_seg s1) = own_members s1"
    by (simp_all add: Shift_to_seg_def set_state_def E_queue_def E_get_time_def own_members_def Let_def)
  have uf: "State u = SEG" "\<not> Token_alive u" "Config u = Config s" "Config_procs u = Config_procs s"
    "Membership u = Membership s" "Memb_My u = Memb_My s" "F_members u = own_members s1"
    "th_seq (Last_token u) = 0" "th_aru (Last_token u) = 0"
    using fr by (simp_all add: u_def t_def reset_last_token_def E_dequeue_def shift)
  have ok1: "timers_ok s1" using assms(2) fr timers_cong(2) [of s1 s] by simp
  have q0: "Time_queue (Shift_to_seg s1) = Time_queue (E_queue Gather_or_represented_f 0 0 (Seg_timeout s1)
      (E_queue Scast_alive_f 0 0 Zero_timeout s1))"
    by (simp add: Shift_to_seg_def set_state_def E_queue_def E_get_time_def Let_def)
  have okS: "timers_ok (Shift_to_seg s1)" using ok1 timers_cong(2) [OF q0] by simp
  have arS: "armed (Shift_to_seg s1) f \<longleftrightarrow> f = Gather_or_represented_f \<or> f = Scast_alive_f \<or> armed s1 f" for f
    using ok1 timers_cong(1) [OF q0] by simp
  have okT: "timers_ok ((Shift_to_seg s1)\<lparr>Token_alive := False\<rparr>)"
    using okS timers_cong(2) [of "(Shift_to_seg s1)\<lparr>Token_alive := False\<rparr>" "Shift_to_seg s1"] by simp
  have arT: "armed ((Shift_to_seg s1)\<lparr>Token_alive := False\<rparr>) = armed (Shift_to_seg s1)"
    by (rule timers_cong) simp
  have tq: "Time_queue s' = Time_queue t" by (simp add: s' u_def reset_last_token_def)
  have arm: "armed s' f \<longleftrightarrow> f \<notin> {Memb_lookup_new_members_f, Prot_token_hurry_f, Form_or_fail_f, Send_join_f, Memb_token_loss_f} \<and>
      armed (Shift_to_seg s1) f" for f
    using timers_cong(1) [OF tq] okT arT by (auto simp: t_def)
  have "timers_ok s'" using timers_cong(2) [OF tq] okT by (simp add: t_def)
  moreover have "alone (Membership s') (num_segments (Config s)) (p_seg_index (Memb_My s)) k"
  proof -
    have "table_ok u" using assms(3) uf by (simp add: table_ok_def proc_id_at_def)
    moreover have "p_id (Memb_My s) = proc_id_at u k" using assms(4) uf by (simp add: proc_id_at_def)
    ultimately show ?thesis
      using alone_append [of u k "p_seg_index (Memb_My s)" "num_segments (Config s)" "Membership s"] assms(5,6) uf
      by (simp add: s' Conf_num_segments_def)
  qed
  moreover have "active (F_members s') = [p_id (Memb_My s)]"
    using fr uf by (simp add: s' own_members_def active_def)
  moreover have "armed s' Scast_alive_f" "armed s' Gather_or_represented_f" "\<not> armed s' Memb_token_loss_f"
    "\<not> armed s' Send_join_f" "\<not> armed s' Form_or_fail_f" "\<not> armed s' Prot_token_hurry_f"
    "\<not> armed s' Memb_lookup_new_members_f"
    by (simp_all add: arm arS)
  moreover have "State s' = SEG" "\<not> Token_alive s'" "th_seq (Last_token s') = 0" "th_aru (Last_token s') = 0"
    using uf by (simp_all add: s')
  ultimately show ?thesis by blast
qed

theorem Memb_token_loss_resets_witness:
  "\<exists>s'. Memb_token_loss sample = Some s' \<and> State s' = SEG \<and> \<not> Token_alive s' \<and> th_seq (Last_token s') = 0 \<and> th_aru (Last_token s') = 0 \<and>
    active (F_members s') = [p_id (Memb_My sample)] \<and>
    alone (Membership s') (num_segments (Config sample)) (p_seg_index (Memb_My sample)) 0 \<and>
    timers_ok s' \<and> armed s' Scast_alive_f \<and> armed s' Gather_or_represented_f \<and>
    \<not> armed s' Memb_token_loss_f \<and> \<not> armed s' Send_join_f \<and> \<not> armed s' Form_or_fail_f \<and>
    \<not> armed s' Prot_token_hurry_f \<and> \<not> armed s' Memb_lookup_new_members_f"
proof -
  have "map_option (\<lambda>s. State s = SEG) (Memb_token_loss sample) = Some True" by code_simp
  then obtain s' where s': "Memb_token_loss sample = Some s'" by auto
  have "timers_ok sample" by (simp add: timers_ok_def queue_ok_def)
  from Memb_token_loss_resets [OF s' this sample_table_ok, of 0] s' show ?thesis
    by (intro exI [of _ s']) (simp add: sample_conf_def sample_proc_def)
qed

section \<open>Backing off from a recovery\<close>

text \<open>
  C18: the second loop of \<open>Backoff_membership\<close> looks at one slot only: when the packet with the
  highest number is held, \<open>My_aru\<close> becomes \<open>Highest_seq\<close>, however many packets below it are
  missing.
\<close>

theorem Backoff_counts_holes_as_received:
  assumes "Last_discarded s < Highest_seq s" and "Highest_seq s - Last_discarded s \<le> 8192"
    and "pk_exist (pkt s (Highest_seq s)) = 1"
  shows "My_aru (Backoff_membership s) = Highest_seq s"
proof -
  let ?b = "Highest_seq s"
  have keep: "pk_exist (clear_holes a b ps e) = 1" if "pk_exist (ps e) = 1" for a b ps e
  proof -
    have "pk_exist (foldl (\<lambda>ps i. if pk_exist (ps (slot i)) = 3
        then ps(slot i := (ps (slot i))\<lparr>pk_exist := 0\<rparr>) else ps) ps is e) = 1" if "pk_exist (ps e) = 1" for ps and "is" :: "int list"
      using that
    proof (induction "is" arbitrary: ps)
      case (Cons i "is")
      show ?case using Cons.prems by (auto intro!: Cons.IH)
    qed simp
    from this [of ps "[a..b]"] that show ?thesis by (simp only: clear_holes_def)
  qed
  have all: "count_while p is = int (length is)" if "\<forall>i \<in> set is. p i" for p and "is" :: "int list"
    using that by (induction "is") simp_all
  have "pk_exist (clear_holes (Last_discarded s + 1) ?b (Packets s) (slot ?b)) = 1"
    using assms(3) by (intro keep) (simp add: pkt_def)
  then show ?thesis using assms(1) by (simp add: Backoff_membership_def Let_def all)
qed

theorem Backoff_counts_holes_as_received_witness:
  "pk_exist (pkt (member_sample 0 [1, 3] 3) 2) = 0 \<and>
   My_aru (Backoff_membership (member_sample 0 [1, 3] 3)) = Highest_seq (member_sample 0 [1, 3] 3)"
proof
  show "pk_exist (pkt (member_sample 0 [1, 3] 3) 2) = 0" by (simp add: member_sample_def pkt_def slot_mod)
  show "My_aru (Backoff_membership (member_sample 0 [1, 3] 3)) = Highest_seq (member_sample 0 [1, 3] 3)"
    by (rule Backoff_counts_holes_as_received) (simp_all add: member_sample_def pkt_def slot_mod)
qed

end
