(* ===== verification/Message.thy ===== *)
theory Message
  imports Daemon
begin

text \<open>
  \<open>daemon/message.c\<close> with the message types and the header of \<open>sess_types.h\<close>: a message is a
  scatter of packet bodies, the first of which starts with the message header; groups and data
  follow it in one stream across the elements.  Elements are records of the whole buffer and the
  length in use; a fresh buffer is zero (the code writes what it reads).  An access outside a
  buffer and a failed \<open>assert\<close> are \<open>None\<close>.
\<close>

section \<open>Message types\<close>

definition UNRELIABLE_MESS :: int32u where "UNRELIABLE_MESS = 0x00000001"
definition RELIABLE_MESS :: int32u where "RELIABLE_MESS = 0x00000002"
definition FIFO_MESS :: int32u where "FIFO_MESS = 0x00000004"
definition CAUSAL_MESS :: int32u where "CAUSAL_MESS = 0x00000008"
definition AGREED_MESS :: int32u where "AGREED_MESS = 0x00000010"
definition SAFE_MESS :: int32u where "SAFE_MESS = 0x00000020"
definition REGULAR_MESS :: int32u where "REGULAR_MESS = 0x0000003f"
definition NOT_REGULAR_MESS :: int32u where "NOT_REGULAR_MESS = 0x00ffff00"
definition SELF_DISCARD :: int32u where "SELF_DISCARD = 0x00000040"
definition REG_MEMB_MESS :: int32u where "REG_MEMB_MESS = 0x00001000"
definition TRANSITION_MESS :: int32u where "TRANSITION_MESS = 0x00002000"
definition CAUSED_BY_JOIN :: int32u where "CAUSED_BY_JOIN = 0x00000100"
definition CAUSED_BY_LEAVE :: int32u where "CAUSED_BY_LEAVE = 0x00000200"
definition CAUSED_BY_DISCONNECT :: int32u where "CAUSED_BY_DISCONNECT = 0x00000400"
definition CAUSED_BY_NETWORK :: int32u where "CAUSED_BY_NETWORK = 0x00000800"
definition JOIN_MESS :: int32u where "JOIN_MESS = 0x00010000"
definition LEAVE_MESS :: int32u where "LEAVE_MESS = 0x00020000"
definition KILL_MESS :: int32u where "KILL_MESS = 0x00040000"
definition GROUPS_MESS :: int32u where "GROUPS_MESS = 0x00080000"
definition REJECT_MESS :: int32u where "REJECT_MESS = 0x00400000"

lemmas mess_defs = UNRELIABLE_MESS_def RELIABLE_MESS_def FIFO_MESS_def CAUSAL_MESS_def
  AGREED_MESS_def SAFE_MESS_def REGULAR_MESS_def NOT_REGULAR_MESS_def SELF_DISCARD_def
  REG_MEMB_MESS_def TRANSITION_MESS_def CAUSED_BY_JOIN_def CAUSED_BY_LEAVE_def
  CAUSED_BY_DISCONNECT_def CAUSED_BY_NETWORK_def JOIN_MESS_def LEAVE_MESS_def KILL_MESS_def
  GROUPS_MESS_def REJECT_MESS_def

text \<open>The \<open>Is_...\<close> macros all test bits of the type: \<open>has t JOIN_MESS\<close> is \<open>Is_join_mess( t )\<close>.\<close>

definition has :: "int32u \<Rightarrow> int32u \<Rightarrow> bool" where "has t bits \<longleftrightarrow> t AND bits \<noteq> 0"

definition Is_only_regular_mess :: "int32u \<Rightarrow> bool" where
  "Is_only_regular_mess t \<longleftrightarrow> has t REGULAR_MESS \<and> \<not> has t NOT_REGULAR_MESS"

text \<open>The packet type a message is sent as; the C value \<open>-1\<close> is \<open>None\<close>.\<close>

definition Message_get_packet_type :: "int32u \<Rightarrow> int32u option" where
  "Message_get_packet_type t =
     (if has t UNRELIABLE_MESS then Some RELIABLE_TYPE
      else if has t RELIABLE_MESS then Some RELIABLE_TYPE
      else if has t FIFO_MESS then Some FIFO_TYPE
      else if has t CAUSAL_MESS \<or> has t AGREED_MESS then Some AGREED_TYPE
      else if has t SAFE_MESS then Some SAFE_TYPE
      else if has t JOIN_MESS then Some AGREED_TYPE
      else if has t LEAVE_MESS then Some AGREED_TYPE
      else if has t KILL_MESS then Some AGREED_TYPE
      else None)"

section \<open>Character arrays\<close>

definition MAX_PRIVATE_NAME :: nat where "MAX_PRIVATE_NAME = 10"
definition MAX_GROUP_NAME :: nat where "MAX_GROUP_NAME = 1 + MAX_PRIVATE_NAME + 1 + MAX_PROC_NAME"
definition MAX_GROUPS_PER_MESSAGE :: int where "MAX_GROUPS_PER_MESSAGE = 100"

lemma MAX_GROUP_NAME_eq: "MAX_GROUP_NAME = 32"
  by (simp add: MAX_GROUP_NAME_def MAX_PRIVATE_NAME_def MAX_PROC_NAME_def)

text \<open>The C string an array holds, \<open>strncpy\<close>, and \<open>strcpy\<close> into a zeroed array of a size.\<close>

definition cstr :: "byte list \<Rightarrow> byte list" where "cstr = takeWhile (\<lambda>b. b \<noteq> 0)"

definition strncpy :: "nat \<Rightarrow> byte list \<Rightarrow> byte list" where
  "strncpy n src = take n (cstr src @ replicate n 0)"

definition strcpy :: "nat \<Rightarrow> byte list \<Rightarrow> byte list option" where
  "strcpy n src = (if length (cstr src) < n then Some (strncpy n src) else None)"

definition chars :: "string \<Rightarrow> byte list" where "chars s = map (\<lambda>ch. of_nat (of_char ch)) s"

text \<open>\<open>strcmp\<close> compares as unsigned bytes; its sign is the order of the strings.\<close>

fun strcmp :: "byte list \<Rightarrow> byte list \<Rightarrow> int" where
  "strcmp [] [] = 0"
| "strcmp [] (b # bs) = - 1"
| "strcmp (a # as) [] = 1"
| "strcmp (a # as) (b # bs) = (if a < b then - 1 else if b < a then 1 else strcmp as bs)"

section \<open>Header and elements\<close>

record message_header =
  mh_type :: int32u
  mh_private_group_name :: "byte list"
  mh_num_groups :: int
  mh_hint :: int32u
  mh_data_len :: int

definition sizeof_message_header :: int where "sizeof_message_header = 48"
definition sizeof_packet_body :: int where
  "sizeof_packet_body = MAX_PACKET_SIZE - sizeof_packet_header"

text \<open>The comment beside this definition takes the packet header for 32 bytes; it has 36.\<close>

definition MAX_MESSAGE_BODY_LEN :: int where
  "MAX_MESSAGE_BODY_LEN = int MAX_SCATTER_ELEMENTS * (MAX_PACKET_SIZE - 32)"

lemmas mess_size_defs = sizeof_message_header_def sizeof_packet_body_def MAX_PACKET_SIZE_def
  sizeof_packet_header_def MAX_GROUP_NAME_eq

definition enc_message_header :: "message_header \<Rightarrow> byte list" where
  "enc_message_header h = bytes32 (mh_type h) @ mh_private_group_name h @
     bytes32 (word_of_int (mh_num_groups h)) @ bytes32 (mh_hint h) @ bytes32 (word_of_int (mh_data_len h))"

definition dec_message_header :: "byte list \<Rightarrow> message_header" where
  "dec_message_header bs = \<lparr>
     mh_type = word32 bs,
     mh_private_group_name = take MAX_GROUP_NAME (drop 4 bs),
     mh_num_groups = sint (word32 (drop 36 bs)),
     mh_hint = word32 (drop 40 bs),
     mh_data_len = sint (word32 (drop 44 bs))\<rparr>"

definition wf_message_header :: "message_header \<Rightarrow> bool" where
  "wf_message_header h \<longleftrightarrow> length (mh_private_group_name h) = MAX_GROUP_NAME \<and>
     int32_range (mh_num_groups h) \<and> int32_range (mh_data_len h)"

lemma length_enc_message_header:
  "wf_message_header h \<Longrightarrow> length (enc_message_header h) = 48"
  by (simp add: enc_message_header_def wf_message_header_def MAX_GROUP_NAME_eq)

lemma dec_enc_message_header:
  assumes "wf_message_header h"
  shows "dec_message_header (enc_message_header h @ rest) = h"
  using assms by (simp add: dec_message_header_def enc_message_header_def wf_message_header_def MAX_GROUP_NAME_eq)

record scat_element =
  se_buf :: "byte list"
  se_len :: int

type_synonym message = "scat_element list"

definition fresh_body :: "byte list" where "fresh_body = replicate (nat sizeof_packet_body) 0"

definition Message_get_message_header :: "message \<Rightarrow> message_header option" where
  "Message_get_message_header m = (case m of [] \<Rightarrow> None
     | e # es \<Rightarrow> map_option dec_message_header (get_bytes (se_buf e) 0 sizeof_message_header))"

text \<open>A store through the header pointer.\<close>

definition set_message_header :: "message_header \<Rightarrow> message \<Rightarrow> message option" where
  "set_message_header h m = (case m of [] \<Rightarrow> None
     | e # es \<Rightarrow> do { b \<leftarrow> put_bytes (se_buf e) 0 (enc_message_header h); Some (e\<lparr>se_buf := b\<rparr> # es) })"

text \<open>The bytes of an element in use and of a whole message, as the protocol sends them.\<close>

definition used :: "scat_element \<Rightarrow> byte list" where "used e = take (nat (se_len e)) (se_buf e)"
definition contents :: "message \<Rightarrow> byte list" where "contents m = concat (map used m)"

section \<open>Building messages\<close>

definition Message_new_message :: message where
  "Message_new_message = [\<lparr>se_buf = fresh_body, se_len = sizeof_message_header\<rparr>]"

definition Message_create_message :: "int32u \<Rightarrow> byte list \<Rightarrow> message option" where
  "Message_create_message mess_type sender_name =
     set_message_header \<lparr>mh_type = Set_endian mess_type,
       mh_private_group_name = strncpy MAX_GROUP_NAME sender_name,
       mh_num_groups = 0, mh_hint = Set_endian 0, mh_data_len = 0\<rparr> Message_new_message"

definition Message_add_scat_element :: "message \<Rightarrow> message option" where
  "Message_add_scat_element m = do {
     exit_if (length m \<ge> MAX_SCATTER_ELEMENTS);
     Some (m @ [\<lparr>se_buf = fresh_body, se_len = sizeof_packet_body\<rparr>]) }"

definition Message_remove_scat_element :: "message \<Rightarrow> message option" where
  "Message_remove_scat_element m = (if m = [] then None else Some (butlast m))"

definition Message_populate_with_buffers :: "nat \<Rightarrow> message" where
  "Message_populate_with_buffers n = replicate n \<lparr>se_buf = fresh_body, se_len = sizeof_packet_body\<rparr>"

definition Message_copy_message :: "message \<Rightarrow> message option" where
  "Message_copy_message m = those (map (\<lambda>e. do {
     bs \<leftarrow> get_bytes (se_buf e) 0 (se_len e);
     b \<leftarrow> put_bytes fresh_body 0 bs;
     Some \<lparr>se_buf = b, se_len = se_len e\<rparr> }) m)"

text \<open>
  The tail of a buffer in fresh elements, a packet body each; \<open>n\<close> is the number of elements
  still to make.
\<close>

fun more_fragments :: "nat \<Rightarrow> byte list \<Rightarrow> message option" where
  "more_fragments 0 bs = Some []"
| "more_fragments (Suc n) bs = do {
     let chunk = take (nat sizeof_packet_body) bs;
     b \<leftarrow> put_bytes fresh_body 0 chunk;
     es \<leftarrow> more_fragments n (drop (nat sizeof_packet_body) bs);
     Some (\<lparr>se_buf = b, se_len = int (length chunk)\<rparr> # es) }"

definition Message_Buffer_to_Message_Fragments :: "message \<Rightarrow> byte list \<Rightarrow> message option" where
  "Message_Buffer_to_Message_Fragments m buf = (case m of [] \<Rightarrow> None | e # _ \<Rightarrow> do {
     let head_size = sizeof_message_header;
     let num_elements = (int (length buf) + head_size - 1) div sizeof_packet_body + 1;
     exit_if (num_elements > int MAX_SCATTER_ELEMENTS);
     let chunk = take (nat (sizeof_packet_body - head_size)) buf;
     b \<leftarrow> put_bytes (se_buf e) head_size chunk;
     es \<leftarrow> more_fragments (nat (num_elements - 1)) (drop (length chunk) buf);
     Some (\<lparr>se_buf = b, se_len = se_len e + int (length chunk)\<rparr> # es) })"

text \<open>
  \<open>Sess_read\<close> has filled the elements; their lengths are set from the header.  The index
  \<open>last\<close> can be \<open>num_elements\<close> when the message ends on an element boundary.
\<close>

definition store_len :: "nat \<Rightarrow> int \<Rightarrow> message \<Rightarrow> message option" where
  "store_len i l m = (if i < length m then Some (m[i := (m ! i)\<lparr>se_len := l\<rparr>])
     else if i < MAX_SCATTER_ELEMENTS then Some m else None)"

definition total_size :: "message_header \<Rightarrow> int" where
  "total_size h = mh_data_len h + int MAX_GROUP_NAME * mh_num_groups h + sizeof_message_header"

definition Message_element_len_fixup :: "message \<Rightarrow> message option" where
  "Message_element_len_fixup m = do {
     h \<leftarrow> Message_get_message_header m;
     let total = total_size h;
     let sum_size = sizeof_packet_body * (int (length m) - 1);
     if total < sizeof_packet_body then store_len 0 total m
     else do {
       m1 \<leftarrow> store_len 0 sizeof_packet_body m;
       store_len (nat (total div sizeof_packet_body)) (total - sum_size) m1 } }"

section \<open>Reading messages\<close>

definition Message_get_first_data_ptr :: "message \<Rightarrow> byte list option" where
  "Message_get_first_data_ptr m = do {
     h \<leftarrow> Message_get_message_header m;
     if has (mh_type h) REJECT_MESS
     then if length m > 1 then Some (se_buf (m ! 1)) else None
     else Some (drop (nat sizeof_message_header) (se_buf (hd m))) }"

definition Message_get_first_data_len :: "message \<Rightarrow> int option" where
  "Message_get_first_data_len m = do {
     h \<leftarrow> Message_get_message_header m;
     Some (if has (mh_type h) REJECT_MESS then 0 else se_len (hd m) - sizeof_message_header) }"

definition Message_get_first_group :: "message \<Rightarrow> byte list option" where
  "Message_get_first_group m = do {
     h \<leftarrow> Message_get_message_header m;
     if has (mh_type h) REJECT_MESS
     then if length m > 1 then Some (drop 4 (se_buf (m ! 1))) else None
     else Some (drop (nat sizeof_message_header) (se_buf (hd m))) }"

text \<open>
  The array of the groups: a pointer into the first element when the groups end there, and
  otherwise \<open>Temp_buf\<close>, into which the elements are copied from their start.
\<close>

fun gather :: "int \<Rightarrow> message \<Rightarrow> byte list" where
  "gather n [] = []"
| "gather n (e # es) = (if n \<le> 0 then []
     else let c = (if n < se_len e then n else se_len e)
          in take (nat c) (se_buf e) @ gather (n - c) es)"

definition Message_get_groups_array :: "message \<Rightarrow> byte list option" where
  "Message_get_groups_array m = do {
     h \<leftarrow> Message_get_message_header m;
     let (first, start) = (if has (mh_type h) REJECT_MESS then (1, 4) else (0, sizeof_message_header));
     let groups_bytes = start + mh_num_groups h * int MAX_GROUP_NAME;
     exit_if (length m \<le> first);
     if groups_bytes > se_len (m ! first)
     then do {
       let temp = gather groups_bytes (drop first m);
       exit_if (int (length temp) \<noteq> groups_bytes);
       Some temp }
     else Some (drop (nat start) (se_buf (m ! first))) }"

text \<open>Where a stream of \<open>len\<close> bytes stops in the elements: the element and the byte in it.\<close>

fun locate :: "nat \<Rightarrow> int \<Rightarrow> message \<Rightarrow> nat \<times> int" where
  "locate i len [] = (i, len)"
| "locate i len (e # es) = (if len < se_len e then (i, len) else locate (Suc i) (len - se_len e) es)"

record partial_message_info =
  in_mess_head :: bool
  cur_element :: nat
  cur_byte :: int
  total_bytes :: int

definition Message_calculate_current_location ::
  "message \<Rightarrow> int \<Rightarrow> partial_message_info \<Rightarrow> partial_message_info" where
  "Message_calculate_current_location m len_sent p =
     p\<lparr>cur_element := fst (locate 0 len_sent m), cur_byte := snd (locate 0 len_sent m), in_mess_head := False\<rparr>"

definition Message_reset_current_location :: partial_message_info where
  "Message_reset_current_location = \<lparr>in_mess_head = False, cur_element = 0, cur_byte = 0, total_bytes = 0\<rparr>"

definition Message_set_location_begin_body :: "partial_message_info \<Rightarrow> partial_message_info" where
  "Message_set_location_begin_body p = p\<lparr>in_mess_head := False\<rparr>"

section \<open>Changing messages\<close>

definition Flip_mess :: "message_header \<Rightarrow> message_header" where
  "Flip_mess h = h\<lparr>mh_type := Flip_int32 (mh_type h), mh_num_groups := flip_i32 (mh_num_groups h),
     mh_data_len := flip_i32 (mh_data_len h)\<rparr>"

definition Message_endian_correct_message_header :: "message \<Rightarrow> message option" where
  "Message_endian_correct_message_header m = do {
     h \<leftarrow> Message_get_message_header m;
     if \<not> Same_endian (mh_type h) then set_message_header (Flip_mess h) m else Some m }"

text \<open>
  The first \<open>len\<close> bytes of a message move to a new one, and fresh bodies take their place.
\<close>

fun dup_elements :: "int \<Rightarrow> message \<Rightarrow> (message \<times> message) option" where
  "dup_elements remain m = (if remain \<le> 0 then Some ([], m) else
     case m of [] \<Rightarrow> None | e # es \<Rightarrow> do {
       (dup, old) \<leftarrow> dup_elements (remain - sizeof_packet_body) es;
       Some (\<lparr>se_buf = se_buf e, se_len = (if remain > sizeof_packet_body then sizeof_packet_body else remain)\<rparr> # dup,
             \<lparr>se_buf = fresh_body, se_len = sizeof_packet_body\<rparr> # old) })"

definition Message_dup_and_reset_old_message :: "message \<Rightarrow> int \<Rightarrow> (message \<times> message) option" where
  "Message_dup_and_reset_old_message m len = dup_elements len m"

text \<open>
  A rejected message: a second element is put in, with the old type, the groups, the sender and
  the data of the first element.
\<close>

definition Message_add_oldtype_to_reject :: "message \<Rightarrow> int32u \<Rightarrow> message option" where
  "Message_add_oldtype_to_reject m old_type = do {
     h \<leftarrow> Message_get_message_header m;
     exit_if (length m \<ge> MAX_SCATTER_ELEMENTS);
     let e0 = hd m;
     let groups = mh_num_groups h * int MAX_GROUP_NAME;
     b1 \<leftarrow> put_bytes fresh_body 0 (bytes32 old_type);
     gs \<leftarrow> get_bytes (se_buf e0) sizeof_message_header groups;
     b2 \<leftarrow> put_bytes b1 4 gs;
     let room = mh_num_groups h < MAX_GROUPS_PER_MESSAGE;
     let n1 = (if room then mh_num_groups h + 1 else mh_num_groups h);
     let at = 4 + (n1 - 1) * int MAX_GROUP_NAME;
     b3 \<leftarrow> put_bytes b2 at (mh_private_group_name h);
     let old_at = sizeof_message_header + groups;
     rest \<leftarrow> get_bytes (se_buf e0) old_at (se_len e0 - old_at);
     b4 \<leftarrow> put_bytes b3 (at + int MAX_GROUP_NAME) rest;
     m1 \<leftarrow> set_message_header (h\<lparr>mh_num_groups := n1\<rparr>) [e0\<lparr>se_len := sizeof_message_header\<rparr>];
     Some (m1 @ \<lparr>se_buf = b4, se_len = at + int MAX_GROUP_NAME + (se_len e0 - old_at)\<rparr> # tl m) }"

section \<open>Fragments hold the message\<close>

lemma length_fresh_body [simp]: "length fresh_body = 1436"
  by (simp add: fresh_body_def mess_size_defs)

lemma take_min_length [simp]: "take (min (length xs) n) xs = take n xs"
  by (cases "length xs \<le> n") simp_all

text \<open>An element as the code makes them: a whole packet body, of which \<open>se_len\<close> bytes are used.\<close>

definition wf_element :: "scat_element \<Rightarrow> bool" where
  "wf_element e \<longleftrightarrow> length (se_buf e) = 1436 \<and> 0 \<le> se_len e \<and> se_len e \<le> 1436"

lemma more_fragments_contents:
  assumes "length bs \<le> n * 1436"
  shows "\<exists>es. more_fragments n bs = Some es \<and> contents es = bs \<and> length es = n \<and> (\<forall>e \<in> set es. wf_element e)"
  using assms
proof (induction n arbitrary: bs)
  case (Suc n)
  let ?c = "take 1436 bs"
  have b: "put_bytes fresh_body 0 ?c = Some (?c @ drop (length ?c) fresh_body)"
    by (simp add: put_bytes_def)
  have "length (drop 1436 bs) \<le> n * 1436" using Suc.prems by simp
  from Suc.IH [OF this] obtain es where "more_fragments n (drop 1436 bs) = Some es"
      "contents es = drop 1436 bs" "length es = n" "\<forall>e \<in> set es. wf_element e" by blast
  with b show ?case
    by (auto simp: mess_size_defs Let_def contents_def used_def wf_element_def)
qed (simp add: contents_def)

text \<open>
  What fits into the elements of a message is split into them behind the header without loss,
  and every element but the first is full before the next one starts.
\<close>

lemma Buffer_to_Fragments_contents:
  assumes "length (se_buf e) = 1436" and "se_len e = 48" and "int (length buf) + 48 \<le> 143600"
  shows "\<exists>m. Message_Buffer_to_Message_Fragments (e # es) buf = Some m \<and>
    contents m = take 48 (se_buf e) @ buf \<and> m \<noteq> [] \<and> take 48 (se_buf (hd m)) = take 48 (se_buf e) \<and>
    int (length m) = (47 + int (length buf)) div 1436 + 1 \<and> (\<forall>e \<in> set m. wf_element e)"
proof -
  let ?n = "(47 + int (length buf)) div 1436"
  let ?c = "take 1388 buf"
  have n: "0 \<le> ?n" "\<not> 100 \<le> ?n" using assms(3) by auto
  have left: "length (drop (length ?c) buf) \<le> nat ?n * 1436"
  proof -
    have "47 + int (length buf) < (?n + 1) * 1436" by (simp add: algebra_simps)
    then show ?thesis using n by (auto simp: algebra_simps)
  qed
  from more_fragments_contents [OF left] obtain es' where
    es': "more_fragments (nat ?n) (drop (length ?c) buf) = Some es'" "contents es' = drop (length ?c) buf"
      "length es' = nat ?n" "\<forall>e \<in> set es'. wf_element e" by blast
  have b: "put_bytes (se_buf e) 48 ?c = Some (take 48 (se_buf e) @ ?c @ drop (48 + length ?c) (se_buf e))"
    using assms(1) by (simp add: put_bytes_def)
  let ?e = "\<lparr>se_buf = take 48 (se_buf e) @ ?c @ drop (48 + length ?c) (se_buf e), se_len = 48 + int (length ?c)\<rparr>"
  have "Message_Buffer_to_Message_Fragments (e # es) buf = Some (e\<lparr>se_buf := se_buf ?e, se_len := se_len ?e\<rparr> # es')"
    using n es'(1) b assms(2)
    by (simp add: Message_Buffer_to_Message_Fragments_def mess_size_defs MAX_SCATTER_ELEMENTS_def Let_def)
  moreover have "contents (e\<lparr>se_buf := se_buf ?e, se_len := se_len ?e\<rparr> # es') = take 48 (se_buf e) @ buf"
  proof -
    have "used (e\<lparr>se_buf := se_buf ?e, se_len := se_len ?e\<rparr>) = take 48 (se_buf e) @ ?c"
      using assms(1) by (simp add: used_def nat_add_distrib)
    moreover have "?c @ drop (length ?c) buf = buf" by (cases "length buf \<le> 1388") simp_all
    ultimately show ?thesis using es'(2) by (simp add: contents_def)
  qed
  moreover have "wf_element (e\<lparr>se_buf := se_buf ?e, se_len := se_len ?e\<rparr>)"
    using assms(1) by (auto simp: wf_element_def)
  ultimately show ?thesis using es'(3,4) n assms(1) by auto
qed

lemma gather_contents:
  "\<forall>e \<in> set m. wf_element e \<Longrightarrow> gather n m = take (nat n) (contents m)"
proof (induction m arbitrary: n)
  case (Cons e es)
  then have e: "length (se_buf e) = 1436" "0 \<le> se_len e" "se_len e \<le> 1436"
    and IH: "gather k es = take (nat k) (contents es)" for k
    by (simp_all add: wf_element_def)
  have u: "length (used e) = nat (se_len e)" using e by (simp add: used_def)
  show ?case
  proof (cases "n < se_len e")
    case True
    then have "take (nat n) (se_buf e) = take (nat n) (used e)" using e by (simp add: used_def)
    with True u show ?thesis by (simp add: contents_def IH)
  next
    case False
    then have "nat n = nat (se_len e) + nat (n - se_len e)" using e by simp
    with False u e show ?thesis
      by (auto simp: contents_def IH used_def Let_def)
  qed
qed (simp add: contents_def)

lemma new_message_header:
  assumes "wf_message_header h" and "set_message_header h Message_new_message = Some m0"
  shows "\<exists>e. m0 = [e] \<and> length (se_buf e) = 1436 \<and> se_len e = 48 \<and> take 48 (se_buf e) = enc_message_header h"
  using assms length_enc_message_header [OF assms(1)]
  by (auto simp: set_message_header_def Message_new_message_def put_bytes_def mess_size_defs)

lemma header_of_buf:
  assumes "wf_message_header h" and "take 48 (se_buf (hd m)) = enc_message_header h"
    and "m \<noteq> []" and "length (se_buf (hd m)) = 1436"
  shows "Message_get_message_header m = Some h"
proof -
  obtain e es where m: "m = e # es" using assms(3) by (cases m) auto
  have "get_bytes (se_buf e) 0 sizeof_message_header = Some (enc_message_header h)"
    using assms(2,4) by (simp add: m get_bytes_def mess_size_defs)
  with dec_enc_message_header [OF assms(1), of "[]"] show ?thesis
    by (simp add: m Message_get_message_header_def)
qed

text \<open>
  C19: a message built from a header and the bytes behind it holds exactly these bytes, and its
  header can be read back.  The array of the groups is right while the groups end in the first
  element (43 groups); with more groups the array that is handed out starts with the message
  header, so that every name in it is read 48 bytes too early.
\<close>

theorem Built_message_groups:
  assumes "wf_message_header h" and "\<not> has (mh_type h) REJECT_MESS"
    and "set_message_header h Message_new_message = Some m0"
    and "int (length buf) + 48 \<le> 143600"
    and "mh_num_groups h = int n" and "32 * n \<le> length buf"
  shows "\<exists>m arr. Message_Buffer_to_Message_Fragments m0 buf = Some m \<and>
    contents m = enc_message_header h @ buf \<and> Message_get_message_header m = Some h \<and>
    Message_get_groups_array m = Some arr \<and>
    (if n \<le> 43 then take (32 * n) arr = take (32 * n) buf
     else arr = enc_message_header h @ take (32 * n) buf)"
proof -
  from new_message_header [OF assms(1,3)] obtain e where e: "m0 = [e]" "length (se_buf e) = 1436"
    "se_len e = 48" "take 48 (se_buf e) = enc_message_header h" by blast
  from Buffer_to_Fragments_contents [OF e(2,3) assms(4), of "[]"] obtain m where
    m: "Message_Buffer_to_Message_Fragments m0 buf = Some m" "contents m = enc_message_header h @ buf"
      "m \<noteq> []" "take 48 (se_buf (hd m)) = enc_message_header h" "\<forall>e \<in> set m. wf_element e"
    using e by auto
  then obtain f fs where f: "m = f # fs" "length (se_buf f) = 1436" "0 \<le> se_len f" "se_len f \<le> 1436"
    by (cases m) (auto simp: wf_element_def)
  have hd: "Message_get_message_header m = Some h"
    using header_of_buf [OF assms(1) m(4,3)] f by simp
  have le: "length (enc_message_header h) = 48" by (rule length_enc_message_header [OF assms(1)])
  have used_f: "se_len f = min 1436 (48 + int (length buf))"
  proof -
    from m(1) have "f = e\<lparr>se_buf := se_buf f, se_len := 48 + int (min (length buf) 1388)\<rparr>"
      by (auto simp: Message_Buffer_to_Message_Fragments_def e mess_size_defs Let_def bind_Some_iff f(1))
    then have "se_len f = 48 + int (min (length buf) 1388)"
      by (metis scat_element.select_convs(2) scat_element.surjective scat_element.update_convs(1,2))
    then show ?thesis by simp
  qed
  define arr where "arr = (if n \<le> 43 then drop 48 (se_buf f) else take (48 + 32 * n) (contents m))"
  have big: "int (48 + 32 * n) > se_len f \<longleftrightarrow> \<not> n \<le> 43" using used_f assms(6) by auto
  have "Message_get_groups_array m = Some arr"
  proof (cases "n \<le> 43")
    case True
    with big hd assms(2,5) show ?thesis
      by (simp add: Message_get_groups_array_def arr_def f mess_size_defs)
  next
    case False
    have "gather (int (48 + 32 * n)) m = take (48 + 32 * n) (contents m)"
      using gather_contents [OF m(5), of "int (48 + 32 * n)"] by (simp only: nat_int)
    moreover have "length (take (48 + 32 * n) (contents m)) = 48 + 32 * n"
      using assms(6) le by (simp add: m(2))
    ultimately show ?thesis
      using False big hd assms(2,5) f(1)
      by (simp add: Message_get_groups_array_def arr_def mess_size_defs Let_def algebra_simps)
  qed
  moreover have "take (32 * n) arr = take (32 * n) buf" if "n \<le> 43"
  proof -
    have "take (48 + 32 * n) (se_buf f) = take (48 + 32 * n) (used f)"
      using used_f that assms(6) by (simp add: used_def)
    also have "\<dots> = take (48 + 32 * n) (contents m)"
      using used_f f that assms(6) by (simp add: contents_def used_def)
    finally have "drop 48 (take (48 + 32 * n) (se_buf f)) = take (32 * n) buf" using le by (simp add: m(2))
    then show ?thesis using that by (simp add: arr_def drop_take)
  qed
  moreover have "arr = enc_message_header h @ take (32 * n) buf" if "\<not> n \<le> 43"
    using that le by (simp add: arr_def m(2))
  ultimately show ?thesis using m(1,2) hd by auto
qed

definition many_groups :: message_header where
  "many_groups = \<lparr>mh_type = Set_endian AGREED_MESS, mh_private_group_name = replicate 32 35,
     mh_num_groups = 44, mh_hint = 0, mh_data_len = 0\<rparr>"

theorem Built_message_groups_witness:
  "\<exists>m0 m. set_message_header many_groups Message_new_message = Some m0 \<and>
    Message_Buffer_to_Message_Fragments m0 (replicate (32 * 44) 65) = Some m \<and>
    Message_get_groups_array m = Some (enc_message_header many_groups @ replicate (32 * 44) 65)"
proof -
  have wf: "wf_message_header many_groups"
    by (simp add: wf_message_header_def many_groups_def MAX_GROUP_NAME_eq int32_range_def)
  have "has (mh_type many_groups) REJECT_MESS = False" by code_simp
  moreover obtain m0 where m0: "set_message_header many_groups Message_new_message = Some m0"
    using length_enc_message_header [OF wf]
    by (auto simp: set_message_header_def Message_new_message_def put_bytes_def)
  ultimately show ?thesis
    using Built_message_groups [OF wf _ m0, of "replicate (32 * 44) 65" 44]
    by (auto simp: many_groups_def)
qed

end
