(* ===== verification/Fd_events.thy ===== *)
theory Fd_events
  imports Events
begin

text \<open>
  The file-descriptor part of \<open>daemon/events.c\<close>: three queues of registered descriptors, one per
  priority, the select masks kept beside them, the threshold that disables low priorities, and
  the dispatching of ready descriptors in \<open>E_handle_events\<close>.  Result codes are the C integers.
\<close>

section \<open>Data\<close>

datatype fd_func = Sess_accept_fd | Sess_accept_continue_fd | Sess_recv_client_auth_fd
  | Sess_read_fd | Other_fd nat

record fd_event =
  fe_fd :: int
  fe_type :: int
  fe_func :: fd_func
  fe_code :: int
  fe_active :: bool

record fd_queue =
  fq_events :: "fd_event list" \<comment> \<open>\<open>num_fds\<close> is the length\<close>
  num_active_fds :: int

record fd_state =
  Fd_queue :: "int \<Rightarrow> fd_queue"
  Fd_mask :: "int \<Rightarrow> int \<Rightarrow> bool" \<comment> \<open>by type and descriptor\<close>
  Active_priority :: int
  Round_robin :: nat

definition NUM_PRIORITY :: int where "NUM_PRIORITY = 3"
definition LOW_PRIORITY :: int where "LOW_PRIORITY = 0"
definition MEDIUM_PRIORITY :: int where "MEDIUM_PRIORITY = 1"
definition HIGH_PRIORITY :: int where "HIGH_PRIORITY = 2"
definition NUM_FDTYPES :: int where "NUM_FDTYPES = 3"
definition READ_FD :: int where "READ_FD = 0"
definition EXCEPT_FD :: int where "EXCEPT_FD = 2"
definition MAX_FD_EVENTS :: nat where "MAX_FD_EVENTS = 2000"
definition FD_SETSIZE :: int where "FD_SETSIZE = 1024"

lemmas prio_defs = NUM_PRIORITY_def LOW_PRIORITY_def MEDIUM_PRIORITY_def HIGH_PRIORITY_def

definition E_init_fds :: "'a fd_state_scheme \<Rightarrow> 'a fd_state_scheme" where
  "E_init_fds s = s\<lparr>Fd_queue := (\<lambda>_. \<lparr>fq_events = [], num_active_fds = 0\<rparr>),
     Fd_mask := (\<lambda>_ _. False), Active_priority := LOW_PRIORITY\<rparr>"

section \<open>Registration\<close>

definition is_fd :: "int \<Rightarrow> int \<Rightarrow> fd_event \<Rightarrow> bool" where
  "is_fd fd ty e \<longleftrightarrow> fe_fd e = fd \<and> fe_type e = ty"

fun find_index :: "('b \<Rightarrow> bool) \<Rightarrow> 'b list \<Rightarrow> nat option" where
  "find_index P [] = None"
| "find_index P (x # xs) = (if P x then Some 0 else map_option Suc (find_index P xs))"

definition set_queue :: "int \<Rightarrow> fd_queue \<Rightarrow> 'a fd_state_scheme \<Rightarrow> 'a fd_state_scheme" where
  "set_queue i q s = s\<lparr>Fd_queue := (Fd_queue s)(i := q)\<rparr>"

definition set_mask :: "int \<Rightarrow> int \<Rightarrow> bool \<Rightarrow> 'a fd_state_scheme \<Rightarrow> 'a fd_state_scheme" where
  "set_mask ty fd b s = s\<lparr>Fd_mask := (Fd_mask s)(ty := (Fd_mask s ty)(fd := b))\<rparr>"

text \<open>
  The range checks let a priority of 3 and a type of 3 through, which then index behind the
  arrays.
\<close>

definition E_attach_fd ::
  "int \<Rightarrow> int \<Rightarrow> fd_func \<Rightarrow> int \<Rightarrow> int \<Rightarrow> 'a fd_state_scheme \<Rightarrow> (int \<times> 'a fd_state_scheme) option" where
  "E_attach_fd fd ty f code pr s =
     (if pr < 0 \<or> pr > NUM_PRIORITY \<or> ty < 0 \<or> ty > NUM_FDTYPES \<or> fd < 0 \<or> fd > FD_SETSIZE
      then Some (- 1, s)
      else if pr = NUM_PRIORITY \<or> ty = NUM_FDTYPES \<or> fd = FD_SETSIZE then None
      else let q = Fd_queue s pr; es = fq_events q in
        case find_index (is_fd fd ty) es of
          Some j \<Rightarrow> Some (1, set_queue pr \<lparr>fq_events = es[j := (es ! j)\<lparr>fe_func := f, fe_code := code, fe_active := True\<rparr>],
              num_active_fds = num_active_fds q + (if fe_active (es ! j) then 0 else 1)\<rparr> s)
        | None \<Rightarrow> if length es = MAX_FD_EVENTS then Some (- 1, s)
            else let e = \<lparr>fe_fd = fd, fe_type = ty, fe_func = f, fe_code = code, fe_active = True\<rparr>;
                     s1 = set_queue pr \<lparr>fq_events = es @ [e], num_active_fds = num_active_fds q + 1\<rparr> s
                 in Some (0, if Active_priority s \<le> pr then set_mask ty fd True s1 else s1))"

text \<open>The entry is overwritten with the last one.\<close>

definition drop_fd :: "int \<Rightarrow> int \<Rightarrow> int \<Rightarrow> bool \<times> 'a fd_state_scheme \<Rightarrow> bool \<times> 'a fd_state_scheme" where
  "drop_fd fd ty i st = (let (found, s) = st; q = Fd_queue s i; es = fq_events q in
     case find_index (is_fd fd ty) es of None \<Rightarrow> (found, s)
     | Some j \<Rightarrow> (True, set_mask ty fd False (set_queue i
         \<lparr>fq_events = butlast (es[j := last es]),
          num_active_fds = num_active_fds q - (if fe_active (es ! j) then 1 else 0)\<rparr> s)))"

definition found_code :: "bool \<times> 'a fd_state_scheme \<Rightarrow> int \<times> 'a fd_state_scheme" where
  "found_code st = (if fst st then 0 else - 1, snd st)"

definition E_detach_fd :: "int \<Rightarrow> int \<Rightarrow> 'a fd_state_scheme \<Rightarrow> (int \<times> 'a fd_state_scheme) option" where
  "E_detach_fd fd ty s =
     (if ty < 0 \<or> ty > NUM_FDTYPES then Some (- 1, s)
      else Some (found_code (fold (drop_fd fd ty) [0, 1, 2] (False, s))))"

definition deactivate_in :: "int \<Rightarrow> int \<Rightarrow> int \<Rightarrow> bool \<times> 'a fd_state_scheme \<Rightarrow> bool \<times> 'a fd_state_scheme" where
  "deactivate_in fd ty i st = (let (found, s) = st; q = Fd_queue s i; es = fq_events q in
     case find_index (is_fd fd ty) es of None \<Rightarrow> (found, s)
     | Some j \<Rightarrow> (True, set_mask ty fd False (set_queue i
         \<lparr>fq_events = es[j := (es ! j)\<lparr>fe_active := False\<rparr>],
          num_active_fds = num_active_fds q - (if fe_active (es ! j) then 1 else 0)\<rparr> s)))"

definition E_deactivate_fd :: "int \<Rightarrow> int \<Rightarrow> 'a fd_state_scheme \<Rightarrow> (int \<times> 'a fd_state_scheme) option" where
  "E_deactivate_fd fd ty s =
     (if ty < 0 \<or> ty > NUM_FDTYPES then Some (- 1, s)
      else Some (found_code (fold (deactivate_in fd ty) [0, 1, 2] (False, s))))"

definition activate_in :: "int \<Rightarrow> int \<Rightarrow> int \<Rightarrow> bool \<times> 'a fd_state_scheme \<Rightarrow> bool \<times> 'a fd_state_scheme" where
  "activate_in fd ty i st = (let (found, s) = st; q = Fd_queue s i; es = fq_events q in
     case find_index (is_fd fd ty) es of None \<Rightarrow> (found, s)
     | Some j \<Rightarrow> (let s1 = set_queue i
         \<lparr>fq_events = es[j := (es ! j)\<lparr>fe_active := True\<rparr>],
          num_active_fds = num_active_fds q + (if fe_active (es ! j) then 0 else 1)\<rparr> s
         in (True, if i \<ge> Active_priority s then set_mask ty fd True s1 else s1)))"

definition E_activate_fd :: "int \<Rightarrow> int \<Rightarrow> 'a fd_state_scheme \<Rightarrow> (int \<times> 'a fd_state_scheme) option" where
  "E_activate_fd fd ty s =
     (if ty < 0 \<or> ty > NUM_FDTYPES then Some (- 1, s)
      else Some (found_code (fold (activate_in fd ty) [0, 1, 2] (False, s))))"

text \<open>The masks are rebuilt from the queues at and above the threshold.\<close>

definition wanted :: "'a fd_state_scheme \<Rightarrow> int \<Rightarrow> int \<Rightarrow> int \<Rightarrow> bool" where
  "wanted s pr ty fd \<longleftrightarrow> list_ex (\<lambda>i. list_ex (\<lambda>e. is_fd fd ty e \<and> fe_active e) (fq_events (Fd_queue s i)))
     [pr..NUM_PRIORITY - 1]"

definition E_set_active_threshold :: "int \<Rightarrow> 'a fd_state_scheme \<Rightarrow> int \<times> 'a fd_state_scheme" where
  "E_set_active_threshold pr s =
     (if pr < 0 \<or> pr > NUM_PRIORITY then (- 1, s)
      else if pr = Active_priority s then (pr, s)
      else (pr, s\<lparr>Active_priority := pr, Fd_mask := (\<lambda>ty fd. wanted s pr ty fd)\<rparr>))"

definition E_num_active :: "int \<Rightarrow> 'a fd_state_scheme \<Rightarrow> int option" where
  "E_num_active pr s = (if pr < 0 \<or> pr > NUM_PRIORITY then Some (- 1)
     else if pr = NUM_PRIORITY then None else Some (num_active_fds (Fd_queue s pr)))"

section \<open>Dispatching\<close>

text \<open>
  \<open>ready\<close> is what \<open>select\<close> left in the masks and \<open>num_set\<close> its result; the handler of an event is
  a parameter, and may change the queues while they are walked.
\<close>

definition run_ready ::
  "(fd_event \<Rightarrow> 'a fd_state_scheme \<Rightarrow> 'a fd_state_scheme option) \<Rightarrow> (int \<Rightarrow> int \<Rightarrow> bool) \<Rightarrow> int \<Rightarrow> nat \<Rightarrow>
   int \<times> bool \<times> 'a fd_state_scheme \<Rightarrow> ((int \<times> bool \<times> 'a fd_state_scheme) \<times> bool) option" where
  "run_ready exec ready i j st = (let (num_set, treated, s) = st; es = fq_events (Fd_queue s i) in
     if \<not> (j < length es \<and> num_set > 0) then Some (st, True)
     else let e = es ! j in
       if ready (fe_type e) (fe_fd e)
       then do { s' \<leftarrow> exec e s; Some ((num_set - 1, True, s'), False) }
       else Some (st, False))"

definition dispatch_high ::
  "(fd_event \<Rightarrow> 'a fd_state_scheme \<Rightarrow> 'a fd_state_scheme option) \<Rightarrow> (int \<Rightarrow> int \<Rightarrow> bool) \<Rightarrow> int \<Rightarrow>
   'a fd_state_scheme \<Rightarrow> (int \<times> bool \<times> 'a fd_state_scheme) option" where
  "dispatch_high exec ready num_set s =
     forB [HIGH_PRIORITY, MEDIUM_PRIORITY] (\<lambda>i st.
       if fst st > 0 \<and> \<not> fst (snd st)
       then do { st' \<leftarrow> forB [0..<MAX_FD_EVENTS] (run_ready exec ready i) st; Some (st', False) }
       else Some (st, True)) (num_set, False, s)"

text \<open>One low-priority event, searched for from where the last one was found.\<close>

definition low_choice :: "(int \<Rightarrow> int \<Rightarrow> bool) \<Rightarrow> fd_event list \<Rightarrow> nat \<Rightarrow> nat option" where
  "low_choice ready es rr =
     map_option (\<lambda>i. (i + rr) mod length es)
       (find (\<lambda>i. let e = es ! ((i + rr) mod length es) in ready (fe_type e) (fe_fd e)) [0..<length es])"

definition dispatch_low ::
  "(fd_event \<Rightarrow> 'a fd_state_scheme \<Rightarrow> 'a fd_state_scheme option) \<Rightarrow> (int \<Rightarrow> int \<Rightarrow> bool) \<Rightarrow> int \<Rightarrow>
   'a fd_state_scheme \<Rightarrow> 'a fd_state_scheme option" where
  "dispatch_low exec ready num_set s = (let es = fq_events (Fd_queue s LOW_PRIORITY) in
     if num_set > 0 \<and> Active_priority s = LOW_PRIORITY
     then case low_choice ready es (Round_robin s) of None \<Rightarrow> Some s
          | Some j \<Rightarrow> exec (es ! j) (s\<lparr>Round_robin := (j + 1) mod length es\<rparr>)
     else Some s)"

section \<open>The masks follow the queues\<close>

definition registered :: "'a fd_state_scheme \<Rightarrow> int \<Rightarrow> int \<Rightarrow> int \<Rightarrow> bool" where
  "registered s pr fd ty \<longleftrightarrow> (\<exists>e \<in> set (fq_events (Fd_queue s pr)). is_fd fd ty e)"

definition fds_ok :: "'a fd_state_scheme \<Rightarrow> bool" where
  "fds_ok s \<longleftrightarrow>
     (\<forall>i. length (fq_events (Fd_queue s i)) \<le> MAX_FD_EVENTS) \<and>
     (\<forall>i. num_active_fds (Fd_queue s i) = int (length (filter fe_active (fq_events (Fd_queue s i))))) \<and>
     (\<forall>i. distinct (map (\<lambda>e. (fe_fd e, fe_type e)) (fq_events (Fd_queue s i)))) \<and>
     (\<forall>i j fd ty. registered s i fd ty \<and> registered s j fd ty \<longrightarrow> i = j) \<and>
     (\<forall>i fd ty. registered s i fd ty \<longrightarrow> 0 \<le> i \<and> i < NUM_PRIORITY) \<and>
     (\<forall>ty fd. Fd_mask s ty fd = wanted s (Active_priority s) ty fd)"

lemma fds_okD:
  assumes "fds_ok s"
  shows "length (fq_events (Fd_queue s i)) \<le> MAX_FD_EVENTS"
    and "num_active_fds (Fd_queue s i) = int (length (filter fe_active (fq_events (Fd_queue s i))))"
    and "distinct (map (\<lambda>e. (fe_fd e, fe_type e)) (fq_events (Fd_queue s i)))"
    and "registered s i fd ty \<Longrightarrow> registered s j fd ty \<Longrightarrow> i = j"
    and "registered s i fd ty \<Longrightarrow> 0 \<le> i \<and> i < NUM_PRIORITY"
    and "Fd_mask s ty fd = wanted s (Active_priority s) ty fd"
  using assms unfolding fds_ok_def by blast+

lemma find_index_Some:
  "find_index P xs = Some j \<Longrightarrow> j < length xs \<and> P (xs ! j)"
  by (induction xs arbitrary: j) (auto split: if_splits)

lemma find_index_None: "find_index P xs = None \<longleftrightarrow> (\<forall>x \<in> set xs. \<not> P x)"
  by (induction xs) auto

lemma set_fields [simp]:
  "Fd_queue (set_mask ty fd b s) = Fd_queue s" "Active_priority (set_mask ty fd b s) = Active_priority s"
  "Fd_queue (set_queue i q s) = (Fd_queue s)(i := q)" "Active_priority (set_queue i q s) = Active_priority s"
  "Fd_mask (set_queue i q s) = Fd_mask s"
  "Fd_mask (set_mask ty fd b s) ty' fd' = (if ty' = ty \<and> fd' = fd then b else Fd_mask s ty' fd')"
  by (simp_all add: set_mask_def set_queue_def)

lemma set_mask_same: "Fd_mask s ty fd = b \<Longrightarrow> set_mask ty fd b (set_queue i q s) = set_queue i q s"
  by (simp add: set_mask_def set_queue_def fun_upd_idem)

lemma wanted_iff:
  "wanted s pr ty fd \<longleftrightarrow> (\<exists>i. pr \<le> i \<and> i < NUM_PRIORITY \<and>
     (\<exists>e \<in> set (fq_events (Fd_queue s i)). is_fd fd ty e \<and> fe_active e))"
  by (auto simp: wanted_def list_ex_iff)

text \<open>One queue changes at the entry of one descriptor, and the mask of it is set to match.\<close>

lemma fds_ok_update:
  assumes ok: "fds_ok s" and i: "0 \<le> i" "i < NUM_PRIORITY" and len: "length es \<le> MAX_FD_EVENTS"
    and dist: "distinct (map (\<lambda>e. (fe_fd e, fe_type e)) es)"
    and others: "\<And>e. \<not> is_fd fd ty e \<Longrightarrow> e \<in> set es \<longleftrightarrow> e \<in> set (fq_events (Fd_queue s i))"
    and uniq: "\<And>k. k \<noteq> i \<Longrightarrow> \<not> registered s k fd ty"
    and n: "n = int (length (filter fe_active es))"
    and b: "b \<longleftrightarrow> Active_priority s \<le> i \<and> (\<exists>e \<in> set es. is_fd fd ty e \<and> fe_active e)"
  shows "fds_ok (set_mask ty fd b (set_queue i \<lparr>fq_events = es, num_active_fds = n\<rparr> s))"
proof -
  let ?s = "set_mask ty fd b (set_queue i \<lparr>fq_events = es, num_active_fds = n\<rparr> s)"
  have reg: "registered ?s k f t \<longleftrightarrow>
      (if is_fd fd ty \<lparr>fe_fd = f, fe_type = t, fe_func = Sess_read_fd, fe_code = 0, fe_active = True\<rparr>
       then k = i \<and> (\<exists>e \<in> set es. is_fd fd ty e) else registered s k f t)" for k f t
    using uniq [of k] others by (auto simp: registered_def is_fd_def)
  have mask: "wanted ?s (Active_priority s) t f = (if t = ty \<and> f = fd then b else wanted s (Active_priority s) t f)" for t f
  proof (cases "t = ty \<and> f = fd")
    case True
    then show ?thesis using uniq i b unfolding wanted_iff registered_def
      by (auto split: if_splits)
  next
    case False
    then have "is_fd f t e \<Longrightarrow> \<not> is_fd fd ty e" for e by (auto simp: is_fd_def)
    then have "(\<exists>e \<in> set (fq_events (Fd_queue ?s k)). is_fd f t e \<and> fe_active e) \<longleftrightarrow>
        (\<exists>e \<in> set (fq_events (Fd_queue s k)). is_fd f t e \<and> fe_active e)" for k
      using others by (cases "k = i") auto
    then show ?thesis using False by (simp only: wanted_iff set_fields if_False)
  qed
  show ?thesis
    unfolding fds_ok_def
  proof (intro conjI allI impI)
    fix k l f t
    show "length (fq_events (Fd_queue ?s k)) \<le> MAX_FD_EVENTS" using len fds_okD(1) [OF ok] by simp
    show "num_active_fds (Fd_queue ?s k) = int (length (filter fe_active (fq_events (Fd_queue ?s k))))"
      using n fds_okD(2) [OF ok] by simp
    show "distinct (map (\<lambda>e. (fe_fd e, fe_type e)) (fq_events (Fd_queue ?s k)))"
      using dist fds_okD(3) [OF ok] by simp
    show "k = l" if "registered ?s k f t \<and> registered ?s l f t"
      using that fds_okD(4) [OF ok, of k f t l] by (auto simp: reg split: if_splits)
    show "0 \<le> k" "k < NUM_PRIORITY" if "registered ?s k f t"
      using that i fds_okD(5) [OF ok, of k f t] by (auto simp: reg split: if_splits)
    show "Fd_mask ?s t f = wanted ?s (Active_priority ?s) t f"
      using fds_okD(6) [OF ok, of t f] mask [of t f] by simp
  qed
qed

lemma mset_butlast: "es \<noteq> [] \<Longrightarrow> mset es = add_mset (last es) (mset (butlast es))"
  by (metis add_mset_add_single append_butlast_last_id mset.simps mset_append mset_single_iff_right)

lemma mset_butlast_upd:
  assumes "j < length es"
  shows "add_mset (es ! j) (mset (butlast (es[j := last es]))) = mset es"
proof -
  have ne: "es \<noteq> []" using assms by auto
  show ?thesis
  proof (cases "j = length es - 1")
    case True
    then have l: "es ! j = last es" using ne by (simp add: last_conv_nth)
    then have "es[j := last es] = es" by (metis list_update_id)
    then show ?thesis using l mset_butlast [OF ne] by simp
  next
    case False
    then have j: "j < length (butlast es)" using assms by simp
    have "butlast (es[j := last es]) = (butlast es)[j := last es]"
      using j by (simp add: butlast_list_update)
    moreover have "butlast es ! j = es ! j" using j by (simp add: nth_butlast)
    moreover have "es ! j \<in># mset (butlast es)" using j \<open>butlast es ! j = es ! j\<close> by (metis nth_mem_mset)
    ultimately show ?thesis using j mset_butlast [OF ne] by (simp add: mset_update)
  qed
qed

lemma drop_fd_ok:
  assumes "fds_ok s"
  shows "fds_ok (snd (drop_fd fd ty i (b, s)))"
proof (cases "find_index (is_fd fd ty) (fq_events (Fd_queue s i))")
  case None
  then show ?thesis using assms by (simp add: drop_fd_def Let_def)
next
  case (Some j)
  let ?es = "fq_events (Fd_queue s i)"
  let ?es' = "butlast (?es[j := last ?es])"
  have j: "j < length ?es" "is_fd fd ty (?es ! j)" using find_index_Some [OF Some] by auto
  note ms = mset_butlast_upd [OF j(1)]
  have reg: "registered s i fd ty" using j by (auto simp: registered_def)
  have keys: "add_mset (fd, ty) (mset (map (\<lambda>e. (fe_fd e, fe_type e)) ?es')) = mset (map (\<lambda>e. (fe_fd e, fe_type e)) ?es)"
    using ms j(2) by (metis (no_types, lifting) image_mset_add_mset is_fd_def mset_map)
  have d: "distinct ((fd, ty) # map (\<lambda>e. (fe_fd e, fe_type e)) ?es')"
    using fds_okD(3) [OF assms, of i] keys by (metis mset.simps(2) mset_eq_imp_distinct_iff)
  have gone: "\<not> is_fd fd ty e" if "e \<in> set ?es'" for e
    using d that by (force simp: is_fd_def)
  have "fds_ok (set_mask ty fd False (set_queue i \<lparr>fq_events = ?es',
      num_active_fds = num_active_fds (Fd_queue s i) - (if fe_active (?es ! j) then 1 else 0)\<rparr> s))"
  proof (rule fds_ok_update [OF assms])
    show "0 \<le> i" "i < NUM_PRIORITY" using fds_okD(5) [OF assms reg] by auto
    show "length ?es' \<le> MAX_FD_EVENTS" using fds_okD(1) [OF assms, of i] by simp
    show "distinct (map (\<lambda>e. (fe_fd e, fe_type e)) ?es')" using d by simp
    show "e \<in> set ?es' \<longleftrightarrow> e \<in> set ?es" if "\<not> is_fd fd ty e" for e
    proof -
      have "e \<noteq> ?es ! j" using that j(2) by auto
      moreover have "insert (?es ! j) (set ?es') = set ?es"
        using ms by (metis set_mset_add_mset_insert set_mset_mset)
      ultimately show ?thesis by blast
    qed
    show "\<not> registered s k fd ty" if "k \<noteq> i" for k using fds_okD(4) [OF assms _ reg, of k] that by auto
    have "size (filter_mset fe_active (mset ?es)) = size (filter_mset fe_active (mset ?es')) + (if fe_active (?es ! j) then 1 else 0)"
      by (subst ms [symmetric]) simp
    then show "num_active_fds (Fd_queue s i) - (if fe_active (?es ! j) then 1 else 0) = int (length (filter fe_active ?es'))"
      using fds_okD(2) [OF assms, of i] by (simp flip: mset_filter size_mset)
    show "False \<longleftrightarrow> Active_priority s \<le> i \<and> (\<exists>e \<in> set ?es'. is_fd fd ty e \<and> fe_active e)"
      using gone by auto
  qed
  then show ?thesis by (simp add: drop_fd_def Let_def Some)
qed

text \<open>An entry is changed in place: its key stays.\<close>

lemma change_entry_ok:
  assumes ok: "fds_ok s" and j: "find_index (is_fd fd ty) (fq_events (Fd_queue s i)) = Some j"
    and e': "is_fd fd ty e'"
    and b: "b \<longleftrightarrow> Active_priority s \<le> i \<and> fe_active e'"
    and n: "n = num_active_fds (Fd_queue s i) - (if fe_active (fq_events (Fd_queue s i) ! j) then 1 else 0)
      + (if fe_active e' then 1 else 0)"
  shows "fds_ok (set_mask ty fd b (set_queue i
    \<lparr>fq_events = (fq_events (Fd_queue s i))[j := e'], num_active_fds = n\<rparr> s))"
proof -
  let ?es = "fq_events (Fd_queue s i)"
  let ?es' = "?es[j := e']"
  have jj: "j < length ?es" "is_fd fd ty (?es ! j)" using find_index_Some [OF j] by auto
  have reg: "registered s i fd ty" using jj by (auto simp: registered_def)
  have keys: "map (\<lambda>e. (fe_fd e, fe_type e)) ?es' = map (\<lambda>e. (fe_fd e, fe_type e)) ?es"
    using jj e' by (simp add: map_update is_fd_def list_update_same_conv)
  have ms: "add_mset (?es ! j) (mset ?es') = add_mset e' (mset ?es)"
    using jj by (simp add: mset_update)
  have only: "e = e'" if e: "e \<in> set ?es'" "is_fd fd ty e" for e
  proof -
    obtain k where "k < length ?es'" "?es' ! k = e" using e(1) by (auto simp only: in_set_conv_nth)
    then have k: "k < length ?es" "e = ?es' ! k" by simp_all
    have "map (\<lambda>e. (fe_fd e, fe_type e)) ?es' ! k = map (\<lambda>e. (fe_fd e, fe_type e)) ?es' ! j"
      using e(2) e' k jj by (simp add: is_fd_def del: map_update)
    then have "k = j" using fds_okD(3) [OF ok, of i] k jj unfolding keys by (metis length_map nth_eq_iff_index_eq)
    then show ?thesis using k jj by simp
  qed
  have "e' \<in> set ?es'" using jj by (simp add: set_update_memI)
  show ?thesis
  proof (rule fds_ok_update [OF ok])
    show "0 \<le> i" "i < NUM_PRIORITY" using fds_okD(5) [OF ok reg] by auto
    show "length ?es' \<le> MAX_FD_EVENTS" using fds_okD(1) [OF ok, of i] by simp
    show "distinct (map (\<lambda>e. (fe_fd e, fe_type e)) ?es')" using fds_okD(3) [OF ok, of i] keys by simp
    show "e \<in> set ?es' \<longleftrightarrow> e \<in> set ?es" if "\<not> is_fd fd ty e" for e
    proof -
      have "e \<noteq> ?es ! j" "e \<noteq> e'" using that jj(2) e' by auto
      moreover have "insert (?es ! j) (set ?es') = insert e' (set ?es)"
        using ms by (metis set_mset_add_mset_insert set_mset_mset)
      ultimately show ?thesis by blast
    qed
    show "\<not> registered s k fd ty" if "k \<noteq> i" for k using fds_okD(4) [OF ok _ reg, of k] that by auto
    have "size (filter_mset fe_active (add_mset (?es ! j) (mset ?es'))) = size (filter_mset fe_active (add_mset e' (mset ?es)))"
      by (simp only: ms)
    then show "n = int (length (filter fe_active ?es'))"
      using fds_okD(2) [OF ok, of i] n by (simp flip: mset_filter size_mset split: if_splits)
    show "b \<longleftrightarrow> Active_priority s \<le> i \<and> (\<exists>e \<in> set ?es'. is_fd fd ty e \<and> fe_active e)"
      using b only e' \<open>e' \<in> set ?es'\<close> by blast
  qed
qed

text \<open>
  The use the daemon makes of the queues: a descriptor is attached at one priority and is not
  attached again while it is deactivated.
\<close>

inductive fd_step :: "'a fd_state_scheme \<Rightarrow> 'a fd_state_scheme \<Rightarrow> bool" where
  attach: "E_attach_fd fd ty f code pr s = Some (r, s') \<Longrightarrow> \<forall>i. i \<noteq> pr \<longrightarrow> \<not> registered s i fd ty \<Longrightarrow>
    \<forall>e \<in> set (fq_events (Fd_queue s pr)). is_fd fd ty e \<longrightarrow> fe_active e \<Longrightarrow> fd_step s s'"
| detach: "E_detach_fd fd ty s = Some (r, s') \<Longrightarrow> fd_step s s'"
| deactivate: "E_deactivate_fd fd ty s = Some (r, s') \<Longrightarrow> fd_step s s'"
| activate: "E_activate_fd fd ty s = Some (r, s') \<Longrightarrow> fd_step s s'"
| threshold: "E_set_active_threshold pr s = (r, s') \<Longrightarrow> fd_step s s'"

lemma attach_ok:
  assumes ok: "fds_ok s" and a: "E_attach_fd fd ty f code pr s = Some (r, s')"
    and only: "\<And>i. i \<noteq> pr \<Longrightarrow> \<not> registered s i fd ty"
    and act: "\<And>e. e \<in> set (fq_events (Fd_queue s pr)) \<Longrightarrow> is_fd fd ty e \<Longrightarrow> fe_active e"
  shows "fds_ok s'"
proof (cases "s' = s")
  case False
  let ?es = "fq_events (Fd_queue s pr)"
  let ?e = "\<lparr>fe_fd = fd, fe_type = ty, fe_func = f, fe_code = code, fe_active = True\<rparr>"
  from a False have pr: "0 \<le> pr" "pr < NUM_PRIORITY"
    by (auto simp: E_attach_fd_def split: if_splits)
  show ?thesis
  proof (cases "find_index (is_fd fd ty) ?es")
    case (Some j)
    let ?e' = "(?es ! j)\<lparr>fe_func := f, fe_code := code, fe_active := True\<rparr>"
    have j: "j < length ?es" "is_fd fd ty (?es ! j)" using find_index_Some [OF Some] by auto
    then have "fe_active (?es ! j)" by (intro act) simp_all
    moreover have "Fd_mask s ty fd \<longleftrightarrow> Active_priority s \<le> pr"
      using j \<open>fe_active (?es ! j)\<close> pr only unfolding fds_okD(6) [OF ok] wanted_iff registered_def
      by (metis nth_mem)
    ultimately have "fds_ok (set_queue pr \<lparr>fq_events = ?es[j := ?e'],
        num_active_fds = num_active_fds (Fd_queue s pr) + (if fe_active (?es ! j) then 0 else 1)\<rparr> s)"
      using change_entry_ok [OF ok Some, of ?e' "Active_priority s \<le> pr"] j(2)
      by (simp add: set_mask_same is_fd_def)
    then show ?thesis using a False
      by (auto simp: E_attach_fd_def Let_def Some split: if_splits)
  next
    case None
    then have new: "\<not> registered s pr fd ty" by (simp add: find_index_None registered_def)
    define b where "b \<longleftrightarrow> Active_priority s \<le> pr"
    have s': "s' = set_mask ty fd b (set_queue pr \<lparr>fq_events = ?es @ [?e], num_active_fds = num_active_fds (Fd_queue s pr) + 1\<rparr> s)"
      and room: "length ?es < MAX_FD_EVENTS"
    proof -
      have off: "\<not> Fd_mask s ty fd"
        using new only unfolding fds_okD(6) [OF ok] wanted_iff registered_def by metis
      have "set_mask ty fd False (set_queue pr q s) = set_queue pr q s" for q
        using off by (intro set_mask_same) simp
      then show "s' = set_mask ty fd b (set_queue pr \<lparr>fq_events = ?es @ [?e], num_active_fds = num_active_fds (Fd_queue s pr) + 1\<rparr> s)"
        using a False by (auto simp: E_attach_fd_def Let_def None b_def split: if_splits)
      show "length ?es < MAX_FD_EVENTS" using a False fds_okD(1) [OF ok, of pr]
        by (auto simp: E_attach_fd_def Let_def None split: if_splits)
    qed
    have "fds_ok (set_mask ty fd b (set_queue pr \<lparr>fq_events = ?es @ [?e], num_active_fds = num_active_fds (Fd_queue s pr) + 1\<rparr> s))"
    proof (rule fds_ok_update [OF ok pr])
      show "length (?es @ [?e]) \<le> MAX_FD_EVENTS" using room by simp
      show "distinct (map (\<lambda>e. (fe_fd e, fe_type e)) (?es @ [?e]))"
        using fds_okD(3) [OF ok, of pr] new by (auto simp: registered_def is_fd_def)
      show "e \<in> set (?es @ [?e]) \<longleftrightarrow> e \<in> set ?es" if "\<not> is_fd fd ty e" for e using that by (auto simp: is_fd_def)
      show "\<not> registered s k fd ty" if "k \<noteq> pr" for k using only that .
      show "num_active_fds (Fd_queue s pr) + 1 = int (length (filter fe_active (?es @ [?e])))"
        using fds_okD(2) [OF ok, of pr] by simp
      show "b \<longleftrightarrow> Active_priority s \<le> pr \<and> (\<exists>e \<in> set (?es @ [?e]). is_fd fd ty e \<and> fe_active e)"
        by (auto simp: b_def is_fd_def)
    qed
    then show ?thesis by (simp add: s')
  qed
qed (use ok in simp)

lemma fold_preserves: "P st \<Longrightarrow> (\<And>i st. P st \<Longrightarrow> P (f i st)) \<Longrightarrow> P (fold f is st)"
  by (induction "is" arbitrary: st) simp_all

lemma deactivate_ok:
  assumes "fds_ok s"
  shows "fds_ok (snd (deactivate_in fd ty i (b, s)))"
proof (cases "find_index (is_fd fd ty) (fq_events (Fd_queue s i))")
  case None
  then show ?thesis using assms by (simp add: deactivate_in_def)
next
  case (Some j)
  then have "is_fd fd ty (fq_events (Fd_queue s i) ! j)" using find_index_Some [OF Some] by simp
  then show ?thesis
    using change_entry_ok [OF assms Some, of "(fq_events (Fd_queue s i) ! j)\<lparr>fe_active := False\<rparr>" False]
    by (simp add: deactivate_in_def Some is_fd_def Let_def)
qed

lemma activate_ok:
  assumes "fds_ok s"
  shows "fds_ok (snd (activate_in fd ty i (b, s)))"
proof (cases "find_index (is_fd fd ty) (fq_events (Fd_queue s i))")
  case None
  then show ?thesis using assms by (simp add: activate_in_def)
next
  case (Some j)
  let ?es = "fq_events (Fd_queue s i)"
  let ?e = "(?es ! j)\<lparr>fe_active := True\<rparr>"
  have j: "j < length ?es" "is_fd fd ty (?es ! j)" using find_index_Some [OF Some] by auto
  then have reg: "registered s i fd ty" by (auto simp: registered_def)
  have "\<not> Fd_mask s ty fd" if "\<not> Active_priority s \<le> i"
    using that fds_okD(4) [OF assms reg] unfolding fds_okD(6) [OF assms] wanted_iff registered_def by metis
  then have "\<not> Active_priority s \<le> i \<Longrightarrow> set_mask ty fd False (set_queue i q s) = set_queue i q s" for q
    by (intro set_mask_same) simp
  moreover have "fds_ok (set_mask ty fd (Active_priority s \<le> i) (set_queue i
     \<lparr>fq_events = ?es[j := ?e], num_active_fds = num_active_fds (Fd_queue s i) + (if fe_active (?es ! j) then 0 else 1)\<rparr> s))"
    using change_entry_ok [OF assms Some, of ?e "Active_priority s \<le> i"] j(2)
    by (cases "fe_active (?es ! j)") (simp_all add: is_fd_def)
  ultimately show ?thesis
    by (cases "Active_priority s \<le> i") (simp_all add: activate_in_def Some Let_def)
qed

lemma found_code_ok: "snd (found_code st) = snd st" by (simp add: found_code_def)

lemma fd_step_ok:
  assumes "fd_step s s'" and "fds_ok s"
  shows "fds_ok s'"
  using assms
proof (cases rule: fd_step.cases)
  case (attach fd ty f code pr r)
  then show ?thesis using attach_ok [OF assms(2) attach(1)] by blast
next
  case (detach fd ty r)
  have "fds_ok (snd (fold (drop_fd fd ty) [0, 1, 2] (False, s)))"
    by (rule fold_preserves [where P = "\<lambda>st. fds_ok (snd st)"]) (use assms(2) drop_fd_ok in auto)
  with detach assms(2) show ?thesis by (auto simp: E_detach_fd_def found_code_def split: if_splits)
next
  case (deactivate fd ty r)
  have "fds_ok (snd (fold (deactivate_in fd ty) [0, 1, 2] (False, s)))"
    by (rule fold_preserves [where P = "\<lambda>st. fds_ok (snd st)"]) (use assms(2) deactivate_ok in auto)
  with deactivate assms(2) show ?thesis by (auto simp: E_deactivate_fd_def found_code_def split: if_splits)
next
  case (activate fd ty r)
  have "fds_ok (snd (fold (activate_in fd ty) [0, 1, 2] (False, s)))"
    by (rule fold_preserves [where P = "\<lambda>st. fds_ok (snd st)"]) (use assms(2) activate_ok in auto)
  with activate assms(2) show ?thesis by (auto simp: E_activate_fd_def found_code_def split: if_splits)
next
  case (threshold pr r)
  let ?s = "s\<lparr>Active_priority := pr, Fd_mask := (\<lambda>ty fd. wanted s pr ty fd)\<rparr>"
  have "registered ?s = registered s" "wanted ?s = wanted s"
    by (simp_all add: registered_def wanted_def fun_eq_iff)
  then have "fds_ok ?s" using assms(2) by (simp add: fds_ok_def)
  with threshold assms(2) show ?thesis
    by (auto simp: E_set_active_threshold_def split: if_splits)
qed

lemma init_fds_ok: "fds_ok (E_init_fds s)"
  by (auto simp: fds_ok_def E_init_fds_def registered_def wanted_def list_ex_iff)


definition no_fds :: fd_state where
  "no_fds = \<lparr>Fd_queue = (\<lambda>_. \<lparr>fq_events = [], num_active_fds = 0\<rparr>), Fd_mask = (\<lambda>_ _. False),
     Active_priority = 0, Round_robin = 0\<rparr>"


section \<open>Round robin is fair\<close>

text \<open>The events chosen in consecutive rounds, with what is ready in each of them.\<close>

fun low_rounds :: "(nat \<Rightarrow> int \<Rightarrow> int \<Rightarrow> bool) \<Rightarrow> fd_event list \<Rightarrow> nat \<Rightarrow> nat \<Rightarrow> nat option list" where
  "low_rounds ready es 0 rr = []"
| "low_rounds ready es (Suc m) rr = (case low_choice (ready 0) es rr of
       None \<Rightarrow> None # low_rounds (\<lambda>i. ready (Suc i)) es m rr
     | Some j \<Rightarrow> Some j # low_rounds (\<lambda>i. ready (Suc i)) es m ((j + 1) mod length es))"

lemma low_choice_Some:
  assumes "k < length es" and "ready (fe_type (es ! k)) (fe_fd (es ! k))" and "rr < length es"
  defines "d \<equiv> (k + length es - rr) mod length es"
  shows "\<exists>i \<le> d. low_choice ready es rr = Some ((i + rr) mod length es)"
proof -
  have n: "0 < length es" using assms(1) by (cases es) auto
  have d: "d < length es" "(d + rr) mod length es = k"
    using mod_less_divisor [OF n] assms(1,3) by (simp_all add: d_def mod_add_left_eq)
  define P where "P i \<longleftrightarrow> (let e = es ! ((i + rr) mod length es) in ready (fe_type e) (fe_fd e))" for i
  have "P d" using assms(2) d by (simp add: P_def)
  then have "find P [0..<length es] \<noteq> None" using d by (auto simp: find_None_iff)
  then obtain i where i: "find P [0..<length es] = Some i" by auto
  then have "i < length es" "P i" "\<forall>j < i. \<not> P j" by (auto simp: find_Some_iff)
  then have "i \<le> d" using \<open>P d\<close> by (meson not_le_imp_less)
  then show ?thesis using i by (auto simp: low_choice_def P_def [abs_def])
qed

lemma mod_back:
  fixes a n r k :: nat
  assumes "a < n" and "r < n" and "(a + r) mod n = k"
  shows "(k + n - r) mod n = a"
proof (cases "a + r < n")
  case True
  then show ?thesis using assms by auto
next
  case False
  then have "k = a + r - n" using assms by (auto simp: le_mod_geq)
  then show ?thesis using assms False by simp
qed


definition three_fds :: "fd_event list" where
  "three_fds = map (\<lambda>f. \<lparr>fe_fd = f, fe_type = 0, fe_func = Sess_read_fd, fe_code = 0, fe_active = True\<rparr>) [5, 6, 7]"


end
