(* ===== verification/Session_table.thy ===== *)
theory Session_table
  imports Message Fd_events "HOL-Library.List_Lexorder"
begin

text \<open>
  The table of client sessions in \<open>daemon/session.c\<close>: a fixed array whose live entries are linked
  into a list sorted by private name and into hash chains by mailbox, and whose free entries are
  linked into a free list.  A \<open>session *\<close> is its index in the array, \<open>NULL\<close> is \<open>None\<close>.  The walks
  over the links are \<open>partial_function\<close>s; the last sections show that they end and find what they
  look for.
\<close>

section \<open>Data\<close>

definition MAX_SESSIONS :: nat where "MAX_SESSIONS = (MAX_FD_EVENTS - 5) div 2"
definition MAX_SESSION_MESSAGES :: nat where "MAX_SESSION_MESSAGES = 1000"
definition SESSION_FD_HASH_SIZE :: nat where "SESSION_FD_HASH_SIZE = 256"

definition MEMB_SESSION :: int32u where "MEMB_SESSION = 0x00000001"
definition OP_SESSION :: int32u where "OP_SESSION = 0x00000010"
definition PRE_AUTH_SESSION :: int32u where "PRE_AUTH_SESSION = 0x00000100"

definition Is_memb_session :: "int32u \<Rightarrow> bool" where "Is_memb_session st \<longleftrightarrow> st AND MEMB_SESSION \<noteq> 0"
definition Set_memb_session :: "int32u \<Rightarrow> int32u" where "Set_memb_session st = st OR MEMB_SESSION"
definition Clear_memb_session :: "int32u \<Rightarrow> int32u" where "Clear_memb_session st = st AND NOT MEMB_SESSION"
definition Is_op_session :: "int32u \<Rightarrow> bool" where "Is_op_session st \<longleftrightarrow> st AND OP_SESSION \<noteq> 0"
definition Set_op_session :: "int32u \<Rightarrow> int32u" where "Set_op_session st = st OR OP_SESSION"
definition Clear_op_session :: "int32u \<Rightarrow> int32u" where "Clear_op_session st = st AND NOT OP_SESSION"
definition Is_preauth_session :: "int32u \<Rightarrow> bool" where "Is_preauth_session st \<longleftrightarrow> st AND PRE_AUTH_SESSION \<noteq> 0"
definition Set_preauth_session :: "int32u \<Rightarrow> int32u" where "Set_preauth_session st = st OR PRE_AUTH_SESSION"
definition Clear_preauth_session :: "int32u \<Rightarrow> int32u" where "Clear_preauth_session st = st AND NOT PRE_AUTH_SESSION"

text \<open>The access-control policy of a session: function pointers, here their decisions.\<close>

record acp_ops =
  acp_open_connection :: "byte list \<Rightarrow> bool"
  acp_join_group :: "byte list \<Rightarrow> byte list \<Rightarrow> bool"
  acp_leave_group :: "byte list \<Rightarrow> byte list \<Rightarrow> bool"
  acp_p2p_send :: "byte list \<Rightarrow> byte list list \<Rightarrow> int32u \<Rightarrow> int32u \<Rightarrow> bool"
  acp_mcast_send :: "byte list \<Rightarrow> byte list list \<Rightarrow> int32u \<Rightarrow> int32u \<Rightarrow> bool"

record session =
  ss_name :: "byte list"
  ss_lib_version :: "int \<times> int \<times> int"
  ss_address :: int32u
  ss_status :: int32u
  ss_priority :: int
  ss_mbox :: int
  ss_type :: int
  ss_acp_ops :: acp_ops
  ss_read :: partial_message_info
  ss_read_mess :: "message option"
  ss_mess :: "message list" \<comment> \<open>\<open>first\<close> to \<open>last\<close>; \<open>num_mess\<close> is the length\<close>
  ss_write :: partial_message_info
  ss_sort_prev :: "nat option"
  ss_sort_next :: "nat option"
  ss_hash_next :: "nat option"

record sess_table = fd_state +
  Sessions :: "nat \<Rightarrow> session"
  Sessions_hash_head :: "nat \<Rightarrow> nat option"
  Sessions_head :: "nat option"
  Sessions_tail :: "nat option"
  Sessions_free :: "nat option"

definition upd_session :: "nat \<Rightarrow> (session \<Rightarrow> session) \<Rightarrow> 'a sess_table_scheme \<Rightarrow> 'a sess_table_scheme" where
  "upd_session i f s = s\<lparr>Sessions := (Sessions s)(i := f (Sessions s i))\<rparr>"

abbreviation set_sort_next :: "nat \<Rightarrow> nat option \<Rightarrow> 'a sess_table_scheme \<Rightarrow> 'a sess_table_scheme" where
  "set_sort_next i p \<equiv> upd_session i (\<lambda>x. x\<lparr>ss_sort_next := p\<rparr>)"

abbreviation set_sort_prev :: "nat \<Rightarrow> nat option \<Rightarrow> 'a sess_table_scheme \<Rightarrow> 'a sess_table_scheme" where
  "set_sort_prev i p \<equiv> upd_session i (\<lambda>x. x\<lparr>ss_sort_prev := p\<rparr>)"

abbreviation set_hash_next :: "nat \<Rightarrow> nat option \<Rightarrow> 'a sess_table_scheme \<Rightarrow> 'a sess_table_scheme" where
  "set_hash_next i p \<equiv> upd_session i (\<lambda>x. x\<lparr>ss_hash_next := p\<rparr>)"

section \<open>The hash chains\<close>

definition hash_of :: "int \<Rightarrow> nat" where
  "hash_of mbox = (let c = bytes32 (word_of_int mbox) in unat (c ! 0 XOR c ! 1 XOR c ! 2 XOR c ! 3))"

text \<open>The result \<open>Some None\<close> is the C value \<open>-1\<close>; \<open>None\<close> is a walk that does not end.\<close>

partial_function (option) walk_hash :: "(nat \<Rightarrow> session) \<Rightarrow> int \<Rightarrow> nat option \<Rightarrow> nat option option" where
  "walk_hash ss mbox p = (case p of None \<Rightarrow> Some None
     | Some i \<Rightarrow> if ss_mbox (ss i) = mbox then Some (Some i) else walk_hash ss mbox (ss_hash_next (ss i)))"

definition Sess_get_session_index :: "int \<Rightarrow> 'a sess_table_scheme \<Rightarrow> nat option option" where
  "Sess_get_session_index mbox s = walk_hash (Sessions s) mbox (Sessions_hash_head s (hash_of mbox))"

definition Sess_hash_session :: "nat \<Rightarrow> 'a sess_table_scheme \<Rightarrow> 'a sess_table_scheme" where
  "Sess_hash_session ses s = (let i = hash_of (ss_mbox (Sessions s ses)); s1 = set_hash_next ses (Sessions_hash_head s i) s
     in s1\<lparr>Sessions_hash_head := (Sessions_hash_head s1)(i := Some ses)\<rparr>)"

text \<open>The entry before \<open>ses\<close> in its chain; running into \<open>NULL\<close> is a crash.\<close>

partial_function (option) before_hash :: "(nat \<Rightarrow> session) \<Rightarrow> nat \<Rightarrow> nat \<Rightarrow> nat option" where
  "before_hash ss ses i = (if ss_hash_next (ss i) = Some ses then Some i
     else case ss_hash_next (ss i) of None \<Rightarrow> None | Some j \<Rightarrow> before_hash ss ses j)"

definition Sess_unhash_session :: "nat \<Rightarrow> 'a sess_table_scheme \<Rightarrow> 'a sess_table_scheme option" where
  "Sess_unhash_session ses s = (let i = hash_of (ss_mbox (Sessions s ses)); nx = ss_hash_next (Sessions s ses) in
     if Sessions_hash_head s i = Some ses
     then Some (set_hash_next ses None (s\<lparr>Sessions_hash_head := (Sessions_hash_head s)(i := nx)\<rparr>))
     else case Sessions_hash_head s i of None \<Rightarrow> None
       | Some t \<Rightarrow> map_option (\<lambda>k. set_hash_next ses None (set_hash_next k nx s)) (before_hash (Sessions s) ses t))"

section \<open>The sorted list and the free list\<close>

definition Sess_get_free_session :: "'a sess_table_scheme \<Rightarrow> (nat \<times> 'a sess_table_scheme) option" where
  "Sess_get_free_session s = map_option (\<lambda>i. (i, s\<lparr>Sessions_free := ss_sort_next (Sessions s i)\<rparr>)) (Sessions_free s)"

definition Sess_free_session :: "nat \<Rightarrow> 'a sess_table_scheme \<Rightarrow> 'a sess_table_scheme" where
  "Sess_free_session ses s = (set_sort_next ses (Sessions_free s) s)\<lparr>Sessions_free := Some ses\<rparr>"

definition Sess_insert_new_session ::
  "nat option \<Rightarrow> session \<Rightarrow> 'a sess_table_scheme \<Rightarrow> (nat \<times> 'a sess_table_scheme) option" where
  "Sess_insert_new_session place template s0 = do {
     (n, s1) \<leftarrow> Sess_get_free_session s0;
     let s2 = upd_session n (\<lambda>_. template) s1;
     Some (n, case place of
       None \<Rightarrow> (let s3 = set_sort_next n None s2 in
         case Sessions_tail s3 of
           None \<Rightarrow> (set_sort_prev n None s3)\<lparr>Sessions_head := Some n, Sessions_tail := Some n\<rparr>
         | Some t \<Rightarrow> (set_sort_next t (Some n) (set_sort_prev n (Some t) s3))\<lparr>Sessions_tail := Some n\<rparr>)
     | Some w \<Rightarrow> (let
         s3 = set_sort_next n (Some w) s2;
         s4 = set_sort_prev n (ss_sort_prev (Sessions s3 w)) s3;
         s5 = set_sort_prev w (Some n) s4
         in case ss_sort_prev (Sessions s5 n) of
              None \<Rightarrow> s5\<lparr>Sessions_head := Some n\<rparr>
            | Some p \<Rightarrow> set_sort_next p (Some n) s5)) }"

definition Sess_remove_session :: "nat \<Rightarrow> 'a sess_table_scheme \<Rightarrow> 'a sess_table_scheme" where
  "Sess_remove_session ses s = Sess_free_session ses
     (case (ss_sort_prev (Sessions s ses), ss_sort_next (Sessions s ses)) of
        (None, None) \<Rightarrow> s\<lparr>Sessions_head := None, Sessions_tail := None\<rparr>
      | (None, Some n) \<Rightarrow> set_sort_prev n None (s\<lparr>Sessions_head := Some n\<rparr>)
      | (Some p, None) \<Rightarrow> set_sort_next p None (s\<lparr>Sessions_tail := Some p\<rparr>)
      | (Some p, Some n) \<Rightarrow> set_sort_next p (Some n) (set_sort_prev n (Some p) s))"

definition Sess_init_sessions :: "'a sess_table_scheme \<Rightarrow> 'a sess_table_scheme" where
  "Sess_init_sessions s = fold Sess_free_session [0..<MAX_SESSIONS]
     (s\<lparr>Sessions_hash_head := (\<lambda>_. None), Sessions_free := None, Sessions_head := None, Sessions_tail := None\<rparr>)"

definition same_cstr :: "byte list \<Rightarrow> byte list \<Rightarrow> int" where "same_cstr a b = strcmp (cstr a) (cstr b)"

partial_function (option) walk_names :: "(nat \<Rightarrow> session) \<Rightarrow> byte list \<Rightarrow> nat option \<Rightarrow> nat option option" where
  "walk_names ss nm p = (case p of None \<Rightarrow> Some None
     | Some i \<Rightarrow> let ret = same_cstr (ss_name (ss i)) nm in
         if ret < 0 then walk_names ss nm (ss_sort_next (ss i))
         else if ret = 0 then Some (Some i) else Some None)"

definition Sess_get_session :: "byte list \<Rightarrow> 'a sess_table_scheme \<Rightarrow> nat option option" where
  "Sess_get_session nm s = walk_names (Sessions s) nm (Sessions_head s)"

text \<open>
  The loop of \<open>Sess_accept_continue\<close> that looks for an equal name and for the place of a new one:
  where it stopped, and whether the name is unique.
\<close>

partial_function (option) find_place ::
  "(nat \<Rightarrow> session) \<Rightarrow> byte list \<Rightarrow> nat option \<Rightarrow> (nat option \<times> bool) option" where
  "find_place ss nm p = (case p of None \<Rightarrow> Some (None, True)
     | Some i \<Rightarrow> let ret = same_cstr nm (ss_name (ss i)) in
         if ret \<le> 0 then Some (Some i, ret \<noteq> 0) else find_place ss nm (ss_sort_next (ss i)))"

section \<open>Linked lists\<close>

fun seg :: "(nat \<Rightarrow> nat option) \<Rightarrow> nat option \<Rightarrow> nat list \<Rightarrow> nat option \<Rightarrow> bool" where
  "seg nx p [] q \<longleftrightarrow> p = q"
| "seg nx p (x # xs) q \<longleftrightarrow> p = Some x \<and> seg nx (nx x) xs q"

lemma seg_append: "seg nx p (xs @ ys) q \<longleftrightarrow> (\<exists>r. seg nx p xs r \<and> seg nx r ys q)"
  by (induction xs arbitrary: p) auto

lemma seg_upd [simp]: "x \<notin> set xs \<Longrightarrow> seg (nx(x := v)) p xs q \<longleftrightarrow> seg nx p xs q"
  by (induction xs arbitrary: p) auto

lemma seg_unique: "seg nx p xs q \<Longrightarrow> seg nx p xs r \<Longrightarrow> q = r"
  by (induction xs arbitrary: p) auto

lemma seg_last: "seg nx p (xs @ [x]) q \<longleftrightarrow> seg nx p xs (Some x) \<and> nx x = q"
  by (auto simp: seg_append)

definition nexts :: "'a sess_table_scheme \<Rightarrow> nat \<Rightarrow> nat option" where "nexts s i = ss_sort_next (Sessions s i)"
definition prevs :: "'a sess_table_scheme \<Rightarrow> nat \<Rightarrow> nat option" where "prevs s i = ss_sort_prev (Sessions s i)"
definition hashes :: "'a sess_table_scheme \<Rightarrow> nat \<Rightarrow> nat option" where "hashes s i = ss_hash_next (Sessions s i)"

lemma links_upd [simp]:
  "nexts (set_sort_next i p s) = (nexts s)(i := p)" "prevs (set_sort_next i p s) = prevs s"
  "hashes (set_sort_next i p s) = hashes s" "nexts (set_sort_prev i p s) = nexts s"
  "prevs (set_sort_prev i p s) = (prevs s)(i := p)" "hashes (set_sort_prev i p s) = hashes s"
  "nexts (set_hash_next i p s) = nexts s" "prevs (set_hash_next i p s) = prevs s"
  "hashes (set_hash_next i p s) = (hashes s)(i := p)"
  by (auto simp: nexts_def prevs_def hashes_def upd_session_def fun_eq_iff)

lemma heads_upd [simp]:
  "Sessions_head (upd_session i f s) = Sessions_head s" "Sessions_tail (upd_session i f s) = Sessions_tail s"
  "Sessions_free (upd_session i f s) = Sessions_free s" "Sessions_hash_head (upd_session i f s) = Sessions_hash_head s"
  "Sessions (upd_session i f s) = (Sessions s)(i := f (Sessions s i))"
  by (simp_all add: upd_session_def)

lemma links_heads [simp]:
  "nexts (s\<lparr>Sessions_head := a\<rparr>) = nexts s" "nexts (s\<lparr>Sessions_tail := a\<rparr>) = nexts s"
  "nexts (s\<lparr>Sessions_free := a\<rparr>) = nexts s" "nexts (s\<lparr>Sessions_hash_head := h\<rparr>) = nexts s"
  "prevs (s\<lparr>Sessions_head := a\<rparr>) = prevs s" "prevs (s\<lparr>Sessions_tail := a\<rparr>) = prevs s"
  "prevs (s\<lparr>Sessions_free := a\<rparr>) = prevs s" "prevs (s\<lparr>Sessions_hash_head := h\<rparr>) = prevs s"
  "hashes (s\<lparr>Sessions_head := a\<rparr>) = hashes s" "hashes (s\<lparr>Sessions_tail := a\<rparr>) = hashes s"
  "hashes (s\<lparr>Sessions_free := a\<rparr>) = hashes s" "hashes (s\<lparr>Sessions_hash_head := h\<rparr>) = hashes s"
  by (simp_all add: nexts_def prevs_def hashes_def fun_eq_iff)

section \<open>Names\<close>

lemma strcmp_neg: "strcmp a b < 0 \<longleftrightarrow> a < b"
  by (induction a b rule: strcmp.induct) auto

lemma strcmp_zero: "strcmp a b = 0 \<longleftrightarrow> a = b"
  by (induction a b rule: strcmp.induct) auto

lemma strcmp_signs:
  "same_cstr a b < 0 \<longleftrightarrow> cstr a < cstr b" "same_cstr a b = 0 \<longleftrightarrow> cstr a = cstr b"
  "same_cstr a b \<le> 0 \<longleftrightarrow> cstr a \<le> cstr b"
  using strcmp_neg strcmp_zero by (auto simp: same_cstr_def order_le_less)

definition name_at :: "'a sess_table_scheme \<Rightarrow> nat \<Rightarrow> byte list" where
  "name_at s i = cstr (ss_name (Sessions s i))"

definition mbox_at :: "'a sess_table_scheme \<Rightarrow> nat \<Rightarrow> int" where
  "mbox_at s i = ss_mbox (Sessions s i)"

section \<open>The walks end and find\<close>

lemma walk_hash_seg:
  "seg (\<lambda>i. ss_hash_next (ss i)) p H None \<Longrightarrow>
   walk_hash ss m p = Some (find (\<lambda>i. ss_mbox (ss i) = m) H)"
proof (induction H arbitrary: p)
  case Nil
  then show ?case by (subst walk_hash.simps) simp
next
  case (Cons x xs)
  then show ?case by (subst walk_hash.simps) simp
qed

lemma walk_names_seg:
  "seg (\<lambda>i. ss_sort_next (ss i)) p L None \<Longrightarrow> sorted_wrt (\<lambda>i j. cstr (ss_name (ss i)) < cstr (ss_name (ss j))) L \<Longrightarrow>
   walk_names ss nm p = Some (find (\<lambda>i. cstr (ss_name (ss i)) = cstr nm) L)"
proof (induction L arbitrary: p)
  case Nil
  then show ?case by (subst walk_names.simps) simp
next
  case (Cons x xs)
  have "find (\<lambda>i. cstr (ss_name (ss i)) = cstr nm) xs = None" if "cstr nm < cstr (ss_name (ss x))"
    using Cons.prems(2) that by (auto simp: find_None_iff)
  moreover have "cstr (ss_name (ss x)) < cstr nm \<or> cstr (ss_name (ss x)) = cstr nm \<or> cstr nm < cstr (ss_name (ss x))"
    by auto
  ultimately show ?case using Cons
    by (subst walk_names.simps) (auto simp: strcmp_signs Let_def)
qed

lemma find_place_seg:
  "seg (\<lambda>i. ss_sort_next (ss i)) p L None \<Longrightarrow> sorted_wrt (\<lambda>i j. cstr (ss_name (ss i)) < cstr (ss_name (ss j))) L \<Longrightarrow>
   find_place ss nm p = Some (find (\<lambda>i. cstr nm \<le> cstr (ss_name (ss i))) L, \<forall>i \<in> set L. cstr (ss_name (ss i)) \<noteq> cstr nm)"
proof (induction L arbitrary: p)
  case Nil
  then show ?case by (subst find_place.simps) simp
next
  case (Cons x xs)
  have "\<forall>i \<in> set xs. cstr (ss_name (ss i)) \<noteq> cstr nm" if "cstr nm \<le> cstr (ss_name (ss x))"
    using Cons.prems(2) that by auto
  then show ?case using Cons
    by (subst find_place.simps) (auto simp: strcmp_signs Let_def)
qed

section \<open>The representation invariant\<close>

text \<open>
  \<open>L\<close> are the live sessions in the order of their names; those of \<open>hashed\<close> are in the hash
  chains (a session is put into the table before it is hashed and leaves the chains first).
\<close>

definition sorted_ok :: "'a sess_table_scheme \<Rightarrow> nat list \<Rightarrow> nat list \<Rightarrow> bool" where
  "sorted_ok s L F \<longleftrightarrow> seg (nexts s) (Sessions_head s) L None \<and> seg (prevs s) (Sessions_tail s) (rev L) None \<and>
     seg (nexts s) (Sessions_free s) F None \<and> distinct (L @ F) \<and> set (L @ F) = {..<MAX_SESSIONS} \<and>
     sorted_wrt (\<lambda>i j. name_at s i < name_at s j) L"

definition hash_ok :: "'a sess_table_scheme \<Rightarrow> nat set \<Rightarrow> (nat \<Rightarrow> nat list) \<Rightarrow> bool" where
  "hash_ok s A H \<longleftrightarrow> (\<forall>b. seg (hashes s) (Sessions_hash_head s b) (H b) None \<and> distinct (H b) \<and>
     set (H b) = {i \<in> A. hash_of (mbox_at s i) = b})"

definition sessions_ok :: "'a sess_table_scheme \<Rightarrow> nat list \<Rightarrow> bool" where
  "sessions_ok s L \<longleftrightarrow> (\<exists>F H. sorted_ok s L F \<and> hash_ok s (set L) H)"

lemma nexts_eq: "(\<lambda>i. ss_sort_next (Sessions s i)) = nexts s" by (simp add: nexts_def fun_eq_iff)
lemma hashes_eq: "(\<lambda>i. ss_hash_next (Sessions s i)) = hashes s" by (simp add: hashes_def fun_eq_iff)

lemma get_session_index_spec:
  assumes "hash_ok s A H"
  shows "Sess_get_session_index m s = Some (find (\<lambda>i. mbox_at s i = m) (H (hash_of m)))"
  using walk_hash_seg [of "Sessions s" _ "H (hash_of m)" m] assms
  by (simp add: Sess_get_session_index_def hash_ok_def hashes_eq mbox_at_def)

lemma get_session_spec:
  assumes "sorted_ok s L F"
  shows "Sess_get_session nm s = Some (find (\<lambda>i. name_at s i = cstr nm) L)"
  using walk_names_seg [of "Sessions s" _ L nm] assms
  by (simp add: Sess_get_session_def sorted_ok_def nexts_eq name_at_def)

section \<open>Taking an entry out of the free list and putting one back\<close>

text \<open>The list of the live sessions, forward and backward.\<close>

definition linked :: "'a sess_table_scheme \<Rightarrow> nat list \<Rightarrow> bool" where
  "linked s L \<longleftrightarrow> seg (nexts s) (Sessions_head s) L None \<and> seg (prevs s) (Sessions_tail s) (rev L) None \<and> distinct L"

lemma linked_before:
  assumes "linked s (L1 @ w # L2)"
  shows "prevs s w = (if L1 = [] then None else Some (last L1))"
proof -
  have "seg (prevs s) (Sessions_tail s) (rev L2 @ w # rev L1) None" using assms by (simp add: linked_def)
  then have "seg (prevs s) (prevs s w) (rev L1) None" by (auto simp: seg_append)
  then show ?thesis by (cases L1 rule: rev_cases) auto
qed

lemma linked_after:
  assumes "linked s (L1 @ w # L2)"
  shows "nexts s w = (if L2 = [] then None else Some (hd L2))"
proof -
  have "seg (nexts s) (nexts s w) L2 None" using assms by (auto simp: linked_def seg_append)
  then show ?thesis by (cases L2) auto
qed

lemma linked_ends:
  assumes "linked s L"
  shows "Sessions_head s = (if L = [] then None else Some (hd L))"
    and "Sessions_tail s = (if L = [] then None else Some (last L))"
  using assms by (cases L; auto simp: linked_def)
    (cases L rule: rev_cases; use assms in \<open>auto simp: linked_def\<close>)

definition same_data :: "session \<Rightarrow> session \<Rightarrow> bool" where
  "same_data a b \<longleftrightarrow> a\<lparr>ss_sort_prev := None, ss_sort_next := None\<rparr> = b\<lparr>ss_sort_prev := None, ss_sort_next := None\<rparr>"

lemma same_data_refl [simp]: "same_data a a" by (simp add: same_data_def)

lemma same_data_upd [simp]:
  "same_data (a\<lparr>ss_sort_prev := p\<rparr>) b = same_data a b" "same_data (a\<lparr>ss_sort_next := p\<rparr>) b = same_data a b"
  by (simp_all add: same_data_def)

lemma same_dataD:
  assumes "same_data a b"
  shows "ss_name a = ss_name b" "ss_mbox a = ss_mbox b" "ss_hash_next a = ss_hash_next b" "ss_status a = ss_status b"
    "ss_mess a = ss_mess b" "ss_write a = ss_write b"
  using arg_cong [OF assms [unfolded same_data_def], of ss_name] arg_cong [OF assms [unfolded same_data_def], of ss_mbox]
    arg_cong [OF assms [unfolded same_data_def], of ss_hash_next] arg_cong [OF assms [unfolded same_data_def], of ss_status]
    arg_cong [OF assms [unfolded same_data_def], of ss_mess] arg_cong [OF assms [unfolded same_data_def], of ss_write]
  by simp_all

lemma links_template [simp]:
  "nexts (upd_session n (\<lambda>_. t) s) = (nexts s)(n := ss_sort_next t)"
  "prevs (upd_session n (\<lambda>_. t) s) = (prevs s)(n := ss_sort_prev t)"
  by (auto simp: nexts_def prevs_def fun_eq_iff)

lemma insert_linked:
  assumes l: "linked s (L1 @ L2)" and f: "seg (nexts s) (Sessions_free s) (n # F) None"
    and d: "distinct ((L1 @ L2) @ n # F)"
    and place: "place = (if L2 = [] then None else Some (hd L2))"
  shows "\<exists>s'. Sess_insert_new_session place t s = Some (n, s') \<and> linked s' (L1 @ n # L2) \<and>
    seg (nexts s') (Sessions_free s') F None \<and>
    (\<forall>i. same_data (Sessions s' i) (if i = n then t else Sessions s i)) \<and>
    Sessions_hash_head s' = Sessions_hash_head s"
proof -
  have fr: "Sessions_free s = Some n" "seg (nexts s) (nexts s n) F None" using f by auto
  have nx: "ss_sort_next (Sessions s n) = nexts s n" by (simp add: nexts_def)
  note ends = linked_ends [OF l]
  note l' = l [unfolded linked_def]
  show ?thesis
  proof (cases L2)
    case Nil
    show ?thesis
    proof (cases L1 rule: rev_cases)
      case Nil': Nil
      then show ?thesis using Nil fr d ends nx place
        by (auto simp: Sess_insert_new_session_def Sess_get_free_session_def linked_def Let_def)
    next
      case (snoc K k)
      then show ?thesis using Nil fr d ends nx place l'
        by (auto simp: Sess_insert_new_session_def Sess_get_free_session_def linked_def Let_def seg_append)
    qed
  next
    case (Cons w K2)
    have pw: "prevs s w = (if L1 = [] then None else Some (last L1))"
      by (rule linked_before) (use l Cons in simp)
    have pw': "ss_sort_prev (Sessions s w) = prevs s w" by (simp add: prevs_def)
    show ?thesis
    proof (cases L1 rule: rev_cases)
      case Nil
      then show ?thesis using Cons fr d ends nx place l' pw pw'
        by (auto simp: Sess_insert_new_session_def Sess_get_free_session_def linked_def Let_def seg_append)
    next
      case (snoc K k)
      then show ?thesis using Cons fr d ends nx place l' pw pw'
        by (auto simp: Sess_insert_new_session_def Sess_get_free_session_def linked_def Let_def seg_append)
    qed
  qed
qed

lemma remove_linked:
  assumes l: "linked s (L1 @ n # L2)" and f: "seg (nexts s) (Sessions_free s) F None"
    and d: "distinct ((L1 @ n # L2) @ F)"
  defines "s' \<equiv> Sess_remove_session n s"
  shows "linked s' (L1 @ L2) \<and> seg (nexts s') (Sessions_free s') (n # F) None \<and>
    (\<forall>i. same_data (Sessions s' i) (Sessions s i)) \<and> Sessions_hash_head s' = Sessions_hash_head s"
proof -
  have p: "ss_sort_prev (Sessions s n) = (if L1 = [] then None else Some (last L1))"
    and q: "ss_sort_next (Sessions s n) = (if L2 = [] then None else Some (hd L2))"
    using linked_before [OF l] linked_after [OF l] by (simp_all add: prevs_def nexts_def)
  note l' = l [unfolded linked_def]
  show ?thesis
  proof (cases L1 rule: rev_cases)
    case Nil
    then show ?thesis using l' f d p q
      by (cases L2) (auto simp: s'_def Sess_remove_session_def Sess_free_session_def linked_def seg_append)
  next
    case (snoc K k)
    then show ?thesis using l' f d p q
      by (cases L2) (auto simp: s'_def Sess_remove_session_def Sess_free_session_def linked_def seg_append)
  qed
qed

section \<open>The chains\<close>

lemma hash_session_ok:
  assumes "hash_ok s A H" and "n \<notin> A"
  shows "hash_ok (Sess_hash_session n s) (insert n A) (H(hash_of (mbox_at s n) := n # H (hash_of (mbox_at s n))))"
proof -
  have "mbox_at (Sess_hash_session n s) i = mbox_at s i" for i
    by (simp add: mbox_at_def Sess_hash_session_def Let_def)
  moreover have "n \<notin> set (H b)" for b using assms by (auto simp: hash_ok_def)
  ultimately show ?thesis using assms
    by (auto simp: hash_ok_def Sess_hash_session_def Let_def mbox_at_def)
qed

lemma before_hash_seg:
  "seg (\<lambda>i. ss_hash_next (ss i)) p (X @ k # n # Y) q \<Longrightarrow> distinct (X @ k # n # Y) \<Longrightarrow>
   p = Some i \<Longrightarrow> before_hash ss n i = Some k"
proof (induction X arbitrary: p i)
  case Nil
  then show ?case by (subst before_hash.simps) simp
next
  case (Cons x xs)
  then obtain j where j: "ss_hash_next (ss x) = Some j" by (cases xs) auto
  have "j \<noteq> n" using Cons.prems j by (cases xs) auto
  then show ?case using Cons j by (subst before_hash.simps) auto
qed

lemma unhash_session_ok:
  assumes ok: "hash_ok s A H" and n: "n \<in> A"
  shows "\<exists>s' H'. Sess_unhash_session n s = Some s' \<and> hash_ok s' (A - {n}) H' \<and>
    nexts s' = nexts s \<and> prevs s' = prevs s \<and> Sessions_head s' = Sessions_head s \<and>
    Sessions_tail s' = Sessions_tail s \<and> Sessions_free s' = Sessions_free s \<and>
    name_at s' = name_at s \<and> mbox_at s' = mbox_at s \<and> (\<forall>i. ss_mess (Sessions s' i) = ss_mess (Sessions s i))"
proof -
  let ?b = "hash_of (mbox_at s n)"
  have seg: "seg (hashes s) (Sessions_hash_head s b) (H b) None" "distinct (H b)"
      "set (H b) = {i \<in> A. hash_of (mbox_at s i) = b}" for b
    using ok by (auto simp: hash_ok_def)
  have "n \<in> set (H ?b)" using n seg(3) by simp
  then obtain X Y where XY: "H ?b = X @ n # Y" by (auto simp: in_set_conv_decomp)
  have other: "n \<notin> set (H b)" if "b \<noteq> ?b" for b using seg(3) [of b] that by auto
  have dXY: "distinct (X @ n # Y)" using seg(2) [of ?b] XY by simp
  have sXY: "seg (hashes s) (Sessions_hash_head s ?b) (X @ n # Y) None" using seg(1) [of ?b] XY by simp
  have setH: "set (X @ n # Y) = {i \<in> A. hash_of (mbox_at s i) = ?b}" using seg(3) [of ?b] XY by simp
  let ?H = "H(?b := X @ Y)"
  have nx: "ss_hash_next (Sessions s n) = hashes s n" by (simp add: hashes_def)
  have m: "hash_of (ss_mbox (Sessions s n)) = ?b" by (simp add: mbox_at_def)
  have sets: "set (X @ Y) = {i \<in> A - {n}. hash_of (mbox_at s i) = ?b}" using setH dXY by auto
  show ?thesis
  proof (cases X rule: rev_cases)
    case Nil
    then have h: "Sessions_hash_head s ?b = Some n" using sXY by simp
    define s' where "s' = set_hash_next n None (s\<lparr>Sessions_hash_head := (Sessions_hash_head s)(?b := hashes s n)\<rparr>)"
    have u: "Sess_unhash_session n s = Some s'"
      by (simp add: Sess_unhash_session_def Let_def m h nx s'_def)
    have mb: "mbox_at s' = mbox_at s" by (simp add: mbox_at_def s'_def fun_eq_iff)
    have "hash_ok s' (A - {n}) ?H"
      unfolding hash_ok_def mb
    proof (intro allI conjI)
      fix b
      show "seg (hashes s') (Sessions_hash_head s' b) (?H b) None"
        using sXY seg(1) [of b] other [of b] Nil dXY by (auto simp: s'_def)
      show "distinct (?H b)" using seg(2) [of b] dXY by simp
      show "set (?H b) = {i \<in> A - {n}. hash_of (mbox_at s i) = b}"
        using sets seg(3) [of b] other [of b] by auto
    qed
    moreover have "name_at s' = name_at s" "\<forall>i. ss_mess (Sessions s' i) = ss_mess (Sessions s i)"
      by (simp_all add: name_at_def s'_def fun_eq_iff)
    ultimately show ?thesis using u mb
      by (intro exI [of _ s'] exI [of _ ?H]) (simp add: s'_def)
  next
    case (snoc K k)
    have h: "Sessions_hash_head s ?b \<noteq> Some n" using sXY dXY snoc by (cases K) auto
    obtain t where t: "Sessions_hash_head s ?b = Some t" using sXY snoc by (cases K) auto
    have b: "before_hash (Sessions s) n t = Some k"
      by (rule before_hash_seg [where p = "Some t" and X = K and Y = Y and q = None])
        (use sXY dXY snoc t in \<open>simp_all add: hashes_eq\<close>)
    define s' where "s' = set_hash_next n None (set_hash_next k (hashes s n) s)"
    have u: "Sess_unhash_session n s = Some s'"
      using h by (simp add: Sess_unhash_session_def Let_def m t b nx s'_def)
    have mb: "mbox_at s' = mbox_at s" by (simp add: mbox_at_def s'_def fun_eq_iff)
    have kA: "k \<in> set (H ?b)" using XY snoc by simp
    have "hash_ok s' (A - {n}) ?H"
      unfolding hash_ok_def mb
    proof (intro allI conjI)
      fix b
      have "k \<notin> set (H b)" if "b \<noteq> ?b" using kA seg(3) [of b] seg(3) [of ?b] that by auto
      then show "seg (hashes s') (Sessions_hash_head s' b) (?H b) None"
        using sXY seg(1) [of b] other [of b] snoc dXY by (auto simp: s'_def seg_append)
      show "distinct (?H b)" using seg(2) [of b] dXY by simp
      show "set (?H b) = {i \<in> A - {n}. hash_of (mbox_at s i) = b}"
        using sets seg(3) [of b] other [of b] by auto
    qed
    moreover have "name_at s' = name_at s" "\<forall>i. ss_mess (Sessions s' i) = ss_mess (Sessions s i)"
      by (simp_all add: name_at_def s'_def fun_eq_iff)
    ultimately show ?thesis using u mb
      by (intro exI [of _ s'] exI [of _ ?H]) (simp add: s'_def)
  qed
qed

section \<open>The table as a whole\<close>

lemma sorted_ok_iff:
  "sorted_ok s L F \<longleftrightarrow> linked s L \<and> seg (nexts s) (Sessions_free s) F None \<and> distinct (L @ F) \<and>
     set (L @ F) = {..<MAX_SESSIONS} \<and> sorted_wrt (\<lambda>i j. name_at s i < name_at s j) L"
  by (auto simp: sorted_ok_def linked_def)

lemma sessions_at_same_data:
  assumes "\<forall>i. same_data (Sessions s' i) (Sessions s i)"
  shows "name_at s' = name_at s" "mbox_at s' = mbox_at s" "hashes s' = hashes s"
  using same_dataD(1-3) [OF assms [THEN spec]] by (simp_all add: name_at_def mbox_at_def hashes_def fun_eq_iff)

lemma Session_lookups_core:
  assumes "sessions_ok s L"
  shows "(\<exists>r. Sess_get_session_index m s = Some r \<and>
      (case r of None \<Rightarrow> \<forall>i \<in> set L. mbox_at s i \<noteq> m | Some i \<Rightarrow> i \<in> set L \<and> mbox_at s i = m)) \<and>
    (\<exists>r. Sess_get_session nm s = Some r \<and>
      (case r of None \<Rightarrow> \<forall>i \<in> set L. name_at s i \<noteq> cstr nm | Some i \<Rightarrow> i \<in> set L \<and> name_at s i = cstr nm))"
proof
  from assms obtain F H where F: "sorted_ok s L F" and H: "hash_ok s (set L) H" by (auto simp: sessions_ok_def)
  let ?H = "H (hash_of m)"
  have b: "set ?H = {i \<in> set L. hash_of (mbox_at s i) = hash_of m}" using H by (simp add: hash_ok_def)
  show "\<exists>r. Sess_get_session_index m s = Some r \<and>
      (case r of None \<Rightarrow> \<forall>i \<in> set L. mbox_at s i \<noteq> m | Some i \<Rightarrow> i \<in> set L \<and> mbox_at s i = m)"
  proof (cases "find (\<lambda>i. mbox_at s i = m) ?H")
    case None
    then have "\<forall>i \<in> set L. mbox_at s i \<noteq> m" using b by (auto simp: find_None_iff)
    with None show ?thesis by (simp add: get_session_index_spec [OF H])
  next
    case (Some i)
    then have "i \<in> set ?H" "mbox_at s i = m" by (auto simp: find_Some_iff)
    with Some b show ?thesis by (simp add: get_session_index_spec [OF H])
  qed
  show "\<exists>r. Sess_get_session nm s = Some r \<and>
      (case r of None \<Rightarrow> \<forall>i \<in> set L. name_at s i \<noteq> cstr nm | Some i \<Rightarrow> i \<in> set L \<and> name_at s i = cstr nm)"
    by (auto simp: get_session_spec [OF F] find_None_iff find_Some_iff split: option.split)
qed

text \<open>
  C22: looking up a mailbox and looking up a name always end, and find a live session with that
  mailbox or name, or say that there is none.
\<close>

theorem Session_lookups:
  assumes "sessions_ok s L"
  shows "(\<exists>r. Sess_get_session_index m s = Some r \<and>
      (case r of None \<Rightarrow> \<forall>i \<in> set L. mbox_at s i \<noteq> m | Some i \<Rightarrow> i \<in> set L \<and> mbox_at s i = m)) \<and>
    (\<exists>r. Sess_get_session nm s = Some r \<and>
      (case r of None \<Rightarrow> \<forall>i \<in> set L. name_at s i \<noteq> cstr nm | Some i \<Rightarrow> i \<in> set L \<and> name_at s i = cstr nm))"
  by (rule Session_lookups_core [OF assms])

lemma sorted_place:
  assumes "sorted_wrt (\<lambda>i j. f i < f j) L" and "\<forall>i \<in> set L. f i \<noteq> x"
  shows "\<exists>L1 L2. L = L1 @ L2 \<and> find (\<lambda>i. x \<le> (f i :: byte list)) L = (if L2 = [] then None else Some (hd L2)) \<and>
    (\<forall>i \<in> set L1. f i < x) \<and> (\<forall>i \<in> set L2. x < f i)"
  using assms
proof (induction L)
  case (Cons a L)
  show ?case
  proof (cases "x \<le> f a")
    case True
    then have "x < f a" using Cons.prems(2) by (metis list.set_intros(1) order_le_less)
    then have "\<forall>i \<in> set (a # L). x < f i" using Cons.prems(1) by auto
    then show ?thesis using True by (intro exI [of _ "[]"] exI [of _ "a # L"]) simp
  next
    case False
    from Cons obtain L1 L2 where "L = L1 @ L2" "find (\<lambda>i. x \<le> f i) L = (if L2 = [] then None else Some (hd L2))"
      "\<forall>i \<in> set L1. f i < x" "\<forall>i \<in> set L2. x < f i" by auto
    then show ?thesis using False by (intro exI [of _ "a # L1"] exI [of _ L2]) auto
  qed
qed simp

lemma insert_session_ok:
  assumes "sessions_ok s L" and "length L < MAX_SESSIONS"
    and "\<forall>i \<in> set L. name_at s i \<noteq> cstr (ss_name t)"
  shows "\<exists>place n s'. find_place (Sessions s) (ss_name t) (Sessions_head s) = Some (place, True) \<and>
    Sess_insert_new_session place t s = Some (n, s') \<and> n \<notin> set L \<and>
    (\<exists>L1 L2. L = L1 @ L2 \<and> sessions_ok (Sess_hash_session n s') (L1 @ n # L2)) \<and>
    name_at (Sess_hash_session n s') n = cstr (ss_name t) \<and> mbox_at (Sess_hash_session n s') n = ss_mbox t \<and>
    (\<forall>i. i \<noteq> n \<longrightarrow> name_at (Sess_hash_session n s') i = name_at s i \<and> mbox_at (Sess_hash_session n s') i = mbox_at s i)"
proof -
  from assms(1) obtain F H where F: "sorted_ok s L F" and H: "hash_ok s (set L) H" by (auto simp: sessions_ok_def)
  note F' = F [unfolded sorted_ok_iff]
  have "F \<noteq> []"
  proof
    assume "F = []"
    then have "card (set L) = MAX_SESSIONS" using F' by (metis append_Nil2 card_lessThan)
    then show False using assms(2) card_length [of L] by simp
  qed
  then obtain n F2 where n: "F = n # F2" by (cases F) auto
  have fp: "find_place (Sessions s) (ss_name t) (Sessions_head s) =
      Some (find (\<lambda>i. cstr (ss_name t) \<le> name_at s i) L, \<forall>i \<in> set L. name_at s i \<noteq> cstr (ss_name t))"
    using find_place_seg [of "Sessions s" "Sessions_head s" L "ss_name t"] F'
    by (simp add: linked_def nexts_eq name_at_def)
  have sorted: "sorted_wrt (\<lambda>i j. name_at s i < name_at s j) L" using F' by simp
  from sorted_place [OF sorted assms(3)] obtain L1 L2 where
    L: "L = L1 @ L2" "find (\<lambda>i. cstr (ss_name t) \<le> name_at s i) L = (if L2 = [] then None else Some (hd L2))"
      "\<forall>i \<in> set L1. name_at s i < cstr (ss_name t)" "\<forall>i \<in> set L2. cstr (ss_name t) < name_at s i" by blast
  have ln: "linked s (L1 @ L2)" and fn: "seg (nexts s) (Sessions_free s) (n # F2) None"
    and dn: "distinct ((L1 @ L2) @ n # F2)"
    using F' n L(1) by simp_all
  from insert_linked [OF ln fn dn L(2), of t] obtain s' where
    s': "Sess_insert_new_session (find (\<lambda>i. cstr (ss_name t) \<le> name_at s i) L) t s = Some (n, s')"
      "linked s' (L1 @ n # L2)" "seg (nexts s') (Sessions_free s') F2 None"
      "\<forall>i. same_data (Sessions s' i) (if i = n then t else Sessions s i)" "Sessions_hash_head s' = Sessions_hash_head s"
    by auto
  have nL: "n \<notin> set L" using dn L(1) by simp
  have at: "name_at s' i = (if i = n then cstr (ss_name t) else name_at s i)"
    "mbox_at s' i = (if i = n then ss_mbox t else mbox_at s i)" "i \<noteq> n \<Longrightarrow> hashes s' i = hashes s i" for i
    using same_dataD(1-3) [OF s'(4) [THEN spec, of i]] by (auto simp: name_at_def mbox_at_def hashes_def)
  have "hash_ok s' (set L) H"
    unfolding hash_ok_def
  proof (intro allI conjI)
    fix b
    have "set (H b) \<subseteq> set L" using H by (auto simp: hash_ok_def)
    then have "n \<notin> set (H b)" using nL by auto
    then have "seg ((hashes s)(n := hashes s' n)) (Sessions_hash_head s b) (H b) None"
      using H by (simp add: hash_ok_def)
    moreover have "(hashes s)(n := hashes s' n) = hashes s'" using at(3) by (auto simp: fun_eq_iff)
    ultimately show "seg (hashes s') (Sessions_hash_head s' b) (H b) None" using s'(5) by simp
    show "distinct (H b)" using H by (simp add: hash_ok_def)
    show "set (H b) = {i \<in> set L. hash_of (mbox_at s' i) = b}"
      using H nL by (auto simp: hash_ok_def at)
  qed
  from hash_session_ok [OF this nL] obtain H' where H': "hash_ok (Sess_hash_session n s') (insert n (set L)) H'" by blast
  have same: "Sessions (Sess_hash_session n s') i = (if i = n then (Sessions s' n)\<lparr>ss_hash_next := Sessions_hash_head s' (hash_of (ss_mbox (Sessions s' n)))\<rparr> else Sessions s' i)" for i
    by (simp add: Sess_hash_session_def Let_def)
  then have at': "name_at (Sess_hash_session n s') = name_at s'" "mbox_at (Sess_hash_session n s') = mbox_at s'"
    by (auto simp: name_at_def mbox_at_def fun_eq_iff)
  have "linked (Sess_hash_session n s') (L1 @ n # L2)" "seg (nexts (Sess_hash_session n s')) (Sessions_free (Sess_hash_session n s')) F2 None"
    using s'(2,3) by (simp_all add: linked_def Sess_hash_session_def Let_def)
  moreover have "sorted_wrt (\<lambda>i j. name_at s' i < name_at s' j) (L1 @ n # L2)"
  proof -
    have "sorted_wrt (\<lambda>i j. name_at s' i < name_at s' j) L1" "sorted_wrt (\<lambda>i j. name_at s' i < name_at s' j) L2"
      "\<forall>i \<in> set L1. \<forall>j \<in> set L2. name_at s' i < name_at s' j"
      using F' nL L(1) by (auto simp: sorted_wrt_append at elim!: sorted_wrt_mono_rel [rotated])
    moreover have "\<forall>i \<in> set L1. i \<noteq> n" "\<forall>i \<in> set L2. i \<noteq> n" using nL L(1) by auto
    ultimately show ?thesis using L(3,4) by (auto simp: sorted_wrt_append at)
  qed
  ultimately have "sorted_ok (Sess_hash_session n s') (L1 @ n # L2) F2"
    using F' n L(1) by (auto simp: sorted_ok_iff at')
  moreover have "insert n (set L) = set (L1 @ n # L2)" using L(1) by auto
  ultimately have "sessions_ok (Sess_hash_session n s') (L1 @ n # L2)"
    using H' unfolding sessions_ok_def by metis
  moreover have "find_place (Sessions s) (ss_name t) (Sessions_head s) =
      Some (find (\<lambda>i. cstr (ss_name t) \<le> name_at s i) L, True)" using fp assms(3) by simp
  ultimately show ?thesis using s'(1) nL L(1) at at' by (intro exI conjI) auto
qed

text \<open>
  C23: a new name goes to its place: the search for the place ends and tells whether the name is
  new; a new session is then put into the sorted list and the chains, and the others keep their
  places, names and mailboxes.
\<close>

theorem New_session_kept:
  assumes "sessions_ok s L" and "length L < MAX_SESSIONS"
    and "\<forall>i \<in> set L. name_at s i \<noteq> cstr (ss_name t)"
  shows "\<exists>place n s'. find_place (Sessions s) (ss_name t) (Sessions_head s) = Some (place, True) \<and>
    Sess_insert_new_session place t s = Some (n, s') \<and> n \<notin> set L \<and>
    (\<exists>L1 L2. L = L1 @ L2 \<and> sessions_ok (Sess_hash_session n s') (L1 @ n # L2)) \<and>
    name_at (Sess_hash_session n s') n = cstr (ss_name t) \<and> mbox_at (Sess_hash_session n s') n = ss_mbox t \<and>
    (\<forall>i. i \<noteq> n \<longrightarrow> name_at (Sess_hash_session n s') i = name_at s i \<and> mbox_at (Sess_hash_session n s') i = mbox_at s i)"
  by (rule insert_session_ok [OF assms])

lemma remove_session_ok:
  assumes "sessions_ok s L" and "n \<in> set L"
  shows "\<exists>s1. Sess_unhash_session n s = Some s1 \<and> sessions_ok (Sess_remove_session n s1) (remove1 n L) \<and>
    name_at (Sess_remove_session n s1) = name_at s \<and> mbox_at (Sess_remove_session n s1) = mbox_at s"
proof -
  from assms(1) obtain F H where F: "sorted_ok s L F" and H: "hash_ok s (set L) H" by (auto simp: sessions_ok_def)
  note F' = F [unfolded sorted_ok_iff]
  from unhash_session_ok [OF H assms(2)] obtain s1 H1 where
    s1: "Sess_unhash_session n s = Some s1" "hash_ok s1 (set L - {n}) H1" "nexts s1 = nexts s" "prevs s1 = prevs s"
      "Sessions_head s1 = Sessions_head s" "Sessions_tail s1 = Sessions_tail s" "Sessions_free s1 = Sessions_free s"
      "name_at s1 = name_at s" "mbox_at s1 = mbox_at s" by blast
  obtain L1 L2 where L: "L = L1 @ n # L2" using assms(2) by (auto simp: in_set_conv_decomp)
  have r: "remove1 n L = L1 @ L2" using F' L by (simp add: remove1_append)
  have "linked s1 (L1 @ n # L2)" "seg (nexts s1) (Sessions_free s1) F None" "distinct ((L1 @ n # L2) @ F)"
    using F' L s1 by (simp_all add: linked_def)
  from remove_linked [OF this] have
    s2: "linked (Sess_remove_session n s1) (L1 @ L2)" "seg (nexts (Sess_remove_session n s1)) (Sessions_free (Sess_remove_session n s1)) (n # F) None"
      "\<forall>i. same_data (Sessions (Sess_remove_session n s1) i) (Sessions s1 i)"
      "Sessions_hash_head (Sess_remove_session n s1) = Sessions_hash_head s1" by auto
  note at = sessions_at_same_data [OF s2(3)]
  have "sorted_ok (Sess_remove_session n s1) (L1 @ L2) (n # F)"
    using F' L s2(1,2) by (auto simp: sorted_ok_iff at s1 sorted_wrt_append)
  moreover have "hash_ok (Sess_remove_session n s1) (set L - {n}) H1"
    using s1(2) s2(4) by (simp add: hash_ok_def at)
  moreover have "set L - {n} = set (L1 @ L2)" using F' L by auto
  ultimately have "sessions_ok (Sess_remove_session n s1) (remove1 n L)"
    unfolding sessions_ok_def r by metis
  then show ?thesis using s1 at by auto
qed

text \<open>
  C24: a session that goes leaves the chains and the list, becomes free, and all the others stay
  where they are.
\<close>

theorem Removed_session_gone:
  assumes "sessions_ok s L" and "n \<in> set L"
  shows "\<exists>s1. Sess_unhash_session n s = Some s1 \<and> sessions_ok (Sess_remove_session n s1) (remove1 n L) \<and>
    name_at (Sess_remove_session n s1) = name_at s \<and> mbox_at (Sess_remove_session n s1) = mbox_at s"
  by (rule remove_session_ok [OF assms])

section \<open>The initial table\<close>

lemma free_sessions:
  assumes "seg (nexts s) (Sessions_free s) F None" and "set F \<inter> {a..<b} = {}" and "a \<le> b"
  defines "s' \<equiv> fold Sess_free_session [a..<b] s"
  shows "seg (nexts s') (Sessions_free s') (rev [a..<b] @ F) None \<and>
    Sessions_head s' = Sessions_head s \<and> Sessions_tail s' = Sessions_tail s \<and> Sessions_hash_head s' = Sessions_hash_head s"
  using assms(1,2) assms(3) unfolding s'_def
proof (induction "b - a" arbitrary: a s F)
  case 0
  then show ?case by simp
next
  case (Suc k)
  then have u: "[a..<b] = a # [Suc a..<b]" by (simp add: upt_conv_Cons)
  have "seg (nexts (Sess_free_session a s)) (Sessions_free (Sess_free_session a s)) (a # F) None"
  proof -
    have "a \<notin> set F" using Suc.prems(2) Suc.hyps(2) by auto
    then show ?thesis using Suc.prems(1) by (simp add: Sess_free_session_def)
  qed
  moreover have "set (a # F) \<inter> {Suc a..<b} = {}" using Suc.prems(2) by auto
  moreover have "k = b - Suc a" "Suc a \<le> b" using Suc.hyps(2) by auto
  ultimately have "seg (nexts (fold Sess_free_session [Suc a..<b] (Sess_free_session a s)))
      (Sessions_free (fold Sess_free_session [Suc a..<b] (Sess_free_session a s))) (rev [Suc a..<b] @ a # F) None \<and>
    Sessions_head (fold Sess_free_session [Suc a..<b] (Sess_free_session a s)) = Sessions_head (Sess_free_session a s) \<and>
    Sessions_tail (fold Sess_free_session [Suc a..<b] (Sess_free_session a s)) = Sessions_tail (Sess_free_session a s) \<and>
    Sessions_hash_head (fold Sess_free_session [Suc a..<b] (Sess_free_session a s)) = Sessions_hash_head (Sess_free_session a s)"
    using Suc.hyps(1) by blast
  then show ?case unfolding u by (simp add: Sess_free_session_def)
qed

lemma init_sessions_ok: "sessions_ok (Sess_init_sessions s) []"
proof -
  let ?s = "s\<lparr>Sessions_hash_head := (\<lambda>_. None), Sessions_free := None, Sessions_head := None, Sessions_tail := None\<rparr>"
  have "seg (nexts (Sess_init_sessions s)) (Sessions_free (Sess_init_sessions s)) (rev [0..<MAX_SESSIONS] @ []) None \<and>
    Sessions_head (Sess_init_sessions s) = None \<and> Sessions_tail (Sess_init_sessions s) = None \<and>
    Sessions_hash_head (Sess_init_sessions s) = (\<lambda>_. None)"
    using free_sessions [of ?s "[]" 0 MAX_SESSIONS] by (simp add: Sess_init_sessions_def)
  then have "sorted_ok (Sess_init_sessions s) [] (rev [0..<MAX_SESSIONS])" "hash_ok (Sess_init_sessions s) {} (\<lambda>_. [])"
    by (auto simp: sorted_ok_def hash_ok_def)
  then show ?thesis unfolding sessions_ok_def by (metis list.set(1))
qed

definition permit_all :: acp_ops where
  "permit_all = \<lparr>acp_open_connection = (\<lambda>_. True), acp_join_group = (\<lambda>_ _. True), acp_leave_group = (\<lambda>_ _. True),
     acp_p2p_send = (\<lambda>_ _ _ _. True), acp_mcast_send = (\<lambda>_ _ _ _. True)\<rparr>"

definition a_session :: session where
  "a_session = \<lparr>ss_name = [97, 0, 0, 0, 0, 0, 0, 0, 0, 0, 0], ss_lib_version = (4, 0, 0), ss_address = 0,
     ss_status = OP_SESSION OR MEMB_SESSION, ss_priority = 0, ss_mbox = 7, ss_type = 2, ss_acp_ops = permit_all,
     ss_read = Message_reset_current_location, ss_read_mess = None, ss_mess = [],
     ss_write = Message_reset_current_location, ss_sort_prev = None, ss_sort_next = None, ss_hash_next = None\<rparr>"

definition empty_table :: sess_table where
  "empty_table = Sess_init_sessions \<lparr>Fd_queue = (\<lambda>_. \<lparr>fq_events = [], num_active_fds = 0\<rparr>),
     Fd_mask = (\<lambda>_ _. False), Active_priority = 0, Round_robin = 0, Sessions = (\<lambda>_. a_session),
     Sessions_hash_head = (\<lambda>_. None), Sessions_head = None, Sessions_tail = None, Sessions_free = None\<rparr>"

lemma empty_table_ok: "sessions_ok empty_table []"
  by (simp add: empty_table_def init_sessions_ok)

theorem Session_lookups_witness:
  "Sess_get_session_index 7 empty_table = Some None \<and> Sess_get_session [97] empty_table = Some None"
  using Session_lookups [OF empty_table_ok, of 7 "[97]"] by (auto split: option.splits)

lemma new_session_table: "\<exists>(s :: sess_table) n. sessions_ok s [n] \<and> mbox_at s n = 7"
proof -
  have l: "length ([] :: nat list) < MAX_SESSIONS" by (simp add: MAX_SESSIONS_def MAX_FD_EVENTS_def)
  from insert_session_ok [OF empty_table_ok l, of a_session] obtain n and s' :: sess_table where
    "sessions_ok (Sess_hash_session n s') [n]" "mbox_at (Sess_hash_session n s') n = ss_mbox a_session" by auto
  then show ?thesis by (auto simp: a_session_def)
qed

theorem New_session_kept_witness:
  "\<exists>place n s'. find_place (Sessions empty_table) (ss_name a_session) (Sessions_head empty_table) = Some (place, True) \<and>
    Sess_insert_new_session place a_session empty_table = Some (n, s') \<and> sessions_ok (Sess_hash_session n s') [n]"
proof -
  have l: "length ([] :: nat list) < MAX_SESSIONS" by (simp add: MAX_SESSIONS_def MAX_FD_EVENTS_def)
  from New_session_kept [OF empty_table_ok l, of a_session] show ?thesis by auto
qed

theorem Removed_session_gone_witness:
  "\<exists>(s :: sess_table) n s1. sessions_ok s [n] \<and> mbox_at s n = 7 \<and> Sess_unhash_session n s = Some s1 \<and>
    sessions_ok (Sess_remove_session n s1) []"
proof -
  from new_session_table obtain n and s :: sess_table where s: "sessions_ok s [n]" "mbox_at s n = 7" by blast
  with Removed_session_gone [OF s(1), of n] show ?thesis by auto
qed

end
