(* ===== verification/Session_io.thy ===== *)
theory Session_io
  imports Session_table Protocol
begin

text \<open>
  Writing to clients and killing them in \<open>daemon/session.c\<close>.  The state of the session layer holds
  the whole daemon below it in \<open>dmn\<close>.  Sockets are kernel objects: what \<open>send\<close> answers is a
  parameter of the state (call number, mailbox and length), and the bytes a socket took are kept
  in \<open>sock_out\<close>; in the same way \<open>recv\<close> answers with \<open>recv_ret\<close>, and the bytes received are kept in
  \<open>sock_in\<close>.  A \<open>message_link\<close> is its message.
\<close>

section \<open>State\<close>

datatype recv_result = Received "byte list" | Would_block | Recv_error

record sess_layer = sess_table +
  dmn :: daemon
  Sess_My :: proc
  Num_sessions :: int
  Session_threshold :: int
  Protocol_threshold :: int
  Accept_inet_mbox :: "int list"
  Accept_unix_mbox :: int
  send_ret :: "nat \<Rightarrow> int \<Rightarrow> nat \<Rightarrow> int"
  send_calls :: nat
  sock_out :: "int \<Rightarrow> byte list"
  recv_ret :: "nat \<Rightarrow> int \<Rightarrow> nat \<Rightarrow> recv_result"
  recv_calls :: nat
  sock_in :: "int \<Rightarrow> byte list"
  closed :: "int list"

definition on_dmn :: "(daemon \<Rightarrow> daemon option) \<Rightarrow> 'a sess_layer_scheme \<Rightarrow> 'a sess_layer_scheme option" where
  "on_dmn f s = map_option (\<lambda>d. s\<lparr>dmn := d\<rparr>) (f (dmn s))"

definition upd_dmn :: "(daemon \<Rightarrow> daemon) \<Rightarrow> 'a sess_layer_scheme \<Rightarrow> 'a sess_layer_scheme" where
  "upd_dmn f s = s\<lparr>dmn := f (dmn s)\<rparr>"

definition Badger_timeout :: sp_time where "Badger_timeout = \<lparr>sec = 0, usec = 100000\<rparr>"

abbreviation Sess_badger_f :: timer_func where "Sess_badger_f \<equiv> Other_func 0"

section \<open>Thresholds\<close>

definition Sess_set_active_threshold :: "'a sess_layer_scheme \<Rightarrow> 'a sess_layer_scheme" where
  "Sess_set_active_threshold s = snd (E_set_active_threshold
     (if Protocol_threshold s > Session_threshold s then Protocol_threshold s else Session_threshold s) s)"

definition Sess_block_users :: "'a sess_layer_scheme \<Rightarrow> 'a sess_layer_scheme" where
  "Sess_block_users s = (if Protocol_threshold s < MEDIUM_PRIORITY
     then Sess_set_active_threshold (s\<lparr>Protocol_threshold := MEDIUM_PRIORITY\<rparr>) else s)"

definition Sess_unblock_users :: "'a sess_layer_scheme \<Rightarrow> 'a sess_layer_scheme" where
  "Sess_unblock_users s = (if Protocol_threshold s > LOW_PRIORITY
     then Sess_set_active_threshold (s\<lparr>Protocol_threshold := LOW_PRIORITY\<rparr>) else s)"

section \<open>Sockets\<close>

definition sock_send :: "int \<Rightarrow> byte list \<Rightarrow> 'a sess_layer_scheme \<Rightarrow> int \<times> 'a sess_layer_scheme" where
  "sock_send mbox bs s = (let r = send_ret s (send_calls s) mbox (length bs) in
     (r, s\<lparr>send_calls := Suc (send_calls s),
           sock_out := (sock_out s)(mbox := sock_out s mbox @ take (nat r) bs)\<rparr>))"

text \<open>At most as many bytes as were asked for; an end of file is \<open>Received []\<close>.\<close>

definition sock_recv :: "int \<Rightarrow> nat \<Rightarrow> 'a sess_layer_scheme \<Rightarrow> recv_result \<times> 'a sess_layer_scheme" where
  "sock_recv mbox n s = (let s1 = s\<lparr>recv_calls := Suc (recv_calls s)\<rparr> in
     case recv_ret s (recv_calls s) mbox n of
       Received bs \<Rightarrow> (Received (take n bs), s1\<lparr>sock_in := (sock_in s)(mbox := sock_in s mbox @ take n bs)\<rparr>)
     | r \<Rightarrow> (r, s1))"

definition close_mbox :: "int \<Rightarrow> 'a sess_layer_scheme \<Rightarrow> 'a sess_layer_scheme" where
  "close_mbox mbox s = s\<lparr>closed := closed s @ [mbox]\<rparr>"

section \<open>Sending what a client has not taken yet\<close>

text \<open>
  The loop over the elements of one message, from the byte \<open>from\<close> of the first; the flag is
  \<open>able_to_write\<close>.
\<close>

fun badger_elements ::
  "int \<Rightarrow> int \<Rightarrow> scat_element list \<Rightarrow> partial_message_info \<Rightarrow> 'a sess_layer_scheme \<Rightarrow>
   (bool \<times> partial_message_info \<times> 'a sess_layer_scheme) option" where
  "badger_elements mbox from [] w s = Some (True, w, s)"
| "badger_elements mbox from (e # es) w s = do {
     bs \<leftarrow> get_bytes (se_buf e) from (se_len e - from);
     let (ret, s1) = sock_send mbox bs s;
     if ret = int (length bs)
     then badger_elements mbox 0 es (w\<lparr>cur_byte := 0, cur_element := Suc (cur_element w)\<rparr>) s1
     else Some (False, if ret > 0 then w\<lparr>cur_byte := cur_byte w + ret\<rparr> else w, s1) }"

definition badger_header ::
  "int \<Rightarrow> message \<Rightarrow> partial_message_info \<Rightarrow> 'a sess_layer_scheme \<Rightarrow>
   (bool \<times> partial_message_info \<times> 'a sess_layer_scheme) option" where
  "badger_header mbox m w s = (if \<not> in_mess_head w then Some (True, w, s) else do {
     e \<leftarrow> (case m of [] \<Rightarrow> None | e # _ \<Rightarrow> Some e);
     bs \<leftarrow> get_bytes (se_buf e) (cur_byte w) (sizeof_message_header - cur_byte w);
     let (ret, s1) = sock_send mbox bs s;
     Some (if ret = int (length bs) then (True, Message_set_location_begin_body w, s1)
           else (False, if ret > 0 then w\<lparr>cur_byte := cur_byte w + ret\<rparr> else w, s1)) })"

fun badger_messages ::
  "int \<Rightarrow> message list \<Rightarrow> partial_message_info \<Rightarrow> 'a sess_layer_scheme \<Rightarrow>
   (message list \<times> partial_message_info \<times> 'a sess_layer_scheme) option" where
  "badger_messages mbox [] w s = Some ([], w, s)"
| "badger_messages mbox (m # ms) w s = do {
     (able, w1, s1) \<leftarrow> badger_header mbox m w s;
     if \<not> able then Some (m # ms, w1, s1) else do {
       (able2, w2, s2) \<leftarrow> badger_elements mbox (cur_byte w1) (drop (cur_element w1) m) w1 s1;
       if \<not> able2 then Some (m # ms, w2, s2)
       else badger_messages mbox ms Message_reset_current_location s2 } }"

definition Sess_badger :: "int \<Rightarrow> 'a sess_layer_scheme \<Rightarrow> 'a sess_layer_scheme option" where
  "Sess_badger mbox s = do {
     r \<leftarrow> Sess_get_session_index mbox s;
     case r of None \<Rightarrow> Some s | Some ses \<Rightarrow>
       if ses \<ge> MAX_SESSIONS \<or> \<not> Is_op_session (ss_status (Sessions s ses)) \<or> ss_mess (Sessions s ses) = []
       then Some s
       else do {
         (ms, w, s1) \<leftarrow> badger_messages mbox (ss_mess (Sessions s ses)) (ss_write (Sessions s ses)) s;
         let s2 = upd_session ses (\<lambda>x. x\<lparr>ss_mess := ms, ss_write := w\<rparr>) s1;
         Some (if ms \<noteq> [] then upd_dmn (E_queue Sess_badger_f mbox 0 Badger_timeout) s2 else s2) } }"

section \<open>Killing a session\<close>

definition private_group :: "byte list \<Rightarrow> string \<Rightarrow> byte list option" where
  "private_group name my_name = strcpy MAX_GROUP_NAME (35 # cstr name @ 35 # chars my_name)"

definition Prot_Create_Down_Link :: "message \<Rightarrow> int32u option \<Rightarrow> down_link option" where
  "Prot_Create_Down_Link m ty = map_option (\<lambda>t. \<lparr>dl_type = t, dl_mess = map used m\<rparr>) ty"

definition Sess_kill :: "int \<Rightarrow> 'a sess_layer_scheme \<Rightarrow> 'a sess_layer_scheme option" where
  "Sess_kill mbox s = do {
     r \<leftarrow> Sess_get_session_index mbox s;
     case r of None \<Rightarrow> Some s | Some ses \<Rightarrow>
       if ses \<ge> MAX_SESSIONS then Some s
       else do {
         exit_if (\<not> Is_op_session (ss_status (Sessions s ses)) \<and> Is_preauth_session (ss_status (Sessions s ses)));
         grp \<leftarrow> private_group (ss_name (Sessions s ses)) (p_name (Sess_My s));
         kill_mess \<leftarrow> Message_create_message (KILL_MESS OR SAFE_MESS) grp;
         h \<leftarrow> Message_get_message_header kill_mess;
         link \<leftarrow> Prot_Create_Down_Link kill_mess (Message_get_packet_type (mh_type h));
         s1 \<leftarrow> on_dmn (Prot_new_message link) s;
         let s2 = upd_session ses (\<lambda>x. x\<lparr>ss_mess := [], ss_read := Message_reset_current_location\<lparr>in_mess_head := True\<rparr>,
                    ss_read_mess := None\<rparr>) s1;
         let s3 = upd_dmn (E_dequeue Sess_badger_f mbox 0) s2;
         (_, s4) \<leftarrow> E_detach_fd mbox READ_FD s3;
         (_, s5) \<leftarrow> E_detach_fd mbox EXCEPT_FD s4;
         Some (upd_session ses (\<lambda>x. x\<lparr>ss_status := Clear_op_session (ss_status x)\<rparr>) (close_mbox mbox s5)) } }"

section \<open>Writing a message\<close>

fun send_elements :: "int \<Rightarrow> scat_element list \<Rightarrow> int \<Rightarrow> 'a sess_layer_scheme \<Rightarrow> (int \<times> 'a sess_layer_scheme) option" where
  "send_elements mbox [] n s = Some (n, s)"
| "send_elements mbox (e # es) n s = do {
     bs \<leftarrow> get_bytes (se_buf e) 0 (se_len e);
     let (ret, s1) = sock_send mbox bs s;
     let n1 = (if ret > 0 then n + ret else n);
     if ret \<noteq> int (length bs) then Some (n1, s1) else send_elements mbox es n1 s1 }"

text \<open>The header, the data of the first element, and the rest: how many bytes were taken.\<close>

definition send_message :: "int \<Rightarrow> message \<Rightarrow> 'a sess_layer_scheme \<Rightarrow> (int \<times> 'a sess_layer_scheme) option" where
  "send_message mbox m s = do {
     e \<leftarrow> (case m of [] \<Rightarrow> None | e # _ \<Rightarrow> Some e);
     hd_bytes \<leftarrow> get_bytes (se_buf e) 0 sizeof_message_header;
     let (ret, s1) = sock_send mbox hd_bytes s;
     let n1 = (if ret > 0 then ret else 0);
     if ret \<noteq> sizeof_message_header then Some (n1, s1) else do {
       ptr \<leftarrow> Message_get_first_data_ptr m;
       len \<leftarrow> Message_get_first_data_len m;
       first \<leftarrow> get_bytes ptr 0 len;
       let (ret2, s2) = sock_send mbox first s1;
       let n2 = (if ret2 > 0 then n1 + ret2 else n1);
       if ret2 \<noteq> len then Some (n2, s2) else send_elements mbox (tl m) n2 s2 } }"

definition total_to_send :: "message \<Rightarrow> int" where "total_to_send m = sum_list (map se_len m)"

definition Sess_write :: "nat \<Rightarrow> message \<Rightarrow> int \<Rightarrow> 'a sess_layer_scheme \<Rightarrow> (int \<times> 'a sess_layer_scheme) option" where
  "Sess_write ses m needed s0 = (
     if \<not> Is_op_session (ss_status (Sessions s0 ses)) then Some (needed, s0)
     else if length (ss_mess (Sessions s0 ses)) \<ge> MAX_SESSION_MESSAGES
     then map_option (Pair needed) (Sess_kill (ss_mbox (Sessions s0 ses)) s0)
     else do {
       s1 \<leftarrow> (if ss_mess (Sessions s0 ses) \<noteq> [] then Sess_badger (ss_mbox (Sessions s0 ses)) s0 else Some s0);
       let idle = (ss_mess (Sessions s1 ses) = []);
       (len_sent, s2) \<leftarrow> (if idle then send_message (ss_mbox (Sessions s1 ses)) m s1 else Some (0, s1));
       if len_sent < total_to_send m
       then do {
         link \<leftarrow> (if needed \<noteq> 0 then Message_copy_message m else Some m);
         let needed' = (if needed \<noteq> 0 then needed + 1 else 1);
         let s3 = upd_session ses (\<lambda>x. x\<lparr>ss_mess := ss_mess x @ [link]\<rparr>) s2;
         Some (needed', if idle
           then upd_dmn (E_queue Sess_badger_f (ss_mbox (Sessions s3 ses)) 0 Badger_timeout)
                  (upd_session ses (\<lambda>x. x\<lparr>ss_write := Message_calculate_current_location link len_sent (ss_write x)\<rparr>) s3)
           else s3) }
       else Some (needed, s2) })"

end
