(* ===== verification/Client_stream.thy ===== *)
theory Client_stream
  imports Session_io Sample
begin

text \<open>
  What a client receives: however much each \<open>send\<close> takes, the bytes its socket took, followed by
  the bytes still queued for it, are the messages written to it one after the other.
\<close>

section \<open>Sockets only grow\<close>

definition sock_frame :: "int \<Rightarrow> byte list \<Rightarrow> 'a sess_layer_scheme \<Rightarrow> 'a sess_layer_scheme \<Rightarrow> bool" where
  "sock_frame mbox bs s s' \<longleftrightarrow>
     (\<exists>n. s' = s\<lparr>send_calls := n, sock_out := (sock_out s)(mbox := sock_out s mbox @ bs)\<rparr>)"

lemma sock_frame_refl: "sock_frame mbox [] s s"
  by (auto simp: sock_frame_def intro!: exI [of _ "send_calls s"])

lemma sock_frame_trans: "sock_frame mbox as s t \<Longrightarrow> sock_frame mbox bs t u \<Longrightarrow> sock_frame mbox (as @ bs) s u"
  by (auto simp: sock_frame_def)

lemma sock_frame_fields:
  assumes "sock_frame mbox bs s s'"
  shows "Sessions s' = Sessions s" "Sessions_hash_head s' = Sessions_hash_head s" "send_ret s' = send_ret s"
    "sock_out s' mbox = sock_out s mbox @ bs" "b \<noteq> mbox \<Longrightarrow> sock_out s' b = sock_out s b" "dmn s' = dmn s"
  using assms by (auto simp: sock_frame_def)

text \<open>What \<open>send\<close> promises: it never takes more than it is given.\<close>

definition sane_send :: "'a sess_layer_scheme \<Rightarrow> bool" where
  "sane_send s \<longleftrightarrow> (\<forall>n b l. send_ret s n b l \<le> int l)"

lemma sane_frame: "sock_frame mbox bs s s' \<Longrightarrow> sane_send s' = sane_send s"
  by (simp add: sane_send_def sock_frame_fields(3))

lemma sock_send_frame:
  assumes "sock_send mbox bs s = (r, s')" and "sane_send s"
  shows "sock_frame mbox (take (nat r) bs) s s'" and "r \<le> int (length bs)"
  using assms by (auto simp: sock_send_def sock_frame_def sane_send_def Let_def)

section \<open>The elements of a message\<close>

definition element_bytes :: "int \<Rightarrow> scat_element list \<Rightarrow> byte list" where
  "element_bytes from es = drop (nat from) (contents es)"

lemma contents_Cons: "contents (e # es) = used e @ contents es"
  by (simp add: contents_def)

lemma length_used: "wf_element e \<Longrightarrow> length (used e) = nat (se_len e)"
  by (auto simp: wf_element_def used_def min_def)

lemma element_bytes_Cons:
  assumes "wf_element e" and "0 \<le> from" and "from \<le> se_len e"
  shows "element_bytes from (e # es) = drop (nat from) (used e) @ contents es"
  using assms length_used [OF assms(1)] by (simp add: element_bytes_def contents_Cons)

lemma get_used:
  assumes "wf_element e" and "0 \<le> from" and "from \<le> se_len e"
  shows "get_bytes (se_buf e) from (se_len e - from) = Some (drop (nat from) (used e))"
  using assms
  by (auto simp: get_bytes_def wf_element_def used_def drop_take nat_diff_distrib)

lemma badger_elements_sends:
  assumes "\<forall>e \<in> set es. wf_element e" and "sane_send s" and "from = cur_byte w" and "0 \<le> from"
    and "es \<noteq> [] \<longrightarrow> from \<le> se_len (hd es)" and "es = [] \<longrightarrow> from = 0"
  shows "\<exists>able w' s' sent. badger_elements mbox from es w s = Some (able, w', s') \<and> sock_frame mbox sent s s' \<and>
    (if able then sent = element_bytes from es
     else \<exists>k < length es. cur_element w' = cur_element w + k \<and> 0 \<le> cur_byte w' \<and> cur_byte w' \<le> se_len (es ! k) \<and>
       in_mess_head w' = in_mess_head w \<and>
       element_bytes from es = sent @ element_bytes (cur_byte w') (drop k es))"
  using assms
proof (induction es arbitrary: "from" w s)
  case Nil
  then show ?case by (auto simp: sock_frame_refl element_bytes_def contents_def)
next
  case (Cons e es)
  have e: "wf_element e" "0 \<le> from" "from \<le> se_len e" using Cons.prems by auto
  let ?bs = "drop (nat from) (used e)"
  note g = get_used [OF e] and eb = element_bytes_Cons [OF e, of es]
  have lb: "int (length ?bs) = se_len e - from" using e length_used [OF e(1)] by simp
  obtain r s1 where r: "sock_send mbox ?bs s = (r, s1)" by force
  note fr = sock_send_frame [OF r Cons.prems(2)]
  show ?case
  proof (cases "r = int (length ?bs)")
    case True
    let ?w = "w\<lparr>cur_byte := 0, cur_element := Suc (cur_element w)\<rparr>"
    have "es \<noteq> [] \<longrightarrow> 0 \<le> se_len (hd es)" using Cons.prems(1) by (cases es) (auto simp: wf_element_def)
    with Cons.IH [of s1 0 ?w] Cons.prems(1) obtain able w' s' sent where
      IH: "badger_elements mbox 0 es ?w s1 = Some (able, w', s')" "sock_frame mbox sent s1 s'"
        "if able then sent = element_bytes 0 es
         else \<exists>k < length es. cur_element w' = cur_element ?w + k \<and> 0 \<le> cur_byte w' \<and> cur_byte w' \<le> se_len (es ! k) \<and>
           in_mess_head w' = in_mess_head ?w \<and> element_bytes 0 es = sent @ element_bytes (cur_byte w') (drop k es)"
      using sane_frame [OF fr(1)] Cons.prems(2) by auto
    have sent: "sock_frame mbox (?bs @ sent) s s'"
      using sock_frame_trans [OF fr(1) IH(2)] True by simp
    have eb0: "element_bytes 0 es = contents es" by (simp add: element_bytes_def)
    have b: "badger_elements mbox from (e # es) w s = Some (able, w', s')" using IH(1) g r True by simp
    show ?thesis
    proof (cases able)
      case True
      then show ?thesis using IH(3) b sent eb eb0 by (intro exI) (auto intro!: exI [of _ "?bs @ sent"])
    next
      case False
      with IH(3) obtain k where k: "k < length es" "cur_element w' = cur_element w + Suc k" "0 \<le> cur_byte w'"
        "cur_byte w' \<le> se_len (es ! k)" "in_mess_head w' = in_mess_head w"
        "contents es = sent @ element_bytes (cur_byte w') (drop k es)" by (auto simp: eb0)
      have "Suc k < length (e # es)" using k(1) by simp
      with False k show ?thesis using b sent eb
        by (intro exI [of _ able] exI [of _ w'] exI [of _ s'] exI [of _ "?bs @ sent"])
          (auto intro!: exI [of _ "Suc k"])
    qed
  next
    case False
    let ?w = "if r > 0 then w\<lparr>cur_byte := cur_byte w + r\<rparr> else w"
    have b: "badger_elements mbox from (e # es) w s = Some (False, ?w, s1)" using g r False by simp
    have cb: "cur_byte ?w = from + int (nat r)" using Cons.prems(3) by simp
    have le: "from + int (nat r) \<le> se_len e" using fr(2) lb e by (cases "r > 0") auto
    have "element_bytes from (e # es) = take (nat r) ?bs @ element_bytes (cur_byte ?w) (drop 0 (e # es))"
    proof -
      have "element_bytes (from + int (nat r)) (e # es) = drop (nat (from + int (nat r))) (used e) @ contents es"
        using e le by (intro element_bytes_Cons) auto
      moreover have "drop (nat (from + int (nat r))) (used e) = drop (nat r) ?bs"
        using e by (simp add: nat_add_distrib add.commute)
      ultimately show ?thesis using eb cb by (simp del: drop_drop)
    qed
    with b cb le fr(1) e(2) show ?thesis
      by (intro exI [of _ False] exI [of _ ?w] exI [of _ s1] exI [of _ "take (nat r) ?bs"])
        (auto intro!: exI [of _ 0])
  qed
qed

section \<open>The queue of a client\<close>

definition rest_of :: "message \<Rightarrow> partial_message_info \<Rightarrow> byte list" where
  "rest_of m w = element_bytes (cur_byte w) (drop (cur_element w) m)"

fun pending_bytes :: "message list \<Rightarrow> partial_message_info \<Rightarrow> byte list" where
  "pending_bytes [] w = []"
| "pending_bytes (m # ms) w = rest_of m w @ concat (map contents ms)"

definition loc_ok :: "message list \<Rightarrow> partial_message_info \<Rightarrow> bool" where
  "loc_ok ms w \<longleftrightarrow> \<not> in_mess_head w \<and> (case ms of [] \<Rightarrow> True | m # _ \<Rightarrow>
     cur_element w < length m \<and> 0 \<le> cur_byte w \<and> cur_byte w \<le> se_len (m ! cur_element w))"

text \<open>Messages as they wait in the queue, and as the daemon hands them up: a whole header in the first element.\<close>

definition queued_mess :: "message \<Rightarrow> bool" where
  "queued_mess m \<longleftrightarrow> m \<noteq> [] \<and> (\<forall>e \<in> set m. wf_element e)"

definition wf_mess :: "message \<Rightarrow> bool" where
  "wf_mess m \<longleftrightarrow> queued_mess m \<and> 48 \<le> se_len (hd m) \<and>
     (case Message_get_message_header m of None \<Rightarrow> False
      | Some h \<Rightarrow> has (mh_type h) REJECT_MESS \<longrightarrow> se_len (hd m) = 48 \<and> length m > 1)"

lemma reset_loc_ok: "\<forall>m \<in> set ms. queued_mess m \<Longrightarrow> loc_ok ms Message_reset_current_location"
  by (cases ms; cases "hd ms") (auto simp: loc_ok_def Message_reset_current_location_def queued_mess_def wf_element_def)

lemma pending_reset: "pending_bytes ms Message_reset_current_location = concat (map contents ms)"
  by (cases ms) (simp_all add: rest_of_def Message_reset_current_location_def element_bytes_def)

lemma badger_messages_sends:
  assumes "\<forall>m \<in> set ms. queued_mess m" and "loc_ok ms w" and "sane_send s"
  shows "\<exists>ms' w' s' sent. badger_messages mbox ms w s = Some (ms', w', s') \<and> sock_frame mbox sent s s' \<and>
    pending_bytes ms w = sent @ pending_bytes ms' w' \<and> loc_ok ms' w' \<and> set ms' \<subseteq> set ms \<and> length ms' \<le> length ms"
  using assms
proof (induction ms arbitrary: w s)
  case Nil
  then show ?case by (auto simp: sock_frame_refl)
next
  case (Cons m ms)
  have loc: "\<not> in_mess_head w" "cur_element w < length m" "0 \<le> cur_byte w" "cur_byte w \<le> se_len (m ! cur_element w)"
    using Cons.prems(2) by (auto simp: loc_ok_def)
  let ?es = "drop (cur_element w) m"
  have es: "\<forall>e \<in> set ?es. wf_element e" "?es \<noteq> []" "hd ?es = m ! cur_element w"
    using Cons.prems(1) loc(2) by (auto simp: queued_mess_def hd_drop_conv_nth dest: in_set_dropD)
  from badger_elements_sends [of ?es s "cur_byte w" w mbox] es loc Cons.prems(3) obtain able w' s' sent where
    b: "badger_elements mbox (cur_byte w) ?es w s = Some (able, w', s')" "sock_frame mbox sent s s'"
      "if able then sent = element_bytes (cur_byte w) ?es
       else \<exists>k < length ?es. cur_element w' = cur_element w + k \<and> 0 \<le> cur_byte w' \<and> cur_byte w' \<le> se_len (?es ! k) \<and>
         in_mess_head w' = in_mess_head w \<and> element_bytes (cur_byte w) ?es = sent @ element_bytes (cur_byte w') (drop k ?es)"
    by auto
  have h: "badger_header mbox m w s = Some (True, w, s)" using loc(1) by (simp add: badger_header_def)
  show ?case
  proof (cases able)
    case False
    with b(3) obtain k where k: "k < length ?es" "cur_element w' = cur_element w + k" "0 \<le> cur_byte w'"
      "cur_byte w' \<le> se_len (?es ! k)" "in_mess_head w' = in_mess_head w"
      "element_bytes (cur_byte w) ?es = sent @ element_bytes (cur_byte w') (drop k ?es)" by auto
    have "loc_ok (m # ms) w'" using k loc by (simp add: loc_ok_def add.commute)
    moreover have "rest_of m w = sent @ rest_of m w'" using k(2,6) by (simp add: rest_of_def add.commute)
    moreover have "badger_messages mbox (m # ms) w s = Some (m # ms, w', s')" using h b(1) False by simp
    ultimately show ?thesis using b(2)
      by (intro exI [of _ "m # ms"] exI [of _ w'] exI [of _ s'] exI [of _ sent]) simp
  next
    case True
    have "sane_send s'" using sane_frame [OF b(2)] Cons.prems(3) by simp
    with Cons.IH [of Message_reset_current_location s'] Cons.prems(1) reset_loc_ok [of ms] obtain ms' w2 s2 sent2 where
      IH: "badger_messages mbox ms Message_reset_current_location s' = Some (ms', w2, s2)" "sock_frame mbox sent2 s' s2"
        "concat (map contents ms) = sent2 @ pending_bytes ms' w2" "loc_ok ms' w2" "set ms' \<subseteq> set ms" "length ms' \<le> length ms"
      by (auto simp: pending_reset)
    have "badger_messages mbox (m # ms) w s = Some (ms', w2, s2)" using h b(1) True IH(1) by simp
    moreover have "sock_frame mbox (sent @ sent2) s s2" by (rule sock_frame_trans [OF b(2) IH(2)])
    moreover have "pending_bytes (m # ms) w = (sent @ sent2) @ pending_bytes ms' w2"
      using b(3) True IH(3) by (simp add: rest_of_def)
    ultimately show ?thesis using IH(4,5,6)
      by (intro exI [of _ ms'] exI [of _ w2] exI [of _ s2] exI [of _ "sent @ sent2"]) auto
  qed
qed

section \<open>A client that is served\<close>

definition mess_of :: "'a sess_layer_scheme \<Rightarrow> nat \<Rightarrow> message list" where "mess_of s ses = ss_mess (Sessions s ses)"

definition stream :: "'a sess_layer_scheme \<Rightarrow> nat \<Rightarrow> byte list" where
  "stream s ses = sock_out s (mbox_at s ses) @ pending_bytes (mess_of s ses) (ss_write (Sessions s ses))"

definition client_ok :: "'a sess_layer_scheme \<Rightarrow> nat \<Rightarrow> bool" where
  "client_ok s ses \<longleftrightarrow> ses < MAX_SESSIONS \<and> Is_op_session (ss_status (Sessions s ses)) \<and>
     Sess_get_session_index (mbox_at s ses) s = Some (Some ses) \<and> sane_send s \<and>
     (\<forall>m \<in> set (mess_of s ses). queued_mess m) \<and> loc_ok (mess_of s ses) (ss_write (Sessions s ses))"

definition same_chains :: "(nat \<Rightarrow> session) \<Rightarrow> (nat \<Rightarrow> session) \<Rightarrow> bool" where
  "same_chains ss ss' \<longleftrightarrow> (\<forall>i. ss_mbox (ss' i) = ss_mbox (ss i) \<and> ss_hash_next (ss' i) = ss_hash_next (ss i))"

lemma walk_hash_into:
  assumes "walk_hash ss m p = Some r"
  shows "\<forall>ss'. same_chains ss ss' \<longrightarrow> walk_hash ss' m p = Some r"
proof (rule walk_hash.raw_induct [where P = "\<lambda>ss m p r. \<forall>ss'. same_chains ss ss' \<longrightarrow> walk_hash ss' m p = Some r", OF _ assms],
    intro allI impI)
  fix walk ss m p r and ss' :: "nat \<Rightarrow> session"
  assume IH: "\<And>ss m p r. walk ss m p = Some r \<Longrightarrow> \<forall>ss'. same_chains ss ss' \<longrightarrow> walk_hash ss' m p = Some r"
    and step: "(case p of None \<Rightarrow> Some None
      | Some i \<Rightarrow> if ss_mbox (ss i) = m then Some (Some i) else walk ss m (ss_hash_next (ss i))) = Some r"
    and same: "same_chains ss ss'"
  show "walk_hash ss' m p = Some r"
  proof (cases p)
    case None
    then have "r = None" using step by simp
    then show ?thesis by (subst walk_hash.simps) (simp add: None)
  next
    case (Some i)
    have eq: "ss_mbox (ss' i) = ss_mbox (ss i)" "ss_hash_next (ss' i) = ss_hash_next (ss i)"
      using same by (simp_all add: same_chains_def)
    show ?thesis
    proof (cases "ss_mbox (ss i) = m")
      case True
      then have "r = Some i" using step Some by simp
      then show ?thesis by (subst walk_hash.simps) (simp add: Some eq True)
    next
      case False
      then have "walk ss m (ss_hash_next (ss i)) = Some r" using step Some by simp
      from IH [OF this] same have "walk_hash ss' m (ss_hash_next (ss i)) = Some r" by blast
      then show ?thesis by (subst walk_hash.simps) (simp add: Some eq False)
    qed
  qed
qed

lemma walk_hash_same:
  assumes "same_chains ss ss'"
  shows "walk_hash ss' m p = walk_hash ss m p"
proof -
  have into: "walk_hash ss m p = Some r \<Longrightarrow> walk_hash ss' m p = Some r" for r
    using walk_hash_into assms by blast
  have "same_chains ss' ss" using assms by (simp add: same_chains_def)
  then have from_it: "walk_hash ss' m p = Some r \<Longrightarrow> walk_hash ss m p = Some r" for r
    using walk_hash_into by blast
  show ?thesis
  proof (cases "walk_hash ss m p")
    case None
    then show ?thesis using from_it by (cases "walk_hash ss' m p") (simp_all del: option.inject)
  next
    case (Some r)
    then show ?thesis using into by simp
  qed
qed

lemma get_session_index_cong:
  assumes "same_chains (Sessions s) (Sessions s')" and "Sessions_hash_head s' = Sessions_hash_head s"
  shows "Sess_get_session_index m s' = Sess_get_session_index m s"
  using walk_hash_same [OF assms(1)] assms(2) by (simp add: Sess_get_session_index_def)

lemma upd_session_simps [simp]:
  "send_ret (upd_session i f s) = send_ret s" "sock_out (upd_session i f s) = sock_out s"
  "dmn (upd_session i f s) = dmn s" "send_calls (upd_session i f s) = send_calls s"
  by (simp_all add: upd_session_def)

lemma upd_dmn_simps [simp]:
  "Sessions (upd_dmn f s) = Sessions s" "Sessions_hash_head (upd_dmn f s) = Sessions_hash_head s"
  "send_ret (upd_dmn f s) = send_ret s" "sock_out (upd_dmn f s) = sock_out s"
  by (simp_all add: upd_dmn_def)

text \<open>
  What no operation on a client touches: the layers above, the directory of the sessions, and the
  configuration.
\<close>

definition quiet :: "'a sess_layer_scheme \<Rightarrow> 'a sess_layer_scheme \<Rightarrow> bool" where
  "quiet s s' \<longleftrightarrow> sess_layer.more s' = sess_layer.more s \<and> Sess_My s' = Sess_My s \<and>
     Sessions_head s' = Sessions_head s \<and> Sessions_tail s' = Sessions_tail s \<and>
     Sessions_free s' = Sessions_free s \<and> Sessions_hash_head s' = Sessions_hash_head s \<and>
     Config (dmn s') = Config (dmn s) \<and>
     Config_procs (dmn s') = Config_procs (dmn s) \<and>
     (\<forall>i. ss_name (Sessions s' i) = ss_name (Sessions s i) \<and>
       ss_sort_next (Sessions s' i) = ss_sort_next (Sessions s i) \<and>
       ss_sort_prev (Sessions s' i) = ss_sort_prev (Sessions s i) \<and>
       ss_hash_next (Sessions s' i) = ss_hash_next (Sessions s i) \<and>
       ss_mbox (Sessions s' i) = ss_mbox (Sessions s i) \<and>
       ss_status (Sessions s' i) = ss_status (Sessions s i))"

lemma quiet_refl [simp]: "quiet s s"
  by (simp add: quiet_def)

lemma quiet_trans: "quiet s t \<Longrightarrow> quiet t u \<Longrightarrow> quiet s u"
  by (simp add: quiet_def)

lemma quiet_frame: "sock_frame m bs s s' \<Longrightarrow> quiet s s'"
  by (auto simp: quiet_def sock_frame_def)

lemma quiet_mess: "quiet s (upd_session ses (\<lambda>x. x\<lparr>ss_mess := f x, ss_write := g x\<rparr>) s)"
  "quiet s (upd_session ses (\<lambda>x. x\<lparr>ss_mess := f x\<rparr>) s)" "quiet s (upd_session ses (\<lambda>x. x\<lparr>ss_write := g x\<rparr>) s)"
  by (simp_all add: quiet_def upd_session_def)

lemma quiet_timer: "quiet s (upd_dmn (E_queue f c d t) s)"
  by (simp add: quiet_def upd_dmn_def E_queue_def E_get_time_def Let_def)

lemma quiet_sessions:
  assumes "quiet s s'"
  shows "sessions_ok s' L = sessions_ok s L" "mbox_at s' = mbox_at s" "name_at s' = name_at s"
proof -
  have "nexts s' = nexts s" "prevs s' = prevs s" "hashes s' = hashes s"
    using assms by (simp_all add: quiet_def nexts_def prevs_def hashes_def fun_eq_iff)
  moreover show n: "mbox_at s' = mbox_at s" "name_at s' = name_at s"
    using assms by (simp_all add: quiet_def mbox_at_def name_at_def fun_eq_iff)
  ultimately show "sessions_ok s' L = sessions_ok s L"
    using assms by (simp add: quiet_def sessions_ok_def sorted_ok_def hash_ok_def)
qed

text \<open>What an operation on the client \<open>ses\<close> leaves alone, and what its socket took.\<close>

definition served :: "nat \<Rightarrow> byte list \<Rightarrow> 'a sess_layer_scheme \<Rightarrow> 'a sess_layer_scheme \<Rightarrow> bool" where
  "served ses bs s s' \<longleftrightarrow> quiet s s' \<and> same_chains (Sessions s) (Sessions s') \<and> Sessions_hash_head s' = Sessions_hash_head s \<and>
     send_ret s' = send_ret s \<and> ss_status (Sessions s' ses) = ss_status (Sessions s ses) \<and>
     (\<forall>i. i \<noteq> ses \<longrightarrow> Sessions s' i = Sessions s i) \<and>
     sock_out s' = (sock_out s)(mbox_at s ses := sock_out s (mbox_at s ses) @ bs)"

lemma served_client_ok:
  assumes "served ses bs s s'" and "client_ok s ses" and "\<forall>m \<in> set (mess_of s' ses). queued_mess m"
    and "loc_ok (mess_of s' ses) (ss_write (Sessions s' ses))"
  shows "client_ok s' ses"
  using assms get_session_index_cong [of s s']
  by (simp add: client_ok_def served_def sane_send_def mbox_at_def same_chains_def)

lemma served_refl: "served ses [] s s"
  by (simp add: served_def same_chains_def)

lemma served_trans: "served ses as s t \<Longrightarrow> served ses bs t u \<Longrightarrow> served ses (as @ bs) s u"
  using quiet_trans [of s t u] by (simp add: served_def same_chains_def mbox_at_def fun_eq_iff)

lemma served_frame: "sock_frame (mbox_at s ses) bs s s' \<Longrightarrow> served ses bs s s'"
  using quiet_frame [of "mbox_at s ses" bs s s'] by (auto simp: served_def sock_frame_def same_chains_def)

lemma served_queue: "served ses [] s (upd_session ses (\<lambda>x. x\<lparr>ss_mess := f x, ss_write := g x\<rparr>) s)"
  by (auto simp: served_def same_chains_def upd_session_simps quiet_mess)

lemma served_timer: "served ses bs s s' \<Longrightarrow> served ses bs s (upd_dmn (E_queue f c d t) s')"
  using quiet_trans [of s s' "upd_dmn (E_queue f c d t) s'"] quiet_timer [of s' f c d t] by (simp add: served_def)

lemma Sess_badger_serves:
  assumes ok: "client_ok s ses"
  shows "\<exists>s' bs. Sess_badger (mbox_at s ses) s = Some s' \<and> served ses bs s s' \<and> client_ok s' ses \<and>
    stream s' ses = stream s ses \<and> length (mess_of s' ses) \<le> length (mess_of s ses)"
proof (cases "mess_of s ses = []")
  case True
  then have "Sess_badger (mbox_at s ses) s = Some s" using ok by (simp add: Sess_badger_def client_ok_def mess_of_def)
  then show ?thesis using ok served_refl by blast
next
  case False
  from badger_messages_sends [of "mess_of s ses" "ss_write (Sessions s ses)" s "mbox_at s ses"] ok
  obtain ms w s1 sent where b: "badger_messages (mbox_at s ses) (mess_of s ses) (ss_write (Sessions s ses)) s = Some (ms, w, s1)"
    "sock_frame (mbox_at s ses) sent s s1" "pending_bytes (mess_of s ses) (ss_write (Sessions s ses)) = sent @ pending_bytes ms w"
    "loc_ok ms w" "set ms \<subseteq> set (mess_of s ses)" "length ms \<le> length (mess_of s ses)"
    by (auto simp: client_ok_def)
  let ?s2 = "upd_session ses (\<lambda>x. x\<lparr>ss_mess := ms, ss_write := w\<rparr>) s1"
  let ?s3 = "if ms \<noteq> [] then upd_dmn (E_queue Sess_badger_f (mbox_at s ses) 0 Badger_timeout) ?s2 else ?s2"
  have "Sess_badger (mbox_at s ses) s = Some ?s3"
    using ok False b(1) by (simp add: Sess_badger_def client_ok_def mess_of_def Let_def)
  moreover have sv: "served ses sent s ?s3"
    using served_trans [OF served_frame [OF b(2)] served_queue [of ses s1 "\<lambda>_. w" "\<lambda>_. ms"]] served_timer by auto
  moreover have q: "mess_of ?s3 ses = ms" "ss_write (Sessions ?s3 ses) = w" by (simp_all add: mess_of_def upd_session_def)
  moreover have "client_ok ?s3 ses"
  proof (rule served_client_ok [OF sv ok])
    show "\<forall>m \<in> set (mess_of ?s3 ses). queued_mess m" using q(1) b(5) ok by (auto simp: client_ok_def)
    show "loc_ok (mess_of ?s3 ses) (ss_write (Sessions ?s3 ses))" using b(4) by (simp only: q)
  qed
  moreover have "stream ?s3 ses = stream s ses"
    using sv q b(3) by (simp add: stream_def served_def mbox_at_def same_chains_def)
  ultimately show ?thesis using b(6) by (metis (no_types, lifting))
qed

section \<open>Writing to a client\<close>

lemma get_all: "wf_element e \<Longrightarrow> get_bytes (se_buf e) 0 (se_len e) = Some (used e)"
  using get_used [of e 0] by (simp add: wf_element_def)

lemma send_elements_sends:
  assumes "\<forall>e \<in> set es. wf_element e" and "sane_send s"
  shows "\<exists>s' k. send_elements mbox es n s = Some (n + int k, s') \<and> sock_frame mbox (take k (contents es)) s s' \<and>
    k \<le> length (contents es)"
  using assms
proof (induction es arbitrary: n s)
  case Nil
  then show ?case by (auto simp: sock_frame_refl)
next
  case (Cons e es)
  have e: "wf_element e" using Cons.prems by simp
  obtain r s1 where r: "sock_send mbox (used e) s = (r, s1)" by force
  note fr = sock_send_frame [OF r Cons.prems(2)]
  show ?case
  proof (cases "r = int (length (used e))")
    case False
    have "take (nat r) (contents (e # es)) = take (nat r) (used e)" using fr(2) by (simp add: contents_Cons)
    then show ?thesis using get_all [OF e] r False fr
      by (intro exI [of _ s1] exI [of _ "nat r"]) (auto simp: contents_Cons)
  next
    case True
    from Cons.IH [of s1 "n + r"] Cons.prems sane_frame [OF fr(1)] obtain s' k where
      IH: "send_elements mbox es (n + r) s1 = Some (n + r + int k, s')" "sock_frame mbox (take k (contents es)) s1 s'"
        "k \<le> length (contents es)" by auto
    have n1: "(if r > 0 then n + r else n) = n + r" using True by simp
    have "sock_frame mbox (take (nat r + k) (contents (e # es))) s s'"
      using sock_frame_trans [OF fr(1) IH(2)] True by (simp add: contents_Cons)
    moreover have "send_elements mbox (e # es) n s = Some (n + int (nat r + k), s')"
      using get_all [OF e] r True IH(1) n1 by (cases "used e = []") (simp_all add: add.assoc)
    ultimately show ?thesis using True IH(3)
      by (intro exI [of _ s'] exI [of _ "nat r + k"]) (auto simp: contents_Cons)
  qed
qed

lemma header_Some: "queued_mess m \<Longrightarrow> \<exists>h. Message_get_message_header m = Some h"
  by (cases m) (auto simp: Message_get_message_header_def queued_mess_def wf_element_def get_bytes_def sizeof_message_header_def)

lemma send_message_sends:
  assumes m: "wf_mess m" and sane: "sane_send s"
  shows "\<exists>s' k. send_message mbox m s = Some (int k, s') \<and> sock_frame mbox (take k (contents m)) s s' \<and>
    k \<le> length (contents m)"
proof -
  obtain e es where m': "m = e # es" and e: "wf_element e" "\<forall>x \<in> set es. wf_element x" "48 \<le> se_len e"
    using m by (cases m) (auto simp: wf_mess_def queued_mess_def)
  have le: "length (used e) = nat (se_len e)" by (rule length_used [OF e(1)])
  have hb: "get_bytes (se_buf e) 0 sizeof_message_header = Some (take 48 (used e))"
    using e(1,3) by (auto simp: get_bytes_def wf_element_def used_def sizeof_message_header_def min_def)
  obtain h where h: "Message_get_message_header m = Some h" using header_Some m by (auto simp: wf_mess_def)
  obtain r s1 where r: "sock_send mbox (take 48 (used e)) s = (r, s1)" by force
  note fr = sock_send_frame [OF r sane]
  have l48: "length (take 48 (used e)) = 48" using le e(3) by simp
  have tk: "take n (take 48 (used e)) = take n (contents m)" if "n \<le> 48" for n
    using that le e(3) m' by (simp add: contents_Cons)
  show ?thesis
  proof (cases "r = 48")
    case False
    have "send_message mbox m s = Some (int (nat r), s1)"
      using hb r False m' by (simp add: send_message_def Let_def sizeof_message_header_def)
    moreover have "nat r \<le> 48" using fr(2) l48 by linarith
    ultimately show ?thesis using fr(1) tk le e(3) m'
      by (intro exI [of _ s1] exI [of _ "nat r"]) (auto simp: contents_Cons)
  next
    case True
    obtain p len where p: "Message_get_first_data_ptr m = Some p" "Message_get_first_data_len m = Some len"
      "get_bytes p 0 len = Some (drop 48 (used e))" "len = int (length (drop 48 (used e)))"
    proof (cases "has (mh_type h) REJECT_MESS")
      case True
      then have "se_len e = 48" "es \<noteq> []" using m h m' by (auto simp: wf_mess_def)
      then show ?thesis using that [of "se_buf (hd es)" 0] True h m' le
        by (simp add: Message_get_first_data_ptr_def Message_get_first_data_len_def get_bytes_def hd_conv_nth)
    next
      case False
      have "get_bytes (se_buf e) 48 (se_len e - 48) = Some (drop 48 (used e))" using get_used [of e 48] e by simp
      then have "get_bytes (drop 48 (se_buf e)) 0 (se_len e - 48) = Some (drop 48 (used e))"
        using e(1,3) by (auto simp: get_bytes_def wf_element_def split: if_splits)
      moreover have "se_len e - 48 = int (length (drop 48 (used e)))" using le e(3) by simp
      ultimately show ?thesis using that [of "drop 48 (se_buf e)" "se_len e - 48"] h m' False
        by (simp add: Message_get_first_data_ptr_def Message_get_first_data_len_def sizeof_message_header_def)
    qed
    obtain r2 s2 where r2: "sock_send mbox (drop 48 (used e)) s1 = (r2, s2)" by force
    note fr2 = sock_send_frame [OF r2]
    have sane1: "sane_send s1" using sane_frame [OF fr(1)] sane by simp
    note fr2 = sock_send_frame [OF r2 sane1]
    have both: "sock_frame mbox (take (48 + nat r2) (contents m)) s s2"
    proof -
      have "sock_frame mbox (take 48 (used e) @ take (nat r2) (drop 48 (used e))) s s2"
        using sock_frame_trans [OF fr(1) fr2(1)] True l48 by simp
      moreover have "take (48 + nat r2) (contents m) = take 48 (used e) @ take (nat r2) (drop 48 (used e))"
        using fr2(2) le e(3) m' by (simp add: contents_Cons take_add)
      ultimately show ?thesis by (simp only:)
    qed
    show ?thesis
    proof (cases "r2 = len")
      case False
      have "send_message mbox m s = Some (int (48 + nat r2), s2)"
        using hb r True m' p r2 False by (auto simp: send_message_def Let_def sizeof_message_header_def)
      then show ?thesis using both fr2(2) le e(3) m'
        by (intro exI [of _ s2] exI [of _ "48 + nat r2"]) (auto simp: contents_Cons)
    next
      case eq: True
      have sane2: "sane_send s2" using sane_frame [OF fr2(1)] sane1 by simp
      obtain s' k where k: "send_elements mbox es (se_len e) s2 = Some (se_len e + int k, s')"
        "sock_frame mbox (take k (contents es)) s2 s'" "k \<le> length (contents es)"
        using send_elements_sends [OF e(2) sane2, of mbox "se_len e"] by blast
      have len: "48 + nat r2 = length (used e)" using eq p(4) le e(3) by simp
      have n2: "(if r2 > 0 then 48 + r2 else 48) = se_len e" using eq p(4) le e(3) by auto
      have "send_message mbox m s = Some (int (length (used e) + k), s')"
        using hb r True m' p(1,2,3) r2 eq k(1) n2 le e(3) p(4)
        by (cases "se_len e = 48") (simp_all add: send_message_def Let_def sizeof_message_header_def)
      moreover have "sock_frame mbox (take (length (used e) + k) (contents m)) s s'"
        using sock_frame_trans [OF both k(2)] len m' by (simp add: contents_Cons)
      ultimately show ?thesis using k(3) m'
        by (intro exI [of _ s'] exI [of _ "length (used e) + k"]) (simp add: contents_Cons)
    qed
  qed
qed

lemma locate_spec:
  assumes "\<forall>e \<in> set m. wf_element e" and "0 \<le> len" and "len < int (length (contents m))"
  shows "\<exists>k c. locate i len m = (i + k, c) \<and> k < length m \<and> 0 \<le> c \<and> c \<le> se_len (m ! k) \<and>
    drop (nat len) (contents m) = element_bytes c (drop k m)"
  using assms
proof (induction m arbitrary: i len)
  case (Cons e es)
  have e: "wf_element e" "length (used e) = nat (se_len e)" "0 \<le> se_len e"
    using Cons.prems length_used by (auto simp: wf_element_def)
  show ?case
  proof (cases "len < se_len e")
    case True
    then show ?thesis using Cons.prems(2) by (auto simp: element_bytes_def intro!: exI [of _ 0])
  next
    case False
    with Cons.IH [of "len - se_len e" "Suc i"] Cons.prems e obtain k c where k:
      "locate (Suc i) (len - se_len e) es = (Suc i + k, c)" "k < length es" "0 \<le> c" "c \<le> se_len (es ! k)"
      "drop (nat (len - se_len e)) (contents es) = element_bytes c (drop k es)" by (auto simp: contents_Cons)
    have "drop (nat len) (contents (e # es)) = drop (nat (len - se_len e)) (contents es)"
      using False e by (simp add: contents_Cons nat_diff_distrib)
    then show ?thesis using False k by (intro exI [of _ "Suc k"] exI [of _ c]) simp
  qed
qed (simp add: contents_def)

lemma total_contents: "\<forall>e \<in> set m. wf_element e \<Longrightarrow> total_to_send m = int (length (contents m))"
  by (induction m) (auto simp: total_to_send_def contents_def length_used wf_element_def)

lemma those_map_Some: "\<forall>x \<in> set xs. f x = Some (g x) \<Longrightarrow> those (map f xs) = Some (map g xs)"
  by (induction xs) simp_all

lemma Message_copy_ok:
  assumes "queued_mess m"
  shows "\<exists>m'. Message_copy_message m = Some m' \<and> queued_mess m' \<and> contents m' = contents m \<and> length m' = length m"
proof -
  let ?g = "\<lambda>e. \<lparr>se_buf = used e @ drop (length (used e)) fresh_body, se_len = se_len e\<rparr>"
  have f: "length fresh_body = 1436" by (simp add: fresh_body_def mess_size_defs)
  have step: "(do { bs \<leftarrow> get_bytes (se_buf e) 0 (se_len e); b \<leftarrow> put_bytes fresh_body 0 bs;
      Some \<lparr>se_buf = b, se_len = se_len e\<rparr> }) = Some (?g e) \<and> wf_element (?g e) \<and> used (?g e) = used e"
    if "wf_element e" for e
    using that get_all [OF that] length_used [OF that] f by (auto simp: put_bytes_def wf_element_def used_def)
  have "Message_copy_message m = Some (map ?g m)"
    unfolding Message_copy_message_def using assms step by (intro those_map_Some) (auto simp: queued_mess_def)
  moreover have "queued_mess (map ?g m)" using assms step by (auto simp: queued_mess_def)
  moreover have "contents (map ?g m) = contents m"
    using assms step by (auto simp: contents_def queued_mess_def intro!: arg_cong [where f = concat])
  ultimately show ?thesis by auto
qed

text \<open>Putting a message behind the others.\<close>

lemma enqueue_served:
  "served ses [] s (upd_session ses (\<lambda>x. x\<lparr>ss_mess := f x\<rparr>) s)"
  "served ses [] s (upd_session ses (\<lambda>x. x\<lparr>ss_write := g x\<rparr>) s)"
  by (auto simp: served_def same_chains_def upd_session_simps quiet_mess)

lemma pending_append: "ms \<noteq> [] \<Longrightarrow> pending_bytes (ms @ [m]) w = pending_bytes ms w @ contents m"
  by (cases ms) simp_all

lemma loc_append: "ms \<noteq> [] \<Longrightarrow> loc_ok (ms @ [m]) w = loc_ok ms w"
  by (cases ms) (simp_all add: loc_ok_def)

lemma queue_rest:
  assumes ok: "client_ok s ses" and idle: "mess_of s ses = []" and q: "queued_mess link"
    and n: "n < length (contents link)" and fr: "sock_frame (mbox_at s ses) (take n (contents link)) s s2"
    and s3: "s3 = upd_dmn (E_queue f1 f2 f3 f4) (upd_session ses (\<lambda>x. x\<lparr>ss_write := Message_calculate_current_location link (int n) (ss_write x)\<rparr>)
      (upd_session ses (\<lambda>x. x\<lparr>ss_mess := ss_mess x @ [link]\<rparr>) s2))"
  shows "served ses (take n (contents link)) s s3" and "client_ok s3 ses" and
    "stream s3 ses = stream s ses @ contents link" and "mess_of s3 ses = [link]"
proof -
  let ?w = "Message_calculate_current_location link (int n) (ss_write (Sessions s2 ses))"
  show sv: "served ses (take n (contents link)) s s3"
    unfolding s3 using served_trans [OF served_frame [OF fr] served_trans [OF enqueue_served(1) enqueue_served(2)]]
    by (intro served_timer) simp
  have same: "Sessions s2 = Sessions s" using fr by (simp add: sock_frame_fields(1))
  have m3: "mess_of s3 ses = [link]" using idle same by (simp add: s3 mess_of_def)
  have w3: "ss_write (Sessions s3 ses) = ?w" by (simp add: s3)
  obtain k c where k: "locate 0 (int n) link = (k, c)" "k < length link" "0 \<le> c" "c \<le> se_len (link ! k)"
    "drop n (contents link) = element_bytes c (drop k link)"
    using locate_spec [of link "int n" 0] q n by (auto simp: queued_mess_def)
  show "mess_of s3 ses = [link]" by (rule m3)
  show "client_ok s3 ses"
  proof (rule served_client_ok [OF sv ok])
    show "\<forall>m \<in> set (mess_of s3 ses). queued_mess m" using q by (simp add: m3)
    show "loc_ok (mess_of s3 ses) (ss_write (Sessions s3 ses))"
      unfolding m3 w3 using k by (simp add: loc_ok_def Message_calculate_current_location_def)
  qed
  have "rest_of link ?w = drop n (contents link)"
    using k by (simp add: rest_of_def Message_calculate_current_location_def)
  then have "stream s3 ses = sock_out s (mbox_at s ses) @ contents link"
    using sv by (simp add: stream_def m3 w3 served_def mbox_at_def same_chains_def)
  then show "stream s3 ses = stream s ses @ contents link" using idle by (simp add: stream_def)
qed

lemma queue_behind:
  assumes ok: "client_ok s ses" and busy: "mess_of s ses \<noteq> []" and q: "queued_mess link"
    and s3: "s3 = upd_session ses (\<lambda>x. x\<lparr>ss_mess := ss_mess x @ [link]\<rparr>) s"
  shows "served ses [] s s3" and "client_ok s3 ses" and "stream s3 ses = stream s ses @ contents link"
    and "mess_of s3 ses = mess_of s ses @ [link]"
proof -
  show sv: "served ses [] s s3" unfolding s3 by (rule enqueue_served(1))
  have m3: "mess_of s3 ses = mess_of s ses @ [link]" and w3: "ss_write (Sessions s3 ses) = ss_write (Sessions s ses)"
    by (simp_all add: s3 mess_of_def)
  show "mess_of s3 ses = mess_of s ses @ [link]" by (rule m3)
  show "client_ok s3 ses"
    by (rule served_client_ok [OF sv ok]) (use ok q busy in \<open>auto simp: m3 w3 client_ok_def loc_append\<close>)
  show "stream s3 ses = stream s ses @ contents link"
    using sv busy by (simp add: stream_def m3 w3 pending_append served_def mbox_at_def same_chains_def)
qed

lemma Sess_write_serves:
  assumes ok: "client_ok s ses" and m: "wf_mess m" and room: "length (mess_of s ses) < MAX_SESSION_MESSAGES"
  shows "\<exists>n' s' bs. Sess_write ses m n s = Some (n', s') \<and> served ses bs s s' \<and> client_ok s' ses \<and>
    stream s' ses = stream s ses @ contents m \<and> length (mess_of s' ses) \<le> Suc (length (mess_of s ses))"
proof -
  have op: "Is_op_session (ss_status (Sessions s ses))" using ok by (simp add: client_ok_def)
  obtain s1 bs where s1: "(if ss_mess (Sessions s ses) \<noteq> [] then Sess_badger (ss_mbox (Sessions s ses)) s else Some s) = Some s1"
    "served ses bs s s1" "client_ok s1 ses" "stream s1 ses = stream s ses" "length (mess_of s1 ses) \<le> length (mess_of s ses)"
  proof (cases "ss_mess (Sessions s ses) = []")
    case True
    then show ?thesis using that [of s "[]"] ok served_refl [of ses s] by simp
  next
    case False
    then show ?thesis using that Sess_badger_serves [OF ok] by (auto simp: mbox_at_def)
  qed
  obtain link where link: "(if n \<noteq> 0 then Message_copy_message m else Some m) = Some link" "queued_mess link"
    "contents link = contents m"
    using m Message_copy_ok [of m] that [of m] by (cases "n = 0") (auto simp: wf_mess_def)
  have total: "total_to_send m = int (length (contents m))" using m by (simp add: wf_mess_def queued_mess_def total_contents)
  let ?n = "if n \<noteq> 0 then n + 1 else 1"
  show ?thesis
  proof (cases "mess_of s1 ses = []")
    case False
    let ?s3 = "upd_session ses (\<lambda>x. x\<lparr>ss_mess := ss_mess x @ [link]\<rparr>) s1"
    note qb = queue_behind [OF s1(3) False link(2) refl]
    have pos: "0 < total_to_send m" unfolding total
      using m length_used [of "hd m"] by (cases m) (auto simp: wf_mess_def queued_mess_def contents_Cons)
    have "Sess_write ses m n s = Some (?n, ?s3)"
      using op room s1(1) link(1) False pos
      by (simp only: Sess_write_def mess_of_def not_le [symmetric] if_False simp_thms bind.simps Let_def prod.case)
        (simp add: Let_def)
    then show ?thesis using served_trans [OF s1(2) qb(1)] qb(2-4) s1(4,5) link(3) by auto
  next
    case idle: True
    obtain s2 k where k: "send_message (mbox_at s1 ses) m s1 = Some (int k, s2)"
      "sock_frame (mbox_at s1 ses) (take k (contents m)) s1 s2" "k \<le> length (contents m)"
      using send_message_sends [OF m, of s1 "mbox_at s1 ses"] s1(3) by (auto simp: client_ok_def)
    show ?thesis
    proof (cases "k < length (contents m)")
      case True
      let ?s3 = "upd_session ses (\<lambda>x. x\<lparr>ss_mess := ss_mess x @ [link]\<rparr>) s2"
      let ?s4 = "upd_dmn (E_queue Sess_badger_f (ss_mbox (Sessions ?s3 ses)) 0 Badger_timeout)
        (upd_session ses (\<lambda>x. x\<lparr>ss_write := Message_calculate_current_location link (int k) (ss_write x)\<rparr>) ?s3)"
      note qr = queue_rest [OF s1(3) idle link(2) _ _ refl, unfolded link(3), OF True k(2),
        of Sess_badger_f "ss_mbox (Sessions ?s3 ses)" 0 Badger_timeout]
      have "Sess_write ses m n s = Some (?n, ?s4)"
        using op room s1(1) link(1) idle k(1) True total
        by (simp only: Sess_write_def mess_of_def mbox_at_def not_le [symmetric] if_False if_True simp_thms bind.simps Let_def prod.case)
          (simp add: Let_def)
      then show ?thesis using served_trans [OF s1(2) qr(1)] qr(2-4) s1(4,5) by auto
    next
      case False
      have "Sess_write ses m n s = Some (n, s2)"
        using op room s1(1) idle k(1) False total
        by (simp only: Sess_write_def mess_of_def mbox_at_def not_le [symmetric] if_False if_True simp_thms bind.simps Let_def prod.case)
          (simp add: Let_def)
      moreover have sv: "served ses (contents m) s1 s2" using served_frame [OF k(2)] k(3) False by simp
      moreover have same: "Sessions s2 = Sessions s1" using k(2) by (simp add: sock_frame_fields(1))
      moreover have "client_ok s2 ses"
        by (rule served_client_ok [OF sv s1(3)]) (use s1(3) same in \<open>auto simp: client_ok_def mess_of_def\<close>)
      moreover have "stream s2 ses = stream s1 ses @ contents m"
        using sv same idle by (simp add: stream_def served_def mbox_at_def mess_of_def)
      ultimately show ?thesis using served_trans [OF s1(2) sv] s1(4,5) by (auto simp: mess_of_def)
    qed
  qed
qed

section \<open>What the client receives\<close>

text \<open>
  The daemon writes messages to the client and serves its socket again when the timer of
  \<open>Sess_badger\<close> runs out, in any order.
\<close>

datatype client_op = Write message int | Badger

fun client_run :: "nat \<Rightarrow> client_op list \<Rightarrow> 'a sess_layer_scheme \<Rightarrow> 'a sess_layer_scheme option" where
  "client_run ses [] s = Some s"
| "client_run ses (Write m n # ops) s = do { (_, s1) \<leftarrow> Sess_write ses m n s; client_run ses ops s1 }"
| "client_run ses (Badger # ops) s = do { s1 \<leftarrow> Sess_badger (mbox_at s ses) s; client_run ses ops s1 }"

fun written :: "client_op list \<Rightarrow> message list" where
  "written [] = []"
| "written (Write m n # ops) = m # written ops"
| "written (Badger # ops) = written ops"

lemma client_run_serves:
  assumes "client_ok s ses" and "\<forall>m \<in> set (written ops). wf_mess m"
    and "length (mess_of s ses) + length (written ops) \<le> MAX_SESSION_MESSAGES"
  shows "\<exists>s' bs. client_run ses ops s = Some s' \<and> served ses bs s s' \<and> client_ok s' ses \<and>
    stream s' ses = stream s ses @ concat (map contents (written ops))"
  using assms
proof (induction ses ops s rule: client_run.induct)
  case (1 ses s)
  then show ?case using served_refl [of ses s] by auto
next
  case (2 ses m n ops s)
  from Sess_write_serves [of s ses m n] 2(2-4) obtain n' s1 bs where
    w: "Sess_write ses m n s = Some (n', s1)" "served ses bs s s1" "client_ok s1 ses"
      "stream s1 ses = stream s ses @ contents m" "length (mess_of s1 ses) \<le> Suc (length (mess_of s ses))" by auto
  from 2(1) [OF w(1) refl w(3)] 2(3,4) w(5) obtain s' bs' where
    IH: "client_run ses ops s1 = Some s'" "served ses bs' s1 s'" "client_ok s' ses"
      "stream s' ses = stream s1 ses @ concat (map contents (written ops))" by auto
  then show ?case using w served_trans [OF w(2) IH(2)] by auto
next
  case (3 ses ops s)
  from Sess_badger_serves [OF 3(2)] obtain s1 bs where
    w: "Sess_badger (mbox_at s ses) s = Some s1" "served ses bs s s1" "client_ok s1 ses" "stream s1 ses = stream s ses"
      "length (mess_of s1 ses) \<le> length (mess_of s ses)" by auto
  from 3(1) [OF w(1) w(3)] 3(3,4) w(5) obtain s' bs' where
    IH: "client_run ses ops s1 = Some s'" "served ses bs' s1 s'" "client_ok s' ses"
      "stream s' ses = stream s1 ses @ concat (map contents (written ops))" by auto
  then show ?case using w served_trans [OF w(2) IH(2)] by auto
qed

text \<open>
  C25: However little each \<open>send\<close> takes, and however \<open>Sess_write\<close> and \<open>Sess_badger\<close> alternate, the
  bytes the socket of a client took are a prefix of the messages written to it, in the order they
  were written: together with what is still queued they are exactly those messages.  The sockets
  of other clients are not written to.
\<close>

theorem Client_gets_messages:
  assumes "client_ok s ses" and "mess_of s ses = []" and "\<forall>m \<in> set (written ops). wf_mess m"
    and "length (written ops) \<le> MAX_SESSION_MESSAGES"
  shows "\<exists>s'. client_run ses ops s = Some s' \<and>
    sock_out s' (mbox_at s ses) @ pending_bytes (mess_of s' ses) (ss_write (Sessions s' ses)) =
      sock_out s (mbox_at s ses) @ concat (map contents (written ops)) \<and>
    (\<forall>b. b \<noteq> mbox_at s ses \<longrightarrow> sock_out s' b = sock_out s b)"
proof -
  from client_run_serves [OF assms(1,3)] assms(2,4) obtain s' bs where
    r: "client_run ses ops s = Some s'" "served ses bs s s'"
      "stream s' ses = stream s ses @ concat (map contents (written ops))" by auto
  moreover have "mbox_at s' ses = mbox_at s ses" using r(2) by (simp add: served_def same_chains_def mbox_at_def)
  ultimately show ?thesis using assms(2) by (auto simp: stream_def served_def)
qed

text \<open>A client whose socket takes seven bytes at most per call.\<close>

definition served_layer :: sess_layer where
  "served_layer = sess_table.extend (upd_session 3 (\<lambda>x. x\<lparr>ss_mbox := 12, ss_status := OP_SESSION, ss_mess := [],
       ss_write := Message_reset_current_location\<rparr>)
     (empty_table\<lparr>Sessions_hash_head := (Sessions_hash_head empty_table)(12 := Some 3)\<rparr>))
   \<lparr>dmn = sample, Sess_My = sample_proc 0, Num_sessions = 1, Session_threshold = LOW_PRIORITY,
    Protocol_threshold = LOW_PRIORITY, Accept_inet_mbox = [5], Accept_unix_mbox = 6,
    send_ret = (\<lambda>_ _ l. int (min l 7)), send_calls = 0, sock_out = (\<lambda>_. []),
    recv_ret = (\<lambda>_ _ _. Would_block), recv_calls = 0, sock_in = (\<lambda>_. []), closed = []\<rparr>"

definition short_message :: "byte \<Rightarrow> message" where
  "short_message b = [\<lparr>se_buf = replicate 1436 b, se_len = 60\<rparr>]"

lemma served_layer_index: "Sess_get_session_index 12 served_layer = Some (Some 3)"
proof -
  have "hash_of 12 = 12" by code_simp
  then show ?thesis
    by (simp add: Sess_get_session_index_def served_layer_def sess_table.defs walk_hash.simps upd_session_def)
qed

lemma served_layer_ok: "client_ok served_layer 3"
proof -
  have "mbox_at served_layer 3 = 12" "ss_mess (Sessions served_layer 3) = []"
    by (simp_all add: served_layer_def mbox_at_def sess_table.defs upd_session_def)
  moreover have "sane_send served_layer" by (simp add: sane_send_def served_layer_def sess_table.defs upd_session_def)
  moreover have "Is_op_session (ss_status (Sessions served_layer 3))"
    by (simp add: served_layer_def sess_table.defs upd_session_def Is_op_session_def OP_SESSION_def)
  ultimately show ?thesis
    by (simp add: client_ok_def served_layer_index mess_of_def loc_ok_def MAX_SESSIONS_def MAX_FD_EVENTS_def)
      (simp add: served_layer_def sess_table.defs upd_session_def Message_reset_current_location_def)
qed

theorem Client_gets_messages_witness:
  "\<exists>s'. client_run 3 [Write (short_message 1) 0, Badger, Write (short_message 2) 0] served_layer = Some s' \<and>
    sock_out s' 12 @ pending_bytes (mess_of s' 3) (ss_write (Sessions s' 3)) = replicate 60 1 @ replicate 60 2"
proof -
  have "wf_mess (short_message 1)" "wf_mess (short_message 2)" by code_simp+
  moreover have "contents (short_message b) = replicate 60 b" for b
    by (simp add: contents_def short_message_def used_def)
  moreover have "mbox_at served_layer 3 = 12" "mess_of served_layer 3 = []" "sock_out served_layer 12 = []"
    by (simp_all add: served_layer_def mess_of_def mbox_at_def sess_table.defs upd_session_def)
  ultimately show ?thesis
    using Client_gets_messages [OF served_layer_ok, of "[Write (short_message 1) 0, Badger, Write (short_message 2) 0]"]
    by (auto simp: MAX_SESSION_MESSAGES_def)
qed

end
