(* ===== verification/Group_data.thy ===== *)
theory Group_data
  imports Session_io
begin

text \<open>
  The data of \<open>daemon/groups.c\<close>: groups with their daemons, members and local mailboxes, the
  skiplists that index them, the state of the state exchange, and the names of private groups.
  A skiplist is the list of its entries in order; \<open>stdskl_put\<close> overwrites an entry with an equal
  key.  A name is the raw array of \<open>MAX_GROUP_NAME\<close> bytes.
\<close>

section \<open>Skiplists\<close>

text \<open>\<open>c x\<close> compares the entry \<open>x\<close> with the key that is looked for.\<close>

fun skl_find :: "('b \<Rightarrow> int) \<Rightarrow> 'b list \<Rightarrow> 'b option" where
  "skl_find c [] = None"
| "skl_find c (x # xs) = (if c x < 0 then skl_find c xs else if c x = 0 then Some x else None)"

fun skl_put :: "('b \<Rightarrow> int) \<Rightarrow> 'b \<Rightarrow> 'b list \<Rightarrow> 'b list" where
  "skl_put c v [] = [v]"
| "skl_put c v (x # xs) = (if c x < 0 then x # skl_put c v xs else if c x = 0 then v # xs else v # x # xs)"

fun skl_erase :: "('b \<Rightarrow> int) \<Rightarrow> 'b list \<Rightarrow> 'b list" where
  "skl_erase c [] = []"
| "skl_erase c (x # xs) = (if c x < 0 then x # skl_erase c xs else if c x = 0 then xs else x # xs)"

definition in_order :: "('k \<Rightarrow> 'k \<Rightarrow> int) \<Rightarrow> ('b \<Rightarrow> 'k) \<Rightarrow> 'b list \<Rightarrow> bool" where
  "in_order cmp key xs \<longleftrightarrow> sorted_wrt (\<lambda>x y. cmp (key x) (key y) < 0) xs"

lemma in_order_simps [simp]:
  "in_order cmp key []"
  "in_order cmp key (x # xs) \<longleftrightarrow> (\<forall>y \<in> set xs. cmp (key x) (key y) < 0) \<and> in_order cmp key xs"
  by (simp_all add: in_order_def)

text \<open>What the users of an index rely on, for any comparison that is a linear order.\<close>

locale ordered_index =
  fixes cmp :: "'k \<Rightarrow> 'k \<Rightarrow> int" and key :: "'b \<Rightarrow> 'k"
  assumes cmp_eq: "cmp a b = 0 \<longleftrightarrow> a = b"
    and cmp_sym: "cmp a b < 0 \<longleftrightarrow> cmp b a > 0"
    and cmp_trans: "cmp a b < 0 \<Longrightarrow> cmp b c < 0 \<Longrightarrow> cmp a c < 0"
begin

lemma less_not_eq: "cmp a b < 0 \<Longrightarrow> a \<noteq> b"
  using cmp_eq by force

lemma distinct_keys: "in_order cmp key xs \<Longrightarrow> distinct (map key xs)"
  by (induction xs) (auto dest: less_not_eq)

lemma find_iff: "in_order cmp key xs \<Longrightarrow> skl_find (\<lambda>x. cmp (key x) k) xs = Some x \<longleftrightarrow> x \<in> set xs \<and> key x = k"
proof (induction xs)
  case (Cons y ys)
  have "\<forall>z \<in> set ys. key z \<noteq> k" if "\<not> cmp (key y) k < 0"
    using Cons.prems that by auto
  then show ?case using Cons less_not_eq [of "key y" k] cmp_eq by (auto split: if_splits)
qed simp

lemma find_None: "in_order cmp key xs \<Longrightarrow> skl_find (\<lambda>x. cmp (key x) k) xs = None \<longleftrightarrow> (\<forall>x \<in> set xs. key x \<noteq> k)"
  using find_iff [of xs k] by (cases "skl_find (\<lambda>x. cmp (key x) k) xs") auto

lemma put_set: "in_order cmp key xs \<Longrightarrow> set (skl_put (\<lambda>x. cmp (key x) (key v)) v xs) = insert v {x \<in> set xs. key x \<noteq> key v}"
proof (induction xs)
  case (Cons y ys)
  have "\<forall>z \<in> set ys. key z \<noteq> key v" if "\<not> cmp (key y) (key v) < 0"
    using Cons.prems that by auto
  then show ?case using Cons less_not_eq [of "key y" "key v"] cmp_eq by auto
qed simp

lemma put_in_order: "in_order cmp key xs \<Longrightarrow> in_order cmp key (skl_put (\<lambda>x. cmp (key x) (key v)) v xs)"
proof (induction xs)
  case (Cons y ys)
  have less: "cmp (key v) (key y) < 0" if "\<not> cmp (key y) (key v) < 0" "cmp (key y) (key v) \<noteq> 0"
    using that cmp_sym by force
  show ?case using Cons less cmp_trans [of "key v" "key y"] put_set [of ys v] cmp_eq [of "key y" "key v"]
    by (auto simp: put_set)
qed simp

lemma erase_set: "in_order cmp key xs \<Longrightarrow> set (skl_erase (\<lambda>x. cmp (key x) k) xs) = {x \<in> set xs. key x \<noteq> k}"
proof (induction xs)
  case (Cons y ys)
  have "\<forall>z \<in> set ys. key z \<noteq> k" if "\<not> cmp (key y) k < 0"
    using Cons.prems that by auto
  then show ?case using Cons less_not_eq [of "key y" k] cmp_eq by auto
qed simp

lemma erase_in_order: "in_order cmp key xs \<Longrightarrow> in_order cmp key (skl_erase (\<lambda>x. cmp (key x) k) xs)"
  by (induction xs) (auto simp: erase_set)

lemma put_absent:
  "in_order cmp key xs \<Longrightarrow> \<forall>x \<in> set xs. key x \<noteq> key v \<Longrightarrow> mset (skl_put (\<lambda>x. cmp (key x) (key v)) v xs) = add_mset v (mset xs)"
  by (induction xs) (auto simp: cmp_eq)

lemma put_present:
  "in_order cmp key xs \<Longrightarrow> y \<in> set xs \<Longrightarrow> key y = key v \<Longrightarrow>
   mset (skl_put (\<lambda>x. cmp (key x) (key v)) v xs) = add_mset v (mset xs - {#y#})"
proof (induction xs)
  case (Cons z zs)
  show ?case
  proof (cases "cmp (key z) (key v) < 0")
    case True
    then have "z \<noteq> y" "y \<in> set zs" using Cons.prems less_not_eq by auto
    then show ?thesis using Cons True by (auto simp: add_mset_commute)
  next
    case False
    then have "y \<notin> set zs" using Cons.prems by auto
    then show ?thesis using Cons.prems False cmp_eq by auto
  qed
qed simp

lemma erase_present:
  "in_order cmp key xs \<Longrightarrow> y \<in> set xs \<Longrightarrow> key y = k \<Longrightarrow> mset (skl_erase (\<lambda>x. cmp (key x) k) xs) = mset xs - {#y#}"
proof (induction xs)
  case (Cons z zs)
  show ?case
  proof (cases "cmp (key z) k < 0")
    case True
    then have "z \<noteq> y" "y \<in> set zs" using Cons.prems less_not_eq by auto
    then show ?thesis using Cons True by auto
  next
    case False
    then have "y \<notin> set zs" using Cons.prems by auto
    then show ?thesis using Cons.prems False cmp_eq by auto
  qed
qed simp

end

section \<open>Data\<close>

datatype gstate = GOP | GTRANS | GGATHER | GGT

record group_id =
  gid_memb :: membership_id
  gid_index :: int

record daemon_members =
  dm_proc :: int32u
  dm_memb :: membership_id
  dm_members :: "byte list list"

record group =
  g_name :: "byte list"
  g_gid :: group_id
  g_changed :: bool
  g_num_members :: int
  g_daemons :: "daemon_members list"
  g_mboxes :: "int list"

text \<open>The GROUPS messages of one synced set, the last one received first.\<close>

record groups_link =
  gl_rep :: int32u
  gl_complete :: bool
  gl_messages :: "message list"

record server = sess_layer +
  Gstate :: gstate
  G_Trans_memb :: configuration
  G_Trans_memb_id :: membership_id
  G_Reg_memb :: configuration
  G_Reg_memb_id :: membership_id
  Groups_bufs :: "byte list list"
  Groups_bufs_fresh :: bool
  Num_mess_gathered :: int
  Num_daemons_gathered :: int32u
  Gathered_complete :: bool
  Gathered :: "groups_link list"
  GroupsList :: "group list"
  MySyncedSet :: "int32u list"
  Num_groups :: int

definition unknown_memb_id :: membership_id where
  "unknown_memb_id = \<lparr>mid_proc_id = - 1, mid_time = - 1\<rparr>"

definition Is_unknown_memb_id :: "membership_id \<Rightarrow> bool" where "Is_unknown_memb_id m \<longleftrightarrow> mid_proc_id m = - 1"
definition Is_partitioned_daemon :: "daemon_members \<Rightarrow> bool" where
  "Is_partitioned_daemon d \<longleftrightarrow> Is_unknown_memb_id (dm_memb d)"

text \<open>A change of the number of groups is also a change of the global status.\<close>

definition gstate_code :: "gstate \<Rightarrow> int" where
  "gstate_code g = (case g of GOP \<Rightarrow> 1 | GTRANS \<Rightarrow> 2 | GGATHER \<Rightarrow> 3 | GGT \<Rightarrow> 4)"

definition shift_gstate :: "gstate \<Rightarrow> server \<Rightarrow> server" where
  "shift_gstate g s = (upd_dmn (upd_status (\<lambda>st. st\<lparr>st_gstate := gstate_code g\<rparr>)) s)\<lparr>Gstate := g\<rparr>"

definition count_groups :: "int \<Rightarrow> server \<Rightarrow> server" where
  "count_groups k s = (upd_dmn (upd_status (\<lambda>st. st\<lparr>st_num_groups := Num_groups s + k\<rparr>)) s)\<lparr>Num_groups := Num_groups s + k\<rparr>"

definition My_id :: "'a sess_layer_scheme \<Rightarrow> int32u" where "My_id s = p_id (Sess_My s)"

section \<open>The indexes\<close>

definition conf_pos :: "'a conf_state_scheme \<Rightarrow> int32u \<Rightarrow> int" where
  "conf_pos c pid = (case Conf_proc_by_id c pid of None \<Rightarrow> - 1 | Some (i, _) \<Rightarrow> int i)"

text \<open>
  Comparing daemons asserts that both are in the configuration; which pairs a skiplist compares
  depends on its random levels, so an index with a foreign daemon counts as a failed assertion.
\<close>

definition daemons_known :: "'a conf_state_scheme \<Rightarrow> int32u \<Rightarrow> daemon_members list \<Rightarrow> bool" where
  "daemons_known c pid ds \<longleftrightarrow> ds = [] \<or> (conf_pos c pid > - 1 \<and> list_all (\<lambda>d. conf_pos c (dm_proc d) > - 1) ds)"

definition by_conf :: "'a conf_state_scheme \<Rightarrow> int32u \<Rightarrow> daemon_members \<Rightarrow> int" where
  "by_conf c pid d = conf_pos c (dm_proc d) - conf_pos c pid"

definition by_name :: "byte list \<Rightarrow> byte list \<Rightarrow> int" where "by_name nm x = strcmp (cstr x) (cstr nm)"

definition G_get_group :: "byte list \<Rightarrow> server \<Rightarrow> group option" where
  "G_get_group nm s = skl_find (\<lambda>g. by_name nm (g_name g)) (GroupsList s)"

definition G_get_daemon :: "'a conf_state_scheme \<Rightarrow> group \<Rightarrow> int32u \<Rightarrow> daemon_members option option" where
  "G_get_daemon c g pid = (if daemons_known c pid (g_daemons g)
     then Some (skl_find (by_conf c pid) (g_daemons g)) else None)"

definition G_get_member :: "daemon_members \<Rightarrow> byte list \<Rightarrow> byte list option" where
  "G_get_member d nm = skl_find (by_name nm) (dm_members d)"

text \<open>A store through a \<open>group *\<close> or a \<open>daemon_members *\<close>: the entry with that key.\<close>

definition put_group :: "group \<Rightarrow> server \<Rightarrow> server" where
  "put_group g s = s\<lparr>GroupsList := skl_put (\<lambda>h. by_name (g_name g) (g_name h)) g (GroupsList s)\<rparr>"

definition erase_group :: "byte list \<Rightarrow> server \<Rightarrow> server" where
  "erase_group nm s = s\<lparr>GroupsList := skl_erase (\<lambda>h. by_name nm (g_name h)) (GroupsList s)\<rparr>"

definition put_daemon :: "'a conf_state_scheme \<Rightarrow> daemon_members \<Rightarrow> group \<Rightarrow> group option" where
  "put_daemon c d g = (if daemons_known c (dm_proc d) (g_daemons g)
     then Some (g\<lparr>g_daemons := skl_put (by_conf c (dm_proc d)) d (g_daemons g)\<rparr>) else None)"

definition G_get_num_local :: "byte list \<Rightarrow> server \<Rightarrow> nat" where
  "G_get_num_local nm s = (case G_get_group nm s of None \<Rightarrow> 0 | Some g \<Rightarrow> length (g_mboxes g))"

lemma strcmp_pos: "strcmp a b > 0 \<longleftrightarrow> b < a"
  using strcmp_neg [of a b] strcmp_zero [of a b] by force

interpretation member_index: ordered_index strcmp cstr
  by unfold_locales (auto simp: strcmp_zero strcmp_neg strcmp_pos)

interpretation group_index: ordered_index strcmp "\<lambda>g. cstr (g_name g)"
  by unfold_locales (auto simp: strcmp_zero strcmp_neg strcmp_pos)

interpretation daemon_index: ordered_index "\<lambda>i j :: int. i - j" "\<lambda>d. conf_pos c (dm_proc d)" for c :: "'a conf_state_scheme"
  by unfold_locales auto

section \<open>Removing\<close>

definition G_remove_daemon :: "'a conf_state_scheme \<Rightarrow> daemon_members \<Rightarrow> group \<Rightarrow> group option" where
  "G_remove_daemon c d g = do {
     found \<leftarrow> G_get_daemon c g (dm_proc d);
     exit_if (found = None);
     Some (g\<lparr>g_daemons := skl_erase (by_conf c (dm_proc d)) (g_daemons g),
             g_num_members := g_num_members g - int (length (dm_members d))\<rparr>) }"

definition G_remove_group :: "group \<Rightarrow> server \<Rightarrow> server option" where
  "G_remove_group g s = do {
     exit_if (g_daemons g \<noteq> [] \<or> g_mboxes g \<noteq> []);
     exit_if (G_get_group (g_name g) s = None);
     Some (count_groups (- 1) (erase_group (g_name g) s)) }"

text \<open>The last mailbox takes the place of the one removed.\<close>

definition G_remove_mailbox :: "int \<Rightarrow> group \<Rightarrow> group option" where
  "G_remove_mailbox m g = (case find_index (\<lambda>x. x = m) (g_mboxes g) of None \<Rightarrow> None
     | Some i \<Rightarrow> Some (g\<lparr>g_mboxes := butlast ((g_mboxes g)[i := last (g_mboxes g)])\<rparr>))"

definition G_update_daemon_memb_ids :: "group \<Rightarrow> group" where
  "G_update_daemon_memb_ids g = g\<lparr>g_daemons := map (\<lambda>d. if Is_partitioned_daemon d then d
     else d\<lparr>dm_memb := gid_memb (g_gid g)\<rparr>) (g_daemons g)\<rparr>"

section \<open>Private names\<close>

definition legal_char :: "byte \<Rightarrow> bool" where "legal_char b \<longleftrightarrow> 35 < sint b \<and> sint b \<le> 126"

text \<open>
  \<open>#private#daemon\<close> is taken apart; \<open>Some None\<close> is \<open>ILLEGAL_GROUP\<close>.  A name without a
  terminating null is read past its end.
\<close>

definition G_private_to_names :: "byte list \<Rightarrow> (byte list \<times> byte list) option option" where
  "G_private_to_names nm = (if 0 \<notin> set (tl nm) then None else
     let str = cstr (tl nm); priv = takeWhile (\<lambda>b. b \<noteq> 35) str; rest = dropWhile (\<lambda>b. b \<noteq> 35) str in
     if rest = [] \<or> hd nm \<noteq> 35 \<or> length priv > MAX_PRIVATE_NAME \<or> length priv < 1
       \<or> length (tl rest) \<ge> MAX_PROC_NAME \<or> length (tl rest) < 1
     then Some None
     else if list_all legal_char priv \<and> list_all legal_char (tl rest)
     then Some (Some (priv, tl rest)) else Some None)"

definition string_of :: "byte list \<Rightarrow> string" where "string_of bs = map (\<lambda>b. char_of (unat b)) bs"

definition proc_named :: "byte list \<Rightarrow> server \<Rightarrow> proc option" where
  "proc_named nm s = map_option snd (Conf_proc_by_name (dmn s) (string_of (cstr nm)))"

section \<open>Membership ids in order\<close>

text \<open>The differences are those of two int32.\<close>

definition G_compare_memb_ids :: "membership_id \<Rightarrow> membership_id \<Rightarrow> int" where
  "G_compare_memb_ids a b =
     (if Is_unknown_memb_id a then (if Is_unknown_memb_id b then 0 else 1)
      else if Is_unknown_memb_id b then - 1
      else if mid_proc_id a \<noteq> mid_proc_id b then to_int32 (sint (mid_proc_id a) - sint (mid_proc_id b))
      else if mid_time a \<noteq> mid_time b then to_int32 (mid_time a - mid_time b)
      else 0)"

definition G_compare_daemon_vs_set :: "'a conf_state_scheme \<Rightarrow> daemon_members \<Rightarrow> daemon_members \<Rightarrow> int" where
  "G_compare_daemon_vs_set c a b = (let r = G_compare_memb_ids (dm_memb a) (dm_memb b) in
     if r = 0 then conf_pos c (dm_proc a) - conf_pos c (dm_proc b) else r)"

end
