(* ===== verification/Group_notify.thy ===== *)
theory Group_notify
  imports Group_data
begin

text \<open>
  The messages \<open>daemon/groups.c\<close> sends to the local members of a group: regular memberships,
  caused by one member or by the network with their virtual synchrony sets, transitional
  memberships, and the notice of a member's own leave.
\<close>

section \<open>Layout\<close>

definition enc_memb_id :: "membership_id \<Rightarrow> byte list" where
  "enc_memb_id m = bytes32 (mid_proc_id m) @ bytes32 (word_of_int (mid_time m))"

definition enc_group_id :: "group_id \<Rightarrow> byte list" where
  "enc_group_id g = enc_memb_id (gid_memb g) @ bytes32 (word_of_int (gid_index g))"

definition sizeof_group_id :: int where "sizeof_group_id = 12"

definition int32_bytes :: "nat \<Rightarrow> byte list" where "int32_bytes n = bytes32 (word_of_nat n)"

text \<open>A vs set: its size and its members.\<close>

definition enc_vs_set :: "byte list list \<Rightarrow> byte list" where
  "enc_vs_set ms = int32_bytes (length ms) @ concat ms"

section \<open>Writing to local members\<close>

text \<open>\<open>Sessions[ ses ]\<close> with the index of a mailbox nobody has is outside the array.\<close>

definition notify_one :: "message \<Rightarrow> int \<Rightarrow> int \<times> 'a sess_layer_scheme \<Rightarrow> (int \<times> 'a sess_layer_scheme) option" where
  "notify_one m mbox st = do {
     r \<leftarrow> Sess_get_session_index mbox (snd st);
     ses \<leftarrow> r;
     if Is_memb_session (ss_status (Sessions (snd st) ses)) then Sess_write ses m (fst st) (snd st) else Some st }"

definition notify :: "message \<Rightarrow> int list \<Rightarrow> 'a sess_layer_scheme \<Rightarrow> 'a sess_layer_scheme option" where
  "notify m mboxes s = map_option snd (forM mboxes (notify_one m) (0, s))"

section \<open>Building the messages\<close>

definition group_members :: "group \<Rightarrow> byte list list" where
  "group_members g = concat (map dm_members (g_daemons g))"

text \<open>The header \<open>G_build_memb_buf\<close> fills and the buffer it starts.\<close>

definition memb_header :: "group \<Rightarrow> int32u \<Rightarrow> message_header" where
  "memb_header g caused = \<lparr>mh_type = Set_endian REG_MEMB_MESS OR caused, mh_private_group_name = g_name g,
     mh_num_groups = g_num_members g, mh_hint = Set_endian 0, mh_data_len = sizeof_group_id\<rparr>"

definition G_build_memb_buf :: "group \<Rightarrow> int32u \<Rightarrow> message_header \<times> byte list" where
  "G_build_memb_buf g caused = (memb_header g caused, concat (group_members g) @ enc_group_id (g_gid g))"

definition memb_message :: "message_header \<Rightarrow> byte list \<Rightarrow> message option" where
  "memb_message h buf = do {
     m \<leftarrow> set_message_header h Message_new_message;
     Message_Buffer_to_Message_Fragments m buf }"

definition G_send_lightweight_memb :: "group \<Rightarrow> int32u \<Rightarrow> byte list \<Rightarrow> 'a sess_layer_scheme \<Rightarrow> 'a sess_layer_scheme option" where
  "G_send_lightweight_memb g caused name s = (let (h, buf) = G_build_memb_buf g caused in do {
     m \<leftarrow> memb_message (h\<lparr>mh_data_len := mh_data_len h + (12 + int MAX_GROUP_NAME)\<rparr>)
           (buf @ int32_bytes 1 @ int32_bytes 0 @ enc_vs_set [name]);
     notify m (g_mboxes g) s })"

definition G_send_self_leave :: "group \<Rightarrow> nat \<Rightarrow> 'a sess_layer_scheme \<Rightarrow> 'a sess_layer_scheme option" where
  "G_send_self_leave g ses s = do {
     m \<leftarrow> memb_message \<lparr>mh_type = Set_endian CAUSED_BY_LEAVE, mh_private_group_name = g_name g, mh_num_groups = 0,
            mh_hint = Set_endian 0, mh_data_len = 0\<rparr> [];
     if Is_memb_session (ss_status (Sessions s ses)) then map_option snd (Sess_write ses m 0 s) else Some s }"

subsection \<open>Virtual synchrony sets\<close>

text \<open>
  The daemons sorted by membership id and position are joined into sets of equal membership ids,
  a partitioned daemon alone.  The sets are kept in order; the offset is that of the set with the
  members of this daemon, 0 while it has not come.
\<close>

record vs_state =
  vs_memb :: membership_id
  vs_sets :: "byte list list list"
  vs_offset :: int
  vs_found :: bool

definition vs_region :: "byte list list list \<Rightarrow> byte list" where
  "vs_region sets = concat (map enc_vs_set sets)"

text \<open>The members of one daemon without the joiner, who is left out once.\<close>

fun without_joiner :: "byte list option \<Rightarrow> bool \<Rightarrow> byte list list \<Rightarrow> byte list list \<times> bool" where
  "without_joiner j found [] = ([], found)"
| "without_joiner j found (x # xs) =
     (case j of Some nm \<Rightarrow> if \<not> found \<and> by_name nm x = 0 then without_joiner j True xs
        else (let (ys, f) = without_joiner j found xs in (x # ys, f))
      | None \<Rightarrow> (let (ys, f) = without_joiner j found xs in (x # ys, f)))"

definition vs_step :: "int32u \<Rightarrow> byte list option \<Rightarrow> daemon_members \<Rightarrow> vs_state \<Rightarrow> vs_state option" where
  "vs_step my joiner d v = do {
     let v1 = (if Is_unknown_memb_id (vs_memb v) \<or> \<not> Memb_is_equal (vs_memb v) (dm_memb d)
               then v\<lparr>vs_memb := dm_memb d, vs_sets := vs_sets v @ [[]]\<rparr> else v);
     exit_if (dm_proc d = my \<and> vs_offset v1 \<noteq> 0);
     let v2 = (if dm_proc d = my then v1\<lparr>vs_offset := int (length (vs_region (butlast (vs_sets v1))))\<rparr> else v1);
     let (ms, f) = without_joiner joiner (vs_found v2) (dm_members d);
     Some (v2\<lparr>vs_sets := butlast (vs_sets v2) @ [last (vs_sets v2) @ ms], vs_found := f\<rparr>) }"

definition vs_order :: "'a conf_state_scheme \<Rightarrow> daemon_members list \<Rightarrow> daemon_members list" where
  "vs_order c ds = fold (\<lambda>d. skl_put (\<lambda>e. G_compare_daemon_vs_set c e d) d) ds []"

definition vs_start :: vs_state where
  "vs_start = \<lparr>vs_memb = unknown_memb_id, vs_sets = [], vs_offset = 0, vs_found = False\<rparr>"

text \<open>
  Daemons with equal membership ids are compared by their position, which asserts that they are
  in the configuration.
\<close>

definition G_build_memb_vs_buf ::
  "group \<Rightarrow> int32u \<Rightarrow> byte list option \<Rightarrow> 'a sess_layer_scheme \<Rightarrow> (message_header \<times> byte list) option" where
  "G_build_memb_vs_buf g caused joiner s = (let (h, buf) = G_build_memb_buf g caused in do {
     exit_if (length (g_daemons g) > 1 \<and> \<not> list_all (\<lambda>d. conf_pos (dmn s) (dm_proc d) > - 1) (g_daemons g));
     v \<leftarrow> forM (vs_order (dmn s) (g_daemons g)) (vs_step (My_id s) joiner) vs_start;
     exit_if (joiner \<noteq> None \<and> \<not> vs_found v);
     let sets = vs_sets v @ (case joiner of None \<Rightarrow> [] | Some nm \<Rightarrow> [[nm]]);
     Some (h\<lparr>mh_data_len := mh_data_len h + 8 + int (length (vs_region sets))\<rparr>,
           buf @ int32_bytes (length sets) @ bytes32 (word_of_int (vs_offset v)) @ vs_region sets) })"

text \<open>
  The joiner gets the same message with the offset of the last set, which is his; the others are
  notified before.
\<close>

definition G_send_heavyweight_join ::
  "group \<Rightarrow> byte list option \<Rightarrow> int \<Rightarrow> 'a sess_layer_scheme \<Rightarrow> 'a sess_layer_scheme option" where
  "G_send_heavyweight_join g joiner new_mbox s = do {
     (h, buf) \<leftarrow> G_build_memb_vs_buf g CAUSED_BY_NETWORK joiner s;
     m \<leftarrow> memb_message h buf;
     s1 \<leftarrow> notify m (filter (\<lambda>b. \<not> (joiner \<noteq> None \<and> new_mbox = b)) (g_mboxes g)) s;
     if new_mbox \<noteq> - 1
     then do {
       let off = mh_data_len h - (4 + int MAX_GROUP_NAME) - (sizeof_group_id + 8);
       buf' \<leftarrow> put_bytes buf (mh_num_groups h * int MAX_GROUP_NAME + sizeof_group_id + 4) (bytes32 (word_of_int off));
       jm \<leftarrow> memb_message h buf';
       notify jm [new_mbox] s1 }
     else Some s1 }"

definition G_send_heavyweight_memb :: "group \<Rightarrow> 'a sess_layer_scheme \<Rightarrow> 'a sess_layer_scheme option" where
  "G_send_heavyweight_memb g = G_send_heavyweight_join g None (- 1)"

definition G_build_trans_mess :: "group \<Rightarrow> message option" where
  "G_build_trans_mess g = do {
     m \<leftarrow> Message_create_message TRANSITION_MESS (g_name g);
     h \<leftarrow> Message_get_message_header m;
     m1 \<leftarrow> set_message_header (h\<lparr>mh_data_len := sizeof_group_id\<rparr>) m;
     b \<leftarrow> put_bytes (se_buf (hd m1)) sizeof_message_header (enc_group_id (g_gid g));
     Some [\<lparr>se_buf = b, se_len = sizeof_message_header + sizeof_group_id\<rparr>] }"

definition G_send_trans_memb :: "group \<Rightarrow> 'a sess_layer_scheme \<Rightarrow> 'a sess_layer_scheme option" where
  "G_send_trans_memb g s = do { m \<leftarrow> G_build_trans_mess g; notify m (g_mboxes g) s }"

section \<open>What the layer above keeps\<close>

text \<open>Nothing a client is sent touches the state of the groups.\<close>

definition keeps_more :: "'a sess_layer_scheme \<Rightarrow> 'a sess_layer_scheme \<Rightarrow> bool" where
  "keeps_more s s' \<longleftrightarrow> sess_layer.more s' = sess_layer.more s"

lemma keeps_more_refl [simp]: "keeps_more s s"
  by (simp add: keeps_more_def)

lemma keeps_more_trans: "keeps_more s t \<Longrightarrow> keeps_more t u \<Longrightarrow> keeps_more s u"
  by (simp add: keeps_more_def)

end
