(* ===== verification/Group_ops.thy ===== *)
theory Group_ops
  imports Group_notify
begin

text \<open>
  Joins, leaves and disconnects in \<open>daemon/groups.c\<close>, and the choice of the local sessions a
  message to groups is for.  A \<open>group *\<close> is the group itself, stored back with \<open>put_group\<close>.
\<close>

section \<open>Joining\<close>

definition fresh_gid :: "server \<Rightarrow> group_id" where
  "fresh_gid s = \<lparr>gid_memb = (if Gstate s = GOP then G_Reg_memb_id s else G_Trans_memb_id s), gid_index = 0\<rparr>"

definition join_group :: "byte list \<Rightarrow> server \<Rightarrow> (group \<times> server) option" where
  "join_group nm s = (case G_get_group nm s of Some g \<Rightarrow> Some (g, s)
     | None \<Rightarrow> do {
         name \<leftarrow> strcpy MAX_GROUP_NAME nm;
         let g = \<lparr>g_name = name, g_gid = fresh_gid s, g_changed = False, g_num_members = 0, g_daemons = [], g_mboxes = []\<rparr>;
         Some (g, count_groups 1 (put_group g s)) })"

definition join_daemon :: "int32u \<Rightarrow> group \<Rightarrow> server \<Rightarrow> (daemon_members \<times> group) option" where
  "join_daemon pid g s = do {
     r \<leftarrow> G_get_daemon (dmn s) g pid;
     case r of Some d \<Rightarrow> Some (d, g)
     | None \<Rightarrow> do {
         let d = \<lparr>dm_proc = pid,
           dm_memb = (if Gstate s = GOP \<or> Conf_id_in_conf (dmn s) (G_Trans_memb s) pid \<noteq> None
                      then gid_memb (g_gid g) else unknown_memb_id), dm_members = []\<rparr>;
         g' \<leftarrow> put_daemon (dmn s) d g;
         Some (d, g') } }"

definition bump :: "group \<Rightarrow> group" where
  "bump g = g\<lparr>g_gid := (g_gid g)\<lparr>gid_index := gid_index (g_gid g) + 1\<rparr>\<rparr>"

definition add_member :: "byte list \<Rightarrow> daemon_members \<Rightarrow> group \<Rightarrow> server \<Rightarrow> group option" where
  "add_member name d g s = do {
     g1 \<leftarrow> put_daemon (dmn s) (d\<lparr>dm_members := skl_put (by_name name) name (dm_members d)\<rparr>) g;
     Some (bump (g1\<lparr>g_num_members := g_num_members g1 + 1\<rparr>)) }"

text \<open>The mailbox of a local joiner; \<open>-1\<close> is a member of another daemon.\<close>

definition add_mailbox :: "byte list \<Rightarrow> int32u \<Rightarrow> group \<Rightarrow> server \<Rightarrow> (int \<times> group) option" where
  "add_mailbox priv pid g s = (if pid = My_id s
     then do {
       r \<leftarrow> Sess_get_session priv s;
       ses \<leftarrow> r;
       let mb = ss_mbox (Sessions s ses);
       Some (mb, g\<lparr>g_mboxes := g_mboxes g @ [mb]\<rparr>) }
     else Some (- 1, g))"

definition notify_join :: "group \<Rightarrow> byte list \<Rightarrow> int \<Rightarrow> server \<Rightarrow> server option" where
  "notify_join g name new_mbox s =
     (if g_mboxes g = [] then Some s
      else if g_changed g
      then do { s1 \<leftarrow> G_send_heavyweight_join g (Some name) new_mbox s; G_send_trans_memb g s1 }
      else G_send_lightweight_memb g CAUSED_BY_JOIN name s)"

text \<open>
  The result of \<open>G_private_to_names\<close> is not looked at: after \<open>ILLEGAL_GROUP\<close> the names would be
  uninitialised.
\<close>

definition G_handle_join :: "byte list \<Rightarrow> byte list \<Rightarrow> server \<Rightarrow> server option" where
  "G_handle_join private_group_name group_name s = (if Gstate s = GGATHER \<or> Gstate s = GGT then None else do {
     names \<leftarrow> G_private_to_names private_group_name;
     (priv, procn) \<leftarrow> names;
     case proc_named procn s of None \<Rightarrow> Some s
     | Some p \<Rightarrow> do {
         (g, s1) \<leftarrow> join_group group_name s;
         (d, g1) \<leftarrow> join_daemon (p_id p) g s1;
         if G_get_member d private_group_name \<noteq> None then Some (put_group g1 s1)
         else do {
           name \<leftarrow> strcpy MAX_GROUP_NAME private_group_name;
           g2 \<leftarrow> add_member name d g1 s1;
           (new_mbox, g3) \<leftarrow> add_mailbox priv (dm_proc d) g2 s1;
           let g4 = (if Is_partitioned_daemon d \<and> \<not> g_changed g3 then g3\<lparr>g_changed := True\<rparr> else g3);
           notify_join g4 name new_mbox (put_group g4 s1) } } })"

section \<open>Leaving and disconnecting\<close>

text \<open>
  The member is taken out of the group, an empty daemon and an empty group are discarded; what is
  left of the group is returned.
\<close>

definition drop_member :: "byte list \<Rightarrow> daemon_members \<Rightarrow> group \<Rightarrow> server \<Rightarrow> (group option \<times> server) option" where
  "drop_member mbr d g s = do {
     let d1 = d\<lparr>dm_members := skl_erase (by_name mbr) (dm_members d)\<rparr>;
     g1 \<leftarrow> put_daemon (dmn s) d1 g;
     let g2 = g1\<lparr>g_num_members := g_num_members g1 - 1\<rparr>;
     g3 \<leftarrow> (if dm_members d1 = [] then G_remove_daemon (dmn s) d1 g2 else Some g2);
     if g_num_members g3 = 0 then map_option (Pair None) (G_remove_group g3 s)
     else Some (Some (bump g3), put_group (bump g3) s) }"

definition notify_departure :: "int32u \<Rightarrow> byte list \<Rightarrow> group option \<times> server \<Rightarrow> server option" where
  "notify_departure caused name st = (case st of (None, s) \<Rightarrow> Some s
     | (Some g, s) \<Rightarrow>
         if g_mboxes g = [] then Some s
         else if g_changed g
         then do { s1 \<leftarrow> G_send_heavyweight_memb g s; G_send_trans_memb g s1 }
         else G_send_lightweight_memb g caused name s)"

definition self_leave :: "byte list \<Rightarrow> group \<Rightarrow> server \<Rightarrow> (group \<times> server) option" where
  "self_leave priv g s = do {
     r \<leftarrow> Sess_get_session priv s;
     ses \<leftarrow> r;
     s1 \<leftarrow> G_send_self_leave g ses s;
     g1 \<leftarrow> G_remove_mailbox (ss_mbox (Sessions s1 ses)) g;
     Some (g1, s1) }"

definition G_handle_leave :: "byte list \<Rightarrow> byte list \<Rightarrow> server \<Rightarrow> server option" where
  "G_handle_leave private_group_name group_name s = (if Gstate s = GGATHER \<or> Gstate s = GGT then None else do {
     names \<leftarrow> G_private_to_names private_group_name;
     (priv, procn) \<leftarrow> names;
     case proc_named procn s of None \<Rightarrow> Some s
     | Some p \<Rightarrow> (case G_get_group group_name s of None \<Rightarrow> Some s
       | Some g \<Rightarrow> do {
           r \<leftarrow> G_get_daemon (dmn s) g (p_id p);
           case r of None \<Rightarrow> Some s
           | Some d \<Rightarrow> (case G_get_member d private_group_name of None \<Rightarrow> Some s
             | Some mbr \<Rightarrow> do {
                 (g1, s1) \<leftarrow> (if p_id p = My_id s then self_leave priv g s else Some (g, s));
                 st \<leftarrow> drop_member mbr d g1 s1;
                 notify_departure CAUSED_BY_LEAVE mbr st }) }) })"

text \<open>The walk over \<open>GroupsList\<close> takes the next group before the current one can be erased.\<close>

definition kill_step :: "byte list \<Rightarrow> int32u \<Rightarrow> nat option \<Rightarrow> byte list \<Rightarrow> server \<Rightarrow> server option" where
  "kill_step private_group_name pid ses nm s = (case G_get_group nm s of None \<Rightarrow> None
     | Some g \<Rightarrow> do {
         r \<leftarrow> G_get_daemon (dmn s) g pid;
         case r of None \<Rightarrow> Some s
         | Some d \<Rightarrow> (case G_get_member d private_group_name of None \<Rightarrow> Some s
           | Some mbr \<Rightarrow> do {
               g1 \<leftarrow> (if pid = My_id s then do { i \<leftarrow> ses; G_remove_mailbox (ss_mbox (Sessions s i)) g } else Some g);
               st \<leftarrow> drop_member mbr d g1 s;
               notify_departure CAUSED_BY_DISCONNECT mbr st }) })"

definition G_handle_kill :: "byte list \<Rightarrow> server \<Rightarrow> server option" where
  "G_handle_kill private_group_name s = (if Gstate s = GGATHER \<or> Gstate s = GGT then None else do {
     names \<leftarrow> G_private_to_names private_group_name;
     (priv, procn) \<leftarrow> names;
     case proc_named procn s of None \<Rightarrow> Some s
     | Some p \<Rightarrow> do {
         ses \<leftarrow> (if p_id p = My_id s then Sess_get_session priv s else Some None);
         forM (map g_name (GroupsList s)) (kill_step private_group_name (p_id p) ses) s } })"

section \<open>The sessions a message is for\<close>

text \<open>The mailboxes of one target; \<open>Some None\<close> passes it over.\<close>

definition target_mboxes :: "byte list \<Rightarrow> server \<Rightarrow> int list option option" where
  "target_mboxes nm s =
     (if hd nm \<noteq> 35
      then (case G_get_group nm s of None \<Rightarrow> Some None
            | Some g \<Rightarrow> if Gstate s = GOP \<or> Gstate s = GTRANS then Some (Some (g_mboxes g)) else None)
      else do {
        names \<leftarrow> G_private_to_names nm;
        case names of None \<Rightarrow> Some None
        | Some (priv, procn) \<Rightarrow>
            if procn \<noteq> chars (p_name (Sess_My s)) then Some None
            else map_option (map_option (\<lambda>ses. [ss_mbox (Sessions s ses)])) (Sess_get_session priv s) })"

definition collect_mboxes :: "server \<Rightarrow> byte list \<Rightarrow> int list \<Rightarrow> int list option" where
  "collect_mboxes s nm acc = do {
     r \<leftarrow> target_mboxes nm s;
     Some (case r of None \<Rightarrow> acc
       | Some lit \<Rightarrow> if acc \<noteq> [] then acc @ filter (\<lambda>m. m \<notin> set acc) lit else lit) }"

definition G_analize_groups :: "byte list list \<Rightarrow> server \<Rightarrow> nat option list option" where
  "G_analize_groups groups s = do {
     mboxes \<leftarrow> (case groups of [nm] \<Rightarrow> map_option (\<lambda>r. case r of None \<Rightarrow> [] | Some lit \<Rightarrow> lit) (target_mboxes nm s)
       | _ \<Rightarrow> forM groups (collect_mboxes s) []);
     those (map (\<lambda>m. Sess_get_session_index m s) mboxes) }"

end
