(* ===== verification/Group_readers.thy ===== *)
theory Group_readers
  imports Group_notify Client_stream
begin

text \<open>
  Notifying local members: every mailbox of a group gets the message once, behind what was written
  to it before, and nothing else of the daemon changes.
\<close>

section \<open>Mailboxes that can be written to\<close>

text \<open>
  The session of a mailbox exists; it is killed already, or it is served and has room for \<open>k\<close>
  more messages before \<open>Sess_write\<close> would kill it.
\<close>

definition reader_ok :: "nat \<Rightarrow> 'a sess_layer_scheme \<Rightarrow> int \<Rightarrow> bool" where
  "reader_ok k s b \<longleftrightarrow> (\<exists>ses. Sess_get_session_index b s = Some (Some ses) \<and> mbox_at s ses = b \<and>
     (Is_op_session (ss_status (Sessions s ses)) \<longrightarrow>
        client_ok s ses \<and> length (mess_of s ses) + k \<le> MAX_SESSION_MESSAGES))"

definition reads :: "'a sess_layer_scheme \<Rightarrow> int \<Rightarrow> bool" where
  "reads s b \<longleftrightarrow> (case Sess_get_session_index b s of Some (Some ses) \<Rightarrow>
       Is_op_session (ss_status (Sessions s ses)) \<and> Is_memb_session (ss_status (Sessions s ses)) | _ \<Rightarrow> False)"

definition stream_at :: "'a sess_layer_scheme \<Rightarrow> int \<Rightarrow> byte list" where
  "stream_at s b = (case Sess_get_session_index b s of Some (Some ses) \<Rightarrow> stream s ses | _ \<Rightarrow> [])"

lemma reader_ok_mono: "reader_ok k s b \<Longrightarrow> j \<le> k \<Longrightarrow> reader_ok j s b"
  by (fastforce simp: reader_ok_def)

text \<open>\<open>wrote bs m k s s'\<close>: the mailboxes \<open>bs\<close> were sent \<open>m\<close>.\<close>

definition wrote :: "int list \<Rightarrow> message \<Rightarrow> 'a sess_layer_scheme \<Rightarrow> 'a sess_layer_scheme \<Rightarrow> bool" where
  "wrote bs m s s' \<longleftrightarrow> quiet s s' \<and> same_chains (Sessions s) (Sessions s') \<and> Sessions_hash_head s' = Sessions_hash_head s \<and>
     (\<forall>b j. reader_ok (if b \<in> set bs then Suc j else j) s b \<longrightarrow> reader_ok j s' b \<and>
        stream_at s' b = stream_at s b @ (if b \<in> set bs \<and> reads s b then contents m else []))"

lemma reads_cong:
  assumes "quiet s s'" and "same_chains (Sessions s) (Sessions s')" and "Sessions_hash_head s' = Sessions_hash_head s"
  shows "reads s' b = reads s b"
  using assms get_session_index_cong [of s s' b] by (auto simp: reads_def quiet_def split: option.splits)

lemma wrote_reads: "wrote bs m s s' \<Longrightarrow> reads s' b = reads s b"
  by (rule reads_cong) (simp_all add: wrote_def)

lemma wrote_Nil: "wrote [] m s s"
  by (simp add: wrote_def same_chains_def)

text \<open>The same for any choice \<open>R\<close> of the mailboxes that take part.\<close>

definition wrote_to ::
  "(int \<Rightarrow> bool) \<Rightarrow> int list \<Rightarrow> message \<Rightarrow> 'a sess_layer_scheme \<Rightarrow> 'a sess_layer_scheme \<Rightarrow> bool" where
  "wrote_to R bs m s s' \<longleftrightarrow> quiet s s' \<and> same_chains (Sessions s) (Sessions s') \<and> Sessions_hash_head s' = Sessions_hash_head s \<and>
     (\<forall>b j. reader_ok (if b \<in> set bs then Suc j else j) s b \<longrightarrow> reader_ok j s' b \<and>
        stream_at s' b = stream_at s b @ (if b \<in> set bs \<and> R b then contents m else []))"

lemma wrote_to_reads: "wrote bs m s s' \<longleftrightarrow> wrote_to (reads s) bs m s s'"
  by (simp add: wrote_def wrote_to_def)

lemma wrote_to_none: "(\<And>b. b \<in> set bs \<Longrightarrow> \<not> R b) \<Longrightarrow> wrote_to R bs m s s"
  using reader_ok_mono [of _ s] by (auto simp: wrote_to_def same_chains_def split: if_splits)

lemma wrote_to_append:
  assumes w: "wrote_to R bs m s t" "wrote_to R cs m t u" and d: "set bs \<inter> set cs = {}"
  shows "wrote_to R (bs @ cs) m s u"
proof -
  have "reader_ok j u b \<and> stream_at u b = stream_at s b @ (if b \<in> set (bs @ cs) \<and> R b then contents m else [])"
    if r: "reader_ok (if b \<in> set (bs @ cs) then Suc j else j) s b" for b j
  proof -
    have "reader_ok (if b \<in> set bs then Suc (if b \<in> set cs then Suc j else j) else (if b \<in> set cs then Suc j else j)) s b"
      using r d by (cases "b \<in> set bs"; cases "b \<in> set cs") auto
    then have t: "reader_ok (if b \<in> set cs then Suc j else j) t b"
      "stream_at t b = stream_at s b @ (if b \<in> set bs \<and> R b then contents m else [])"
      using w(1) unfolding wrote_to_def by blast+
    then have "reader_ok j u b" "stream_at u b = stream_at t b @ (if b \<in> set cs \<and> R b then contents m else [])"
      using w(2) unfolding wrote_to_def by blast+
    then show ?thesis using t(2) d by auto
  qed
  moreover have "quiet s u" using w quiet_trans [of s t u] by (simp add: wrote_to_def)
  ultimately show ?thesis using w by (simp add: wrote_to_def same_chains_def)
qed

lemma wrote_append:
  assumes "wrote bs m s t" "wrote cs m t u" and "set bs \<inter> set cs = {}"
  shows "wrote (bs @ cs) m s u"
proof -
  have "reads t = reads s" using wrote_reads [OF assms(1)] by blast
  then show ?thesis using assms wrote_to_append [of "reads s" bs m s t cs u] by (simp add: wrote_to_reads)
qed

lemma other_reader:
  assumes sv: "served ses bs s s'" and b: "b \<noteq> mbox_at s ses" and r: "reader_ok j s b"
  shows "reader_ok j s' b \<and> stream_at s' b = stream_at s b"
proof -
  from r obtain i where i: "Sess_get_session_index b s = Some (Some i)" "mbox_at s i = b"
    "Is_op_session (ss_status (Sessions s i)) \<longrightarrow> client_ok s i \<and> length (mess_of s i) + j \<le> MAX_SESSION_MESSAGES"
    by (auto simp: reader_ok_def)
  have ne: "i \<noteq> ses" using b i(2) by auto
  then have same: "Sessions s' i = Sessions s i" using sv by (simp add: served_def)
  have ix: "Sess_get_session_index c s' = Sess_get_session_index c s" for c
    using sv get_session_index_cong [of s s'] by (simp add: served_def)
  have mb: "mbox_at s' i = b" using same i(2) by (simp add: mbox_at_def)
  have "client_ok s i \<Longrightarrow> client_ok s' i"
    using sv same ix mb i(2) by (simp add: client_ok_def served_def sane_send_def mess_of_def mbox_at_def)
  then have "reader_ok j s' b" using i ix mb same by (auto simp: reader_ok_def mess_of_def)
  moreover have "stream s' i = stream s i"
    using sv same i(2) b mb by (simp add: stream_def served_def mess_of_def mbox_at_def)
  ultimately show ?thesis using ix i(1) by (simp add: stream_at_def)
qed

definition op_at :: "'a sess_layer_scheme \<Rightarrow> int \<Rightarrow> bool" where
  "op_at s b = (case Sess_get_session_index b s of Some (Some ses) \<Rightarrow> Is_op_session (ss_status (Sessions s ses)) | _ \<Rightarrow> False)"

lemma op_at_cong: "quiet s s' \<Longrightarrow> same_chains (Sessions s) (Sessions s') \<Longrightarrow> Sessions_hash_head s' = Sessions_hash_head s \<Longrightarrow>
  op_at s' = op_at s"
  using get_session_index_cong [of s s'] by (auto simp: op_at_def quiet_def fun_eq_iff split: option.splits)

lemma write_one_writes:
  assumes r: "reader_ok (Suc j) s b" and m: "wf_mess m" and ses: "Sess_get_session_index b s = Some (Some ses)"
  shows "\<exists>n' s'. Sess_write ses m n s = Some (n', s') \<and> wrote_to (op_at s) [b] m s s'"
proof (cases "Is_op_session (ss_status (Sessions s ses))")
  case False
  then have "\<not> op_at s b" using ses by (simp add: op_at_def)
  then show ?thesis using False wrote_to_none [of "[b]" "op_at s" m s] by (simp add: Sess_write_def)
next
  case op: True
  have mb: "mbox_at s ses = b" and ok: "client_ok s ses" "length (mess_of s ses) < MAX_SESSION_MESSAGES"
    using r ses op by (auto simp: reader_ok_def)
  from Sess_write_serves [OF ok(1) m ok(2), of n] obtain n' s' out where
    w: "Sess_write ses m n s = Some (n', s')" "served ses out s s'" "client_ok s' ses"
      "stream s' ses = stream s ses @ contents m" "length (mess_of s' ses) \<le> Suc (length (mess_of s ses))" by blast
  have ix: "Sess_get_session_index c s' = Sess_get_session_index c s" for c
    using w(2) get_session_index_cong [of s s'] by (simp add: served_def)
  have mb': "mbox_at s' ses = b" using w(2) mb by (simp add: served_def same_chains_def mbox_at_def)
  have "reader_ok i s' b \<and> stream_at s' b = stream_at s b @ contents m" if "reader_ok (Suc i) s b" for i
  proof -
    have "length (mess_of s ses) + Suc i \<le> MAX_SESSION_MESSAGES" using that ses op by (auto simp: reader_ok_def)
    then show ?thesis using w(3-5) ix ses mb' by (auto simp: reader_ok_def stream_at_def)
  qed
  moreover have "op_at s b" using ses op by (simp add: op_at_def)
  ultimately have "wrote_to (op_at s) [b] m s s'"
    using w(2) other_reader [OF w(2)] mb by (auto simp: wrote_to_def served_def)
  then show ?thesis using w(1) by blast
qed

lemma notify_one_writes:
  assumes r: "reader_ok (Suc j) s b" and m: "wf_mess m"
  shows "\<exists>n' s'. notify_one m b (n, s) = Some (n', s') \<and> wrote [b] m s s'"
proof -
  from r obtain ses where ses: "Sess_get_session_index b s = Some (Some ses)" by (auto simp: reader_ok_def)
  show ?thesis
  proof (cases "reads s b")
    case False
    have "\<exists>n'. notify_one m b (n, s) = Some (n', s)"
      using False ses by (auto simp: notify_one_def reads_def Sess_write_def)
    moreover have "wrote [b] m s s" using False wrote_to_none [of "[b]" "reads s" m s] by (simp add: wrote_to_reads)
    ultimately show ?thesis by blast
  next
    case True
    then have op: "Is_memb_session (ss_status (Sessions s ses))" "op_at s b"
      using ses by (simp_all add: reads_def op_at_def)
    from write_one_writes [OF r m ses, of n] obtain n' s' where
      w: "Sess_write ses m n s = Some (n', s')" "wrote_to (op_at s) [b] m s s'" by blast
    then have "wrote [b] m s s'" using True op(2) by (simp add: wrote_to_reads wrote_to_def cong: conj_cong if_cong)
    moreover have "notify_one m b (n, s) = Some (n', s')" using ses op(1) w(1) by (simp add: notify_one_def)
    ultimately show ?thesis by blast
  qed
qed

lemma notify_writes:
  assumes "distinct bs" and "\<forall>b \<in> set bs. reader_ok 1 s b" and "wf_mess m"
  shows "\<exists>s'. notify m bs s = Some s' \<and> wrote bs m s s'"
proof -
  have "\<exists>n' s'. forM bs (notify_one m) (n, s) = Some (n', s') \<and> wrote bs m s s'" for n
    using assms
  proof (induction bs arbitrary: n s)
    case (Cons b bs)
    from notify_one_writes [of 0 s b m n] Cons.prems obtain n1 s1 where
      one: "notify_one m b (n, s) = Some (n1, s1)" "wrote [b] m s s1" by auto
    have "reader_ok 1 s1 c" if "c \<in> set bs" for c
    proof -
      have "c \<noteq> b" using that Cons.prems(1) by auto
      then show ?thesis using one(2) Cons.prems(2) that unfolding wrote_def by (metis empty_iff insert_iff list.set(1,2))
    qed
    with Cons.IH [of s1 n1] Cons.prems obtain n2 s2 where
      rest: "forM bs (notify_one m) (n1, s1) = Some (n2, s2)" "wrote bs m s1 s2" by auto
    have "wrote ([b] @ bs) m s s2" using wrote_append [OF one(2) rest(2)] Cons.prems(1) by auto
    then show ?case using one(1) rest(1) by auto
  qed (auto simp: wrote_Nil)
  then obtain n' s' where "forM bs (notify_one m) (0, s) = Some (n', s')" "wrote bs m s s'" by blast
  then show ?thesis by (auto simp: notify_def)
qed

section \<open>Messages that fit\<close>

lemma memb_message_ok:
  assumes h: "wf_message_header h" "\<not> has (mh_type h) REJECT_MESS" and fits: "length buf \<le> 143552"
  shows "\<exists>m. memb_message h buf = Some m \<and> wf_mess m \<and> contents m = enc_message_header h @ buf \<and>
    Message_get_message_header m = Some h"
proof -
  have "put_bytes fresh_body 0 (enc_message_header h) \<noteq> None"
    using length_enc_message_header [OF h(1)] by (simp add: put_bytes_def fresh_body_def mess_size_defs)
  then obtain m0 where m0: "set_message_header h Message_new_message = Some m0"
    by (auto simp: set_message_header_def Message_new_message_def)
  from new_message_header [OF h(1) m0] obtain e where e: "m0 = [e]" "length (se_buf e) = 1436"
    "se_len e = 48" "take 48 (se_buf e) = enc_message_header h" by blast
  from Buffer_to_Fragments_contents [OF e(2,3), of buf "[]"] fits obtain m where
    m: "Message_Buffer_to_Message_Fragments m0 buf = Some m" "contents m = enc_message_header h @ buf"
      "m \<noteq> []" "take 48 (se_buf (hd m)) = enc_message_header h" "\<forall>e \<in> set m. wf_element e"
    using e by auto
  then obtain f fs where f: "m = f # fs" "length (se_buf f) = 1436" by (cases m) (auto simp: wf_element_def)
  have hd: "Message_get_message_header m = Some h" using header_of_buf [OF h(1) m(4,3)] f by simp
  have "48 \<le> se_len f"
    using m(1) by (auto simp: Message_Buffer_to_Message_Fragments_def e mess_size_defs Let_def bind_Some_iff f(1))
  then have "wf_mess m" using m(3,5) hd h(2) f(1) by (simp add: wf_mess_def queued_mess_def)
  then show ?thesis using m0 m(1,2) hd by (simp add: memb_message_def)
qed

lemma bits_not_reject:
  "caused \<in> {CAUSED_BY_JOIN, CAUSED_BY_LEAVE, CAUSED_BY_DISCONNECT, CAUSED_BY_NETWORK} \<Longrightarrow>
   \<not> has (Set_endian REG_MEMB_MESS OR caused) REJECT_MESS"
  by (auto simp: has_def Set_endian_def REG_MEMB_MESS_def REJECT_MESS_def CAUSED_BY_JOIN_def CAUSED_BY_LEAVE_def
      CAUSED_BY_DISCONNECT_def CAUSED_BY_NETWORK_def ARCH_ENDIAN_def ENDIAN_TYPE_def)

section \<open>Group names\<close>

text \<open>An array that holds a name the way \<open>strcpy\<close> into a zeroed array leaves it.\<close>

definition canon :: "byte list \<Rightarrow> bool" where
  "canon nm \<longleftrightarrow> length (cstr nm) < MAX_GROUP_NAME \<and> strncpy MAX_GROUP_NAME nm = nm"

lemma cstr_strncpy: "length (cstr nm) < n \<Longrightarrow> cstr (strncpy n nm) = cstr nm"
proof -
  assume l: "length (cstr nm) < n"
  then have "strncpy n nm = cstr nm @ replicate (n - length (cstr nm)) 0" by (simp add: strncpy_def min_def)
  moreover have "\<forall>b \<in> set (cstr nm). b \<noteq> 0" by (auto simp: cstr_def dest: set_takeWhileD)
  ultimately show ?thesis using l
    by (simp add: cstr_def)
qed

lemma length_strncpy: "length (strncpy n nm) = n"
  by (simp add: strncpy_def)

lemma strcpy_canon: "strcpy MAX_GROUP_NAME nm = Some x \<Longrightarrow> canon x \<and> cstr x = cstr nm"
  using cstr_strncpy [of nm MAX_GROUP_NAME]
  by (auto simp: strcpy_def canon_def strncpy_def split: if_splits)

lemma canon_length: "canon nm \<Longrightarrow> length nm = 32"
  using length_strncpy [of MAX_GROUP_NAME nm] by (simp add: canon_def MAX_GROUP_NAME_eq)

lemma canon_inj: "canon a \<Longrightarrow> canon b \<Longrightarrow> cstr a = cstr b \<Longrightarrow> a = b"
  by (metis canon_def strncpy_def)

end
