(* ===== verification/Group_views.thy ===== *)
theory Group_views
  imports Group_ops Group_readers
begin

text \<open>
  The membership of the groups as sets of names, the invariant of the lists that represent it, and
  what joins, leaves and disconnects do to it.
\<close>

section \<open>Views\<close>

definition view :: "server \<Rightarrow> byte list \<Rightarrow> byte list set" where
  "view s k = {cstr m | g m. g \<in> set (GroupsList s) \<and> cstr (g_name g) = k \<and> m \<in> set (group_members g)}"

text \<open>The daemon of a member and the mailbox of a local one, from its name.\<close>

definition mbox_of_priv :: "'a sess_layer_scheme \<Rightarrow> byte list \<Rightarrow> int option" where
  "mbox_of_priv s priv = (case Sess_get_session priv s of Some (Some ses) \<Rightarrow> Some (mbox_at s ses) | _ \<Rightarrow> None)"

definition home :: "server \<Rightarrow> byte list \<Rightarrow> int32u option" where
  "home s m = (case G_private_to_names m of Some (Some (priv, pn)) \<Rightarrow> map_option p_id (proc_named pn s) | _ \<Rightarrow> None)"

definition box :: "server \<Rightarrow> byte list \<Rightarrow> int option" where
  "box s m = (case G_private_to_names m of Some (Some (priv, pn)) \<Rightarrow> mbox_of_priv s priv | _ \<Rightarrow> None)"

section \<open>The invariant\<close>

definition conf_ok :: "'a conf_state_scheme \<Rightarrow> bool" where
  "conf_ok c \<longleftrightarrow> (\<forall>i < num_total_procs (Config c). conf_pos c (p_id (Config_procs c i)) = int i)"

text \<open>
  A descriptor the kernel has given to one session is given to no other before the first has left
  the table.
\<close>

definition dir_ok :: "'a sess_layer_scheme \<Rightarrow> bool" where
  "dir_ok s \<longleftrightarrow> (\<exists>L. sessions_ok s L \<and> inj_on (mbox_at s) (set L))"

definition daemon_ok :: "server \<Rightarrow> daemon_members \<Rightarrow> bool" where
  "daemon_ok s d \<longleftrightarrow> dm_members d \<noteq> [] \<and> in_order strcmp cstr (dm_members d) \<and> conf_pos (dmn s) (dm_proc d) > - 1 \<and>
     (\<forall>m \<in> set (dm_members d). canon m \<and> home s m = Some (dm_proc d))"

definition daemons_in_order :: "server \<Rightarrow> daemon_members list \<Rightarrow> bool" where
  "daemons_in_order s = in_order (\<lambda>i j. i - j) (\<lambda>d. conf_pos (dmn s) (dm_proc d))"

definition locals :: "int32u \<Rightarrow> daemon_members list \<Rightarrow> byte list list" where
  "locals my ds = concat (map dm_members (filter (\<lambda>d. dm_proc d = my) ds))"

definition group_ok :: "server \<Rightarrow> group \<Rightarrow> bool" where
  "group_ok s g \<longleftrightarrow> canon (g_name g) \<and> g_daemons g \<noteq> [] \<and> daemons_in_order s (g_daemons g) \<and>
     (\<forall>d \<in> set (g_daemons g). daemon_ok s d) \<and> g_num_members g = int (length (group_members g)) \<and>
     mset (map Some (g_mboxes g)) = mset (map (box s) (locals (My_id s) (g_daemons g)))"

definition groups_in_order :: "group list \<Rightarrow> bool" where
  "groups_in_order = in_order strcmp (\<lambda>g. cstr (g_name g))"

definition server_ok :: "server \<Rightarrow> bool" where
  "server_ok s \<longleftrightarrow> conf_ok (dmn s) \<and> dir_ok s \<and> groups_in_order (GroupsList s) \<and> (\<forall>g \<in> set (GroupsList s). group_ok s g)"

section \<open>What the clients' side leaves alone\<close>

lemma quiet_server:
  fixes s :: server
  assumes "quiet s s'"
  shows "GroupsList s' = GroupsList s" "Gstate s' = Gstate s" "G_Trans_memb s' = G_Trans_memb s"
    "G_Trans_memb_id s' = G_Trans_memb_id s" "G_Reg_memb s' = G_Reg_memb s" "G_Reg_memb_id s' = G_Reg_memb_id s"
    "MySyncedSet s' = MySyncedSet s" "Gathered s' = Gathered s" "Num_groups s' = Num_groups s"
    "Groups_bufs s' = Groups_bufs s" "Groups_bufs_fresh s' = Groups_bufs_fresh s"
    "Gathered_complete s' = Gathered_complete s" "Num_mess_gathered s' = Num_mess_gathered s"
    "Num_daemons_gathered s' = Num_daemons_gathered s"
proof -
  have "sess_layer.more s' = sess_layer.more s" using assms by (simp add: quiet_def)
  then show "GroupsList s' = GroupsList s" "Gstate s' = Gstate s" "G_Trans_memb s' = G_Trans_memb s"
    "G_Trans_memb_id s' = G_Trans_memb_id s" "G_Reg_memb s' = G_Reg_memb s" "G_Reg_memb_id s' = G_Reg_memb_id s"
    "MySyncedSet s' = MySyncedSet s" "Gathered s' = Gathered s" "Num_groups s' = Num_groups s"
    "Groups_bufs s' = Groups_bufs s" "Groups_bufs_fresh s' = Groups_bufs_fresh s"
    "Gathered_complete s' = Gathered_complete s" "Num_mess_gathered s' = Num_mess_gathered s"
    "Num_daemons_gathered s' = Num_daemons_gathered s"
    by (cases s; cases s'; simp)+
qed

lemma quiet_conf:
  assumes "quiet s s'"
  shows "conf_pos (dmn s') = conf_pos (dmn s)" "Conf_proc_by_name (dmn s') = Conf_proc_by_name (dmn s)"
    "Conf_id_in_conf (dmn s') = Conf_id_in_conf (dmn s)" "conf_ok (dmn s') = conf_ok (dmn s)" "My_id s' = My_id s"
proof -
  have c: "Config (dmn s') = Config (dmn s)" "Config_procs (dmn s') = Config_procs (dmn s)"
    using assms by (simp_all add: quiet_def)
  then show p: "conf_pos (dmn s') = conf_pos (dmn s)"
    by (intro ext) (simp add: conf_pos_def Conf_proc_by_id_def)
  show "Conf_proc_by_name (dmn s') = Conf_proc_by_name (dmn s)" using c by (intro ext) (simp add: Conf_proc_by_name_def)
  show "Conf_id_in_conf (dmn s') = Conf_id_in_conf (dmn s)"
    using c by (intro ext) (simp add: Conf_id_in_conf_def Conf_id_in_seg_def)
  show "conf_ok (dmn s') = conf_ok (dmn s)" using c p by (simp add: conf_ok_def)
  show "My_id s' = My_id s" using assms by (simp add: quiet_def My_id_def)
qed

lemma get_session_dir: "dir_ok s \<Longrightarrow> \<exists>r. Sess_get_session priv s = Some r"
  using Session_lookups_core by (force simp: dir_ok_def)

lemma quiet_dir:
  fixes s :: "'a sess_layer_scheme"
  assumes "quiet s s'"
  shows "Sess_get_session priv s' = Sess_get_session priv s \<or> \<not> dir_ok s" "dir_ok s' = dir_ok s"
    "dir_ok s \<Longrightarrow> mbox_of_priv s' priv = mbox_of_priv s priv"
proof -
  show d: "dir_ok s' = dir_ok s" using quiet_sessions [OF assms] by (simp add: dir_ok_def)
  have g: "Sess_get_session priv s' = Sess_get_session priv s" if "dir_ok s"
  proof -
    from that obtain L F where L: "sorted_ok s L F" by (auto simp: dir_ok_def sessions_ok_def)
    have "sorted_ok s' L F"
    proof -
      have "nexts s' = nexts s" "prevs s' = prevs s"
        using assms by (simp_all add: quiet_def nexts_def prevs_def fun_eq_iff)
      then show ?thesis using L assms quiet_sessions(3) [OF assms] by (simp add: sorted_ok_def quiet_def)
    qed
    then show ?thesis using get_session_spec [OF L] get_session_spec [of s' L F] quiet_sessions(3) [OF assms] by simp
  qed
  then show "Sess_get_session priv s' = Sess_get_session priv s \<or> \<not> dir_ok s" by blast
  show "dir_ok s \<Longrightarrow> mbox_of_priv s' priv = mbox_of_priv s priv"
    using g quiet_sessions(2) [OF assms] by (simp add: mbox_of_priv_def split: option.split)
qed

lemma quiet_home:
  assumes "quiet s s'"
  shows "proc_named pn s' = proc_named pn s" "home s' m = home s m" "dir_ok s \<Longrightarrow> box s' m = box s m"
proof -
  show p: "proc_named pn s' = proc_named pn s" for pn using quiet_conf(2) [OF assms] by (simp add: proc_named_def)
  show "home s' m = home s m" by (simp add: home_def p split: option.splits)
  show "dir_ok s \<Longrightarrow> box s' m = box s m" using quiet_dir(3) [OF assms] by (simp add: box_def split: option.splits)
qed

lemma quiet_group_ok:
  assumes "quiet s s'" and "dir_ok s"
  shows "group_ok s' g = group_ok s g"
proof -
  have "box s' = box s" "home s' = home s" using quiet_home [OF assms(1)] assms(2) by (simp_all add: fun_eq_iff)
  then show ?thesis using quiet_conf [OF assms(1)]
    by (simp add: group_ok_def daemon_ok_def daemons_in_order_def)
qed

lemma quiet_server_ok: "quiet s s' \<Longrightarrow> server_ok s \<Longrightarrow> server_ok s'"
  using quiet_group_ok quiet_server(1) quiet_conf(4) quiet_dir(2) by (fastforce simp: server_ok_def)

lemma quiet_view: "quiet s s' \<Longrightarrow> view s' = view s"
  by (simp add: view_def fun_eq_iff quiet_server)

section \<open>Names\<close>

lemma private_names:
  assumes "G_private_to_names nm = Some (Some (priv, pn))"
  shows "cstr nm = 35 # priv @ 35 # pn" "0 \<notin> set priv" "0 \<notin> set pn" "35 \<notin> set priv"
proof -
  have c0: "0 \<notin> set (cstr xs)" for xs by (auto simp: cstr_def dest: set_takeWhileD)
  let ?str = "cstr (tl nm)"
  from assms have a: "hd nm = 35" "priv = takeWhile (\<lambda>b. b \<noteq> 35) ?str" "pn = tl (dropWhile (\<lambda>b. b \<noteq> 35) ?str)"
    "dropWhile (\<lambda>b. b \<noteq> 35) ?str \<noteq> []" "0 \<in> set (tl nm)"
    by (auto simp: G_private_to_names_def Let_def split: if_splits)
  then have str: "?str = priv @ 35 # pn"
    using takeWhile_dropWhile_id [of "\<lambda>b. b \<noteq> 35" ?str] hd_dropWhile [of "\<lambda>b. b \<noteq> 35" ?str]
    by (metis (full_types) list.collapse)
  moreover have "nm = 35 # tl nm" using a(1,5) by (cases nm) auto
  then obtain q where "nm = 35 # q" by blast
  then have "cstr nm = 35 # ?str" by (simp add: cstr_def)
  ultimately show "cstr nm = 35 # priv @ 35 # pn" by simp
  show "0 \<notin> set priv" "0 \<notin> set pn" using c0 [of "tl nm"] by (auto simp: str)
  show "35 \<notin> set priv" using a(2) by (auto dest: set_takeWhileD)
qed

lemma private_of_cstr:
  assumes "G_private_to_names nm = Some (Some parts)" and "canon m" and "cstr m = cstr nm"
  shows "G_private_to_names m = Some (Some parts)"
proof -
  obtain priv pn where parts: "parts = (priv, pn)" by force
  have c: "cstr m = 35 # priv @ 35 # pn" using private_names [of nm priv pn] assms(1,3) parts by simp
  then obtain r where m: "m = 35 # r" by (cases m) (auto simp: cstr_def split: if_splits)
  then have r: "cstr r = priv @ 35 # pn" using c by (simp add: cstr_def)
  have "0 \<in> set r"
  proof (rule ccontr)
    assume "0 \<notin> set r"
    then have "cstr m = m" unfolding m cstr_def by (auto intro: takeWhile_eq_all_conv [THEN iffD2])
    then show False using assms(2) canon_length [OF assms(2)] by (simp add: canon_def MAX_GROUP_NAME_eq)
  qed
  moreover have "cstr (tl nm) = priv @ 35 # pn" "hd nm = 35"
  proof -
    have "cstr nm = 35 # priv @ 35 # pn" using private_names [of nm priv pn] assms(1) parts by simp
    then obtain q where q: "nm = 35 # q" by (cases nm) (auto simp: cstr_def split: if_splits)
    then show "cstr (tl nm) = priv @ 35 # pn" "hd nm = 35"
      using \<open>cstr nm = 35 # priv @ 35 # pn\<close> by (simp_all add: cstr_def)
  qed
  ultimately show ?thesis using assms(1) r
    by (auto simp: G_private_to_names_def m Let_def split: if_splits)
qed

lemma string_of_inj: "string_of a = string_of b \<Longrightarrow> a = b"
proof -
  have "inj (\<lambda>b :: byte. (char_of (unat b) :: char))"
  proof (rule injI)
    fix x y :: byte assume "(char_of (unat x) :: char) = char_of (unat y)"
    then have "of_char (char_of (unat x) :: char) = (of_char (char_of (unat y) :: char) :: nat)" by simp
    then have "unat x mod 256 = unat y mod 256" by simp
    moreover have "unat b < 256" for b :: byte using unsigned_less [of b] by simp
    ultimately have "unat x = unat y" by simp
    then show "x = y" using unsigned_word_eqI by blast
  qed
  then show "string_of a = string_of b \<Longrightarrow> a = b" by (simp add: string_of_def inj_map_eq_map)
qed

lemma proc_named_inj:
  assumes "conf_ok (dmn s)" and "proc_named a s = Some p" and "proc_named b s = Some q" and "p_id p = p_id q"
    and "0 \<notin> set a" and "0 \<notin> set b"
  shows "a = b"
proof -
  have cs: "cstr a = a" "cstr b = b" using assms(5,6) by (auto simp: cstr_def takeWhile_eq_all_conv)
  let ?n = "num_total_procs (Config (dmn s))" and ?P = "Config_procs (dmn s)"
  have at: "\<exists>i < ?n. p = ?P i \<and> p_name p = string_of x" if "proc_named x s = Some p" "cstr x = x" for x p
    using that by (auto simp: proc_named_def Conf_proc_by_name_def find_Some_iff)
  from at [OF assms(2) cs(1)] at [OF assms(3) cs(2)] obtain i j where
    ij: "i < ?n" "p = ?P i" "p_name p = string_of a" "j < ?n" "q = ?P j" "p_name q = string_of b" by blast
  then have "int i = int j" using assms(1,4) by (metis conf_ok_def)
  then show ?thesis using ij string_of_inj by simp
qed

lemma mbox_inj:
  assumes "dir_ok s" and "mbox_of_priv s a = Some x" and "mbox_of_priv s b = Some x" and "0 \<notin> set a" and "0 \<notin> set b"
  shows "a = b"
proof -
  from assms(1) obtain L where L: "sessions_ok s L" "inj_on (mbox_at s) (set L)" by (auto simp: dir_ok_def)
  have cs: "cstr a = a" "cstr b = b" using assms(4,5) by (auto simp: cstr_def takeWhile_eq_all_conv)
  have look: "\<exists>i \<in> set L. mbox_at s i = x \<and> name_at s i = cstr y" if "mbox_of_priv s y = Some x" for y
    using Session_lookups_core [OF L(1), of 0 y] that by (auto simp: mbox_of_priv_def split: option.splits)
  from look [OF assms(2)] look [OF assms(3)] show ?thesis using L(2) cs by (metis inj_onD)
qed

text \<open>Local members have different mailboxes.\<close>

lemma box_inj:
  assumes ok: "conf_ok (dmn s)" "dir_ok s" and m: "canon a" "canon b" "home s a = Some pid" "home s b = Some pid"
    and b: "box s a = Some x" "box s b = Some x"
  shows "a = b"
proof -
  obtain pa na pb nb where
    p: "G_private_to_names a = Some (Some (pa, na))" "mbox_of_priv s pa = Some x"
       "G_private_to_names b = Some (Some (pb, nb))" "mbox_of_priv s pb = Some x"
    using b by (auto simp: box_def split: option.splits)
  note na = private_names [OF p(1)] and nb = private_names [OF p(3)]
  have "pa = pb" using mbox_inj [OF ok(2) p(2,4)] na(2) nb(2) by simp
  moreover obtain q r where "proc_named na s = Some q" "proc_named nb s = Some r" "p_id q = p_id r"
    using m(3,4) p(1,3) by (auto simp: home_def)
  then have "na = nb" using proc_named_inj [OF ok(1)] na(3) nb(3) by blast
  ultimately show ?thesis using na(1) nb(1) canon_inj [OF m(1,2)] by simp
qed

section \<open>The index of the groups\<close>

lemma get_group_iff:
  "groups_in_order (GroupsList s) \<Longrightarrow>
   G_get_group nm s = Some g \<longleftrightarrow> g \<in> set (GroupsList s) \<and> cstr (g_name g) = cstr nm"
  unfolding G_get_group_def by_name_def groups_in_order_def by (rule group_index.find_iff)

lemma get_group_None:
  "groups_in_order (GroupsList s) \<Longrightarrow>
   G_get_group nm s = None \<longleftrightarrow> (\<forall>g \<in> set (GroupsList s). cstr (g_name g) \<noteq> cstr nm)"
  unfolding G_get_group_def by_name_def groups_in_order_def by (rule group_index.find_None)

lemma put_group_spec:
  assumes "groups_in_order (GroupsList s)"
  shows "groups_in_order (GroupsList (put_group g s))"
    "set (GroupsList (put_group g s)) = insert g {h \<in> set (GroupsList s). cstr (g_name h) \<noteq> cstr (g_name g)}"
  using group_index.put_in_order [of "GroupsList s" g] group_index.put_set [of "GroupsList s" g] assms
  by (simp_all add: put_group_def by_name_def groups_in_order_def)

lemma erase_group_spec:
  assumes "groups_in_order (GroupsList s)"
  shows "groups_in_order (GroupsList (erase_group nm s))"
    "set (GroupsList (erase_group nm s)) = {h \<in> set (GroupsList s). cstr (g_name h) \<noteq> cstr nm}"
  using group_index.erase_in_order [of "GroupsList s" "cstr nm"] group_index.erase_set [of "GroupsList s" "cstr nm"] assms
  by (simp_all add: erase_group_def by_name_def groups_in_order_def)

lemma view_put:
  assumes "groups_in_order (GroupsList s)"
  shows "view (put_group g s) = (view s)(cstr (g_name g) := cstr ` set (group_members g))"
  by (rule ext) (auto simp: view_def put_group_spec [OF assms])

lemma view_erase:
  assumes "groups_in_order (GroupsList s)"
  shows "view (erase_group nm s) = (view s)(cstr nm := {})"
  by (rule ext) (auto simp: view_def erase_group_spec [OF assms])

lemma view_of_group:
  assumes "groups_in_order (GroupsList s)" and "g \<in> set (GroupsList s)"
  shows "view s (cstr (g_name g)) = cstr ` set (group_members g)"
proof -
  have "h = g" if "h \<in> set (GroupsList s)" "cstr (g_name h) = cstr (g_name g)" for h
    using get_group_iff [OF assms(1), of "g_name g" g] get_group_iff [OF assms(1), of "g_name g" h] that assms(2) by auto
  then show ?thesis using assms(2) by (auto simp: view_def)
qed

lemma view_no_group: "groups_in_order (GroupsList s) \<Longrightarrow> G_get_group nm s = None \<Longrightarrow> view s (cstr nm) = {}"
  by (auto simp: view_def get_group_None)

text \<open>A change of the groups' own fields leaves the directory and the configuration.\<close>

definition groups_step :: "server \<Rightarrow> server \<Rightarrow> bool" where
  "groups_step s s' \<longleftrightarrow> sess_table.truncate s' = sess_table.truncate s \<and> Sess_My s' = Sess_My s \<and>
     Config (dmn s') = Config (dmn s) \<and> Config_procs (dmn s') = Config_procs (dmn s) \<and> send_ret s' = send_ret s \<and>
     sock_out s' = sock_out s \<and> Gstate s' = Gstate s"

lemma groups_step_fields:
  fixes s :: server
  assumes "groups_step s s'"
  shows "Sessions s' = Sessions s" "Sessions_head s' = Sessions_head s" "Sessions_tail s' = Sessions_tail s"
    "Sessions_free s' = Sessions_free s" "Sessions_hash_head s' = Sessions_hash_head s"
proof -
  have "sess_table.truncate s' = sess_table.truncate s" using assms by (simp add: groups_step_def)
  then show "Sessions s' = Sessions s" "Sessions_head s' = Sessions_head s" "Sessions_tail s' = Sessions_tail s"
    "Sessions_free s' = Sessions_free s" "Sessions_hash_head s' = Sessions_hash_head s"
    by (cases s; cases s'; simp add: sess_table.defs)+
qed

lemma groups_step_trans: "groups_step s t \<Longrightarrow> groups_step t u \<Longrightarrow> groups_step s u"
  by (simp add: groups_step_def)

lemma groups_step_refl [simp]: "groups_step s s"
  by (simp add: groups_step_def)

lemma groups_step_ops [simp]:
  "groups_step s (put_group g s)" "groups_step s (erase_group nm s)" "groups_step s (count_groups k s)"
  by (simp_all add: groups_step_def put_group_def erase_group_def count_groups_def upd_dmn_def upd_status_def sess_table.defs)

lemma groups_step_same:
  fixes s :: server
  assumes "groups_step s s'"
  shows "conf_pos (dmn s') = conf_pos (dmn s)" "conf_ok (dmn s') = conf_ok (dmn s)" "dir_ok s' = dir_ok s"
    "My_id s' = My_id s" "home s' = home s" "box s' = box s" "Sess_get_session priv s' = Sess_get_session priv s"
    "Sess_get_session_index b s' = Sess_get_session_index b s" "proc_named pn s' = proc_named pn s"
    "group_ok s' g = group_ok s g" "reader_ok k s' b = reader_ok k s b" "reads s' b = reads s b"
    "stream_at s' b = stream_at s b" "mbox_of_priv s' priv = mbox_of_priv s priv"
proof -
  note f = groups_step_fields [OF assms]
  have c: "Config (dmn s') = Config (dmn s)" "Config_procs (dmn s') = Config_procs (dmn s)" "Sess_My s' = Sess_My s"
    "send_ret s' = send_ret s" "sock_out s' = sock_out s"
    using assms by (simp_all add: groups_step_def)
  show p: "conf_pos (dmn s') = conf_pos (dmn s)"
    by (intro ext) (simp add: conf_pos_def Conf_proc_by_id_def c)
  show co: "conf_ok (dmn s') = conf_ok (dmn s)" by (simp add: conf_ok_def c p)
  have "nexts s' = nexts s" "prevs s' = prevs s" "hashes s' = hashes s" "mbox_at s' = mbox_at s" "name_at s' = name_at s"
    by (simp_all add: nexts_def prevs_def hashes_def mbox_at_def name_at_def f fun_eq_iff)
  note n = this
  show d: "dir_ok s' = dir_ok s" by (simp add: dir_ok_def sessions_ok_def sorted_ok_def hash_ok_def n f)
  show my: "My_id s' = My_id s" by (simp add: My_id_def c)
  have g: "Sess_get_session priv s' = Sess_get_session priv s" for priv by (simp add: Sess_get_session_def f)
  then show "Sess_get_session priv s' = Sess_get_session priv s" .
  show ix: "Sess_get_session_index b s' = Sess_get_session_index b s" for b by (simp add: Sess_get_session_index_def f)
  show mp: "mbox_of_priv s' priv = mbox_of_priv s priv" for priv by (simp add: mbox_of_priv_def g n split: option.split)
  show pn: "proc_named pn s' = proc_named pn s" for pn by (simp add: proc_named_def Conf_proc_by_name_def c)
  show h: "home s' = home s" by (intro ext) (simp add: home_def pn split: option.split)
  show b: "box s' = box s" by (intro ext) (simp add: box_def mp split: option.split)
  show "group_ok s' g = group_ok s g"
    by (simp add: group_ok_def daemon_ok_def daemons_in_order_def p h b my)
  have ck: "client_ok s' ses = client_ok s ses" for ses
    by (simp add: client_ok_def f ix sane_send_def c mess_of_def n)
  show "reader_ok k s' b = reader_ok k s b" by (simp add: reader_ok_def ix n f ck mess_of_def)
  show "reads s' b = reads s b" by (simp add: reads_def ix f split: option.split)
  show "stream_at s' b = stream_at s b" by (simp add: stream_at_def ix stream_def c n mess_of_def f split: option.split)
qed

end
