(* ===== verification/Group_changes.thy ===== *)
theory Group_changes
  imports Group_views
begin

text \<open>
  What adding and removing one member does to the lists of a group, and that the invariant of the
  groups survives it.
\<close>

section \<open>Members by daemon\<close>

definition members_of :: "daemon_members list \<Rightarrow> byte list list" where
  "members_of ds = concat (map dm_members ds)"

lemma group_members_eq: "group_members g = members_of (g_daemons g)"
  by (simp add: group_members_def members_of_def)

lemma mset_members: "mset (members_of ds) = \<Sum>\<^sub># (image_mset (\<lambda>d. mset (dm_members d)) (mset ds))"
  by (induction ds) (simp_all add: members_of_def)

lemma mset_locals: "mset (locals my ds) =
    \<Sum>\<^sub># (image_mset (\<lambda>d. if dm_proc d = my then mset (dm_members d) else {#}) (mset ds))"
  by (induction ds) (simp_all add: locals_def)

lemma home_pos:
  assumes "conf_ok (dmn s)" and "home s m = Some pid"
  shows "\<exists>i. conf_pos (dmn s) pid = int i \<and> p_id (Config_procs (dmn s) i) = pid"
proof -
  obtain pn p where p: "proc_named pn s = Some p" "p_id p = pid"
    using assms(2) by (auto simp: home_def split: option.splits)
  then obtain i where "i < num_total_procs (Config (dmn s))" "p = Config_procs (dmn s) i"
    by (auto simp: proc_named_def Conf_proc_by_name_def find_Some_iff)
  then show ?thesis using assms(1) p(2) by (metis conf_ok_def)
qed

lemma home_pos_inj:
  assumes "conf_ok (dmn s)" and "home s a = Some p" and "home s b = Some q"
    and "conf_pos (dmn s) p = conf_pos (dmn s) q"
  shows "p = q"
  using home_pos [OF assms(1,2)] home_pos [OF assms(1,3)] assms(4) by auto

lemma daemon_home: "daemon_ok s d \<Longrightarrow> \<exists>m. home s m = Some (dm_proc d)"
  by (cases "dm_members d") (auto simp: daemon_ok_def)

section \<open>The index of the daemons\<close>

lemma known:
  "(\<forall>d \<in> set ds. daemon_ok s d) \<Longrightarrow> conf_pos (dmn s) pid > - 1 \<Longrightarrow> daemons_known (dmn s) pid ds"
  by (auto simp: daemons_known_def daemon_ok_def list_all_iff)

lemma get_daemon_iff:
  assumes "daemons_in_order s (g_daemons g)" and "\<forall>d \<in> set (g_daemons g). daemon_ok s d" and "conf_ok (dmn s)"
    and "home s m = Some pid"
  shows "\<exists>r. G_get_daemon (dmn s) g pid = Some r \<and>
    (case r of None \<Rightarrow> \<forall>d \<in> set (g_daemons g). dm_proc d \<noteq> pid | Some d \<Rightarrow> d \<in> set (g_daemons g) \<and> dm_proc d = pid)"
proof -
  have pos: "conf_pos (dmn s) pid > - 1" using home_pos [OF assms(3,4)] by auto
  let ?r = "skl_find (by_conf (dmn s) pid) (g_daemons g)"
  have r: "G_get_daemon (dmn s) g pid = Some ?r" using known [OF assms(2) pos] by (simp add: G_get_daemon_def)
  have eq: "dm_proc d = pid \<longleftrightarrow> conf_pos (dmn s) (dm_proc d) = conf_pos (dmn s) pid" if "d \<in> set (g_daemons g)" for d
    using home_pos_inj [OF assms(3) _ assms(4)] daemon_home assms(2) that by metis
  have by_conf: "by_conf (dmn s) pid = (\<lambda>d. conf_pos (dmn s) (dm_proc d) - conf_pos (dmn s) pid)"
    by (simp add: by_conf_def fun_eq_iff)
  note ord = assms(1) [unfolded daemons_in_order_def]
  show ?thesis
  proof (cases ?r)
    case None
    then show ?thesis using r eq daemon_index.find_None [OF ord, of "conf_pos (dmn s) pid"] by (auto simp: by_conf)
  next
    case (Some d)
    then show ?thesis using r eq daemon_index.find_iff [OF ord, of "conf_pos (dmn s) pid" d] by (auto simp: by_conf)
  qed
qed

lemma put_daemon_spec:
  assumes "daemons_in_order s (g_daemons g)" and "\<forall>d \<in> set (g_daemons g). daemon_ok s d"
    and "conf_pos (dmn s) (dm_proc d) > - 1"
  shows "\<exists>ds. put_daemon (dmn s) d g = Some (g\<lparr>g_daemons := ds\<rparr>) \<and> daemons_in_order s ds \<and> d \<in> set ds \<and>
    (if \<exists>e \<in> set (g_daemons g). conf_pos (dmn s) (dm_proc e) = conf_pos (dmn s) (dm_proc d)
     then \<forall>e \<in> set (g_daemons g). conf_pos (dmn s) (dm_proc e) = conf_pos (dmn s) (dm_proc d) \<longrightarrow>
       mset ds = add_mset d (mset (g_daemons g) - {#e#})
     else mset ds = add_mset d (mset (g_daemons g)))"
proof -
  let ?ds = "skl_put (by_conf (dmn s) (dm_proc d)) d (g_daemons g)"
  have c: "by_conf (dmn s) (dm_proc d) = (\<lambda>e. conf_pos (dmn s) (dm_proc e) - conf_pos (dmn s) (dm_proc d))"
    by (simp add: by_conf_def fun_eq_iff)
  note ord = assms(1) [unfolded daemons_in_order_def]
  have "put_daemon (dmn s) d g = Some (g\<lparr>g_daemons := ?ds\<rparr>)"
    using known [OF assms(2,3)] by (simp add: put_daemon_def)
  moreover have "daemons_in_order s ?ds" "d \<in> set ?ds"
    using daemon_index.put_in_order [OF ord, of d] daemon_index.put_set [OF ord, of d]
    by (simp_all add: daemons_in_order_def c)
  moreover have "mset ?ds = add_mset d (mset (g_daemons g) - {#e#})"
    if "e \<in> set (g_daemons g)" "conf_pos (dmn s) (dm_proc e) = conf_pos (dmn s) (dm_proc d)" for e
    using daemon_index.put_present [OF ord that(1), of d] that(2) by (simp add: c)
  moreover have "mset ?ds = add_mset d (mset (g_daemons g))"
    if "\<forall>e \<in> set (g_daemons g). conf_pos (dmn s) (dm_proc e) \<noteq> conf_pos (dmn s) (dm_proc d)"
    using daemon_index.put_absent [OF ord, of d] that by (simp add: c)
  ultimately show ?thesis by (intro exI [of _ ?ds]) auto
qed

text \<open>Storing a changed entry of a daemon that is in the index already.\<close>

lemma put_same_daemon:
  assumes "daemons_in_order s (g_daemons g)" and "\<forall>d \<in> set (g_daemons g). daemon_ok s d"
    and "e \<in> set (g_daemons g)" and "dm_proc d = dm_proc e"
  shows "\<exists>ds. put_daemon (dmn s) d g = Some (g\<lparr>g_daemons := ds\<rparr>) \<and> daemons_in_order s ds \<and> d \<in> set ds \<and>
    mset ds = add_mset d (mset (g_daemons g) - {#e#})"
proof -
  have "conf_pos (dmn s) (dm_proc d) > - 1" using assms(2-4) by (simp add: daemon_ok_def)
  from put_daemon_spec [OF assms(1,2) this] obtain ds where
    "put_daemon (dmn s) d g = Some (g\<lparr>g_daemons := ds\<rparr>)" "daemons_in_order s ds" "d \<in> set ds"
    "if \<exists>e \<in> set (g_daemons g). conf_pos (dmn s) (dm_proc e) = conf_pos (dmn s) (dm_proc d)
     then \<forall>e \<in> set (g_daemons g). conf_pos (dmn s) (dm_proc e) = conf_pos (dmn s) (dm_proc d) \<longrightarrow>
       mset ds = add_mset d (mset (g_daemons g) - {#e#})
     else mset ds = add_mset d (mset (g_daemons g))" by blast
  then show ?thesis using assms(3,4) by (intro exI [of _ ds]) (auto split: if_splits)
qed

section \<open>Adding a member\<close>

lemma by_name_eq: "by_name nm = (\<lambda>x. strcmp (cstr x) (cstr nm))"
  by (simp add: by_name_def fun_eq_iff)

lemma put_member:
  assumes d: "in_order strcmp cstr (dm_members d)" and new: "\<forall>m \<in> set (dm_members d). cstr m \<noteq> cstr name"
  shows "in_order strcmp cstr (skl_put (by_name name) name (dm_members d))"
    "mset (skl_put (by_name name) name (dm_members d)) = add_mset name (mset (dm_members d))"
proof -
  note b = by_name_eq [of name]
  show "in_order strcmp cstr (skl_put (by_name name) name (dm_members d))"
    unfolding b by (rule member_index.put_in_order [OF d])
  show "mset (skl_put (by_name name) name (dm_members d)) = add_mset name (mset (dm_members d))"
    unfolding b by (rule member_index.put_absent [OF d]) (use new in auto)
qed

lemma get_member_iff:
  assumes "in_order strcmp cstr (dm_members d)"
  shows "G_get_member d nm = Some m \<longleftrightarrow> m \<in> set (dm_members d) \<and> cstr m = cstr nm"
  unfolding G_get_member_def by_name_eq by (rule member_index.find_iff [OF assms])

text \<open>\<open>grows\<close>: the daemons \<open>ds\<close> are those of \<open>g\<close> with the member \<open>name\<close> of the daemon \<open>pid\<close>.\<close>

definition grows :: "server \<Rightarrow> int32u \<Rightarrow> byte list \<Rightarrow> daemon_members list \<Rightarrow> daemon_members list \<Rightarrow> bool" where
  "grows s pid name ds0 ds \<longleftrightarrow> daemons_in_order s ds \<and> (\<forall>d \<in> set ds. daemon_ok s d) \<and> ds \<noteq> [] \<and>
     mset (members_of ds) = add_mset name (mset (members_of ds0)) \<and>
     mset (locals (My_id s) ds) = (if pid = My_id s then add_mset name (mset (locals (My_id s) ds0))
       else mset (locals (My_id s) ds0))"

lemma add_to_daemon:
  assumes ord: "daemons_in_order s (g_daemons g)" and ok: "\<forall>d \<in> set (g_daemons g). daemon_ok s d"
    and name: "canon name" "home s name = Some pid" and d: "d \<in> set (g_daemons g)" "dm_proc d = pid"
    and new: "\<forall>m \<in> set (dm_members d). cstr m \<noteq> cstr name"
  shows "\<exists>ds. add_member name d g s = Some (bump (g\<lparr>g_daemons := ds, g_num_members := g_num_members g + 1\<rparr>)) \<and>
    grows s pid name (g_daemons g) ds"
proof -
  let ?d = "d\<lparr>dm_members := skl_put (by_name name) name (dm_members d)\<rparr>"
  have dok: "daemon_ok s d" using ok d(1) by blast
  then have dord: "in_order strcmp cstr (dm_members d)" by (simp add: daemon_ok_def)
  note pm = put_member [OF dord new]
  from put_same_daemon [OF ord ok d(1), of ?d] obtain ds where ds:
    "put_daemon (dmn s) ?d g = Some (g\<lparr>g_daemons := ds\<rparr>)" "daemons_in_order s ds"
    "mset ds = add_mset ?d (mset (g_daemons g) - {#d#})" by auto
  have set_pm: "set (skl_put (by_name name) name (dm_members d)) = insert name (set (dm_members d))"
    using arg_cong [OF pm(2), of set_mset] by simp
  have "daemon_ok s ?d" using dok pm(1) name d(2) set_pm by (auto simp: daemon_ok_def)
  moreover have sub: "set ds \<subseteq> insert ?d (set (g_daemons g))"
    using arg_cong [OF ds(3), of set_mset] by (auto dest: in_diffD)
  ultimately have oks: "\<forall>e \<in> set ds. daemon_ok s e" using ok by auto
  obtain D where D: "mset (g_daemons g) = add_mset d D" using d(1) by (metis mset_add set_mset_mset)
  have "mset (members_of ds) = add_mset name (mset (members_of (g_daemons g)))"
    using ds(3) pm(2) by (simp add: mset_members D)
  moreover have "mset (locals (My_id s) ds) = (if pid = My_id s then add_mset name (mset (locals (My_id s) (g_daemons g)))
       else mset (locals (My_id s) (g_daemons g)))"
    using ds(3) pm(2) d(2) by (simp add: mset_locals D)
  moreover have "ds \<noteq> []" using ds(3) by auto
  ultimately have "grows s pid name (g_daemons g) ds" using ds(2) oks by (simp add: grows_def)
  then show ?thesis using ds(1) by (auto simp: add_member_def)
qed

lemma add_new_daemon:
  assumes ord: "daemons_in_order s (g_daemons g)" and ok: "\<forall>d \<in> set (g_daemons g). daemon_ok s d"
    and conf: "conf_ok (dmn s)" and name: "canon name" "home s name = Some pid"
    and new: "\<forall>d \<in> set (g_daemons g). dm_proc d \<noteq> pid" and d: "dm_proc d = pid" "dm_members d = []"
  shows "\<exists>g1 ds. put_daemon (dmn s) d g = Some g1 \<and>
    add_member name d g1 s = Some (bump (g\<lparr>g_daemons := ds, g_num_members := g_num_members g + 1\<rparr>)) \<and>
    grows s pid name (g_daemons g) ds"
proof -
  let ?d = "d\<lparr>dm_members := skl_put (by_name name) name (dm_members d)\<rparr>"
  have pos: "conf_pos (dmn s) (dm_proc d) > - 1" using home_pos [OF conf name(2)] d(1) by auto
  have other: "conf_pos (dmn s) (dm_proc e) \<noteq> conf_pos (dmn s) (dm_proc d)" if "e \<in> set (g_daemons g)" for e
    using home_pos_inj [OF conf _ name(2), of _ "dm_proc e"] daemon_home [of s e] ok new that d(1) by metis
  from put_daemon_spec [OF ord ok pos] other obtain ds1 where ds1:
    "put_daemon (dmn s) d g = Some (g\<lparr>g_daemons := ds1\<rparr>)" "daemons_in_order s ds1" "d \<in> set ds1"
    "mset ds1 = add_mset d (mset (g_daemons g))" by (auto split: if_splits)
  let ?g1 = "g\<lparr>g_daemons := ds1\<rparr>"
  have c: "by_conf (dmn s) (dm_proc ?d) = (\<lambda>e. conf_pos (dmn s) (dm_proc e) - conf_pos (dmn s) (dm_proc ?d))"
    by (simp add: by_conf_def fun_eq_iff)
  let ?ds = "skl_put (by_conf (dmn s) (dm_proc ?d)) ?d ds1"
  have k: "daemons_known (dmn s) (dm_proc ?d) ds1"
    using ok pos arg_cong [OF ds1(4), of set_mset] by (auto simp: daemons_known_def daemon_ok_def list_all_iff)
  have ds: "put_daemon (dmn s) ?d ?g1 = Some (?g1\<lparr>g_daemons := ?ds\<rparr>)" using k by (simp add: put_daemon_def)
  have "daemons_in_order s ?ds"
    using daemon_index.put_in_order [OF ds1(2) [unfolded daemons_in_order_def], of ?d]
    unfolding daemons_in_order_def c by simp
  moreover have m: "mset ?ds = add_mset ?d (mset (g_daemons g))"
    using daemon_index.put_present [OF ds1(2) [unfolded daemons_in_order_def] ds1(3), of ?d] ds1(4)
    unfolding c by simp
  moreover have "daemon_ok s ?d" using name d pos by (auto simp: daemon_ok_def by_name_def)
  then have "\<forall>e \<in> set ?ds. daemon_ok s e" using ok arg_cong [OF m, of set_mset] by auto
  moreover have "mset (members_of ?ds) = add_mset name (mset (members_of (g_daemons g)))"
    using m d(2) by (simp add: mset_members)
  moreover have "mset (locals (My_id s) ?ds) = (if pid = My_id s then add_mset name (mset (locals (My_id s) (g_daemons g)))
       else mset (locals (My_id s) (g_daemons g)))"
    using m d by (simp add: mset_locals)
  moreover have "?ds \<noteq> []" using m by auto
  ultimately have "grows s pid name (g_daemons g) ?ds" by (simp add: grows_def)
  moreover have "add_member name d ?g1 s = Some (bump (g\<lparr>g_daemons := ?ds, g_num_members := g_num_members g + 1\<rparr>))"
    using ds by (simp add: add_member_def)
  ultimately show ?thesis using ds1(1) by blast
qed

section \<open>Removing a member\<close>

definition shrinks :: "server \<Rightarrow> int32u \<Rightarrow> byte list \<Rightarrow> daemon_members list \<Rightarrow> daemon_members list \<Rightarrow> bool" where
  "shrinks s pid name ds0 ds \<longleftrightarrow> daemons_in_order s ds \<and> (\<forall>d \<in> set ds. daemon_ok s d) \<and>
     add_mset name (mset (members_of ds)) = mset (members_of ds0) \<and>
     (if pid = My_id s then add_mset name (mset (locals (My_id s) ds)) = mset (locals (My_id s) ds0)
      else mset (locals (My_id s) ds) = mset (locals (My_id s) ds0))"

lemma erase_member:
  assumes d: "in_order strcmp cstr (dm_members d)" and m: "mbr \<in> set (dm_members d)"
  shows "in_order strcmp cstr (skl_erase (by_name mbr) (dm_members d))"
    "add_mset mbr (mset (skl_erase (by_name mbr) (dm_members d))) = mset (dm_members d)"
proof -
  show "in_order strcmp cstr (skl_erase (by_name mbr) (dm_members d))"
    unfolding by_name_eq by (rule member_index.erase_in_order [OF d])
  show "add_mset mbr (mset (skl_erase (by_name mbr) (dm_members d))) = mset (dm_members d)"
    using member_index.erase_present [OF d m refl] m unfolding by_name_eq by simp
qed

text \<open>The daemons after the member is gone, an emptied one discarded.\<close>

lemma drop_from_daemon:
  assumes ord: "daemons_in_order s (g_daemons g)" and ok: "\<forall>d \<in> set (g_daemons g). daemon_ok s d"
    and d: "d \<in> set (g_daemons g)" and m: "mbr \<in> set (dm_members d)"
  defines "d1 \<equiv> d\<lparr>dm_members := skl_erase (by_name mbr) (dm_members d)\<rparr>"
  shows "\<exists>g1 ds. put_daemon (dmn s) d1 g = Some g1 \<and>
    (if dm_members d1 = [] then G_remove_daemon (dmn s) d1 (g1\<lparr>g_num_members := g_num_members g1 - 1\<rparr>)
     else Some (g1\<lparr>g_num_members := g_num_members g1 - 1\<rparr>)) =
       Some (g\<lparr>g_daemons := ds, g_num_members := g_num_members g - 1\<rparr>) \<and>
    shrinks s (dm_proc d) mbr (g_daemons g) ds"
proof -
  have dok: "daemon_ok s d" using ok d by blast
  then have dord: "in_order strcmp cstr (dm_members d)" by (simp add: daemon_ok_def)
  note em = erase_member [OF dord m]
  have p1: "dm_proc d1 = dm_proc d" by (simp add: d1_def)
  from put_same_daemon [OF ord ok d p1] obtain ds1 where ds1:
    "put_daemon (dmn s) d1 g = Some (g\<lparr>g_daemons := ds1\<rparr>)" "daemons_in_order s ds1" "d1 \<in> set ds1"
    "mset ds1 = add_mset d1 (mset (g_daemons g) - {#d#})" by auto
  obtain D where D: "mset (g_daemons g) = add_mset d D" using d by (metis mset_add set_mset_mset)
  have Dset: "set_mset D \<subseteq> set (g_daemons g)" using arg_cong [OF D, of set_mset] by auto
  have mm: "add_mset mbr (mset (dm_members d1)) = mset (dm_members d)" using em(2) by (simp add: d1_def)
  show ?thesis
  proof (cases "dm_members d1 = []")
    case False
    have "set (dm_members d1) \<subseteq> set (dm_members d)" using arg_cong [OF mm, of set_mset] by auto
    then have "daemon_ok s d1" using dok em(1) False by (auto simp: daemon_ok_def d1_def)
    then have "\<forall>e \<in> set ds1. daemon_ok s e" using ok Dset arg_cong [OF ds1(4), of set_mset] by (auto simp: D)
    then have "shrinks s (dm_proc d) mbr (g_daemons g) ds1"
      using ds1(2,4) D mm by (auto simp: shrinks_def mset_members mset_locals d1_def)
    then show ?thesis using ds1(1) False by (intro exI [of _ "g\<lparr>g_daemons := ds1\<rparr>"] exI [of _ ds1]) simp
  next
    case True
    let ?g2 = "g\<lparr>g_daemons := ds1, g_num_members := g_num_members g - 1\<rparr>"
    let ?ds = "skl_erase (by_conf (dmn s) (dm_proc d1)) ds1"
    have c: "by_conf (dmn s) (dm_proc d1) = (\<lambda>e. conf_pos (dmn s) (dm_proc e) - conf_pos (dmn s) (dm_proc d1))"
      by (simp add: by_conf_def fun_eq_iff)
    have pos: "conf_pos (dmn s) (dm_proc d1) > - 1" using dok by (simp add: daemon_ok_def p1)
    have k: "daemons_known (dmn s) (dm_proc d1) ds1"
      using ok Dset dok pos arg_cong [OF ds1(4), of set_mset] by (auto simp: D daemons_known_def daemon_ok_def list_all_iff)
    note o1 = ds1(2) [unfolded daemons_in_order_def]
    have f: "skl_find (by_conf (dmn s) (dm_proc d1)) ds1 = Some d1"
      unfolding c using daemon_index.find_iff [OF o1, of "conf_pos (dmn s) (dm_proc d1)" d1] ds1(3) by simp
    have r: "G_remove_daemon (dmn s) d1 ?g2 = Some (?g2\<lparr>g_daemons := ?ds\<rparr>)"
      using k f True by (simp add: G_remove_daemon_def G_get_daemon_def)
    have o2: "daemons_in_order s ?ds"
      unfolding daemons_in_order_def c by (rule daemon_index.erase_in_order [OF o1])
    have mds: "mset ?ds = D"
      unfolding c using daemon_index.erase_present [OF o1 ds1(3) refl] ds1(4) by (simp add: D)
    have "\<forall>e \<in> set ?ds. daemon_ok s e" using ok Dset arg_cong [OF mds, of set_mset] by auto
    then have "shrinks s (dm_proc d) mbr (g_daemons g) ?ds"
      using o2 mds D mm True by (auto simp: shrinks_def mset_members mset_locals)
    then show ?thesis using ds1(1) r True
      by (intro exI [of _ "g\<lparr>g_daemons := ds1\<rparr>"] exI [of _ ?ds]) simp
  qed
qed

end
