(* ===== verification/Group_messages.thy ===== *)
theory Group_messages
  imports Group_changes
begin

text \<open>
  The membership messages of a group: that they fit, what is in them, and that every local member
  gets them.
\<close>

section \<open>Several messages\<close>

text \<open>Nobody was sent more than \<open>n\<close> messages, and who reads got the bytes \<open>out\<close>.\<close>

definition sent_to :: "nat \<Rightarrow> (int \<Rightarrow> byte list) \<Rightarrow> 'a sess_layer_scheme \<Rightarrow> 'a sess_layer_scheme \<Rightarrow> bool" where
  "sent_to n out s s' \<longleftrightarrow> quiet s s' \<and> same_chains (Sessions s) (Sessions s') \<and> Sessions_hash_head s' = Sessions_hash_head s \<and>
     (\<forall>b j. reader_ok (n + j) s b \<longrightarrow> reader_ok j s' b \<and>
        stream_at s' b = stream_at s b @ (if reads s b then out b else []))"

lemma sent_quiet: "sent_to n out s s' \<Longrightarrow> quiet s s'"
  by (simp add: sent_to_def)

lemma sent_none: "sent_to n (\<lambda>_. []) s s"
  using reader_ok_mono [of _ s] by (auto simp: sent_to_def same_chains_def)

lemma wrote_sent:
  assumes "wrote bs m s s'"
  shows "sent_to 1 (\<lambda>b. if b \<in> set bs then contents m else []) s s'"
proof -
  have "reader_ok j s' b \<and> stream_at s' b = stream_at s b @ (if reads s b then if b \<in> set bs then contents m else [] else [])"
    if "reader_ok (1 + j) s b" for b j
  proof -
    have "reader_ok (if b \<in> set bs then Suc j else j) s b" using that reader_ok_mono [OF that, of j] by simp
    then show ?thesis using assms unfolding wrote_def by (auto split: if_splits)
  qed
  then show ?thesis using assms by (simp add: sent_to_def wrote_def)
qed

lemma sent_trans:
  assumes "sent_to n o1 s t" and "sent_to m o2 t u"
  shows "sent_to (n + m) (\<lambda>b. o1 b @ o2 b) s u"
proof -
  have r: "reads t b = reads s b" for b using assms(1) by (intro reads_cong) (simp_all add: sent_to_def)
  have "reader_ok j u b \<and> stream_at u b = stream_at s b @ (if reads s b then o1 b @ o2 b else [])"
    if "reader_ok (n + m + j) s b" for b j
  proof -
    have "reader_ok (m + j) t b" "stream_at t b = stream_at s b @ (if reads s b then o1 b else [])"
      using assms(1) that unfolding sent_to_def by (metis add.assoc)+
    moreover from this have "reader_ok j u b" "stream_at u b = stream_at t b @ (if reads t b then o2 b else [])"
      using assms(2) unfolding sent_to_def by blast+
    ultimately show ?thesis by (simp add: r)
  qed
  moreover have "quiet s u" using assms quiet_trans [of s t u] by (simp add: sent_to_def)
  ultimately show ?thesis using assms by (simp add: sent_to_def same_chains_def)
qed

lemma notify_sends:
  assumes "distinct bs" and "\<forall>b \<in> set bs. reader_ok (Suc k) s b" and "wf_mess m"
  shows "\<exists>s'. notify m bs s = Some s' \<and> sent_to 1 (\<lambda>b. if b \<in> set bs then contents m else []) s s'"
  using notify_writes [of bs s m] assms reader_ok_mono [of "Suc k" s _ 1] wrote_sent by fastforce

section \<open>Bounds\<close>

definition max_members :: nat where "max_members = 2000"

text \<open>What the building of messages needs of a group.\<close>

definition fits :: "group \<Rightarrow> bool" where
  "fits g \<longleftrightarrow> g_num_members g = int (length (group_members g)) \<and> length (group_members g) \<le> max_members \<and>
     length (g_name g) = 32 \<and> (\<forall>d \<in> set (g_daemons g). dm_members d \<noteq> []) \<and> (\<forall>m \<in> set (group_members g). length m = 32)"

lemma length_concat_32: "\<forall>m \<in> set ms. length m = 32 \<Longrightarrow> length (concat ms) = 32 * length ms"
  by (induction ms) auto

lemma length_enc_group_id [simp]: "length (enc_group_id g) = 12" "length (int32_bytes n) = 4"
  by (simp_all add: enc_group_id_def enc_memb_id_def int32_bytes_def)

lemma length_enc_vs: "\<forall>m \<in> set ms. length m = 32 \<Longrightarrow> length (enc_vs_set ms) = 4 + 32 * length ms"
  by (simp add: enc_vs_set_def length_concat_32)

lemma memb_header_wf:
  "fits g \<Longrightarrow> 0 \<le> n \<Longrightarrow> n < 1000000 \<Longrightarrow> wf_message_header ((memb_header g caused)\<lparr>mh_data_len := n\<rparr>)"
  by (auto simp: wf_message_header_def memb_header_def fits_def max_members_def MAX_GROUP_NAME_eq int32_range_def)

section \<open>Lightweight memberships\<close>

definition light_bytes :: "group \<Rightarrow> int32u \<Rightarrow> byte list \<Rightarrow> byte list" where
  "light_bytes g caused name = enc_message_header ((memb_header g caused)\<lparr>mh_data_len := 56\<rparr>) @
     concat (group_members g) @ enc_group_id (g_gid g) @ int32_bytes 1 @ int32_bytes 0 @ enc_vs_set [name]"

lemma lightweight_sends:
  assumes g: "fits g" and caused: "caused \<in> {CAUSED_BY_JOIN, CAUSED_BY_LEAVE, CAUSED_BY_DISCONNECT}"
    and name: "length name = 32" and bs: "distinct (g_mboxes g)" "\<forall>b \<in> set (g_mboxes g). reader_ok (Suc k) s b"
  shows "\<exists>s'. G_send_lightweight_memb g caused name s = Some s' \<and>
    sent_to 1 (\<lambda>b. if b \<in> set (g_mboxes g) then light_bytes g caused name else []) s s'"
proof -
  let ?h = "(memb_header g caused)\<lparr>mh_data_len := 56\<rparr>"
  let ?buf = "concat (group_members g) @ enc_group_id (g_gid g) @ int32_bytes 1 @ int32_bytes 0 @ enc_vs_set [name]"
  have "length ?buf \<le> 143552"
    using g name by (simp add: fits_def length_concat_32 max_members_def enc_vs_set_def)
  moreover have "\<not> has (mh_type ?h) REJECT_MESS" using bits_not_reject [of caused] caused by (auto simp: memb_header_def)
  moreover have "wf_message_header ?h" using memb_header_wf [OF g, of 56] by simp
  ultimately obtain m where m: "memb_message ?h ?buf = Some m" "wf_mess m" "contents m = light_bytes g caused name"
    using memb_message_ok [of ?h ?buf] by (auto simp: light_bytes_def)
  have len: "mh_data_len (memb_header g caused) + (12 + int MAX_GROUP_NAME) = 56"
    by (simp add: memb_header_def sizeof_group_id_def MAX_GROUP_NAME_eq)
  have "G_send_lightweight_memb g caused name s = notify m (g_mboxes g) s"
    using m(1) by (simp add: G_send_lightweight_memb_def G_build_memb_buf_def len)
  then show ?thesis using notify_sends [OF bs m(2)] by (simp add: m(3) cong: if_cong)
qed

section \<open>Transitional memberships and self leaves\<close>

definition trans_bytes :: "group \<Rightarrow> byte list" where
  "trans_bytes g = enc_message_header \<lparr>mh_type = Set_endian TRANSITION_MESS, mh_private_group_name = g_name g,
     mh_num_groups = 0, mh_hint = Set_endian 0, mh_data_len = 12\<rparr> @ enc_group_id (g_gid g)"

lemma trans_mess:
  assumes "canon (g_name g)"
  shows "\<exists>m. G_build_trans_mess g = Some m \<and> wf_mess m \<and> contents m = trans_bytes g"
proof -
  define h0 where "h0 = \<lparr>mh_type = Set_endian TRANSITION_MESS, mh_private_group_name = g_name g,
     mh_num_groups = 0, mh_hint = Set_endian 0, mh_data_len = 0\<rparr>"
  define h where "h = \<lparr>mh_type = Set_endian TRANSITION_MESS, mh_private_group_name = g_name g,
     mh_num_groups = 0, mh_hint = Set_endian 0, mh_data_len = 12\<rparr>"
  have upd: "h0\<lparr>mh_data_len := 12\<rparr> = h" by (simp add: h0_def h_def)
  have name: "strncpy MAX_GROUP_NAME (g_name g) = g_name g" "length (g_name g) = 32"
    using assms canon_length [OF assms] by (simp_all add: canon_def)
  have wf: "wf_message_header h0" "wf_message_header h"
    using name by (simp_all add: wf_message_header_def MAX_GROUP_NAME_eq int32_range_def h0_def h_def)
  note le = length_enc_message_header [OF wf(1)] length_enc_message_header [OF wf(2)]
  have lf: "length fresh_body = 1436" by (simp add: fresh_body_def mess_size_defs)
  let ?m0 = "[\<lparr>se_buf = enc_message_header h0 @ drop 48 fresh_body, se_len = 48\<rparr>]"
  have "Message_create_message TRANSITION_MESS (g_name g) = set_message_header h0 Message_new_message"
    by (simp add: Message_create_message_def name h0_def)
  then have m0: "Message_create_message TRANSITION_MESS (g_name g) = Some ?m0"
    using le lf by (simp add: set_message_header_def Message_new_message_def put_bytes_def sizeof_message_header_def)
  have h0: "Message_get_message_header ?m0 = Some h0" using header_of_buf [OF wf(1), of ?m0] le lf by simp
  let ?m1 = "[\<lparr>se_buf = enc_message_header h @ drop 48 fresh_body, se_len = 48\<rparr>]"
  have m1: "set_message_header h ?m0 = Some ?m1" using le lf by (simp add: set_message_header_def put_bytes_def)
  let ?b = "enc_message_header h @ enc_group_id (g_gid g) @ drop 60 fresh_body"
  let ?m = "[\<lparr>se_buf = ?b, se_len = 60\<rparr>]"
  have "put_bytes (se_buf (hd ?m1)) 48 (enc_group_id (g_gid g)) = Some ?b" using le lf by (simp add: put_bytes_def)
  then have "G_build_trans_mess g = Some ?m"
    using m0 h0 m1 by (simp add: G_build_trans_mess_def sizeof_group_id_def sizeof_message_header_def upd)
  moreover have hm: "Message_get_message_header ?m = Some h" using header_of_buf [OF wf(2), of ?m] le lf by simp
  moreover have "\<not> has (mh_type h) REJECT_MESS"
    by (simp add: h_def has_def Set_endian_def TRANSITION_MESS_def REJECT_MESS_def ARCH_ENDIAN_def ENDIAN_TYPE_def)
  moreover have "wf_element \<lparr>se_buf = ?b, se_len = 60\<rparr>" using le lf by (simp add: wf_element_def)
  moreover have "contents ?m = trans_bytes g" using le by (simp add: contents_def used_def trans_bytes_def h_def)
  ultimately show ?thesis by (auto simp: wf_mess_def queued_mess_def)
qed

lemma trans_sends:
  assumes g: "canon (g_name g)" and bs: "distinct (g_mboxes g)" "\<forall>b \<in> set (g_mboxes g). reader_ok (Suc k) s b"
  shows "\<exists>s'. G_send_trans_memb g s = Some s' \<and>
    sent_to 1 (\<lambda>b. if b \<in> set (g_mboxes g) then trans_bytes g else []) s s'"
proof -
  obtain m where m: "G_build_trans_mess g = Some m" "wf_mess m" "contents m = trans_bytes g"
    using trans_mess [OF g] by blast
  then show ?thesis using notify_sends [OF bs m(2)] by (simp add: G_send_trans_memb_def m(3) cong: if_cong)
qed

definition self_leave_bytes :: "group \<Rightarrow> byte list" where
  "self_leave_bytes g = enc_message_header \<lparr>mh_type = Set_endian CAUSED_BY_LEAVE, mh_private_group_name = g_name g,
     mh_num_groups = 0, mh_hint = Set_endian 0, mh_data_len = 0\<rparr>"

lemma self_leave_sends:
  assumes g: "length (g_name g) = 32" and ses: "Sess_get_session_index b s = Some (Some ses)" and r: "reader_ok (Suc k) s b"
  shows "\<exists>s'. G_send_self_leave g ses s = Some s' \<and> sent_to 1 (\<lambda>c. if c = b then self_leave_bytes g else []) s s'"
proof -
  let ?h = "\<lparr>mh_type = Set_endian CAUSED_BY_LEAVE, mh_private_group_name = g_name g,
     mh_num_groups = 0, mh_hint = Set_endian 0, mh_data_len = 0\<rparr>"
  have "wf_message_header ?h" using g by (simp add: wf_message_header_def MAX_GROUP_NAME_eq int32_range_def)
  moreover have "\<not> has (mh_type ?h) REJECT_MESS"
    by (simp add: has_def Set_endian_def CAUSED_BY_LEAVE_def REJECT_MESS_def ARCH_ENDIAN_def ENDIAN_TYPE_def)
  ultimately obtain m where m: "memb_message ?h [] = Some m" "wf_mess m" "contents m = self_leave_bytes g"
    using memb_message_ok [of ?h "[]"] by (auto simp: self_leave_bytes_def)
  from notify_sends [of "[b]" k s m] r m(2) obtain s' where
    n: "notify m [b] s = Some s'" "sent_to 1 (\<lambda>c. if c \<in> set [b] then contents m else []) s s'" by auto
  have "G_send_self_leave g ses s = notify m [b] s"
    using m(1) ses by (auto simp: G_send_self_leave_def notify_def notify_one_def option.map_comp comp_def split: option.split)
  then show ?thesis using n by (auto simp: m(3) cong: if_cong)
qed

end
