(* ===== verification/Vs_sets.thy ===== *)
theory Vs_sets
  imports Group_messages
begin

text \<open>The virtual synchrony sets of a heavyweight membership.\<close>

section \<open>Leaving the joiner out\<close>

fun left :: "byte list option \<Rightarrow> bool \<Rightarrow> daemon_members list \<Rightarrow> byte list list" where
  "left j f [] = []"
| "left j f (d # ds) = (let (ms, g) = without_joiner j f (dm_members d) in ms @ left j g ds)"

fun found_in :: "byte list option \<Rightarrow> bool \<Rightarrow> daemon_members list \<Rightarrow> bool" where
  "found_in j f [] = f"
| "found_in j f (d # ds) = found_in j (snd (without_joiner j f (dm_members d))) ds"

lemma without_None: "without_joiner None f ms = (ms, f)"
  by (induction ms) (simp_all add: Let_def)

lemma without_found: "without_joiner j True ms = (ms, True)"
  by (induction ms; cases j) (simp_all add: Let_def)

lemma left_None: "left None f ds = members_of ds"
  by (induction ds) (simp_all add: without_None members_of_def Let_def)

lemma left_found: "left j True ds = members_of ds" "found_in j True ds"
  by (induction ds) (simp_all add: without_found members_of_def Let_def)

lemma without_absent: "\<forall>m \<in> set ms. cstr m \<noteq> cstr nm \<Longrightarrow> without_joiner (Some nm) False ms = (ms, False)"
  by (induction ms) (simp_all add: by_name_def strcmp_zero Let_def)

lemma without_present:
  "\<forall>m \<in> set ms. cstr m = cstr nm \<longrightarrow> m = nm \<Longrightarrow> nm \<in> set ms \<Longrightarrow>
   snd (without_joiner (Some nm) False ms) \<and> add_mset nm (mset (fst (without_joiner (Some nm) False ms))) = mset ms"
proof (induction ms)
  case (Cons m ms)
  show ?case
  proof (cases "cstr m = cstr nm")
    case True
    then have "m = nm" using Cons.prems(1) by simp
    then show ?thesis by (simp add: by_name_def strcmp_zero without_found)
  next
    case False
    then have "nm \<in> set ms" using Cons.prems(2) by auto
    with Cons False show ?thesis by (auto simp: by_name_def strcmp_zero split: prod.splits)
  qed
qed simp

lemma left_present:
  assumes "\<forall>m \<in> set (members_of ds). cstr m = cstr nm \<longrightarrow> m = nm" and "nm \<in> set (members_of ds)"
  shows "found_in (Some nm) False ds \<and> add_mset nm (mset (left (Some nm) False ds)) = mset (members_of ds)"
  using assms
proof (induction ds)
  case (Cons d ds)
  show ?case
  proof (cases "nm \<in> set (dm_members d)")
    case True
    have "\<forall>m \<in> set (dm_members d). cstr m = cstr nm \<longrightarrow> m = nm" using Cons.prems(1) by (simp add: members_of_def)
    from without_present [OF this True] show ?thesis
      by (auto simp: left_found members_of_def split: prod.splits)
  next
    case False
    then have "\<forall>m \<in> set (dm_members d). cstr m \<noteq> cstr nm" using Cons.prems(1) by (auto simp: members_of_def)
    then have "without_joiner (Some nm) False (dm_members d) = (dm_members d, False)" by (rule without_absent)
    with Cons False show ?thesis by (auto simp: members_of_def)
  qed
qed (simp add: members_of_def)

lemma without_subset: "set (fst (without_joiner j f ms)) \<subseteq> set ms" "length (fst (without_joiner j f ms)) \<le> length ms"
  by (induction j f ms rule: without_joiner.induct) (auto split: option.splits prod.splits if_splits)

lemma without_keeps: "m \<in> set ms \<Longrightarrow> (case j of None \<Rightarrow> True | Some nm \<Rightarrow> cstr m \<noteq> cstr nm) \<Longrightarrow>
   m \<in> set (fst (without_joiner j f ms))"
  by (induction j f ms rule: without_joiner.induct)
    (auto simp: by_name_def strcmp_zero split: option.splits prod.splits if_splits)

section \<open>The loop over the daemons\<close>

lemma vs_region_simps: "vs_region [] = []" "vs_region (xs @ ys) = vs_region xs @ vs_region ys"
  "vs_region [x] = enc_vs_set x"
  by (simp_all add: vs_region_def)

definition vs_next :: "daemon_members \<Rightarrow> vs_state \<Rightarrow> byte list list list" where
  "vs_next d v = (if Is_unknown_memb_id (vs_memb v) \<or> vs_memb v \<noteq> dm_memb d then vs_sets v @ [[]] else vs_sets v)"

lemma vs_step_eq:
  assumes "dm_proc d = my \<longrightarrow> vs_offset v = 0"
  shows "vs_step my j d v = Some \<lparr>
    vs_memb = (if Is_unknown_memb_id (vs_memb v) \<or> vs_memb v \<noteq> dm_memb d then dm_memb d else vs_memb v),
    vs_sets = butlast (vs_next d v) @ [last (vs_next d v) @ fst (without_joiner j (vs_found v) (dm_members d))],
    vs_offset = (if dm_proc d = my then int (length (vs_region (butlast (vs_next d v)))) else vs_offset v),
    vs_found = snd (without_joiner j (vs_found v) (dm_members d))\<rparr>"
  using assms by (cases v) (auto simp: vs_step_def vs_next_def Let_def split: prod.splits)

definition vs_inv :: "vs_state \<Rightarrow> bool" where
  "vs_inv v \<longleftrightarrow> (vs_sets v = [] \<longrightarrow> Is_unknown_memb_id (vs_memb v))"

definition vs_extends :: "byte list list list \<Rightarrow> byte list list list \<Rightarrow> bool" where
  "vs_extends ss ss' \<longleftrightarrow> ss = [] \<or> (\<exists>e more. ss' = butlast ss @ (last ss @ e) # more)"

lemma vs_extends_refl: "vs_extends ss ss"
  by (cases ss rule: rev_cases) (auto simp: vs_extends_def)

lemma vs_extends_at:
  assumes "vs_extends ss ss'" and "ss = pre @ [x]"
  shows "\<exists>e post. ss' = pre @ (x @ e) # post"
  using assms by (auto simp: vs_extends_def)

lemma vs_extends_trans:
  assumes "vs_extends a b" and "vs_extends b c" and "a \<noteq> []"
  shows "vs_extends a c"
proof -
  obtain pre x where a: "a = pre @ [x]" using assms(3) by (cases a rule: rev_cases) auto
  obtain e post where b: "b = pre @ (x @ e) # post" using vs_extends_at [OF assms(1) a] by blast
  show ?thesis
  proof (cases post rule: rev_cases)
    case Nil
    then obtain e2 post2 where "c = pre @ ((x @ e) @ e2) # post2" using vs_extends_at [OF assms(2), of pre "x @ e"] b by auto
    then show ?thesis by (auto simp: vs_extends_def a)
  next
    case (snoc p y)
    then obtain e2 post2 where "c = (pre @ (x @ e) # p) @ (y @ e2) # post2"
      using vs_extends_at [OF assms(2), of "pre @ (x @ e) # p" y] b by auto
    then show ?thesis by (auto simp: vs_extends_def a)
  qed
qed

lemma length_vs_grow:
  assumes "ss = pre @ [x]" and "\<forall>m \<in> set ms. length m = 32"
  shows "length (vs_region (pre @ [x @ ms])) = length (vs_region ss) + 32 * length ms"
  using assms length_concat_32 [of ms] by (simp add: vs_region_simps enc_vs_set_def)

text \<open>Where the members of the local daemon are.\<close>

definition located :: "byte list option \<Rightarrow> byte list list \<Rightarrow> byte list list list \<Rightarrow> int \<Rightarrow> bool" where
  "located j ms sets off \<longleftrightarrow> (\<exists>pre x post. sets = pre @ x # post \<and> off = int (length (vs_region pre)) \<and>
     (\<forall>m \<in> set ms. (case j of None \<Rightarrow> True | Some nm \<Rightarrow> cstr m \<noteq> cstr nm) \<longrightarrow> m \<in> set x))"

lemma located_extends:
  assumes "vs_extends ss ss'" and "ss = pre @ [x]" and "\<forall>m \<in> set ms. (case j of None \<Rightarrow> True | Some nm \<Rightarrow> cstr m \<noteq> cstr nm) \<longrightarrow> m \<in> set x"
  shows "located j ms ss' (int (length (vs_region pre)))"
proof -
  obtain e post where "ss' = pre @ (x @ e) # post" using vs_extends_at [OF assms(1,2)] by blast
  then show ?thesis using assms(3) unfolding located_def by (intro exI [of _ pre] exI [of _ "x @ e"] exI [of _ post]) auto
qed

lemma vs_run:
  assumes "vs_inv v" and "\<forall>d \<in> set ds. dm_members d \<noteq> [] \<and> (\<forall>m \<in> set (dm_members d). length m = 32)"
    and "distinct (map dm_proc ds)" and "my \<in> dm_proc ` set ds \<longrightarrow> vs_offset v = 0"
  shows "\<exists>v'. forM ds (vs_step my j) v = Some v' \<and> vs_extends (vs_sets v) (vs_sets v') \<and>
    concat (vs_sets v') = concat (vs_sets v) @ left j (vs_found v) ds \<and> vs_found v' = found_in j (vs_found v) ds \<and>
    length (vs_region (vs_sets v')) \<le> length (vs_region (vs_sets v)) + 36 * length (members_of ds) \<and>
    length (vs_sets v') \<le> length (vs_sets v) + length ds \<and>
    (my \<notin> dm_proc ` set ds \<longrightarrow> vs_offset v' = vs_offset v) \<and>
    (\<forall>d \<in> set ds. dm_proc d = my \<longrightarrow> located j (dm_members d) (vs_sets v') (vs_offset v'))"
  using assms
proof (induction ds arbitrary: v)
  case Nil
  then show ?case by (simp add: vs_extends_refl members_of_def)
next
  case (Cons d ds)
  let ?ms = "fst (without_joiner j (vs_found v) (dm_members d))"
  let ?n = "vs_next d v"
  have n: "?n \<noteq> []" using Cons.prems(1) by (auto simp: vs_next_def vs_inv_def)
  obtain pre x where px: "?n = pre @ [x]" using n by (cases ?n rule: rev_cases) auto
  define w where "w = \<lparr>
    vs_memb = (if Is_unknown_memb_id (vs_memb v) \<or> vs_memb v \<noteq> dm_memb d then dm_memb d else vs_memb v),
    vs_sets = pre @ [x @ ?ms],
    vs_offset = (if dm_proc d = my then int (length (vs_region pre)) else vs_offset v),
    vs_found = snd (without_joiner j (vs_found v) (dm_members d))\<rparr>"
  have step: "vs_step my j d v = Some w"
    using vs_step_eq [of d my v j] Cons.prems(4) by (simp add: w_def px)
  have ms: "\<forall>m \<in> set ?ms. length m = 32" "length ?ms \<le> length (dm_members d)"
    using Cons.prems(2) without_subset [of j "vs_found v" "dm_members d"] by auto
  have "my \<in> dm_proc ` set ds \<longrightarrow> vs_offset w = 0" using Cons.prems(3,4) by (auto simp: w_def)
  moreover have "vs_inv w" by (simp add: vs_inv_def w_def)
  ultimately obtain v' where IH: "forM ds (vs_step my j) w = Some v'" "vs_extends (vs_sets w) (vs_sets v')"
    "concat (vs_sets v') = concat (vs_sets w) @ left j (vs_found w) ds" "vs_found v' = found_in j (vs_found w) ds"
    "length (vs_region (vs_sets v')) \<le> length (vs_region (vs_sets w)) + 36 * length (members_of ds)"
    "length (vs_sets v') \<le> length (vs_sets w) + length ds"
    "my \<notin> dm_proc ` set ds \<longrightarrow> vs_offset v' = vs_offset w"
    "\<forall>d \<in> set ds. dm_proc d = my \<longrightarrow> located j (dm_members d) (vs_sets v') (vs_offset v')"
    using Cons.IH [of w] Cons.prems(2,3) by auto
  have nlen: "length (vs_region ?n) \<le> length (vs_region (vs_sets v)) + 4" "length ?n \<le> Suc (length (vs_sets v))"
    by (simp_all add: vs_next_def vs_region_simps enc_vs_set_def)
  have "length (vs_region (vs_sets w)) = length (vs_region ?n) + 32 * length ?ms"
    using length_vs_grow [OF px ms(1)] by (simp add: w_def)
  moreover have "length (dm_members d) \<ge> 1" using Cons.prems(2) by (cases "dm_members d") auto
  ultimately have wlen: "length (vs_region (vs_sets w)) \<le> length (vs_region (vs_sets v)) + 36 * length (dm_members d)"
    using nlen(1) ms(2) by linarith
  have "concat (vs_sets v') = concat (vs_sets v) @ left j (vs_found v) (d # ds)"
  proof -
    have "concat ?n = concat (vs_sets v)" by (simp add: vs_next_def)
    then show ?thesis using IH(3) px by (simp add: w_def split: prod.split)
  qed
  moreover have "vs_extends (vs_sets v) (vs_sets v')"
  proof (cases "vs_sets v = []")
    case True
    then show ?thesis by (simp add: vs_extends_def)
  next
    case False
    have "vs_extends (vs_sets v) (vs_sets w)"
    proof (cases "?n = vs_sets v")
      case True
      then have "butlast (vs_sets v) = pre" "last (vs_sets v) = x" using px by (metis butlast_snoc, metis last_snoc)
      then show ?thesis by (simp add: vs_extends_def w_def)
    next
      case new: False
      then have "pre = vs_sets v" "x = []" using px by (auto simp: vs_next_def split: if_splits)
      then have "vs_sets w = butlast (vs_sets v) @ (last (vs_sets v) @ []) # [?ms]" using False by (simp add: w_def)
      then show ?thesis unfolding vs_extends_def by blast
    qed
    then show ?thesis using vs_extends_trans IH(2) False by blast
  qed
  moreover have "vs_offset v' = vs_offset v" if "my \<notin> dm_proc ` set (d # ds)"
    using IH(7) that by (auto simp: w_def)
  moreover have "located j (dm_members e) (vs_sets v') (vs_offset v')" if e: "e \<in> set (d # ds)" "dm_proc e = my" for e
  proof (cases "e = d")
    case True
    have "my \<notin> dm_proc ` set ds" using Cons.prems(3) e(2) True by auto
    then have "vs_offset v' = int (length (vs_region pre))" using IH(7) e(2) True by (simp add: w_def)
    moreover have "\<forall>m \<in> set (dm_members d). (case j of None \<Rightarrow> True | Some nm \<Rightarrow> cstr m \<noteq> cstr nm) \<longrightarrow> m \<in> set (x @ ?ms)"
      using without_keeps [of _ "dm_members d" j "vs_found v"] by auto
    ultimately show ?thesis using located_extends [OF IH(2), of pre "x @ ?ms"] True by (simp add: w_def)
  next
    case False
    then show ?thesis using IH(8) e by auto
  qed
  moreover have "vs_found v' = found_in j (vs_found v) (d # ds)" using IH(4) by (simp add: w_def)
  moreover have "length (vs_region (vs_sets v')) \<le> length (vs_region (vs_sets v)) + 36 * length (members_of (d # ds))"
    using IH(5) wlen by (simp add: members_of_def)
  moreover have "length (vs_sets v') \<le> length (vs_sets v) + length (d # ds)"
    using IH(6) nlen(2) arg_cong [OF px, of length] by (simp add: w_def)
  ultimately show ?case using step IH(1) by (intro exI [of _ v']) simp
qed

section \<open>The order of the daemons\<close>

lemma put_mset: "\<forall>x \<in> set xs. c x \<noteq> 0 \<Longrightarrow> mset (skl_put c v xs) = add_mset v (mset xs)"
  by (induction xs) auto

lemma compare_zero: "G_compare_daemon_vs_set c a b = 0 \<Longrightarrow> conf_pos c (dm_proc a) = conf_pos c (dm_proc b)"
  by (auto simp: G_compare_daemon_vs_set_def Let_def split: if_splits)

lemma vs_order_mset:
  assumes "distinct (map (\<lambda>d. conf_pos c (dm_proc d)) ds)"
  shows "mset (vs_order c ds) = mset ds"
proof -
  have "mset (fold (\<lambda>d. skl_put (\<lambda>e. G_compare_daemon_vs_set c e d) d) ds acc) = mset ds + mset acc"
    if "distinct (map (\<lambda>d. conf_pos c (dm_proc d)) (acc @ ds))" for acc
    using that
  proof (induction ds arbitrary: acc)
    case (Cons d ds)
    let ?acc = "skl_put (\<lambda>e. G_compare_daemon_vs_set c e d) d acc"
    have "\<forall>e \<in> set acc. G_compare_daemon_vs_set c e d \<noteq> 0"
      using Cons.prems compare_zero by (fastforce simp: image_iff)
    then have m: "mset ?acc = add_mset d (mset acc)" by (rule put_mset)
    then have "mset (map (\<lambda>d. conf_pos c (dm_proc d)) (?acc @ ds)) = mset (map (\<lambda>d. conf_pos c (dm_proc d)) (acc @ d # ds))"
      by simp
    then have "distinct (map (\<lambda>d. conf_pos c (dm_proc d)) (?acc @ ds))" using Cons.prems by (metis mset_eq_imp_distinct_iff)
    from Cons.IH [OF this] show ?case using m by simp
  qed simp
  from this [of "[]"] assms show ?thesis by (simp add: vs_order_def)
qed

section \<open>The message\<close>

definition vs_bytes :: "group \<Rightarrow> byte list list list \<Rightarrow> int \<Rightarrow> byte list" where
  "vs_bytes g sets off = concat (group_members g) @ enc_group_id (g_gid g) @ int32_bytes (length sets) @
     bytes32 (word_of_int off) @ vs_region sets"

definition vs_header :: "group \<Rightarrow> int32u \<Rightarrow> byte list list list \<Rightarrow> message_header" where
  "vs_header g caused sets = (memb_header g caused)\<lparr>mh_data_len := 20 + int (length (vs_region sets))\<rparr>"

lemma vs_buf_core:
  assumes g: "fits g" and known: "\<forall>d \<in> set (g_daemons g). conf_pos (dmn s) (dm_proc d) > - 1"
    and dist: "distinct (map (\<lambda>d. conf_pos (dmn s) (dm_proc d)) (g_daemons g))"
    and j: "case j of None \<Rightarrow> True | Some nm \<Rightarrow> nm \<in> set (group_members g) \<and>
      (\<forall>m \<in> set (group_members g). cstr m = cstr nm \<longrightarrow> m = nm)"
  shows "\<exists>sets off. G_build_memb_vs_buf g caused j s = Some (vs_header g caused sets, vs_bytes g sets off) \<and>
    mset (concat sets) = mset (group_members g) \<and> length (vs_region sets) \<le> 36 * max_members + 36 \<and>
    (\<forall>d \<in> set (g_daemons g). dm_proc d = My_id s \<longrightarrow> located j (dm_members d) sets off) \<and>
    (case j of None \<Rightarrow> True | Some nm \<Rightarrow> last sets = [nm] \<and> sets \<noteq> [])"
proof -
  let ?ds = "vs_order (dmn s) (g_daemons g)"
  have m: "mset ?ds = mset (g_daemons g)" by (rule vs_order_mset [OF dist])
  then have mem: "set ?ds = set (g_daemons g)" by (metis set_mset_mset)
  have "distinct (map (\<lambda>d. conf_pos (dmn s) (dm_proc d)) ?ds)" using dist m by (metis mset_eq_imp_distinct_iff mset_map)
  then have dp: "distinct (map dm_proc ?ds)" by (force simp: distinct_map inj_on_def)
  have mm: "mset (members_of ?ds) = mset (group_members g)" using m by (simp add: group_members_eq mset_members)
  have "length (members_of ?ds) = length (group_members g)" using mset_eq_length [OF mm] .
  then have len: "length (members_of ?ds) \<le> max_members" using g by (simp add: fits_def)
  have "\<forall>d \<in> set ?ds. dm_members d \<noteq> [] \<and> (\<forall>m \<in> set (dm_members d). length m = 32)"
    using g mem by (auto simp: fits_def group_members_def)
  from vs_run [OF _ this dp, of vs_start "My_id s" j] obtain v where v:
    "forM ?ds (vs_step (My_id s) j) vs_start = Some v" "concat (vs_sets v) = left j False ?ds"
    "vs_found v = found_in j False ?ds" "length (vs_region (vs_sets v)) \<le> 36 * length (members_of ?ds)"
    "\<forall>d \<in> set ?ds. dm_proc d = My_id s \<longrightarrow> located j (dm_members d) (vs_sets v) (vs_offset v)"
    by (auto simp: vs_start_def vs_inv_def Is_unknown_memb_id_def unknown_memb_id_def vs_region_simps)
  define sets where "sets = vs_sets v @ (case j of None \<Rightarrow> [] | Some nm \<Rightarrow> [[nm]])"
  have found: "j \<noteq> None \<longrightarrow> vs_found v"
    and all: "mset (concat sets) = mset (group_members g)"
  proof -
    have "(j \<noteq> None \<longrightarrow> vs_found v) \<and> mset (concat sets) = mset (group_members g)"
    proof (cases j)
      case None
      then show ?thesis using v(2) mm by (simp add: sets_def left_None)
    next
      case (Some nm)
      have "set (members_of ?ds) = set (group_members g)" using mm by (metis set_mset_mset)
      then have "found_in (Some nm) False ?ds \<and> add_mset nm (mset (left (Some nm) False ?ds)) = mset (members_of ?ds)"
        using j Some by (intro left_present) auto
      then show ?thesis using v(2,3) mm Some by (simp add: sets_def)
    qed
    then show "j \<noteq> None \<longrightarrow> vs_found v" "mset (concat sets) = mset (group_members g)" by auto
  qed
  have "located j (dm_members d) sets (vs_offset v)" if din: "d \<in> set (g_daemons g)" "dm_proc d = My_id s" for d
  proof -
    have "located j (dm_members d) (vs_sets v) (vs_offset v)" using v(5) din mem by blast
    then obtain pre x post where "vs_sets v = pre @ x # post" "vs_offset v = int (length (vs_region pre))"
      "\<forall>m \<in> set (dm_members d). (case j of None \<Rightarrow> True | Some nm \<Rightarrow> cstr m \<noteq> cstr nm) \<longrightarrow> m \<in> set x"
      unfolding located_def by blast
    then show ?thesis unfolding located_def sets_def by (metis append.assoc append_Cons)
  qed
  moreover have "length (vs_region sets) \<le> 36 * max_members + 36"
  proof -
    have "length nm = 32" if "j = Some nm" for nm using j g that by (auto simp: fits_def)
    then have "length (vs_region sets) \<le> length (vs_region (vs_sets v)) + 36"
      by (auto simp: sets_def vs_region_simps enc_vs_set_def split: option.split)
    then show ?thesis using v(4) len by linarith
  qed
  moreover have "G_build_memb_vs_buf g caused j s = Some (vs_header g caused sets, vs_bytes g sets (vs_offset v))"
    using v(1) found known
    by (cases j) (simp_all add: G_build_memb_vs_buf_def G_build_memb_buf_def Let_def sets_def vs_header_def vs_bytes_def
        memb_header_def sizeof_group_id_def list_all_iff)
  ultimately show ?thesis using all
    by (intro exI [of _ sets] exI [of _ "vs_offset v"]) (auto simp: sets_def split: option.split)
qed

definition vs_message_bytes :: "group \<Rightarrow> byte list list list \<Rightarrow> int \<Rightarrow> byte list" where
  "vs_message_bytes g sets off = enc_message_header (vs_header g CAUSED_BY_NETWORK sets) @ vs_bytes g sets off"

lemma vs_message_ok:
  assumes g: "fits g" and r: "length (vs_region sets) \<le> 36 * max_members + 36"
  shows "\<exists>m. memb_message (vs_header g CAUSED_BY_NETWORK sets) (vs_bytes g sets off) = Some m \<and> wf_mess m \<and>
    contents m = vs_message_bytes g sets off"
proof -
  have "length (vs_bytes g sets off) \<le> 143552"
    using g r by (simp add: fits_def length_concat_32 max_members_def vs_bytes_def)
  moreover have "\<not> has (mh_type (vs_header g CAUSED_BY_NETWORK sets)) REJECT_MESS"
    using bits_not_reject [of CAUSED_BY_NETWORK] by (simp add: vs_header_def memb_header_def)
  moreover have "wf_message_header (vs_header g CAUSED_BY_NETWORK sets)"
    unfolding vs_header_def by (rule memb_header_wf [OF g]) (use r in \<open>simp_all add: max_members_def\<close>)
  ultimately show ?thesis using memb_message_ok [of "vs_header g CAUSED_BY_NETWORK sets"] by (auto simp: vs_message_bytes_def)
qed

lemma heavy_sends:
  assumes g: "fits g" and known: "\<forall>d \<in> set (g_daemons g). conf_pos (dmn s) (dm_proc d) > - 1"
    and dist: "distinct (map (\<lambda>d. conf_pos (dmn s) (dm_proc d)) (g_daemons g))"
    and j: "case j of None \<Rightarrow> True | Some nm \<Rightarrow> nm \<in> set (group_members g) \<and>
      (\<forall>m \<in> set (group_members g). cstr m = cstr nm \<longrightarrow> m = nm)"
    and bs: "distinct (g_mboxes g)" "\<forall>b \<in> set (g_mboxes g). reader_ok (Suc (Suc k)) s b"
    and nb: "nb \<noteq> - 1 \<longrightarrow> j \<noteq> None \<and> reader_ok (Suc (Suc k)) s nb"
  shows "\<exists>s' out. G_send_heavyweight_join g j nb s = Some s' \<and> sent_to 2 out s s'"
proof -
  from vs_buf_core [OF g known dist j, of CAUSED_BY_NETWORK] obtain sets off where
    vs: "G_build_memb_vs_buf g CAUSED_BY_NETWORK j s = Some (vs_header g CAUSED_BY_NETWORK sets, vs_bytes g sets off)"
      "length (vs_region sets) \<le> 36 * max_members + 36" by blast
  obtain m where m: "memb_message (vs_header g CAUSED_BY_NETWORK sets) (vs_bytes g sets off) = Some m" "wf_mess m"
    using vs_message_ok [OF g vs(2)] by blast
  let ?bs = "filter (\<lambda>b. \<not> (j \<noteq> None \<and> nb = b)) (g_mboxes g)"
  from notify_sends [of ?bs "Suc k" s m] bs m(2) obtain s1 where
    s1: "notify m ?bs s = Some s1" "sent_to 1 (\<lambda>b. if b \<in> set ?bs then contents m else []) s s1" by auto
  show ?thesis
  proof (cases "nb = - 1")
    case True
    then have "G_send_heavyweight_join g j nb s = Some s1"
      using vs(1) m(1) s1(1) by (simp add: G_send_heavyweight_join_def)
    then show ?thesis using sent_trans [OF s1(2) sent_none [of 1], unfolded one_add_one] by blast
  next
    case False
    let ?off = "int (length (vs_region sets)) - 36"
    obtain jm where jm: "memb_message (vs_header g CAUSED_BY_NETWORK sets) (vs_bytes g sets ?off) = Some jm" "wf_mess jm"
      using vs_message_ok [OF g vs(2)] by blast
    have n32: "length (concat (group_members g)) = 32 * length (group_members g)"
      using g by (intro length_concat_32) (simp add: fits_def)
    have at: "put_bytes (vs_bytes g sets off) (mh_num_groups (vs_header g CAUSED_BY_NETWORK sets) * int MAX_GROUP_NAME + sizeof_group_id + 4)
      (bytes32 (word_of_int (mh_data_len (vs_header g CAUSED_BY_NETWORK sets) - (4 + int MAX_GROUP_NAME) - (sizeof_group_id + 8)))) =
        Some (vs_bytes g sets ?off)"
    proof -
      let ?pre = "concat (group_members g) @ enc_group_id (g_gid g) @ int32_bytes (length sets)"
      have "put_bytes (?pre @ bytes32 (word_of_int off) @ vs_region sets) (int (length ?pre)) (bytes32 (word_of_int ?off)) =
        Some (?pre @ bytes32 (word_of_int ?off) @ vs_region sets)"
        by (rule put_bytes_at) simp_all
      moreover have e1: "mh_num_groups (vs_header g CAUSED_BY_NETWORK sets) * int MAX_GROUP_NAME + sizeof_group_id + 4 = int (length ?pre)"
        using g n32 by (simp add: vs_header_def memb_header_def fits_def MAX_GROUP_NAME_eq sizeof_group_id_def)
      moreover have e2: "mh_data_len (vs_header g CAUSED_BY_NETWORK sets) - (4 + int MAX_GROUP_NAME) - (sizeof_group_id + 8) = ?off"
        by (simp add: vs_header_def MAX_GROUP_NAME_eq sizeof_group_id_def)
      ultimately show ?thesis unfolding e1 e2 vs_bytes_def by simp
    qed
    have "reader_ok (Suc k) s1 nb" using s1(2) nb False unfolding sent_to_def by (metis plus_1_eq_Suc)
    from notify_sends [of "[nb]" k s1 jm] this jm(2) obtain s2 where
      s2: "notify jm [nb] s1 = Some s2" "sent_to 1 (\<lambda>b. if b \<in> set [nb] then contents jm else []) s1 s2" by auto
    have "G_send_heavyweight_join g j nb s = Some s2"
      using vs(1) m(1) s1(1) False at jm(1) s2(1) by (simp add: G_send_heavyweight_join_def)
    then show ?thesis using sent_trans [OF s1(2) s2(2), unfolded one_add_one] by blast
  qed
qed

end
