(* ===== verification/Group_joins.thy ===== *)
theory Group_joins
  imports Vs_sets
begin

text \<open>
  What a well-formed group gives its readers, and the two halves of a join: the group of the given
  name, found or made, and the joiner's daemon in it.
\<close>

section \<open>Facts of a well-formed group\<close>

lemma daemons_distinct:
  assumes "daemons_in_order s ds"
  shows "distinct (map (\<lambda>d. conf_pos (dmn s) (dm_proc d)) ds)" "distinct (map dm_proc ds)"
proof -
  show d: "distinct (map (\<lambda>d. conf_pos (dmn s) (dm_proc d)) ds)"
    using daemon_index.distinct_keys [of "dmn s" ds] assms by (simp add: daemons_in_order_def)
  then show "distinct (map dm_proc ds)" by (force simp: distinct_map inj_on_def)
qed

lemma locals_eq:
  assumes "distinct (map dm_proc ds)" and "d \<in> set ds" and "dm_proc d = my"
  shows "locals my ds = dm_members d"
  using assms
proof (induction ds)
  case (Cons e es)
  have none: "locals my es = []" if "my \<notin> dm_proc ` set es"
    using that by (induction es) (auto simp: locals_def)
  show ?case
  proof (cases "e = d")
    case True
    then show ?thesis using Cons.prems none by (auto simp: locals_def)
  next
    case False
    then have "dm_proc e \<noteq> my" using Cons.prems by auto
    then show ?thesis using Cons False by (auto simp: locals_def)
  qed
qed simp

lemma locals_members: "m \<in> set (locals my ds) \<Longrightarrow> \<exists>d \<in> set ds. dm_proc d = my \<and> m \<in> set (dm_members d)"
  by (auto simp: locals_def)

lemma members_canon:
  assumes "\<forall>d \<in> set ds. daemon_ok s d" and "m \<in> set (members_of ds)"
  shows "canon m" "\<exists>pid. home s m = Some pid"
  using assms by (auto simp: members_of_def daemon_ok_def)

lemma mboxes_distinct:
  assumes ok: "conf_ok (dmn s)" "dir_ok s" and ord: "daemons_in_order s ds" and d: "\<forall>d \<in> set ds. daemon_ok s d"
    and eq: "mset (map Some bs) = mset (map (box s) (locals (My_id s) ds))"
  shows "distinct bs"
proof -
  have "distinct (locals (My_id s) ds)"
  proof (cases "\<exists>d \<in> set ds. dm_proc d = My_id s")
    case True
    then obtain e where e: "e \<in> set ds" "dm_proc e = My_id s" by blast
    then have "distinct (map cstr (dm_members e))"
      using d member_index.distinct_keys by (auto simp: daemon_ok_def)
    then show ?thesis using locals_eq [OF daemons_distinct(2) [OF ord] e] by (simp add: distinct_map)
  next
    case False
    then have "filter (\<lambda>d. dm_proc d = My_id s) ds = []" by (simp add: filter_empty_conv)
    then show ?thesis by (simp add: locals_def)
  qed
  moreover have "inj_on (box s) (set (locals (My_id s) ds))"
  proof (rule inj_onI)
    fix a b assume ab: "a \<in> set (locals (My_id s) ds)" "b \<in> set (locals (My_id s) ds)" "box s a = box s b"
    have "box s a \<in> set_mset (mset (map Some bs))" unfolding eq using ab(1) by simp
    then obtain x where "box s a = Some x" by auto
    moreover have "canon a" "canon b" "home s a = Some (My_id s)" "home s b = Some (My_id s)"
      using ab(1,2) d by (auto dest!: locals_members simp: daemon_ok_def)
    ultimately show "a = b" using box_inj [OF ok] ab(3) by metis
  qed
  ultimately have "distinct (map (box s) (locals (My_id s) ds))" by (simp add: distinct_map)
  then have "distinct (map Some bs)" using eq by (metis mset_eq_imp_distinct_iff)
  then show ?thesis by (simp add: distinct_map)
qed

lemma group_fits:
  assumes "group_ok s g" and "length (group_members g) \<le> max_members"
  shows "fits g"
proof -
  have "length m = 32" if "m \<in> set (group_members g)" for m
    using that assms(1) canon_length by (auto simp: group_ok_def daemon_ok_def group_members_def)
  then show ?thesis using assms canon_length by (auto simp: fits_def group_ok_def daemon_ok_def)
qed

lemma group_known: "group_ok s g \<Longrightarrow> \<forall>d \<in> set (g_daemons g). conf_pos (dmn s) (dm_proc d) > - 1"
  by (simp add: group_ok_def daemon_ok_def)

lemma group_mboxes: "server_ok s \<Longrightarrow> group_ok s g \<Longrightarrow> distinct (g_mboxes g)"
  by (rule mboxes_distinct) (simp_all add: server_ok_def group_ok_def)

section \<open>Notifying a whole group\<close>

definition readers :: "nat \<Rightarrow> server \<Rightarrow> group \<Rightarrow> bool" where
  "readers k s g \<longleftrightarrow> (\<forall>b \<in> set (g_mboxes g). reader_ok k s b)"

lemma three: "3 + k = Suc (Suc (Suc k))" for k :: nat
  by simp

text \<open>The three kinds of notice, each at most three messages.\<close>

lemma sent_more:
  assumes "sent_to n out s s'" and "n \<le> m"
  shows "sent_to m out s s'"
proof -
  have "reader_ok j s' b \<and> stream_at s' b = stream_at s b @ (if reads s b then out b else [])"
    if "reader_ok (m + j) s b" for b j
    using assms(1) reader_ok_mono [OF that, of "n + j"] assms(2) by (auto simp: sent_to_def)
  then show ?thesis using assms(1) by (simp add: sent_to_def)
qed

lemma heavy_and_trans:
  assumes sok: "server_ok s" and g: "group_ok s g" and max: "length (group_members g) \<le> max_members"
    and j: "case j of None \<Rightarrow> nb = - 1 | Some nm \<Rightarrow> nm \<in> set (group_members g) \<and> (nb \<noteq> - 1 \<longrightarrow> nb \<in> set (g_mboxes g))"
    and r: "readers (3 + k) s g"
  shows "\<exists>s1 s2 out. G_send_heavyweight_join g j nb s = Some s1 \<and> G_send_trans_memb g s1 = Some s2 \<and> sent_to 3 out s s2"
proof -
  note fit = group_fits [OF g max]
  have jc: "case j of None \<Rightarrow> True | Some nm \<Rightarrow> nm \<in> set (group_members g) \<and>
      (\<forall>m \<in> set (group_members g). cstr m = cstr nm \<longrightarrow> m = nm)"
  proof (cases j)
    case (Some nm)
    have "canon m" if "m \<in> set (group_members g)" for m
      using that g members_canon(1) [of "g_daemons g" s m] by (auto simp: group_ok_def group_members_eq)
    then show ?thesis using j Some canon_inj by auto
  qed simp
  have dist: "distinct (map (\<lambda>d. conf_pos (dmn s) (dm_proc d)) (g_daemons g))"
    using g daemons_distinct(1) by (simp add: group_ok_def)
  have r2: "\<forall>b \<in> set (g_mboxes g). reader_ok (Suc (Suc (Suc k))) s b" using r by (simp add: readers_def three)
  have nb: "nb \<noteq> - 1 \<longrightarrow> j \<noteq> None \<and> reader_ok (Suc (Suc (Suc k))) s nb" using j r2 by (auto split: option.splits)
  from heavy_sends [OF fit group_known [OF g] dist jc group_mboxes [OF sok g] r2 nb] obtain s1 o1 where
    h: "G_send_heavyweight_join g j nb s = Some s1" "sent_to 2 o1 s s1" by blast
  have "\<forall>b \<in> set (g_mboxes g). reader_ok (Suc k) s1 b"
    using r2 h(2) by (auto simp: sent_to_def numeral_2_eq_2)
  moreover have "canon (g_name g)" using g by (simp add: group_ok_def)
  ultimately obtain s2 where t: "G_send_trans_memb g s1 = Some s2"
    "sent_to 1 (\<lambda>b. if b \<in> set (g_mboxes g) then trans_bytes g else []) s1 s2"
    using trans_sends [of g k s1] group_mboxes [OF sok g] by blast
  have "sent_to 3 (\<lambda>b. o1 b @ (if b \<in> set (g_mboxes g) then trans_bytes g else [])) s s2"
    using sent_trans [OF h(2) t(2)] by simp
  then show ?thesis using h(1) t(1) by blast
qed

lemma notify_join_sends:
  assumes sok: "server_ok s" and g: "group_ok s g" and max: "length (group_members g) \<le> max_members"
    and nm: "name \<in> set (group_members g)" "nb \<noteq> - 1 \<longrightarrow> nb \<in> set (g_mboxes g)" and r: "readers (3 + k) s g"
  shows "\<exists>s' out. notify_join g name nb s = Some s' \<and> sent_to 3 out s s' \<and>
    (\<not> g_changed g \<longrightarrow> out = (\<lambda>b. if b \<in> set (g_mboxes g) then light_bytes g CAUSED_BY_JOIN name else []))"
proof -
  have len: "length name = 32" using g nm(1) members_canon(1) [of "g_daemons g" s name] canon_length
    by (auto simp: group_ok_def group_members_eq)
  have r1: "\<forall>b \<in> set (g_mboxes g). reader_ok (Suc (2 + k)) s b" using r by (simp add: readers_def three)
  show ?thesis
  proof (cases "g_mboxes g = []")
    case True
    then show ?thesis using sent_none [of 3 s] by (auto simp: notify_join_def)
  next
    case False
    show ?thesis
    proof (cases "g_changed g")
      case True
      from heavy_and_trans [OF sok g max _ r, where j = "Some name" and nb = nb] nm False True show ?thesis
        by (auto simp: notify_join_def)
    next
      case nc: False
      from lightweight_sends [OF group_fits [OF g max] _ len group_mboxes [OF sok g] r1, of CAUSED_BY_JOIN]
      obtain s' where "G_send_lightweight_memb g CAUSED_BY_JOIN name s = Some s'"
        "sent_to 1 (\<lambda>b. if b \<in> set (g_mboxes g) then light_bytes g CAUSED_BY_JOIN name else []) s s'" by auto
      then show ?thesis using nc False sent_more [of 1 _ s s' 3] by (auto simp: notify_join_def)
    qed
  qed
qed

lemma notify_departure_sends:
  assumes sok: "server_ok s" and g: "group_ok s g" and max: "length (group_members g) \<le> max_members"
    and len: "length name = 32" and caused: "caused \<in> {CAUSED_BY_LEAVE, CAUSED_BY_DISCONNECT}" and r: "readers (3 + k) s g"
  shows "\<exists>s' out. notify_departure caused name (Some g, s) = Some s' \<and> sent_to 3 out s s' \<and>
    (\<not> g_changed g \<longrightarrow> out = (\<lambda>b. if b \<in> set (g_mboxes g) then light_bytes g caused name else []))"
proof -
  have r1: "\<forall>b \<in> set (g_mboxes g). reader_ok (Suc (2 + k)) s b" using r by (simp add: readers_def three)
  show ?thesis
  proof (cases "g_mboxes g = []")
    case True
    then show ?thesis using sent_none [of 3 s] by (auto simp: notify_departure_def)
  next
    case False
    show ?thesis
    proof (cases "g_changed g")
      case True
      from heavy_and_trans [OF sok g max _ r, where j = None and nb = "- 1"] False True show ?thesis
        by (auto simp: notify_departure_def G_send_heavyweight_memb_def)
    next
      case nc: False
      from lightweight_sends [OF group_fits [OF g max] _ len group_mboxes [OF sok g] r1, of caused] caused
      obtain s' where "G_send_lightweight_memb g caused name s = Some s'"
        "sent_to 1 (\<lambda>b. if b \<in> set (g_mboxes g) then light_bytes g caused name else []) s s'" by auto
      then show ?thesis using nc False sent_more [of 1 _ s s' 3] by (auto simp: notify_departure_def)
    qed
  qed
qed

section \<open>Joining\<close>

lemma private_lengths:
  assumes "G_private_to_names nm = Some (Some (priv, pn))"
  shows "length (cstr nm) < MAX_GROUP_NAME"
proof -
  have "length priv \<le> 10" "length pn < 20"
    using assms by (auto simp: G_private_to_names_def Let_def MAX_PRIVATE_NAME_def MAX_PROC_NAME_def split: if_splits)
  then show ?thesis using private_names(1) [OF assms] by (simp add: MAX_GROUP_NAME_eq)
qed

definition readers_ok :: "nat \<Rightarrow> server \<Rightarrow> bool" where
  "readers_ok k s \<longleftrightarrow> (\<forall>g \<in> set (GroupsList s). readers k s g)"

lemma sent_readers_ok: "sent_to n out s s' \<Longrightarrow> readers_ok (n + k) s \<Longrightarrow> readers_ok k s'"
  using quiet_server(1) [of s s'] by (auto simp: sent_to_def readers_ok_def readers_def)

lemma sent_server_ok: "sent_to n out s s' \<Longrightarrow> server_ok s \<Longrightarrow> server_ok s'"
  using quiet_server_ok sent_quiet by blast

text \<open>A group that may still be empty.\<close>

definition group_pre :: "server \<Rightarrow> group \<Rightarrow> bool" where
  "group_pre s g \<longleftrightarrow> canon (g_name g) \<and> daemons_in_order s (g_daemons g) \<and>
     (\<forall>d \<in> set (g_daemons g). daemon_ok s d) \<and> g_num_members g = int (length (group_members g)) \<and>
     mset (map Some (g_mboxes g)) = mset (map (box s) (locals (My_id s) (g_daemons g)))"

lemma group_ok_pre: "group_ok s g \<longleftrightarrow> group_pre s g \<and> g_daemons g \<noteq> []"
  by (auto simp: group_ok_def group_pre_def)

lemma put_server_ok:
  assumes sok: "server_ok s" and st: "groups_step s s1" and ord: "groups_in_order (GroupsList s1)"
    and old: "\<forall>h \<in> set (GroupsList s1). cstr (g_name h) \<noteq> cstr (g_name g) \<longrightarrow> h \<in> set (GroupsList s)"
    and g: "group_ok s g"
  shows "server_ok (put_group g s1)"
proof -
  have st2: "groups_step s (put_group g s1)" using groups_step_trans [OF st] by simp
  note same = groups_step_same [OF st2]
  have "\<forall>h \<in> set (GroupsList (put_group g s1)). group_ok s h"
    using g old sok put_group_spec(2) [OF ord, of g] by (auto simp: server_ok_def)
  then show ?thesis using sok put_group_spec(1) [OF ord] same by (simp add: server_ok_def)
qed

lemma join_group_spec:
  assumes sok: "server_ok s" and len: "length (cstr gn) < MAX_GROUP_NAME"
  shows "\<exists>g s1. join_group gn s = Some (g, s1) \<and> groups_step s s1 \<and> group_pre s g \<and> cstr (g_name g) = cstr gn \<and>
    groups_in_order (GroupsList s1) \<and> g \<in> set (GroupsList s1) \<and>
    (\<forall>h \<in> set (GroupsList s1). cstr (g_name h) \<noteq> cstr (g_name g) \<longrightarrow> h \<in> set (GroupsList s)) \<and>
    view s1 = view s \<and> cstr ` set (group_members g) = view s (cstr gn) \<and>
    (g \<in> set (GroupsList s) \<and> s1 = s \<or> g_mboxes g = [] \<and> g_daemons g = []) \<and>
    (g_changed g \<longrightarrow> g \<in> set (GroupsList s))"
proof -
  have ord: "groups_in_order (GroupsList s)" using sok by (simp add: server_ok_def)
  show ?thesis
  proof (cases "G_get_group gn s")
    case (Some g)
    then have g: "g \<in> set (GroupsList s)" "cstr (g_name g) = cstr gn" using get_group_iff [OF ord] by auto
    have "group_pre s g" using g(1) sok by (auto simp: server_ok_def group_ok_pre)
    then show ?thesis using Some g ord view_of_group [OF ord g(1)] by (auto simp: join_group_def)
  next
    case None
    obtain nm where nm: "strcpy MAX_GROUP_NAME gn = Some nm" using len by (simp add: strcpy_def)
    note cn = strcpy_canon [OF nm]
    let ?g = "\<lparr>g_name = nm, g_gid = fresh_gid s, g_changed = False, g_num_members = 0, g_daemons = [], g_mboxes = []\<rparr>"
    let ?s1 = "count_groups 1 (put_group ?g s)"
    have gl: "GroupsList ?s1 = GroupsList (put_group ?g s)" by (simp add: count_groups_def upd_dmn_def)
    have "view ?s1 = view (put_group ?g s)" by (simp add: view_def fun_eq_iff gl)
    also have "\<dots> = (view s)(cstr gn := {})" using view_put [OF ord, of ?g] cn by (simp add: group_members_def)
    also have "\<dots> = view s" using view_no_group [OF ord None] by (simp add: fun_upd_idem)
    finally have v: "view ?s1 = view s" .
    have "join_group gn s = Some (?g, ?s1)" using None nm by (simp add: join_group_def Let_def)
    moreover have "groups_step s ?s1" using groups_step_trans [of s "put_group ?g s"] by simp
    moreover have "group_pre s ?g" using cn by (simp add: group_pre_def daemons_in_order_def group_members_def locals_def)
    moreover have "groups_in_order (GroupsList ?s1)" "set (GroupsList ?s1) = insert ?g {h \<in> set (GroupsList s). cstr (g_name h) \<noteq> cstr nm}"
      using put_group_spec [OF ord, of ?g] by (simp_all add: gl)
    moreover have "cstr ` set (group_members ?g) = view s (cstr gn)"
      using view_no_group [OF ord None] by (simp add: group_members_def)
    ultimately show ?thesis using v cn by (intro exI [of _ ?g] exI [of _ ?s1]) auto
  qed
qed

text \<open>The daemon of the joiner, found or made, and the member in it.\<close>

lemma join_daemon_spec:
  assumes conf: "conf_ok (dmn s)" and g: "group_pre s g" and st: "groups_step s s1"
    and name: "canon name" "home s name = Some pid"
  shows "\<exists>d g1. join_daemon pid g s1 = Some (d, g1) \<and> dm_proc d = pid \<and>
    (G_get_member d name \<noteq> None \<longrightarrow> g1 = g \<and> g_daemons g \<noteq> [] \<and> cstr name \<in> cstr ` set (group_members g)) \<and>
    (G_get_member d name = None \<longrightarrow> (\<forall>d \<in> set (g_daemons g). dm_proc d = pid \<longrightarrow> cstr name \<notin> cstr ` set (dm_members d)) \<and>
      (\<exists>ds. add_member name d g1 s1 = Some (bump (g\<lparr>g_daemons := ds, g_num_members := g_num_members g + 1\<rparr>)) \<and>
        grows s pid name (g_daemons g) ds))"
proof -
  note same = groups_step_same [OF st]
  have pre: "daemons_in_order s (g_daemons g)" "\<forall>d \<in> set (g_daemons g). daemon_ok s d" using g by (simp_all add: group_pre_def)
  have cp: "conf_pos (dmn s1) = conf_pos (dmn s)" by (simp add: fun_eq_iff same)
  have cfg: "by_conf (dmn s1) = by_conf (dmn s)" "daemons_known (dmn s1) = daemons_known (dmn s)"
    by (simp_all add: fun_eq_iff by_conf_def daemons_known_def cp)
  have cfg2: "G_get_daemon (dmn s1) = G_get_daemon (dmn s)" "put_daemon (dmn s1) = put_daemon (dmn s)"
    by (intro ext; simp add: G_get_daemon_def put_daemon_def cfg)+
  have am: "add_member name d g1 s1 = add_member name d g1 s" for d g1 by (simp add: add_member_def cfg2)
  from get_daemon_iff [OF pre conf name(2)] obtain r where r: "G_get_daemon (dmn s) g pid = Some r"
    "case r of None \<Rightarrow> \<forall>d \<in> set (g_daemons g). dm_proc d \<noteq> pid | Some d \<Rightarrow> d \<in> set (g_daemons g) \<and> dm_proc d = pid" by blast
  show ?thesis
  proof (cases r)
    case (Some d)
    then have d: "d \<in> set (g_daemons g)" "dm_proc d = pid" using r(2) by auto
    have dord: "in_order strcmp cstr (dm_members d)" using pre(2) d(1) by (simp add: daemon_ok_def)
    have uniq: "e = d" if "e \<in> set (g_daemons g)" "dm_proc e = pid" for e
      using daemons_distinct(2) [OF pre(1)] that d by (auto simp: distinct_map inj_on_def)
    have j: "join_daemon pid g s1 = Some (d, g)" using r(1) Some by (simp add: join_daemon_def cfg2)
    show ?thesis
    proof (cases "G_get_member d name")
      case None
      then have new: "\<forall>m \<in> set (dm_members d). cstr m \<noteq> cstr name" using get_member_iff [OF dord, of name] by force
      from add_to_daemon [OF pre name d new] obtain ds where
        "add_member name d g s = Some (bump (g\<lparr>g_daemons := ds, g_num_members := g_num_members g + 1\<rparr>))"
        "grows s pid name (g_daemons g) ds" by blast
      moreover have "\<forall>e \<in> set (g_daemons g). dm_proc e = pid \<longrightarrow> cstr name \<notin> cstr ` set (dm_members e)"
        using uniq new by fastforce
      ultimately show ?thesis using j d(2) None am by (intro exI [of _ d] exI [of _ g]) auto
    next
      case (Some m)
      then have m: "m \<in> set (dm_members d)" "cstr m = cstr name" using get_member_iff [OF dord] by auto
      have "m \<in> set (group_members g)" using m(1) d(1) by (auto simp: group_members_def)
      then have "cstr name \<in> cstr ` set (group_members g)" unfolding m(2) [symmetric] by (rule imageI)
      then show ?thesis using j d Some by (intro exI [of _ d] exI [of _ g]) auto
    qed
  next
    case None
    then have new: "\<forall>d \<in> set (g_daemons g). dm_proc d \<noteq> pid" using r(2) by simp
    let ?d = "\<lparr>dm_proc = pid, dm_memb = (if Gstate s1 = GOP \<or> Conf_id_in_conf (dmn s1) (G_Trans_memb s1) pid \<noteq> None
                      then gid_memb (g_gid g) else unknown_memb_id), dm_members = []\<rparr>"
    from add_new_daemon [OF pre conf name new, of ?d] obtain g1 ds where g1:
      "put_daemon (dmn s) ?d g = Some g1"
      "add_member name ?d g1 s = Some (bump (g\<lparr>g_daemons := ds, g_num_members := g_num_members g + 1\<rparr>))"
      "grows s pid name (g_daemons g) ds" by auto
    have "join_daemon pid g s1 = Some (?d, g1)" using r(1) None g1(1) by (simp add: join_daemon_def cfg2 Let_def)
    moreover have "G_get_member ?d name = None" by (simp add: G_get_member_def)
    ultimately show ?thesis using g1(2,3) new am by (intro exI [of _ ?d] exI [of _ g1]) auto
  qed
qed

end
