(* ===== verification/Group_refine.thy ===== *)
theory Group_refine
  imports Group_joins
begin

text \<open>
  Joins, leaves and disconnects refine sets of names: the handlers return, keep the invariant, and
  change the view the way the abstract operations do.
\<close>

section \<open>Views and lists\<close>

lemma members_distinct:
  assumes "server_ok s" and "g \<in> set (GroupsList s)"
  shows "distinct (map cstr (group_members g))"
proof -
  have g: "daemons_in_order s (g_daemons g)" "\<forall>d \<in> set (g_daemons g). daemon_ok s d"
    using assms by (simp_all add: server_ok_def group_ok_def)
  have one: "distinct (map cstr (dm_members d))" if "d \<in> set (g_daemons g)" for d
    using g(2) that member_index.distinct_keys by (auto simp: daemon_ok_def)
  have two: "dm_proc d = dm_proc e" if "d \<in> set (g_daemons g)" "e \<in> set (g_daemons g)"
    "x \<in> set (dm_members d)" "y \<in> set (dm_members e)" "cstr x = cstr y" for d e x y
  proof -
    have "canon x" "canon y" "home s x = Some (dm_proc d)" "home s y = Some (dm_proc e)"
      using g(2) that(1-4) by (auto simp: daemon_ok_def)
    then show ?thesis using canon_inj that(5) by (metis option.inject)
  qed
  have gen: "distinct (map cstr (members_of ds))" if "set ds \<subseteq> set (g_daemons g)" "distinct (map dm_proc ds)" for ds
    using that
  proof (induction ds)
    case (Cons d ds)
    have "cstr ` set (dm_members d) \<inter> cstr ` set (members_of ds) = {}"
    proof (rule ccontr)
      assume "cstr ` set (dm_members d) \<inter> cstr ` set (members_of ds) \<noteq> {}"
      then obtain x y e where "x \<in> set (dm_members d)" "e \<in> set ds" "y \<in> set (dm_members e)" "cstr x = cstr y"
        by (auto simp: members_of_def)
      then show False using two [of d e x y] Cons.prems by auto
    qed
    then show ?case using Cons one [of d] by (simp add: members_of_def)
  qed (simp add: members_of_def)
  show ?thesis unfolding group_members_eq by (rule gen [OF subset_refl daemons_distinct(2) [OF g(1)]])
qed

lemma view_card:
  assumes "server_ok s" and "g \<in> set (GroupsList s)"
  shows "card (view s (cstr (g_name g))) = length (group_members g)"
proof -
  have "view s (cstr (g_name g)) = set (map cstr (group_members g))"
    using view_of_group [of s g] assms by (simp add: server_ok_def)
  then show ?thesis using distinct_card [OF members_distinct [OF assms]] by simp
qed

lemma groups_card:
  assumes "server_ok s"
  shows "length (GroupsList s) = card {k. view s k \<noteq> {}}"
proof -
  have ord: "groups_in_order (GroupsList s)" using assms by (simp add: server_ok_def)
  have "group_members g \<noteq> []" if "g \<in> set (GroupsList s)" for g
  proof -
    have "group_ok s g" using assms that by (simp add: server_ok_def)
    then have "set (g_daemons g) \<noteq> {}" "\<forall>d \<in> set (g_daemons g). dm_members d \<noteq> []"
      by (simp_all add: group_ok_def daemon_ok_def)
    then show ?thesis unfolding group_members_def by auto
  qed
  then have "view s (cstr (g_name g)) \<noteq> {}" if "g \<in> set (GroupsList s)" for g
    using view_of_group [OF ord that] that by simp
  then have "{k. view s k \<noteq> {}} = set (map (\<lambda>g. cstr (g_name g)) (GroupsList s))"
    by (auto simp: view_def)
  moreover have "distinct (map (\<lambda>g. cstr (g_name g)) (GroupsList s))"
    using group_index.distinct_keys ord by (simp add: groups_in_order_def)
  ultimately show ?thesis using distinct_card by fastforce
qed

section \<open>What an operation keeps\<close>

text \<open>
  The handlers of one operation move no member between daemons or mailboxes, and no session is sent
  more than \<open>n\<close> messages.
\<close>

definition kept :: "nat \<Rightarrow> server \<Rightarrow> server \<Rightarrow> bool" where
  "kept n s s' \<longleftrightarrow> server_ok s' \<and> Gstate s' = Gstate s \<and> home s' = home s \<and> box s' = box s \<and> My_id s' = My_id s \<and>
     mbox_at s' = mbox_at s \<and> (\<forall>b j. reader_ok (n + j) s b \<longrightarrow> reader_ok j s' b)"

lemma kept_trans: "kept n s t \<Longrightarrow> kept m t u \<Longrightarrow> kept (n + m) s u"
  by (auto simp: kept_def add.assoc)

lemma kept_refl: "server_ok s \<Longrightarrow> kept n s s"
  using reader_ok_mono [of _ s] by (auto simp: kept_def)

lemma kept_mono:
  assumes "kept n s s'" and "n \<le> m"
  shows "kept m s s'"
proof -
  have "reader_ok j s' b" if "reader_ok (m + j) s b" for b j
    using assms reader_ok_mono [OF that, of "n + j"] by (auto simp: kept_def)
  then show ?thesis using assms(1) by (simp add: kept_def)
qed

lemma sent_kept:
  assumes "sent_to n out s s'" and "server_ok s"
  shows "kept n s s'"
proof -
  note q = sent_quiet [OF assms(1)]
  have "dir_ok s" using assms(2) by (simp add: server_ok_def)
  then have "home s' = home s" "box s' = box s" using quiet_home [OF q] by (simp_all add: fun_eq_iff)
  then show ?thesis using assms sent_server_ok [OF assms] quiet_server(2) [OF q] quiet_conf(5) [OF q] quiet_sessions(2) [OF q]
    by (simp add: kept_def sent_to_def)
qed

lemma step_kept: "groups_step s s' \<Longrightarrow> server_ok s' \<Longrightarrow> kept 0 s s'"
  using groups_step_same [of s s'] groups_step_fields(1) [of s s'] by (simp add: kept_def groups_step_def mbox_at_def fun_eq_iff)

text \<open>Sessions in groups have room for as many messages.\<close>

lemma kept_readers:
  assumes "kept n s s'" and "readers_ok (n + k) s" and "\<Union>(set ` g_mboxes ` set (GroupsList s')) \<subseteq> \<Union>(set ` g_mboxes ` set (GroupsList s))"
  shows "readers_ok k s'"
  using assms by (force simp: kept_def readers_ok_def readers_def)

lemma readers_of: "readers_ok k s \<Longrightarrow> g \<in> set (GroupsList s) \<Longrightarrow> readers k s g"
  by (simp add: readers_ok_def)

section \<open>Joins\<close>

text \<open>The joiner is put down in the group and its mailbox is added.\<close>

lemma grown_group:
  assumes g: "group_pre s g" and gr: "grows s pid name (g_daemons g) ds" and name: "home s name = Some pid"
    and b: "if pid = My_id s then box s name = Some mb \<and> bs = g_mboxes g @ [mb] else bs = g_mboxes g"
  shows "group_ok s (g\<lparr>g_gid := i, g_changed := c, g_daemons := ds, g_num_members := g_num_members g + 1, g_mboxes := bs\<rparr>)"
    "set (members_of ds) = insert name (set (group_members g))" "length (members_of ds) = Suc (length (group_members g))"
proof -
  have m: "mset (members_of ds) = add_mset name (mset (group_members g))"
    using gr by (simp add: grows_def group_members_eq)
  show "set (members_of ds) = insert name (set (group_members g))" using arg_cong [OF m, of set_mset] by simp
  show l: "length (members_of ds) = Suc (length (group_members g))" using arg_cong [OF m, of size] by simp
  have "mset (map Some bs) = mset (map (box s) (locals (My_id s) ds))"
  proof (cases "pid = My_id s")
    case True
    then have "mset (locals (My_id s) ds) = add_mset name (mset (locals (My_id s) (g_daemons g)))"
      using gr by (simp add: grows_def)
    then have "mset (map (box s) (locals (My_id s) ds)) = add_mset (box s name) (mset (map (box s) (locals (My_id s) (g_daemons g))))"
      by simp
    then show ?thesis using g b True by (simp add: group_pre_def)
  next
    case False
    then have "mset (locals (My_id s) ds) = mset (locals (My_id s) (g_daemons g))" using gr by (simp add: grows_def)
    then have "mset (map (box s) (locals (My_id s) ds)) = mset (map (box s) (locals (My_id s) (g_daemons g)))" by simp
    then show ?thesis using g b False by (simp add: group_pre_def)
  qed
  then show "group_ok s (g\<lparr>g_gid := i, g_changed := c, g_daemons := ds, g_num_members := g_num_members g + 1, g_mboxes := bs\<rparr>)"
    using g gr l by (simp add: group_ok_def group_pre_def grows_def group_members_eq)
qed

lemma joined_notified:
  assumes sok: "server_ok s" and st: "groups_step s s1" and ord: "groups_in_order (GroupsList s1)"
    and old: "\<forall>h \<in> set (GroupsList s1). cstr (g_name h) \<noteq> cstr (g_name g) \<longrightarrow> h \<in> set (GroupsList s)"
    and g: "group_ok s g" "length (group_members g) \<le> max_members" "name \<in> set (group_members g)"
      "nb \<noteq> - 1 \<longrightarrow> nb \<in> set (g_mboxes g)"
    and r: "readers_ok (3 + k) s" "readers (3 + k) s g"
  shows "\<exists>s'. notify_join g name nb (put_group g s1) = Some s' \<and> kept 3 s s' \<and> readers_ok k s' \<and>
    view s' = (view s1)(cstr (g_name g) := cstr ` set (group_members g))"
proof -
  let ?s2 = "put_group g s1"
  have st2: "groups_step s ?s2" using groups_step_trans [OF st] by simp
  note same = groups_step_same [OF st2]
  have ok2: "server_ok ?s2" by (rule put_server_ok [OF sok st ord old g(1)])
  have gl: "set (GroupsList ?s2) \<subseteq> insert g (set (GroupsList s))" using put_group_spec(2) [OF ord, of g] old by auto
  have r2: "readers_ok (3 + k) ?s2" "readers (3 + k) ?s2 g"
    using r gl by (auto simp: readers_ok_def readers_def same)
  have g2: "group_ok ?s2 g" using g(1) same by simp
  from notify_join_sends [OF ok2 g2 g(2,3,4) r2(2)] obtain s' out where
    s': "notify_join g name nb ?s2 = Some s'" "sent_to 3 out ?s2 s'" by blast
  have "kept 3 s s'" using kept_trans [OF step_kept [OF st2 ok2] sent_kept [OF s'(2) ok2]] by simp
  moreover have "readers_ok k s'" by (rule sent_readers_ok [OF s'(2) r2(1)])
  moreover have "view s' = (view s1)(cstr (g_name g) := cstr ` set (group_members g))"
    using quiet_view [OF sent_quiet [OF s'(2)]] view_put [OF ord, of g] by simp
  ultimately show ?thesis using s'(1) by blast
qed

text \<open>What the client of a joiner must be, and how full the group may be.\<close>

definition member_ok :: "nat \<Rightarrow> server \<Rightarrow> byte list \<Rightarrow> bool" where
  "member_ok k s p \<longleftrightarrow> (\<exists>parts. G_private_to_names p = Some (Some parts)) \<and>
     (home s p = Some (My_id s) \<longrightarrow> (\<exists>mb. box s p = Some mb \<and> reader_ok k s mb))"

lemma join_old:
  assumes "server_ok s" and "g \<in> set (GroupsList s)" and "readers_ok (3 + k) s"
  shows "kept 3 s (put_group g s)" "readers_ok k (put_group g s)" "view (put_group g s) = view s"
proof -
  have ord: "groups_in_order (GroupsList s)" using assms(1) by (simp add: server_ok_def)
  have "group_ok s g" using assms by (simp add: server_ok_def)
  then have "server_ok (put_group g s)" by (intro put_server_ok [OF assms(1) _ ord]) auto
  then have "kept 0 s (put_group g s)" by (intro step_kept) simp_all
  then show k: "kept 3 s (put_group g s)" by (rule kept_mono) simp
  show "view (put_group g s) = view s" using view_put [OF ord, of g] view_of_group [OF ord assms(2)] by (simp add: fun_upd_idem)
  show "readers_ok k (put_group g s)"
    by (rule kept_readers [OF k assms(3)]) (use put_group_spec(2) [OF ord, of g] assms(2) in auto)
qed

lemma add_mailbox_spec:
  assumes st: "groups_step s s1" and dir: "dir_ok s" and nm: "G_private_to_names name = Some (Some (priv, pn))"
    and b: "pid = My_id s \<longrightarrow> box s name = Some mb"
  shows "add_mailbox priv pid g s1 = Some (if pid = My_id s then mb else - 1,
    g\<lparr>g_mboxes := (if pid = My_id s then g_mboxes g @ [mb] else g_mboxes g)\<rparr>)"
proof (cases "pid = My_id s")
  case True
  then obtain ses where "Sess_get_session priv s = Some (Some ses)" "mb = mbox_at s ses"
    using b nm by (auto simp: box_def mbox_of_priv_def split: option.splits)
  then show ?thesis using True st groups_step_same(4,7) [OF st] groups_step_fields(1) [OF st]
    by (simp add: add_mailbox_def mbox_at_def Let_def)
qed (simp add: add_mailbox_def groups_step_same(4) [OF st])

lemma Join_core:
  assumes sok: "server_ok s" and gst: "Gstate s = GOP \<or> Gstate s = GTRANS" and gn: "length (cstr gn) < MAX_GROUP_NAME"
    and p: "member_ok (3 + k) s p" and small: "card (view s (cstr gn)) < max_members" and r: "readers_ok (3 + k) s"
  shows "\<exists>s'. G_handle_join p gn s = Some s' \<and> kept 3 s s' \<and> readers_ok k s' \<and>
    view s' = (if home s p = None then view s else (view s)(cstr gn := insert (cstr p) (view s (cstr gn))))"
proof -
  have gs: "\<not> (Gstate s = GGATHER \<or> Gstate s = GGT)" using gst by auto
  obtain priv pn where nm: "G_private_to_names p = Some (Some (priv, pn))" using p by (auto simp: member_ok_def)
  have h: "home s p = map_option p_id (proc_named pn s)" using nm by (simp add: home_def)
  show ?thesis
  proof (cases "proc_named pn s")
    case None
    have "readers_ok k s" using r reader_ok_mono [of "3 + k" s _ k] by (auto simp: readers_ok_def readers_def)
    then show ?thesis using gs nm None h kept_refl [OF sok] by (simp add: G_handle_join_def)
  next
    case (Some pr)
    obtain name where name: "strcpy MAX_GROUP_NAME p = Some name"
      using private_lengths [OF nm] by (simp add: strcpy_def)
    have cn: "canon name" "cstr name = cstr p" using strcpy_canon [OF name] by simp_all
    have nm2: "G_private_to_names name = Some (Some (priv, pn))" by (rule private_of_cstr [OF nm cn])
    have home2: "home s name = Some (p_id pr)" and box2: "box s name = box s p"
      using nm nm2 Some by (simp_all add: home_def box_def)
    obtain g s1 where g: "join_group gn s = Some (g, s1)" "groups_step s s1" "group_pre s g" "cstr (g_name g) = cstr gn"
      "groups_in_order (GroupsList s1)" "g \<in> set (GroupsList s1)"
      "\<forall>h \<in> set (GroupsList s1). cstr (g_name h) \<noteq> cstr (g_name g) \<longrightarrow> h \<in> set (GroupsList s)"
      "view s1 = view s" "cstr ` set (group_members g) = view s (cstr gn)"
      "g \<in> set (GroupsList s) \<and> s1 = s \<or> g_mboxes g = [] \<and> g_daemons g = []"
      using join_group_spec [OF sok gn] by blast
    have conf: "conf_ok (dmn s)" and dir: "dir_ok s" using sok by (simp_all add: server_ok_def)
    obtain d g1 where d: "join_daemon (p_id pr) g s1 = Some (d, g1)" "dm_proc d = p_id pr"
      "G_get_member d name \<noteq> None \<longrightarrow> g1 = g \<and> g_daemons g \<noteq> [] \<and> cstr name \<in> cstr ` set (group_members g)"
      "G_get_member d name = None \<longrightarrow> (\<forall>d \<in> set (g_daemons g). dm_proc d = p_id pr \<longrightarrow> cstr name \<notin> cstr ` set (dm_members d)) \<and>
        (\<exists>ds. add_member name d g1 s1 = Some (bump (g\<lparr>g_daemons := ds, g_num_members := g_num_members g + 1\<rparr>)) \<and>
        grows s (p_id pr) name (g_daemons g) ds)"
      using join_daemon_spec [OF conf g(3,2) cn(1) home2] by (elim exE conjE) (rule that; assumption)
    have mem: "G_get_member d p = G_get_member d name" using cn(2) by (simp add: G_get_member_def by_name_eq)
    show ?thesis
    proof (cases "G_get_member d name = None")
      case False
      then have og: "g1 = g" "g \<in> set (GroupsList s)" "s1 = s" "cstr p \<in> view s (cstr gn)"
        using d(3) g(9,10) cn(2) by auto
      have "G_handle_join p gn s = Some (put_group g s)"
        using gs nm Some g(1) d(1) False by (simp add: G_handle_join_def og mem)
      then show ?thesis using join_old [OF sok og(2) r] h Some og(4) by (auto simp: insert_absorb)
    next
      case True
      then obtain ds where ds: "add_member name d g1 s1 = Some (bump (g\<lparr>g_daemons := ds, g_num_members := g_num_members g + 1\<rparr>))"
        "grows s (p_id pr) name (g_daemons g) ds" using d(4) by blast
      obtain mb where mb: "p_id pr = My_id s \<longrightarrow> box s name = Some mb \<and> reader_ok (3 + k) s mb"
        using p h Some box2 by (auto simp: member_ok_def)
      let ?bs = "if p_id pr = My_id s then g_mboxes g @ [mb] else g_mboxes g"
      let ?nb = "if p_id pr = My_id s then mb else - 1"
      let ?g2 = "bump (g\<lparr>g_daemons := ds, g_num_members := g_num_members g + 1\<rparr>)"
      let ?g4 = "g\<lparr>g_gid := (g_gid g)\<lparr>gid_index := gid_index (g_gid g) + 1\<rparr>,
        g_changed := (g_changed g \<or> Is_partitioned_daemon d), g_daemons := ds,
        g_num_members := g_num_members g + 1, g_mboxes := ?bs\<rparr>"
      have bm: "add_mailbox priv (dm_proc d) ?g2 s1 = Some (?nb, ?g2\<lparr>g_mboxes := ?bs\<rparr>)"
        using add_mailbox_spec [OF g(2) dir nm2, of "p_id pr" mb ?g2] mb by (simp add: d(2) bump_def)
      have g4: "(if Is_partitioned_daemon d \<and> \<not> g_changed (?g2\<lparr>g_mboxes := ?bs\<rparr>)
          then (?g2\<lparr>g_mboxes := ?bs\<rparr>)\<lparr>g_changed := True\<rparr> else ?g2\<lparr>g_mboxes := ?bs\<rparr>) = ?g4"
        by (cases g) (auto simp: bump_def)
      have run: "G_handle_join p gn s = notify_join ?g4 name ?nb (put_group ?g4 s1)"
        using gs nm Some g(1) d(1) True name ds(1) bm g4 by (simp add: G_handle_join_def mem Let_def)
      note gg = grown_group [OF g(3) ds(2) home2, of mb ?bs]
      have gok: "group_ok s ?g4" using gg(1) mb by simp
      have old: "g_mboxes g \<noteq> [] \<longrightarrow> g \<in> set (GroupsList s)" using g(10) by auto
      have rg: "readers (3 + k) s ?g4"
      proof -
        have "readers (3 + k) s g"
          using old r readers_of [OF r] by (cases "g_mboxes g = []") (auto simp: readers_def)
        then show ?thesis using mb by (auto simp: readers_def)
      qed
      have "length (group_members g) < max_members"
      proof (cases "g \<in> set (GroupsList s)")
        case True
        then show ?thesis using view_card [OF sok True] small g(4) by simp
      next
        case False
        then show ?thesis using g(10) by (simp add: group_members_def max_members_def)
      qed
      then have len: "length (group_members ?g4) \<le> max_members"
        using gg(3) mb by (simp add: group_members_eq)
      have set4: "set (group_members ?g4) = insert name (set (group_members g))"
        using gg(2) mb by (simp add: group_members_eq)
      have h2: "\<forall>h \<in> set (GroupsList s1). cstr (g_name h) \<noteq> cstr (g_name ?g4) \<longrightarrow> h \<in> set (GroupsList s)" using g(7) by simp
      have nb: "?nb \<noteq> - 1 \<longrightarrow> ?nb \<in> set (g_mboxes ?g4)" by simp
      from joined_notified [OF sok g(2,5) h2 gok len _ nb r rg, of name] set4 obtain s' where
        "notify_join ?g4 name ?nb (put_group ?g4 s1) = Some s'" "kept 3 s s'" "readers_ok k s'"
        "view s' = (view s1)(cstr (g_name ?g4) := cstr ` set (group_members ?g4))" by auto
      then show ?thesis using run h Some g(4,8,9) set4 cn(2) by simp
    qed
  qed
qed

end
