(* ===== verification/Group_leaves.thy ===== *)
theory Group_leaves
  imports Group_refine
begin

text \<open>
  Leaves and disconnects: the member, an emptied daemon and an emptied group go, the mailbox of a
  local member goes with it, and what is left of the group is told.
\<close>

section \<open>Taking a member out\<close>

lemma butlast_update:
  assumes "i < length xs"
  shows "mset (butlast (xs[i := last xs])) = mset xs - {#xs ! i#}"
proof -
  let ?ys = "xs[i := last xs]"
  have ne: "?ys \<noteq> []" "last ?ys = last xs" using assms last_conv_nth [of ?ys] last_conv_nth [of xs] by (cases "xs = []"; auto simp: nth_list_update)+
  have "mset ?ys = add_mset (last xs) (mset xs - {#xs ! i#})" using assms by (simp add: mset_update)
  moreover have "mset ?ys = add_mset (last ?ys) (mset (butlast ?ys))"
    using arg_cong [OF append_butlast_last_id [OF ne(1)], of mset] by simp
  ultimately show ?thesis using ne(2) by simp
qed

lemma remove_mailbox:
  assumes "mb \<in> set (g_mboxes g)"
  shows "\<exists>bs. G_remove_mailbox mb g = Some (g\<lparr>g_mboxes := bs\<rparr>) \<and> add_mset mb (mset bs) = mset (g_mboxes g)"
proof -
  obtain i where i: "find_index (\<lambda>x. x = mb) (g_mboxes g) = Some i" "i < length (g_mboxes g)" "g_mboxes g ! i = mb"
    using assms find_index_None [of "\<lambda>x. x = mb" "g_mboxes g"] find_index_Some [of "\<lambda>x. x = mb" "g_mboxes g"]
    by (cases "find_index (\<lambda>x. x = mb) (g_mboxes g)") auto
  have "mset (butlast ((g_mboxes g)[i := last (g_mboxes g)])) = mset (g_mboxes g) - {#mb#}"
    using butlast_update [OF i(2)] i(3) by simp
  then show ?thesis using i assms by (auto simp: G_remove_mailbox_def)
qed

lemma remove_group:
  assumes ord: "groups_in_order (GroupsList s)" and g: "h \<in> set (GroupsList s)" "g_name g = g_name h"
    and e: "g_daemons g = []" "g_mboxes g = []"
  shows "G_remove_group g s = Some (count_groups (- 1) (erase_group (g_name g) s))"
proof -
  have "G_get_group (g_name g) s = Some h" using get_group_iff [OF ord] g by simp
  then show ?thesis using e by (simp add: G_remove_group_def)
qed

text \<open>The group without the member, when something is left of it.\<close>

lemma shrunk_group:
  assumes g: "group_ok s g" and sh: "shrinks s pid mbr (g_daemons g) ds"
    and b: "if pid = My_id s then (\<exists>mb. box s mbr = Some mb \<and> add_mset mb (mset bs) = mset (g_mboxes g)) else bs = g_mboxes g"
    and c: "canon mbr"
  shows "ds \<noteq> [] \<Longrightarrow> group_ok s (g\<lparr>g_gid := i, g_daemons := ds, g_num_members := g_num_members g - 1, g_mboxes := bs\<rparr>)"
    "add_mset mbr (mset (members_of ds)) = mset (group_members g)"
    "ds = [] \<longleftrightarrow> g_num_members g = 1" "ds = [] \<Longrightarrow> bs = []"
proof -
  show m: "add_mset mbr (mset (members_of ds)) = mset (group_members g)"
    using sh by (simp add: shrinks_def group_members_eq)
  have l: "length (group_members g) = Suc (length (members_of ds))" using arg_cong [OF m, of size] by simp
  have mb: "mset (map Some bs) = mset (map (box s) (locals (My_id s) ds))"
  proof (cases "pid = My_id s")
    case True
    then obtain mb where mb: "box s mbr = Some mb" "add_mset mb (mset bs) = mset (g_mboxes g)" using b by auto
    have "mset (locals (My_id s) (g_daemons g)) = add_mset mbr (mset (locals (My_id s) ds))"
      using sh True by (simp add: shrinks_def)
    then have "mset (map (box s) (locals (My_id s) (g_daemons g))) = add_mset (Some mb) (mset (map (box s) (locals (My_id s) ds)))"
      using mb(1) by simp
    moreover have "mset (map Some (g_mboxes g)) = add_mset (Some mb) (mset (map Some bs))"
      using arg_cong [OF mb(2), of "image_mset Some"] by simp
    ultimately show ?thesis using g by (simp add: group_ok_def)
  next
    case False
    then have "mset (locals (My_id s) ds) = mset (locals (My_id s) (g_daemons g))" using sh by (simp add: shrinks_def)
    then have "mset (map (box s) (locals (My_id s) ds)) = mset (map (box s) (locals (My_id s) (g_daemons g)))" by simp
    then show ?thesis using g b False by (simp add: group_ok_def)
  qed
  then show "group_ok s (g\<lparr>g_gid := i, g_daemons := ds, g_num_members := g_num_members g - 1, g_mboxes := bs\<rparr>)" if "ds \<noteq> []"
    using g sh l that by (simp add: group_ok_def shrinks_def group_members_eq)
  have "members_of ds \<noteq> []" if "ds \<noteq> []"
  proof -
    from that obtain d where "d \<in> set ds" by (cases ds) auto
    moreover from this have "dm_members d \<noteq> []" using sh by (simp add: shrinks_def daemon_ok_def)
    ultimately show ?thesis by (auto simp: members_of_def)
  qed
  then have "ds = [] \<longleftrightarrow> members_of ds = []" by (auto simp: members_of_def)
  then show "ds = [] \<longleftrightarrow> g_num_members g = 1" using g l by (simp add: group_ok_def)
  show "bs = []" if "ds = []" using mb that by (simp add: locals_def)
qed


text \<open>The result of \<open>drop_member\<close>: the group may be gone.\<close>

lemma drop_spec:
  assumes sok: "server_ok s" and g: "g \<in> set (GroupsList s)" and d: "d \<in> set (g_daemons g)" and m: "mbr \<in> set (dm_members d)"
    and b: "if dm_proc d = My_id s then (\<exists>mb. box s mbr = Some mb \<and> add_mset mb (mset bs) = mset (g_mboxes g)) else bs = g_mboxes g"
  shows "\<exists>r s'. drop_member mbr d (g\<lparr>g_mboxes := bs\<rparr>) s = Some (r, s') \<and> groups_step s s' \<and> server_ok s' \<and>
    view s' = (view s)(cstr (g_name g) := view s (cstr (g_name g)) - {cstr mbr}) \<and>
    (\<forall>h \<in> set (GroupsList s'). h \<in> set (GroupsList s) \<or> g_mboxes h = bs) \<and>
    (case r of None \<Rightarrow> True | Some h \<Rightarrow> group_ok s' h \<and> g_mboxes h = bs \<and> h \<in> set (GroupsList s') \<and>
       length (group_members h) \<le> length (group_members g))"
proof -
  have gok: "group_ok s g" and ord: "groups_in_order (GroupsList s)" using sok g by (simp_all add: server_ok_def)
  then have dord: "daemons_in_order s (g_daemons g)" and dok: "\<forall>d \<in> set (g_daemons g). daemon_ok s d" and canon_g: "canon (g_name g)"
    by (simp_all add: group_ok_def)
  have c: "canon mbr" using dok d m by (auto simp: daemon_ok_def)
  let ?g = "g\<lparr>g_mboxes := bs\<rparr>"
  let ?d1 = "d\<lparr>dm_members := skl_erase (by_name mbr) (dm_members d)\<rparr>"
  from drop_from_daemon [of s ?g d mbr] dord dok d m obtain g1 ds where
    pd: "put_daemon (dmn s) ?d1 ?g = Some g1" and
    rd: "(if dm_members ?d1 = [] then G_remove_daemon (dmn s) ?d1 (g1\<lparr>g_num_members := g_num_members g1 - 1\<rparr>)
     else Some (g1\<lparr>g_num_members := g_num_members g1 - 1\<rparr>)) =
       Some (?g\<lparr>g_daemons := ds, g_num_members := g_num_members g - 1\<rparr>)" and
    sh: "shrinks s (dm_proc d) mbr (g_daemons g) ds" by auto
  note sg = shrunk_group [OF gok sh b c]
  let ?g3 = "?g\<lparr>g_daemons := ds, g_num_members := g_num_members g - 1\<rparr>"
  have run: "drop_member mbr d ?g s = (if g_num_members ?g3 = 0 then map_option (Pair None) (G_remove_group ?g3 s)
     else Some (Some (bump ?g3), put_group (bump ?g3) s))"
    unfolding drop_member_def Let_def pd by (simp only: bind.bind_lunit rd)
  have v: "view s (cstr (g_name g)) - {cstr mbr} = cstr ` set (members_of ds)"
  proof -
    have "distinct (map cstr (group_members g))" by (rule members_distinct [OF sok g])
    moreover have m2: "mset (map cstr (group_members g)) = add_mset (cstr mbr) (mset (map cstr (members_of ds)))"
      using sg(2) [symmetric] by simp
    ultimately have "distinct (cstr mbr # map cstr (members_of ds))" by (metis mset.simps(2) mset_eq_imp_distinct_iff)
    moreover have "cstr ` set (group_members g) = insert (cstr mbr) (cstr ` set (members_of ds))"
      using arg_cong [OF m2, of set_mset] by simp
    ultimately show ?thesis using view_of_group [OF ord g] by auto
  qed
  show ?thesis
  proof (cases "ds = []")
    case True
    let ?s' = "count_groups (- 1) (erase_group (g_name g) s)"
    have "drop_member mbr d ?g s = Some (None, ?s')"
      using run sg(3,4) True remove_group [OF ord g, of ?g3] by simp
    moreover have st: "groups_step s ?s'" using groups_step_trans [of s "erase_group (g_name g) s"] by simp
    moreover have gl: "GroupsList ?s' = GroupsList (erase_group (g_name g) s)" by (simp add: count_groups_def upd_dmn_def)
    moreover have "server_ok ?s'"
      using sok groups_step_same [OF st] erase_group_spec [OF ord, of "g_name g"] by (simp add: server_ok_def gl)
    moreover have "view ?s' = (view s)(cstr (g_name g) := view s (cstr (g_name g)) - {cstr mbr})"
    proof -
      have "view ?s' = view (erase_group (g_name g) s)" by (simp add: view_def fun_eq_iff gl)
      then show ?thesis using view_erase [OF ord, of "g_name g"] True unfolding v by (simp add: members_of_def)
    qed
    ultimately show ?thesis using erase_group_spec(2) [OF ord, of "g_name g"]
      by (intro exI [of _ None] exI [of _ ?s']) auto
  next
    case False
    let ?h = "bump ?g3"
    let ?s' = "put_group ?h s"
    have h: "?h = g\<lparr>g_gid := (g_gid g)\<lparr>gid_index := gid_index (g_gid g) + 1\<rparr>, g_daemons := ds,
        g_num_members := g_num_members g - 1, g_mboxes := bs\<rparr>" by (simp add: bump_def)
    have "drop_member mbr d ?g s = Some (Some ?h, ?s')" using run sg(3) False by simp
    moreover have st: "groups_step s ?s'" by simp
    moreover have hok: "group_ok s ?h" unfolding h by (rule sg(1) [OF False])
    moreover have n: "g_name ?h = g_name g" by (simp add: h)
    moreover have "server_ok ?s'" by (rule put_server_ok [OF sok _ ord _ hok]) simp_all
    moreover have "view ?s' = (view s)(cstr (g_name g) := view s (cstr (g_name g)) - {cstr mbr})"
      using view_put [OF ord, of ?h] v by (simp add: h group_members_eq)
    moreover have "length (group_members ?h) \<le> length (group_members g)"
      using arg_cong [OF sg(2), of size] by (simp add: h group_members_eq)
    ultimately show ?thesis using put_group_spec(2) [OF ord, of ?h] groups_step_same(10) [OF st]
      by (intro exI [of _ "Some ?h"] exI [of _ ?s']) (auto simp: h)
  qed
qed


section \<open>The member looked up\<close>

lemma find_member:
  assumes sok: "server_ok s" and g: "g \<in> set (GroupsList s)" and p: "G_private_to_names p = Some (Some parts)"
    and home: "home s p = Some pid"
  shows "\<exists>r. G_get_daemon (dmn s) g pid = Some r \<and> (case r of None \<Rightarrow> cstr p \<notin> view s (cstr (g_name g))
    | Some d \<Rightarrow> d \<in> set (g_daemons g) \<and> dm_proc d = pid \<and> (case G_get_member d p of
        None \<Rightarrow> cstr p \<notin> view s (cstr (g_name g))
      | Some m \<Rightarrow> m \<in> set (dm_members d) \<and> cstr m = cstr p \<and> canon m \<and> box s m = box s p))"
proof -
  have gok: "group_ok s g" and ord: "groups_in_order (GroupsList s)" and conf: "conf_ok (dmn s)"
    using sok g by (simp_all add: server_ok_def)
  then have dord: "daemons_in_order s (g_daemons g)" and dok: "\<forall>d \<in> set (g_daemons g). daemon_ok s d"
    by (simp_all add: group_ok_def)
  have same: "canon m \<and> G_private_to_names m = Some (Some parts) \<and> dm_proc d = pid"
    if "d \<in> set (g_daemons g)" "m \<in> set (dm_members d)" "cstr m = cstr p" for d m
  proof -
    have c: "canon m" "home s m = Some (dm_proc d)" using dok that by (auto simp: daemon_ok_def)
    have "G_private_to_names m = Some (Some parts)" by (rule private_of_cstr [OF p c(1) that(3)])
    then show ?thesis using c home p by (simp add: home_def split: prod.splits)
  qed
  have mem: "cstr p \<in> view s (cstr (g_name g)) \<longleftrightarrow> (\<exists>d \<in> set (g_daemons g). dm_proc d = pid \<and> (\<exists>m \<in> set (dm_members d). cstr m = cstr p))"
  proof
    assume "cstr p \<in> view s (cstr (g_name g))"
    then obtain m where "m \<in> set (group_members g)" "cstr m = cstr p" using view_of_group [OF ord g] by auto
    moreover from this obtain d where "d \<in> set (g_daemons g)" "m \<in> set (dm_members d)" by (auto simp: group_members_def)
    ultimately show "\<exists>d \<in> set (g_daemons g). dm_proc d = pid \<and> (\<exists>m \<in> set (dm_members d). cstr m = cstr p)"
      using same by blast
  next
    assume "\<exists>d \<in> set (g_daemons g). dm_proc d = pid \<and> (\<exists>m \<in> set (dm_members d). cstr m = cstr p)"
    then obtain m where m: "m \<in> set (group_members g)" "cstr m = cstr p" by (auto simp: group_members_def)
    show "cstr p \<in> view s (cstr (g_name g))" unfolding view_of_group [OF ord g] m(2) [symmetric] by (rule imageI [OF m(1)])
  qed
  from get_daemon_iff [OF dord dok conf home] obtain r where r: "G_get_daemon (dmn s) g pid = Some r"
    "case r of None \<Rightarrow> \<forall>d \<in> set (g_daemons g). dm_proc d \<noteq> pid | Some d \<Rightarrow> d \<in> set (g_daemons g) \<and> dm_proc d = pid" by blast
  show ?thesis
  proof (cases r)
    case None
    then have "cstr p \<notin> view s (cstr (g_name g))" using r(2) mem by auto
    then show ?thesis using r(1) None by simp
  next
    case (Some d)
    then have d: "d \<in> set (g_daemons g)" "dm_proc d = pid" using r(2) by auto
    have dmo: "in_order strcmp cstr (dm_members d)" using dok d(1) by (simp add: daemon_ok_def)
    have uniq: "e = d" if "e \<in> set (g_daemons g)" "dm_proc e = pid" for e
      using daemons_distinct(2) [OF dord] that d by (auto simp: distinct_map inj_on_def)
    show ?thesis
    proof (cases "G_get_member d p")
      case None
      then have "\<forall>m \<in> set (dm_members d). cstr m \<noteq> cstr p" using get_member_iff [OF dmo, of p] by force
      then have "cstr p \<notin> view s (cstr (g_name g))" using mem uniq by auto
      then show ?thesis using r(1) Some d None by simp
    next
      case m: (Some m)
      then have "m \<in> set (dm_members d)" "cstr m = cstr p" using get_member_iff [OF dmo] by auto
      moreover from this have "canon m" "box s m = box s p" using same [OF d(1)] p by (auto simp: box_def)
      ultimately show ?thesis using r(1) Some d m by simp
    qed
  qed
qed

lemma local_mailbox:
  assumes g: "group_ok s g" and d: "d \<in> set (g_daemons g)" "dm_proc d = My_id s" and m: "m \<in> set (dm_members d)"
    and b: "box s m = Some mb"
  shows "mb \<in> set (g_mboxes g)"
proof -
  have "box s m \<in> set_mset (mset (map (box s) (locals (My_id s) (g_daemons g))))" using d m by (auto simp: locals_def)
  then have "box s m \<in> set_mset (mset (map Some (g_mboxes g)))" using g by (simp add: group_ok_def)
  then show ?thesis using b by auto
qed

lemma same_session:
  assumes dir: "dir_ok s" and p: "G_private_to_names p = Some (Some (priv, pn))" and b: "box s p = Some mb"
  shows "\<exists>ses. Sess_get_session priv s = Some (Some ses) \<and> mbox_at s ses = mb \<and> Sess_get_session_index mb s = Some (Some ses)"
proof -
  from dir obtain L where L: "sessions_ok s L" "inj_on (mbox_at s) (set L)" by (auto simp: dir_ok_def)
  obtain ses where ses: "Sess_get_session priv s = Some (Some ses)" "mbox_at s ses = mb"
    using b p by (auto simp: box_def mbox_of_priv_def split: option.splits)
  note look = Session_lookups_core [OF L(1), of mb priv]
  have "ses \<in> set L" using look ses(1) by auto
  obtain r where "Sess_get_session_index mb s = Some r"
    "case r of None \<Rightarrow> \<forall>i \<in> set L. mbox_at s i \<noteq> mb | Some i \<Rightarrow> i \<in> set L \<and> mbox_at s i = mb" using look by blast
  moreover from this have "r = Some ses" using \<open>ses \<in> set L\<close> ses(2) L(2) by (auto simp: inj_on_def split: option.splits)
  ultimately show ?thesis using ses by blast
qed

section \<open>The group told of a departure\<close>

lemma depart:
  assumes sok: "server_ok s" and g: "g \<in> set (GroupsList s)" and d: "d \<in> set (g_daemons g)" and m: "mbr \<in> set (dm_members d)"
    and b: "if dm_proc d = My_id s then (\<exists>mb. box s mbr = Some mb \<and> add_mset mb (mset bs) = mset (g_mboxes g)) else bs = g_mboxes g"
    and small: "card (view s (cstr (g_name g))) \<le> max_members" and r: "readers_ok (3 + k) s"
    and caused: "caused \<in> {CAUSED_BY_LEAVE, CAUSED_BY_DISCONNECT}"
  shows "\<exists>st s'. drop_member mbr d (g\<lparr>g_mboxes := bs\<rparr>) s = Some st \<and> notify_departure caused mbr st = Some s' \<and>
    kept 3 s s' \<and> readers_ok k s' \<and> view s' = (view s)(cstr (g_name g) := view s (cstr (g_name g)) - {cstr mbr})"
proof -
  from drop_spec [OF sok g d m b] obtain q s1 where
    run: "drop_member mbr d (g\<lparr>g_mboxes := bs\<rparr>) s = Some (q, s1)" and st: "groups_step s s1" and ok1: "server_ok s1" and
    v: "view s1 = (view s)(cstr (g_name g) := view s (cstr (g_name g)) - {cstr mbr})" and
    old: "\<forall>h \<in> set (GroupsList s1). h \<in> set (GroupsList s) \<or> g_mboxes h = bs" and
    q: "case q of None \<Rightarrow> True | Some h \<Rightarrow> group_ok s1 h \<and> g_mboxes h = bs \<and> h \<in> set (GroupsList s1) \<and>
       length (group_members h) \<le> length (group_members g)" by blast
  have "set bs \<subseteq> set (g_mboxes g)"
  proof (cases "dm_proc d = My_id s")
    case True
    then obtain mb where "add_mset mb (mset bs) = mset (g_mboxes g)" using b by auto
    from arg_cong [OF this, of set_mset] show ?thesis by auto
  qed (use b in auto)
  then have r1: "readers_ok (3 + k) s1"
    using r g old groups_step_same(11) [OF st] unfolding readers_ok_def readers_def by blast
  have k1: "kept 0 s s1" by (rule step_kept [OF st ok1])
  have len: "length mbr = 32" using sok g d m canon_length by (auto simp: server_ok_def group_ok_def daemon_ok_def)
  show ?thesis
  proof (cases q)
    case None
    have "readers_ok k s1" using r1 reader_ok_mono [of "3 + k" s1 _ k] by (auto simp: readers_ok_def readers_def)
    then show ?thesis using run None v kept_mono [OF k1] by (simp add: notify_departure_def)
  next
    case (Some h)
    then have h: "group_ok s1 h" "h \<in> set (GroupsList s1)" "length (group_members h) \<le> max_members"
      using q small view_card [OF sok g] by auto
    from notify_departure_sends [OF ok1 h(1,3) len caused readers_of [OF r1 h(2)]] obtain s' out where
      s': "notify_departure caused mbr (Some h, s1) = Some s'" "sent_to 3 out s1 s'" by blast
    have "kept 3 s s'" using kept_trans [OF k1 sent_kept [OF s'(2) ok1]] by simp
    moreover have "readers_ok k s'" by (rule sent_readers_ok [OF s'(2) r1])
    ultimately show ?thesis using run Some s'(1) v quiet_view [OF sent_quiet [OF s'(2)]] by simp
  qed
qed


section \<open>Leaves\<close>

lemma sent_view:
  assumes "sent_to n out s s'"
  shows "view s' = view s" "GroupsList s' = GroupsList s" "mbox_at s' = mbox_at s"
  using sent_quiet [OF assms] quiet_view quiet_server(1) quiet_sessions(2) by auto

lemma self_leave_spec:
  assumes sok: "server_ok s" and g: "g \<in> set (GroupsList s)" and p: "G_private_to_names p = Some (Some (priv, pn))"
    and b: "box s p = Some mb" "mb \<in> set (g_mboxes g)" and r: "readers_ok (Suc k) s"
  shows "\<exists>bs s1. self_leave priv g s = Some (g\<lparr>g_mboxes := bs\<rparr>, s1) \<and> add_mset mb (mset bs) = mset (g_mboxes g) \<and>
    sent_to 1 (\<lambda>c. if c = mb then self_leave_bytes g else []) s s1"
proof -
  have dir: "dir_ok s" and "group_ok s g" using sok g by (simp_all add: server_ok_def)
  then have len: "length (g_name g) = 32" using canon_length by (simp add: group_ok_def)
  from same_session [OF dir p b(1)] obtain ses where ses: "Sess_get_session priv s = Some (Some ses)" "mbox_at s ses = mb"
    "Sess_get_session_index mb s = Some (Some ses)" by blast
  have "reader_ok (Suc k) s mb" using r g b(2) by (simp add: readers_ok_def readers_def)
  from self_leave_sends [OF len ses(3) this] obtain s1 where
    s1: "G_send_self_leave g ses s = Some s1" "sent_to 1 (\<lambda>c. if c = mb then self_leave_bytes g else []) s s1" by blast
  have "ss_mbox (Sessions s1 ses) = mb" using sent_view(3) [OF s1(2)] ses(2) by (simp add: mbox_at_def fun_eq_iff)
  then show ?thesis using ses(1) s1 remove_mailbox [OF b(2)] by (auto simp: self_leave_def)
qed

lemma Leave_core:
  assumes sok: "server_ok s" and gst: "Gstate s = GOP \<or> Gstate s = GTRANS"
    and p: "member_ok 0 s p" and small: "card (view s (cstr gn)) \<le> max_members" and r: "readers_ok (4 + k) s"
  shows "\<exists>s'. G_handle_leave p gn s = Some s' \<and> kept 4 s s' \<and> readers_ok k s' \<and>
    view s' = (if home s p = None then view s else (view s)(cstr gn := view s (cstr gn) - {cstr p}))"
proof -
  have gs: "\<not> (Gstate s = GGATHER \<or> Gstate s = GGT)" using gst by auto
  obtain priv pn where nm: "G_private_to_names p = Some (Some (priv, pn))" using p by (auto simp: member_ok_def)
  have h: "home s p = map_option p_id (proc_named pn s)" using nm by (simp add: home_def)
  have ord: "groups_in_order (GroupsList s)" and dir: "dir_ok s" using sok by (simp_all add: server_ok_def)
  have idle: "kept 4 s s" "readers_ok k s"
    using kept_refl [OF sok] r reader_ok_mono [of "4 + k" s _ k] by (auto simp: readers_ok_def readers_def)
  have absent: ?thesis if "G_handle_leave p gn s = Some s" "cstr p \<notin> view s (cstr gn)"
    using that idle by (simp add: fun_upd_idem)
  show ?thesis
  proof (cases "proc_named pn s")
    case None
    then show ?thesis using gs nm h idle by (simp add: G_handle_leave_def)
  next
    case (Some pr)
    then have home: "home s p = Some (p_id pr)" using h by simp
    show ?thesis
    proof (cases "G_get_group gn s")
      case None
      then show ?thesis using gs nm Some view_no_group [OF ord None] by (intro absent) (simp_all add: G_handle_leave_def)
    next
      case g: (Some g)
      then have g1: "g \<in> set (GroupsList s)" "cstr (g_name g) = cstr gn" using get_group_iff [OF ord] by auto
      have gok: "group_ok s g" using sok g1(1) by (simp add: server_ok_def)
      from find_member [OF sok g1(1) nm home] obtain q where q: "G_get_daemon (dmn s) g (p_id pr) = Some q"
        "case q of None \<Rightarrow> cstr p \<notin> view s (cstr (g_name g))
          | Some d \<Rightarrow> d \<in> set (g_daemons g) \<and> dm_proc d = p_id pr \<and> (case G_get_member d p of
            None \<Rightarrow> cstr p \<notin> view s (cstr (g_name g))
          | Some m \<Rightarrow> m \<in> set (dm_members d) \<and> cstr m = cstr p \<and> canon m \<and> box s m = box s p)" by blast
      show ?thesis
      proof (cases q)
        case None
        then show ?thesis using gs nm Some g q g1(2) by (intro absent) (simp_all add: G_handle_leave_def)
      next
        case d: (Some d)
        show ?thesis
        proof (cases "G_get_member d p")
          case None
          then show ?thesis using gs nm Some g q d g1(2) by (intro absent) (simp_all add: G_handle_leave_def)
        next
          case m: (Some m)
          have dm: "d \<in> set (g_daemons g)" "dm_proc d = p_id pr" "m \<in> set (dm_members d)" "cstr m = cstr p" "box s m = box s p"
            using q(2) d m by auto
          have run: "G_handle_leave p gn s = do {
             (g1, s1) \<leftarrow> (if p_id pr = My_id s then self_leave priv g s else Some (g, s));
             st \<leftarrow> drop_member m d g1 s1;
             notify_departure CAUSED_BY_LEAVE m st }"
            using gs nm Some g q(1) d m by (simp add: G_handle_leave_def)
          have "\<exists>bs s1. (if p_id pr = My_id s then self_leave priv g s else Some (g, s)) = Some (g\<lparr>g_mboxes := bs\<rparr>, s1) \<and>
            (if dm_proc d = My_id s then (\<exists>mb. box s m = Some mb \<and> add_mset mb (mset bs) = mset (g_mboxes g)) else bs = g_mboxes g) \<and>
            (\<exists>out. sent_to 1 out s s1)"
          proof (cases "p_id pr = My_id s")
            case True
            then obtain mb where mb: "box s p = Some mb" using p home by (auto simp: member_ok_def)
            have "mb \<in> set (g_mboxes g)" using local_mailbox [OF gok dm(1) _ dm(3)] dm(2,5) True mb by simp
            moreover have "readers_ok (Suc (3 + k)) s" using r by simp
            ultimately show ?thesis using self_leave_spec [OF sok g1(1) nm mb] True dm mb by fastforce
          next
            case False
            then show ?thesis using sent_none [of 1 s] dm(2) by (intro exI [of _ "g_mboxes g"] exI [of _ s]) auto
          qed
          then obtain bs s1 out where s1: "(if p_id pr = My_id s then self_leave priv g s else Some (g, s)) = Some (g\<lparr>g_mboxes := bs\<rparr>, s1)"
            "if dm_proc d = My_id s then (\<exists>mb. box s m = Some mb \<and> add_mset mb (mset bs) = mset (g_mboxes g)) else bs = g_mboxes g"
            "sent_to 1 out s s1" by blast
          have k1: "kept 1 s s1" by (rule sent_kept [OF s1(3) sok])
          note v1 = sent_view [OF s1(3)]
          have ok1: "server_ok s1" and same: "box s1 = box s" "My_id s1 = My_id s" using k1 by (simp_all add: kept_def)
          have r1: "readers_ok (3 + k) s1" using sent_readers_ok [OF s1(3), of "3 + k"] r by simp
          have gm: "g \<in> set (GroupsList s1)" using g1(1) v1(2) by simp
          have b1: "if dm_proc d = My_id s1 then (\<exists>mb. box s1 m = Some mb \<and> add_mset mb (mset bs) = mset (g_mboxes g)) else bs = g_mboxes g"
            using s1(2) same by simp
          have sm: "card (view s1 (cstr (g_name g))) \<le> max_members" using small g1(2) v1(1) by simp
          from depart [OF ok1 gm dm(1,3) b1 sm r1, of CAUSED_BY_LEAVE] obtain st s' where
            "drop_member m d (g\<lparr>g_mboxes := bs\<rparr>) s1 = Some st" "notify_departure CAUSED_BY_LEAVE m st = Some s'"
            "kept 3 s1 s'" "readers_ok k s'" "view s' = (view s1)(cstr (g_name g) := view s1 (cstr (g_name g)) - {cstr m})" by auto
          moreover have "kept 4 s s'" using kept_trans [OF k1 calculation(3)] by simp
          ultimately show ?thesis using run s1(1) home v1(1) g1(2) dm(4) by simp
        qed
      qed
    qed
  qed
qed


section \<open>Disconnects\<close>

lemma view_group:
  assumes "server_ok s"
  shows "view s (cstr nm) \<noteq> {} \<longleftrightarrow> G_get_group nm s \<noteq> None"
proof (cases "G_get_group nm s")
  case None
  then show ?thesis using view_no_group [of s nm] assms by (simp add: server_ok_def)
next
  case (Some g)
  have ord: "groups_in_order (GroupsList s)" using assms by (simp add: server_ok_def)
  have g: "g \<in> set (GroupsList s)" "cstr (g_name g) = cstr nm" using get_group_iff [OF ord] Some by auto
  have "group_ok s g" using assms g(1) by (simp add: server_ok_def)
  then have "set (g_daemons g) \<noteq> {}" "\<forall>d \<in> set (g_daemons g). dm_members d \<noteq> []"
    by (simp_all add: group_ok_def daemon_ok_def)
  then have "group_members g \<noteq> []" unfolding group_members_def by auto
  then show ?thesis using view_of_group [OF ord g(1)] g(2) Some by simp
qed

lemma Kill_step:
  assumes sok: "server_ok s" and nm: "G_private_to_names p = Some (Some (priv, pn))" and home: "home s p = Some pid"
    and g: "view s (cstr gn) \<noteq> {}" "card (view s (cstr gn)) \<le> max_members" and r: "readers_ok (3 + k) s"
    and ses: "pid = My_id s \<longrightarrow> (\<exists>i. ses = Some i \<and> box s p = Some (mbox_at s i))"
  shows "\<exists>s'. kill_step p pid ses gn s = Some s' \<and> kept 3 s s' \<and> readers_ok k s' \<and>
    view s' = (view s)(cstr gn := view s (cstr gn) - {cstr p})"
proof -
  have ord: "groups_in_order (GroupsList s)" using sok by (simp add: server_ok_def)
  have idle: "kept 3 s s" "readers_ok k s"
    using kept_refl [OF sok] r reader_ok_mono [of "3 + k" s _ k] by (auto simp: readers_ok_def readers_def)
  have absent: ?thesis if "kill_step p pid ses gn s = Some s" "cstr p \<notin> view s (cstr gn)"
    using that idle by (simp add: fun_upd_idem)
  obtain g where gg: "G_get_group gn s = Some g" using view_group [OF sok, of gn] g(1) by auto
  then have g1: "g \<in> set (GroupsList s)" "cstr (g_name g) = cstr gn" using get_group_iff [OF ord] by auto
  have gok: "group_ok s g" using sok g1(1) by (simp add: server_ok_def)
  from find_member [OF sok g1(1) nm home] obtain q where q: "G_get_daemon (dmn s) g pid = Some q"
    "case q of None \<Rightarrow> cstr p \<notin> view s (cstr (g_name g))
      | Some d \<Rightarrow> d \<in> set (g_daemons g) \<and> dm_proc d = pid \<and> (case G_get_member d p of
        None \<Rightarrow> cstr p \<notin> view s (cstr (g_name g))
      | Some m \<Rightarrow> m \<in> set (dm_members d) \<and> cstr m = cstr p \<and> canon m \<and> box s m = box s p)" by blast
  show ?thesis
  proof (cases q)
    case None
    then show ?thesis using gg q g1(2) by (intro absent) (simp_all add: kill_step_def)
  next
    case d: (Some d)
    show ?thesis
    proof (cases "G_get_member d p")
      case None
      then show ?thesis using gg q d g1(2) by (intro absent) (simp_all add: kill_step_def)
    next
      case m: (Some m)
      have dm: "d \<in> set (g_daemons g)" "dm_proc d = pid" "m \<in> set (dm_members d)" "cstr m = cstr p" "box s m = box s p"
        using q(2) d m by auto
      have "\<exists>bs. (if pid = My_id s then do { i \<leftarrow> ses; G_remove_mailbox (ss_mbox (Sessions s i)) g } else Some g) = Some (g\<lparr>g_mboxes := bs\<rparr>) \<and>
        (if dm_proc d = My_id s then (\<exists>mb. box s m = Some mb \<and> add_mset mb (mset bs) = mset (g_mboxes g)) else bs = g_mboxes g)"
      proof (cases "pid = My_id s")
        case True
        then obtain i where i: "ses = Some i" "box s p = Some (mbox_at s i)" using ses by auto
        have "mbox_at s i \<in> set (g_mboxes g)" using local_mailbox [OF gok dm(1) _ dm(3)] dm(2,5) True i(2) by simp
        from remove_mailbox [OF this] show ?thesis using True i dm(2,5) by (auto simp: mbox_at_def)
      next
        case False
        then show ?thesis using dm(2) by (intro exI [of _ "g_mboxes g"]) simp
      qed
      then obtain bs where bs: "(if pid = My_id s then do { i \<leftarrow> ses; G_remove_mailbox (ss_mbox (Sessions s i)) g } else Some g) = Some (g\<lparr>g_mboxes := bs\<rparr>)"
        "if dm_proc d = My_id s then (\<exists>mb. box s m = Some mb \<and> add_mset mb (mset bs) = mset (g_mboxes g)) else bs = g_mboxes g" by blast
      have sm: "card (view s (cstr (g_name g))) \<le> max_members" using g(2) g1(2) by simp
      have run: "kill_step p pid ses gn s = do { st \<leftarrow> drop_member m d (g\<lparr>g_mboxes := bs\<rparr>) s; notify_departure CAUSED_BY_DISCONNECT m st }"
        by (simp only: kill_step_def gg q(1) d m bs(1) option.case bind.bind_lunit)
      from depart [OF sok g1(1) dm(1,3) bs(2) sm r, of CAUSED_BY_DISCONNECT] show ?thesis
        using run g1(2) dm(4) by auto
    qed
  qed
qed

lemma kill_groups:
  assumes "server_ok s" and nm: "G_private_to_names p = Some (Some (priv, pn))" and "home s p = Some pid"
    and "distinct (map cstr gns)" and "\<forall>gn \<in> set gns. view s (cstr gn) \<noteq> {} \<and> card (view s (cstr gn)) \<le> max_members"
    and "readers_ok (3 * length gns + k) s" and "pid = My_id s \<longrightarrow> (\<exists>i. ses = Some i \<and> box s p = Some (mbox_at s i))"
  shows "\<exists>s'. forM gns (kill_step p pid ses) s = Some s' \<and> kept (3 * length gns) s s' \<and> readers_ok k s' \<and>
    view s' = (\<lambda>n. if n \<in> cstr ` set gns then view s n - {cstr p} else view s n)"
  using assms(1,3-)
proof (induction gns arbitrary: s)
  case Nil
  then show ?case using kept_refl by simp
next
  case (Cons gn gns)
  have r: "readers_ok (3 + (3 * length gns + k)) s" using Cons.prems(5) by (simp add: add.assoc)
  from Kill_step [OF Cons.prems(1) nm Cons.prems(2) _ _ r Cons.prems(6), of gn] Cons.prems(4) obtain s1 where
    s1: "kill_step p pid ses gn s = Some s1" "kept 3 s s1" "readers_ok (3 * length gns + k) s1"
    "view s1 = (view s)(cstr gn := view s (cstr gn) - {cstr p})" by auto
  have k: "server_ok s1" "home s1 = home s" "box s1 = box s" "My_id s1 = My_id s" "mbox_at s1 = mbox_at s"
    using s1(2) by (simp_all add: kept_def)
  have other: "view s1 (cstr h) = view s (cstr h)" if "h \<in> set gns" for h
    using Cons.prems(3) that by (metis distinct.simps(2) fun_upd_other image_eqI list.simps(9) s1(4) set_map)
  from Cons.IH [OF k(1) _ _ _ s1(3)] Cons.prems k other obtain s' where
    s': "forM gns (kill_step p pid ses) s1 = Some s'" "kept (3 * length gns) s1 s'" "readers_ok k s'"
    "view s' = (\<lambda>n. if n \<in> cstr ` set gns then view s1 n - {cstr p} else view s1 n)" by auto
  have "view s' = (\<lambda>n. if n \<in> cstr ` set (gn # gns) then view s n - {cstr p} else view s n)"
    using Cons.prems(3) unfolding s'(4) s1(4) by (auto simp: fun_eq_iff)
  then show ?case using s1(1) s'(1,3) kept_trans [OF s1(2) s'(2)] by simp
qed

lemma Kill_core:
  assumes sok: "server_ok s" and gst: "Gstate s = GOP \<or> Gstate s = GTRANS" and p: "member_ok 0 s p"
    and small: "\<forall>gn. card (view s gn) \<le> max_members" and r: "readers_ok (3 * length (GroupsList s) + k) s"
  shows "\<exists>s'. G_handle_kill p s = Some s' \<and> kept (3 * length (GroupsList s)) s s' \<and> readers_ok k s' \<and>
    view s' = (if home s p = None then view s else (\<lambda>gn. view s gn - {cstr p}))"
proof -
  have gs: "\<not> (Gstate s = GGATHER \<or> Gstate s = GGT)" using gst by auto
  obtain priv pn where nm: "G_private_to_names p = Some (Some (priv, pn))" using p by (auto simp: member_ok_def)
  have h: "home s p = map_option p_id (proc_named pn s)" using nm by (simp add: home_def)
  have ord: "groups_in_order (GroupsList s)" and dir: "dir_ok s" using sok by (simp_all add: server_ok_def)
  show ?thesis
  proof (cases "proc_named pn s")
    case None
    have "readers_ok k s" using r reader_ok_mono [of "3 * length (GroupsList s) + k" s _ k] by (auto simp: readers_ok_def readers_def)
    then show ?thesis using gs nm h None kept_refl [OF sok] by (simp add: G_handle_kill_def)
  next
    case (Some pr)
    then have home: "home s p = Some (p_id pr)" using h by simp
    have "\<exists>ses. (if p_id pr = My_id s then Sess_get_session priv s else Some None) = Some ses \<and>
      (p_id pr = My_id s \<longrightarrow> (\<exists>i. ses = Some i \<and> box s p = Some (mbox_at s i)))"
    proof (cases "p_id pr = My_id s")
      case True
      then obtain mb where mb: "box s p = Some mb" using p home by (auto simp: member_ok_def)
      from same_session [OF dir nm mb] show ?thesis using True mb by auto
    qed simp
    then obtain ses where ses: "(if p_id pr = My_id s then Sess_get_session priv s else Some None) = Some ses"
      "p_id pr = My_id s \<longrightarrow> (\<exists>i. ses = Some i \<and> box s p = Some (mbox_at s i))" by blast
    let ?gns = "map g_name (GroupsList s)"
    have d: "distinct (map cstr ?gns)" using group_index.distinct_keys [of "GroupsList s"] ord by (simp add: groups_in_order_def comp_def)
    have v: "view s (cstr gn) \<noteq> {} \<and> card (view s (cstr gn)) \<le> max_members" if gn: "gn \<in> set ?gns" for gn
    proof -
      from gn obtain g where "g \<in> set (GroupsList s)" "gn = g_name g" by auto
      then show ?thesis using view_group [OF sok, of gn] small get_group_iff [OF ord, of gn g] by simp
    qed
    have rk: "readers_ok (3 * length ?gns + k) s" using r by simp
    from kill_groups [OF sok nm home d _ rk ses(2)] v obtain s' where
      s': "forM ?gns (kill_step p (p_id pr) ses) s = Some s'" "kept (3 * length ?gns) s s'" "readers_ok k s'"
      "view s' = (\<lambda>n. if n \<in> cstr ` set ?gns then view s n - {cstr p} else view s n)" by blast
    have "view s n = {}" if "n \<notin> cstr ` set ?gns" for n using that by (auto simp: view_def)
    then have "view s' = (\<lambda>gn. view s gn - {cstr p})" unfolding s'(4) by (intro ext) simp
    then show ?thesis using gs nm Some home s' ses(1) by (simp add: G_handle_kill_def)
  qed
qed

end
