(* ===== verification/Group_claims.thy ===== *)
theory Group_claims
  imports Group_leaves
begin

text \<open>
  The groups of a daemon as a function from names to sets of members, and the handlers as its
  refinement: one operation, and whole sequences of them at several daemons.
\<close>

section \<open>The abstract operations\<close>

datatype group_op = Join "byte list" "byte list" | Leave "byte list" "byte list" | Disconnect "byte list"

fun handle_op :: "group_op \<Rightarrow> server \<Rightarrow> server option" where
  "handle_op (Join p gn) s = G_handle_join p gn s"
| "handle_op (Leave p gn) s = G_handle_leave p gn s"
| "handle_op (Disconnect p) s = G_handle_kill p s"

text \<open>Members of daemons that are not in the configuration are not known.\<close>

fun spec_op :: "(byte list \<Rightarrow> bool) \<Rightarrow> group_op \<Rightarrow> (byte list \<Rightarrow> byte list set) \<Rightarrow> byte list \<Rightarrow> byte list set" where
  "spec_op kn (Join p gn) v = (if kn p then v(cstr gn := insert (cstr p) (v (cstr gn))) else v)"
| "spec_op kn (Leave p gn) v = (if kn p then v(cstr gn := v (cstr gn) - {cstr p}) else v)"
| "spec_op kn (Disconnect p) v = (if kn p then (\<lambda>gn. v gn - {cstr p}) else v)"

definition proc_known :: "server \<Rightarrow> byte list \<Rightarrow> bool" where
  "proc_known s p \<longleftrightarrow> home s p \<noteq> None"

section \<open>When they apply\<close>

text \<open>A private name is well formed, and if its daemon is this one then its session is in the table.\<close>

definition client_known :: "server \<Rightarrow> byte list \<Rightarrow> bool" where
  "client_known s p \<longleftrightarrow> (\<exists>parts. G_private_to_names p = Some (Some parts)) \<and> (home s p = Some (My_id s) \<longrightarrow> box s p \<noteq> None)"

fun op_ok :: "server \<Rightarrow> group_op \<Rightarrow> bool" where
  "op_ok s (Join p gn) = (client_known s p \<and> length (cstr gn) < MAX_GROUP_NAME)"
| "op_ok s (Leave p gn) = client_known s p"
| "op_ok s (Disconnect p) = client_known s p"

text \<open>Every session that a name can mean has room for \<open>k\<close> messages, or is killed already.\<close>

definition all_room :: "nat \<Rightarrow> server \<Rightarrow> bool" where
  "all_room k s \<longleftrightarrow> (\<forall>m b. box s m = Some b \<longrightarrow> reader_ok k s b)"

lemma all_room_readers:
  assumes "server_ok s" and "all_room k s"
  shows "readers_ok k s"
proof -
  have "reader_ok k s b" if "g \<in> set (GroupsList s)" "b \<in> set (g_mboxes g)" for g b
  proof -
    have "group_ok s g" using assms(1) that(1) by (simp add: server_ok_def)
    then have "set_mset (mset (map Some (g_mboxes g))) = set_mset (mset (map (box s) (locals (My_id s) (g_daemons g))))"
      by (simp add: group_ok_def)
    then have "Some b \<in> set (map (box s) (locals (My_id s) (g_daemons g)))" using that(2) by auto
    then obtain m where "box s m = Some b" by auto
    then show ?thesis using assms(2) by (simp add: all_room_def)
  qed
  then show ?thesis by (simp add: readers_ok_def readers_def)
qed

lemma all_room_mono: "all_room k s \<Longrightarrow> j \<le> k \<Longrightarrow> all_room j s"
  using reader_ok_mono unfolding all_room_def by blast

lemma all_room_kept: "kept n s s' \<Longrightarrow> all_room (n + k) s \<Longrightarrow> all_room k s'"
  by (simp add: all_room_def kept_def)

lemma kept_ok:
  assumes "kept n s s'"
  shows "op_ok s' op = op_ok s op" "proc_known s' = proc_known s" "Gstate s' = Gstate s" "server_ok s'"
  using assms by (cases op; simp add: kept_def client_known_def proc_known_def fun_eq_iff)+

lemma client_member: "client_known s p \<Longrightarrow> all_room k s \<Longrightarrow> member_ok k s p"
  by (auto simp: client_known_def member_ok_def all_room_def)

section \<open>One operation\<close>

definition cost :: "server \<Rightarrow> nat" where
  "cost s = 4 + 3 * length (GroupsList s)"

lemma Op_core:
  assumes sok: "server_ok s" and gst: "Gstate s = GOP \<or> Gstate s = GTRANS" and op: "op_ok s op"
    and small: "\<forall>gn. card (view s gn) < max_members" and room: "all_room (cost s) s"
  shows "\<exists>s'. handle_op op s = Some s' \<and> kept (cost s) s s' \<and> view s' = spec_op (proc_known s) op (view s)"
proof -
  have r: "readers_ok n s" "all_room n s" if "n \<le> cost s" for n
    using all_room_readers [OF sok] all_room_mono [OF room that] by auto
  show ?thesis
  proof (cases op)
    case (Join p gn)
    have "member_ok (3 + 0) s p" using op Join client_member r(2) by (simp add: cost_def)
    moreover have "readers_ok (3 + 0) s" using r(1) by (simp add: cost_def)
    ultimately obtain s' where "G_handle_join p gn s = Some s'" "kept 3 s s'"
      "view s' = (if home s p = None then view s else (view s)(cstr gn := insert (cstr p) (view s (cstr gn))))"
      using Join_core [OF sok gst, of gn 0 p] op Join small by auto
    then show ?thesis using Join kept_mono [of 3 s s' "cost s"] by (auto simp: proc_known_def cost_def)
  next
    case (Leave p gn)
    have "member_ok 0 s p" using op Leave client_member r(2) by simp
    moreover have "readers_ok (4 + 0) s" using r(1) by (simp add: cost_def)
    ultimately obtain s' where "G_handle_leave p gn s = Some s'" "kept 4 s s'"
      "view s' = (if home s p = None then view s else (view s)(cstr gn := view s (cstr gn) - {cstr p}))"
      using Leave_core [OF sok gst, of p gn 0] small by (auto simp: less_imp_le)
    then show ?thesis using Leave kept_mono [of 4 s s' "cost s"] by (auto simp: proc_known_def cost_def)
  next
    case (Disconnect p)
    have "member_ok 0 s p" using op Disconnect client_member r(2) by simp
    moreover have "readers_ok (3 * length (GroupsList s) + 0) s" using r(1) by (simp add: cost_def)
    moreover have "\<forall>gn. card (view s gn) \<le> max_members" using small by (simp add: less_imp_le)
    ultimately obtain s' where "G_handle_kill p s = Some s'" "kept (3 * length (GroupsList s)) s s'"
      "view s' = (if home s p = None then view s else (\<lambda>gn. view s gn - {cstr p}))"
      using Kill_core [OF sok gst, of p 0] by blast
    then show ?thesis using Disconnect kept_mono [of "3 * length (GroupsList s)" s s' "cost s"] by (auto simp: proc_known_def cost_def)
  qed
qed

lemma finite_view: "finite (view s gn)"
proof -
  have "view s gn \<subseteq> cstr ` \<Union> ((set \<circ> group_members) ` set (GroupsList s))" by (auto simp: view_def)
  then show ?thesis by (rule finite_subset) simp
qed

lemma spec_grows:
  assumes "\<And>n. finite (v n)"
  shows "card (spec_op kn op v gn) \<le> Suc (card (v gn))" "\<And>n. finite (spec_op kn op v n)"
    "\<exists>g. {n. spec_op kn op v n \<noteq> {}} \<subseteq> insert g {n. v n \<noteq> {}}"
proof -
  show "card (spec_op kn op v gn) \<le> Suc (card (v gn))"
    using assms card_Diff1_le by (cases op) (auto simp: card_insert_if intro!: le_SucI)
  show "finite (spec_op kn op v n)" for n using assms by (cases op) auto
  show "\<exists>g. {n. spec_op kn op v n \<noteq> {}} \<subseteq> insert g {n. v n \<noteq> {}}"
    by (cases op) (auto split: if_splits)
qed

text \<open>Sequences of operations.\<close>

lemma Ops_core:
  assumes "server_ok s" and "Gstate s = GOP \<or> Gstate s = GTRANS" and "\<forall>op \<in> set ops. op_ok s op"
    and "\<forall>gn. card (view s gn) + length ops \<le> max_members" and "length (GroupsList s) + length ops \<le> n"
    and "all_room ((4 + 3 * n) * length ops) s"
  shows "\<exists>s'. forM ops handle_op s = Some s' \<and> server_ok s' \<and> view s' = fold (spec_op (proc_known s)) ops (view s)"
  using assms
proof (induction ops arbitrary: s)
  case (Cons op ops)
  have c: "cost s \<le> 4 + 3 * n" using Cons.prems(5) by (simp add: cost_def)
  have "all_room (cost s) s" by (rule all_room_mono [OF Cons.prems(6)]) (use c in simp)
  moreover have "\<forall>gn. card (view s gn) < max_members"
  proof
    fix gn
    have "card (view s gn) + length (op # ops) \<le> max_members" using Cons.prems(4) by blast
    then show "card (view s gn) < max_members" by simp
  qed
  ultimately obtain s1 where s1: "handle_op op s = Some s1" "kept (cost s) s s1" "view s1 = spec_op (proc_known s) op (view s)"
    using Op_core [OF Cons.prems(1,2), of op] Cons.prems(3) by auto
  note k = kept_ok [OF s1(2)]
  note g = spec_grows [where v = "view s" and kn = "proc_known s" and op = op, OF finite_view]
  have "\<forall>gn. card (view s1 gn) + length ops \<le> max_members"
  proof
    fix gn
    have "card (view s gn) + length (op # ops) \<le> max_members" using Cons.prems(4) by blast
    then show "card (view s1 gn) + length ops \<le> max_members" using g(1) [where gn = gn] s1(3) by simp
  qed
  moreover have "length (GroupsList s1) + length ops \<le> n"
  proof -
    obtain g where sub: "{n. view s1 n \<noteq> {}} \<subseteq> insert g {n. view s n \<noteq> {}}" using g(3) s1(3) by auto
    have fin: "finite {n. view s n \<noteq> {}}"
      by (rule finite_subset [of _ "(\<lambda>g. cstr (g_name g)) ` set (GroupsList s)"]) (auto simp: view_def)
    have "card {n. view s1 n \<noteq> {}} \<le> Suc (card {n. view s n \<noteq> {}})"
      using card_mono [OF _ sub] fin by (simp add: card_insert_if split: if_splits)
    then show ?thesis using groups_card [OF Cons.prems(1)] groups_card [OF k(4)] Cons.prems(5) by simp
  qed
  moreover have "all_room ((4 + 3 * n) * length ops) s1"
    by (rule all_room_kept [OF s1(2)], rule all_room_mono [OF Cons.prems(6)]) (use c in simp)
  moreover have "\<forall>op \<in> set ops. op_ok s1 op" using Cons.prems(3) k(1) by simp
  ultimately obtain s' where "forM ops handle_op s1 = Some s'" "server_ok s'" "view s' = fold (spec_op (proc_known s1)) ops (view s1)"
    using Cons.IH [OF k(4)] Cons.prems(2) k(3) by auto
  then show ?case using s1 k(2) by simp
qed simp

end
