(* ===== verification/Group_sample.thy ===== *)
theory Group_sample
  imports Group_claims
begin

text \<open>
  Concrete daemons for the witnesses: the three processes of the sample ring with names of their
  own, one client each, and no groups yet.
\<close>

definition one_client :: sess_table where
  "one_client = (case Sess_insert_new_session None a_session empty_table of
     None \<Rightarrow> empty_table | Some (n, t) \<Rightarrow> Sess_hash_session n t)"

definition named_proc :: "nat \<Rightarrow> proc" where
  "named_proc i = (sample_proc i)\<lparr>p_name := (if i = 0 then ''x'' else if i = 1 then ''y'' else ''z'')\<rparr>"

definition sample_server :: "nat \<Rightarrow> server" where
  "sample_server me = sess_layer.extend (sess_table.extend one_client
     \<lparr>dmn = sample\<lparr>Config_procs := named_proc\<rparr>, Sess_My = named_proc me, Num_sessions = 1,
      Session_threshold = LOW_PRIORITY, Protocol_threshold = LOW_PRIORITY, Accept_inet_mbox = [5],
      Accept_unix_mbox = 6, send_ret = (\<lambda>_ _ l. int (min l 7)), send_calls = 0, sock_out = (\<lambda>_. []),
      recv_ret = (\<lambda>_ _ _. Would_block), recv_calls = 0, sock_in = (\<lambda>_. []), closed = []\<rparr>)
   \<lparr>Gstate = GOP, G_Trans_memb = sample_conf, G_Trans_memb_id = sample_memb_id, G_Reg_memb = sample_conf,
    G_Reg_memb_id = sample_memb_id, Groups_bufs = [], Groups_bufs_fresh = False, Num_mess_gathered = 0,
    Num_daemons_gathered = 0, Gathered_complete = False, Gathered = [], GroupsList = [], MySyncedSet = [1],
    Num_groups = 0\<rparr>"

text \<open>The names \<open>#a#x\<close>, \<open>#a#y\<close> of the clients of the first two daemons, and a group.\<close>

definition client_x :: "byte list" where "client_x = [35, 97, 35, 120] @ replicate 28 0"
definition client_y :: "byte list" where "client_y = [35, 97, 35, 121] @ replicate 28 0"
definition a_group :: "byte list" where "a_group = [103, 0]"

section \<open>One client\<close>

lemma fold_free [simp]:
  "Sessions_head (fold Sess_free_session xs s) = Sessions_head s" "Sessions_tail (fold Sess_free_session xs s) = Sessions_tail s"
  by (induction xs arbitrary: s) (simp_all add: Sess_free_session_def upd_session_def)

lemma empty_table_fields:
  "Sessions_head empty_table = None" "Sessions_tail empty_table = None"
  by (simp_all add: empty_table_def Sess_init_sessions_def)

lemma one_client_ok:
  "\<exists>n. sessions_ok one_client [n] \<and> mbox_at one_client n = 7 \<and> name_at one_client n = [97] \<and>
     ss_mess (Sessions one_client n) = [] \<and> ss_write (Sessions one_client n) = Message_reset_current_location \<and>
     ss_status (Sessions one_client n) = OP_SESSION OR MEMB_SESSION"
proof -
  have l: "length ([] :: nat list) < MAX_SESSIONS" by (simp add: MAX_SESSIONS_def MAX_FD_EVENTS_def)
  from insert_session_ok [OF empty_table_ok l, of a_session] obtain n place and s' :: sess_table where
    n: "find_place (Sessions empty_table) (ss_name a_session) (Sessions_head empty_table) = Some (place, True)"
      "Sess_insert_new_session place a_session empty_table = Some (n, s')" "sessions_ok (Sess_hash_session n s') [n]"
      "mbox_at (Sess_hash_session n s') n = ss_mbox a_session" "name_at (Sess_hash_session n s') n = cstr (ss_name a_session)"
    by auto
  have "place = None" using n(1) by (simp add: empty_table_fields find_place.simps)
  then have ins: "Sess_insert_new_session None a_session empty_table = Some (n, s')" using n(2) by simp
  then have oc: "one_client = Sess_hash_session n s'" by (simp add: one_client_def)
  have "Sessions s' n = a_session\<lparr>ss_sort_next := None, ss_sort_prev := None\<rparr>"
    using ins by (cases "Sessions_free empty_table")
      (auto simp: Sess_insert_new_session_def Sess_get_free_session_def upd_session_def Let_def empty_table_fields)
  then have "ss_mess (Sessions one_client n) = []" "ss_write (Sessions one_client n) = Message_reset_current_location"
    "ss_status (Sessions one_client n) = OP_SESSION OR MEMB_SESSION"
    by (simp_all add: oc Sess_hash_session_def upd_session_def a_session_def Let_def)
  moreover have "cstr (ss_name a_session) = [97]" "ss_mbox a_session = 7" by (simp_all add: a_session_def cstr_def)
  ultimately show ?thesis using n(3-5) by (auto simp: oc)
qed

section \<open>The sample servers are well formed\<close>

lemma sample_server_fields [simp]:
  "Sessions (sample_server me) = Sessions one_client" "Sessions_head (sample_server me) = Sessions_head one_client"
  "Sessions_tail (sample_server me) = Sessions_tail one_client" "Sessions_free (sample_server me) = Sessions_free one_client"
  "Sessions_hash_head (sample_server me) = Sessions_hash_head one_client" "GroupsList (sample_server me) = []"
  "Gstate (sample_server me) = GOP" "dmn (sample_server me) = sample\<lparr>Config_procs := named_proc\<rparr>"
  "My_id (sample_server me) = p_id (named_proc me)" "send_ret (sample_server me) = (\<lambda>_ _ l. int (min l 7))"
  by (simp_all add: sample_server_def sess_table.defs sess_layer.defs My_id_def)

lemma sample_table:
  "sessions_ok (sample_server me) L = sessions_ok one_client L" "mbox_at (sample_server me) = mbox_at one_client"
  "name_at (sample_server me) = name_at one_client"
proof -
  have "nexts (sample_server me) = nexts one_client" "prevs (sample_server me) = prevs one_client"
    "hashes (sample_server me) = hashes one_client"
    by (simp_all add: nexts_def prevs_def hashes_def fun_eq_iff)
  moreover show n: "mbox_at (sample_server me) = mbox_at one_client" "name_at (sample_server me) = name_at one_client"
    by (simp_all add: mbox_at_def name_at_def fun_eq_iff)
  ultimately show "sessions_ok (sample_server me) L = sessions_ok one_client L"
    by (simp add: sessions_ok_def sorted_ok_def hash_ok_def)
qed

lemma sample_conf_ok: "conf_ok (sample\<lparr>Config_procs := named_proc\<rparr>)"
proof -
  have "conf_pos (sample\<lparr>Config_procs := named_proc\<rparr>) (p_id (named_proc i)) = int i" if "i \<in> {0, 1, 2}" for i
    using that by (elim insertE; simp; code_simp)
  moreover have "i \<in> {0, 1, 2}" if "i < 3" for i :: nat using that by auto
  ultimately show ?thesis by (simp add: conf_ok_def sample_conf_def)
qed

lemma sample_ok: "server_ok (sample_server me)"
proof -
  obtain n where "sessions_ok one_client [n]" using one_client_ok by blast
  then have "dir_ok (sample_server me)" unfolding dir_ok_def sample_table by (intro exI [of _ "[n]"]) simp
  then show ?thesis using sample_conf_ok by (simp add: server_ok_def groups_in_order_def)
qed

lemma sample_room:
  assumes "k \<le> MAX_SESSION_MESSAGES"
  shows "all_room k (sample_server me)"
proof -
  let ?s = "sample_server me"
  obtain n where n: "sessions_ok one_client [n]" "mbox_at one_client n = 7" "ss_mess (Sessions one_client n) = []"
    "ss_write (Sessions one_client n) = Message_reset_current_location"
    "ss_status (Sessions one_client n) = OP_SESSION OR MEMB_SESSION" using one_client_ok by blast
  have ok: "sessions_ok ?s [n]" using n(1) by (simp add: sample_table)
  note look = Session_lookups_core [OF ok]
  have ix: "Sess_get_session_index 7 ?s = Some (Some n)"
    using look [of 7 "[]"] n(2) by (auto simp: sample_table split: option.splits)
  have "n < MAX_SESSIONS" using n(1) by (auto simp: sessions_ok_def sorted_ok_def)
  then have "client_ok ?s n" using ix n
    by (simp add: client_ok_def sample_table sane_send_def mess_of_def loc_ok_def Message_reset_current_location_def
        Is_op_session_def OP_SESSION_def MEMB_SESSION_def)
  then have "reader_ok k ?s 7" using ix n(2,3) assms by (auto simp: reader_ok_def sample_table mess_of_def)
  moreover have "b = 7" if b: "mbox_of_priv ?s priv = Some b" for priv b
    using look [of 0 priv] b n(2) by (auto simp: mbox_of_priv_def sample_table split: option.splits)
  ultimately show ?thesis by (auto simp: all_room_def box_def split: option.splits)
qed

lemma names_of_clients:
  "G_private_to_names client_x = Some (Some ([97], [120]))" "G_private_to_names client_y = Some (Some ([97], [121]))"
  by code_simp+

lemma sample_homes: "home (sample_server me) client_x = Some 1" "home (sample_server me) client_y = Some 2"
proof -
  have "Conf_proc_by_name (sample\<lparr>Config_procs := named_proc\<rparr>) (string_of (cstr [120])) = Some (0, named_proc 0)"
    "Conf_proc_by_name (sample\<lparr>Config_procs := named_proc\<rparr>) (string_of (cstr [121])) = Some (1, named_proc 1)"
    by (simp_all add: Conf_proc_by_name_def sample_conf_def named_proc_def string_of_def cstr_def upt_rec; code_simp)+
  moreover have "p_id (named_proc 0) = 1" "p_id (named_proc 1) = 2" by code_simp+
  ultimately show "home (sample_server me) client_x = Some 1" "home (sample_server me) client_y = Some 2"
    by (simp_all add: home_def names_of_clients proc_named_def)
qed

lemma sample_clients: "client_known (sample_server me) client_x" "client_known (sample_server me) client_y"
proof -
  obtain n where n: "sessions_ok one_client [n]" "name_at one_client n = [97]" using one_client_ok by blast
  have "sessions_ok (sample_server me) [n]" using n(1) by (simp add: sample_table)
  from Session_lookups_core [OF this, of 0 "[97]"] have "Sess_get_session [97] (sample_server me) = Some (Some n)"
    using n(2) by (auto simp: sample_table cstr_def split: option.splits)
  then show "client_known (sample_server me) client_x" "client_known (sample_server me) client_y"
    by (simp_all add: client_known_def box_def names_of_clients mbox_of_priv_def)
qed

end
