(* ===== verification/Group_replicas.thy ===== *)
theory Group_replicas
  imports Group_sample
begin

text \<open>
  The properties of joins, leaves and disconnects: refinement of sets of names, and agreement of
  daemons that deliver the same operations.
\<close>

lemma room_eq: "MAX_SESSION_MESSAGES = 1000"
  by (simp add: MAX_SESSION_MESSAGES_def)

lemma sample_view: "view (sample_server me) gn = {}"
  by (simp add: view_def)

lemma sample_known: "proc_known (sample_server me) client_x" "proc_known (sample_server me) client_y"
  by (simp_all add: proc_known_def sample_homes)

lemma sample_op: "op_ok (sample_server me) (Join client_x a_group)" "op_ok (sample_server me) (Join client_y a_group)"
    "op_ok (sample_server me) (Leave client_x a_group)"
  by (simp_all add: sample_clients a_group_def cstr_def MAX_GROUP_NAME_eq)

text \<open>
  C26: A join, leave or disconnect delivered outside a membership change is handled to the end, keeps
  the indexes, counts and local mailboxes of the groups right, and changes the membership as the
  operation on sets says: a join adds the member to the one group, a leave takes it out of the one
  group, a disconnect takes it out of all, and a member of a daemon that is not in the
  configuration changes nothing.
\<close>

theorem Group_op_refines:
  assumes "server_ok s" and "Gstate s = GOP \<or> Gstate s = GTRANS" and "op_ok s op"
    and "\<forall>gn. card (view s gn) < max_members" and "all_room (cost s) s"
  shows "\<exists>s'. handle_op op s = Some s' \<and> server_ok s' \<and> view s' = spec_op (proc_known s) op (view s)"
  using Op_core [OF assms] kept_ok(4) by blast

theorem Group_op_refines_witness:
  "\<exists>s'. handle_op (Join client_x a_group) (sample_server 0) = Some s' \<and> server_ok s' \<and> view s' [103] = {[35, 97, 35, 120]}"
proof -
  have c: "cost (sample_server 0) = 4" by (simp add: cost_def)
  have "cstr client_x = [35, 97, 35, 120]" "cstr a_group = [103]" by code_simp+
  then show ?thesis
    using Group_op_refines [of "sample_server 0" "Join client_x a_group", OF sample_ok _ sample_op(1)] sample_known
      sample_room [of "cost (sample_server 0)" 0]
    by (auto simp: sample_view max_members_def c room_eq)
qed

text \<open>
  C27: Two daemons with the same members in every group, which know the same daemons and deliver
  the same joins, leaves and disconnects in the same order, have the same members in every group
  afterwards, whichever of the members are their own clients.
\<close>

theorem Replicas_agree:
  assumes "server_ok s" and "server_ok t" and "Gstate s = GOP \<or> Gstate s = GTRANS" and "Gstate t = GOP \<or> Gstate t = GTRANS"
    and "view s = view t" and "proc_known s = proc_known t"
    and "\<forall>op \<in> set ops. op_ok s op \<and> op_ok t op" and "\<forall>gn. card (view s gn) + length ops \<le> max_members"
    and "length (GroupsList s) + length ops \<le> n" and "length (GroupsList t) + length ops \<le> n"
    and "all_room ((4 + 3 * n) * length ops) s" and "all_room ((4 + 3 * n) * length ops) t"
  shows "\<exists>s' t'. forM ops handle_op s = Some s' \<and> forM ops handle_op t = Some t' \<and> view s' = view t' \<and>
    view s' = fold (spec_op (proc_known s)) ops (view s)"
proof -
  have "\<forall>op \<in> set ops. op_ok s op" "\<forall>op \<in> set ops. op_ok t op" using assms(7) by auto
  then show ?thesis
    using Ops_core [OF assms(1,3) _ assms(8,9,11)] Ops_core [OF assms(2,4) _ _ assms(10,12)] assms(5,6,8) by auto
qed

theorem Replicas_agree_witness:
  "\<exists>s' t'. forM [Join client_x a_group, Join client_y a_group, Leave client_x a_group] handle_op (sample_server 0) = Some s' \<and>
    forM [Join client_x a_group, Join client_y a_group, Leave client_x a_group] handle_op (sample_server 1) = Some t' \<and>
    view s' = view t' \<and> view s' [103] = {[35, 97, 35, 121]}"
proof -
  let ?ops = "[Join client_x a_group, Join client_y a_group, Leave client_x a_group]"
  have n: "cstr client_x = [35, 97, 35, 120]" "cstr client_y = [35, 97, 35, 121]" "cstr a_group = [103]" by code_simp+
  have v: "view (sample_server 0) = view (sample_server 1)" by (simp add: fun_eq_iff sample_view)
  have h: "proc_named pn (sample_server 0) = proc_named pn (sample_server 1)" for pn by (simp add: proc_named_def)
  have "home (sample_server 0) = home (sample_server 1)" by (intro ext) (unfold home_def h, rule refl)
  then have k: "proc_known (sample_server 0) = proc_known (sample_server 1)" by (simp add: fun_eq_iff proc_known_def)
  have room: "all_room ((4 + 3 * 3) * length ?ops) (sample_server me)" for me
    by (rule sample_room) (simp add: room_eq)
  from Replicas_agree [OF sample_ok sample_ok _ _ v k, of ?ops 3] sample_op room
  obtain s' t' where "forM ?ops handle_op (sample_server 0) = Some s'" "forM ?ops handle_op (sample_server 1) = Some t'"
    "view s' = view t'" "view s' = fold (spec_op (proc_known (sample_server 0))) ?ops (view (sample_server 0))"
    by (auto simp: sample_view max_members_def)
  moreover from this(4) have "view s' [103] = {[35, 97, 35, 121]}" using sample_known by (auto simp: n sample_view)
  ultimately show ?thesis by blast
qed

end
