(* ===== verification/Group_targets.thy ===== *)
theory Group_targets
  imports Group_replicas
begin

text \<open>
  The sessions a message to several groups is delivered to, and the sets of members that come into a
  view together.
\<close>

section \<open>The local members of a group\<close>

definition recipient :: "server \<Rightarrow> byte list \<Rightarrow> nat \<Rightarrow> bool" where
  "recipient s nm i \<longleftrightarrow> (if hd nm \<noteq> 35
     then (\<exists>g \<in> set (GroupsList s). cstr (g_name g) = cstr nm \<and> (\<exists>m \<in> set (group_members g).
       home s m = Some (My_id s) \<and> box s m = Some (mbox_at s i))) \<and> Sess_get_session_index (mbox_at s i) s = Some (Some i)
     else (\<exists>priv pn. G_private_to_names nm = Some (Some (priv, pn)) \<and> pn = chars (p_name (Sess_My s)) \<and>
       Sess_get_session priv s = Some (Some i)))"

lemma mbox_sessions:
  assumes sok: "server_ok s" and g: "g \<in> set (GroupsList s)" and b: "b \<in> set (g_mboxes g)"
  shows "\<exists>i m. Sess_get_session_index b s = Some (Some i) \<and> mbox_at s i = b \<and> m \<in> set (group_members g) \<and>
    home s m = Some (My_id s) \<and> box s m = Some b"
proof -
  have gok: "group_ok s g" and dir: "dir_ok s" using sok g by (simp_all add: server_ok_def)
  then have "set_mset (mset (map Some (g_mboxes g))) = set_mset (mset (map (box s) (locals (My_id s) (g_daemons g))))"
    by (simp add: group_ok_def)
  then have "Some b \<in> set (map (box s) (locals (My_id s) (g_daemons g)))" using b by auto
  then obtain m where m: "m \<in> set (locals (My_id s) (g_daemons g))" "box s m = Some b" by auto
  then have "m \<in> set (group_members g)" by (auto simp: locals_def group_members_def)
  moreover have "home s m = Some (My_id s)" using m(1) gok by (auto dest!: locals_members simp: group_ok_def daemon_ok_def)
  moreover obtain priv pn where "G_private_to_names m = Some (Some (priv, pn))"
    using m(2) by (auto simp: box_def split: option.splits)
  from same_session [OF dir this m(2)] obtain i where "Sess_get_session_index b s = Some (Some i)" "mbox_at s i = b" by blast
  ultimately show ?thesis using m(2) by blast
qed

lemma recipients_of_group:
  assumes sok: "server_ok s" and g: "G_get_group nm s = Some g" and h: "hd nm \<noteq> 35"
  shows "recipient s nm i \<longleftrightarrow> mbox_at s i \<in> set (g_mboxes g) \<and> Sess_get_session_index (mbox_at s i) s = Some (Some i)"
proof -
  have ord: "groups_in_order (GroupsList s)" using sok by (simp add: server_ok_def)
  have gg: "g \<in> set (GroupsList s)" "cstr (g_name g) = cstr nm" using get_group_iff [OF ord] g by auto
  have gok: "group_ok s g" using sok gg by (simp add: server_ok_def)
  have only: "k = g" if "k \<in> set (GroupsList s)" "cstr (g_name k) = cstr nm" for k
    using get_group_iff [OF ord, of nm k] that g by simp
  have "mbox_at s i \<in> set (g_mboxes g)"
    if m: "m \<in> set (group_members g)" "home s m = Some (My_id s)" "box s m = Some (mbox_at s i)" for m
  proof -
    obtain d where d: "d \<in> set (g_daemons g)" "m \<in> set (dm_members d)" using m(1) by (auto simp: group_members_def)
    then have "home s m = Some (dm_proc d)" using gok by (auto simp: group_ok_def daemon_ok_def)
    then show ?thesis using local_mailbox [OF gok d(1) _ d(2) m(3)] m(2) by simp
  qed
  note into = this
  show ?thesis
  proof
    assume r: "recipient s nm i"
    then obtain k m where "k \<in> set (GroupsList s)" "cstr (g_name k) = cstr nm" "m \<in> set (group_members k)"
      "home s m = Some (My_id s)" "box s m = Some (mbox_at s i)" using h by (auto simp: recipient_def)
    then show "mbox_at s i \<in> set (g_mboxes g) \<and> Sess_get_session_index (mbox_at s i) s = Some (Some i)"
      using only [of k] into r h by (simp add: recipient_def)
  next
    assume a: "mbox_at s i \<in> set (g_mboxes g) \<and> Sess_get_session_index (mbox_at s i) s = Some (Some i)"
    then obtain m where "m \<in> set (group_members g)" "home s m = Some (My_id s)" "box s m = Some (mbox_at s i)"
      using mbox_sessions [OF sok gg(1), of "mbox_at s i"] by blast
    then show "recipient s nm i" using h gg a by (auto simp: recipient_def)
  qed
qed

section \<open>The choice of the targets\<close>

definition target_ok :: "server \<Rightarrow> byte list \<Rightarrow> bool" where
  "target_ok s nm \<longleftrightarrow> hd nm = 35 \<longrightarrow> G_private_to_names nm \<noteq> None"

text \<open>\<open>targets s nms bs\<close>: \<open>bs\<close> are the mailboxes of the recipients of \<open>nms\<close>, each once.\<close>

definition targets :: "server \<Rightarrow> byte list list \<Rightarrow> int list \<Rightarrow> bool" where
  "targets s nms bs \<longleftrightarrow> distinct bs \<and> (\<forall>b \<in> set bs. \<exists>i. Sess_get_session_index b s = Some (Some i) \<and> mbox_at s i = b) \<and>
     (\<forall>i. (mbox_at s i \<in> set bs \<and> Sess_get_session_index (mbox_at s i) s = Some (Some i)) \<longleftrightarrow> (\<exists>nm \<in> set nms. recipient s nm i))"

lemma session_found:
  assumes "dir_ok s" and "Sess_get_session priv s = Some (Some i)"
  shows "Sess_get_session_index (mbox_at s i) s = Some (Some i)"
proof -
  from assms(1) obtain L where L: "sessions_ok s L" "inj_on (mbox_at s) (set L)" by (auto simp: dir_ok_def)
  note look = Session_lookups_core [OF L(1), of "mbox_at s i" priv]
  then have "i \<in> set L" using assms(2) by auto
  then show ?thesis using look L(2) by (auto simp: inj_on_def split: option.splits)
qed

lemma target_mboxes_spec:
  assumes sok: "server_ok s" and gst: "Gstate s = GOP \<or> Gstate s = GTRANS" and nm: "target_ok s nm"
  shows "\<exists>r. target_mboxes nm s = Some r \<and> targets s [nm] (case r of None \<Rightarrow> [] | Some bs \<Rightarrow> bs)"
proof (cases "hd nm = 35")
  case False
  show ?thesis
  proof (cases "G_get_group nm s")
    case None
    have ord: "groups_in_order (GroupsList s)" using sok by (simp add: server_ok_def)
    have "\<not> recipient s nm i" for i using None False get_group_None [OF ord] by (auto simp: recipient_def)
    then show ?thesis using None False by (simp add: target_mboxes_def targets_def)
  next
    case (Some g)
    have ord: "groups_in_order (GroupsList s)" using sok by (simp add: server_ok_def)
    have g: "g \<in> set (GroupsList s)" using get_group_iff [OF ord] Some by simp
    have gok: "group_ok s g" using sok g by (simp add: server_ok_def)
    have "targets s [nm] (g_mboxes g)" using recipients_of_group [OF sok Some False] mbox_sessions [OF sok g]
      group_mboxes [OF sok gok] unfolding targets_def by simp blast
    then show ?thesis using Some False gst by (auto simp: target_mboxes_def)
  qed
next
  case True
  obtain names where names: "G_private_to_names nm = Some names" using nm True by (auto simp: target_ok_def)
  have none: ?thesis if "target_mboxes nm s = Some None" "\<And>i. \<not> recipient s nm i"
    using that by (simp add: targets_def)
  show ?thesis
  proof (cases names)
    case None
    then show ?thesis using names True by (intro none) (simp_all add: target_mboxes_def recipient_def)
  next
    case (Some parts)
    obtain priv pn where parts: "parts = (priv, pn)" by force
    have dir: "dir_ok s" using sok by (simp add: server_ok_def)
    obtain r where r: "Sess_get_session priv s = Some r" using get_session_dir [OF dir] by blast
    show ?thesis
    proof (cases "pn = chars (p_name (Sess_My s)) \<and> r \<noteq> None")
      case False
      then show ?thesis using names True Some parts r
        by (intro none) (auto simp: target_mboxes_def recipient_def)
    next
      case t: True
      then obtain ses where ses: "r = Some ses" by auto
      then have f: "Sess_get_session_index (mbox_at s ses) s = Some (Some ses)" using session_found [OF dir] r by simp
      have rec: "recipient s nm i \<longleftrightarrow> i = ses" for i using names True Some parts r t ses by (auto simp: recipient_def)
      have "(mbox_at s i = mbox_at s ses \<and> Sess_get_session_index (mbox_at s i) s = Some (Some i)) \<longleftrightarrow> i = ses" for i
        using f by (metis option.inject)
      then have "targets s [nm] [mbox_at s ses]" using f rec by (simp add: targets_def)
      moreover have "target_mboxes nm s = Some (Some [mbox_at s ses])"
        using names True Some parts r t ses by (simp add: target_mboxes_def mbox_at_def)
      ultimately show ?thesis by auto
    qed
  qed
qed

lemma targets_merge:
  assumes "targets s nms acc" and "targets s [nm] bs"
  shows "targets s (nms @ [nm]) (acc @ filter (\<lambda>m. m \<notin> set acc) bs)"
proof -
  let ?cs = "acc @ filter (\<lambda>m. m \<notin> set acc) bs"
  have c: "set ?cs = set acc \<union> set bs" by auto
  have "distinct acc" "distinct bs" using assms by (simp_all add: targets_def)
  then have "distinct ?cs" by auto
  moreover have "\<forall>b \<in> set ?cs. \<exists>i. Sess_get_session_index b s = Some (Some i) \<and> mbox_at s i = b"
    unfolding c using assms by (auto simp: targets_def)
  moreover have "(mbox_at s i \<in> set ?cs \<and> Sess_get_session_index (mbox_at s i) s = Some (Some i)) \<longleftrightarrow>
      (\<exists>n \<in> set (nms @ [nm]). recipient s n i)" for i
  proof -
    have "(mbox_at s i \<in> set acc \<and> Sess_get_session_index (mbox_at s i) s = Some (Some i)) \<longleftrightarrow> (\<exists>n \<in> set nms. recipient s n i)"
      "(mbox_at s i \<in> set bs \<and> Sess_get_session_index (mbox_at s i) s = Some (Some i)) \<longleftrightarrow> recipient s nm i"
      using assms unfolding targets_def by simp_all
    then show ?thesis unfolding c by auto
  qed
  ultimately show ?thesis unfolding targets_def by blast
qed

lemma collect_spec:
  assumes "server_ok s" and "Gstate s = GOP \<or> Gstate s = GTRANS" and "target_ok s nm" and "targets s nms acc"
  shows "\<exists>bs. collect_mboxes s nm acc = Some bs \<and> targets s (nms @ [nm]) bs"
proof -
  obtain r where r: "target_mboxes nm s = Some r" "targets s [nm] (case r of None \<Rightarrow> [] | Some bs \<Rightarrow> bs)"
    using target_mboxes_spec [OF assms(1-3)] by blast
  note m = targets_merge [OF assms(4) r(2)]
  show ?thesis
  proof (cases r)
    case None
    then show ?thesis using r(1) m by (simp add: collect_mboxes_def)
  next
    case (Some lit)
    then show ?thesis using r(1) m by (cases "acc = []") (simp_all add: collect_mboxes_def)
  qed
qed

lemma collect_all:
  assumes sok: "server_ok s" and gst: "Gstate s = GOP \<or> Gstate s = GTRANS" and "\<forall>nm \<in> set nms. target_ok s nm"
    and "targets s done acc"
  shows "\<exists>bs. forM nms (collect_mboxes s) acc = Some bs \<and> targets s (done @ nms) bs"
  using assms(3,4)
proof (induction nms arbitrary: "done" acc)
  case (Cons nm nms)
  obtain bs where bs: "collect_mboxes s nm acc = Some bs" "targets s (done @ [nm]) bs"
    using collect_spec [OF sok gst _ Cons.prems(2), of nm] Cons.prems(1) by auto
  then show ?case using Cons.IH [of "done @ [nm]" bs] Cons.prems(1) by simp
qed simp

lemma those_all: "\<forall>x \<in> set xs. \<exists>i. f x = Some (Some i) \<and> P i x \<Longrightarrow>
  \<exists>is. those (map f xs) = Some (map Some is) \<and> list_all2 P is xs"
proof (induction xs)
  case (Cons x xs)
  then obtain i "is" where "f x = Some (Some i)" "P i x" "those (map f xs) = Some (map Some is)" "list_all2 P is xs" by auto
  then show ?case by (intro exI [of _ "i # is"]) simp
qed simp

lemma Targets_core:
  assumes sok: "server_ok s" and gst: "Gstate s = GOP \<or> Gstate s = GTRANS" and nms: "\<forall>nm \<in> set nms. target_ok s nm"
  shows "\<exists>is. G_analize_groups nms s = Some (map Some is) \<and> distinct is \<and> set is = {i. \<exists>nm \<in> set nms. recipient s nm i}"
proof -
  have "\<exists>bs. (case nms of [nm] \<Rightarrow> map_option (\<lambda>r. case r of None \<Rightarrow> [] | Some lit \<Rightarrow> lit) (target_mboxes nm s)
       | _ \<Rightarrow> forM nms (collect_mboxes s) []) = Some bs \<and> targets s nms bs"
  proof (cases "length nms = 1")
    case True
    then obtain nm where "nms = [nm]" by (auto simp: length_Suc_conv)
    then show ?thesis using target_mboxes_spec [OF sok gst, of nm] nms by auto
  next
    case False
    have "targets s [] []" by (simp add: targets_def)
    from collect_all [OF sok gst nms this] obtain bs where "forM nms (collect_mboxes s) [] = Some bs" "targets s nms bs" by auto
    moreover have "(case nms of [nm] \<Rightarrow> map_option (\<lambda>r. case r of None \<Rightarrow> [] | Some lit \<Rightarrow> lit) (target_mboxes nm s)
       | _ \<Rightarrow> forM nms (collect_mboxes s) []) = forM nms (collect_mboxes s) []"
    proof (cases nms)
      case (Cons a as)
      then show ?thesis using False by (cases as) simp_all
    qed simp
    ultimately show ?thesis by auto
  qed
  then obtain bs where bs: "(case nms of [nm] \<Rightarrow> map_option (\<lambda>r. case r of None \<Rightarrow> [] | Some lit \<Rightarrow> lit) (target_mboxes nm s)
       | _ \<Rightarrow> forM nms (collect_mboxes s) []) = Some bs" "targets s nms bs" by blast
  have "\<forall>b \<in> set bs. \<exists>i. Sess_get_session_index b s = Some (Some i) \<and> (mbox_at s i = b \<and> Sess_get_session_index b s = Some (Some i))"
    using bs(2) by (auto simp: targets_def)
  from those_all [OF this] obtain "is" where t: "those (map (\<lambda>m. Sess_get_session_index m s) bs) = Some (map Some is)"
    "list_all2 (\<lambda>i b. mbox_at s i = b \<and> Sess_get_session_index b s = Some (Some i)) is bs" by blast
  have m: "map (mbox_at s) is = bs" using t(2) by (induction rule: list_all2_induct) auto
  have ix: "\<forall>i \<in> set is. Sess_get_session_index (mbox_at s i) s = Some (Some i)" using t(2) by (induction rule: list_all2_induct) auto
  have "distinct is" using bs(2) m by (metis distinct_map targets_def)
  moreover have "i \<in> set is \<longleftrightarrow> (\<exists>nm \<in> set nms. recipient s nm i)" for i
  proof -
    have "i \<in> set is \<longleftrightarrow> mbox_at s i \<in> set bs \<and> Sess_get_session_index (mbox_at s i) s = Some (Some i)"
    proof
      assume "mbox_at s i \<in> set bs \<and> Sess_get_session_index (mbox_at s i) s = Some (Some i)"
      then obtain j where "j \<in> set is" "mbox_at s j = mbox_at s i" using m by auto
      then show "i \<in> set is" using ix \<open>mbox_at s i \<in> set bs \<and> _\<close> by (metis option.inject)
    qed (use m ix in auto)
    then show ?thesis using bs(2) by (simp add: targets_def)
  qed
  ultimately show ?thesis using bs(1) t(1) by (auto simp: G_analize_groups_def)
qed


lemma joined_sample:
  "\<exists>s g. handle_op (Join client_x a_group) (sample_server 0) = Some s \<and> server_ok s \<and> Gstate s = GOP \<and>
     g \<in> set (GroupsList s) \<and> length (group_members g) \<le> max_members"
proof -
  have c: "cost (sample_server 0) = 4" by (simp add: cost_def)
  have n: "cstr a_group = [103]" by code_simp
  obtain s where s: "handle_op (Join client_x a_group) (sample_server 0) = Some s" "kept (cost (sample_server 0)) (sample_server 0) s"
    "view s = spec_op (proc_known (sample_server 0)) (Join client_x a_group) (view (sample_server 0))"
    using Op_core [of "sample_server 0" "Join client_x a_group", OF sample_ok _ sample_op(1)]
      sample_room [of "cost (sample_server 0)" 0] by (auto simp: sample_view max_members_def c room_eq)
  note k = kept_ok(3,4) [OF s(2)]
  have "view s (cstr a_group) \<noteq> {}" using s(3) sample_known by simp
  then obtain g where "G_get_group a_group s = Some g" using view_group [OF k(2)] by auto
  then have g: "g \<in> set (GroupsList s)" "cstr (g_name g) = cstr a_group"
    using get_group_iff [of s] k(2) by (simp_all add: server_ok_def)
  have "card (view s (cstr a_group)) = 1" using s(3) sample_known by (simp add: sample_view)
  then have "length (group_members g) \<le> max_members" using view_card [OF k(2) g(1)] g(2) by (simp add: max_members_def)
  then show ?thesis using s(1) k g(1) by (intro exI [of _ s] exI [of _ g]) (simp add: sample_server_fields)
qed


lemma vs_buf_server:
  assumes "server_ok s" and "g \<in> set (GroupsList s)" and "length (group_members g) \<le> max_members"
    and "case j of None \<Rightarrow> True | Some nm \<Rightarrow> nm \<in> set (group_members g)"
  shows "\<exists>sets off. G_build_memb_vs_buf g caused j s = Some (vs_header g caused sets, vs_bytes g sets off) \<and>
    mset (concat sets) = mset (group_members g) \<and> length (vs_region sets) \<le> 36 * max_members + 36 \<and>
    (\<forall>d \<in> set (g_daemons g). dm_proc d = My_id s \<longrightarrow> located j (dm_members d) sets off) \<and>
    (case j of None \<Rightarrow> True | Some nm \<Rightarrow> last sets = [nm] \<and> sets \<noteq> [])"
proof -
  have g: "group_ok s g" using assms(1,2) by (simp add: server_ok_def)
  have dist: "distinct (map (\<lambda>d. conf_pos (dmn s) (dm_proc d)) (g_daemons g))"
    using g daemons_distinct(1) by (simp add: group_ok_def)
  have "canon m" if "m \<in> set (group_members g)" for m
    using g that members_canon(1) [of "g_daemons g" s m] by (auto simp: group_ok_def group_members_eq)
  then have "case j of None \<Rightarrow> True | Some nm \<Rightarrow> nm \<in> set (group_members g) \<and>
      (\<forall>m \<in> set (group_members g). cstr m = cstr nm \<longrightarrow> m = nm)"
    using assms(4) canon_inj by (auto split: option.splits)
  from vs_buf_core [OF group_fits [OF g assms(3)] group_known [OF g] dist this] show ?thesis by blast
qed

text \<open>
  C29: The message for a changed group lists the members once in all and once by the daemons they came
  with: the sets together are exactly the members, all the members of this daemon but the joiner are
  in the set the offset points at, and the joiner is in a set of its own at the end.
\<close>

theorem Vs_sets_partition:
  assumes "server_ok s" and "g \<in> set (GroupsList s)" and "length (group_members g) \<le> max_members"
    and "case j of None \<Rightarrow> True | Some nm \<Rightarrow> nm \<in> set (group_members g)"
  shows "\<exists>sets off. G_build_memb_vs_buf g caused j s = Some (vs_header g caused sets, vs_bytes g sets off) \<and>
    mset (concat sets) = mset (group_members g) \<and>
    (\<forall>d \<in> set (g_daemons g). dm_proc d = My_id s \<longrightarrow> located j (dm_members d) sets off) \<and>
    (case j of None \<Rightarrow> True | Some nm \<Rightarrow> last sets = [nm] \<and> sets \<noteq> [])"
  using vs_buf_server [OF assms] by blast

theorem Vs_sets_partition_witness:
  "\<exists>s g sets off. handle_op (Join client_x a_group) (sample_server 0) = Some s \<and> g \<in> set (GroupsList s) \<and>
     G_build_memb_vs_buf g CAUSED_BY_NETWORK None s = Some (vs_header g CAUSED_BY_NETWORK sets, vs_bytes g sets off) \<and>
     mset (concat sets) = mset (group_members g)"
proof -
  obtain s g where s: "handle_op (Join client_x a_group) (sample_server 0) = Some s" "server_ok s"
    "g \<in> set (GroupsList s)" "length (group_members g) \<le> max_members" using joined_sample by blast
  from Vs_sets_partition [OF s(2-4), of None CAUSED_BY_NETWORK] show ?thesis using s(1,3) by auto
qed

end
