(* ===== verification/Group_exchange.thy ===== *)
theory Group_exchange
  imports Group_ops
begin

text \<open>
  The exchange of group memberships in \<open>daemon/groups.c\<close>: the synced set, the GROUPS messages its
  leader builds and sends, and how a daemon takes them in.
\<close>

section \<open>The synced set\<close>

text \<open>
  The two sorted sets are merged in the order of the configuration; a member that is not in it, or
  one that is in both, is an exit, and more members than the array holds are written past it.
\<close>

fun merge_synced :: "'a conf_state_scheme \<Rightarrow> int32u list \<Rightarrow> int32u list \<Rightarrow> int32u list option" where
  "merge_synced c [] [] = Some []"
| "merge_synced c (l # ls) [] = (if conf_pos c l = - 1 then None else map_option ((#) l) (merge_synced c ls []))"
| "merge_synced c [] (r # rs) = (if conf_pos c r = - 1 then None else map_option ((#) r) (merge_synced c [] rs))"
| "merge_synced c (l # ls) (r # rs) =
     (if conf_pos c l = - 1 \<or> conf_pos c r = - 1 then None
      else if conf_pos c l < conf_pos c r then map_option ((#) l) (merge_synced c ls (r # rs))
      else if conf_pos c r < conf_pos c l then map_option ((#) r) (merge_synced c (l # ls) rs)
      else None)"

definition G_add_to_synced_set :: "int32u list \<Rightarrow> server \<Rightarrow> server option" where
  "G_add_to_synced_set sset s = do {
     temp \<leftarrow> merge_synced (dmn s) (MySyncedSet s) sset;
     exit_if (length temp > MAX_PROCS_RING);
     Some (s\<lparr>MySyncedSet := temp\<rparr>) }"

definition G_update_synced_set_status :: "'a conf_state_scheme \<Rightarrow> int32u list \<Rightarrow> configuration \<Rightarrow> int32u list \<times> bool" where
  "G_update_synced_set_status c sset memb =
     (let kept = filter (\<lambda>p. Conf_id_in_conf c memb p \<noteq> None) sset in (kept, length kept \<noteq> length sset))"

definition G_update_synced_set :: "'a conf_state_scheme \<Rightarrow> int32u list \<Rightarrow> configuration \<Rightarrow> int32u list" where
  "G_update_synced_set c sset memb = fst (G_update_synced_set_status c sset memb)"

definition Is_synced_set_leader :: "int32u \<Rightarrow> server \<Rightarrow> bool" where
  "Is_synced_set_leader pid s \<longleftrightarrow> MySyncedSet s \<noteq> [] \<and> pid = hd (MySyncedSet s)"

section \<open>Building GROUPS messages\<close>

definition GROUPS_BUF_SIZE :: nat where "GROUPS_BUF_SIZE = 100000"
definition GROUPS_BUF_GROUP_INFO_SIZE :: nat where "GROUPS_BUF_GROUP_INFO_SIZE = 48"
definition GROUPS_BUF_DAEMON_INFO_SIZE :: nat where "GROUPS_BUF_DAEMON_INFO_SIZE = 14"

text \<open>The limit of \<open>daemon/groups.h\<close> that a join is held to; it leaves out the header of a message.\<close>

definition MAX_LOCAL_GROUP_MEMBERS :: nat where
  "MAX_LOCAL_GROUP_MEMBERS = (GROUPS_BUF_SIZE - 9 - GROUPS_BUF_GROUP_INFO_SIZE - GROUPS_BUF_DAEMON_INFO_SIZE) div MAX_GROUP_NAME"
definition data_header_size :: nat where "data_header_size = 48"

text \<open>The unsigned comparison of 32 bits with the room that is left.\<close>

definition no_room :: "nat \<Rightarrow> nat \<Rightarrow> bool" where
  "no_room needed num_bytes \<longleftrightarrow> needed mod 2 ^ 32 > nat ((int GROUPS_BUF_SIZE - int num_bytes) mod 2 ^ 32)"

text \<open>A daemon is sent with the membership id of the group.\<close>

definition enc_daemon :: "membership_id \<Rightarrow> daemon_members \<Rightarrow> byte list" where
  "enc_daemon m d = bytes32 (dm_proc d) @ enc_memb_id m @ bytes16 (word_of_nat (length (dm_members d))) @ concat (dm_members d)"

text \<open>The daemons from an iterator on that fit behind \<open>num_bytes\<close>, and the iterator afterwards.\<close>

fun fill_daemons :: "membership_id \<Rightarrow> nat \<Rightarrow> daemon_members list \<Rightarrow> (daemon_members list \<times> daemon_members list) option" where
  "fill_daemons m num_bytes [] = Some ([], [])"
| "fill_daemons m num_bytes (d # ds) =
     (if no_room (GROUPS_BUF_DAEMON_INFO_SIZE + length (dm_members d) * MAX_GROUP_NAME + data_header_size) num_bytes
      then Some ([], d # ds)
      else if length (dm_members d) \<ge> 2 ^ 16 then None
      else map_option (\<lambda>(xs, rest). (d # xs, rest)) (fill_daemons m (num_bytes + length (enc_daemon m d)) ds))"

definition enc_group :: "group \<Rightarrow> daemon_members list \<Rightarrow> byte list" where
  "enc_group g ds = g_name g @ enc_group_id (g_gid g) @ bytes16 (if g_changed g then 1 else 0) @
     bytes16 (word_of_nat (length ds)) @ concat (map (enc_daemon (gid_memb (g_gid g))) ds)"

text \<open>
  The iterators are the groups and the daemons of the first of them that are still to come.
\<close>

type_synonym group_iter = "group list \<times> daemon_members list"

definition begin_group :: "group list \<Rightarrow> group_iter" where
  "begin_group gs = (gs, case gs of [] \<Rightarrow> [] | g # _ \<Rightarrow> g_daemons g)"

fun fill_groups :: "nat \<Rightarrow> group list \<Rightarrow> daemon_members list \<Rightarrow> (byte list \<times> group_iter) option" where
  "fill_groups num_bytes [] ds = Some ([], ([], ds))"
| "fill_groups num_bytes (g # gs) ds =
     (if no_room (GROUPS_BUF_GROUP_INFO_SIZE + data_header_size) num_bytes then Some ([], (g # gs, ds))
      else do {
        (xs, rest) \<leftarrow> fill_daemons (gid_memb (g_gid g)) (num_bytes + GROUPS_BUF_GROUP_INFO_SIZE) ds;
        let buf = enc_group g xs;
        if rest \<noteq> [] then Some (buf, (g # gs, rest))
        else map_option (\<lambda>(b, it). (buf @ b, it))
          (fill_groups (num_bytes + length buf) gs (snd (begin_group gs))) })"

definition groups_preamble :: "bool \<Rightarrow> server \<Rightarrow> byte list" where
  "groups_preamble first_time s = enc_memb_id (G_Reg_memb_id s) @
     (if first_time then [1] @ bytes32 (word_of_nat (length (MySyncedSet s))) @ concat (map bytes32 (MySyncedSet s)) else [0])"

definition G_build_groups_buf :: "group_iter \<Rightarrow> bool \<Rightarrow> server \<Rightarrow> (byte list \<times> group_iter) option" where
  "G_build_groups_buf it first_time s = (let pre = groups_preamble first_time s;
       (gs, ds) = (if first_time then begin_group (GroupsList s) else it)
     in map_option (\<lambda>(b, it'). (pre @ b, it')) (fill_groups (length pre) gs ds))"

text \<open>The loop ends when the last group is in a buffer; the newest buffer is the first of the list.\<close>

partial_function (option) build_bufs :: "server \<Rightarrow> group_iter \<Rightarrow> bool \<Rightarrow> byte list list \<Rightarrow> byte list list option" where
  "build_bufs s it first_time bufs = Option.bind (G_build_groups_buf it first_time s) (\<lambda>(b, it').
     if fst it' = [] then Some (b # bufs) else build_bufs s it' False (b # bufs))"

definition G_build_new_groups_bufs :: "server \<Rightarrow> server option" where
  "G_build_new_groups_bufs s = map_option (\<lambda>bufs. s\<lparr>Groups_bufs := bufs\<rparr>) (build_bufs s ([], []) True (Groups_bufs s))"

definition G_stamp_groups_bufs :: "server \<Rightarrow> server" where
  "G_stamp_groups_bufs s = s\<lparr>Groups_bufs := map (\<lambda>b. enc_memb_id (G_Reg_memb_id s) @ drop 8 b) (Groups_bufs s)\<rparr>"

definition G_discard_groups_bufs :: "server \<Rightarrow> server" where
  "G_discard_groups_bufs s = s\<lparr>Groups_bufs := []\<rparr>"

section \<open>Sending them\<close>

text \<open>The end of the sender's name holds the size of his synced set.\<close>

definition G_build_groups_msg_hdr :: "nat \<Rightarrow> server \<Rightarrow> message_header option" where
  "G_build_groups_msg_hdr groups_bytes s = do {
     nm \<leftarrow> strcpy MAX_GROUP_NAME (chars (p_name (Sess_My s)));
     Some \<lparr>mh_type = Set_endian GROUPS_MESS,
       mh_private_group_name = take (MAX_GROUP_NAME - 4) nm @ bytes32 (word_of_nat (length (MySyncedSet s))),
       mh_num_groups = 0, mh_hint = Set_endian 0, mh_data_len = int groups_bytes\<rparr> }"

definition groups_message :: "server \<Rightarrow> byte list \<times> bool \<Rightarrow> message option" where
  "groups_message s x = (case x of (buf, is_last) \<Rightarrow> do {
     h \<leftarrow> G_build_groups_msg_hdr (length buf) s;
     memb_message (h\<lparr>mh_type := mh_type h OR (if is_last then AGREED_MESS else RELIABLE_MESS)\<rparr>) buf })"

definition send_groups_buf :: "byte list \<times> bool \<Rightarrow> server \<Rightarrow> server option" where
  "send_groups_buf x s = do {
     m \<leftarrow> groups_message s x;
     h \<leftarrow> Message_get_message_header m;
     link \<leftarrow> Prot_Create_Down_Link m (Message_get_packet_type (mh_type h));
     on_dmn (Prot_new_message link) s }"

text \<open>Only the last buffer is sent as an agreed message.\<close>

definition mark_last :: "'b list \<Rightarrow> ('b \<times> bool) list" where
  "mark_last xs = zip xs (map (\<lambda>i. Suc i = length xs) [0..<length xs])"

definition G_send_groups_messages :: "server \<Rightarrow> server option" where
  "G_send_groups_messages s = forM (mark_last (Groups_bufs s)) send_groups_buf s"

section \<open>Taking them in\<close>

text \<open>Reading past the end of a message reads what an earlier one left in the buffer.\<close>

definition split_at :: "nat \<Rightarrow> byte list \<Rightarrow> (byte list \<times> byte list) option" where
  "split_at n bs = (if n \<le> length bs then Some (take n bs, drop n bs) else None)"

definition read16 :: "bool \<Rightarrow> byte list \<Rightarrow> (16 word \<times> byte list) option" where
  "read16 same bs = map_option (\<lambda>(x, rest). (if same then word16 x else Flip_int16 (word16 x), rest)) (split_at 2 bs)"

definition read32 :: "bool \<Rightarrow> byte list \<Rightarrow> (int32u \<times> byte list) option" where
  "read32 same bs = map_option (\<lambda>(x, rest). (if same then word32 x else Flip_int32 (word32 x), rest)) (split_at 4 bs)"

definition read_memb_id :: "bool \<Rightarrow> byte list \<Rightarrow> (membership_id \<times> byte list) option" where
  "read_memb_id same bs = do {
     (p, bs1) \<leftarrow> read32 same bs;
     (t, bs2) \<leftarrow> read32 same bs1;
     Some (\<lparr>mid_proc_id = p, mid_time = sint t\<rparr>, bs2) }"

definition read_group_id :: "bool \<Rightarrow> byte list \<Rightarrow> (group_id \<times> byte list) option" where
  "read_group_id same bs = do {
     (m, bs1) \<leftarrow> read_memb_id same bs;
     (i, bs2) \<leftarrow> read32 same bs1;
     Some (\<lparr>gid_memb = m, gid_index = sint i\<rparr>, bs2) }"

primrec read_procs :: "bool \<Rightarrow> nat \<Rightarrow> byte list \<Rightarrow> (int32u list \<times> byte list) option" where
  "read_procs same 0 bs = Some ([], bs)"
| "read_procs same (Suc n) bs = do {
     (p, bs1) \<leftarrow> read32 same bs;
     (ps, bs2) \<leftarrow> read_procs same n bs1;
     Some (p # ps, bs2) }"

text \<open>The synced set is in the first message only; a longer one than the array is written past it.\<close>

definition read_synced_set :: "bool \<Rightarrow> byte list \<Rightarrow> int32u list option \<Rightarrow> (int32u list option \<times> byte list) option" where
  "read_synced_set same bs sset = do {
     (flag, bs1) \<leftarrow> split_at 1 bs;
     if flag = [1]
     then do {
       (n, bs2) \<leftarrow> read32 same bs1;
       exit_if (unat n > MAX_PROCS_RING);
       (ps, bs3) \<leftarrow> read_procs same (unat n) bs2;
       Some (Some ps, bs3) }
     else Some (sset, bs1) }"

primrec read_members :: "nat \<Rightarrow> byte list \<Rightarrow> (byte list list \<times> byte list) option" where
  "read_members 0 bs = Some ([], bs)"
| "read_members (Suc n) bs = do {
     (m, bs1) \<leftarrow> split_at MAX_GROUP_NAME bs;
     (ms, bs2) \<leftarrow> read_members n bs1;
     Some (m # ms, bs2) }"

text \<open>
  A member is put with the end as hint: behind a last one that is not greater it goes without a
  search, so one equal to it is kept twice.
\<close>

definition put_at_end :: "byte list \<Rightarrow> byte list list \<Rightarrow> byte list list" where
  "put_at_end m ms = (if ms = [] \<or> by_name m (last ms) \<le> 0 then ms @ [m] else skl_put (by_name m) m ms)"

definition put_members :: "byte list list \<Rightarrow> byte list list" where
  "put_members ms = fold put_at_end ms []"

definition read_daemon :: "'a conf_state_scheme \<Rightarrow> bool \<Rightarrow> byte list \<times> group \<Rightarrow> (byte list \<times> group) option" where
  "read_daemon c same st = (case st of (bs, g) \<Rightarrow> do {
     (pid, bs1) \<leftarrow> read32 same bs;
     (mid, bs2) \<leftarrow> read_memb_id same bs1;
     (n, bs3) \<leftarrow> read16 same bs2;
     (ms, bs4) \<leftarrow> read_members (unat n) bs3;
     g1 \<leftarrow> put_daemon c \<lparr>dm_proc = pid, dm_memb = mid, dm_members = put_members ms\<rparr> g;
     let g2 = (if \<not> g_changed g1 \<and> \<not> Memb_is_equal mid (gid_memb (g_gid g1)) then g1\<lparr>g_changed := True\<rparr> else g1);
     Some (bs4, g2\<lparr>g_num_members := g_num_members g2 + int (unat n)\<rparr>) })"

definition found_or_made :: "byte list \<Rightarrow> group_id \<Rightarrow> server \<Rightarrow> (group \<times> server) option" where
  "found_or_made nm gid s = (case G_get_group nm s of Some g \<Rightarrow> Some (g, s)
     | None \<Rightarrow> do {
         name \<leftarrow> strcpy MAX_GROUP_NAME nm;
         let g = \<lparr>g_name = name, g_gid = gid, g_changed = False, g_num_members = 0, g_daemons = [], g_mboxes = []\<rparr>;
         Some (g, count_groups 1 (put_group g s)) })"

definition read_group :: "bool \<Rightarrow> byte list \<Rightarrow> server \<Rightarrow> (byte list \<times> server) option" where
  "read_group same bs s = do {
     (nm, bs1) \<leftarrow> split_at MAX_GROUP_NAME bs;
     (gid, bs2) \<leftarrow> read_group_id same bs1;
     (g, s1) \<leftarrow> found_or_made (nm @ bs1) gid s;
     (changed, bs3) \<leftarrow> read16 True bs2;
     let g1 = (if changed \<noteq> 0 then g\<lparr>g_changed := True\<rparr> else g);
     (n, bs4) \<leftarrow> read16 same bs3;
     (bs5, g2) \<leftarrow> forM [0..<unat n] (\<lambda>_. read_daemon (dmn s1) same) (bs4, g1);
     Some (bs5, put_group g2 s1) }"

partial_function (option) read_groups :: "bool \<Rightarrow> byte list \<Rightarrow> server \<Rightarrow> server option" where
  "read_groups same bs s = (if bs = [] then Some s
     else Option.bind (read_group same bs s) (\<lambda>(bs', s'). read_groups same bs' s'))"

text \<open>The elements of the message are copied into a buffer of 100000 bytes.\<close>

definition G_mess_to_groups :: "message \<Rightarrow> int32u list option \<times> server \<Rightarrow> (int32u list option \<times> server) option" where
  "G_mess_to_groups m st = (case st of (sset, s) \<Rightarrow> do {
     exit_if (length (contents m) > GROUPS_BUF_SIZE);
     h \<leftarrow> Message_get_message_header m;
     let same = Same_endian (mh_type h);
     (_, bs) \<leftarrow> split_at (data_header_size + 8) (contents m);
     (sset', bs1) \<leftarrow> read_synced_set same bs sset;
     s' \<leftarrow> read_groups same bs1 s;
     Some (sset', s') })"

end
