(* ===== verification/Group_memb.thy ===== *)
theory Group_memb
  imports Group_exchange
begin

text \<open>
  How \<open>daemon/groups.c\<close> handles the memberships of the daemons: a transitional membership marks the
  daemons that are gone, a regular one drops them and either ends the change or starts the exchange
  of GROUPS messages, and the last of these brings the groups of all daemons together.
\<close>

section \<open>Walking over the groups\<close>

text \<open>A walk steps on before the current group can be erased.\<close>

definition walk_groups :: "(group \<Rightarrow> server \<Rightarrow> server option) \<Rightarrow> server \<Rightarrow> server option" where
  "walk_groups f s = forM (map g_name (GroupsList s))
     (\<lambda>nm s. case G_get_group nm s of None \<Rightarrow> None | Some g \<Rightarrow> f g s) s"

definition to_eliminate :: "server \<Rightarrow> daemon_members \<Rightarrow> bool" where
  "to_eliminate s d \<longleftrightarrow> (if Gstate s = GGT then Conf_id_in_conf (dmn s) (G_Trans_memb s) (dm_proc d) = None
     else Is_partitioned_daemon d)"

definition G_eliminate_partitioned_daemons_status :: "group \<Rightarrow> server \<Rightarrow> (group \<times> bool) option" where
  "G_eliminate_partitioned_daemons_status g s = (let gone = filter (to_eliminate s) (g_daemons g) in
     map_option (\<lambda>g'. (g', gone \<noteq> [])) (forM gone (G_remove_daemon (dmn s)) g))"

definition G_eliminate_partitioned_daemons :: "group \<Rightarrow> server \<Rightarrow> group option" where
  "G_eliminate_partitioned_daemons g s = map_option fst (G_eliminate_partitioned_daemons_status g s)"

definition G_check_if_changed_by_cascade :: "group \<Rightarrow> server \<Rightarrow> bool" where
  "G_check_if_changed_by_cascade g s \<longleftrightarrow>
     list_ex (\<lambda>d. Conf_id_in_conf (dmn s) (G_Trans_memb s) (dm_proc d) = None) (g_daemons g)"

section \<open>A transitional membership\<close>

definition mark_partitioned :: "server \<Rightarrow> daemon_members \<Rightarrow> daemon_members" where
  "mark_partitioned s d = (if Conf_id_in_conf (dmn s) (G_Trans_memb s) (dm_proc d) = None
     then d\<lparr>dm_memb := unknown_memb_id\<rparr> else d)"

definition trans_group :: "group \<Rightarrow> server \<Rightarrow> server option" where
  "trans_group g s =
     (if G_check_if_changed_by_cascade g s
      then do {
        let g1 = g\<lparr>g_daemons := map (mark_partitioned s) (g_daemons g)\<rparr>;
        s1 \<leftarrow> (if g_mboxes g1 = [] then Some s else G_send_trans_memb g1 s);
        let g2 = g1\<lparr>g_gid := \<lparr>gid_memb = G_Trans_memb_id s1, gid_index = 1\<rparr>, g_changed := True\<rparr>;
        Some (put_group (G_update_daemon_memb_ids g2) s1) }
      else Some s)"

definition cascade_mark :: "group \<Rightarrow> server \<Rightarrow> server option" where
  "cascade_mark g s = Some (if G_check_if_changed_by_cascade g s then put_group (g\<lparr>g_changed := True\<rparr>) s else s)"

definition G_handle_trans_memb :: "configuration \<Rightarrow> membership_id \<Rightarrow> server \<Rightarrow> server option" where
  "G_handle_trans_memb memb mid s = (let s0 = s\<lparr>G_Trans_memb := memb, G_Trans_memb_id := mid\<rparr> in
     case Gstate s of
       GOP \<Rightarrow> do {
         s1 \<leftarrow> walk_groups trans_group s0;
         let s2 = shift_gstate GTRANS s1;
         Some (s2\<lparr>MySyncedSet := G_update_synced_set (dmn s2) (MySyncedSet s2) (G_Trans_memb s2)\<rparr>) }
     | GTRANS \<Rightarrow> None
     | GGATHER \<Rightarrow> map_option (shift_gstate GGT) (walk_groups cascade_mark s0)
     | GGT \<Rightarrow> None)"

section \<open>Taking in what was gathered\<close>

text \<open>The synced set of the messages lives in a local variable, without a value at first.\<close>

definition take_in :: "groups_link \<Rightarrow> int32u list option \<times> server \<Rightarrow> (int32u list option \<times> server) option" where
  "take_in l st = do {
     (sset, s1) \<leftarrow> forM (gl_messages l) G_mess_to_groups st;
     procs \<leftarrow> sset;
     s2 \<leftarrow> G_add_to_synced_set procs s1;
     Some (sset, s2) }"

definition reset_gathered :: "server \<Rightarrow> server" where
  "reset_gathered s = s\<lparr>Gathered_complete := False, Num_mess_gathered := 0, Num_daemons_gathered := 0\<rparr>"

section \<open>A regular membership\<close>

definition with_reg_id :: "server \<Rightarrow> group \<Rightarrow> group" where
  "with_reg_id s g = g\<lparr>g_gid := \<lparr>gid_memb = G_Reg_memb_id s, gid_index = 1\<rparr>, g_changed := False\<rparr>"

definition reg_group :: "group \<Rightarrow> server \<Rightarrow> server option" where
  "reg_group g s =
     (if \<not> g_changed g then Some s else do {
        g1 \<leftarrow> G_eliminate_partitioned_daemons g s;
        if g_num_members g1 = 0 then G_remove_group g1 s
        else do {
          let g2 = G_update_daemon_memb_ids (with_reg_id s g1);
          let s1 = put_group g2 s;
          if g_mboxes g2 = [] then Some s1 else G_send_heavyweight_memb g2 s1 } })"

definition drop_partitioned :: "group \<Rightarrow> server \<Rightarrow> server option" where
  "drop_partitioned g s =
     (if \<not> g_changed g then Some s else do {
        g1 \<leftarrow> G_eliminate_partitioned_daemons g s;
        if g_num_members g1 = 0 then G_remove_group g1 s else Some (put_group g1 s) })"

definition drop_cascaded :: "group \<Rightarrow> server \<Rightarrow> server option" where
  "drop_cascaded g s = do {
     (g1, changed) \<leftarrow> G_eliminate_partitioned_daemons_status g s;
     if \<not> changed then Some s
     else (let s1 = s\<lparr>Groups_bufs_fresh := False\<rparr> in
       if g_num_members g1 = 0 then G_remove_group g1 s1 else Some (put_group (g1\<lparr>g_changed := True\<rparr>) s1)) }"

definition take_in_complete :: "groups_link \<Rightarrow> int32u list option \<times> server \<Rightarrow> (int32u list option \<times> server) option" where
  "take_in_complete l st =
     (if Gathered_complete (snd st) \<and> gl_complete l
      then map_option (\<lambda>(sset, s). (sset, s\<lparr>Groups_bufs_fresh := False\<rparr>)) (take_in l st)
      else Some st)"

definition build_and_send :: "server \<Rightarrow> server option" where
  "build_and_send s = do {
     s1 \<leftarrow> G_build_new_groups_bufs s;
     G_send_groups_messages (s1\<lparr>Groups_bufs_fresh := True\<rparr>) }"

definition reg_in_trans :: "server \<Rightarrow> server option" where
  "reg_in_trans s =
     (if Conf_num_procs (G_Trans_memb s) = Conf_num_procs (G_Reg_memb s)
      then map_option (shift_gstate GOP) (walk_groups reg_group s)
      else do {
        s1 \<leftarrow> walk_groups drop_partitioned s;
        let s2 = Sess_set_active_threshold (s1\<lparr>Session_threshold := MEDIUM_PRIORITY\<rparr>);
        let s3 = upd_dmn (Prot_set_down_queue GROUPS_DOWNQUEUE) s2;
        s4 \<leftarrow> (if Is_synced_set_leader (My_id s3) s3 then build_and_send s3 else Some s3);
        Some (shift_gstate GGATHER s4) })"

definition reg_in_ggt :: "server \<Rightarrow> server option" where
  "reg_in_ggt s = do {
     (_, s1) \<leftarrow> forM (Gathered s) take_in_complete (None, s);
     s2 \<leftarrow> walk_groups drop_cascaded (s1\<lparr>Gathered := []\<rparr>);
     let (sset, changed) = G_update_synced_set_status (dmn s2) (MySyncedSet s2) (G_Trans_memb s2);
     let s3 = s2\<lparr>MySyncedSet := sset\<rparr>;
     let s4 = reset_gathered (if changed then s3\<lparr>Groups_bufs_fresh := False\<rparr> else s3);
     s5 \<leftarrow> (if \<not> Is_synced_set_leader (My_id s4) s4 then Some s4
           else if Groups_bufs_fresh s4 then G_send_groups_messages (G_stamp_groups_bufs s4)
           else build_and_send (G_discard_groups_bufs s4));
     Some (shift_gstate GGATHER s5) }"

definition G_handle_reg_memb :: "configuration \<Rightarrow> membership_id \<Rightarrow> server \<Rightarrow> server option" where
  "G_handle_reg_memb memb mid s = (let s0 = s\<lparr>G_Reg_memb := memb, G_Reg_memb_id := mid\<rparr> in
     case Gstate s of
       GOP \<Rightarrow> None
     | GTRANS \<Rightarrow> reg_in_trans s0
     | GGATHER \<Rightarrow> None
     | GGT \<Rightarrow> reg_in_ggt s0)"

section \<open>A GROUPS message\<close>

definition notify_group :: "group \<Rightarrow> server \<Rightarrow> server option" where
  "notify_group g s =
     (if \<not> g_changed g then Some s else do {
        let g1 = with_reg_id s g;
        s1 \<leftarrow> (if g_mboxes g1 = [] then Some s else G_send_heavyweight_memb g1 s);
        Some (put_group (G_update_daemon_memb_ids g1) s1) })"

definition G_compute_and_notify :: "server \<Rightarrow> server option" where
  "G_compute_and_notify s = do {
     (_, s1) \<leftarrow> forM (Gathered s) take_in (None, s);
     s2 \<leftarrow> walk_groups notify_group (s1\<lparr>Gathered := []\<rparr>);
     Some ((G_discard_groups_bufs (reset_gathered s2))\<lparr>Groups_bufs_fresh := False\<rparr>) }"

text \<open>A message of the own leader is counted and dropped, another one is kept with those of its set.\<close>

definition gather_mess :: "int32u \<Rightarrow> bool \<Rightarrow> message \<Rightarrow> server \<Rightarrow> server" where
  "gather_mess rep complete m s =
     (if Is_synced_set_leader rep s
      then (if complete then s\<lparr>Gathered_complete := True\<rparr> else s)
      else if list_ex (\<lambda>l. gl_rep l = rep) (Gathered s)
      then s\<lparr>Gathered := map (\<lambda>l. if gl_rep l = rep
             then l\<lparr>gl_messages := m # gl_messages l, gl_complete := (gl_complete l \<or> complete)\<rparr> else l) (Gathered s)\<rparr>
      else s\<lparr>Gathered := \<lparr>gl_rep = rep, gl_complete = complete, gl_messages = [m]\<rparr> # Gathered s\<rparr>)"

definition count_message :: "message_header \<Rightarrow> server \<Rightarrow> server" where
  "count_message h s = (let w = word32 (drop (MAX_GROUP_NAME - 4) (mh_private_group_name h)) in
     s\<lparr>Num_mess_gathered := Num_mess_gathered s + 1,
       Num_daemons_gathered := Num_daemons_gathered s +
         (if has (mh_type h) AGREED_MESS then if Same_endian (mh_type h) then w else Flip_int32 w else 0)\<rparr>)"

definition finish_exchange :: "server \<Rightarrow> server option" where
  "finish_exchange s = do {
     let s1 = upd_dmn (Prot_set_down_queue NORMAL_DOWNQUEUE) s;
     let s2 = Sess_set_active_threshold (s1\<lparr>Session_threshold := LOW_PRIORITY\<rparr>);
     s3 \<leftarrow> G_compute_and_notify s2;
     if Gstate s3 = GGATHER then Some (shift_gstate GOP s3)
     else G_handle_trans_memb (G_Trans_memb s3) (G_Trans_memb_id s3) (s3\<lparr>Gstate := GOP\<rparr>) }"

definition G_handle_groups :: "message \<Rightarrow> server \<Rightarrow> server option" where
  "G_handle_groups m s = (if Gstate s = GOP \<or> Gstate s = GTRANS then None else do {
     h \<leftarrow> Message_get_message_header m;
     data \<leftarrow> Message_get_first_data_ptr m;
     (mid, _) \<leftarrow> read_memb_id (Same_endian (mh_type h)) data;
     if \<not> Memb_is_equal mid (G_Reg_memb_id s) then Some s
     else (case proc_named (mh_private_group_name h) s of None \<Rightarrow> Some s
       | Some p \<Rightarrow> do {
           let s1 = gather_mess (p_id p) (has (mh_type h) AGREED_MESS) m s;
           let s2 = count_message h s1;
           if Num_daemons_gathered s2 \<noteq> word_of_nat (Conf_num_procs (G_Reg_memb s2)) then Some s2
           else finish_exchange s2 }) })"

section \<open>Start\<close>

definition G_init :: "server \<Rightarrow> server" where
  "G_init s = (let s1 = (upd_dmn (upd_status (\<lambda>st. st\<lparr>st_num_groups := 0\<rparr>)) s)\<lparr>Num_groups := 0, MySyncedSet := [My_id s],
       GroupsList := []\<rparr>
     in (shift_gstate GOP s1)\<lparr>Groups_bufs := [], Groups_bufs_fresh := False, Gathered_complete := False,
       Num_mess_gathered := 0, Num_daemons_gathered := 0, Gathered := []\<rparr>)"

end
