(* ===== verification/Group_bufs.thy ===== *)
theory Group_bufs
  imports Group_memb Group_targets
begin

text \<open>
  The buffers a synced set's leader fills: the loop ends, every buffer fits a message, and each
  daemon of each group is in one of them once, in order.
\<close>

section \<open>Entries\<close>

text \<open>A buffer holds groups with some of their daemons; an iterator stands for those still to come.\<close>

type_synonym buf_entry = "group \<times> daemon_members list"

definition entries_bytes :: "buf_entry list \<Rightarrow> byte list" where
  "entries_bytes es = concat (map (\<lambda>(g, xs). enc_group g xs) es)"

definition flat :: "buf_entry list \<Rightarrow> (group \<times> daemon_members) list" where
  "flat es = concat (map (\<lambda>(g, xs). map (Pair g) xs) es)"

definition to_come :: "group list \<Rightarrow> daemon_members list \<Rightarrow> (group \<times> daemon_members) list" where
  "to_come gs ds = (case gs of [] \<Rightarrow> [] | g # hs \<Rightarrow> map (Pair g) ds @ flat (map (\<lambda>h. (h, g_daemons h)) hs))"

lemma flat_simps [simp]: "flat [] = []" "flat ((g, xs) # es) = map (Pair g) xs @ flat es" "flat (es @ fs) = flat es @ flat fs"
  by (simp_all add: flat_def)

lemma to_come_simps [simp]: "to_come [] ds = []"
  "to_come (g # gs) ds = map (Pair g) ds @ to_come gs (snd (begin_group gs))"
  by (simp_all add: to_come_def begin_group_def split: list.split)

definition max_local :: nat where "max_local = 3121"

text \<open>Names fill their arrays, and the members of one daemon fit a buffer of their own.\<close>

definition sendable_daemon :: "daemon_members \<Rightarrow> bool" where
  "sendable_daemon d \<longleftrightarrow> length (dm_members d) \<le> max_local \<and> (\<forall>m \<in> set (dm_members d). length m = 32)"

definition sendable_group :: "group \<Rightarrow> bool" where
  "sendable_group g \<longleftrightarrow> length (g_name g) = 32 \<and> g_daemons g \<noteq> [] \<and> (\<forall>d \<in> set (g_daemons g). sendable_daemon d)"

lemma length_members: "(\<forall>m \<in> set ms. length m = 32) \<Longrightarrow> length (concat ms) = 32 * length ms"
  by (induction ms) auto

lemma length_memb_id [simp]: "length (enc_memb_id m) = 8"
  by (simp add: enc_memb_id_def)

lemma length_group_id [simp]: "length (enc_group_id g) = 12"
  by (simp add: enc_group_id_def)

lemma length_enc_daemon: "sendable_daemon d \<Longrightarrow> length (enc_daemon m d) = 14 + 32 * length (dm_members d)"
  by (simp add: enc_daemon_def length_members sendable_daemon_def)

lemma length_enc_group:
  "length (g_name g) = 32 \<Longrightarrow> length (enc_group g xs) = 48 + length (concat (map (enc_daemon (gid_memb (g_gid g))) xs))"
  by (simp add: enc_group_def)

lemma no_room_iff: "needed < 2 ^ 32 \<Longrightarrow> n \<le> GROUPS_BUF_SIZE \<Longrightarrow> no_room needed n \<longleftrightarrow> needed + n > GROUPS_BUF_SIZE"
proof -
  assume a: "needed < 2 ^ 32" "n \<le> GROUPS_BUF_SIZE"
  then have "(int GROUPS_BUF_SIZE - int n) mod 2 ^ 32 = int (GROUPS_BUF_SIZE - n)"
    by (simp add: GROUPS_BUF_SIZE_def of_nat_diff)
  then show ?thesis using a by (auto simp: no_room_def)
qed

section \<open>Filling one buffer\<close>

definition body_limit :: nat where "body_limit = GROUPS_BUF_SIZE - data_header_size"

lemmas buf_sizes = GROUPS_BUF_SIZE_def GROUPS_BUF_GROUP_INFO_SIZE_def GROUPS_BUF_DAEMON_INFO_SIZE_def data_header_size_def
  MAX_GROUP_NAME_eq body_limit_def max_local_def

lemma room_for_daemon:
  assumes "sendable_daemon d" and "n \<le> body_limit"
  shows "no_room (GROUPS_BUF_DAEMON_INFO_SIZE + length (dm_members d) * MAX_GROUP_NAME + data_header_size) n \<longleftrightarrow>
    n + length (enc_daemon m d) > body_limit"
proof -
  have "length (dm_members d) \<le> max_local" using assms(1) by (simp add: sendable_daemon_def)
  then have "GROUPS_BUF_DAEMON_INFO_SIZE + length (dm_members d) * MAX_GROUP_NAME + data_header_size < 2 ^ 32"
    by (simp add: buf_sizes)
  then show ?thesis using no_room_iff [of _ n] assms(2) length_enc_daemon [OF assms(1)] by (auto simp: buf_sizes)
qed

lemma fill_daemons_spec:
  assumes "\<forall>d \<in> set ds. sendable_daemon d" and "n \<le> body_limit"
  shows "\<exists>xs rest. fill_daemons m n ds = Some (xs, rest) \<and> ds = xs @ rest \<and>
    n + length (concat (map (enc_daemon m) xs)) \<le> body_limit \<and>
    (ds \<noteq> [] \<and> n + length (enc_daemon m (hd ds)) \<le> body_limit \<longrightarrow> xs \<noteq> [])"
  using assms
proof (induction ds arbitrary: n)
  case (Cons d ds)
  have d: "sendable_daemon d" using Cons.prems(1) by simp
  show ?case
  proof (cases "n + length (enc_daemon m d) > body_limit")
    case True
    then show ?thesis using room_for_daemon [OF d Cons.prems(2), of m] Cons.prems(2) by simp
  next
    case False
    have "length (dm_members d) < 2 ^ 16" using d by (simp add: sendable_daemon_def max_local_def)
    moreover obtain xs rest where "fill_daemons m (n + length (enc_daemon m d)) ds = Some (xs, rest)" "ds = xs @ rest"
      "n + length (enc_daemon m d) + length (concat (map (enc_daemon m) xs)) \<le> body_limit"
      using Cons.IH [of "n + length (enc_daemon m d)"] Cons.prems(1) False by auto
    ultimately show ?thesis using False room_for_daemon [OF d Cons.prems(2), of m]
      by (intro exI [of _ "d # xs"] exI [of _ rest]) (simp add: add.assoc)
  qed
qed simp

lemma fill_groups_spec:
  assumes "\<forall>g \<in> set gs. sendable_group g" and "\<forall>d \<in> set ds. sendable_daemon d" and "n \<le> body_limit"
  shows "\<exists>es gs' ds'. fill_groups n gs ds = Some (entries_bytes es, (gs', ds')) \<and> n + length (entries_bytes es) \<le> body_limit \<and>
    to_come gs ds = flat es @ to_come gs' ds' \<and> (\<forall>(g, xs) \<in> set es. g \<in> set gs) \<and> set gs' \<subseteq> set gs \<and>
    (\<forall>d \<in> set ds'. sendable_daemon d) \<and> (gs' \<noteq> [] \<and> ds \<noteq> [] \<longrightarrow> ds' \<noteq> []) \<and>
    (gs \<noteq> [] \<and> ds \<noteq> [] \<and> n + 48 + length (enc_daemon (gid_memb (g_gid (hd gs))) (hd ds)) \<le> body_limit \<longrightarrow> flat es \<noteq> [])"
  using assms
proof (induction gs arbitrary: n ds)
  case Nil
  then show ?case by (intro exI [of _ "[]"] exI [of _ "[]"] exI [of _ ds]) (simp add: entries_bytes_def split: list.split)
next
  case (Cons g gs)
  have lim: "no_room (GROUPS_BUF_GROUP_INFO_SIZE + data_header_size) n \<longleftrightarrow> n + 48 > body_limit"
    using no_room_iff [of "GROUPS_BUF_GROUP_INFO_SIZE + data_header_size" n] Cons.prems(3) by (auto simp: buf_sizes)
  show ?case
  proof (cases "n + 48 > body_limit")
    case True
    then show ?thesis using lim Cons.prems
      by (intro exI [of _ "[]"] exI [of _ "g # gs"] exI [of _ ds]) (auto simp: entries_bytes_def split: list.split)
  next
    case False
    let ?m = "gid_memb (g_gid g)"
    have name: "length (g_name g) = 32" using Cons.prems(1) by (simp add: sendable_group_def)
    obtain xs rest where xs: "fill_daemons ?m (n + GROUPS_BUF_GROUP_INFO_SIZE) ds = Some (xs, rest)" "ds = xs @ rest"
      "n + 48 + length (concat (map (enc_daemon ?m) xs)) \<le> body_limit"
      "ds \<noteq> [] \<and> n + 48 + length (enc_daemon ?m (hd ds)) \<le> body_limit \<longrightarrow> xs \<noteq> []"
      using fill_daemons_spec [OF Cons.prems(2), of "n + 48" ?m] False unfolding GROUPS_BUF_GROUP_INFO_SIZE_def by auto
    have len: "length (enc_group g xs) = 48 + length (concat (map (enc_daemon ?m) xs))" by (rule length_enc_group [OF name])
    show ?thesis
    proof (cases "rest = []")
      case False
      then show ?thesis using lim \<open>\<not> n + 48 > body_limit\<close> xs len Cons.prems
        by (intro exI [of _ "[(g, xs)]"] exI [of _ "g # gs"] exI [of _ rest])
          (auto simp: entries_bytes_def split: list.splits)
    next
      case True
      have ds2: "\<forall>d \<in> set (snd (begin_group gs)). sendable_daemon d" "gs \<noteq> [] \<longrightarrow> snd (begin_group gs) \<noteq> []"
        using Cons.prems(1) by (auto simp: begin_group_def sendable_group_def split: list.splits)
      obtain es gs' ds' where es: "fill_groups (n + length (enc_group g xs)) gs (snd (begin_group gs)) = Some (entries_bytes es, (gs', ds'))"
        "n + length (enc_group g xs) + length (entries_bytes es) \<le> body_limit"
        "to_come gs (snd (begin_group gs)) = flat es @ to_come gs' ds'" "\<forall>(g, xs) \<in> set es. g \<in> set gs" "set gs' \<subseteq> set gs"
        "\<forall>d \<in> set ds'. sendable_daemon d" "gs' \<noteq> [] \<and> snd (begin_group gs) \<noteq> [] \<longrightarrow> ds' \<noteq> []"
        using Cons.IH [of "snd (begin_group gs)" "n + length (enc_group g xs)"] Cons.prems(1) ds2 xs(3) len by auto
      have "gs' \<noteq> [] \<longrightarrow> ds' \<noteq> []" using es(5,7) ds2(2) by auto
      then show ?thesis using lim \<open>\<not> n + 48 > body_limit\<close> xs es True Cons.prems
        by (intro exI [of _ "(g, xs) # es"] exI [of _ gs'] exI [of _ ds'])
          (auto simp: entries_bytes_def add.assoc split: list.splits)
    qed
  qed
qed

section \<open>All the buffers\<close>

lemma to_come_all: "to_come gs (snd (begin_group gs)) = flat (map (\<lambda>g. (g, g_daemons g)) gs)"
  by (simp add: to_come_def begin_group_def split: list.split)

definition later_buf :: "server \<Rightarrow> buf_entry list \<Rightarrow> byte list" where
  "later_buf s es = groups_preamble False s @ entries_bytes es"

definition first_buf :: "server \<Rightarrow> buf_entry list \<Rightarrow> byte list" where
  "first_buf s es = groups_preamble True s @ entries_bytes es"

definition good_entries :: "server \<Rightarrow> buf_entry list \<Rightarrow> bool" where
  "good_entries s es \<longleftrightarrow> (\<forall>(g, xs) \<in> set es. g \<in> set (GroupsList s))"

lemma length_preamble: "length (groups_preamble False s) = 9" "length (groups_preamble True s) = 13 + 4 * length (MySyncedSet s)"
proof -
  have "length (concat (map bytes32 ps)) = 4 * length ps" for ps by (induction ps) auto
  then show "length (groups_preamble False s) = 9" "length (groups_preamble True s) = 13 + 4 * length (MySyncedSet s)"
    by (simp_all add: groups_preamble_def)
qed

lemma later_bufs:
  assumes "gs \<noteq> []" and "ds \<noteq> []" and "set gs \<subseteq> set (GroupsList s)" and "\<forall>g \<in> set gs. sendable_group g" and "\<forall>d \<in> set ds. sendable_daemon d"
  shows "\<exists>ess. build_bufs s (gs, ds) False bufs = Some (rev (map (later_buf s) ess) @ bufs) \<and>
    flat (concat ess) = to_come gs ds \<and> (\<forall>es \<in> set ess. good_entries s es \<and> length (later_buf s es) \<le> body_limit)"
  using assms
proof (induction "length (to_come gs ds)" arbitrary: gs ds bufs rule: less_induct)
  case less
  have hd: "sendable_daemon (hd ds)" using less.prems(2,5) by simp
  have "length (groups_preamble False s) \<le> body_limit" by (simp add: length_preamble buf_sizes)
  from fill_groups_spec [OF less.prems(4,5) this] obtain es gs' ds' where
    f: "fill_groups (length (groups_preamble False s)) gs ds = Some (entries_bytes es, (gs', ds'))"
      "length (groups_preamble False s) + length (entries_bytes es) \<le> body_limit" "to_come gs ds = flat es @ to_come gs' ds'"
      "\<forall>(g, xs) \<in> set es. g \<in> set gs" "set gs' \<subseteq> set gs" "\<forall>d \<in> set ds'. sendable_daemon d" "gs' \<noteq> [] \<and> ds \<noteq> [] \<longrightarrow> ds' \<noteq> []"
      "gs \<noteq> [] \<and> ds \<noteq> [] \<and> length (groups_preamble False s) + 48 + length (enc_daemon (gid_memb (g_gid (hd gs))) (hd ds)) \<le> body_limit
        \<longrightarrow> flat es \<noteq> []" by blast
  have "length (dm_members (hd ds)) \<le> max_local" using hd by (simp add: sendable_daemon_def)
  then have "length (groups_preamble False s) + 48 + length (enc_daemon (gid_memb (g_gid (hd gs))) (hd ds)) \<le> body_limit"
    using length_enc_daemon [OF hd] by (simp add: length_preamble buf_sizes)
  then have shorter: "length (to_come gs' ds') < length (to_come gs ds)" using f(3,8) less.prems(1,2) by simp
  have b: "G_build_groups_buf (gs, ds) False s = Some (later_buf s es, (gs', ds'))"
    using f(1) by (simp add: G_build_groups_buf_def later_buf_def Let_def)
  have good: "good_entries s es" "length (later_buf s es) \<le> body_limit"
    using f(2,4) less.prems(3) by (auto simp: good_entries_def later_buf_def)
  show ?case
  proof (cases "gs' = []")
    case True
    then show ?thesis using b good f(3)
      by (intro exI [of _ "[es]"]) (simp add: build_bufs.simps)
  next
    case False
    have "set gs' \<subseteq> set (GroupsList s)" "\<forall>g \<in> set gs'. sendable_group g" "ds' \<noteq> []"
      using f(5,7) False less.prems(2,3,4) by auto
    from less.hyps [OF shorter False this(3,1,2) f(6), of "later_buf s es # bufs"] obtain ess where
      "build_bufs s (gs', ds') False (later_buf s es # bufs) = Some (rev (map (later_buf s) ess) @ later_buf s es # bufs)"
      "flat (concat ess) = to_come gs' ds'" "\<forall>es \<in> set ess. good_entries s es \<and> length (later_buf s es) \<le> body_limit" by blast
    then show ?thesis using b good f(3) False
      by (intro exI [of _ "es # ess"]) (subst build_bufs.simps, simp)
  qed
qed

lemma all_bufs:
  assumes "\<forall>g \<in> set (GroupsList s). sendable_group g" and "length (MySyncedSet s) \<le> MAX_PROCS_RING"
  shows "\<exists>es ess. build_bufs s ([], []) True bufs = Some (rev (first_buf s es # map (later_buf s) ess) @ bufs) \<and>
    flat (es @ concat ess) = flat (map (\<lambda>g. (g, g_daemons g)) (GroupsList s)) \<and>
    good_entries s es \<and> length (first_buf s es) \<le> body_limit \<and>
    (\<forall>es \<in> set ess. good_entries s es \<and> length (later_buf s es) \<le> body_limit)"
proof -
  obtain ds where bg: "begin_group (GroupsList s) = (GroupsList s, ds)" by (simp add: begin_group_def)
  have all: "to_come (GroupsList s) ds = flat (map (\<lambda>g. (g, g_daemons g)) (GroupsList s))"
    using to_come_all [of "GroupsList s"] by (simp add: bg)
  have pre: "length (groups_preamble True s) \<le> body_limit" using assms(2) by (simp add: length_preamble buf_sizes MAX_PROCS_RING_def)
  have dsok: "\<forall>d \<in> set ds. sendable_daemon d" "GroupsList s \<noteq> [] \<longrightarrow> ds \<noteq> []"
    using assms(1) bg by (cases "GroupsList s"; auto simp: begin_group_def sendable_group_def)+
  from fill_groups_spec [OF assms(1) dsok(1) pre] obtain es gs' ds' where
    f: "fill_groups (length (groups_preamble True s)) (GroupsList s) ds = Some (entries_bytes es, (gs', ds'))"
      "length (groups_preamble True s) + length (entries_bytes es) \<le> body_limit"
      "to_come (GroupsList s) ds = flat es @ to_come gs' ds'" "\<forall>(g, xs) \<in> set es. g \<in> set (GroupsList s)"
      "set gs' \<subseteq> set (GroupsList s)" "\<forall>d \<in> set ds'. sendable_daemon d" "gs' \<noteq> [] \<and> ds \<noteq> [] \<longrightarrow> ds' \<noteq> []" by blast
  have b: "G_build_groups_buf ([], []) True s = Some (first_buf s es, (gs', ds'))"
    using f(1) by (simp add: G_build_groups_buf_def first_buf_def Let_def bg split: prod.split)
  have good: "good_entries s es" "length (first_buf s es) \<le> body_limit"
    using f(2,4) by (auto simp: good_entries_def first_buf_def)
  show ?thesis
  proof (cases "gs' = []")
    case True
    then show ?thesis using b good f(3)
      by (intro exI [of _ es] exI [of _ "[]"]) (simp add: build_bufs.simps all)
  next
    case False
    then have "GroupsList s \<noteq> []" using f(5) by auto
    then have ds': "ds' \<noteq> []" using f(7) False dsok(2) by simp
    have sg: "\<forall>g \<in> set gs'. sendable_group g" using assms(1) f(5) by auto
    from later_bufs [OF False ds' f(5) sg f(6), of "first_buf s es # bufs"] obtain ess where
      "build_bufs s (gs', ds') False (first_buf s es # bufs) = Some (rev (map (later_buf s) ess) @ first_buf s es # bufs)"
      "flat (concat ess) = to_come gs' ds'" "\<forall>es \<in> set ess. good_entries s es \<and> length (later_buf s es) \<le> body_limit" by blast
    then show ?thesis using b good f(3) False
      by (intro exI [of _ es] exI [of _ ess]) (subst build_bufs.simps, simp add: all)
  qed
qed

end
