(* ===== verification/Group_merge.thy ===== *)
theory Group_merge
  imports Group_bufs
begin

text \<open>
  Taking in the GROUPS messages of another synced set: reading a buffer back gives the groups and
  daemons that were put into it, whatever the order of the messages.
\<close>

section \<open>Reading what was written\<close>

lemma split_at_append [simp]: "length xs = n \<Longrightarrow> split_at n (xs @ ys) = Some (xs, ys)"
  by (simp add: split_at_def)

lemma read16_bytes [simp]: "read16 True (bytes16 w @ bs) = Some (w, bs)"
  by (simp add: read16_def)

lemma read32_bytes [simp]: "read32 True (bytes32 w @ bs) = Some (w, bs)"
  by (simp add: read32_def)

lemma read_enc_memb_id [simp]: "wf_memb_id m \<Longrightarrow> read_memb_id True (enc_memb_id m @ bs) = Some (m, bs)"
  by (simp add: read_memb_id_def enc_memb_id_def wf_memb_id_def)

definition wf_gid :: "group_id \<Rightarrow> bool" where
  "wf_gid g \<longleftrightarrow> wf_memb_id (gid_memb g) \<and> int32_range (gid_index g)"

lemma read_enc_group_id [simp]: "wf_gid g \<Longrightarrow> read_group_id True (enc_group_id g @ bs) = Some (g, bs)"
  by (simp add: read_group_id_def enc_group_id_def wf_gid_def)

lemma read_procs_bytes [simp]: "read_procs True (length ps) (concat (map bytes32 ps) @ bs) = Some (ps, bs)"
  by (induction ps) simp_all

lemma read_members_concat [simp]:
  "\<forall>m \<in> set ms. length m = 32 \<Longrightarrow> read_members (length ms) (concat ms @ bs) = Some (ms, bs)"
  by (induction ms) (simp_all add: MAX_GROUP_NAME_eq)

lemma put_members_sorted:
  assumes "in_order strcmp cstr ms"
  shows "put_members ms = ms"
proof -
  have "fold put_at_end ys xs = xs @ ys" if "in_order strcmp cstr (xs @ ys)" for xs ys
    using that
  proof (induction ys arbitrary: xs)
    case (Cons y ys)
    have "xs = [] \<or> by_name y (last xs) \<le> 0"
      using Cons.prems by (cases xs rule: rev_cases) (auto simp: in_order_def sorted_wrt_append by_name_def)
    then have "put_at_end y xs = xs @ [y]" by (simp add: put_at_end_def)
    then show ?case using Cons.IH [of "xs @ [y]"] Cons.prems by simp
  qed simp
  from this [of "[]" ms] assms show ?thesis by (simp add: put_members_def)
qed

section \<open>A daemon\<close>

definition as_read :: "membership_id \<Rightarrow> daemon_members \<Rightarrow> daemon_members" where
  "as_read mid d = d\<lparr>dm_memb := mid\<rparr>"

lemma as_read_fields [simp]: "dm_proc (as_read mid d) = dm_proc d" "dm_members (as_read mid d) = dm_members d"
    "dm_memb (as_read mid d) = mid" "daemon_ok s (as_read mid d) = daemon_ok s d"
  by (simp_all add: as_read_def daemon_ok_def)

lemma daemon_pos_inj:
  "conf_ok (dmn s) \<Longrightarrow> daemon_ok s d \<Longrightarrow> daemon_ok s e \<Longrightarrow>
   conf_pos (dmn s) (dm_proc d) = conf_pos (dmn s) (dm_proc e) \<Longrightarrow> dm_proc d = dm_proc e"
  using daemon_home home_pos_inj by metis

lemma daemon_names: "daemon_ok s d \<Longrightarrow> \<forall>m \<in> set (dm_members d). length m = 32"
  using canon_length by (auto simp: daemon_ok_def)

lemma read_daemon_spec:
  assumes conf: "conf_ok (dmn s)" and ord: "daemons_in_order s (g_daemons g)" "\<forall>e \<in> set (g_daemons g). daemon_ok s e"
    and d: "daemon_ok s d" "length (dm_members d) < 2 ^ 16" and new: "\<forall>e \<in> set (g_daemons g). dm_proc e \<noteq> dm_proc d"
    and mid: "wf_memb_id mid"
  shows "\<exists>ds. read_daemon (dmn s) True (enc_daemon mid d @ bs, g) = Some (bs, g\<lparr>g_daemons := ds,
      g_changed := (g_changed g \<or> mid \<noteq> gid_memb (g_gid g)), g_num_members := g_num_members g + int (length (dm_members d))\<rparr>) \<and>
    daemons_in_order s ds \<and> mset ds = add_mset (as_read mid d) (mset (g_daemons g))"
proof -
  have pos: "conf_pos (dmn s) (dm_proc (as_read mid d)) > - 1" using d(1) by (simp add: daemon_ok_def)
  have other: "conf_pos (dmn s) (dm_proc e) \<noteq> conf_pos (dmn s) (dm_proc (as_read mid d))" if "e \<in> set (g_daemons g)" for e
    using daemon_pos_inj [OF conf _ d(1), of e] ord(2) new that by auto
  from put_daemon_spec [OF ord pos] other obtain ds where ds:
    "put_daemon (dmn s) (as_read mid d) g = Some (g\<lparr>g_daemons := ds\<rparr>)" "daemons_in_order s ds"
    "mset ds = add_mset (as_read mid d) (mset (g_daemons g))" by (auto split: if_splits)
  have n: "unat (word_of_nat (length (dm_members d)) :: 16 word) = length (dm_members d)"
    using d(2) by (simp add: unat_of_nat take_bit_eq_mod)
  have sorted: "put_members (dm_members d) = dm_members d"
    using d(1) put_members_sorted by (simp add: daemon_ok_def)
  have read: "\<lparr>dm_proc = dm_proc d, dm_memb = mid, dm_members = dm_members d\<rparr> = as_read mid d"
    by (simp add: as_read_def)
  have eq: "Memb_is_equal a b \<longleftrightarrow> a = b" for a b :: membership_id
    by (cases a; cases b) (auto simp: Memb_is_equal_def)
  have i: "uint (word_of_nat (length (dm_members d)) :: 16 word) = int (length (dm_members d))"
    using n by (metis uint_nat)
  have "read_daemon (dmn s) True (enc_daemon mid d @ bs, g) = Some (bs, g\<lparr>g_daemons := ds,
      g_changed := (g_changed g \<or> mid \<noteq> gid_memb (g_gid g)), g_num_members := g_num_members g + int (length (dm_members d))\<rparr>)"
    using mid daemon_names [OF d(1)] ds(1)
    by (cases g) (auto simp: read_daemon_def enc_daemon_def n i sorted read eq)
  then show ?thesis using ds(2,3) by blast
qed

lemma forM_ignore: "length xs = length ys \<Longrightarrow> forM xs (\<lambda>_. f) s = forM ys (\<lambda>_. f) s"
  by (induction xs ys arbitrary: s rule: list_induct2) simp_all

lemma read_daemons_spec:
  assumes conf: "conf_ok (dmn s)" and mid: "wf_memb_id mid"
    and ord: "daemons_in_order s (g_daemons g)" "\<forall>e \<in> set (g_daemons g). daemon_ok s e"
    and xs: "\<forall>d \<in> set xs. daemon_ok s d \<and> length (dm_members d) < 2 ^ 16" "distinct (map dm_proc xs)"
    and new: "\<forall>d \<in> set xs. \<forall>e \<in> set (g_daemons g). dm_proc e \<noteq> dm_proc d"
  shows "\<exists>ds. forM xs (\<lambda>_. read_daemon (dmn s) True) (concat (map (enc_daemon mid) xs) @ bs, g) = Some (bs, g\<lparr>g_daemons := ds,
      g_changed := (g_changed g \<or> xs \<noteq> [] \<and> mid \<noteq> gid_memb (g_gid g)),
      g_num_members := g_num_members g + int (length (members_of xs))\<rparr>) \<and>
    daemons_in_order s ds \<and> mset ds = mset (map (as_read mid) xs) + mset (g_daemons g)"
  using ord xs new
proof (induction xs arbitrary: g)
  case Nil
  then show ?case by (intro exI [of _ "g_daemons g"]) (simp add: members_of_def)
next
  case (Cons d xs)
  from read_daemon_spec [OF conf Cons.prems(1,2), of d mid "concat (map (enc_daemon mid) xs) @ bs"] Cons.prems(3,5) mid
  obtain ds where ds: "read_daemon (dmn s) True (enc_daemon mid d @ concat (map (enc_daemon mid) xs) @ bs, g) =
      Some (concat (map (enc_daemon mid) xs) @ bs, g\<lparr>g_daemons := ds, g_changed := (g_changed g \<or> mid \<noteq> gid_memb (g_gid g)),
        g_num_members := g_num_members g + int (length (dm_members d))\<rparr>)"
    "daemons_in_order s ds" "mset ds = add_mset (as_read mid d) (mset (g_daemons g))" by auto
  have set_ds: "set ds = insert (as_read mid d) (set (g_daemons g))" using arg_cong [OF ds(3), of set_mset] by simp
  let ?g = "g\<lparr>g_daemons := ds, g_changed := (g_changed g \<or> mid \<noteq> gid_memb (g_gid g)),
        g_num_members := g_num_members g + int (length (dm_members d))\<rparr>"
  have "\<forall>e \<in> set (g_daemons ?g). daemon_ok s e" "\<forall>x \<in> set xs. \<forall>e \<in> set (g_daemons ?g). dm_proc e \<noteq> dm_proc x"
    using Cons.prems by (auto simp: set_ds)
  with Cons.IH [of ?g] ds(2) Cons.prems(3,4) obtain ds' where
    "forM xs (\<lambda>_. read_daemon (dmn s) True) (concat (map (enc_daemon mid) xs) @ bs, ?g) = Some (bs, ?g\<lparr>g_daemons := ds',
      g_changed := (g_changed ?g \<or> xs \<noteq> [] \<and> mid \<noteq> gid_memb (g_gid ?g)),
      g_num_members := g_num_members ?g + int (length (members_of xs))\<rparr>)"
    "daemons_in_order s ds'" "mset ds' = mset (map (as_read mid) xs) + mset ds" by auto
  then show ?case using ds(1,3) by (intro exI [of _ ds']) (auto simp: members_of_def)
qed

section \<open>The members by daemon\<close>

text \<open>What a daemon knows: which members of which daemon are in which group.\<close>

type_synonym roster_fact = "byte list \<times> int32u \<times> byte list list"

definition roster :: "group \<times> daemon_members \<Rightarrow> roster_fact" where
  "roster x = (case x of (g, d) \<Rightarrow> (cstr (g_name g), dm_proc d, dm_members d))"

definition roster_key :: "group \<times> daemon_members \<Rightarrow> byte list \<times> int32u" where
  "roster_key x = (case x of (g, d) \<Rightarrow> (cstr (g_name g), dm_proc d))"

definition group_roster :: "group \<Rightarrow> roster_fact set" where
  "group_roster g = (\<lambda>d. roster (g, d)) ` set (g_daemons g)"

definition rosters :: "server \<Rightarrow> roster_fact set" where
  "rosters s = \<Union> (group_roster ` set (GroupsList s))"

lemma fst_roster: "r \<in> group_roster g \<Longrightarrow> fst r = cstr (g_name g)"
  by (auto simp: group_roster_def roster_def)

definition group_names :: "server \<Rightarrow> byte list set" where
  "group_names s = (\<lambda>g. cstr (g_name g)) ` set (GroupsList s)"

lemma view_rosters: "view s k = {cstr m | p ms m. (k, p, ms) \<in> rosters s \<and> m \<in> set ms}"
proof -
  have "(\<exists>g. g \<in> set (GroupsList s) \<and> cstr (g_name g) = k \<and> m \<in> set (group_members g)) \<longleftrightarrow>
      (\<exists>p ms. (k, p, ms) \<in> rosters s \<and> m \<in> set ms)" for m
    by (fastforce simp: rosters_def group_roster_def roster_def group_members_def)
  then show ?thesis unfolding view_def by blast
qed

text \<open>The invariant while groups are taken in: a group may be there before its first daemon is.\<close>

definition merging :: "server \<Rightarrow> bool" where
  "merging s \<longleftrightarrow> conf_ok (dmn s) \<and> dir_ok s \<and> groups_in_order (GroupsList s) \<and> (\<forall>g \<in> set (GroupsList s). group_pre s g)"

text \<open>What taking in groups leaves alone beside the sessions.\<close>

definition same_membs :: "server \<Rightarrow> server \<Rightarrow> bool" where
  "same_membs s s' \<longleftrightarrow> G_Trans_memb s' = G_Trans_memb s \<and> G_Trans_memb_id s' = G_Trans_memb_id s \<and>
     G_Reg_memb s' = G_Reg_memb s \<and> G_Reg_memb_id s' = G_Reg_memb_id s"

definition same_rest :: "server \<Rightarrow> server \<Rightarrow> bool" where
  "same_rest s s' \<longleftrightarrow> MySyncedSet s' = MySyncedSet s \<and> same_membs s s'"

lemma same_membs_trans: "same_membs s t \<Longrightarrow> same_membs t u \<Longrightarrow> same_membs s u"
  by (simp add: same_membs_def)

lemma same_rest_refl [simp]: "same_rest s s" "same_membs s s"
  by (simp_all add: same_rest_def same_membs_def)

lemma same_rest_trans: "same_rest s t \<Longrightarrow> same_rest t u \<Longrightarrow> same_rest s u"
  by (simp add: same_rest_def same_membs_def)

lemma same_rest_ops [simp]: "same_rest s (put_group g s)" "same_rest s (count_groups k s)" "same_rest s (erase_group nm s)"
  by (simp_all add: same_rest_def same_membs_def put_group_def count_groups_def erase_group_def upd_dmn_def)

lemma server_merging: "server_ok s \<Longrightarrow> merging s"
  by (simp add: server_ok_def merging_def group_ok_pre)

lemma merging_done: "merging s \<Longrightarrow> \<forall>g \<in> set (GroupsList s). g_daemons g \<noteq> [] \<Longrightarrow> server_ok s"
  by (simp add: server_ok_def merging_def group_ok_pre)

lemma pre_same: "groups_step s s' \<Longrightarrow> group_pre s' g = group_pre s g"
  using groups_step_same [of s s'] by (simp add: group_pre_def daemons_in_order_def daemon_ok_def)

lemma put_merging:
  assumes "merging s" and "groups_step s s1" and "groups_in_order (GroupsList s1)"
    and "\<forall>h \<in> set (GroupsList s1). cstr (g_name h) \<noteq> cstr (g_name g) \<longrightarrow> h \<in> set (GroupsList s)" and "group_pre s g"
  shows "merging (put_group g s1)"
proof -
  have st: "groups_step s (put_group g s1)" using groups_step_trans [OF assms(2)] by simp
  have "\<forall>h \<in> set (GroupsList (put_group g s1)). group_pre s h"
    using assms put_group_spec(2) [OF assms(3), of g] by (auto simp: merging_def)
  then show ?thesis using assms(1) put_group_spec(1) [OF assms(3)] groups_step_same(2,3) [OF st] pre_same [OF st]
    by (simp add: merging_def)
qed

lemma rosters_put:
  assumes "groups_in_order (GroupsList s)"
  shows "rosters (put_group g s) = {r \<in> rosters s. fst r \<noteq> cstr (g_name g)} \<union> group_roster g"
    "group_names (put_group g s) = insert (cstr (g_name g)) (group_names s)"
proof -
  have "{r \<in> rosters s. fst r \<noteq> cstr (g_name g)} = \<Union> (group_roster ` {h \<in> set (GroupsList s). cstr (g_name h) \<noteq> cstr (g_name g)})"
    unfolding rosters_def using fst_roster by fastforce
  then show "rosters (put_group g s) = {r \<in> rosters s. fst r \<noteq> cstr (g_name g)} \<union> group_roster g"
    using put_group_spec(2) [OF assms, of g] by (auto simp: rosters_def)
  show "group_names (put_group g s) = insert (cstr (g_name g)) (group_names s)"
    using put_group_spec(2) [OF assms, of g] by (auto simp: group_names_def)
qed

lemma rosters_of_group:
  assumes "groups_in_order (GroupsList s)" and "g \<in> set (GroupsList s)"
  shows "{r \<in> rosters s. fst r = cstr (g_name g)} = group_roster g"
proof -
  have "h = g" if "h \<in> set (GroupsList s)" "cstr (g_name h) = cstr (g_name g)" for h
    using get_group_iff [OF assms(1), of "g_name g" g] get_group_iff [OF assms(1), of "g_name g" h] that assms(2) by auto
  then have one: "h = g" if "h \<in> set (GroupsList s)" "r \<in> group_roster h" "fst r = cstr (g_name g)" for h r
    using that fst_roster [OF that(2)] by simp
  show ?thesis
  proof (intro equalityI subsetI)
    fix r assume "r \<in> {r \<in> rosters s. fst r = cstr (g_name g)}"
    then obtain h where "h \<in> set (GroupsList s)" "r \<in> group_roster h" "fst r = cstr (g_name g)" by (auto simp: rosters_def)
    then show "r \<in> group_roster g" using one by blast
  next
    fix r assume "r \<in> group_roster g"
    then show "r \<in> {r \<in> rosters s. fst r = cstr (g_name g)}" using assms(2) fst_roster [of r g] by (auto simp: rosters_def)
  qed
qed

section \<open>A group\<close>

lemma strncpy_cong: "cstr a = cstr b \<Longrightarrow> strncpy n a = strncpy n b"
  by (simp add: strncpy_def)

lemma canon_prefix:
  assumes "canon nm"
  shows "cstr (nm @ bs) = cstr nm" "strcpy MAX_GROUP_NAME (nm @ bs) = Some nm"
proof -
  have "length (takeWhile (\<lambda>b. b \<noteq> 0) nm) < length nm"
    using assms canon_length [OF assms] by (simp add: canon_def cstr_def MAX_GROUP_NAME_eq)
  then have "\<exists>x \<in> set nm. x = 0" by (metis (mono_tags, lifting) nat_neq_iff takeWhile_eq_all_conv)
  then show c: "cstr (nm @ bs) = cstr nm" by (auto simp: cstr_def takeWhile_append1)
  show "strcpy MAX_GROUP_NAME (nm @ bs) = Some nm"
    using assms strncpy_cong [OF c] c by (simp add: strcpy_def canon_def)
qed

lemma found_or_made_spec:
  assumes mg: "merging s" and nm: "canon nm"
  shows "\<exists>g s1. found_or_made (nm @ bs) gid s = Some (g, s1) \<and> groups_step s s1 \<and> group_pre s g \<and> g_name g = nm \<and>
    groups_in_order (GroupsList s1) \<and> same_rest s s1 \<and>
    (\<forall>h \<in> set (GroupsList s1). cstr (g_name h) \<noteq> cstr nm \<longrightarrow> h \<in> set (GroupsList s)) \<and>
    rosters s1 = rosters s \<and> group_roster g = {r \<in> rosters s. fst r = cstr nm} \<and>
    group_names s1 = insert (cstr nm) (group_names s)"
proof -
  have ord: "groups_in_order (GroupsList s)" using mg by (simp add: merging_def)
  note c = canon_prefix [OF nm, of bs]
  show ?thesis
  proof (cases "G_get_group (nm @ bs) s")
    case (Some g)
    then have g: "g \<in> set (GroupsList s)" "cstr (g_name g) = cstr nm" using get_group_iff [OF ord] c by auto
    then have "group_pre s g" using mg by (simp add: merging_def)
    moreover from this have "g_name g = nm" using g(2) nm canon_inj by (simp add: group_pre_def)
    ultimately show ?thesis using Some ord g rosters_of_group [OF ord g(1)]
      by (intro exI [of _ g] exI [of _ s]) (auto simp: found_or_made_def group_names_def)
  next
    case None
    let ?g = "\<lparr>g_name = nm, g_gid = gid, g_changed = False, g_num_members = 0, g_daemons = [], g_mboxes = []\<rparr>"
    let ?s1 = "count_groups 1 (put_group ?g s)"
    have gl: "GroupsList ?s1 = GroupsList (put_group ?g s)" by (simp add: count_groups_def upd_dmn_def)
    have none: "\<forall>h \<in> set (GroupsList s). cstr (g_name h) \<noteq> cstr nm" using None get_group_None [OF ord] c by simp
    then have empty: "{r \<in> rosters s. fst r = cstr nm} = {}" using fst_roster by (fastforce simp: rosters_def)
    have none': "{r \<in> rosters s. fst r \<noteq> cstr nm} = rosters s" using empty by blast
    have "rosters ?s1 = rosters (put_group ?g s)" "group_names ?s1 = group_names (put_group ?g s)"
      by (simp_all only: rosters_def group_names_def gl)
    then have "rosters ?s1 = rosters s" "group_names ?s1 = insert (cstr nm) (group_names s)"
      using rosters_put [OF ord, of ?g] none' by (simp_all add: group_roster_def)
    moreover have "found_or_made (nm @ bs) gid s = Some (?g, ?s1)"
      using None c by (simp add: found_or_made_def Let_def)
    moreover have "groups_step s ?s1" using groups_step_trans [of s "put_group ?g s"] by simp
    moreover have "group_pre s ?g" using nm by (simp add: group_pre_def daemons_in_order_def group_members_def locals_def)
    moreover have "groups_in_order (GroupsList ?s1)" "set (GroupsList ?s1) = insert ?g {h \<in> set (GroupsList s). cstr (g_name h) \<noteq> cstr nm}"
      using put_group_spec [OF ord, of ?g] by (simp_all add: gl)
    moreover have "same_rest s ?s1" using same_rest_trans [of s "put_group ?g s"] by simp
    ultimately show ?thesis using empty by (intro exI [of _ ?g] exI [of _ ?s1]) (auto simp: group_roster_def)
  qed
qed

text \<open>An entry that can be read: known daemons, none of them this one, and counts of 16 bits.\<close>

definition entry_ok :: "server \<Rightarrow> buf_entry \<Rightarrow> bool" where
  "entry_ok s x \<longleftrightarrow> (case x of (g, xs) \<Rightarrow> canon (g_name g) \<and> wf_gid (g_gid g) \<and> length xs < 2 ^ 16 \<and>
     (\<forall>d \<in> set xs. daemon_ok s d \<and> length (dm_members d) < 2 ^ 16 \<and> dm_proc d \<noteq> My_id s))"

definition roster_keys :: "roster_fact set \<Rightarrow> (byte list \<times> int32u) set" where
  "roster_keys R = (\<lambda>(k, p, ms). (k, p)) ` R"

lemma roster_keys_simps [simp]: "roster_keys (A \<union> B) = roster_keys A \<union> roster_keys B" "roster_keys {} = {}"
  by (simp_all add: roster_keys_def image_Un)

lemma unat16: "n < 2 ^ 16 \<Longrightarrow> unat (word_of_nat n :: 16 word) = n"
  by (simp add: unat_of_nat take_bit_eq_mod)

lemma locals_none: "\<forall>d \<in> set ds. dm_proc d \<noteq> my \<Longrightarrow> locals my ds = []"
  by (simp add: locals_def)

lemma group_keys: "(cstr (g_name g), p) \<in> roster_keys (group_roster g) \<longleftrightarrow> p \<in> dm_proc ` set (g_daemons g)"
  by (force simp: roster_keys_def group_roster_def roster_def)

lemma grown_pre:
  assumes g: "group_pre s g" and ds: "daemons_in_order s ds" "mset ds = mset (map (as_read mid) xs) + mset (g_daemons g)"
    and xs: "\<forall>d \<in> set xs. daemon_ok s d \<and> dm_proc d \<noteq> My_id s"
  shows "group_pre s (g\<lparr>g_daemons := ds, g_changed := c, g_num_members := g_num_members g + int (length (members_of xs))\<rparr>)"
proof -
  have set_ds: "set ds = as_read mid ` set xs \<union> set (g_daemons g)" using arg_cong [OF ds(2), of set_mset] by simp
  have m: "mset (members_of ds) = mset (members_of xs) + mset (members_of (g_daemons g))"
    unfolding mset_members ds(2) by (simp add: image_mset.compositionality comp_def)
  have "length (members_of ds) = length (members_of xs) + length (members_of (g_daemons g))"
    using arg_cong [OF m, of size] by simp
  moreover have "mset (locals (My_id s) ds) = mset (locals (My_id s) (g_daemons g))"
  proof -
    have "mset (locals (My_id s) (map (as_read mid) xs)) = {#}" using xs by (simp add: locals_none)
    then show ?thesis unfolding mset_locals ds(2) by (simp add: mset_locals)
  qed
  then have "mset (map (box s) (locals (My_id s) ds)) = mset (map (box s) (locals (My_id s) (g_daemons g)))" by simp
  ultimately show ?thesis using g ds(1) xs set_ds by (auto simp: group_pre_def group_members_eq)
qed

lemma read_group_spec:
  assumes mg: "merging s" and e: "entry_ok s (g, xs)" "distinct (map dm_proc xs)"
    and new: "\<forall>d \<in> set xs. (cstr (g_name g), dm_proc d) \<notin> roster_keys (rosters s)"
  shows "\<exists>s'. read_group True (enc_group g xs @ bs) s = Some (bs, s') \<and> merging s' \<and> groups_step s s' \<and>
    rosters s' = rosters s \<union> (\<lambda>d. roster (g, d)) ` set xs \<and> group_names s' = insert (cstr (g_name g)) (group_names s) \<and>
    same_rest s s'"
proof -
  let ?mid = "gid_memb (g_gid g)"
  have nm: "canon (g_name g)" "length (g_name g) = 32" and gid: "wf_gid (g_gid g)" and xs: "length xs < 2 ^ 16"
    "\<forall>d \<in> set xs. daemon_ok s d \<and> length (dm_members d) < 2 ^ 16 \<and> dm_proc d \<noteq> My_id s"
    using e(1) canon_length by (auto simp: entry_ok_def)
  let ?rest = "bytes16 (if g_changed g then 1 else 0) @ bytes16 (word_of_nat (length xs)) @ concat (map (enc_daemon ?mid) xs) @ bs"
  have "length (enc_group_id (g_gid g)) = 12" by simp
  obtain h s1 where h: "found_or_made (g_name g @ enc_group_id (g_gid g) @ ?rest) (g_gid g) s = Some (h, s1)" "groups_step s s1"
    "group_pre s h" "g_name h = g_name g" "groups_in_order (GroupsList s1)" "same_rest s s1"
    "\<forall>h \<in> set (GroupsList s1). cstr (g_name h) \<noteq> cstr (g_name g) \<longrightarrow> h \<in> set (GroupsList s)"
    "rosters s1 = rosters s" "group_roster h = {r \<in> rosters s. fst r = cstr (g_name g)}"
    "group_names s1 = insert (cstr (g_name g)) (group_names s)"
    using found_or_made_spec [OF mg nm(1)] by blast
  note same = groups_step_same [OF h(2)]
  have dok: "daemon_ok s1 d = daemon_ok s d" for d by (simp add: daemon_ok_def same)
  have cnf: "conf_ok (dmn s1)" using mg by (simp add: merging_def same)
  let ?h = "if g_changed g then h\<lparr>g_changed := True\<rparr> else h"
  have fresh: "\<forall>d \<in> set xs. \<forall>e \<in> set (g_daemons ?h). dm_proc e \<noteq> dm_proc d"
  proof (intro ballI notI)
    fix d e assume de: "d \<in> set xs" "e \<in> set (g_daemons ?h)" "dm_proc e = dm_proc d"
    then have "roster (h, e) \<in> group_roster h" by (auto simp: group_roster_def split: if_splits)
    then have "roster (h, e) \<in> rosters s" using h(9) by simp
    then have "(cstr (g_name g), dm_proc e) \<in> roster_keys (rosters s)"
      using h(4) by (force simp: roster_keys_def roster_def)
    then show False using new de by auto
  qed
  have ord: "daemons_in_order s1 (g_daemons ?h)" "\<forall>e \<in> set (g_daemons ?h). daemon_ok s1 e"
    using h(3) by (auto simp: group_pre_def daemons_in_order_def dok same)
  have xs1: "\<forall>d \<in> set xs. daemon_ok s1 d \<and> length (dm_members d) < 2 ^ 16" using xs(2) by (simp add: dok)
  have mid: "wf_memb_id ?mid" using gid by (simp add: wf_gid_def)
  from read_daemons_spec [OF cnf mid ord xs1 e(2) fresh, of bs] obtain ds where ds:
    "forM xs (\<lambda>_. read_daemon (dmn s1) True) (concat (map (enc_daemon ?mid) xs) @ bs, ?h) = Some (bs, ?h\<lparr>g_daemons := ds,
      g_changed := (g_changed ?h \<or> xs \<noteq> [] \<and> ?mid \<noteq> gid_memb (g_gid ?h)),
      g_num_members := g_num_members ?h + int (length (members_of xs))\<rparr>)"
    "daemons_in_order s1 ds" "mset ds = mset (map (as_read ?mid) xs) + mset (g_daemons ?h)" by blast
  let ?c = "g_changed ?h \<or> xs \<noteq> [] \<and> ?mid \<noteq> gid_memb (g_gid ?h)"
  let ?g2 = "h\<lparr>g_daemons := ds, g_changed := ?c, g_num_members := g_num_members h + int (length (members_of xs))\<rparr>"
  have g2: "?h\<lparr>g_daemons := ds, g_changed := ?c, g_num_members := g_num_members ?h + int (length (members_of xs))\<rparr> = ?g2"
    by (cases h) simp
  have run: "read_group True (enc_group g xs @ bs) s = Some (bs, put_group ?g2 s1)"
  proof -
    have "forM [0..<unat (word_of_nat (length xs) :: 16 word)] (\<lambda>_. read_daemon (dmn s1) True) (concat (map (enc_daemon ?mid) xs) @ bs, ?h)
        = Some (bs, ?g2)"
      using ds(1) forM_ignore [of "[0..<length xs]" xs "read_daemon (dmn s1) True"] unfolding g2 by (simp add: unat16 [OF xs(1)])
    moreover have "((if g_changed g then 1 else 0 :: 16 word) \<noteq> 0) = g_changed g" by simp
    ultimately show ?thesis using h(1) gid nm(2)
      by (simp add: read_group_def enc_group_def MAX_GROUP_NAME_eq)
  qed
  have dso: "daemons_in_order s ds" using ds(2) by (simp add: daemons_in_order_def same)
  have dsm: "mset ds = mset (map (as_read ?mid) xs) + mset (g_daemons h)" using ds(3) by (auto split: if_splits)
  have pre: "group_pre s ?g2" by (rule grown_pre [OF h(3) dso dsm]) (use xs(2) in auto)
  have "merging (put_group ?g2 s1)" by (rule put_merging [OF mg h(2,5) _ pre]) (use h(4,7) in simp)
  moreover have "groups_step s (put_group ?g2 s1)" using groups_step_trans [OF h(2)] by simp
  moreover have "rosters (put_group ?g2 s1) = rosters s \<union> (\<lambda>d. roster (g, d)) ` set xs"
  proof -
    have "set ds = as_read ?mid ` set xs \<union> set (g_daemons h)" using arg_cong [OF dsm, of set_mset] by simp
    then have "group_roster ?g2 = (\<lambda>d. roster (g, d)) ` set xs \<union> group_roster h"
      by (auto simp: group_roster_def roster_def h(4) image_Un image_image)
    then show ?thesis using rosters_put(1) [OF h(5), of ?g2] h(4,8,9) by auto
  qed
  moreover have "group_names (put_group ?g2 s1) = insert (cstr (g_name g)) (group_names s)"
    using rosters_put(2) [OF h(5), of ?g2] h(4,10) by simp
  moreover have "same_rest s (put_group ?g2 s1)" using same_rest_trans [OF h(6)] by simp
  ultimately show ?thesis using run by blast
qed

section \<open>A buffer\<close>

definition brought :: "buf_entry list \<Rightarrow> roster_fact set" where
  "brought es = roster ` set (flat es)"

definition entry_names :: "buf_entry list \<Rightarrow> byte list set" where
  "entry_names es = (\<lambda>x. cstr (g_name (fst x))) ` set es"

lemma brought_simps [simp]: "brought [] = {}" "brought ((g, xs) # es) = (\<lambda>d. roster (g, d)) ` set xs \<union> brought es"
    "brought (es @ fs) = brought es \<union> brought fs"
  by (auto simp: brought_def)

lemma entry_names_simps [simp]: "entry_names [] = {}" "entry_names (x # es) = insert (cstr (g_name (fst x))) (entry_names es)"
    "entry_names (es @ fs) = entry_names es \<union> entry_names fs"
  by (auto simp: entry_names_def)

lemma keys_brought: "roster_keys (brought es) = set (map roster_key (flat es))"
  by (force simp: brought_def roster_keys_def roster_def roster_key_def image_iff)

lemma enc_group_not_Nil: "canon (g_name g) \<Longrightarrow> enc_group g xs \<noteq> []"
  using canon_length [of "g_name g"] by (auto simp: enc_group_def)

lemma entry_ok_same: "groups_step s s' \<Longrightarrow> entry_ok s' x = entry_ok s x"
  using groups_step_same [of s s'] by (simp add: entry_ok_def daemon_ok_def split: prod.split)

lemma read_entries:
  assumes "merging s" and "\<forall>x \<in> set es. entry_ok s x" and "distinct (map roster_key (flat es))"
    and "set (map roster_key (flat es)) \<inter> roster_keys (rosters s) = {}"
  shows "\<exists>s'. read_groups True (entries_bytes es) s = Some s' \<and> merging s' \<and> groups_step s s' \<and>
    rosters s' = rosters s \<union> brought es \<and> group_names s' = group_names s \<union> entry_names es \<and> same_rest s s'"
  using assms
proof (induction es arbitrary: s)
  case Nil
  then show ?case by (simp add: entries_bytes_def read_groups.simps)
next
  case (Cons x es)
  obtain g xs where x: "x = (g, xs)" by force
  have e: "entry_ok s (g, xs)" using Cons.prems(2) x by simp
  have d: "distinct (map dm_proc xs)"
    using Cons.prems(3) by (auto simp: x distinct_map roster_key_def inj_on_def)
  have new: "\<forall>d \<in> set xs. (cstr (g_name g), dm_proc d) \<notin> roster_keys (rosters s)"
    using Cons.prems(4) by (force simp: x roster_key_def)
  from read_group_spec [OF Cons.prems(1) e d new, of "entries_bytes es"] obtain s1 where
    s1: "read_group True (enc_group g xs @ entries_bytes es) s = Some (entries_bytes es, s1)" "merging s1" "groups_step s s1"
    "rosters s1 = rosters s \<union> (\<lambda>d. roster (g, d)) ` set xs" "group_names s1 = insert (cstr (g_name g)) (group_names s)"
    "same_rest s s1" by blast
  have "roster_keys ((\<lambda>d. roster (g, d)) ` set xs) = roster_key ` Pair g ` set xs"
    by (force simp: roster_keys_def roster_def roster_key_def image_iff)
  then have "set (map roster_key (flat es)) \<inter> roster_keys (rosters s1) = {}"
    using Cons.prems(3,4) by (auto simp: s1(4) x)
  moreover have "\<forall>y \<in> set es. entry_ok s1 y" "distinct (map roster_key (flat es))"
    using Cons.prems(2,3) entry_ok_same [OF s1(3)] by (auto simp: x)
  ultimately obtain s' where s': "read_groups True (entries_bytes es) s1 = Some s'" "merging s'" "groups_step s1 s'"
    "rosters s' = rosters s1 \<union> brought es" "group_names s' = group_names s1 \<union> entry_names es" "same_rest s1 s'"
    using Cons.IH [OF s1(2)] by blast
  have b: "entries_bytes (x # es) = enc_group g xs @ entries_bytes es" by (simp add: entries_bytes_def x)
  have "enc_group g xs \<noteq> []" using enc_group_not_Nil [of g xs] e by (simp add: entry_ok_def)
  then have "read_groups True (entries_bytes (x # es)) s = Some s'"
    unfolding b by (subst read_groups.simps) (simp add: s1(1) s'(1))
  then show ?case using s' s1 groups_step_trans [OF s1(3) s'(3)] same_rest_trans [OF s1(6) s'(6)]
    by (intro exI [of _ s']) (auto simp: x)
qed

section \<open>The messages of a synced set\<close>

text \<open>A buffer is described by its entries and whether it is the first, with the synced set.\<close>

type_synonym buf_kind = "bool \<times> buf_entry list"

definition buf_of :: "server \<Rightarrow> buf_kind \<Rightarrow> byte list" where
  "buf_of t k = (case k of (first, es) \<Rightarrow> if first then first_buf t es else later_buf t es)"

definition carries :: "server \<Rightarrow> message \<Rightarrow> buf_kind \<Rightarrow> bool" where
  "carries t m k \<longleftrightarrow> (\<exists>h. Message_get_message_header m = Some h \<and> wf_message_header h \<and> Same_endian (mh_type h) \<and>
     contents m = enc_message_header h @ buf_of t k)"

lemma preamble_read:
  assumes "length (MySyncedSet t) \<le> MAX_PROCS_RING"
  shows "read_synced_set True (drop 8 (buf_of t (first, es))) sset =
    Some (if first then Some (MySyncedSet t) else sset, entries_bytes es)"
proof -
  have n: "unat (word_of_nat (length (MySyncedSet t)) :: int32u) = length (MySyncedSet t)"
    using assms by (simp add: unat_of_nat take_bit_eq_mod MAX_PROCS_RING_def)
  have s1: "split_at 1 (b # bs) = Some ([b], bs)" for b and bs :: "byte list" by (simp add: split_at_def)
  have d: "drop 8 (buf_of t (first, es)) = (if first then 1 # bytes32 (word_of_nat (length (MySyncedSet t))) @
      concat (map bytes32 (MySyncedSet t)) @ entries_bytes es else 0 # entries_bytes es)"
    by (simp add: buf_of_def first_buf_def later_buf_def groups_preamble_def)
  show ?thesis unfolding d using assms by (simp add: read_synced_set_def s1 n del: One_nat_def)
qed

lemma mess_to_groups_spec:
  assumes m: "carries t m (first, es)" and len: "length (buf_of t (first, es)) \<le> body_limit"
    and set: "length (MySyncedSet t) \<le> MAX_PROCS_RING" and s: "merging s" "\<forall>x \<in> set es. entry_ok s x"
    and new: "distinct (map roster_key (flat es))" "set (map roster_key (flat es)) \<inter> roster_keys (rosters s) = {}"
  shows "\<exists>s'. G_mess_to_groups m (sset, s) = Some (if first then Some (MySyncedSet t) else sset, s') \<and> merging s' \<and>
    groups_step s s' \<and> rosters s' = rosters s \<union> brought es \<and> group_names s' = group_names s \<union> entry_names es \<and> same_rest s s'"
proof -
  obtain h where h: "Message_get_message_header m = Some h" "wf_message_header h" "Same_endian (mh_type h)"
    "contents m = enc_message_header h @ buf_of t (first, es)" using m by (auto simp: carries_def)
  have le: "length (enc_message_header h) = 48" by (rule length_enc_message_header [OF h(2)])
  have l8: "8 \<le> length (buf_of t (first, es))" by (simp add: buf_of_def first_buf_def later_buf_def length_preamble)
  have "length (contents m) \<le> GROUPS_BUF_SIZE" using len le by (simp add: h(4) buf_sizes)
  moreover have "split_at (data_header_size + 8) (contents m) =
      Some (take 56 (contents m), drop 8 (buf_of t (first, es)))"
    using le l8 by (simp add: h(4) split_at_def data_header_size_def)
  moreover obtain s' where s': "read_groups True (entries_bytes es) s = Some s'" "merging s'" "groups_step s s'"
    "rosters s' = rosters s \<union> brought es" "group_names s' = group_names s \<union> entry_names es" "same_rest s s'"
    using read_entries [OF s new] by blast
  ultimately show ?thesis using h(1,3) s' preamble_read [OF set, of first es sset]
    by (simp add: G_mess_to_groups_def)
qed

text \<open>All the messages, in any order.\<close>

definition all_entries :: "buf_kind list \<Rightarrow> buf_entry list" where
  "all_entries ks = concat (map snd ks)"

lemma mess_list_spec:
  assumes "list_all2 (carries t) ms ks" and "\<forall>k \<in> set ks. length (buf_of t k) \<le> body_limit"
    and set: "length (MySyncedSet t) \<le> MAX_PROCS_RING" and "merging s" and "\<forall>x \<in> set (all_entries ks). entry_ok s x"
    and "distinct (map roster_key (flat (all_entries ks)))"
    and "set (map roster_key (flat (all_entries ks))) \<inter> roster_keys (rosters s) = {}"
  shows "\<exists>s'. forM ms G_mess_to_groups (sset, s) = Some (if True \<in> fst ` set ks then Some (MySyncedSet t) else sset, s') \<and>
    merging s' \<and> groups_step s s' \<and> rosters s' = rosters s \<union> brought (all_entries ks) \<and>
    group_names s' = group_names s \<union> entry_names (all_entries ks) \<and> same_rest s s'"
  using assms(1,2,4-)
proof (induction ms ks arbitrary: sset s rule: list_all2_induct)
  case Nil
  then show ?case by (simp add: all_entries_def)
next
  case (Cons m ms k ks)
  obtain first es where k: "k = (first, es)" by force
  have a: "all_entries (k # ks) = es @ all_entries ks" "all_entries ((first, es) # ks) = es @ all_entries ks" by (simp_all add: all_entries_def k)
  have c: "carries t m (first, es)" "length (buf_of t (first, es)) \<le> body_limit" "\<forall>x \<in> set es. entry_ok s x"
    "distinct (map roster_key (flat es))" "set (map roster_key (flat es)) \<inter> roster_keys (rosters s) = {}"
    using Cons.hyps(1) Cons.prems by (auto simp: k a)
  from mess_to_groups_spec [OF c(1,2) set Cons.prems(2) c(3-5), of sset] obtain s1 where
    s1: "G_mess_to_groups m (sset, s) = Some (if first then Some (MySyncedSet t) else sset, s1)" "merging s1" "groups_step s s1"
    "rosters s1 = rosters s \<union> brought es" "group_names s1 = group_names s \<union> entry_names es" "same_rest s s1" by blast
  have "set (map roster_key (flat (all_entries ks))) \<inter> roster_keys (rosters s1) = {}"
    using Cons.prems(4,5) by (auto simp: s1(4) a keys_brought)
  moreover have "\<forall>x \<in> set (all_entries ks). entry_ok s1 x" "distinct (map roster_key (flat (all_entries ks)))"
    using Cons.prems(3,4) entry_ok_same [OF s1(3)] by (auto simp: a)
  ultimately obtain s' where s': "forM ms G_mess_to_groups (if first then Some (MySyncedSet t) else sset, s1) =
      Some (if True \<in> fst ` set ks then Some (MySyncedSet t) else if first then Some (MySyncedSet t) else sset, s')"
    "merging s'" "groups_step s1 s'" "rosters s' = rosters s1 \<union> brought (all_entries ks)"
    "group_names s' = group_names s1 \<union> entry_names (all_entries ks)" "same_rest s1 s'"
    using Cons.IH [OF _ s1(2), of "if first then Some (MySyncedSet t) else sset"] Cons.prems(1) by auto
  have "forM (m # ms) G_mess_to_groups (sset, s) = Some (if True \<in> fst ` set (k # ks) then Some (MySyncedSet t) else sset, s')"
    using s1(1) s'(1) by (auto simp: k)
  then show ?case using s' s1 groups_step_trans [OF s1(3) s'(3)] same_rest_trans [OF s1(6) s'(6)]
    by (intro exI [of _ s']) (auto simp: a)
qed

end
