(* ===== verification/Group_senders.thy ===== *)
theory Group_senders
  imports Group_merge
begin

text \<open>
  The messages a leader builds, and the synced sets: what a daemon knows after it has taken in the
  messages of the leaders of other sets.
\<close>

section \<open>The messages of a leader\<close>

definition leader_ok :: "server \<Rightarrow> bool" where
  "leader_ok t \<longleftrightarrow> server_ok t \<and> Groups_bufs t = [] \<and> length (MySyncedSet t) \<le> MAX_PROCS_RING \<and>
     length (p_name (Sess_My t)) < MAX_PROC_NAME \<and>
     (\<forall>g \<in> set (GroupsList t). wf_gid (g_gid g) \<and> (\<forall>d \<in> set (g_daemons g). length (dm_members d) \<le> max_local))"

definition groups_messages_of :: "server \<Rightarrow> message list option" where
  "groups_messages_of t = Option.bind (G_build_new_groups_bufs t)
     (\<lambda>t'. those (map (groups_message t') (mark_last (Groups_bufs t'))))"

lemma strcpy_name: "length nm < MAX_PROC_NAME \<Longrightarrow> \<exists>x. strcpy MAX_GROUP_NAME (chars nm) = Some x \<and> length x = MAX_GROUP_NAME"
proof -
  assume "length nm < MAX_PROC_NAME"
  moreover have "length (cstr bs) \<le> length bs" for bs by (simp add: cstr_def length_takeWhile_le)
  moreover have "length (chars nm) = length nm" by (simp add: chars_def)
  ultimately have "length (cstr (chars nm)) < MAX_PROC_NAME" by (metis le_less_trans)
  then have "length (cstr (chars nm)) < MAX_GROUP_NAME" by (simp add: MAX_GROUP_NAME_eq MAX_PROC_NAME_def)
  then show ?thesis by (simp add: strcpy_def length_strncpy)
qed

lemma groups_message_ok:
  assumes name: "length (p_name (Sess_My t)) < MAX_PROC_NAME" and len: "length buf \<le> body_limit"
  shows "\<exists>m h. groups_message t (buf, b) = Some m \<and> Message_get_message_header m = Some h \<and> wf_message_header h \<and>
    Same_endian (mh_type h) \<and> contents m = enc_message_header h @ buf"
proof -
  obtain nm where nm: "strcpy MAX_GROUP_NAME (chars (p_name (Sess_My t))) = Some nm" "length nm = MAX_GROUP_NAME"
    using strcpy_name [OF name] by blast
  let ?ty = "Set_endian GROUPS_MESS OR (if b then AGREED_MESS else RELIABLE_MESS)"
  let ?h = "\<lparr>mh_type = ?ty, mh_private_group_name = take (MAX_GROUP_NAME - 4) nm @ bytes32 (word_of_nat (length (MySyncedSet t))),
       mh_num_groups = 0, mh_hint = Set_endian 0, mh_data_len = int (length buf)\<rparr>"
  have "wf_message_header ?h"
    using nm(2) len by (simp add: wf_message_header_def MAX_GROUP_NAME_eq int32_range_def buf_sizes)
  moreover have "\<not> has ?ty REJECT_MESS" "Same_endian ?ty"
    by (cases b; simp add: has_def Set_endian_def Same_endian_def GROUPS_MESS_def AGREED_MESS_def RELIABLE_MESS_def REJECT_MESS_def
        ARCH_ENDIAN_def ENDIAN_TYPE_def)+
  moreover have "length buf \<le> 143552" using len by (simp add: buf_sizes)
  ultimately obtain m where "memb_message ?h buf = Some m" "contents m = enc_message_header ?h @ buf"
    "Message_get_message_header m = Some ?h" using memb_message_ok [of ?h buf] by auto
  then show ?thesis using nm(1) \<open>wf_message_header ?h\<close> \<open>Same_endian ?ty\<close>
    by (intro exI [of _ m] exI [of _ ?h]) (simp add: groups_message_def G_build_groups_msg_hdr_def)
qed

lemma those_map_some: "\<forall>x \<in> set xs. \<exists>y. f x = Some y \<and> P x y \<Longrightarrow> \<exists>ys. those (map f xs) = Some ys \<and> list_all2 P xs ys"
proof (induction xs)
  case (Cons x xs)
  then obtain y ys where "f x = Some y" "P x y" "those (map f xs) = Some ys" "list_all2 P xs ys" by auto
  then show ?case by (intro exI [of _ "y # ys"]) simp
qed simp

lemma fst_mark_last: "map fst (mark_last xs) = xs" "fst ` set (mark_last xs) = set xs"
proof -
  show m: "map fst (mark_last xs) = xs" by (simp add: mark_last_def)
  show "fst ` set (mark_last xs) = set xs" using arg_cong [OF m, of set] by simp
qed

lemma mset_concat_map:
  assumes "mset xs = mset ys"
  shows "mset (concat (map f xs)) = mset (concat (map f ys))"
proof -
  have "mset (concat (map f zs)) = \<Sum>\<^sub># (image_mset (\<lambda>x. mset (f x)) (mset zs))" for zs by (induction zs) simp_all
  then show ?thesis using assms by simp
qed

lemma buffers_carried:
  assumes name: "length (p_name (Sess_My t)) < MAX_PROC_NAME" and len: "\<forall>k \<in> set ks. length (buf_of t k) \<le> body_limit"
    and t': "Sess_My t' = Sess_My t" "MySyncedSet t' = MySyncedSet t" "Groups_bufs t' = map (buf_of t) ks"
  shows "\<exists>ms. those (map (groups_message t') (mark_last (Groups_bufs t'))) = Some ms \<and> list_all2 (carries t) ms ks"
proof -
  let ?P = "\<lambda>x m. \<exists>h. Message_get_message_header m = Some h \<and> wf_message_header h \<and> Same_endian (mh_type h) \<and>
     contents m = enc_message_header h @ fst x"
  have "\<exists>m. groups_message t' x = Some m \<and> ?P x m" if "x \<in> set (mark_last (Groups_bufs t'))" for x
  proof -
    have "fst x \<in> set (map (buf_of t) ks)" using imageI [OF that, of fst] t'(3) by (simp add: fst_mark_last)
    then have "length (fst x) \<le> body_limit" using len by auto
    moreover have "length (p_name (Sess_My t')) < MAX_PROC_NAME" using name t'(1) by simp
    ultimately show ?thesis using groups_message_ok [of t' "fst x" "snd x"] by auto
  qed
  then have "\<forall>x \<in> set (mark_last (Groups_bufs t')). \<exists>m. groups_message t' x = Some m \<and> ?P x m" by blast
  from those_map_some [OF this] obtain ms where ms: "those (map (groups_message t') (mark_last (Groups_bufs t'))) = Some ms"
    "list_all2 ?P (mark_last (Groups_bufs t')) ms" by blast
  have "list_all2 (\<lambda>b m. \<exists>h. Message_get_message_header m = Some h \<and> wf_message_header h \<and> Same_endian (mh_type h) \<and>
     contents m = enc_message_header h @ b) (map fst (mark_last (Groups_bufs t'))) ms"
    using ms(2) by (simp add: list_all2_map1)
  then have "list_all2 (\<lambda>k m. carries t m k) ks ms" by (simp add: t'(3) fst_mark_last list_all2_map1 carries_def)
  then show ?thesis using ms(1) by (auto simp: list_all2_conv_all_nth)
qed

lemma entries_length:
  assumes "(g, xs) \<in> set es"
  shows "14 * length xs \<le> length (entries_bytes es)"
proof -
  have one: "14 * length xs \<le> length (concat (map (enc_daemon m) xs))" for m
  proof (induction xs)
    case (Cons d xs)
    have "14 \<le> length (enc_daemon m d)" by (simp add: enc_daemon_def)
    then show ?case using Cons by simp
  qed simp
  have "14 * length xs \<le> length (enc_group g xs)" using one by (simp add: enc_group_def trans_le_add2)
  moreover have "length (enc_group g xs) \<le> length (entries_bytes es)"
    using assms by (induction es) (auto simp: entries_bytes_def)
  ultimately show ?thesis by simp
qed

lemma leader_messages:
  assumes ok: "leader_ok t"
  shows "\<exists>ms ks. groups_messages_of t = Some ms \<and> list_all2 (carries t) ms ks \<and>
    (\<forall>k \<in> set ks. length (buf_of t k) \<le> body_limit) \<and> True \<in> fst ` set ks \<and>
    mset (flat (all_entries ks)) = mset (flat (map (\<lambda>g. (g, g_daemons g)) (GroupsList t))) \<and>
    (\<forall>(g, xs) \<in> set (all_entries ks). g \<in> set (GroupsList t) \<and> length xs < 2 ^ 16)"
proof -
  have sok: "server_ok t" and e: "Groups_bufs t = []" and sl: "length (MySyncedSet t) \<le> MAX_PROCS_RING"
    and name: "length (p_name (Sess_My t)) < MAX_PROC_NAME" using ok by (simp_all add: leader_ok_def)
  have "\<forall>g \<in> set (GroupsList t). sendable_group g"
  proof
    fix g assume g: "g \<in> set (GroupsList t)"
    then have "group_ok t g" using sok by (simp add: server_ok_def)
    then show "sendable_group g" using g ok canon_length daemon_names
      by (auto simp: sendable_group_def sendable_daemon_def group_ok_def leader_ok_def)
  qed
  from all_bufs [OF this sl, of "[]"] obtain es ess where
    b: "build_bufs t ([], []) True [] = Some (rev (first_buf t es # map (later_buf t) ess))"
      "flat (es @ concat ess) = flat (map (\<lambda>g. (g, g_daemons g)) (GroupsList t))"
      "good_entries t es" "length (first_buf t es) \<le> body_limit"
      "\<forall>es \<in> set ess. good_entries t es \<and> length (later_buf t es) \<le> body_limit" by auto
  let ?k = "(True, es) # map (Pair False) ess"
  let ?t' = "t\<lparr>Groups_bufs := rev (map (buf_of t) ?k)\<rparr>"
  have bm: "map (buf_of t) ?k = first_buf t es # map (later_buf t) ess" by (simp add: buf_of_def)
  have len: "\<forall>k \<in> set (rev ?k). length (buf_of t k) \<le> body_limit" using b(4,5) by (auto simp: buf_of_def)
  have t': "G_build_new_groups_bufs t = Some ?t'" using b(1) e bm by (simp add: G_build_new_groups_bufs_def)
  from buffers_carried [OF name len, of ?t'] obtain ms where
    ms: "those (map (groups_message ?t') (mark_last (Groups_bufs ?t'))) = Some ms" "list_all2 (carries t) ms (rev ?k)"
    by (auto simp: rev_map)
  have "groups_messages_of t = Some ms" using ms(1) by (simp add: groups_messages_of_def t')
  moreover have "mset (flat (all_entries (rev ?k))) = mset (flat (map (\<lambda>g. (g, g_daemons g)) (GroupsList t)))"
  proof -
    have "mset (all_entries (rev ?k)) = mset (all_entries ?k)" unfolding all_entries_def by (rule mset_concat_map) simp
    then have "mset (flat (all_entries (rev ?k))) = mset (flat (all_entries ?k))" unfolding flat_def by (rule mset_concat_map)
    moreover have "all_entries ?k = es @ concat ess" by (simp add: all_entries_def comp_def)
    ultimately show ?thesis by (simp only: b(2))
  qed
  moreover have "g \<in> set (GroupsList t) \<and> length xs < 2 ^ 16" if gx: "(g, xs) \<in> set (all_entries (rev ?k))" for g xs
  proof -
    obtain fs where fs: "(g, xs) \<in> set fs" "good_entries t fs" "length (entries_bytes fs) \<le> body_limit"
      using gx b(3-5) by (auto simp: all_entries_def first_buf_def later_buf_def)
    then have "14 * length xs \<le> body_limit" using entries_length [OF fs(1)] by simp
    then show ?thesis using fs by (auto simp: good_entries_def buf_sizes)
  qed
  ultimately show ?thesis using ms(2) len by (intro exI [of _ ms] exI [of _ "rev ?k"]) auto
qed

section \<open>Synced sets\<close>

definition is_proc :: "server \<Rightarrow> int32u \<Rightarrow> bool" where
  "is_proc s p \<longleftrightarrow> (\<exists>i. conf_pos (dmn s) p = int i \<and> p_id (Config_procs (dmn s) i) = p)"

definition set_ok :: "server \<Rightarrow> int32u list \<Rightarrow> bool" where
  "set_ok s ps \<longleftrightarrow> sorted_wrt (\<lambda>p q. conf_pos (dmn s) p < conf_pos (dmn s) q) ps \<and> (\<forall>p \<in> set ps. is_proc s p)"

text \<open>A synced daemon is in its set, and its groups hold members of daemons of the set only.\<close>

definition synced :: "server \<Rightarrow> bool" where
  "synced s \<longleftrightarrow> set_ok s (MySyncedSet s) \<and> My_id s \<in> set (MySyncedSet s) \<and>
     (\<forall>(k, p, ms) \<in> rosters s. p \<in> set (MySyncedSet s))"

lemma is_proc_inj: "is_proc s p \<Longrightarrow> is_proc s q \<Longrightarrow> conf_pos (dmn s) p = conf_pos (dmn s) q \<Longrightarrow> p = q"
  by (auto simp: is_proc_def)

lemma is_proc_pos: "is_proc s p \<Longrightarrow> conf_pos (dmn s) p \<noteq> - 1"
  by (auto simp: is_proc_def)

lemma set_ok_unique:
  assumes "set_ok s ps" and "set_ok s qs" and "set ps = set qs"
  shows "ps = qs"
  using assms
proof (induction ps arbitrary: qs)
  case (Cons p ps)
  then obtain q qs' where q: "qs = q # qs'" by (cases qs) auto
  have "p = q"
  proof (rule ccontr)
    assume "p \<noteq> q"
    then have "p \<in> set qs'" "q \<in> set ps" using Cons.prems(3) q by auto
    then have "conf_pos (dmn s) q < conf_pos (dmn s) p" "conf_pos (dmn s) p < conf_pos (dmn s) q"
      using Cons.prems(1,2) q by (auto simp: set_ok_def)
    then show False by simp
  qed
  moreover have "p \<notin> set ps" "q \<notin> set qs'" using Cons.prems(1,2) q by (auto simp: set_ok_def)
  then have "set ps = set qs'" using Cons.prems(3) q \<open>p = q\<close> by auto
  ultimately show ?case using Cons.IH [of qs'] Cons.prems(1,2) q by (simp add: set_ok_def)
qed simp

lemma merge_synced_one: "\<forall>p \<in> set ps. is_proc s p \<Longrightarrow> merge_synced (dmn s) ps [] = Some ps \<and> merge_synced (dmn s) [] ps = Some ps"
  by (induction ps) (auto dest: is_proc_pos)

lemma merge_synced_spec:
  assumes "set_ok s ls" and "set_ok s rs" and "set ls \<inter> set rs = {}"
  shows "\<exists>zs. merge_synced (dmn s) ls rs = Some zs \<and> set zs = set ls \<union> set rs \<and> length zs = length ls + length rs \<and> set_ok s zs"
  using assms
proof (induction ls arbitrary: rs)
  case Nil
  then show ?case using merge_synced_one [of rs s] by (auto simp: set_ok_def)
next
  case (Cons l ls)
  note outer = Cons.IH
  show ?case using Cons.prems
  proof (induction rs)
    case Nil
    then show ?case using merge_synced_one [of "l # ls" s] by (auto simp: set_ok_def)
  next
    case (Cons r rs)
    have pr: "is_proc s l" "is_proc s r" "set_ok s ls" "set_ok s rs" "l \<noteq> r" using Cons.prems by (auto simp: set_ok_def)
    note p = is_proc_pos [OF pr(1)] is_proc_pos [OF pr(2)]
    from is_proc_inj [OF pr(1,2)] pr(5)
    consider (lt) "conf_pos (dmn s) l < conf_pos (dmn s) r" | (gt) "conf_pos (dmn s) r < conf_pos (dmn s) l" by force
    then show ?case
    proof cases
      case lt
      have "set ls \<inter> set (r # rs) = {}" using Cons.prems(3) by auto
      from outer [OF pr(3) Cons.prems(2) this] obtain zs where z: "merge_synced (dmn s) ls (r # rs) = Some zs"
        "set zs = set ls \<union> set (r # rs)" "length zs = length ls + length (r # rs)" "set_ok s zs" by blast
      then show ?thesis using lt pr p Cons.prems(1,2) by (intro exI [of _ "l # zs"]) (auto simp: set_ok_def)
    next
      case gt
      have "set (l # ls) \<inter> set rs = {}" using Cons.prems(3) by auto
      from Cons.IH [OF Cons.prems(1) pr(4) this] obtain zs where z: "merge_synced (dmn s) (l # ls) rs = Some zs"
        "set zs = set (l # ls) \<union> set rs" "length zs = length (l # ls) + length rs" "set_ok s zs" by blast
      then show ?thesis using gt pr p Cons.prems(1,2) by (intro exI [of _ "r # zs"]) (auto simp: set_ok_def)
    qed
  qed
qed

section \<open>Taking in the messages of a leader\<close>

definition same_conf :: "server \<Rightarrow> server \<Rightarrow> bool" where
  "same_conf s t \<longleftrightarrow> Config (dmn t) = Config (dmn s) \<and> Config_procs (dmn t) = Config_procs (dmn s)"

lemma same_conf_facts:
  assumes "same_conf s t"
  shows "conf_pos (dmn t) = conf_pos (dmn s)" "home t = home s" "daemon_ok t d = daemon_ok s d" "is_proc t p = is_proc s p"
    "set_ok t ps = set_ok s ps"
proof -
  have c: "Config (dmn t) = Config (dmn s)" "Config_procs (dmn t) = Config_procs (dmn s)" using assms by (simp_all add: same_conf_def)
  then show p: "conf_pos (dmn t) = conf_pos (dmn s)" by (intro ext) (simp add: conf_pos_def Conf_proc_by_id_def)
  have "proc_named pn t = proc_named pn s" for pn using c by (simp add: proc_named_def Conf_proc_by_name_def)
  then show h: "home t = home s" by (intro ext) (simp add: home_def split: option.split)
  show "daemon_ok t d = daemon_ok s d" by (simp add: daemon_ok_def p h)
  show i: "is_proc t p = is_proc s p" for p using c by (simp add: is_proc_def p)
  show "set_ok t ps = set_ok s ps" by (simp add: set_ok_def p i)
qed

lemma flat_groups: "set (flat (map (\<lambda>g. (g, g_daemons g)) gs)) = {(g, d). g \<in> set gs \<and> d \<in> set (g_daemons g)}"
  by (induction gs) auto

lemma rosters_flat: "rosters t = roster ` set (flat (map (\<lambda>g. (g, g_daemons g)) (GroupsList t)))"
  by (force simp: flat_groups rosters_def group_roster_def image_iff)

lemma keys_distinct:
  assumes "server_ok t"
  shows "distinct (map roster_key (flat (map (\<lambda>g. (g, g_daemons g)) (GroupsList t))))"
proof -
  have "distinct (map (\<lambda>g. cstr (g_name g)) (GroupsList t))"
    using assms group_index.distinct_keys [of "GroupsList t"] by (simp add: server_ok_def groups_in_order_def)
  moreover have "\<forall>g \<in> set (GroupsList t). distinct (map dm_proc (g_daemons g))"
    using assms daemons_distinct(2) by (auto simp: server_ok_def group_ok_def)
  moreover have "distinct (map roster_key (flat (map (\<lambda>g. (g, g_daemons g)) gs)))"
    if "distinct (map (\<lambda>g. cstr (g_name g)) gs)" "\<forall>g \<in> set gs. distinct (map dm_proc (g_daemons g))" for gs
    using that
  proof (induction gs)
    case (Cons g gs)
    have "map roster_key (map (Pair g) (g_daemons g)) = map (Pair (cstr (g_name g))) (map dm_proc (g_daemons g))"
      by (simp add: roster_key_def)
    then have "distinct (map roster_key (map (Pair g) (g_daemons g)))"
      using Cons.prems(2) by (simp only: distinct_map [of "Pair _"]) (simp add: inj_on_def)
    moreover have "roster_key (h, e) \<noteq> roster_key (g, d)" if "h \<in> set gs" for h d e
      using imageI [OF that, of "\<lambda>g. cstr (g_name g)"] Cons.prems(1) by (auto simp: roster_key_def)
    ultimately show ?case using Cons by (auto simp: flat_groups)
  qed simp
  ultimately show ?thesis by blast
qed

definition peers :: "server \<Rightarrow> server \<Rightarrow> bool" where
  "peers s t \<longleftrightarrow> leader_ok t \<and> synced t \<and> same_conf s t \<and> set (MySyncedSet s) \<inter> set (MySyncedSet t) = {} \<and>
     length (MySyncedSet s) + length (MySyncedSet t) \<le> MAX_PROCS_RING"

definition link_of :: "server \<Rightarrow> groups_link \<Rightarrow> bool" where
  "link_of t l \<longleftrightarrow> (\<exists>ms. groups_messages_of t = Some ms \<and> mset (gl_messages l) = mset ms)"

lemma leader_entries:
  assumes ok: "server_ok s" "synced s" and pt: "peers s t" and l: "link_of t l"
  shows "\<exists>ks. list_all2 (carries t) (gl_messages l) ks \<and> (\<forall>k \<in> set ks. length (buf_of t k) \<le> body_limit) \<and> True \<in> fst ` set ks \<and>
    (\<forall>x \<in> set (all_entries ks). entry_ok s x) \<and> distinct (map roster_key (flat (all_entries ks))) \<and>
    set (map roster_key (flat (all_entries ks))) \<inter> roster_keys (rosters s) = {} \<and>
    brought (all_entries ks) = rosters t \<and> entry_names (all_entries ks) \<subseteq> group_names t"
proof -
  have t: "leader_ok t" "synced t" "same_conf s t" "set (MySyncedSet s) \<inter> set (MySyncedSet t) = {}" "server_ok t"
    using pt by (simp_all add: peers_def leader_ok_def)
  from leader_messages [OF t(1)] obtain ms ks0 where k0: "groups_messages_of t = Some ms" "list_all2 (carries t) ms ks0"
    "\<forall>k \<in> set ks0. length (buf_of t k) \<le> body_limit" "True \<in> fst ` set ks0"
    "mset (flat (all_entries ks0)) = mset (flat (map (\<lambda>g. (g, g_daemons g)) (GroupsList t)))"
    "\<forall>(g, xs) \<in> set (all_entries ks0). g \<in> set (GroupsList t) \<and> length xs < 2 ^ 16" by blast
  obtain ks where ks: "list_all2 (carries t) (gl_messages l) ks" "mset ks = mset ks0"
    using list_all2_reorder_left_invariance [OF k0(2), of "gl_messages l"] l k0(1) by (auto simp: link_of_def)
  have ae: "mset (all_entries ks) = mset (all_entries ks0)" unfolding all_entries_def by (rule mset_concat_map [OF ks(2)])
  have fl: "mset (flat (all_entries ks)) = mset (flat (map (\<lambda>g. (g, g_daemons g)) (GroupsList t)))"
    using mset_concat_map [OF ae, of "\<lambda>(g, xs). map (Pair g) xs"] k0(5) by (simp add: flat_def)
  have sets: "set ks = set ks0" "set (all_entries ks) = set (all_entries ks0)"
    "set (flat (all_entries ks)) = set (flat (map (\<lambda>g. (g, g_daemons g)) (GroupsList t)))"
    using ks(2) ae fl by (metis set_mset_mset)+
  have dist: "distinct (map roster_key (flat (all_entries ks)))"
    using keys_distinct [OF t(5)] fl by (metis mset_eq_imp_distinct_iff mset_map)
  have procs: "dm_proc d \<in> set (MySyncedSet t)" if "g \<in> set (GroupsList t)" "d \<in> set (g_daemons g)" for g d
    using t(2) that by (fastforce simp: synced_def rosters_def group_roster_def roster_def)
  have mine: "My_id s \<in> set (MySyncedSet s)" using ok(2) by (simp add: synced_def)
  have "entry_ok s (g, xs)" if x: "(g, xs) \<in> set (all_entries ks)" for g xs
  proof -
    have g: "g \<in> set (GroupsList t)" "length xs < 2 ^ 16" using x k0(6) sets(2) by auto
    have "d \<in> set (g_daemons g)" if "d \<in> set xs" for d
    proof -
      have "(g, d) \<in> set (flat (all_entries ks))" using x that by (force simp: flat_def)
      then show ?thesis by (simp add: sets(3) flat_groups)
    qed
    moreover have "length (dm_members d) < 2 ^ 16" "dm_proc d \<noteq> My_id s" "daemon_ok s d" if d: "d \<in> set (g_daemons g)" for d
    proof -
      have "length (dm_members d) \<le> max_local" using t(1) g(1) d by (simp add: leader_ok_def)
      then show "length (dm_members d) < 2 ^ 16" by (simp add: max_local_def)
      show "dm_proc d \<noteq> My_id s" using procs [OF g(1) d] mine t(4) by auto
      show "daemon_ok s d" using t(5) g(1) d same_conf_facts(3) [OF t(3)] by (auto simp: server_ok_def group_ok_def)
    qed
    moreover have "canon (g_name g)" "wf_gid (g_gid g)" using t(1,5) g(1) by (auto simp: server_ok_def group_ok_def leader_ok_def)
    ultimately show ?thesis using g(2) by (auto simp: entry_ok_def)
  qed
  moreover have "set (map roster_key (flat (all_entries ks))) \<inter> roster_keys (rosters s) = {}"
  proof -
    have "snd y \<in> set (MySyncedSet t)" if "y \<in> set (map roster_key (flat (all_entries ks)))" for y
      using that procs by (auto simp: sets(3) flat_groups roster_key_def)
    moreover have "snd y \<in> set (MySyncedSet s)" if "y \<in> roster_keys (rosters s)" for y
      using that ok(2) by (auto simp: roster_keys_def synced_def)
    ultimately show ?thesis using t(4) by blast
  qed
  moreover have "brought (all_entries ks) = rosters t" by (simp add: brought_def sets(3) rosters_flat)
  moreover have "entry_names (all_entries ks) \<subseteq> group_names t"
    using k0(6) by (auto simp: entry_names_def sets(2) group_names_def)
  ultimately show ?thesis using ks(1) k0(3,4) sets(1) dist by (intro exI [of _ ks]) auto
qed

lemma take_in_spec:
  assumes ok: "server_ok s" "synced s" and pt: "peers s t" and l: "link_of t l"
  shows "\<exists>s'. take_in l (sset, s) = Some (Some (MySyncedSet t), s') \<and> server_ok s' \<and> synced s' \<and> groups_step s s' \<and>
    same_membs s s' \<and> rosters s' = rosters s \<union> rosters t \<and> set (MySyncedSet s') = set (MySyncedSet s) \<union> set (MySyncedSet t) \<and>
    length (MySyncedSet s') = length (MySyncedSet s) + length (MySyncedSet t)"
proof -
  have t: "leader_ok t" "synced t" "same_conf s t" "set (MySyncedSet s) \<inter> set (MySyncedSet t) = {}" "server_ok t"
    "length (MySyncedSet s) + length (MySyncedSet t) \<le> MAX_PROCS_RING" "length (MySyncedSet t) \<le> MAX_PROCS_RING"
    using pt by (simp_all add: peers_def leader_ok_def)
  from leader_entries [OF assms] obtain ks where ks: "list_all2 (carries t) (gl_messages l) ks"
    "\<forall>k \<in> set ks. length (buf_of t k) \<le> body_limit" "True \<in> fst ` set ks" "\<forall>x \<in> set (all_entries ks). entry_ok s x"
    "distinct (map roster_key (flat (all_entries ks)))" "set (map roster_key (flat (all_entries ks))) \<inter> roster_keys (rosters s) = {}"
    "brought (all_entries ks) = rosters t" "entry_names (all_entries ks) \<subseteq> group_names t" by blast
  obtain s1 where s1: "forM (gl_messages l) G_mess_to_groups (sset, s) = Some (Some (MySyncedSet t), s1)" "merging s1" "groups_step s s1"
    "rosters s1 = rosters s \<union> rosters t" "group_names s1 = group_names s \<union> entry_names (all_entries ks)" "same_rest s s1"
    using mess_list_spec [OF ks(1,2) t(7) server_merging [OF ok(1)] ks(4-6), of sset] ks(3,7) by auto
  note same = groups_step_same [OF s1(3)]
  have set1: "MySyncedSet s1 = MySyncedSet s" using s1(6) by (simp add: same_rest_def)
  have c1: "same_conf s s1" using s1(3) by (simp add: same_conf_def groups_step_def)
  have sets: "set_ok s1 (MySyncedSet s1)" "set_ok s1 (MySyncedSet t)"
    using ok(2) t(2,3) same_conf_facts(5) [OF t(3)] same_conf_facts(5) [OF c1] by (simp_all add: synced_def set1)
  obtain zs where z: "merge_synced (dmn s1) (MySyncedSet s1) (MySyncedSet t) = Some zs"
    "set zs = set (MySyncedSet s1) \<union> set (MySyncedSet t)" "length zs = length (MySyncedSet s1) + length (MySyncedSet t)" "set_ok s1 zs"
    using merge_synced_spec [OF sets] t(4) by (auto simp: set1)
  let ?s = "s1\<lparr>MySyncedSet := zs\<rparr>"
  have st: "groups_step s ?s" using s1(3) by (simp add: groups_step_def sess_table.defs)
  have st1: "groups_step s1 ?s" by (simp add: groups_step_def sess_table.defs)
  have r: "rosters ?s = rosters s \<union> rosters t" "GroupsList ?s = GroupsList s1" using s1(4) by (simp_all add: rosters_def)
  have "g_daemons g \<noteq> []" if g: "g \<in> set (GroupsList s1)" for g
  proof -
    have ord: "groups_in_order (GroupsList s1)" using s1(2) by (simp add: merging_def)
    have "cstr (g_name g) \<in> group_names s1" using g by (simp add: group_names_def)
    then have "\<exists>u. (u = s \<or> u = t) \<and> cstr (g_name g) \<in> group_names u" using ks(8) unfolding s1(5) by blast
    then obtain u where u: "u = s \<or> u = t" "cstr (g_name g) \<in> group_names u" by blast
    then have "\<exists>h \<in> set (GroupsList u). cstr (g_name g) = cstr (g_name h)" by (simp add: group_names_def image_iff)
    then obtain h where h: "h \<in> set (GroupsList u)" "cstr (g_name h) = cstr (g_name g)"
      by (elim bexE) (rule that, assumption, erule sym)
    then have "g_daemons h \<noteq> []" using ok(1) t(5) u(1) by (auto simp: server_ok_def group_ok_def)
    then obtain d where "d \<in> set (g_daemons h)" by (cases "g_daemons h") auto
    then have "roster (h, d) \<in> rosters s1" using h(1) u(1) unfolding s1(4) by (auto simp: rosters_def group_roster_def)
    moreover have "fst (roster (h, d)) = cstr (g_name g)" using h(2) by (simp add: roster_def)
    ultimately have "roster (h, d) \<in> group_roster g" using rosters_of_group [OF ord g] by blast
    then show ?thesis by (auto simp: group_roster_def)
  qed
  then have "server_ok s1" by (intro merging_done [OF s1(2)]) blast
  then have "server_ok ?s" using groups_step_same(2,3,10) [OF st1] by (simp add: server_ok_def)
  moreover have "synced ?s"
  proof -
    have "set_ok ?s zs = set_ok s1 zs" by (simp add: set_ok_def is_proc_def)
    moreover have "My_id ?s = My_id s" using groups_step_same(4) [OF st] .
    ultimately show ?thesis using ok(2) t(2) z(2,4) r(1) unfolding synced_def by (auto simp: set1)
  qed
  moreover have "take_in l (sset, s) = Some (Some (MySyncedSet t), ?s)"
    using s1(1) z t(6) by (simp add: take_in_def G_add_to_synced_set_def set1)
  moreover have "same_membs s ?s" using s1(6) by (simp add: same_rest_def same_membs_def)
  ultimately show ?thesis using st r(1) z(2,3) by (intro exI [of _ ?s]) (simp add: set1)
qed

end
