(* ===== verification/Group_walks.thy ===== *)
theory Group_walks
  imports Group_senders
begin

text \<open>
  Walks over all groups: a step that replaces or erases the group it is at, and sends its members at
  most some messages, makes the list of the groups the image of the old one.
\<close>

section \<open>What a step leaves alone\<close>

definition aside :: "server \<Rightarrow> server \<Rightarrow> bool" where
  "aside s s' \<longleftrightarrow> same_rest s s' \<and> same_conf s s' \<and> Gathered s' = Gathered s \<and> Groups_bufs s' = Groups_bufs s \<and>
     Sess_My s' = Sess_My s"

lemma aside_refl [simp]: "aside s s"
  by (simp add: aside_def same_conf_def)

lemma aside_trans: "aside s t \<Longrightarrow> aside t u \<Longrightarrow> aside s u"
  using same_rest_trans by (auto simp: aside_def same_conf_def)

lemma aside_ops [simp]: "aside s (put_group g s)" "aside s (count_groups k s)" "aside s (erase_group nm s)"
  unfolding aside_def
  by (intro conjI same_rest_ops;
      simp add: same_conf_def put_group_def count_groups_def erase_group_def upd_dmn_def upd_status_def)+

lemma quiet_aside: "quiet s s' \<Longrightarrow> aside s s'" for s :: server
  using quiet_server [of s s'] by (simp add: aside_def same_rest_def same_membs_def same_conf_def quiet_def)

section \<open>Walks\<close>

text \<open>\<open>turn h gs\<close>: what \<open>h\<close> makes of the groups, in order.\<close>

definition turn :: "(group \<Rightarrow> group option) \<Rightarrow> group list \<Rightarrow> group set" where
  "turn h gs = {g'. \<exists>g \<in> set gs. h g = Some g'}"

lemma walked_set:
  assumes "k \<notin> N" and "\<forall>x \<in> Z. nm x = k"
  shows "{x \<in> {x \<in> S. nm x \<noteq> k} \<union> Z. nm x \<notin> N} \<union> T = {x \<in> S. nm x \<notin> insert k N} \<union> (Z \<union> T)"
  using assms by auto

lemma turn_options: "turn h gs = (\<Union>g \<in> set gs. set_option (h g))"
  by (auto simp: turn_def)

lemma turn_rosters:
  assumes "set (GroupsList s') = turn (\<lambda>g. Some (h g)) (GroupsList s)" and "\<And>g. group_roster (h g) = group_roster g"
  shows "rosters s' = rosters s"
  unfolding rosters_def assms(1) using assms(2) by (auto simp: turn_def)

locale group_walk =
  fixes f :: "group \<Rightarrow> server \<Rightarrow> server option" and h :: "group \<Rightarrow> group option" and n :: nat
    and I :: "server \<Rightarrow> bool" and P :: "group \<Rightarrow> bool"
  assumes same_name: "h g = Some g' \<Longrightarrow> g_name g' = g_name g"
    and same_boxes: "h g = Some g' \<Longrightarrow> set (g_mboxes g') \<subseteq> set (g_mboxes g)"
    and keeps: "I s \<Longrightarrow> kept m s s' \<Longrightarrow> aside s s' \<Longrightarrow> I s'"
    and step: "server_ok s \<Longrightarrow> I s \<Longrightarrow> g \<in> set (GroupsList s) \<Longrightarrow> P g \<Longrightarrow>
      readers n s g \<Longrightarrow> \<exists>s'. f g s = Some s' \<and> kept n s s' \<and> aside s s' \<and>
        set (GroupsList s') = {x \<in> set (GroupsList s). cstr (g_name x) \<noteq> cstr (g_name g)} \<union> set_option (h g)"
begin

lemma steps:
  assumes "server_ok s" and "I s" and "readers_ok (n * length gs + k) s"
    and "distinct (map (\<lambda>g. cstr (g_name g)) gs)" and "set gs \<subseteq> set (GroupsList s)"
    and "\<forall>g \<in> set gs. P g"
  shows "\<exists>s'. forM (map g_name gs) (\<lambda>nm s. case G_get_group nm s of None \<Rightarrow> None | Some g \<Rightarrow> f g s) s = Some s' \<and>
    kept (n * length gs) s s' \<and> aside s s' \<and> readers_ok k s' \<and>
    set (GroupsList s') = {x \<in> set (GroupsList s). cstr (g_name x) \<notin> (\<lambda>g. cstr (g_name g)) ` set gs} \<union> turn h gs"
  using assms
proof (induction gs arbitrary: s)
  case Nil
  then show ?case using kept_refl by (simp add: turn_def)
next
  case (Cons g gs)
  have ord: "groups_in_order (GroupsList s)" using Cons.prems(1) by (simp add: server_ok_def)
  have g: "g \<in> set (GroupsList s)" "P g" using Cons.prems(5,6) by auto
  have get: "G_get_group (g_name g) s = Some g" using get_group_iff [OF ord] g(1) by simp
  have r: "readers_ok (n + (n * length gs + k)) s" using Cons.prems(3) by (simp add: add.assoc)
  have "readers n s g" using readers_of [OF r g(1)] reader_ok_mono [of "n + (n * length gs + k)" s _ n] by (auto simp: readers_def)
  from step [OF Cons.prems(1,2) g this] obtain s1 where s1: "f g s = Some s1" "kept n s s1" "aside s s1"
    "set (GroupsList s1) = {x \<in> set (GroupsList s). cstr (g_name x) \<noteq> cstr (g_name g)} \<union> set_option (h g)" by blast
  have boxes: "\<Union>(set ` g_mboxes ` set (GroupsList s1)) \<subseteq> \<Union>(set ` g_mboxes ` set (GroupsList s))"
    using s1(4) same_boxes [of g] g(1) by (cases "h g") force+
  have r1: "readers_ok (n * length gs + k) s1" by (rule kept_readers [OF s1(2) r boxes])
  have sub: "set gs \<subseteq> set (GroupsList s1)"
  proof
    fix x assume x: "x \<in> set gs"
    have "cstr (g_name x) \<noteq> cstr (g_name g)"
    proof
      assume e: "cstr (g_name x) = cstr (g_name g)"
      have "cstr (g_name g) \<in> (\<lambda>g. cstr (g_name g)) ` set gs" unfolding e [symmetric] using x by (rule imageI)
      then show False using Cons.prems(4) by simp
    qed
    then show "x \<in> set (GroupsList s1)" using s1(4) x Cons.prems(5) by auto
  qed
  have ok1: "server_ok s1" using s1(2) by (simp add: kept_def)
  from Cons.IH [OF ok1 keeps [OF Cons.prems(2) s1(2,3)] r1 _ sub] Cons.prems(4,6) obtain s' where
    s': "forM (map g_name gs) (\<lambda>nm s. case G_get_group nm s of None \<Rightarrow> None | Some g \<Rightarrow> f g s) s1 = Some s'"
    "kept (n * length gs) s1 s'" "aside s1 s'" "readers_ok k s'"
    "set (GroupsList s') = {x \<in> set (GroupsList s1). cstr (g_name x) \<notin> (\<lambda>g. cstr (g_name g)) ` set gs} \<union> turn h gs" by auto
  define N where "N = (\<lambda>g. cstr (g_name g)) ` set gs"
  have new: "cstr (g_name g) \<notin> N" and N1: "(\<lambda>g. cstr (g_name g)) ` set (g # gs) = insert (cstr (g_name g)) N"
    using Cons.prems(4) by (simp_all add: N_def)
  have own: "\<forall>x \<in> set_option (h g). cstr (g_name x) = cstr (g_name g)" using same_name [of g] by (cases "h g") auto
  have turn_Cons: "turn h (g # gs) = set_option (h g) \<union> turn h gs" by (auto simp: turn_def)
  have "set (GroupsList s') = {x \<in> set (GroupsList s). cstr (g_name x) \<notin> (\<lambda>g. cstr (g_name g)) ` set (g # gs)} \<union> turn h (g # gs)"
    unfolding s'(5) s1(4) N1 turn_Cons N_def [symmetric] by (rule walked_set [OF new own])
  then show ?case using get s1(1) s'(1,4) kept_trans [OF s1(2) s'(2)] aside_trans [OF s1(3) s'(3)]
    by (intro exI [of _ s']) simp
qed

lemma walk:
  assumes "server_ok s" and "I s" and "readers_ok (n * length (GroupsList s) + k) s"
    and "\<forall>g \<in> set (GroupsList s). P g"
  shows "\<exists>s'. walk_groups f s = Some s' \<and> kept (n * length (GroupsList s)) s s' \<and> aside s s' \<and> readers_ok k s' \<and>
    set (GroupsList s') = turn h (GroupsList s)"
proof -
  have "distinct (map (\<lambda>g. cstr (g_name g)) (GroupsList s))"
    using assms(1) group_index.distinct_keys [of "GroupsList s"] by (simp add: server_ok_def groups_in_order_def)
  from steps [OF assms(1-3) this _ assms(4)] show ?thesis by (auto simp: walk_groups_def)
qed

end

section \<open>Marking groups\<close>

text \<open>A change of the ids of a group and its daemons and of its flag.\<close>

definition relabel :: "group_id \<Rightarrow> bool \<Rightarrow> (daemon_members \<Rightarrow> membership_id) \<Rightarrow> group \<Rightarrow> group" where
  "relabel i c m g = g\<lparr>g_gid := i, g_changed := c, g_daemons := map (\<lambda>d. d\<lparr>dm_memb := m d\<rparr>) (g_daemons g)\<rparr>"

lemma relabel_fields [simp]:
  "g_name (relabel i c m g) = g_name g" "g_mboxes (relabel i c m g) = g_mboxes g" "g_num_members (relabel i c m g) = g_num_members g"
  "g_gid (relabel i c m g) = i" "g_changed (relabel i c m g) = c" "group_members (relabel i c m g) = group_members g"
  "group_roster (relabel i c m g) = group_roster g"
  by (simp_all add: relabel_def group_members_def group_roster_def roster_def image_image comp_def)

lemma in_order_map: "in_order cmp key (map f xs) = in_order cmp (\<lambda>x. key (f x)) xs"
  by (simp add: in_order_def sorted_wrt_map)

lemma relabel_ok: "group_ok s (relabel i c m g) = group_ok s g"
proof -
  have "locals my (map (\<lambda>d. d\<lparr>dm_memb := m d\<rparr>) ds) = locals my ds" for my ds
    by (induction ds) (simp_all add: locals_def)
  moreover have "daemon_ok s (d\<lparr>dm_memb := m d\<rparr>) = daemon_ok s d" for d by (simp add: daemon_ok_def)
  moreover have "group_members (g\<lparr>g_gid := i, g_changed := c, g_daemons := map (\<lambda>d. d\<lparr>dm_memb := m d\<rparr>) (g_daemons g)\<rparr>) = group_members g"
    using relabel_fields(6) [of i c m g] by (simp add: relabel_def)
  ultimately show ?thesis by (simp add: relabel_def group_ok_def daemons_in_order_def in_order_map)
qed

lemma update_ids_relabel: "G_update_daemon_memb_ids g =
    relabel (g_gid g) (g_changed g) (\<lambda>d. if Is_partitioned_daemon d then dm_memb d else gid_memb (g_gid g)) g"
  by (cases g) (auto simp: G_update_daemon_memb_ids_def relabel_def)

lemma relabel_relabel: "relabel i c m (relabel i' c' m' g) = relabel i c (\<lambda>d. m (d\<lparr>dm_memb := m' d\<rparr>)) g"
  by (cases g) (simp add: relabel_def comp_def)

text \<open>Storing a relabelled group after something was sent.\<close>

lemma stored:
  assumes sok: "server_ok s" and g: "g \<in> set (GroupsList s)" and s1: "sent_to n out s s1"
  shows "kept n s (put_group (relabel i c m g) s1)" "aside s (put_group (relabel i c m g) s1)"
    "set (GroupsList (put_group (relabel i c m g) s1)) =
       {x \<in> set (GroupsList s). cstr (g_name x) \<noteq> cstr (g_name g)} \<union> {relabel i c m g}"
proof -
  note q = sent_quiet [OF s1]
  have ok1: "server_ok s1" by (rule sent_server_ok [OF s1 sok])
  have gl: "GroupsList s1 = GroupsList s" by (rule quiet_server(1) [OF q])
  have ord: "groups_in_order (GroupsList s1)" using ok1 by (simp add: server_ok_def)
  have "group_ok s1 (relabel i c m g)" using g ok1 by (simp add: relabel_ok server_ok_def gl)
  then have "server_ok (put_group (relabel i c m g) s1)" by (intro put_server_ok [OF ok1 _ ord]) auto
  then have "kept 0 s1 (put_group (relabel i c m g) s1)" by (intro step_kept) simp_all
  then show "kept n s (put_group (relabel i c m g) s1)" using kept_trans [OF sent_kept [OF s1 sok]] by fastforce
  show "aside s (put_group (relabel i c m g) s1)" using aside_trans [OF quiet_aside [OF q]] by simp
  show "set (GroupsList (put_group (relabel i c m g) s1)) =
       {x \<in> set (GroupsList s). cstr (g_name x) \<noteq> cstr (g_name g)} \<union> {relabel i c m g}"
    using put_group_spec(2) [OF ord, of "relabel i c m g"] by (auto simp: gl)
qed

lemma heavyweight_sends:
  assumes sok: "server_ok s" and g: "group_ok s g" and max: "length (group_members g) \<le> max_members" and r: "readers (2 + k) s g"
  shows "\<exists>s' out. G_send_heavyweight_memb g s = Some s' \<and> sent_to 2 out s s'"
proof -
  have "distinct (map (\<lambda>d. conf_pos (dmn s) (dm_proc d)) (g_daemons g))"
    using g daemons_distinct(1) by (simp add: group_ok_def)
  moreover have "\<forall>b \<in> set (g_mboxes g). reader_ok (Suc (Suc k)) s b" using r by (simp add: readers_def)
  ultimately show ?thesis unfolding G_send_heavyweight_memb_def
    using heavy_sends [where j = None and nb = "- 1", OF group_fits [OF g max] group_known [OF g] _ _ group_mboxes [OF sok g]] by simp
qed

lemma walked_same:
  assumes "server_ok s" and "g \<in> set (GroupsList s)"
  shows "set (GroupsList s) = {x \<in> set (GroupsList s). cstr (g_name x) \<noteq> cstr (g_name g)} \<union> {g}"
proof -
  have ord: "groups_in_order (GroupsList s)" using assms(1) by (simp add: server_ok_def)
  have "x = g" if "x \<in> set (GroupsList s)" "cstr (g_name x) = cstr (g_name g)" for x
    using get_group_iff [OF ord, of "g_name g" x] get_group_iff [OF ord, of "g_name g" g] that assms(2) by simp
  then show ?thesis using assms(2) by blast
qed

section \<open>After the exchange\<close>

definition notified :: "membership_id \<Rightarrow> group \<Rightarrow> group" where
  "notified rid g = (if g_changed g then relabel \<lparr>gid_memb = rid, gid_index = 1\<rparr> False
     (\<lambda>d. if Is_partitioned_daemon d then dm_memb d else rid) g else g)"

lemma notified_unchanged: "\<not> g_changed (notified rid g)"
  by (cases "g_changed g") (simp_all add: notified_def)

lemma with_reg_id_relabel: "with_reg_id s g = relabel \<lparr>gid_memb = G_Reg_memb_id s, gid_index = 1\<rparr> False dm_memb g"
  by (cases g) (simp add: with_reg_id_def relabel_def)

lemma with_reg_id_updated: "G_update_daemon_memb_ids (with_reg_id s g) = relabel \<lparr>gid_memb = G_Reg_memb_id s, gid_index = 1\<rparr> False
     (\<lambda>d. if Is_partitioned_daemon d then dm_memb d else G_Reg_memb_id s) g"
  by (simp add: update_ids_relabel with_reg_id_relabel relabel_relabel cong: if_cong)

definition small :: "group \<Rightarrow> bool" where
  "small g \<longleftrightarrow> length (group_members g) \<le> max_members"

lemma notify_step:
  assumes sok: "server_ok s" and g: "g \<in> set (GroupsList s)" "small g" and r: "readers 2 s g" and rid: "G_Reg_memb_id s = rid"
  shows "\<exists>s'. notify_group g s = Some s' \<and> kept 2 s s' \<and> aside s s' \<and>
    set (GroupsList s') = {x \<in> set (GroupsList s). cstr (g_name x) \<noteq> cstr (g_name g)} \<union> set_option (Some (notified rid g))"
proof (cases "g_changed g")
  case False
  then show ?thesis using kept_refl [OF sok] walked_same [OF sok g(1)] by (simp add: notify_group_def notified_def)
next
  case True
  have gok: "group_ok s (with_reg_id s g)" using sok g(1) by (simp add: with_reg_id_relabel relabel_ok server_ok_def)
  have "\<exists>s1 out. (if g_mboxes g = [] then Some s else G_send_heavyweight_memb (with_reg_id s g) s) = Some s1 \<and> sent_to 2 out s s1"
  proof (cases "g_mboxes g = []")
    case True
    then show ?thesis using sent_none by auto
  next
    case False
    then show ?thesis using heavyweight_sends [OF sok gok, of 0] g(2) r
      by (simp add: with_reg_id_relabel small_def readers_def)
  qed
  then obtain s1 out where s1: "(if g_mboxes g = [] then Some s else G_send_heavyweight_memb (with_reg_id s g) s) = Some s1" "sent_to 2 out s s1"
    by blast
  have "notify_group g s = Some (put_group (notified rid g) s1)"
  proof -
    have "g_mboxes (with_reg_id s g) = g_mboxes g" by (simp add: with_reg_id_def)
    then have "notify_group g s = Some (put_group (G_update_daemon_memb_ids (with_reg_id s g)) s1)"
      using True s1(1) by (simp only: notify_group_def Let_def not_True_eq_False if_False bind.bind_lunit)
    then show ?thesis using True rid by (simp add: with_reg_id_updated notified_def cong: if_cong)
  qed
  then show ?thesis using stored [OF sok g(1) s1(2)] True by (simp add: notified_def)
qed

interpretation notify_walk: group_walk notify_group "\<lambda>g. Some (notified rid g)" 2 "\<lambda>s. G_Reg_memb_id s = rid" small
  for rid :: membership_id
proof unfold_locales
  show "\<exists>s'. notify_group g s = Some s' \<and> kept 2 s s' \<and> aside s s' \<and>
      set (GroupsList s') = {x \<in> set (GroupsList s). cstr (g_name x) \<noteq> cstr (g_name g)} \<union> set_option (Some (notified rid g))"
    if "server_ok s" "G_Reg_memb_id s = rid" "g \<in> set (GroupsList s)" "small g" "readers 2 s g" for s g
    using notify_step that by blast
qed (auto simp: notified_def aside_def same_rest_def same_membs_def)

end
