(* ===== verification/Group_unions.thy ===== *)
theory Group_unions
  imports Group_walks
begin

text \<open>
  The end of an exchange: the groups of all synced sets are brought together, the members of every
  group that changed are told, and all daemons have the same groups.
\<close>

section \<open>Taking in all sets\<close>

definition exchange :: "server \<Rightarrow> server list \<Rightarrow> bool" where
  "exchange s ts \<longleftrightarrow> (\<forall>t \<in> set ts. leader_ok t \<and> synced t \<and> same_conf s t) \<and>
     distinct (MySyncedSet s @ concat (map MySyncedSet ts)) \<and>
     length (MySyncedSet s @ concat (map MySyncedSet ts)) \<le> MAX_PROCS_RING"

lemma same_conf_step: "groups_step s s' \<Longrightarrow> same_conf s t \<Longrightarrow> same_conf s' t"
  by (simp add: same_conf_def groups_step_def)

lemma set_ok_distinct: "set_ok s ps \<Longrightarrow> distinct ps"
  by (induction ps) (auto simp: set_ok_def)

lemma take_in_all:
  assumes "server_ok s" and "synced s" and "exchange s ts" and "list_all2 link_of ts ls"
  shows "\<exists>sset' s'. forM ls take_in (sset, s) = Some (sset', s') \<and> server_ok s' \<and> synced s' \<and> groups_step s s' \<and>
    same_membs s s' \<and> rosters s' = rosters s \<union> (\<Union>t \<in> set ts. rosters t) \<and>
    set (MySyncedSet s') = set (MySyncedSet s) \<union> (\<Union>t \<in> set ts. set (MySyncedSet t))"
  using assms(4,1-3)
proof (induction ts ls arbitrary: s sset rule: list_all2_induct)
  case Nil
  then show ?case by simp
next
  case (Cons t ts l ls)
  have pt: "peers s t" using Cons.prems(3) by (auto simp: exchange_def peers_def)
  from take_in_spec [OF Cons.prems(1,2) pt Cons.hyps(1), of sset] obtain s1 where
    s1: "take_in l (sset, s) = Some (Some (MySyncedSet t), s1)" "server_ok s1" "synced s1" "groups_step s s1" "same_membs s s1"
    "rosters s1 = rosters s \<union> rosters t" "set (MySyncedSet s1) = set (MySyncedSet s) \<union> set (MySyncedSet t)"
    "length (MySyncedSet s1) = length (MySyncedSet s) + length (MySyncedSet t)" by blast
  have "distinct (MySyncedSet s1)" using s1(3) set_ok_distinct [of s1 "MySyncedSet s1"] by (simp add: synced_def)
  then have "exchange s1 ts" using Cons.prems(3) same_conf_step [OF s1(4)] s1(7,8) by (auto simp: exchange_def)
  from Cons.IH [OF s1(2,3) this, of "Some (MySyncedSet t)"] obtain sset' s' where
    s': "forM ls take_in (Some (MySyncedSet t), s1) = Some (sset', s')" "server_ok s'" "synced s'" "groups_step s1 s'" "same_membs s1 s'"
    "rosters s' = rosters s1 \<union> (\<Union>t \<in> set ts. rosters t)"
    "set (MySyncedSet s') = set (MySyncedSet s1) \<union> (\<Union>t \<in> set ts. set (MySyncedSet t))" by blast
  then show ?case using s1 groups_step_trans [OF s1(4) s'(4)] same_membs_trans [OF s1(5) s'(5)]
    by (intro exI [of _ sset'] exI [of _ s']) auto
qed

section \<open>Bounds of the union\<close>

lemma view_union:
  "rosters s' = rosters s \<union> (\<Union>t \<in> T. rosters t) \<Longrightarrow> view s' k = view s k \<union> (\<Union>t \<in> T. view t k)"
  by (auto simp: view_rosters)

lemma finite_groups: "finite {k. view s k \<noteq> {}}"
  by (rule finite_subset [of _ "(\<lambda>g. cstr (g_name g)) ` set (GroupsList s)"]) (auto simp: view_def)

lemma card_UN_sum:
  assumes "\<And>x. finite (f x)"
  shows "card (\<Union>x \<in> set xs. f x) \<le> sum_list (map (\<lambda>x. card (f x)) xs)"
proof (induction xs)
  case (Cons x xs)
  have "card (f x \<union> (\<Union>x \<in> set xs. f x)) \<le> card (f x) + card (\<Union>x \<in> set xs. f x)" by (rule card_Un_le)
  then show ?case using Cons by simp
qed simp

definition sum_view :: "server list \<Rightarrow> byte list \<Rightarrow> nat" where
  "sum_view ts k = sum_list (map (\<lambda>t. card (view t k)) ts)"

definition sum_groups :: "server list \<Rightarrow> nat" where
  "sum_groups ts = sum_list (map (\<lambda>t. length (GroupsList t)) ts)"

lemma union_bounds:
  assumes "server_ok s'" and "\<And>k. view s' k = (\<Union>t \<in> set ts. view t k)" and "\<forall>t \<in> set ts. server_ok t"
  shows "card (view s' k) \<le> sum_view ts k" "length (GroupsList s') \<le> sum_groups ts"
proof -
  show "card (view s' k) \<le> sum_view ts k"
    unfolding assms(2) sum_view_def by (rule card_UN_sum [of "\<lambda>t. view t k"]) (rule finite_view)
  have "{k. view s' k \<noteq> {}} = (\<Union>t \<in> set ts. {k. view t k \<noteq> {}})" using assms(2) by auto
  then have "length (GroupsList s') \<le> sum_list (map (\<lambda>t. card {k. view t k \<noteq> {}}) ts)"
    using groups_card [OF assms(1)] card_UN_sum [of "\<lambda>t. {k. view t k \<noteq> {}}" ts] finite_groups by simp
  moreover have "map (\<lambda>t. card {k. view t k \<noteq> {}}) ts = map (\<lambda>t. length (GroupsList t)) ts"
    using assms(3) groups_card by simp
  ultimately show "length (GroupsList s') \<le> sum_groups ts" by (simp add: sum_groups_def)
qed

lemma all_room_step:
  assumes "groups_step s s'" and "all_room k s"
  shows "all_room k s'"
  using assms groups_step_same(6,11) [OF assms(1)] by (simp add: all_room_def)

lemma small_groups:
  assumes "server_ok s" and "\<And>k. card (view s k) \<le> max_members" and "g \<in> set (GroupsList s)"
  shows "small g"
  using view_card [OF assms(1,3)] assms(2) [of "cstr (g_name g)"] by (simp add: small_def)

section \<open>The whole computation\<close>

lemma synced_cong:
  assumes "groups_step s s'" and "rosters s' = rosters s" and "MySyncedSet s' = MySyncedSet s" and "synced s"
  shows "synced s'"
proof -
  have "same_conf s s'" using assms(1) by (simp add: same_conf_def groups_step_def)
  from same_conf_facts(5) [OF this] show ?thesis
    using assms groups_step_same(4) [OF assms(1)] by (simp add: synced_def)
qed

lemma Exchange_core:
  assumes ok: "server_ok s" "synced s" and ex: "exchange s ts" "list_all2 link_of ts (Gathered s)"
    and fit: "\<forall>k. sum_view (s # ts) k \<le> max_members" and room: "all_room (2 * sum_groups (s # ts)) s"
  shows "\<exists>s'. G_compute_and_notify s = Some s' \<and> server_ok s' \<and> synced s' \<and> Gstate s' = Gstate s \<and> Gathered s' = [] \<and>
    (\<forall>k. view s' k = view s k \<union> (\<Union>t \<in> set ts. view t k)) \<and>
    set (MySyncedSet s') = set (MySyncedSet s) \<union> (\<Union>t \<in> set ts. set (MySyncedSet t)) \<and>
    same_conf s s' \<and> (\<forall>g \<in> set (GroupsList s'). \<not> g_changed g)"
proof -
  from take_in_all [OF ok ex, of None] obtain sset s1 where
    s1: "forM (Gathered s) take_in (None, s) = Some (sset, s1)" "server_ok s1" "synced s1" "groups_step s s1" "same_membs s s1"
    "rosters s1 = rosters s \<union> (\<Union>t \<in> set ts. rosters t)"
    "set (MySyncedSet s1) = set (MySyncedSet s) \<union> (\<Union>t \<in> set ts. set (MySyncedSet t))" by blast
  let ?s1 = "s1\<lparr>Gathered := []\<rparr>"
  have st1: "groups_step s1 ?s1" by (simp add: groups_step_def sess_table.defs)
  have gl: "GroupsList ?s1 = GroupsList s1" "rosters ?s1 = rosters s1" "view ?s1 = view s1"
    by (simp_all add: rosters_def view_def fun_eq_iff)
  have ok1: "server_ok ?s1" using s1(2) groups_step_same(2,3,10) [OF st1] by (simp add: server_ok_def)
  have v: "view ?s1 k = (\<Union>t \<in> set (s # ts). view t k)" for k using view_union [OF s1(6)] by (simp add: gl)
  have all_ok: "\<forall>t \<in> set (s # ts). server_ok t" using ok(1) ex(1) by (auto simp: exchange_def leader_ok_def)
  note b = union_bounds [OF ok1 v all_ok]
  have small: "\<forall>g \<in> set (GroupsList ?s1). small g"
  proof
    fix g assume "g \<in> set (GroupsList ?s1)"
    moreover have "card (view ?s1 k) \<le> max_members" for k using b(1) [of k] fit by (meson le_trans)
    ultimately show "small g" using small_groups [OF ok1] by blast
  qed
  have "all_room (2 * sum_groups (s # ts)) ?s1" by (rule all_room_step [OF groups_step_trans [OF s1(4) st1] room])
  then have "readers_ok (2 * length (GroupsList ?s1) + 0) ?s1"
    using all_room_readers [OF ok1] all_room_mono [of _ ?s1 "2 * length (GroupsList ?s1)"] b(2) by simp
  from notify_walk.walk [OF ok1 refl this small] obtain s2 where
    s2: "walk_groups notify_group ?s1 = Some s2" "kept (2 * length (GroupsList ?s1)) ?s1 s2" "aside ?s1 s2"
    "set (GroupsList s2) = turn (\<lambda>g. Some (notified (G_Reg_memb_id ?s1) g)) (GroupsList ?s1)" by blast
  have r2: "rosters s2 = rosters ?s1" by (rule turn_rosters [OF s2(4)]) (simp add: notified_def)
  let ?s' = "(G_discard_groups_bufs (reset_gathered s2))\<lparr>Groups_bufs_fresh := False\<rparr>"
  have st2: "groups_step s2 ?s'" by (simp add: groups_step_def G_discard_groups_bufs_def reset_gathered_def sess_table.defs)
  have gl2: "GroupsList ?s' = GroupsList s2" "MySyncedSet ?s' = MySyncedSet s2" "Gathered ?s' = Gathered s2" "Gstate ?s' = Gstate s2"
    "rosters ?s' = rosters s2" by (simp_all add: G_discard_groups_bufs_def reset_gathered_def rosters_def)
  have "server_ok s2" using s2(2) by (simp add: kept_def)
  then have "server_ok ?s'" using groups_step_same(2,3,10) [OF st2] gl2(1) by (simp add: server_ok_def)
  moreover have c: "same_conf s ?s'"
    using s1(4) s2(3) st2 by (simp add: same_conf_def aside_def groups_step_def)
  moreover have set2: "MySyncedSet ?s' = MySyncedSet s1" using s2(3) gl2(2) by (simp add: aside_def same_rest_def)
  moreover have "synced ?s'"
  proof -
    have "My_id ?s' = My_id s1" using s2(2) groups_step_same(4) [OF st2] groups_step_same(4) [OF st1] by (simp add: kept_def)
    moreover have "same_conf s1 ?s'" using s2(3) st2 by (simp add: same_conf_def aside_def groups_step_def)
    ultimately show ?thesis using s1(3) set2 same_conf_facts(5) [of s1 ?s'] r2 gl(2) gl2(5) by (simp add: synced_def)
  qed
  moreover have "Gathered ?s' = []" using s2(3) gl2(3) by (simp add: aside_def)
  moreover have "Gstate ?s' = Gstate s" using s2(2) gl2(4) s1(4) by (simp add: kept_def groups_step_def)
  moreover have "view ?s' k = view s k \<union> (\<Union>t \<in> set ts. view t k)" for k
    by (rule view_union) (simp only: gl2(5) r2 gl(2) s1(6))
  moreover have "\<not> g_changed g" if "g \<in> set (GroupsList ?s')" for g
    using that unfolding gl2(1) s2(4) by (auto simp: turn_def notified_unchanged)
  ultimately show ?thesis using s1(1,7) s2(1) by (intro exI [of _ ?s']) (auto simp: G_compute_and_notify_def)
qed

end
