(* ===== verification/Group_agreement.thy ===== *)
theory Group_agreement
  imports Group_unions Group_sample
begin

text \<open>The property of the exchange of groups between synced sets, and an example of it.\<close>

lemma union_of_leaders:
  assumes "add_mset a (mset ts) = mset ls"
  shows "f a \<union> (\<Union>t \<in> set ts. f t) = (\<Union>t \<in> set ls. f t)"
proof -
  have "set ls = insert a (set ts)" using arg_cong [OF assms, of set_mset] by simp
  then show ?thesis by simp
qed

text \<open>
  C30: When the daemons of a new ring have the GROUPS messages of the leaders of all old synced sets,
  every daemon takes in those of the other sets, in whatever order the sets and the messages of
  one set came.  It ends with every group as the union of what the leaders have, with all daemons in
  its synced set, and with no group left to be announced.  So two daemons with different leaders
  agree afterwards on all groups and on the synced set.
\<close>

theorem Exchange_agreement:
  assumes "server_ok s" and "synced s" and "exchange s ts" and "list_all2 link_of ts (Gathered s)"
    and "server_ok u" and "synced u" and "exchange u us" and "list_all2 link_of us (Gathered u)"
    and "\<forall>k. sum_view (s # ts) k \<le> max_members" and "all_room (2 * sum_groups (s # ts)) s"
    and "\<forall>k. sum_view (u # us) k \<le> max_members" and "all_room (2 * sum_groups (u # us)) u"
    and "add_mset a (mset ts) = mset ls" and "view s = view a" and "MySyncedSet s = MySyncedSet a"
    and "add_mset b (mset us) = mset ls" and "view u = view b" and "MySyncedSet u = MySyncedSet b"
    and "same_conf s u"
  shows "\<exists>s' u'. G_compute_and_notify s = Some s' \<and> G_compute_and_notify u = Some u' \<and> server_ok s' \<and> server_ok u' \<and>
    view s' = (\<lambda>k. \<Union>t \<in> set ls. view t k) \<and> view u' = view s' \<and>
    set (MySyncedSet s') = (\<Union>t \<in> set ls. set (MySyncedSet t)) \<and> MySyncedSet u' = MySyncedSet s' \<and>
    (\<forall>g. g \<in> set (GroupsList s') \<union> set (GroupsList u') \<longrightarrow> \<not> g_changed g)"
proof -
  from Exchange_core [OF assms(1-4,9,10)] obtain s' where s': "G_compute_and_notify s = Some s'" "server_ok s'" "synced s'"
    "\<forall>k. view s' k = view s k \<union> (\<Union>t \<in> set ts. view t k)"
    "set (MySyncedSet s') = set (MySyncedSet s) \<union> (\<Union>t \<in> set ts. set (MySyncedSet t))" "same_conf s s'"
    "\<forall>g \<in> set (GroupsList s'). \<not> g_changed g" by blast
  from Exchange_core [OF assms(5-8,11,12)] obtain u' where u': "G_compute_and_notify u = Some u'" "server_ok u'" "synced u'"
    "\<forall>k. view u' k = view u k \<union> (\<Union>t \<in> set us. view t k)"
    "set (MySyncedSet u') = set (MySyncedSet u) \<union> (\<Union>t \<in> set us. set (MySyncedSet t))" "same_conf u u'"
    "\<forall>g \<in> set (GroupsList u'). \<not> g_changed g" by blast
  have v: "view s' = (\<lambda>k. \<Union>t \<in> set ls. view t k)" "view u' = (\<lambda>k. \<Union>t \<in> set ls. view t k)"
  proof -
    have "view s' k = (\<Union>t \<in> set ls. view t k)" "view u' k = (\<Union>t \<in> set ls. view t k)" for k
      using s'(4) u'(4) union_of_leaders [OF assms(13), of "\<lambda>t. view t k"] union_of_leaders [OF assms(16), of "\<lambda>t. view t k"]
      by (simp_all add: assms(14,17))
    then show "view s' = (\<lambda>k. \<Union>t \<in> set ls. view t k)" "view u' = (\<lambda>k. \<Union>t \<in> set ls. view t k)" by blast+
  qed
  have m: "set (MySyncedSet s') = (\<Union>t \<in> set ls. set (MySyncedSet t))" "set (MySyncedSet u') = (\<Union>t \<in> set ls. set (MySyncedSet t))"
    using s'(5) u'(5) union_of_leaders [OF assms(13), of "\<lambda>t. set (MySyncedSet t)"]
      union_of_leaders [OF assms(16), of "\<lambda>t. set (MySyncedSet t)"] by (simp_all add: assms(15,18))
  have "same_conf u' s'" using s'(6) u'(6) assms(19) by (simp add: same_conf_def)
  then have "set_ok u' (MySyncedSet s')" using s'(3) same_conf_facts(5) by (simp add: synced_def)
  then have "MySyncedSet u' = MySyncedSet s'" using set_ok_unique [of u'] u'(3) m by (simp add: synced_def)
  then show ?thesis using s'(1,2,7) u'(1,2,7) v m(1) by auto
qed

section \<open>An example\<close>

text \<open>Two daemons alone so far, the second with one group of its client.\<close>

definition y_group :: group where
  "y_group = \<lparr>g_name = [103] @ replicate 31 0, g_gid = \<lparr>gid_memb = sample_memb_id, gid_index = 1\<rparr>, g_changed = False,
     g_num_members = 1, g_daemons = [\<lparr>dm_proc = 2, dm_memb = sample_memb_id, dm_members = [client_y]\<rparr>], g_mboxes = [7]\<rparr>"

definition daemon_x :: "groups_link list \<Rightarrow> server" where
  "daemon_x ls = (sample_server 0)\<lparr>Gathered := ls\<rparr>"

definition daemon_y :: "groups_link list \<Rightarrow> server" where
  "daemon_y ls = (sample_server 1)\<lparr>GroupsList := [y_group], MySyncedSet := [2], Gathered := ls\<rparr>"

lemma sample_steps: "groups_step (sample_server 0) (daemon_x ls)" "groups_step (sample_server 1) (daemon_y ls)"
  by (simp_all add: groups_step_def daemon_x_def daemon_y_def sess_table.defs)

lemma sample_positions: "conf_pos (dmn (sample_server me)) 1 = 0" "conf_pos (dmn (sample_server me)) 2 = 1"
proof -
  have p: "p_id (named_proc 0) = 1" "p_id (named_proc 1) = 2" by code_simp+
  have "\<forall>i < 3. conf_pos (sample\<lparr>Config_procs := named_proc\<rparr>) (p_id (named_proc i)) = int i"
    using sample_conf_ok by (simp add: conf_ok_def sample_conf_def)
  from spec [OF this, of 0] spec [OF this, of 1]
  show "conf_pos (dmn (sample_server me)) 1 = 0" "conf_pos (dmn (sample_server me)) 2 = 1" by (simp_all add: p del: One_nat_def)
qed

lemma sample_is_proc: "is_proc (sample_server me) 1" "is_proc (sample_server me) 2"
proof -
  have "p_id (named_proc 0) = 1" "p_id (named_proc 1) = 2" by code_simp+
  then show "is_proc (sample_server me) 1" "is_proc (sample_server me) 2"
    using sample_positions [of me] by (auto simp: is_proc_def intro: exI [of _ 0] exI [of _ 1])
qed

lemma canon_client_y: "canon client_y" "cstr client_y = [35, 97, 35, 121]"
  by code_simp+

lemma y_group_ok: "group_ok (sample_server 1) y_group"
proof -
  let ?s = "sample_server 1"
  have my: "My_id ?s = 2" by simp code_simp
  obtain n where n: "sessions_ok one_client [n]" "mbox_at one_client n = 7" "name_at one_client n = [97]" using one_client_ok by blast
  have "sessions_ok ?s [n]" using n(1) by (simp add: sample_table)
  from Session_lookups_core [OF this, of 0 "[97]"] have "Sess_get_session [97] ?s = Some (Some n)"
    using n(3) by (auto simp: sample_table cstr_def split: option.splits)
  then have "box ?s client_y = Some 7" using n(2) by (simp add: box_def names_of_clients mbox_of_priv_def sample_table)
  moreover have "canon (g_name y_group)" by code_simp
  moreover have "daemon_ok ?s \<lparr>dm_proc = 2, dm_memb = sample_memb_id, dm_members = [client_y]\<rparr>"
    using sample_positions(2) [of 1] canon_client_y sample_homes(2) [of 1] by (simp add: daemon_ok_def)
  ultimately show ?thesis
    using my by (simp add: group_ok_def y_group_def daemons_in_order_def locals_def group_members_def)
qed

lemma daemons_ok: "server_ok (daemon_x ls)" "server_ok (daemon_y ls)"
proof -
  note x = groups_step_same [OF sample_steps(1) [of ls]] and y = groups_step_same [OF sample_steps(2) [of ls]]
  have s: "conf_ok (dmn (sample_server me))" "dir_ok (sample_server me)" for me
    using sample_ok [of me] by (simp_all only: server_ok_def)
  have "GroupsList (daemon_x ls) = []" "GroupsList (daemon_y ls) = [y_group]" by (simp_all add: daemon_x_def daemon_y_def)
  then show "server_ok (daemon_x ls)" "server_ok (daemon_y ls)"
    using s y_group_ok by (simp_all add: server_ok_def groups_in_order_def x(2,3,10) y(2,3,10))
qed

lemma daemon_rosters: "rosters (daemon_x ls) = {}" "rosters (daemon_y ls) = {([103], 2, [client_y])}"
    "view (daemon_x ls) = (\<lambda>k. {})" "view (daemon_y ls) = (\<lambda>k. if k = [103] then {[35, 97, 35, 121]} else {})"
proof -
  have c: "cstr (g_name y_group) = [103]" by code_simp
  show r: "rosters (daemon_x ls) = {}" "rosters (daemon_y ls) = {([103], 2, [client_y])}"
    using c by (auto simp: rosters_def daemon_x_def daemon_y_def group_roster_def roster_def) (simp_all add: y_group_def)
  show "view (daemon_x ls) = (\<lambda>k. {})" "view (daemon_y ls) = (\<lambda>k. if k = [103] then {[35, 97, 35, 121]} else {})"
    by (auto simp: view_rosters r fun_eq_iff canon_client_y)
qed

lemma daemons_synced: "synced (daemon_x ls)" "synced (daemon_y ls)"
proof -
  have my: "My_id (sample_server 0) = 1" "My_id (sample_server 1) = 2" by (simp; code_simp)+
  have "My_id (daemon_x ls) = 1" "My_id (daemon_y ls) = 2"
    using groups_step_same(4) [OF sample_steps(1)] groups_step_same(4) [OF sample_steps(2)] my by simp_all
  moreover have "is_proc (daemon_x ls) 1" "is_proc (daemon_y ls) 2"
    using sample_is_proc [of 0] sample_is_proc [of 1] by (simp_all add: is_proc_def daemon_x_def daemon_y_def)
  moreover have "MySyncedSet (daemon_x ls) = [1]" "MySyncedSet (daemon_y ls) = [2]"
    by (simp_all add: daemon_x_def daemon_y_def sample_server_def sess_table.defs sess_layer.defs)
  ultimately show "synced (daemon_x ls)" "synced (daemon_y ls)" by (simp_all add: synced_def set_ok_def daemon_rosters)
qed

lemma daemon_fields:
  "MySyncedSet (daemon_x ls) = [1]" "MySyncedSet (daemon_y ls) = [2]" "Gathered (daemon_x ls) = ls" "Gathered (daemon_y ls) = ls"
  "GroupsList (daemon_x ls) = []" "GroupsList (daemon_y ls) = [y_group]" "Groups_bufs (daemon_x ls) = []" "Groups_bufs (daemon_y ls) = []"
  "Sess_My (daemon_x ls) = named_proc 0" "Sess_My (daemon_y ls) = named_proc 1" "dmn (daemon_x ls) = dmn (sample_server 0)"
  "dmn (daemon_y ls) = dmn (sample_server 0)"
  by (simp_all add: daemon_x_def daemon_y_def sample_server_def sess_table.defs sess_layer.defs)

lemma daemons_lead: "leader_ok (daemon_x ls)" "leader_ok (daemon_y ls)"
proof -
  have "length (p_name (named_proc 0)) < MAX_PROC_NAME" "length (p_name (named_proc 1)) < MAX_PROC_NAME" by code_simp+
  moreover have "wf_gid (g_gid y_group)" "\<forall>d \<in> set (g_daemons y_group). length (dm_members d) \<le> max_local" by code_simp+
  ultimately show "leader_ok (daemon_x ls)" "leader_ok (daemon_y ls)"
    by (simp_all add: leader_ok_def daemons_ok daemon_fields MAX_PROCS_RING_def)
qed

lemma some_link: "leader_ok t \<Longrightarrow> \<exists>l. link_of t l"
  using leader_messages [of t] by (auto simp: link_of_def intro: exI [of _ "\<lparr>gl_rep = 0, gl_complete = True, gl_messages = _\<rparr>"])

theorem Exchange_agreement_witness:
  "\<exists>lx ly s' u'. G_compute_and_notify (daemon_x [ly]) = Some s' \<and> G_compute_and_notify (daemon_y [lx]) = Some u' \<and>
     view s' = view u' \<and> view s' [103] = {[35, 97, 35, 121]} \<and> set (MySyncedSet s') = {1, 2} \<and> MySyncedSet u' = MySyncedSet s'"
proof -
  obtain lx ly where l: "link_of (daemon_x []) lx" "link_of (daemon_y []) ly" using some_link daemons_lead by blast
  let ?s = "daemon_x [ly]" and ?u = "daemon_y [lx]"
  have conf: "same_conf ?s ?u" "same_conf ?s (daemon_y [])" "same_conf ?u (daemon_x [])" by (simp_all add: same_conf_def daemon_fields)
  have ex: "exchange ?s [daemon_y []]" "exchange ?u [daemon_x []]"
    using conf daemons_lead daemons_synced by (simp_all add: exchange_def daemon_fields MAX_PROCS_RING_def)
  have room: "all_room 2 ?s" "all_room 2 ?u"
    using all_room_step [OF sample_steps(1) sample_room [of 2]] all_room_step [OF sample_steps(2) sample_room [of 2]]
    by (simp_all add: MAX_SESSION_MESSAGES_def)
  have sums: "sum_groups [?s, daemon_y []] = 1" "sum_groups [?u, daemon_x []] = 1"
    "sum_view [?s, daemon_y []] k \<le> max_members" "sum_view [?u, daemon_x []] k \<le> max_members" for k
    by (simp_all add: sum_groups_def sum_view_def daemon_fields daemon_rosters max_members_def)
  from Exchange_agreement [of ?s "[daemon_y []]" ?u "[daemon_x []]" "daemon_x []" "[daemon_x [], daemon_y []]" "daemon_y []"]
  obtain s' u' where r: "G_compute_and_notify ?s = Some s'" "G_compute_and_notify ?u = Some u'"
    "view s' = (\<lambda>k. \<Union>t \<in> set [daemon_x [], daemon_y []]. view t k)" "view u' = view s'"
    "set (MySyncedSet s') = (\<Union>t \<in> set [daemon_x [], daemon_y []]. set (MySyncedSet t))" "MySyncedSet u' = MySyncedSet s'"
    using daemons_ok daemons_synced ex l room sums conf(1) by (auto simp: daemon_fields daemon_rosters add_mset_commute)
  have "view s' [103] = {[35, 97, 35, 121]}" "set (MySyncedSet s') = {1, 2}"
    unfolding r(3,5) by (auto simp: daemon_rosters daemon_fields)
  then show ?thesis using r(1,2,4,6) by metis
qed

end
