(* ===== verification/Group_partitions.thy ===== *)
theory Group_partitions
  imports Group_walks
begin

text \<open>
  A change of the ring that only takes daemons away: the transitional membership marks the daemons
  that are gone, the regular one drops them with their members, and the groups they were in get a
  new id.
\<close>

section \<open>Dropping daemons\<close>

context ordered_index
begin

lemma erase_filter: "in_order cmp key xs \<Longrightarrow> skl_erase (\<lambda>x. cmp (key x) k) xs = filter (\<lambda>x. key x \<noteq> k) xs"
proof (induction xs)
  case (Cons y ys)
  have "\<forall>z \<in> set ys. key z \<noteq> k" if "\<not> cmp (key y) k < 0"
    using Cons.prems that by auto
  then show ?case using Cons less_not_eq [of "key y" k] cmp_eq by auto
qed simp

end

definition without_daemons :: "(daemon_members \<Rightarrow> bool) \<Rightarrow> group \<Rightarrow> group" where
  "without_daemons e g = (let ds = filter (\<lambda>d. \<not> e d) (g_daemons g) in
     g\<lparr>g_daemons := ds, g_num_members := int (length (members_of ds))\<rparr>)"

lemma mset_without: "distinct xs \<Longrightarrow> x \<in> set xs \<Longrightarrow> mset xs = add_mset x (mset (filter (\<lambda>y. y \<noteq> x) xs))"
proof (induction xs)
  case (Cons y ys)
  show ?case
  proof (cases "y = x")
    case True
    then have "filter (\<lambda>z. z \<noteq> x) ys = ys" using Cons.prems(1) by (auto simp: filter_id_conv)
    then show ?thesis using True by (simp del: mset_filter)
  qed (use Cons in auto)
qed simp

lemma filter_in_order: "in_order cmp key xs \<Longrightarrow> in_order cmp key (filter P xs)"
  by (simp add: in_order_def sorted_wrt_filter)

lemma remove_daemon_spec:
  assumes ord: "daemons_in_order s (g_daemons g)" "\<forall>d \<in> set (g_daemons g). daemon_ok s d"
    and n: "g_num_members g = int (length (members_of (g_daemons g)))" and d: "d \<in> set (g_daemons g)"
  shows "G_remove_daemon (dmn s) d g = Some (without_daemons (\<lambda>x. x = d) g)"
proof -
  let ?pos = "\<lambda>d. conf_pos (dmn s) (dm_proc d)"
  have c: "by_conf (dmn s) (dm_proc d) = (\<lambda>e. ?pos e - ?pos d)" by (simp add: by_conf_def fun_eq_iff)
  note o = ord(1) [unfolded daemons_in_order_def]
  have "?pos d > - 1" using ord(2) d by (simp add: daemon_ok_def)
  then have k: "daemons_known (dmn s) (dm_proc d) (g_daemons g)" by (rule known [OF ord(2)])
  have f: "skl_find (by_conf (dmn s) (dm_proc d)) (g_daemons g) \<noteq> None"
    unfolding c using daemon_index.find_None [OF o, of "?pos d"] d by auto
  have inj: "?pos x = ?pos d \<longleftrightarrow> x = d" if "x \<in> set (g_daemons g)" for x
    using daemons_distinct(1) [OF ord(1)] that d by (auto simp: distinct_map inj_on_def)
  have e: "skl_erase (by_conf (dmn s) (dm_proc d)) (g_daemons g) = filter (\<lambda>x. x \<noteq> d) (g_daemons g)"
    unfolding c daemon_index.erase_filter [OF o] by (rule filter_cong) (use inj in auto)
  have "distinct (g_daemons g)" using daemons_distinct(2) [OF ord(1)] by (simp add: distinct_map)
  then have m: "mset (g_daemons g) = add_mset d (mset (filter (\<lambda>x. x \<noteq> d) (g_daemons g)))"
    using d by (rule mset_without)
  have "mset (members_of (g_daemons g)) = mset (dm_members d) + mset (members_of (filter (\<lambda>x. x \<noteq> d) (g_daemons g)))"
    using arg_cong [OF m, of "\<lambda>M. \<Sum>\<^sub># (image_mset (\<lambda>d. mset (dm_members d)) M)"] by (simp add: mset_members)
  from arg_cong [OF this, of size]
  have "length (members_of (g_daemons g)) = length (dm_members d) + length (members_of (filter (\<lambda>x. x \<noteq> d) (g_daemons g)))" by simp
  then show ?thesis using k f n by (auto simp: G_remove_daemon_def G_get_daemon_def e without_daemons_def Let_def)
qed

lemma remove_daemons_spec:
  assumes "daemons_in_order s (g_daemons g)" "\<forall>d \<in> set (g_daemons g). daemon_ok s d"
    and "g_num_members g = int (length (members_of (g_daemons g)))" and "set xs \<subseteq> set (g_daemons g)" and "distinct xs"
  shows "forM xs (G_remove_daemon (dmn s)) g = Some (without_daemons (\<lambda>x. x \<in> set xs) g)"
  using assms
proof (induction xs arbitrary: g)
  case Nil
  then show ?case by (cases g) (simp add: without_daemons_def)
next
  case (Cons d xs)
  let ?g = "without_daemons (\<lambda>x. x = d) g"
  have ds: "g_daemons ?g = filter (\<lambda>x. x \<noteq> d) (g_daemons g)" by (simp add: without_daemons_def Let_def)
  have "G_remove_daemon (dmn s) d g = Some ?g" using remove_daemon_spec [OF Cons.prems(1-3)] Cons.prems(4) by simp
  moreover have "forM xs (G_remove_daemon (dmn s)) ?g = Some (without_daemons (\<lambda>x. x \<in> set xs) ?g)"
    using Cons.prems by (intro Cons.IH) (auto simp: ds daemons_in_order_def filter_in_order without_daemons_def Let_def)
  moreover have "without_daemons (\<lambda>x. x \<in> set xs) ?g = without_daemons (\<lambda>x. x \<in> set (d # xs)) g"
    by (simp add: without_daemons_def Let_def conj_commute)
  ultimately show ?case by simp
qed

lemma eliminate_spec:
  assumes "group_ok s g"
  shows "G_eliminate_partitioned_daemons_status g s = Some (without_daemons (to_eliminate s) g, list_ex (to_eliminate s) (g_daemons g))"
proof -
  let ?xs = "filter (to_eliminate s) (g_daemons g)"
  have o: "daemons_in_order s (g_daemons g)" "\<forall>d \<in> set (g_daemons g). daemon_ok s d"
    "g_num_members g = int (length (members_of (g_daemons g)))" using assms by (simp_all add: group_ok_def group_members_eq)
  have "distinct (g_daemons g)" using daemons_distinct(2) [OF o(1)] by (simp add: distinct_map)
  then have "forM ?xs (G_remove_daemon (dmn s)) g = Some (without_daemons (\<lambda>x. x \<in> set ?xs) g)"
    by (intro remove_daemons_spec [OF o]) auto
  moreover have "filter (\<lambda>x. x \<notin> set ?xs) (g_daemons g) = filter (\<lambda>d. \<not> to_eliminate s d) (g_daemons g)"
    by (rule filter_cong) auto
  then have "without_daemons (\<lambda>x. x \<in> set ?xs) g = without_daemons (to_eliminate s) g"
    by (simp add: without_daemons_def)
  moreover have "(?xs \<noteq> []) = list_ex (to_eliminate s) (g_daemons g)" by (auto simp: filter_empty_conv list_ex_iff)
  ultimately show ?thesis by (simp add: G_eliminate_partitioned_daemons_status_def Let_def)
qed

lemma locals_filter: "(\<forall>d \<in> set ds. dm_proc d = my \<longrightarrow> \<not> e d) \<Longrightarrow> locals my (filter (\<lambda>d. \<not> e d) ds) = locals my ds"
  by (induction ds) (auto simp: locals_def)

text \<open>A group without some foreign daemons is well formed while one is left; otherwise it has no mailboxes.\<close>

lemma without_ok:
  assumes g: "group_ok s g" and mine: "\<forall>d \<in> set (g_daemons g). dm_proc d = My_id s \<longrightarrow> \<not> e d"
  shows "g_daemons (without_daemons e g) \<noteq> [] \<longrightarrow> group_ok s (without_daemons e g)"
    "g_num_members (without_daemons e g) = 0 \<longleftrightarrow> g_daemons (without_daemons e g) = []"
    "g_daemons (without_daemons e g) = [] \<longrightarrow> g_mboxes g = []"
proof -
  let ?ds = "filter (\<lambda>d. \<not> e d) (g_daemons g)"
  note l = locals_filter [OF mine]
  show "g_daemons (without_daemons e g) \<noteq> [] \<longrightarrow> group_ok s (without_daemons e g)"
    using g l by (auto simp: without_daemons_def Let_def group_ok_def daemons_in_order_def filter_in_order group_members_eq)
  have "members_of ds = [] \<longleftrightarrow> ds = []" if "set ds \<subseteq> set (g_daemons g)" for ds
  proof (cases ds)
    case (Cons d es)
    then have "daemon_ok s d" using that g by (auto simp: group_ok_def)
    then show ?thesis using Cons by (simp add: members_of_def daemon_ok_def)
  qed (simp add: members_of_def)
  from this [of ?ds] show "g_num_members (without_daemons e g) = 0 \<longleftrightarrow> g_daemons (without_daemons e g) = []"
    by (auto simp: without_daemons_def Let_def)
  show "g_daemons (without_daemons e g) = [] \<longrightarrow> g_mboxes g = []"
  proof
    assume "g_daemons (without_daemons e g) = []"
    then have "locals (My_id s) (g_daemons g) = []" using l by (simp add: without_daemons_def Let_def locals_def)
    then show "g_mboxes g = []" using g by (simp add: group_ok_def)
  qed
qed

section \<open>The transitional membership\<close>

definition gone_in :: "server \<Rightarrow> int32u \<Rightarrow> bool" where
  "gone_in s p \<longleftrightarrow> Conf_id_in_conf (dmn s) (G_Trans_memb s) p = None"

lemma gone_same: "aside s s' \<Longrightarrow> gone_in s' = gone_in s"
proof
  fix p assume a: "aside s s'"
  then have "Config (dmn s') = Config (dmn s)" "Config_procs (dmn s') = Config_procs (dmn s)" "G_Trans_memb s' = G_Trans_memb s"
    by (simp_all add: aside_def same_conf_def same_rest_def same_membs_def)
  then show "gone_in s' p = gone_in s p" by (simp add: gone_in_def Conf_id_in_conf_def Conf_id_in_seg_def)
qed

definition marked :: "(int32u \<Rightarrow> bool) \<Rightarrow> membership_id \<Rightarrow> group \<Rightarrow> group" where
  "marked gone tid g = (if \<exists>d \<in> set (g_daemons g). gone (dm_proc d)
     then relabel \<lparr>gid_memb = tid, gid_index = 1\<rparr> True
       (\<lambda>d. if gone (dm_proc d) then unknown_memb_id else if Is_partitioned_daemon d then dm_memb d else tid) g
     else g)"

lemma unknown_partitioned: "Is_partitioned_daemon (d\<lparr>dm_memb := unknown_memb_id\<rparr>)"
  by (simp add: Is_partitioned_daemon_def Is_unknown_memb_id_def unknown_memb_id_def)

lemma mark_relabel: "g\<lparr>g_daemons := map (mark_partitioned s) (g_daemons g)\<rparr> =
    relabel (g_gid g) (g_changed g) (\<lambda>d. if gone_in s (dm_proc d) then unknown_memb_id else dm_memb d) g"
  by (cases g) (auto simp: relabel_def mark_partitioned_def gone_in_def)

lemma trans_step:
  assumes sok: "server_ok s" and g: "g \<in> set (GroupsList s)" and r: "readers 1 s g"
    and I: "G_Trans_memb_id s = tid" "gone_in s = gone"
  shows "\<exists>s'. trans_group g s = Some s' \<and> kept 1 s s' \<and> aside s s' \<and>
    set (GroupsList s') = {x \<in> set (GroupsList s). cstr (g_name x) \<noteq> cstr (g_name g)} \<union> set_option (Some (marked gone tid g))"
proof -
  have check: "G_check_if_changed_by_cascade g s \<longleftrightarrow> (\<exists>d \<in> set (g_daemons g). gone (dm_proc d))"
    using I(2) by (auto simp: G_check_if_changed_by_cascade_def list_ex_iff gone_in_def fun_eq_iff)
  show ?thesis
  proof (cases "G_check_if_changed_by_cascade g s")
    case False
    then have "marked gone tid g = g" unfolding check marked_def by simp
    then show ?thesis using False kept_refl [OF sok] walked_same [OF sok g] by (simp add: trans_group_def)
  next
    case True
    let ?g1 = "g\<lparr>g_daemons := map (mark_partitioned s) (g_daemons g)\<rparr>"
    have gok: "group_ok s g" using sok g by (simp add: server_ok_def)
    have f1: "g_mboxes ?g1 = g_mboxes g" "g_name ?g1 = g_name g" by simp_all
    have "\<exists>s1 out. (if g_mboxes ?g1 = [] then Some s else G_send_trans_memb ?g1 s) = Some s1 \<and> sent_to 1 out s s1"
    proof (cases "g_mboxes g = []")
      case True
      then show ?thesis using sent_none by auto
    next
      case False
      have "canon (g_name ?g1)" "distinct (g_mboxes ?g1)" "\<forall>b \<in> set (g_mboxes ?g1). reader_ok (Suc 0) s b"
        using gok group_mboxes [OF sok gok] r by (simp_all add: group_ok_def readers_def)
      from trans_sends [OF this] show ?thesis using False by auto
    qed
    then obtain s1 out where s1: "(if g_mboxes ?g1 = [] then Some s else G_send_trans_memb ?g1 s) = Some s1" "sent_to 1 out s s1"
      by blast
    have tid: "G_Trans_memb_id s1 = tid" using quiet_server(4) [OF sent_quiet [OF s1(2)]] I(1) by simp
    have "trans_group g s = Some (put_group (G_update_daemon_memb_ids
        (?g1\<lparr>g_gid := \<lparr>gid_memb = tid, gid_index = 1\<rparr>, g_changed := True\<rparr>)) s1)"
      using True s1(1) tid by (simp only: trans_group_def if_True Let_def bind.bind_lunit)
    also have "?g1\<lparr>g_gid := \<lparr>gid_memb = tid, gid_index = 1\<rparr>, g_changed := True\<rparr> =
        relabel \<lparr>gid_memb = tid, gid_index = 1\<rparr> True (\<lambda>d. if gone (dm_proc d) then unknown_memb_id else dm_memb d) g"
      unfolding mark_relabel I(2) by (simp add: relabel_def)
    also have "G_update_daemon_memb_ids \<dots> = marked gone tid g"
    proof -
      have "(\<lambda>d. if Is_partitioned_daemon (d\<lparr>dm_memb := if gone (dm_proc d) then unknown_memb_id else dm_memb d\<rparr>)
          then if gone (dm_proc d) then unknown_memb_id else dm_memb d else tid) =
          (\<lambda>d. if gone (dm_proc d) then unknown_memb_id else if Is_partitioned_daemon d then dm_memb d else tid)"
        by (auto simp: fun_eq_iff unknown_partitioned)
      then show ?thesis using True unfolding check marked_def
        by (simp add: update_ids_relabel relabel_relabel cong: if_cong)
    qed
    finally have run: "trans_group g s = Some (put_group (marked gone tid g) s1)" .
    have "\<exists>i c m. marked gone tid g = relabel i c m g" using True unfolding check marked_def by auto
    then obtain i c m where m: "marked gone tid g = relabel i c m g" by blast
    show ?thesis using run stored [OF sok g s1(2), of i c m] by (simp add: m)
  qed
qed

interpretation trans_walk: group_walk trans_group "\<lambda>g. Some (marked gone tid g)" 1
    "\<lambda>s. G_Trans_memb_id s = tid \<and> gone_in s = gone" "\<lambda>_. True"
  for tid :: membership_id and gone :: "int32u \<Rightarrow> bool"
proof unfold_locales
  show "\<exists>s'. trans_group g s = Some s' \<and> kept 1 s s' \<and> aside s s' \<and>
      set (GroupsList s') = {x \<in> set (GroupsList s). cstr (g_name x) \<noteq> cstr (g_name g)} \<union> set_option (Some (marked gone tid g))"
    if "server_ok s" "G_Trans_memb_id s = tid \<and> gone_in s = gone" "g \<in> set (GroupsList s)" "True" "readers 1 s g" for s g
    using trans_step that by blast
  show "G_Trans_memb_id s' = tid \<and> gone_in s' = gone"
    if "G_Trans_memb_id s = tid \<and> gone_in s = gone" "kept m s s'" "aside s s'" for s m s'
    using that gone_same [OF that(3)] by (simp add: aside_def same_rest_def same_membs_def)
qed (auto simp: marked_def)

section \<open>The regular membership\<close>

definition regrouped :: "membership_id \<Rightarrow> group \<Rightarrow> group option" where
  "regrouped rid g = (if \<not> g_changed g then Some g
     else (let g1 = without_daemons Is_partitioned_daemon g in
       if g_daemons g1 = [] then None
       else Some (relabel \<lparr>gid_memb = rid, gid_index = 1\<rparr> False (\<lambda>d. if Is_partitioned_daemon d then dm_memb d else rid) g1)))"

definition home_stays :: "int32u \<Rightarrow> group \<Rightarrow> bool" where
  "home_stays me g \<longleftrightarrow> small g \<and> (\<forall>d \<in> set (g_daemons g). dm_proc d = me \<longrightarrow> \<not> Is_partitioned_daemon d)"

lemma without_fields [simp]: "g_name (without_daemons e g) = g_name g" "g_mboxes (without_daemons e g) = g_mboxes g"
    "g_daemons (without_daemons e g) = filter (\<lambda>d. \<not> e d) (g_daemons g)"
  by (simp_all add: without_daemons_def Let_def)

lemma without_small: "small g \<Longrightarrow> small (without_daemons e g)"
proof -
  have "length (members_of (filter P ds)) \<le> length (members_of ds)" for P ds
    by (induction ds) (auto simp: members_of_def)
  then show "small g \<Longrightarrow> small (without_daemons e g)"
    using le_trans by (fastforce simp: small_def group_members_eq)
qed

lemma removed_group:
  assumes sok: "server_ok s" and g: "g \<in> set (GroupsList s)" and g1: "g_name g1 = g_name g" "g_daemons g1 = []" "g_mboxes g1 = []"
  shows "\<exists>s'. G_remove_group g1 s = Some s' \<and> kept 0 s s' \<and> aside s s' \<and>
    set (GroupsList s') = {x \<in> set (GroupsList s). cstr (g_name x) \<noteq> cstr (g_name g)}"
proof -
  have ord: "groups_in_order (GroupsList s)" using sok by (simp add: server_ok_def)
  have "G_get_group (g_name g1) s \<noteq> None" using get_group_None [OF ord, of "g_name g1"] g g1(1) by auto
  then have r: "G_remove_group g1 s = Some (count_groups (- 1) (erase_group (g_name g1) s))"
    using g1 by (auto simp: G_remove_group_def)
  let ?s = "count_groups (- 1) (erase_group (g_name g1) s)"
  have gl: "GroupsList ?s = GroupsList (erase_group (g_name g1) s)" by (simp add: count_groups_def upd_dmn_def)
  note er = erase_group_spec [OF ord, of "g_name g1"]
  have st: "groups_step s ?s" using groups_step_trans [of s "erase_group (g_name g1) s"] by simp
  have "server_ok ?s" using sok er groups_step_same(2,3,10) [OF st] by (simp add: server_ok_def gl)
  then have "kept 0 s ?s" by (rule step_kept [OF st])
  moreover have "aside s ?s" using aside_trans [of s "erase_group (g_name g1) s"] by simp
  ultimately show ?thesis using r er(2) g1(1) gl by simp
qed

lemma reg_step:
  assumes sok: "server_ok s" and g: "g \<in> set (GroupsList s)" "home_stays me g" and r: "readers 2 s g"
    and I: "G_Reg_memb_id s = rid" "Gstate s \<noteq> GGT" "My_id s = me"
  shows "\<exists>s'. reg_group g s = Some s' \<and> kept 2 s s' \<and> aside s s' \<and>
    set (GroupsList s') = {x \<in> set (GroupsList s). cstr (g_name x) \<noteq> cstr (g_name g)} \<union> set_option (regrouped rid g)"
proof (cases "g_changed g")
  case False
  then show ?thesis using kept_refl [OF sok] walked_same [OF sok g(1)] by (simp add: reg_group_def regrouped_def)
next
  case True
  let ?g1 = "without_daemons Is_partitioned_daemon g"
  have gok: "group_ok s g" using sok g(1) by (simp add: server_ok_def)
  have "to_eliminate s = Is_partitioned_daemon" using I(2) by (simp add: to_eliminate_def fun_eq_iff)
  then have e: "G_eliminate_partitioned_daemons g s = Some ?g1"
    using eliminate_spec [OF gok] by (simp add: G_eliminate_partitioned_daemons_def)
  have "\<forall>d \<in> set (g_daemons g). dm_proc d = My_id s \<longrightarrow> \<not> Is_partitioned_daemon d"
    using g(2) I(3) by (simp add: home_stays_def)
  note wo = without_ok [OF gok this]
  show ?thesis
  proof (cases "g_daemons ?g1 = []")
    case empty: True
    then have "g_mboxes ?g1 = []" using wo(3) by simp
    from removed_group [OF sok g(1) _ empty this] obtain s' where s': "G_remove_group ?g1 s = Some s'" "kept 0 s s'" "aside s s'"
      "set (GroupsList s') = {x \<in> set (GroupsList s). cstr (g_name x) \<noteq> cstr (g_name g)}" by auto
    moreover have "reg_group g s = Some s'" using True e wo(2) empty s'(1) by (simp add: reg_group_def)
    moreover have "regrouped rid g = None" using True empty by (simp add: regrouped_def)
    ultimately show ?thesis using kept_mono [of 0 s s' 2] by auto
  next
    case False
    let ?m = "\<lambda>d. if Is_partitioned_daemon d then dm_memb d else rid"
    let ?g2 = "relabel \<lparr>gid_memb = rid, gid_index = 1\<rparr> False ?m ?g1"
    have g1ok: "group_ok s ?g1" using wo(1) False by blast
    then have g2ok: "group_ok s ?g2" by (simp only: relabel_ok)
    have g2: "G_update_daemon_memb_ids (with_reg_id s ?g1) = ?g2" using I(1) by (simp add: with_reg_id_updated cong: if_cong)
    let ?s1 = "put_group ?g2 s"
    have ord: "groups_in_order (GroupsList s)" using sok by (simp add: server_ok_def)
    have ok1: "server_ok ?s1" by (rule put_server_ok [OF sok _ ord _ g2ok]) auto
    have st: "groups_step s ?s1" by simp
    have k1: "kept 0 s ?s1" by (rule step_kept [OF st ok1])
    have gl: "set (GroupsList ?s1) = {x \<in> set (GroupsList s). cstr (g_name x) \<noteq> cstr (g_name g)} \<union> {?g2}"
      using put_group_spec(2) [OF ord, of ?g2] by auto
    have sm: "small ?g2" using without_small [of g] g(2) by (simp add: home_stays_def small_def)
    have r1: "readers (2 + 0) ?s1 ?g2" using r groups_step_same(11) [OF st] by (simp add: readers_def)
    have g2ok1: "group_ok ?s1 ?g2" using ok1 gl by (simp add: server_ok_def)
    have "\<exists>s' out. (if g_mboxes ?g2 = [] then Some ?s1 else G_send_heavyweight_memb ?g2 ?s1) = Some s' \<and> sent_to 2 out ?s1 s'"
    proof (cases "g_mboxes ?g2 = []")
      case True
      then show ?thesis using sent_none by auto
    next
      case False
      then show ?thesis using heavyweight_sends [OF ok1 g2ok1 _ r1] sm by (simp add: small_def)
    qed
    then obtain s' out where s': "(if g_mboxes ?g2 = [] then Some ?s1 else G_send_heavyweight_memb ?g2 ?s1) = Some s'"
      "sent_to 2 out ?s1 s'" by blast
    have "g_num_members ?g1 \<noteq> 0" using wo(2) False by blast
    then have "reg_group g s = Some s'"
      using True s'(1) by (simp add: reg_group_def e g2 Let_def)
    moreover have "kept 2 s s'" using kept_trans [OF k1 sent_kept [OF s'(2) ok1]] by (simp add: numeral_2_eq_2)
    moreover have "aside s s'" using aside_trans [OF _ quiet_aside [OF sent_quiet [OF s'(2)]]] by simp
    moreover have "GroupsList s' = GroupsList ?s1" by (rule quiet_server(1) [OF sent_quiet [OF s'(2)]])
    moreover have "regrouped rid g = Some ?g2" using True False by (simp add: regrouped_def)
    ultimately show ?thesis using gl by (intro exI [of _ s']) simp
  qed
qed

interpretation reg_walk: group_walk reg_group "regrouped rid" 2
    "\<lambda>s. G_Reg_memb_id s = rid \<and> Gstate s \<noteq> GGT \<and> My_id s = me" "home_stays me"
  for rid :: membership_id and me :: int32u
proof unfold_locales
  show "\<exists>s'. reg_group g s = Some s' \<and> kept 2 s s' \<and> aside s s' \<and>
      set (GroupsList s') = {x \<in> set (GroupsList s). cstr (g_name x) \<noteq> cstr (g_name g)} \<union> set_option (regrouped rid g)"
    if "server_ok s" "G_Reg_memb_id s = rid \<and> Gstate s \<noteq> GGT \<and> My_id s = me" "g \<in> set (GroupsList s)" "home_stays me g"
      "readers 2 s g" for s g
    using reg_step that by blast
  show "G_Reg_memb_id s' = rid \<and> Gstate s' \<noteq> GGT \<and> My_id s' = me"
    if "G_Reg_memb_id s = rid \<and> Gstate s \<noteq> GGT \<and> My_id s = me" "kept m s s'" "aside s s'" for s m s'
    using that by (simp add: aside_def same_rest_def same_membs_def kept_def)
qed (auto simp: regrouped_def Let_def split: if_splits)

end
