(* ===== verification/Group_subtractive.thy ===== *)
theory Group_subtractive
  imports Group_partitions Group_agreement
begin

text \<open>The property of a change of the ring that only takes daemons away, and an example of it.\<close>

section \<open>Changes of the state only\<close>

lemma gstate_same:
  "server_ok (s\<lparr>Gstate := x\<rparr>) = server_ok s" "reader_ok k (s\<lparr>Gstate := x\<rparr>) b = reader_ok k s b"
  "My_id (s\<lparr>Gstate := x\<rparr>) = My_id s"
proof -
  let ?s = "s\<lparr>Gstate := x\<rparr>"
  have n: "nexts ?s = nexts s" "prevs ?s = prevs s" "hashes ?s = hashes s" "mbox_at ?s = mbox_at s" "name_at ?s = name_at s"
    by (simp_all add: nexts_def prevs_def hashes_def mbox_at_def name_at_def fun_eq_iff)
  have d: "dir_ok ?s = dir_ok s" by (simp add: dir_ok_def sessions_ok_def sorted_ok_def hash_ok_def n)
  have pn: "proc_named pn ?s = proc_named pn s" for pn by (simp add: proc_named_def)
  have h: "home ?s = home s" by (intro ext) (simp add: home_def pn split: option.split)
  have "Sess_get_session priv ?s = Sess_get_session priv s" for priv by (simp add: Sess_get_session_def)
  then have mp: "mbox_of_priv ?s priv = mbox_of_priv s priv" for priv by (simp add: mbox_of_priv_def n split: option.split)
  have b: "box ?s = box s" by (intro ext) (simp add: box_def mp split: option.split)
  show my: "My_id ?s = My_id s" by (simp add: My_id_def)
  have "group_ok ?s g = group_ok s g" for g by (simp add: group_ok_def daemon_ok_def daemons_in_order_def h b my)
  then show "server_ok ?s = server_ok s" by (simp add: server_ok_def d)
  have ix: "Sess_get_session_index c ?s = Sess_get_session_index c s" for c by (simp add: Sess_get_session_index_def)
  have ck: "client_ok ?s ses = client_ok s ses" for ses by (simp add: client_ok_def ix sane_send_def mess_of_def n)
  show "reader_ok k ?s b = reader_ok k s b" by (simp add: reader_ok_def ix n ck mess_of_def)
qed

text \<open>\<open>calm s s'\<close>: nothing that the groups and their readers depend on has changed.\<close>

definition calm :: "server \<Rightarrow> server \<Rightarrow> bool" where
  "calm s s' \<longleftrightarrow> groups_step s (s'\<lparr>Gstate := Gstate s\<rparr>) \<and> GroupsList s' = GroupsList s"

lemma calm_facts:
  assumes "calm s s'"
  shows "server_ok s' = server_ok s" "readers_ok k s' = readers_ok k s" "rosters s' = rosters s" "My_id s' = My_id s"
proof -
  let ?s = "s'\<lparr>Gstate := Gstate s\<rparr>"
  have st: "groups_step s ?s" and gl: "GroupsList s' = GroupsList s" using assms by (simp_all add: calm_def)
  note same = groups_step_same [OF st]
  show "server_ok s' = server_ok s"
    using gstate_same(1) [where s = s' and x = "Gstate s"] same(2,3,10) gl by (simp add: server_ok_def)
  show "readers_ok k s' = readers_ok k s"
    using gstate_same(2) [where s = s' and x = "Gstate s"] same(11) gl by (simp add: readers_ok_def readers_def)
  show "rosters s' = rosters s" by (simp add: rosters_def gl)
  show "My_id s' = My_id s" using gstate_same(3) [where s = s' and x = "Gstate s"] same(4) by simp
qed

section \<open>Settled groups\<close>

definition settled :: "server \<Rightarrow> bool" where
  "settled s \<longleftrightarrow> (\<forall>g \<in> set (GroupsList s). \<not> g_changed g \<and> (\<forall>d \<in> set (g_daemons g). \<not> Is_partitioned_daemon d))"

lemma known_id: "mid_proc_id m \<noteq> - 1 \<Longrightarrow> \<not> Is_partitioned_daemon (d\<lparr>dm_memb := m\<rparr>)"
  by (simp add: Is_partitioned_daemon_def Is_unknown_memb_id_def)

lemma marked_daemons:
  assumes g: "\<forall>d \<in> set (g_daemons g). \<not> Is_partitioned_daemon d" and tid: "mid_proc_id tid \<noteq> - 1"
  shows "\<forall>d \<in> set (g_daemons (marked gone tid g)). Is_partitioned_daemon d \<longleftrightarrow> gone (dm_proc d)"
proof (cases "\<exists>d \<in> set (g_daemons g). gone (dm_proc d)")
  case True
  then have "g_daemons (marked gone tid g) = map (\<lambda>d. d\<lparr>dm_memb := if gone (dm_proc d) then unknown_memb_id
      else if Is_partitioned_daemon d then dm_memb d else tid\<rparr>) (g_daemons g)" by (simp add: marked_def relabel_def)
  then show ?thesis using g known_id [OF tid] unknown_partitioned by auto
next
  case False
  then show ?thesis using g by (simp add: marked_def)
qed

lemma roster_filters:
  "group_roster (without_daemons e g) = (\<lambda>d. roster (g, d)) ` {d \<in> set (g_daemons g). \<not> e d}"
  "{(k, p, ms) \<in> group_roster g. \<not> gone p} = (\<lambda>d. roster (g, d)) ` {d \<in> set (g_daemons g). \<not> gone (dm_proc d)}"
  by (auto simp: group_roster_def roster_def)

text \<open>A group through both memberships: it keeps the members of the daemons that stay.\<close>

lemma regrouped_marked:
  assumes g: "\<not> g_changed g" "\<forall>d \<in> set (g_daemons g). \<not> Is_partitioned_daemon d"
    and ids: "mid_proc_id tid \<noteq> - 1" "mid_proc_id rid \<noteq> - 1"
  shows "(case regrouped rid (marked gone tid g) of None \<Rightarrow> {} | Some g' \<Rightarrow> group_roster g') = {(k, p, ms) \<in> group_roster g. \<not> gone p}"
    "regrouped rid (marked gone tid g) = Some g' \<Longrightarrow> \<not> g_changed g' \<and> (\<forall>d \<in> set (g_daemons g'). \<not> Is_partitioned_daemon d) \<and>
      g_gid g' = (if \<exists>d \<in> set (g_daemons g). gone (dm_proc d) then \<lparr>gid_memb = rid, gid_index = 1\<rparr> else g_gid g)"
proof -
  let ?m = "marked gone tid g"
  have r: "group_roster ?m = group_roster g" by (simp add: marked_def)
  show "(case regrouped rid ?m of None \<Rightarrow> {} | Some g' \<Rightarrow> group_roster g') = {(k, p, ms) \<in> group_roster g. \<not> gone p}"
  proof (cases "\<exists>d \<in> set (g_daemons g). gone (dm_proc d)")
    case False
    then have "?m = g" by (simp add: marked_def)
    then show ?thesis using g(1) False by (auto simp: regrouped_def group_roster_def roster_def)
  next
    case True
    then have c: "g_changed ?m" by (simp add: marked_def)
    have f: "group_roster (without_daemons Is_partitioned_daemon ?m) = {(k, p, ms) \<in> group_roster g. \<not> gone p}"
    proof -
      have "{d \<in> set (g_daemons ?m). \<not> Is_partitioned_daemon d} = {d \<in> set (g_daemons ?m). \<not> gone (dm_proc d)}"
        using marked_daemons [OF g(2) ids(1), of gone] by blast
      then show ?thesis unfolding r [symmetric] roster_filters by simp
    qed
    show ?thesis
    proof (cases "g_daemons (without_daemons Is_partitioned_daemon ?m) = []")
      case True
      then have "{(k, p, ms) \<in> group_roster g. \<not> gone p} = {}" unfolding f [symmetric] by (simp only: group_roster_def) simp
      then show ?thesis using c True unfolding regrouped_def Let_def by simp
    next
      case False
      then show ?thesis using c f unfolding regrouped_def Let_def by simp
    qed
  qed
  show "\<not> g_changed g' \<and> (\<forall>d \<in> set (g_daemons g'). \<not> Is_partitioned_daemon d) \<and>
      g_gid g' = (if \<exists>d \<in> set (g_daemons g). gone (dm_proc d) then \<lparr>gid_memb = rid, gid_index = 1\<rparr> else g_gid g)"
    if g': "regrouped rid ?m = Some g'"
  proof (cases "\<exists>d \<in> set (g_daemons g). gone (dm_proc d)")
    case False
    then have "?m = g" by (simp add: marked_def)
    then show ?thesis using g g' False by (simp add: regrouped_def)
  next
    case True
    then have "g_changed ?m" by (simp add: marked_def)
    then have "g' = relabel \<lparr>gid_memb = rid, gid_index = 1\<rparr> False (\<lambda>d. if Is_partitioned_daemon d then dm_memb d else rid)
        (without_daemons Is_partitioned_daemon ?m)"
      using g' by (simp add: regrouped_def Let_def split: if_splits)
    then show ?thesis using True known_id [OF ids(2)] by (auto simp: relabel_def)
  qed
qed

section \<open>Both memberships\<close>

definition in_trans :: "server \<Rightarrow> configuration \<Rightarrow> int32u \<Rightarrow> bool" where
  "in_trans s memb p \<longleftrightarrow> Conf_id_in_conf (dmn s) memb p \<noteq> None"

lemma all_room_readers_ok: "server_ok s \<Longrightarrow> all_room k s \<Longrightarrow> j \<le> k \<Longrightarrow> readers_ok j s"
  using all_room_readers all_room_mono by blast

lemma rosters_turn:
  assumes "set (GroupsList s') = turn h gs" and "\<forall>g \<in> set gs. (case h g of None \<Rightarrow> {} | Some g' \<Rightarrow> group_roster g') = F g"
  shows "rosters s' = (\<Union>g \<in> set gs. F g)"
proof -
  have "rosters s' = (\<Union>g \<in> set gs. case h g of None \<Rightarrow> {} | Some g' \<Rightarrow> group_roster g')"
  proof -
    have "(case h g of None \<Rightarrow> {} | Some g' \<Rightarrow> group_roster g') = \<Union> (group_roster ` set_option (h g))" for g
      by (cases "h g") auto
    then show ?thesis unfolding rosters_def assms(1) turn_options by auto
  qed
  also have "\<dots> = (\<Union>g \<in> set gs. F g)" using assms(2) by simp
  finally show ?thesis .
qed

lemma Trans_core:
  assumes sok: "server_ok s" and gst: "Gstate s = GOP" and r: "readers_ok (length (GroupsList s) + k) s"
  shows "\<exists>s'. G_handle_trans_memb memb mid s = Some s' \<and> Gstate s' = GTRANS \<and> server_ok s' \<and> readers_ok k s' \<and>
    rosters s' = rosters s \<and> set (GroupsList s') = turn (\<lambda>g. Some (marked (\<lambda>p. \<not> in_trans s memb p) mid g)) (GroupsList s) \<and>
    My_id s' = My_id s \<and> same_conf s s' \<and> G_Trans_memb s' = memb \<and>
    MySyncedSet s' = filter (in_trans s memb) (MySyncedSet s)"
proof -
  let ?s0 = "s\<lparr>G_Trans_memb := memb, G_Trans_memb_id := mid\<rparr>" and ?gone = "\<lambda>p. \<not> in_trans s memb p"
  have c0: "calm s ?s0" by (simp add: calm_def groups_step_def sess_table.defs)
  have ok0: "server_ok ?s0" using calm_facts(1) [OF c0] sok by blast
  have gone: "gone_in ?s0 = ?gone" by (simp add: gone_in_def in_trans_def fun_eq_iff)
  have "readers_ok (length (GroupsList s) + k) ?s0" using calm_facts(2) [OF c0] r by blast
  then have r0: "readers_ok (1 * length (GroupsList ?s0) + k) ?s0" by simp
  have I0: "G_Trans_memb_id ?s0 = mid \<and> gone_in ?s0 = ?gone" using gone by simp
  from trans_walk.walk [OF ok0 I0 r0] obtain s1 where
    s1: "walk_groups trans_group ?s0 = Some s1" "kept (1 * length (GroupsList ?s0)) ?s0 s1" "aside ?s0 s1" "readers_ok k s1"
    "set (GroupsList s1) = turn (\<lambda>g. Some (marked ?gone mid g)) (GroupsList ?s0)" by blast
  let ?s2 = "shift_gstate GTRANS s1"
  let ?s' = "?s2\<lparr>MySyncedSet := G_update_synced_set (dmn ?s2) (MySyncedSet ?s2) (G_Trans_memb ?s2)\<rparr>"
  have c1: "calm s1 ?s'" by (simp add: calm_def groups_step_def sess_table.defs shift_gstate_def upd_dmn_def upd_status_def)
  have same: "MySyncedSet s1 = MySyncedSet s" "G_Trans_memb s1 = memb" "same_conf s s1"
    using s1(3) by (simp_all add: aside_def same_rest_def same_membs_def same_conf_def)
  have in1: "Conf_id_in_conf (dmn ?s2) memb p \<noteq> None \<longleftrightarrow> in_trans s memb p" for p
    using same(3) by (simp add: in_trans_def Conf_id_in_conf_def Conf_id_in_seg_def same_conf_def shift_gstate_def upd_dmn_def upd_status_def)
  have f: "MySyncedSet ?s2 = MySyncedSet s1" "G_Trans_memb ?s2 = G_Trans_memb s1" "Gstate ?s2 = GTRANS" "GroupsList ?s2 = GroupsList s1"
    by (simp_all add: shift_gstate_def upd_dmn_def)
  have "G_handle_trans_memb memb mid s = Some ?s'"
    using gst s1(1) by (simp add: G_handle_trans_memb_def Let_def)
  moreover have "server_ok ?s'" using calm_facts(1) [OF c1] s1(2) by (simp add: kept_def)
  moreover have "readers_ok k ?s'" using calm_facts(2) [OF c1] s1(4) by simp
  moreover have "rosters ?s' = rosters s"
    using calm_facts(3) [OF c1] calm_facts(3) [OF c0] turn_rosters [OF s1(5)] by (simp add: marked_def)
  moreover have "My_id ?s' = My_id s" using calm_facts(4) [OF c1] calm_facts(4) [OF c0] s1(2) by (simp add: kept_def)
  moreover have "same_conf s ?s'" using same(3) by (simp add: same_conf_def shift_gstate_def upd_dmn_def upd_status_def)
  moreover have "MySyncedSet ?s' = filter (in_trans s memb) (MySyncedSet s)"
    unfolding in_trans_def [abs_def] using in1 same(1,2)
    by (simp add: G_update_synced_set_def G_update_synced_set_status_def Let_def f in_trans_def)
  ultimately show ?thesis using s1(5) f same(2) by (intro exI [of _ ?s']) simp
qed

lemma Reg_core:
  assumes sok: "server_ok s" and gst: "Gstate s = GTRANS" and eq: "Conf_num_procs (G_Trans_memb s) = Conf_num_procs memb"
    and r: "readers_ok (2 * length (GroupsList s) + k) s" and g: "\<forall>g \<in> set (GroupsList s). home_stays (My_id s) g"
  shows "\<exists>s'. G_handle_reg_memb memb mid s = Some s' \<and> Gstate s' = GOP \<and> server_ok s' \<and> readers_ok k s' \<and>
    set (GroupsList s') = turn (regrouped mid) (GroupsList s) \<and> MySyncedSet s' = MySyncedSet s"
proof -
  let ?s0 = "s\<lparr>G_Reg_memb := memb, G_Reg_memb_id := mid\<rparr>"
  have c0: "calm s ?s0" by (simp add: calm_def groups_step_def sess_table.defs)
  have ok0: "server_ok ?s0" using calm_facts(1) [OF c0] sok by blast
  have my: "My_id ?s0 = My_id s" by (rule calm_facts(4) [OF c0])
  have I0: "G_Reg_memb_id ?s0 = mid \<and> Gstate ?s0 \<noteq> GGT \<and> My_id ?s0 = My_id s" using gst my by simp
  have "readers_ok (2 * length (GroupsList s) + k) ?s0" using calm_facts(2) [OF c0] r by blast
  then have r0: "readers_ok (2 * length (GroupsList ?s0) + k) ?s0" by simp
  have g0: "\<forall>g \<in> set (GroupsList ?s0). home_stays (My_id s) g" using g by simp
  from reg_walk.walk [OF ok0 I0 r0 g0] obtain s1 where
    s1: "walk_groups reg_group ?s0 = Some s1" "kept (2 * length (GroupsList ?s0)) ?s0 s1" "aside ?s0 s1" "readers_ok k s1"
    "set (GroupsList s1) = turn (regrouped mid) (GroupsList ?s0)" by blast
  let ?s' = "shift_gstate GOP s1"
  have c1: "calm s1 ?s'" by (simp add: calm_def groups_step_def sess_table.defs shift_gstate_def upd_dmn_def upd_status_def)
  have "G_handle_reg_memb memb mid s = Some ?s'"
    using gst s1(1) eq by (simp add: G_handle_reg_memb_def reg_in_trans_def Let_def)
  moreover have "server_ok ?s'" using calm_facts(1) [OF c1] s1(2) by (simp add: kept_def)
  moreover have "readers_ok k ?s'" using calm_facts(2) [OF c1] s1(4) by simp
  moreover have "MySyncedSet ?s' = MySyncedSet s" "GroupsList ?s' = GroupsList s1" "Gstate ?s' = GOP"
    using s1(3) by (simp_all add: aside_def same_rest_def shift_gstate_def upd_dmn_def)
  ultimately show ?thesis using s1(5) by (intro exI [of _ ?s']) simp
qed

lemma view_of_rosters: "rosters s = rosters t \<Longrightarrow> view s = view t"
  by (intro ext) (simp add: view_rosters)

lemma if_some_not: "(if \<exists>d \<in> A. \<not> P d then x else y) = (if \<forall>d \<in> A. P d then y else x)"
  by auto

lemma turn_Some: "turn (\<lambda>g. Some (h g)) gs = h ` set gs"
  by (auto simp: turn_def)

lemma turn_set: "set gs = F ` set hs \<Longrightarrow> turn h gs = turn (\<lambda>g. h (F g)) hs"
  by (auto simp: turn_def)

text \<open>
  C31: A ring change that only takes daemons away, handled by a transitional and then a regular
  membership, ends in normal operation with exactly the members of the daemons that stayed in every
  group; in between the groups are as they were.  A group that lost a daemon has the new membership
  in its id, the others keep theirs, no group is left marked, and the synced set is restricted to
  the daemons that stayed.
\<close>

theorem Subtractive_change:
  assumes "server_ok s" and "Gstate s = GOP" and "settled s" and "in_trans s tm (My_id s)"
    and "mid_proc_id tid \<noteq> - 1" and "mid_proc_id rid \<noteq> - 1" and "Conf_num_procs tm = Conf_num_procs rm"
    and "\<forall>k. card (view s k) \<le> max_members" and "all_room (3 * length (GroupsList s)) s"
  shows "\<exists>s1 s2. G_handle_trans_memb tm tid s = Some s1 \<and> Gstate s1 = GTRANS \<and> server_ok s1 \<and> view s1 = view s \<and>
    G_handle_reg_memb rm rid s1 = Some s2 \<and> Gstate s2 = GOP \<and> server_ok s2 \<and> settled s2 \<and>
    rosters s2 = {(k, p, ms) \<in> rosters s. in_trans s tm p} \<and>
    (\<forall>g' \<in> set (GroupsList s2). \<exists>g \<in> set (GroupsList s). g_name g' = g_name g \<and>
      g_gid g' = (if \<forall>d \<in> set (g_daemons g). in_trans s tm (dm_proc d) then g_gid g else \<lparr>gid_memb = rid, gid_index = 1\<rparr>)) \<and>
    MySyncedSet s2 = filter (in_trans s tm) (MySyncedSet s)"
proof -
  let ?gone = "\<lambda>p. \<not> in_trans s tm p"
  have "3 * length (GroupsList s) = length (GroupsList s) + 2 * length (GroupsList s)" by simp
  then have "readers_ok (length (GroupsList s) + 2 * length (GroupsList s)) s" using all_room_readers [OF assms(1,9)] by (simp only:)
  from Trans_core [OF assms(1,2) this, of tm tid] obtain s1 where
    s1: "G_handle_trans_memb tm tid s = Some s1" "Gstate s1 = GTRANS" "server_ok s1" "readers_ok (2 * length (GroupsList s)) s1"
    "rosters s1 = rosters s" "set (GroupsList s1) = turn (\<lambda>g. Some (marked ?gone tid g)) (GroupsList s)"
    "My_id s1 = My_id s" "G_Trans_memb s1 = tm" "MySyncedSet s1 = filter (in_trans s tm) (MySyncedSet s)" by blast
  have v1: "view s1 = view s" by (rule view_of_rosters [OF s1(5)])
  have l1: "length (GroupsList s1) = length (GroupsList s)" using groups_card [OF s1(3)] groups_card [OF assms(1)] by (simp add: v1)
  have g1: "set (GroupsList s1) = marked ?gone tid ` set (GroupsList s)" unfolding s1(6) by (rule turn_Some)
  have old: "\<not> g_changed g" "\<forall>d \<in> set (g_daemons g). \<not> Is_partitioned_daemon d" if "g \<in> set (GroupsList s)" for g
    using assms(3) that by (auto simp: settled_def)
  have "home_stays (My_id s1) (marked ?gone tid g)" if g: "g \<in> set (GroupsList s)" for g
  proof -
    have "marked ?gone tid g \<in> set (GroupsList s1)" using g g1 by simp
    then have "small (marked ?gone tid g)" using small_groups [OF s1(3)] assms(8) v1 by simp
    moreover have "\<not> Is_partitioned_daemon d" if "d \<in> set (g_daemons (marked ?gone tid g))" "dm_proc d = My_id s" for d
      using marked_daemons [OF old(2) [OF g] assms(5), of ?gone] that assms(4) by auto
    ultimately show ?thesis by (simp add: home_stays_def s1(7))
  qed
  then have hs: "\<forall>g \<in> set (GroupsList s1). home_stays (My_id s1) g" unfolding g1 by blast
  have "readers_ok (2 * length (GroupsList s1) + 0) s1" using s1(4) l1 by simp
  from Reg_core [OF s1(3,2) _ this hs, of rm rid] assms(7) s1(8) obtain s2 where
    s2: "G_handle_reg_memb rm rid s1 = Some s2" "Gstate s2 = GOP" "server_ok s2"
    "set (GroupsList s2) = turn (regrouped rid) (GroupsList s1)" "MySyncedSet s2 = MySyncedSet s1" by auto
  have g2: "set (GroupsList s2) = turn (\<lambda>g. regrouped rid (marked ?gone tid g)) (GroupsList s)"
    unfolding s2(4) by (rule turn_set [OF g1])
  note rm = regrouped_marked [OF old assms(5,6)]
  have "rosters s2 = (\<Union>g \<in> set (GroupsList s). {(k, p, ms) \<in> group_roster g. \<not> ?gone p})"
    by (rule rosters_turn [OF g2], rule ballI, rule rm(1); assumption)
  also have "\<dots> = {(k, p, ms) \<in> rosters s. in_trans s tm p}" by (auto simp: rosters_def)
  finally have r2: "rosters s2 = {(k, p, ms) \<in> rosters s. in_trans s tm p}" .
  have "\<not> g_changed g' \<and> (\<forall>d \<in> set (g_daemons g'). \<not> Is_partitioned_daemon d)" if e: "g' \<in> set (GroupsList s2)" for g'
  proof -
    obtain g where g: "g \<in> set (GroupsList s)" "regrouped rid (marked ?gone tid g) = Some g'" using e g2 by (auto simp: turn_def)
    then show ?thesis using rm(2) [OF g(1) g(1) g(2)] by blast
  qed
  then have "settled s2" by (simp add: settled_def)
  moreover have "\<exists>g \<in> set (GroupsList s). g_name g' = g_name g \<and>
      g_gid g' = (if \<forall>d \<in> set (g_daemons g). in_trans s tm (dm_proc d) then g_gid g else \<lparr>gid_memb = rid, gid_index = 1\<rparr>)"
    if e: "g' \<in> set (GroupsList s2)" for g'
  proof -
    obtain g where g: "g \<in> set (GroupsList s)" "regrouped rid (marked ?gone tid g) = Some g'" using e g2 by (auto simp: turn_def)
    have "g_name g' = g_name g" unfolding reg_walk.same_name [OF g(2)] by (rule trans_walk.same_name [OF refl])
    moreover have "g_gid g' = (if \<forall>d \<in> set (g_daemons g). in_trans s tm (dm_proc d) then g_gid g else \<lparr>gid_memb = rid, gid_index = 1\<rparr>)"
    proof -
      have "g_gid g' = (if \<exists>d \<in> set (g_daemons g). \<not> in_trans s tm (dm_proc d) then \<lparr>gid_memb = rid, gid_index = 1\<rparr> else g_gid g)"
        using rm(2) [OF g(1) g(1) g(2)] by blast
      then show ?thesis unfolding if_some_not .
    qed
    ultimately show ?thesis using g(1) by blast
  qed
  ultimately show ?thesis using s1(1,2,3,9) v1 s2(1,2,3,5) r2 by (intro exI [of _ s1] exI [of _ s2]) simp
qed

section \<open>An example\<close>

text \<open>A group with a client of the own daemon and one of a daemon that leaves.\<close>

definition xy_group :: group where
  "xy_group = \<lparr>g_name = [103] @ replicate 31 0, g_gid = \<lparr>gid_memb = sample_memb_id, gid_index = 2\<rparr>, g_changed = False,
     g_num_members = 2, g_daemons = [\<lparr>dm_proc = 1, dm_memb = sample_memb_id, dm_members = [client_x]\<rparr>,
       \<lparr>dm_proc = 2, dm_memb = sample_memb_id, dm_members = [client_y]\<rparr>], g_mboxes = [7]\<rparr>"

definition daemon_xy :: server where "daemon_xy = (sample_server 0)\<lparr>GroupsList := [xy_group], MySyncedSet := [1, 2, 3]\<rparr>"

definition only_x :: configuration where
  "only_x = sample_conf\<lparr>segments := (\<lambda>_. sample_segment\<lparr>seg_procs := [0]\<rparr>)\<rparr>"

lemma xy_step: "groups_step (sample_server 0) daemon_xy"
  by (simp add: groups_step_def daemon_xy_def sess_table.defs)

lemma xy_ok: "server_ok daemon_xy"
proof -
  let ?s = "sample_server 0"
  note same = groups_step_same [OF xy_step]
  have my: "My_id ?s = 1" by simp code_simp
  obtain n where n: "sessions_ok one_client [n]" "mbox_at one_client n = 7" "name_at one_client n = [97]" using one_client_ok by blast
  have "sessions_ok ?s [n]" using n(1) by (simp add: sample_table)
  from Session_lookups_core [OF this, of 0 "[97]"] have "Sess_get_session [97] ?s = Some (Some n)"
    using n(3) by (auto simp: sample_table cstr_def split: option.splits)
  then have "box ?s client_x = Some 7" using n(2) by (simp add: box_def names_of_clients mbox_of_priv_def sample_table)
  moreover have "canon (g_name xy_group)" "canon client_x" by code_simp+
  ultimately have "group_ok ?s xy_group"
    using my sample_positions [of 0] canon_client_y(1) sample_homes [of 0]
    by (simp add: group_ok_def xy_group_def daemons_in_order_def locals_def group_members_def daemon_ok_def)
  moreover have "conf_ok (dmn ?s)" "dir_ok ?s" using sample_ok [of 0] by (simp_all only: server_ok_def)
  moreover have "GroupsList daemon_xy = [xy_group]" by (simp add: daemon_xy_def)
  ultimately show ?thesis by (simp add: server_ok_def groups_in_order_def same(2,3,10))
qed

lemma only_x_members: "in_trans daemon_xy only_x 1" "\<not> in_trans daemon_xy only_x 2" "\<not> in_trans daemon_xy only_x 3"
proof -
  have "Conf_id_in_conf (dmn daemon_xy) only_x p = (if proc_has_ip (named_proc 0) p then Some 0 else None)" for p
    by (simp add: daemon_xy_def Conf_id_in_conf_def Conf_id_in_seg_def only_x_def sample_conf_def)
  moreover have "proc_has_ip (named_proc 0) 1" "\<not> proc_has_ip (named_proc 0) 2" "\<not> proc_has_ip (named_proc 0) 3" by code_simp+
  ultimately show "in_trans daemon_xy only_x 1" "\<not> in_trans daemon_xy only_x 2" "\<not> in_trans daemon_xy only_x 3"
    by (simp_all add: in_trans_def)
qed

theorem Subtractive_change_witness:
  "\<exists>s1 s2. G_handle_trans_memb only_x \<lparr>mid_proc_id = 1, mid_time = 11\<rparr> daemon_xy = Some s1 \<and>
     G_handle_reg_memb only_x \<lparr>mid_proc_id = 1, mid_time = 12\<rparr> s1 = Some s2 \<and>
     rosters daemon_xy = {([103], 1, [client_x]), ([103], 2, [client_y])} \<and>
     rosters s2 = {([103], 1, [client_x])} \<and> MySyncedSet s2 = [1]"
proof -
  have c: "cstr (g_name xy_group) = [103]" by code_simp
  have gl: "GroupsList daemon_xy = [xy_group]" "MySyncedSet daemon_xy = [1, 2, 3]" "Gstate daemon_xy = GOP"
    by (simp_all add: daemon_xy_def)
  have r: "rosters daemon_xy = {([103], 1, [client_x]), ([103], 2, [client_y])}"
    using c by (simp add: rosters_def gl group_roster_def roster_def) (simp add: xy_group_def)
  have my: "My_id daemon_xy = 1"
  proof -
    have "p_id (named_proc 0) = 1" by code_simp
    then show ?thesis using groups_step_same(4) [OF xy_step] by simp
  qed
  have "settled daemon_xy" unfolding settled_def gl by code_simp
  moreover have "card (view daemon_xy k) \<le> max_members" for k
  proof -
    have "view daemon_xy k \<subseteq> {cstr client_x, cstr client_y}" by (auto simp: view_rosters r)
    then have "card (view daemon_xy k) \<le> card {cstr client_x, cstr client_y}" by (rule card_mono [rotated]) simp
    also have "\<dots> \<le> max_members" by (simp add: max_members_def card_insert_if)
    finally show ?thesis .
  qed
  moreover have "all_room (3 * length (GroupsList daemon_xy)) daemon_xy"
    using all_room_step [OF xy_step sample_room [of 3]] by (simp add: gl MAX_SESSION_MESSAGES_def)
  moreover have "mid_proc_id \<lparr>mid_proc_id = 1, mid_time = t\<rparr> \<noteq> - 1" for t by simp
  ultimately obtain s1 s2 where "G_handle_trans_memb only_x \<lparr>mid_proc_id = 1, mid_time = 11\<rparr> daemon_xy = Some s1"
    "G_handle_reg_memb only_x \<lparr>mid_proc_id = 1, mid_time = 12\<rparr> s1 = Some s2"
    "rosters s2 = {(k, p, ms) \<in> rosters daemon_xy. in_trans daemon_xy only_x p}"
    "MySyncedSet s2 = filter (in_trans daemon_xy only_x) (MySyncedSet daemon_xy)"
    using Subtractive_change [OF xy_ok gl(3), of only_x "\<lparr>mid_proc_id = 1, mid_time = 11\<rparr>" "\<lparr>mid_proc_id = 1, mid_time = 12\<rparr>" only_x]
      only_x_members(1) my by auto
  then show ?thesis using r only_x_members by (intro exI [of _ s1] exI [of _ s2]) (auto simp: gl)
qed

end
