(* ===== verification/Group_limits.thy ===== *)
theory Group_limits
  imports Group_agreement
begin

text \<open>How many local members the GROUPS messages can carry, and what happens with one more.\<close>

text \<open>
  C32: With at most 3121 members of one daemon in a group the loop that builds the GROUPS buffers
  ends, every buffer fits into the 100000 bytes that a receiver copies it to together with the
  message header, and every daemon of every group is in exactly one buffer, in order.
\<close>

theorem Groups_bufs_end:
  assumes "server_ok s" and "length (MySyncedSet s) \<le> MAX_PROCS_RING"
    and "\<forall>g \<in> set (GroupsList s). \<forall>d \<in> set (g_daemons g). length (dm_members d) \<le> max_local"
  shows "\<exists>s' es ess. G_build_new_groups_bufs s = Some s' \<and>
    Groups_bufs s' = rev (first_buf s es # map (later_buf s) ess) @ Groups_bufs s \<and>
    flat (es @ concat ess) = concat (map (\<lambda>g. map (Pair g) (g_daemons g)) (GroupsList s)) \<and>
    list_all (\<lambda>b. length b + data_header_size \<le> GROUPS_BUF_SIZE) (first_buf s es # map (later_buf s) ess)"
proof -
  have "\<forall>g \<in> set (GroupsList s). sendable_group g"
  proof
    fix g assume g: "g \<in> set (GroupsList s)"
    then have "group_ok s g" using assms(1) by (simp add: server_ok_def)
    then show "sendable_group g" using g assms(3) canon_length daemon_names
      by (auto simp: sendable_group_def sendable_daemon_def group_ok_def)
  qed
  from all_bufs [OF this assms(2), of "Groups_bufs s"] obtain es ess where
    b: "build_bufs s ([], []) True (Groups_bufs s) = Some (rev (first_buf s es # map (later_buf s) ess) @ Groups_bufs s)"
      "flat (es @ concat ess) = flat (map (\<lambda>g. (g, g_daemons g)) (GroupsList s))"
      "length (first_buf s es) \<le> body_limit" "\<forall>es \<in> set ess. good_entries s es \<and> length (later_buf s es) \<le> body_limit" by blast
  have "flat (map (\<lambda>g. (g, g_daemons g)) gs) = concat (map (\<lambda>g. map (Pair g) (g_daemons g)) gs)" for gs
    by (induction gs) simp_all
  then show ?thesis using b
    by (intro exI [of _ "s\<lparr>Groups_bufs := rev (first_buf s es # map (later_buf s) ess) @ Groups_bufs s\<rparr>"] exI [of _ es] exI [of _ ess])
      (auto simp: G_build_new_groups_bufs_def list_all_iff buf_sizes)
qed

theorem Groups_bufs_end_witness:
  "\<exists>s' es ess. G_build_new_groups_bufs (daemon_y []) = Some s' \<and>
    Groups_bufs s' = rev (first_buf (daemon_y []) es # map (later_buf (daemon_y [])) ess) \<and>
    flat (es @ concat ess) = [(y_group, \<lparr>dm_proc = 2, dm_memb = sample_memb_id, dm_members = [client_y]\<rparr>)]"
proof -
  have "\<forall>d \<in> set (g_daemons y_group). length (dm_members d) \<le> max_local" by code_simp
  moreover have "g_daemons y_group = [\<lparr>dm_proc = 2, dm_memb = sample_memb_id, dm_members = [client_y]\<rparr>]" by (simp add: y_group_def)
  ultimately obtain s' es ess where "G_build_new_groups_bufs (daemon_y []) = Some s'"
    "Groups_bufs s' = rev (first_buf (daemon_y []) es # map (later_buf (daemon_y [])) ess)"
    "flat (es @ concat ess) = [(y_group, \<lparr>dm_proc = 2, dm_memb = sample_memb_id, dm_members = [client_y]\<rparr>)]"
    using Groups_bufs_end [OF daemons_ok(2) [of "[]"]] by (auto simp: daemon_fields MAX_PROCS_RING_def)
  then show ?thesis by blast
qed

section \<open>One member more\<close>

lemma limit_value: "MAX_LOCAL_GROUP_MEMBERS = 3122"
  by (simp add: MAX_LOCAL_GROUP_MEMBERS_def buf_sizes)

lemma full_daemon:
  assumes "length (dm_members d) = MAX_LOCAL_GROUP_MEMBERS" and "n \<ge> 9 + GROUPS_BUF_GROUP_INFO_SIZE" and "n \<le> GROUPS_BUF_SIZE"
  shows "fill_daemons m n (d # ds) = Some ([], d # ds)"
proof -
  have "no_room (GROUPS_BUF_DAEMON_INFO_SIZE + length (dm_members d) * MAX_GROUP_NAME + data_header_size) n"
    using assms no_room_iff [of "GROUPS_BUF_DAEMON_INFO_SIZE + length (dm_members d) * MAX_GROUP_NAME + data_header_size" n]
    by (simp add: limit_value buf_sizes)
  then show ?thesis by simp
qed

lemma full_buffer:
  assumes "length (dm_members d) = MAX_LOCAL_GROUP_MEMBERS" and "9 \<le> n" and "n \<le> 1000"
  shows "\<exists>b. fill_groups n (g # gs) (d # ds) = Some (b, (g # gs, d # ds))"
proof -
  have "\<not> no_room (GROUPS_BUF_GROUP_INFO_SIZE + data_header_size) n"
    using assms(3) no_room_iff [of "GROUPS_BUF_GROUP_INFO_SIZE + data_header_size" n] by (simp add: buf_sizes)
  moreover have "fill_daemons (gid_memb (g_gid g)) (n + GROUPS_BUF_GROUP_INFO_SIZE) (d # ds) = Some ([], d # ds)"
    using assms by (intro full_daemon) (simp_all add: buf_sizes)
  ultimately show ?thesis by simp
qed

text \<open>An iterator at a daemon with as many members as the limit lets join.\<close>

definition stuck :: "group_iter \<Rightarrow> bool \<Rightarrow> bool" where
  "stuck it first_time \<longleftrightarrow> \<not> first_time \<and> fst it \<noteq> [] \<and>
     (\<exists>d ds. snd it = d # ds \<and> length (dm_members d) = MAX_LOCAL_GROUP_MEMBERS)"

lemma stuck_stays:
  assumes "stuck it f" and "G_build_groups_buf it f s = Some (b, it')"
  shows "it' = it"
proof -
  obtain g gs d ds where it: "it = (g # gs, d # ds)" "length (dm_members d) = MAX_LOCAL_GROUP_MEMBERS" "\<not> f"
    using assms(1) by (cases it; cases "fst it") (auto simp: stuck_def)
  from full_buffer [OF it(2), of "length (groups_preamble False s)" g gs ds] obtain b' where
    "fill_groups (length (groups_preamble False s)) (g # gs) (d # ds) = Some (b', (g # gs, d # ds))" by (auto simp: length_preamble)
  then show ?thesis using assms(2) it by (simp add: G_build_groups_buf_def Let_def)
qed

lemma stuck_for_ever:
  assumes "build_bufs s it f bufs = Some r"
  shows "\<not> stuck it f"
proof (rule build_bufs.raw_induct [where P = "\<lambda>s it f bufs r. \<not> stuck it f", OF _ assms])
  fix rec s it f bufs r
  assume IH: "\<And>s it f bufs r. rec s it f bufs = Some r \<Longrightarrow> \<not> stuck it f"
    and body: "Option.bind (G_build_groups_buf it f s) (\<lambda>(b, it'). if fst it' = [] then Some (b # bufs) else rec s it' False (b # bufs)) = Some r"
  show "\<not> stuck it f"
  proof
    assume st: "stuck it f"
    obtain b it' where b: "G_build_groups_buf it f s = Some (b, it')"
      "(if fst it' = [] then Some (b # bufs) else rec s it' False (b # bufs)) = Some r" using body by (auto simp: bind_Some_iff)
    have "it' = it" by (rule stuck_stays [OF st b(1)])
    then have "rec s it False (b # bufs) = Some r" using b(2) st unfolding stuck_def by (simp only: if_False)
    then have "\<not> stuck it False" by (rule IH)
    moreover have "stuck it False" using st unfolding stuck_def by blast
    ultimately show False ..
  qed
qed

text \<open>
  A lone group whose own daemon has as many members as the limit allows: the loop that builds the
  buffers does not end.
\<close>

lemma Local_members_at_limit:
  assumes "GroupsList s = [g]" and "g_daemons g = [d]" and "length (dm_members d) = MAX_LOCAL_GROUP_MEMBERS"
    and "length (MySyncedSet s) \<le> MAX_PROCS_RING"
  shows "G_build_new_groups_bufs s = None"
proof -
  have it: "begin_group (GroupsList s) = ([g], [d])" by (simp add: begin_group_def assms(1,2))
  from full_buffer [OF assms(3), of "length (groups_preamble True s)" g "[]" "[]"] assms(4) obtain b where
    "fill_groups (length (groups_preamble True s)) [g] [d] = Some (b, ([g], [d]))" by (auto simp: length_preamble MAX_PROCS_RING_def)
  then obtain c where c: "G_build_groups_buf ([], []) True s = Some (c, ([g], [d]))"
    by (simp add: G_build_groups_buf_def Let_def it)
  have "stuck ([g], [d]) False" using assms(3) by (simp add: stuck_def)
  then have "build_bufs s ([g], [d]) False bufs = None" for bufs
    using stuck_for_ever [of s "([g], [d])" False bufs] by (cases "build_bufs s ([g], [d]) False bufs") auto
  then have "build_bufs s ([], []) True bufs = None" for bufs by (subst build_bufs.simps) (simp add: c)
  then show ?thesis by (simp add: G_build_new_groups_bufs_def)
qed

end
