(* ===== verification/Session_read.thy ===== *)
theory Session_read
  imports Group_data
begin

text \<open>
  Reading from clients in \<open>daemon/session.c\<close>: a message arrives in pieces of any size, its header
  first.  \<open>Sess_read\<close> keeps the piece it has in the session, checks the header once it is whole and
  reads the body into elements it allocates as it goes.  What is done with a whole message is in
  \<open>Session_deliver\<close>.
\<close>

section \<open>The checks of a header\<close>

fun count_loop :: "nat \<Rightarrow> int32u \<Rightarrow> int32u \<Rightarrow> int \<Rightarrow> int" where
  "count_loop 0 field bitfield c = c"
| "count_loop (Suc n) field bitfield c =
     count_loop n field (push_bit 1 bitfield) (if field AND bitfield \<noteq> 0 then c + 1 else c)"

definition count_bits_set :: "int32u \<Rightarrow> nat \<Rightarrow> nat \<Rightarrow> int option" where
  "count_bits_set field first_index last_index = do {
     exit_if (\<not> (first_index < 32 \<and> last_index \<le> 32 \<and> first_index \<le> last_index));
     Some (count_loop (last_index - first_index) field (push_bit first_index 1) 0) }"

lemma and_bit: "w AND 2 ^ i = 0 \<longleftrightarrow> \<not> bit (w :: int32u) i"
  by (simp add: bit_iff_and_push_bit_not_eq_0)

lemma count_loop_bits:
  "count_loop n field (2 ^ i) c = c + int (length (filter (bit field) [i..<i + n]))"
proof (induction n arbitrary: i c)
  case (Suc n)
  have "[i..<i + Suc n] = i # [Suc i..<Suc i + n]" by (simp add: upt_rec)
  then show ?case using Suc.IH [of "Suc i"] by (simp add: and_bit mult.commute del: upt_Suc)
qed simp

lemma count_bits_set_bits:
  "i \<le> j \<Longrightarrow> i < 32 \<Longrightarrow> j \<le> 32 \<Longrightarrow>
   count_bits_set field i j = Some (int (length (filter (bit field) [i..<j])))"
  by (simp add: count_bits_set_def count_loop_bits [of "j - i" field i 0])

text \<open>
  The header with the name of the sender terminated; \<open>Some None\<close> is the result \<open>-1\<close>.  The bits
  counted are those of the services and of join, leave and kill, and not \<open>GROUPS_MESS\<close>.
\<close>

definition legal_hint :: "int32u \<Rightarrow> bool" where
  "legal_hint hint \<longleftrightarrow> hint AND NOT (0x80000080 OR 0x00ffff00) = 0"

definition Sess_validate_read_header :: "nat \<Rightarrow> message_header \<Rightarrow> 'a sess_layer_scheme \<Rightarrow> message_header option option" where
  "Sess_validate_read_header ses h s = do {
     type_bits \<leftarrow> count_bits_set (mh_type h) 0 6;
     memb_bits \<leftarrow> count_bits_set (mh_type h) 16 19;
     if type_bits > 1 \<or> memb_bits > 1 \<or> type_bits + memb_bits \<noteq> 1 then Some None
     else do {
       let h1 = h\<lparr>mh_private_group_name := (mh_private_group_name h)[MAX_GROUP_NAME - 1 := 0]\<rparr>;
       names \<leftarrow> G_private_to_names (mh_private_group_name h1);
       case names of None \<Rightarrow> Some None
       | Some (private_name, proc_name) \<Rightarrow>
           if take MAX_PROC_NAME proc_name \<noteq> take MAX_PROC_NAME (chars (p_name (Sess_My s))) then Some None
           else if take MAX_PRIVATE_NAME private_name \<noteq> take MAX_PRIVATE_NAME (cstr (ss_name (Sessions s ses))) then Some None
           else if mh_num_groups h < 0 \<or> mh_num_groups h > MAX_GROUPS_PER_MESSAGE then Some None
           else if \<not> legal_hint (mh_hint h) then Some None
           else if mh_data_len h < 0 \<or> mh_data_len h > MAX_MESSAGE_BODY_LEN then Some None
           else if mh_data_len h + int MAX_GROUP_NAME * mh_num_groups h > MAX_MESSAGE_BODY_LEN - sizeof_message_header then Some None
           else Some (Some h1) } }"

section \<open>Receiving\<close>

datatype outcome = Full | Again | Fail

text \<open>
  A \<open>recv\<close> of \<open>n\<close> bytes into the element \<open>i\<close>: whether all came, some or none yet, or the connection
  is closed or broken; and how many came.
\<close>

definition recv_into ::
  "int \<Rightarrow> nat \<Rightarrow> int \<Rightarrow> int \<Rightarrow> message \<Rightarrow> 'a sess_layer_scheme \<Rightarrow> (outcome \<times> int \<times> message \<times> 'a sess_layer_scheme) option" where
  "recv_into mbox i off n m s = do {
     exit_if (n < 0 \<or> i \<ge> length m);
     let (r, s1) = sock_recv mbox (nat n) s;
     case r of
       Received bs \<Rightarrow> do {
         b \<leftarrow> put_bytes (se_buf (m ! i)) off bs;
         Some (if int (length bs) = n then Full else if bs \<noteq> [] then Again else Fail,
               int (length bs), m[i := (m ! i)\<lparr>se_buf := b\<rparr>], s1) }
     | Would_block \<Rightarrow> Some (Again, 0, m, s1)
     | Recv_error \<Rightarrow> Some (Fail, 0, m, s1) }"

text \<open>The header of a message from the client, in the form and with the mark of this daemon.\<close>

definition own_header :: "message_header \<Rightarrow> message_header" where
  "own_header h = (let h1 = (if Same_endian (mh_type h) then h else Flip_mess h) in h1\<lparr>mh_type := Set_endian (mh_type h1)\<rparr>)"

definition accept_header :: "nat \<Rightarrow> message \<Rightarrow> 'a sess_layer_scheme \<Rightarrow> message option option" where
  "accept_header ses m s = do {
     h \<leftarrow> Message_get_message_header m;
     r \<leftarrow> Sess_validate_read_header ses (own_header h) s;
     case r of None \<Rightarrow> Some None | Some h1 \<Rightarrow> map_option Some (set_message_header h1 m) }"

definition read_header ::
  "int \<Rightarrow> nat \<Rightarrow> partial_message_info \<Rightarrow> message \<Rightarrow> 'a sess_layer_scheme \<Rightarrow>
   (outcome \<times> partial_message_info \<times> message \<times> 'a sess_layer_scheme) option" where
  "read_header mbox ses w m s = (if \<not> in_mess_head w then Some (Full, w, m, s) else do {
     (res, k, m1, s1) \<leftarrow> recv_into mbox 0 (cur_byte w) (sizeof_message_header - cur_byte w) m s;
     let w1 = w\<lparr>cur_byte := cur_byte w + k\<rparr>;
     if res \<noteq> Full then Some (res, w1, m1, s1)
     else do {
       let w2 = Message_set_location_begin_body w1;
       r \<leftarrow> accept_header ses m1 s1;
       Some (case r of None \<Rightarrow> (Fail, w2, m1, s1) | Some m2 \<Rightarrow> (Full, w2, m2, s1)) } })"

partial_function (option) read_body ::
  "int \<Rightarrow> int \<Rightarrow> partial_message_info \<Rightarrow> message \<Rightarrow> 'a sess_layer_scheme \<Rightarrow>
   (outcome \<times> partial_message_info \<times> message \<times> 'a sess_layer_scheme) option" where
  "read_body mbox remain w m s = (if remain \<le> 0 then Some (Full, w, m, s) else do {
     m1 \<leftarrow> (if cur_element w \<ge> length m
            then do { exit_if (cur_byte w \<noteq> 0); Message_add_scat_element m } else Some m);
     let room = sizeof_packet_body - cur_byte w;
     (res, k, m2, s1) \<leftarrow> recv_into mbox (cur_element w) (cur_byte w) (if room > remain then remain else room) m1 s;
     if res = Full
     then read_body mbox (remain - k)
            (w\<lparr>cur_byte := 0, cur_element := Suc (cur_element w), total_bytes := total_bytes w + k\<rparr>) m2 s1
     else Some (res, w\<lparr>cur_byte := cur_byte w + k, total_bytes := total_bytes w + k\<rparr>, m2, s1) })"

text \<open>The message of the session, as far as it has come.\<close>

definition body_size :: "message_header \<Rightarrow> int" where
  "body_size h = mh_data_len h + int MAX_GROUP_NAME * mh_num_groups h"

definition receive :: "int \<Rightarrow> nat \<Rightarrow> 'a sess_layer_scheme \<Rightarrow> (outcome \<times> message \<times> 'a sess_layer_scheme) option" where
  "receive mbox ses s = do {
     let x = Sessions s ses;
     let m = (case ss_read_mess x of None \<Rightarrow> Message_new_message | Some m \<Rightarrow> m);
     (res, w1, m1, s1) \<leftarrow> read_header mbox ses (ss_read x) m s;
     (res2, w2, m2, s2) \<leftarrow> (if res \<noteq> Full then Some (res, w1, m1, s1) else do {
       h \<leftarrow> Message_get_message_header m1;
       read_body mbox (body_size h - total_bytes w1) w1 m1 s1 });
     Some (res2, m2, upd_session ses (\<lambda>x. x\<lparr>ss_read := w2, ss_read_mess := Some m2\<rparr>) s2) }"

text \<open>A whole message is taken out of the session, and its elements get their lengths.\<close>

definition take_out :: "nat \<Rightarrow> message \<Rightarrow> 'a sess_layer_scheme \<Rightarrow> (message \<times> 'a sess_layer_scheme) option" where
  "take_out ses m s = map_option (\<lambda>m1. (m1, upd_session ses (\<lambda>x. x\<lparr>
       ss_read := Message_reset_current_location\<lparr>in_mess_head := True\<rparr>, ss_read_mess := None\<rparr>) s))
     (Message_element_len_fixup m)"

end
