(* ===== verification/Session_deliver.thy ===== *)
theory Session_deliver
  imports Session_read Group_memb
begin

text \<open>
  Between the clients and the protocol in \<open>daemon/session.c\<close>: what becomes of a whole message from
  a client (access control, rejection, sending), and of a message the protocol delivers (a change of
  the groups, or a regular message for the local members of its groups).  \<open>Prot_Create_Local_Session\<close>,
  \<open>Prot_Destroy_Local_Session\<close>, \<open>Prot_kill_session\<close> and \<open>Message_kill_mess_fixup\<close> do nothing in this
  version of the protocol.
\<close>

section \<open>The groups of a message\<close>

definition names_array :: "int \<Rightarrow> byte list \<Rightarrow> byte list list option" where
  "names_array n arr = (if int (length arr) < n * int MAX_GROUP_NAME then None
     else Some (map (\<lambda>i. take MAX_GROUP_NAME (drop (i * MAX_GROUP_NAME) arr)) [0..<nat n]))"

definition target_groups :: "message_header \<Rightarrow> message \<Rightarrow> byte list list option" where
  "target_groups h m = do { arr \<leftarrow> Message_get_groups_array m; names_array (mh_num_groups h) arr }"

definition Sess_get_p2p_dests :: "byte list list \<Rightarrow> byte list list" where
  "Sess_get_p2p_dests groups = filter (\<lambda>g. hd g = 35) groups"

section \<open>Delivering\<close>

definition Sess_handle_join :: "message \<Rightarrow> server \<Rightarrow> server option" where
  "Sess_handle_join m s = do {
     h \<leftarrow> Message_get_message_header m;
     group_name \<leftarrow> Message_get_first_group m;
     G_handle_join (mh_private_group_name h) group_name s }"

definition Sess_handle_leave :: "message \<Rightarrow> server \<Rightarrow> server option" where
  "Sess_handle_leave m s = do {
     h \<leftarrow> Message_get_message_header m;
     group_name \<leftarrow> Message_get_first_group m;
     G_handle_leave (mh_private_group_name h) group_name s }"

definition count_sessions :: "int \<Rightarrow> 'a sess_layer_scheme \<Rightarrow> 'a sess_layer_scheme" where
  "count_sessions d s = (upd_dmn (upd_status (\<lambda>st. st\<lparr>st_num_sessions := Num_sessions s + d\<rparr>)) s)
     \<lparr>Num_sessions := Num_sessions s + d\<rparr>"

text \<open>The session is taken out of the table; it must have been killed before.\<close>

definition forget_session :: "nat \<Rightarrow> 'a sess_layer_scheme \<Rightarrow> 'a sess_layer_scheme option" where
  "forget_session ses s = do {
     exit_if (Is_op_session (ss_status (Sessions s ses)));
     s1 \<leftarrow> Sess_unhash_session ses s;
     Some (count_sessions (- 1) (Sess_remove_session ses s1)) }"

definition Sess_handle_kill :: "message \<Rightarrow> server \<Rightarrow> server option" where
  "Sess_handle_kill m s = do {
     h \<leftarrow> Message_get_message_header m;
     names \<leftarrow> G_private_to_names (mh_private_group_name h);
     (private_name, proc_name) \<leftarrow> names;
     s1 \<leftarrow> G_handle_kill (mh_private_group_name h) s;
     if proc_name = chars (p_name (Sess_My s1))
     then do {
       r \<leftarrow> Sess_get_session private_name s1;
       case r of None \<Rightarrow> Some s1 | Some ses \<Rightarrow> forget_session ses s1 }
     else Some s1 }"

text \<open>The sessions a regular message or a reject is for; \<open>-1\<close> is \<open>None\<close>.\<close>

definition own_session :: "message_header \<Rightarrow> server \<Rightarrow> nat option option" where
  "own_session h s = do {
     names \<leftarrow> G_private_to_names (mh_private_group_name h);
     (private_name, proc_name) \<leftarrow> names;
     Sess_get_session private_name s }"

definition target_sessions :: "message_header \<Rightarrow> message \<Rightarrow> server \<Rightarrow> nat option list option" where
  "target_sessions h m s =
     (if has (mh_type h) REJECT_MESS then map_option (\<lambda>ses. [ses]) (own_session h s)
      else do { groups \<leftarrow> target_groups h m; G_analize_groups groups s })"

definition source_ses :: "message_header \<Rightarrow> bool \<Rightarrow> server \<Rightarrow> nat option option" where
  "source_ses h some_target s = (if \<not> (some_target \<and> has (mh_type h) SELF_DISCARD) then Some None
     else do {
       names \<leftarrow> G_private_to_names (mh_private_group_name h);
       (private_name, proc_name) \<leftarrow> names;
       if proc_name = chars (p_name (Sess_My s)) then Sess_get_session private_name s else Some None })"

definition write_target :: "message \<Rightarrow> nat option \<Rightarrow> nat option \<Rightarrow> int \<times> server \<Rightarrow> (int \<times> server) option" where
  "write_target m source t st = (if source = t then Some st else do {
     ses \<leftarrow> t;
     Sess_write ses m (fst st) (snd st) })"

definition deliver_regular :: "message \<Rightarrow> server \<Rightarrow> server option" where
  "deliver_regular m s = do {
     let s1 = upd_dmn (upd_status (\<lambda>st. st\<lparr>st_message_delivered := st_message_delivered st + 1\<rparr>)) s;
     h0 \<leftarrow> Message_get_message_header m;
     let h = h0\<lparr>mh_type := Set_endian (mh_type h0)\<rparr>;
     m1 \<leftarrow> set_message_header h m;
     ts \<leftarrow> target_sessions h m1 s1;
     source \<leftarrow> source_ses h (ts \<noteq> []) s1;
     map_option snd (forM ts (write_target m1 source) (0, s1)) }"

definition Sess_deliver :: "message \<Rightarrow> server \<Rightarrow> server option" where
  "Sess_deliver m0 s = do {
     m \<leftarrow> Message_endian_correct_message_header m0;
     h \<leftarrow> Message_get_message_header m;
     if has (mh_type h) JOIN_MESS then Sess_handle_join m s
     else if has (mh_type h) LEAVE_MESS then Sess_handle_leave m s
     else if has (mh_type h) KILL_MESS then Sess_handle_kill m s
     else if has (mh_type h) GROUPS_MESS then G_handle_groups m s
     else deliver_regular m s }"

section \<open>Rejecting\<close>

definition Sess_create_reject_message :: "message \<Rightarrow> message option" where
  "Sess_create_reject_message m = do {
     h \<leftarrow> Message_get_message_header m;
     let old_type = mh_type h;
     let t = Set_endian REJECT_MESS;
     m1 \<leftarrow> set_message_header (h\<lparr>mh_type := (if has old_type SELF_DISCARD then t OR SELF_DISCARD else t)\<rparr>) m;
     Message_add_oldtype_to_reject m1 old_type }"

definition Sess_deliver_reject :: "message \<Rightarrow> server \<Rightarrow> server option" where
  "Sess_deliver_reject m s = Sess_deliver m s"

text \<open>
  The decision on a message from a client: \<open>Some None\<close> lets it through, \<open>Some (Some h)\<close> rejects it
  with the header changed to \<open>h\<close>.  The last argument of the send policies is the message type the
  client chose.
\<close>

definition access_verdict :: "nat \<Rightarrow> message \<Rightarrow> server \<Rightarrow> message_header option option" where
  "access_verdict ses m s = do {
     h \<leftarrow> Message_get_message_header m;
     let t = mh_type h;
     let who = mh_private_group_name h;
     let ops = ss_acp_ops (Sessions s ses);
     no_leave \<leftarrow> (if has t LEAVE_MESS then map_option (\<lambda>g. \<not> acp_leave_group ops who g) (Message_get_first_group m)
       else Some False);
     no_join \<leftarrow> (if has t JOIN_MESS
       then map_option (\<lambda>g. G_get_num_local g s = MAX_LOCAL_GROUP_MEMBERS \<or> \<not> acp_join_group ops who g) (Message_get_first_group m)
       else Some False);
     if no_leave then Some (Some (h\<lparr>mh_type := (t AND NOT LEAVE_MESS) OR CAUSED_BY_LEAVE\<rparr>))
     else if no_join then Some (Some (h\<lparr>mh_type := (t AND NOT JOIN_MESS) OR CAUSED_BY_JOIN\<rparr>))
     else if \<not> Is_only_regular_mess t then Some None
     else do {
       groups \<leftarrow> target_groups h m;
       let p2p = Sess_get_p2p_dests groups;
       let mess_type = drop_bit 8 (mh_hint h) AND 0x0000ffff;
       Some (if p2p \<noteq> [] \<and> \<not> acp_p2p_send ops who p2p t mess_type then Some h
         else if length groups > length p2p \<and> \<not> acp_mcast_send ops who groups t mess_type then Some h
         else None) } }"

section \<open>A message from a client\<close>

text \<open>The client says goodbye: its session is closed here, and the message kills it everywhere.\<close>

definition disconnect :: "int \<Rightarrow> nat \<Rightarrow> 'a sess_layer_scheme \<Rightarrow> 'a sess_layer_scheme option" where
  "disconnect mbox ses s = do {
     let s1 = upd_dmn (E_dequeue Sess_badger_f mbox 0) (upd_session ses (\<lambda>x. x\<lparr>ss_mess := []\<rparr>) s);
     (_, s2) \<leftarrow> E_detach_fd mbox READ_FD s1;
     (_, s3) \<leftarrow> E_detach_fd mbox EXCEPT_FD s2;
     Some (upd_session ses (\<lambda>x. x\<lparr>ss_status := Clear_op_session (ss_status x)\<rparr>) (close_mbox mbox s3)) }"

definition send_down :: "int \<Rightarrow> nat \<Rightarrow> message \<Rightarrow> server \<Rightarrow> server option" where
  "send_down mbox ses m s = do {
     h \<leftarrow> Message_get_message_header m;
     case Prot_Create_Down_Link m (Message_get_packet_type (mh_type h)) of
       None \<Rightarrow> Sess_kill mbox s
     | Some link \<Rightarrow> do {
         s1 \<leftarrow> (if has (mh_type h) KILL_MESS then disconnect mbox ses s else Some s);
         on_dmn (Prot_new_message link) s1 } }"

definition handle_client_message :: "int \<Rightarrow> nat \<Rightarrow> message \<Rightarrow> server \<Rightarrow> server option" where
  "handle_client_message mbox ses m s = do {
     verdict \<leftarrow> access_verdict ses m s;
     case verdict of
       None \<Rightarrow> send_down mbox ses m s
     | Some h \<Rightarrow> do {
         m1 \<leftarrow> set_message_header h m;
         m2 \<leftarrow> Sess_create_reject_message m1;
         Sess_deliver_reject m2 s } }"

definition Sess_read :: "int \<Rightarrow> server \<Rightarrow> server option" where
  "Sess_read mbox s = do {
     r \<leftarrow> Sess_get_session_index mbox s;
     case r of None \<Rightarrow> Some s | Some ses \<Rightarrow>
       if ses \<ge> MAX_SESSIONS then Some s
       else do {
         (res, m, s1) \<leftarrow> receive mbox ses s;
         case res of
           Again \<Rightarrow> Some s1
         | Fail \<Rightarrow> Sess_kill mbox s1
         | Full \<Rightarrow> do { (m1, s2) \<leftarrow> take_out ses m s1; handle_client_message mbox ses m1 s2 } } }"

section \<open>Upcalls\<close>

definition Sess_deliver_reg :: "configuration \<Rightarrow> membership_id \<Rightarrow> server \<Rightarrow> server option" where
  "Sess_deliver_reg = G_handle_reg_memb"

definition Sess_deliver_trans :: "configuration \<Rightarrow> membership_id \<Rightarrow> server \<Rightarrow> server option" where
  "Sess_deliver_trans = G_handle_trans_memb"

definition Sess_conf_reload :: "server \<Rightarrow> server" where
  "Sess_conf_reload s = s\<lparr>Sess_My := Conf_My (dmn s)\<rparr>"

text \<open>
  The protocol hands up a message as the bytes of its packets, each in a packet body of its own.
\<close>

definition packets_message :: "byte list list \<Rightarrow> message" where
  "packets_message bodies = map (\<lambda>b. \<lparr>se_buf = b @ replicate (nat sizeof_packet_body - length b) 0, se_len = int (length b)\<rparr>) bodies"

fun handle_upcall :: "upcall \<Rightarrow> server \<Rightarrow> server option" where
  "handle_upcall (Sess_deliver_message bodies) s = Sess_deliver (packets_message bodies) s"
| "handle_upcall (Sess_deliver_reg_memb conf memb_id) s = Sess_deliver_reg conf memb_id s"
| "handle_upcall (Sess_deliver_trans_memb conf memb_id) s = Sess_deliver_trans conf memb_id s"
| "handle_upcall Sess_block_users_level s = Some (Sess_block_users s)"
| "handle_upcall Sess_unblock_users_level s = Some (Sess_unblock_users s)"
| "handle_upcall Sess_signal_conf_reload s = Some (Sess_conf_reload s)"

text \<open>The calls the protocol has made into the session layer, in their order.\<close>

definition run_upcalls :: "server \<Rightarrow> server option" where
  "run_upcalls s = forM (upcalls (dmn s)) handle_upcall (upd_dmn (\<lambda>d. d\<lparr>upcalls := []\<rparr>) s)"

end
