(* ===== verification/Client_input.thy ===== *)
theory Client_input
  imports Session_deliver Group_sample
begin

text \<open>
  What the daemon makes of the bytes of a client: however they are cut into pieces by \<open>recv\<close>, the
  message that is put together is its header, in the form of this daemon, and the bytes behind it.
\<close>

section \<open>Bytes that have come\<close>

definition heard :: "int \<Rightarrow> byte list \<Rightarrow> 'a sess_layer_scheme \<Rightarrow> 'a sess_layer_scheme \<Rightarrow> bool" where
  "heard mbox bs s s' \<longleftrightarrow> (\<exists>n. s' = s\<lparr>recv_calls := n, sock_in := (sock_in s)(mbox := sock_in s mbox @ bs)\<rparr>)"

lemma heard_refl: "heard mbox [] s s"
  by (auto simp: heard_def intro!: exI [of _ "recv_calls s"])

lemma heard_trans: "heard mbox as s t \<Longrightarrow> heard mbox bs t u \<Longrightarrow> heard mbox (as @ bs) s u"
  by (auto simp: heard_def)

lemma heard_fields:
  assumes "heard mbox bs s s'"
  shows "Sessions s' = Sessions s" "Sess_My s' = Sess_My s" "recv_ret s' = recv_ret s"
    "sock_in s' mbox = sock_in s mbox @ bs" "b \<noteq> mbox \<Longrightarrow> sock_in s' b = sock_in s b" "dmn s' = dmn s"
  using assms by (auto simp: heard_def)

text \<open>The end of the connection, or an error on it.\<close>

definition link_down :: "'a sess_layer_scheme \<Rightarrow> int \<Rightarrow> bool" where
  "link_down s mbox \<longleftrightarrow> (\<exists>k n. recv_ret s k mbox n = Recv_error \<or> recv_ret s k mbox n = Received [])"

lemma recv_into_spec:
  assumes i: "i < length m" and b: "length (se_buf (m ! i)) = 1436" and off: "0 \<le> off" "0 < n" "off + n \<le> 1436"
  shows "\<exists>res bs buf s'. recv_into mbox i off n m s = Some (res, int (length bs), m[i := (m ! i)\<lparr>se_buf := buf\<rparr>], s') \<and>
    put_bytes (se_buf (m ! i)) off bs = Some buf \<and> heard mbox bs s s' \<and>
    (case res of Full \<Rightarrow> int (length bs) = n | Again \<Rightarrow> int (length bs) < n | Fail \<Rightarrow> bs = [] \<and> link_down s mbox)"
proof -
  let ?r = "recv_ret s (recv_calls s) mbox (nat n)"
  have none: "put_bytes (se_buf (m ! i)) off [] = Some (se_buf (m ! i))" using b off by (simp add: put_bytes_def)
  have quiet: "sock_recv mbox (nat n) s = (r, s\<lparr>recv_calls := Suc (recv_calls s)\<rparr>)" "heard mbox [] s (s\<lparr>recv_calls := Suc (recv_calls s)\<rparr>)"
    if "?r = r" "\<And>bs. r \<noteq> Received bs" for r
    using that by (auto simp: sock_recv_def heard_def Let_def split: recv_result.split)
  show ?thesis
  proof (cases ?r)
    case (Received all)
    let ?bs = "take (nat n) all"
    have "int (length ?bs) \<le> n" using off(2) by simp
    then obtain buf where buf: "put_bytes (se_buf (m ! i)) off ?bs = Some buf" using b off by (simp add: put_bytes_def)
    let ?s = "s\<lparr>recv_calls := Suc (recv_calls s), sock_in := (sock_in s)(mbox := sock_in s mbox @ ?bs)\<rparr>"
    let ?res = "if int (length ?bs) = n then Full else if ?bs \<noteq> [] then Again else Fail"
    have "recv_into mbox i off n m s = Some (?res, int (length ?bs), m[i := (m ! i)\<lparr>se_buf := buf\<rparr>], ?s)"
      using i off(2) buf Received by (simp add: recv_into_def sock_recv_def Let_def bind_exit_if)
    moreover have "heard mbox ?bs s ?s" by (auto simp: heard_def)
    moreover have "case ?res of Full \<Rightarrow> int (length ?bs) = n | Again \<Rightarrow> int (length ?bs) < n | Fail \<Rightarrow> ?bs = [] \<and> link_down s mbox"
      using \<open>int (length ?bs) \<le> n\<close> Received off(2) by (auto simp: link_down_def)
    ultimately show ?thesis using buf by blast
  next
    case Would_block
    then show ?thesis using i off(2) none quiet [OF Would_block] b
      by (intro exI [of _ Again] exI [of _ "[]"] exI [of _ "se_buf (m ! i)"]) (simp add: recv_into_def bind_exit_if)
  next
    case Recv_error
    then have "link_down s mbox" by (auto simp: link_down_def)
    then show ?thesis using i off(2) none quiet [OF Recv_error] b
      by (intro exI [of _ Fail] exI [of _ "[]"] exI [of _ "se_buf (m ! i)"]) (simp add: recv_into_def bind_exit_if)
  qed
qed

section \<open>Elements that fill up\<close>

definition bufs :: "message \<Rightarrow> byte list" where "bufs m = concat (map se_buf m)"

definition filled :: "message \<Rightarrow> byte list \<Rightarrow> bool" where
  "filled m cs \<longleftrightarrow> (\<forall>e \<in> set m. length (se_buf e) = 1436) \<and> (\<forall>e \<in> set (tl m). se_len e = 1436) \<and>
     m \<noteq> [] \<and> take (length cs) (bufs m) = cs"

lemma length_bufs: "\<forall>e \<in> set m. length (se_buf e) = 1436 \<Longrightarrow> length (bufs m) = 1436 * length m"
  by (induction m) (auto simp: bufs_def)

lemma filled_length: "filled m cs \<Longrightarrow> length cs \<le> 1436 * length m"
  using length_bufs [of m] by (auto simp: filled_def dest: arg_cong [where f = length])

lemma filled_more:
  assumes f: "filled m cs" and i: "i < length m" and at: "int i * 1436 + off = int (length cs)" "0 \<le> off"
    and b: "put_bytes (se_buf (m ! i)) off bs = Some buf"
  shows "filled (m[i := (m ! i)\<lparr>se_buf := buf\<rparr>]) (cs @ bs)"
proof -
  let ?e = "m ! i"
  have m: "m = take i m @ ?e # drop (Suc i) m" using i by (rule id_take_nth_drop)
  have len: "\<forall>e \<in> set m. length (se_buf e) = 1436" using f by (simp add: filled_def)
  then have e: "length (se_buf ?e) = 1436" using i by simp
  have pre: "length (bufs (take i m)) = 1436 * i" using len i length_bufs [of "take i m"] by (auto dest: in_set_takeD)
  have buf: "buf = take (nat off) (se_buf ?e) @ bs @ drop (nat off + length bs) (se_buf ?e)"
    and fits: "nat off + length bs \<le> 1436" using b e at(2) by (auto simp: put_bytes_def split: if_splits)
  have cs: "length cs = 1436 * i + nat off" using at by simp
  have all: "bufs m = bufs (take i m) @ se_buf ?e @ bufs (drop (Suc i) m)"
    by (subst m) (simp add: bufs_def)
  have "cs = bufs (take i m) @ take (nat off) (se_buf ?e)"
    using f pre cs e fits by (simp add: filled_def all)
  moreover have upd: "m[i := ?e\<lparr>se_buf := buf\<rparr>] = take i m @ ?e\<lparr>se_buf := buf\<rparr> # drop (Suc i) m"
    using i by (simp add: upd_conv_take_nth_drop)
  ultimately have "take (length (cs @ bs)) (bufs (m[i := ?e\<lparr>se_buf := buf\<rparr>])) = cs @ bs"
    using cs pre buf e fits by (simp add: bufs_def)
  moreover have "length buf = 1436" using b e by (simp add: put_bytes_length)
  moreover have "\<forall>x \<in> set (m[i := ?e\<lparr>se_buf := buf\<rparr>]). length (se_buf x) = 1436"
    using len \<open>length buf = 1436\<close> by (auto dest: subsetD [OF set_update_subset_insert])
  moreover have "\<forall>x \<in> set (tl (m[i := ?e\<lparr>se_buf := buf\<rparr>])). se_len x = 1436"
  proof -
    have t: "\<forall>x \<in> set (tl m). se_len x = 1436" using f by (simp add: filled_def)
    show ?thesis
    proof (cases i)
      case 0
      then show ?thesis using t by (cases m) auto
    next
      case (Suc j)
      then have "tl (m[i := ?e\<lparr>se_buf := buf\<rparr>]) = (tl m)[j := ?e\<lparr>se_buf := buf\<rparr>]" "?e \<in> set (tl m)"
        using i by (cases m; simp)+
      then show ?thesis using t by (auto dest: subsetD [OF set_update_subset_insert])
    qed
  qed
  moreover have "m[i := ?e\<lparr>se_buf := buf\<rparr>] \<noteq> []" using i by auto
  ultimately show ?thesis by (simp only: filled_def simp_thms)
qed

lemma filled_new: "filled m cs \<Longrightarrow> filled (m @ [\<lparr>se_buf = fresh_body, se_len = sizeof_packet_body\<rparr>]) cs"
  using filled_length [of m cs] length_bufs [of m] by (cases m) (auto simp: filled_def bufs_def mess_size_defs)

section \<open>The body\<close>

definition elements_for :: "nat \<Rightarrow> nat" where "elements_for n = (n + 1435) div 1436"

definition body_at :: "message \<Rightarrow> partial_message_info \<Rightarrow> byte list \<Rightarrow> bool" where
  "body_at m w cs \<longleftrightarrow> filled m cs \<and> length m \<le> Suc (length cs div 1436) \<and>
     cur_element w = length cs div 1436 \<and> cur_byte w = int (length cs mod 1436)"

lemma div_mod_plus:
  assumes "a mod n + b < (n :: nat)"
  shows "(a + b) div n = a div n" and "(a + b) mod n = a mod n + b"
proof -
  have "a + b = a mod n + b + n * (a div n)" using mod_mult_div_eq [of a n] by linarith
  then show "(a + b) div n = a div n" "(a + b) mod n = a mod n + b"
    using assms by (simp_all only: div_mult_self2 mod_mult_self2) (simp_all add: assms)
qed

lemma read_body_spec:
  assumes f: "filled m cs" and tot: "remain = int tot - int (length cs)" "length cs \<le> tot" "tot \<le> 143600"
    and pos: "length cs < tot \<Longrightarrow> body_at m w cs" and fin: "length cs = tot \<Longrightarrow> length m = elements_for tot"
    and t: "total_bytes w = int (length cs) - 48"
  shows "\<exists>res w' m' s' bs. read_body mbox remain w m s = Some (res, w', m', s') \<and> heard mbox bs s s' \<and>
    length (cs @ bs) \<le> tot \<and> filled m' (cs @ bs) \<and> in_mess_head w' = in_mess_head w \<and>
    (case res of Full \<Rightarrow> length (cs @ bs) = tot \<and> length m' = elements_for tot
     | Again \<Rightarrow> length (cs @ bs) < tot \<and> body_at m' w' (cs @ bs) \<and> total_bytes w' = int (length (cs @ bs)) - 48
     | Fail \<Rightarrow> link_down s mbox)"
  using assms
proof (induction "tot - length cs" arbitrary: cs remain w m s rule: less_induct)
  case less
  show ?case
  proof (cases "length cs = tot")
    case True
    then have "read_body mbox remain w m s = Some (Full, w, m, s)"
      using less.prems by (subst read_body.simps) simp
    then show ?thesis using True less.prems heard_refl [of mbox s] by (intro exI [of _ Full] exI) auto
  next
    case False
    then have lt: "length cs < tot" using less.prems by simp
    note at = less.prems(5) [OF lt, unfolded body_at_def]
    let ?i = "length cs div 1436" and ?off = "int (length cs mod 1436)"
    define m1 where "m1 = (if ?i \<ge> length m then m @ [\<lparr>se_buf = fresh_body, se_len = sizeof_packet_body\<rparr>] else m)"
    have cap: "length cs \<le> 1436 * length m" by (rule filled_length [OF less.prems(1)])
    have ends: "?off = 0" if "?i \<ge> length m"
    proof -
      have "1436 * length m \<le> 1436 * ?i" using that by (rule mult_le_mono2)
      then show ?thesis using cap mult_div_mod_eq [of 1436 "length cs"] by linarith
    qed
    have i100: "?i < 100" using lt less.prems(4) by linarith
    have "?i \<le> length m" using cap mult_div_mod_eq [of 1436 "length cs"] by linarith
    then have m1: "filled m1 cs" "?i < length m1" "length m1 = Suc ?i"
      using filled_new [OF less.prems(1)] less.prems(1) at by (auto simp: m1_def)
    have add: "(if cur_element w \<ge> length m then do { exit_if (cur_byte w \<noteq> 0); Message_add_scat_element m } else Some m) = Some m1"
      using at ends i100 by (auto simp: m1_def bind_exit_if Message_add_scat_element_def MAX_SCATTER_ELEMENTS_def)
    define n0 where "n0 = (if sizeof_packet_body - cur_byte w > remain then remain else sizeof_packet_body - cur_byte w)"
    have n: "0 < n0" "?off + n0 \<le> 1436" "n0 \<le> remain" "n0 = remain \<or> ?off + n0 = 1436"
      using at lt less.prems(2) by (auto simp: n0_def mess_size_defs)
    have "length (se_buf (m1 ! ?i)) = 1436" using m1 by (simp add: filled_def)
    from recv_into_spec [OF m1(2) this _ n(1,2), of mbox s] obtain res bs buf s1 where
      r: "recv_into mbox ?i ?off n0 m1 s = Some (res, int (length bs), m1[?i := (m1 ! ?i)\<lparr>se_buf := buf\<rparr>], s1)"
        "put_bytes (se_buf (m1 ! ?i)) ?off bs = Some buf" "heard mbox bs s s1"
        "case res of Full \<Rightarrow> int (length bs) = n0 | Again \<Rightarrow> int (length bs) < n0 | Fail \<Rightarrow> bs = [] \<and> link_down s mbox"
      by auto
    let ?m2 = "m1[?i := (m1 ! ?i)\<lparr>se_buf := buf\<rparr>]"
    have here: "int ?i * 1436 + ?off = int (length cs)"
      using div_mult_mod_eq [of "length cs" 1436] by linarith
    have f2: "filled ?m2 (cs @ bs)" by (rule filled_more [OF m1(1,2) here _ r(2)]) simp
    have l2: "length ?m2 = Suc ?i" using m1(3) by simp
    have step: "read_body mbox remain w m s = (if res = Full
        then read_body mbox (remain - int (length bs))
          (w\<lparr>cur_byte := 0, cur_element := Suc (cur_element w), total_bytes := total_bytes w + int (length bs)\<rparr>) ?m2 s1
        else Some (res, w\<lparr>cur_byte := cur_byte w + int (length bs), total_bytes := total_bytes w + int (length bs)\<rparr>, ?m2, s1))"
    proof -
      have "\<not> remain \<le> 0" using lt less.prems(2) by simp
      moreover have "recv_into mbox (cur_element w) (cur_byte w) n0 m1 s = Some (res, int (length bs), ?m2, s1)"
        using r(1) at by simp
      ultimately show ?thesis
        by (subst read_body.simps) (simp only: if_False add bind.simps Let_def n0_def [symmetric] prod.case)
    qed
    show ?thesis
    proof (cases res)
      case Full
      then have nb: "int (length bs) = n0" using r(4) by simp
      let ?w = "w\<lparr>cur_byte := 0, cur_element := Suc (cur_element w), total_bytes := total_bytes w + int (length bs)\<rparr>"
      have le: "length (cs @ bs) \<le> tot" "remain - int (length bs) = int tot - int (length (cs @ bs))"
        using nb n(3) less.prems(2,3) by auto
      have round: "length (cs @ bs) = 1436 * Suc ?i" if "length (cs @ bs) < tot"
        using that nb n(4) less.prems(2) here by auto
      have p: "body_at ?m2 ?w (cs @ bs)" if "length (cs @ bs) < tot"
        using f2 l2 round [OF that] at by (simp add: body_at_def)
      have e: "length ?m2 = elements_for tot" if "length (cs @ bs) = tot"
      proof -
        have "1436 * ?i < length (cs @ bs)" "length (cs @ bs) \<le> 1436 * Suc ?i"
          using nb n here by auto
        then have "(tot + 1435) div 1436 = Suc ?i" using that by (intro div_nat_eqI) auto
        then show ?thesis using l2 by (simp add: elements_for_def)
      qed
      have ih: "tot - length (cs @ bs) < tot - length cs" "total_bytes ?w = int (length (cs @ bs)) - 48"
        using nb n(1) lt less.prems(7) by auto
      from less.hyps [OF ih(1) f2 le(2,1) less.prems(4) p e ih(2), of s1] obtain res' w' m' s' bs' where
        ih: "read_body mbox (remain - int (length bs)) ?w ?m2 s1 = Some (res', w', m', s')" "heard mbox bs' s1 s'"
          "length ((cs @ bs) @ bs') \<le> tot" "filled m' ((cs @ bs) @ bs')" "in_mess_head w' = in_mess_head ?w"
          "case res' of Full \<Rightarrow> length ((cs @ bs) @ bs') = tot \<and> length m' = elements_for tot
           | Again \<Rightarrow> length ((cs @ bs) @ bs') < tot \<and> body_at m' w' ((cs @ bs) @ bs') \<and>
               total_bytes w' = int (length ((cs @ bs) @ bs')) - 48
           | Fail \<Rightarrow> link_down s1 mbox" by auto
      have ld: "link_down s1 mbox = link_down s mbox" using heard_fields(3) [OF r(3)] by (simp add: link_down_def)
      have "heard mbox (bs @ bs') s s'" by (rule heard_trans [OF r(3) ih(2)])
      then show ?thesis using ih [unfolded ld append_assoc] step Full
        by (intro exI [of _ res'] exI [of _ w'] exI [of _ m'] exI [of _ s'] exI [of _ "bs @ bs'"]) simp
    next
      case Again
      let ?w = "w\<lparr>cur_byte := cur_byte w + int (length bs), total_bytes := total_bytes w + int (length bs)\<rparr>"
      have nb: "int (length bs) < n0" using r(4) Again by simp
      have "length (cs @ bs) < tot" using nb n(3) less.prems(2) by auto
      moreover have "length (cs @ bs) div 1436 = ?i" "int (length (cs @ bs) mod 1436) = ?off + int (length bs)"
      proof -
        have "length cs mod 1436 + length bs < 1436" using nb n(2) by auto
        then show "length (cs @ bs) div 1436 = ?i" "int (length (cs @ bs) mod 1436) = ?off + int (length bs)"
          using div_mod_plus [of "length cs" 1436 "length bs"] by auto
      qed
      ultimately show ?thesis using step Again f2 l2 r(3) at less.prems(7)
        by (intro exI [of _ Again] exI [of _ ?w] exI [of _ ?m2] exI [of _ s1] exI [of _ bs]) (simp add: body_at_def)
    next
      case Fail
      then show ?thesis using step f2 r(3,4) less.prems(3)
        by (intro exI [of _ Fail] exI exI [of _ ?m2] exI [of _ s1] exI [of _ "[]"]) auto
    qed
  qed
qed

section \<open>The header\<close>

definition accepted :: "'a sess_layer_scheme \<Rightarrow> nat \<Rightarrow> byte list \<Rightarrow> message_header option" where
  "accepted s ses hb = (if length hb \<noteq> 48 then None
     else case Sess_validate_read_header ses (own_header (dec_message_header hb)) s of Some (Some h) \<Rightarrow> Some h | _ \<Rightarrow> None)"

lemma bits_counted:
  "count_bits_set t 0 6 = Some (int (length (filter (bit t) [0..<6])))"
  "count_bits_set t 16 19 = Some (int (length (filter (bit t) [16..<19])))"
  by (simp_all add: count_bits_set_bits)

lemma validate_total:
  assumes "length (mh_private_group_name h) = 32"
  shows "\<exists>r. Sess_validate_read_header ses h s = Some r"
proof -
  let ?nm = "(mh_private_group_name h)[31 := 0]"
  have "?nm = take 31 (mh_private_group_name h) @ [0]" using assms by (simp add: upd_conv_take_nth_drop)
  then have "0 \<in> set (tl ?nm)" using assms by (cases "mh_private_group_name h") auto
  then have "\<exists>names. G_private_to_names ?nm = Some names" by (auto simp: G_private_to_names_def Let_def)
  then show ?thesis
    by (auto simp: Sess_validate_read_header_def bits_counted MAX_GROUP_NAME_eq Let_def split: option.splits)
qed

lemma validate_ok:
  assumes "Sess_validate_read_header ses h s = Some (Some h1)"
  shows "h1 = h\<lparr>mh_private_group_name := (mh_private_group_name h)[31 := 0]\<rparr>"
    and "0 \<le> mh_num_groups h" "mh_num_groups h \<le> 100" "0 \<le> mh_data_len h" "body_size h \<le> 143952"
    and "length (filter (bit (mh_type h)) [0..<6]) + length (filter (bit (mh_type h)) [16..<19]) = 1"
proof -
  let ?a = "int (length (filter (bit (mh_type h)) [0..<6]))" and ?b = "int (length (filter (bit (mh_type h)) [16..<19]))"
  obtain names where r: "G_private_to_names ((mh_private_group_name h)[31 := 0]) = Some names" "?a + ?b = 1"
      "(case names of None \<Rightarrow> Some None
       | Some (private_name, proc_name) \<Rightarrow>
           if take MAX_PROC_NAME proc_name \<noteq> take MAX_PROC_NAME (chars (p_name (Sess_My s))) then Some None
           else if take MAX_PRIVATE_NAME private_name \<noteq> take MAX_PRIVATE_NAME (cstr (ss_name (Sessions s ses))) then Some None
           else if mh_num_groups h < 0 \<or> mh_num_groups h > MAX_GROUPS_PER_MESSAGE then Some None
           else if \<not> legal_hint (mh_hint h) then Some None
           else if mh_data_len h < 0 \<or> mh_data_len h > MAX_MESSAGE_BODY_LEN then Some None
           else if mh_data_len h + int MAX_GROUP_NAME * mh_num_groups h > MAX_MESSAGE_BODY_LEN - sizeof_message_header then Some None
           else Some (Some (h\<lparr>mh_private_group_name := (mh_private_group_name h)[31 := 0]\<rparr>))) = Some (Some h1)"
    using assms by (auto simp: Sess_validate_read_header_def bits_counted MAX_GROUP_NAME_eq Let_def bind_Some_iff split: if_splits)
  show "length (filter (bit (mh_type h)) [0..<6]) + length (filter (bit (mh_type h)) [16..<19]) = 1" using r(2) by linarith
  show "h1 = h\<lparr>mh_private_group_name := (mh_private_group_name h)[31 := 0]\<rparr>" "0 \<le> mh_num_groups h"
    "mh_num_groups h \<le> 100" "0 \<le> mh_data_len h" "body_size h \<le> 143952"
    using r(3) by (auto simp: body_size_def MAX_GROUPS_PER_MESSAGE_def MAX_MESSAGE_BODY_LEN_def MAX_SCATTER_ELEMENTS_def
        mess_size_defs split: option.splits if_splits)
qed

lemma own_header_fields:
  "mh_private_group_name (own_header h) = mh_private_group_name h"
  by (simp add: own_header_def Flip_mess_def Let_def)

lemma accepted_ok:
  assumes "accepted s ses hb = Some h"
  shows "length hb = 48" "wf_message_header h" "48 \<le> total_size h" "total_size h \<le> 144000"
    "Sess_validate_read_header ses (own_header (dec_message_header hb)) s = Some (Some h)"
proof -
  let ?o = "own_header (dec_message_header hb)"
  show l: "length hb = 48" and v: "Sess_validate_read_header ses ?o s = Some (Some h)"
    using assms by (auto simp: accepted_def split: if_splits option.splits)
  note ok = validate_ok [OF v]
  have "length (mh_private_group_name ?o) = 32" using l by (simp add: own_header_fields dec_message_header_def MAX_GROUP_NAME_eq)
  then show "wf_message_header h"
    using ok by (simp add: wf_message_header_def MAX_GROUP_NAME_eq int32_range_def body_size_def)
  show "48 \<le> total_size h" "total_size h \<le> 144000"
    using ok by (simp_all add: total_size_def body_size_def mess_size_defs)
qed

lemma accepted_cong:
  "Sess_My s' = Sess_My s \<Longrightarrow> ss_name (Sessions s' ses) = ss_name (Sessions s ses) \<Longrightarrow> accepted s' ses hb = accepted s ses hb"
  by (simp add: accepted_def Sess_validate_read_header_def cong: if_cong)

lemma filled_header:
  assumes "filled m (bs @ cs)" and "length bs = 48"
  shows "Message_get_message_header m = Some (dec_message_header bs)"
proof -
  obtain e es where m: "m = e # es" "length (se_buf e) = 1436" using assms(1) by (cases m) (auto simp: filled_def)
  have "take (48 + length cs) (bufs m) = bs @ cs" using assms by (simp add: filled_def)
  then have "take 48 (take (48 + length cs) (bufs m)) = bs" using assms(2) by simp
  then have "take 48 (se_buf e) = bs" using m by (simp add: bufs_def)
  then show ?thesis using m by (simp add: Message_get_message_header_def get_bytes_def mess_size_defs)
qed

lemma accept_header_spec:
  assumes f: "filled m hb" and l: "length hb = 48" and one: "length m = 1"
  shows "case accepted s ses hb of None \<Rightarrow> accept_header ses m s = Some None
    | Some h \<Rightarrow> \<exists>m'. accept_header ses m s = Some (Some m') \<and> filled m' (enc_message_header h) \<and> length m' = 1"
proof -
  let ?o = "own_header (dec_message_header hb)"
  obtain e where m: "m = [e]" "length (se_buf e) = 1436" using f one by (cases m) (auto simp: filled_def)
  have hd: "Message_get_message_header m = Some (dec_message_header hb)" using filled_header [of m hb "[]"] f l by simp
  have "length (mh_private_group_name ?o) = 32" using l by (simp add: own_header_fields dec_message_header_def MAX_GROUP_NAME_eq)
  from validate_total [OF this] obtain r where r: "Sess_validate_read_header ses ?o s = Some r" by blast
  show ?thesis
  proof (cases r)
    case None
    then show ?thesis using r l hd by (simp add: accepted_def accept_header_def)
  next
    case (Some h)
    then have a: "accepted s ses hb = Some h" using r l by (simp add: accepted_def)
    have le: "length (enc_message_header h) = 48" using accepted_ok(2) [OF a] by (rule length_enc_message_header)
    let ?e = "e\<lparr>se_buf := enc_message_header h @ drop 48 (se_buf e)\<rparr>"
    have "set_message_header h m = Some [?e]" using m le by (simp add: set_message_header_def put_bytes_def)
    moreover have "filled [?e] (enc_message_header h)" using m le by (simp add: filled_def bufs_def)
    ultimately show ?thesis using a r Some hd by (simp add: accept_header_def)
  qed
qed

text \<open>What the next \<open>recv\<close> of \<open>n\<close> bytes brings.\<close>

definition got :: "'a sess_layer_scheme \<Rightarrow> int \<Rightarrow> nat \<Rightarrow> byte list" where
  "got s mbox n = (case recv_ret s (recv_calls s) mbox n of Received bs \<Rightarrow> take n bs | _ \<Rightarrow> [])"

lemma recv_into_got:
  assumes "recv_into mbox i off n m s = Some (res, k, m', s')" and "heard mbox bs s s'"
  shows "bs = got s mbox (nat n)"
proof -
  have "sock_in s' mbox = sock_in s mbox @ got s mbox (nat n)"
    using assms(1) by (auto simp: recv_into_def bind_exit_if sock_recv_def got_def Let_def bind_Some_iff
        split: if_splits recv_result.splits)
  then show ?thesis using heard_fields(4) [OF assms(2)] by simp
qed

definition header_then :: "'a sess_layer_scheme \<Rightarrow> int \<Rightarrow> byte list \<Rightarrow> byte list" where
  "header_then s mbox bs = take 48 (bs @ (if length bs < 48 then got s mbox (48 - length bs) else []))"

lemma read_header_spec:
  assumes w: "in_mess_head w" "cur_byte w = int (length bs)" "length bs < 48" and m: "filled m bs" "length m = 1"
  shows "\<exists>res w' m' s' xs. read_header mbox ses w m s = Some (res, w', m', s') \<and> heard mbox xs s s' \<and>
    length m' = 1 \<and> header_then s mbox bs = bs @ xs \<and>
    (case res of Full \<Rightarrow> \<exists>h. accepted s ses (bs @ xs) = Some h \<and> w' = w\<lparr>in_mess_head := False, cur_byte := 48\<rparr> \<and>
         filled m' (enc_message_header h)
     | Again \<Rightarrow> length (bs @ xs) < 48 \<and> w' = w\<lparr>cur_byte := int (length (bs @ xs))\<rparr> \<and> filled m' (bs @ xs)
     | Fail \<Rightarrow> link_down s mbox \<or> length (bs @ xs) = 48 \<and> accepted s ses (bs @ xs) = None)"
proof -
  let ?n = "sizeof_message_header - cur_byte w"
  have n: "0 \<le> cur_byte w" "0 < ?n" "cur_byte w + ?n \<le> 1436" "?n = 48 - int (length bs)" using w by (simp_all add: mess_size_defs)
  have "0 < length m" "length (se_buf (m ! 0)) = 1436" using m by (auto simp: filled_def length_Suc_conv)
  from recv_into_spec [OF this n(1-3), of mbox s] obtain res xs buf s1 where
    r: "recv_into mbox 0 (cur_byte w) ?n m s = Some (res, int (length xs), m[0 := (m ! 0)\<lparr>se_buf := buf\<rparr>], s1)"
      "put_bytes (se_buf (m ! 0)) (cur_byte w) xs = Some buf" "heard mbox xs s s1"
      "case res of Full \<Rightarrow> int (length xs) = ?n | Again \<Rightarrow> int (length xs) < ?n | Fail \<Rightarrow> xs = [] \<and> link_down s mbox"
    by auto
  define m1 where "m1 = m[0 := (m ! 0)\<lparr>se_buf := buf\<rparr>]"
  have f: "filled m1 (bs @ xs)" "length m1 = 1"
    using filled_more [OF m(1) _ _ _ r(2)] m(2) w by (simp_all add: m1_def)
  have nn: "nat ?n = 48 - length bs" using n(4) w(3) by linarith
  have xs: "xs = got s mbox (48 - length bs)" using recv_into_got [OF r(1,3)] nn by simp
  have "length xs \<le> 48 - length bs" unfolding xs by (auto simp: got_def split: recv_result.split)
  then have ht: "header_then s mbox bs = bs @ xs" using w(3) xs by (simp add: header_then_def)
  let ?w1 = "w\<lparr>cur_byte := cur_byte w + int (length xs)\<rparr>"
  have rh: "read_header mbox ses w m s = (if res \<noteq> Full then Some (res, ?w1, m1, s1) else do {
      r \<leftarrow> accept_header ses m1 s1;
      Some (case r of None \<Rightarrow> (Fail, Message_set_location_begin_body ?w1, m1, s1)
        | Some m2 \<Rightarrow> (Full, Message_set_location_begin_body ?w1, m2, s1)) })"
    unfolding m1_def using w(1) r(1) by (simp add: read_header_def Let_def)
  show ?thesis
  proof (cases "res = Full")
    case False
    have "w\<lparr>cur_byte := int (length bs) + int (length xs)\<rparr> = w\<lparr>cur_byte := int (length (bs @ xs))\<rparr>" by simp
    then show ?thesis using False rh r(3,4) f ht n(4) w(2)
      by (intro exI [of _ res] exI [of _ ?w1] exI [of _ m1] exI [of _ s1] exI [of _ xs]) (cases res; simp)
  next
    case True
    then have l: "length (bs @ xs) = 48" using r(4) n(4) w(3) by simp
    have w1: "Message_set_location_begin_body ?w1 = w\<lparr>in_mess_head := False, cur_byte := 48\<rparr>"
      using l w(2) by (simp add: Message_set_location_begin_body_def)
    have acc: "accepted s1 ses (bs @ xs) = accepted s ses (bs @ xs)"
      using heard_fields(1,2) [OF r(3)] by (intro accepted_cong) simp_all
    note ah = accept_header_spec [OF f(1) l f(2), where s = s1 and ses = ses, unfolded acc]
    show ?thesis
    proof (cases "accepted s ses (bs @ xs)")
      case None
      then show ?thesis using ah True rh r(3) f(2) ht l w1
        by (intro exI [of _ Fail] exI exI [of _ m1] exI [of _ s1] exI [of _ xs]) simp
    next
      case (Some h)
      with ah obtain m2 where "accept_header ses m1 s1 = Some (Some m2)" "filled m2 (enc_message_header h)" "length m2 = 1" by auto
      then show ?thesis using Some True rh r(3) ht w1
        by (intro exI [of _ Full] exI exI [of _ m2] exI [of _ s1] exI [of _ xs]) simp
    qed
  qed
qed

section \<open>A message in pieces\<close>

text \<open>\<open>reading s ses bs\<close>: the session has the bytes \<open>bs\<close> of a message that is not complete.\<close>

definition reading :: "'a sess_layer_scheme \<Rightarrow> nat \<Rightarrow> byte list \<Rightarrow> bool" where
  "reading s ses bs \<longleftrightarrow> (let w = ss_read (Sessions s ses) in
     if in_mess_head w
     then cur_byte w = int (length bs) \<and> cur_element w = 0 \<and> total_bytes w = 0 \<and> length bs < 48 \<and>
       (case ss_read_mess (Sessions s ses) of None \<Rightarrow> bs = [] | Some m \<Rightarrow> length m = 1 \<and> filled m bs)
     else \<exists>m h. ss_read_mess (Sessions s ses) = Some m \<and> accepted s ses (take 48 bs) = Some h \<and>
       int (length bs) < total_size h \<and> body_at m w (enc_message_header h @ drop 48 bs) \<and>
       total_bytes w = int (length bs) - 48)"

text \<open>\<open>whole m h bs\<close>: the elements of \<open>m\<close> hold the header \<open>h\<close> and the bytes behind the first 48 of \<open>bs\<close>.\<close>

definition whole :: "message \<Rightarrow> message_header \<Rightarrow> byte list \<Rightarrow> bool" where
  "whole m h bs \<longleftrightarrow> filled m (enc_message_header h @ drop 48 bs) \<and> length m = elements_for (length bs) \<and>
     int (length bs) = total_size h"

lemma body_spec:
  assumes h: "accepted s0 ses hb = Some h" and small: "total_size h < 143600"
    and at: "body_at m w (enc_message_header h @ ds)" "\<not> in_mess_head w" "total_bytes w = int (length ds)"
    and len: "48 + int (length ds) \<le> total_size h"
      "48 + int (length ds) = total_size h \<Longrightarrow> length m = elements_for (48 + length ds)"
  shows "\<exists>res w' m' s' ys. read_body mbox (body_size h - total_bytes w) w m s = Some (res, w', m', s') \<and> heard mbox ys s s' \<and>
    (case res of Full \<Rightarrow> filled m' (enc_message_header h @ ds @ ys) \<and> length m' = elements_for (48 + length (ds @ ys)) \<and>
         48 + int (length (ds @ ys)) = total_size h
     | Again \<Rightarrow> 48 + int (length (ds @ ys)) < total_size h \<and> body_at m' w' (enc_message_header h @ ds @ ys) \<and>
         total_bytes w' = int (length (ds @ ys)) \<and> \<not> in_mess_head w'
     | Fail \<Rightarrow> link_down s mbox)"
proof -
  let ?cs = "enc_message_header h @ ds" and ?t = "nat (total_size h)"
  note ok = accepted_ok [OF h]
  have le: "length ?cs = 48 + length ds" using ok(2) by (simp add: length_enc_message_header)
  have f: "filled m ?cs" using at(1) by (simp add: body_at_def)
  have ts: "total_size h = body_size h + 48" by (simp add: total_size_def body_size_def mess_size_defs)
  have a: "body_size h - total_bytes w = int ?t - int (length ?cs)" "length ?cs \<le> ?t" "?t \<le> 143600"
    "total_bytes w = int (length ?cs) - 48"
    using ok small at(3) len(1) le ts by linarith+
  have e: "length m = elements_for ?t" if "length ?cs = ?t" using that len(2) le ok(3) by (metis int_nat_eq of_nat_add of_nat_numeral order_trans zero_le_numeral)
  from read_body_spec [OF f a(1-3) at(1) e a(4), of mbox s] obtain res w' m' s' ys where
    r: "read_body mbox (body_size h - total_bytes w) w m s = Some (res, w', m', s')" "heard mbox ys s s'"
      "in_mess_head w' = in_mess_head w" "case res of Full \<Rightarrow> length (?cs @ ys) = ?t \<and> length m' = elements_for ?t
       | Again \<Rightarrow> length (?cs @ ys) < ?t \<and> body_at m' w' (?cs @ ys) \<and> total_bytes w' = int (length (?cs @ ys)) - 48
       | Fail \<Rightarrow> link_down s mbox" "filled m' (?cs @ ys)" by blast
  have "length (?cs @ ys) = ?t \<longleftrightarrow> 48 + int (length (ds @ ys)) = total_size h"
    "length (?cs @ ys) < ?t \<longleftrightarrow> 48 + int (length (ds @ ys)) < total_size h"
    "int (length (?cs @ ys)) - 48 = int (length (ds @ ys))"
    using le ok(3) by auto
  then show ?thesis using r at(2) le
    by (intro exI [of _ res] exI [of _ w'] exI [of _ m'] exI [of _ s'] exI [of _ ys]) (cases res; simp)
qed

text \<open>One call takes the bytes \<open>xs\<close> from the socket.\<close>

definition took :: "int \<Rightarrow> nat \<Rightarrow> byte list \<Rightarrow> 'a sess_layer_scheme \<Rightarrow> 'a sess_layer_scheme \<Rightarrow> bool" where
  "took mbox ses xs s s1 \<longleftrightarrow> (\<exists>s' w m. heard mbox xs s s' \<and> s1 = upd_session ses (\<lambda>x. x\<lparr>ss_read := w, ss_read_mess := m\<rparr>) s')"

lemma whole_first: "length hb = 48 \<Longrightarrow> take 48 (hb @ ds) = hb \<and> drop 48 (hb @ ds) = ds"
  by simp

lemma receive_spec:
  assumes rd: "reading s ses bs" and small: "\<And>h. accepted s ses (header_then s mbox bs) = Some h \<Longrightarrow> total_size h < 143600"
  shows "\<exists>res m s1 xs. receive mbox ses s = Some (res, m, s1) \<and> took mbox ses xs s s1 \<and>
    (case res of Full \<Rightarrow> \<exists>h. accepted s ses (take 48 (bs @ xs)) = Some h \<and> total_size h < 143600 \<and> whole m h (bs @ xs)
     | Again \<Rightarrow> reading s1 ses (bs @ xs)
     | Fail \<Rightarrow> link_down s mbox \<or> length (bs @ xs) = 48 \<and> accepted s ses (bs @ xs) = None)"
proof -
  let ?w = "ss_read (Sessions s ses)"
  define m where "m = (case ss_read_mess (Sessions s ses) of None \<Rightarrow> Message_new_message | Some m \<Rightarrow> m)"
  have rc: "receive mbox ses s = do {
     (res, w1, m1, s1) \<leftarrow> read_header mbox ses ?w m s;
     (res2, w2, m2, s2) \<leftarrow> (if res \<noteq> Full then Some (res, w1, m1, s1) else do {
       h \<leftarrow> Message_get_message_header m1;
       read_body mbox (body_size h - total_bytes w1) w1 m1 s1 });
     Some (res2, m2, upd_session ses (\<lambda>x. x\<lparr>ss_read := w2, ss_read_mess := Some m2\<rparr>) s2) }"
    by (simp add: receive_def m_def Let_def)
  have acc: "accepted s1 ses hb = accepted s ses hb" if "took mbox ses xs s s1" for s1 hb xs
    using that by (intro accepted_cong) (auto simp: took_def heard_fields upd_session_def)
  show ?thesis
  proof (cases "in_mess_head ?w")
    case True
    then have w: "cur_byte ?w = int (length bs)" "cur_element ?w = 0" "total_bytes ?w = 0" "length bs < 48"
      using rd by (simp_all add: reading_def Let_def)
    have "filled Message_new_message []" by (simp add: filled_def Message_new_message_def)
    then have m: "filled m bs" "length m = 1"
      using rd True by (auto simp: reading_def Let_def m_def Message_new_message_def split: option.splits)
    from read_header_spec [OF True w(1,4) m, of mbox ses s] obtain res w1 m1 s1 xs where
      r: "read_header mbox ses ?w m s = Some (res, w1, m1, s1)" "heard mbox xs s s1" "length m1 = 1"
        "header_then s mbox bs = bs @ xs"
        "case res of Full \<Rightarrow> \<exists>h. accepted s ses (bs @ xs) = Some h \<and> w1 = ?w\<lparr>in_mess_head := False, cur_byte := 48\<rparr> \<and>
           filled m1 (enc_message_header h)
         | Again \<Rightarrow> length (bs @ xs) < 48 \<and> w1 = ?w\<lparr>cur_byte := int (length (bs @ xs))\<rparr> \<and> filled m1 (bs @ xs)
         | Fail \<Rightarrow> link_down s mbox \<or> length (bs @ xs) = 48 \<and> accepted s ses (bs @ xs) = None" by blast
    show ?thesis
    proof (cases "res = Full")
      case False
      let ?s = "upd_session ses (\<lambda>x. x\<lparr>ss_read := w1, ss_read_mess := Some m1\<rparr>) s1"
      have "receive mbox ses s = Some (res, m1, ?s)" using rc r(1) False by simp
      moreover have "took mbox ses xs s ?s" using r(2) by (auto simp: took_def)
      moreover have "reading ?s ses (bs @ xs)" if "res = Again"
        using that r(3,5) True w by (simp add: reading_def)
      ultimately show ?thesis using r(5) False
        by (intro exI [of _ res] exI [of _ m1] exI [of _ ?s] exI [of _ xs]) (cases res; simp)
    next
      case full: True
      then obtain h where h: "accepted s ses (bs @ xs) = Some h" "w1 = ?w\<lparr>in_mess_head := False, cur_byte := 48\<rparr>"
        "filled m1 (enc_message_header h)" using r(5) by auto
      note ok = accepted_ok [OF h(1)]
      have le: "length (enc_message_header h) = 48" using ok(2) by (rule length_enc_message_header)
      have hd: "Message_get_message_header m1 = Some h"
        using filled_header [of m1 "enc_message_header h" "[]"] h(3) le ok(2) dec_enc_message_header [OF ok(2), of "[]"] by simp
      have at: "body_at m1 w1 (enc_message_header h @ [])" "\<not> in_mess_head w1" "total_bytes w1 = int (length ([] :: byte list))"
        using h(2,3) r(3) le w by (simp_all add: body_at_def)
      from body_spec [OF h(1) _ at, where mbox = mbox and s = s1, unfolded append_Nil] small [unfolded r(4), OF h(1)] ok(3) r(3) obtain res2 w2 m2 s2 ys where
        b: "read_body mbox (body_size h - total_bytes w1) w1 m1 s1 = Some (res2, w2, m2, s2)" "heard mbox ys s1 s2"
          "case res2 of Full \<Rightarrow> filled m2 (enc_message_header h @ ys) \<and> length m2 = elements_for (48 + length ys) \<and>
             48 + int (length ys) = total_size h
           | Again \<Rightarrow> 48 + int (length ys) < total_size h \<and> body_at m2 w2 (enc_message_header h @ ys) \<and>
               total_bytes w2 = int (length ys) \<and> \<not> in_mess_head w2
           | Fail \<Rightarrow> link_down s1 mbox"
        by (auto simp: elements_for_def)
      let ?s = "upd_session ses (\<lambda>x. x\<lparr>ss_read := w2, ss_read_mess := Some m2\<rparr>) s2"
      have "receive mbox ses s = Some (res2, m2, ?s)" using rc r(1) full hd b(1) by simp
      moreover have tk: "took mbox ses (xs @ ys) s ?s" using heard_trans [OF r(2) b(2)] by (auto simp: took_def)
      moreover have fst48: "take 48 (bs @ xs @ ys) = bs @ xs" "drop 48 (bs @ xs @ ys) = ys"
        using whole_first [of "bs @ xs" ys] ok(1) by simp_all
      moreover have "reading ?s ses (bs @ xs @ ys)" if "res2 = Again"
        using that b(3) acc [OF tk] h(1) fst48 ok(1) by (auto simp: reading_def Let_def)
      moreover have "whole m2 h (bs @ xs @ ys)" if "res2 = Full"
      proof -
        have l: "length (bs @ xs @ ys) = 48 + length ys" using ok(1) by simp
        show ?thesis unfolding whole_def l using that b(3) fst48 by simp
      qed
      moreover have "link_down s mbox" if "res2 = Fail"
        using that b(3) heard_fields(3) [OF r(2)] by (simp add: link_down_def)
      ultimately show ?thesis using h(1) small [unfolded r(4), OF h(1)]
        by (intro exI [of _ res2] exI [of _ m2] exI [of _ ?s] exI [of _ "xs @ ys"]) (cases res2; simp)
    qed
  next
    case False
    then obtain h where h: "ss_read_mess (Sessions s ses) = Some m" "accepted s ses (take 48 bs) = Some h"
      "int (length bs) < total_size h" "body_at m ?w (enc_message_header h @ drop 48 bs)" "total_bytes ?w = int (length bs) - 48"
      using rd by (auto simp: reading_def Let_def m_def)
    note ok = accepted_ok [OF h(2)]
    have l: "48 \<le> length bs" using ok(1) by simp
    have le: "length (enc_message_header h) = 48" using ok(2) by (rule length_enc_message_header)
    have hd: "Message_get_message_header m = Some h"
      using filled_header [of m "enc_message_header h" "drop 48 bs"] h(4) le dec_enc_message_header [OF ok(2), of "[]"]
      by (simp add: body_at_def)
    have sm: "total_size h < 143600" using small l h(2) by (simp add: header_then_def)
    moreover have "total_bytes ?w = int (length (drop 48 bs))" using h(5) l by simp
    ultimately obtain res2 w2 m2 s2 ys where
      b: "read_body mbox (body_size h - total_bytes ?w) ?w m s = Some (res2, w2, m2, s2)" "heard mbox ys s s2"
        "case res2 of Full \<Rightarrow> filled m2 (enc_message_header h @ drop 48 bs @ ys) \<and>
             length m2 = elements_for (48 + length (drop 48 bs @ ys)) \<and> 48 + int (length (drop 48 bs @ ys)) = total_size h
         | Again \<Rightarrow> 48 + int (length (drop 48 bs @ ys)) < total_size h \<and> body_at m2 w2 (enc_message_header h @ drop 48 bs @ ys) \<and>
             total_bytes w2 = int (length (drop 48 bs @ ys)) \<and> \<not> in_mess_head w2
         | Fail \<Rightarrow> link_down s mbox"
      using body_spec [OF h(2) _ h(4) False, where mbox = mbox and s = s] h(3) l by auto
    let ?s = "upd_session ses (\<lambda>x. x\<lparr>ss_read := w2, ss_read_mess := Some m2\<rparr>) s2"
    have "receive mbox ses s = Some (res2, m2, ?s)" using rc False hd b(1) by (simp add: read_header_def)
    moreover have tk: "took mbox ses ys s ?s" using b(2) by (auto simp: took_def)
    moreover have fst48: "take 48 (bs @ ys) = take 48 bs" "drop 48 (bs @ ys) = drop 48 bs @ ys"
      "length (bs @ ys) = 48 + length (drop 48 bs @ ys)" using l by simp_all
    moreover have "reading ?s ses (bs @ ys)" if "res2 = Again"
      using that b(3) acc [OF tk] h(2) fst48 by (auto simp: reading_def Let_def)
    moreover have "whole m2 h (bs @ ys)" if "res2 = Full"
      unfolding whole_def fst48(2,3) using that b(3) by simp
    moreover have "link_down s mbox" if "res2 = Fail" using that b(3) by simp
    ultimately show ?thesis using h(2) sm
      by (intro exI [of _ res2] exI [of _ m2] exI [of _ ?s] exI [of _ ys]) (cases res2; simp)
  qed
qed

section \<open>The lengths of the elements\<close>

lemma contents_full:
  "\<forall>e \<in> set m. length (se_buf e) = 1436 \<and> se_len e = 1436 \<Longrightarrow> contents m = bufs m"
  by (induction m) (auto simp: contents_def bufs_def used_def)

lemma upd_last: "xs \<noteq> [] \<Longrightarrow> xs[length xs - 1 := x] = butlast xs @ [x]"
  by (induction xs rule: rev_induct) simp_all

lemma fixup_whole:
  assumes w: "whole m h bs" and h: "wf_message_header h" and size: "48 \<le> total_size h" "total_size h < 143600"
  shows "\<exists>m1. Message_element_len_fixup m = Some m1 \<and> contents m1 = enc_message_header h @ drop 48 bs \<and>
    queued_mess m1 \<and> 48 \<le> se_len (hd m1) \<and> Message_get_message_header m1 = Some h"
proof -
  let ?N = "length bs" and ?cs = "enc_message_header h @ drop 48 bs"
  have f: "filled m ?cs" "length m = elements_for ?N" "int ?N = total_size h" using w by (simp_all add: whole_def)
  have le: "length (enc_message_header h) = 48" using h by (rule length_enc_message_header)
  have N: "length ?cs = ?N" "48 \<le> ?N" "?N < 143600" using f(3) size le by simp_all
  have hd: "Message_get_message_header m = Some h"
    using filled_header [of m "enc_message_header h" "drop 48 bs"] f(1) le dec_enc_message_header [OF h, of "[]"] by simp
  obtain e es where m: "m = e # es" using f(1) by (cases m) (auto simp: filled_def)
  have b: "length (se_buf e) = 1436" "\<forall>x \<in> set es. length (se_buf x) = 1436 \<and> se_len x = 1436"
    "take ?N (bufs m) = ?cs" using f(1) N(1) by (auto simp: m filled_def)
  have hdm: "Message_get_message_header m1 = Some h" if "m1 \<noteq> []" "se_buf (hd m1) = se_buf e" for m1
    using hd that by (cases m1) (auto simp: Message_get_message_header_def m)
  show ?thesis
  proof (cases "?N < 1436")
    case True
    then have "(?N + 1435) div 1436 = 1" using N(2) by (intro div_nat_eqI) auto
    then have "es = []" using f(2) by (simp add: m elements_for_def)
    let ?m1 = "[e\<lparr>se_len := int ?N\<rparr>]"
    have "Message_element_len_fixup m = Some ?m1"
      using True f(3) hd \<open>es = []\<close> by (simp add: Message_element_len_fixup_def store_len_def m mess_size_defs)
    moreover have "contents ?m1 = ?cs" using b(3) \<open>es = []\<close> by (simp add: contents_def used_def bufs_def m)
    ultimately show ?thesis using hdm [of ?m1] b(1) N(2) True by (auto simp: queued_mess_def wf_element_def)
  next
    case False
    let ?k = "?N div 1436" and ?r = "?N mod 1436"
    let ?e = "e\<lparr>se_len := 1436\<rparr>"
    have full: "\<forall>x \<in> set (?e # es). length (se_buf x) = 1436 \<and> se_len x = 1436" using b by simp
    have bm: "bufs (?e # es) = bufs m" by (simp add: bufs_def m)
    have k: "0 < ?k" "?k < 100" using False N(3) by linarith+
    have q: "total_size h div 1436 = int ?k" using f(3) by (simp add: zdiv_int)
    have fx: "Message_element_len_fixup m = store_len ?k (total_size h - 1436 * int (length es)) (?e # es)"
      using False f(3) hd q by (simp add: Message_element_len_fixup_def store_len_def m mess_size_defs)
    show ?thesis
    proof (cases "?r = 0")
      case True
      then have N': "?N = 1436 * ?k" using div_mult_mod_eq [of ?N 1436] by linarith
      then have "length m = ?k" using f(2) by (simp add: elements_for_def)
      then have "Message_element_len_fixup m = Some (?e # es)" using fx k by (simp add: store_len_def m MAX_SCATTER_ELEMENTS_def)
      moreover have "contents (?e # es) = ?cs"
        using contents_full [OF full] bm b(3) N' \<open>length m = ?k\<close> length_bufs [of m] b(1,2) by (simp add: m)
      ultimately show ?thesis using hdm [of "?e # es"] b by (auto simp: queued_mess_def wf_element_def)
    next
      case False
      have N': "?N = 1436 * ?k + ?r" using div_mult_mod_eq [of ?N 1436] by linarith
      have "?N + 1435 = 1436 * Suc ?k + (?r - 1)" using N' False by simp
      moreover have "?r - 1 < 1436" using mod_less_divisor [of 1436 ?N] by linarith
      ultimately have "elements_for ?N = Suc ?k" unfolding elements_for_def by (simp only: div_mult_self4) simp
      then have l: "length es = ?k" using f(2) by (simp add: m)
      obtain j where j: "?k = Suc j" using k(1) by (cases ?k) auto
      have ne: "es \<noteq> []" using l j by auto
      have jl: "es ! j = last es" "es \<noteq> []" "j = length es - 1" using l j ne last_conv_nth [OF ne] by auto
      let ?x = "(last es)\<lparr>se_len := int ?r\<rparr>"
      let ?m1 = "?e # butlast es @ [?x]"
      have "total_size h - 1436 * int (length es) = int ?r" using f(3) N' l by linarith
      then have "Message_element_len_fixup m = Some ((?e # es)[?k := ((?e # es) ! ?k)\<lparr>se_len := int ?r\<rparr>])"
        using fx l by (simp add: store_len_def)
      moreover have "(?e # es)[?k := ((?e # es) ! ?k)\<lparr>se_len := int ?r\<rparr>] = ?m1"
        unfolding j using jl(1,3) upd_last [OF ne] by simp
      moreover have "contents ?m1 = ?cs"
      proof -
        have es: "es = butlast es @ [last es]" using jl(2) by simp
        have fb: "\<forall>x \<in> set (?e # butlast es). length (se_buf x) = 1436 \<and> se_len x = 1436"
          using full by (auto dest: in_set_butlastD)
        have "bufs m = bufs (?e # butlast es) @ se_buf (last es)"
          unfolding bm [symmetric] by (subst es) (simp add: bufs_def)
        moreover have "length (bufs (?e # butlast es)) = 1436 * ?k"
          using length_bufs [of "?e # butlast es"] fb l j by simp
        ultimately have "take ?N (bufs m) = bufs (?e # butlast es) @ take ?r (se_buf (last es))"
          by (simp add: minus_mult_div_eq_mod)
        moreover have "contents ?m1 = contents (?e # butlast es) @ take ?r (se_buf (last es))"
          by (simp add: contents_def used_def)
        ultimately show ?thesis using b(3) contents_full [OF fb] by simp
      qed
      moreover have "queued_mess ?m1"
        using b jl(2) by (auto simp: queued_mess_def wf_element_def dest: in_set_butlastD)
      ultimately show ?thesis using hdm [of ?m1] by simp
    qed
  qed
qed

section \<open>What \<open>Sess_read\<close> does\<close>

lemma reading_reset:
  "reading (upd_session ses (\<lambda>x. x\<lparr>ss_read := Message_reset_current_location\<lparr>in_mess_head := True\<rparr>, ss_read_mess := None\<rparr>) s) ses []"
  by (simp add: reading_def Message_reset_current_location_def)

lemma took_upd:
  "took mbox ses xs s s1 \<Longrightarrow> took mbox ses xs s (upd_session ses (\<lambda>x. x\<lparr>ss_read := w, ss_read_mess := m\<rparr>) s1)"
proof -
  assume "took mbox ses xs s s1"
  then obtain s' w' m' where "heard mbox xs s s'" "s1 = upd_session ses (\<lambda>x. x\<lparr>ss_read := w', ss_read_mess := m'\<rparr>) s'"
    by (auto simp: took_def)
  moreover have "upd_session ses (\<lambda>x. x\<lparr>ss_read := w, ss_read_mess := m\<rparr>)
      (upd_session ses (\<lambda>x. x\<lparr>ss_read := w', ss_read_mess := m'\<rparr>) s') = upd_session ses (\<lambda>x. x\<lparr>ss_read := w, ss_read_mess := m\<rparr>) s'"
    by (simp add: upd_session_def)
  ultimately show ?thesis by (auto simp: took_def)
qed

text \<open>\<open>made m h bs\<close>: the message \<open>m\<close> was made of the bytes \<open>bs\<close>, the first 48 of which are for the header \<open>h\<close>.\<close>

definition made :: "message \<Rightarrow> message_header \<Rightarrow> byte list \<Rightarrow> bool" where
  "made m h bs \<longleftrightarrow> int (length bs) = total_size h \<and> contents m = enc_message_header h @ drop 48 bs \<and>
     Message_get_message_header m = Some h \<and> queued_mess m \<and> 48 \<le> se_len (hd m)"

lemma Sess_read_core:
  assumes ses: "Sess_get_session_index mbox s = Some (Some ses)" "ses < MAX_SESSIONS" and rd: "reading s ses bs"
    and small: "case accepted s ses (header_then s mbox bs) of None \<Rightarrow> True | Some h \<Rightarrow> total_size h < 143600"
  shows "\<exists>xs s1. took mbox ses xs s s1 \<and>
    (reading s1 ses (bs @ xs) \<and> Sess_read mbox s = Some s1 \<or>
     (\<exists>h m. accepted s ses (take 48 (bs @ xs)) = Some h \<and> made m h (bs @ xs) \<and> reading s1 ses [] \<and>
        Sess_read mbox s = handle_client_message mbox ses m s1) \<or>
     (link_down s mbox \<or> length (bs @ xs) = 48 \<and> accepted s ses (bs @ xs) = None) \<and> Sess_read mbox s = Sess_kill mbox s1)"
proof -
  have "\<And>h. accepted s ses (header_then s mbox bs) = Some h \<Longrightarrow> total_size h < 143600" using small by simp
  from receive_spec [OF rd this] obtain res m s1 xs where
    r: "receive mbox ses s = Some (res, m, s1)" "took mbox ses xs s s1"
      "case res of Full \<Rightarrow> \<exists>h. accepted s ses (take 48 (bs @ xs)) = Some h \<and> total_size h < 143600 \<and> whole m h (bs @ xs)
       | Again \<Rightarrow> reading s1 ses (bs @ xs)
       | Fail \<Rightarrow> link_down s mbox \<or> length (bs @ xs) = 48 \<and> accepted s ses (bs @ xs) = None" by blast
  have sr: "Sess_read mbox s = (case res of Again \<Rightarrow> Some s1 | Fail \<Rightarrow> Sess_kill mbox s1
      | Full \<Rightarrow> do { (m1, s2) \<leftarrow> take_out ses m s1; handle_client_message mbox ses m1 s2 })"
    using ses r(1) by (simp add: Sess_read_def)
  show ?thesis
  proof (cases res)
    case Full
    then obtain h where h: "accepted s ses (take 48 (bs @ xs)) = Some h" "whole m h (bs @ xs)" "total_size h < 143600"
      using r(3) by auto
    note ok = accepted_ok [OF h(1)]
    from fixup_whole [OF h(2) ok(2,3) h(3)] obtain m1 where m1: "Message_element_len_fixup m = Some m1" "made m1 h (bs @ xs)"
      using h(2) by (auto simp: made_def whole_def)
    let ?s = "upd_session ses (\<lambda>x. x\<lparr>ss_read := Message_reset_current_location\<lparr>in_mess_head := True\<rparr>, ss_read_mess := None\<rparr>) s1"
    have "Sess_read mbox s = handle_client_message mbox ses m1 ?s" using sr Full m1(1) by (simp add: take_out_def)
    then show ?thesis using took_upd [OF r(2)] reading_reset h(1) m1(2) by blast
  next
    case Again
    then show ?thesis using r(2,3) sr by auto
  next
    case Fail
    then show ?thesis using r(2,3) sr by auto
  qed
qed

text \<open>
  C33: Whatever pieces the bytes of a client come in, each call of \<open>Sess_read\<close> adds what it gets to the
  bytes it has: either they are still the beginning of a message, or they are a whole message, and
  then the message handled is exactly its header, checked and in the form of this daemon, and the
  bytes behind it, in elements that do not overflow; or the header is refused or the connection is
  down, and then the session is killed.  The sizes are those the elements can hold: the check of the
  header lets through messages up to 144000 bytes, for which 100 elements are not enough.
\<close>

theorem Client_message_read:
  assumes "Sess_get_session_index mbox s = Some (Some ses)" and "ses < MAX_SESSIONS" and "reading s ses bs"
    and "case accepted s ses (header_then s mbox bs) of None \<Rightarrow> True | Some h \<Rightarrow> total_size h < 143600"
  shows "\<exists>xs s1. took mbox ses xs s s1 \<and>
    (reading s1 ses (bs @ xs) \<and> Sess_read mbox s = Some s1 \<or>
     (\<exists>h m. accepted s ses (take 48 (bs @ xs)) = Some h \<and> made m h (bs @ xs) \<and> reading s1 ses [] \<and>
        Sess_read mbox s = handle_client_message mbox ses m s1) \<or>
     (link_down s mbox \<or> length (bs @ xs) = 48 \<and> accepted s ses (bs @ xs) = None) \<and> Sess_read mbox s = Sess_kill mbox s1)"
  by (rule Sess_read_core [OF assms])

text \<open>The client of the sample daemon, the bytes of which come in pieces of 20 at most.\<close>

definition slow_client :: "nat \<Rightarrow> server" where
  "slow_client n = upd_session n (\<lambda>x. x\<lparr>ss_read := Message_reset_current_location\<lparr>in_mess_head := True\<rparr>, ss_read_mess := None\<rparr>)
     ((sample_server 0)\<lparr>recv_ret := (\<lambda>_ _ k. Received (replicate (min k 20) 1))\<rparr>)"

theorem Client_message_read_witness:
  "\<exists>n xs s1. took 7 n xs (slow_client n) s1 \<and>
    (reading s1 n xs \<and> Sess_read 7 (slow_client n) = Some s1 \<or>
     (\<exists>h m. accepted (slow_client n) n (take 48 xs) = Some h \<and> made m h xs \<and> reading s1 n [] \<and>
        Sess_read 7 (slow_client n) = handle_client_message 7 n m s1) \<or>
     (link_down (slow_client n) 7 \<or> length xs = 48 \<and> accepted (slow_client n) n xs = None) \<and>
        Sess_read 7 (slow_client n) = Sess_kill 7 s1)"
proof -
  obtain n where n: "sessions_ok one_client [n]" "mbox_at one_client n = 7" using one_client_ok by blast
  have ok: "sessions_ok (sample_server 0) [n]" using n(1) by (simp add: sample_table)
  have "Sess_get_session_index 7 (sample_server 0) = Some (Some n)"
    using Session_lookups_core [OF ok, of 7 "[]"] n(2) by (auto simp: sample_table split: option.splits)
  moreover have "same_chains (Sessions (sample_server 0)) (Sessions (slow_client n))"
    "Sessions_hash_head (slow_client n) = Sessions_hash_head (sample_server 0)"
    by (simp_all add: slow_client_def same_chains_def upd_session_def)
  ultimately have ix: "Sess_get_session_index 7 (slow_client n) = Some (Some n)"
    using get_session_index_cong [of "sample_server 0" "slow_client n" 7] by simp
  have small: "n < MAX_SESSIONS" using n(1) by (auto simp: sessions_ok_def sorted_ok_def)
  have rd: "reading (slow_client n) n []" unfolding slow_client_def by (rule reading_reset)
  have "length (header_then (slow_client n) 7 []) = 20" by (simp add: header_then_def got_def slow_client_def upd_session_def)
  then have "accepted (slow_client n) n (header_then (slow_client n) 7 []) = None" by (simp add: accepted_def)
  then have sm: "case accepted (slow_client n) n (header_then (slow_client n) 7 []) of None \<Rightarrow> True | Some h \<Rightarrow> total_size h < 143600"
    by simp
  from Client_message_read [OF ix small rd sm] show ?thesis unfolding append_Nil by blast
qed

text \<open>A message that needs more than 100 elements ends the daemon when their last byte has come.\<close>

lemma Oversized_message_ends:
  assumes "filled m cs" and "length m = 100" and "cur_element w = 100" and "0 < remain"
  shows "read_body mbox remain w m s = None"
  using assms by (subst read_body.simps) (simp add: Message_add_scat_element_def MAX_SCATTER_ELEMENTS_def bind_exit_if split: if_splits)

end
