(* ===== verification/Client_delivery.thy ===== *)
theory Client_delivery
  imports Client_input Group_targets
begin

text \<open>
  What the clients of a daemon get when the protocol hands up a regular message: it is written once to
  every local session its groups name, without the sender when the sender asked for that, and to no
  other session.
\<close>

section \<open>Headers in their own form\<close>

lemma set_header_spec:
  assumes m: "queued_mess m" "48 \<le> se_len (hd m)" and h: "wf_message_header h"
  shows "\<exists>m1. set_message_header h m = Some m1 \<and> contents m1 = enc_message_header h @ drop 48 (contents m) \<and>
    queued_mess m1 \<and> Message_get_message_header m1 = Some h \<and> se_len (hd m1) = se_len (hd m) \<and>
    drop 48 (se_buf (hd m1)) = drop 48 (se_buf (hd m)) \<and> tl m1 = tl m"
proof -
  obtain e es where m0: "m = e # es" using m(1) by (cases m) (auto simp: queued_mess_def)
  have e: "length (se_buf e) = 1436" "48 \<le> se_len e" "se_len e \<le> 1436" using m by (auto simp: m0 queued_mess_def wf_element_def)
  have le: "length (enc_message_header h) = 48" using h by (rule length_enc_message_header)
  let ?e = "e\<lparr>se_buf := enc_message_header h @ drop 48 (se_buf e)\<rparr>"
  have s: "set_message_header h m = Some (?e # es)" using e le by (simp add: set_message_header_def m0 put_bytes_def)
  have "contents (?e # es) = enc_message_header h @ drop 48 (contents m)"
    using e le by (simp add: contents_def used_def m0 drop_take)
  moreover have "Message_get_message_header (?e # es) = Some h"
    using header_of_buf [OF h, of "?e # es"] e le by simp
  moreover have "queued_mess (?e # es)" using m(1) e le by (simp add: queued_mess_def m0 wf_element_def)
  ultimately show ?thesis using s e le by (simp add: m0)
qed

lemma sint_int32: "int32_range (sint (w :: int32u))"
  using sint_ge [of w] sint_lt [of w] by (simp add: int32_range_def)

lemma dec_header_wf: "48 \<le> length bs \<Longrightarrow> wf_message_header (dec_message_header bs)"
  by (simp add: wf_message_header_def dec_message_header_def MAX_GROUP_NAME_eq sint_int32)

lemma header_wf: "Message_get_message_header m = Some h \<Longrightarrow> wf_message_header h"
  by (cases m) (auto simp: Message_get_message_header_def get_bytes_def mess_size_defs split: if_splits intro!: dec_header_wf)

lemma flip_header_wf: "wf_message_header h \<Longrightarrow> wf_message_header (Flip_mess h)"
  by (simp add: wf_message_header_def Flip_mess_def flip_i32_def sint_int32)

lemma own_header_wf: "wf_message_header h \<Longrightarrow> wf_message_header (own_header h)"
  using flip_header_wf [of h] by (simp add: own_header_def wf_message_header_def Let_def)

lemma has_set_endian: "bits AND ENDIAN_TYPE = 0 \<Longrightarrow> has (Set_endian t) bits = has t bits"
proof -
  assume b: "bits AND ENDIAN_TYPE = 0"
  have "Set_endian t AND bits = t AND bits"
  proof (rule bit_word_eqI)
    fix n assume n: "n < LENGTH(32)"
    have "\<not> (bit bits n \<and> bit ENDIAN_TYPE n)" using arg_cong [OF b, of "\<lambda>w. bit w n"] by (simp add: bit_and_iff)
    moreover have "ARCH_ENDIAN = ENDIAN_TYPE" by (simp add: ARCH_ENDIAN_def ENDIAN_TYPE_def)
    ultimately show "bit (Set_endian t AND bits) n = bit (t AND bits) n"
      using n by (auto simp: Set_endian_def bit_and_iff bit_or_iff bit_not_iff)
  qed
  then show ?thesis by (simp add: has_def)
qed

lemma kind_bits:
  "has (Set_endian t) JOIN_MESS = has t JOIN_MESS" "has (Set_endian t) LEAVE_MESS = has t LEAVE_MESS"
  "has (Set_endian t) KILL_MESS = has t KILL_MESS" "has (Set_endian t) GROUPS_MESS = has t GROUPS_MESS"
  by (rule has_set_endian; simp add: JOIN_MESS_def LEAVE_MESS_def KILL_MESS_def GROUPS_MESS_def ENDIAN_TYPE_def)+

text \<open>The message as it is delivered: only the header may change.\<close>

lemma endian_corrected:
  assumes m: "queued_mess m" "48 \<le> se_len (hd m)" and h: "Message_get_message_header m = Some h0"
  shows "\<exists>m1. Message_endian_correct_message_header m = Some m1 \<and> queued_mess m1 \<and> se_len (hd m1) = se_len (hd m) \<and>
    drop 48 (contents m1) = drop 48 (contents m) \<and>
    Message_get_message_header m1 = Some (if Same_endian (mh_type h0) then h0 else Flip_mess h0) \<and>
    drop 48 (se_buf (hd m1)) = drop 48 (se_buf (hd m)) \<and> tl m1 = tl m"
proof (cases "Same_endian (mh_type h0)")
  case False
  have f: "wf_message_header (Flip_mess h0)" by (rule flip_header_wf [OF header_wf [OF h]])
  then show ?thesis using False set_header_spec [OF m f] h
    by (auto simp: Message_endian_correct_message_header_def length_enc_message_header)
next
  case True
  then show ?thesis using h m by (simp add: Message_endian_correct_message_header_def)
qed

section \<open>The names of the groups\<close>

lemma take_drop_prefix:
  "j + n \<le> k \<Longrightarrow> k \<le> length xs \<Longrightarrow> take n (drop j (take k xs @ ys)) = take n (drop j xs)"
  by (simp add: drop_take)

lemma groups_array_names:
  assumes m: "queued_mess m" and h: "Message_get_message_header m = Some h" "\<not> has (mh_type h) REJECT_MESS"
    and n: "0 \<le> mh_num_groups h" "48 + 32 * mh_num_groups h \<le> se_len (hd m)"
  shows "target_groups h m = names_array (mh_num_groups h) (drop 48 (contents m))"
proof -
  obtain e es where m0: "m = e # es" "se_len e \<le> 1436" "length (se_buf e) = 1436"
    using m by (cases m) (auto simp: queued_mess_def wf_element_def)
  have "Message_get_groups_array m = Some (drop 48 (se_buf e))"
    using h n m0 by (simp add: Message_get_groups_array_def mess_size_defs bind_exit_if)
  moreover have "names_array (mh_num_groups h) (drop 48 (se_buf e)) = names_array (mh_num_groups h) (drop 48 (contents m))"
  proof -
    let ?k = "nat (mh_num_groups h)"
    have c: "drop 48 (contents m) = take (nat (se_len e) - 48) (drop 48 (se_buf e)) @ contents es"
      using n m0 by (simp add: contents_def used_def drop_take)
    have k: "32 * ?k \<le> nat (se_len e) - 48" using n m0(1) by auto
    have "take 32 (drop (i * 32) (drop 48 (contents m))) = take 32 (drop (i * 32) (drop 48 (se_buf e)))" if "i < ?k" for i
    proof -
      have "i * 32 + 32 \<le> nat (se_len e) - 48" using that k by linarith
      then show ?thesis unfolding c using m0(2,3) by (intro take_drop_prefix) auto
    qed
    moreover have "length (drop 48 (contents m)) \<ge> 32 * ?k" unfolding c using k m0(2,3) by simp
    moreover have "length (drop 48 (se_buf e)) \<ge> 32 * ?k" using k m0(2,3) by simp
    ultimately show ?thesis using n(1) by (simp add: names_array_def MAX_GROUP_NAME_eq)
  qed
  ultimately show ?thesis by (simp add: target_groups_def)
qed

section \<open>Writing to the targets\<close>

definition others :: "nat option \<Rightarrow> nat list \<Rightarrow> nat list" where
  "others source is = filter (\<lambda>i. source \<noteq> Some i) is"

lemma write_targets_others:
  "forM (map Some is) (write_target m source) st = forM (others source is) (\<lambda>i st. Sess_write i m (fst st) (snd st)) st"
  by (induction "is" arbitrary: st) (auto simp: others_def write_target_def)

lemma wrote_to_other: "wrote_to R bs m s s' \<Longrightarrow> b \<notin> set bs \<Longrightarrow> reader_ok j s b \<Longrightarrow> reader_ok j s' b"
  by (auto simp: wrote_to_def split: if_splits)

lemma write_all:
  assumes "\<forall>i \<in> set is. Sess_get_session_index (mbox_at s i) s = Some (Some i) \<and> reader_ok 1 s (mbox_at s i)"
    and "distinct is" and m: "wf_mess m"
  shows "\<exists>n' s'. forM is (\<lambda>i st. Sess_write i m (fst st) (snd st)) (n, s) = Some (n', s') \<and>
    wrote_to (op_at s) (map (mbox_at s) is) m s s'"
  using assms(1,2)
proof (induction "is" arbitrary: n s)
  case (Cons i "is")
  have i: "Sess_get_session_index (mbox_at s i) s = Some (Some i)" "reader_ok (Suc 0) s (mbox_at s i)" using Cons.prems(1) by auto
  from write_one_writes [OF i(2) m i(1), of n] obtain n1 s1 where
    one: "Sess_write i m n s = Some (n1, s1)" "wrote_to (op_at s) [mbox_at s i] m s s1" by blast
  have q: "quiet s s1" "same_chains (Sessions s) (Sessions s1)" "Sessions_hash_head s1 = Sessions_hash_head s"
    using one(2) by (simp_all add: wrote_to_def)
  have mb: "mbox_at s1 = mbox_at s" using q(2) by (simp add: same_chains_def mbox_at_def fun_eq_iff)
  have ix: "Sess_get_session_index b s1 = Sess_get_session_index b s" for b
    using get_session_index_cong [of s s1 b] q by simp
  have ne: "mbox_at s j \<noteq> mbox_at s i" if "j \<in> set is" for j
    using that Cons.prems i(1) by (metis distinct.simps(2) list.set_intros(2) option.inject)
  have "reader_ok 1 s1 (mbox_at s j)" if "j \<in> set is" for j
    using Cons.prems(1) that ne [OF that] by (intro wrote_to_other [OF one(2)]) auto
  then obtain n2 s2 where rest: "forM is (\<lambda>i st. Sess_write i m (fst st) (snd st)) (n1, s1) = Some (n2, s2)"
    "wrote_to (op_at s1) (map (mbox_at s1) is) m s1 s2"
    using Cons.IH [of s1 n1] Cons.prems mb ix by (simp add: One_nat_def [symmetric] del: One_nat_def) blast
  have "wrote_to (op_at s) (map (mbox_at s) is) m s1 s2" using rest(2) op_at_cong [OF q] mb by simp
  moreover have "set [mbox_at s i] \<inter> set (map (mbox_at s) is) = {}" using ne by fastforce
  ultimately have "wrote_to (op_at s) ([mbox_at s i] @ map (mbox_at s) is) m s s2" by (rule wrote_to_append [OF one(2)])
  then show ?case using one(1) rest(1) by simp
next
  case Nil
  have "wrote_to (op_at s) [] m s s" by (rule wrote_to_none) simp
  then show ?case by simp
qed

section \<open>The delivery\<close>

lemma status_wrote: "wrote_to R [] m s (upd_dmn (upd_status f) s)"
proof -
  let ?s = "upd_dmn (upd_status f) s"
  have ix: "Sess_get_session_index b ?s = Sess_get_session_index b s" for b
    by (simp add: Sess_get_session_index_def upd_dmn_def)
  have f: "Sessions ?s = Sessions s" "send_ret ?s = send_ret s" "sock_out ?s = sock_out s" by (simp_all add: upd_dmn_def)
  have "client_ok ?s i = client_ok s i" for i by (simp add: client_ok_def ix mbox_at_def mess_of_def sane_send_def f)
  then have "reader_ok j ?s b = reader_ok j s b" for j b by (simp add: reader_ok_def ix mbox_at_def mess_of_def f)
  moreover have "stream_at ?s b = stream_at s b" for b
    by (simp add: stream_at_def ix stream_def mbox_at_def mess_of_def f split: option.split)
  moreover have "quiet s ?s" "same_chains (Sessions s) (Sessions ?s)"
    by (simp_all add: quiet_def same_chains_def upd_dmn_def upd_status_def)
  moreover have "Sessions_hash_head ?s = Sessions_hash_head s" by (simp add: upd_dmn_def)
  ultimately show ?thesis by (simp add: wrote_to_def)
qed

lemma wrote_frame:
  assumes "wrote_to R bs m s s'"
  shows "quiet s s'" "mbox_at s' = mbox_at s" "Sess_get_session_index b s' = Sess_get_session_index b s" "op_at s' = op_at s"
  using assms get_session_index_cong [of s s' b] op_at_cong [of s s']
  by (simp_all add: wrote_to_def same_chains_def mbox_at_def fun_eq_iff)

lemma recipient_same:
  assumes w: "wrote_to R bs m s s'" and d: "dir_ok s"
  shows "recipient s' nm i = recipient s nm i" "Sess_get_session priv s' = Sess_get_session priv s"
proof -
  note f = wrote_frame [OF w]
  have my: "Sess_My s' = Sess_My s" using f(1) by (simp add: quiet_def)
  have g: "Sess_get_session priv s' = Sess_get_session priv s" for priv using quiet_dir(1) [OF f(1)] d by blast
  then show "Sess_get_session priv s' = Sess_get_session priv s" .
  have b: "box s' x = box s x" "home s' x = home s x" for x using quiet_home [OF f(1)] d by auto
  show "recipient s' nm i = recipient s nm i"
    unfolding recipient_def f(2) f(3) [of "mbox_at s i"] quiet_server(1) [OF f(1)] quiet_conf(5) [OF f(1)] b my g by simp
qed

lemma recipient_listed: "dir_ok s \<Longrightarrow> recipient s nm i \<Longrightarrow> Sess_get_session_index (mbox_at s i) s = Some (Some i)"
  using session_found by (auto simp: recipient_def split: if_splits)

text \<open>A message that is neither a change of the groups nor a reject.\<close>

definition regular_kind :: "int32u \<Rightarrow> bool" where
  "regular_kind t \<longleftrightarrow> \<not> has t JOIN_MESS \<and> \<not> has t LEAVE_MESS \<and> \<not> has t KILL_MESS \<and> \<not> has t GROUPS_MESS \<and> \<not> has t REJECT_MESS"

definition is_sender :: "server \<Rightarrow> byte list \<Rightarrow> byte list \<Rightarrow> nat \<Rightarrow> bool" where
  "is_sender s priv pn i \<longleftrightarrow> pn = chars (p_name (Sess_My s)) \<and> Sess_get_session priv s = Some (Some i)"

lemma source_found:
  assumes d: "dir_ok s" and nm: "G_private_to_names (mh_private_group_name h) = Some (Some (priv, pn))"
  shows "\<exists>source. source_ses h (is \<noteq> []) s = Some source \<and>
    (is \<noteq> [] \<longrightarrow> (\<forall>i. source = Some i \<longleftrightarrow> has (mh_type h) SELF_DISCARD \<and> is_sender s priv pn i))"
proof -
  obtain r where "Sess_get_session priv s = Some r" using get_session_dir [OF d] by blast
  then show ?thesis using nm by (auto simp: source_ses_def is_sender_def)
qed

lemma deliver_regular_core:
  assumes sok: "server_ok s" and gst: "Gstate s = GOP \<or> Gstate s = GTRANS"
    and m: "queued_mess m" "48 \<le> se_len (hd m)" "Message_get_message_header m = Some h0"
    and h: "h = h0\<lparr>mh_type := Set_endian (mh_type h0)\<rparr>" "\<not> has (mh_type h) REJECT_MESS"
    and gs: "0 \<le> mh_num_groups h" "48 + 32 * mh_num_groups h \<le> se_len (hd m)"
      "names_array (mh_num_groups h) (drop 48 (contents m)) = Some gs" "\<forall>g \<in> set gs. target_ok s g"
    and nm: "G_private_to_names (mh_private_group_name h) = Some (Some (priv, pn))"
    and room: "\<And>i. (\<exists>g \<in> set gs. recipient s g i) \<Longrightarrow> reader_ok 1 s (mbox_at s i)"
  shows "\<exists>s' m' is. deliver_regular m s = Some s' \<and> contents m' = enc_message_header h @ drop 48 (contents m) \<and>
    set is = {i. (\<exists>g \<in> set gs. recipient s g i) \<and> \<not> (has (mh_type h) SELF_DISCARD \<and> is_sender s priv pn i)} \<and>
    wrote_to (op_at s) (map (mbox_at s) is) m' s s'"
proof -
  have dir: "dir_ok s" using sok by (simp add: server_ok_def)
  have hwf: "wf_message_header h" using header_wf [OF m(3)] by (simp add: h(1) wf_message_header_def)
  from set_header_spec [OF m(1,2) hwf] obtain m1 where
    m1: "set_message_header h m = Some m1" "contents m1 = enc_message_header h @ drop 48 (contents m)" "queued_mess m1"
      "Message_get_message_header m1 = Some h" "se_len (hd m1) = se_len (hd m)" by blast
  have wf: "wf_mess m1" using m1 m(2) h(2) by (simp add: wf_mess_def)
  let ?s1 = "upd_dmn (upd_status (\<lambda>st. st\<lparr>st_message_delivered := st_message_delivered st + 1\<rparr>)) s"
  have st: "wrote_to (op_at s) [] m1 s ?s1" by (rule status_wrote)
  note f = wrote_frame [OF st] and rs = recipient_same [OF st dir]
  have "drop 48 (contents m1) = drop 48 (contents m)" using m1(2) hwf by (simp add: length_enc_message_header)
  then have tg: "target_groups h m1 = Some gs"
    using groups_array_names [OF m1(3,4) h(2) gs(1)] gs(2,3) m1(5) by simp
  have "server_ok ?s1" "Gstate ?s1 = GOP \<or> Gstate ?s1 = GTRANS" "\<forall>g \<in> set gs. target_ok ?s1 g"
    using quiet_server_ok [OF f(1) sok] quiet_server(2) [OF f(1)] gst gs(4) by (simp_all add: target_ok_def)
  from Targets_core [OF this] obtain "is" where
    "is": "G_analize_groups gs ?s1 = Some (map Some is)" "distinct is" "set is = {i. \<exists>g \<in> set gs. recipient s g i}"
    unfolding rs by blast
  have ts: "target_sessions h m1 ?s1 = Some (map Some is)" using h(2) tg "is"(1) by (simp add: target_sessions_def)
  from source_found [OF _ nm, of ?s1 "is"] quiet_dir(2) [OF f(1)] dir obtain source where
    source: "source_ses h (is \<noteq> []) ?s1 = Some source"
      "is \<noteq> [] \<longrightarrow> (\<forall>i. source = Some i \<longleftrightarrow> has (mh_type h) SELF_DISCARD \<and> is_sender ?s1 priv pn i)" by auto
  have same_sender: "is_sender ?s1 priv pn i = is_sender s priv pn i" for i
    using rs(2) by (simp add: is_sender_def upd_dmn_def)
  let ?w = "others source is"
  have w: "set ?w = {i. (\<exists>g \<in> set gs. recipient s g i) \<and> \<not> (has (mh_type h) SELF_DISCARD \<and> is_sender s priv pn i)}"
    using source(2) "is"(3) same_sender by (cases "is = []") (auto simp: others_def)
  have rd: "reader_ok 1 ?s1 b" if "reader_ok 1 s b" for b by (rule wrote_to_other [OF st _ that]) simp
  have "\<forall>i \<in> set ?w. Sess_get_session_index (mbox_at ?s1 i) ?s1 = Some (Some i) \<and> reader_ok 1 ?s1 (mbox_at ?s1 i)"
  proof
    fix i assume "i \<in> set ?w"
    then have "i \<in> set is" by (simp add: others_def)
    then have ex: "\<exists>g \<in> set gs. recipient s g i" using "is"(3) by simp
    then have "Sess_get_session_index (mbox_at s i) s = Some (Some i)" using recipient_listed [OF dir] by blast
    then show "Sess_get_session_index (mbox_at ?s1 i) ?s1 = Some (Some i) \<and> reader_ok 1 ?s1 (mbox_at ?s1 i)"
      unfolding f(2) using f(3) [of "mbox_at s i"] rd [OF room [OF ex]] by simp
  qed
  moreover have "distinct ?w" using "is"(2) by (simp add: others_def)
  ultimately obtain n' s' where wr:
    "forM ?w (\<lambda>i st. Sess_write i m1 (fst st) (snd st)) (0, ?s1) = Some (n', s')"
    "wrote_to (op_at ?s1) (map (mbox_at ?s1) ?w) m1 ?s1 s'" using write_all [OF _ _ wf] by blast
  have "deliver_regular m s = Some s'"
    using m(3) m1(1) ts source(1) wr(1) by (simp add: deliver_regular_def Let_def h(1) [symmetric] write_targets_others)
  moreover have "wrote_to (op_at s) ([] @ map (mbox_at s) ?w) m1 s s'"
    by (rule wrote_to_append [OF st]) (use wr(2) f(2,4) in simp_all)
  ultimately show ?thesis using m1(2) w by auto
qed

lemma own_header_kinds:
  "has (mh_type (own_header h)) b = has (mh_type (if Same_endian (mh_type h) then h else Flip_mess h)) b"
  if "b \<in> {JOIN_MESS, LEAVE_MESS, KILL_MESS, GROUPS_MESS}"
  using that kind_bits by (auto simp: own_header_def Let_def)

lemma recipient_room:
  assumes "all_room k s" and "dir_ok s" and "recipient s nm i"
  shows "reader_ok k s (mbox_at s i)"
proof (cases "hd nm = 35")
  case True
  then obtain priv pn where "G_private_to_names nm = Some (Some (priv, pn))" "Sess_get_session priv s = Some (Some i)"
    using assms(3) by (auto simp: recipient_def)
  then have "box s nm = Some (mbox_at s i)" by (simp add: box_def mbox_of_priv_def mbox_at_def)
  then show ?thesis using assms(1) by (simp add: all_room_def)
next
  case False
  then show ?thesis using assms(1,3) by (auto simp: recipient_def all_room_def)
qed

lemma Delivered_core:
  assumes sok: "server_ok s" and gst: "Gstate s = GOP \<or> Gstate s = GTRANS" and room: "all_room 1 s"
    and m: "queued_mess m" "48 \<le> se_len (hd m)" "Message_get_message_header m = Some h0"
    and h: "h = own_header h0" "regular_kind (mh_type h)"
    and gs: "0 \<le> mh_num_groups h" "48 + 32 * mh_num_groups h \<le> se_len (hd m)"
      "names_array (mh_num_groups h) (drop 48 (contents m)) = Some gs" "\<forall>g \<in> set gs. target_ok s g"
    and nm: "G_private_to_names (mh_private_group_name h) = Some (Some (priv, pn))"
  shows "\<exists>s'. Sess_deliver m s = Some s' \<and> server_ok s' \<and>
    (\<forall>i. Sess_get_session_index (mbox_at s i) s = Some (Some i) \<and> reader_ok 1 s (mbox_at s i) \<longrightarrow>
       stream s' i = stream s i @
         (if Is_op_session (ss_status (Sessions s i)) \<and> (\<exists>g \<in> set gs. recipient s g i) \<and>
             \<not> (has (mh_type h) SELF_DISCARD \<and> is_sender s priv pn i)
          then enc_message_header h @ drop 48 (contents m) else []))"
proof -
  have dir: "dir_ok s" using sok by (simp add: server_ok_def)
  from endian_corrected [OF m] obtain m1 where
    m1: "Message_endian_correct_message_header m = Some m1" "queued_mess m1" "se_len (hd m1) = se_len (hd m)"
      "drop 48 (contents m1) = drop 48 (contents m)"
      "Message_get_message_header m1 = Some (if Same_endian (mh_type h0) then h0 else Flip_mess h0)" by blast
  let ?h1 = "if Same_endian (mh_type h0) then h0 else Flip_mess h0"
  have "h = ?h1\<lparr>mh_type := Set_endian (mh_type ?h1)\<rparr>" by (simp add: h(1) own_header_def Let_def)
  moreover have "\<not> has (mh_type h) REJECT_MESS" using h(2) by (simp add: regular_kind_def)
  moreover have len: "48 \<le> se_len (hd m1)" "48 + 32 * mh_num_groups h \<le> se_len (hd m1)" using m(2) gs(2) m1(3) by simp_all
  moreover have "names_array (mh_num_groups h) (drop 48 (contents m1)) = Some gs" using gs(3) m1(4) by simp
  ultimately obtain s' m' "is" where
    d: "deliver_regular m1 s = Some s'" "contents m' = enc_message_header h @ drop 48 (contents m1)"
      "set is = {i. (\<exists>g \<in> set gs. recipient s g i) \<and> \<not> (has (mh_type h) SELF_DISCARD \<and> is_sender s priv pn i)}"
      "wrote_to (op_at s) (map (mbox_at s) is) m' s s'"
    using deliver_regular_core [OF sok gst m1(2) _ m1(5) _ _ gs(1) _ _ gs(4) nm] recipient_room [OF room dir] by blast
  have "\<not> has (mh_type ?h1) b" if "b \<in> {JOIN_MESS, LEAVE_MESS, KILL_MESS, GROUPS_MESS}" for b
    using own_header_kinds [OF that, of h0] that h by (auto simp: regular_kind_def)
  then have "Sess_deliver m s = Some s'" using m1(1,5) d(1) by (simp add: Sess_deliver_def)
  moreover have "server_ok s'" using quiet_server_ok [OF wrote_frame(1) [OF d(4)] sok] .
  moreover have "stream s' i = stream s i @
      (if Is_op_session (ss_status (Sessions s i)) \<and> i \<in> set is then contents m' else [])"
    if i: "Sess_get_session_index (mbox_at s i) s = Some (Some i)" "reader_ok 1 s (mbox_at s i)" for i
  proof -
    have mem: "mbox_at s i \<in> set (map (mbox_at s) is) \<longleftrightarrow> i \<in> set is"
    proof
      assume "mbox_at s i \<in> set (map (mbox_at s) is)"
      then obtain j where j: "j \<in> set is" "mbox_at s i = mbox_at s j" by auto
      then obtain g where "recipient s g j" using d(3) by auto
      then have "Sess_get_session_index (mbox_at s j) s = Some (Some j)" by (rule recipient_listed [OF dir])
      then show "i \<in> set is" using i(1) j by simp
    qed auto
    have "reader_ok (if mbox_at s i \<in> set (map (mbox_at s) is) then Suc 0 else 0) s (mbox_at s i)"
      using i(2) reader_ok_mono [of 1 s "mbox_at s i" 0] by simp
    then have "stream_at s' (mbox_at s i) = stream_at s (mbox_at s i) @
        (if mbox_at s i \<in> set (map (mbox_at s) is) \<and> op_at s (mbox_at s i) then contents m' else [])"
      using d(4) unfolding wrote_to_def by blast
    then show ?thesis unfolding mem using i(1) wrote_frame(3) [OF d(4)]
      by (simp add: stream_at_def op_at_def conj_commute)
  qed
  ultimately show ?thesis using d(2,3) m1(4) by (intro exI [of _ s']) auto
qed


text \<open>A message of the client \<open>#a#y\<close> to the client \<open>#a#x\<close>.\<close>

definition to_x_header :: message_header where
  "to_x_header = \<lparr>mh_type = Set_endian AGREED_MESS, mh_private_group_name = client_y, mh_num_groups = 1,
     mh_hint = Set_endian 0, mh_data_len = 2\<rparr>"

definition to_x :: message where
  "to_x = [\<lparr>se_buf = enc_message_header to_x_header @ client_x @ [104, 105] @ replicate 1354 0, se_len = 82\<rparr>]"


end
