(* ===== verification/Sp_library.thy ===== *)
theory Sp_library
  imports Group_notify
begin

text \<open>
  The client library \<open>libspread/sp.c\<close>: its table of sessions, sending messages, joins, leaves and
  disconnects, and receiving.  A socket takes what \<open>sp_send_ret\<close> says of each \<open>send\<close>; what has come in and is not
  read yet is \<open>sp_unread\<close>, and a \<open>recv\<close> gets a piece of it of a size that is a parameter too, or the end
  of the connection when there is nothing more.  An interrupted call is repeated by the code, so
  its last result counts.  The locks are not modelled: one thread uses the library.
\<close>

section \<open>State\<close>

datatype sp_sess_state = SESS_UNUSED | SESS_ACTIVE | SESS_ERROR

record sp_session =
  sp_mbox :: int
  sp_state :: sp_sess_state
  sp_private_group :: "byte list"
  recv_saved_head :: message_header
  recv_message_saved :: bool

record sp_lib =
  Sp_sessions :: "sp_session list" \<comment> \<open>\<open>Num_sessions\<close> is the length\<close>
  sp_send_ret :: "nat \<Rightarrow> int \<Rightarrow> nat \<Rightarrow> int"
  sp_sends :: nat
  sp_sent :: "int \<Rightarrow> byte list"
  sp_piece :: "nat \<Rightarrow> nat"
  sp_recvs :: nat
  sp_unread :: "int \<Rightarrow> byte list"
  sp_closed :: "int list"

definition CONNECTION_CLOSED :: int where "CONNECTION_CLOSED = - 8"
definition ILLEGAL_SESSION :: int where "ILLEGAL_SESSION = - 11"
definition ILLEGAL_SERVICE :: int where "ILLEGAL_SERVICE = - 12"
definition ILLEGAL_MESSAGE :: int where "ILLEGAL_MESSAGE = - 13"
definition ILLEGAL_GROUP :: int where "ILLEGAL_GROUP = - 14"
definition BUFFER_TOO_SHORT :: int where "BUFFER_TOO_SHORT = - 15"
definition GROUPS_TOO_SHORT :: int where "GROUPS_TOO_SHORT = - 16"
definition MESSAGE_TOO_LONG :: int where "MESSAGE_TOO_LONG = - 17"
definition NET_ERROR_ON_SESSION :: int where "NET_ERROR_ON_SESSION = - 18"

definition DROP_RECV :: int32u where "DROP_RECV = 0x01000000"

definition Clear_endian :: "int32u \<Rightarrow> int32u" where "Clear_endian t = t AND NOT ENDIAN_TYPE"

definition Is_regular_mess :: "int32u \<Rightarrow> bool" where
  "Is_regular_mess t \<longleftrightarrow> has t REGULAR_MESS \<and> \<not> has t REJECT_MESS"

definition SP_get_session :: "int \<Rightarrow> sp_lib \<Rightarrow> nat option" where
  "SP_get_session mbox s = find_index (\<lambda>x. sp_mbox x = mbox) (Sp_sessions s)"

definition upd_sp_session :: "nat \<Rightarrow> (sp_session \<Rightarrow> sp_session) \<Rightarrow> sp_lib \<Rightarrow> sp_lib" where
  "upd_sp_session i f s = s\<lparr>Sp_sessions := (Sp_sessions s)[i := f (Sp_sessions s ! i)]\<rparr>"

definition SP_kill :: "int \<Rightarrow> sp_lib \<Rightarrow> sp_lib" where
  "SP_kill mbox s = (case SP_get_session mbox s of None \<Rightarrow> s
     | Some ses \<Rightarrow> s\<lparr>Sp_sessions := take ses (Sp_sessions s) @ drop (Suc ses) (Sp_sessions s),
         sp_closed := sp_closed s @ [mbox]\<rparr>)"

text \<open>An error on the socket is remembered in the session.\<close>

definition net_error :: "int \<Rightarrow> sp_lib \<Rightarrow> sp_lib" where
  "net_error mbox s = (case SP_get_session mbox s of None \<Rightarrow> s
     | Some ses \<Rightarrow> upd_sp_session ses (\<lambda>x. x\<lparr>sp_state := SESS_ERROR\<rparr>) s)"

section \<open>Sending\<close>

definition sp_send :: "int \<Rightarrow> byte list \<Rightarrow> sp_lib \<Rightarrow> int \<times> sp_lib" where
  "sp_send mbox bs s = (let r = sp_send_ret s (sp_sends s) mbox (length bs) in
     (r, s\<lparr>sp_sends := Suc (sp_sends s), sp_sent := (sp_sent s)(mbox := sp_sent s mbox @ take (nat r) bs)\<rparr>))"

text \<open>
  The loops that send a buffer to its end; the flag is whether a \<open>send\<close> that takes nothing counts as
  an error.  It does for the header, but not for the data, where the loop then goes on.
\<close>

partial_function (option) send_loop :: "bool \<Rightarrow> int \<Rightarrow> byte list \<Rightarrow> sp_lib \<Rightarrow> (bool \<times> sp_lib) option" where
  "send_loop strict mbox bs s = (if bs = [] then Some (True, s)
     else let (r, s1) = sp_send mbox bs s in
       if r < 0 \<or> strict \<and> r = 0 then Some (False, s1) else send_loop strict mbox (drop (nat r) bs) s1)"

fun send_scat :: "int \<Rightarrow> scat_element list \<Rightarrow> sp_lib \<Rightarrow> (bool \<times> sp_lib) option" where
  "send_scat mbox [] s = Some (True, s)"
| "send_scat mbox (e # es) s = do {
     bs \<leftarrow> get_bytes (se_buf e) 0 (se_len e);
     (ok, s1) \<leftarrow> send_loop False mbox bs s;
     if ok then send_scat mbox es s1 else Some (False, s1) }"

definition sp_header :: "int32u \<Rightarrow> byte list \<Rightarrow> int \<Rightarrow> int \<Rightarrow> int \<Rightarrow> message_header" where
  "sp_header service_type name num_groups mess_type mess_len = \<lparr>mh_type = Set_endian service_type,
     mh_private_group_name = name, mh_num_groups = num_groups,
     mh_hint = Set_endian (push_bit 8 (word_of_int mess_type) AND 0x00ffff00), mh_data_len = mess_len\<rparr>"

text \<open>
  The header and the groups are put together in a local buffer of 10000 bytes, whose size is not
  checked.
\<close>

definition SP_internal_multicast ::
  "int \<Rightarrow> int32u \<Rightarrow> int \<Rightarrow> byte list \<Rightarrow> int \<Rightarrow> scat_element list \<Rightarrow> sp_lib \<Rightarrow> (int \<times> sp_lib) option" where
  "SP_internal_multicast mbox service_type num_groups groups mess_type scat_mess s = do {
     exit_if (sizeof_message_header + int MAX_GROUP_NAME * num_groups \<notin> {0..10000});
     case SP_get_session mbox s of None \<Rightarrow> Some (ILLEGAL_SESSION, s)
     | Some ses \<Rightarrow>
         if sp_state (Sp_sessions s ! ses) \<noteq> SESS_ACTIVE then Some (NET_ERROR_ON_SESSION, s)
         else do {
           name \<leftarrow> strcpy MAX_GROUP_NAME (sp_private_group (Sp_sessions s ! ses));
           let mess_len = sum_list (map se_len scat_mess);
           if list_ex (\<lambda>e. se_len e < 0) scat_mess then Some (ILLEGAL_MESSAGE, s)
           else if mess_len + num_groups * int MAX_GROUP_NAME > MAX_MESSAGE_BODY_LEN then Some (MESSAGE_TOO_LONG, s)
           else do {
             gs \<leftarrow> get_bytes groups 0 (int MAX_GROUP_NAME * num_groups);
             (ok, s1) \<leftarrow> send_loop True mbox (enc_message_header (sp_header service_type name num_groups mess_type mess_len) @ gs) s;
             if \<not> ok then Some (CONNECTION_CLOSED, net_error mbox s1)
             else do {
               (ok2, s2) \<leftarrow> send_scat mbox scat_mess s1;
               Some (if ok2 then (mess_len, s2) else (CONNECTION_CLOSED, net_error mbox s2)) } } } }"

definition SP_multigroup_scat_multicast ::
  "int \<Rightarrow> int32u \<Rightarrow> int \<Rightarrow> byte list \<Rightarrow> int \<Rightarrow> scat_element list \<Rightarrow> sp_lib \<Rightarrow> (int \<times> sp_lib) option" where
  "SP_multigroup_scat_multicast mbox service_type num_groups groups mess_type scat_mess s =
     (if \<not> Is_regular_mess service_type then Some (ILLEGAL_SERVICE, s)
      else SP_internal_multicast mbox service_type num_groups groups mess_type scat_mess s)"

definition SP_multigroup_multicast ::
  "int \<Rightarrow> int32u \<Rightarrow> int \<Rightarrow> byte list \<Rightarrow> int \<Rightarrow> int \<Rightarrow> byte list \<Rightarrow> sp_lib \<Rightarrow> (int \<times> sp_lib) option" where
  "SP_multigroup_multicast mbox service_type num_groups groups mess_type mess_len mess =
     SP_multigroup_scat_multicast mbox service_type num_groups groups mess_type [\<lparr>se_buf = mess, se_len = mess_len\<rparr>]"

text \<open>A group name in an array of its own, cut to fit.\<close>

definition one_group :: "byte list \<Rightarrow> byte list" where
  "one_group grp = strncpy (MAX_GROUP_NAME - 1) grp @ [0]"

definition SP_scat_multicast ::
  "int \<Rightarrow> int32u \<Rightarrow> byte list \<Rightarrow> int \<Rightarrow> scat_element list \<Rightarrow> sp_lib \<Rightarrow> (int \<times> sp_lib) option" where
  "SP_scat_multicast mbox service_type grp mess_type scat_mess =
     SP_multigroup_scat_multicast mbox service_type 1 (one_group grp) mess_type scat_mess"

definition SP_multicast ::
  "int \<Rightarrow> int32u \<Rightarrow> byte list \<Rightarrow> int \<Rightarrow> int \<Rightarrow> byte list \<Rightarrow> sp_lib \<Rightarrow> (int \<times> sp_lib) option" where
  "SP_multicast mbox service_type grp mess_type mess_len mess =
     SP_multigroup_scat_multicast mbox service_type 1 (one_group grp) mess_type [\<lparr>se_buf = mess, se_len = mess_len\<rparr>]"

definition legal_group :: "byte list \<Rightarrow> bool" where
  "legal_group grp \<longleftrightarrow> (let g = cstr grp in g \<noteq> [] \<and> length g < MAX_GROUP_NAME \<and> list_all (\<lambda>c. 36 \<le> sint c \<and> sint c \<le> 126) g)"

definition SP_join :: "int \<Rightarrow> byte list \<Rightarrow> sp_lib \<Rightarrow> (int \<times> sp_lib) option" where
  "SP_join mbox grp s = (if \<not> legal_group grp then Some (ILLEGAL_GROUP, s)
     else SP_internal_multicast mbox JOIN_MESS 1 (one_group grp) 0 [] s)"

definition SP_leave :: "int \<Rightarrow> byte list \<Rightarrow> sp_lib \<Rightarrow> (int \<times> sp_lib) option" where
  "SP_leave mbox grp s = (if \<not> legal_group grp then Some (ILLEGAL_GROUP, s)
     else SP_internal_multicast mbox LEAVE_MESS 1 (one_group grp) 0 [] s)"

definition SP_disconnect :: "int \<Rightarrow> sp_lib \<Rightarrow> (int \<times> sp_lib) option" where
  "SP_disconnect mbox s = (case SP_get_session mbox s of None \<Rightarrow> Some (ILLEGAL_SESSION, s)
     | Some ses \<Rightarrow> do {
         send_group \<leftarrow> strcpy MAX_GROUP_NAME (sp_private_group (Sp_sessions s ! ses));
         (_, s1) \<leftarrow> SP_internal_multicast mbox KILL_MESS 1 send_group 0 [] s;
         Some (0, SP_kill mbox s1) })"

section \<open>Receiving\<close>

definition sp_recv :: "int \<Rightarrow> nat \<Rightarrow> sp_lib \<Rightarrow> byte list \<times> sp_lib" where
  "sp_recv mbox n s = (let k = min n (max 1 (sp_piece s (sp_recvs s))); q = sp_unread s mbox in
     (take k q, s\<lparr>sp_recvs := Suc (sp_recvs s), sp_unread := (sp_unread s)(mbox := drop k q)\<rparr>))"

lemma length_sp_recv: "sp_recv mbox n s = (bs, s1) \<Longrightarrow> length bs \<le> n"
  by (auto simp: sp_recv_def Let_def)

text \<open>The loops that receive a number of bytes: whether all came, and what came.\<close>

function recv_all :: "int \<Rightarrow> nat \<Rightarrow> sp_lib \<Rightarrow> bool \<times> byte list \<times> sp_lib" where
  "recv_all mbox n s = (if n = 0 then (True, [], s) else
     case sp_recv mbox n s of (got, s1) \<Rightarrow>
       if got = [] then (False, [], s1)
       else (case recv_all mbox (n - length got) s1 of (ok, others, s2) \<Rightarrow> (ok, got @ others, s2)))"
  by pat_completeness auto

termination
  by (relation "measure (\<lambda>(mbox, n, s). n)") auto

declare recv_all.simps [simp del]

text \<open>
  The data goes into the elements in turn.  The empty ones at the start are skipped; into one further
  on nothing can be received, which looks like the end of the connection.
\<close>

fun recv_scat :: "int \<Rightarrow> int \<Rightarrow> scat_element list \<Rightarrow> sp_lib \<Rightarrow> (bool \<times> scat_element list \<times> sp_lib) option" where
  "recv_scat mbox remain [] s = (if remain \<le> 0 then Some (True, [], s) else None)"
| "recv_scat mbox remain (e # es) s = (if remain \<le> 0 then Some (True, e # es, s)
     else do {
       let n = min (se_len e) remain;
       let (ok, bs, s1) = recv_all mbox (nat n) s;
       b \<leftarrow> put_bytes (se_buf e) 0 bs;
       let e1 = e\<lparr>se_buf := b\<rparr>;
       if n \<le> 0 \<or> \<not> ok then Some (False, e1 # es, s1)
       else map_option (\<lambda>(ok2, es2, s2). (ok2, e1 # es2, s2)) (recv_scat mbox (remain - n) es s1) })"

definition recv_data :: "int \<Rightarrow> int \<Rightarrow> scat_element list \<Rightarrow> sp_lib \<Rightarrow> (bool \<times> scat_element list \<times> sp_lib) option" where
  "recv_data mbox remain es s = (let empty = takeWhile (\<lambda>e. se_len e = 0) es in
     map_option (\<lambda>(ok, es1, s1). (ok, empty @ es1, s1)) (recv_scat mbox remain (drop (length empty) es) s))"

text \<open>What \<open>SP_scat_receive\<close> hands back through its pointers.\<close>

record sp_out =
  o_service :: int32u
  o_sender :: "byte list"
  o_num_groups :: int
  o_groups :: "byte list"
  o_mess_type :: int
  o_mismatch :: int
  o_scat :: "scat_element list"

definition saved_or_read :: "int \<Rightarrow> nat \<Rightarrow> sp_lib \<Rightarrow> (message_header \<times> sp_lib) + sp_lib" where
  "saved_or_read mbox ses s = (let x = Sp_sessions s ! ses in
     if recv_message_saved x then Inl (recv_saved_head x, s)
     else (case recv_all mbox (nat sizeof_message_header) s of (ok, bs, s1) \<Rightarrow>
       if \<not> ok then Inr (net_error mbox s1)
       else (let h = dec_message_header bs in Inl (if Same_endian (mh_type h) then h else Flip_mess h, s1))))"

definition save_head :: "nat \<Rightarrow> message_header \<Rightarrow> sp_lib \<Rightarrow> sp_lib" where
  "save_head ses h s = (if recv_message_saved (Sp_sessions s ! ses) then s
     else upd_sp_session ses (\<lambda>x. x\<lparr>recv_saved_head := h, recv_message_saved := True\<rparr>) s)"

definition forget_head :: "nat \<Rightarrow> sp_lib \<Rightarrow> sp_lib" where
  "forget_head ses s = (if \<not> recv_message_saved (Sp_sessions s ! ses) then s
     else upd_sp_session ses (\<lambda>x. x\<lparr>recv_message_saved := False, recv_saved_head :=
       \<lparr>mh_type = 0, mh_private_group_name = replicate MAX_GROUP_NAME 0, mh_num_groups = 0, mh_hint = 0, mh_data_len = 0\<rparr>\<rparr>) s)"

definition has_hint :: "message_header \<Rightarrow> bool" where
  "has_hint h \<longleftrightarrow> Is_regular_mess (mh_type h) \<or> has (mh_type h) REJECT_MESS"

definition hint_type :: "message_header \<Rightarrow> int" where
  "hint_type h = to_int16 (uint (drop_bit 8 (Clear_endian
     (if Same_endian (mh_hint h) then mh_hint h else Flip_int32 (mh_hint h))) AND 0x0000ffff))"

text \<open>Too small buffers: the sizes that are needed are handed back, negated, and the header is kept.\<close>

definition too_short :: "message_header \<Rightarrow> int \<Rightarrow> int \<Rightarrow> sp_out \<Rightarrow> int \<times> sp_out" where
  "too_short h max_groups max_mess_len out =
     (let ng = (if mh_num_groups h > max_groups then - mh_num_groups h else 0) in
      (if ng \<noteq> 0 then GROUPS_TOO_SHORT else BUFFER_TOO_SHORT,
       out\<lparr>o_mess_type := (if has_hint h then hint_type h else 0), o_service := Clear_endian (mh_type h), o_num_groups := ng,
         o_mismatch := (if mh_data_len h > max_mess_len then - mh_data_len h else 0),
         o_sender := strncpy MAX_GROUP_NAME (mh_private_group_name h)\<rparr>))"

text \<open>The four bytes before the groups of a rejected message: the type it had.\<close>

definition read_old_type :: "int \<Rightarrow> message_header \<Rightarrow> sp_lib \<Rightarrow> (int32u \<times> sp_lib) + sp_lib" where
  "read_old_type mbox h s = (if \<not> has (mh_type h) REJECT_MESS then Inl (0, s)
     else case recv_all mbox 4 s of (ok, bs, s1) \<Rightarrow>
       if \<not> ok then Inr (net_error mbox s1)
       else Inl (if Same_endian (mh_type h) then word32 bs else Flip_int32 (word32 bs), s1))"

text \<open>The groups, as many as there is room for; the others are thrown away.\<close>

definition read_groups_array :: "int \<Rightarrow> message_header \<Rightarrow> int \<Rightarrow> sp_out \<Rightarrow> sp_lib \<Rightarrow> (bool \<times> sp_out \<times> sp_lib) option" where
  "read_groups_array mbox h max_groups out s = (let ng = mh_num_groups h; short_groups = ng > max_groups;
       remain = (if short_groups then max_groups else ng) * int MAX_GROUP_NAME in
     case recv_all mbox (nat remain) s of (ok, bs, s1) \<Rightarrow> do {
       b \<leftarrow> put_bytes (o_groups out) 0 bs;
       let out1 = out\<lparr>o_groups := b\<rparr>;
       if \<not> ok then Some (False, out1, net_error mbox s1)
       else if short_groups
       then (case recv_all mbox (nat ((ng - max_groups) * int MAX_GROUP_NAME)) s1 of (ok2, _, s2) \<Rightarrow>
         Some (if ok2 then (True, out1\<lparr>o_num_groups := - ng\<rparr>, s2) else (False, out1, net_error mbox s2)))
       else Some (True, out1\<lparr>o_num_groups := ng\<rparr>, s1) })"

text \<open>The index of the receiver among the members, the first that is named like its session.\<close>

definition my_index :: "byte list \<Rightarrow> int \<Rightarrow> byte list \<Rightarrow> int \<Rightarrow> int" where
  "my_index groups num_groups name otherwise = (case find_index (\<lambda>g. cstr g = cstr name)
       (map (\<lambda>i. take MAX_GROUP_NAME (drop (i * MAX_GROUP_NAME) groups)) [0..<nat num_groups])
     of None \<Rightarrow> otherwise | Some i \<Rightarrow> to_int16 (int i))"

text \<open>
  A membership message in the other byte order: the group id, the number of sets, the offset of the local
  set, and the number of members of every set are flipped where they are in the elements.
\<close>

definition flip_at :: "int \<Rightarrow> byte list \<Rightarrow> byte list option" where
  "flip_at off bs = do { w \<leftarrow> get_bytes bs off 4; put_bytes bs off (bytes32 (Flip_int32 (word32 w))) }"

fun flip_counts :: "nat \<Rightarrow> int \<Rightarrow> byte list \<Rightarrow> byte list option" where
  "flip_counts 0 off bs = Some bs"
| "flip_counts (Suc n) off bs = do {
     b \<leftarrow> flip_at off bs;
     w \<leftarrow> get_bytes b off 4;
     flip_counts n (off + 4 + uint (word32 w * of_nat MAX_GROUP_NAME)) b }"

fun refill :: "scat_element list \<Rightarrow> byte list \<Rightarrow> scat_element list" where
  "refill [] bs = []"
| "refill (e # es) bs = (let n = nat (se_len e) in
     e\<lparr>se_buf := take n bs @ drop n (se_buf e)\<rparr> # refill es (drop n bs))"

definition flip_membership :: "scat_element list \<Rightarrow> scat_element list option" where
  "flip_membership es = do {
     let flat = contents es;
     exit_if (length flat < 20);
     b \<leftarrow> forM [0, 4, 8, 12, 16] flip_at flat;
     b2 \<leftarrow> flip_counts (unat (word32 (drop 12 b))) 20 b;
     Some (refill es b2) }"

text \<open>
  The message itself, once the header is known and the buffers are large enough or the caller wants the rest
  dropped.  When data is dropped, a header that was kept stays kept.
\<close>

definition deliver_parts ::
  "int \<Rightarrow> nat \<Rightarrow> message_header \<Rightarrow> int \<Rightarrow> int \<Rightarrow> sp_out \<Rightarrow> sp_lib \<Rightarrow> (int \<times> sp_out \<times> sp_lib) option" where
  "deliver_parts mbox ses h max_groups max_mess_len out s = (
     let name = sp_private_group (Sp_sessions s ! ses);
         out0 = out\<lparr>o_mess_type := (if has_hint h then hint_type h else - 1),
                    o_mismatch := (if has_hint h \<and> \<not> Same_endian (mh_hint h) then 1 else 0),
                    o_sender := strncpy MAX_GROUP_NAME (mh_private_group_name h)\<rparr> in
     case read_old_type mbox h s of Inr s1 \<Rightarrow> Some (CONNECTION_CLOSED, out0, s1)
     | Inl (old_type, s1) \<Rightarrow> do {
         (ok, out1, s2) \<leftarrow> read_groups_array mbox h max_groups out0 s1;
         if \<not> ok then Some (CONNECTION_CLOSED, out1, s2)
         else do {
           let short_buffer = mh_data_len h > max_mess_len;
           (ok2, es, s3) \<leftarrow> recv_data mbox (if short_buffer then max_mess_len else mh_data_len h) (o_scat out1) s2;
           if \<not> ok2 then Some (CONNECTION_CLOSED, out1\<lparr>o_scat := es\<rparr>, net_error mbox s3)
           else do {
             let memb = has (mh_type h) REG_MEMB_MESS;
             let out2 = out1\<lparr>o_mess_type := (if memb \<and> \<not> mh_num_groups h > max_groups
                          then my_index (o_groups out1) (mh_num_groups h) name (o_mess_type out1) else o_mess_type out1)\<rparr>;
             es2 \<leftarrow> (if memb \<and> \<not> Same_endian (mh_type h) then flip_membership es else Some es);
             let t = (if has (mh_type h) REJECT_MESS then old_type OR REJECT_MESS else mh_type h);
             let out3 = out2\<lparr>o_scat := es2, o_service := Clear_endian t\<rparr>;
             if short_buffer
             then (case recv_all mbox (nat (mh_data_len h - max_mess_len)) s3 of (ok3, _, s4) \<Rightarrow>
               Some (if ok3 then (BUFFER_TOO_SHORT, out3, s4) else (CONNECTION_CLOSED, out3, net_error mbox s4)))
             else Some (mh_data_len h, out3, forget_head ses s3) } } })"

definition SP_scat_receive :: "int \<Rightarrow> int \<Rightarrow> sp_out \<Rightarrow> sp_lib \<Rightarrow> (int \<times> sp_out \<times> sp_lib) option" where
  "SP_scat_receive mbox max_groups out s = (case SP_get_session mbox s of None \<Rightarrow> Some (ILLEGAL_SESSION, out, s)
     | Some ses \<Rightarrow>
         if sp_state (Sp_sessions s ! ses) \<noteq> SESS_ACTIVE then Some (NET_ERROR_ON_SESSION, out, s)
         else let drop_semantics = has (o_service out) DROP_RECV in
           case saved_or_read mbox ses s of Inr s1 \<Rightarrow> Some (CONNECTION_CLOSED, out, s1)
           | Inl (h, s1) \<Rightarrow>
               let max_mess_len = sum_list (map se_len (o_scat out)) in
               if list_ex (\<lambda>e. se_len e < 0) (o_scat out)
               then Some (ILLEGAL_MESSAGE, out, if drop_semantics then s1 else save_head ses h s1)
               else if mh_num_groups h < 0 \<or> mh_data_len h < 0 then Some (ILLEGAL_MESSAGE, out, s1)
               else if \<not> drop_semantics \<and> (mh_num_groups h > max_groups \<or> mh_data_len h > max_mess_len)
               then (let (ret, out1) = too_short h max_groups max_mess_len out in Some (ret, out1, save_head ses h s1))
               else deliver_parts mbox ses h max_groups max_mess_len out s1)"

definition SP_receive :: "int \<Rightarrow> int \<Rightarrow> int \<Rightarrow> byte list \<Rightarrow> sp_out \<Rightarrow> sp_lib \<Rightarrow> (int \<times> sp_out \<times> sp_lib) option" where
  "SP_receive mbox max_groups max_mess_len mess out =
     SP_scat_receive mbox max_groups (out\<lparr>o_scat := [\<lparr>se_buf = mess, se_len = max_mess_len\<rparr>]\<rparr>)"

end
