(* ===== verification/Sp_memb.thy ===== *)
theory Sp_memb
  imports Sp_library
begin

text \<open>
  What a client learns from a membership message, in \<open>libspread/sp.c\<close>: the group id, the virtual
  synchrony sets and their members, from a buffer or from scattered elements.  An offset outside the
  buffer is \<open>None\<close>.
\<close>

definition SP_equal_group_ids :: "group_id \<Rightarrow> group_id \<Rightarrow> int" where
  "SP_equal_group_ids g1 g2 = (if mid_proc_id (gid_memb g1) = mid_proc_id (gid_memb g2) \<and>
      mid_time (gid_memb g1) = mid_time (gid_memb g2) \<and> gid_index g1 = gid_index g2 then 1 else 0)"

definition Is_membership_mess :: "int32u \<Rightarrow> bool" where
  "Is_membership_mess t \<longleftrightarrow> has t 0x00003f00 \<and> \<not> has t REJECT_MESS"

record vs_set_info =
  vsi_num_members :: int32u
  vsi_members_offset :: int32u

record membership_info =
  mi_gid :: group_id
  mi_changed_member :: "byte list"
  mi_num_vs_sets :: int32u
  mi_my_vs_set :: vs_set_info

definition gid_offset :: int32u where "gid_offset = 0"
definition num_vs_sets_offset :: int32u where "num_vs_sets_offset = 12"
definition local_vs_set_offset :: int32u where "local_vs_set_offset = 12 + 4"
definition first_vs_set_offset :: int32u where "first_vs_set_offset = 12 + 2 * 4"
definition vs_set_size_offset :: int32u where "vs_set_size_offset = 0"
definition vs_set_members_offset :: int32u where "vs_set_members_offset = 4"

definition dec_group_id :: "byte list \<Rightarrow> group_id" where
  "dec_group_id bs = \<lparr>gid_memb = \<lparr>mid_proc_id = word32 bs, mid_time = sint (word32 (drop 4 bs))\<rparr>,
     gid_index = sint (word32 (drop 8 bs))\<rparr>"

definition word_at :: "byte list \<Rightarrow> int32u \<Rightarrow> int32u option" where
  "word_at buf off = map_option word32 (get_bytes buf (uint off) 4)"

text \<open>
  The information of a message, from any way to read \<open>n\<close> bytes at an offset.  A membership that
  was not caused by one of the four causes leaves the changed member as it was.
\<close>

definition memb_info_of ::
  "(int32u \<Rightarrow> nat \<Rightarrow> byte list option) \<Rightarrow> int32u \<Rightarrow> membership_info \<Rightarrow> (int \<times> membership_info) option" where
  "memb_info_of read service_type info =
     (if \<not> Is_membership_mess service_type then Some (ILLEGAL_MESSAGE, info)
      else do {
        g \<leftarrow> read gid_offset 12;
        let i1 = info\<lparr>mi_gid := dec_group_id g\<rparr>;
        if has service_type REG_MEMB_MESS
        then do {
          changed \<leftarrow> (if has service_type CAUSED_BY_JOIN \<or> has service_type CAUSED_BY_LEAVE \<or> has service_type CAUSED_BY_DISCONNECT
            then read (first_vs_set_offset + vs_set_members_offset) MAX_GROUP_NAME
            else Some (if has service_type CAUSED_BY_NETWORK then replicate MAX_GROUP_NAME 0 else mi_changed_member i1));
          num \<leftarrow> read num_vs_sets_offset 4;
          off \<leftarrow> read local_vs_set_offset 4;
          let my_vs_offset = word32 off + first_vs_set_offset;
          members \<leftarrow> read (my_vs_offset + vs_set_size_offset) 4;
          Some (1, i1\<lparr>mi_changed_member := changed, mi_num_vs_sets := word32 num,
            mi_my_vs_set := \<lparr>vsi_num_members = word32 members, vsi_members_offset = my_vs_offset + vs_set_members_offset\<rparr>\<rparr>) }
        else Some (1, i1\<lparr>mi_num_vs_sets := 0, mi_my_vs_set := \<lparr>vsi_num_members = 0, vsi_members_offset = 0\<rparr>\<rparr>) })"

definition SP_get_memb_info :: "byte list \<Rightarrow> int32u \<Rightarrow> membership_info \<Rightarrow> (int \<times> membership_info) option" where
  "SP_get_memb_info memb_mess = memb_info_of (\<lambda>off n. get_bytes memb_mess (uint off) (int n))"

text \<open>The sets, and the index of the local one when its offset is that of a set.\<close>

fun vs_sets_at ::
  "(int32u \<Rightarrow> nat \<Rightarrow> byte list option) \<Rightarrow> int32u \<Rightarrow> nat \<Rightarrow> nat \<Rightarrow> int32u \<Rightarrow> nat option \<Rightarrow> (vs_set_info list \<times> nat option) option" where
  "vs_sets_at read my_off i 0 off found = Some ([], found)"
| "vs_sets_at read my_off i (Suc n) off found = do {
     w \<leftarrow> read off 4;
     let here = \<lparr>vsi_num_members = word32 w, vsi_members_offset = off + vs_set_members_offset\<rparr>;
     (sets, f) \<leftarrow> vs_sets_at read my_off (Suc i) n (off + vs_set_members_offset + word32 w * of_nat MAX_GROUP_NAME)
       (if off = my_off then Some i else found);
     Some (here # sets, f) }"

text \<open>\<open>num_vs_sets\<close> is compared as an unsigned number.  The index is left alone (\<open>None\<close>) when no set is the local one.\<close>

definition SP_get_vs_sets_info :: "byte list \<Rightarrow> int \<Rightarrow> (int \<times> vs_set_info list \<times> nat option) option" where
  "SP_get_vs_sets_info memb_mess num_vs_sets = do {
     actual \<leftarrow> word_at memb_mess num_vs_sets_offset;
     if (word_of_int num_vs_sets :: int32u) < actual then Some (BUFFER_TOO_SHORT, [], None)
     else do {
       off \<leftarrow> word_at memb_mess local_vs_set_offset;
       (sets, f) \<leftarrow> vs_sets_at (\<lambda>o1 n. get_bytes memb_mess (uint o1) (int n)) (off + first_vs_set_offset) 0
         (unat actual) first_vs_set_offset None;
       Some (sint actual, sets, f) } }"

definition SP_get_vs_set_members :: "byte list \<Rightarrow> vs_set_info \<Rightarrow> int \<Rightarrow> (int \<times> byte list) option" where
  "SP_get_vs_set_members memb_mess vs_set member_names_count =
     (if (word_of_int member_names_count :: int32u) < vsi_num_members vs_set then Some (BUFFER_TOO_SHORT, [])
      else do {
        names \<leftarrow> get_bytes memb_mess (uint (vsi_members_offset vs_set)) (int MAX_GROUP_NAME * uint (vsi_num_members vs_set));
        Some (sint (vsi_num_members vs_set), names) })"

section \<open>From scattered elements\<close>

text \<open>
  The first loop of \<open>scat_read\<close> goes to the next element before it subtracts a length, and so subtracts that of
  the wrong one; the second one puts every piece at the start of the destination, and forgets where
  it was when it stops inside an element.
\<close>

fun scat_start :: "scat_element list \<Rightarrow> nat \<Rightarrow> int \<Rightarrow> nat \<Rightarrow> (nat \<times> int) option" where
  "scat_start es scat start 0 = None"
| "scat_start es scat start (Suc k) = (if scat \<ge> length es then None
     else if start > se_len (es ! scat)
     then if Suc scat \<ge> length es then None else scat_start es (Suc scat) (start - se_len (es ! Suc scat)) k
     else Some (scat, start))"

function scat_copy :: "scat_element list \<Rightarrow> nat \<Rightarrow> int \<Rightarrow> nat \<Rightarrow> byte list \<Rightarrow> byte list option" where
  "scat_copy es scat idx remain dest = (if remain = 0 then Some dest
     else if scat \<ge> length es \<or> idx < 0 \<or> idx > se_len (es ! scat) then None
     else let n = min (int remain) (se_len (es ! scat) - idx) in
       case get_bytes (se_buf (es ! scat)) idx n of None \<Rightarrow> None
       | Some bs \<Rightarrow> (case put_bytes dest 0 bs of None \<Rightarrow> None
         | Some d \<Rightarrow> if n = se_len (es ! scat) - idx then scat_copy es (Suc scat) 0 (remain - nat n) d
             else scat_copy es scat n (remain - nat n) d))"
  by pat_completeness auto

termination
  by (relation "measures [\<lambda>(es, scat, idx, remain, dest). remain, \<lambda>(es, scat, idx, remain, dest). length es - scat]") auto

declare scat_copy.simps [simp del]

definition scat_read :: "byte list \<Rightarrow> scat_element list \<Rightarrow> int \<Rightarrow> nat \<Rightarrow> byte list option" where
  "scat_read dest es start_byte copy_size = do {
     (scat, idx) \<leftarrow> scat_start es 0 start_byte (Suc (length es));
     scat_copy es scat idx copy_size dest }"

text \<open>Local variables and fields are read into as zeros here; \<open>start_byte\<close> is a signed number.\<close>

definition scat_get :: "scat_element list \<Rightarrow> int32u \<Rightarrow> nat \<Rightarrow> byte list option" where
  "scat_get es off n = scat_read (replicate n 0) es (sint off) n"

definition SP_scat_get_memb_info :: "scat_element list \<Rightarrow> int32u \<Rightarrow> membership_info \<Rightarrow> (int \<times> membership_info) option" where
  "SP_scat_get_memb_info es = memb_info_of (scat_get es)"

text \<open>The sets that are read are as many as the caller has room for, not as many as there are.\<close>

definition SP_scat_get_vs_sets_info :: "scat_element list \<Rightarrow> int \<Rightarrow> (int \<times> vs_set_info list \<times> nat option) option" where
  "SP_scat_get_vs_sets_info es num_vs_sets = do {
     a \<leftarrow> scat_get es num_vs_sets_offset 4;
     let actual = word32 a;
     if (word_of_int num_vs_sets :: int32u) < actual then Some (BUFFER_TOO_SHORT, [], None)
     else do {
       off \<leftarrow> scat_get es local_vs_set_offset 4;
       (sets, f) \<leftarrow> vs_sets_at (scat_get es) (word32 off + first_vs_set_offset) 0 (nat num_vs_sets) first_vs_set_offset None;
       Some (sint actual, sets, f) } }"

definition SP_scat_get_vs_set_members :: "scat_element list \<Rightarrow> vs_set_info \<Rightarrow> int \<Rightarrow> (int \<times> byte list) option" where
  "SP_scat_get_vs_set_members es vs_set member_names_count =
     (if (word_of_int member_names_count :: int32u) < vsi_num_members vs_set then Some (BUFFER_TOO_SHORT, [])
      else do {
        names \<leftarrow> scat_get es (vsi_members_offset vs_set) (MAX_GROUP_NAME * unat (vsi_num_members vs_set));
        Some (sint (vsi_num_members vs_set), names) })"

end
