(* ===== verification/Sp_views.thy ===== *)
theory Sp_views
  imports Sp_memb Group_subtractive
begin

text \<open>
  A client reads what its daemon wrote: the membership message \<open>G_build_memb_vs_buf\<close> builds, taken apart by
  \<open>SP_get_memb_info\<close>, \<open>SP_get_vs_sets_info\<close> and \<open>SP_get_vs_set_members\<close>.
\<close>

section \<open>The sets\<close>

fun set_infos :: "nat \<Rightarrow> byte list list list \<Rightarrow> vs_set_info list" where
  "set_infos off [] = []"
| "set_infos off (ms # sets) =
     \<lparr>vsi_num_members = of_nat (length ms), vsi_members_offset = of_nat (off + 4)\<rparr> # set_infos (off + length (enc_vs_set ms)) sets"

definition names_32 :: "byte list list list \<Rightarrow> bool" where
  "names_32 sets \<longleftrightarrow> (\<forall>ms \<in> set sets. \<forall>m \<in> set ms. length m = 32)"

lemma uint_of_nat: "n < 4294967296 \<Longrightarrow> uint (of_nat n :: int32u) = int n"
  by (simp add: unsigned_of_nat take_bit_nat_eq_self_iff)

lemma get_bytes_from:
  assumes "drop off buf = bs @ post" and "off \<le> length buf"
  shows "get_bytes buf (int off) (int (length bs)) = Some bs"
proof -
  have "buf = take off buf @ bs @ post" using assms(1) by (metis append_take_drop_id)
  then show ?thesis using get_bytes_at [of "int off" "take off buf" "int (length bs)" bs post] assms(2) by simp
qed

lemma sets_read:
  assumes "names_32 sets" and "drop off buf = vs_region sets @ post" and "off + length (vs_region sets) < 4294967296"
    and "off \<le> length buf"
    and m: "my < 4294967296"
  shows "\<exists>f. vs_sets_at (\<lambda>o1 n. get_bytes buf (uint o1) (int n)) (of_nat my) k (length sets) (of_nat off) f0 =
      Some (set_infos off sets, f) \<and>
    (\<forall>pre x ys. sets = pre @ x # ys \<and> my = off + length (vs_region pre) \<longrightarrow> f = Some (k + length pre)) \<and>
    (my < off \<longrightarrow> f = f0)"
  using assms
proof (induction sets arbitrary: off k f0)
  case Nil
  then show ?case by auto
next
  case (Cons ms sets)
  have ms: "\<forall>m \<in> set ms. length m = 32" using Cons.prems(1) by (simp add: names_32_def)
  have le: "length (enc_vs_set ms) = 4 + 32 * length ms" by (rule length_enc_vs [OF ms])
  have buf: "drop off buf = int32_bytes (length ms) @ concat ms @ vs_region sets @ post"
    using Cons.prems(2) by (simp add: vs_region_def enc_vs_set_def)
  have small: "off + length (enc_vs_set ms) + length (vs_region sets) < 4294967296" using Cons.prems(3) by (simp add: vs_region_def)
  have r: "get_bytes buf (uint (of_nat off :: int32u)) 4 = Some (int32_bytes (length ms))"
    using get_bytes_from [OF buf Cons.prems(4)] small by (simp add: uint_of_nat)
  have nxt: "drop (off + length (enc_vs_set ms)) buf = vs_region sets @ post"
  proof -
    have "drop (length (enc_vs_set ms)) (drop off buf) = vs_region sets @ post"
      unfolding Cons.prems(2) by (simp add: vs_region_def)
    then show ?thesis by (simp add: add.commute)
  qed
  have inside: "off + length (enc_vs_set ms) \<le> length buf"
  proof -
    have "length (drop off buf) = length (enc_vs_set ms) + length (vs_region sets @ post)"
      unfolding Cons.prems(2) by (simp add: vs_region_def)
    then show ?thesis using Cons.prems(4) by simp
  qed
  have step: "(of_nat off :: int32u) + vs_set_members_offset + word32 (int32_bytes (length ms)) * of_nat MAX_GROUP_NAME =
      of_nat (off + length (enc_vs_set ms))"
    unfolding le by (simp add: vs_set_members_offset_def int32_bytes_def MAX_GROUP_NAME_eq mult.commute)
  let ?off = "off + length (enc_vs_set ms)" and ?f0 = "if off = my then Some k else f0"
  have n32: "names_32 sets" using Cons.prems(1) by (simp add: names_32_def)
  from Cons.IH [OF n32 nxt small inside m, of "Suc k" ?f0] obtain f where
    f: "vs_sets_at (\<lambda>o1 n. get_bytes buf (uint o1) (int n)) (of_nat my) (Suc k) (length sets) (of_nat ?off) ?f0 =
        Some (set_infos ?off sets, f)"
      "\<forall>pre x ys. sets = pre @ x # ys \<and> my = ?off + length (vs_region pre) \<longrightarrow> f = Some (Suc k + length pre)"
      "my < ?off \<longrightarrow> f = ?f0" by blast
  have same: "((of_nat off :: int32u) = of_nat my) = (off = my)" using small m by (metis uint_of_nat of_nat_eq_iff add_lessD1)
  have "vs_sets_at (\<lambda>o1 n. get_bytes buf (uint o1) (int n)) (of_nat my) k (length (ms # sets)) (of_nat off) f0 =
      Some (set_infos off (ms # sets), f)"
    using r f(1) step same by (simp add: int32_bytes_def vs_set_members_offset_def add.assoc)
  moreover have "f = Some (k + length pre)" if "ms # sets = pre @ x # ys" "my = off + length (vs_region pre)" for pre x ys
  proof (cases pre)
    case Nil
    then show ?thesis using f(3) that(2) le by (simp add: vs_region_def)
  next
    case (Cons p pre')
    then show ?thesis using f(2) that by (auto simp: vs_region_def)
  qed
  moreover have "my < off \<longrightarrow> f = f0" using f(3) by auto
  ultimately show ?case by blast
qed

section \<open>The data of the message\<close>

definition vs_data :: "group_id \<Rightarrow> byte list list list \<Rightarrow> int \<Rightarrow> byte list" where
  "vs_data gid sets off = enc_group_id gid @ int32_bytes (length sets) @ bytes32 (word_of_int off) @ vs_region sets"

lemma vs_bytes_data: "vs_bytes g sets off = concat (group_members g) @ vs_data (g_gid g) sets off"
  by (simp add: vs_bytes_def vs_data_def)

lemma length_vs_data: "length (vs_data gid sets off) = 20 + length (vs_region sets)"
  by (simp add: vs_data_def)

lemma dec_enc_group_id: "wf_gid g \<Longrightarrow> dec_group_id (enc_group_id g) = g"
  by (cases g; cases "gid_memb g") (simp add: dec_group_id_def enc_group_id_def enc_memb_id_def wf_gid_def wf_memb_id_def)

lemma vs_data_fields:
  "get_bytes (vs_data gid sets off) 0 12 = Some (enc_group_id gid)"
  "get_bytes (vs_data gid sets off) 12 4 = Some (int32_bytes (length sets))"
  "get_bytes (vs_data gid sets off) 16 4 = Some (bytes32 (word_of_int off))"
  "drop 20 (vs_data gid sets off) = vs_region sets"
  by (simp_all add: vs_data_def get_bytes_def)

lemma vs_data_set:
  assumes "sets = pre @ x # post"
  shows "drop (20 + length (vs_region pre)) (vs_data gid sets off) = int32_bytes (length x) @ concat x @ vs_region post"
    "drop (20 + length (vs_region pre) + 4) (vs_data gid sets off) = concat x @ vs_region post"
    "20 + length (vs_region pre) + 4 + length (concat x) + length (vs_region post) = length (vs_data gid sets off)"
  using assms by (simp_all add: vs_data_def vs_region_def enc_vs_set_def)

lemma set_infos_nth:
  "set_infos off (pre @ x # post) ! length pre =
     \<lparr>vsi_num_members = of_nat (length x), vsi_members_offset = of_nat (off + length (vs_region pre) + 4)\<rparr>"
  "length (set_infos off sets) = length sets"
proof -
  show "set_infos off (pre @ x # post) ! length pre =
     \<lparr>vsi_num_members = of_nat (length x), vsi_members_offset = of_nat (off + length (vs_region pre) + 4)\<rparr>"
    by (induction pre arbitrary: off) (simp_all add: vs_region_def ac_simps)
  show "length (set_infos off sets) = length sets"
    by (induction sets arbitrary: off) simp_all
qed

definition network_type :: int32u where "network_type = Clear_endian (Set_endian REG_MEMB_MESS OR CAUSED_BY_NETWORK)"

lemma network_type_bits:
  "Is_membership_mess network_type" "has network_type REG_MEMB_MESS" "has network_type CAUSED_BY_NETWORK"
  "\<not> has network_type CAUSED_BY_JOIN" "\<not> has network_type CAUSED_BY_LEAVE" "\<not> has network_type CAUSED_BY_DISCONNECT"
  by code_simp+

lemma offsets:
  "uint gid_offset = 0" "uint num_vs_sets_offset = 12" "uint local_vs_set_offset = 16" "first_vs_set_offset = of_nat 20"
  "vs_set_size_offset = 0" "vs_set_members_offset = 4" "length (int32_bytes n) = 4" "word32 (int32_bytes n) = of_nat n"
  by (code_simp, code_simp, code_simp, simp_all add: first_vs_set_offset_def vs_set_size_offset_def vs_set_members_offset_def int32_bytes_def)

lemma memb_info_read:
  assumes "wf_gid gid" and "sets = pre @ x # post" and "20 + length (vs_region sets) < 4294967296"
  shows "SP_get_memb_info (vs_data gid sets (int (length (vs_region pre)))) network_type info =
    Some (1, \<lparr>mi_gid = gid, mi_changed_member = replicate MAX_GROUP_NAME 0, mi_num_vs_sets = of_nat (length sets),
      mi_my_vs_set = set_infos 20 sets ! length pre\<rparr>)"
proof -
  let ?d = "vs_data gid sets (int (length (vs_region pre)))" and ?n = "length (vs_region pre)"
  have small: "20 + ?n + 4 < 4294967296" "20 + ?n \<le> length ?d"
    using assms(2,3) vs_data_set(3) [OF assms(2), of gid "int ?n"] length_vs_data [of gid sets "int ?n"] by simp_all
  have "get_bytes ?d (int (20 + ?n)) (int (length (int32_bytes (length x)))) = Some (int32_bytes (length x))"
    by (rule get_bytes_from [OF vs_data_set(1) [OF assms(2)] small(2)])
  moreover have "uint ((word_of_int (int ?n) :: int32u) + of_nat 20) = int (20 + ?n)"
    using uint_of_nat [of "20 + ?n"] small(1) by (simp add: add.commute)
  ultimately have m: "get_bytes ?d (uint ((word_of_int (int ?n) :: int32u) + of_nat 20)) 4 = Some (int32_bytes (length x))"
    by (simp only: offsets) simp
  show ?thesis
    using network_type_bits vs_data_fields [of gid sets "int ?n"] m dec_enc_group_id [OF assms(1)] assms(2)
    by (cases info) (simp add: SP_get_memb_info_def memb_info_of_def offsets set_infos_nth ac_simps)
qed

lemma sets_info_read:
  assumes "names_32 sets" and "sets = pre @ x # post" and "20 + length (vs_region sets) < 2147483648"
  shows "SP_get_vs_sets_info (vs_data gid sets (int (length (vs_region pre)))) (int (length sets)) =
    Some (int (length sets), set_infos 20 sets, Some (length pre))"
proof -
  let ?d = "vs_data gid sets (int (length (vs_region pre)))" and ?n = "length (vs_region pre)"
  have n: "?n + 4 \<le> length (vs_region sets)" using assms(2) by (simp add: vs_region_def enc_vs_set_def offsets)
  have four: "length xs \<le> length (vs_region xs)" for xs
    by (induction xs) (simp_all add: vs_region_def enc_vs_set_def offsets)
  have ls: "length sets < 2147483648" using four [of sets] assms(3) by simp
  have d20: "drop 20 ?d = vs_region sets @ []" "20 \<le> length ?d" by (simp_all add: vs_data_fields(4) length_vs_data)
  have "20 + length (vs_region sets) < 4294967296" "20 + ?n < 4294967296" using assms(3) n by simp_all
  from sets_read [OF assms(1) d20(1) this(1) d20(2) this(2), of 0 None] assms(2) have
    r: "vs_sets_at (\<lambda>o1 n. get_bytes ?d (uint o1) (int n)) (of_nat (20 + ?n)) 0 (length sets) (of_nat 20) None =
      Some (set_infos 20 sets, Some (length pre))" by auto
  have w: "word_at ?d num_vs_sets_offset = Some (of_nat (length sets))"
    "word_at ?d local_vs_set_offset = Some (of_nat ?n)"
    using vs_data_fields(2,3) [of gid sets "int ?n"] by (simp_all add: word_at_def offsets)
  have "sint (of_nat (length sets) :: int32u) = int (length sets)" "unat (of_nat (length sets) :: int32u) = length sets"
    using ls by (simp_all add: signed_of_nat unsigned_of_nat signed_take_bit_int_eq_self take_bit_nat_eq_self_iff)
  then show ?thesis using r w
    by (simp add: SP_get_vs_sets_info_def offsets add.commute)
qed

lemma members_read:
  assumes "names_32 sets" and "sets = pre @ x # post" and "20 + length (vs_region sets) < 2147483648" and "length x \<le> n" "n < 4294967296"
  shows "SP_get_vs_set_members (vs_data gid sets off) (set_infos 20 sets ! length pre) (int n) = Some (int (length x), concat x)"
proof -
  let ?d = "vs_data gid sets off" and ?k = "20 + length (vs_region pre) + 4"
  have lx: "length (concat x) = 32 * length x" using assms(1,2) by (intro length_concat_32) (simp add: names_32_def)
  note d = vs_data_set [OF assms(2), of gid off]
  have sm: "?k + length (concat x) \<le> length ?d" "length ?d < 2147483648" using d(3) assms(3) length_vs_data [of gid sets off] by simp_all
  have g: "get_bytes ?d (int ?k) (int (length (concat x))) = Some (concat x)"
    by (rule get_bytes_from [OF d(2)]) (use sm in simp)
  have u: "uint (of_nat ?k :: int32u) = int ?k" by (rule uint_of_nat) (use sm in simp)
  have nx: "sint (of_nat (length x) :: int32u) = int (length x)" "uint (of_nat (length x) :: int32u) = int (length x)"
    using sm lx by (simp_all add: signed_of_nat unsigned_of_nat signed_take_bit_int_eq_self take_bit_nat_eq_self_iff)
  have "\<not> (word_of_int (int n) :: int32u) < of_nat (length x)"

  proof -
    have "take_bit 32 n = n" "take_bit 32 (length x) = length x" using assms(4,5) by (simp_all add: take_bit_nat_eq_self_iff)
    then show ?thesis using assms(4) by (simp add: word_less_nat_alt unsigned_of_nat)
  qed
  then show ?thesis
    unfolding assms(2) SP_get_vs_set_members_def set_infos_nth using g u nx lx unfolding assms(2)
    by (simp add: MAX_GROUP_NAME_eq del: of_nat_add)
qed

section \<open>From the daemon to the client\<close>

lemma reads_membership:
  assumes ok: "server_ok s" and g: "g \<in> set (GroupsList s)" and small: "length (group_members g) \<le> max_members"
    and gid: "wf_gid (g_gid g)" and d: "d \<in> set (g_daemons g)" "dm_proc d = My_id s"
  shows "\<exists>h data sets infos i. G_build_memb_vs_buf g CAUSED_BY_NETWORK None s = Some (h, concat (group_members g) @ data) \<and>
    mh_data_len h = int (length data) \<and> Clear_endian (mh_type h) = network_type \<and>
    mset (concat sets) = mset (group_members g) \<and> i < length sets \<and> set (dm_members d) \<subseteq> set (sets ! i) \<and>
    SP_get_memb_info data network_type info = Some (1, \<lparr>mi_gid = g_gid g, mi_changed_member = replicate MAX_GROUP_NAME 0,
      mi_num_vs_sets = of_nat (length sets), mi_my_vs_set = infos ! i\<rparr>) \<and>
    SP_get_vs_sets_info data (int (length sets)) = Some (int (length sets), infos, Some i) \<and>
    map (\<lambda>v. SP_get_vs_set_members data v (int max_members)) infos = map (\<lambda>ms. Some (int (length ms), concat ms)) sets"
proof -
  from vs_buf_server [OF ok g small, of None CAUSED_BY_NETWORK] obtain sets off where
    b: "G_build_memb_vs_buf g CAUSED_BY_NETWORK None s = Some (vs_header g CAUSED_BY_NETWORK sets, vs_bytes g sets off)"
      "mset (concat sets) = mset (group_members g)" "length (vs_region sets) \<le> 36 * max_members + 36"
      "located None (dm_members d) sets off"
    using d by auto
  obtain pre x post where loc: "sets = pre @ x # post" "off = int (length (vs_region pre))" "set (dm_members d) \<subseteq> set x"
    using b(4) by (auto simp: located_def)
  have "group_ok s g" using ok g by (simp add: server_ok_def)
  from group_fits [OF this small] have f: "\<forall>m \<in> set (group_members g). length m = 32" by (simp add: fits_def)
  have eq: "set (concat sets) = set (group_members g)" using b(2) by (metis set_mset_mset)
  then have n32: "names_32 sets" using f by (auto simp: names_32_def)
  have lim: "20 + length (vs_region sets) < 2147483648" using b(3) by (simp add: max_members_def)
  have all: "map (\<lambda>v. SP_get_vs_set_members (vs_data (g_gid g) sets off) v (int max_members)) (set_infos 20 sets) =
      map (\<lambda>ms. Some (int (length ms), concat ms)) sets"
  proof (rule nth_equalityI)
    show "length (map (\<lambda>v. SP_get_vs_set_members (vs_data (g_gid g) sets off) v (int max_members)) (set_infos 20 sets)) =
      length (map (\<lambda>ms. Some (int (length ms), concat ms)) sets)" by (simp add: set_infos_nth)
    fix k assume "k < length (map (\<lambda>v. SP_get_vs_set_members (vs_data (g_gid g) sets off) v (int max_members)) (set_infos 20 sets))"
    then have k: "k < length sets" by (simp add: set_infos_nth)
    then have sp: "sets = take k sets @ sets ! k # drop (Suc k) sets" by (simp add: id_take_nth_drop)
    have "length (sets ! k) \<le> length (concat sets)" by (subst sp) simp
    also have "\<dots> = length (group_members g)" using mset_eq_length [OF b(2)] .
    finally have "length (sets ! k) \<le> max_members" using small by simp
    from members_read [OF n32 sp lim this, of "g_gid g" off] show
      "map (\<lambda>v. SP_get_vs_set_members (vs_data (g_gid g) sets off) v (int max_members)) (set_infos 20 sets) ! k =
        map (\<lambda>ms. Some (int (length ms), concat ms)) sets ! k"
      using k by (simp add: set_infos_nth max_members_def)
  qed
  have mi: "SP_get_memb_info (vs_data (g_gid g) sets off) network_type info = Some (1, \<lparr>mi_gid = g_gid g,
      mi_changed_member = replicate MAX_GROUP_NAME 0, mi_num_vs_sets = of_nat (length sets),
      mi_my_vs_set = set_infos 20 sets ! length pre\<rparr>)"
    unfolding loc(2) by (rule memb_info_read [OF gid loc(1)]) (use lim in simp)
  have si: "SP_get_vs_sets_info (vs_data (g_gid g) sets off) (int (length sets)) =
      Some (int (length sets), set_infos 20 sets, Some (length pre))"
    unfolding loc(2) by (rule sets_info_read [OF n32 loc(1) lim])
  have dl: "mh_data_len (vs_header g CAUSED_BY_NETWORK sets) = int (length (vs_data (g_gid g) sets off))"
    by (simp add: vs_header_def length_vs_data)
  have ty: "Clear_endian (mh_type (vs_header g CAUSED_BY_NETWORK sets)) = network_type"
    by (simp add: vs_header_def memb_header_def network_type_def)
  have "length pre < length sets" "set (dm_members d) \<subseteq> set (sets ! length pre)" using loc(1,3) by simp_all
  then show ?thesis using b(1)[unfolded vs_bytes_data] b(2) dl ty mi si all by blast
qed

text \<open>
  C38: A view from the daemon to the application.  When a daemon whose tables are in order has a group of at most 2000
  members with a local one, and builds the message for a change of the network, the data behind its groups is what the three
  client calls take apart: the group id; the number of sets; each set with its members, one after the other; and
  as the index of the local set one that holds all the local members.  The sets together are the members of the group.
\<close>

theorem Client_reads_membership:
  assumes "server_ok s" and "g \<in> set (GroupsList s)" and "length (group_members g) \<le> max_members"
    and "wf_gid (g_gid g)" and "d \<in> set (g_daemons g)" and "dm_proc d = My_id s"
  shows "\<exists>h data sets infos i. G_build_memb_vs_buf g CAUSED_BY_NETWORK None s = Some (h, concat (group_members g) @ data) \<and>
    mh_data_len h = int (length data) \<and> Clear_endian (mh_type h) = network_type \<and>
    mset (concat sets) = mset (group_members g) \<and> i < length sets \<and> set (dm_members d) \<subseteq> set (sets ! i) \<and>
    SP_get_memb_info data network_type info = Some (1, \<lparr>mi_gid = g_gid g, mi_changed_member = replicate MAX_GROUP_NAME 0,
      mi_num_vs_sets = of_nat (length sets), mi_my_vs_set = infos ! i\<rparr>) \<and>
    SP_get_vs_sets_info data (int (length sets)) = Some (int (length sets), infos, Some i) \<and>
    map (\<lambda>v. SP_get_vs_set_members data v (int max_members)) infos = map (\<lambda>ms. Some (int (length ms), concat ms)) sets"
  by (rule reads_membership [OF assms])

theorem Client_reads_membership_witness:
  "\<exists>data infos i. SP_get_vs_sets_info data (int (length infos)) = Some (int (length infos), infos, Some i) \<and>
     SP_get_memb_info data network_type \<lparr>mi_gid = g_gid y_group, mi_changed_member = [], mi_num_vs_sets = 0,
         mi_my_vs_set = \<lparr>vsi_num_members = 0, vsi_members_offset = 0\<rparr>\<rparr> =
       Some (1, \<lparr>mi_gid = \<lparr>gid_memb = sample_memb_id, gid_index = 2\<rparr>, mi_changed_member = replicate MAX_GROUP_NAME 0,
         mi_num_vs_sets = of_nat (length infos), mi_my_vs_set = infos ! i\<rparr>) \<and>
     list_ex (\<lambda>v. case SP_get_vs_set_members data v (int max_members) of Some (n, bs) \<Rightarrow> 0 < n \<and> 0 < length bs | None \<Rightarrow> False) infos"
proof -
  have gl: "xy_group \<in> set (GroupsList daemon_xy)" by (simp add: daemon_xy_def)
  have w: "wf_gid (g_gid xy_group)" "length (group_members xy_group) \<le> max_members" "g_gid xy_group = \<lparr>gid_memb = sample_memb_id, gid_index = 2\<rparr>"
    by (code_simp, code_simp, simp add: xy_group_def)
  have my: "My_id daemon_xy = 1"
  proof -
    have "p_id (named_proc 0) = 1" by code_simp
    then show ?thesis using groups_step_same(4) [OF xy_step] by simp
  qed
  have d: "\<lparr>dm_proc = 1, dm_memb = sample_memb_id, dm_members = [client_x]\<rparr> \<in> set (g_daemons xy_group)" by (simp add: xy_group_def)
  from Client_reads_membership [OF xy_ok gl w(2,1) d, of "\<lparr>mi_gid = g_gid y_group, mi_changed_member = [], mi_num_vs_sets = 0,
         mi_my_vs_set = \<lparr>vsi_num_members = 0, vsi_members_offset = 0\<rparr>\<rparr>"] my
  obtain data sets infos i where r: "i < length sets" "client_x \<in> set (sets ! i)"
    "SP_get_memb_info data network_type \<lparr>mi_gid = g_gid y_group, mi_changed_member = [], mi_num_vs_sets = 0,
         mi_my_vs_set = \<lparr>vsi_num_members = 0, vsi_members_offset = 0\<rparr>\<rparr> =
       Some (1, \<lparr>mi_gid = g_gid xy_group, mi_changed_member = replicate MAX_GROUP_NAME 0,
         mi_num_vs_sets = of_nat (length sets), mi_my_vs_set = infos ! i\<rparr>)"
    "SP_get_vs_sets_info data (int (length sets)) = Some (int (length sets), infos, Some i)"
    "map (\<lambda>v. SP_get_vs_set_members data v (int max_members)) infos = map (\<lambda>ms. Some (int (length ms), concat ms)) sets"
    by auto
  have len: "length infos = length sets" using arg_cong [OF r(5), of length] by simp
  have "map (\<lambda>v. SP_get_vs_set_members data v (int max_members)) infos ! i = map (\<lambda>ms. Some (int (length ms), concat ms)) sets ! i"
    unfolding r(5) ..
  then have at: "SP_get_vs_set_members data (infos ! i) (int max_members) = Some (int (length (sets ! i)), concat (sets ! i))"
    using r(1) len by simp
  obtain a b where ab: "sets ! i = a @ client_x # b" using split_list [OF r(2)] by blast
  have "0 < length client_x" by code_simp
  then have "list_ex (\<lambda>v. case SP_get_vs_set_members data v (int max_members) of Some (n, bs) \<Rightarrow> 0 < n \<and> 0 < length bs | None \<Rightarrow> False) infos"
    using at ab r(1) len by (force simp: list_ex_length intro!: exI [of _ i])
  then show ?thesis using r(3,4) len w(3) by (intro exI [of _ data] exI [of _ infos] exI [of _ i]) simp
qed

end
