(* ===== verification/Sp_receive.thy ===== *)
theory Sp_receive
  imports Sp_library
begin

text \<open>
  A client gets what was written to it: \<open>SP_scat_receive\<close> returns the message at the head of what has come
  in, in whatever pieces it came; with buffers that are too small it says what is needed and keeps the
  message for the next call.
\<close>

section \<open>Reading from the socket\<close>

text \<open>The call has taken \<open>n\<close> bytes of the socket.\<close>

definition consumed :: "int \<Rightarrow> nat \<Rightarrow> sp_lib \<Rightarrow> sp_lib \<Rightarrow> bool" where
  "consumed mbox n s s' \<longleftrightarrow> (\<exists>k. s' = s\<lparr>sp_recvs := k, sp_unread := (sp_unread s)(mbox := drop n (sp_unread s mbox))\<rparr>)"

lemma consumed_refl: "consumed mbox 0 s s"
  by (auto simp: consumed_def intro!: exI [of _ "sp_recvs s"])

lemma consumed_trans: "consumed mbox a s t \<Longrightarrow> consumed mbox b t u \<Longrightarrow> consumed mbox (a + b) s u"
  by (auto simp: consumed_def add.commute)

lemma consumed_fields:
  assumes "consumed mbox n s s'"
  shows "Sp_sessions s' = Sp_sessions s" "sp_unread s' mbox = drop n (sp_unread s mbox)" "SP_get_session m s' = SP_get_session m s"
  using assms by (auto simp: consumed_def SP_get_session_def)

lemma recv_all_spec:
  "n \<le> length (sp_unread s mbox) \<Longrightarrow> \<exists>s'. recv_all mbox n s = (True, take n (sp_unread s mbox), s') \<and> consumed mbox n s s'"
proof (induction mbox n s rule: recv_all.induct)
  case (1 mbox n s)
  show ?case
  proof (cases "n = 0")
    case True
    then show ?thesis using consumed_refl by (auto simp: recv_all.simps)
  next
    case False
    obtain bs s1 where r: "sp_recv mbox n s = (bs, s1)" by (cases "sp_recv mbox n s")
    let ?k = "min n (max 1 (sp_piece s (sp_recvs s)))"
    have bs: "bs = take ?k (sp_unread s mbox)" and c: "consumed mbox ?k s s1"
      using r by (auto simp: sp_recv_def consumed_def Let_def)
    have k: "0 < ?k" "?k \<le> n" using False by auto
    then have len: "length bs = ?k" "bs \<noteq> []" using bs "1.prems" False by auto
    have "n - length bs \<le> length (sp_unread s1 mbox)" using "1.prems" consumed_fields(2) [OF c] len(1) by simp
    from "1.IH" [OF False r [symmetric] len(2) this] obtain s' where
      s': "recv_all mbox (n - length bs) s1 = (True, take (n - length bs) (sp_unread s1 mbox), s')"
        "consumed mbox (n - length bs) s1 s'" by blast
    have "recv_all mbox n s = (True, bs @ take (n - length bs) (sp_unread s1 mbox), s')"
      using False r s'(1) len(2) by (simp add: recv_all.simps [of mbox n s])
    moreover have "bs @ take (n - length bs) (sp_unread s1 mbox) = take n (sp_unread s mbox)"
      using bs consumed_fields(2) [OF c] len(1) k(2) by (simp add: take_add [symmetric])
    moreover have "consumed mbox n s s'" using consumed_trans [OF c s'(2)] len(1) k(2) by simp
    ultimately show ?thesis by auto
  qed
qed

section \<open>The elements\<close>

definition scat_ok :: "scat_element list \<Rightarrow> bool" where
  "scat_ok es \<longleftrightarrow> list_all (\<lambda>e. 0 < se_len e \<and> se_len e \<le> int (length (se_buf e))) es"

lemma scat_ok_simps [simp]:
  "scat_ok []" "scat_ok (e # es) \<longleftrightarrow> 0 < se_len e \<and> se_len e \<le> int (length (se_buf e)) \<and> scat_ok es"
  by (simp_all add: scat_ok_def)

lemma scat_sum_nonneg: "scat_ok es \<Longrightarrow> 0 \<le> sum_list (map se_len es)"
  by (induction es) auto

lemma recv_scat_spec:
  assumes "scat_ok es" and "0 \<le> remain" and "remain \<le> sum_list (map se_len es)" and "nat remain \<le> length (sp_unread s mbox)"
  shows "\<exists>es' s'. recv_scat mbox remain es s = Some (True, es', s') \<and> consumed mbox (nat remain) s s' \<and>
    map se_len es' = map se_len es \<and> scat_ok es' \<and> take (nat remain) (contents es') = take (nat remain) (sp_unread s mbox)"
  using assms
proof (induction es arbitrary: remain s)
  case Nil
  then show ?case using consumed_refl by auto
next
  case (Cons e es)
  show ?case
  proof (cases "remain = 0")
    case True
    then show ?thesis using Cons.prems consumed_refl by auto
  next
    case False
    let ?n = "min (se_len e) remain"
    have n: "0 < ?n" "?n \<le> remain" using False Cons.prems by auto
    have le: "nat ?n \<le> length (sp_unread s mbox)" using Cons.prems(4) n(2) by linarith
    from recv_all_spec [OF le] obtain s1 where
      s1: "recv_all mbox (nat ?n) s = (True, take (nat ?n) (sp_unread s mbox), s1)" "consumed mbox (nat ?n) s s1" by blast
    let ?bs = "take (nat ?n) (sp_unread s mbox)"
    have lb: "int (length ?bs) = ?n" using le n(1) by simp
    let ?b = "?bs @ drop (length ?bs) (se_buf e)"
    have b: "put_bytes (se_buf e) 0 ?bs = Some ?b" 
    proof -
      have "int (length ?bs) \<le> int (length (se_buf e))" using Cons.prems(1) unfolding lb by auto
      then show ?thesis unfolding put_bytes_def by simp
    qed
    have "remain - ?n \<le> sum_list (map se_len es)"
      using Cons.prems(3) scat_sum_nonneg [of es] Cons.prems(1) by (simp add: min_def split: if_splits)
    moreover have "nat (remain - ?n) \<le> length (sp_unread s1 mbox)"
      using Cons.prems(4) consumed_fields(2) [OF s1(2)] n by simp linarith
    ultimately obtain es' s' where
      r: "recv_scat mbox (remain - ?n) es s1 = Some (True, es', s')" "consumed mbox (nat (remain - ?n)) s1 s'"
        "map se_len es' = map se_len es" "scat_ok es'"
        "take (nat (remain - ?n)) (contents es') = take (nat (remain - ?n)) (sp_unread s1 mbox)"
      using Cons.IH [of "remain - ?n" s1] Cons.prems(1) n(2) by auto
    let ?e = "e\<lparr>se_buf := ?b\<rparr>"
    have "recv_scat mbox remain (e # es) s = Some (True, ?e # es', s')"
      using False Cons.prems(2) n(1) s1(1) b r(1) by (simp add: Let_def)
    moreover have "consumed mbox (nat remain) s s'"
      using consumed_trans [OF s1(2) r(2)] n by (simp add: nat_add_distrib [symmetric])
    moreover have "take (nat remain) (contents (?e # es')) = take (nat remain) (sp_unread s mbox)"
    proof (cases "se_len e \<le> remain")
      case True
      then have n': "?n = se_len e" by simp
      have "used ?e = ?bs" using lb n' n(1) by (simp add: used_def)
      then have "take (nat remain) (contents (?e # es')) = ?bs @ take (nat (remain - ?n)) (contents es')"
        using lb n by (simp add: contents_def nat_diff_distrib)
      also have "\<dots> = take (nat remain) (sp_unread s mbox)"
        unfolding r(5) consumed_fields(2) [OF s1(2)] using n
        by (simp only: take_add [symmetric]) (simp add: nat_add_distrib [symmetric])
      finally show ?thesis .
    next
      case False
      then have n': "?n = remain" by simp
      have l: "length ?bs = nat remain" and m: "nat remain \<le> nat (se_len e)" using le n' False by simp_all
      have "take (nat remain) (used ?e) = ?bs" using l m unfolding n' by (simp add: used_def min_absorb1)
      moreover have "nat remain \<le> length (used ?e)" using m l Cons.prems(1) unfolding n' by (simp add: used_def)
      ultimately show ?thesis using n' by (simp add: contents_def)
    qed
    ultimately show ?thesis using r(3,4) Cons.prems(1) lb by (intro exI [of _ "?e # es'"] exI [of _ s']) auto
  qed
qed

section \<open>The message that waits\<close>

text \<open>
  The session awaits a message: its header has been kept by an earlier call, or is what can be read next; what
  follows the header on the socket is \<open>bs\<close>.
\<close>

definition own_form :: "message_header \<Rightarrow> message_header" where
  "own_form h = (if Same_endian (mh_type h) then h else Flip_mess h)"

definition awaits :: "int \<Rightarrow> nat \<Rightarrow> message_header \<Rightarrow> byte list \<Rightarrow> sp_lib \<Rightarrow> bool" where
  "awaits mbox ses h bs s \<longleftrightarrow>
     (if recv_message_saved (Sp_sessions s ! ses) then recv_saved_head (Sp_sessions s ! ses) = h \<and> sp_unread s mbox = bs
      else \<exists>h0. wf_message_header h0 \<and> h = own_form h0 \<and> sp_unread s mbox = enc_message_header h0 @ bs)"

definition sp_usable :: "int \<Rightarrow> nat \<Rightarrow> sp_lib \<Rightarrow> bool" where
  "sp_usable mbox ses s \<longleftrightarrow> SP_get_session mbox s = Some ses \<and> sp_state (Sp_sessions s ! ses) = SESS_ACTIVE"

lemma usable_index: "sp_usable mbox ses s \<Longrightarrow> ses < length (Sp_sessions s)"
  by (auto simp: sp_usable_def SP_get_session_def dest: find_index_Some)

lemma awaits_read:
  assumes "awaits mbox ses h bs s"
  shows "\<exists>s1. saved_or_read mbox ses s = Inl (h, s1) \<and> Sp_sessions s1 = Sp_sessions s \<and> sp_unread s1 mbox = bs"
proof (cases "recv_message_saved (Sp_sessions s ! ses)")
  case True
  then show ?thesis using assms by (simp add: awaits_def saved_or_read_def)
next
  case False
  then obtain h0 where h0: "wf_message_header h0" "h = own_form h0" "sp_unread s mbox = enc_message_header h0 @ bs"
    using assms by (auto simp: awaits_def)
  have l: "length (enc_message_header h0) = 48" using length_enc_message_header [OF h0(1)] by (simp add: sizeof_message_header_def)
  have "48 \<le> length (sp_unread s mbox)" using h0(3) l by simp
  from recv_all_spec [OF this] obtain s1 where
    s1: "recv_all mbox 48 s = (True, take 48 (sp_unread s mbox), s1)" "consumed mbox 48 s s1" by blast
  have d: "dec_message_header (take 48 (sp_unread s mbox)) = h0"
    using dec_enc_message_header [OF h0(1), of "[]"] h0(3) l by simp
  show ?thesis using False s1 d h0(2,3) l consumed_fields(1,2) [OF s1(2)]
    by (simp add: saved_or_read_def sizeof_message_header_def own_form_def Let_def)
qed

section \<open>Receiving it\<close>

text \<open>What the receiver is handed.\<close>

definition received_in :: "message_header \<Rightarrow> byte list \<Rightarrow> byte list \<Rightarrow> byte list \<Rightarrow> sp_out \<Rightarrow> bool" where
  "received_in h old gs bs out \<longleftrightarrow>
     take (length gs) (o_groups out) = gs \<and> o_num_groups out = mh_num_groups h \<and>
     take (length bs) (contents (o_scat out)) = bs \<and> o_sender out = strncpy MAX_GROUP_NAME (mh_private_group_name h) \<and>
     o_service out = Clear_endian (if has (mh_type h) REJECT_MESS
       then (if Same_endian (mh_type h) then word32 old else Flip_int32 (word32 old)) OR REJECT_MESS else mh_type h)"

definition asked_for :: "message_header \<Rightarrow> int \<Rightarrow> int \<Rightarrow> sp_out \<Rightarrow> bool" where
  "asked_for h max_groups max_len out \<longleftrightarrow> o_service out = Clear_endian (mh_type h) \<and>
     o_num_groups out = (if mh_num_groups h > max_groups then - mh_num_groups h else 0) \<and>
     o_mismatch out = (if mh_data_len h > max_len then - mh_data_len h else 0)"

text \<open>
  The parts of a message that follow its header: the type a rejected message had, the groups, the data.
\<close>

definition parts_of :: "message_header \<Rightarrow> byte list \<Rightarrow> byte list \<Rightarrow> byte list \<Rightarrow> bool" where
  "parts_of h old gs bs \<longleftrightarrow> length old = (if has (mh_type h) REJECT_MESS then 4 else 0) \<and>
     int (length gs) = 32 * mh_num_groups h \<and> int (length bs) = mh_data_len h \<and>
     (has (mh_type h) REG_MEMB_MESS \<longrightarrow> Same_endian (mh_type h))"

lemma old_type_spec:
  assumes "length old = (if has (mh_type h) REJECT_MESS then 4 else 0)" and "sp_unread s mbox = old @ bs"
  obtains t s1 where "read_old_type mbox h s = Inl (t, s1)" "Sp_sessions s1 = Sp_sessions s" "sp_unread s1 mbox = bs"
    "has (mh_type h) REJECT_MESS \<longrightarrow> t = (if Same_endian (mh_type h) then word32 old else Flip_int32 (word32 old))"
proof (cases "has (mh_type h) REJECT_MESS")
  case True
  then have "4 \<le> length (sp_unread s mbox)" using assms by simp
  from recv_all_spec [OF this] obtain s1 where
    s1: "recv_all mbox 4 s = (True, take 4 (sp_unread s mbox), s1)" "consumed mbox 4 s s1" by blast
  show ?thesis by (rule that) (use True s1 assms consumed_fields(1,2) [OF s1(2)] in \<open>simp_all add: read_old_type_def\<close>)
next
  case False
  show ?thesis by (rule that) (use False assms in \<open>simp_all add: read_old_type_def\<close>)
qed

lemma groups_array_spec:
  assumes "int (length gs) = 32 * mh_num_groups h" and "mh_num_groups h \<le> max_groups"
    and "length gs \<le> length (o_groups out)" and "sp_unread s mbox = gs @ bs"
  shows "\<exists>s1. read_groups_array mbox h max_groups out s =
      Some (True, out\<lparr>o_groups := gs @ drop (length gs) (o_groups out), o_num_groups := mh_num_groups h\<rparr>, s1) \<and>
    Sp_sessions s1 = Sp_sessions s \<and> sp_unread s1 mbox = bs"
proof -
  have n: "nat (mh_num_groups h * 32) = length gs" using assms(1) by linarith
  have "length gs \<le> length (sp_unread s mbox)" using assms(4) by simp
  from recv_all_spec [OF this] obtain s1 where
    s1: "recv_all mbox (length gs) s = (True, gs, s1)" "consumed mbox (length gs) s s1" using assms(4) by auto
  have "put_bytes (o_groups out) 0 gs = Some (gs @ drop (length gs) (o_groups out))"
    using assms(3) by (simp add: put_bytes_def)
  then show ?thesis using s1 n assms(2,4) consumed_fields(1,2) [OF s1(2)]
    by (simp add: read_groups_array_def MAX_GROUP_NAME_eq)
qed

lemma recv_data_spec:
  assumes "scat_ok es" and "int (length bs) \<le> sum_list (map se_len es)" and "sp_unread s mbox = bs @ rest"
  shows "\<exists>es' s1. recv_data mbox (int (length bs)) es s = Some (True, es', s1) \<and> take (length bs) (contents es') = bs \<and>
    Sp_sessions s1 = Sp_sessions s \<and> sp_unread s1 mbox = rest"
proof -
  have e: "takeWhile (\<lambda>e. se_len e = 0) es = []" using assms(1) by (cases es) auto
  obtain es' s1 where r: "recv_scat mbox (int (length bs)) es s = Some (True, es', s1)" "consumed mbox (length bs) s s1"
      "take (length bs) (contents es') = take (length bs) (sp_unread s mbox)"
    using recv_scat_spec [OF assms(1) _ assms(2), of s mbox] assms(3) by auto
  show ?thesis using r e assms(3) consumed_fields(1,2) [OF r(2)] by (simp add: recv_data_def)
qed

lemma find_index_map: "find_index P (map f xs) = find_index (\<lambda>x. P (f x)) xs"
  by (induction xs) auto

lemma usable_upd:
  assumes "sp_usable mbox ses s" and "\<And>x. sp_mbox (f x) = sp_mbox x" and "\<And>x. sp_state (f x) = sp_state x"
  shows "sp_usable mbox ses (upd_sp_session ses f s)"
proof -
  have i: "ses < length (Sp_sessions s)" by (rule usable_index [OF assms(1)])
  have "map sp_mbox (Sp_sessions (upd_sp_session ses f s)) = map sp_mbox (Sp_sessions s)"
    by (simp add: upd_sp_session_def map_update assms(2)) (metis list_update_id nth_map i)
  then have "SP_get_session mbox (upd_sp_session ses f s) = SP_get_session mbox s"
    by (simp add: SP_get_session_def find_index_map [of "\<lambda>m. m = mbox" sp_mbox, symmetric])
  then show ?thesis using assms(1,3) i by (simp add: sp_usable_def upd_sp_session_def)
qed

lemma usable_same: "Sp_sessions s' = Sp_sessions s \<Longrightarrow> sp_usable mbox ses s' = sp_usable mbox ses s"
  by (simp add: sp_usable_def SP_get_session_def)

lemma forget_spec:
  assumes "sp_usable mbox ses s"
  shows "\<not> recv_message_saved (Sp_sessions (forget_head ses s) ! ses)" "sp_unread (forget_head ses s) = sp_unread s"
    "sp_usable mbox ses (forget_head ses s)"
  using usable_index [OF assms] usable_upd [OF assms] assms by (simp_all add: forget_head_def) (simp_all add: upd_sp_session_def)

lemma save_spec:
  assumes "sp_usable mbox ses s" and "recv_message_saved (Sp_sessions s ! ses) \<Longrightarrow> recv_saved_head (Sp_sessions s ! ses) = h"
    and "sp_unread s mbox = bs"
  shows "awaits mbox ses h bs (save_head ses h s)" "sp_usable mbox ses (save_head ses h s)"
  using usable_index [OF assms(1)] usable_upd [OF assms(1)] assms by (simp_all add: save_head_def) (simp_all add: awaits_def upd_sp_session_def)

lemma deliver_spec:
  assumes u: "sp_usable mbox ses s" and p: "parts_of h old gs bs" and q: "sp_unread s mbox = old @ gs @ bs @ rest"
    and o: "scat_ok (o_scat out)" "length gs \<le> length (o_groups out)"
    and f: "mh_num_groups h \<le> max_groups" "mh_data_len h \<le> sum_list (map se_len (o_scat out))"
  shows "\<exists>out' s'. deliver_parts mbox ses h max_groups (sum_list (map se_len (o_scat out))) out s = Some (mh_data_len h, out', s') \<and>
    received_in h old gs bs out' \<and> sp_unread s' mbox = rest \<and> \<not> recv_message_saved (Sp_sessions s' ! ses) \<and> sp_usable mbox ses s'"
proof -
  note l = p [unfolded parts_of_def]
  define out0 where "out0 = out\<lparr>o_mess_type := (if has_hint h then hint_type h else - 1),
    o_mismatch := (if has_hint h \<and> \<not> Same_endian (mh_hint h) then 1 else 0),
    o_sender := strncpy MAX_GROUP_NAME (mh_private_group_name h)\<rparr>"
  have o0: "o_groups out0 = o_groups out" "o_scat out0 = o_scat out" by (simp_all add: out0_def)
  obtain t s1 where s1: "read_old_type mbox h s = Inl (t, s1)" "Sp_sessions s1 = Sp_sessions s" "sp_unread s1 mbox = gs @ bs @ rest"
      "has (mh_type h) REJECT_MESS \<longrightarrow> t = (if Same_endian (mh_type h) then word32 old else Flip_int32 (word32 old))"
    using old_type_spec [OF _ q] l by blast
  define out1 where "out1 = out0\<lparr>o_groups := gs @ drop (length gs) (o_groups out0), o_num_groups := mh_num_groups h\<rparr>"
  have o1: "o_scat out1 = o_scat out" by (simp add: out1_def o0)
  obtain s2 where s2: "read_groups_array mbox h max_groups out0 s1 = Some (True, out1, s2)"
      "Sp_sessions s2 = Sp_sessions s1" "sp_unread s2 mbox = bs @ rest"
    using groups_array_spec [of gs h max_groups out0, OF _ f(1) _ s1(3)] l o(2) by (auto simp: out1_def o0)
  have "int (length bs) \<le> sum_list (map se_len (o_scat out))" using l f(2) by simp
  from recv_data_spec [OF o(1) this s2(3)] l obtain es s3 where
    s3: "recv_data mbox (mh_data_len h) (o_scat out) s2 = Some (True, es, s3)" "take (length bs) (contents es) = bs"
      "Sp_sessions s3 = Sp_sessions s2" "sp_unread s3 mbox = rest" by auto
  have ss: "Sp_sessions s3 = Sp_sessions s" using s1(2) s2(2) s3(3) by simp
  have u3: "sp_usable mbox ses s3" using u usable_same [OF ss] by simp
  show ?thesis
    unfolding deliver_parts_def Let_def out0_def [symmetric] using s1(1) s2(1) s3(1) l f o1
    by (auto simp: received_in_def forget_spec [OF u3] s3(2,4) s1(4) out1_def out0_def)
qed

definition room_for :: "message_header \<Rightarrow> int \<Rightarrow> sp_out \<Rightarrow> bool" where
  "room_for h max_groups out \<longleftrightarrow> mh_num_groups h \<le> max_groups \<and> mh_data_len h \<le> sum_list (map se_len (o_scat out))"

lemma scat_ok_no_negative: "scat_ok es \<Longrightarrow> \<not> list_ex (\<lambda>e. se_len e < 0) es"
  by (induction es) auto

lemma SP_scat_receive_core:
  assumes u: "sp_usable mbox ses s" and a: "awaits mbox ses h (old @ gs @ bs @ rest) s" and p: "parts_of h old gs bs"
    and d: "\<not> has (o_service out) DROP_RECV" and o: "scat_ok (o_scat out)" and g: "32 * max_groups \<le> int (length (o_groups out))"
  shows "\<exists>out' s'. sp_usable mbox ses s' \<and>
    (if room_for h max_groups out
     then SP_scat_receive mbox max_groups out s = Some (mh_data_len h, out', s') \<and> received_in h old gs bs out' \<and>
       sp_unread s' mbox = rest \<and> \<not> recv_message_saved (Sp_sessions s' ! ses)
     else SP_scat_receive mbox max_groups out s =
         Some (if mh_num_groups h > max_groups \<and> mh_num_groups h \<noteq> 0 then GROUPS_TOO_SHORT else BUFFER_TOO_SHORT, out', s') \<and>
       asked_for h max_groups (sum_list (map se_len (o_scat out))) out' \<and> awaits mbox ses h (old @ gs @ bs @ rest) s')"
proof -
  obtain s1 where s1: "saved_or_read mbox ses s = Inl (h, s1)" "Sp_sessions s1 = Sp_sessions s"
      "sp_unread s1 mbox = old @ gs @ bs @ rest" using awaits_read [OF a] by blast
  have u1: "sp_usable mbox ses s1" using u usable_same [OF s1(2)] by simp
  have pos: "0 \<le> mh_num_groups h" "0 \<le> mh_data_len h" using p by (auto simp: parts_of_def)
  have start: "SP_get_session mbox s = Some ses" "sp_state (Sp_sessions s ! ses) = SESS_ACTIVE"
    using u by (simp_all add: sp_usable_def)
  show ?thesis
  proof (cases "room_for h max_groups out")
    case True
    then have f: "mh_num_groups h \<le> max_groups" "mh_data_len h \<le> sum_list (map se_len (o_scat out))" by (simp_all add: room_for_def)
    have "length gs \<le> length (o_groups out)" using p f(1) g by (simp add: parts_of_def)
    from deliver_spec [OF u1 p s1(3) o this f] obtain out' s' where
      r: "deliver_parts mbox ses h max_groups (sum_list (map se_len (o_scat out))) out s1 = Some (mh_data_len h, out', s')"
        "received_in h old gs bs out'" "sp_unread s' mbox = rest" "\<not> recv_message_saved (Sp_sessions s' ! ses)"
        "sp_usable mbox ses s'" by blast
    have "SP_scat_receive mbox max_groups out s = Some (mh_data_len h, out', s')"
      using f pos d start s1(1) scat_ok_no_negative [OF o] r(1) by (simp add: SP_scat_receive_def)
    then show ?thesis using True r(2-5) by auto
  next
    case False
    then have "mh_num_groups h > max_groups \<or> mh_data_len h > sum_list (map se_len (o_scat out))" by (auto simp: room_for_def)
    moreover have "recv_message_saved (Sp_sessions s1 ! ses) \<Longrightarrow> recv_saved_head (Sp_sessions s1 ! ses) = h"
      using a s1(2) by (simp add: awaits_def)
    ultimately show ?thesis
      using False pos d start s1(1) scat_ok_no_negative [OF o] save_spec [OF u1 _ s1(3)]
      by (simp add: SP_scat_receive_def too_short_def asked_for_def)
  qed
qed

definition sample_head :: message_header where
  "sample_head = \<lparr>mh_type = 0x80000084, mh_private_group_name = chars ''#bob#mach'' @ replicate 23 0, mh_num_groups = 1,
     mh_hint = 0x80000700, mh_data_len = 3\<rparr>"

definition sample_groups :: "byte list" where "sample_groups = chars ''flowers'' @ replicate 25 0"

definition sample_lib :: sp_lib where
  "sample_lib = \<lparr>Sp_sessions = [\<lparr>sp_mbox = 5, sp_state = SESS_ACTIVE, sp_private_group = chars ''#amy#mach'' @ replicate 23 0,
       recv_saved_head = sample_head, recv_message_saved = False\<rparr>],
     sp_send_ret = (\<lambda>_ _ n. int (min n 7)), sp_sends = 0, sp_sent = (\<lambda>_. []), sp_piece = (\<lambda>k. 10 + k), sp_recvs = 0,
     sp_unread = (\<lambda>m. if m = 5 then enc_message_header sample_head @ sample_groups @ [1, 2, 3] else []), sp_closed = []\<rparr>"

definition sample_out :: sp_out where
  "sample_out = \<lparr>o_service = 0, o_sender = [], o_num_groups = 0, o_groups = replicate 64 0, o_mess_type = 0, o_mismatch = 0,
     o_scat = [\<lparr>se_buf = [9, 9], se_len = 2\<rparr>, \<lparr>se_buf = [9, 9, 9], se_len = 3\<rparr>]\<rparr>"

lemma sample_facts:
  "sp_usable 5 0 sample_lib" "wf_message_header sample_head" "own_form sample_head = sample_head"
  "awaits 5 0 sample_head ([] @ sample_groups @ [1, 2, 3] @ []) sample_lib" "parts_of sample_head [] sample_groups [1, 2, 3]"
  "room_for sample_head 2 sample_out" "\<not> has (o_service sample_out) DROP_RECV" "scat_ok (o_scat sample_out)"
proof -
  show w: "wf_message_header sample_head" by code_simp
  show o: "own_form sample_head = sample_head" by (simp add: own_form_def) code_simp
  show "sp_usable 5 0 sample_lib" by (simp add: sp_usable_def SP_get_session_def sample_lib_def)
  show "awaits 5 0 sample_head ([] @ sample_groups @ [1, 2, 3] @ []) sample_lib"
    using w o by (auto simp: awaits_def sample_lib_def)
  show "parts_of sample_head [] sample_groups [1, 2, 3]" by code_simp
  show "room_for sample_head 2 sample_out" by code_simp
  show "\<not> has (o_service sample_out) DROP_RECV" by code_simp
  show "scat_ok (o_scat sample_out)" by code_simp
qed

text \<open>
  C36: Receiving in the client library.  For a session in good order whose next message has the header \<open>h\<close> (already
  read by an earlier call or not, of either byte order, in pieces of any sizes), a receive without
  \<open>DROP_RECV\<close> does one of two things.  When the groups and the data fit what the caller passes, it returns the
  number of data bytes and hands over the sender, the groups, the data and the service type (for a rejected
  message the type it had), takes exactly the message from the socket and forgets the header.  Otherwise it says which
  buffer was too small and what is needed, and the same message still waits.
\<close>

theorem Receive_gets_message:
  assumes "sp_usable mbox ses s" and "awaits mbox ses h (old @ gs @ bs @ rest) s" and "parts_of h old gs bs"
    and "\<not> has (o_service out) DROP_RECV" and "scat_ok (o_scat out)" and "32 * max_groups \<le> int (length (o_groups out))"
  shows "\<exists>out' s'. sp_usable mbox ses s' \<and>
    (if room_for h max_groups out
     then SP_scat_receive mbox max_groups out s = Some (mh_data_len h, out', s') \<and> received_in h old gs bs out' \<and>
       sp_unread s' mbox = rest \<and> \<not> recv_message_saved (Sp_sessions s' ! ses)
     else SP_scat_receive mbox max_groups out s =
         Some (if mh_num_groups h > max_groups \<and> mh_num_groups h \<noteq> 0 then GROUPS_TOO_SHORT else BUFFER_TOO_SHORT, out', s') \<and>
       asked_for h max_groups (sum_list (map se_len (o_scat out))) out' \<and> awaits mbox ses h (old @ gs @ bs @ rest) s')"
  by (rule SP_scat_receive_core [OF assms])

theorem Receive_gets_message_witness:
  "\<exists>out' s'. SP_scat_receive 5 2 sample_out sample_lib = Some (3, out', s') \<and> received_in sample_head [] sample_groups [1, 2, 3] out' \<and>
     sp_unread s' 5 = [] \<and> sp_usable 5 0 s'"
proof -
  have "32 * 2 \<le> int (length (o_groups sample_out))" "mh_data_len sample_head = 3" by (simp_all add: sample_out_def sample_head_def)
  with Receive_gets_message [OF sample_facts(1,4,5,7,8), of 2] sample_facts(6) show ?thesis by auto
qed

end
