(* ===== verification/Sp_multicast.thy ===== *)
theory Sp_multicast
  imports Sp_receive Client_delivery
begin

text \<open>
  What a client multicasts is what its daemon accepts: the bytes \<open>SP_multigroup_scat_multicast\<close> sends are a header
  that \<open>Sess_validate_read_header\<close> of the daemon lets pass, and behind it as many bytes as the header says.
\<close>

section \<open>Sending to the end\<close>

text \<open>A socket that takes at least a byte of what it is given, and no more than that.\<close>

definition sp_sane :: "int \<Rightarrow> sp_lib \<Rightarrow> bool" where
  "sp_sane mbox s \<longleftrightarrow> (\<forall>k n. 0 < n \<longrightarrow> 0 < sp_send_ret s k mbox n \<and> sp_send_ret s k mbox n \<le> int n)"

definition sp_wrote :: "int \<Rightarrow> byte list \<Rightarrow> sp_lib \<Rightarrow> sp_lib \<Rightarrow> bool" where
  "sp_wrote mbox bs s s' \<longleftrightarrow> (\<exists>k. s' = s\<lparr>sp_sends := k, sp_sent := (sp_sent s)(mbox := sp_sent s mbox @ bs)\<rparr>)"

lemma wrote_refl: "sp_wrote mbox [] s s"
  by (auto simp: sp_wrote_def intro!: exI [of _ "sp_sends s"])

lemma wrote_trans: "sp_wrote mbox a s t \<Longrightarrow> sp_wrote mbox b t u \<Longrightarrow> sp_wrote mbox (a @ b) s u"
  by (auto simp: sp_wrote_def)

lemma wrote_sane: "sp_wrote mbox a s t \<Longrightarrow> sp_sane m s \<Longrightarrow> sp_sane m t"
  by (auto simp: sp_wrote_def sp_sane_def)

lemma send_loop_spec:
  "sp_sane mbox s \<Longrightarrow> \<exists>s'. send_loop strict mbox bs s = Some (True, s') \<and> sp_wrote mbox bs s s'"
proof (induction "length bs" arbitrary: bs s rule: less_induct)
  case less
  show ?case
  proof (cases "bs = []")
    case True
    then show ?thesis using wrote_refl by (auto simp: send_loop.simps)
  next
    case False
    obtain r s1 where r: "sp_send mbox bs s = (r, s1)" by (cases "sp_send mbox bs s")
    have pos: "0 < r" "r \<le> int (length bs)" using less.prems False r by (auto simp: sp_sane_def sp_send_def Let_def)
    have w: "sp_wrote mbox (take (nat r) bs) s s1" using r by (auto simp: sp_send_def sp_wrote_def Let_def)
    have "length (drop (nat r) bs) < length bs" using pos False by simp
    from less.hyps [OF this wrote_sane [OF w less.prems]] obtain s' where
      s': "send_loop strict mbox (drop (nat r) bs) s1 = Some (True, s')" "sp_wrote mbox (drop (nat r) bs) s1 s'" by blast
    have "send_loop strict mbox bs s = Some (True, s')"
      using False r pos(1) s'(1) by (subst send_loop.simps) simp
    then show ?thesis using wrote_trans [OF w s'(2)] by auto
  qed
qed

definition can_send :: "scat_element list \<Rightarrow> bool" where
  "can_send es \<longleftrightarrow> list_all (\<lambda>e. 0 \<le> se_len e \<and> se_len e \<le> int (length (se_buf e))) es"

lemma can_send_simps [simp]:
  "can_send []" "can_send (e # es) \<longleftrightarrow> 0 \<le> se_len e \<and> se_len e \<le> int (length (se_buf e)) \<and> can_send es"
  by (simp_all add: can_send_def)

lemma can_send_no_negative: "can_send es \<Longrightarrow> \<not> list_ex (\<lambda>e. se_len e < 0) es"
  by (induction es) auto

lemma can_send_length: "can_send es \<Longrightarrow> int (length (contents es)) = sum_list (map se_len es)"
  by (induction es) (auto simp: contents_def used_def)

lemma send_scat_spec:
  "sp_sane mbox s \<Longrightarrow> can_send es \<Longrightarrow> \<exists>s'. send_scat mbox es s = Some (True, s') \<and> sp_wrote mbox (contents es) s s'"
proof (induction es arbitrary: s)
  case Nil
  then show ?case using wrote_refl by (auto simp: contents_def)
next
  case (Cons e es)
  have g: "get_bytes (se_buf e) 0 (se_len e) = Some (used e)" using Cons.prems(2) by (simp add: get_bytes_def used_def)
  obtain s1 where s1: "send_loop False mbox (used e) s = Some (True, s1)" "sp_wrote mbox (used e) s s1"
    using send_loop_spec [OF Cons.prems(1)] by blast
  obtain s' where s': "send_scat mbox es s1 = Some (True, s')" "sp_wrote mbox (contents es) s1 s'"
    using Cons.IH [OF wrote_sane [OF s1(2) Cons.prems(1)]] Cons.prems(2) by auto
  show ?case using g s1(1) s'(1) wrote_trans [OF s1(2) s'(2)] by (simp add: contents_def)
qed

lemma body_len: "MAX_MESSAGE_BODY_LEN = 144000"
  by code_simp

lemma multicast_sends:
  assumes u: "sp_usable mbox ses s" and sane: "sp_sane mbox s" and e: "can_send es"
    and r: "Is_regular_mess t" and name: "strcpy MAX_GROUP_NAME (sp_private_group (Sp_sessions s ! ses)) = Some nm"
    and n: "0 \<le> n" "n \<le> 100" "32 * n \<le> int (length groups)" and len: "sum_list (map se_len es) + 32 * n \<le> 144000"
  shows "\<exists>s'. SP_multigroup_scat_multicast mbox t n groups mess_type es s = Some (sum_list (map se_len es), s') \<and>
    sp_wrote mbox (enc_message_header (sp_header t nm n mess_type (sum_list (map se_len es))) @ take (nat (32 * n)) groups @ contents es) s s'"
proof -
  define hd where "hd = enc_message_header (sp_header t nm n mess_type (sum_list (map se_len es))) @ take (nat (32 * n)) groups"
  obtain s1 where s1: "send_loop True mbox hd s = Some (True, s1)" "sp_wrote mbox hd s s1"
    using send_loop_spec [OF sane] by blast
  obtain s2 where s2: "send_scat mbox es s1 = Some (True, s2)" "sp_wrote mbox (contents es) s1 s2"
    using send_scat_spec [OF wrote_sane [OF s1(2) sane] e] by blast
  have g: "get_bytes groups 0 (32 * n) = Some (take (nat (32 * n)) groups)" using n by (simp add: get_bytes_def)
  have ok: "SP_get_session mbox s = Some ses" "sp_state (Sp_sessions s ! ses) = SESS_ACTIVE" using u by (simp_all add: sp_usable_def)
  have "SP_multigroup_scat_multicast mbox t n groups mess_type es s = Some (sum_list (map se_len es), s2)"
    using ok r name n len g s1(1) s2(1) can_send_no_negative [OF e]
    by (simp add: SP_multigroup_scat_multicast_def SP_internal_multicast_def MAX_GROUP_NAME_eq sizeof_message_header_def
        body_len hd_def Let_def mult.commute)
  then show ?thesis using wrote_trans [OF s1(2) s2(2)] by (simp add: hd_def)
qed

section \<open>The daemon's checks\<close>

text \<open>
  The name the daemon gave the session: its private name and the name of the daemon.
\<close>

definition known_as :: "byte list \<Rightarrow> 'a sess_layer_scheme \<Rightarrow> nat \<Rightarrow> bool" where
  "known_as name d i \<longleftrightarrow> length (cstr name) < MAX_GROUP_NAME \<and>
     (case G_private_to_names (strncpy MAX_GROUP_NAME name) of Some (Some (priv, proc)) \<Rightarrow>
        take MAX_PROC_NAME proc = take MAX_PROC_NAME (chars (p_name (Sess_My d))) \<and>
        take MAX_PRIVATE_NAME priv = take MAX_PRIVATE_NAME (cstr (ss_name (Sessions d i)))
      | _ \<Rightarrow> False)"

text \<open>One service, and neither a join, a leave nor a disconnect.\<close>

definition one_service :: "int32u \<Rightarrow> bool" where
  "one_service t \<longleftrightarrow> length (filter (bit t) [0..<6]) = 1 \<and> (\<forall>i \<in> {16, 17, 18, 22}. \<not> bit t i)"

lemma bits_of_type: "i \<noteq> 7 \<Longrightarrow> i \<noteq> 31 \<Longrightarrow> bit (Set_endian t) i = bit t i"
  by (auto simp: Set_endian_def bit_simps bit_ENDIAN_TYPE dest: bit_imp_le_length)

lemma Set_endian_twice: "Set_endian (Set_endian t) = Set_endian t"
  by (rule bit_word_eqI) (auto simp: Set_endian_def bit_simps bit_ENDIAN_TYPE)

lemma hint_legal: "legal_hint (Set_endian (w AND 0x00ffff00))"
proof -
  have m: "(0x00ffff00 :: int32u) = push_bit 8 (mask 16)" "(0x80000080 :: int32u) = ENDIAN_TYPE"
    by (simp_all add: mask_eq_exp_minus_1 push_bit_eq_mult ENDIAN_TYPE_def)
  show ?thesis unfolding legal_hint_def m
    by (rule bit_word_eqI) (auto simp: Set_endian_def bit_simps bit_ENDIAN_TYPE)
qed

lemma one_service_regular:
  assumes "one_service t"
  shows "Is_regular_mess t"
proof -
  have "filter (bit t) [0..<6] \<noteq> []" using assms by (auto simp: one_service_def)
  then obtain i where i: "i < 6" "bit t i" by (auto simp: filter_empty_conv)
  have rm: "REGULAR_MESS = mask 6" by (simp add: REGULAR_MESS_def mask_eq_exp_minus_1)
  have "bit (t AND REGULAR_MESS) i" unfolding rm using i by (simp add: bit_simps del: mask_numeral)
  then have "has t REGULAR_MESS" by (auto simp: has_def)
  moreover have "\<not> has t REJECT_MESS" using assms and_bit [of t 22] by (simp add: has_def REJECT_MESS_def one_service_def)
  ultimately show ?thesis by (simp add: Is_regular_mess_def)
qed

lemma padded_end:
  assumes "length (cstr nm) < 32"
  shows "(strncpy 32 nm)[31 := 0] = strncpy 32 nm"
proof -
  have "strncpy 32 nm ! 31 = 0" using assms by (simp add: strncpy_def nth_append)
  then show ?thesis by (metis list_update_id)
qed

lemma header_accepted:
  fixes mess_type :: int
  assumes k: "known_as name d i" and t: "one_service t" and n: "0 \<le> n" "n \<le> 100" and m: "0 \<le> m" "m + 32 * n \<le> 143952"
  defines "h \<equiv> sp_header t (strncpy MAX_GROUP_NAME name) n mess_type m"
  shows "accepted d i (enc_message_header h) = Some h" "wf_message_header h"
proof -
  show wf: "wf_message_header h"
    using n m by (simp add: h_def sp_header_def wf_message_header_def strncpy_def MAX_GROUP_NAME_eq int32_range_def)
  have own: "own_header h = h" by (simp add: own_header_def h_def sp_header_def Set_endian_twice)
  have d: "dec_message_header (enc_message_header h) = h" using dec_enc_message_header [OF wf, of "[]"] by simp
  have "filter (bit (Set_endian t)) [0..<6] = filter (bit t) [0..<6]"
    by (rule filter_cong [OF refl]) (simp add: bits_of_type)
  then have f1: "length (filter (bit (Set_endian t)) [0..<6]) = 1" using t by (simp add: one_service_def)
  have f2: "filter (bit (Set_endian t)) [16..<19] = []"
    using t by (simp add: one_service_def bits_of_type upt_rec)
  obtain priv pn where names: "G_private_to_names (strncpy MAX_GROUP_NAME name) = Some (Some (priv, pn))"
      "take MAX_PROC_NAME pn = take MAX_PROC_NAME (chars (p_name (Sess_My d)))"
      "take MAX_PRIVATE_NAME priv = take MAX_PRIVATE_NAME (cstr (ss_name (Sessions d i)))"
    using k by (auto simp: known_as_def split: option.splits)
  have nm: "(mh_private_group_name h)[MAX_GROUP_NAME - 1 := 0] = strncpy MAX_GROUP_NAME name"
    using padded_end [of name] k by (simp add: h_def sp_header_def known_as_def MAX_GROUP_NAME_eq)
  have "Sess_validate_read_header i h d = Some (Some h)"
    using n m f1 f2 names hint_legal nm
    by (simp add: Sess_validate_read_header_def bits_counted MAX_GROUPS_PER_MESSAGE_def body_len sizeof_message_header_def
        MAX_GROUP_NAME_eq h_def sp_header_def Let_def)
  then show "accepted d i (enc_message_header h) = Some h"
    using own d length_enc_message_header [OF wf] by (simp add: accepted_def)
qed

lemma Multicast_core:
  assumes u: "sp_usable mbox ses s" and sane: "sp_sane mbox s" and e: "can_send es" and t: "one_service t"
    and k: "known_as (sp_private_group (Sp_sessions s ! ses)) d i"
    and n: "0 \<le> n" "n \<le> 100" "32 * n \<le> int (length groups)" and len: "int (length (contents es)) + 32 * n \<le> 143952"
  shows "\<exists>s' hb h. SP_multigroup_scat_multicast mbox t n groups mess_type es s = Some (int (length (contents es)), s') \<and>
    sp_wrote mbox (hb @ take (nat (32 * n)) groups @ contents es) s s' \<and> accepted d i hb = Some h \<and>
    total_size h = int (length (hb @ take (nat (32 * n)) groups @ contents es)) \<and> mh_num_groups h = n \<and> mh_type h = Set_endian t"
proof -
  let ?name = "sp_private_group (Sp_sessions s ! ses)" and ?m = "int (length (contents es))"
  have m: "sum_list (map se_len es) = ?m" using can_send_length [OF e] by simp
  let ?h = "sp_header t (strncpy MAX_GROUP_NAME ?name) n mess_type ?m"
  have c: "strcpy MAX_GROUP_NAME ?name = Some (strncpy MAX_GROUP_NAME ?name)" using k by (simp add: strcpy_def known_as_def)
  have l: "sum_list (map se_len es) + 32 * n \<le> 144000" using len m by simp
  have ml: "0 \<le> ?m" by simp
  note acc = header_accepted [OF k t n(1,2) ml len, of mess_type]
  obtain s' where s': "SP_multigroup_scat_multicast mbox t n groups mess_type es s = Some (?m, s')"
      "sp_wrote mbox (enc_message_header ?h @ take (nat (32 * n)) groups @ contents es) s s'"
    using multicast_sends [OF u sane e one_service_regular [OF t] c n l, of mess_type] unfolding m by blast
  have "total_size ?h = int (length (enc_message_header ?h @ take (nat (32 * n)) groups @ contents es))"
    using length_enc_message_header [OF acc(2)] n
    by (simp add: total_size_def body_size_def sp_header_def MAX_GROUP_NAME_eq sizeof_message_header_def)
  then show ?thesis using s' acc(1) by (intro exI [of _ s'] exI [of _ "enc_message_header ?h"] exI [of _ ?h]) (simp add: sp_header_def)
qed

text \<open>
  Between the two limits: the library lets a message pass that the daemon refuses, and ends the session for.
\<close>

lemma Too_long_for_daemon:
  assumes "143952 < body_size h" and "length (mh_private_group_name h) = 32"
  shows "Sess_validate_read_header i h d = Some None"
proof (rule ccontr)
  assume "Sess_validate_read_header i h d \<noteq> Some None"
  then obtain h1 where "Sess_validate_read_header i h d = Some (Some h1)" using validate_total [OF assms(2), of i d] by fastforce
  from validate_ok(5) [OF this] show False using assms(1) by simp
qed

text \<open>
  C37: From the library to the daemon.  A multicast of one service, with at most 100 groups and a body of at most
  143952 bytes, over a socket that takes its bytes in any pieces, returns the number of data bytes; it has
  written a header, the groups and the data, and the daemon that gave the session its name accepts the header, with
  a size that is exactly the number of bytes that were written.
\<close>

theorem Multicast_reaches_daemon:
  assumes "sp_usable mbox ses s" and "sp_sane mbox s" and "can_send es" and "one_service t"
    and "known_as (sp_private_group (Sp_sessions s ! ses)) d i"
    and "0 \<le> n" "n \<le> 100" "32 * n \<le> int (length groups)" and "int (length (contents es)) + 32 * n \<le> 143952"
  shows "\<exists>s' hb h. SP_multigroup_scat_multicast mbox t n groups mess_type es s = Some (int (length (contents es)), s') \<and>
    sp_wrote mbox (hb @ take (nat (32 * n)) groups @ contents es) s s' \<and> accepted d i hb = Some h \<and>
    total_size h = int (length (hb @ take (nat (32 * n)) groups @ contents es)) \<and> mh_num_groups h = n \<and> mh_type h = Set_endian t"
  by (rule Multicast_core [OF assms])

text \<open>The client of the sample daemon sends three bytes to one group.\<close>

definition client_lib :: sp_lib where
  "client_lib = sample_lib\<lparr>Sp_sessions := [(Sp_sessions sample_lib ! 0)\<lparr>sp_private_group := client_x\<rparr>]\<rparr>"

theorem Multicast_reaches_daemon_witness:
  "\<exists>s' hb h i. SP_multigroup_scat_multicast 5 2 1 sample_groups 7 [\<lparr>se_buf = [1, 2, 3], se_len = 3\<rparr>] client_lib = Some (3, s') \<and>
     sp_sent s' 5 = hb @ sample_groups @ [1, 2, 3] \<and> accepted (sample_server 0) i hb = Some h \<and> total_size h = 83"
proof -
  let ?s = "sample_server 0" and ?es = "[\<lparr>se_buf = [1, 2, 3 :: byte], se_len = 3\<rparr>]"
  obtain n where n: "name_at one_client n = [97]" using one_client_ok by blast
  have nm: "cstr (ss_name (Sessions ?s n)) = [97]" using n by (simp add: sample_table name_at_def cstr_def)
  have "Sess_My ?s = named_proc 0" by (simp add: sample_server_def sess_table.defs sess_layer.defs)
  moreover have "chars ''x'' = [120]" by code_simp
  ultimately have pn: "chars (p_name (Sess_My ?s)) = [120]" by (simp add: named_proc_def)
  have "length (cstr client_x) < MAX_GROUP_NAME" "strncpy MAX_GROUP_NAME client_x = client_x" by code_simp+
  then have k: "known_as client_x ?s n" using nm pn names_of_clients(1) by (simp add: known_as_def client_x_def)
  have u: "sp_usable 5 0 client_lib" by (simp add: sp_usable_def SP_get_session_def client_lib_def sample_lib_def)
  have sane: "sp_sane 5 client_lib" by (simp add: sp_sane_def client_lib_def sample_lib_def)
  have pg: "sp_private_group (Sp_sessions client_lib ! 0) = client_x" by (simp add: client_lib_def)
  have t: "one_service 2" by code_simp
  have g: "length sample_groups = 32" by code_simp
  have c: "contents ?es = [1, 2, 3]" by (simp add: contents_def used_def)
  have sb: "sp_sent client_lib 5 = []" by (simp add: client_lib_def sample_lib_def)
  have kn: "known_as (sp_private_group (Sp_sessions client_lib ! 0)) ?s n" using k pg by simp
  have len: "32 * 1 \<le> int (length sample_groups)" "int (length (contents ?es)) + 32 * 1 \<le> 143952" using g c by simp_all
  have e: "can_send ?es" by simp
  from Multicast_reaches_daemon [OF u sane e t kn _ _ len, of 7] obtain s' hb h where
    s': "SP_multigroup_scat_multicast 5 2 1 sample_groups 7 ?es client_lib = Some (3, s')"
      "sp_wrote 5 (hb @ sample_groups @ [1, 2, 3]) client_lib s'" "accepted ?s n hb = Some h"
      "total_size h = int (length (hb @ sample_groups @ [1, 2, 3 :: byte]))"
    using g c by auto
  have "length hb = 48" using s'(3) by (auto simp: accepted_def split: if_splits)
  moreover have "sp_sent s' 5 = hb @ sample_groups @ [1, 2, 3]" using s'(2) sb by (auto simp: sp_wrote_def)
  ultimately show ?thesis using s'(1,3,4) g by (intro exI [of _ s'] exI [of _ hb] exI [of _ h] exI [of _ n]) simp
qed

end
