(* ===== verification/Acm.thy ===== *)
theory Acm
  imports Session_deliver "HOL-Library.Signed_Division"
begin

text \<open>
  Access control and authentication: the tables of \<open>daemon/acm.c\<close>, and the methods and the policy that
  come with the daemon (\<open>auth-null.c\<close>, \<open>auth-ip.c\<close>, \<open>acp-permit.c\<close>).  A function pointer is the name
  of the function; a method answers at once by calling back into the session layer, so it is its
  decision here.
\<close>

section \<open>Data\<close>

definition MAX_AUTH_METHODS :: nat where "MAX_AUTH_METHODS = 3"
definition MAX_AUTH_NAME :: nat where "MAX_AUTH_NAME = 30"

datatype auth_ops = Null_ops | IP_ops

record auth_info =
  ai_name :: "byte list"
  ai_enabled :: bool
  ai_required :: bool
  ai_ops :: auth_ops

record acp_info =
  ac_name :: "byte list"
  ac_ops :: acp_ops

record ip_rule =
  network_address :: int32u
  prefix_length :: int

record acm_state =
  Auth_Methods :: "auth_info list"
  ACP_Methods :: "acp_info list"
  AccessControlPolicy :: int
  Allow_Rules :: "ip_rule list"
  IP_File_Loaded :: bool

record session_auth_info =
  sa_mbox :: int
  num_required_auths :: nat
  completed_required_auths :: nat
  required_auth_methods :: "nat list" \<comment> \<open>the entries that are set\<close>
  required_auth_results :: "bool list"

section \<open>The tables\<close>

text \<open>\<open>strncmp( a, b, MAX_AUTH_NAME ) == 0\<close>\<close>

definition same_auth_name :: "byte list \<Rightarrow> byte list \<Rightarrow> bool" where
  "same_auth_name a b \<longleftrightarrow> take MAX_AUTH_NAME (cstr a) = take MAX_AUTH_NAME (cstr b)"

definition acm_authname_to_type :: "byte list \<Rightarrow> 'a acm_state_scheme \<Rightarrow> nat option" where
  "acm_authname_to_type nm a = find_index (\<lambda>m. same_auth_name (ai_name m) nm) (Auth_Methods a)"

definition acm_acpname_to_type :: "byte list \<Rightarrow> 'a acm_state_scheme \<Rightarrow> nat option" where
  "acm_acpname_to_type nm a = find_index (\<lambda>m. same_auth_name (ac_name m) nm) (ACP_Methods a)"

definition set_auth :: "byte list \<Rightarrow> (auth_info \<Rightarrow> auth_info) \<Rightarrow> 'a acm_state_scheme \<Rightarrow> bool \<times> 'a acm_state_scheme" where
  "set_auth nm f a = (case acm_authname_to_type nm a of None \<Rightarrow> (False, a)
     | Some i \<Rightarrow> (True, a\<lparr>Auth_Methods := (Auth_Methods a)[i := f (Auth_Methods a ! i)]\<rparr>))"

definition Acm_auth_set_enabled :: "byte list \<Rightarrow> 'a acm_state_scheme \<Rightarrow> bool \<times> 'a acm_state_scheme" where
  "Acm_auth_set_enabled nm = set_auth nm (\<lambda>m. m\<lparr>ai_enabled := True\<rparr>)"

definition Acm_auth_set_disabled :: "byte list \<Rightarrow> 'a acm_state_scheme \<Rightarrow> bool \<times> 'a acm_state_scheme" where
  "Acm_auth_set_disabled nm = set_auth nm (\<lambda>m. m\<lparr>ai_enabled := False\<rparr>)"

definition Acm_auth_set_required :: "byte list \<Rightarrow> 'a acm_state_scheme \<Rightarrow> bool \<times> 'a acm_state_scheme" where
  "Acm_auth_set_required nm = set_auth nm (\<lambda>m. m\<lparr>ai_required := True\<rparr>)"

definition Acm_auth_add_method :: "byte list \<Rightarrow> auth_ops \<Rightarrow> 'a acm_state_scheme \<Rightarrow> bool \<times> 'a acm_state_scheme" where
  "Acm_auth_add_method nm ops a = (if length (Auth_Methods a) = MAX_AUTH_METHODS then (False, a)
     else (True, a\<lparr>Auth_Methods := Auth_Methods a @ [\<lparr>ai_name = nm, ai_enabled = False, ai_required = False, ai_ops = ops\<rparr>]\<rparr>))"

definition Acm_auth_query_allowed :: "byte list \<Rightarrow> 'a acm_state_scheme \<Rightarrow> bool" where
  "Acm_auth_query_allowed nm a = (case acm_authname_to_type nm a of None \<Rightarrow> False
     | Some i \<Rightarrow> ai_enabled (Auth_Methods a ! i))"

text \<open>A method that is not registered has no functions: its pointer is \<open>NULL\<close>.\<close>

definition Acm_auth_get_auth_client_connection :: "nat \<Rightarrow> 'a acm_state_scheme \<Rightarrow> auth_ops option option" where
  "Acm_auth_get_auth_client_connection authid a = do {
     exit_if (authid \<ge> MAX_AUTH_METHODS);
     Some (if authid < length (Auth_Methods a) then Some (ai_ops (Auth_Methods a ! authid)) else None) }"

definition Acm_auth_get_auth_client_connection_byname :: "byte list \<Rightarrow> 'a acm_state_scheme \<Rightarrow> auth_ops option option" where
  "Acm_auth_get_auth_client_connection_byname nm a = (case acm_authname_to_type nm a of None \<Rightarrow> Some None
     | Some i \<Rightarrow> Acm_auth_get_auth_client_connection i a)"

text \<open>The names of the enabled methods, a space behind each, in an array of 90 bytes.\<close>

definition Acm_auth_get_allowed_list :: "'a acm_state_scheme \<Rightarrow> byte list option" where
  "Acm_auth_get_allowed_list a = (let l = concat (map (\<lambda>m. cstr (ai_name m) @ [32]) (filter ai_enabled (Auth_Methods a)))
     in if length l < MAX_AUTH_METHODS * MAX_AUTH_NAME then Some l else None)"

definition Acm_acp_add_method :: "byte list \<Rightarrow> acp_ops \<Rightarrow> 'a acm_state_scheme \<Rightarrow> bool \<times> 'a acm_state_scheme" where
  "Acm_acp_add_method nm ops a = (if length (ACP_Methods a) = MAX_AUTH_METHODS then (False, a)
     else (True, a\<lparr>ACP_Methods := ACP_Methods a @ [\<lparr>ac_name = nm, ac_ops = ops\<rparr>]\<rparr>))"

definition Acm_acp_query_allowed :: "byte list \<Rightarrow> 'a acm_state_scheme \<Rightarrow> bool" where
  "Acm_acp_query_allowed nm a \<longleftrightarrow> acm_acpname_to_type nm a \<noteq> None"

definition Acm_acp_set_policy :: "byte list \<Rightarrow> 'a acm_state_scheme \<Rightarrow> bool \<times> 'a acm_state_scheme" where
  "Acm_acp_set_policy nm a = (case acm_acpname_to_type nm a of None \<Rightarrow> (False, a)
     | Some i \<Rightarrow> (True, a\<lparr>AccessControlPolicy := int i\<rparr>))"

definition Acm_acp_fill_ops_byname :: "byte list \<Rightarrow> 'a acm_state_scheme \<Rightarrow> acp_ops option" where
  "Acm_acp_fill_ops_byname nm a = map_option (\<lambda>i. ac_ops (ACP_Methods a ! i)) (acm_acpname_to_type nm a)"

definition Acm_acp_fill_ops :: "'a acm_state_scheme \<Rightarrow> acp_ops option" where
  "Acm_acp_fill_ops a = (let p = AccessControlPolicy a in
     if 0 \<le> p \<and> p < int (length (ACP_Methods a)) then Some (ac_ops (ACP_Methods a ! nat p)) else None)"

definition name_IP :: "byte list" where "name_IP = chars ''IP''"
definition name_NULL :: "byte list" where "name_NULL = chars ''NULL''"
definition name_PERMIT :: "byte list" where "name_PERMIT = chars ''PERMIT''"

definition Acm_init :: "'a acm_state_scheme \<Rightarrow> 'a acm_state_scheme option" where
  "Acm_init a = (let (_, a1) = Acm_auth_set_enabled name_NULL a; (ok, a2) = Acm_acp_set_policy name_PERMIT a1
     in if ok then Some a2 else None)"

section \<open>What a client asks for\<close>

text \<open>
  The names a client sends are at distances of 30 bytes and end with an empty one; the loop does not
  stop at the end of the array.
\<close>

lemma shorter_names: "bs \<noteq> [] \<Longrightarrow> length (drop MAX_AUTH_NAME bs) < length bs"
  by (cases bs) (simp_all add: MAX_AUTH_NAME_def)

function all_allowed :: "'a acm_state_scheme \<Rightarrow> byte list \<Rightarrow> bool option" where
  "all_allowed a bs = (if bs = [] then None else if hd bs = 0 then Some True
     else if Acm_auth_query_allowed bs a then all_allowed a (drop MAX_AUTH_NAME bs) else Some False)"
  by pat_completeness auto

termination
  by (relation "measure (\<lambda>(a, bs). length bs)") (simp_all add: shorter_names [simplified])

text \<open>An entry of the array of the methods is set; it has three.\<close>

definition add_auth :: "nat \<Rightarrow> nat list \<Rightarrow> nat list option" where
  "add_auth i ms = (if length ms < MAX_AUTH_METHODS then Some (ms @ [i]) else None)"

function client_methods :: "'a acm_state_scheme \<Rightarrow> byte list \<Rightarrow> nat list \<Rightarrow> nat list option" where
  "client_methods a bs ms = (if bs = [] then None else if hd bs = 0 then Some ms
     else case acm_authname_to_type bs a of None \<Rightarrow> None
       | Some i \<Rightarrow> (case (if ai_enabled (Auth_Methods a ! i) then add_auth i ms else Some ms) of None \<Rightarrow> None
           | Some ms1 \<Rightarrow> client_methods a (drop MAX_AUTH_NAME bs) ms1))"
  by pat_completeness auto

termination
  by (relation "measure (\<lambda>(a, bs, ms). length bs)") (simp_all add: shorter_names [simplified])

definition add_required :: "'a acm_state_scheme \<Rightarrow> nat \<Rightarrow> nat list \<Rightarrow> nat list option" where
  "add_required a i ms = (if ai_required (Auth_Methods a ! i) \<and> i \<notin> set ms then add_auth i ms else Some ms)"

definition Acm_auth_create_sess_info :: "int \<Rightarrow> byte list \<Rightarrow> 'a acm_state_scheme \<Rightarrow> session_auth_info option option" where
  "Acm_auth_create_sess_info mbox auth_name a = do {
     ms \<leftarrow> client_methods a auth_name [];
     if ms = [] then Some None
     else do {
       ms' \<leftarrow> forM [0..<length (Auth_Methods a)] (add_required a) ms;
       Some (Some \<lparr>sa_mbox = mbox, num_required_auths = length ms', completed_required_auths = 0,
         required_auth_methods = ms', required_auth_results = replicate MAX_AUTH_METHODS False\<rparr>) } }"

definition Acm_auth_create_sess_info_forIP :: "int \<Rightarrow> 'a acm_state_scheme \<Rightarrow> session_auth_info option" where
  "Acm_auth_create_sess_info_forIP mbox a = map_option (\<lambda>i. \<lparr>sa_mbox = mbox, num_required_auths = 1,
     completed_required_auths = 0, required_auth_methods = [i], required_auth_results = replicate MAX_AUTH_METHODS False\<rparr>)
     (acm_authname_to_type name_IP a)"

section \<open>The methods\<close>

text \<open>A shift by 32 is undefined in C, and with it a rule of prefix 0.\<close>

definition prefix_mask :: "int \<Rightarrow> int32u option" where
  "prefix_mask p = (if 0 < p \<and> p \<le> 32 then Some (push_bit (nat (32 - p)) (- 1)) else None)"

fun ip_allowed :: "int32u \<Rightarrow> ip_rule list \<Rightarrow> bool option" where
  "ip_allowed client_ip [] = Some False"
| "ip_allowed client_ip (r # rs) = (case prefix_mask (prefix_length r) of None \<Rightarrow> None
     | Some m \<Rightarrow> if network_address r = client_ip AND m then Some True else ip_allowed client_ip rs)"

definition ip_auth_client_connection :: "int \<Rightarrow> 'a acm_state_scheme \<Rightarrow> 'b sess_layer_scheme \<Rightarrow> bool option" where
  "ip_auth_client_connection mbox a s = (if \<not> IP_File_Loaded a then Some False
     else do { r \<leftarrow> Sess_get_session_index mbox s; ses \<leftarrow> r; ip_allowed (ss_address (Sessions s ses)) (Allow_Rules a) })"

definition auth_client_connection :: "auth_ops \<Rightarrow> int \<Rightarrow> 'a acm_state_scheme \<Rightarrow> 'b sess_layer_scheme \<Rightarrow> bool option" where
  "auth_client_connection ops mbox a s = (case ops of Null_ops \<Rightarrow> Some True | IP_ops \<Rightarrow> ip_auth_client_connection mbox a s)"

definition insert_ip_rule :: "int32u \<Rightarrow> int \<Rightarrow> 'a acm_state_scheme \<Rightarrow> 'a acm_state_scheme" where
  "insert_ip_rule net p a = a\<lparr>Allow_Rules := \<lparr>network_address = net, prefix_length = p\<rparr> # Allow_Rules a\<rparr>"

text \<open>
  The lines of \<open>spread.access_ip\<close>, as \<open>sscanf\<close> takes them apart: a line without three dots ends the
  reading, one that is no address ends the daemon.
\<close>

datatype access_line = Comment_line | Unix_line | Local_line | Incomplete_line | Invalid_line
  | Net_line int32u int32u int32u int32u "int option"

fun ip_lines :: "access_line list \<Rightarrow> 'a acm_state_scheme \<Rightarrow> 'a acm_state_scheme option" where
  "ip_lines [] a = Some a"
| "ip_lines (Comment_line # ls) a = ip_lines ls a"
| "ip_lines (Unix_line # ls) a = ip_lines ls (insert_ip_rule 0 32 a)"
| "ip_lines (Local_line # ls) a = ip_lines ls (insert_ip_rule (push_bit 24 127) 8 a)"
| "ip_lines (Incomplete_line # ls) a = Some a"
| "ip_lines (Invalid_line # ls) a = None"
| "ip_lines (Net_line i1 i2 i3 i4 p # ls) a = ip_lines ls
     (insert_ip_rule (push_bit 24 i1 OR push_bit 16 i2 OR push_bit 8 i3 OR i4) (case p of None \<Rightarrow> 32 | Some n \<Rightarrow> n) a)"

definition ip_init :: "access_line list option \<Rightarrow> 'a acm_state_scheme \<Rightarrow> 'a acm_state_scheme option" where
  "ip_init file a = (let (ok, a1) = Acm_auth_add_method name_IP IP_ops a in
     if \<not> ok then None
     else case file of None \<Rightarrow> Some (a1\<lparr>IP_File_Loaded := False\<rparr>)
       | Some ls \<Rightarrow> map_option (\<lambda>a2. a2\<lparr>IP_File_Loaded := True\<rparr>) (ip_lines ls a1))"

definition null_init :: "'a acm_state_scheme \<Rightarrow> 'a acm_state_scheme option" where
  "null_init a = (let (ok, a1) = Acm_auth_add_method name_NULL Null_ops a in if ok then Some a1 else None)"

definition permit_init :: "'a acm_state_scheme \<Rightarrow> 'a acm_state_scheme option" where
  "permit_init a = (let (ok, a1) = Acm_acp_add_method name_PERMIT permit_all a in if ok then Some a1 else None)"

end
