(* ===== verification/Session_accept.thy ===== *)
theory Session_accept
  imports Acm
begin

text \<open>
  How a client gets a session, in \<open>daemon/session.c\<close>: the connection is accepted, the client says its
  version and its private name, the name is entered in the table, and the client is authenticated
  before it is told that it is in.  The session that is being accepted is the entry \<open>MAX_SESSIONS\<close> of
  the table, which no list holds.  The sizes of the socket buffers are not modelled.
\<close>

section \<open>State\<close>

text \<open>What \<open>accept\<close> returns, a mailbox and the address of the client, and the random numbers below 9999.\<close>

record front = acm_state +
  srv :: server
  accept_ret :: "nat \<Rightarrow> int \<times> int32u"
  accept_calls :: nat
  rand_ret :: "nat \<Rightarrow> nat"
  rand_calls :: nat

definition on_srv :: "(server \<Rightarrow> server option) \<Rightarrow> front \<Rightarrow> front option" where
  "on_srv f x = map_option (\<lambda>s. x\<lparr>srv := s\<rparr>) (f (srv x))"

definition AF_UNIX :: int where "AF_UNIX = 1"
definition AF_INET :: int where "AF_INET = 2"

definition REJECT_QUOTA :: int where "REJECT_QUOTA = - 3"
definition REJECT_NO_NAME :: int where "REJECT_NO_NAME = - 4"
definition REJECT_ILLEGAL_NAME :: int where "REJECT_ILLEGAL_NAME = - 5"
definition REJECT_NOT_UNIQUE :: int where "REJECT_NOT_UNIQUE = - 6"
definition REJECT_VERSION :: int where "REJECT_VERSION = - 7"
definition REJECT_AUTH :: int where "REJECT_AUTH = - 9"
definition ACCEPT_SESSION :: int where "ACCEPT_SESSION = 1"

definition SP_MAJOR_VERSION :: int where "SP_MAJOR_VERSION = 4"
definition SP_MINOR_VERSION :: int where "SP_MINOR_VERSION = 0"
definition SP_PATCH_VERSION :: int where "SP_PATCH_VERSION = 0"

abbreviation newcomer :: "'a sess_table_scheme \<Rightarrow> session" where "newcomer s \<equiv> Sessions s MAX_SESSIONS"

definition send_to :: "int \<Rightarrow> byte list \<Rightarrow> 'a sess_layer_scheme \<Rightarrow> 'a sess_layer_scheme" where
  "send_to mbox bs s = snd (sock_send mbox bs s)"

definition send_char :: "int \<Rightarrow> int \<Rightarrow> 'a sess_layer_scheme \<Rightarrow> 'a sess_layer_scheme" where
  "send_char mbox c = send_to mbox [word_of_int c]"

text \<open>The answer is sent to the newcomer, and its connection is closed.\<close>

definition refuse :: "int \<Rightarrow> 'a sess_layer_scheme \<Rightarrow> 'a sess_layer_scheme" where
  "refuse response s = (let mb = ss_mbox (newcomer s) in close_mbox mb (send_char mb response s))"

definition hang_up :: "'a sess_layer_scheme \<Rightarrow> 'a sess_layer_scheme" where
  "hang_up s = close_mbox (ss_mbox (newcomer s)) s"

section \<open>The sockets that accept\<close>

definition attach_both :: "int \<Rightarrow> fd_func \<Rightarrow> int \<Rightarrow> 'a sess_layer_scheme \<Rightarrow> 'a sess_layer_scheme option" where
  "attach_both mbox f code s = do {
     (_, s1) \<leftarrow> E_attach_fd mbox READ_FD f code LOW_PRIORITY s;
     (_, s2) \<leftarrow> E_attach_fd mbox EXCEPT_FD f code LOW_PRIORITY s1;
     Some s2 }"

definition detach_both :: "int \<Rightarrow> 'a sess_layer_scheme \<Rightarrow> 'a sess_layer_scheme option" where
  "detach_both mbox s = do {
     (_, s1) \<leftarrow> E_detach_fd mbox READ_FD s;
     (_, s2) \<leftarrow> E_detach_fd mbox EXCEPT_FD s1;
     Some s2 }"

definition Sess_attach_accept :: "'a sess_layer_scheme \<Rightarrow> 'a sess_layer_scheme option" where
  "Sess_attach_accept s = do {
     s1 \<leftarrow> forM (Accept_inet_mbox s) (\<lambda>mb. attach_both mb Sess_accept_fd AF_INET) s;
     (_, s2) \<leftarrow> E_attach_fd (Accept_unix_mbox s) READ_FD Sess_accept_fd AF_UNIX LOW_PRIORITY s1;
     Some s2 }"

definition Sess_detach_accept :: "'a sess_layer_scheme \<Rightarrow> 'a sess_layer_scheme option" where
  "Sess_detach_accept s = do {
     s1 \<leftarrow> forM (Accept_inet_mbox s) detach_both s;
     (_, s2) \<leftarrow> E_detach_fd (Accept_unix_mbox s) READ_FD s1;
     Some s2 }"

abbreviation Sess_accept_continue2_f :: timer_func where "Sess_accept_continue2_f \<equiv> Other_func 1"

definition accept_delay :: sp_time where "accept_delay = \<lparr>sec = 1, usec = 0\<rparr>"

definition Sess_accept :: "int \<Rightarrow> int \<Rightarrow> front \<Rightarrow> front option" where
  "Sess_accept mbox domain x0 = do {
     exit_if (domain \<noteq> AF_INET \<and> domain \<noteq> AF_UNIX);
     let (mb, addr) = accept_ret x0 (accept_calls x0);
     let s1 = upd_session MAX_SESSIONS (\<lambda>t. t\<lparr>ss_mbox := mb, ss_type := domain,
       ss_address := (if domain = AF_INET then addr else 0)\<rparr>) (srv x0);
     let x1 = x0\<lparr>accept_calls := Suc (accept_calls x0), srv := s1\<rparr>;
     if mb < 0 then Some x1
     else if Num_sessions s1 = int MAX_SESSIONS then Some (x1\<lparr>srv := refuse REJECT_QUOTA s1\<rparr>)
     else do {
       r \<leftarrow> Sess_get_session_index mb s1;
       exit_if (case r of None \<Rightarrow> False | Some i \<Rightarrow> Is_op_session (ss_status (Sessions s1 i)));
       s2 \<leftarrow> Sess_detach_accept s1;
       s3 \<leftarrow> attach_both mb Sess_accept_continue_fd 0 s2;
       Some (x1\<lparr>srv := upd_dmn (E_queue Sess_accept_continue2_f 1 0 accept_delay) s3\<rparr>) } }"

section \<open>Authentication\<close>

definition Sess_session_denied :: "nat \<Rightarrow> server \<Rightarrow> server option" where
  "Sess_session_denied ses s = do {
     exit_if (\<not> Is_preauth_session (ss_status (Sessions s ses)));
     let mb = ss_mbox (Sessions s ses);
     s1 \<leftarrow> Sess_unhash_session ses (close_mbox mb (send_char mb REJECT_AUTH s));
     Some (count_sessions (- 1) (Sess_remove_session ses s1)) }"

definition version_code :: "int \<times> int \<times> int \<Rightarrow> int" where
  "version_code v = (case v of (a, b, c) \<Rightarrow> a * 10000 + b * 100 + c)"

definition Sess_session_authorized :: "nat \<Rightarrow> server \<Rightarrow> server option" where
  "Sess_session_authorized ses s0 = do {
     exit_if (\<not> Is_preauth_session (ss_status (Sessions s0 ses)));
     let s1 = upd_session ses (\<lambda>t. t\<lparr>ss_mess := []\<rparr>) s0;
     let mb = ss_mbox (Sessions s1 ses);
     let s2 = send_char mb SP_MINOR_VERSION (send_char mb SP_MAJOR_VERSION (send_char mb ACCEPT_SESSION s1));
     let s3 = (if version_code (ss_lib_version (Sessions s2 ses)) \<ge> 31500 then send_char mb SP_PATCH_VERSION s2 else s2);
     grp \<leftarrow> private_group (ss_name (Sessions s3 ses)) (p_name (Sess_My s3));
     let s4 = send_to mb (cstr grp) (send_char mb (int (length (cstr grp))) s3);
     s5 \<leftarrow> attach_both mb Sess_read_fd (ss_type (Sessions s4 ses)) s4;
     Some (upd_session ses (\<lambda>t. t\<lparr>ss_status := Clear_preauth_session (Set_op_session (ss_status t)),
       ss_read := Message_reset_current_location\<lparr>in_mess_head := True\<rparr>, ss_write := Message_reset_current_location\<rparr>) s5) }"

text \<open>
  A method has decided.  The next one is asked, or all have been: every one must have agreed, and then
  the policy is asked.
\<close>

definition all_decided :: "session_auth_info \<Rightarrow> nat \<Rightarrow> server \<Rightarrow> server option" where
  "all_decided h ses s =
     (let permit_count = length (filter (\<lambda>i. required_auth_results h ! i) [0..<num_required_auths h]) in
      if permit_count < num_required_auths h then Sess_session_denied ses s
      else if \<not> acp_open_connection (ss_acp_ops (Sessions s ses)) (ss_name (Sessions s ses)) then Sess_session_denied ses s
      else Sess_session_authorized ses s)"

function Sess_session_report_auth_result :: "'a acm_state_scheme \<Rightarrow> session_auth_info \<Rightarrow> bool \<Rightarrow> server \<Rightarrow> server option" where
  "Sess_session_report_auth_result a h ok s = (case Sess_get_session_index (sa_mbox h) s of
       None \<Rightarrow> None
     | Some None \<Rightarrow> Some s
     | Some (Some ses) \<Rightarrow>
         if ses \<ge> MAX_SESSIONS then Some s
         else if completed_required_auths h \<ge> length (required_auth_results h) \<or> num_required_auths h > MAX_AUTH_METHODS then None
         else let c = Suc (completed_required_auths h);
                h1 = h\<lparr>required_auth_results := (required_auth_results h)[completed_required_auths h := ok], completed_required_auths := c\<rparr> in
           if c < num_required_auths h
           then (if c \<ge> length (required_auth_methods h) then None
             else case Acm_auth_get_auth_client_connection (required_auth_methods h ! c) a of
               None \<Rightarrow> None
             | Some None \<Rightarrow> Sess_session_denied ses s
             | Some (Some ops) \<Rightarrow> (case auth_client_connection ops (sa_mbox h) a s of
                 None \<Rightarrow> None | Some ok1 \<Rightarrow> Sess_session_report_auth_result a h1 ok1 s))
           else all_decided h1 ses s)"
  by pat_completeness auto

termination
  by (relation "measure (\<lambda>(a, h, ok, s). num_required_auths h - completed_required_auths h)") auto

definition auth_open :: "'a acm_state_scheme \<Rightarrow> auth_ops \<Rightarrow> session_auth_info \<Rightarrow> server \<Rightarrow> server option" where
  "auth_open a ops h s = do { ok \<leftarrow> auth_client_connection ops (sa_mbox h) a s; Sess_session_report_auth_result a h ok s }"

text \<open>
  The answer to the list of methods.  A call that gets fewer than 90 bytes denies the session, even if
  the rest is still on its way (the source has a FIXME there).
\<close>

definition Sess_recv_client_auth :: "int \<Rightarrow> 'a acm_state_scheme \<Rightarrow> server \<Rightarrow> server option" where
  "Sess_recv_client_auth mbox a s = do {
     r \<leftarrow> Sess_get_session_index mbox s;
     case r of None \<Rightarrow> Some s | Some ses \<Rightarrow>
       if ses \<ge> MAX_SESSIONS then Some s
       else do {
         exit_if (\<not> Is_preauth_session (ss_status (Sessions s ses)));
         s1 \<leftarrow> detach_both mbox s;
         let (got, s2) = sock_recv mbox (MAX_AUTH_NAME * MAX_AUTH_METHODS) s1;
         case got of
           Received auth_name \<Rightarrow>
             if length auth_name < MAX_AUTH_NAME * MAX_AUTH_METHODS then Sess_session_denied ses s2
             else do {
               good \<leftarrow> all_allowed a auth_name;
               if \<not> good then Sess_session_denied ses s2
               else do {
                 ops \<leftarrow> Acm_acp_fill_ops a;
                 let s3 = upd_session ses (\<lambda>t. t\<lparr>ss_acp_ops := ops\<rparr>) s2;
                 info \<leftarrow> Acm_auth_create_sess_info mbox auth_name a;
                 case info of None \<Rightarrow> Sess_session_denied ses s3
                 | Some h \<Rightarrow> do {
                     f \<leftarrow> Acm_auth_get_auth_client_connection (hd (required_auth_methods h)) a;
                     case f of None \<Rightarrow> Sess_session_denied ses s3 | Some g \<Rightarrow> auth_open a g h s3 } } }
         | _ \<Rightarrow> Sess_session_denied ses s2 } }"

end
