(* ===== verification/Session_connect.thy ===== *)
theory Session_connect
  imports Session_accept
begin

text \<open>
  The greeting of a new client in \<open>daemon/session.c\<close> (\<open>Sess_accept_continue\<close>): the version of its library,
  what kind of session it wants, and its private name.  The result \<open>Inl\<close> is a greeting that failed, with
  the connection closed; \<open>Inr\<close> goes on.  Every \<open>recv\<close> here is a single call that does not wait.
\<close>

section \<open>The version\<close>

text \<open>Bytes that did not come stay 0.\<close>

definition char_at :: "byte list \<Rightarrow> nat \<Rightarrow> int" where
  "char_at bs i = (if i < length bs then sint (bs ! i) else 0)"

definition check_version :: "int \<times> int \<times> int \<Rightarrow> server \<Rightarrow> server + server" where
  "check_version v s = (if version_code v < 30100 then Inl (refuse REJECT_VERSION s)
     else Inr (upd_session MAX_SESSIONS (\<lambda>t. t\<lparr>ss_lib_version := v\<rparr>) s))"

definition greet_version :: "server \<Rightarrow> server + server" where
  "greet_version s0 = (let mb = ss_mbox (newcomer s0); (r1, s1) = sock_recv mb 2 s0 in
     case r1 of
       Received bs \<Rightarrow>
         if version_code (char_at bs 0, char_at bs 1, 0) > 31400
         then (let (r2, s2) = sock_recv mb 1 s1 in
           case r2 of
             Received ps \<Rightarrow> check_version (char_at bs 0, char_at bs 1, char_at ps 0) s2
           | _ \<Rightarrow> Inl (hang_up s2))
         else check_version (char_at bs 0, char_at bs 1, 0) s1
     | _ \<Rightarrow> Inl (hang_up s1))"

section \<open>The kind of session and the length of its name\<close>

definition greet_conn :: "server \<Rightarrow> server + int \<times> server" where
  "greet_conn s0 = (let (r, s1) = sock_recv (ss_mbox (newcomer s0)) 2 s0 in
     case r of
       Received bs \<Rightarrow>
         if length bs < 2 then Inl (refuse REJECT_NO_NAME s1)
         else (let conn = sint (bs ! 0); name_len = sint (bs ! 1);
           s2 = upd_session MAX_SESSIONS (\<lambda>t. t\<lparr>
             ss_status := (if conn smod 2 = 1 then Set_memb_session (ss_status t) else Clear_memb_session (ss_status t)),
             ss_priority := conn sdiv 16\<rparr>) s1 in
           if name_len > int MAX_PRIVATE_NAME \<or> name_len < 0 then Inl (refuse REJECT_ILLEGAL_NAME s2)
           else Inr (name_len, upd_session MAX_SESSIONS (\<lambda>t. t\<lparr>ss_name := replicate (MAX_PRIVATE_NAME + 1) 0\<rparr>) s2))
     | _ \<Rightarrow> Inl (hang_up s1))"

section \<open>The name\<close>

fun digits :: "nat \<Rightarrow> byte list" where
  "digits n = (if n < 10 then [48 + of_nat n] else digits (n div 10) @ [48 + of_nat (n mod 10)])"

definition padded :: "byte list \<Rightarrow> byte list" where
  "padded bs = bs @ replicate (MAX_PRIVATE_NAME + 1 - length bs) 0"

text \<open>A name for a client that gave none, cut to what \<open>snprintf\<close> writes: \<open>r\<close>, a random number, its mailbox.\<close>

definition made_up_name :: "nat \<Rightarrow> int \<Rightarrow> byte list" where
  "made_up_name rnum mbox = padded (take (MAX_PRIVATE_NAME - 1)
     (chars ''r'' @ digits rnum @ chars ''-'' @ digits (unat (word_of_int mbox :: int32u))))"

text \<open>Names are made up until one is unique; with the name, its place in the list and the calls made.\<close>

partial_function (option) unique_name ::
  "(nat \<Rightarrow> session) \<Rightarrow> nat option \<Rightarrow> int \<Rightarrow> (nat \<Rightarrow> nat) \<Rightarrow> nat \<Rightarrow> (byte list \<times> nat option \<times> nat) option" where
  "unique_name ss head mbox rand k = do {
     let nm = made_up_name (rand k) mbox;
     (place, unique) \<leftarrow> find_place ss nm head;
     if unique then Some (nm, place, Suc k) else unique_name ss head mbox rand (Suc k) }"

definition set_newcomer_name :: "byte list \<Rightarrow> server \<Rightarrow> server" where
  "set_newcomer_name nm = upd_session MAX_SESSIONS (\<lambda>t. t\<lparr>ss_name := nm\<rparr>)"

definition greet_name :: "nat \<Rightarrow> server \<Rightarrow> (server + nat option \<times> server) option" where
  "greet_name name_len s0 = (let (r, s1) = sock_recv (ss_mbox (newcomer s0)) MAX_PRIVATE_NAME s0 in
     case r of
       Received bs \<Rightarrow>
         if length bs \<noteq> name_len then Some (Inl (refuse REJECT_ILLEGAL_NAME s1))
         else (let s2 = set_newcomer_name (padded bs) s1 in
           if \<not> list_all legal_char bs then Some (Inl (refuse REJECT_ILLEGAL_NAME s2))
           else do {
             (place, unique) \<leftarrow> find_place (Sessions s2) (ss_name (newcomer s2)) (Sessions_head s2);
             Some (if unique then Inr (place, s2) else Inl (refuse REJECT_NOT_UNIQUE s2)) })
     | _ \<Rightarrow> Some (Inl (hang_up s1)))"

definition name_newcomer :: "int \<Rightarrow> front \<Rightarrow> (front + nat option \<times> front) option" where
  "name_newcomer name_len x = (if name_len = 0
     then do {
       (nm, place, k) \<leftarrow> unique_name (Sessions (srv x)) (Sessions_head (srv x)) (ss_mbox (newcomer (srv x))) (rand_ret x) (rand_calls x);
       Some (Inr (place, x\<lparr>srv := set_newcomer_name nm (srv x), rand_calls := k\<rparr>)) }
     else map_option (map_sum (\<lambda>s. x\<lparr>srv := s\<rparr>) (map_prod (\<lambda>p. p) (\<lambda>s. x\<lparr>srv := s\<rparr>))) (greet_name (nat name_len) (srv x)))"

section \<open>The session\<close>

text \<open>The newcomer gets an entry of the table, before the entry where the search for its name stopped.\<close>

definition enter_session :: "nat option \<Rightarrow> server \<Rightarrow> (nat \<times> server) option" where
  "enter_session place s = do {
     (n, s1) \<leftarrow> Sess_insert_new_session place (newcomer s) s;
     Some (n, Sess_hash_session n
       (upd_session n (\<lambda>t. t\<lparr>ss_status := Set_preauth_session (ss_status t)\<rparr>) (count_sessions 1 s1))) }"

text \<open>Libraries before 3.16 cannot be asked; newer ones are sent the list of the methods.\<close>

definition admit_old :: "nat \<Rightarrow> 'a acm_state_scheme \<Rightarrow> server \<Rightarrow> server option" where
  "admit_old n a s = do {
     ops \<leftarrow> Acm_acp_fill_ops a;
     let s1 = upd_session n (\<lambda>t. t\<lparr>ss_acp_ops := ops\<rparr>) s;
     if Acm_auth_query_allowed name_IP a
     then do {
       h \<leftarrow> Acm_auth_create_sess_info_forIP (ss_mbox (Sessions s1 n)) a;
       f \<leftarrow> Acm_auth_get_auth_client_connection_byname name_IP a;
       g \<leftarrow> f;
       auth_open a g h s1 }
     else if Acm_auth_query_allowed name_NULL a then Sess_session_authorized n s1
     else Sess_session_denied n s1 }"

definition admit_new :: "nat \<Rightarrow> 'a acm_state_scheme \<Rightarrow> server \<Rightarrow> server option" where
  "admit_new n a s = do {
     allowed \<leftarrow> Acm_auth_get_allowed_list a;
     let mb = ss_mbox (Sessions s n);
     let s1 = send_to mb allowed (send_char mb (int (length allowed)) s);
     if allowed = [] then Sess_session_denied n s1
     else attach_both mb Sess_recv_client_auth_fd 0 s1 }"

definition admit :: "nat option \<Rightarrow> front \<Rightarrow> front option" where
  "admit place x = on_srv (\<lambda>s. do {
     (n, s1) \<leftarrow> enter_session place s;
     if version_code (ss_lib_version (newcomer s)) < 31600 then admit_old n x s1 else admit_new n x s1 }) x"

definition Sess_accept_continue :: "front \<Rightarrow> front option" where
  "Sess_accept_continue x = do {
     let s0 = upd_dmn (E_dequeue Sess_accept_continue2_f 1 0) (srv x);
     s1 \<leftarrow> detach_both (ss_mbox (newcomer s0)) s0;
     s2 \<leftarrow> Sess_attach_accept s1;
     case greet_version s2 of Inl s \<Rightarrow> Some (x\<lparr>srv := s\<rparr>)
     | Inr s3 \<Rightarrow> (case greet_conn s3 of Inl s \<Rightarrow> Some (x\<lparr>srv := s\<rparr>)
       | Inr (name_len, s4) \<Rightarrow> do {
           named \<leftarrow> name_newcomer name_len (x\<lparr>srv := s4\<rparr>);
           case named of Inl y \<Rightarrow> Some y | Inr (place, y) \<Rightarrow> admit place y }) }"

section \<open>Start-up\<close>

text \<open>
  What \<open>Sess_init\<close> sets up.  \<open>sock i\<close> is the descriptor of the socket that is opened as the \<open>i\<close>-th, bound
  and listening; without it the daemon ends.  There is one for every interface clients may use, in the
  order of the configuration, and the UNIX socket comes last.
\<close>

definition IFTYPE_CLIENT :: int32u where "IFTYPE_CLIENT = 2"

definition Is_IfType_Client :: "int32u \<Rightarrow> bool" where "Is_IfType_Client t = (t AND IFTYPE_CLIENT \<noteq> 0)"

definition client_interfaces :: "proc \<Rightarrow> spread_if_info list" where
  "client_interfaces p = filter (\<lambda>i. Is_IfType_Client (if_type i) \<or> Is_IfType_Any (if_type i)) (p_ifc p)"

definition Sess_init :: "(nat \<Rightarrow> int option) \<Rightarrow> server \<Rightarrow> server option" where
  "Sess_init sock s0 = do {
     let s1 = upd_dmn (upd_status (\<lambda>st. st\<lparr>st_num_sessions := 0, st_message_delivered := 0\<rparr>)) (Sess_init_sessions s0);
     let s2 = s1\<lparr>Num_sessions := 0, Sess_My := Conf_My (dmn s1), Session_threshold := LOW_PRIORITY, Protocol_threshold := LOW_PRIORITY\<rparr>;
     s3 \<leftarrow> on_dmn Prot_init (upd_dmn (Prot_set_down_queue NORMAL_DOWNQUEUE \<circ> Prot_init_down_queues) s2);
     let n = length (client_interfaces (Sess_My s3));
     inet \<leftarrow> those (map sock [0..<n]);
     ux \<leftarrow> sock n;
     s4 \<leftarrow> Sess_attach_accept (s3\<lparr>Accept_inet_mbox := inet, Accept_unix_mbox := ux\<rparr>);
     Some (G_init s4) }"

end
