(* ===== verification/Authentication.thy ===== *)
theory Authentication
  imports Session_connect Group_sample
begin

text \<open>
  Who gets in: the answer of a client to the list of methods makes its session operational exactly when
  every method it asks for is enabled and says yes, every required method says yes, and the access
  policy lets it in; otherwise the session leaves the table.
\<close>

section \<open>The names a client sends\<close>

definition asked :: "byte list \<Rightarrow> byte list list" where
  "asked bs = takeWhile (\<lambda>n. hd n \<noteq> 0) (map (\<lambda>i. drop (i * MAX_AUTH_NAME) bs) [0..<MAX_AUTH_METHODS])"

lemma asked_blocks: "asked bs = takeWhile (\<lambda>n. hd n \<noteq> 0) [bs, drop 30 bs, drop 60 bs]"
  by (simp add: asked_def MAX_AUTH_NAME_def MAX_AUTH_METHODS_def upt_rec)

lemma all_allowed_asked:
  assumes "length bs = 90" and "length (asked bs) \<le> 2"
  shows "all_allowed a bs = Some (list_all (\<lambda>n. Acm_auth_query_allowed n a) (asked bs))"
proof -
  have "bs \<noteq> []" "drop 30 bs \<noteq> []" "drop 60 bs \<noteq> []" using assms(1) by auto
  then show ?thesis using assms(2)
    by (simp add: asked_blocks all_allowed.simps [of a bs] all_allowed.simps [of a "drop 30 bs"] all_allowed.simps [of a "drop 60 bs"]
        MAX_AUTH_NAME_def split: if_splits del: all_allowed.simps)
qed

definition method_of :: "'a acm_state_scheme \<Rightarrow> byte list \<Rightarrow> nat" where
  "method_of a n = the (acm_authname_to_type n a)"

lemma query_allowed:
  "Acm_auth_query_allowed n a \<longleftrightarrow> acm_authname_to_type n a = Some (method_of a n) \<and> ai_enabled (Auth_Methods a ! method_of a n)"
  by (simp add: Acm_auth_query_allowed_def method_of_def split: option.splits)

lemma client_methods_asked:
  assumes "length bs = 90" and "length (asked bs) \<le> 2" and "list_all (\<lambda>n. Acm_auth_query_allowed n a) (asked bs)"
  shows "client_methods a bs [] = Some (map (method_of a) (asked bs))"
proof -
  have "bs \<noteq> []" "drop 30 bs \<noteq> []" "drop 60 bs \<noteq> []" using assms(1) by auto
  then show ?thesis using assms(2,3)
    by (simp add: asked_blocks client_methods.simps [of a bs] client_methods.simps [of a "drop 30 bs"]
        client_methods.simps [of a "drop 60 bs"] MAX_AUTH_NAME_def query_allowed add_auth_def MAX_AUTH_METHODS_def
        split: if_splits del: client_methods.simps)
qed

section \<open>The methods a session must pass\<close>

lemma find_index_less: "find_index P xs = Some i \<Longrightarrow> i < length xs"
  by (induction xs arbitrary: i) (auto split: if_splits)

lemma distinct_bounded: "distinct xs \<Longrightarrow> set xs \<subseteq> {..<n :: nat} \<Longrightarrow> length xs \<le> n"
  using card_mono [of "{..<n}" "set xs"] by (simp add: distinct_card)

lemma add_all_required:
  assumes "length (Auth_Methods a) \<le> MAX_AUTH_METHODS" and "distinct ms" and "set ms \<subseteq> {..<length (Auth_Methods a)}"
    and "is \<subseteq> {..<length (Auth_Methods a)}" and "set js = is"
  shows "\<exists>ms'. forM js (add_required a) ms = Some (ms @ ms') \<and> distinct (ms @ ms') \<and>
    set (ms @ ms') = set ms \<union> {i \<in> is. ai_required (Auth_Methods a ! i)}"
  using assms(2-5)
proof (induction js arbitrary: ms "is")
  case (Cons j js)
  let ?ms = "if ai_required (Auth_Methods a ! j) \<and> j \<notin> set ms then ms @ [j] else ms"
  have "length ms < MAX_AUTH_METHODS" if "j \<notin> set ms"
  proof -
    have "distinct (ms @ [j])" "set (ms @ [j]) \<subseteq> {..<length (Auth_Methods a)}" using Cons.prems that by auto
    then show ?thesis using distinct_bounded assms(1) by fastforce
  qed
  then have one: "add_required a j ms = Some ?ms" by (simp add: add_required_def add_auth_def)
  have "distinct ?ms" "set ?ms \<subseteq> {..<length (Auth_Methods a)}" "set js \<subseteq> {..<length (Auth_Methods a)}"
    using Cons.prems by auto
  from Cons.IH [OF this refl] obtain ms' where
    ms': "forM js (add_required a) ?ms = Some (?ms @ ms')" "distinct (?ms @ ms')"
      "set (?ms @ ms') = set ?ms \<union> {i \<in> set js. ai_required (Auth_Methods a ! i)}" by blast
  obtain k where k: "?ms = ms @ k" by (cases "ai_required (Auth_Methods a ! j) \<and> j \<notin> set ms") auto
  have "set ?ms \<union> {i \<in> set js. ai_required (Auth_Methods a ! i)} = set ms \<union> {i \<in> is. ai_required (Auth_Methods a ! i)}"
    using Cons.prems(4) by auto
  then show ?case using one ms' k by (intro exI [of _ "k @ ms'"]) (simp del: if_split)
qed simp

lemma sess_info_asked:
  assumes "length (Auth_Methods a) \<le> MAX_AUTH_METHODS" and "length bs = 90" and "length (asked bs) \<le> 2"
    and "list_all (\<lambda>n. Acm_auth_query_allowed n a) (asked bs)" and "distinct (map (method_of a) (asked bs))" and "asked bs \<noteq> []"
  shows "\<exists>ms. ms \<noteq> [] \<and> distinct ms \<and> length ms \<le> MAX_AUTH_METHODS \<and>
    set ms = set (map (method_of a) (asked bs)) \<union> {i. i < length (Auth_Methods a) \<and> ai_required (Auth_Methods a ! i)} \<and>
    Acm_auth_create_sess_info mbox bs a = Some (Some \<lparr>sa_mbox = mbox, num_required_auths = length ms, completed_required_auths = 0,
      required_auth_methods = ms, required_auth_results = replicate MAX_AUTH_METHODS False\<rparr>)"
proof -
  let ?ms = "map (method_of a) (asked bs)"
  have "method_of a n < length (Auth_Methods a)" if "n \<in> set (asked bs)" for n
    using that assms(4) find_index_less by (fastforce simp: list_all_iff query_allowed acm_authname_to_type_def)
  then have "set ?ms \<subseteq> {..<length (Auth_Methods a)}" by auto
  moreover have "set [0..<length (Auth_Methods a)] = {..<length (Auth_Methods a)}" by auto
  ultimately obtain ms' where
    ms': "forM [0..<length (Auth_Methods a)] (add_required a) ?ms = Some (?ms @ ms')" "distinct (?ms @ ms')"
      "set (?ms @ ms') = set ?ms \<union> {i \<in> {..<length (Auth_Methods a)}. ai_required (Auth_Methods a ! i)}"
    using add_all_required [OF assms(1,5)] by blast
  have "set (?ms @ ms') \<subseteq> {..<length (Auth_Methods a)}" using ms'(3) \<open>set ?ms \<subseteq> _\<close> by auto
  then have "length (?ms @ ms') \<le> MAX_AUTH_METHODS" using distinct_bounded [OF ms'(2)] assms(1) le_trans by blast
  then show ?thesis
    using ms' assms(6) client_methods_asked [OF assms(2-4)]
    by (intro exI [of _ "?ms @ ms'"]) (auto simp: Acm_auth_create_sess_info_def Let_def)
qed

section \<open>The answers of the methods\<close>

text \<open>A prefix of 0 is outside the model: the shift by 32 it needs is undefined.\<close>

definition rules_ok :: "'a acm_state_scheme \<Rightarrow> bool" where
  "rules_ok a \<longleftrightarrow> list_all (\<lambda>r. 0 < prefix_length r \<and> prefix_length r \<le> 32) (Allow_Rules a)"

definition says_yes :: "'a acm_state_scheme \<Rightarrow> int32u \<Rightarrow> nat \<Rightarrow> bool" where
  "says_yes a address i = (case ai_ops (Auth_Methods a ! i) of Null_ops \<Rightarrow> True
     | IP_ops \<Rightarrow> IP_File_Loaded a \<and> list_ex (\<lambda>r. network_address r =
         address AND push_bit (nat (32 - prefix_length r)) (- 1)) (Allow_Rules a))"

lemma ip_allowed_rules:
  "list_all (\<lambda>r. 0 < prefix_length r \<and> prefix_length r \<le> 32) rs \<Longrightarrow>
   ip_allowed address rs = Some (list_ex (\<lambda>r. network_address r = address AND push_bit (nat (32 - prefix_length r)) (- 1)) rs)"
  by (induction rs) (auto simp: prefix_mask_def)

lemma method_answers:
  assumes "rules_ok a" and "Sess_get_session_index mbox s = Some (Some ses)"
  shows "auth_client_connection (ai_ops (Auth_Methods a ! i)) mbox a s = Some (says_yes a (ss_address (Sessions s ses)) i)"
  using assms ip_allowed_rules [of "Allow_Rules a"]
  by (simp add: auth_client_connection_def says_yes_def ip_auth_client_connection_def rules_ok_def split: auth_ops.split)

section \<open>The decision\<close>

definition let_in :: "nat \<Rightarrow> bool \<Rightarrow> server \<Rightarrow> server option" where
  "let_in ses ok s = (if ok \<and> acp_open_connection (ss_acp_ops (Sessions s ses)) (ss_name (Sessions s ses))
     then Sess_session_authorized ses s else Sess_session_denied ses s)"

lemma all_decided_let_in: "all_decided h ses s = let_in ses (\<forall>i < num_required_auths h. required_auth_results h ! i) s"
proof -
  have "length (filter P [0..<n]) < n \<longleftrightarrow> \<not> (\<forall>i < n. P i)" for P and n :: nat
  proof
    assume "length (filter P [0..<n]) < n"
    then have "filter P [0..<n] \<noteq> [0..<n]" by force
    then show "\<not> (\<forall>i < n. P i)" by (auto simp: filter_id_conv)
  next
    assume "\<not> (\<forall>i < n. P i)"
    then obtain i where "i \<in> set [0..<n]" "\<not> P i" by auto
    with length_filter_less [of i "[0..<n]" P] show "length (filter P [0..<n]) < n" by simp
  qed
  then show ?thesis by (auto simp: all_decided_def let_in_def)
qed

lemma later_ones: "Suc c < n \<Longrightarrow> (\<forall>i < n. c < i \<longrightarrow> P i) \<longleftrightarrow> P (Suc c) \<and> (\<forall>i < n. Suc c < i \<longrightarrow> P i)"
  by (metis Suc_lessI Suc_lessD lessI)

lemma report_let_in:
  assumes "Sess_get_session_index (sa_mbox h) s = Some (Some ses)" and "ses < MAX_SESSIONS" and "rules_ok a"
    and "num_required_auths h = length (required_auth_methods h)" and "length (required_auth_methods h) \<le> MAX_AUTH_METHODS"
    and "length (required_auth_results h) = MAX_AUTH_METHODS" and "completed_required_auths h < num_required_auths h"
    and "\<forall>i \<in> set (required_auth_methods h). i < length (Auth_Methods a)" and "length (Auth_Methods a) \<le> MAX_AUTH_METHODS"
  shows "Sess_session_report_auth_result a h ok s = let_in ses
    ((\<forall>i < completed_required_auths h. required_auth_results h ! i) \<and> ok \<and>
     (\<forall>i < num_required_auths h. completed_required_auths h < i \<longrightarrow>
        says_yes a (ss_address (Sessions s ses)) (required_auth_methods h ! i))) s"
  using assms(1-8)
proof (induction "num_required_auths h - completed_required_auths h" arbitrary: h ok rule: less_induct)
  case less
  note p = less.prems
  let ?c = "completed_required_auths h" and ?n = "num_required_auths h"
  let ?h = "h\<lparr>required_auth_results := (required_auth_results h)[?c := ok], completed_required_auths := Suc ?c\<rparr>"
  have c3: "\<not> ?c \<ge> length (required_auth_results h)" "\<not> ?n > MAX_AUTH_METHODS" using p by simp_all
  note unf = Sess_session_report_auth_result.simps [of a h ok s]
  have before: "(\<forall>i < Suc ?c. (required_auth_results h)[?c := ok] ! i) \<longleftrightarrow> (\<forall>i < ?c. required_auth_results h ! i) \<and> ok"
    using p by (auto simp: less_Suc_eq)
  show ?case
  proof (cases "Suc ?c < ?n")
    case True
    let ?m = "required_auth_methods h ! Suc ?c"
    have m: "?m < length (Auth_Methods a)" "Suc ?c < length (required_auth_methods h)" using True p by simp_all
    have "Acm_auth_get_auth_client_connection ?m a = Some (Some (ai_ops (Auth_Methods a ! ?m)))"
      using m(1) assms(9) by (simp add: Acm_auth_get_auth_client_connection_def)
    then have "Sess_session_report_auth_result a h ok s =
        Sess_session_report_auth_result a ?h (says_yes a (ss_address (Sessions s ses)) ?m) s"
      using True m(2) c3 method_answers [OF p(3,1), of ?m]
      by (subst unf) (use p(2) in \<open>simp add: Let_def p(1) del: Sess_session_report_auth_result.simps\<close>)
    also have "\<dots> = let_in ses ((\<forall>i < completed_required_auths ?h. required_auth_results ?h ! i) \<and>
        says_yes a (ss_address (Sessions s ses)) ?m \<and>
        (\<forall>i < num_required_auths ?h. completed_required_auths ?h < i \<longrightarrow>
           says_yes a (ss_address (Sessions s ses)) (required_auth_methods ?h ! i))) s"
    proof (rule less.hyps)
      show "num_required_auths ?h - completed_required_auths ?h < ?n - ?c" using True by simp
    qed (use True p in \<open>simp_all del: Sess_session_report_auth_result.simps\<close>)
    also have "\<dots> = let_in ses ((\<forall>i < Suc ?c. (required_auth_results h)[?c := ok] ! i) \<and>
        says_yes a (ss_address (Sessions s ses)) ?m \<and>
        (\<forall>i < ?n. Suc ?c < i \<longrightarrow> says_yes a (ss_address (Sessions s ses)) (required_auth_methods h ! i))) s"
      by simp
    finally show ?thesis unfolding before later_ones [OF True] by (simp only: conj_assoc)
  next
    case False
    then have n: "?n = Suc ?c" using p(7) by simp
    have "Sess_session_report_auth_result a h ok s = all_decided ?h ses s"
      using False p c3 by (subst unf) (simp add: Let_def del: Sess_session_report_auth_result.simps)
    then show ?thesis using before n by (simp add: all_decided_let_in)
  qed
qed

section \<open>What the calls leave alone\<close>

definition untouched :: "server \<Rightarrow> server \<Rightarrow> bool" where
  "untouched s s' \<longleftrightarrow> quiet s s' \<and> Sessions s' = Sessions s \<and> Num_sessions s' = Num_sessions s \<and> closed s' = closed s \<and>
     recv_ret s' = recv_ret s"

lemma untouched_refl [simp]: "untouched s s"
  by (simp add: untouched_def)

lemma untouched_trans: "untouched s t \<Longrightarrow> untouched t u \<Longrightarrow> untouched s u"
  using quiet_trans [of s t u] by (simp add: untouched_def)

lemma untouched_index: "untouched s s' \<Longrightarrow> Sess_get_session_index m s' = Sess_get_session_index m s"
  by (simp add: untouched_def quiet_def Sess_get_session_index_def)

lemma untouched_io: "untouched s (send_to mb bs s)" "untouched s (send_char mb c s)" "untouched s (snd (sock_recv mb n s))"
  by (auto simp: untouched_def quiet_def send_to_def send_char_def sock_send_def sock_recv_def Let_def split: recv_result.split)

lemma untouched_drop: "untouched s (snd (drop_fd fd ty i (b, s)))"
  by (simp add: drop_fd_def set_mask_def set_queue_def untouched_def quiet_def Let_def split: option.split)

lemma untouched_drops: "untouched s (snd (fold (drop_fd fd ty) is (b, s)))"
proof (induction "is" arbitrary: b s)
  case (Cons i js)
  obtain b1 s1 where d: "drop_fd fd ty i (b, s) = (b1, s1)" by (cases "drop_fd fd ty i (b, s)")
  then have "untouched s s1" using untouched_drop [of s fd ty i b] by simp
  from untouched_trans [OF this Cons.IH [of s1 b1]] show ?case using d by simp
qed simp

lemma detach_untouched: "\<exists>c s'. E_detach_fd fd ty s = Some (c, s') \<and> untouched s s' \<and> recv_calls s' = recv_calls s"
proof -
  have "recv_calls (snd (fold (drop_fd fd ty) is (b, s))) = recv_calls s" for "is" b
  proof (induction "is" arbitrary: b s)
    case (Cons i js)
    then show ?case
      by (cases "drop_fd fd ty i (b, s)") (auto simp: drop_fd_def set_mask_def set_queue_def Let_def split: option.splits)
  qed simp
  from this [of "[0, 1, 2]" False] show ?thesis using untouched_drops [of s fd ty "[0, 1, 2]" False]
    by (auto simp: E_detach_fd_def found_code_def)
qed

lemma detach_both_untouched: "\<exists>s'. detach_both mb s = Some s' \<and> untouched s s' \<and> recv_calls s' = recv_calls s"
proof -
  obtain c1 s1 where a: "E_detach_fd mb READ_FD s = Some (c1, s1)" "untouched s s1" "recv_calls s1 = recv_calls s"
    using detach_untouched by blast
  obtain c2 s2 where b: "E_detach_fd mb EXCEPT_FD s1 = Some (c2, s2)" "untouched s1 s2" "recv_calls s2 = recv_calls s1"
    using detach_untouched by blast
  show ?thesis using a b untouched_trans by (auto simp: detach_both_def)
qed

lemma attach_untouched:
  assumes "0 \<le> mb" and "mb < FD_SETSIZE" and "ty \<in> {READ_FD, EXCEPT_FD}"
  shows "\<exists>c s'. E_attach_fd mb ty f code LOW_PRIORITY s = Some (c, s') \<and> untouched s s'"
  using assms
  by (auto simp: E_attach_fd_def Let_def prio_defs READ_FD_def EXCEPT_FD_def NUM_FDTYPES_def FD_SETSIZE_def set_queue_def
      set_mask_def untouched_def quiet_def split: option.split)

lemma attach_both_untouched:
  assumes "0 \<le> mb" and "mb < FD_SETSIZE"
  shows "\<exists>s'. attach_both mb f code s = Some s' \<and> untouched s s'"
proof -
  obtain c1 s1 where a: "E_attach_fd mb READ_FD f code LOW_PRIORITY s = Some (c1, s1)" "untouched s s1"
    using attach_untouched [OF assms, of READ_FD] by blast
  obtain c2 s2 where b: "E_attach_fd mb EXCEPT_FD f code LOW_PRIORITY s1 = Some (c2, s2)" "untouched s1 s2"
    using attach_untouched [OF assms, of EXCEPT_FD] by blast
  show ?thesis using a b untouched_trans by (auto simp: attach_both_def)
qed

section \<open>Out and in\<close>

lemma count_quiet: "quiet s (count_sessions d s)"
  by (simp add: quiet_def count_sessions_def upd_dmn_def upd_status_def)

lemma denied_spec:
  assumes "sessions_ok s L" and "ses \<in> set L" and "Is_preauth_session (ss_status (Sessions s ses))"
  shows "\<exists>s'. Sess_session_denied ses s = Some s' \<and> sessions_ok s' (remove1 ses L) \<and>
    Num_sessions s' = Num_sessions s - 1 \<and> ss_mbox (Sessions s ses) \<in> set (closed s')"
proof -
  let ?mb = "ss_mbox (Sessions s ses)"
  let ?s1 = "close_mbox ?mb (send_char ?mb REJECT_AUTH s)"
  have u: "untouched s (send_char ?mb REJECT_AUTH s)" by (rule untouched_io)
  have q: "quiet s ?s1" using u by (simp add: untouched_def quiet_def close_mbox_def)
  have n: "Num_sessions ?s1 = Num_sessions s" "?mb \<in> set (closed ?s1)" using u by (simp_all add: untouched_def close_mbox_def)
  have "sessions_ok ?s1 L" using quiet_sessions(1) [OF q] assms(1) by simp
  from remove_session_ok [OF this assms(2)] obtain s2 where
    s2: "Sess_unhash_session ses ?s1 = Some s2" "sessions_ok (Sess_remove_session ses s2) (remove1 ses L)" by blast
  let ?s3 = "Sess_remove_session ses s2"
  let ?s4 = "count_sessions (- 1) ?s3"
  have rest: "Num_sessions s2 = Num_sessions ?s1" "closed s2 = closed ?s1"
    using s2(1) by (auto simp: Sess_unhash_session_def Let_def upd_session_def split: if_splits option.splits)
  have rest2: "Num_sessions ?s3 = Num_sessions s2" "closed ?s3 = closed s2"
    by (simp_all add: Sess_remove_session_def Sess_free_session_def upd_session_def split: option.splits)
  have "sessions_ok ?s4 (remove1 ses L)" using s2(2) quiet_sessions(1) [OF count_quiet] by blast
  then show ?thesis using s2(1) rest rest2 n assms(3)
    by (intro exI [of _ ?s4]) (simp add: Sess_session_denied_def Let_def count_sessions_def upd_dmn_def)
qed

lemma op_bits: "Is_op_session (Clear_preauth_session (Set_op_session st))" "\<not> Is_preauth_session (Clear_preauth_session (Set_op_session st))"
proof -
  have "bit (Clear_preauth_session (Set_op_session st)) 4" "\<not> bit (Clear_preauth_session (Set_op_session st)) 8"
    by (simp_all add: Clear_preauth_session_def Set_op_session_def OP_SESSION_def PRE_AUTH_SESSION_def bit_simps)
  then show "Is_op_session (Clear_preauth_session (Set_op_session st))" "\<not> Is_preauth_session (Clear_preauth_session (Set_op_session st))"
    using and_bit [of _ 4] and_bit [of _ 8]
    by (simp_all add: Is_op_session_def Is_preauth_session_def OP_SESSION_def PRE_AUTH_SESSION_def)
qed

lemma authorized_spec:
  assumes "Is_preauth_session (ss_status (Sessions s ses))" and "0 \<le> ss_mbox (Sessions s ses)" and "ss_mbox (Sessions s ses) < FD_SETSIZE"
    and "private_group (ss_name (Sessions s ses)) (p_name (Sess_My s)) = Some grp"
  shows "\<exists>s'. Sess_session_authorized ses s = Some s' \<and> (sessions_ok s L \<longrightarrow> sessions_ok s' L) \<and>
    Is_op_session (ss_status (Sessions s' ses)) \<and> \<not> Is_preauth_session (ss_status (Sessions s' ses)) \<and>
    (\<forall>m. Sess_get_session_index m s' = Sess_get_session_index m s) \<and>
    Num_sessions s' = Num_sessions s \<and> closed s' = closed s"
proof -
  let ?mb = "ss_mbox (Sessions s ses)"
  define s1 where "s1 = upd_session ses (\<lambda>t. t\<lparr>ss_mess := []\<rparr>) s"
  have mb: "ss_mbox (Sessions s1 ses) = ?mb" by (simp add: s1_def)
  define s2 where "s2 = send_char ?mb SP_MINOR_VERSION (send_char ?mb SP_MAJOR_VERSION (send_char ?mb ACCEPT_SESSION s1))"
  define s3 where "s3 = (if version_code (ss_lib_version (Sessions s2 ses)) \<ge> 31500 then send_char ?mb SP_PATCH_VERSION s2 else s2)"
  define s4 where "s4 = send_to ?mb (cstr grp) (send_char ?mb (int (length (cstr grp))) s3)"
  note io = untouched_io
  have u2: "untouched s1 s2" unfolding s2_def by (intro io(2) untouched_trans [OF _ io(2)])
  have u3: "untouched s1 s3" unfolding s3_def using u2 untouched_trans [OF u2 io(2)] by simp
  have u4: "untouched s1 s4" unfolding s4_def by (intro u3 untouched_trans [OF _ io(1)] untouched_trans [OF _ io(2)])
  from attach_both_untouched [OF assms(2,3)] obtain s5 where
    s5: "attach_both ?mb Sess_read_fd (ss_type (Sessions s4 ses)) s4 = Some s5" "untouched s4 s5" by blast
  have u5: "untouched s1 s5" by (rule untouched_trans [OF u4 s5(2)])
  let ?f = "\<lambda>t. t\<lparr>ss_status := Clear_preauth_session (Set_op_session (ss_status t)),
       ss_read := Message_reset_current_location\<lparr>in_mess_head := True\<rparr>, ss_write := Message_reset_current_location\<rparr>"
  have "Sess_My s3 = Sess_My s" "ss_name (Sessions s3 ses) = ss_name (Sessions s ses)"
    using u3 by (simp_all add: untouched_def quiet_def s1_def upd_session_def)
  then have grp: "private_group (ss_name (Sessions s3 ses)) (p_name (Sess_My s3)) = Some grp" using assms(4) by simp
  have r: "Sess_session_authorized ses s = Some (upd_session ses ?f s5)"
    unfolding Sess_session_authorized_def Let_def s1_def [symmetric] mb s2_def [symmetric] s3_def [symmetric] grp
    using assms(1) s5(1) by (simp add: s4_def [symmetric])
  have q1: "quiet s s1" unfolding s1_def by (rule quiet_mess(2))
  have q: "quiet s s5" by (rule quiet_trans [OF q1]) (use u5 in \<open>simp add: untouched_def\<close>)
  have n1: "Num_sessions s1 = Num_sessions s" "closed s1 = closed s" by (simp_all add: s1_def upd_session_def)
  have links: "sessions_ok (upd_session ses ?f s5) L = sessions_ok s5 L"
    "Sess_get_session_index m (upd_session ses ?f s5) = Sess_get_session_index m s5" for m
  proof -
    have "nexts (upd_session ses ?f s5) = nexts s5" "prevs (upd_session ses ?f s5) = prevs s5"
      "hashes (upd_session ses ?f s5) = hashes s5" "mbox_at (upd_session ses ?f s5) = mbox_at s5"
      "name_at (upd_session ses ?f s5) = name_at s5"
      by (simp_all add: nexts_def prevs_def hashes_def mbox_at_def name_at_def fun_eq_iff)
    then show "sessions_ok (upd_session ses ?f s5) L = sessions_ok s5 L"
      by (simp add: sessions_ok_def sorted_ok_def hash_ok_def)
    show "Sess_get_session_index m (upd_session ses ?f s5) = Sess_get_session_index m s5"
      by (rule get_session_index_cong) (simp_all add: same_chains_def)
  qed
  have "Sess_get_session_index m s5 = Sess_get_session_index m s" for m
    using q by (intro get_session_index_cong) (simp_all add: same_chains_def quiet_def)
  then show ?thesis using r q links quiet_sessions(1) [OF q, of L] u5
    by (simp add: untouched_def op_bits n1 upd_session_def)
qed

section \<open>The answer of a client\<close>

definition grants :: "'a acm_state_scheme \<Rightarrow> byte list \<Rightarrow> int32u \<Rightarrow> bool" where
  "grants a bs address \<longleftrightarrow> asked bs \<noteq> [] \<and>
     list_all (\<lambda>n. Acm_auth_query_allowed n a \<and> says_yes a address (method_of a n)) (asked bs) \<and>
     list_all (\<lambda>i. ai_required (Auth_Methods a ! i) \<longrightarrow> says_yes a address i) [0..<length (Auth_Methods a)]"

text \<open>What the daemon is configured with, and a client that names at most two methods, none twice.\<close>

definition acm_ok :: "'a acm_state_scheme \<Rightarrow> acp_ops \<Rightarrow> bool" where
  "acm_ok a ops \<longleftrightarrow> length (Auth_Methods a) \<le> MAX_AUTH_METHODS \<and> rules_ok a \<and> Acm_acp_fill_ops a = Some ops"

definition answer_ok :: "'a acm_state_scheme \<Rightarrow> byte list \<Rightarrow> bool" where
  "answer_ok a bs \<longleftrightarrow> length bs = 90 \<and> length (asked bs) \<le> 2 \<and> distinct (map (method_of a) (asked bs))"

lemma Auth_core:
  assumes ok: "sessions_ok s L" and ix: "Sess_get_session_index mbox s = Some (Some ses)"
    and pre: "Is_preauth_session (ss_status (Sessions s ses))" and mb: "0 \<le> mbox" "mbox < FD_SETSIZE"
    and grp: "private_group (ss_name (Sessions s ses)) (p_name (Sess_My s)) = Some grp"
    and rcv: "recv_ret s (recv_calls s) mbox 90 = Received bs" and ans: "answer_ok a bs" and acm: "acm_ok a ops"
  shows "\<exists>s'. Sess_recv_client_auth mbox a s = Some s' \<and>
    (if grants a bs (ss_address (Sessions s ses)) \<and> acp_open_connection ops (ss_name (Sessions s ses))
     then sessions_ok s' L \<and> Sess_get_session_index mbox s' = Some (Some ses) \<and>
       Is_op_session (ss_status (Sessions s' ses)) \<and> \<not> Is_preauth_session (ss_status (Sessions s' ses)) \<and>
       Num_sessions s' = Num_sessions s \<and> closed s' = closed s
     else sessions_ok s' (remove1 ses L) \<and> Num_sessions s' = Num_sessions s - 1 \<and> mbox \<in> set (closed s'))"
proof -
  have ses: "ses \<in> set L" "ss_mbox (Sessions s ses) = mbox"
    using Session_lookups_core [OF ok, of mbox "[]"] ix by (simp_all add: mbox_at_def)
  then have small: "ses < MAX_SESSIONS" using ok by (auto simp: sessions_ok_def sorted_ok_def)
  obtain s1 where s1: "detach_both mbox s = Some s1" "untouched s s1" "recv_calls s1 = recv_calls s"
    using detach_both_untouched by blast
  define s2 where "s2 = snd (sock_recv mbox 90 s1)"
  have b: "length bs = 90" "length (asked bs) \<le> 2" "distinct (map (method_of a) (asked bs))" using ans by (simp_all add: answer_ok_def)
  have "fst (sock_recv mbox 90 s1) = Received bs"
    using rcv s1 b(1) by (simp add: sock_recv_def Let_def untouched_def)
  then have got: "sock_recv mbox (MAX_AUTH_NAME * MAX_AUTH_METHODS) s1 = (Received bs, s2)"
    by (simp add: s2_def prod_eq_iff MAX_AUTH_NAME_def MAX_AUTH_METHODS_def)
  have u2: "untouched s s2" unfolding s2_def by (rule untouched_trans [OF s1(2) untouched_io(3)])
  define s3 where "s3 = upd_session ses (\<lambda>t. t\<lparr>ss_acp_ops := ops\<rparr>) s2"
  have q3: "quiet s s3" using u2 by (simp add: untouched_def quiet_def s3_def upd_session_def)
  have f3: "ss_address (Sessions s3 ses) = ss_address (Sessions s ses)" "ss_name (Sessions s3 ses) = ss_name (Sessions s ses)"
    "ss_acp_ops (Sessions s3 ses) = ops" "ss_mbox (Sessions s3 ses) = mbox" "ss_status (Sessions s3 ses) = ss_status (Sessions s ses)"
    "Num_sessions s3 = Num_sessions s" "closed s3 = closed s" "Sess_My s3 = Sess_My s"
    using u2 ses(2) q3 by (simp_all add: untouched_def quiet_def s3_def upd_session_def)
  have q2: "quiet s s2" using u2 by (simp add: untouched_def)
  have ok2: "sessions_ok s2 L" "sessions_ok s3 L" using ok quiet_sessions(1) [OF q2] quiet_sessions(1) [OF q3] by simp_all
  have ix3: "Sess_get_session_index m s3 = Sess_get_session_index m s" for m
    using q3 by (intro get_session_index_cong) (simp_all add: same_chains_def quiet_def)
  have den2: "\<exists>s'. Sess_session_denied ses s2 = Some s' \<and> sessions_ok s' (remove1 ses L) \<and>
      Num_sessions s' = Num_sessions s - 1 \<and> mbox \<in> set (closed s')"
    using denied_spec [OF ok2(1) ses(1)] pre u2 ses(2) by (simp add: untouched_def)
  have den3: "\<exists>s'. Sess_session_denied ses s3 = Some s' \<and> sessions_ok s' (remove1 ses L) \<and>
      Num_sessions s' = Num_sessions s - 1 \<and> mbox \<in> set (closed s')"
    using denied_spec [OF ok2(2) ses(1)] pre f3 by simp
  have run: "Sess_recv_client_auth mbox a s = do {
       good \<leftarrow> all_allowed a bs;
       if \<not> good then Sess_session_denied ses s2
       else do {
         ops \<leftarrow> Acm_acp_fill_ops a;
         let s3 = upd_session ses (\<lambda>t. t\<lparr>ss_acp_ops := ops\<rparr>) s2;
         info \<leftarrow> Acm_auth_create_sess_info mbox bs a;
         case info of None \<Rightarrow> Sess_session_denied ses s3
         | Some h \<Rightarrow> do {
             f \<leftarrow> Acm_auth_get_auth_client_connection (hd (required_auth_methods h)) a;
             case f of None \<Rightarrow> Sess_session_denied ses s3 | Some g \<Rightarrow> auth_open a g h s3 } } }"
    using ix small pre s1(1) got b(1)
    by (simp add: Sess_recv_client_auth_def MAX_AUTH_NAME_def MAX_AUTH_METHODS_def del: all_allowed.simps)
  have fill: "Acm_acp_fill_ops a = Some ops" and len: "length (Auth_Methods a) \<le> MAX_AUTH_METHODS" and rules: "rules_ok a"
    using acm by (simp_all add: acm_ok_def)
  show ?thesis
  proof (cases "list_all (\<lambda>n. Acm_auth_query_allowed n a) (asked bs)")
    case False
    then have "\<not> grants a bs (ss_address (Sessions s ses))" by (auto simp: grants_def list_all_iff)
    then show ?thesis using den2 False by (simp add: run all_allowed_asked [OF b(1,2)] del: all_allowed.simps)
  next
    case all: True
    show ?thesis
    proof (cases "asked bs = []")
      case True
      then have "client_methods a bs [] = Some []" using client_methods_asked [OF b(1,2) all] by simp
      then have "Acm_auth_create_sess_info mbox bs a = Some None" by (simp add: Acm_auth_create_sess_info_def del: client_methods.simps)
      moreover have "\<not> grants a bs (ss_address (Sessions s ses))" using True by (simp add: grants_def)
      ultimately show ?thesis using den3 all
        by (simp add: run all_allowed_asked [OF b(1,2)] fill s3_def [symmetric] Let_def del: all_allowed.simps)
    next
      case False
      from sess_info_asked [OF len b(1,2) all b(3) False] obtain ms where
        ms: "ms \<noteq> []" "distinct ms" "length ms \<le> MAX_AUTH_METHODS"
          "set ms = set (map (method_of a) (asked bs)) \<union> {i. i < length (Auth_Methods a) \<and> ai_required (Auth_Methods a ! i)}"
          "Acm_auth_create_sess_info mbox bs a = Some (Some \<lparr>sa_mbox = mbox, num_required_auths = length ms, completed_required_auths = 0,
             required_auth_methods = ms, required_auth_results = replicate MAX_AUTH_METHODS False\<rparr>)" by blast
      let ?h = "\<lparr>sa_mbox = mbox, num_required_auths = length ms, completed_required_auths = 0,
             required_auth_methods = ms, required_auth_results = replicate MAX_AUTH_METHODS False\<rparr>"
      have known: "\<forall>i \<in> set ms. i < length (Auth_Methods a)"
        using ms(4) all find_index_less by (fastforce simp: list_all_iff query_allowed acm_authname_to_type_def)
      then have "hd ms < length (Auth_Methods a)" using ms(1) hd_in_set by blast
      then have hd: "Acm_auth_get_auth_client_connection (hd ms) a = Some (Some (ai_ops (Auth_Methods a ! hd ms)))"
        using len by (simp add: Acm_auth_get_auth_client_connection_def)
      have "Sess_recv_client_auth mbox a s = auth_open a (ai_ops (Auth_Methods a ! hd ms)) ?h s3"
        using all ms(5) hd by (simp add: run all_allowed_asked [OF b(1,2)] fill s3_def [symmetric] Let_def del: all_allowed.simps)
      also have "\<dots> = Sess_session_report_auth_result a ?h (says_yes a (ss_address (Sessions s ses)) (hd ms)) s3"
        using method_answers [OF rules, of mbox s3 ses "hd ms"] ix ix3 f3(1) by (simp add: auth_open_def del: Sess_session_report_auth_result.simps)
      also have "\<dots> = let_in ses ((\<forall>i < completed_required_auths ?h. required_auth_results ?h ! i) \<and>
          says_yes a (ss_address (Sessions s ses)) (hd ms) \<and>
          (\<forall>i < num_required_auths ?h. completed_required_auths ?h < i \<longrightarrow>
             says_yes a (ss_address (Sessions s3 ses)) (required_auth_methods ?h ! i))) s3"
        by (rule report_let_in) (use ix ix3 small rules ms(1,3) known len in \<open>simp_all\<close>)
      also have "\<dots> = let_in ses (\<forall>i \<in> set ms. says_yes a (ss_address (Sessions s ses)) i) s3"
        using ms(1) f3(1) by (cases ms) (auto simp: all_set_conv_all_nth nth_Cons' gr0_conv_Suc intro!: arg_cong [where f = "\<lambda>b. let_in ses b s3"])
      also have "(\<forall>i \<in> set ms. says_yes a (ss_address (Sessions s ses)) i) \<longleftrightarrow> grants a bs (ss_address (Sessions s ses))"
        using ms(4) all False by (auto simp: grants_def list_all_iff)
      finally have r: "Sess_recv_client_auth mbox a s = let_in ses (grants a bs (ss_address (Sessions s ses))) s3" .
      show ?thesis
      proof (cases "grants a bs (ss_address (Sessions s ses)) \<and> acp_open_connection ops (ss_name (Sessions s ses))")
        case True
        then have "Sess_recv_client_auth mbox a s = Sess_session_authorized ses s3" using r f3 by (simp add: let_in_def)
        moreover have "\<exists>s'. Sess_session_authorized ses s3 = Some s' \<and> (sessions_ok s3 L \<longrightarrow> sessions_ok s' L) \<and>
            Is_op_session (ss_status (Sessions s' ses)) \<and> \<not> Is_preauth_session (ss_status (Sessions s' ses)) \<and>
            (\<forall>m. Sess_get_session_index m s' = Sess_get_session_index m s3) \<and>
            Num_sessions s' = Num_sessions s3 \<and> closed s' = closed s3"
          by (rule authorized_spec) (use pre mb grp f3 in simp_all)
        ultimately show ?thesis using True ok2(2) ix ix3 f3 by auto
      next
        case False
        then have "Sess_recv_client_auth mbox a s = Sess_session_denied ses s3"
          using r f3 by (auto simp: let_in_def)
        then show ?thesis unfolding if_not_P [OF False] using den3 by simp
      qed
    qed
  qed
qed

text \<open>
  C35: The answer of a client that was sent the list of methods decides its session, whatever the
  methods and rules: if every method it names is enabled and agrees, every required method agrees and
  the policy lets it in, its session becomes operational and stays where it is in the table; in every
  other case, a client that names no method included, it is closed, leaves the table and is counted out.
\<close>

theorem Client_auth_decides:
  assumes "sessions_ok s L" and "Sess_get_session_index mbox s = Some (Some ses)"
    and "Is_preauth_session (ss_status (Sessions s ses))" and "0 \<le> mbox" and "mbox < FD_SETSIZE"
    and "private_group (ss_name (Sessions s ses)) (p_name (Sess_My s)) = Some grp"
    and "recv_ret s (recv_calls s) mbox 90 = Received bs" and "answer_ok a bs" and "acm_ok a ops"
  shows "\<exists>s'. Sess_recv_client_auth mbox a s = Some s' \<and>
    (if grants a bs (ss_address (Sessions s ses)) \<and> acp_open_connection ops (ss_name (Sessions s ses))
     then sessions_ok s' L \<and> Sess_get_session_index mbox s' = Some (Some ses) \<and>
       Is_op_session (ss_status (Sessions s' ses)) \<and> \<not> Is_preauth_session (ss_status (Sessions s' ses)) \<and>
       Num_sessions s' = Num_sessions s \<and> closed s' = closed s
     else sessions_ok s' (remove1 ses L) \<and> Num_sessions s' = Num_sessions s - 1 \<and> mbox \<in> set (closed s'))"
  by (rule Auth_core [OF assms])

text \<open>A client at 10.1.2.3 asks for \<open>NULL\<close>; \<open>IP\<close> is required, with a rule for 10.0.0.0/8.\<close>

definition sample_acm :: acm_state where
  "sample_acm = \<lparr>Auth_Methods = [\<lparr>ai_name = name_NULL, ai_enabled = True, ai_required = False, ai_ops = Null_ops\<rparr>,
       \<lparr>ai_name = name_IP, ai_enabled = False, ai_required = True, ai_ops = IP_ops\<rparr>],
     ACP_Methods = [\<lparr>ac_name = name_PERMIT, ac_ops = permit_all\<rparr>], AccessControlPolicy = 0,
     Allow_Rules = [\<lparr>network_address = 0x0a000000, prefix_length = 8\<rparr>], IP_File_Loaded = True\<rparr>"

definition null_answer :: "byte list" where "null_answer = name_NULL @ replicate 86 0"

definition asked_client :: "nat \<Rightarrow> server" where
  "asked_client n = upd_session n (\<lambda>x. x\<lparr>ss_status := PRE_AUTH_SESSION, ss_address := 0x0a010203\<rparr>)
     ((sample_server 0)\<lparr>recv_ret := (\<lambda>_ _ _. Received null_answer)\<rparr>)"

theorem Client_auth_decides_witness:
  "\<exists>n s'. Sess_recv_client_auth 7 sample_acm (asked_client n) = Some s' \<and> sessions_ok s' [n] \<and>
     Is_op_session (ss_status (Sessions s' n)) \<and> \<not> Is_op_session (ss_status (Sessions (asked_client n) n))"
proof -
  obtain n where n: "sessions_ok one_client [n]" "mbox_at one_client n = 7" "name_at one_client n = [97]" using one_client_ok by blast
  let ?s = "asked_client n"
  have t: "nexts ?s = nexts one_client" "prevs ?s = prevs one_client" "hashes ?s = hashes one_client"
    "mbox_at ?s = mbox_at one_client" "name_at ?s = name_at one_client" "Sessions_head ?s = Sessions_head one_client"
    "Sessions_tail ?s = Sessions_tail one_client" "Sessions_free ?s = Sessions_free one_client"
    "Sessions_hash_head ?s = Sessions_hash_head one_client"
    by (simp_all add: asked_client_def nexts_def prevs_def hashes_def mbox_at_def name_at_def fun_eq_iff upd_session_def)
  then have ok: "sessions_ok ?s [n]" using n(1) by (simp add: sessions_ok_def sorted_ok_def hash_ok_def)
  have ix: "Sess_get_session_index 7 ?s = Some (Some n)"
    using Session_lookups_core [OF ok, of 7 "[]"] n(2) t by (auto split: option.splits)
  have st: "ss_status (Sessions ?s n) = PRE_AUTH_SESSION" "ss_address (Sessions ?s n) = 0x0a010203"
    "recv_ret ?s (recv_calls ?s) 7 90 = Received null_answer" "Sess_My ?s = named_proc 0"
    by (simp_all add: asked_client_def upd_session_def sample_server_def sess_table.defs sess_layer.defs)
  have nm: "cstr (ss_name (Sessions ?s n)) = [97]" using n(3) fun_cong [OF t(5), of n] by (simp add: name_at_def)
  have "private_group (ss_name (Sessions ?s n)) (p_name (Sess_My ?s)) = private_group [97] ''x''"
    using nm by (simp add: private_group_def st(4) named_proc_def cstr_def)
  moreover have "private_group [97] ''x'' \<noteq> None" by code_simp
  ultimately obtain grp where grp: "private_group (ss_name (Sessions ?s n)) (p_name (Sess_My ?s)) = Some grp" by auto
  have d: "answer_ok sample_acm null_answer" "grants sample_acm null_answer 0x0a010203" by code_simp+
  have a: "acm_ok sample_acm permit_all" by (simp add: acm_ok_def rules_ok_def Acm_acp_fill_ops_def sample_acm_def MAX_AUTH_METHODS_def)
  have p: "Is_preauth_session (ss_status (Sessions ?s n))" "\<not> Is_op_session (ss_status (Sessions ?s n))" unfolding st by code_simp+
  have fd: "(0 :: int) \<le> 7" "7 < FD_SETSIZE" by (simp_all add: FD_SETSIZE_def)
  from Client_auth_decides [OF ok ix p(1) fd grp st(3) d(1) a] show ?thesis
    using p(2) d(2) st(2) by (intro exI [of _ n]) (auto simp: permit_all_def)
qed

end
