(* ===== verification/Sp_connect.thy ===== *)
theory Sp_connect
  imports Sp_multicast Authentication
begin

text \<open>
  Connecting, in \<open>libspread/sp.c\<close>: the name of a daemon, the greeting, the authentication methods and the answer
  of the daemon.  What a host name stands for and what \<open>connect\<close> returns are parameters.  The time limit of
  a connection is not modelled: running out of it is one of the ways a \<open>recv\<close> or \<open>connect\<close> fails.
\<close>

section \<open>The name of a daemon\<close>

text \<open>A decimal number as \<open>sscanf\<close> reads it, and what is left.  A number outside the range of int has no meaning.\<close>

definition is_space :: "byte \<Rightarrow> bool" where "is_space b \<longleftrightarrow> b = 32 \<or> 9 \<le> b \<and> b \<le> 13"
definition is_digit :: "byte \<Rightarrow> bool" where "is_digit b \<longleftrightarrow> 48 \<le> b \<and> b \<le> 57"

definition decimal :: "byte list \<Rightarrow> int" where "decimal = foldl (\<lambda>n b. 10 * n + (uint b - 48)) 0"

definition scan_int :: "byte list \<Rightarrow> (int \<times> byte list) option option" where
  "scan_int bs = (let r = dropWhile is_space bs;
       neg = (r \<noteq> [] \<and> hd r = 45); r1 = (if r \<noteq> [] \<and> (hd r = 45 \<or> hd r = 43) then tl r else r);
       ds = takeWhile is_digit r1; v = (if neg then - decimal ds else decimal ds) in
     if ds = [] then Some None else do { exit_if (\<not> int32_range v); Some (Some (v, dropWhile is_digit r1)) })"

text \<open>A string without spaces, as \<open>%s\<close> reads it into an array of \<open>n\<close> bytes.\<close>

definition scan_word :: "nat \<Rightarrow> byte list \<Rightarrow> byte list option option" where
  "scan_word n bs = (let w = takeWhile (\<lambda>b. \<not> is_space b) (dropWhile is_space bs) in
     if w = [] then Some None else do { exit_if (length w \<ge> n); Some (Some w) })"

definition ILLEGAL_SPREAD :: int where "ILLEGAL_SPREAD = - 1"
definition COULD_NOT_CONNECT :: int where "COULD_NOT_CONNECT = - 2"

datatype sp_addr = Unix_socket int | Inet_socket "byte list" int \<comment> \<open>the address as it lies in memory\<close>

text \<open>The limit of the system the library is built on (Linux).\<close>

definition MAXHOSTNAMELEN :: nat where "MAXHOSTNAMELEN = 64"
definition DEFAULT_SPREAD_PORT :: string where "DEFAULT_SPREAD_PORT = ''4803''"

text \<open>The first three dots are replaced by spaces.\<close>

fun dots_to_spaces :: "nat \<Rightarrow> byte list \<Rightarrow> byte list option" where
  "dots_to_spaces 0 bs = Some bs"
| "dots_to_spaces (Suc n) bs = (if 46 \<notin> set bs then None
     else let w = takeWhile (\<lambda>b. b \<noteq> 46) bs in dots_to_spaces n (w @ 32 # drop (Suc (length w)) bs))"

text \<open>
  The address of a host in numbers.  It is put together as a number in the order of the host and used
  as it lies in memory.
\<close>

definition numeric_host :: "byte list \<Rightarrow> byte list option option" where
  "numeric_host host = (case dots_to_spaces 3 host of None \<Rightarrow> Some None
     | Some h \<Rightarrow> do {
         a \<leftarrow> scan_int h;
         case a of None \<Rightarrow> Some None | Some (i1, r1) \<Rightarrow> do {
         b \<leftarrow> scan_int r1;
         case b of None \<Rightarrow> Some None | Some (i2, r2) \<Rightarrow> do {
         c \<leftarrow> scan_int r2;
         case c of None \<Rightarrow> Some None | Some (i3, r3) \<Rightarrow> do {
         d \<leftarrow> scan_int r3;
         case d of None \<Rightarrow> Some None | Some (i4, r4) \<Rightarrow> do {
           w \<leftarrow> scan_word 20 r4;
           Some (if w \<noteq> None then None else Some (bytes32 (push_bit 24 (word_of_int i1) OR push_bit 16 (word_of_int i2)
             OR push_bit 8 (word_of_int i3) OR word_of_int i4))) } } } } })"

text \<open>Where a daemon listens; \<open>Some None\<close> is the result \<open>ILLEGAL_SPREAD\<close>.\<close>

definition daemon_address :: "(byte list \<Rightarrow> byte list option) \<Rightarrow> byte list option \<Rightarrow> sp_addr option option" where
  "daemon_address gethost spread_name = (let nm = (case spread_name of None \<Rightarrow> [] | Some x \<Rightarrow> cstr x) in
     if length nm > MAXHOSTNAMELEN + 6 then Some None
     else let s_name = (if nm = [] then chars DEFAULT_SPREAD_PORT else nm) in
       if 32 \<in> set s_name then Some None
       else if 64 \<notin> set s_name
       then do {
         p \<leftarrow> scan_int s_name;
         case p of None \<Rightarrow> Some None
         | Some (lport, r) \<Rightarrow> do {
             w \<leftarrow> scan_word 20 r;
             Some (if w \<noteq> None \<or> lport < 0 \<or> lport \<ge> 32 * 1024 then None else Some (Unix_socket lport)) } }
       else do {
         let before = takeWhile (\<lambda>b. b \<noteq> 64) s_name;
         p \<leftarrow> scan_int (before @ 32 # drop (Suc (length before)) s_name);
         case p of None \<Rightarrow> Some None
         | Some (lport, r) \<Rightarrow> do {
             w \<leftarrow> scan_word MAXHOSTNAMELEN r;
             case w of None \<Rightarrow> Some None
             | Some host \<Rightarrow> do {
                 addr \<leftarrow> (case gethost host of Some a \<Rightarrow> Some (Some a) | None \<Rightarrow> numeric_host host);
                 Some (case addr of None \<Rightarrow> None
                   | Some a \<Rightarrow> if lport < 0 \<or> lport \<ge> 32 * 1024 then None else Some (Inet_socket a lport)) } } })"

section \<open>Authentication methods\<close>

record auth_method_info =
  am_name :: "byte list"
  am_authenticate :: "int \<Rightarrow> sp_lib \<Rightarrow> int \<times> sp_lib"

definition sp_null_authenticate :: "int \<Rightarrow> sp_lib \<Rightarrow> int \<times> sp_lib" where
  "sp_null_authenticate fd s = (1, s)"

definition sp_auth_methods_at_start :: "auth_method_info list" where
  "sp_auth_methods_at_start = [\<lparr>am_name = chars ''NULL'', am_authenticate = sp_null_authenticate\<rparr>]"

text \<open>A method that is \<open>None\<close> is a null pointer.\<close>

definition legal_method :: "byte list \<times> (int \<Rightarrow> sp_lib \<Rightarrow> int \<times> sp_lib) option \<Rightarrow> bool" where
  "legal_method m = (case m of (nm, f) \<Rightarrow> length (cstr nm) < MAX_AUTH_NAME \<and> f \<noteq> None)"

definition SP_set_auth_methods ::
  "(byte list \<times> (int \<Rightarrow> sp_lib \<Rightarrow> int \<times> sp_lib) option) list \<Rightarrow> auth_method_info list \<Rightarrow> int \<times> auth_method_info list" where
  "SP_set_auth_methods ms old = (if length ms > MAX_AUTH_METHODS \<or> \<not> list_all legal_method ms then (0, old)
     else (1, map (\<lambda>(nm, f). \<lparr>am_name = cstr nm, am_authenticate = the f\<rparr>) ms))"

definition SP_set_auth_method ::
  "byte list \<Rightarrow> (int \<Rightarrow> sp_lib \<Rightarrow> int \<times> sp_lib) option \<Rightarrow> auth_method_info list \<Rightarrow> int \<times> auth_method_info list" where
  "SP_set_auth_method nm f old = (if \<not> legal_method (nm, f) then (0, old)
     else (1, [\<lparr>am_name = cstr nm, am_authenticate = the f\<rparr>]))"

text \<open>The words of a list, which are separated by single spaces.\<close>

function list_words :: "byte list \<Rightarrow> byte list list" where
  "list_words bs = (let w = takeWhile (\<lambda>b. b \<noteq> 32) bs in
     if length w = length bs then [w] else w # list_words (drop (Suc (length w)) bs))"
  by pat_completeness auto

termination
proof (relation "measure length")
  fix bs w :: "byte list"
  assume "w = takeWhile (\<lambda>b. b \<noteq> 32) bs" "length w \<noteq> length bs"
  then have "bs \<noteq> []" by auto
  then show "(drop (Suc (length w)) bs, bs) \<in> measure length" by (cases bs) auto
qed simp

declare list_words.simps [simp del]

definition valid_auth_method :: "byte list \<Rightarrow> byte list \<Rightarrow> bool option" where
  "valid_auth_method auth_method auth_list = do {
     exit_if (length auth_list \<ge> MAX_AUTH_NAME * MAX_AUTH_METHODS);
     Some (auth_method \<in> set (list_words (cstr auth_list))) }"

section \<open>Connecting\<close>

definition sp_close :: "int \<Rightarrow> sp_lib \<Rightarrow> sp_lib" where
  "sp_close mbox s = s\<lparr>sp_closed := sp_closed s @ [mbox]\<rparr>"

text \<open>What a connection ends with: the result, the mailbox when it succeeds, and what is in \<open>private_group\<close>.\<close>

record sp_joined =
  j_ret :: int
  j_mbox :: "int option"
  j_group :: "byte list"

definition give_up :: "int \<Rightarrow> int \<Rightarrow> byte list \<Rightarrow> sp_lib \<Rightarrow> sp_joined \<times> sp_lib" where
  "give_up ret mbox buf s = (\<lparr>j_ret = ret, j_mbox = None, j_group = buf\<rparr>, sp_close mbox s)"

text \<open>One byte, as a signed character; \<open>None\<close> is the end of the connection.\<close>

definition recv_char :: "int \<Rightarrow> sp_lib \<Rightarrow> int option \<times> sp_lib" where
  "recv_char mbox s = (let (bs, s1) = sp_recv mbox 1 s in (if bs = [] then None else Some (sint (hd bs)), s1))"

fun recv_chars :: "nat \<Rightarrow> int \<Rightarrow> sp_lib \<Rightarrow> int list option \<times> sp_lib" where
  "recv_chars 0 mbox s = (Some [], s)"
| "recv_chars (Suc n) mbox s = (case recv_char mbox s of (None, s1) \<Rightarrow> (None, s1)
     | (Some c, s1) \<Rightarrow> (case recv_chars n mbox s1 of (r, s2) \<Rightarrow> (map_option ((#) c) r, s2)))"

definition clamp_priority :: "int \<Rightarrow> int" where
  "clamp_priority p = (if p < 0 then 0 else if p > 1 then 1 else p)"

definition connect_bytes :: "byte list option \<Rightarrow> int \<Rightarrow> bool \<Rightarrow> byte list" where
  "connect_bytes private_name priority group_membership =
     (let nm = (case private_name of None \<Rightarrow> [] | Some x \<Rightarrow> take MAX_PRIVATE_NAME (cstr x)) in
      [word_of_int SP_MAJOR_VERSION, word_of_int SP_MINOR_VERSION, word_of_int SP_PATCH_VERSION,
       word_of_int ((if group_membership then 1 else 0) + 16 * clamp_priority priority), of_nat (length nm)] @ nm)"

text \<open>
  The list of methods the daemon allows, in one \<open>recv\<close>; what did not come in it would be read uninitialised.
  A negative length is the code the daemon refuses with.
\<close>

definition recv_auth_list :: "int \<Rightarrow> sp_lib \<Rightarrow> (int + byte list) option \<times> sp_lib" where
  "recv_auth_list mbox s = (case recv_char mbox s of (None, s1) \<Rightarrow> (Some (Inl CONNECTION_CLOSED), s1)
     | (Some n, s1) \<Rightarrow>
         if n > int (MAX_AUTH_NAME * MAX_AUTH_METHODS) then (Some (Inl CONNECTION_CLOSED), s1)
         else if n < 0 then (Some (Inl n), s1)
         else if n = 0 then (Some (Inr []), s1)
         else (case sp_recv mbox (nat n) s1 of (bs, s2) \<Rightarrow>
           if bs = [] then (Some (Inl CONNECTION_CLOSED), s2)
           else if length bs < nat n then (None, s2) else (Some (Inr bs), s2)))"

definition auth_choice :: "auth_method_info list \<Rightarrow> byte list" where
  "auth_choice ms = (let cs = concat (map (\<lambda>m. strncpy MAX_AUTH_NAME (am_name m)) ms) in
     cs @ replicate (MAX_AUTH_NAME * MAX_AUTH_METHODS - length cs) 0)"

text \<open>Every method is run, also after one has failed.\<close>

fun run_methods :: "auth_method_info list \<Rightarrow> int \<Rightarrow> sp_lib \<Rightarrow> bool \<times> sp_lib" where
  "run_methods [] mbox s = (True, s)"
| "run_methods (m # ms) mbox s = (case am_authenticate m mbox s of (r, s1) \<Rightarrow>
     case run_methods ms mbox s1 of (ok, s2) \<Rightarrow> (r \<noteq> 0 \<and> ok, s2))"

text \<open>The answer: whether the session is accepted, the version of the daemon, and the private group.\<close>

definition enter_sp_session :: "int \<Rightarrow> byte list \<Rightarrow> sp_lib \<Rightarrow> (sp_joined \<times> sp_lib) option" where
  "enter_sp_session mbox buf s = do {
     exit_if (length (Sp_sessions s) \<ge> MAX_SESSIONS);
     nm \<leftarrow> strcpy MAX_GROUP_NAME buf;
     Some (\<lparr>j_ret = ACCEPT_SESSION, j_mbox = Some mbox, j_group = buf\<rparr>,
       s\<lparr>Sp_sessions := Sp_sessions s @ [\<lparr>sp_mbox = mbox, sp_state = SESS_ACTIVE, sp_private_group = nm,
         recv_saved_head = \<lparr>mh_type = 0, mh_private_group_name = [], mh_num_groups = 0, mh_hint = 0, mh_data_len = 0\<rparr>,
         recv_message_saved = False\<rparr>]\<rparr>) }"

definition recv_answer :: "int \<Rightarrow> int \<Rightarrow> byte list \<Rightarrow> sp_lib \<Rightarrow> (sp_joined \<times> sp_lib) option" where
  "recv_answer mbox priority buf s = (case recv_char mbox s of (None, s1) \<Rightarrow> Some (give_up CONNECTION_CLOSED mbox buf s1)
     | (Some c, s1) \<Rightarrow>
         if c \<noteq> ACCEPT_SESSION then Some (give_up c mbox buf s1)
         else (case recv_chars 3 mbox s1 of (None, s2) \<Rightarrow> Some (give_up CONNECTION_CLOSED mbox buf s2)
           | (Some v, s2) \<Rightarrow>
               let code = v ! 0 * 10000 + v ! 1 * 100 + v ! 2 in
               if code < 30100 \<or> code < 30800 \<and> priority > 0 then Some (give_up REJECT_VERSION mbox buf s2)
               else (case recv_char mbox s2 of (None, s3) \<Rightarrow> Some (give_up CONNECTION_CLOSED mbox buf s3)
                 | (Some n, s3) \<Rightarrow> do {
                     exit_if (n < 0);
                     let (bs, s4) = sp_recv mbox (nat n) s3;
                     if bs = [] then Some (give_up CONNECTION_CLOSED mbox buf s4)
                     else do {
                       b \<leftarrow> put_bytes buf 0 bs;
                       b2 \<leftarrow> put_bytes b n [0];
                       enter_sp_session mbox b2 s4 } })))"

definition SP_connect_on ::
  "auth_method_info list \<Rightarrow> int \<Rightarrow> byte list option \<Rightarrow> int \<Rightarrow> bool \<Rightarrow> byte list \<Rightarrow> sp_lib \<Rightarrow> (sp_joined \<times> sp_lib) option" where
  "SP_connect_on methods mbox private_name priority group_membership buf s = (
     let conn = connect_bytes private_name priority group_membership; (r, s1) = sp_send mbox conn s in
     if r \<noteq> int (length conn) then Some (give_up CONNECTION_CLOSED mbox buf s1)
     else (case recv_auth_list mbox s1 of (None, s2) \<Rightarrow> None
       | (Some (Inl c), s2) \<Rightarrow> Some (give_up c mbox buf s2)
       | (Some (Inr allowed), s2) \<Rightarrow> do {
           valid \<leftarrow> those (map (\<lambda>m. valid_auth_method (am_name m) allowed) methods);
           if \<not> list_all (\<lambda>v. v) valid then Some (give_up REJECT_AUTH mbox buf s2)
           else (let (r3, s3) = sp_send mbox (auth_choice methods) s2 in
             if r3 \<noteq> int (MAX_AUTH_NAME * MAX_AUTH_METHODS) then Some (give_up CONNECTION_CLOSED mbox buf s3)
             else (let (ok, s4) = run_methods methods mbox s3 in
               if \<not> ok then Some (give_up REJECT_AUTH mbox buf s4)
               else recv_answer mbox (clamp_priority priority) buf s4)) }))"

text \<open>\<open>connect_to\<close> is the new connection, or how it failed: without a mailbox or with one that is closed again.\<close>

definition SP_connect_timeout ::
  "(byte list \<Rightarrow> byte list option) \<Rightarrow> (sp_addr \<Rightarrow> int \<times> bool) \<Rightarrow> auth_method_info list \<Rightarrow> byte list option \<Rightarrow> byte list option \<Rightarrow>
   int \<Rightarrow> bool \<Rightarrow> byte list \<Rightarrow> sp_lib \<Rightarrow> (sp_joined \<times> sp_lib) option" where
  "SP_connect_timeout gethost connect_to methods spread_name private_name priority group_membership buf s = do {
     a \<leftarrow> daemon_address gethost spread_name;
     case a of None \<Rightarrow> Some (\<lparr>j_ret = ILLEGAL_SPREAD, j_mbox = None, j_group = buf\<rparr>, s)
     | Some addr \<Rightarrow> (case connect_to addr of (mbox, ok) \<Rightarrow>
         if mbox < 0 then Some (\<lparr>j_ret = COULD_NOT_CONNECT, j_mbox = None, j_group = buf\<rparr>, s)
         else if \<not> ok then Some (give_up COULD_NOT_CONNECT mbox buf s)
         else SP_connect_on methods mbox private_name priority group_membership buf s) }"

definition SP_connect ::
  "(byte list \<Rightarrow> byte list option) \<Rightarrow> (sp_addr \<Rightarrow> int \<times> bool) \<Rightarrow> auth_method_info list \<Rightarrow> byte list option \<Rightarrow> byte list option \<Rightarrow>
   int \<Rightarrow> bool \<Rightarrow> byte list \<Rightarrow> sp_lib \<Rightarrow> (sp_joined \<times> sp_lib) option" where
  "SP_connect = SP_connect_timeout"

end
