(* ===== verification/Connecting.thy ===== *)
theory Connecting
  imports Sp_connect
begin

text \<open>
  How a client and its daemon get together: the library understands the answer of the daemon, ends with a session
  of its own, and with the name under which the daemon will accept its messages.
\<close>

section \<open>Whole pieces\<close>

text \<open>A connection on which every \<open>send\<close> takes all and every \<open>recv\<close> of at most 90 bytes gets all that has come.\<close>

definition whole_sends :: "int \<Rightarrow> sp_lib \<Rightarrow> bool" where
  "whole_sends mbox s \<longleftrightarrow> (\<forall>k n. sp_send_ret s k mbox n = int n)"

definition whole_pieces :: "sp_lib \<Rightarrow> bool" where
  "whole_pieces s \<longleftrightarrow> (\<forall>k. 90 \<le> sp_piece s k)"

lemma consumed_whole: "consumed mbox n s s' \<Longrightarrow> whole_pieces s' = whole_pieces s \<and> whole_sends m s' = whole_sends m s \<and>
    sp_sent s' = sp_sent s"
  by (auto simp: consumed_def whole_pieces_def whole_sends_def)

lemma recv_whole:
  assumes "whole_pieces s" and "sp_unread s mbox = bs @ rest" and "length bs \<le> 90" and "n = length bs"
  shows "\<exists>s'. sp_recv mbox n s = (bs, s') \<and> consumed mbox n s s'"
proof -
  have "90 \<le> sp_piece s (sp_recvs s)" using assms(1) by (simp add: whole_pieces_def)
  then have "min n (max 1 (sp_piece s (sp_recvs s))) = length bs" using assms(3,4) by (simp add: min_def max_def)
  then show ?thesis using assms(2,4) by (auto simp: sp_recv_def consumed_def Let_def)
qed

lemma char_whole:
  assumes "whole_pieces s" and "sp_unread s mbox = b # rest"
  shows "\<exists>s'. recv_char mbox s = (Some (sint b), s') \<and> consumed mbox 1 s s'"
  using recv_whole [OF assms(1), of mbox "[b]" rest 1] assms(2) by (auto simp: recv_char_def)

lemma chars_whole:
  "whole_pieces s \<Longrightarrow> sp_unread s mbox = bs @ rest \<Longrightarrow>
   \<exists>s'. recv_chars (length bs) mbox s = (Some (map sint bs), s') \<and> consumed mbox (length bs) s s'"
proof (induction bs arbitrary: s)
  case Nil
  then show ?case using consumed_refl by auto
next
  case (Cons b bs)
  from char_whole [OF Cons.prems(1), of mbox b "bs @ rest"] Cons.prems(2) obtain s1 where
    s1: "recv_char mbox s = (Some (sint b), s1)" "consumed mbox 1 s s1" by auto
  have "whole_pieces s1" "sp_unread s1 mbox = bs @ rest"
    using consumed_whole [OF s1(2)] consumed_fields(2) [OF s1(2)] Cons.prems by simp_all
  from Cons.IH [OF this] obtain s2 where
    s2: "recv_chars (length bs) mbox s1 = (Some (map sint bs), s2)" "consumed mbox (length bs) s1 s2" by blast
  show ?case using s1(1) s2(1) consumed_trans [OF s1(2) s2(2)] by auto
qed

lemma send_whole:
  assumes "whole_sends mbox s"
  shows "\<exists>s'. sp_send mbox bs s = (int (length bs), s') \<and> sp_wrote mbox bs s s'"
  using assms by (auto simp: whole_sends_def sp_send_def sp_wrote_def Let_def)

lemma wrote_whole: "sp_wrote mbox bs s s' \<Longrightarrow> whole_pieces s' = whole_pieces s \<and> whole_sends m s' = whole_sends m s \<and>
    sp_unread s' = sp_unread s \<and> Sp_sessions s' = Sp_sessions s \<and> sp_sent s' mbox = sp_sent s mbox @ bs"
  by (auto simp: sp_wrote_def whole_pieces_def whole_sends_def)

section \<open>The answer of the daemon\<close>

definition takes_all :: "'a sess_layer_scheme \<Rightarrow> int \<Rightarrow> bool" where
  "takes_all d mb \<longleftrightarrow> (\<forall>k n. send_ret d k mb n = int n)"

definition answer_bytes :: "byte list \<Rightarrow> byte list" where
  "answer_bytes grp = [1, 4, 0, 0, of_nat (length (cstr grp))] @ cstr grp"

lemma send_to_out:
  assumes "takes_all d mb"
  shows "sock_out (send_to mb bs d) mb = sock_out d mb @ bs" "takes_all (send_to mb bs d) mb"
  using assms by (simp_all add: takes_all_def send_to_def sock_send_def Let_def)

lemma attach_out:
  assumes "attach_both mb f c s = Some s'"
  shows "sock_out s' = sock_out s" "Sess_My s' = Sess_My s" "Sessions s' = Sessions s"
proof -
  have one: "sock_out t' = sock_out t \<and> Sess_My t' = Sess_My t \<and> Sessions t' = Sessions t"
    if "E_attach_fd mb ty f c LOW_PRIORITY t = Some (r, t')" for ty r and t t' :: "'a sess_layer_scheme"
    using that by (auto simp: E_attach_fd_def Let_def set_queue_def set_mask_def split: if_splits option.splits)
  show "sock_out s' = sock_out s" "Sess_My s' = Sess_My s" "Sessions s' = Sessions s"
    using assms one by (auto simp: attach_both_def bind_Some_iff split: option.splits)
qed

lemma char_out: "takes_all d mb \<Longrightarrow> sock_out (send_char mb c d) mb = sock_out d mb @ [word_of_int c] \<and> takes_all (send_char mb c d) mb"
  by (simp add: send_char_def send_to_out)

lemma authorized_out:
  assumes "Sess_session_authorized ses d = Some d'" and "takes_all d (ss_mbox (Sessions d ses))"
    and "31500 \<le> version_code (ss_lib_version (Sessions d ses))"
  shows "\<exists>grp. private_group (ss_name (Sessions d ses)) (p_name (Sess_My d)) = Some grp \<and>
    sock_out d' (ss_mbox (Sessions d ses)) = sock_out d (ss_mbox (Sessions d ses)) @ answer_bytes grp \<and>
    Sess_My d' = Sess_My d \<and> ss_name (Sessions d' ses) = ss_name (Sessions d ses)"
proof -
  let ?mb = "ss_mbox (Sessions d ses)"
  define s1 where "s1 = upd_session ses (\<lambda>t. t\<lparr>ss_mess := []\<rparr>) d"
  have f1: "ss_mbox (Sessions s1 ses) = ?mb" "takes_all s1 ?mb" "sock_out s1 = sock_out d" "Sess_My s1 = Sess_My d"
    "ss_name (Sessions s1 ses) = ss_name (Sessions d ses)" "ss_lib_version (Sessions s1 ses) = ss_lib_version (Sessions d ses)"
    using assms(2) by (simp_all add: s1_def takes_all_def upd_session_def)
  define s2 where "s2 = send_char ?mb SP_MINOR_VERSION (send_char ?mb SP_MAJOR_VERSION (send_char ?mb ACCEPT_SESSION s1))"
  define s3 where "s3 = send_char ?mb SP_PATCH_VERSION s2"
  have keep: "Sessions (send_to m bs t) = Sessions t" "Sess_My (send_to m bs t) = Sess_My t"
    "Sessions (send_char m c t) = Sessions t" "Sess_My (send_char m c t) = Sess_My t" for m bs c and t :: server
    by (simp_all add: send_char_def send_to_def sock_send_def Let_def)
  have k3: "Sessions s3 = Sessions s1" "Sess_My s3 = Sess_My s1" "Sessions s2 = Sessions s1" by (simp_all add: s3_def s2_def keep)
  have o3: "sock_out s3 ?mb = sock_out d ?mb @ [1, 4, 0, 0]" "takes_all s3 ?mb"
    using f1(2,3) by (simp_all add: s3_def s2_def char_out ACCEPT_SESSION_def SP_MAJOR_VERSION_def SP_MINOR_VERSION_def SP_PATCH_VERSION_def)
  have sel: "(if version_code (ss_lib_version (Sessions s2 ses)) \<ge> 31500 then send_char ?mb SP_PATCH_VERSION s2 else s2) = s3"
    using assms(3) f1(6) k3(3) by (simp add: s3_def)
  obtain grp s5 where a: "private_group (ss_name (Sessions d ses)) (p_name (Sess_My d)) = Some grp"
      "attach_both ?mb Sess_read_fd (ss_type (Sessions (send_to ?mb (cstr grp) (send_char ?mb (int (length (cstr grp))) s3)) ses))
        (send_to ?mb (cstr grp) (send_char ?mb (int (length (cstr grp))) s3)) = Some s5"
      "d' = upd_session ses (\<lambda>t. t\<lparr>ss_status := Clear_preauth_session (Set_op_session (ss_status t)),
         ss_read := Message_reset_current_location\<lparr>in_mess_head := True\<rparr>, ss_write := Message_reset_current_location\<rparr>) s5"
    using assms(1) unfolding Sess_session_authorized_def Let_def s1_def [symmetric] f1(1)
    unfolding s2_def [symmetric] unfolding sel unfolding k3 f1(4,5)
    by (auto simp: bind_Some_iff)
  have "sock_out s5 ?mb = sock_out d ?mb @ answer_bytes grp" "Sessions s5 = Sessions s1" "Sess_My s5 = Sess_My s1"
    using attach_out [OF a(2)] o3 k3 by (simp_all add: keep send_to_out char_out answer_bytes_def)
  then show ?thesis using a(1,3) f1 by (intro exI [of _ grp]) (simp add: upd_session_def)
qed

section \<open>The group of the session\<close>

definition names_ok :: "'a sess_layer_scheme \<Rightarrow> nat \<Rightarrow> bool" where
  "names_ok d ses \<longleftrightarrow> (let nm = cstr (ss_name (Sessions d ses)); pn = chars (p_name (Sess_My d)) in
     nm \<noteq> [] \<and> length nm \<le> MAX_PRIVATE_NAME \<and> list_all legal_char nm \<and>
     pn \<noteq> [] \<and> length pn < MAX_PROC_NAME \<and> list_all legal_char pn)"

lemma legal_not: "legal_char b \<Longrightarrow> b \<noteq> 0 \<and> b \<noteq> 35"
  by (auto simp: legal_char_def)

lemma takeWhile_stop: "\<forall>x \<in> set xs. P x \<Longrightarrow> \<not> P y \<Longrightarrow> takeWhile P (xs @ y # ys) = xs \<and> dropWhile P (xs @ y # ys) = y # ys"
  by (induction xs) auto

lemma own_group_known:
  assumes "names_ok d ses" and "private_group (ss_name (Sessions d ses)) (p_name (Sess_My d)) = Some grp"
  shows "known_as grp d ses" "length (cstr grp) < 32" "cstr grp \<noteq> []" "cstr (cstr grp) = cstr grp"
proof -
  define nm where "nm = cstr (ss_name (Sessions d ses))"
  define pn where "pn = chars (p_name (Sess_My d))"
  have ok: "nm \<noteq> []" "length nm \<le> 10" "list_all legal_char nm" "pn \<noteq> []" "length pn < 20" "list_all legal_char pn"
    using assms(1) by (auto simp: names_ok_def nm_def pn_def Let_def MAX_PRIVATE_NAME_def MAX_PROC_NAME_def)
  have z: "\<forall>b \<in> set nm. b \<noteq> 0 \<and> b \<noteq> 35" "\<forall>b \<in> set pn. b \<noteq> 0 \<and> b \<noteq> 35"
    using ok(3,6) legal_not by (auto simp: list_all_iff)
  let ?g = "35 # nm @ 35 # pn"
  have cg: "cstr ?g = ?g" using z by (auto simp: cstr_def takeWhile_eq_all_conv)
  have len: "length ?g < 32" using ok(2,5) by simp
  have grp: "grp = strncpy 32 ?g" using assms(2) by (auto simp: private_group_def strcpy_def nm_def pn_def MAX_GROUP_NAME_eq split: if_splits)
  then have g: "grp = ?g @ replicate (32 - length ?g) 0" 
  proof -
    have "take 32 ?g = ?g" by (rule take_all) (use len in simp)
    moreover have "min (32 - length ?g) 32 = 32 - length ?g" by simp
    ultimately show ?thesis unfolding grp strncpy_def cg take_append take_replicate by (simp only:)
  qed
  have c: "cstr grp = ?g"
  proof -
    have "replicate (32 - length ?g) (0 :: byte) = 0 # replicate (31 - length ?g) 0" using len by (cases "32 - length ?g") auto
    then show ?thesis unfolding g cstr_def using takeWhile_stop [of ?g "\<lambda>b. b \<noteq> 0" 0] z by auto
  qed
  then show "length (cstr grp) < 32" "cstr grp \<noteq> []" "cstr (cstr grp) = cstr grp" using len cg by simp_all
  have same: "strncpy 32 grp = grp" using c grp by (simp add: strncpy_def cg)
  have tl: "tl grp = nm @ 35 # pn @ replicate (32 - length ?g) 0" unfolding g by simp
  have zero: "0 \<in> set (tl grp)" using len unfolding tl by auto
  have str: "cstr (tl grp) = nm @ 35 # pn" using c unfolding cstr_def g by auto
  have hd: "hd grp = 35" unfolding g by simp
  have "G_private_to_names grp = Some (Some (nm, pn))"
    using zero hd takeWhile_stop [of nm "\<lambda>b. b \<noteq> 35" 35 pn] z ok
    by (simp add: G_private_to_names_def str Let_def MAX_PRIVATE_NAME_def MAX_PROC_NAME_def Suc_le_eq)
  then show "known_as grp d ses"
    using same len c by (simp add: known_as_def MAX_GROUP_NAME_eq nm_def pn_def)
qed

section \<open>The library's side\<close>

lemma null_methods: "\<forall>m \<in> set ms. am_authenticate m = sp_null_authenticate \<Longrightarrow> run_methods ms mbox s = (True, s)"
  by (induction ms) (auto simp: sp_null_authenticate_def)

lemma length_auth_choice: "length ms \<le> MAX_AUTH_METHODS \<Longrightarrow> length (auth_choice ms) = MAX_AUTH_NAME * MAX_AUTH_METHODS"
proof -
  have "length (concat (map (\<lambda>m. strncpy MAX_AUTH_NAME (am_name m)) ms)) = MAX_AUTH_NAME * length ms"
    by (induction ms) (simp_all add: strncpy_def)
  then show "length ms \<le> MAX_AUTH_METHODS \<Longrightarrow> length (auth_choice ms) = MAX_AUTH_NAME * MAX_AUTH_METHODS"
    by (simp add: auth_choice_def Let_def MAX_AUTH_NAME_def MAX_AUTH_METHODS_def)
qed

lemma small_char: "n < 128 \<Longrightarrow> sint (of_nat n :: byte) = int n"
  by (simp add: signed_of_nat signed_take_bit_int_eq_self)

lemma auth_list_whole:
  assumes "whole_pieces s" and "sp_unread s mbox = of_nat (length allowed) # allowed @ rest" and "0 < length allowed" "length allowed < 90"
  shows "\<exists>s'. recv_auth_list mbox s = (Some (Inr allowed), s') \<and> consumed mbox (Suc (length allowed)) s s'"
proof -
  obtain s1 where s1: "recv_char mbox s = (Some (int (length allowed)), s1)" "consumed mbox 1 s s1"
    using char_whole [OF assms(1,2)] assms(4) by (auto simp: small_char)
  have "whole_pieces s1" "sp_unread s1 mbox = allowed @ rest"
    using consumed_whole [OF s1(2)] consumed_fields(2) [OF s1(2)] assms(1,2) by simp_all
  from recv_whole [OF this _ refl] assms(4) obtain s2 where
    s2: "sp_recv mbox (length allowed) s1 = (allowed, s2)" "consumed mbox (length allowed) s1 s2" by auto
  show ?thesis using s1 s2 assms(3,4) consumed_trans [OF s1(2) s2(2)]
    by (auto simp: recv_auth_list_def MAX_AUTH_NAME_def MAX_AUTH_METHODS_def)
qed

lemma find_index_snoc: "find_index P xs = None \<Longrightarrow> P x \<Longrightarrow> find_index P (xs @ [x]) = Some (length xs)"
  by (induction xs) (auto split: if_splits)

lemma answer_whole:
  assumes w: "whole_pieces s" and q: "sp_unread s mbox = answer_bytes grp @ rest"
    and g: "length (cstr grp) < 32" "cstr grp \<noteq> []" and b: "32 \<le> length buf" and room: "length (Sp_sessions s) < MAX_SESSIONS"
    and new: "SP_get_session mbox s = None"
  shows "\<exists>buf' s'. recv_answer mbox priority buf s = Some (\<lparr>j_ret = ACCEPT_SESSION, j_mbox = Some mbox, j_group = buf'\<rparr>, s') \<and>
    cstr buf' = cstr (cstr grp) \<and> sp_usable mbox (length (Sp_sessions s)) s' \<and> sp_unread s' mbox = rest \<and> sp_sent s' = sp_sent s \<and>
    sp_private_group (Sp_sessions s' ! length (Sp_sessions s)) = strncpy 32 (cstr grp)"
proof -
  let ?c = "cstr grp"
  from char_whole [OF w, of mbox 1] q obtain s1 where
    s1: "recv_char mbox s = (Some 1, s1)" "consumed mbox 1 s s1" by (auto simp: answer_bytes_def)
  have n1: "whole_pieces s1" "sp_unread s1 mbox = [4, 0, 0] @ of_nat (length ?c) # ?c @ rest"
    using consumed_whole [OF s1(2)] consumed_fields(2) [OF s1(2)] w q by (simp_all add: answer_bytes_def)
  from chars_whole [OF n1] obtain s2 where
    s2: "recv_chars 3 mbox s1 = (Some [4, 0, 0], s2)" "consumed mbox 3 s1 s2" by (auto simp: numeral_3_eq_3)
  have n2: "whole_pieces s2" "sp_unread s2 mbox = of_nat (length ?c) # ?c @ rest"
    using consumed_whole [OF s2(2)] consumed_fields(2) [OF s2(2)] n1 by simp_all
  from char_whole [OF n2] g(1) obtain s3 where
    s3: "recv_char mbox s2 = (Some (int (length ?c)), s3)" "consumed mbox 1 s2 s3" by (auto simp: small_char)
  have n3: "whole_pieces s3" "sp_unread s3 mbox = ?c @ rest"
    using consumed_whole [OF s3(2)] consumed_fields(2) [OF s3(2)] n2 by simp_all
  from recv_whole [OF n3 _ refl] g(1) obtain s4 where
    s4: "sp_recv mbox (length ?c) s3 = (?c, s4)" "consumed mbox (length ?c) s3 s4" by auto
  note all = consumed_trans [OF consumed_trans [OF consumed_trans [OF s1(2) s2(2)] s3(2)] s4(2)]
  have f: "Sp_sessions s4 = Sp_sessions s" "sp_unread s4 mbox = rest" "sp_sent s4 = sp_sent s" "SP_get_session mbox s4 = None"
    using consumed_fields [OF all] consumed_whole [OF all] consumed_fields(2) [OF s4(2)] n3(2) new by simp_all
  let ?b = "?c @ 0 # drop (Suc (length ?c)) buf"
  have put: "put_bytes buf 0 ?c = Some (?c @ drop (length ?c) buf)"
    "put_bytes (?c @ drop (length ?c) buf) (int (length ?c)) [0] = Some ?b"
    using g(1) b by (simp_all add: put_bytes_def)
  have nz: "\<forall>x \<in> set ?c. x \<noteq> 0" by (auto simp: cstr_def dest: set_takeWhileD)
  have cb: "cstr ?b = ?c" using takeWhile_stop [of ?c "\<lambda>b. b \<noteq> 0" 0] nz by (simp add: cstr_def)
  have cc: "cstr ?c = ?c" using nz by (simp add: cstr_def takeWhile_eq_all_conv)
  have st: "strcpy MAX_GROUP_NAME ?b = Some (strncpy 32 ?c)" using cb cc g(1) by (simp add: strcpy_def strncpy_def MAX_GROUP_NAME_eq)
  let ?x = "\<lparr>sp_mbox = mbox, sp_state = SESS_ACTIVE, sp_private_group = strncpy 32 ?c,
     recv_saved_head = \<lparr>mh_type = 0, mh_private_group_name = [], mh_num_groups = 0, mh_hint = 0, mh_data_len = 0\<rparr>,
     recv_message_saved = False\<rparr>"
  let ?s = "s4\<lparr>Sp_sessions := Sp_sessions s4 @ [?x]\<rparr>"
  have "recv_answer mbox priority buf s = Some (\<lparr>j_ret = ACCEPT_SESSION, j_mbox = Some mbox, j_group = ?b\<rparr>, ?s)"
    using s1(1) s2(1) s3(1) s4(1) put st g(2) room f(1)
    by (simp add: recv_answer_def ACCEPT_SESSION_def enter_sp_session_def Let_def)
  moreover have "find_index (\<lambda>x. sp_mbox x = mbox) (Sp_sessions s @ [?x]) = Some (length (Sp_sessions s))"
    using new by (simp add: SP_get_session_def find_index_snoc)
  ultimately show ?thesis using f cb cc by (auto simp: sp_usable_def SP_get_session_def)
qed

lemma connect_bytes_length: "length (connect_bytes nm p m) = 5 + (case nm of None \<Rightarrow> 0 | Some x \<Rightarrow> min MAX_PRIVATE_NAME (length (cstr x)))"
  by (simp add: connect_bytes_def Let_def min.commute split: option.split)

definition methods_fit :: "auth_method_info list \<Rightarrow> byte list \<Rightarrow> bool" where
  "methods_fit ms allowed \<longleftrightarrow> 0 < length allowed \<and> length allowed < MAX_AUTH_NAME * MAX_AUTH_METHODS \<and> length ms \<le> MAX_AUTH_METHODS \<and>
     (\<forall>m \<in> set ms. am_name m \<in> set (list_words (cstr allowed)) \<and> am_authenticate m = sp_null_authenticate)"

lemma methods_valid:
  "methods_fit ms allowed \<Longrightarrow> those (map (\<lambda>m. valid_auth_method (am_name m) allowed) ms) = Some (map (\<lambda>m. True) ms)"
  by (induction ms) (auto simp: methods_fit_def valid_auth_method_def)

lemma connect_whole:
  assumes fit: "methods_fit methods allowed" and w: "whole_pieces s" "whole_sends mbox s"
    and q: "sp_unread s mbox = of_nat (length allowed) # allowed @ answer_bytes grp @ rest"
    and g: "length (cstr grp) < 32" "cstr grp \<noteq> []" and b: "32 \<le> length buf" and room: "length (Sp_sessions s) < MAX_SESSIONS"
    and new: "SP_get_session mbox s = None"
  shows "\<exists>buf' s'. SP_connect_on methods mbox nm priority memb buf s =
      Some (\<lparr>j_ret = ACCEPT_SESSION, j_mbox = Some mbox, j_group = buf'\<rparr>, s') \<and>
    cstr buf' = cstr (cstr grp) \<and> sp_usable mbox (length (Sp_sessions s)) s' \<and> sp_unread s' mbox = rest \<and>
    sp_sent s' mbox = sp_sent s mbox @ connect_bytes nm priority memb @ auth_choice methods \<and>
    sp_private_group (Sp_sessions s' ! length (Sp_sessions s)) = strncpy 32 (cstr grp)"
proof -
  let ?conn = "connect_bytes nm priority memb"
  obtain s1 where s1: "sp_send mbox ?conn s = (int (length ?conn), s1)" "sp_wrote mbox ?conn s s1"
    using send_whole [OF w(2)] by blast
  note k1 = wrote_whole [OF s1(2)]
  have l: "0 < length allowed" "length allowed < 90" using fit by (simp_all add: methods_fit_def MAX_AUTH_NAME_def MAX_AUTH_METHODS_def)
  have "whole_pieces s1" "sp_unread s1 mbox = of_nat (length allowed) # allowed @ answer_bytes grp @ rest" using k1 w q by simp_all
  from auth_list_whole [OF this l] obtain s2 where
    s2: "recv_auth_list mbox s1 = (Some (Inr allowed), s2)" "consumed mbox (Suc (length allowed)) s1 s2" by blast
  note k2 = consumed_whole [OF s2(2)] and f2 = consumed_fields [OF s2(2)]
  have ws2: "whole_sends mbox s2" using k1 k2 w by simp
  obtain s3 where s3: "sp_send mbox (auth_choice methods) s2 = (int (length (auth_choice methods)), s3)"
      "sp_wrote mbox (auth_choice methods) s2 s3" using send_whole [OF ws2] by blast
  note k3 = wrote_whole [OF s3(2)]
  have lc: "length (auth_choice methods) = MAX_AUTH_NAME * MAX_AUTH_METHODS"
    by (rule length_auth_choice) (use fit in \<open>simp add: methods_fit_def\<close>)
  have run: "run_methods methods mbox s3 = (True, s3)" by (rule null_methods) (use fit in \<open>simp add: methods_fit_def\<close>)
  have n3: "whole_pieces s3" "sp_unread s3 mbox = answer_bytes grp @ rest" "Sp_sessions s3 = Sp_sessions s"
    "sp_sent s3 mbox = sp_sent s mbox @ ?conn @ auth_choice methods"
    using k1 k2 k3 f2 w q by simp_all
  have "length (Sp_sessions s3) < MAX_SESSIONS" "SP_get_session mbox s3 = None" using room new n3(3) by (simp_all add: SP_get_session_def)
  from answer_whole [OF n3(1,2) g b this, of "clamp_priority priority"] obtain buf' s' where
    r: "recv_answer mbox (clamp_priority priority) buf s3 = Some (\<lparr>j_ret = ACCEPT_SESSION, j_mbox = Some mbox, j_group = buf'\<rparr>, s')"
      "cstr buf' = cstr (cstr grp)" "sp_usable mbox (length (Sp_sessions s3)) s'" "sp_unread s' mbox = rest" "sp_sent s' = sp_sent s3"
      "sp_private_group (Sp_sessions s' ! length (Sp_sessions s3)) = strncpy 32 (cstr grp)" by blast
  have "list_all (\<lambda>v. v) (map (\<lambda>m. True) methods)" by (simp add: list_all_iff)
  then have "SP_connect_on methods mbox nm priority memb buf s =
      Some (\<lparr>j_ret = ACCEPT_SESSION, j_mbox = Some mbox, j_group = buf'\<rparr>, s')"
    using s1(1) s2(1) s3(1) lc run r(1) methods_valid [OF fit] by (simp add: SP_connect_on_def Let_def)
  then show ?thesis using r n3(3,4) by auto
qed

lemma connects:
  assumes auth: "Sess_session_authorized ses d = Some d'" and all: "takes_all d (ss_mbox (Sessions d ses))"
    and v: "31500 \<le> version_code (ss_lib_version (Sessions d ses))" and names: "names_ok d ses"
    and fit: "methods_fit methods allowed" and w: "whole_pieces s" "whole_sends mbox s"
    and q: "sp_unread s mbox = of_nat (length allowed) # allowed @
      drop (length (sock_out d (ss_mbox (Sessions d ses)))) (sock_out d' (ss_mbox (Sessions d ses))) @ rest"
    and b: "32 \<le> length buf" and room: "length (Sp_sessions s) < MAX_SESSIONS" and new: "SP_get_session mbox s = None"
  shows "\<exists>buf' s'. SP_connect_on methods mbox nm priority memb buf s =
      Some (\<lparr>j_ret = ACCEPT_SESSION, j_mbox = Some mbox, j_group = buf'\<rparr>, s') \<and>
    sp_usable mbox (length (Sp_sessions s)) s' \<and> sp_unread s' mbox = rest \<and>
    sp_sent s' mbox = sp_sent s mbox @ connect_bytes nm priority memb @ auth_choice methods \<and>
    known_as (sp_private_group (Sp_sessions s' ! length (Sp_sessions s))) d' ses"
proof -
  obtain grp where grp: "private_group (ss_name (Sessions d ses)) (p_name (Sess_My d)) = Some grp"
    "sock_out d' (ss_mbox (Sessions d ses)) = sock_out d (ss_mbox (Sessions d ses)) @ answer_bytes grp"
    "Sess_My d' = Sess_My d" "ss_name (Sessions d' ses) = ss_name (Sessions d ses)"
    using authorized_out [OF auth all v] by blast
  note g = own_group_known [OF names grp(1)]
  have q': "sp_unread s mbox = of_nat (length allowed) # allowed @ answer_bytes grp @ rest" using q grp(2) by simp
  from connect_whole [OF fit w q' g(2,3) b room new, of nm priority memb] obtain buf' s' where
    r: "SP_connect_on methods mbox nm priority memb buf s =
        Some (\<lparr>j_ret = ACCEPT_SESSION, j_mbox = Some mbox, j_group = buf'\<rparr>, s')"
      "sp_usable mbox (length (Sp_sessions s)) s'" "sp_unread s' mbox = rest"
      "sp_sent s' mbox = sp_sent s mbox @ connect_bytes nm priority memb @ auth_choice methods"
      "sp_private_group (Sp_sessions s' ! length (Sp_sessions s)) = strncpy 32 (cstr grp)" by blast
  have s: "strncpy 32 (strncpy 32 (cstr grp)) = strncpy 32 grp" "cstr (strncpy 32 (cstr grp)) = cstr grp"
  proof -
    have e: "strncpy 32 (cstr grp) = strncpy 32 grp" by (simp add: strncpy_def g(4))
    have nz: "\<forall>x \<in> set (cstr grp). x \<noteq> 0" by (auto simp: cstr_def dest: set_takeWhileD)
    have "strncpy 32 grp = cstr grp @ replicate (32 - length (cstr grp)) 0" using g(2) by (simp add: strncpy_def)
    moreover have "replicate (32 - length (cstr grp)) (0 :: byte) = 0 # replicate (31 - length (cstr grp)) 0"
      using g(2) by (cases "32 - length (cstr grp)") auto
    ultimately have c: "cstr (strncpy 32 grp) = cstr grp"
      using takeWhile_stop [of "cstr grp" "\<lambda>b. b \<noteq> 0" 0] nz by (simp add: cstr_def)
    then show "cstr (strncpy 32 (cstr grp)) = cstr grp" "strncpy 32 (strncpy 32 (cstr grp)) = strncpy 32 grp"
      by (simp_all add: e) (simp add: strncpy_def)
  qed
  have "known_as (strncpy 32 (cstr grp)) d' ses"
    using g(1) s unfolding known_as_def grp(3,4) by (simp add: MAX_GROUP_NAME_eq)
  then show ?thesis using r by auto
qed


text \<open>The client \<open>a\<close> of the daemon \<open>x\<close>.\<close>

definition authorized_client :: "nat \<Rightarrow> server" where
  "authorized_client n = upd_session n (\<lambda>x. x\<lparr>ss_status := PRE_AUTH_SESSION, ss_lib_version := (4, 0, 0)\<rparr>)
     ((sample_server 0)\<lparr>send_ret := (\<lambda>_ _ l. int l)\<rparr>)"

definition answered_lib :: sp_lib where
  "answered_lib = sample_lib\<lparr>Sp_sessions := [], sp_send_ret := (\<lambda>_ _ n. int n), sp_piece := (\<lambda>_. 100),
     sp_unread := (\<lambda>_. [5, 78, 85, 76, 76, 32, 1, 4, 0, 0, 4, 35, 97, 35, 120, 9])\<rparr>"


end
