(* ===== verification/Greeting.thy ===== *)
theory Greeting
  imports Connecting
begin

text \<open>
  The daemon takes in what the library of a new client says: the session gets an entry of the table, its name, its
  kind and its priority, and the client is sent the list of the methods.
\<close>

section \<open>What comes in\<close>

text \<open>The next calls, for \<open>ns\<close> bytes each, get the bytes \<open>bs\<close> one after the other, as far as they reach.\<close>

fun hands :: "(nat \<Rightarrow> int \<Rightarrow> nat \<Rightarrow> recv_result) \<Rightarrow> nat \<Rightarrow> int \<Rightarrow> byte list \<Rightarrow> nat list \<Rightarrow> bool" where
  "hands f k mbox bs [] \<longleftrightarrow> True"
| "hands f k mbox bs (n # ns) \<longleftrightarrow> f k mbox n = Received (take n bs) \<and> hands f (Suc k) mbox (drop n bs) ns"

section \<open>What the greeting leaves alone\<close>

text \<open>Only the entry behind the table changes.\<close>

definition greeted :: "server \<Rightarrow> server \<Rightarrow> bool" where
  "greeted s s' \<longleftrightarrow> (\<exists>t. Sessions s' = (Sessions s)(MAX_SESSIONS := t)) \<and> Sessions_head s' = Sessions_head s \<and>
     Sessions_tail s' = Sessions_tail s \<and> Sessions_free s' = Sessions_free s \<and> Sessions_hash_head s' = Sessions_hash_head s \<and>
     Num_sessions s' = Num_sessions s \<and> recv_ret s' = recv_ret s \<and> send_ret s' = send_ret s \<and> sock_out s' = sock_out s"

lemma greeted_trans: "greeted s t \<Longrightarrow> greeted t u \<Longrightarrow> greeted s u"
  by (auto simp: greeted_def)

lemma greeted_upd: "greeted s (upd_session MAX_SESSIONS f s)"
  by (auto simp: greeted_def upd_session_def)

lemma greeted_recv: "greeted s (snd (sock_recv mb n s))" "Sessions (snd (sock_recv mb n s)) = Sessions s"
    "recv_calls (snd (sock_recv mb n s)) = Suc (recv_calls s)"
  by (auto simp: greeted_def sock_recv_def Let_def fun_upd_same split: recv_result.split intro!: exI [of _ "Sessions s MAX_SESSIONS"])

lemma seg_cong: "\<forall>x \<in> set xs. nx x = ny x \<Longrightarrow> seg nx p xs q = seg ny p xs q"
  by (induction xs arbitrary: p) auto

lemma greeted_table:
  assumes "greeted s s'"
  shows "sessions_ok s' L = sessions_ok s L" "i \<noteq> MAX_SESSIONS \<Longrightarrow> name_at s' i = name_at s i" "i \<noteq> MAX_SESSIONS \<Longrightarrow> mbox_at s' i = mbox_at s i"
proof -
  obtain t where t: "Sessions s' = (Sessions s)(MAX_SESSIONS := t)" using assms by (auto simp: greeted_def)
  then have at: "nexts s' i = nexts s i" "prevs s' i = prevs s i" "hashes s' i = hashes s i" "name_at s' i = name_at s i"
      "mbox_at s' i = mbox_at s i" if "i \<noteq> MAX_SESSIONS" for i
    using that by (simp_all add: nexts_def prevs_def hashes_def name_at_def mbox_at_def)
  then show "i \<noteq> MAX_SESSIONS \<Longrightarrow> name_at s' i = name_at s i" "i \<noteq> MAX_SESSIONS \<Longrightarrow> mbox_at s' i = mbox_at s i" by simp_all
  have "sorted_ok s' L F = sorted_ok s L F" for F
  proof (cases "set (L @ F) = {..<MAX_SESSIONS}")
    case True
    then have "\<forall>i \<in> set L \<union> set F. i \<noteq> MAX_SESSIONS" by auto
    then have "seg (nexts s') p L None = seg (nexts s) p L None" "seg (prevs s') p (rev L) None = seg (prevs s) p (rev L) None"
      "seg (nexts s') p F None = seg (nexts s) p F None" for p
      by (auto intro!: seg_cong simp: at)
    moreover have "sorted_wrt (\<lambda>i j. name_at s' i < name_at s' j) L = sorted_wrt (\<lambda>i j. name_at s i < name_at s j) L"
      using \<open>\<forall>i \<in> set L \<union> set F. i \<noteq> MAX_SESSIONS\<close> by (auto simp: sorted_wrt_iff_nth_less at)
    ultimately show ?thesis using assms by (simp add: sorted_ok_def greeted_def)
  next
    case False
    then show ?thesis by (simp only: sorted_ok_def) blast
  qed
  moreover have "hash_ok s' (set L) H = hash_ok s (set L) H" if "sorted_ok s L F" for F H
  proof -
    have n: "\<forall>i \<in> set L. i \<noteq> MAX_SESSIONS" using that by (auto simp: sorted_ok_def)
    have "(seg (hashes s') p (H b) None \<and> distinct (H b) \<and> set (H b) = {i \<in> set L. hash_of (mbox_at s' i) = b}) =
        (seg (hashes s) p (H b) None \<and> distinct (H b) \<and> set (H b) = {i \<in> set L. hash_of (mbox_at s i) = b})" for b p
    proof -
      have "{i \<in> set L. hash_of (mbox_at s' i) = b} = {i \<in> set L. hash_of (mbox_at s i) = b}" using n at(5) by auto
      moreover have "set (H b) = {i \<in> set L. hash_of (mbox_at s i) = b} \<Longrightarrow> seg (hashes s') p (H b) None = seg (hashes s) p (H b) None"
        using n at(3) by (intro seg_cong) auto
      ultimately show ?thesis by auto
    qed
    then show ?thesis using assms by (simp add: hash_ok_def greeted_def)
  qed
  ultimately show "sessions_ok s' L = sessions_ok s L" by (auto simp: sessions_ok_def)
qed

section \<open>The steps\<close>

definition mb_of :: "server \<Rightarrow> int" where "mb_of s = ss_mbox (newcomer s)"

text \<open>\<open>s'\<close> is \<open>s\<close> after \<open>n\<close> calls of \<open>recv\<close>, with the newcomer changed by \<open>f\<close>.\<close>

definition stepped :: "nat \<Rightarrow> (session \<Rightarrow> session) \<Rightarrow> server \<Rightarrow> server \<Rightarrow> bool" where
  "stepped n f s s' \<longleftrightarrow> greeted s s' \<and> newcomer s' = f (newcomer s) \<and> recv_calls s' = recv_calls s + n"

lemma stepped_trans: "stepped n f s t \<Longrightarrow> stepped m g t u \<Longrightarrow> stepped (n + m) (g \<circ> f) s u"
  using greeted_trans [of s t u] by (simp add: stepped_def)

lemma stepped_recv:
  assumes "recv_ret s (recv_calls s) mb n = Received bs" and "length bs \<le> n"
  shows "\<exists>s'. sock_recv mb n s = (Received bs, s') \<and> stepped 1 (\<lambda>t. t) s s'"
  using assms greeted_recv [where s = s and mb = mb and n = n] by (auto simp: stepped_def sock_recv_def Let_def)

lemma stepped_upd: "stepped 0 f s (upd_session MAX_SESSIONS f s)"
  using greeted_upd [of s f] by (simp add: stepped_def upd_session_def)

lemma stepped_ret: "stepped n f s s' \<Longrightarrow> recv_ret s' = recv_ret s"
  by (auto simp: stepped_def greeted_def)

lemma version_spec:
  assumes "hands (recv_ret s) (recv_calls s) (mb_of s) (4 # 0 # 0 # bs) (2 # 1 # ns)"
  shows "\<exists>s'. greet_version s = Inr s' \<and> stepped 2 (\<lambda>t. t\<lparr>ss_lib_version := (4, 0, 0)\<rparr>) s s' \<and>
    hands (recv_ret s') (recv_calls s') (mb_of s') bs ns"
proof -
  let ?mb = "mb_of s"
  have h: "recv_ret s (recv_calls s) ?mb 2 = Received [4, 0]" "recv_ret s (Suc (recv_calls s)) ?mb 1 = Received [0]"
    "hands (recv_ret s) (Suc (Suc (recv_calls s))) ?mb bs ns"
    using assms by (simp_all add: numeral_2_eq_2)
  obtain s1 where s1: "sock_recv ?mb 2 s = (Received [4, 0], s1)" "stepped 1 (\<lambda>t. t) s s1"
    using stepped_recv [of s ?mb 2 "[4, 0]"] h(1) by auto
  have "recv_ret s1 (recv_calls s1) ?mb 1 = Received [0]" using h(2) s1(2) stepped_ret [OF s1(2)] by (simp add: stepped_def)
  then obtain s2 where s2: "sock_recv ?mb 1 s1 = (Received [0], s2)" "stepped 1 (\<lambda>t. t) s1 s2"
    using stepped_recv [of s1 ?mb 1 "[0]"] by auto
  let ?s = "upd_session MAX_SESSIONS (\<lambda>t. t\<lparr>ss_lib_version := (4, 0, 0)\<rparr>) s2"
  note st = stepped_trans [OF stepped_trans [OF s1(2) s2(2)] stepped_upd [of "\<lambda>t. t\<lparr>ss_lib_version := (4, 0, 0)\<rparr>"]]
  have "greet_version s = Inr ?s"
    using s1(1) s2(1) by (simp add: greet_version_def mb_of_def char_at_def version_code_def check_version_def)
  moreover have "stepped 2 (\<lambda>t. t\<lparr>ss_lib_version := (4, 0, 0)\<rparr>) s ?s" using st by (simp add: o_def numeral_2_eq_2)
  moreover have "recv_ret ?s = recv_ret s" "recv_calls ?s = Suc (Suc (recv_calls s))" "mb_of ?s = ?mb"
    using stepped_ret [OF st] st by (simp_all add: stepped_def mb_of_def)
  ultimately show ?thesis using h(3) by (intro exI [of _ ?s]) (simp del: upd_session_def)
qed

lemma conn_byte:
  assumes "p = 0 \<or> p = 1"
  shows "sint (word_of_int ((if m then 1 else 0) + 16 * p) :: byte) smod 2 = 1 \<longleftrightarrow> m"
    "sint (word_of_int ((if m then 1 else 0) + 16 * p) :: byte) sdiv 16 = p"
  using assms by (cases m; auto; code_simp)+

definition of_kind :: "bool \<Rightarrow> int \<Rightarrow> session \<Rightarrow> session" where
  "of_kind m p t = t\<lparr>ss_status := (if m then Set_memb_session (ss_status t) else Clear_memb_session (ss_status t)), ss_priority := p,
     ss_name := replicate (MAX_PRIVATE_NAME + 1) 0\<rparr>"

lemma conn_spec:
  assumes p: "p = 0 \<or> p = 1" and l: "l \<le> 10"
    and "hands (recv_ret s) (recv_calls s) (mb_of s) (word_of_int ((if m then 1 else 0) + 16 * p) # of_nat l # bs) (2 # ns)"
  shows "\<exists>s'. greet_conn s = Inr (int l, s') \<and> stepped 1 (of_kind m p) s s' \<and>
    hands (recv_ret s') (recv_calls s') (mb_of s') bs ns"
proof -
  let ?mb = "mb_of s" and ?c = "word_of_int ((if m then 1 else 0) + 16 * p) :: byte"
  have h: "recv_ret s (recv_calls s) ?mb 2 = Received [?c, of_nat l]" "hands (recv_ret s) (Suc (recv_calls s)) ?mb bs ns"
    using assms(3) by (simp_all add: numeral_2_eq_2)
  obtain s1 where s1: "sock_recv ?mb 2 s = (Received [?c, of_nat l], s1)" "stepped 1 (\<lambda>t. t) s s1"
    using stepped_recv [of s ?mb 2 "[?c, of_nat l]"] h(1) by auto
  define f where "f = (\<lambda>t :: session. t\<lparr>ss_status := (if sint ?c smod 2 = 1 then Set_memb_session (ss_status t) else Clear_memb_session (ss_status t)),
    ss_priority := sint ?c sdiv 16\<rparr>)"
  define g where "g = (\<lambda>t :: session. t\<lparr>ss_name := replicate (MAX_PRIVATE_NAME + 1) 0\<rparr>)"
  let ?s = "upd_session MAX_SESSIONS g (upd_session MAX_SESSIONS f s1)"
  have sl: "sint (of_nat l :: byte) = int l" using l by (intro small_char) simp
  have "greet_conn s = Inr (int l, ?s)"
    using s1(1) l by (simp add: greet_conn_def mb_of_def sl f_def g_def MAX_PRIVATE_NAME_def Let_def)
  moreover have st: "stepped 1 (of_kind m p) s ?s"
  proof -
    have "g (f x) = of_kind m p x" for x unfolding f_def g_def of_kind_def conn_byte [OF p] by simp
    then have "g \<circ> f = of_kind m p" by (simp add: fun_eq_iff)
    then show ?thesis using stepped_trans [OF stepped_trans [OF s1(2) stepped_upd [of f]] stepped_upd [of g]] by (simp add: o_def)
  qed
  moreover have "recv_ret ?s = recv_ret s" "recv_calls ?s = Suc (recv_calls s)" "mb_of ?s = ?mb"
    using stepped_ret [OF st] st by (simp_all add: stepped_def mb_of_def of_kind_def)
  ultimately show ?thesis using h(2) by (intro exI [of _ ?s]) simp
qed

lemma cstr_padded: "list_all legal_char bs \<Longrightarrow> length bs \<le> 10 \<Longrightarrow> cstr (padded bs) = bs"
proof -
  assume a: "list_all legal_char bs" "length bs \<le> 10"
  have "replicate (MAX_PRIVATE_NAME + 1 - length bs) (0 :: byte) = 0 # replicate (MAX_PRIVATE_NAME - length bs) 0"

  proof -
    have "MAX_PRIVATE_NAME + 1 - length bs = Suc (MAX_PRIVATE_NAME - length bs)" using a(2) by (simp add: MAX_PRIVATE_NAME_def)
    then show ?thesis by (simp only: replicate_Suc)
  qed
  then show ?thesis using a(1) legal_not takeWhile_stop [of bs "\<lambda>b. b \<noteq> 0" 0]
    by (auto simp: padded_def cstr_def list_all_iff)
qed

lemma name_spec:
  assumes nm: "bs \<noteq> []" "length bs \<le> 10" "list_all legal_char bs"
    and h: "hands (recv_ret s) (recv_calls s) (mb_of s) bs [10]"
    and ok: "sessions_ok s L" "length L < MAX_SESSIONS" and new: "\<forall>i \<in> set L. name_at s i \<noteq> bs"
  shows "\<exists>s' place. greet_name (length bs) s = Some (Inr (place, s')) \<and> stepped 1 (\<lambda>t. t\<lparr>ss_name := padded bs\<rparr>) s s' \<and>
    find_place (Sessions s') (ss_name (newcomer s')) (Sessions_head s') = Some (place, True)"
proof -
  let ?mb = "mb_of s"
  have "recv_ret s (recv_calls s) ?mb 10 = Received bs" using h nm(2) by simp
  from stepped_recv [OF this nm(2)] obtain s1 where
    s1: "sock_recv ?mb 10 s = (Received bs, s1)" "stepped 1 (\<lambda>t. t) s s1" by blast
  let ?s = "set_newcomer_name (padded bs) s1"
  have st: "stepped 1 (\<lambda>t. t\<lparr>ss_name := padded bs\<rparr>) s ?s"
    using stepped_trans [OF s1(2) stepped_upd [of "\<lambda>t. t\<lparr>ss_name := padded bs\<rparr>"]] by (simp add: o_def set_newcomer_name_def)
  then have g: "greeted s ?s" and n: "ss_name (newcomer ?s) = padded bs" by (simp_all add: stepped_def)
  have ok1: "sessions_ok ?s L" using greeted_table(1) [OF g] ok(1) by simp
  have "\<forall>i \<in> set L. i \<noteq> MAX_SESSIONS" using ok(1) by (auto simp: sessions_ok_def sorted_ok_def)
  then have "\<forall>i \<in> set L. name_at ?s i \<noteq> cstr (ss_name (newcomer ?s))"
    using new greeted_table(2) [OF g] n cstr_padded [OF nm(3,2)] by simp
  from insert_session_ok [OF ok1 ok(2) this] obtain place where
    fp: "find_place (Sessions ?s) (ss_name (newcomer ?s)) (Sessions_head ?s) = Some (place, True)" by blast
  have "greet_name (length bs) s = Some (Inr (place, ?s))"
    using s1(1) nm(3) fp by (simp add: greet_name_def mb_of_def MAX_PRIVATE_NAME_def)
  then show ?thesis using st fp by blast
qed

section \<open>Entering the table\<close>

definition but_links :: "session \<Rightarrow> session \<Rightarrow> bool" where
  "but_links x y \<longleftrightarrow> (\<exists>a b. y = x\<lparr>ss_sort_next := a, ss_sort_prev := b\<rparr>)"

lemma but_links_refl: "but_links x x"
  unfolding but_links_def by (intro exI [of _ "ss_sort_next x"] exI [of _ "ss_sort_prev x"]) simp

lemma but_links_change:
  assumes "but_links x y"
  shows "but_links x (y\<lparr>ss_sort_next := v\<rparr>)" "but_links x (y\<lparr>ss_sort_prev := v\<rparr>)"
proof -
  obtain a b where y: "y = x\<lparr>ss_sort_next := a, ss_sort_prev := b\<rparr>" using assms by (auto simp: but_links_def)
  have "y\<lparr>ss_sort_next := v\<rparr> = x\<lparr>ss_sort_next := v, ss_sort_prev := b\<rparr>"
    "y\<lparr>ss_sort_prev := v\<rparr> = x\<lparr>ss_sort_next := a, ss_sort_prev := v\<rparr>" by (simp_all add: y)
  then show "but_links x (y\<lparr>ss_sort_next := v\<rparr>)" "but_links x (y\<lparr>ss_sort_prev := v\<rparr>)" unfolding but_links_def by blast+
qed

lemma but_links_step:
  "but_links x (Sessions s n) \<Longrightarrow> but_links x (Sessions (set_sort_next m v s) n)"
  "but_links x (Sessions s n) \<Longrightarrow> but_links x (Sessions (set_sort_prev m v s) n)"
  by (cases "n = m"; simp add: but_links_change)+

lemma inserted_entry:
  assumes "Sess_insert_new_session place t s = Some (n, s')"
  shows "but_links t (Sessions s' n)"
proof -
  obtain s1 where s1: "Sess_get_free_session s = Some (n, s1)"
    using assms by (auto simp: Sess_insert_new_session_def bind_Some_iff Let_def)
  define s2 where "s2 = upd_session n (\<lambda>_. t) s1"
  have base: "but_links t (Sessions s2 n)" by (simp add: s2_def but_links_refl)
  show ?thesis
  proof (cases place)
    case None
    define s3 where "s3 = set_sort_next n None s2"
    have b3: "but_links t (Sessions s3 n)" unfolding s3_def by (rule but_links_step(1) [OF base])
    have "Some s' = Some (case Sessions_tail s3 of
        None \<Rightarrow> (set_sort_prev n None s3)\<lparr>Sessions_head := Some n, Sessions_tail := Some n\<rparr>
      | Some t \<Rightarrow> (set_sort_next t (Some n) (set_sort_prev n (Some t) s3))\<lparr>Sessions_tail := Some n\<rparr>)"
      using assms s1 None unfolding s3_def s2_def by (simp add: Sess_insert_new_session_def Let_def split: option.splits)
    then show ?thesis using but_links_step [OF b3] but_links_step [OF but_links_step(2) [OF b3]]
      by (simp del: heads_upd split: option.splits)
  next
    case (Some w)
    define s3 where "s3 = set_sort_next n (Some w) s2"
    define s4 where "s4 = set_sort_prev n (ss_sort_prev (Sessions s3 w)) s3"
    define s5 where "s5 = set_sort_prev w (Some n) s4"
    have b5: "but_links t (Sessions s5 n)" unfolding s5_def s4_def s3_def by (intro but_links_step base)
    have "Some s' = Some (case ss_sort_prev (Sessions s5 n) of None \<Rightarrow> s5\<lparr>Sessions_head := Some n\<rparr> | Some p \<Rightarrow> set_sort_next p (Some n) s5)"
      using assms s1 Some unfolding s5_def s4_def s3_def s2_def
      by (simp add: Sess_insert_new_session_def Let_def del: heads_upd)
    then show ?thesis using b5 but_links_step(1) [OF b5] by (simp del: heads_upd split: option.splits)
  qed
qed

definition same_net :: "server \<Rightarrow> server \<Rightarrow> bool" where
  "same_net s s' \<longleftrightarrow> sock_out s' = sock_out s \<and> send_ret s' = send_ret s \<and> Num_sessions s' = Num_sessions s"

lemma same_net_upd: "same_net s (upd_session i f t) = same_net s t" "same_net s (t\<lparr>Sessions_head := a\<rparr>) = same_net s t"
  "same_net s (t\<lparr>Sessions_tail := a\<rparr>) = same_net s t" "same_net s (t\<lparr>Sessions_free := a\<rparr>) = same_net s t"
  "same_net s (t\<lparr>Sessions_hash_head := h\<rparr>) = same_net s t" "same_net s s"
  by (simp_all add: same_net_def upd_session_def)

lemma inserted_net: "Sess_insert_new_session place t s = Some (n, s') \<Longrightarrow> same_net s s'"
  by (cases place) (auto simp: Sess_insert_new_session_def Sess_get_free_session_def Let_def bind_Some_iff same_net_upd
      split: option.splits)

lemma sessions_ok_cong:
  assumes "nexts s' = nexts s" "prevs s' = prevs s" "hashes s' = hashes s" "name_at s' = name_at s" "mbox_at s' = mbox_at s"
    and "Sessions_head s' = Sessions_head s" "Sessions_tail s' = Sessions_tail s" "Sessions_free s' = Sessions_free s"
    and "Sessions_hash_head s' = Sessions_hash_head s"
  shows "sessions_ok s' L = sessions_ok s L"
  using assms by (simp add: sessions_ok_def sorted_ok_def hash_ok_def)

lemma enter_spec:
  assumes ok: "sessions_ok s L" "length L < MAX_SESSIONS" and new: "\<forall>i \<in> set L. name_at s i \<noteq> cstr (ss_name (newcomer s))"
    and place: "find_place (Sessions s) (ss_name (newcomer s)) (Sessions_head s) = Some (place, True)"
  shows "\<exists>n s'. enter_session place s = Some (n, s') \<and> n \<notin> set L \<and> (\<exists>L1 L2. L = L1 @ L2 \<and> sessions_ok s' (L1 @ n # L2)) \<and>
    name_at s' n = cstr (ss_name (newcomer s)) \<and> mbox_at s' n = mb_of s \<and>
    ss_status (Sessions s' n) = Set_preauth_session (ss_status (newcomer s)) \<and> ss_priority (Sessions s' n) = ss_priority (newcomer s) \<and>
    ss_lib_version (Sessions s' n) = ss_lib_version (newcomer s) \<and> Num_sessions s' = Num_sessions s + 1 \<and>
    sock_out s' = sock_out s \<and> send_ret s' = send_ret s"
proof -
  from insert_session_ok [OF ok new] place obtain n s1 where
    n: "Sess_insert_new_session place (newcomer s) s = Some (n, s1)" "n \<notin> set L"
      "\<exists>L1 L2. L = L1 @ L2 \<and> sessions_ok (Sess_hash_session n s1) (L1 @ n # L2)"
      "name_at (Sess_hash_session n s1) n = cstr (ss_name (newcomer s))" "mbox_at (Sess_hash_session n s1) n = mb_of s"
    by (auto simp: mb_of_def)
  let ?f = "\<lambda>t. t\<lparr>ss_status := Set_preauth_session (ss_status t)\<rparr>"
  let ?s = "Sess_hash_session n (upd_session n ?f (count_sessions 1 s1))"
  have e: "enter_session place s = Some (n, ?s)" using n(1) by (simp add: enter_session_def)
  have same: "nexts ?s = nexts (Sess_hash_session n s1)" "prevs ?s = prevs (Sess_hash_session n s1)"
    "hashes ?s = hashes (Sess_hash_session n s1)" "name_at ?s = name_at (Sess_hash_session n s1)"
    "mbox_at ?s = mbox_at (Sess_hash_session n s1)" "Sessions_head ?s = Sessions_head (Sess_hash_session n s1)"
    "Sessions_tail ?s = Sessions_tail (Sess_hash_session n s1)" "Sessions_free ?s = Sessions_free (Sess_hash_session n s1)"
    "Sessions_hash_head ?s = Sessions_hash_head (Sess_hash_session n s1)"
    by (simp_all add: Sess_hash_session_def Let_def count_sessions_def upd_dmn_def upd_status_def nexts_def prevs_def hashes_def
        name_at_def mbox_at_def fun_eq_iff)
  obtain a b where en: "Sessions s1 n = (newcomer s)\<lparr>ss_sort_next := a, ss_sort_prev := b\<rparr>"
    using inserted_entry [OF n(1)] by (auto simp: but_links_def)
  have "ss_status (Sessions ?s n) = Set_preauth_session (ss_status (newcomer s))" "ss_priority (Sessions ?s n) = ss_priority (newcomer s)"
    "ss_lib_version (Sessions ?s n) = ss_lib_version (newcomer s)"
    by (simp_all add: Sess_hash_session_def Let_def count_sessions_def upd_dmn_def en)
  moreover have "Num_sessions ?s = Num_sessions s + 1" "sock_out ?s = sock_out s" "send_ret ?s = send_ret s"
    using inserted_net [OF n(1)] by (simp_all add: same_net_def Sess_hash_session_def Let_def count_sessions_def upd_dmn_def upd_session_def)
  ultimately show ?thesis
    using e n(2-5) same(4,5) sessions_ok_cong [OF same] by (intro exI [of _ n] exI [of _ ?s]) (simp add: fun_eq_iff)
qed

section \<open>Descriptors\<close>

definition idle :: "server \<Rightarrow> server \<Rightarrow> bool" where
  "idle s s' \<longleftrightarrow> untouched s s' \<and> sock_out s' = sock_out s \<and> send_ret s' = send_ret s \<and> recv_calls s' = recv_calls s \<and>
     Accept_inet_mbox s' = Accept_inet_mbox s \<and> Accept_unix_mbox s' = Accept_unix_mbox s"

lemma idle_refl: "idle s s"
  by (simp add: idle_def)

lemma idle_trans: "idle s t \<Longrightarrow> idle t u \<Longrightarrow> idle s u"
  using untouched_trans [of s t u] by (simp add: idle_def)

lemma idle_drops: "idle s (snd (fold (drop_fd fd ty) is (b, s)))"
proof (induction "is" arbitrary: b s)
  case Nil
  show ?case by (simp add: idle_refl)
next
  case (Cons i js)
  obtain b1 s1 where d: "drop_fd fd ty i (b, s) = (b1, s1)" by (cases "drop_fd fd ty i (b, s)")
  have "idle s (snd (drop_fd fd ty i (b, s)))"
    using untouched_drop [of s fd ty i b]
    by (auto simp: idle_def drop_fd_def set_mask_def set_queue_def Let_def split: option.splits)
  then have "idle s s1" using d by simp
  from idle_trans [OF this Cons.IH [of s1 b1]] show ?case using d by simp
qed

lemma detach_both_idle: "\<exists>s'. detach_both mb s = Some s' \<and> idle s s'"
proof -
  have one: "\<exists>c t. E_detach_fd mb ty s = Some (c, t) \<and> idle s t" if "ty \<in> {READ_FD, EXCEPT_FD}" for ty s
    using detach_untouched [of mb ty s] idle_drops [of s mb ty "[0, 1, 2]" False]
    by (auto simp: E_detach_fd_def found_code_def idle_refl)
  obtain c1 s1 where a: "E_detach_fd mb READ_FD s = Some (c1, s1)" "idle s s1" using one by blast
  obtain c2 s2 where b: "E_detach_fd mb EXCEPT_FD s1 = Some (c2, s2)" "idle s1 s2" using one by blast
  show ?thesis using a b idle_trans by (auto simp: detach_both_def)
qed

lemma attach_idle:
  assumes "0 \<le> mb" and "mb < FD_SETSIZE" and "ty \<in> {READ_FD, EXCEPT_FD}"
  shows "\<exists>c s'. E_attach_fd mb ty f code LOW_PRIORITY s = Some (c, s') \<and> idle s s'"
proof -
  obtain c s' where a: "E_attach_fd mb ty f code LOW_PRIORITY s = Some (c, s')" "untouched s s'"
    using attach_untouched [OF assms] by blast
  have "sock_out s' = sock_out s \<and> send_ret s' = send_ret s \<and> recv_calls s' = recv_calls s \<and>
      Accept_inet_mbox s' = Accept_inet_mbox s \<and> Accept_unix_mbox s' = Accept_unix_mbox s"
    using a(1) by (auto simp: E_attach_fd_def Let_def set_queue_def set_mask_def split: if_splits option.splits)
  then show ?thesis using a by (auto simp: idle_def)
qed

lemma attach_both_idle:
  assumes "0 \<le> mb" and "mb < FD_SETSIZE"
  shows "\<exists>s'. attach_both mb f code s = Some s' \<and> idle s s'"
proof -
  obtain c1 s1 where a: "E_attach_fd mb READ_FD f code LOW_PRIORITY s = Some (c1, s1)" "idle s s1"
    using attach_idle [OF assms, of READ_FD] by blast
  obtain c2 s2 where b: "E_attach_fd mb EXCEPT_FD f code LOW_PRIORITY s1 = Some (c2, s2)" "idle s1 s2"
    using attach_idle [OF assms, of EXCEPT_FD] by blast
  show ?thesis using a b idle_trans by (auto simp: attach_both_def)
qed

definition sockets_ok :: "server \<Rightarrow> bool" where
  "sockets_ok s \<longleftrightarrow> (\<forall>mb \<in> set (Accept_unix_mbox s # Accept_inet_mbox s). 0 \<le> mb \<and> mb < FD_SETSIZE)"

lemma attach_accept_idle:
  assumes "sockets_ok s"
  shows "\<exists>s'. Sess_attach_accept s = Some s' \<and> idle s s'"
proof -
  have all: "\<exists>s'. forM mbs (\<lambda>mb. attach_both mb Sess_accept_fd AF_INET) t = Some s' \<and> idle t s'"
    if "\<forall>mb \<in> set mbs. 0 \<le> mb \<and> mb < FD_SETSIZE" for mbs and t :: server
    using that
  proof (induction mbs arbitrary: t)
    case Nil
    then show ?case by (simp add: idle_refl)
  next
    case (Cons mb mbs)
    obtain t1 where t1: "attach_both mb Sess_accept_fd AF_INET t = Some t1" "idle t t1"
      using attach_both_idle [of mb Sess_accept_fd AF_INET t] Cons.prems by auto
    then show ?case using Cons.IH [of t1] Cons.prems idle_trans by fastforce
  qed
  obtain s1 where s1: "forM (Accept_inet_mbox s) (\<lambda>mb. attach_both mb Sess_accept_fd AF_INET) s = Some s1" "idle s s1"
    using all [of "Accept_inet_mbox s" s] assms by (auto simp: sockets_ok_def)
  obtain c s2 where s2: "E_attach_fd (Accept_unix_mbox s) READ_FD Sess_accept_fd AF_UNIX LOW_PRIORITY s1 = Some (c, s2)" "idle s1 s2"
    using attach_idle [of "Accept_unix_mbox s" READ_FD Sess_accept_fd AF_UNIX s1] assms by (auto simp: sockets_ok_def)
  show ?thesis using s1 s2 idle_trans by (auto simp: Sess_attach_accept_def)
qed

lemma untouched_table:
  assumes "untouched s s'"
  shows "sessions_ok s' L = sessions_ok s L" "Num_sessions s' = Num_sessions s" "Sessions s' = Sessions s"
proof -
  show sn: "Sessions s' = Sessions s" using assms by (simp add: untouched_def)
  have "nexts s' = nexts s" "prevs s' = prevs s" "hashes s' = hashes s" "name_at s' = name_at s" "mbox_at s' = mbox_at s"
    by (simp_all add: nexts_def prevs_def hashes_def name_at_def mbox_at_def fun_eq_iff sn)
  then show "sessions_ok s' L = sessions_ok s L" "Num_sessions s' = Num_sessions s"
    using assms sessions_ok_cong [of s' s] by (simp_all add: untouched_def quiet_def)
qed

lemma idle_table:
  assumes "idle s s'"
  shows "sessions_ok s' L = sessions_ok s L" "newcomer s' = newcomer s" "mb_of s' = mb_of s" "name_at s' = name_at s"
    "Num_sessions s' = Num_sessions s" "recv_ret s' = recv_ret s"
proof -
  have u: "untouched s s'" "recv_ret s' = recv_ret s" using assms by (simp_all add: idle_def untouched_def)
  note t = untouched_table [OF u(1)]
  show "sessions_ok s' L = sessions_ok s L" "Num_sessions s' = Num_sessions s" "recv_ret s' = recv_ret s" by (rule t(1) t(2) u(2))+
  show "newcomer s' = newcomer s" "mb_of s' = mb_of s" "name_at s' = name_at s" by (simp_all add: t(3) mb_of_def name_at_def fun_eq_iff)
qed

lemma opened_idle:
  assumes "sockets_ok s"
  shows "\<exists>s1 s2. detach_both mb (upd_dmn (E_dequeue f c v) s) = Some s1 \<and> Sess_attach_accept s1 = Some s2 \<and> idle s s2"
proof -
  let ?s = "upd_dmn (E_dequeue f c v) s"
  have q: "idle s ?s" by (simp add: idle_def untouched_def quiet_def upd_dmn_def E_dequeue_def)
  obtain s1 where s1: "detach_both mb ?s = Some s1" "idle ?s s1" using detach_both_idle by blast
  have "sockets_ok s1" using assms q s1(2) by (simp add: sockets_ok_def idle_def)
  then obtain s2 where s2: "Sess_attach_accept s1 = Some s2" "idle s1 s2" using attach_accept_idle by blast
  show ?thesis using s1(1) s2(1) idle_trans [OF idle_trans [OF q s1(2)] s2(2)] by blast
qed

section \<open>The greeting\<close>

lemma clamp_cases: "clamp_priority p = 0 \<or> clamp_priority p = 1"
  by (auto simp: clamp_priority_def)

text \<open>What the newcomer is after the greeting.\<close>

definition greeted_as :: "bool \<Rightarrow> int \<Rightarrow> byte list \<Rightarrow> session \<Rightarrow> session" where
  "greeted_as m p nm t = (of_kind m p (t\<lparr>ss_lib_version := (4, 0, 0)\<rparr>))\<lparr>ss_name := padded nm\<rparr>"

lemma greeting_steps:
  assumes nm: "cstr name \<noteq> []" "length (cstr name) \<le> MAX_PRIVATE_NAME" "list_all legal_char (cstr name)"
    and h: "hands (recv_ret s) (recv_calls s) (mb_of s) (connect_bytes (Some name) priority memb) [2, 1, 2, 10]"
    and ok: "sessions_ok s L" "length L < MAX_SESSIONS" and new: "\<forall>i \<in> set L. name_at s i \<noteq> cstr name"
  shows "\<exists>s1 s2 s3 place. greet_version s = Inr s1 \<and> greet_conn s1 = Inr (int (length (cstr name)), s2) \<and>
    greet_name (length (cstr name)) s2 = Some (Inr (place, s3)) \<and> greeted s s3 \<and>
    newcomer s3 = greeted_as memb (clamp_priority priority) (cstr name) (newcomer s) \<and>
    find_place (Sessions s3) (ss_name (newcomer s3)) (Sessions_head s3) = Some (place, True)"
proof -
  have l: "length (cstr name) \<le> 10" using nm(2) by (simp add: MAX_PRIVATE_NAME_def)
  have b: "connect_bytes (Some name) priority memb = 4 # 0 # 0 #
      word_of_int ((if memb then 1 else 0) + 16 * clamp_priority priority) # of_nat (length (cstr name)) # cstr name"
    using l by (simp add: connect_bytes_def SP_MAJOR_VERSION_def SP_MINOR_VERSION_def SP_PATCH_VERSION_def MAX_PRIVATE_NAME_def Let_def)
  from version_spec [OF h [unfolded b]] obtain s1 where
    s1: "greet_version s = Inr s1" "stepped 2 (\<lambda>t. t\<lparr>ss_lib_version := (4, 0, 0)\<rparr>) s s1"
    "hands (recv_ret s1) (recv_calls s1) (mb_of s1)
       (word_of_int ((if memb then 1 else 0) + 16 * clamp_priority priority) # of_nat (length (cstr name)) # cstr name) [2, 10]" by blast
  from conn_spec [OF clamp_cases l s1(3)] obtain s2 where
    s2: "greet_conn s1 = Inr (int (length (cstr name)), s2)" "stepped 1 (of_kind memb (clamp_priority priority)) s1 s2"
    "hands (recv_ret s2) (recv_calls s2) (mb_of s2) (cstr name) [10]" by blast
  note st2 = stepped_trans [OF s1(2) s2(2)]
  have g2: "greeted s s2" using st2 by (simp add: stepped_def)
  have ok2: "sessions_ok s2 L" using greeted_table(1) [OF g2] ok(1) by simp
  have "\<forall>i \<in> set L. i \<noteq> MAX_SESSIONS" using ok(1) by (auto simp: sessions_ok_def sorted_ok_def)
  then have new2: "\<forall>i \<in> set L. name_at s2 i \<noteq> cstr name" using new greeted_table(2) [OF g2] by simp
  from name_spec [OF nm(1) l nm(3) s2(3) ok2 ok(2) new2] obtain s3 place where
    s3: "greet_name (length (cstr name)) s2 = Some (Inr (place, s3))" "stepped 1 (\<lambda>t. t\<lparr>ss_name := padded (cstr name)\<rparr>) s2 s3"
    "find_place (Sessions s3) (ss_name (newcomer s3)) (Sessions_head s3) = Some (place, True)" by blast
  note st3 = stepped_trans [OF st2 s3(2)]
  have "greeted s s3" "newcomer s3 = greeted_as memb (clamp_priority priority) (cstr name) (newcomer s)"
    using st3 by (simp_all add: stepped_def greeted_as_def)
  then show ?thesis using s1(1) s2(1) s3(1,3) by blast
qed

lemma memb_kind: "Is_memb_session (Set_preauth_session (if m then Set_memb_session st else Clear_memb_session st)) = m"
  "Is_preauth_session (Set_preauth_session st)"
proof -
  have "(st AND NOT MEMB_SESSION OR PRE_AUTH_SESSION) AND MEMB_SESSION = 0"
    "((st OR MEMB_SESSION) OR PRE_AUTH_SESSION) AND MEMB_SESSION = MEMB_SESSION"
    "(st OR PRE_AUTH_SESSION) AND PRE_AUTH_SESSION = PRE_AUTH_SESSION"
    by (rule bit_eqI, auto simp: MEMB_SESSION_def PRE_AUTH_SESSION_def bit_simps)+
  then show "Is_memb_session (Set_preauth_session (if m then Set_memb_session st else Clear_memb_session st)) = m"
    "Is_preauth_session (Set_preauth_session st)"
    by (simp_all add: Is_memb_session_def Set_preauth_session_def Set_memb_session_def Clear_memb_session_def Is_preauth_session_def)
      (simp_all add: MEMB_SESSION_def PRE_AUTH_SESSION_def)
qed

text \<open>The newcomer is in the table, and is asked how it authenticates.\<close>

definition entered :: "server \<Rightarrow> nat list \<Rightarrow> nat \<Rightarrow> byte list \<Rightarrow> bool \<Rightarrow> int \<Rightarrow> server \<Rightarrow> bool" where
  "entered s L n nm m p s' \<longleftrightarrow> n \<notin> set L \<and> (\<exists>L1 L2. L = L1 @ L2 \<and> sessions_ok s' (L1 @ n # L2)) \<and> name_at s' n = nm \<and>
     mbox_at s' n = mb_of s \<and> Is_preauth_session (ss_status (Sessions s' n)) \<and> Is_memb_session (ss_status (Sessions s' n)) = m \<and>
     ss_priority (Sessions s' n) = p \<and> ss_lib_version (Sessions s' n) = (4, 0, 0) \<and> Num_sessions s' = Num_sessions s + 1"

lemma greets:
  assumes ok: "sessions_ok (srv x) L" "length L < MAX_SESSIONS"
    and mb: "0 \<le> mb_of (srv x)" "mb_of (srv x) < FD_SETSIZE" and sk: "sockets_ok (srv x)"
    and nm: "cstr name \<noteq> []" "length (cstr name) \<le> MAX_PRIVATE_NAME" "list_all legal_char (cstr name)"
    and new: "\<forall>i \<in> set L. name_at (srv x) i \<noteq> cstr name"
    and h: "hands (recv_ret (srv x)) (recv_calls (srv x)) (mb_of (srv x)) (connect_bytes (Some name) priority memb) [2, 1, 2, 10]"
    and al: "Acm_auth_get_allowed_list x = Some allowed" "allowed \<noteq> []" and all: "takes_all (srv x) (mb_of (srv x))"
  shows "\<exists>x' n. Sess_accept_continue x = Some x' \<and> entered (srv x) L n (cstr name) memb (clamp_priority priority) (srv x') \<and>
    sock_out (srv x') (mb_of (srv x)) = sock_out (srv x) (mb_of (srv x)) @ of_nat (length allowed) # allowed"
proof -
  let ?mb = "mb_of (srv x)" and ?nm = "cstr name"
  obtain s1 s2 where o: "detach_both ?mb (upd_dmn (E_dequeue Sess_accept_continue2_f 1 0) (srv x)) = Some s1"
    "Sess_attach_accept s1 = Some s2" "idle (srv x) s2" using opened_idle [OF sk] by blast
  note t2 = idle_table [OF o(3)]
  have rc: "recv_calls s2 = recv_calls (srv x)" using o(3) by (simp add: idle_def)
  have h2: "hands (recv_ret s2) (recv_calls s2) (mb_of s2) (connect_bytes (Some name) priority memb) [2, 1, 2, 10]"
    using h t2 rc by simp
  have ok2: "sessions_ok s2 L" "\<forall>i \<in> set L. name_at s2 i \<noteq> ?nm" using ok(1) new t2 by simp_all
  from greeting_steps [OF nm h2 ok2(1) ok(2) ok2(2)] obtain s3 s4 s5 place where
    g: "greet_version s2 = Inr s3" "greet_conn s3 = Inr (int (length ?nm), s4)" "greet_name (length ?nm) s4 = Some (Inr (place, s5))"
      "greeted s2 s5" "newcomer s5 = greeted_as memb (clamp_priority priority) ?nm (newcomer s2)"
      "find_place (Sessions s5) (ss_name (newcomer s5)) (Sessions_head s5) = Some (place, True)" by blast
  have l: "length ?nm \<le> 10" using nm(2) by (simp add: MAX_PRIVATE_NAME_def)
  have n5: "cstr (ss_name (newcomer s5)) = ?nm" "mb_of s5 = ?mb" "ss_lib_version (newcomer s5) = (4, 0, 0)"
    "ss_priority (newcomer s5) = clamp_priority priority"
    using g(5) t2(3) cstr_padded [OF nm(3) l] by (simp_all add: greeted_as_def mb_of_def of_kind_def)
  have ok5: "sessions_ok s5 L" using greeted_table(1) [OF g(4)] ok2(1) by simp
  have "\<forall>i \<in> set L. i \<noteq> MAX_SESSIONS" using ok(1) by (auto simp: sessions_ok_def sorted_ok_def)
  then have new5: "\<forall>i \<in> set L. name_at s5 i \<noteq> cstr (ss_name (newcomer s5))"
    using ok2(2) greeted_table(2) [OF g(4)] n5(1) by simp
  from enter_spec [OF ok5 ok(2) new5 g(6)] obtain n s6 where
    e: "enter_session place s5 = Some (n, s6)" "n \<notin> set L" "\<exists>L1 L2. L = L1 @ L2 \<and> sessions_ok s6 (L1 @ n # L2)" "name_at s6 n = ?nm"
      "mbox_at s6 n = ?mb" "ss_status (Sessions s6 n) = Set_preauth_session (ss_status (newcomer s5))"
      "ss_priority (Sessions s6 n) = clamp_priority priority" "ss_lib_version (Sessions s6 n) = (4, 0, 0)"
      "Num_sessions s6 = Num_sessions s5 + 1" "sock_out s6 = sock_out s5" "send_ret s6 = send_ret s5"
    using n5 by auto
  have kind: "Is_preauth_session (ss_status (Sessions s6 n))" "Is_memb_session (ss_status (Sessions s6 n)) = memb"
    using e(6) g(5) by (simp_all add: greeted_as_def of_kind_def memb_kind)
  have net: "Num_sessions s5 = Num_sessions (srv x)" "sock_out s5 = sock_out (srv x)" "send_ret s5 = send_ret (srv x)"
    using g(4) o(3) t2(5) by (simp_all add: greeted_def idle_def)
  have "takes_all s6 ?mb" using all e(11) net(3) by (simp add: takes_all_def)
  let ?s = "send_to ?mb allowed (send_char ?mb (int (length allowed)) s6)"
  from attach_both_idle [OF mb] obtain s7 where s7: "attach_both ?mb Sess_recv_client_auth_fd 0 ?s = Some s7" "idle ?s s7" by blast
  have io: "untouched s6 ?s" using untouched_trans [OF untouched_io(2) untouched_io(1)] .
  note t = untouched_table [OF io]
  note t7 = idle_table [OF s7(2)]
  have s7s: "Sessions s7 = Sessions s6" using s7(2) io by (simp add: idle_def untouched_def)
  have "entered (srv x) L n ?nm memb (clamp_priority priority) s7"
    using e(2-5,7-9) kind t7(1,5) t net(1) s7s by (simp add: entered_def name_at_def mbox_at_def)
  moreover have "sock_out s7 ?mb = sock_out (srv x) ?mb @ of_nat (length allowed) # allowed"
    using s7(2) \<open>takes_all s6 ?mb\<close> e(10) net(2) by (simp add: idle_def send_to_out char_out)
  moreover have "Sess_accept_continue x = Some (x\<lparr>srv := s7\<rparr>)"
  proof -
    have mx: "ss_mbox (Sessions s6 n) = ?mb" using e(5) by (simp add: mbox_at_def)
    have al': "Acm_auth_get_allowed_list (x\<lparr>srv := s\<rparr>) = Some allowed" for s
      using al(1) by (simp add: Acm_auth_get_allowed_list_def)
    have adm: "admit_new n (x\<lparr>srv := s5\<rparr>) s6 = Some s7"
      using al(2) s7(1) by (simp add: admit_new_def al' mx Let_def)
    have "name_newcomer (int (length ?nm)) (x\<lparr>srv := s4\<rparr>) = Some (Inr (place, x\<lparr>srv := s5\<rparr>))"
      using nm(1) g(3) by (simp add: name_newcomer_def)
    moreover have "admit place (x\<lparr>srv := s5\<rparr>) = Some (x\<lparr>srv := s7\<rparr>)"
      using e(1) adm n5(3) by (simp add: admit_def on_srv_def version_code_def)
    moreover have "ss_mbox (newcomer (upd_dmn (E_dequeue Sess_accept_continue2_f 1 0) (srv x))) = ?mb"
      by (simp add: mb_of_def upd_dmn_def)
    ultimately show ?thesis using o(1,2) g(1,2) by (simp add: Sess_accept_continue_def Let_def)
  qed
  ultimately show ?thesis by (intro exI [of _ "x\<lparr>srv := s7\<rparr>"] exI [of _ n]) simp
qed

text \<open>
  C40: The daemon understands the greeting of its library.  If what it reads of a new connection are the bytes that
  SP_connect sends with a name that is legal and not in use, Sess_accept_continue enters that name in the table of
  sessions - in its place, nothing else moves - with the mailbox, the priority and the kind of session asked for and
  the version of the library, marks it as not yet authenticated, and sends the list of the allowed methods.
\<close>

theorem Greeting_understood:
  assumes "sessions_ok (srv x) L" and "length L < MAX_SESSIONS"
    and "0 \<le> mb_of (srv x)" and "mb_of (srv x) < FD_SETSIZE" and "sockets_ok (srv x)"
    and "cstr name \<noteq> []" and "length (cstr name) \<le> MAX_PRIVATE_NAME" and "list_all legal_char (cstr name)"
    and "\<forall>i \<in> set L. name_at (srv x) i \<noteq> cstr name"
    and "hands (recv_ret (srv x)) (recv_calls (srv x)) (mb_of (srv x)) (connect_bytes (Some name) priority memb) [2, 1, 2, 10]"
    and "Acm_auth_get_allowed_list x = Some allowed" and "allowed \<noteq> []" and "takes_all (srv x) (mb_of (srv x))"
  shows "\<exists>x' n. Sess_accept_continue x = Some x' \<and> entered (srv x) L n (cstr name) memb (clamp_priority priority) (srv x') \<and>
    sock_out (srv x') (mb_of (srv x)) = sock_out (srv x) (mb_of (srv x)) @ of_nat (length allowed) # allowed"
  by (rule greets [OF assms])

text \<open>A second client, \<open>b\<close>, comes to the daemon of the client \<open>a\<close>.\<close>

definition at_the_door :: front where
  "at_the_door = acm_state.extend sample_acm
     \<lparr>srv = upd_session MAX_SESSIONS (\<lambda>t. t\<lparr>ss_mbox := 9\<rparr>) ((sample_server 0)\<lparr>send_ret := (\<lambda>_ _ l. int l),
        recv_ret := (\<lambda>k _ _. Received (if k = 0 then [4, 0] else if k = 1 then [0] else if k = 2 then [17, 1] else [98]))\<rparr>),
      accept_ret = (\<lambda>_. (9, 0)), accept_calls = 1, rand_ret = (\<lambda>_. 0), rand_calls = 0\<rparr>"

theorem Greeting_understood_witness:
  "\<exists>x' n m. Sess_accept_continue at_the_door = Some x' \<and> entered (srv at_the_door) [m] n [98] True 1 (srv x') \<and>
     sock_out (srv x') 9 = [5, 78, 85, 76, 76, 32]"
proof -
  obtain n where n: "sessions_ok one_client [n]" "name_at one_client n = [97]" using one_client_ok by blast
  let ?x = "at_the_door" and ?t = "(sample_server 0)\<lparr>send_ret := (\<lambda>_ _ l. int l),
    recv_ret := (\<lambda>k _ _. Received (if k = 0 then [4, 0] else if k = 1 then [0] else if k = 2 then [17, 1] else [98]))\<rparr>"
  have x: "srv ?x = upd_session MAX_SESSIONS (\<lambda>t. t\<lparr>ss_mbox := 9\<rparr>) ?t" by (simp add: at_the_door_def acm_state.defs)
  have g: "greeted ?t (srv ?x)" unfolding x by (rule greeted_upd)
  have t: "sessions_ok ?t [n]" "name_at ?t n = [97]"
    using n sample_table(1,3) [of 0] sessions_ok_cong [of ?t "sample_server 0"]
    by (simp_all add: nexts_def prevs_def hashes_def name_at_def mbox_at_def fun_eq_iff)
  have "n \<noteq> MAX_SESSIONS" using t(1) by (auto simp: sessions_ok_def sorted_ok_def)
  then have ok: "sessions_ok (srv ?x) [n]" "name_at (srv ?x) n = [97]" using greeted_table [OF g] t by simp_all
  have mb: "mb_of (srv ?x) = 9" by (simp add: x mb_of_def upd_session_def)
  have sk: "sockets_ok (srv ?x)"
    by (simp add: x sockets_ok_def upd_session_def FD_SETSIZE_def sample_server_def sess_table.defs sess_layer.defs)
  have c: "connect_bytes (Some [98, 0]) 1 True = [4, 0, 0, 17, 1, 98]" "cstr [98, 0 :: byte] = [98]" "legal_char 98"
    "clamp_priority 1 = 1" by code_simp+
  have h: "hands (recv_ret (srv ?x)) (recv_calls (srv ?x)) (mb_of (srv ?x)) (connect_bytes (Some [98, 0]) 1 True) [2, 1, 2, 10]"
    unfolding c by (simp add: x upd_session_def sample_server_def sess_table.defs sess_layer.defs)
  have al: "Acm_auth_get_allowed_list ?x = Some [78, 85, 76, 76, 32]"
  proof -
    have "Acm_auth_get_allowed_list ?x = Acm_auth_get_allowed_list sample_acm"
      by (simp add: Acm_auth_get_allowed_list_def at_the_door_def acm_state.defs)
    also have "\<dots> = Some [78, 85, 76, 76, 32]" by code_simp
    finally show ?thesis .
  qed
  have o: "sock_out (srv ?x) = (\<lambda>_. [])" "takes_all (srv ?x) 9"
    by (simp_all add: x upd_session_def takes_all_def sample_server_def sess_table.defs sess_layer.defs)
  have "length [n] < MAX_SESSIONS" "0 \<le> mb_of (srv ?x)" "mb_of (srv ?x) < FD_SETSIZE" "cstr [98, 0 :: byte] \<noteq> []"
    "length (cstr [98, 0 :: byte]) \<le> MAX_PRIVATE_NAME" "list_all legal_char (cstr [98, 0])"
    "\<forall>i \<in> set [n]. name_at (srv ?x) i \<noteq> cstr [98, 0]"
    using ok(2) c(3) by (simp_all add: mb c(2) MAX_SESSIONS_def MAX_FD_EVENTS_def FD_SETSIZE_def MAX_PRIVATE_NAME_def)
  from Greeting_understood [OF ok(1) this(1-3) sk this(4-7) h al] o c(2,4) mb show ?thesis by fastforce
qed

end
