(* ===== verification/Spec2Isabelle.thy ===== *)
theory Spec2Isabelle
  imports Token_visit Sending Topology Packing Requests Attempts Client_stream Group_targets Group_agreement Group_subtractive
    Group_limits Client_delivery Sp_views Greeting
begin

text \<open>
  The Spread daemon (\<open>spread-src-4.0.0/daemon\<close>), the group communication server that the
  application of this repository talks to.

  PARTS AND HOW THEY INTERACT.  The daemons of a configuration form a logical ring.  A token
  travels around the ring; its holder answers retransmission requests, sends new packets, asks for
  missing ones and updates the sequence number that all members have received (\<open>protocol.c\<close>,
  \<open>flow_control.c\<close>).  Packets are packed and routed by \<open>network.c\<close> over \<open>data_link.c\<close>; timers and
  descriptors are dispatched by \<open>events.c\<close>.  When the token is lost, \<open>membership.c\<close> gathers the daemons
  it can reach, forms a new ring with a token that goes around twice, recovers the packets of
  the old rings and installs a transitional and a regular membership.  Delivered packets become
  messages (\<open>message.c\<close>) for the session layer (\<open>session.c\<close>), which lets clients in (\<open>acm.c\<close>), serves them
  and hands joins, leaves, disconnects and memberships to the groups (\<open>groups.c\<close>).  An application
  reaches its daemon through the client library (\<open>libspread/sp.c\<close>).

  THEORIES AND SOURCES.
  Prelude: loops over lists and ranges, C integer conversions, the exit monad.
  Arch, Wire: \<open>arch.h\<close>, \<open>net_types.h\<close>: type bits, headers, byte order, layout of headers in buffers.
  Configuration: \<open>configuration.c\<close>.  Events, Fd_events: \<open>events.c\<close>.  Scatter, Daemon: \<open>scatter.h\<close>,
  \<open>prot_body.h\<close> and the global state, one extensible record that grows from layer to layer.
  Network: \<open>network.c\<close> and \<open>DL_send\<close> of \<open>data_link.c\<close>.  Flow_control, Status: the files of these names.
  Prot_deliver, Prot_token, Protocol: \<open>protocol.c\<close>, delivery, the token, and the rest.
  Memb_sets, Memb_core, Memb_form: \<open>membership.c\<close>, its sets, its states and packets, its form tokens.
  Message: \<open>message.c\<close>.  Session_table, Session_io: the table, hash chains and output queues of
  \<open>session.c\<close>.  Group_data, Group_notify, Group_ops, Group_exchange, Group_memb: \<open>groups.c\<close>, its data, its
  notices to clients, joins and leaves, the exchange of GROUPS messages, memberships.
  Session_read, Session_deliver, Session_accept, Session_connect: the rest of \<open>session.c\<close>, reading
  clients, delivering to them, greeting and authenticating them.  Acm: \<open>acm.c\<close>, \<open>auth-ip.c\<close>,
  \<open>auth-null.c\<close>, \<open>acp-permit.c\<close>.  Sp_library, Sp_memb, Sp_connect: \<open>libspread/sp.c\<close>, sending and receiving,
  taking membership messages apart, and connecting.

  WHAT IS SHOWN.
  Ring: an abstract ring of members with a token, as an inductive step relation; reachable states
  keep the invariants, from which Aru is stable when the token starts with an aru of 0.
  Token_visit: the handlers of the daemon are steps of that ring.  Requests: the retransmission
  requests of a token as a list of entries.  Fragments, Sending, Delivery: messages are cut, numbered,
  mixed with those of other senders and reassembled.  Packing, Topology: packed datagrams of either
  byte order; the route of the token is the ring.  Forming, Attempts: what the form tokens collect
  and what an attempt arms, resets and counts.  Session_table, Client_stream: the table stays
  well linked, lookups find what was inserted, and the bytes a client has read and will read are
  the messages written to it, however \<open>send\<close> splits them.
  Group_readers to Group_targets: every local member gets a notice once; joins, leaves and
  disconnects refine operations on sets of names, so that daemons that deliver the same operations agree;
  the targets of a message are the sessions of the members, once each.  Vs_sets: the members are
  listed by the daemons they came with.
  Group_bufs, Group_limits: GROUPS buffers end, fit and hold each daemon once.  Group_merge,
  Group_senders, Group_walks, Group_unions, Group_agreement: reading a leader's messages in any order
  adds what the leader has, and after an exchange all daemons agree.  Group_partitions,
  Group_subtractive: a ring change that only takes daemons away leaves the members of those that
  stay.  Client_input: whatever pieces its bytes come in, a client's messages are taken in whole.
  Client_delivery: a message goes once to each session its groups name.  Authentication: who is let in.
  Sp_receive, Sp_multicast, Sp_views: between the client library and the daemon; what is received is what
  was written, what is sent is what the daemon accepts, and a membership message is taken apart into
  the sets it was built from.  Greeting, Connecting: the daemon understands what the library greets it with, and
  the library what the daemon answers.  Sample and Group_sample hold the concrete daemons of the witnesses.

  INTERFACES.  Locales state what one part relies on in another: the timer queue, the sets of process
  ids of the form tokens, a channel of fragments, an ordered index (the skiplists of groups, daemons
  and members), a walk over all groups.  Each is interpreted on the definitions of the
  code in the theory that provides them.

  HOW STATE AND ERRORS CORRESPOND.  The static and global variables are fields of one record; a pointer
  into an array is its index, a linked list or a skiplist is the list of its entries (an iterator is the
  rest of the list), an array with a count is a list.  The result \<open>None\<close> stands for everything after
  which the daemon does not go on: \<open>Alarm( EXIT, ...)\<close> and \<open>SPLOG_FATAL\<close>, a failed assertion, an access
  outside an array, a loop that does not end.  Loops without an evident bound are partial functions in the
  option type; that they end is proved where it holds.  Sequence numbers and counters are int with the
  conversions of the stores written out; addresses, types and wire fields are words.

  OUTSIDE THE MODEL, AS PARAMETERS.  The results of \<open>sendmsg\<close>, \<open>send\<close>, \<open>recv\<close> and \<open>accept\<close> are streams
  in the state; so are clock readings, random numbers, received datagrams, and what the parser and
  the resolver return.  In the client library \<open>sp_send_ret\<close> and \<open>sp_piece\<close> say how much a call takes or gets.  The kernel is relied on not to take more bytes than it is given and not to hand out a
  descriptor again before its session has left the table.  \<open>size_t\<close> has 64 bits and the machine is
  little endian; fresh buffers are zero.

  ABSTRACTIONS.  Memory pools and reference counts are left out: messages and packets are values.  The form
  tokens are structured values instead of bytes.  The calls of the protocol into the session layer
  are recorded as a list, and the session layer holds the daemon below it.  An index whose comparison
  asserts that a daemon is configured counts as failing whenever it could compare a foreign one.
  Printing and logging are left out.

  BOUNDS.  A group has at most 2000 members in the properties of its notices, so that they fit a message of
  100 elements; at most 3121 members of one daemon fit a GROUPS buffer; a session may be sent as
  many messages as its queue of 1000 has room for.

  NOT MODELLED.  Setting up channels and \<open>DL_recv\<close>; the flush layer of the client library
  (\<open>fl.c\<close>); group masks, which only protocol version 4 uses (this is version 3); memory pools (\<open>memory.c\<close>),
  alarms and logs; the container library \<open>stdutil\<close>, whose skiplist and arrays the groups use through
  their specification; the monitor; the generated lexer and parser; the example programs; the Java
  application, which only calls the client library.
\<close>

end
